(* ===== verification/PktQueue.thy ===== *)
theory PktQueue
  imports Prelude
begin

text \<open>
  The multiple-precedence packet queue of brcmutil/utils.c and include/brcmu_utils.h.
  Packets are an arbitrary type; an \<open>sk_buff_head\<close> is the list of its packets, head first.
  Every function that changes the queue returns the new queue beside its C result, and
  indexing \<open>q[prec]\<close> outside the array is \<^const>\<open>None\<close>. The multi-precedence FIFO
  contract that clients rely on is the locale \<open>prec_fifo\<close>, interpreted on the code's model.
\<close>

section \<open>Data and operations\<close>

record 'p pktq_prec =
  skblist :: "'p list"
  prec_max :: u16

record 'p pktq =
  num_prec :: u16
  hi_prec :: u16
  pq_max :: u16
  pq_len :: u16
  pq_q :: "'p pktq_prec list"

abbreviation PKTQ_MAX_PREC :: nat where
  "PKTQ_MAX_PREC \<equiv> 16"

definition pktq_full :: "'p pktq \<Rightarrow> bool" where
  "pktq_full pq \<longleftrightarrow> pq_max pq \<le> pq_len pq"

definition pktq_empty :: "'p pktq \<Rightarrow> bool" where
  "pktq_empty pq \<longleftrightarrow> pq_len pq = 0"

definition pktq_pfull :: "'p pktq \<Rightarrow> nat \<Rightarrow> bool option" where
  "pktq_pfull pq prec = do {
     e \<leftarrow> nth_opt (pq_q pq) prec;
     Some (unat (prec_max e) \<le> length (skblist e)) }"

text \<open>Storing a new packet list for one precedence.\<close>

definition pktq_setq :: "'p pktq \<Rightarrow> nat \<Rightarrow> 'p list \<Rightarrow> 'p pktq" where
  "pktq_setq pq prec l = pq\<lparr>pq_q := (pq_q pq)[prec := (pq_q pq ! prec)\<lparr>skblist := l\<rparr>]\<rparr>"

definition brcmu_pktq_penq :: "'p pktq \<Rightarrow> nat \<Rightarrow> 'p \<Rightarrow> ('p option \<times> 'p pktq) option" where
  "brcmu_pktq_penq pq prec p =
     (if pktq_full pq then Some (None, pq) else do {
        pfull \<leftarrow> pktq_pfull pq prec;
        if pfull then Some (None, pq) else do {
          e \<leftarrow> nth_opt (pq_q pq) prec;
          Some (Some p, (pktq_setq pq prec (skblist e @ [p]))
            \<lparr>pq_len := pq_len pq + 1,
             hi_prec := (if unat (hi_prec pq) < prec then ucast (of_nat prec :: u8)
                         else hi_prec pq)\<rparr>) } })"

definition brcmu_pktq_penq_head :: "'p pktq \<Rightarrow> nat \<Rightarrow> 'p \<Rightarrow> ('p option \<times> 'p pktq) option" where
  "brcmu_pktq_penq_head pq prec p =
     (if pktq_full pq then Some (None, pq) else do {
        pfull \<leftarrow> pktq_pfull pq prec;
        if pfull then Some (None, pq) else do {
          e \<leftarrow> nth_opt (pq_q pq) prec;
          Some (Some p, (pktq_setq pq prec (p # skblist e))
            \<lparr>pq_len := pq_len pq + 1,
             hi_prec := (if unat (hi_prec pq) < prec then ucast (of_nat prec :: u8)
                         else hi_prec pq)\<rparr>) } })"

definition brcmu_pktq_pdeq :: "'p pktq \<Rightarrow> nat \<Rightarrow> ('p option \<times> 'p pktq) option" where
  "brcmu_pktq_pdeq pq prec = do {
     e \<leftarrow> nth_opt (pq_q pq) prec;
     case skblist e of
       [] \<Rightarrow> Some (None, pq)
     | p # ps \<Rightarrow> Some (Some p, (pktq_setq pq prec ps)\<lparr>pq_len := pq_len pq - 1\<rparr>) }"

text \<open>The walk of \<open>brcmu_pktq_pdeq_match\<close>: the first packet the match function accepts, and the
  list without it; no match function accepts every packet.\<close>

fun take_match :: "('p \<Rightarrow> bool) option \<Rightarrow> 'p list \<Rightarrow> ('p \<times> 'p list) option" where
  "take_match fn [] = None"
| "take_match fn (p # ps) =
     (if (case fn of None \<Rightarrow> True | Some f \<Rightarrow> f p) then Some (p, ps)
      else map_option (\<lambda>(x, xs). (x, p # xs)) (take_match fn ps))"

definition brcmu_pktq_pdeq_match ::
  "'p pktq \<Rightarrow> nat \<Rightarrow> ('p \<Rightarrow> bool) option \<Rightarrow> ('p option \<times> 'p pktq) option" where
  "brcmu_pktq_pdeq_match pq prec match_fn = do {
     e \<leftarrow> nth_opt (pq_q pq) prec;
     case take_match match_fn (skblist e) of
       None \<Rightarrow> Some (None, pq)
     | Some (p, ps) \<Rightarrow> Some (Some p, (pktq_setq pq prec ps)\<lparr>pq_len := pq_len pq - 1\<rparr>) }"

definition brcmu_pktq_pdeq_tail :: "'p pktq \<Rightarrow> nat \<Rightarrow> ('p option \<times> 'p pktq) option" where
  "brcmu_pktq_pdeq_tail pq prec = do {
     e \<leftarrow> nth_opt (pq_q pq) prec;
     if skblist e = [] then Some (None, pq)
     else Some (Some (last (skblist e)),
                (pktq_setq pq prec (butlast (skblist e)))\<lparr>pq_len := pq_len pq - 1\<rparr>) }"

text \<open>The loop of \<open>brcmu_pktq_pflush\<close>: (packets freed, packets kept, length counter).\<close>

fun pflush_walk :: "('p \<Rightarrow> bool) option \<Rightarrow> 'p list \<Rightarrow> u16 \<Rightarrow> 'p list \<times> 'p list \<times> u16" where
  "pflush_walk fn [] n = ([], [], n)"
| "pflush_walk fn (p # ps) n =
     (if (case fn of None \<Rightarrow> True | Some f \<Rightarrow> f p)
      then (case pflush_walk fn ps (n - 1) of (freed, kept, m) \<Rightarrow> (p # freed, kept, m))
      else (case pflush_walk fn ps n of (freed, kept, m) \<Rightarrow> (freed, p # kept, m)))"

definition brcmu_pktq_pflush ::
  "'p pktq \<Rightarrow> nat \<Rightarrow> ('p \<Rightarrow> bool) option \<Rightarrow> ('p list \<times> 'p pktq) option" where
  "brcmu_pktq_pflush pq prec fn = do {
     e \<leftarrow> nth_opt (pq_q pq) prec;
     case pflush_walk fn (skblist e) (pq_len pq) of
       (freed, kept, n) \<Rightarrow> Some (freed, (pktq_setq pq prec kept)\<lparr>pq_len := n\<rparr>) }"

fun pktq_flush_precs ::
  "'p pktq \<Rightarrow> nat list \<Rightarrow> ('p \<Rightarrow> bool) option \<Rightarrow> ('p list \<times> 'p pktq) option" where
  "pktq_flush_precs pq [] fn = Some ([], pq)"
| "pktq_flush_precs pq (prec # precs) fn = do {
     (freed, pq') \<leftarrow> brcmu_pktq_pflush pq prec fn;
     (freed', pq'') \<leftarrow> pktq_flush_precs pq' precs fn;
     Some (freed @ freed', pq'') }"

definition brcmu_pktq_flush ::
  "'p pktq \<Rightarrow> ('p \<Rightarrow> bool) option \<Rightarrow> ('p list \<times> 'p pktq) option" where
  "brcmu_pktq_flush pq fn = pktq_flush_precs pq [0..<unat (num_prec pq)] fn"

text \<open>\<open>brcmu_pktq_init\<close> zeroes and initialises only the first \<open>num_prec\<close> precedences of the
  memory it is given; the entries behind them keep whatever they held.\<close>

definition brcmu_pktq_init :: "'p pktq \<Rightarrow> nat \<Rightarrow> nat \<Rightarrow> 'p pktq option" where
  "brcmu_pktq_init pq n max_len =
     (if n \<le> length (pq_q pq)
      then Some \<lparr>num_prec = of_nat n, hi_prec = 0, pq_max = of_nat max_len, pq_len = 0,
                 pq_q = replicate n \<lparr>skblist = [], prec_max = of_nat max_len\<rparr> @ drop n (pq_q pq)\<rparr>
      else None)"

function pktq_scan_up :: "'p pktq_prec list \<Rightarrow> nat \<Rightarrow> nat \<Rightarrow> nat option" where
  "pktq_scan_up qs prec hi =
     (if prec < hi then do {
        e \<leftarrow> nth_opt qs prec;
        if skblist e \<noteq> [] then Some prec else pktq_scan_up qs (Suc prec) hi }
      else Some prec)"
  by pat_completeness auto
termination
  by (relation "measure (\<lambda>(qs, prec, hi). hi - prec)") auto

declare pktq_scan_up.simps [simp del]

text \<open>The result is the packet, and the precedence the code stores through \<open>prec_out\<close>.\<close>

definition brcmu_pktq_peek_tail :: "'p pktq \<Rightarrow> ('p \<times> nat) option option" where
  "brcmu_pktq_peek_tail pq =
     (if pktq_empty pq then Some None else do {
        prec \<leftarrow> pktq_scan_up (pq_q pq) 0 (unat (hi_prec pq));
        e \<leftarrow> nth_opt (pq_q pq) prec;
        Some (if skblist e = [] then None else Some (last (skblist e), prec)) })"

text \<open>\<open>prec_bmp & (1 << prec)\<close>; a shift by 32 or more is undefined.\<close>

definition bmp_test :: "u32 \<Rightarrow> nat \<Rightarrow> bool option" where
  "bmp_test bmp prec = (if prec < 32 then Some (bit bmp prec) else None)"

fun pktq_mlen_loop :: "'p pktq_prec list \<Rightarrow> u32 \<Rightarrow> nat list \<Rightarrow> nat \<Rightarrow> nat option" where
  "pktq_mlen_loop qs bmp [] len = Some len"
| "pktq_mlen_loop qs bmp (prec # precs) len = do {
     sel \<leftarrow> bmp_test bmp prec;
     if sel then do {
       e \<leftarrow> nth_opt qs prec;
       pktq_mlen_loop qs bmp precs (len + length (skblist e)) }
     else pktq_mlen_loop qs bmp precs len }"

definition brcmu_pktq_mlen :: "'p pktq \<Rightarrow> u32 \<Rightarrow> nat option" where
  "brcmu_pktq_mlen pq prec_bmp =
     pktq_mlen_loop (pq_q pq) prec_bmp [0..<Suc (unat (hi_prec pq))] 0"

fun mdeq_hi :: "'p pktq_prec list \<Rightarrow> nat \<Rightarrow> nat option" where
  "mdeq_hi qs 0 = Some 0"
| "mdeq_hi qs (Suc n) = do {
     e \<leftarrow> nth_opt qs (Suc n);
     if skblist e = [] then mdeq_hi qs n else Some (Suc n) }"

definition mdeq_hit :: "'p pktq_prec list \<Rightarrow> u32 \<Rightarrow> nat \<Rightarrow> bool option" where
  "mdeq_hit qs bmp prec = do {
     sel \<leftarrow> bmp_test bmp prec;
     if \<not> sel then Some False else do {
       e \<leftarrow> nth_opt qs prec;
       Some (skblist e \<noteq> []) } }"

fun mdeq_pick :: "'p pktq_prec list \<Rightarrow> u32 \<Rightarrow> nat \<Rightarrow> nat option option" where
  "mdeq_pick qs bmp 0 = do {
     hit \<leftarrow> mdeq_hit qs bmp 0;
     Some (if hit then Some 0 else None) }"
| "mdeq_pick qs bmp (Suc n) = do {
     hit \<leftarrow> mdeq_hit qs bmp (Suc n);
     if hit then Some (Some (Suc n)) else mdeq_pick qs bmp n }"

definition brcmu_pktq_mdeq :: "'p pktq \<Rightarrow> u32 \<Rightarrow> (('p \<times> nat) option \<times> 'p pktq) option" where
  "brcmu_pktq_mdeq pq prec_bmp =
     (if pktq_empty pq then Some (None, pq) else do {
        hi \<leftarrow> mdeq_hi (pq_q pq) (unat (hi_prec pq));
        let pq = pq\<lparr>hi_prec := of_nat hi\<rparr> in do {
        pick \<leftarrow> mdeq_pick (pq_q pq) prec_bmp hi;
        case pick of
          None \<Rightarrow> Some (None, pq)
        | Some prec \<Rightarrow> do {
            (r, pq') \<leftarrow> brcmu_pktq_pdeq pq prec;
            Some (map_option (\<lambda>p. (p, prec)) r, pq') } } })"

section \<open>Revision strings\<close>

abbreviation BRCMU_BOARDREV_LEN :: nat where
  "BRCMU_BOARDREV_LEN \<equiv> 8"

abbreviation BRCMU_DOTREV_LEN :: nat where
  "BRCMU_DOTREV_LEN \<equiv> 16"

definition hex3 :: "nat \<Rightarrow> string" where
  "hex3 n = [hex_digit (n div 256 mod 16), hex_digit (n div 16 mod 16), hex_digit (n mod 16)]"

definition brcmu_boardrev_str :: "u32 \<Rightarrow> string" where
  "brcmu_boardrev_str brev =
     (if brev < 0x100 then
        snprintf BRCMU_BOARDREV_LEN
          (decimal (unat (drop_bit 4 (brev AND 0xf0))) @ ''.'' @ decimal (unat (brev AND 0xf)))
      else
        snprintf BRCMU_BOARDREV_LEN
          ((if brev AND 0xf000 = 0x1000 then CHR ''P'' else CHR ''A'') # hex3 (unat (brev AND 0xfff))))"

definition dotval :: "u32 \<Rightarrow> nat \<Rightarrow> u8" where
  "dotval dotrev shift = ucast (drop_bit shift dotrev AND 0xFF)"

definition brcmu_dotrev_str :: "u32 \<Rightarrow> string" where
  "brcmu_dotrev_str dotrev =
     (if dotrev = 0 then snprintf BRCMU_DOTREV_LEN ''unknown''
      else
        let d0 = decimal (unat (dotval dotrev 24)); d1 = decimal (unat (dotval dotrev 16));
            d2 = decimal (unat (dotval dotrev 8)); d3 = decimal (unat (dotval dotrev 0))
        in if dotval dotrev 0 \<noteq> 0 then
             snprintf BRCMU_DOTREV_LEN (d0 @ ''.'' @ d1 @ ''.'' @ d2 @ ''.'' @ d3)
           else if dotval dotrev 8 \<noteq> 0 then
             snprintf BRCMU_DOTREV_LEN (d0 @ ''.'' @ d1 @ ''.'' @ d2)
           else snprintf BRCMU_DOTREV_LEN (d0 @ ''.'' @ d1))"

section \<open>The invariant\<close>

text \<open>
  The length counter is the number of packets in the precedences in use, it never exceeds the
  maximum, and \<open>hi_prec\<close> is a precedence in use that is at least the highest non-empty one.
\<close>

definition pktq_in_use :: "'p pktq \<Rightarrow> nat" where
  "pktq_in_use pq = unat (num_prec pq)"

definition pktq_total :: "'p pktq \<Rightarrow> nat" where
  "pktq_total pq = sum_list (map (\<lambda>e. length (skblist e)) (take (pktq_in_use pq) (pq_q pq)))"

definition pktq_inv :: "'p pktq \<Rightarrow> bool" where
  "pktq_inv pq \<longleftrightarrow>
     length (pq_q pq) = PKTQ_MAX_PREC \<and> pktq_in_use pq \<le> PKTQ_MAX_PREC \<and>
     unat (pq_len pq) = pktq_total pq \<and> pq_len pq \<le> pq_max pq \<and>
     unat (hi_prec pq) < pktq_in_use pq \<and>
     (\<forall>p < pktq_in_use pq. skblist (pq_q pq ! p) \<noteq> [] \<longrightarrow> p \<le> unat (hi_prec pq))"

text \<open>The packets of each precedence in use.\<close>

definition pktq_seq :: "'p pktq \<Rightarrow> nat \<Rightarrow> 'p list" where
  "pktq_seq pq c = (if c < pktq_in_use pq then skblist (pq_q pq ! c) else [])"

text \<open>One update of the packet list, the counter and the hint; every operation is of this
  shape.\<close>

definition pktq_put :: "'p pktq \<Rightarrow> nat \<Rightarrow> 'p list \<Rightarrow> u16 \<Rightarrow> u16 \<Rightarrow> 'p pktq" where
  "pktq_put pq prec l n hi = (pktq_setq pq prec l)\<lparr>pq_len := n, hi_prec := hi\<rparr>"

lemma pktq_put_sel [simp]:
  "num_prec (pktq_put pq prec l n hi) = num_prec pq"
  "pq_max (pktq_put pq prec l n hi) = pq_max pq"
  "pq_len (pktq_put pq prec l n hi) = n"
  "hi_prec (pktq_put pq prec l n hi) = hi"
  "pktq_in_use (pktq_put pq prec l n hi) = pktq_in_use pq"
  "pq_q (pktq_put pq prec l n hi) = (pq_q pq)[prec := (pq_q pq ! prec)\<lparr>skblist := l\<rparr>]"
  by (simp_all add: pktq_put_def pktq_setq_def pktq_in_use_def)

lemma pktq_put_hi: "(pktq_setq pq prec l)\<lparr>pq_len := n\<rparr> = pktq_put pq prec l n (hi_prec pq)"
  by (simp add: pktq_put_def pktq_setq_def)

lemma pktq_put_total:
  assumes "pktq_inv pq" and "prec < pktq_in_use pq"
  shows "pktq_total (pktq_put pq prec l n hi) + length (skblist (pq_q pq ! prec))
    = pktq_total pq + length l"
  using assms sum_list_map_update [of prec "take (pktq_in_use pq) (pq_q pq)"
      "\<lambda>e. length (skblist e)" "(pq_q pq ! prec)\<lparr>skblist := l\<rparr>"]
  by (simp add: pktq_total_def take_update_swap pktq_inv_def)

lemma pktq_put_seq:
  assumes "pktq_inv pq" and "prec < pktq_in_use pq"
  shows "pktq_seq (pktq_put pq prec l n hi) = (pktq_seq pq)(prec := l)"
  using assms by (auto simp: pktq_seq_def pktq_inv_def nth_list_update fun_eq_iff)

lemma pktq_seq_le_len:
  assumes "pktq_inv pq"
  shows "length (pktq_seq pq c) \<le> unat (pq_len pq)"
  using assms sum_list_map_member_le [of c "take (pktq_in_use pq) (pq_q pq)"
      "\<lambda>e. length (skblist e)"]
  by (auto simp: pktq_seq_def pktq_inv_def pktq_total_def)

lemma pktq_put_inv:
  assumes inv: "pktq_inv pq" and prec: "prec < pktq_in_use pq"
    and len: "unat n + length (skblist (pq_q pq ! prec)) = unat (pq_len pq) + length l"
    and max: "n \<le> pq_max pq"
    and hi: "unat hi < pktq_in_use pq" "l \<noteq> [] \<longrightarrow> prec \<le> unat hi"
      "\<And>p. p < pktq_in_use pq \<Longrightarrow> p \<noteq> prec \<Longrightarrow> skblist (pq_q pq ! p) \<noteq> [] \<Longrightarrow> p \<le> unat hi"
  shows "pktq_inv (pktq_put pq prec l n hi)"
proof -
  have "pktq_total (pktq_put pq prec l n hi) = unat n"
    using pktq_put_total [OF inv prec, of l n hi] len inv by (simp add: pktq_inv_def)
  moreover have "\<forall>p < pktq_in_use pq.
      skblist ((pq_q pq)[prec := (pq_q pq ! prec)\<lparr>skblist := l\<rparr>] ! p) \<noteq> [] \<longrightarrow> p \<le> unat hi"
    using hi prec inv by (auto simp: nth_list_update pktq_inv_def)
  ultimately show ?thesis
    using inv max hi(1) by (simp add: pktq_inv_def)
qed

lemma pktq_invD:
  assumes "pktq_inv pq" and "p < pktq_in_use pq"
  shows "p < length (pq_q pq)" and "p < 16"
    and "skblist (pq_q pq ! p) = pktq_seq pq p"
    and "pktq_seq pq p \<noteq> [] \<Longrightarrow> p \<le> unat (hi_prec pq)"
  using assms by (auto simp: pktq_inv_def pktq_seq_def)

lemma hi_prec_store: "prec < 16 \<Longrightarrow> unat (ucast (of_nat prec :: u8) :: u16) = prec"
  by (simp add: unsigned_ucast_eq unat_of_nat take_bit_nat_eq_self)

section \<open>What each operation does\<close>

lemma penq_cases:
  assumes inv: "pktq_inv pq" and prec: "prec < pktq_in_use pq"
    and ins: "f = (\<lambda>l. l @ [p]) \<and> r = brcmu_pktq_penq pq prec p
            \<or> f = (\<lambda>l. p # l) \<and> r = brcmu_pktq_penq_head pq prec p"
  shows "r = Some (None, pq) \<and> (pktq_full pq \<or> unat (prec_max (pq_q pq ! prec)) \<le> length (pktq_seq pq prec))
     \<or> (\<exists>q'. r = Some (Some p, q') \<and> pktq_inv q' \<and> num_prec q' = num_prec pq
           \<and> pktq_seq q' = (pktq_seq pq)(prec := f (pktq_seq pq prec))
           \<and> \<not> pktq_full pq \<and> length (pktq_seq pq prec) < unat (prec_max (pq_q pq ! prec)))"
proof -
  note D = pktq_invD [OF inv prec]
  let ?hi = "if unat (hi_prec pq) < prec then ucast (of_nat prec :: u8) else hi_prec pq"
  let ?q = "pktq_put pq prec (f (pktq_seq pq prec)) (pq_len pq + 1) ?hi"
  have r: "r = (if pktq_full pq \<or> unat (prec_max (pq_q pq ! prec)) \<le> length (pktq_seq pq prec)
                then Some (None, pq) else Some (Some p, ?q))"
    using ins D(1,3)
    by (auto simp: brcmu_pktq_penq_def brcmu_pktq_penq_head_def pktq_pfull_def pktq_put_def
        nth_opt_def)
  have "pktq_inv ?q" if "\<not> pktq_full pq"
  proof (rule pktq_put_inv [OF inv prec])
    have lt: "unat (pq_len pq) < unat (pq_max pq)"
      using that by (simp add: pktq_full_def word_le_nat_alt)
    moreover have "unat (pq_max pq) < 2 ^ LENGTH(16)" by (rule unsigned_less)
    ultimately have n: "unat (pq_len pq + 1) = Suc (unat (pq_len pq))"
      by (rule unat_inc_less)
    then show "unat (pq_len pq + 1) + length (skblist (pq_q pq ! prec))
        = unat (pq_len pq) + length (f (pktq_seq pq prec))"
      using D(3) ins by auto
    show "pq_len pq + 1 \<le> pq_max pq" using n lt by (simp add: word_le_nat_alt)
    show "unat ?hi < pktq_in_use pq"
      using inv prec D(2) hi_prec_store [of prec] by (simp add: pktq_inv_def)
    show "f (pktq_seq pq prec) \<noteq> [] \<longrightarrow> prec \<le> unat ?hi"
      using hi_prec_store [OF D(2)] by simp
    show "p' \<le> unat ?hi" if "p' < pktq_in_use pq" "skblist (pq_q pq ! p') \<noteq> []" for p'
    proof -
      have "p' \<le> unat (hi_prec pq)" using inv that by (simp add: pktq_inv_def)
      then show ?thesis using hi_prec_store [OF D(2)] by simp
    qed
  qed
  then show ?thesis
    using r pktq_put_seq [OF inv prec] by auto
qed

lemma shrink_inv:
  assumes inv: "pktq_inv pq" and prec: "prec < pktq_in_use pq"
    and len: "length l + k = length (pktq_seq pq prec)" and n: "unat n + k = unat (pq_len pq)"
  shows "pktq_inv (pktq_put pq prec l n (hi_prec pq))"
proof (rule pktq_put_inv [OF inv prec])
  note D = pktq_invD [OF inv prec]
  show "unat n + length (skblist (pq_q pq ! prec)) = unat (pq_len pq) + length l"
    using D(3) len n by simp
  show "n \<le> pq_max pq" using n inv by (simp add: pktq_inv_def word_le_nat_alt)
  show "l \<noteq> [] \<longrightarrow> prec \<le> unat (hi_prec pq)"
    using D(4) len by (cases "pktq_seq pq prec") auto
  show "unat (hi_prec pq) < pktq_in_use pq" using inv by (simp add: pktq_inv_def)
  show "p \<le> unat (hi_prec pq)" if "p < pktq_in_use pq" "skblist (pq_q pq ! p) \<noteq> []" for p
    using inv that by (simp add: pktq_inv_def)
qed

lemma unat_len_dec:
  assumes "pktq_inv pq" and "pktq_seq pq prec \<noteq> []"
  shows "unat (pq_len pq - 1) + 1 = unat (pq_len pq)"
proof -
  have "0 < unat (pq_len pq)"
    using pktq_seq_le_len [OF assms(1), of prec] assms(2) by (cases "pktq_seq pq prec") auto
  then show ?thesis by (simp add: unat_dec_pos)
qed

text \<open>A dequeue of one packet, whichever end or match it takes.\<close>

lemma remove_one:
  assumes inv: "pktq_inv pq" and prec: "prec < pktq_in_use pq"
    and l: "length l + 1 = length (pktq_seq pq prec)"
    and q': "q' = (pktq_setq pq prec l)\<lparr>pq_len := pq_len pq - 1\<rparr>"
  shows "pktq_inv q'" and "num_prec q' = num_prec pq" and "pktq_seq q' = (pktq_seq pq)(prec := l)"
proof -
  have ne: "pktq_seq pq prec \<noteq> []" using l by auto
  show "pktq_inv q'"
    unfolding q' pktq_put_hi by (rule shrink_inv [OF inv prec l unat_len_dec [OF inv ne]])
  show "num_prec q' = num_prec pq" by (simp add: q' pktq_put_hi)
  show "pktq_seq q' = (pktq_seq pq)(prec := l)"
    by (simp add: q' pktq_put_hi pktq_put_seq [OF inv prec])
qed

lemma pdeq_empty:
  "pktq_inv pq \<Longrightarrow> prec < pktq_in_use pq \<Longrightarrow> pktq_seq pq prec = [] \<Longrightarrow>
     brcmu_pktq_pdeq pq prec = Some (None, pq)"
  using pktq_invD by (fastforce simp: brcmu_pktq_pdeq_def nth_opt_in)

lemma pdeq_cons:
  assumes "pktq_inv pq" and "prec < pktq_in_use pq" and "pktq_seq pq prec = p # ps"
  obtains q' where "brcmu_pktq_pdeq pq prec = Some (Some p, q')" and "pktq_inv q'"
    and "num_prec q' = num_prec pq" and "pktq_seq q' = (pktq_seq pq)(prec := ps)"
    and "hi_prec q' = hi_prec pq"
proof -
  let ?q = "(pktq_setq pq prec ps)\<lparr>pq_len := pq_len pq - 1\<rparr>"
  have "brcmu_pktq_pdeq pq prec = Some (Some p, ?q)"
    using pktq_invD(1,3) [OF assms(1,2)] assms(3) by (simp add: brcmu_pktq_pdeq_def nth_opt_in)
  moreover have "length ps + 1 = length (pktq_seq pq prec)" using assms(3) by simp
  note remove_one [OF assms(1,2) this refl]
  moreover have "hi_prec ?q = hi_prec pq" by (simp add: pktq_setq_def)
  ultimately show ?thesis using that by blast
qed

lemma pdeq_tail_snoc:
  assumes "pktq_inv pq" and "prec < pktq_in_use pq" and "pktq_seq pq prec = ps @ [p]"
  obtains q' where "brcmu_pktq_pdeq_tail pq prec = Some (Some p, q')" and "pktq_inv q'"
    and "num_prec q' = num_prec pq" and "pktq_seq q' = (pktq_seq pq)(prec := ps)"
proof -
  let ?q = "(pktq_setq pq prec ps)\<lparr>pq_len := pq_len pq - 1\<rparr>"
  have "brcmu_pktq_pdeq_tail pq prec = Some (Some p, ?q)"
    using pktq_invD(1,3) [OF assms(1,2)] assms(3)
    by (simp add: brcmu_pktq_pdeq_tail_def nth_opt_in)
  moreover have "length ps + 1 = length (pktq_seq pq prec)" using assms(3) by simp
  note remove_one [OF assms(1,2) this refl]
  ultimately show ?thesis using that by blast
qed

definition fn_true :: "('p \<Rightarrow> bool) option \<Rightarrow> 'p \<Rightarrow> bool" where
  "fn_true fn p = (case fn of None \<Rightarrow> True | Some f \<Rightarrow> f p)"

lemma take_match_Some:
  "take_match fn xs = Some (p, ys) \<Longrightarrow>
     \<exists>us vs. xs = us @ p # vs \<and> ys = us @ vs \<and> fn_true fn p \<and> (\<forall>u \<in> set us. \<not> fn_true fn u)"
proof (induction xs arbitrary: ys)
  case Nil
  then show ?case by simp
next
  case (Cons x xs)
  show ?case
  proof (cases "fn_true fn x")
    case True
    with Cons.prems show ?thesis
      by (intro exI [of _ "[]"] exI [of _ xs]) (auto simp: fn_true_def)
  next
    case False
    with Cons.prems obtain zs where z: "take_match fn xs = Some (p, zs)" "ys = x # zs"
      by (auto simp: fn_true_def)
    from Cons.IH [OF z(1)] obtain us vs where
      "xs = us @ p # vs" "zs = us @ vs" "fn_true fn p" "\<forall>u \<in> set us. \<not> fn_true fn u" by blast
    with False z(2) show ?thesis by (intro exI [of _ "x # us"] exI [of _ vs]) auto
  qed
qed

lemma take_match_None: "take_match fn xs = None \<longleftrightarrow> (\<forall>x \<in> set xs. \<not> fn_true fn x)"
  by (induction xs) (auto simp: fn_true_def)

lemma pdeq_match_cases:
  assumes inv: "pktq_inv pq" and prec: "prec < pktq_in_use pq"
  shows "brcmu_pktq_pdeq_match pq prec fn = Some (None, pq)
           \<and> (\<forall>x \<in> set (pktq_seq pq prec). \<not> fn_true fn x)
     \<or> (\<exists>p us vs q'. brcmu_pktq_pdeq_match pq prec fn = Some (Some p, q')
           \<and> pktq_seq pq prec = us @ p # vs \<and> fn_true fn p \<and> (\<forall>u \<in> set us. \<not> fn_true fn u)
           \<and> pktq_inv q' \<and> num_prec q' = num_prec pq \<and> pktq_seq q' = (pktq_seq pq)(prec := us @ vs))"
proof (cases "take_match fn (pktq_seq pq prec)")
  case None
  then have "brcmu_pktq_pdeq_match pq prec fn = Some (None, pq)"
    using pktq_invD(1,3) [OF inv prec] by (simp add: brcmu_pktq_pdeq_match_def nth_opt_in)
  then show ?thesis using None [unfolded take_match_None] by blast
next
  case (Some r)
  obtain p ys where r: "r = (p, ys)" by force
  from take_match_Some [OF Some [unfolded r]] obtain us vs where
    uv: "pktq_seq pq prec = us @ p # vs" "ys = us @ vs" "fn_true fn p"
      "\<forall>u \<in> set us. \<not> fn_true fn u" by blast
  let ?q = "(pktq_setq pq prec ys)\<lparr>pq_len := pq_len pq - 1\<rparr>"
  have "brcmu_pktq_pdeq_match pq prec fn = Some (Some p, ?q)"
    using pktq_invD(1,3) [OF inv prec] Some r
    by (simp add: brcmu_pktq_pdeq_match_def nth_opt_in)
  moreover have "length ys + 1 = length (pktq_seq pq prec)" using uv by simp
  note remove_one [OF inv prec this refl]
  ultimately show ?thesis using uv by blast
qed

lemma pflush_walk_eq:
  "pflush_walk fn ps n =
     (filter (fn_true fn) ps, filter (\<lambda>p. \<not> fn_true fn p) ps,
      n - of_nat (length (filter (fn_true fn) ps)))"
  by (induction ps arbitrary: n) (auto simp: fn_true_def algebra_simps)

lemma unat_sub_of_nat:
  fixes n :: "'a::len word"
  assumes "k \<le> unat n"
  shows "unat (n - of_nat k) = unat n - k"
proof -
  have "k < 2 ^ LENGTH('a)" using assms unsigned_less [of n] by (rule le_less_trans)
  then have "unat (of_nat k :: 'a word) = k" by (simp add: unat_of_nat)
  then show ?thesis using assms by (simp add: unat_sub word_le_nat_alt)
qed

lemma pflush_eq:
  assumes inv: "pktq_inv pq" and prec: "prec < pktq_in_use pq"
  obtains q' where "brcmu_pktq_pflush pq prec fn
      = Some (filter (fn_true fn) (pktq_seq pq prec), q')"
    and "pktq_inv q'" and "num_prec q' = num_prec pq" and "pq_max q' = pq_max pq"
    and "pktq_seq q' = (pktq_seq pq)(prec := filter (\<lambda>p. \<not> fn_true fn p) (pktq_seq pq prec))"
proof -
  let ?out = "filter (fn_true fn) (pktq_seq pq prec)"
  let ?in = "filter (\<lambda>p. \<not> fn_true fn p) (pktq_seq pq prec)"
  let ?n = "pq_len pq - of_nat (length ?out)"
  let ?q = "pktq_put pq prec ?in ?n (hi_prec pq)"
  have split: "length ?in + length ?out = length (pktq_seq pq prec)"
    using sum_length_filter_compl [of "fn_true fn" "pktq_seq pq prec"] by simp
  have "length ?out \<le> length (pktq_seq pq prec)" by simp
  also have "\<dots> \<le> unat (pq_len pq)" by (rule pktq_seq_le_len [OF inv])
  finally have le: "length ?out \<le> unat (pq_len pq)" .
  have "brcmu_pktq_pflush pq prec fn = Some (?out, ?q)"
    using pktq_invD(1,3) [OF inv prec]
    by (simp add: brcmu_pktq_pflush_def nth_opt_in pflush_walk_eq pktq_put_hi)
  moreover have "pktq_inv ?q"
    using le unat_sub_of_nat [OF le] by (intro shrink_inv [OF inv prec split]) simp
  ultimately show ?thesis using pktq_put_seq [OF inv prec] that by simp
qed

lemma flush_precs_eq:
  assumes "pktq_inv pq" and "\<forall>c \<in> set precs. c < pktq_in_use pq" and "distinct precs"
  shows "\<exists>freed q'. pktq_flush_precs pq precs fn = Some (freed, q')
    \<and> pktq_inv q' \<and> num_prec q' = num_prec pq \<and> pq_max q' = pq_max pq
    \<and> freed = concat (map (\<lambda>c. filter (fn_true fn) (pktq_seq pq c)) precs)
    \<and> pktq_seq q' = (\<lambda>c. if c \<in> set precs then filter (\<lambda>p. \<not> fn_true fn p) (pktq_seq pq c)
                        else pktq_seq pq c)"
  using assms
proof (induction precs arbitrary: pq)
  case Nil
  then show ?case by simp
next
  case (Cons c cs)
  then have c: "c < pktq_in_use pq" by simp
  obtain q1 where q1: "brcmu_pktq_pflush pq c fn = Some (filter (fn_true fn) (pktq_seq pq c), q1)"
    "pktq_inv q1" "num_prec q1 = num_prec pq" "pq_max q1 = pq_max pq"
    "pktq_seq q1 = (pktq_seq pq)(c := filter (\<lambda>p. \<not> fn_true fn p) (pktq_seq pq c))"
    using pflush_eq [OF Cons.prems(1) c, of fn] by metis
  have "\<forall>c \<in> set cs. c < pktq_in_use q1" "distinct cs" and notin: "c \<notin> set cs"
    using Cons.prems q1(3) by (auto simp: pktq_in_use_def)
  from Cons.IH [OF q1(2) this(1,2)] obtain freed q2 where
    q2: "pktq_flush_precs q1 cs fn = Some (freed, q2)" "pktq_inv q2" "num_prec q2 = num_prec q1"
      "pq_max q2 = pq_max q1"
      "freed = concat (map (\<lambda>c. filter (fn_true fn) (pktq_seq q1 c)) cs)"
      "pktq_seq q2 = (\<lambda>c. if c \<in> set cs then filter (\<lambda>p. \<not> fn_true fn p) (pktq_seq q1 c)
                        else pktq_seq q1 c)" by auto
  have meq: "map (\<lambda>c. filter (fn_true fn) (pktq_seq q1 c)) cs
      = map (\<lambda>c. filter (fn_true fn) (pktq_seq pq c)) cs"
    using notin q1(5) by (intro map_cong) auto
  have freed: "freed = concat (map (\<lambda>c. filter (fn_true fn) (pktq_seq pq c)) cs)"
    unfolding q2(5) meq ..
  have "pktq_seq q2 = (\<lambda>d. if d \<in> set (c # cs) then filter (\<lambda>p. \<not> fn_true fn p) (pktq_seq pq d)
                        else pktq_seq pq d)"
    using notin q1(5) q2(6) by (auto simp: fun_eq_iff)
  then show ?case using q1(1-4) q2(1-4) freed by simp
qed

lemma mdeq_hi_eq:
  assumes "h < length qs"
  shows "\<exists>h'. mdeq_hi qs h = Some h' \<and> h' \<le> h \<and>
    (\<forall>p. h' < p \<longrightarrow> p \<le> h \<longrightarrow> skblist (qs ! p) = [])"
  using assms
proof (induction h)
  case 0
  then show ?case by simp
next
  case (Suc n)
  then show ?case by (fastforce simp: nth_opt_in le_Suc_eq)
qed

lemma mdeq_hit_eq:
  "p < length qs \<Longrightarrow> p < 32 \<Longrightarrow> mdeq_hit qs bmp p = Some (bit bmp p \<and> skblist (qs ! p) \<noteq> [])"
  by (simp add: mdeq_hit_def bmp_test_def nth_opt_in)

lemma mdeq_pick_eq:
  assumes "h < length qs" and "h < 32"
  shows "\<exists>r. mdeq_pick qs bmp h = Some r \<and>
    (case r of None \<Rightarrow> \<forall>p \<le> h. \<not> (bit bmp p \<and> skblist (qs ! p) \<noteq> [])
     | Some c \<Rightarrow> c \<le> h \<and> bit bmp c \<and> skblist (qs ! c) \<noteq> [] \<and>
         (\<forall>p. c < p \<longrightarrow> p \<le> h \<longrightarrow> \<not> (bit bmp p \<and> skblist (qs ! p) \<noteq> [])))"
  using assms
proof (induction h)
  case 0
  then show ?case by (simp add: mdeq_hit_eq)
next
  case (Suc n)
  show ?case
  proof (cases "bit bmp (Suc n) \<and> skblist (qs ! Suc n) \<noteq> []")
    case True
    then show ?thesis using Suc.prems by (simp add: mdeq_hit_eq)
  next
    case False
    have "n < length qs" "n < 32" using Suc.prems by simp_all
    from Suc.IH [OF this] obtain r where r: "mdeq_pick qs bmp n = Some r"
      "case r of None \<Rightarrow> \<forall>p \<le> n. \<not> (bit bmp p \<and> skblist (qs ! p) \<noteq> [])
       | Some c \<Rightarrow> c \<le> n \<and> bit bmp c \<and> skblist (qs ! c) \<noteq> [] \<and>
           (\<forall>p. c < p \<longrightarrow> p \<le> n \<longrightarrow> \<not> (bit bmp p \<and> skblist (qs ! p) \<noteq> []))" by blast
    have "mdeq_pick qs bmp (Suc n) = Some r"
      using r(1) False Suc.prems mdeq_hit_eq [of "Suc n" qs bmp] by auto
    then show ?thesis using r(2) False by (auto simp: le_Suc_eq split: option.splits)
  qed
qed

lemma lower_hi_inv:
  assumes "pktq_inv pq" and "h \<le> unat (hi_prec pq)"
    and "\<forall>p. h < p \<longrightarrow> p \<le> unat (hi_prec pq) \<longrightarrow> skblist (pq_q pq ! p) = []"
  shows "pktq_inv (pq\<lparr>hi_prec := of_nat h\<rparr>)" and "unat (of_nat h :: u16) = h"
proof -
  have "unat (hi_prec pq) < 2 ^ LENGTH(16)" by (rule unsigned_less)
  then show h: "unat (of_nat h :: u16) = h" using assms(2) by (simp add: unat_of_nat)
  show "pktq_inv (pq\<lparr>hi_prec := of_nat h\<rparr>)"
    using assms h
    by (auto simp: pktq_inv_def pktq_in_use_def pktq_total_def) (metis leI le_less_trans)
qed

lemma pktq_len_zero:
  assumes "pktq_inv pq"
  shows "pktq_empty pq \<longleftrightarrow> (\<forall>c. pktq_seq pq c = [])"
proof
  assume "pktq_empty pq"
  then have "length (pktq_seq pq c) \<le> 0" for c
    using pktq_seq_le_len [OF assms, of c] by (simp add: pktq_empty_def)
  then show "\<forall>c. pktq_seq pq c = []" by simp
next
  assume none: "\<forall>c. pktq_seq pq c = []"
  have "length (skblist e) = 0" if "e \<in> set (take (pktq_in_use pq) (pq_q pq))" for e
  proof -
    from that obtain c where "c < pktq_in_use pq" "e = pq_q pq ! c"
      by (auto simp: in_set_conv_nth)
    then show ?thesis using none [rule_format, of c] by (simp add: pktq_seq_def)
  qed
  then have "pktq_total pq = 0" by (simp add: pktq_total_def)
  then show "pktq_empty pq"
    using assms by (simp add: pktq_empty_def pktq_inv_def unat_eq_0)
qed

text \<open>The whole behaviour of the prioritised dequeue.\<close>

lemma mdeq_cases:
  assumes inv: "pktq_inv pq"
  shows "\<exists>q'. brcmu_pktq_mdeq pq bmp = Some (None, q') \<and> pktq_inv q' \<and> num_prec q' = num_prec pq
           \<and> pktq_seq q' = pktq_seq pq \<and> (\<forall>c. bit bmp c \<longrightarrow> pktq_seq pq c = [])
     \<or> (\<exists>p c ps. brcmu_pktq_mdeq pq bmp = Some (Some (p, c), q') \<and> bit bmp c
           \<and> pktq_seq pq c = p # ps \<and> (\<forall>d > c. bit bmp d \<longrightarrow> pktq_seq pq d = [])
           \<and> pktq_inv q' \<and> num_prec q' = num_prec pq \<and> pktq_seq q' = (pktq_seq pq)(c := ps))"
proof (cases "pktq_empty pq")
  case True
  then have "brcmu_pktq_mdeq pq bmp = Some (None, pq)" by (simp add: brcmu_pktq_mdeq_def)
  then show ?thesis using True inv pktq_len_zero [OF inv] by auto
next
  case False
  let ?hi = "unat (hi_prec pq)"
  have hi: "?hi < length (pq_q pq)" "?hi < pktq_in_use pq" "pktq_in_use pq \<le> 16"
    using inv by (auto simp: pktq_inv_def)
  from mdeq_hi_eq [OF hi(1)] obtain h where h: "mdeq_hi (pq_q pq) ?hi = Some h" "h \<le> ?hi"
    "\<forall>p. h < p \<longrightarrow> p \<le> ?hi \<longrightarrow> skblist (pq_q pq ! p) = []" by blast
  let ?q = "pq\<lparr>hi_prec := of_nat h\<rparr>"
  have q: "pktq_inv ?q" "pktq_in_use ?q = pktq_in_use pq" "pktq_seq ?q = pktq_seq pq"
    using lower_hi_inv [OF inv h(2,3)] by (auto simp: pktq_in_use_def pktq_seq_def fun_eq_iff)
  have above: "pktq_seq pq d = []" if "h < d" for d
  proof (cases "d < pktq_in_use pq")
    case True
    have "skblist (pq_q ?q ! d) \<noteq> [] \<longrightarrow> d \<le> h"
      using q(1,2) True lower_hi_inv(2) [OF inv h(2,3)] unfolding pktq_inv_def by simp
    then show ?thesis using that True by (simp add: pktq_seq_def)
  qed (simp add: pktq_seq_def)
  have seq: "pktq_seq pq d = skblist (pq_q pq ! d)" if "d \<le> h" for d
    using that h(2) hi(2) by (simp add: pktq_seq_def)
  have "h < length (pq_q pq)" "h < 32" using h(2) hi by simp_all
  from mdeq_pick_eq [OF this, of bmp] obtain r where
    r: "mdeq_pick (pq_q pq) bmp h = Some r" "case r of
       None \<Rightarrow> \<forall>p \<le> h. \<not> (bit bmp p \<and> skblist (pq_q pq ! p) \<noteq> [])
     | Some c \<Rightarrow> c \<le> h \<and> bit bmp c \<and> skblist (pq_q pq ! c) \<noteq> [] \<and>
         (\<forall>p. c < p \<longrightarrow> p \<le> h \<longrightarrow> \<not> (bit bmp p \<and> skblist (pq_q pq ! p) \<noteq> []))" by blast
  have run: "brcmu_pktq_mdeq pq bmp = (case r of None \<Rightarrow> Some (None, ?q)
      | Some c \<Rightarrow> brcmu_pktq_pdeq ?q c \<bind> (\<lambda>(x, q'). Some (map_option (\<lambda>p. (p, c)) x, q')))"
    using False h(1) r(1) by (simp add: brcmu_pktq_mdeq_def Let_def)
  show ?thesis
  proof (cases r)
    case None
    have "pktq_seq pq c = []" if "bit bmp c" for c
      using that r(2) None above [of c] seq [of c] by (cases "c \<le> h") auto
    then show ?thesis using run None q by (intro exI [of _ ?q]) (simp add: pktq_in_use_def)
  next
    case (Some c)
    then have c: "c \<le> h" "bit bmp c" "pktq_seq pq c \<noteq> []"
      and higher: "\<And>d. c < d \<Longrightarrow> bit bmp d \<Longrightarrow> pktq_seq pq d = []"
      using r(2) seq above by (auto, metis leI)
    then obtain p ps where ps: "pktq_seq pq c = p # ps" by (cases "pktq_seq pq c") auto
    have "c < pktq_in_use ?q" "pktq_seq ?q c = p # ps" using c(1) h(2) hi(2) q(2,3) ps by auto
    from pdeq_cons [OF q(1) this] obtain q' where "brcmu_pktq_pdeq ?q c = Some (Some p, q')"
      "pktq_inv q'" "num_prec q' = num_prec ?q" "pktq_seq q' = (pktq_seq ?q)(c := ps)" by metis
    then show ?thesis
      using run Some c ps higher q(3) by (intro exI [of _ q']) auto
  qed
qed

lemma mlen_loop_eq:
  assumes "\<forall>p \<in> set ps. p < length qs \<and> p < 32"
  shows "pktq_mlen_loop qs bmp ps n = Some (n + sum_list (map (\<lambda>p. length (skblist (qs ! p))) (filter (bit bmp) ps)))"
  using assms by (induction ps arbitrary: n) (auto simp: bmp_test_def nth_opt_in)

lemma mlen_eq:
  assumes inv: "pktq_inv pq"
  shows "brcmu_pktq_mlen pq bmp
    = Some (\<Sum>c | c < pktq_in_use pq \<and> bit bmp c. length (pktq_seq pq c))"
proof -
  let ?hi = "unat (hi_prec pq)"
  have hi: "?hi < pktq_in_use pq" "pktq_in_use pq \<le> 16" "length (pq_q pq) = 16"
    using inv by (auto simp: pktq_inv_def)
  let ?ps = "[0..<Suc ?hi]"
  have "\<forall>p \<in> set ?ps. p < length (pq_q pq) \<and> p < 32" using hi by auto
  then have "brcmu_pktq_mlen pq bmp
      = Some (sum_list (map (\<lambda>p. length (skblist (pq_q pq ! p))) (filter (bit bmp) ?ps)))"
    unfolding brcmu_pktq_mlen_def by (subst mlen_loop_eq) auto
  also have "map (\<lambda>p. length (skblist (pq_q pq ! p))) (filter (bit bmp) ?ps)
      = map (\<lambda>p. length (pktq_seq pq p)) (filter (bit bmp) ?ps)"
    using hi(1) by (intro map_cong) (auto simp: pktq_seq_def simp del: upt_Suc)
  also have "sum_list (map (\<lambda>p. length (pktq_seq pq p)) (filter (bit bmp) ?ps))
      = (\<Sum>c \<in> set (filter (bit bmp) ?ps). length (pktq_seq pq c))"
    by (rule sum_list_distinct_conv_sum_set) simp
  also have "\<dots> = (\<Sum>c | c < pktq_in_use pq \<and> bit bmp c. length (pktq_seq pq c))"
  proof (rule sum.mono_neutral_left)
    show "finite {c. c < pktq_in_use pq \<and> bit bmp c}" by simp
    show "set (filter (bit bmp) ?ps) \<subseteq> {c. c < pktq_in_use pq \<and> bit bmp c}" using hi(1) by auto
    show "\<forall>c \<in> {c. c < pktq_in_use pq \<and> bit bmp c} - set (filter (bit bmp) ?ps).
        length (pktq_seq pq c) = 0"
      using pktq_invD(4) [OF inv] by fastforce
  qed
  finally show ?thesis .
qed

lemma scan_up_eq:
  assumes "prec \<le> hi" and "hi < length qs" and "\<forall>p < prec. skblist (qs ! p) = []"
  shows "\<exists>c. pktq_scan_up qs prec hi = Some c \<and> c \<le> hi \<and> (\<forall>p < c. skblist (qs ! p) = [])
    \<and> (c < hi \<longrightarrow> skblist (qs ! c) \<noteq> [])"
  using assms
proof (induction qs prec hi rule: pktq_scan_up.induct)
  case (1 qs prec hi)
  show ?case
  proof (cases "prec < hi \<and> skblist (qs ! prec) = []")
    case True
    then have "\<forall>p < Suc prec. skblist (qs ! p) = []" using "1.prems"(3) by (auto simp: less_Suc_eq)
    then show ?thesis
      using True "1.IH" [of "qs ! prec"] "1.prems"(2) by (subst pktq_scan_up.simps) (simp add: nth_opt_in)
  next
    case False
    then show ?thesis using "1.prems" by (subst pktq_scan_up.simps) (auto simp: nth_opt_in)
  qed
qed

lemma peek_tail_eq:
  assumes inv: "pktq_inv pq" and ne: "pktq_seq pq c \<noteq> []" and low: "\<forall>d < c. pktq_seq pq d = []"
  shows "brcmu_pktq_peek_tail pq = Some (Some (last (pktq_seq pq c), c))"
proof -
  let ?hi = "unat (hi_prec pq)"
  have c: "c < pktq_in_use pq" using ne by (auto simp: pktq_seq_def split: if_splits)
  have hi: "?hi < length (pq_q pq)" "?hi < pktq_in_use pq" using inv by (auto simp: pktq_inv_def)
  have cle: "c \<le> ?hi" using pktq_invD(4) [OF inv c] ne by simp
  have seq: "skblist (pq_q pq ! d) = pktq_seq pq d" if "d \<le> ?hi" for d
    using that hi(2) by (simp add: pktq_seq_def)
  from scan_up_eq [of 0 ?hi "pq_q pq"] hi(1) obtain x where x:
    "pktq_scan_up (pq_q pq) 0 ?hi = Some x" "x \<le> ?hi" "\<forall>p < x. skblist (pq_q pq ! p) = []"
    "x < ?hi \<longrightarrow> skblist (pq_q pq ! x) \<noteq> []" by auto
  have "\<not> c < x" using x(3) seq [OF cle] ne by auto
  moreover have "\<not> x < c" using x(2,4) low seq [of x] cle by auto
  ultimately have "x = c" by simp
  then show ?thesis
    using x(1) hi(1) cle seq [OF cle] ne pktq_len_zero [OF inv]
    by (auto simp: brcmu_pktq_peek_tail_def nth_opt_in)
qed

lemma init_inv:
  assumes "length (pq_q mem) = PKTQ_MAX_PREC" and "0 < n" and "n \<le> PKTQ_MAX_PREC"
  obtains pq where "brcmu_pktq_init mem n m = Some pq" and "pktq_inv pq"
    and "pktq_in_use pq = n" and "pktq_seq pq = (\<lambda>_. [])"
proof -
  define pq :: "'a pktq" where "pq = \<lparr>num_prec = of_nat n, hi_prec = 0, pq_max = of_nat m, pq_len = 0,
      pq_q = replicate n \<lparr>skblist = [], prec_max = of_nat m\<rparr> @ drop n (pq_q mem)\<rparr>"
  have n: "unat (of_nat n :: u16) = n" using assms(3) by (simp add: unat_of_nat)
  have "brcmu_pktq_init mem n m = Some pq" using assms by (simp add: brcmu_pktq_init_def pq_def)
  moreover have "pktq_inv pq"
    using assms n by (simp add: pktq_inv_def pq_def pktq_in_use_def pktq_total_def nth_append)
  moreover have "pktq_in_use pq = n" using n by (simp add: pktq_in_use_def pq_def)
  moreover have "pktq_seq pq = (\<lambda>_. [])"
    using n by (auto simp: pktq_seq_def pktq_in_use_def pq_def fun_eq_iff nth_append)
  ultimately show ?thesis using that by blast
qed

section \<open>The contract clients rely on\<close>

text \<open>A family of first-in first-out queues, one per precedence, behind a bounded enqueue that
  may refuse. \<open>seqs q c\<close> is what precedence \<open>c\<close> holds.\<close>

locale prec_fifo =
  fixes inv :: "'q \<Rightarrow> bool"
    and prios :: "'q \<Rightarrow> nat"
    and seqs :: "'q \<Rightarrow> nat \<Rightarrow> 'p list"
    and enq :: "'q \<Rightarrow> nat \<Rightarrow> 'p \<Rightarrow> ('p option \<times> 'q) option"
    and deq :: "'q \<Rightarrow> nat \<Rightarrow> ('p option \<times> 'q) option"
  assumes enq_law: "inv q \<Longrightarrow> c < prios q \<Longrightarrow> enq q c p = Some (None, q)
      \<or> (\<exists>q'. enq q c p = Some (Some p, q') \<and> inv q' \<and> prios q' = prios q
              \<and> seqs q' = (seqs q)(c := seqs q c @ [p]))"
    and deq_nil: "inv q \<Longrightarrow> c < prios q \<Longrightarrow> seqs q c = [] \<Longrightarrow> deq q c = Some (None, q)"
    and deq_cons: "inv q \<Longrightarrow> c < prios q \<Longrightarrow> seqs q c = p # ps \<Longrightarrow>
      \<exists>q'. deq q c = Some (Some p, q') \<and> inv q' \<and> prios q' = prios q \<and> seqs q' = (seqs q)(c := ps)"

text \<open>The client's loops: enqueue until one packet is refused (the flag says whether none was),
  and dequeue a number of times.\<close>

fun enq_all :: "('q \<Rightarrow> nat \<Rightarrow> 'p \<Rightarrow> ('p option \<times> 'q) option) \<Rightarrow> 'q \<Rightarrow> nat \<Rightarrow> 'p list
    \<Rightarrow> (bool \<times> 'q) option" where
  "enq_all enq q c [] = Some (True, q)"
| "enq_all enq q c (p # ps) = do {
     (r, q') \<leftarrow> enq q c p;
     case r of None \<Rightarrow> Some (False, q') | Some _ \<Rightarrow> enq_all enq q' c ps }"

fun deq_n :: "('q \<Rightarrow> nat \<Rightarrow> ('p option \<times> 'q) option) \<Rightarrow> 'q \<Rightarrow> nat \<Rightarrow> nat \<Rightarrow> ('p list \<times> 'q) option" where
  "deq_n deq q c 0 = Some ([], q)"
| "deq_n deq q c (Suc k) = do {
     (r, q') \<leftarrow> deq q c;
     case r of None \<Rightarrow> Some ([], q')
     | Some p \<Rightarrow> do { (ps, q'') \<leftarrow> deq_n deq q' c k; Some (p # ps, q'') } }"

context prec_fifo
begin

lemma enq_all_law:
  assumes "inv q" and "c < prios q"
  shows "\<exists>ok q' k. enq_all enq q c ps = Some (ok, q') \<and> inv q' \<and> prios q' = prios q
    \<and> seqs q' = (seqs q)(c := seqs q c @ take k ps) \<and> (ok \<longrightarrow> k = length ps)"
  using assms
proof (induction ps arbitrary: q)
  case Nil
  then show ?case by (intro exI [of _ True] exI [of _ q]) simp
next
  case (Cons p ps)
  from enq_law [OF Cons.prems, of p] show ?case
  proof (elim disjE exE conjE)
    assume "enq q c p = Some (None, q)"
    then show ?thesis using Cons.prems by (intro exI [of _ False] exI [of _ q] exI [of _ 0]) simp
  next
    fix q' assume q': "enq q c p = Some (Some p, q')" "inv q'" "prios q' = prios q"
      "seqs q' = (seqs q)(c := seqs q c @ [p])"
    have "c < prios q'" using Cons.prems q'(3) by simp
    from Cons.IH [OF q'(2) this] obtain ok q'' k where
      "enq_all enq q' c ps = Some (ok, q'')" "inv q''" "prios q'' = prios q'"
      "seqs q'' = (seqs q')(c := seqs q' c @ take k ps)" "ok \<longrightarrow> k = length ps" by blast
    with q' show ?thesis by (intro exI [of _ ok] exI [of _ q''] exI [of _ "Suc k"]) auto
  qed
qed

lemma deq_n_law:
  assumes "inv q" and "c < prios q" and "seqs q c = ps @ rest"
  shows "\<exists>q'. deq_n deq q c (length ps) = Some (ps, q') \<and> inv q' \<and> prios q' = prios q
    \<and> seqs q' = (seqs q)(c := rest)"
  using assms
proof (induction ps arbitrary: q)
  case Nil
  then show ?case by (auto simp: fun_eq_iff)
next
  case (Cons p ps)
  then have "seqs q c = p # ps @ rest" by simp
  from deq_cons [OF Cons.prems(1,2) this] obtain q' where q': "deq q c = Some (Some p, q')"
    "inv q'" "prios q' = prios q" "seqs q' = (seqs q)(c := ps @ rest)" by blast
  then have "c < prios q'" "seqs q' c = ps @ rest" using Cons.prems by auto
  from Cons.IH [OF q'(2) this] q' show ?case by (auto simp: fun_eq_iff)
qed

text \<open>Everything accepted by a run of enqueues comes out again, in order, behind what was there before.\<close>

lemma fifo:
  assumes "inv q" and "c < prios q" and "enq_all enq q c ps = Some (True, q1)"
  shows "\<exists>q2. deq_n deq q1 c (length (seqs q c) + length ps) = Some (seqs q c @ ps, q2) \<and> inv q2
    \<and> seqs q2 = (seqs q)(c := [])"
proof -
  from enq_all_law [OF assms(1,2), of ps] assms(3)
  have "inv q1" "prios q1 = prios q" "seqs q1 = (seqs q)(c := seqs q c @ ps)" by auto
  moreover from this have "seqs q1 c = (seqs q c @ ps) @ []" "c < prios q1" using assms(2) by auto
  ultimately show ?thesis using deq_n_law [of q1 c "seqs q c @ ps" "[]"] by auto
qed

end

interpretation pktq: prec_fifo pktq_inv pktq_in_use pktq_seq brcmu_pktq_penq brcmu_pktq_pdeq
proof (unfold_locales, goal_cases)
  case (1 q c p)
  from penq_cases [OF this, of "\<lambda>l. l @ [p]" p "brcmu_pktq_penq q c p"] show ?case by (auto simp: pktq_in_use_def)
next
  case (2 q c)
  then show ?case by (rule pdeq_empty)
next
  case (3 q c p ps)
  then show ?case by (metis pdeq_cons pktq_in_use_def)
qed

section \<open>Reachable queues\<close>

text \<open>One call of an operation of the queue, with a precedence in use.\<close>

inductive pktq_step :: "'p pktq \<Rightarrow> 'p pktq \<Rightarrow> bool" where
  step_penq: "prec < pktq_in_use pq \<Longrightarrow> brcmu_pktq_penq pq prec p = Some (r, q') \<Longrightarrow> pktq_step pq q'"
| step_penq_head: "prec < pktq_in_use pq \<Longrightarrow> brcmu_pktq_penq_head pq prec p = Some (r, q') \<Longrightarrow>
    pktq_step pq q'"
| step_pdeq: "prec < pktq_in_use pq \<Longrightarrow> brcmu_pktq_pdeq pq prec = Some (r, q') \<Longrightarrow> pktq_step pq q'"
| step_pdeq_tail: "prec < pktq_in_use pq \<Longrightarrow> brcmu_pktq_pdeq_tail pq prec = Some (r, q') \<Longrightarrow>
    pktq_step pq q'"
| step_pdeq_match: "prec < pktq_in_use pq \<Longrightarrow> brcmu_pktq_pdeq_match pq prec fn = Some (r, q') \<Longrightarrow>
    pktq_step pq q'"
| step_pflush: "prec < pktq_in_use pq \<Longrightarrow> brcmu_pktq_pflush pq prec fn = Some (freed, q') \<Longrightarrow>
    pktq_step pq q'"
| step_flush: "brcmu_pktq_flush pq fn = Some (freed, q') \<Longrightarrow> pktq_step pq q'"
| step_mdeq: "brcmu_pktq_mdeq pq bmp = Some (m, q') \<Longrightarrow> pktq_step pq q'"

inductive pktq_reachable :: "'p pktq \<Rightarrow> bool" where
  reach_init: "length (pq_q mem) = PKTQ_MAX_PREC \<Longrightarrow> 0 < n \<Longrightarrow> n \<le> PKTQ_MAX_PREC \<Longrightarrow>
    brcmu_pktq_init mem n m = Some pq \<Longrightarrow> pktq_reachable pq"
| reach_step: "pktq_reachable pq \<Longrightarrow> pktq_step pq q' \<Longrightarrow> pktq_reachable q'"

inductive_cases pktq_stepE: "pktq_step pq q'"

lemma pdeq_tail_inv:
  assumes "pktq_inv pq" and "prec < pktq_in_use pq"
  shows "\<exists>r q'. brcmu_pktq_pdeq_tail pq prec = Some (r, q') \<and> pktq_inv q'"
proof (cases "pktq_seq pq prec" rule: rev_cases)
  case Nil
  then have "brcmu_pktq_pdeq_tail pq prec = Some (None, pq)"
    using pktq_invD(1,3) [OF assms] by (simp add: brcmu_pktq_pdeq_tail_def nth_opt_in)
  then show ?thesis using assms(1) by blast
next
  case (snoc ps p)
  then show ?thesis using pdeq_tail_snoc [OF assms] by metis
qed

lemma flush_eq:
  assumes "pktq_inv pq"
  obtains freed q' where "brcmu_pktq_flush pq fn = Some (freed, q')" and "pktq_inv q'"
    and "freed = concat (map (\<lambda>c. filter (fn_true fn) (pktq_seq pq c)) [0..<pktq_in_use pq])"
    and "pktq_seq q' = (\<lambda>c. filter (\<lambda>p. \<not> fn_true fn p) (pktq_seq pq c))"
proof -
  have "\<forall>c \<in> set [0..<pktq_in_use pq]. c < pktq_in_use pq" "distinct [0..<pktq_in_use pq]" by auto
  from flush_precs_eq [OF assms this, of fn] obtain freed q' where *:
    "pktq_flush_precs pq [0..<pktq_in_use pq] fn = Some (freed, q')" "pktq_inv q'"
    "freed = concat (map (\<lambda>c. filter (fn_true fn) (pktq_seq pq c)) [0..<pktq_in_use pq])"
    "pktq_seq q' = (\<lambda>c. if c \<in> set [0..<pktq_in_use pq]
        then filter (\<lambda>p. \<not> fn_true fn p) (pktq_seq pq c) else pktq_seq pq c)" by blast
  have "pktq_seq q' = (\<lambda>c. filter (\<lambda>p. \<not> fn_true fn p) (pktq_seq pq c))"
    unfolding *(4) by (auto simp: fun_eq_iff pktq_seq_def)
  then show ?thesis using *(1-3) that by (simp add: brcmu_pktq_flush_def pktq_in_use_def)
qed

lemma pktq_ops_total:
  assumes "pktq_inv pq"
  shows "prec < pktq_in_use pq \<Longrightarrow> \<exists>r q'. brcmu_pktq_penq pq prec p = Some (r, q') \<and> pktq_inv q'"
    and "prec < pktq_in_use pq \<Longrightarrow> \<exists>r q'. brcmu_pktq_penq_head pq prec p = Some (r, q') \<and> pktq_inv q'"
    and "prec < pktq_in_use pq \<Longrightarrow> \<exists>r q'. brcmu_pktq_pdeq pq prec = Some (r, q') \<and> pktq_inv q'"
    and "prec < pktq_in_use pq \<Longrightarrow>
      \<exists>r q'. brcmu_pktq_pdeq_match pq prec fn = Some (r, q') \<and> pktq_inv q'"
    and "prec < pktq_in_use pq \<Longrightarrow> \<exists>r q'. brcmu_pktq_pflush pq prec fn = Some (r, q') \<and> pktq_inv q'"
    and "\<exists>r q'. brcmu_pktq_flush pq fn = Some (r, q') \<and> pktq_inv q'"
    and "\<exists>r q'. brcmu_pktq_mdeq pq bmp = Some (r, q') \<and> pktq_inv q'"
proof -
  show "\<exists>r q'. brcmu_pktq_penq pq prec p = Some (r, q') \<and> pktq_inv q'" if "prec < pktq_in_use pq"
    using penq_cases [OF assms that, of "\<lambda>l. l @ [p]" p "brcmu_pktq_penq pq prec p"] assms by auto
  show "\<exists>r q'. brcmu_pktq_penq_head pq prec p = Some (r, q') \<and> pktq_inv q'"
    if "prec < pktq_in_use pq"
    using penq_cases [OF assms that, of "\<lambda>l. p # l" p "brcmu_pktq_penq_head pq prec p"] assms by auto
  show "\<exists>r q'. brcmu_pktq_pdeq pq prec = Some (r, q') \<and> pktq_inv q'" if "prec < pktq_in_use pq"
    using pdeq_empty [OF assms that] pdeq_cons [OF assms that] assms
    by (cases "pktq_seq pq prec") metis+
  show "\<exists>r q'. brcmu_pktq_pdeq_match pq prec fn = Some (r, q') \<and> pktq_inv q'"
    if "prec < pktq_in_use pq"
    using pdeq_match_cases [OF assms that, of fn] assms by blast
  show "\<exists>r q'. brcmu_pktq_pflush pq prec fn = Some (r, q') \<and> pktq_inv q'" if "prec < pktq_in_use pq"
    using pflush_eq [OF assms that, of fn] by metis
  show "\<exists>r q'. brcmu_pktq_flush pq fn = Some (r, q') \<and> pktq_inv q'"
    using flush_eq [OF assms] by metis
  show "\<exists>r q'. brcmu_pktq_mdeq pq bmp = Some (r, q') \<and> pktq_inv q'"
    using mdeq_cases [OF assms, of bmp] by blast
qed

lemma pktq_step_inv [invs]: "pktq_step pq q' \<Longrightarrow> pktq_inv pq \<Longrightarrow> pktq_inv q'"
  by (induction rule: pktq_step.induct)
    (use pktq_ops_total pdeq_tail_inv in \<open>(metis Pair_inject option.inject)+\<close>)

lemma pktq_reachable_inv: "pktq_reachable pq \<Longrightarrow> pktq_inv pq"
proof (induction rule: pktq_reachable.induct)
  case (reach_init mem n m pq)
  then show ?case using init_inv [OF reach_init(1-3)] by (metis option.inject)
next
  case (reach_step pq q')
  then show ?case by (blast intro: pktq_step_inv)
qed

section \<open>Properties\<close>

text \<open>C1: Every queue reached from \<open>brcmu_pktq_init\<close> by any sequence of the queue's operations
  keeps the queue's invariant (the counter is the number of queued packets, it never exceeds the
  maximum, the hint \<open>hi_prec\<close> is at least the highest non-empty precedence and lies in the array), and on such a queue
  no operation reads or writes outside the array of precedences.\<close>

theorem pktq_reachable_safe:
  assumes "pktq_reachable pq" and "prec < pktq_in_use pq"
  shows "unat (pq_len pq) = pktq_total pq \<and> pq_len pq \<le> pq_max pq
    \<and> (pktq_seq pq prec \<noteq> [] \<longrightarrow> prec \<le> unat (hi_prec pq)) \<and> unat (hi_prec pq) < pktq_in_use pq
    \<and> brcmu_pktq_penq pq prec p \<noteq> None \<and> brcmu_pktq_penq_head pq prec p \<noteq> None
    \<and> brcmu_pktq_pdeq pq prec \<noteq> None \<and> brcmu_pktq_pdeq_tail pq prec \<noteq> None
    \<and> brcmu_pktq_pdeq_match pq prec fn \<noteq> None \<and> brcmu_pktq_pflush pq prec fn \<noteq> None
    \<and> brcmu_pktq_flush pq fn \<noteq> None \<and> brcmu_pktq_mdeq pq bmp \<noteq> None
    \<and> brcmu_pktq_mlen pq bmp \<noteq> None"
proof -
  have inv: "pktq_inv pq" using assms(1) by (rule pktq_reachable_inv)
  have "unat (pq_len pq) = pktq_total pq \<and> pq_len pq \<le> pq_max pq" using inv by (simp add: pktq_inv_def)
  moreover have "pktq_seq pq prec \<noteq> [] \<longrightarrow> prec \<le> unat (hi_prec pq)"
    using pktq_invD(4) [OF inv assms(2)] by blast
  moreover have "unat (hi_prec pq) < pktq_in_use pq" using inv by (simp add: pktq_inv_def)
  moreover have "brcmu_pktq_penq pq prec p \<noteq> None"
    using pktq_ops_total(1) [OF inv assms(2), of p] by auto
  moreover have "brcmu_pktq_penq_head pq prec p \<noteq> None"
    using pktq_ops_total(2) [OF inv assms(2), of p] by auto
  moreover have "brcmu_pktq_pdeq pq prec \<noteq> None" "brcmu_pktq_pdeq_tail pq prec \<noteq> None"
    using pktq_ops_total(3) [OF inv assms(2)] pdeq_tail_inv [OF inv assms(2)] by auto
  moreover have "brcmu_pktq_pdeq_match pq prec fn \<noteq> None" "brcmu_pktq_pflush pq prec fn \<noteq> None"
    using pktq_ops_total(4,5) [OF inv assms(2), of fn] by auto
  moreover have "brcmu_pktq_flush pq fn \<noteq> None" "brcmu_pktq_mdeq pq bmp \<noteq> None"
    using pktq_ops_total(6) [OF inv, of fn] pktq_ops_total(7) [OF inv, of bmp] by auto
  moreover have "brcmu_pktq_mlen pq bmp \<noteq> None" by (simp add: mlen_eq [OF inv])
  ultimately show ?thesis by blast
qed

text \<open>A queue with two precedences and room for four packets, used by the witnesses.\<close>

definition pktq_mem :: "nat pktq" where
  "pktq_mem = \<lparr>num_prec = 0, hi_prec = 0, pq_max = 0, pq_len = 0,
     pq_q = replicate 16 \<lparr>skblist = [], prec_max = 0\<rparr>\<rparr>"

definition pktq_ex :: "nat pktq" where
  "pktq_ex = the (brcmu_pktq_init pktq_mem 2 4)"

lemma pktq_ex_props: "pktq_reachable pktq_ex" "pktq_inv pktq_ex" "pktq_in_use pktq_ex = 2"
  "pktq_seq pktq_ex = (\<lambda>_. [])"
proof -
  have mem: "length (pq_q pktq_mem) = 16" by (simp add: pktq_mem_def)
  obtain pq where pq: "brcmu_pktq_init pktq_mem 2 4 = Some pq" "pktq_inv pq"
    "pktq_in_use pq = 2" "pktq_seq pq = (\<lambda>_. [])"
    using init_inv [of pktq_mem 2 4] mem by auto
  then have "pktq_ex = pq" by (simp add: pktq_ex_def)
  then show "pktq_inv pktq_ex" "pktq_in_use pktq_ex = 2" "pktq_seq pktq_ex = (\<lambda>_. [])" using pq by auto
  show "pktq_reachable pktq_ex"
    using mem pq(1) \<open>pktq_ex = pq\<close> by (intro reach_init [of pktq_mem 2 4]) auto
qed

theorem pktq_reachable_safe_witness:
  "unat (pq_len pktq_ex) = pktq_total pktq_ex \<and> brcmu_pktq_penq pktq_ex 1 7 \<noteq> None"
  using pktq_reachable_safe [of pktq_ex 1 7] pktq_ex_props by simp

text \<open>The prioritised dequeue \<open>brcmu_pktq_mdeq\<close> returns the oldest packet of the highest
  non-empty precedence its bitmap selects, removes exactly that packet, and returns NULL exactly
  when every selected precedence is empty, which is when \<open>brcmu_pktq_mlen\<close> of the same bitmap
  is zero.\<close>

theorem brcmu_pktq_mdeq_highest:
  assumes "pktq_inv pq"
  shows "(case brcmu_pktq_mdeq pq bmp of
      None \<Rightarrow> False
    | Some (None, q') \<Rightarrow> brcmu_pktq_mlen pq bmp = Some 0 \<and> pktq_seq q' = pktq_seq pq \<and> pktq_inv q'
    | Some (Some (p, c), q') \<Rightarrow> bit bmp c \<and> (\<exists>ps. pktq_seq pq c = p # ps
          \<and> pktq_seq q' = (pktq_seq pq)(c := ps)) \<and> \<not> (\<exists>d > c. bit bmp d \<and> pktq_seq pq d \<noteq> [])
          \<and> brcmu_pktq_mlen pq bmp \<noteq> Some 0 \<and> pktq_inv q')"
proof -
  have pos: "brcmu_pktq_mlen pq bmp \<noteq> Some 0" if "bit bmp c" "pktq_seq pq c \<noteq> []" for c
  proof -
    have "c \<in> {c. c < pktq_in_use pq \<and> bit bmp c}" using that by (auto simp: pktq_seq_def split: if_splits)
    then show ?thesis using that(2) by (auto simp: mlen_eq [OF assms] sum_eq_0_iff)
  qed
  have zero: "brcmu_pktq_mlen pq bmp = Some 0" if "\<forall>c. bit bmp c \<longrightarrow> pktq_seq pq c = []"
    using that by (auto simp: mlen_eq [OF assms] intro!: sum.neutral)
  from mdeq_cases [OF assms, of bmp] show ?thesis using pos zero by fastforce
qed

theorem brcmu_pktq_mdeq_highest_witness:
  "pktq_inv pktq_ex \<and> brcmu_pktq_mdeq pktq_ex 3 \<noteq> None"
  using brcmu_pktq_mdeq_highest [OF pktq_ex_props(2), of 3] pktq_ex_props(2)
  by (auto split: option.splits)

text \<open>C2: Per precedence the queue is first-in first-out, behind what is in it already: when every enqueue of a
  list of packets is accepted, as many dequeues as the precedence then holds packets return those that were queued
  before, in their order, and then exactly that list in order; the precedence is empty afterwards and the others
  hold what they held.\<close>

theorem pktq_fifo:
  assumes "pktq_inv pq" and "c < pktq_in_use pq" and "enq_all brcmu_pktq_penq pq c ps = Some (True, q1)"
  shows "\<exists>q2. deq_n brcmu_pktq_pdeq q1 c (length (pktq_seq pq c) + length ps) = Some (pktq_seq pq c @ ps, q2)
    \<and> pktq_inv q2 \<and> pktq_seq q2 = (pktq_seq pq)(c := [])"
  by (rule pktq.fifo [OF assms])

theorem pktq_fifo_witness:
  "\<exists>q0 q1 q2. brcmu_pktq_penq pktq_ex 1 4 = Some (Some 4, q0) \<and> enq_all brcmu_pktq_penq q0 1 [5, 6] = Some (True, q1)
    \<and> deq_n brcmu_pktq_pdeq q1 1 3 = Some ([4, 5, 6], q2)"
proof -
  have "map_option fst (brcmu_pktq_penq pktq_ex 1 4) = Some (Some 4)" by code_simp
  then obtain q0 where q0: "brcmu_pktq_penq pktq_ex 1 4 = Some (Some 4, q0)" by auto
  have c: "1 < pktq_in_use pktq_ex" by (simp add: pktq_ex_props)
  from pktq.enq_law [OF pktq_ex_props(2) c, of 4] q0
  have i: "pktq_inv q0" "1 < pktq_in_use q0" "pktq_seq q0 1 = [4]" by (auto simp: pktq_ex_props)
  have "map_option (\<lambda>r. map_option fst (enq_all brcmu_pktq_penq (snd r) 1 [5, 6])) (brcmu_pktq_penq pktq_ex 1 4)
      = Some (Some True)" by code_simp
  then obtain q1 where e: "enq_all brcmu_pktq_penq q0 1 [5, 6] = Some (True, q1)" unfolding q0 by auto
  have n: "length [4] + length [5, 6] = (3 :: nat)" "[4] @ [5, 6] = [4, 5, 6 :: nat]" by simp_all
  from pktq_fifo [OF i(1,2) e, unfolded i(3) n] q0 e show ?thesis by blast
qed

text \<open>\<open>brcmu_pktq_flush\<close> frees exactly the packets the filter accepts (all of them without a
  filter), keeps the others in their order in every precedence, and keeps the invariant, so the
  counter is again the number of packets left.\<close>

theorem brcmu_pktq_flush_exact:
  assumes "pktq_inv pq"
  shows "\<exists>freed q'. brcmu_pktq_flush pq fn = Some (freed, q') \<and> pktq_inv q'
    \<and> (\<forall>c. pktq_seq q' c = filter (\<lambda>p. \<not> fn_true fn p) (pktq_seq pq c))
    \<and> freed = concat (map (\<lambda>c. filter (fn_true fn) (pktq_seq pq c)) [0..<pktq_in_use pq])
    \<and> (fn = None \<longrightarrow> pktq_empty q')"
proof -
  obtain freed q' where q': "brcmu_pktq_flush pq fn = Some (freed, q')" "pktq_inv q'"
    "freed = concat (map (\<lambda>c. filter (fn_true fn) (pktq_seq pq c)) [0..<pktq_in_use pq])"
    "pktq_seq q' = (\<lambda>c. filter (\<lambda>p. \<not> fn_true fn p) (pktq_seq pq c))"
    using flush_eq [OF assms, of fn] by metis
  moreover have "pktq_empty q'" if "fn = None"
    using that q'(2,4) by (simp add: pktq_len_zero fn_true_def)
  ultimately show ?thesis by auto
qed

theorem brcmu_pktq_flush_exact_witness:
  "pktq_inv pktq_ex \<and> (\<exists>freed q'. brcmu_pktq_flush pktq_ex (Some even) = Some (freed, q') \<and> pktq_inv q')"
  using brcmu_pktq_flush_exact [OF pktq_ex_props(2), of "Some even"] pktq_ex_props(2) by blast

end
