(* ===== verification/D11.thy ===== *)
theory D11
  imports Prelude
begin

text \<open>
  The channel specification codecs of brcmutil/d11.c (with include/brcmu_d11.h): packing channel
  number, bandwidth, control sideband and band into the 16-bit word the firmware uses, in its
  802.11n and 802.11ac layouts, and back. The structure \<open>brcmu_chan\<close> is updated in place by
  the C functions, so the models map a record to the updated record; a WARN leaves the fields
  that the code leaves. The function pointers of \<open>brcmu_d11inf\<close> are fields of a record, and
  the contract both codecs meet is the locale \<open>chan_codec\<close>. The end of the theory models the
  configuration layer's conversion of an nl80211 channel definition (cfg80211.c).
\<close>

section \<open>Data\<close>

datatype brcmu_chan_bw = BRCMU_CHAN_BW_20 | BRCMU_CHAN_BW_40 | BRCMU_CHAN_BW_80
  | BRCMU_CHAN_BW_80P80 | BRCMU_CHAN_BW_160

datatype brcmu_chan_sb = BRCMU_CHAN_SB_NONE | BRCMU_CHAN_SB_LLL | BRCMU_CHAN_SB_LLU
  | BRCMU_CHAN_SB_LUL | BRCMU_CHAN_SB_LUU | BRCMU_CHAN_SB_ULL | BRCMU_CHAN_SB_ULU
  | BRCMU_CHAN_SB_UUL | BRCMU_CHAN_SB_UUU

text \<open>The aliases of the C enumeration.\<close>

abbreviation BRCMU_CHAN_SB_L where "BRCMU_CHAN_SB_L \<equiv> BRCMU_CHAN_SB_LLL"
abbreviation BRCMU_CHAN_SB_U where "BRCMU_CHAN_SB_U \<equiv> BRCMU_CHAN_SB_LLU"
abbreviation BRCMU_CHAN_SB_LL where "BRCMU_CHAN_SB_LL \<equiv> BRCMU_CHAN_SB_LLL"
abbreviation BRCMU_CHAN_SB_LU where "BRCMU_CHAN_SB_LU \<equiv> BRCMU_CHAN_SB_LLU"
abbreviation BRCMU_CHAN_SB_UL where "BRCMU_CHAN_SB_UL \<equiv> BRCMU_CHAN_SB_LUL"
abbreviation BRCMU_CHAN_SB_UU where "BRCMU_CHAN_SB_UU \<equiv> BRCMU_CHAN_SB_LUU"

text \<open>The enumeration's numbers, converted to the unsigned 16-bit argument they are passed as.\<close>

fun sb_num :: "brcmu_chan_sb \<Rightarrow> u16" where
  "sb_num BRCMU_CHAN_SB_NONE = -1"
| "sb_num BRCMU_CHAN_SB_LLL = 0"
| "sb_num BRCMU_CHAN_SB_LLU = 1"
| "sb_num BRCMU_CHAN_SB_LUL = 2"
| "sb_num BRCMU_CHAN_SB_LUU = 3"
| "sb_num BRCMU_CHAN_SB_ULL = 4"
| "sb_num BRCMU_CHAN_SB_ULU = 5"
| "sb_num BRCMU_CHAN_SB_UUL = 6"
| "sb_num BRCMU_CHAN_SB_UUU = 7"

text \<open>A masked three-bit value read back into the enumeration; the code only converts such values.\<close>

definition sb_of_num :: "u16 \<Rightarrow> brcmu_chan_sb" where
  "sb_of_num n =
     (if n = 0 then BRCMU_CHAN_SB_LLL else if n = 1 then BRCMU_CHAN_SB_LLU
      else if n = 2 then BRCMU_CHAN_SB_LUL else if n = 3 then BRCMU_CHAN_SB_LUU
      else if n = 4 then BRCMU_CHAN_SB_ULL else if n = 5 then BRCMU_CHAN_SB_ULU
      else if n = 6 then BRCMU_CHAN_SB_UUL else BRCMU_CHAN_SB_UUU)"

record brcmu_chan =
  chspec :: u16
  chnum :: u8
  control_ch_num :: u8
  chan_band :: u8
  chan_bw :: brcmu_chan_bw
  chan_sb :: brcmu_chan_sb

abbreviation BRCMU_CHAN_BAND_2G :: u8 where "BRCMU_CHAN_BAND_2G \<equiv> 0"
abbreviation BRCMU_CHAN_BAND_5G :: u8 where "BRCMU_CHAN_BAND_5G \<equiv> 1"
abbreviation BRCMU_CHAN_BAND_6G :: u8 where "BRCMU_CHAN_BAND_6G \<equiv> 2"

text \<open>include/brcmu_utils.h: the mask is already shifted.\<close>

definition brcmu_maskset16 :: "u16 \<Rightarrow> u16 \<Rightarrow> nat \<Rightarrow> u16 \<Rightarrow> u16" where
  "brcmu_maskset16 var msk shift val = (var AND NOT msk) OR (push_bit shift val AND msk)"

definition brcmu_maskget16 :: "u16 \<Rightarrow> u16 \<Rightarrow> nat \<Rightarrow> u16" where
  "brcmu_maskget16 var msk shift = drop_bit shift (var AND msk)"

section \<open>The 802.11n codec\<close>

fun d11n_sb :: "brcmu_chan_sb \<Rightarrow> u16" where
  "d11n_sb BRCMU_CHAN_SB_NONE = 0x0300"
| "d11n_sb BRCMU_CHAN_SB_LLL = 0x0100"
| "d11n_sb BRCMU_CHAN_SB_LLU = 0x0200"
| "d11n_sb _ = 0"

fun d11n_bw :: "brcmu_chan_bw \<Rightarrow> u16" where
  "d11n_bw BRCMU_CHAN_BW_20 = 0x0800"
| "d11n_bw BRCMU_CHAN_BW_40 = 0x0c00"
| "d11n_bw _ = 0"

definition brcmu_d11n_encchspec :: "brcmu_chan \<Rightarrow> brcmu_chan" where
  "brcmu_d11n_encchspec ch =
     (let ch = (if chan_bw ch = BRCMU_CHAN_BW_20 then ch\<lparr>chan_sb := BRCMU_CHAN_SB_NONE\<rparr> else ch);
          c = 0;
          c = brcmu_maskset16 c 0x00ff 0 (ucast (chnum ch));
          c = brcmu_maskset16 c 0x0300 0 (d11n_sb (chan_sb ch));
          c = brcmu_maskset16 c 0x0c00 0 (d11n_bw (chan_bw ch));
          c = (if chnum ch \<le> 14 then c OR 0x2000 else c OR 0x1000)
      in ch\<lparr>chspec := c\<rparr>)"

definition brcmu_d11n_decchspec :: "brcmu_chan \<Rightarrow> brcmu_chan" where
  "brcmu_d11n_decchspec ch =
     (let cs = chspec ch;
          n = ucast (cs AND 0x00ff);
          ch = ch\<lparr>chnum := n, control_ch_num := n\<rparr>;
          ch = (if cs AND 0x0c00 = 0x0800 then
                  ch\<lparr>chan_bw := BRCMU_CHAN_BW_20, chan_sb := BRCMU_CHAN_SB_NONE\<rparr>
                else if cs AND 0x0c00 = 0x0c00 then
                  (if cs AND 0x0300 = 0x0100
                   then ch\<lparr>chan_bw := BRCMU_CHAN_BW_40, chan_sb := BRCMU_CHAN_SB_L,
                           control_ch_num := n - 2\<rparr>
                   else ch\<lparr>chan_bw := BRCMU_CHAN_BW_40, chan_sb := BRCMU_CHAN_SB_U,
                           control_ch_num := n + 2\<rparr>)
                else ch)
      in if cs AND 0x3000 = 0x1000 then ch\<lparr>chan_band := BRCMU_CHAN_BAND_5G\<rparr>
         else if cs AND 0x3000 = 0x2000 then ch\<lparr>chan_band := BRCMU_CHAN_BAND_2G\<rparr>
         else ch)"

section \<open>The 802.11ac codec\<close>

fun d11ac_bw :: "brcmu_chan_bw \<Rightarrow> u16" where
  "d11ac_bw BRCMU_CHAN_BW_20 = 0x1000"
| "d11ac_bw BRCMU_CHAN_BW_40 = 0x1800"
| "d11ac_bw BRCMU_CHAN_BW_80 = 0x2000"
| "d11ac_bw BRCMU_CHAN_BW_160 = 0x2800"
| "d11ac_bw BRCMU_CHAN_BW_80P80 = 0"

definition brcmu_d11ac_encchspec :: "brcmu_chan \<Rightarrow> brcmu_chan" where
  "brcmu_d11ac_encchspec ch =
     (let ch = (if chan_bw ch = BRCMU_CHAN_BW_20 \<or> chan_sb ch = BRCMU_CHAN_SB_NONE
                then ch\<lparr>chan_sb := BRCMU_CHAN_SB_L\<rparr> else ch);
          c = chspec ch;
          c = brcmu_maskset16 c 0x00ff 0 (ucast (chnum ch));
          c = brcmu_maskset16 c 0x0700 8 (sb_num (chan_sb ch));
          c = brcmu_maskset16 c 0x3800 0 (d11ac_bw (chan_bw ch));
          c = c AND NOT 0xc000;
          c = (if chan_band ch = BRCMU_CHAN_BAND_6G then c OR 0x4000
               else if chan_band ch = BRCMU_CHAN_BAND_5G then c OR 0xc000
               else if chan_band ch = BRCMU_CHAN_BAND_2G then c OR 0x0000
               else c)
      in ch\<lparr>chspec := c\<rparr>)"

text \<open>The two nested switches on the control sideband: the distance of the control channel.\<close>

fun sb_dist_80 :: "brcmu_chan_sb \<Rightarrow> u8" where
  "sb_dist_80 BRCMU_CHAN_SB_LLL = - 6"
| "sb_dist_80 BRCMU_CHAN_SB_LLU = - 2"
| "sb_dist_80 BRCMU_CHAN_SB_LUL = 2"
| "sb_dist_80 BRCMU_CHAN_SB_LUU = 6"
| "sb_dist_80 _ = 0"

fun sb_dist_160 :: "brcmu_chan_sb \<Rightarrow> u8" where
  "sb_dist_160 BRCMU_CHAN_SB_LLL = - 14"
| "sb_dist_160 BRCMU_CHAN_SB_LLU = - 10"
| "sb_dist_160 BRCMU_CHAN_SB_LUL = - 6"
| "sb_dist_160 BRCMU_CHAN_SB_LUU = - 2"
| "sb_dist_160 BRCMU_CHAN_SB_ULL = 2"
| "sb_dist_160 BRCMU_CHAN_SB_ULU = 6"
| "sb_dist_160 BRCMU_CHAN_SB_UUL = 10"
| "sb_dist_160 BRCMU_CHAN_SB_UUU = 14"
| "sb_dist_160 BRCMU_CHAN_SB_NONE = 0"

definition brcmu_d11ac_decchspec :: "brcmu_chan \<Rightarrow> brcmu_chan" where
  "brcmu_d11ac_decchspec ch =
     (let cs = chspec ch;
          n = ucast (cs AND 0x00ff);
          ch = ch\<lparr>chnum := n, control_ch_num := n\<rparr>;
          w = cs AND 0x3800;
          val = cs AND 0x0700;
          sb = sb_of_num (brcmu_maskget16 cs 0x0700 8);
          ch = (if w = 0x1000 then
                  ch\<lparr>chan_bw := BRCMU_CHAN_BW_20, chan_sb := BRCMU_CHAN_SB_NONE\<rparr>
                else if w = 0x1800 then
                  (if val = 0x0000
                   then ch\<lparr>chan_bw := BRCMU_CHAN_BW_40, chan_sb := BRCMU_CHAN_SB_L,
                           control_ch_num := n - 2\<rparr>
                   else if val = 0x0100
                   then ch\<lparr>chan_bw := BRCMU_CHAN_BW_40, chan_sb := BRCMU_CHAN_SB_U,
                           control_ch_num := n + 2\<rparr>
                   else ch\<lparr>chan_bw := BRCMU_CHAN_BW_40\<rparr>)
                else if w = 0x2000 then
                  ch\<lparr>chan_bw := BRCMU_CHAN_BW_80, chan_sb := sb, control_ch_num := n + sb_dist_80 sb\<rparr>
                else if w = 0x2800 then
                  ch\<lparr>chan_bw := BRCMU_CHAN_BW_160, chan_sb := sb, control_ch_num := n + sb_dist_160 sb\<rparr>
                else ch);
          b = cs AND 0xc000
      in if b = 0x4000 then ch\<lparr>chan_band := BRCMU_CHAN_BAND_6G\<rparr>
         else if b = 0xc000 then ch\<lparr>chan_band := BRCMU_CHAN_BAND_5G\<rparr>
         else if b = 0x0000 then ch\<lparr>chan_band := BRCMU_CHAN_BAND_2G\<rparr>
         else ch)"

record brcmu_d11inf =
  io_type :: u8
  encchspec :: "brcmu_chan \<Rightarrow> brcmu_chan"
  decchspec :: "brcmu_chan \<Rightarrow> brcmu_chan"

definition brcmu_d11_attach :: "brcmu_d11inf \<Rightarrow> brcmu_d11inf" where
  "brcmu_d11_attach d11inf =
     (if io_type d11inf = 1
      then d11inf\<lparr>encchspec := brcmu_d11n_encchspec, decchspec := brcmu_d11n_decchspec\<rparr>
      else d11inf\<lparr>encchspec := brcmu_d11ac_encchspec, decchspec := brcmu_d11ac_decchspec\<rparr>)"

section \<open>Channel definitions of the configuration layer\<close>

datatype nl80211_band = NL80211_BAND_2GHZ | NL80211_BAND_5GHZ | NL80211_BAND_60GHZ | NL80211_BAND_6GHZ
  | NL80211_BAND_S1GHZ | NL80211_BAND_LC

datatype nl80211_chan_width = NL80211_CHAN_WIDTH_20_NOHT | NL80211_CHAN_WIDTH_20
  | NL80211_CHAN_WIDTH_40 | NL80211_CHAN_WIDTH_80 | NL80211_CHAN_WIDTH_80P80
  | NL80211_CHAN_WIDTH_160 | NL80211_CHAN_WIDTH_5 | NL80211_CHAN_WIDTH_10
  | NL80211_CHAN_WIDTH_OTHER

text \<open>The fields of cfg80211's structures that the driver reads.\<close>

record ieee80211_channel =
  ic_band :: nl80211_band
  center_freq :: u32

record cfg80211_chan_def =
  cd_chan :: ieee80211_channel
  cd_width :: nl80211_chan_width
  center_freq1 :: u32

fun nl80211_band_to_fwil :: "nl80211_band \<Rightarrow> u8" where
  "nl80211_band_to_fwil NL80211_BAND_2GHZ = 2"
| "nl80211_band_to_fwil NL80211_BAND_5GHZ = 1"
| "nl80211_band_to_fwil NL80211_BAND_6GHZ = 4"
| "nl80211_band_to_fwil _ = 0"

fun nl80211_band_to_chanspec_band :: "nl80211_band \<Rightarrow> u8" where
  "nl80211_band_to_chanspec_band NL80211_BAND_2GHZ = BRCMU_CHAN_BAND_2G"
| "nl80211_band_to_chanspec_band NL80211_BAND_5GHZ = BRCMU_CHAN_BAND_5G"
| "nl80211_band_to_chanspec_band NL80211_BAND_6GHZ = BRCMU_CHAN_BAND_6G"
| "nl80211_band_to_chanspec_band _ = BRCMU_CHAN_BAND_2G"

text \<open>\<open>ieee80211_frequency_to_channel\<close> belongs to cfg80211 and is the argument \<open>f2c\<close>; the
  uninitialised local \<open>ch_inf\<close> starts with the arbitrary contents \<open>junk\<close>.\<close>

definition chandef_to_chanspec ::
  "(u32 \<Rightarrow> int) \<Rightarrow> brcmu_chan \<Rightarrow> brcmu_d11inf \<Rightarrow> cfg80211_chan_def \<Rightarrow> u16" where
  "chandef_to_chanspec f2c junk d11inf ch =
     (let ch_inf = junk\<lparr>chnum := of_int (f2c (center_freq1 ch))\<rparr>;
          off = sint (center_freq (cd_chan ch) - center_freq1 ch);
          ch_inf = (case cd_width ch of
              NL80211_CHAN_WIDTH_20 \<Rightarrow> ch_inf\<lparr>chan_bw := BRCMU_CHAN_BW_20\<rparr>
            | NL80211_CHAN_WIDTH_20_NOHT \<Rightarrow> ch_inf\<lparr>chan_bw := BRCMU_CHAN_BW_20\<rparr>
            | NL80211_CHAN_WIDTH_40 \<Rightarrow> ch_inf\<lparr>chan_bw := BRCMU_CHAN_BW_40,
                chan_sb := (if 0 < off then BRCMU_CHAN_SB_U else BRCMU_CHAN_SB_L)\<rparr>
            | NL80211_CHAN_WIDTH_80 \<Rightarrow> ch_inf\<lparr>chan_bw := BRCMU_CHAN_BW_80,
                chan_sb := (if off = -30 then BRCMU_CHAN_SB_LL
                            else if off = -10 then BRCMU_CHAN_SB_LU
                            else if off = 10 then BRCMU_CHAN_SB_UL else BRCMU_CHAN_SB_UU)\<rparr>
            | NL80211_CHAN_WIDTH_160 \<Rightarrow> ch_inf\<lparr>chan_bw := BRCMU_CHAN_BW_160,
                chan_sb := (if off = -70 then BRCMU_CHAN_SB_LLL
                            else if off = -50 then BRCMU_CHAN_SB_LLU
                            else if off = -30 then BRCMU_CHAN_SB_LUL
                            else if off = -10 then BRCMU_CHAN_SB_LUU
                            else if off = 10 then BRCMU_CHAN_SB_ULL
                            else if off = 30 then BRCMU_CHAN_SB_ULU
                            else if off = 50 then BRCMU_CHAN_SB_UUL else BRCMU_CHAN_SB_UUU)\<rparr>
            | _ \<Rightarrow> ch_inf);
          ch_inf = ch_inf\<lparr>chan_band := nl80211_band_to_chanspec_band (ic_band (cd_chan ch))\<rparr>
      in chspec (encchspec d11inf ch_inf))"

definition channel_to_chanspec ::
  "(u32 \<Rightarrow> int) \<Rightarrow> brcmu_chan \<Rightarrow> brcmu_d11inf \<Rightarrow> ieee80211_channel \<Rightarrow> u16" where
  "channel_to_chanspec f2c junk d11inf ch =
     (let ch_inf = junk\<lparr>chan_band := nl80211_band_to_chanspec_band (ic_band ch),
                        chnum := of_int (f2c (center_freq ch)),
                        chan_bw := BRCMU_CHAN_BW_20\<rparr>
      in chspec (encchspec d11inf ch_inf))"

section \<open>Bit facts\<close>

lemma byte_and [simp]:
  "(ucast (c :: u8) :: u16) AND 255 = ucast c"
  "(ucast (c :: u8) :: u16) AND 0x0300 = 0"
  "(ucast (c :: u8) :: u16) AND 0x0c00 = 0"
  "(ucast (c :: u8) :: u16) AND 0x3000 = 0"
  "(ucast (c :: u8) :: u16) AND 0x0700 = 0"
  "(ucast (c :: u8) :: u16) AND 0x3800 = 0"
  "(ucast (c :: u8) :: u16) AND 0xc000 = 0"
proof -
  have low: "(ucast c :: u16) AND mask 8 = ucast c"
    by (rule bit_word_eqI) (auto simp: bit_simps dest: bit_imp_le_length)
  then show e: "(ucast c :: u16) AND 255 = ucast c" by (simp add: mask_numeral)
  have z: "(ucast c :: u16) AND m = 0" if "(255 :: u16) AND m = 0" for m
    using that e by (metis (no_types) and.assoc and.commute bit.conj_zero_right)
  show "(ucast c :: u16) AND 0x0300 = 0" "(ucast c :: u16) AND 0x0c00 = 0"
    "(ucast c :: u16) AND 0x3000 = 0" "(ucast c :: u16) AND 0x0700 = 0"
    "(ucast c :: u16) AND 0x3800 = 0" "(ucast c :: u16) AND 0xc000 = 0"
    by (rule z, simp)+
qed

text \<open>Masks the simplifier leaves as negative numerals.\<close>

lemma neg_masks [simp]:
  "(x :: u16) AND - 65536 = 0"
  "(ucast (c :: u8) :: u16) AND - 65281 = ucast c"
proof -
  have "(- 65536 :: u16) = 0" "(- 65281 :: u16) = 255" by simp_all
  then show "(x :: u16) AND - 65536 = 0" "(ucast (c :: u8) :: u16) AND - 65281 = ucast c"
    by (simp_all only: bit.conj_zero_right byte_and)
qed

lemmas codec_simps = brcmu_maskset16_def brcmu_maskget16_def Let_def bit.conj_disj_distrib
  bit.conj_disj_distrib2 and.assoc or.assoc

lemma ucast_byte [simp]: "(ucast (ucast (c :: u8) :: u16) :: u8) = c"
  by (rule bit_word_eqI) (auto simp: bit_simps dest: bit_imp_le_length)

lemma d11ac_enc_chspec:
  assumes "chan_bw ch \<noteq> BRCMU_CHAN_BW_80P80" and "chan_band ch \<in> {0, 1, 2}"
  shows "chspec (brcmu_d11ac_encchspec ch) =
    ucast (chnum ch) OR (push_bit 8 (sb_num (chan_sb (brcmu_d11ac_encchspec ch))) AND 0x0700)
      OR d11ac_bw (chan_bw ch)
      OR (if chan_band ch = 2 then 0x4000 else if chan_band ch = 1 then 0xc000 else 0)"
  using assms
  by (cases "chan_bw ch"; cases "chan_sb ch")
    (auto simp: brcmu_d11ac_encchspec_def codec_simps)


text \<open>The control sideband after encoding, and the channels a layout can express.\<close>

definition d11ac_norm_sb :: "brcmu_chan \<Rightarrow> brcmu_chan_sb" where
  "d11ac_norm_sb ch = (if chan_bw ch = BRCMU_CHAN_BW_20 \<or> chan_sb ch = BRCMU_CHAN_SB_NONE
     then BRCMU_CHAN_SB_L else chan_sb ch)"

definition d11ac_valid :: "brcmu_chan \<Rightarrow> bool" where
  "d11ac_valid ch \<longleftrightarrow> chan_band ch \<in> {0, 1, 2} \<and> chan_bw ch \<noteq> BRCMU_CHAN_BW_80P80
     \<and> (chan_bw ch = BRCMU_CHAN_BW_40 \<longrightarrow>
          chan_sb ch \<in> {BRCMU_CHAN_SB_NONE, BRCMU_CHAN_SB_L, BRCMU_CHAN_SB_U})
     \<and> (chan_bw ch = BRCMU_CHAN_BW_80 \<longrightarrow> chan_sb ch \<in> {BRCMU_CHAN_SB_NONE, BRCMU_CHAN_SB_LL,
          BRCMU_CHAN_SB_LU, BRCMU_CHAN_SB_UL, BRCMU_CHAN_SB_UU})"

definition d11n_valid :: "brcmu_chan \<Rightarrow> bool" where
  "d11n_valid ch \<longleftrightarrow> chan_band ch = (if chnum ch \<le> 14 then 0 else 1)
     \<and> (chan_bw ch = BRCMU_CHAN_BW_20
        \<or> chan_bw ch = BRCMU_CHAN_BW_40 \<and> chan_sb ch \<in> {BRCMU_CHAN_SB_L, BRCMU_CHAN_SB_U})"

text \<open>The distance, in channel numbers, from the centre to the control channel.\<close>

fun sb_dist :: "brcmu_chan_bw \<Rightarrow> brcmu_chan_sb \<Rightarrow> u8" where
  "sb_dist BRCMU_CHAN_BW_40 sb = (if sb = BRCMU_CHAN_SB_L then - 2 else 2)"
| "sb_dist BRCMU_CHAN_BW_80 sb = sb_dist_80 sb"
| "sb_dist BRCMU_CHAN_BW_160 sb = sb_dist_160 sb"
| "sb_dist _ sb = 0"

lemma d11ac_enc_fields:
  "chnum (brcmu_d11ac_encchspec ch) = chnum ch"
  "chan_sb (brcmu_d11ac_encchspec ch) = d11ac_norm_sb ch"
  by (simp_all add: brcmu_d11ac_encchspec_def d11ac_norm_sb_def Let_def)

text \<open>The four fields of an encoded word, each read through its mask.\<close>

lemma d11ac_bw_masks:
  "d11ac_bw b AND 255 = 0" "d11ac_bw b AND 0x0700 = 0" "d11ac_bw b AND 0xc000 = 0"
  "d11ac_bw b AND 0x3800 = d11ac_bw b"
  by (cases b, simp_all)+

lemma sb_num_masks:
  "push_bit 8 (sb_num s) AND (0x0700 AND m) = push_bit 8 (sb_num s) AND 0x0700 AND m"
  by (simp add: and.assoc)

lemma d11ac_enc_masks:
  assumes "chan_bw ch \<noteq> BRCMU_CHAN_BW_80P80" and "chan_band ch \<in> {0, 1, 2}"
    and "cs = chspec (brcmu_d11ac_encchspec ch)"
  shows "cs AND 255 = ucast (chnum ch)"
    and "cs AND 0x3800 = d11ac_bw (chan_bw ch)"
    and "cs AND 0x0700 = push_bit 8 (sb_num (d11ac_norm_sb ch)) AND 0x0700"
    and "cs AND 0xc000 = (if chan_band ch = 2 then 0x4000 else if chan_band ch = 1 then 0xc000 else 0)"
  unfolding assms(3) d11ac_enc_chspec [OF assms(1,2)] d11ac_enc_fields
  by (simp_all add: bit.conj_disj_distrib2 d11ac_bw_masks and.assoc)

lemma d11ac_sb_field:
  "sb \<noteq> BRCMU_CHAN_SB_NONE \<Longrightarrow> sb_of_num (drop_bit 8 (push_bit 8 (sb_num sb) AND 0x0700)) = sb"
  by (cases sb) (simp_all add: sb_of_num_def)

lemma d11ac_dec_enc:
  assumes "d11ac_valid ch" and "chspec x = chspec (brcmu_d11ac_encchspec ch)"
  shows "brcmu_d11ac_decchspec x = x\<lparr>chnum := chnum ch,
     control_ch_num := chnum ch + sb_dist (chan_bw ch) (d11ac_norm_sb ch),
     chan_band := chan_band ch, chan_bw := chan_bw ch,
     chan_sb := (if chan_bw ch = BRCMU_CHAN_BW_20 then BRCMU_CHAN_SB_NONE else d11ac_norm_sb ch)\<rparr>"
proof -
  have v: "chan_bw ch \<noteq> BRCMU_CHAN_BW_80P80" "chan_band ch \<in> {0, 1, 2}"
    using assms(1) by (auto simp: d11ac_valid_def)
  note m = d11ac_enc_masks [OF v assms(2)]
  have n: "d11ac_norm_sb ch \<noteq> BRCMU_CHAN_SB_NONE" by (simp add: d11ac_norm_sb_def)
  have f: "sb_of_num (brcmu_maskget16 (chspec x) 0x0700 8) = d11ac_norm_sb ch"
    unfolding brcmu_maskget16_def m(3) by (rule d11ac_sb_field [OF n])
  have sb40: "d11ac_norm_sb ch \<in> {BRCMU_CHAN_SB_L, BRCMU_CHAN_SB_U}" if "chan_bw ch = BRCMU_CHAN_BW_40"
    using assms(1) that by (auto simp: d11ac_norm_sb_def d11ac_valid_def)
  note run = brcmu_d11ac_decchspec_def [of x] Let_def m f
  show ?thesis
  proof (cases "chan_bw ch")
    case BRCMU_CHAN_BW_40
    from sb40 [OF this] v(2) this show ?thesis by (elim insertE emptyE; simp add: run)
  qed (use v in \<open>(elim insertE emptyE; simp add: run)+\<close>)
qed

lemma d11n_dec_enc:
  assumes "d11n_valid ch" and "chspec x = chspec (brcmu_d11n_encchspec ch)"
  shows "brcmu_d11n_decchspec x = x\<lparr>chnum := chnum ch,
     control_ch_num := chnum ch + sb_dist (chan_bw ch) (chan_sb ch),
     chan_band := chan_band ch, chan_bw := chan_bw ch,
     chan_sb := (if chan_bw ch = BRCMU_CHAN_BW_20 then BRCMU_CHAN_SB_NONE else chan_sb ch)\<rparr>"
  using assms
  by (auto simp: d11n_valid_def brcmu_d11n_encchspec_def brcmu_d11n_decchspec_def codec_simps)

section \<open>The codec contract\<close>

text \<open>What the driver relies on through the function pointers of \<open>brcmu_d11inf\<close>: encoding
  ignores the control channel and whatever word the structure held, and decoding recovers the
  centre channel, the band and the bandwidth, with the control channel at the distance the
  sideband stands for.\<close>

locale chan_codec =
  fixes enc dec :: "brcmu_chan \<Rightarrow> brcmu_chan"
    and valid :: "brcmu_chan \<Rightarrow> bool"
    and norm :: "brcmu_chan \<Rightarrow> brcmu_chan_sb"
  assumes dec_enc: "valid ch \<Longrightarrow> chspec x = chspec (enc ch) \<Longrightarrow>
      dec x = x\<lparr>chnum := chnum ch, control_ch_num := chnum ch + sb_dist (chan_bw ch) (norm ch),
        chan_band := chan_band ch, chan_bw := chan_bw ch,
        chan_sb := (if chan_bw ch = BRCMU_CHAN_BW_20 then BRCMU_CHAN_SB_NONE else norm ch)\<rparr>"
begin

text \<open>Encoding distinguishes channels: equal words mean equal centre, band, width and, above
  20 MHz, sideband.\<close>

lemma enc_inj:
  assumes "valid a" and "valid b" and "chspec (enc a) = chspec (enc b)"
  shows "chnum a = chnum b \<and> chan_band a = chan_band b \<and> chan_bw a = chan_bw b
    \<and> (chan_bw a \<noteq> BRCMU_CHAN_BW_20 \<longrightarrow> norm a = norm b)"
proof -
  have "chspec (enc a) = chspec (enc a)" ..
  from dec_enc [OF assms(1) this] dec_enc [OF assms(2) assms(3)]
  have *: "(enc a)\<lparr>chnum := chnum a, control_ch_num := chnum a + sb_dist (chan_bw a) (norm a),
        chan_band := chan_band a, chan_bw := chan_bw a,
        chan_sb := (if chan_bw a = BRCMU_CHAN_BW_20 then BRCMU_CHAN_SB_NONE else norm a)\<rparr>
      = (enc a)\<lparr>chnum := chnum b, control_ch_num := chnum b + sb_dist (chan_bw b) (norm b),
        chan_band := chan_band b, chan_bw := chan_bw b,
        chan_sb := (if chan_bw b = BRCMU_CHAN_BW_20 then BRCMU_CHAN_SB_NONE else norm b)\<rparr>"
    by simp
  from arg_cong [OF *, of chnum] arg_cong [OF *, of chan_band] arg_cong [OF *, of chan_bw]
    arg_cong [OF *, of chan_sb]
  show ?thesis by (auto split: if_splits)
qed

lemma control_channel:
  assumes "valid ch" and "chspec x = chspec (enc ch)"
  shows "control_ch_num (dec x) = chnum ch + sb_dist (chan_bw ch) (norm ch)"
  by (simp add: dec_enc [OF assms])

end

interpretation d11ac: chan_codec brcmu_d11ac_encchspec brcmu_d11ac_decchspec d11ac_valid d11ac_norm_sb
  by unfold_locales (rule d11ac_dec_enc)

interpretation d11n: chan_codec brcmu_d11n_encchspec brcmu_d11n_decchspec d11n_valid chan_sb
  by unfold_locales (rule d11n_dec_enc)

section \<open>Properties\<close>

text \<open>C3: In both layouts, through the codec that \<open>brcmu_d11_attach\<close> installs, encoding a channel
  the layout can express and decoding the word gives back the centre channel, the band, the
  bandwidth and the control sideband, and computes the control channel from them.\<close>

theorem chanspec_roundtrip:
  assumes "info = brcmu_d11_attach d11inf"
    and "if io_type d11inf = 1 then d11n_valid ch else d11ac_valid ch"
    and "nrm = (if io_type d11inf = 1 then chan_sb ch else d11ac_norm_sb ch)"
    and "chspec x = chspec (encchspec info ch)"
  shows "decchspec info x = x\<lparr>chnum := chnum ch,
     control_ch_num := chnum ch + sb_dist (chan_bw ch) nrm,
     chan_band := chan_band ch, chan_bw := chan_bw ch,
     chan_sb := (if chan_bw ch = BRCMU_CHAN_BW_20 then BRCMU_CHAN_SB_NONE else nrm)\<rparr>"
  using assms d11n.dec_enc [of ch x] d11ac.dec_enc [of ch x]
  by (cases "io_type d11inf = 1") (simp_all add: brcmu_d11_attach_def)

text \<open>An 80 MHz channel of the 5 GHz band, centre 42, control channel 36.\<close>

definition chan_ex :: brcmu_chan where
  "chan_ex = \<lparr>chspec = 0, chnum = 42, control_ch_num = 0, chan_band = 1,
     chan_bw = BRCMU_CHAN_BW_80, chan_sb = BRCMU_CHAN_SB_LL\<rparr>"

definition inf_ex :: brcmu_d11inf where
  "inf_ex = brcmu_d11_attach \<lparr>io_type = 2, encchspec = id, decchspec = id\<rparr>"

lemma chan_ex_valid: "d11ac_valid chan_ex"
  by (simp add: d11ac_valid_def chan_ex_def)

theorem chanspec_roundtrip_witness:
  "control_ch_num (decchspec inf_ex (encchspec inf_ex chan_ex)) = 36"
proof -
  have "decchspec inf_ex (encchspec inf_ex chan_ex) = (encchspec inf_ex chan_ex)
      \<lparr>chnum := chnum chan_ex,
       control_ch_num := chnum chan_ex + sb_dist (chan_bw chan_ex) (d11ac_norm_sb chan_ex),
       chan_band := chan_band chan_ex, chan_bw := chan_bw chan_ex,
       chan_sb := (if chan_bw chan_ex = BRCMU_CHAN_BW_20 then BRCMU_CHAN_SB_NONE
                   else d11ac_norm_sb chan_ex)\<rparr>"
    by (rule chanspec_roundtrip [OF inf_ex_def]) (simp_all add: chan_ex_valid)
  then show ?thesis by (simp add: chan_ex_def d11ac_norm_sb_def)
qed

text \<open>Both codecs are injective on the channels they can express: two channels with the same
  word agree in centre channel, band, bandwidth and (above 20 MHz) control sideband.\<close>

theorem chanspec_injective:
  "(d11ac_valid a \<and> d11ac_valid b
      \<and> chspec (brcmu_d11ac_encchspec a) = chspec (brcmu_d11ac_encchspec b) \<longrightarrow>
    chnum a = chnum b \<and> chan_band a = chan_band b \<and> chan_bw a = chan_bw b
      \<and> (chan_bw a \<noteq> BRCMU_CHAN_BW_20 \<longrightarrow> d11ac_norm_sb a = d11ac_norm_sb b))
   \<and> (d11n_valid a \<and> d11n_valid b
      \<and> chspec (brcmu_d11n_encchspec a) = chspec (brcmu_d11n_encchspec b) \<longrightarrow>
    chnum a = chnum b \<and> chan_band a = chan_band b \<and> chan_bw a = chan_bw b
      \<and> (chan_bw a \<noteq> BRCMU_CHAN_BW_20 \<longrightarrow> chan_sb a = chan_sb b))"
  using d11ac.enc_inj [of a b] d11n.enc_inj [of a b] by blast

theorem chanspec_injective_witness:
  "d11ac_valid chan_ex \<and> chspec (brcmu_d11ac_encchspec chan_ex) = 0xe02a
   \<and> chnum chan_ex = chnum (chan_ex\<lparr>control_ch_num := 9\<rparr>)"
proof -
  have "d11ac_valid (chan_ex\<lparr>control_ch_num := 9\<rparr>)" by (simp add: d11ac_valid_def chan_ex_def)
  moreover have "chspec (brcmu_d11ac_encchspec chan_ex)
      = chspec (brcmu_d11ac_encchspec (chan_ex\<lparr>control_ch_num := 9\<rparr>))"
    by (simp add: brcmu_d11ac_encchspec_def chan_ex_def Let_def)
  moreover have "chspec (brcmu_d11ac_encchspec chan_ex) = 0xe02a"
    by (simp add: brcmu_d11ac_encchspec_def chan_ex_def Let_def brcmu_maskset16_def)
  ultimately show ?thesis
    using chanspec_injective [of chan_ex "chan_ex\<lparr>control_ch_num := 9\<rparr>"] chan_ex_valid by blast
qed

text \<open>The offsets, in MHz, of the primary channel from the centre that a width allows.\<close>

definition primary_ok :: "nl80211_chan_width \<Rightarrow> int \<Rightarrow> bool" where
  "primary_ok w off \<longleftrightarrow> (case w of
      NL80211_CHAN_WIDTH_20 \<Rightarrow> off = 0
    | NL80211_CHAN_WIDTH_20_NOHT \<Rightarrow> off = 0
    | NL80211_CHAN_WIDTH_40 \<Rightarrow> off \<in> {-10, 10}
    | NL80211_CHAN_WIDTH_80 \<Rightarrow> off \<in> {-30, -10, 10, 30}
    | NL80211_CHAN_WIDTH_160 \<Rightarrow> off \<in> {-70, -50, -30, -10, 10, 30, 50, 70}
    | _ \<Rightarrow> False)"

lemma attach_ac: "io_type d11inf \<noteq> 1 \<Longrightarrow> encchspec (brcmu_d11_attach d11inf) = brcmu_d11ac_encchspec"
  "io_type d11inf \<noteq> 1 \<Longrightarrow> decchspec (brcmu_d11_attach d11inf) = brcmu_d11ac_decchspec"
  by (simp_all add: brcmu_d11_attach_def)

lemma nl_band_range: "nl80211_band_to_chanspec_band b \<in> {0, 1, 2}"
  by (cases b) simp_all

text \<open>With an 802.11ac firmware, \<open>chandef_to_chanspec\<close> followed by the decoder finds the
  primary channel the configuration layer asked for: the control channel is the centre channel
  plus one fifth of the frequency offset in MHz, for every width and offset nl80211 allows; the
  centre channel and the band survive, whatever the uninitialised local held.\<close>

theorem chandef_to_chanspec_primary:
  assumes "io_type d11inf \<noteq> 1" and "info = brcmu_d11_attach d11inf"
    and "off = sint (center_freq (cd_chan ch) - center_freq1 ch)"
    and "primary_ok (cd_width ch) off"
    and "chspec x = chandef_to_chanspec f2c junk info ch"
  shows "control_ch_num (decchspec info x) = of_int (f2c (center_freq1 ch)) + of_int (off div 5)
    \<and> chnum (decchspec info x) = of_int (f2c (center_freq1 ch))
    \<and> chan_band (decchspec info x) = nl80211_band_to_chanspec_band (ic_band (cd_chan ch))"
proof -
  define n :: u8 where "n = of_int (f2c (center_freq1 ch))"
  define b where "b = nl80211_band_to_chanspec_band (ic_band (cd_chan ch))"
  have b: "b \<in> {0, 1, 2}" unfolding b_def by (rule nl_band_range)
  have key: "control_ch_num (decchspec info x) = n + of_int (off div 5)
      \<and> chnum (decchspec info x) = n \<and> chan_band (decchspec info x) = b"
    if "chspec x = chspec (brcmu_d11ac_encchspec c)" "d11ac_valid c" "chnum c = n" "chan_band c = b"
      "sb_dist (chan_bw c) (d11ac_norm_sb c) = of_int (off div 5)" for c
    using d11ac.dec_enc [OF that(2,1)] that(3-5) assms(1,2) by (simp add: attach_ac)
  let ?c = "\<lambda>w s. junk\<lparr>chnum := n, chan_bw := w, chan_sb := s, chan_band := b\<rparr>"
  note run = chandef_to_chanspec_def n_def [symmetric] b_def [symmetric]
    assms(3) [symmetric] assms(2) attach_ac [OF assms(1)] Let_def
  show ?thesis
    unfolding n_def [symmetric] b_def [symmetric]
  proof (cases "cd_width ch")
    case NL80211_CHAN_WIDTH_20_NOHT
    then show "control_ch_num (decchspec info x) = n + of_int (off div 5)
        \<and> chnum (decchspec info x) = n \<and> chan_band (decchspec info x) = b"
      using assms(4,5) b by (intro key [of "?c BRCMU_CHAN_BW_20 (chan_sb junk)"])
        (auto simp: run primary_ok_def d11ac_valid_def)
  next
    case NL80211_CHAN_WIDTH_20
    then show "control_ch_num (decchspec info x) = n + of_int (off div 5)
        \<and> chnum (decchspec info x) = n \<and> chan_band (decchspec info x) = b"
      using assms(4,5) b by (intro key [of "?c BRCMU_CHAN_BW_20 (chan_sb junk)"])
        (auto simp: run primary_ok_def d11ac_valid_def)
  next
    case NL80211_CHAN_WIDTH_40
    then show "control_ch_num (decchspec info x) = n + of_int (off div 5)
        \<and> chnum (decchspec info x) = n \<and> chan_band (decchspec info x) = b"
      using assms(4,5) b
      by (intro key [of "?c BRCMU_CHAN_BW_40 (if 0 < off then BRCMU_CHAN_SB_U else BRCMU_CHAN_SB_L)"])
        (auto simp: run primary_ok_def d11ac_valid_def d11ac_norm_sb_def)
  next
    case NL80211_CHAN_WIDTH_80
    then show "control_ch_num (decchspec info x) = n + of_int (off div 5)
        \<and> chnum (decchspec info x) = n \<and> chan_band (decchspec info x) = b"
      using assms(4,5) b
      by (intro key [of "?c BRCMU_CHAN_BW_80 (if off = -30 then BRCMU_CHAN_SB_LL
          else if off = -10 then BRCMU_CHAN_SB_LU
          else if off = 10 then BRCMU_CHAN_SB_UL else BRCMU_CHAN_SB_UU)"])
        (auto simp: run primary_ok_def d11ac_valid_def d11ac_norm_sb_def)
  next
    case NL80211_CHAN_WIDTH_160
    then show "control_ch_num (decchspec info x) = n + of_int (off div 5)
        \<and> chnum (decchspec info x) = n \<and> chan_band (decchspec info x) = b"
      using assms(4,5) b
      by (intro key [of "?c BRCMU_CHAN_BW_160 (if off = -70 then BRCMU_CHAN_SB_LLL
          else if off = -50 then BRCMU_CHAN_SB_LLU else if off = -30 then BRCMU_CHAN_SB_LUL
          else if off = -10 then BRCMU_CHAN_SB_LUU else if off = 10 then BRCMU_CHAN_SB_ULL
          else if off = 30 then BRCMU_CHAN_SB_ULU else if off = 50 then BRCMU_CHAN_SB_UUL
          else BRCMU_CHAN_SB_UUU)"])
        (auto simp: run primary_ok_def d11ac_valid_def d11ac_norm_sb_def)
  qed (use assms(4) in \<open>auto simp: primary_ok_def\<close>)
qed

theorem chandef_to_chanspec_primary_witness:
  "control_ch_num (decchspec inf_ex (chan_ex\<lparr>chspec := chandef_to_chanspec (\<lambda>f. (sint f - 5000) div 5)
      chan_ex inf_ex \<lparr>cd_chan = \<lparr>ic_band = NL80211_BAND_5GHZ, center_freq = 5180\<rparr>,
        cd_width = NL80211_CHAN_WIDTH_80, center_freq1 = 5210\<rparr>\<rparr>)) = 36"
proof -
  let ?ch = "\<lparr>cd_chan = \<lparr>ic_band = NL80211_BAND_5GHZ, center_freq = 5180\<rparr>,
        cd_width = NL80211_CHAN_WIDTH_80, center_freq1 = 5210\<rparr>"
  have off: "-30 = sint (center_freq (cd_chan ?ch) - center_freq1 ?ch)" by simp
  have w: "primary_ok (cd_width ?ch) (-30)" by (simp add: primary_ok_def)
  from chandef_to_chanspec_primary [OF _ inf_ex_def off w, of "chan_ex\<lparr>chspec :=
      chandef_to_chanspec (\<lambda>f. (sint f - 5000) div 5) chan_ex inf_ex ?ch\<rparr>"
      "\<lambda>f. (sint f - 5000) div 5" chan_ex]
  show ?thesis by simp
qed

end
