(* ===== verification/Commonring.thy ===== *)
theory Commonring
  imports Prelude
begin

text \<open>
  The message rings of the PCIe bus: \<open>commonring.c\<close>, and the five callbacks \<open>pcie.c\<close> registers on
  every ring.

  A ring lives in host memory; its read and write indices live in memory shared with the firmware.
  The host keeps cached copies (\<open>r_ptr\<close>, \<open>w_ptr\<close>) and synchronises them through the callbacks,
  which here transform the pair of the ring and the bus's context. The pointers the code returns
  into the buffer are offsets from \<open>buf_addr\<close>, computed at the width of a C \<open>int\<close>.

  A host-to-device ring and a device-to-host ring are both shown to be bounded first-in first-out
  channels (the locale \<open>bounded_channel\<close>): whatever the interleaving of producer, commit and
  consumer, what is received is a prefix of what was accepted, in order, and nothing is overwritten
  before it is read.
\<close>

section \<open>State\<close>

record commonring =
  r_ptr :: u16
  w_ptr :: u16
  f_ptr :: u16
  depth :: u16
  item_len :: u16
  inited :: bool
  was_full :: bool

type_synonym 's cr_state = "commonring \<times> 's"

text \<open>The registered callbacks; \<open>None\<close> is a NULL function pointer.\<close>

record 's cr_ops =
  cr_ring_bell :: "('s cr_state \<Rightarrow> rc \<times> 's cr_state) option"
  cr_update_rptr :: "('s cr_state \<Rightarrow> rc \<times> 's cr_state) option"
  cr_update_wptr :: "('s cr_state \<Rightarrow> rc \<times> 's cr_state) option"
  cr_write_rptr :: "('s cr_state \<Rightarrow> rc \<times> 's cr_state) option"
  cr_write_wptr :: "('s cr_state \<Rightarrow> rc \<times> 's cr_state) option"

definition cr_call :: "('s cr_state \<Rightarrow> rc \<times> 's cr_state) option \<Rightarrow> 's cr_state \<Rightarrow> 's cr_state" where
  "cr_call cb st = (case cb of None \<Rightarrow> st | Some f \<Rightarrow> snd (f st))"

section \<open>Operations\<close>

definition brcmf_commonring_config ::
  "'s cr_ops \<Rightarrow> u16 \<Rightarrow> u16 \<Rightarrow> 's cr_state \<Rightarrow> 's cr_state" where
  "brcmf_commonring_config ops dep len st =
     (let (cr, x) = st;
          st = (cr\<lparr>depth := dep, item_len := len, inited := True, r_ptr := 0\<rparr>, x);
          (cr, x) = cr_call (cr_write_rptr ops) st;
          st = (cr\<lparr>w_ptr := 0\<rparr>, x);
          (cr, x) = cr_call (cr_write_wptr ops) st
      in (cr\<lparr>f_ptr := 0\<rparr>, x))"

definition cr_available :: "commonring \<Rightarrow> u16" where
  "cr_available cr = (if r_ptr cr \<le> w_ptr cr then depth cr - w_ptr cr + r_ptr cr
                      else r_ptr cr - w_ptr cr)"

text \<open>The \<open>goto again\<close> loops run at most twice: \<open>retry\<close> is cleared before the jump.\<close>

function write_available_again :: "'s cr_ops \<Rightarrow> bool \<Rightarrow> 's cr_state \<Rightarrow> bool \<times> 's cr_state" where
  "write_available_again ops retry st =
     (let (cr, x) = st; available = cr_available cr in
      if 1 < available then
        if \<not> was_full cr then (True, st)
        else if depth cr div 8 < available then (True, (cr\<lparr>was_full := False\<rparr>, x))
        else if retry then write_available_again ops False (cr_call (cr_update_rptr ops) st)
        else (False, st)
      else if retry then write_available_again ops False (cr_call (cr_update_rptr ops) st)
      else (False, (cr\<lparr>was_full := True\<rparr>, x)))"
  by pat_completeness auto
termination
  by (relation "measure (\<lambda>(_, retry, _). if retry then 1 else 0)") auto

declare write_available_again.simps [simp del]

definition brcmf_commonring_write_available :: "'s cr_ops \<Rightarrow> 's cr_state \<Rightarrow> bool \<times> 's cr_state" where
  "brcmf_commonring_write_available ops st = write_available_again ops True st"

text \<open>\<open>buf_addr + (index * item_len)\<close>: the product is a C \<open>int\<close>.\<close>

definition cr_offset :: "commonring \<Rightarrow> u16 \<Rightarrow> int" where
  "cr_offset cr idx = sint ((ucast idx :: u32) * ucast (item_len cr))"

function reserve_for_write_again :: "'s cr_ops \<Rightarrow> bool \<Rightarrow> 's cr_state \<Rightarrow> int option \<times> 's cr_state" where
  "reserve_for_write_again ops retry st =
     (let (cr, x) = st; available = cr_available cr in
      if 1 < available then
        let ret_ptr = cr_offset cr (w_ptr cr);
            cr = cr\<lparr>w_ptr := w_ptr cr + 1\<rparr>;
            cr = (if w_ptr cr = depth cr then cr\<lparr>w_ptr := 0\<rparr> else cr)
        in (Some ret_ptr, (cr, x))
      else if retry then reserve_for_write_again ops False (cr_call (cr_update_rptr ops) st)
      else (None, (cr\<lparr>was_full := True\<rparr>, x)))"
  by pat_completeness auto
termination
  by (relation "measure (\<lambda>(_, retry, _). if retry then 1 else 0)") auto

declare reserve_for_write_again.simps [simp del]

definition brcmf_commonring_reserve_for_write ::
  "'s cr_ops \<Rightarrow> 's cr_state \<Rightarrow> int option \<times> 's cr_state" where
  "brcmf_commonring_reserve_for_write ops st = reserve_for_write_again ops True st"

text \<open>The multiple reservation returns the offset and the number of items, which may be fewer than
  asked for: it stops at the free space and at the end of the buffer.\<close>

function reserve_multiple_again ::
  "'s cr_ops \<Rightarrow> u16 \<Rightarrow> bool \<Rightarrow> 's cr_state \<Rightarrow> (int \<times> u16) option \<times> 's cr_state" where
  "reserve_multiple_again ops n_items retry st =
     (let (cr, x) = st; available = cr_available cr in
      if 1 < available then
        let ret_ptr = cr_offset cr (w_ptr cr);
            alloced = min n_items (available - 1);
            alloced = (if unat (depth cr) < unat alloced + unat (w_ptr cr)
                       then depth cr - w_ptr cr else alloced);
            cr = cr\<lparr>w_ptr := w_ptr cr + alloced\<rparr>;
            cr = (if w_ptr cr = depth cr then cr\<lparr>w_ptr := 0\<rparr> else cr)
        in (Some (ret_ptr, alloced), (cr, x))
      else if retry then reserve_multiple_again ops n_items False (cr_call (cr_update_rptr ops) st)
      else (None, (cr\<lparr>was_full := True\<rparr>, x)))"
  by pat_completeness auto
termination
  by (relation "measure (\<lambda>(_, _, retry, _). if retry then 1 else 0)") auto

declare reserve_multiple_again.simps [simp del]

definition brcmf_commonring_reserve_for_write_multiple ::
  "'s cr_ops \<Rightarrow> u16 \<Rightarrow> 's cr_state \<Rightarrow> (int \<times> u16) option \<times> 's cr_state" where
  "brcmf_commonring_reserve_for_write_multiple ops n_items st = reserve_multiple_again ops n_items True st"

definition brcmf_commonring_write_complete :: "'s cr_ops \<Rightarrow> 's cr_state \<Rightarrow> rc \<times> 's cr_state" where
  "brcmf_commonring_write_complete ops st =
     (let (cr, x) = st;
          cr = (if w_ptr cr < f_ptr cr then cr\<lparr>f_ptr := 0\<rparr> else cr);
          cr = cr\<lparr>f_ptr := w_ptr cr\<rparr>;
          st = cr_call (cr_write_wptr ops) (cr, x)
      in case cr_ring_bell ops of Some bell \<Rightarrow> bell st | None \<Rightarrow> (ERR EIO, st))"

definition brcmf_commonring_write_cancel :: "u16 \<Rightarrow> commonring \<Rightarrow> commonring" where
  "brcmf_commonring_write_cancel n_items cr =
     (if w_ptr cr = 0 then cr\<lparr>w_ptr := depth cr - n_items\<rparr>
      else cr\<lparr>w_ptr := w_ptr cr - n_items\<rparr>)"

definition brcmf_commonring_get_read_ptr ::
  "'s cr_ops \<Rightarrow> 's cr_state \<Rightarrow> (int option \<times> u16) \<times> 's cr_state" where
  "brcmf_commonring_get_read_ptr ops st =
     (let (cr, x) = cr_call (cr_update_wptr ops) st;
          n_items = (if r_ptr cr \<le> w_ptr cr then w_ptr cr - r_ptr cr else depth cr - r_ptr cr)
      in if n_items = 0 then ((None, n_items), (cr, x))
         else ((Some (cr_offset cr (r_ptr cr)), n_items), (cr, x)))"

definition brcmf_commonring_read_complete :: "'s cr_ops \<Rightarrow> u16 \<Rightarrow> 's cr_state \<Rightarrow> rc \<times> 's cr_state" where
  "brcmf_commonring_read_complete ops n_items st =
     (let (cr, x) = st;
          cr = cr\<lparr>r_ptr := r_ptr cr + n_items\<rparr>;
          cr = (if r_ptr cr = depth cr then cr\<lparr>r_ptr := 0\<rparr> else cr)
      in case cr_write_rptr ops of Some write \<Rightarrow> write (cr, x) | None \<Rightarrow> (ERR EIO, (cr, x)))"

section \<open>The PCIe callbacks\<close>

text \<open>What a ring's callbacks touch of the bus: whether the bus is up, the ring's two shared
  indices, and the registers written to ring the doorbell.\<close>

record pcie_ring =
  pcie_up :: bool
  r_idx :: u16
  w_idx :: u16
  shared_dar :: bool
  doorbells :: "u32 list"

definition brcmf_pcie_ring_mb_write_rptr :: "pcie_ring cr_state \<Rightarrow> rc \<times> pcie_ring cr_state" where
  "brcmf_pcie_ring_mb_write_rptr st =
     (let (cr, x) = st in
      if \<not> pcie_up x then (ERR EIO, st) else (OK, (cr, x\<lparr>r_idx := r_ptr cr\<rparr>)))"

definition brcmf_pcie_ring_mb_write_wptr :: "pcie_ring cr_state \<Rightarrow> rc \<times> pcie_ring cr_state" where
  "brcmf_pcie_ring_mb_write_wptr st =
     (let (cr, x) = st in
      if \<not> pcie_up x then (ERR EIO, st) else (OK, (cr, x\<lparr>w_idx := w_ptr cr\<rparr>)))"

definition brcmf_pcie_ring_mb_ring_bell :: "pcie_ring cr_state \<Rightarrow> rc \<times> pcie_ring cr_state" where
  "brcmf_pcie_ring_mb_ring_bell st =
     (let (cr, x) = st in
      if \<not> pcie_up x then (ERR EIO, st)
      else (OK, (cr, x\<lparr>doorbells := doorbells x @ [if shared_dar x then 0xA20 else 0x140]\<rparr>)))"

definition brcmf_pcie_ring_mb_update_rptr :: "pcie_ring cr_state \<Rightarrow> rc \<times> pcie_ring cr_state" where
  "brcmf_pcie_ring_mb_update_rptr st =
     (let (cr, x) = st in
      if \<not> pcie_up x then (ERR EIO, st) else (OK, (cr\<lparr>r_ptr := r_idx x\<rparr>, x)))"

definition brcmf_pcie_ring_mb_update_wptr :: "pcie_ring cr_state \<Rightarrow> rc \<times> pcie_ring cr_state" where
  "brcmf_pcie_ring_mb_update_wptr st =
     (let (cr, x) = st in
      if \<not> pcie_up x then (ERR EIO, st) else (OK, (cr\<lparr>w_ptr := w_idx x\<rparr>, x)))"

definition pcie_ring_ops :: "pcie_ring cr_ops" where
  "pcie_ring_ops = \<lparr>cr_ring_bell = Some brcmf_pcie_ring_mb_ring_bell,
     cr_update_rptr = Some brcmf_pcie_ring_mb_update_rptr,
     cr_update_wptr = Some brcmf_pcie_ring_mb_update_wptr,
     cr_write_rptr = Some brcmf_pcie_ring_mb_write_rptr,
     cr_write_wptr = Some brcmf_pcie_ring_mb_write_wptr\<rparr>"

section \<open>Circular distances\<close>

definition cr_gap :: "nat \<Rightarrow> nat \<Rightarrow> nat \<Rightarrow> nat" where
  "cr_gap d a b = (if a \<le> b then b - a else d - a + b)"

definition cr_inc :: "nat \<Rightarrow> nat \<Rightarrow> nat" where
  "cr_inc d a = (if a + 1 = d then 0 else a + 1)"

lemma cr_gap_less: "a < d \<Longrightarrow> b < d \<Longrightarrow> cr_gap d a b < d"
  by (auto simp: cr_gap_def)

lemma cr_gap_self [simp]: "cr_gap d a a = 0"
  by (simp add: cr_gap_def)

lemma cr_gap_0_iff: "a < d \<Longrightarrow> b < d \<Longrightarrow> cr_gap d a b = 0 \<longleftrightarrow> a = b"
  by (auto simp: cr_gap_def)

lemma cr_inc_less: "a < d \<Longrightarrow> cr_inc d a < d"
  by (auto simp: cr_inc_def)

lemma cr_gap_inc_right:
  "a < d \<Longrightarrow> b < d \<Longrightarrow> cr_gap d a b + 1 < d \<Longrightarrow> cr_gap d a (cr_inc d b) = cr_gap d a b + 1"
  by (auto simp: cr_gap_def cr_inc_def split: if_splits)

lemma cr_gap_inc_left:
  "a < d \<Longrightarrow> b < d \<Longrightarrow> 0 < cr_gap d a b \<Longrightarrow> cr_gap d a b = cr_gap d (cr_inc d a) b + 1"
  by (auto simp: cr_gap_def cr_inc_def split: if_splits)

lemma cr_gap_split:
  "a < d \<Longrightarrow> b < d \<Longrightarrow> c < d \<Longrightarrow> cr_gap d a b + cr_gap d b c < d \<Longrightarrow>
     cr_gap d a c = cr_gap d a b + cr_gap d b c"
  by (auto simp: cr_gap_def split: if_splits)

lemma cr_gap_reach: "a < d \<Longrightarrow> b < d \<Longrightarrow> (a + cr_gap d a b) mod d = b"
  by (auto simp: cr_gap_def)

lemma cr_inc_mod: "a < d \<Longrightarrow> cr_inc d a = (a + 1) mod d"
  by (auto simp: cr_inc_def)

lemma unat_available:
  assumes "r_ptr cr < depth cr" and "w_ptr cr < depth cr"
  shows "unat (cr_available cr) = unat (depth cr) - cr_gap (unat (depth cr)) (unat (r_ptr cr)) (unat (w_ptr cr))"
  using assms by (auto simp: cr_available_def cr_gap_def) unat_arith+

lemma available_gt1:
  assumes "r_ptr cr < depth cr" and "w_ptr cr < depth cr"
  shows "1 < cr_available cr \<longleftrightarrow>
     cr_gap (unat (depth cr)) (unat (r_ptr cr)) (unat (w_ptr cr)) + 1 < unat (depth cr)"
  using unat_available [OF assms] by (simp add: word_less_nat_alt) arith

lemma unat_cr_inc:
  assumes "w < (d :: u16)"
  shows "unat (if w + 1 = d then 0 else w + 1) = cr_inc (unat d) (unat w)"
  using assms by (auto simp: cr_inc_def) unat_arith+

text \<open>A slot's offset is its index times the item length: the product does not leave the buffer,
  so it does not overflow when the buffer is smaller than \<open>2 ^ 31\<close> bytes.\<close>

lemma cr_offset_eq:
  assumes "idx < depth cr" and "unat (depth cr) * unat (item_len cr) < 2 ^ 31"
  shows "cr_offset cr idx = int (unat idx * unat (item_len cr))"
proof -
  have "unat idx * unat (item_len cr) \<le> unat (depth cr) * unat (item_len cr)"
    using assms(1) by (simp add: word_less_nat_alt)
  then have *: "unat idx * unat (item_len cr) < 2 ^ 31" using assms(2) by (rule le_less_trans)
  let ?p = "(ucast idx :: u32) * ucast (item_len cr)"
  have p: "unat ?p = unat idx * unat (item_len cr)"
    using * by (simp add: unat_word_ariths)
  have "sint ?p = int (unat ?p)" using * p by (intro sint_small) simp
  then show ?thesis by (simp add: cr_offset_def p)
qed

section \<open>A host-to-device ring\<close>

text \<open>The invariant of a ring the host writes: around the circle lie, in this order, the cached
  read index, the firmware's read index, the last published write index and the write index, and
  at least one slot is free.\<close>

fun h2d_inv :: "pcie_ring cr_state \<Rightarrow> bool" where
  "h2d_inv (cr, x) \<longleftrightarrow> pcie_up x \<and> 0 < item_len cr \<and> unat (depth cr) * unat (item_len cr) < 2 ^ 31
     \<and> r_ptr cr < depth cr \<and> w_ptr cr < depth cr \<and> r_idx x < depth cr \<and> w_idx x < depth cr
     \<and> cr_gap (unat (depth cr)) (unat (r_ptr cr)) (unat (r_idx x))
       + cr_gap (unat (depth cr)) (unat (r_idx x)) (unat (w_idx x))
       + cr_gap (unat (depth cr)) (unat (w_idx x)) (unat (w_ptr cr)) < unat (depth cr)"

text \<open>The items between the firmware's read index and the write index.\<close>

fun h2d_used :: "pcie_ring cr_state \<Rightarrow> nat" where
  "h2d_used (cr, x) = cr_gap (unat (depth cr)) (unat (r_idx x)) (unat (w_ptr cr))"

fun h2d_refresh :: "pcie_ring cr_state \<Rightarrow> pcie_ring cr_state" where
  "h2d_refresh (cr, x) = (cr\<lparr>r_ptr := r_idx x\<rparr>, x)"

definition cr_adv :: "u16 \<Rightarrow> commonring \<Rightarrow> commonring" where
  "cr_adv k cr = cr\<lparr>w_ptr := if w_ptr cr + k = depth cr then 0 else w_ptr cr + k\<rparr>"

definition cr_fill :: "nat \<Rightarrow> nat \<Rightarrow> nat \<Rightarrow> nat" where
  "cr_fill d a k = (if a + k = d then 0 else a + k)"

lemma cr_fill_1: "cr_fill d a 1 = cr_inc d a"
  by (simp add: cr_fill_def cr_inc_def)

lemma cr_fill_less: "a < d \<Longrightarrow> a + k \<le> d \<Longrightarrow> cr_fill d a k < d"
  by (auto simp: cr_fill_def)

lemma cr_gap_fill:
  "a < d \<Longrightarrow> b < d \<Longrightarrow> b + k \<le> d \<Longrightarrow> cr_gap d a b + k < d \<Longrightarrow> cr_gap d a (cr_fill d b k) = cr_gap d a b + k"
  by (auto simp: cr_gap_def cr_fill_def split: if_splits)

lemma unat_cr_fill:
  assumes "w < (d :: u16)" and "unat w + unat k \<le> unat d"
  shows "unat (if w + k = d then 0 else w + k) = cr_fill (unat d) (unat w) (unat k)"
proof -
  have "unat d < 65536" by (rule unat_widths_less)
  then have "unat (w + k) = unat w + unat k" using assms(2) by (simp add: unat_word_ariths)
  then show ?thesis by (auto simp: cr_fill_def word_unat_eq_iff)
qed

lemma cr_adv_sel [simp]:
  "depth (cr_adv k cr) = depth cr" "item_len (cr_adv k cr) = item_len cr" "r_ptr (cr_adv k cr) = r_ptr cr"
  "was_full (cr_adv k cr) = was_full cr"
  by (simp_all add: cr_adv_def)

lemma h2d_adv:
  assumes "h2d_inv (cr, x)" and "unat (w_ptr cr) + unat k \<le> unat (depth cr)"
    and "cr_gap (unat (depth cr)) (unat (r_ptr cr)) (unat (w_ptr cr)) + unat k < unat (depth cr)"
  shows "h2d_inv (cr_adv k cr, x)"
    and "h2d_used (cr_adv k cr, x) = h2d_used (cr, x) + unat k"
proof -
  let ?d = "unat (depth cr)" and ?g = "cr_gap (unat (depth cr))"
  have w: "unat (w_ptr (cr_adv k cr)) = cr_fill ?d (unat (w_ptr cr)) (unat k)"
    using unat_cr_fill [OF _ assms(2)] assms(1) by (simp add: cr_adv_def)
  have lt: "unat (r_ptr cr) < ?d" "unat (w_ptr cr) < ?d" "unat (r_idx x) < ?d" "unat (w_idx x) < ?d"
    using assms(1) by (simp_all add: word_less_nat_alt)
  have s1: "?g (unat (r_idx x)) (unat (w_ptr cr))
      = ?g (unat (r_idx x)) (unat (w_idx x)) + ?g (unat (w_idx x)) (unat (w_ptr cr))"
    using assms(1) lt by (intro cr_gap_split) auto
  have s2: "?g (unat (r_ptr cr)) (unat (w_ptr cr))
      = ?g (unat (r_ptr cr)) (unat (r_idx x)) + ?g (unat (r_idx x)) (unat (w_ptr cr))"
    using assms(1) lt s1 by (intro cr_gap_split) auto
  have "?g (unat (w_idx x)) (cr_fill ?d (unat (w_ptr cr)) (unat k))
      = ?g (unat (w_idx x)) (unat (w_ptr cr)) + unat k"
    using lt assms(2,3) s1 s2 by (intro cr_gap_fill) auto
  moreover have "cr_fill ?d (unat (w_ptr cr)) (unat k) < ?d" using lt assms(2) by (intro cr_fill_less)
  ultimately show "h2d_inv (cr_adv k cr, x)"
    using assms(1,3) s1 s2 by (simp add: w word_less_nat_alt)
  show "h2d_used (cr_adv k cr, x) = h2d_used (cr, x) + unat k"
    unfolding h2d_used.simps cr_adv_sel w using lt assms(2,3) s2 by (intro cr_gap_fill) auto
qed

lemma h2d_used_less: "h2d_inv st \<Longrightarrow> h2d_used st < unat (depth (fst st))"
  by (cases st) (auto simp: word_less_nat_alt intro!: cr_gap_less)

lemma h2d_refresh_inv: "h2d_inv st \<Longrightarrow> h2d_inv (h2d_refresh st)"
  by (cases st) auto

lemma h2d_refresh_used: "h2d_used (h2d_refresh st) = h2d_used st"
  by (cases st) auto

lemma h2d_was_full_inv:
  "h2d_inv (cr\<lparr>was_full := b\<rparr>, x) \<longleftrightarrow> h2d_inv (cr, x)" "h2d_used (cr\<lparr>was_full := b\<rparr>, x) = h2d_used (cr, x)"
  by simp_all

lemma pcie_update_rptr:
  "h2d_inv st \<Longrightarrow> cr_call (cr_update_rptr pcie_ring_ops) st = h2d_refresh st"
  by (cases st) (simp add: cr_call_def pcie_ring_ops_def brcmf_pcie_ring_mb_update_rptr_def)

text \<open>Once the cached read index is refreshed, the ring counts as full exactly when all slots but
  one are in use.\<close>

lemma h2d_full_refreshed:
  assumes "h2d_inv st" and "\<not> 1 < cr_available (fst (h2d_refresh st))"
  shows "h2d_used st + 1 = unat (depth (fst st))"
proof -
  obtain cr x where st: "st = (cr, x)" by fastforce
  have "r_idx x < depth cr" "w_ptr cr < depth cr" using assms(1) by (simp_all add: st)
  with available_gt1 [of "cr\<lparr>r_ptr := r_idx x\<rparr>"] assms(2) h2d_used_less [OF assms(1)]
  show ?thesis by (simp add: st)
qed

text \<open>The three outcomes of a multiple reservation.\<close>

definition cr_grant :: "u16 \<Rightarrow> commonring \<Rightarrow> u16" where
  "cr_grant n cr = (let k = min n (cr_available cr - 1) in
     if unat (depth cr) < unat k + unat (w_ptr cr) then depth cr - w_ptr cr else k)"

lemma reserve_multiple_unfold:
  "1 < cr_available cr \<Longrightarrow> reserve_multiple_again ops n retry (cr, x)
     = (Some (cr_offset cr (w_ptr cr), cr_grant n cr), (cr_adv (cr_grant n cr) cr, x))"
  "\<not> 1 < cr_available cr \<Longrightarrow> reserve_multiple_again ops n True (cr, x)
     = reserve_multiple_again ops n False (cr_call (cr_update_rptr ops) (cr, x))"
  "\<not> 1 < cr_available cr \<Longrightarrow> reserve_multiple_again ops n False (cr, x) = (None, (cr\<lparr>was_full := True\<rparr>, x))"
  by (subst reserve_multiple_again.simps, simp add: Let_def cr_grant_def cr_adv_def min_def)+

lemma reserve_unfold:
  "1 < cr_available cr \<Longrightarrow> reserve_for_write_again ops retry (cr, x)
     = (Some (cr_offset cr (w_ptr cr)), (cr_adv 1 cr, x))"
  "\<not> 1 < cr_available cr \<Longrightarrow> reserve_for_write_again ops True (cr, x)
     = reserve_for_write_again ops False (cr_call (cr_update_rptr ops) (cr, x))"
  "\<not> 1 < cr_available cr \<Longrightarrow> reserve_for_write_again ops False (cr, x) = (None, (cr\<lparr>was_full := True\<rparr>, x))"
  by (subst reserve_for_write_again.simps, simp add: Let_def cr_adv_def)+

lemma cr_grant_bounds:
  assumes "r_ptr cr < depth cr" and "w_ptr cr < depth cr" and "1 < cr_available cr"
  shows "unat (w_ptr cr) + unat (cr_grant n cr) \<le> unat (depth cr)"
    and "cr_gap (unat (depth cr)) (unat (r_ptr cr)) (unat (w_ptr cr)) + unat (cr_grant n cr) < unat (depth cr)"
    and "unat (cr_grant n cr) \<le> unat n"
    and "0 < n \<Longrightarrow> 0 < unat (cr_grant n cr)"
proof -
  define k0 where "k0 = min n (cr_available cr - 1)"
  have av: "1 < unat (cr_available cr)" using assms(3) by (simp add: word_less_nat_alt)
  have "unat (cr_available cr - 1) = unat (cr_available cr) - 1" by (rule unat_dec_pos) (use av in simp)
  then have k: "unat k0 = min (unat n) (unat (cr_available cr) - 1)"
    by (simp add: k0_def min_def word_le_nat_alt)
  have dw: "unat (depth cr - w_ptr cr) = unat (depth cr) - unat (w_ptr cr)"
    using assms(2) by (simp add: unat_sub_if' word_less_nat_alt)
  have g: "unat (cr_grant n cr) = min (min (unat n) (unat (cr_available cr) - 1)) (unat (depth cr) - unat (w_ptr cr))"
    unfolding k [symmetric] by (auto simp: cr_grant_def Let_def k0_def [symmetric] dw)
  have w: "unat (w_ptr cr) < unat (depth cr)" using assms(2) by (simp add: word_less_nat_alt)
  show "unat (w_ptr cr) + unat (cr_grant n cr) \<le> unat (depth cr)" using w unfolding g by linarith
  show "unat (cr_grant n cr) \<le> unat n" unfolding g by simp
  show "cr_gap (unat (depth cr)) (unat (r_ptr cr)) (unat (w_ptr cr)) + unat (cr_grant n cr) < unat (depth cr)"
    using av unat_available [OF assms(1,2)] unfolding g by linarith
  show "0 < unat (cr_grant n cr)" if "0 < n"
    using that av w unfolding g by (simp add: word_less_nat_alt)
qed

lemma reserve_multiple_cases [consumes 2, case_names full granted]:
  assumes "h2d_inv st" and "0 < n"
  obtains (full) st' where "brcmf_commonring_reserve_for_write_multiple pcie_ring_ops n st = (None, st')"
      "h2d_used st + 1 = unat (depth (fst st))" "h2d_used st' = h2d_used st" "h2d_inv st'"
      "w_ptr (fst st') = w_ptr (fst st)" "depth (fst st') = depth (fst st)" "snd st' = snd st"
      "item_len (fst st') = item_len (fst st)"
  | (granted) cr x k where
      "brcmf_commonring_reserve_for_write_multiple pcie_ring_ops n st
         = (Some (int (unat (w_ptr cr) * unat (item_len cr)), k), (cr_adv k cr, x))"
      "cr = fst st \<or> cr = fst (h2d_refresh st)" "x = snd st"
      "0 < unat k" "unat k \<le> unat n" "unat (w_ptr cr) + unat k \<le> unat (depth cr)"
      "h2d_used st + unat k < unat (depth cr)" "h2d_used (cr_adv k cr, x) = h2d_used st + unat k"
      "h2d_inv (cr, x)" "h2d_inv (cr_adv k cr, x)"
proof -
  obtain cr x where st: "st = (cr, x)" by fastforce
  have grant: thesis
    if r: "brcmf_commonring_reserve_for_write_multiple pcie_ring_ops n st
        = reserve_multiple_again pcie_ring_ops n b (c, x)"
      and c: "h2d_inv (c, x)" "c = fst st \<or> c = fst (h2d_refresh st)" "h2d_used (c, x) = h2d_used st"
      and a: "1 < cr_available c" for c b
  proof -
    have lt: "r_ptr c < depth c" "w_ptr c < depth c" using c(1) by simp_all
    note g = cr_grant_bounds [OF lt a, of n]
    note adv = h2d_adv [OF c(1) g(1,2)]
    have "cr_offset c (w_ptr c) = int (unat (w_ptr c) * unat (item_len c))"
      using c(1) lt by (intro cr_offset_eq) auto
    then show thesis
      using reserve_multiple_unfold(1) [OF a, of pcie_ring_ops n b x] r g adv c assms(2)
        h2d_used_less [OF adv(1)] st
      by (intro granted [of c "cr_grant n c" x]) auto
  qed
  show thesis
  proof (cases "1 < cr_available cr")
    case True
    then show thesis
      using assms(1) by (intro grant [of True cr])
        (simp_all add: st brcmf_commonring_reserve_for_write_multiple_def)
  next
    case False
    then have r: "brcmf_commonring_reserve_for_write_multiple pcie_ring_ops n st
        = reserve_multiple_again pcie_ring_ops n False (cr\<lparr>r_ptr := r_idx x\<rparr>, x)"
      using pcie_update_rptr [OF assms(1)]
      by (simp add: brcmf_commonring_reserve_for_write_multiple_def st reserve_multiple_unfold(2))
    show thesis
    proof (cases "1 < cr_available (cr\<lparr>r_ptr := r_idx x\<rparr>)")
      case True
      then show thesis
        using h2d_refresh_inv [OF assms(1)] h2d_refresh_used [of st] by (intro grant [OF r]) (simp_all add: st)
    next
      case False
      note f = h2d_full_refreshed [OF assms(1)]
      from False show thesis
        using r f h2d_refresh_inv [OF assms(1)] h2d_refresh_used [of st]
        by (intro full [of "(cr\<lparr>r_ptr := r_idx x, was_full := True\<rparr>, x)"]) (simp_all add: st reserve_multiple_unfold(3) h2d_was_full_inv)
    qed
  qed
qed

text \<open>The slots of a host-to-device ring the firmware has not consumed yet.\<close>

definition h2d_busy :: "pcie_ring cr_state \<Rightarrow> nat set" where
  "h2d_busy st = (\<lambda>i. (unat (r_idx (snd st)) + i) mod unat (depth (fst st))) ` {..<h2d_used st}"

lemma h2d_busy_iff:
  assumes "h2d_inv st"
  shows "s \<in> h2d_busy st \<longleftrightarrow> s < unat (depth (fst st))
    \<and> cr_gap (unat (depth (fst st))) (unat (r_idx (snd st))) s < h2d_used st"
proof -
  let ?d = "unat (depth (fst st))" and ?r = "unat (r_idx (snd st))"
  have r: "?r < ?d" using assms by (cases st) (simp add: word_less_nat_alt)
  have gap: "cr_gap ?d ?r ((?r + i) mod ?d) = i" if "i < ?d" for i
  proof (cases "?r + i < ?d")
    case True
    then show ?thesis by (simp add: cr_gap_def)
  next
    case False
    then have "(?r + i) mod ?d = ?r + i - ?d" using r that by (simp add: mod_if)
    then show ?thesis using False r that by (simp add: cr_gap_def)
  qed
  have used: "h2d_used st < ?d" using h2d_used_less [OF assms] .
  show ?thesis
  proof
    assume "s \<in> h2d_busy st"
    then obtain i where i: "i < h2d_used st" "s = (?r + i) mod ?d" by (auto simp: h2d_busy_def)
    then show "s < ?d \<and> cr_gap ?d ?r s < h2d_used st" using gap [of i] used r by simp
  next
    assume s: "s < ?d \<and> cr_gap ?d ?r s < h2d_used st"
    then have "s = (?r + cr_gap ?d ?r s) mod ?d" using cr_gap_reach [OF r, of s] by simp
    with s show "s \<in> h2d_busy st" unfolding h2d_busy_def by blast
  qed
qed

lemma h2d_free_slots:
  assumes "h2d_inv (cr, x)" and "unat (w_ptr cr) + k \<le> unat (depth cr)" and "h2d_used (cr, x) + k < unat (depth cr)"
  shows "{unat (w_ptr cr)..<unat (w_ptr cr) + k} \<inter> h2d_busy (cr, x) = {}"
proof -
  have "unat (r_idx x) < unat (depth cr)" "unat (w_ptr cr) < unat (depth cr)"
    using assms(1) by (simp_all add: word_less_nat_alt)
  then show ?thesis using assms(2,3)
    by (auto simp: h2d_busy_iff [OF assms(1)] cr_gap_def split: if_splits)
qed

text \<open>The single reservation is the multiple one for one item.\<close>

lemma cr_grant_1: "r_ptr cr < depth cr \<Longrightarrow> w_ptr cr < depth cr \<Longrightarrow> 1 < cr_available cr \<Longrightarrow> cr_grant 1 cr = 1"
  using cr_grant_bounds [of cr 1] by (simp add: word_unat_eq_iff)

lemma reserve_is_multiple:
  assumes "h2d_inv st"
  shows "brcmf_commonring_reserve_for_write pcie_ring_ops st
    = map_prod (map_option fst) id (brcmf_commonring_reserve_for_write_multiple pcie_ring_ops 1 st)"
proof -
  obtain cr x where st: "st = (cr, x)" by fastforce
  let ?cr = "cr\<lparr>r_ptr := r_idx x\<rparr>"
  note up = pcie_update_rptr [OF assms]
  note g = cr_grant_1 [of cr] cr_grant_1 [of ?cr]
  note u = brcmf_commonring_reserve_for_write_def brcmf_commonring_reserve_for_write_multiple_def st
  show ?thesis
  proof (cases "1 < cr_available cr")
    case True
    then show ?thesis using assms g(1) by (simp add: u reserve_unfold reserve_multiple_unfold)
  next
    case False
    then show ?thesis
      using assms up g(2)
      by (cases "1 < cr_available ?cr")
        (simp_all add: u reserve_unfold reserve_multiple_unfold)
  qed
qed

section \<open>The interface: a bounded channel\<close>

text \<open>What the producers and consumers of a ring rely on: a producer that may be refused when the
  channel is full, a commit that makes items visible, and a consumer that takes the oldest one.\<close>

datatype 'a chan_ev = Put 'a | Commit | Get

fun chan_run :: "('s \<Rightarrow> 'a \<Rightarrow> bool \<times> 's) \<Rightarrow> ('s \<Rightarrow> 's) \<Rightarrow> ('s \<Rightarrow> 'a option \<times> 's) \<Rightarrow> 'a chan_ev list \<Rightarrow> 's
    \<Rightarrow> 'a list \<times> 'a list \<times> 's" where
  "chan_run put commit get [] s = ([], [], s)"
| "chan_run put commit get (Put x # es) s =
     (let (ok, s) = put s x; (acc, rec, s) = chan_run put commit get es s
      in (if ok then x # acc else acc, rec, s))"
| "chan_run put commit get (Commit # es) s = chan_run put commit get es (commit s)"
| "chan_run put commit get (Get # es) s =
     (let (r, s) = get s; (acc, rec, s) = chan_run put commit get es s
      in (acc, (case r of Some x \<Rightarrow> x # rec | None \<Rightarrow> rec), s))"

locale bounded_channel =
  fixes put :: "'s \<Rightarrow> 'a \<Rightarrow> bool \<times> 's" and commit :: "'s \<Rightarrow> 's" and get :: "'s \<Rightarrow> 'a option \<times> 's"
    and abs :: "'s \<Rightarrow> 'a list" and inv :: "'s \<Rightarrow> bool" and cap :: "'s \<Rightarrow> nat"
  assumes put_ok: "inv s \<Longrightarrow> put s x = (True, s') \<Longrightarrow> abs s' = abs s @ [x] \<and> inv s' \<and> cap s' = cap s"
    and put_full: "inv s \<Longrightarrow> put s x = (False, s') \<Longrightarrow>
        abs s' = abs s \<and> inv s' \<and> cap s' = cap s \<and> length (abs s) = cap s"
    and commit: "inv s \<Longrightarrow> abs (commit s) = abs s \<and> inv (commit s) \<and> cap (commit s) = cap s"
    and get_Some: "inv s \<Longrightarrow> get s = (Some x, s') \<Longrightarrow> abs s = x # abs s' \<and> inv s' \<and> cap s' = cap s"
    and get_None: "inv s \<Longrightarrow> get s = (None, s') \<Longrightarrow> abs s' = abs s \<and> inv s' \<and> cap s' = cap s"
    and get_commit: "inv s \<Longrightarrow> abs s \<noteq> [] \<Longrightarrow> fst (get (commit s)) \<noteq> None"
    and bounded: "inv s \<Longrightarrow> length (abs s) \<le> cap s"
begin

lemma run_fifo:
  assumes "inv s" and "chan_run put commit get es s = (acc, rec, s')"
  shows "abs s @ acc = rec @ abs s' \<and> inv s' \<and> cap s' = cap s"
  using assms
proof (induction es arbitrary: s acc rec)
  case Nil
  then show ?case by simp
next
  case (Cons e es)
  show ?case
  proof (cases e)
    case (Put x)
    obtain ok s1 acc1 where p: "put s x = (ok, s1)" "chan_run put commit get es s1 = (acc1, rec, s')"
      and acc: "acc = (if ok then x # acc1 else acc1)"
      using Cons.prems(2) by (auto simp: Put split: prod.splits)
    show ?thesis
    proof (cases ok)
      case True
      with p put_ok [OF Cons.prems(1)] have "abs s1 = abs s @ [x]" "inv s1" "cap s1 = cap s" by auto
      with Cons.IH [OF \<open>inv s1\<close> p(2)] True acc show ?thesis by simp
    next
      case False
      with p put_full [OF Cons.prems(1)] have "abs s1 = abs s" "inv s1" "cap s1 = cap s" by auto
      with Cons.IH [OF \<open>inv s1\<close> p(2)] False acc show ?thesis by simp
    qed
  next
    case Commit
    then show ?thesis using Cons.IH [of "commit s" acc rec] Cons.prems commit [OF Cons.prems(1)] by simp
  next
    case Get
    obtain r s1 rec1 where p: "get s = (r, s1)" "chan_run put commit get es s1 = (acc, rec1, s')"
      and rec: "rec = (case r of Some x \<Rightarrow> x # rec1 | None \<Rightarrow> rec1)"
      using Cons.prems(2) by (auto simp: Get split: prod.splits)
    have "abs s = (case r of Some x \<Rightarrow> [x] | None \<Rightarrow> []) @ abs s1 \<and> inv s1 \<and> cap s1 = cap s"
      using p(1) get_Some [OF Cons.prems(1)] get_None [OF Cons.prems(1)] by (cases r) auto
    with Cons.IH [of s1, OF _ p(2)] rec show ?thesis by (cases r) auto
  qed
qed

text \<open>A producer is refused only by a full channel.\<close>

lemma accept_when_space: "inv s \<Longrightarrow> length (abs s) < cap s \<Longrightarrow> fst (put s x)"
  using put_full [of s x "snd (put s x)"] by (cases "put s x") auto

end

section \<open>Ring memory\<close>

text \<open>The buffer, by byte offset, and the items of \<open>n\<close> consecutive slots from slot \<open>a\<close>.\<close>

definition slots :: "(int \<Rightarrow> 'a) \<Rightarrow> nat \<Rightarrow> nat \<Rightarrow> nat \<Rightarrow> nat \<Rightarrow> 'a list" where
  "slots mem len d a n = map (\<lambda>i. mem (int ((a + i) mod d * len))) [0..<n]"

lemma length_slots [simp]: "length (slots mem len d a n) = n"
  by (simp add: slots_def)

lemma slots_front: "a < d \<Longrightarrow> slots mem len d a (Suc n) = mem (int (a * len)) # slots mem len d (cr_inc d a) n"
  by (simp add: slots_def upt_conv_Cons cr_inc_mod mod_add_left_eq map_Suc_upt [symmetric] del: upt_Suc)

lemma slots_back: "slots mem len d a (Suc n) = slots mem len d a n @ [mem (int ((a + n) mod d * len))]"
  by (simp add: slots_def)

lemma mod_add_lt: "a < d \<Longrightarrow> i < (d :: nat) \<Longrightarrow> (a + i) mod d = (if a + i < d then a + i else a + i - d)"
  by (simp add: mod_if)

lemma slots_upd:
  assumes "a < d" and "n < d" and "0 < len"
  shows "slots (mem(int ((a + n) mod d * len) := x)) len d a n = slots mem len d a n"
proof -
  have "(a + i) mod d \<noteq> (a + n) mod d" if "i < n" for i
    using that assms(1,2) by (auto simp: mod_add_lt split: if_splits)
  then show ?thesis using assms(3) by (simp add: slots_def)
qed

lemma slots_append:
  assumes "a < d" and "n < d" and "0 < len" and "b = (a + n) mod d"
  shows "slots (mem(int (b * len) := x)) len d a (Suc n) = slots mem len d a n @ [x]"
  using slots_upd [OF assms(1-3)] by (simp add: slots_back assms(4))

section \<open>Both kinds of ring are bounded channels\<close>

type_synonym 'a ring_world = "pcie_ring cr_state \<times> (int \<Rightarrow> 'a)"

text \<open>The host as producer: reserve one slot, write the item there, and publish later.\<close>

definition h2d_put :: "'a ring_world \<Rightarrow> 'a \<Rightarrow> bool \<times> 'a ring_world" where
  "h2d_put w x = (let (st, mem) = w; (r, st) = brcmf_commonring_reserve_for_write pcie_ring_ops st in
     case r of None \<Rightarrow> (False, (st, mem)) | Some off \<Rightarrow> (True, (st, mem(off := x))))"

definition h2d_commit :: "'a ring_world \<Rightarrow> 'a ring_world" where
  "h2d_commit w = (snd (brcmf_commonring_write_complete pcie_ring_ops (fst w)), snd w)"

text \<open>The firmware as consumer: it reads the slot at its read index while that differs from the
  published write index, and publishes the index it advanced.\<close>

definition dongle_get :: "'a ring_world \<Rightarrow> 'a option \<times> 'a ring_world" where
  "dongle_get w = (let ((cr, x), mem) = w in
     if r_idx x = w_idx x then (None, w)
     else (Some (mem (int (unat (r_idx x) * unat (item_len cr)))),
           ((cr, x\<lparr>r_idx := if r_idx x + 1 = depth cr then 0 else r_idx x + 1\<rparr>), mem)))"

definition h2d_items :: "'a ring_world \<Rightarrow> 'a list" where
  "h2d_items w = (let ((cr, x), mem) = w in
     slots mem (unat (item_len cr)) (unat (depth cr)) (unat (r_idx x)) (h2d_used (cr, x)))"

definition ring_cap :: "'a ring_world \<Rightarrow> nat" where
  "ring_cap w = unat (depth (fst (fst w))) - 1"

lemma h2d_put_cases:
  assumes "h2d_inv st" and "h2d_put (st, mem) x = (ok, w)"
  shows "h2d_inv (fst w) \<and> ring_cap w = ring_cap (st, mem)
    \<and> h2d_items w = (if ok then h2d_items (st, mem) @ [x] else h2d_items (st, mem))
    \<and> (\<not> ok \<longrightarrow> length (h2d_items (st, mem)) = ring_cap (st, mem))"
proof -
  have one: "0 < (1 :: u16)" by simp
  from assms(1) one show ?thesis
  proof (cases rule: reserve_multiple_cases)
  case (full st')
  obtain cr y cr' y' where "st = (cr, y)" "st' = (cr', y')" by fastforce
  moreover have "ok = False \<and> w = (st', mem)"
    using assms(2) full(1) by (simp add: h2d_put_def reserve_is_multiple [OF assms(1)])
  ultimately show ?thesis
    using full by (auto simp: h2d_items_def ring_cap_def)
next
  case (granted cr y k)
  obtain c z where st: "st = (c, z)" by fastforce
  have k: "k = 1" using granted(4,5) by (simp add: word_unat_eq_iff)
  have same: "z = y" "depth c = depth cr" "item_len c = item_len cr"
    using granted(2,3) by (auto simp: st)
  have lt: "unat (r_idx y) < unat (depth cr)" "unat (w_ptr cr) < unat (depth cr)" "0 < unat (item_len cr)"
    using granted(9) by (simp_all add: word_less_nat_alt)
  have u: "h2d_used (c, y) = h2d_used (cr, y)" using granted(2) by (auto simp: st same(1))
  then have w: "unat (w_ptr cr) = (unat (r_idx y) + h2d_used (c, y)) mod unat (depth cr)"
    using cr_gap_reach [OF lt(1,2)] by simp
  have "w = ((cr_adv 1 cr, y), mem(int (unat (w_ptr cr) * unat (item_len cr)) := x)) \<and> ok"
    using assms(2) granted(1) by (simp add: h2d_put_def reserve_is_multiple [OF assms(1)] k)
  moreover have "h2d_used (c, y) < unat (depth cr)" using granted(7) by (simp add: st same(1))
  note slots_append [OF lt(1) this lt(3) w, of mem x]
  moreover have "h2d_used (cr_adv 1 cr, y) = Suc (h2d_used (c, y))"
    using granted(8) by (simp add: k st same(1) del: h2d_used.simps)
  ultimately show ?thesis
    using granted(10) by (simp add: h2d_items_def ring_cap_def st same k del: h2d_used.simps h2d_inv.simps)
qed
qed

lemma h2d_chain:
  assumes "h2d_inv (cr, x)"
  shows "cr_gap (unat (depth cr)) (unat (r_idx x)) (unat (w_ptr cr))
      = cr_gap (unat (depth cr)) (unat (r_idx x)) (unat (w_idx x))
        + cr_gap (unat (depth cr)) (unat (w_idx x)) (unat (w_ptr cr))"
  using assms by (intro cr_gap_split) (auto simp: word_less_nat_alt)

text \<open>Publishing the write index: what the firmware then sees is everything reserved.\<close>

lemma write_complete_pcie:
  assumes "pcie_up x"
  shows "brcmf_commonring_write_complete pcie_ring_ops (cr, x) = (OK, (cr\<lparr>f_ptr := w_ptr cr\<rparr>,
     x\<lparr>w_idx := w_ptr cr, doorbells := doorbells x @ [if shared_dar x then 0xA20 else 0x140]\<rparr>))"
  using assms
  by (simp add: brcmf_commonring_write_complete_def pcie_ring_ops_def cr_call_def
      brcmf_pcie_ring_mb_write_wptr_def brcmf_pcie_ring_mb_ring_bell_def)

lemma h2d_commit_props:
  assumes "h2d_inv (fst w)"
  shows "h2d_inv (fst (h2d_commit w)) \<and> ring_cap (h2d_commit w) = ring_cap w
    \<and> h2d_items (h2d_commit w) = h2d_items w
    \<and> w_idx (snd (fst (h2d_commit w))) = w_ptr (fst (fst (h2d_commit w)))"
proof -
  obtain cr x mem where w: "w = ((cr, x), mem)" by (metis surj_pair)
  note h2d_chain [of cr x]
  with assms show ?thesis
    by (simp add: w h2d_commit_def write_complete_pcie h2d_items_def ring_cap_def)
qed

lemma dongle_get_cases:
  assumes "h2d_inv (fst w)" and "dongle_get w = (r, w')"
  shows "h2d_inv (fst w') \<and> ring_cap w' = ring_cap w
    \<and> (case r of Some x \<Rightarrow> h2d_items w = x # h2d_items w' | None \<Rightarrow> w' = w)"
proof -
  obtain cr x mem where w: "w = ((cr, x), mem)" by (metis surj_pair)
  show ?thesis
  proof (cases "r_idx x = w_idx x")
    case True
    then show ?thesis using assms by (auto simp: w dongle_get_def)
  next
    case False
    let ?d = "unat (depth cr)" and ?i = "if r_idx x + 1 = depth cr then 0 else r_idx x + 1"
    have lt: "unat (r_ptr cr) < ?d" "unat (r_idx x) < ?d" "unat (w_idx x) < ?d" "unat (w_ptr cr) < ?d"
      using assms(1) by (simp_all add: w word_less_nat_alt)
    have i: "unat ?i = cr_inc ?d (unat (r_idx x))"
      using assms(1) by (intro unat_cr_inc) (simp add: w)
    have ne: "0 < cr_gap ?d (unat (r_idx x)) (unat (w_idx x))"
      using False lt cr_gap_0_iff [of "unat (r_idx x)" ?d "unat (w_idx x)"] by (auto simp: word_unat_eq_iff)
    note ch = h2d_chain [OF assms(1) [unfolded w fst_conv]]
    have "0 < cr_gap ?d (unat (r_idx x)) (unat (w_ptr cr))" using ne ch by simp
    note adv = cr_gap_inc_left [OF lt(2,4) this] cr_gap_inc_left [OF lt(2,3) ne]
    have "cr_gap ?d (unat (r_ptr cr)) (unat (r_idx x)) + 1 < ?d"
      using assms(1) ne by (simp add: w)
    note adv = adv cr_gap_inc_right [OF lt(1,2) this]
    have r: "r = Some (mem (int (unat (r_idx x) * unat (item_len cr))))"
      "w' = ((cr, x\<lparr>r_idx := ?i\<rparr>), mem)"
      using assms(2) False by (simp_all add: w dongle_get_def)
    have "h2d_inv (fst w')"
      using assms(1) adv i cr_inc_less [OF lt(2)] by (simp add: r w word_less_nat_alt)
    then show ?thesis
      unfolding r using adv i lt(2) by (simp add: w h2d_items_def ring_cap_def slots_front)
  qed
qed

lemma dongle_get_commit:
  assumes "h2d_inv (fst w)" and "h2d_items w \<noteq> []"
  shows "fst (dongle_get (h2d_commit w)) \<noteq> None"
proof -
  obtain cr x mem where w: "w = ((cr, x), mem)" by (metis surj_pair)
  have "h2d_used (cr, x) \<noteq> 0" using assms(2) by (auto simp: w h2d_items_def slots_def)
  then have "r_idx x \<noteq> w_ptr cr" by auto
  with assms(1) show ?thesis by (simp add: w h2d_commit_def write_complete_pcie dongle_get_def)
qed

interpretation h2d: bounded_channel h2d_put h2d_commit dongle_get h2d_items "\<lambda>w. h2d_inv (fst w)" ring_cap
proof
  fix s :: "'a ring_world" and x s'
  assume inv: "h2d_inv (fst s)"
  obtain st mem where s: "s = (st, mem)" by fastforce
  show "h2d_put s x = (True, s') \<Longrightarrow> h2d_items s' = h2d_items s @ [x] \<and> h2d_inv (fst s') \<and> ring_cap s' = ring_cap s"
    using h2d_put_cases [of st mem x True s'] inv by (simp add: s)
  show "h2d_put s x = (False, s') \<Longrightarrow> h2d_items s' = h2d_items s \<and> h2d_inv (fst s')
      \<and> ring_cap s' = ring_cap s \<and> length (h2d_items s) = ring_cap s"
    using h2d_put_cases [of st mem x False s'] inv by (simp add: s)
  show "h2d_items (h2d_commit s) = h2d_items s \<and> h2d_inv (fst (h2d_commit s)) \<and> ring_cap (h2d_commit s) = ring_cap s"
    using h2d_commit_props [OF inv] by blast
  show "dongle_get s = (Some x, s') \<Longrightarrow> h2d_items s = x # h2d_items s' \<and> h2d_inv (fst s') \<and> ring_cap s' = ring_cap s"
    using dongle_get_cases [OF inv, of "Some x" s'] by simp
  show "dongle_get s = (None, s') \<Longrightarrow> h2d_items s' = h2d_items s \<and> h2d_inv (fst s') \<and> ring_cap s' = ring_cap s"
    using dongle_get_cases [OF inv, of None s'] by auto
  show "h2d_items s \<noteq> [] \<Longrightarrow> fst (dongle_get (h2d_commit s)) \<noteq> None"
    using dongle_get_commit [OF inv] .
  show "length (h2d_items s) \<le> ring_cap s"
    using h2d_used_less [OF inv] by (cases "fst s") (auto simp: s h2d_items_def ring_cap_def)
qed

text \<open>A device-to-host ring: the firmware writes at an index of its own and publishes it, the host
  reads one item with \<open>get_read_ptr\<close> and \<open>read_complete\<close>.\<close>

type_synonym 'a d2h_world = "'a ring_world \<times> u16"

fun d2h_inv :: "pcie_ring cr_state \<Rightarrow> u16 \<Rightarrow> bool" where
  "d2h_inv (cr, x) wp \<longleftrightarrow> pcie_up x \<and> 0 < item_len cr \<and> unat (depth cr) * unat (item_len cr) < 2 ^ 31
     \<and> r_idx x = r_ptr cr \<and> r_ptr cr < depth cr \<and> w_ptr cr < depth cr \<and> w_idx x < depth cr \<and> wp < depth cr
     \<and> cr_gap (unat (depth cr)) (unat (r_ptr cr)) (unat (w_ptr cr))
       + cr_gap (unat (depth cr)) (unat (w_ptr cr)) (unat (w_idx x))
       + cr_gap (unat (depth cr)) (unat (w_idx x)) (unat wp) < unat (depth cr)"

definition dongle_put :: "'a d2h_world \<Rightarrow> 'a \<Rightarrow> bool \<times> 'a d2h_world" where
  "dongle_put w v = (let (((cr, x), mem), wp) = w; nxt = (if wp + 1 = depth cr then 0 else wp + 1) in
     if nxt = r_idx x then (False, w)
     else (True, (((cr, x), mem(int (unat wp * unat (item_len cr)) := v)), nxt)))"

definition dongle_publish :: "'a d2h_world \<Rightarrow> 'a d2h_world" where
  "dongle_publish w = (let (((cr, x), mem), wp) = w in (((cr, x\<lparr>w_idx := wp\<rparr>), mem), wp))"

definition host_get :: "'a d2h_world \<Rightarrow> 'a option \<times> 'a d2h_world" where
  "host_get w = (let ((st, mem), wp) = w; ((p, n), st) = brcmf_commonring_get_read_ptr pcie_ring_ops st in
     case p of None \<Rightarrow> (None, ((st, mem), wp))
     | Some off \<Rightarrow> (Some (mem off), ((snd (brcmf_commonring_read_complete pcie_ring_ops 1 st), mem), wp)))"

definition d2h_items :: "'a d2h_world \<Rightarrow> 'a list" where
  "d2h_items w = (let (((cr, x), mem), wp) = w in slots mem (unat (item_len cr)) (unat (depth cr))
     (unat (r_ptr cr)) (cr_gap (unat (depth cr)) (unat (r_ptr cr)) (unat wp)))"

definition d2h_cap :: "'a d2h_world \<Rightarrow> nat" where
  "d2h_cap w = ring_cap (fst w)"

definition d2h_ok :: "'a d2h_world \<Rightarrow> bool" where
  "d2h_ok w = d2h_inv (fst (fst w)) (snd w)"

lemma d2h_ok_lt:
  assumes "d2h_inv (cr, x) wp"
  shows "unat (r_ptr cr) < unat (depth cr)" "unat (w_ptr cr) < unat (depth cr)"
    "unat (w_idx x) < unat (depth cr)" "unat wp < unat (depth cr)" "0 < unat (item_len cr)"
  using assms by (simp_all add: word_less_nat_alt)

lemma d2h_chain:
  assumes "d2h_inv (cr, x) wp"
  shows "cr_gap (unat (depth cr)) (unat (r_ptr cr)) (unat (w_idx x))
      = cr_gap (unat (depth cr)) (unat (r_ptr cr)) (unat (w_ptr cr))
        + cr_gap (unat (depth cr)) (unat (w_ptr cr)) (unat (w_idx x))"
    and "cr_gap (unat (depth cr)) (unat (r_ptr cr)) (unat wp)
      = cr_gap (unat (depth cr)) (unat (r_ptr cr)) (unat (w_idx x))
        + cr_gap (unat (depth cr)) (unat (w_idx x)) (unat wp)"
proof -
  note lt = d2h_ok_lt [OF assms]
  show 1: "cr_gap (unat (depth cr)) (unat (r_ptr cr)) (unat (w_idx x))
      = cr_gap (unat (depth cr)) (unat (r_ptr cr)) (unat (w_ptr cr))
        + cr_gap (unat (depth cr)) (unat (w_ptr cr)) (unat (w_idx x))"
    using lt assms by (intro cr_gap_split) auto
  show "cr_gap (unat (depth cr)) (unat (r_ptr cr)) (unat wp)
      = cr_gap (unat (depth cr)) (unat (r_ptr cr)) (unat (w_idx x))
        + cr_gap (unat (depth cr)) (unat (w_idx x)) (unat wp)"
    using lt assms 1 by (intro cr_gap_split) auto
qed

lemma cr_gap_inc_full: "a < d \<Longrightarrow> b < d \<Longrightarrow> cr_inc d b \<noteq> a \<Longrightarrow> cr_gap d a b + 1 < d"
  by (auto simp: cr_gap_def cr_inc_def split: if_splits)

lemma cr_gap_full: "a < d \<Longrightarrow> b < d \<Longrightarrow> cr_inc d b = a \<Longrightarrow> cr_gap d a b = d - 1"
  by (auto simp: cr_gap_def cr_inc_def split: if_splits)

lemma dongle_put_cases:
  assumes "d2h_ok w" and "dongle_put w v = (ok, w')"
  shows "d2h_ok w' \<and> d2h_cap w' = d2h_cap w
    \<and> d2h_items w' = (if ok then d2h_items w @ [v] else d2h_items w)
    \<and> (\<not> ok \<longrightarrow> length (d2h_items w) = d2h_cap w)"
proof -
  obtain cr x mem wp where w: "w = (((cr, x), mem), wp)" by (metis surj_pair)
  let ?d = "unat (depth cr)"
  define nx where "nx = (if wp + 1 = depth cr then 0 else wp + 1)"
  have inv: "d2h_inv (cr, x) wp" using assms(1) by (simp add: w d2h_ok_def)
  note lt = d2h_ok_lt [OF inv] and ch = d2h_chain [OF inv]
  have n: "unat nx = cr_inc ?d (unat wp)" unfolding nx_def using inv by (intro unat_cr_inc) simp
  have ri: "r_idx x = r_ptr cr" using inv by simp
  show ?thesis
  proof (cases "nx = r_idx x")
    case True
    then have "cr_inc ?d (unat wp) = unat (r_ptr cr)" using n ri by simp
    then have "cr_gap ?d (unat (r_ptr cr)) (unat wp) = ?d - 1" using lt by (intro cr_gap_full)
    moreover have "w' = w \<and> \<not> ok" using True assms(2) by (simp add: w dongle_put_def Let_def nx_def [symmetric])
    ultimately show ?thesis using assms(1) by (simp add: w d2h_items_def d2h_cap_def ring_cap_def)
  next
    case False
    then have "cr_inc ?d (unat wp) \<noteq> unat (r_ptr cr)"
      using n ri by (simp add: word_unat_eq_iff)
    then have free: "cr_gap ?d (unat (r_ptr cr)) (unat wp) + 1 < ?d" using lt by (intro cr_gap_inc_full)
    have w': "w' = (((cr, x), mem(int (unat wp * unat (item_len cr)) := v)), nx) \<and> ok"
      using False assms(2) by (auto simp: w dongle_put_def Let_def nx_def [symmetric])
    have g: "cr_gap ?d (unat (r_ptr cr)) (unat nx) = Suc (cr_gap ?d (unat (r_ptr cr)) (unat wp))"
      unfolding n using cr_gap_inc_right [OF lt(1,4) free] by simp
    have "cr_gap ?d (unat (w_idx x)) (unat nx) = cr_gap ?d (unat (w_idx x)) (unat wp) + 1"
      unfolding n using free ch lt by (intro cr_gap_inc_right) auto
    moreover have "nx < depth cr" unfolding word_less_nat_alt n using lt(4) by (rule cr_inc_less)
    ultimately have "d2h_inv (cr, x) nx" using inv ch free by simp
    moreover have "unat wp = (unat (r_ptr cr) + cr_gap ?d (unat (r_ptr cr)) (unat wp)) mod ?d"
      using cr_gap_reach [OF lt(1,4)] by simp
    note slots_append [OF lt(1) cr_gap_less [OF lt(1,4)] lt(5) this, of mem v]
    ultimately show ?thesis
      using w' g by (simp add: w d2h_ok_def d2h_cap_def ring_cap_def d2h_items_def del: d2h_inv.simps)
  qed
qed

lemma dongle_publish_props:
  assumes "d2h_ok w"
  shows "d2h_ok (dongle_publish w) \<and> d2h_cap (dongle_publish w) = d2h_cap w
    \<and> d2h_items (dongle_publish w) = d2h_items w"
proof -
  obtain cr x mem wp where w: "w = (((cr, x), mem), wp)" by (metis surj_pair)
  have inv: "d2h_inv (cr, x) wp" using assms(1) by (simp add: w d2h_ok_def)
  note lt = d2h_ok_lt [OF inv]
  have "cr_gap (unat (depth cr)) (unat (w_ptr cr)) (unat wp)
      = cr_gap (unat (depth cr)) (unat (w_ptr cr)) (unat (w_idx x))
        + cr_gap (unat (depth cr)) (unat (w_idx x)) (unat wp)"
    using inv lt by (intro cr_gap_split) auto
  with inv show ?thesis
    by (simp add: w d2h_ok_def d2h_cap_def ring_cap_def d2h_items_def dongle_publish_def)
qed

text \<open>The readable run \<open>get_read_ptr\<close> reports: from the read index to the published write index, or
  to the end of the buffer when that has wrapped.\<close>

lemma get_read_ptr_pcie:
  assumes "d2h_inv (cr, x) wp"
  shows "brcmf_commonring_get_read_ptr pcie_ring_ops (cr, x) =
     (if w_idx x = r_ptr cr then ((None, 0), (cr\<lparr>w_ptr := w_idx x\<rparr>, x))
      else ((Some (int (unat (r_ptr cr) * unat (item_len cr))),
             if r_ptr cr \<le> w_idx x then w_idx x - r_ptr cr else depth cr - r_ptr cr),
            (cr\<lparr>w_ptr := w_idx x\<rparr>, x)))"
proof -
  have "cr_call (cr_update_wptr pcie_ring_ops) (cr, x) = (cr\<lparr>w_ptr := w_idx x\<rparr>, x)"
    using assms by (simp add: cr_call_def pcie_ring_ops_def brcmf_pcie_ring_mb_update_wptr_def)
  moreover have "cr_offset (cr\<lparr>w_ptr := w_idx x\<rparr>) (r_ptr cr) = int (unat (r_ptr cr) * unat (item_len cr))"
    using assms cr_offset_eq [of "r_ptr cr" "cr\<lparr>w_ptr := w_idx x\<rparr>"] by simp
  moreover have "depth cr - r_ptr cr \<noteq> 0" using assms by auto
  ultimately show ?thesis by (auto simp: brcmf_commonring_get_read_ptr_def)
qed

lemma read_complete_pcie:
  assumes "pcie_up x"
  shows "brcmf_commonring_read_complete pcie_ring_ops n (cr, x) =
    (let i = (if r_ptr cr + n = depth cr then 0 else r_ptr cr + n) in (OK, (cr\<lparr>r_ptr := i\<rparr>, x\<lparr>r_idx := i\<rparr>)))"
  using assms
  by (simp add: brcmf_commonring_read_complete_def pcie_ring_ops_def brcmf_pcie_ring_mb_write_rptr_def Let_def)

lemma host_get_cases:
  assumes "d2h_ok w" and "host_get w = (r, w')"
  shows "d2h_ok w' \<and> d2h_cap w' = d2h_cap w
    \<and> (case r of Some v \<Rightarrow> d2h_items w = v # d2h_items w'
       | None \<Rightarrow> d2h_items w' = d2h_items w \<and> w_idx (snd (fst (fst w))) = r_ptr (fst (fst (fst w))))"
proof -
  obtain cr x mem wp where w: "w = (((cr, x), mem), wp)" by (metis surj_pair)
  let ?d = "unat (depth cr)"
  have inv: "d2h_inv (cr, x) wp" using assms(1) by (simp add: w d2h_ok_def)
  note lt = d2h_ok_lt [OF inv] and ch = d2h_chain [OF inv]
  show ?thesis
  proof (cases "w_idx x = r_ptr cr")
    case True
    then have "r = None \<and> w' = (((cr\<lparr>w_ptr := w_idx x\<rparr>, x), mem), wp)"
      using assms(2) by (simp add: w host_get_def get_read_ptr_pcie [OF inv])
    then show ?thesis
      using True inv by (auto simp: w d2h_ok_def d2h_cap_def ring_cap_def d2h_items_def)
  next
    case False
    define nx where "nx = (if r_ptr cr + 1 = depth cr then 0 else r_ptr cr + 1)"
    have n: "unat nx = cr_inc ?d (unat (r_ptr cr))" unfolding nx_def using inv by (intro unat_cr_inc) simp
    have w': "r = Some (mem (int (unat (r_ptr cr) * unat (item_len cr))))"
      "w' = (((cr\<lparr>w_ptr := w_idx x, r_ptr := nx\<rparr>, x\<lparr>r_idx := nx\<rparr>), mem), wp)"
      using assms(2) False inv
      by (auto simp: w host_get_def get_read_ptr_pcie [OF inv] read_complete_pcie nx_def Let_def)
    have ne: "0 < cr_gap ?d (unat (r_ptr cr)) (unat (w_idx x))"
      using False lt cr_gap_0_iff [of "unat (r_ptr cr)" ?d "unat (w_idx x)"] by (auto simp: word_unat_eq_iff)
    have "0 < cr_gap ?d (unat (r_ptr cr)) (unat wp)" using ne ch by simp
    note adv = cr_gap_inc_left [OF lt(1,3) ne] cr_gap_inc_left [OF lt(1,4) this]
    have "d2h_ok w'" using inv adv ch cr_inc_less [OF lt(1)] by (simp add: w' d2h_ok_def word_less_nat_alt n)
    then show ?thesis
      using adv lt(1) by (simp add: w' w d2h_cap_def ring_cap_def d2h_items_def n slots_front)
  qed
qed

lemma host_get_publish:
  assumes "d2h_ok w" and "d2h_items w \<noteq> []"
  shows "fst (host_get (dongle_publish w)) \<noteq> None"
proof -
  obtain cr x mem wp where w: "w = (((cr, x), mem), wp)" by (metis surj_pair)
  have "wp \<noteq> r_ptr cr" using assms(2) by (auto simp: w d2h_items_def slots_def)
  moreover have "d2h_inv (cr, x\<lparr>w_idx := wp\<rparr>) wp"
    using dongle_publish_props [OF assms(1)] by (simp add: w d2h_ok_def dongle_publish_def)
  ultimately show ?thesis
    using get_read_ptr_pcie [of cr "x\<lparr>w_idx := wp\<rparr>" wp]
    by (simp add: w dongle_publish_def host_get_def del: d2h_inv.simps)
qed

interpretation d2h: bounded_channel dongle_put dongle_publish host_get d2h_items d2h_ok d2h_cap
proof
  fix s :: "'a d2h_world" and x s'
  assume inv: "d2h_ok s"
  show "dongle_put s x = (True, s') \<Longrightarrow> d2h_items s' = d2h_items s @ [x] \<and> d2h_ok s' \<and> d2h_cap s' = d2h_cap s"
    using dongle_put_cases [OF inv, of x True s'] by simp
  show "dongle_put s x = (False, s') \<Longrightarrow> d2h_items s' = d2h_items s \<and> d2h_ok s'
      \<and> d2h_cap s' = d2h_cap s \<and> length (d2h_items s) = d2h_cap s"
    using dongle_put_cases [OF inv, of x False s'] by simp
  show "d2h_items (dongle_publish s) = d2h_items s \<and> d2h_ok (dongle_publish s) \<and> d2h_cap (dongle_publish s) = d2h_cap s"
    using dongle_publish_props [OF inv] by blast
  show "host_get s = (Some x, s') \<Longrightarrow> d2h_items s = x # d2h_items s' \<and> d2h_ok s' \<and> d2h_cap s' = d2h_cap s"
    using host_get_cases [OF inv, of "Some x" s'] by simp
  show "host_get s = (None, s') \<Longrightarrow> d2h_items s' = d2h_items s \<and> d2h_ok s' \<and> d2h_cap s' = d2h_cap s"
    using host_get_cases [OF inv, of None s'] by simp
  show "d2h_items s \<noteq> [] \<Longrightarrow> fst (host_get (dongle_publish s)) \<noteq> None"
    using host_get_publish [OF inv] .
  show "length (d2h_items s) \<le> d2h_cap s"
  proof -
    obtain cr y mem wp where s: "s = (((cr, y), mem), wp)" by (metis surj_pair)
    have "d2h_inv (cr, y) wp" using inv by (simp add: s d2h_ok_def)
    note lt = d2h_ok_lt [OF this]
    then show ?thesis using cr_gap_less [OF lt(1,4)] by (simp add: s d2h_items_def d2h_cap_def ring_cap_def)
  qed
qed

section \<open>Configuration and reservation outcomes\<close>

lemma config_pcie:
  assumes "pcie_up x"
  shows "brcmf_commonring_config pcie_ring_ops d l (cr, x) =
    (cr\<lparr>depth := d, item_len := l, inited := True, r_ptr := 0, w_ptr := 0, f_ptr := 0\<rparr>,
     x\<lparr>r_idx := 0, w_idx := 0\<rparr>)"
  using assms
  by (simp add: brcmf_commonring_config_def pcie_ring_ops_def cr_call_def
      brcmf_pcie_ring_mb_write_rptr_def brcmf_pcie_ring_mb_write_wptr_def)

lemma config_h2d:
  assumes "pcie_up x" and "0 < d" and "0 < l" and "unat d * unat l < 2 ^ 31"
  shows "h2d_inv (brcmf_commonring_config pcie_ring_ops d l (cr, x))"
    and "h2d_items (brcmf_commonring_config pcie_ring_ops d l (cr, x), mem) = []"
    and "ring_cap (brcmf_commonring_config pcie_ring_ops d l (cr, x), mem) = unat d - 1"
  using assms by (simp_all add: config_pcie h2d_items_def ring_cap_def slots_def unat_gt_0)

lemma config_d2h:
  assumes "pcie_up x" and "0 < d" and "0 < l" and "unat d * unat l < 2 ^ 31"
  shows "d2h_ok ((brcmf_commonring_config pcie_ring_ops d l (cr, x), mem), 0)"
    and "d2h_items ((brcmf_commonring_config pcie_ring_ops d l (cr, x), mem), 0) = []"
    and "d2h_cap ((brcmf_commonring_config pcie_ring_ops d l (cr, x), mem), 0) = unat d - 1"
  using assms by (simp_all add: config_pcie d2h_ok_def d2h_cap_def d2h_items_def ring_cap_def slots_def unat_gt_0)

text \<open>A positive answer of \<open>write_available\<close> leaves more than one free slot by the cached indices.\<close>

definition wa_outcome :: "bool \<times> 's cr_state \<Rightarrow> bool" where
  "wa_outcome r = (let (b, (cr, x)) = r in
     (b \<longrightarrow> 1 < cr_available cr) \<and> (\<not> b \<longrightarrow> was_full cr \<and>
       (cr_available cr \<le> 1 \<or> cr_available cr \<le> depth cr div 8)))"

lemma cr_available_was_full [simp]: "cr_available (cr\<lparr>was_full := b\<rparr>) = cr_available cr"
  by (simp add: cr_available_def)

lemma write_available_False: "wa_outcome (write_available_again ops False (cr, x))"
  by (subst write_available_again.simps) (simp add: wa_outcome_def Let_def not_less)

lemma write_available_True: "wa_outcome (write_available_again ops True (cr, x))"
proof -
  obtain cr' x' where r: "cr_call (cr_update_rptr ops) (cr, x) = (cr', x')" by fastforce
  have "wa_outcome (True, (cr, x))" if "1 < cr_available cr"
    using that by (simp add: wa_outcome_def)
  moreover have "wa_outcome (True, (cr\<lparr>was_full := False\<rparr>, x))" if "1 < cr_available cr"
    using that by (simp add: wa_outcome_def)
  ultimately show ?thesis
    using write_available_False [of ops cr' x']
    by (subst write_available_again.simps) (simp add: Let_def r)
qed

text \<open>Giving back the last \<open>j\<close> of \<open>k\<close> reserved slots.\<close>

lemma write_cancel_adv:
  assumes "0 < j" and "j \<le> k" and "unat (w_ptr cr) + unat k \<le> unat (depth cr)" and "w_ptr cr < depth cr"
  shows "brcmf_commonring_write_cancel j (cr_adv k cr) = cr_adv (k - j) cr"
proof -
  have kj: "unat (k - j) = unat k - unat j" "unat j \<le> unat k" "0 < unat j"
    using assms(1,2) by (simp_all add: unat_sub word_le_nat_alt word_less_nat_alt)
  have lt: "unat (depth cr) < 65536" by (rule unat_widths_less)
  have "unat (w_ptr cr + (k - j)) = unat (w_ptr cr) + unat (k - j)"
    using lt assms(3) kj by (simp add: unat_word_ariths)
  then have 1: "w_ptr cr + (k - j) \<noteq> depth cr" using kj assms(3) by (metis add_less_cancel_left diff_less
      less_le_trans nat_less_le order_less_le_trans)
  have "unat (w_ptr cr + k) = unat (w_ptr cr) + unat k"
    using lt assms(3) by (simp add: unat_word_ariths)
  then have 2: "w_ptr cr + k \<noteq> 0" using kj by auto
  show ?thesis using 1 2 by (auto simp: brcmf_commonring_write_cancel_def cr_adv_def algebra_simps)
qed

section \<open>Properties\<close>

text \<open>C4: A host-to-device ring, from its configuration on, is a bounded first-in first-out channel:
  whatever the order in which the host reserves and fills slots, publishes its write index, and the
  firmware consumes, the items the firmware has read are the accepted ones in order, the others are
  still in their slots, at most \<open>depth - 1\<close> are in flight, and the host is refused a slot only when
  that many are.\<close>

theorem h2d_ring_fifo:
  assumes "pcie_up x" and "0 < d" and "0 < l" and "unat d * unat l < 2 ^ 31"
    and "chan_run h2d_put h2d_commit dongle_get es
      (brcmf_commonring_config pcie_ring_ops d l (cr, x), mem) = (acc, rec, w)"
  shows "acc = rec @ h2d_items w \<and> length (h2d_items w) \<le> unat d - 1
    \<and> (\<forall>v. fst (h2d_put w v) \<longleftrightarrow> length (h2d_items w) < unat d - 1)"
proof -
  note c = config_h2d(2,3) [OF assms(1-4), of cr mem]
  have inv: "h2d_inv (fst (brcmf_commonring_config pcie_ring_ops d l (cr, x), mem))"
    using config_h2d(1) [OF assms(1-4)] by simp
  have run: "acc = rec @ h2d_items w" "h2d_inv (fst w)" "ring_cap w = unat d - 1"
    using h2d.run_fifo [OF inv assms(5)] c by simp_all
  have "\<not> fst (h2d_put w v)" if "length (h2d_items w) = unat d - 1" for v
  proof
    obtain w' where "h2d_put w v = (fst (h2d_put w v), w')" by (metis surj_pair fst_conv)
    moreover assume "fst (h2d_put w v)"
    ultimately have "h2d_items w' = h2d_items w @ [v]" "ring_cap w' = ring_cap w" "h2d_inv (fst w')"
      using h2d.put_ok [OF run(2), of v w'] by auto
    with h2d.bounded [of w'] that run(3) show False by simp
  qed
  then show ?thesis
    using run h2d.bounded [OF run(2)] h2d.accept_when_space [OF run(2)] by (metis order_le_less)
qed

theorem h2d_ring_fifo_witness:
  "\<exists>w. chan_run h2d_put h2d_commit dongle_get [Put (7 :: nat), Put 8, Get, Commit, Get, Put 9, Put 10]
      (brcmf_commonring_config pcie_ring_ops 3 8 (\<lparr>r_ptr = 5, w_ptr = 1, f_ptr = 0, depth = 0,
        item_len = 0, inited = False, was_full = False\<rparr>, \<lparr>pcie_up = True, r_idx = 2, w_idx = 9,
        shared_dar = False, doorbells = []\<rparr>), \<lambda>_. 0) = ([7, 8, 9], [7], w) \<and> h2d_items w = [8, 9]"
proof -
  let ?x = "\<lparr>pcie_up = True, r_idx = 2, w_idx = 9, shared_dar = False, doorbells = []\<rparr>"
  let ?s = "(brcmf_commonring_config pcie_ring_ops 3 8 (\<lparr>r_ptr = 5, w_ptr = 1, f_ptr = 0, depth = 0,
        item_len = 0, inited = False, was_full = False\<rparr>, ?x), \<lambda>_. 0)"
  let ?r = "chan_run h2d_put h2d_commit dongle_get [Put (7 :: nat), Put 8, Get, Commit, Get, Put 9, Put 10] ?s"
  have "fst ?r = [7, 8, 9] \<and> fst (snd ?r) = [7]" by code_simp
  then obtain w where r: "?r = ([7, 8, 9], [7], w)" by (metis prod.collapse)
  have "pcie_up ?x" "(0 :: u16) < 3" "(0 :: u16) < 8" "unat (3 :: u16) * unat (8 :: u16) < 2 ^ 31" by simp_all
  from h2d_ring_fifo [OF this r] r show ?thesis by simp
qed

text \<open>C5: A device-to-host ring is the same channel read the other way: what the host takes with
  \<open>get_read_ptr\<close> and \<open>read_complete\<close> is what the firmware wrote, in order, and once the firmware has
  published its write index the host finds an item whenever there is one.\<close>

theorem d2h_ring_fifo:
  assumes "pcie_up x" and "0 < d" and "0 < l" and "unat d * unat l < 2 ^ 31"
    and "chan_run dongle_put dongle_publish host_get es
      ((brcmf_commonring_config pcie_ring_ops d l (cr, x), mem), 0) = (acc, rec, w)"
  shows "acc = rec @ d2h_items w \<and> length (d2h_items w) \<le> unat d - 1
    \<and> (d2h_items w \<noteq> [] \<longrightarrow> fst (host_get (dongle_publish w)) = Some (hd (d2h_items w)))"
proof -
  note c = config_d2h [OF assms(1-4), of cr mem]
  have run: "acc = rec @ d2h_items w" "d2h_ok w" "d2h_cap w = unat d - 1"
    using d2h.run_fifo [OF c(1) assms(5)] c(2,3) by simp_all
  have "fst (host_get (dongle_publish w)) = Some (hd (d2h_items w))" if ne: "d2h_items w \<noteq> []"
  proof -
    from d2h.get_commit [OF run(2) ne] obtain v w' where g: "host_get (dongle_publish w) = (Some v, w')"
      by (cases "host_get (dongle_publish w)") auto
    then show ?thesis using d2h.get_Some [OF _ g] d2h.commit [OF run(2)] by simp
  qed
  then show ?thesis using run d2h.bounded [OF run(2)] by simp
qed

theorem d2h_ring_fifo_witness:
  "\<exists>w. chan_run dongle_put dongle_publish host_get [Put (7 :: nat), Get, Commit, Put 8, Get, Get, Put 9]
      ((brcmf_commonring_config pcie_ring_ops 3 8 (\<lparr>r_ptr = 5, w_ptr = 1, f_ptr = 0, depth = 0,
        item_len = 0, inited = False, was_full = False\<rparr>, \<lparr>pcie_up = True, r_idx = 2, w_idx = 9,
        shared_dar = False, doorbells = []\<rparr>), \<lambda>_. 0), 0) = ([7, 8, 9], [7], w) \<and> d2h_items w = [8, 9]"
proof -
  let ?x = "\<lparr>pcie_up = True, r_idx = 2, w_idx = 9, shared_dar = False, doorbells = []\<rparr>"
  let ?s = "((brcmf_commonring_config pcie_ring_ops 3 8 (\<lparr>r_ptr = 5, w_ptr = 1, f_ptr = 0, depth = 0,
        item_len = 0, inited = False, was_full = False\<rparr>, ?x), \<lambda>_. 0), 0)"
  let ?r = "chan_run dongle_put dongle_publish host_get [Put (7 :: nat), Get, Commit, Put 8, Get, Get, Put 9] ?s"
  have "fst ?r = [7, 8, 9] \<and> fst (snd ?r) = [7]" by code_simp
  then obtain w where r: "?r = ([7, 8, 9], [7], w)" by (metis prod.collapse)
  have "pcie_up ?x" "(0 :: u16) < 3" "(0 :: u16) < 8" "unat (3 :: u16) * unat (8 :: u16) < 2 ^ 31" by simp_all
  from d2h_ring_fifo [OF this r] r show ?thesis by simp
qed

text \<open>A multiple reservation on a ring with free space is granted between one and the requested
  number of consecutive slots; they lie inside the buffer, none of them holds an item the firmware
  has yet to read, and cancelling any part of them leaves the ring as if only the others had been
  reserved, although the write pointer may have wrapped to zero.\<close>

theorem reserve_multiple_safe:
  assumes "h2d_inv st" and "0 < n" and "h2d_used st + 1 < unat (depth (fst st))"
  shows "\<exists>cr k off. brcmf_commonring_reserve_for_write_multiple pcie_ring_ops n st
        = (Some (int off, k), (cr_adv k cr, snd st))
    \<and> 0 < k \<and> k \<le> n \<and> off = unat (w_ptr cr) * unat (item_len cr)
    \<and> off + unat k * unat (item_len cr) \<le> unat (depth cr) * unat (item_len cr)
    \<and> {unat (w_ptr cr)..<unat (w_ptr cr) + unat k} \<inter> h2d_busy st = {}
    \<and> h2d_inv (cr_adv k cr, snd st) \<and> h2d_used (cr_adv k cr, snd st) = h2d_used st + unat k
    \<and> (\<forall>j. 0 < j \<and> j \<le> k \<longrightarrow> brcmf_commonring_write_cancel j (cr_adv k cr) = cr_adv (k - j) cr)"
  using assms(1,2)
proof (cases rule: reserve_multiple_cases)
  case (full st')
  with assms(3) show ?thesis by simp
next
  case (granted cr x k)
  let ?L = "unat (item_len cr)"
  have busy: "h2d_busy st = h2d_busy (cr, x)"
    using granted(2,3) by (cases st) (auto simp: h2d_busy_def)
  have used: "h2d_used (cr, x) = h2d_used st" using granted(2,3) by (cases st) auto
  have "{unat (w_ptr cr)..<unat (w_ptr cr) + unat k} \<inter> h2d_busy st = {}"
    unfolding busy using granted(7) used by (intro h2d_free_slots granted) simp
  moreover have "unat (w_ptr cr) * ?L + unat k * ?L \<le> unat (depth cr) * ?L"
    using granted(6) by (metis distrib_right mult_le_mono1)
  moreover have "brcmf_commonring_write_cancel j (cr_adv k cr) = cr_adv (k - j) cr"
    if "0 < j" "j \<le> k" for j
    using that granted(6) write_cancel_adv [of j k cr] granted(9) by simp
  ultimately show ?thesis
    using granted
    by (intro exI [of _ cr] exI [of _ k] exI [of _ "unat (w_ptr cr) * ?L"]) (simp add: word_less_nat_alt word_le_nat_alt)
qed

definition shm_ex :: pcie_ring where
  "shm_ex = \<lparr>pcie_up = True, r_idx = 0, w_idx = 0, shared_dar = False, doorbells = []\<rparr>"

definition ring_ex :: "pcie_ring cr_state" where
  "ring_ex = (\<lparr>r_ptr = 3, w_ptr = 3, f_ptr = 3, depth = 4, item_len = 8, inited = True, was_full = False\<rparr>,
     shm_ex\<lparr>r_idx := 3, w_idx := 3\<rparr>)"

theorem reserve_multiple_safe_witness:
  "\<exists>cr k off. brcmf_commonring_reserve_for_write_multiple pcie_ring_ops 3 ring_ex
      = (Some (int off, k), (cr_adv k cr, snd ring_ex)) \<and> 0 < k \<and> k \<le> 3"
proof -
  have "h2d_inv ring_ex" "(0 :: u16) < 3" "h2d_used ring_ex + 1 < unat (depth (fst ring_ex))"
    by (simp_all add: ring_ex_def shm_ex_def)
  from reserve_multiple_safe [OF this] show ?thesis by blast
qed

text \<open>A positive answer of \<open>write_available\<close> is a promise: with any callbacks, the reservation that
  follows it succeeds, and without asking the bus again. A negative answer leaves \<open>was_full\<close> set with
  at most one slot, or at most an eighth of the ring, free by the refreshed indices.\<close>

theorem write_available_promise:
  assumes "brcmf_commonring_write_available ops st = (b, st')"
  shows "if b then brcmf_commonring_reserve_for_write ops st'
           = (Some (cr_offset (fst st') (w_ptr (fst st'))), (cr_adv 1 (fst st'), snd st'))
         else was_full (fst st') \<and> (cr_available (fst st') \<le> 1
           \<or> cr_available (fst st') \<le> depth (fst st') div 8)"
proof -
  obtain cr x cr' x' where "st = (cr, x)" "st' = (cr', x')" by fastforce
  with write_available_True [of ops cr x] assms show ?thesis
    by (auto simp: brcmf_commonring_write_available_def wa_outcome_def reserve_unfold(1)
        brcmf_commonring_reserve_for_write_def)
qed

theorem write_available_promise_witness:
  "brcmf_commonring_reserve_for_write pcie_ring_ops ring_ex
     = (Some (cr_offset (fst ring_ex) 3), (cr_adv 1 (fst ring_ex), snd ring_ex))"
proof -
  have "brcmf_commonring_write_available pcie_ring_ops ring_ex = (True, ring_ex)"
    by (simp add: brcmf_commonring_write_available_def write_available_again.simps ring_ex_def cr_available_def)
  from write_available_promise [OF this] show ?thesis by (simp add: ring_ex_def)
qed

end
