(* ===== verification/Xtlv.thy ===== *)
theory Xtlv
  imports Prelude "HOL-Library.Signed_Division"
begin

text \<open>
  The type-length-value packer of \<open>xtlv.c\<close>: identifiers and lengths of one or two bytes, chosen by
  option bits, little endian, followed by the value. The packer writes through a pointer, so it
  transforms the buffer the pointer points into; a write or a read outside its buffer is
  \<open>None\<close>. A reader of the format states what the packer promises.
\<close>

abbreviation BRCMF_XTLV_OPTION_ALIGN32 :: u16 where "BRCMF_XTLV_OPTION_ALIGN32 \<equiv> 1"
abbreviation BRCMF_XTLV_OPTION_IDU8 :: u16 where "BRCMF_XTLV_OPTION_IDU8 \<equiv> 2"
abbreviation BRCMF_XTLV_OPTION_LENU8 :: u16 where "BRCMF_XTLV_OPTION_LENU8 \<equiv> 4"

definition brcmf_xtlv_header_size :: "u16 \<Rightarrow> int" where
  "brcmf_xtlv_header_size opts =
     (let len = 4;
          len = (if opts AND BRCMF_XTLV_OPTION_IDU8 \<noteq> 0 then len - 1 else len);
          len = (if opts AND BRCMF_XTLV_OPTION_LENU8 \<noteq> 0 then len - 1 else len)
      in len)"

definition brcmf_xtlv_data_size :: "int \<Rightarrow> u16 \<Rightarrow> int" where
  "brcmf_xtlv_data_size dlen opts =
     (let hsz = brcmf_xtlv_header_size opts in
      if opts AND BRCMF_XTLV_OPTION_ALIGN32 \<noteq> 0 then (dlen + hsz + 3) sdiv 4 * 4
      else dlen + hsz)"

text \<open>Returns the buffer after the call. \<open>data\<close> is \<open>None\<close> for a NULL pointer; otherwise the source
  array.\<close>

definition brcmf_xtlv_pack_header ::
  "u8 list \<Rightarrow> u16 \<Rightarrow> u16 \<Rightarrow> u8 list option \<Rightarrow> u16 \<Rightarrow> u8 list option" where
  "brcmf_xtlv_pack_header xtlv i len data opts = do {
     let mask = BRCMF_XTLV_OPTION_IDU8 OR BRCMF_XTLV_OPTION_LENU8;
     (buf, data_buf) \<leftarrow>
       (if opts AND mask = 0 then do {
          buf \<leftarrow> write_bytes xtlv 0 (le16 i);
          buf \<leftarrow> write_bytes buf 2 (le16 len);
          Some (buf, 4) }
        else if opts AND mask = mask then do {
          buf \<leftarrow> write_bytes xtlv 0 [ucast i];
          buf \<leftarrow> write_bytes buf 1 [ucast len];
          Some (buf, 2) }
        else if opts AND BRCMF_XTLV_OPTION_IDU8 \<noteq> 0 then do {
          buf \<leftarrow> write_bytes xtlv 0 [ucast i];
          buf \<leftarrow> write_bytes buf 1 (le16 len);
          Some (buf, 3) }
        else do {
          buf \<leftarrow> write_bytes xtlv 0 (le16 i);
          buf \<leftarrow> write_bytes buf 2 [ucast len];
          Some (buf, 3) });
     let len = (if opts AND BRCMF_XTLV_OPTION_LENU8 \<noteq> 0 then len AND 0xff else len);
     case data of None \<Rightarrow> Some buf
     | Some src \<Rightarrow> if unat len \<le> length src then write_bytes buf data_buf (take (unat len) src) else None
   }"

section \<open>The format\<close>

text \<open>What a reader of the format sees at the start of a buffer: identifier, length and value.\<close>

definition xtlv_read :: "u16 \<Rightarrow> u8 list \<Rightarrow> u16 \<times> u16 \<times> u8 list" where
  "xtlv_read opts buf =
     (let idsz = (if opts AND BRCMF_XTLV_OPTION_IDU8 \<noteq> 0 then 1 else 2);
          lensz = (if opts AND BRCMF_XTLV_OPTION_LENU8 \<noteq> 0 then 1 else 2);
          i = (if idsz = 1 then ucast (buf ! 0) else of_le16 (buf ! 0) (buf ! 1));
          len = (if lensz = 1 then ucast (buf ! idsz) else of_le16 (buf ! idsz) (buf ! (idsz + 1)))
      in (i, len, take (unat len) (drop (idsz + lensz) buf)))"

text \<open>The header as bytes.\<close>

definition xtlv_header :: "u16 \<Rightarrow> u16 \<Rightarrow> u16 \<Rightarrow> u8 list" where
  "xtlv_header opts i len =
     (if opts AND BRCMF_XTLV_OPTION_IDU8 \<noteq> 0 then [ucast i] else le16 i)
     @ (if opts AND BRCMF_XTLV_OPTION_LENU8 \<noteq> 0 then [ucast len] else le16 len)"

text \<open>The option tests of the code in terms of the two option bits.\<close>

lemma opt_tests:
  fixes opts :: u16
  shows "opts AND 2 = (if bit opts 1 then 2 else 0)" "opts AND 4 = (if bit opts 2 then 4 else 0)"
    "opts AND 1 = (if bit opts 0 then 1 else 0)"
    "opts AND 6 = (if bit opts 1 then if bit opts 2 then 6 else 2 else if bit opts 2 then 4 else 0)"
proof -
  show 2: "opts AND 2 = (if bit opts 1 then 2 else 0)" using and_pow_eq [of opts 1] by simp
  show 4: "opts AND 4 = (if bit opts 2 then 4 else 0)" using and_pow_eq [of opts 2] by simp
  show "opts AND 1 = (if bit opts 0 then 1 else 0)" using and_pow_eq [of opts 0] by simp
  have "opts AND 6 = (opts AND 2) OR (opts AND 4)" by (simp flip: bit.conj_disj_distrib)
  then show "opts AND 6 = (if bit opts 1 then if bit opts 2 then 6 else 2 else if bit opts 2 then 4 else 0)"
    unfolding 2 4 by simp
qed

lemma pack_header_eq:
  "brcmf_xtlv_pack_header buf i len data opts =
     (case data of None \<Rightarrow> write_bytes buf 0 (xtlv_header opts i len)
      | Some src \<Rightarrow> (let n = unat (if bit opts 2 then len AND 0xff else len) in
          if n \<le> length src then write_bytes buf 0 (xtlv_header opts i len @ take n src)
          else write_bytes buf 0 (xtlv_header opts i len) \<bind> (\<lambda>_. None)))"
  unfolding brcmf_xtlv_pack_header_def opt_tests Let_def
  by (cases data; cases "bit opts 1"; cases "bit opts 2")
    (simp_all add: xtlv_header_def opt_tests write_bytes_bind bind_assoc)

lemma length_xtlv_header: "int (length (xtlv_header opts i len)) = brcmf_xtlv_header_size opts"
  by (simp add: xtlv_header_def brcmf_xtlv_header_size_def Let_def)

lemma low_byte: "ucast (ucast (w :: u16) :: u8) = w AND 0xff"
proof -
  have ff: "(0xff :: u16) = mask 8" by (simp add: mask_eq_exp_minus_1)
  show ?thesis unfolding ff by (rule bit_word_eqI) (auto simp: bit_simps)
qed

lemma xtlv_read_layout:
  assumes "n = (if bit opts 2 then len AND 0xff else len)"
  shows "xtlv_read opts (xtlv_header opts i len @ bs) = (if bit opts 1 then i AND 0xff else i, n, take (unat n) bs)"
  unfolding assms xtlv_read_def xtlv_header_def opt_tests Let_def le16_def
  by (cases "bit opts 1"; cases "bit opts 2") (simp_all add: low_byte)

text \<open>The size function: the header and the value, rounded up to four bytes under \<open>ALIGN32\<close>.\<close>

lemma data_size_bounds:
  assumes "0 \<le> dlen"
  shows "dlen + brcmf_xtlv_header_size opts \<le> brcmf_xtlv_data_size dlen opts"
    and "brcmf_xtlv_data_size dlen opts < dlen + brcmf_xtlv_header_size opts + 4"
    and "bit opts 0 \<Longrightarrow> 4 dvd brcmf_xtlv_data_size dlen opts"
proof -
  have h: "0 \<le> brcmf_xtlv_header_size opts" by (simp add: brcmf_xtlv_header_size_def Let_def)
  then have d: "(dlen + brcmf_xtlv_header_size opts + 3) sdiv 4 = (dlen + brcmf_xtlv_header_size opts + 3) div 4"
    using assms by (simp add: signed_divide_int_def)
  show "dlen + brcmf_xtlv_header_size opts \<le> brcmf_xtlv_data_size dlen opts"
    unfolding brcmf_xtlv_data_size_def Let_def d opt_tests(3) by (cases "bit opts 0"; simp; linarith)
  show "brcmf_xtlv_data_size dlen opts < dlen + brcmf_xtlv_header_size opts + 4"
    unfolding brcmf_xtlv_data_size_def Let_def d opt_tests(3) by (cases "bit opts 0"; simp; linarith)
  show "4 dvd brcmf_xtlv_data_size dlen opts" if "bit opts 0"
    unfolding brcmf_xtlv_data_size_def Let_def using that d by (simp add: opt_tests(3))
qed

section \<open>Properties\<close>

text \<open>Packing a value into a buffer of \<open>brcmf_xtlv_data_size\<close> bytes never leaves the buffer, and a
  reader of the format gets back the identifier, the length and the value, for each of the four
  header layouts; the bytes behind the value are untouched.\<close>

theorem xtlv_roundtrip:
  assumes "brcmf_xtlv_data_size (int (length src)) opts \<le> int (length buf)"
    and "length src < (if bit opts 2 then 2 ^ 8 else 2 ^ 16)"
    and "bit opts 1 \<longrightarrow> i AND 0xff = i"
  shows "\<exists>buf'. brcmf_xtlv_pack_header buf i (of_nat (length src)) (Some src) opts = Some buf'
    \<and> xtlv_read opts buf' = (i, of_nat (length src), src) \<and> length buf' = length buf
    \<and> (let n = nat (brcmf_xtlv_header_size opts) + length src in drop n buf' = drop n buf)"
proof -
  let ?len = "of_nat (length src) :: u16" and ?h = "xtlv_header opts i (of_nat (length src))"
  have len: "unat ?len = length src"
    using assms(2) by (cases "bit opts 2") (simp_all add: unat_of_nat take_bit_nat_eq_self)
  have n: "(if bit opts 2 then ?len AND 0xff else ?len) = ?len"
  proof (cases "bit opts 2")
    case True
    have "?len AND mask 8 = take_bit 8 ?len" by (simp add: take_bit_eq_mask)
    also have "\<dots> = ?len"
      using assms(2) True len by (simp add: word_unat_eq_iff unsigned_take_bit_eq take_bit_nat_eq_self)
    finally show ?thesis using True by (simp add: mask_eq_exp_minus_1)
  qed simp
  have fit: "length ?h + length src \<le> length buf"
    using data_size_bounds(1) [of "int (length src)" opts] assms(1) length_xtlv_header [of opts i ?len]
    by linarith
  let ?b = "?h @ src @ drop (length ?h + length src) buf"
  have "brcmf_xtlv_pack_header buf i ?len (Some src) opts = Some ?b"
    using fit by (simp add: pack_header_eq Let_def n len write_bytes_def)
  moreover have "xtlv_read opts ?b = (i, ?len, src)"
    using assms(3) len by (simp add: xtlv_read_layout [OF n [symmetric]])
  moreover have "nat (brcmf_xtlv_header_size opts) = length ?h"
    using length_xtlv_header [of opts i ?len] by linarith
  ultimately show ?thesis using fit by auto
qed

theorem xtlv_roundtrip_witness:
  "\<exists>buf'. brcmf_xtlv_pack_header (replicate 8 9) 0x42 3 (Some [1, 2, 3]) 3 = Some buf'
    \<and> xtlv_read 3 buf' = (0x42, 3, [1, 2, 3])"
proof -
  have "brcmf_xtlv_data_size (int (length [1, 2, 3 :: u8])) 3 \<le> int (length (replicate 8 (9 :: u8)))"
    by code_simp
  moreover have "length [1, 2, 3 :: u8] < (if bit (3 :: u16) 2 then 2 ^ 8 else 2 ^ 16)" by simp
  moreover have "bit (3 :: u16) 1 \<longrightarrow> (0x42 :: u16) AND 0xff = 0x42" by simp
  ultimately show ?thesis
    using xtlv_roundtrip [where src = "[1, 2, 3]" and opts = 3 and buf = "replicate 8 9" and i = "0x42"] by auto
qed

end
