(* ===== verification/Fwil.thy ===== *)
theory Fwil
  imports Xtlv
begin

text \<open>
  The firmware interface layer of \<open>fwil.c\<close>: requests to the firmware's named variables are laid out
  in the driver's \<open>proto_buf\<close> and handed to the protocol layer.

  The protocol layer is reached through function pointers, so \<open>set_dcmd\<close> and \<open>query_dcmd\<close> are a
  parameter here (\<open>dcmd\<close>, told apart by its first argument); they get the interface index, the
  command, the buffer and a length, and return their error, the firmware's error, the buffer as they
  left it and their own new state. Buffers are lists of bytes; a copy outside one is
  \<open>None\<close>. Debug output and the mutex are not modelled.
\<close>

section \<open>State and parameter\<close>

type_synonym 's dcmd_fn =
  "bool \<Rightarrow> int \<Rightarrow> u32 \<Rightarrow> u8 list option \<Rightarrow> u32 \<Rightarrow> 's \<Rightarrow> int \<times> int \<times> u8 list option \<times> 's"

record fil_if =
  bus_up :: bool
  ifidx :: int
  bsscfgidx :: u32
  fwil_fwerr :: bool

abbreviation BRCMF_DCMD_MAXLEN :: u32 where "BRCMF_DCMD_MAXLEN \<equiv> 8192"
abbreviation BRCMF_C_GET_VAR :: u32 where "BRCMF_C_GET_VAR \<equiv> 262"
abbreviation BRCMF_C_SET_VAR :: u32 where "BRCMF_C_SET_VAR \<equiv> 263"

section \<open>Commands\<close>

definition brcmf_fil_cmd_data ::
  "'s dcmd_fn \<Rightarrow> fil_if \<Rightarrow> u32 \<Rightarrow> u8 list option \<Rightarrow> u32 \<Rightarrow> bool \<Rightarrow> 's \<Rightarrow> int \<times> u8 list option \<times> 's" where
  "brcmf_fil_cmd_data dcmd ifp cmd data len is_set s =
     (if \<not> bus_up ifp then (-5, data, s)
      else
        let len = (if data \<noteq> None then min len BRCMF_DCMD_MAXLEN else len);
            (err, fwerr, data, s) = dcmd is_set (ifidx ifp) cmd data len s;
            err = (if err \<noteq> 0 then err else if fwerr < 0 then -52 else err)
        in (if fwil_fwerr ifp then fwerr else err, data, s))"

definition brcmf_fil_cmd_data_set ::
  "'s dcmd_fn \<Rightarrow> fil_if \<Rightarrow> u32 \<Rightarrow> u8 list option \<Rightarrow> u32 \<Rightarrow> 's \<Rightarrow> int \<times> u8 list option \<times> 's" where
  "brcmf_fil_cmd_data_set dcmd ifp cmd data len s = brcmf_fil_cmd_data dcmd ifp cmd data len True s"

definition brcmf_fil_cmd_data_get ::
  "'s dcmd_fn \<Rightarrow> fil_if \<Rightarrow> u32 \<Rightarrow> u8 list option \<Rightarrow> u32 \<Rightarrow> 's \<Rightarrow> int \<times> u8 list option \<times> 's" where
  "brcmf_fil_cmd_data_get dcmd ifp cmd data len s = brcmf_fil_cmd_data dcmd ifp cmd data len False s"

section \<open>Request layouts\<close>

text \<open>Copies \<open>n\<close> bytes from an array, undefined for a NULL pointer and beyond its end.\<close>

definition copy_from :: "u8 list option \<Rightarrow> u32 \<Rightarrow> u8 list option" where
  "copy_from data n = (case data of None \<Rightarrow> None | Some src \<Rightarrow> read_bytes src 0 (unat n))"

definition brcmf_create_iovar ::
  "string \<Rightarrow> u8 list option \<Rightarrow> u32 \<Rightarrow> u8 list \<Rightarrow> u32 \<Rightarrow> (u32 \<times> u8 list) option" where
  "brcmf_create_iovar name data datalen buf buflen =
     (let len = of_nat (length name) + 1 in
      if buflen < len + datalen then Some (0, buf)
      else do {
        buf \<leftarrow> write_bytes buf 0 (str_bytes name @ [0]);
        buf \<leftarrow> (if data \<noteq> None \<and> datalen \<noteq> 0 then do {
                 src \<leftarrow> copy_from data datalen;
                 write_bytes buf (unat len) src }
               else Some buf);
        Some (len + datalen, buf) })"

definition brcmf_create_bsscfg ::
  "u32 \<Rightarrow> string \<Rightarrow> u8 list option \<Rightarrow> u32 \<Rightarrow> u8 list \<Rightarrow> u32 \<Rightarrow> (u32 \<times> u8 list) option" where
  "brcmf_create_bsscfg idx name data datalen buf buflen =
     (if idx = 0 then brcmf_create_iovar name data datalen buf buflen
      else
        let prefixlen = of_nat (length ''bsscfg:'');
            namelen = of_nat (length name) + 1;
            iolen = prefixlen + namelen + 4 + datalen
        in if buflen < iolen then Some (0, buf)
        else do {
          buf \<leftarrow> write_bytes buf 0 (str_bytes ''bsscfg:'');
          let p = unat (prefixlen :: u32);
          buf \<leftarrow> write_bytes buf p (str_bytes name @ [0]);
          let p = p + unat (namelen :: u32);
          buf \<leftarrow> write_bytes buf p (le32 idx);
          let p = p + 4;
          buf \<leftarrow> (if datalen \<noteq> 0 then do {
                   src \<leftarrow> copy_from data datalen;
                   write_bytes buf p src }
                 else Some buf);
          Some (iolen, buf) })"

text \<open>The packer gets the rest of the buffer behind the name; its length argument is 16 bits wide.\<close>

definition brcmf_create_xtlv ::
  "string \<Rightarrow> u16 \<Rightarrow> u8 list option \<Rightarrow> u32 \<Rightarrow> u8 list \<Rightarrow> u32 \<Rightarrow> (u32 \<times> u8 list) option" where
  "brcmf_create_xtlv name i data len buf buflen =
     (let nmlen = of_nat (length name) + 1;
          iolen = nmlen + of_int (brcmf_xtlv_data_size (sint len) BRCMF_XTLV_OPTION_ALIGN32)
      in if buflen < iolen then Some (0, buf)
      else do {
        buf \<leftarrow> write_bytes buf 0 (str_bytes name @ [0]);
        rest \<leftarrow> brcmf_xtlv_pack_header (drop (unat nmlen) buf) i (ucast len) data BRCMF_XTLV_OPTION_ALIGN32;
        Some (iolen, take (unat nmlen) buf @ rest) })"

section \<open>Variables\<close>

text \<open>The state of these operations is the driver's \<open>proto_buf\<close> and the protocol layer's own state.
  The three setters and the three getters differ only in the layout they build.\<close>

definition fil_set ::
  "(u8 list \<Rightarrow> u32 \<Rightarrow> (u32 \<times> u8 list) option) \<Rightarrow> 's dcmd_fn \<Rightarrow> fil_if \<Rightarrow> u8 list \<times> 's
     \<Rightarrow> (int \<times> u8 list \<times> 's) option" where
  "fil_set create dcmd ifp st = do {
     let (proto_buf, s) = st;
     (buflen, proto_buf) \<leftarrow> create proto_buf (of_nat (length proto_buf));
     if buflen \<noteq> 0 then
       let (err, buf, s) = brcmf_fil_cmd_data dcmd ifp BRCMF_C_SET_VAR (Some proto_buf) buflen True s
       in Some (err, (case buf of Some b \<Rightarrow> b | None \<Rightarrow> proto_buf), s)
     else Some (-1, proto_buf, s) }"

definition fil_get ::
  "(u8 list \<Rightarrow> u32 \<Rightarrow> (u32 \<times> u8 list) option) \<Rightarrow> u8 list \<Rightarrow> u32 \<Rightarrow> 's dcmd_fn \<Rightarrow> fil_if \<Rightarrow> u8 list \<times> 's
     \<Rightarrow> (int \<times> u8 list \<times> u8 list \<times> 's) option" where
  "fil_get create data len dcmd ifp st = do {
     let (proto_buf, s) = st;
     (buflen, proto_buf) \<leftarrow> create proto_buf (of_nat (length proto_buf));
     if buflen \<noteq> 0 then do {
       let (err, buf, s) = brcmf_fil_cmd_data dcmd ifp BRCMF_C_GET_VAR (Some proto_buf) buflen False s;
       let proto_buf = (case buf of Some b \<Rightarrow> b | None \<Rightarrow> proto_buf);
       if err = 0 then do {
         res \<leftarrow> read_bytes proto_buf 0 (unat len);
         data \<leftarrow> write_bytes data 0 res;
         Some (err, data, proto_buf, s) }
       else Some (err, data, proto_buf, s) }
     else Some (-1, data, proto_buf, s) }"

definition brcmf_fil_iovar_data_set where
  "brcmf_fil_iovar_data_set dcmd ifp name data len =
     fil_set (brcmf_create_iovar name data len) dcmd ifp"

definition brcmf_fil_iovar_data_get where
  "brcmf_fil_iovar_data_get dcmd ifp name data len =
     fil_get (brcmf_create_iovar name (Some data) len) data len dcmd ifp"

definition brcmf_fil_bsscfg_data_set where
  "brcmf_fil_bsscfg_data_set dcmd ifp name data len =
     fil_set (brcmf_create_bsscfg (bsscfgidx ifp) name data len) dcmd ifp"

definition brcmf_fil_bsscfg_data_get where
  "brcmf_fil_bsscfg_data_get dcmd ifp name data len =
     fil_get (brcmf_create_bsscfg (bsscfgidx ifp) name (Some data) len) data len dcmd ifp"

definition brcmf_fil_xtlv_data_set where
  "brcmf_fil_xtlv_data_set dcmd ifp name i data len =
     fil_set (brcmf_create_xtlv name i data len) dcmd ifp"

definition brcmf_fil_xtlv_data_get where
  "brcmf_fil_xtlv_data_get dcmd ifp name i data len =
     fil_get (brcmf_create_xtlv name i (Some data) len) data len dcmd ifp"

section \<open>Integer variables\<close>

text \<open>The inline helpers of \<open>fwil.h\<close> exchange a 32-bit integer as four little-endian bytes. In the
  getters \<open>data\<close> is the in-out word.\<close>

definition le32_word :: "u8 list \<Rightarrow> u32" where
  "le32_word bs = of_le32 (bs ! 0) (bs ! 1) (bs ! 2) (bs ! 3)"

definition int_result :: "(int \<times> u8 list \<times> 'r) option \<Rightarrow> (int \<times> u32 \<times> 'r) option" where
  "int_result r = map_option (\<lambda>(err, bs, st). (err, le32_word bs, st)) r"

definition brcmf_fil_iovar_int_set where
  "brcmf_fil_iovar_int_set dcmd ifp name (v :: u32) =
     brcmf_fil_iovar_data_set dcmd ifp name (Some (le32 v)) 4"

definition brcmf_fil_iovar_int_get where
  "brcmf_fil_iovar_int_get dcmd ifp name (v :: u32) st =
     int_result (brcmf_fil_iovar_data_get dcmd ifp name (le32 v) 4 st)"

definition brcmf_fil_bsscfg_int_set where
  "brcmf_fil_bsscfg_int_set dcmd ifp name (v :: u32) =
     brcmf_fil_bsscfg_data_set dcmd ifp name (Some (le32 v)) 4"

definition brcmf_fil_bsscfg_int_get where
  "brcmf_fil_bsscfg_int_get dcmd ifp name (v :: u32) st =
     int_result (brcmf_fil_bsscfg_data_get dcmd ifp name (le32 v) 4 st)"

section \<open>What a request looks like\<close>

text \<open>The layouts as bytes: the reference the three builders are compared with.\<close>

definition iovar_layout :: "string \<Rightarrow> u8 list \<Rightarrow> u8 list" where
  "iovar_layout name bs = str_bytes name @ [0] @ bs"

definition bsscfg_layout :: "u32 \<Rightarrow> string \<Rightarrow> u8 list \<Rightarrow> u8 list" where
  "bsscfg_layout idx name bs =
     (if idx = 0 then iovar_layout name bs
      else str_bytes ''bsscfg:'' @ iovar_layout name (le32 idx @ bs))"

definition xtlv_layout :: "string \<Rightarrow> u16 \<Rightarrow> u8 list \<Rightarrow> u8 list" where
  "xtlv_layout name i bs = iovar_layout name (le16 i @ le16 (of_nat (length bs)) @ bs)"

lemma read_bytes_all: "read_bytes src 0 (length src) = Some src"
  by (simp add: read_bytes_def)

lemma write_prefix:
  "length xs \<le> length buf \<Longrightarrow> write_bytes buf 0 xs = Some (xs @ drop (length xs) buf)"
  by (simp add: write_bytes_def)

lemma write_after:
  "length ys \<le> length buf \<Longrightarrow> write_bytes (xs @ buf) (length xs) ys = Some (xs @ ys @ drop (length ys) buf)"
  by (simp add: write_bytes_def)

lemma unat_add_small:
  fixes a b :: u32
  assumes "unat a + unat b < 2 ^ 32"
  shows "unat (a + b) = unat a + unat b"
  using assms by (simp add: unat_word_ariths)

lemma unat_of_nat_small: "n < 2 ^ 32 \<Longrightarrow> unat (of_nat n :: u32) = n"
  by (simp add: unat_of_nat take_bit_nat_eq_self)

text \<open>A builder either refuses, returning zero with the buffer as it was, or writes its layout at the
  start of the buffer and returns the layout's length. Lengths are below \<open>2 ^ 31\<close>, so that the
  32-bit sums the code compares with the buffer length do not wrap.\<close>

definition builds :: "(u8 list \<Rightarrow> u32 \<Rightarrow> (u32 \<times> u8 list) option) \<Rightarrow> u8 list \<Rightarrow> nat \<Rightarrow> bool" where
  "builds create layout pad \<longleftrightarrow> (\<forall>buf. length buf < 2 ^ 31 \<longrightarrow>
     create buf (of_nat (length buf)) =
       (if length buf < length layout + pad then Some (0, buf)
        else Some (of_nat (length layout + pad), layout @ drop (length layout) buf)))"

lemma iovar_builds:
  assumes "length name < 2 ^ 30" and "length src < 2 ^ 30"
  shows "builds (brcmf_create_iovar name (Some src) (of_nat (length src))) (iovar_layout name src) 0"
  unfolding builds_def
proof (intro allI impI)
  fix buf :: "u8 list" assume b: "length buf < 2 ^ 31"
  have n: "unat (of_nat (length name) + 1 :: u32) = length name + 1"
    using assms unat_of_nat_small [of "length name + 1"] by (simp add: add.commute)
  have s: "unat (of_nat (length src) :: u32) = length src" using assms by (intro unat_of_nat_small) simp
  have t: "unat (of_nat (length name) + 1 + of_nat (length src) :: u32) = length name + 1 + length src"
    using assms n s unat_add_small [of "of_nat (length name) + 1" "of_nat (length src)"] by simp
  have bl: "unat (of_nat (length buf) :: u32) = length buf" using b by (intro unat_of_nat_small) simp
  have lt: "(of_nat (length buf) :: u32) < of_nat (length name) + 1 + of_nat (length src)
      \<longleftrightarrow> length buf < length (iovar_layout name src)"
    by (simp add: word_less_nat_alt t bl iovar_layout_def)
  show "brcmf_create_iovar name (Some src) (of_nat (length src)) buf (of_nat (length buf)) =
       (if length buf < length (iovar_layout name src) + 0 then Some (0, buf)
        else Some (of_nat (length (iovar_layout name src) + 0),
          iovar_layout name src @ drop (length (iovar_layout name src)) buf))"
  proof (cases "length buf < length (iovar_layout name src)")
    case True
    with lt show ?thesis by (simp add: brcmf_create_iovar_def)
  next
    case False
    then have fit: "length name + 1 + length src \<le> length buf" by (simp add: iovar_layout_def)
    let ?n = "str_bytes name @ [0]"
    have w: "write_bytes buf 0 ?n = Some (?n @ drop (length ?n) buf)"
      using fit by (intro write_prefix) simp
    have w2: "write_bytes (?n @ drop (length ?n) buf) (length name + 1) src
        = Some (?n @ src @ drop (length src) (drop (length ?n) buf))"
      using fit write_after [of src "drop (length ?n) buf" ?n] by simp
    have z: "of_nat (length src) = (0 :: u32) \<longleftrightarrow> src = []"
      unfolding word_unat_eq_iff s by simp
    have ret: "of_nat (length name) + 1 + of_nat (length src)
        = (of_nat (length (iovar_layout name src) + 0) :: u32)"
      by (simp add: iovar_layout_def)
    have c: "brcmf_create_iovar name (Some src) (of_nat (length src)) buf (of_nat (length buf))
        = Some (of_nat (length name) + 1 + of_nat (length src), ?n @ src @ drop (length src) (drop (length ?n) buf))"
    proof (cases "src = []")
      case True
      then show ?thesis using False lt w by (simp add: brcmf_create_iovar_def Let_def)
    next
      case ne: False
      then show ?thesis
        using False lt w w2
        by (simp add: brcmf_create_iovar_def Let_def n s z copy_from_def read_bytes_all)
    qed
    show ?thesis unfolding c ret using False by (simp add: iovar_layout_def add.commute)
  qed
qed

lemma bsscfg_builds:
  assumes "length name < 2 ^ 30" and "length src < 2 ^ 30"
  shows "builds (brcmf_create_bsscfg idx name (Some src) (of_nat (length src))) (bsscfg_layout idx name src) 0"
proof (cases "idx = 0")
  case True
  then show ?thesis using iovar_builds [OF assms]
    by (simp add: builds_def brcmf_create_bsscfg_def bsscfg_layout_def)
next
  case False
  let ?l = "bsscfg_layout idx name src"
  have len: "length ?l = 7 + (length name + 1) + 4 + length src"
    using False by (simp add: bsscfg_layout_def iovar_layout_def)
  have n: "unat (of_nat (length name) + 1 :: u32) = length name + 1"
    using assms unat_of_nat_small [of "length name + 1"] by (simp add: add.commute)
  have s: "unat (of_nat (length src) :: u32) = length src" using assms by (intro unat_of_nat_small) simp
  have z: "of_nat (length src) = (0 :: u32) \<longleftrightarrow> src = []" unfolding word_unat_eq_iff s by simp
  have iolen: "of_nat (length ''bsscfg:'') + (of_nat (length name) + 1) + 4 + of_nat (length src)
      = (of_nat (length ?l) :: u32)"
    unfolding len by simp
  have t: "unat (of_nat (length ?l) :: u32) = length ?l"
    using assms len by (intro unat_of_nat_small) simp
  show ?thesis
    unfolding builds_def
  proof (intro allI impI)
    fix buf :: "u8 list" assume b: "length buf < 2 ^ 31"
    have bl: "unat (of_nat (length buf) :: u32) = length buf" using b by (intro unat_of_nat_small) simp
    have lt: "(of_nat (length buf) :: u32) < of_nat (length ?l) \<longleftrightarrow> length buf < length ?l"
      by (simp add: word_less_nat_alt t bl)
    have w: "write_bytes buf 0 (str_bytes ''bsscfg:'') \<bind> (\<lambda>buf. write_bytes buf 7 (str_bytes name @ [0])
          \<bind> (\<lambda>buf. write_bytes buf (7 + (length name + 1)) (le32 idx)
          \<bind> (\<lambda>buf. (if src \<noteq> [] then write_bytes buf (7 + (length name + 1) + 4) src else Some buf)
          \<bind> (\<lambda>buf. Some (of_nat (length ?l) :: u32, buf)))))
        = write_bytes buf 0 ?l \<bind> (\<lambda>buf. Some (of_nat (length ?l), buf))"
      using False
      by (cases "src = []") (simp_all add: write_bytes_bind bsscfg_layout_def iovar_layout_def
          del: append_Cons)
    have p: "unat (of_nat (length ''bsscfg:'') :: u32) = 7" by simp
    have c: "copy_from (Some src) (of_nat (length src)) = Some src"
      by (simp add: copy_from_def s read_bytes_all)
    show "brcmf_create_bsscfg idx name (Some src) (of_nat (length src)) buf (of_nat (length buf)) =
       (if length buf < length ?l + 0 then Some (0, buf)
        else Some (of_nat (length ?l + 0), ?l @ drop (length ?l) buf))"
      using False lt w write_prefix [of ?l buf]
      unfolding brcmf_create_bsscfg_def iolen Let_def p n c z Option.bind.simps(2) by auto
  qed
qed

definition xtlv_pad :: "u8 list \<Rightarrow> nat" where
  "xtlv_pad src = nat (brcmf_xtlv_data_size (int (length src)) 1) - (4 + length src)"

lemma xtlv_builds:
  assumes "length name < 2 ^ 30" and "length src < 2 ^ 16"
  shows "builds (brcmf_create_xtlv name i (Some src) (of_nat (length src))) (xtlv_layout name i src) (xtlv_pad src)"
proof -
  let ?l = "xtlv_layout name i src" and ?ds = "brcmf_xtlv_data_size (int (length src)) 1"
  have hs: "brcmf_xtlv_header_size 1 = 4" by (simp add: brcmf_xtlv_header_size_def)
  have ds: "int (4 + length src + xtlv_pad src) = ?ds" "xtlv_pad src < 4"
    using data_size_bounds(1,2) [of "int (length src)" 1] hs by (simp_all add: xtlv_pad_def)
  have len: "length ?l = length name + 1 + 4 + length src"
    by (simp add: xtlv_layout_def iovar_layout_def)
  have n: "unat (of_nat (length name) + 1 :: u32) = length name + 1"
    using assms unat_of_nat_small [of "length name + 1"] by (simp add: add.commute)
  have si: "sint (of_nat (length src) :: u32) = int (length src)"
    using assms(2) by (simp add: signed_of_nat signed_take_bit_int_eq_self)
  have io: "of_nat (length name) + 1 + of_int ?ds = (of_nat (length ?l + xtlv_pad src) :: u32)"
    unfolding ds(1) [symmetric] len by simp
  have t: "unat (of_nat (length ?l + xtlv_pad src) :: u32) = length ?l + xtlv_pad src"
    using assms len ds(2) by (intro unat_of_nat_small) simp
  have u: "ucast (of_nat (length src) :: u32) = (of_nat (length src) :: u16)"
    by (rule bit_word_eqI) (auto simp: bit_simps)
  have us: "unat (of_nat (length src) :: u16) = length src"
    using assms(2) by (simp add: unat_of_nat take_bit_nat_eq_self)
  show ?thesis
    unfolding builds_def
  proof (intro allI impI)
    fix buf :: "u8 list" assume b: "length buf < 2 ^ 31"
    have bl: "unat (of_nat (length buf) :: u32) = length buf" using b by (intro unat_of_nat_small) simp
    have lt: "(of_nat (length buf) :: u32) < of_nat (length ?l + xtlv_pad src)
        \<longleftrightarrow> length buf < length ?l + xtlv_pad src"
      by (simp add: word_less_nat_alt t bl del: of_nat_add)
    show "brcmf_create_xtlv name i (Some src) (of_nat (length src)) buf (of_nat (length buf)) =
       (if length buf < length ?l + xtlv_pad src then Some (0, buf)
        else Some (of_nat (length ?l + xtlv_pad src), ?l @ drop (length ?l) buf))"
    proof (cases "length buf < length ?l + xtlv_pad src")
      case True
      then show ?thesis using lt io si by (simp add: brcmf_create_xtlv_def Let_def)
    next
      case False
      let ?n = "str_bytes name @ [0]"
      let ?p = "xtlv_header 1 i (of_nat (length src)) @ src"
      have w: "write_bytes buf 0 ?n = Some (?n @ drop (length ?n) buf)"
        using False len by (intro write_prefix) simp
      have hd: "length (xtlv_header 1 i (of_nat (length src))) = 4" using length_xtlv_header hs by (metis of_nat_eq_iff of_nat_numeral)
      have "write_bytes (drop (length ?n) buf) 0 ?p = Some (?p @ drop (length ?p) (drop (length ?n) buf))"
        using False len hd by (intro write_prefix) simp
      then have pk: "brcmf_xtlv_pack_header (drop (length ?n) buf) i (of_nat (length src)) (Some src) 1
          = Some (?p @ drop (length ?p) (drop (length ?n) buf))"
        by (simp add: pack_header_eq Let_def us)
      have l: "?l = ?n @ ?p" by (simp add: xtlv_layout_def iovar_layout_def xtlv_header_def)
      let ?t = "drop (length ?n) buf"
      have d: "drop (length name + 1) (?n @ ?t) = ?t" "take (length name + 1) (?n @ ?t) = ?n" by simp_all
      have "brcmf_create_xtlv name i (Some src) (of_nat (length src)) buf (of_nat (length buf))
          = Some (of_nat (length ?l + xtlv_pad src), ?n @ ?p @ drop (length ?p) ?t)"
        unfolding brcmf_create_xtlv_def Let_def si n u io w Option.bind.simps(2) d pk
        using False lt by simp
      moreover have "?n @ ?p @ drop (length ?p) ?t = ?l @ drop (length ?l) buf"
        unfolding l by (simp add: add.commute add.left_commute)
      ultimately show ?thesis using False by simp
    qed
  qed
qed

section \<open>The interface of the request builders\<close>

text \<open>What the setters and getters rely on of a builder: it lays its request out as promised.\<close>

locale request_builder =
  fixes create :: "string \<Rightarrow> u8 list option \<Rightarrow> u32 \<Rightarrow> u8 list \<Rightarrow> u32 \<Rightarrow> (u32 \<times> u8 list) option"
    and layout :: "string \<Rightarrow> u8 list \<Rightarrow> u8 list"
    and pad :: "u8 list \<Rightarrow> nat"
  assumes lays_out: "length name < 2 ^ 30 \<Longrightarrow> length src < 2 ^ 16 \<Longrightarrow>
      builds (create name (Some src) (of_nat (length src))) (layout name src) (pad src)"
    and pad_small: "pad src < 4"
    and size: "length name + length src < length (layout name src)"
begin

lemma create_eq:
  assumes "length name < 2 ^ 30" and "length src < 2 ^ 16" and "length buf < 2 ^ 31"
  shows "create name (Some src) (of_nat (length src)) buf (of_nat (length buf)) =
       (if length buf < length (layout name src) + pad src then Some (0, buf)
        else Some (of_nat (length (layout name src) + pad src),
          layout name src @ drop (length (layout name src)) buf))"
  using lays_out [OF assms(1,2)] assms(3) by (simp add: builds_def)

lemma returned_length:
  assumes "length buf < 2 ^ 31" and "length (layout name src) + pad src \<le> length buf"
  shows "of_nat (length (layout name src) + pad src) \<noteq> (0 :: u32)"
proof -
  have "unat (of_nat (length (layout name src) + pad src) :: u32) = length (layout name src) + pad src"
    using assms by (intro unat_of_nat_small) simp
  with size [of name src] show ?thesis by (metis add_gr_0 gr_implies_not0 unat_0 not_gr_zero)
qed

lemma set_too_long:
  assumes "length name < 2 ^ 30" and "length src < 2 ^ 16" and "length buf < 2 ^ 31"
    and "length buf < length (layout name src) + pad src"
  shows "fil_set (create name (Some src) (of_nat (length src))) dcmd ifp (buf, s) = Some (-1, buf, s)"
  using assms by (simp add: fil_set_def create_eq)

lemma set_sends:
  assumes "length name < 2 ^ 30" and "length src < 2 ^ 16" and "length buf < 2 ^ 31"
    and "length (layout name src) + pad src \<le> length buf"
  shows "fil_set (create name (Some src) (of_nat (length src))) dcmd ifp (buf, s) =
    (let req = layout name src @ drop (length (layout name src)) buf;
         (err, b, s) = brcmf_fil_cmd_data dcmd ifp BRCMF_C_SET_VAR (Some req)
           (of_nat (length (layout name src) + pad src)) True s
     in Some (err, (case b of Some b \<Rightarrow> b | None \<Rightarrow> req), s))"
  using assms(4) create_eq [OF assms(1-3)] returned_length [OF assms(3,4)]
  by (simp add: fil_set_def Let_def del: of_nat_add)

lemma get_sends:
  assumes "length name < 2 ^ 30" and "length src < 2 ^ 16" and "length buf < 2 ^ 31"
    and "length (layout name src) + pad src \<le> length buf"
    and "brcmf_fil_cmd_data dcmd ifp BRCMF_C_GET_VAR (Some (layout name src @ drop (length (layout name src)) buf))
           (of_nat (length (layout name src) + pad src)) False s = (err, Some rep, s')"
    and "length src \<le> length rep"
  shows "fil_get (create name (Some src) (of_nat (length src))) src (of_nat (length src)) dcmd ifp (buf, s)
    = Some (err, if err = 0 then take (length src) rep else src, rep, s')"
proof -
  have "unat (of_nat (length src) :: u32) = length src" using assms(2) by (intro unat_of_nat_small) simp
  then show ?thesis
    using assms(4-6) create_eq [OF assms(1-3)] returned_length [OF assms(3,4)]
    by (simp add: fil_get_def read_bytes_def write_bytes_def del: of_nat_add)
qed

end

interpretation iovar: request_builder brcmf_create_iovar iovar_layout "\<lambda>_. 0"
  by unfold_locales (auto intro: iovar_builds, simp add: iovar_layout_def)

interpretation bsscfg: request_builder "brcmf_create_bsscfg idx" "bsscfg_layout idx" "\<lambda>_. 0" for idx
  by unfold_locales (auto intro: bsscfg_builds, simp add: bsscfg_layout_def iovar_layout_def)

lemma xtlv_pad_small: "xtlv_pad src < 4"
  using data_size_bounds(2) [of "int (length src)" 1]
  by (simp add: xtlv_pad_def brcmf_xtlv_header_size_def)

interpretation xtlv: request_builder "\<lambda>name. brcmf_create_xtlv name i" "\<lambda>name. xtlv_layout name i" xtlv_pad for i
  by unfold_locales (auto intro: xtlv_builds xtlv_pad_small, simp add: xtlv_layout_def iovar_layout_def)

section \<open>Properties\<close>

text \<open>C6: A set request that fits \<open>proto_buf\<close> reaches the protocol layer exactly once, as a
  \<open>SET_VAR\<close> for the interface, with the variable's name, its NUL, the configuration index where it
  is not zero and the value laid out at the start of the buffer, and the length of that layout; a
  request that does not fit returns \<open>-EPERM\<close> and touches neither the buffer nor the protocol layer;
  on a bus that is down nothing is sent and the result is \<open>-EIO\<close>.\<close>

theorem fil_set_request:
  assumes "length name < 2 ^ 30" and "length src < 2 ^ 16" and "length buf < 2 ^ 31" and "length buf \<le> 8192"
    and "l = bsscfg_layout (bsscfgidx ifp) name src"
  shows "brcmf_fil_bsscfg_data_set dcmd ifp name (Some src) (of_nat (length src)) (buf, s) =
    (if length buf < length l then Some (-1, buf, s)
     else if \<not> bus_up ifp then Some (-5, l @ drop (length l) buf, s)
     else let (err, fwerr, b, s) = dcmd True (ifidx ifp) BRCMF_C_SET_VAR (Some (l @ drop (length l) buf))
                 (of_nat (length l)) s
          in Some (if fwil_fwerr ifp then fwerr else if err = 0 \<and> fwerr < 0 then -52 else err,
                   case b of Some b \<Rightarrow> b | None \<Rightarrow> l @ drop (length l) buf, s))"
proof (cases "length buf < length l")
  case True
  then show ?thesis
    using bsscfg.set_too_long [OF assms(1-3), of "bsscfgidx ifp"]
    by (simp add: brcmf_fil_bsscfg_data_set_def assms(5))
next
  case False
  have "unat (of_nat (length l) :: u32) = length l" using False assms(4) by (intro unat_of_nat_small) simp
  then have "min (of_nat (length l)) BRCMF_DCMD_MAXLEN = of_nat (length l)"
    using False assms(4) by (simp add: min_def word_le_nat_alt)
  with False show ?thesis
    using bsscfg.set_sends [OF assms(1-3), of "bsscfgidx ifp" dcmd ifp s, folded assms(5)]
    by (auto simp: brcmf_fil_bsscfg_data_set_def brcmf_fil_cmd_data_def Let_def split: prod.splits)
qed

text \<open>A protocol layer for the witnesses: it records the calls and answers with fixed bytes.\<close>

definition dcmd_ex :: "(bool \<times> int \<times> u32 \<times> u8 list option \<times> u32) list dcmd_fn" where
  "dcmd_ex is_set idx cmd data len s =
     (0, 0, (if is_set then data else Some ([0x39, 5, 0, 0] @ replicate 12 0)), s @ [(is_set, idx, cmd, data, len)])"

definition fil_ex :: fil_if where
  "fil_ex = \<lparr>bus_up = True, ifidx = 1, bsscfgidx = 2, fwil_fwerr = False\<rparr>"

theorem fil_set_request_witness:
  "brcmf_fil_bsscfg_data_set dcmd_ex fil_ex ''ap'' (Some [7]) 1 (replicate 16 0, [])
     = Some (0, [98, 115, 115, 99, 102, 103, 58, 97, 112, 0, 2, 0, 0, 0, 7, 0],
         [(True, 1, 263, Some [98, 115, 115, 99, 102, 103, 58, 97, 112, 0, 2, 0, 0, 0, 7, 0], 15)])"
proof -
  have h: "length ''ap'' < 2 ^ 30" "length [7 :: u8] < 2 ^ 16" "length (replicate 16 (0 :: u8)) < 2 ^ 31"
    "length (replicate 16 (0 :: u8)) \<le> 8192" by simp_all
  have l: "bsscfg_layout (bsscfgidx fil_ex) ''ap'' [7] = [98, 115, 115, 99, 102, 103, 58, 97, 112, 0, 2, 0, 0, 0, 7]"
    by code_simp
  from fil_set_request [OF h l [symmetric], of dcmd_ex "[]"] show ?thesis
    by (simp add: dcmd_ex_def fil_ex_def numeral_eq_Suc)
qed

text \<open>An integer variable read with \<open>brcmf_fil_bsscfg_int_get\<close> is the little-endian word the
  firmware put at the start of its reply; when the protocol layer reports an error, or the firmware
  does and the interface does not ask for firmware errors, the caller's word is unchanged and the
  result is that error or \<open>-EBADE\<close>.\<close>

theorem fil_int_get:
  assumes "length name < 2 ^ 30" and "length buf < 2 ^ 31" and "length buf \<le> 8192" and "bus_up ifp"
    and "l = bsscfg_layout (bsscfgidx ifp) name (le32 v)" and "length l \<le> length buf"
    and "dcmd False (ifidx ifp) BRCMF_C_GET_VAR (Some (l @ drop (length l) buf)) (of_nat (length l)) s
      = (err, fwerr, Some (le32 w @ rep), s')"
    and "res = (if fwil_fwerr ifp then fwerr else if err = 0 \<and> fwerr < 0 then -52 else err)"
  shows "brcmf_fil_bsscfg_int_get dcmd ifp name v (buf, s)
    = Some (res, if res = 0 then w else v, le32 w @ rep, s')"
proof -
  have w: "le32_word (le32 w @ xs) = w" "le32_word (le32 w) = w" for w xs
    by (simp_all add: le32_word_def le32_def)
  have "unat (of_nat (length l) :: u32) = length l" using assms(3,6) by (intro unat_of_nat_small) simp
  then have "min (of_nat (length l)) BRCMF_DCMD_MAXLEN = of_nat (length l)"
    using assms(3,6) by (simp add: min_def word_le_nat_alt)
  then have cmd: "brcmf_fil_cmd_data dcmd ifp BRCMF_C_GET_VAR (Some (l @ drop (length l) buf)) (of_nat (length l + 0)) False s
      = (res, Some (le32 w @ rep), s')"
    using assms(4,7,8) by (simp add: brcmf_fil_cmd_data_def Let_def)
  have h: "length (le32 v) < 2 ^ 16" "length l + 0 \<le> length buf" "length (le32 v) \<le> length (le32 w @ rep)"
    using assms(6) by simp_all
  from bsscfg.get_sends [OF assms(1) h(1) assms(2) h(2) [unfolded assms(5)] cmd [unfolded assms(5)] h(3)]
  show ?thesis by (simp add: brcmf_fil_bsscfg_int_get_def brcmf_fil_bsscfg_data_get_def int_result_def w)
qed

theorem fil_int_get_witness:
  "\<exists>b s. brcmf_fil_bsscfg_int_get dcmd_ex fil_ex ''ap'' 0 (replicate 18 0, []) = Some (0, 0x539, b, s)"
proof -
  let ?l = "bsscfg_layout (bsscfgidx fil_ex) ''ap'' (le32 0)"
  have len: "length ?l = 18" by code_simp
  have h: "length ''ap'' < 2 ^ 30" "length (replicate 18 (0 :: u8)) < 2 ^ 31" "length (replicate 18 (0 :: u8)) \<le> 8192"
    "bus_up fil_ex" "length ?l \<le> length (replicate 18 (0 :: u8))" using len by (simp_all add: fil_ex_def)
  have le: "le32 0x539 = [0x39, 5, 0, 0]" by code_simp
  have d: "dcmd_ex False (ifidx fil_ex) BRCMF_C_GET_VAR (Some (?l @ drop (length ?l) (replicate 18 0)))
      (of_nat (length ?l)) [] = (0, 0, Some (le32 0x539 @ replicate 12 0),
        [(False, ifidx fil_ex, BRCMF_C_GET_VAR, Some (?l @ drop (length ?l) (replicate 18 0)), of_nat (length ?l))])"
    unfolding le by (simp add: dcmd_ex_def)
  have r: "(0 :: int) = (if fwil_fwerr fil_ex then 0 else if (0 :: int) = 0 \<and> (0 :: int) < 0 then - 52 else 0)"
    by simp
  have l: "?l = bsscfg_layout (bsscfgidx fil_ex) ''ap'' (le32 0)" ..
  note fil_int_get [where name = "''ap''" and buf = "replicate 18 0" and ifp = fil_ex and l = ?l and v = 0
      and dcmd = dcmd_ex and s = "[]" and err = 0 and fwerr = 0 and w = "0x539" and rep = "replicate 12 0"
      and res = 0, OF h(1-4) l h(5) d r]
  then show ?thesis by auto
qed

end
