(* ===== verification/Bcdc.thy ===== *)
theory Bcdc
  imports Prelude "HOL-Library.Monad_Syntax"
begin

text \<open>
  The BCDC protocol of \<open>bcdc.c\<close>, used over SDIO and USB: control requests and replies, and the
  four-byte header of data packets.

  A request and its reply share one buffer, the 16-byte command header directly followed by the data,
  which is one list of bytes here (\<open>wire\<close>). The bus operations \<open>brcmf_bus_txctl\<close> and
  \<open>brcmf_bus_rxctl\<close> are parameters; the receive operation returns its result and the bytes it wrote
  at the start of the shared buffer. The loop that waits for the matching reply need not end: it is a
  partial function, and \<open>None\<close> is either that or a copy outside a buffer.
\<close>

section \<open>Control messages\<close>

record bcdc =
  reqid :: u16
  wire :: "u8 list"

type_synonym 's txctl_fn = "u8 list \<Rightarrow> 's \<Rightarrow> int \<times> 's"
type_synonym 's rxctl_fn = "u32 \<Rightarrow> 's \<Rightarrow> int \<times> u8 list \<times> 's"

abbreviation BCDC_DCMD_ERROR :: u32 where "BCDC_DCMD_ERROR \<equiv> 0x01"
abbreviation BCDC_DCMD_SET :: u32 where "BCDC_DCMD_SET \<equiv> 0x02"
abbreviation BCDC_DCMD_IF_MASK :: u32 where "BCDC_DCMD_IF_MASK \<equiv> 0xF000"
abbreviation BCDC_DCMD_ID_MASK :: u32 where "BCDC_DCMD_ID_MASK \<equiv> 0xFFFF0000"
abbreviation BRCMF_TX_IOCTL_MAX_MSG_SIZE :: u32 where "BRCMF_TX_IOCTL_MAX_MSG_SIZE \<equiv> 1518"

text \<open>A little-endian word of the shared buffer.\<close>

definition wire_word :: "u8 list \<Rightarrow> nat \<Rightarrow> u32 option" where
  "wire_word w off = do {
     a \<leftarrow> nth_opt w off; b \<leftarrow> nth_opt w (off + 1); c \<leftarrow> nth_opt w (off + 2); d \<leftarrow> nth_opt w (off + 3);
     Some (of_le32 a b c d) }"

definition BCDC_DCMD_ID :: "u32 \<Rightarrow> u32" where
  "BCDC_DCMD_ID flags = drop_bit 16 (flags AND BCDC_DCMD_ID_MASK)"

definition bcdc_flags :: "u16 \<Rightarrow> u32 \<Rightarrow> bool \<Rightarrow> u32" where
  "bcdc_flags rid ifidx is_set =
     (let flags = push_bit 16 (ucast rid);
          flags = (if is_set then flags OR BCDC_DCMD_SET else flags)
      in (flags AND NOT BCDC_DCMD_IF_MASK) OR push_bit 12 ifidx)"

definition brcmf_proto_bcdc_msg ::
  "'s txctl_fn \<Rightarrow> u32 \<Rightarrow> u32 \<Rightarrow> u8 list option \<Rightarrow> u32 \<Rightarrow> bool \<Rightarrow> bcdc \<times> 's \<Rightarrow> (int \<times> bcdc \<times> 's) option" where
  "brcmf_proto_bcdc_msg txctl ifidx cmd buf len is_set st = do {
     let (b, s) = st;
     let rid = reqid b + 1;
     w \<leftarrow> write_bytes (wire b) 0
       (le32 cmd @ le32 len @ le32 (bcdc_flags rid ifidx is_set) @ le32 0);
     w \<leftarrow> (case buf of None \<Rightarrow> Some w
          | Some src \<Rightarrow> do { bs \<leftarrow> read_bytes src 0 (unat len); write_bytes w 16 bs });
     let len = len + 16;
     let len = (if BRCMF_TX_IOCTL_MAX_MSG_SIZE < len then BRCMF_TX_IOCTL_MAX_MSG_SIZE else len);
     bs \<leftarrow> read_bytes w 0 (unat len);
     let (ret, s) = txctl bs s;
     Some (ret, \<lparr>reqid = rid, wire = w\<rparr>, s) }"

partial_function (option) bcdc_cmplt_loop ::
  "'s rxctl_fn \<Rightarrow> u32 \<Rightarrow> u32 \<Rightarrow> u8 list \<Rightarrow> 's \<Rightarrow> (int \<times> u8 list \<times> 's) option" where
  "bcdc_cmplt_loop rxctl rid len w s = do {
     let (ret, bs, s) = rxctl len s;
     w \<leftarrow> write_bytes w 0 bs;
     if ret < 0 then Some (ret, w, s)
     else do {
       flags \<leftarrow> wire_word w 8;
       if BCDC_DCMD_ID flags \<noteq> rid then bcdc_cmplt_loop rxctl rid len w s
       else Some (ret, w, s) } }"

definition brcmf_proto_bcdc_cmplt ::
  "'s rxctl_fn \<Rightarrow> u32 \<Rightarrow> u32 \<Rightarrow> bcdc \<times> 's \<Rightarrow> (int \<times> bcdc \<times> 's) option" where
  "brcmf_proto_bcdc_cmplt rxctl rid len st = do {
     let (b, s) = st;
     (ret, w, s) \<leftarrow> bcdc_cmplt_loop rxctl rid (len + 16) (wire b) s;
     Some (ret, b\<lparr>wire := w\<rparr>, s) }"

definition bcdc_fwerr :: "u32 \<Rightarrow> u8 list \<Rightarrow> int option" where
  "bcdc_fwerr flags w = (if flags AND BCDC_DCMD_ERROR \<noteq> 0 then map_option sint (wire_word w 12) else Some 0)"

definition bcdc_query_done ::
  "u8 list option \<Rightarrow> u32 \<Rightarrow> int \<Rightarrow> u32 \<Rightarrow> u32 \<Rightarrow> bcdc \<Rightarrow> 's \<Rightarrow> (int \<times> int \<times> u8 list option \<times> bcdc \<times> 's) option" where
  "bcdc_query_done buf len ret rid flags b s =
     (if rid \<noteq> ucast (reqid b) then Some (-22, 0, buf, b, s)
      else do {
        buf \<leftarrow> (case buf of None \<Rightarrow> Some None
             | Some dst \<Rightarrow> do {
                 let n = (if ret < sint len then unat (of_int ret :: u32) else unat len);
                 info \<leftarrow> read_bytes (wire b) 16 n;
                 dst \<leftarrow> write_bytes dst 0 info;
                 Some (Some dst) });
        fwerr \<leftarrow> bcdc_fwerr flags (wire b);
        Some (0, fwerr, buf, b, s) })"

text \<open>The tail of a query after a reply: the \<open>retry\<close> label is reached again while the identifier is
  lower than expected and fewer than two attempts were made, so \<open>retries\<close> bounds the recursion.\<close>

fun bcdc_query_retry ::
  "'s rxctl_fn \<Rightarrow> u8 list option \<Rightarrow> u32 \<Rightarrow> nat \<Rightarrow> bcdc \<times> 's
     \<Rightarrow> (int \<times> int \<times> u8 list option \<times> bcdc \<times> 's) option" where
  "bcdc_query_retry rxctl buf len left st = do {
     (ret, b, s) \<leftarrow> brcmf_proto_bcdc_cmplt rxctl (ucast (reqid (fst st))) len st;
     if ret < 0 then Some (ret, 0, buf, b, s)
     else do {
       flags \<leftarrow> wire_word (wire b) 8;
       let rid = drop_bit 16 (flags AND BCDC_DCMD_ID_MASK);
       case left of
         Suc left' \<Rightarrow> if rid < ucast (reqid b) then bcdc_query_retry rxctl buf len left' (b, s)
                     else bcdc_query_done buf len ret rid flags b s
       | 0 \<Rightarrow> bcdc_query_done buf len ret rid flags b s } }"

definition brcmf_proto_bcdc_query_dcmd ::
  "'s txctl_fn \<Rightarrow> 's rxctl_fn \<Rightarrow> u32 \<Rightarrow> u32 \<Rightarrow> u8 list option \<Rightarrow> u32 \<Rightarrow> bcdc \<times> 's
     \<Rightarrow> (int \<times> int \<times> u8 list option \<times> bcdc \<times> 's) option" where
  "brcmf_proto_bcdc_query_dcmd txctl rxctl ifidx cmd buf len st = do {
     (ret, st) \<leftarrow> brcmf_proto_bcdc_msg txctl ifidx cmd buf len False st;
     if ret < 0 then Some (ret, 0, buf, st)
     else bcdc_query_retry rxctl buf len 1 st }"

definition brcmf_proto_bcdc_set_dcmd ::
  "'s txctl_fn \<Rightarrow> 's rxctl_fn \<Rightarrow> u32 \<Rightarrow> u32 \<Rightarrow> u8 list option \<Rightarrow> u32 \<Rightarrow> bcdc \<times> 's
     \<Rightarrow> (int \<times> int \<times> bcdc \<times> 's) option" where
  "brcmf_proto_bcdc_set_dcmd txctl rxctl ifidx cmd buf len st = do {
     (ret, st) \<leftarrow> brcmf_proto_bcdc_msg txctl ifidx cmd buf len True st;
     if ret < 0 then Some (ret, 0, st)
     else do {
       (ret, b, s) \<leftarrow> brcmf_proto_bcdc_cmplt rxctl (ucast (reqid (fst st))) len st;
       if ret < 0 then Some (ret, 0, b, s)
       else do {
         flags \<leftarrow> wire_word (wire b) 8;
         if drop_bit 16 (flags AND BCDC_DCMD_ID_MASK) \<noteq> ucast (reqid b) then Some (-22, 0, b, s)
         else do {
           fwerr \<leftarrow> bcdc_fwerr flags (wire b);
           Some (0, fwerr, b, s) } } } }"

section \<open>Data packets\<close>

text \<open>A socket buffer: the bytes from its data pointer on, the room before it, and the metadata the
  header code touches.\<close>

datatype csum = CHECKSUM_NONE | CHECKSUM_UNNECESSARY | CHECKSUM_COMPLETE | CHECKSUM_PARTIAL

record sk_buff =
  sk_data :: "u8 list"
  sk_headroom :: nat
  ip_summed :: csum
  sk_priority :: u32

text \<open>\<open>skb_push\<close> panics without headroom, which is \<open>None\<close>; \<open>skb_pull\<close> of more than there is leaves
  the buffer alone.\<close>

definition skb_push :: "u8 list \<Rightarrow> sk_buff \<Rightarrow> sk_buff option" where
  "skb_push hdr skb = (if length hdr \<le> sk_headroom skb
     then Some (skb\<lparr>sk_data := hdr @ sk_data skb, sk_headroom := sk_headroom skb - length hdr\<rparr>) else None)"

definition skb_pull :: "nat \<Rightarrow> sk_buff \<Rightarrow> sk_buff" where
  "skb_pull n skb = (if n \<le> length (sk_data skb)
     then skb\<lparr>sk_data := drop n (sk_data skb), sk_headroom := sk_headroom skb + n\<rparr> else skb)"

abbreviation BCDC_FLAG_SUM_GOOD :: u8 where "BCDC_FLAG_SUM_GOOD \<equiv> 0x04"
abbreviation BCDC_FLAG_SUM_NEEDED :: u8 where "BCDC_FLAG_SUM_NEEDED \<equiv> 0x08"
abbreviation BCDC_FLAG_VER_MASK :: u8 where "BCDC_FLAG_VER_MASK \<equiv> 0xf0"
abbreviation BCDC_FLAG2_IF_MASK :: u8 where "BCDC_FLAG2_IF_MASK \<equiv> 0x0f"
abbreviation BCDC_PRIORITY_MASK :: u32 where "BCDC_PRIORITY_MASK \<equiv> 0x7"

definition bcdc_set_if_idx :: "u8 \<Rightarrow> u32 \<Rightarrow> u8" where
  "bcdc_set_if_idx flags2 idx = ucast ((ucast flags2 AND NOT 0x0f) OR idx)"

definition brcmf_proto_bcdc_hdrpush :: "u32 \<Rightarrow> u8 \<Rightarrow> sk_buff \<Rightarrow> sk_buff option" where
  "brcmf_proto_bcdc_hdrpush ifidx offset pktbuf =
     (let flags = push_bit 4 2;
          flags = (if ip_summed pktbuf = CHECKSUM_PARTIAL then flags OR BCDC_FLAG_SUM_NEEDED else flags);
          priority = ucast (sk_priority pktbuf AND BCDC_PRIORITY_MASK);
          flags2 = bcdc_set_if_idx 0 ifidx
      in skb_push [flags, priority, flags2, offset] pktbuf)"

text \<open>The interface tables of the driver: \<open>if2bss\<close> maps an interface index to a configuration
  index or a negative number, \<open>iflist\<close> maps that to an interface or NULL.\<close>

record 'i if_tables =
  if2bss :: "int list"
  iflist :: "'i option list"

abbreviation BRCMF_MAX_IFS :: int where "BRCMF_MAX_IFS \<equiv> 16"

definition brcmf_get_ifp :: "'i if_tables \<Rightarrow> int \<Rightarrow> 'i option option" where
  "brcmf_get_ifp drvr ifidx =
     (if ifidx < 0 \<or> BRCMF_MAX_IFS \<le> ifidx then Some None
      else do {
        bsscfgidx \<leftarrow> nth_opt (if2bss drvr) (nat ifidx);
        if 0 \<le> bsscfgidx then nth_opt (iflist drvr) (nat bsscfgidx) else Some None })"

text \<open>The result is the return value (zero, \<open>-EBADE\<close> or \<open>-ENODATA\<close>), the interface where it is
  set, and the packet. \<open>fws_hdrpull\<close> is the firmware-signalling layer's handler for the signals
  between the header and the packet.\<close>

definition brcmf_proto_bcdc_hdrpull ::
  "('i \<Rightarrow> nat \<Rightarrow> sk_buff \<Rightarrow> sk_buff option) \<Rightarrow> 'i if_tables \<Rightarrow> bool \<Rightarrow> sk_buff
     \<Rightarrow> (rc \<times> 'i option \<times> sk_buff) option" where
  "brcmf_proto_bcdc_hdrpull fws_hdrpull drvr do_fws pktbuf =
     (if length (sk_data pktbuf) \<le> 4 then Some (ERR EBADE, None, pktbuf)
      else do {
        h_flags \<leftarrow> nth_opt (sk_data pktbuf) 0;
        h_priority \<leftarrow> nth_opt (sk_data pktbuf) 1;
        h_flags2 \<leftarrow> nth_opt (sk_data pktbuf) 2;
        h_data_offset \<leftarrow> nth_opt (sk_data pktbuf) 3;
        tmp_if \<leftarrow> brcmf_get_ifp drvr (uint (h_flags2 AND BCDC_FLAG2_IF_MASK));
        case tmp_if of
          None \<Rightarrow> Some (ERR EBADE, None, pktbuf)
        | Some tmp_if \<Rightarrow>
            if drop_bit 4 (h_flags AND BCDC_FLAG_VER_MASK) \<noteq> 2 then Some (ERR EBADE, None, pktbuf)
            else do {
              let pktbuf = (if h_flags AND BCDC_FLAG_SUM_GOOD \<noteq> 0
                            then pktbuf\<lparr>ip_summed := CHECKSUM_UNNECESSARY\<rparr> else pktbuf);
              let pktbuf = pktbuf\<lparr>sk_priority := ucast h_priority AND BCDC_PRIORITY_MASK\<rparr>;
              let pktbuf = skb_pull 4 pktbuf;
              let off = unat h_data_offset * 4;
              pktbuf \<leftarrow> (if do_fws then fws_hdrpull tmp_if off pktbuf
                         else Some (skb_pull off pktbuf));
              if sk_data pktbuf = [] then Some (ERR ENODATA, None, pktbuf)
              else Some (OK, Some tmp_if, pktbuf) } })"

section \<open>Waiting for the reply\<close>

text \<open>Receiving a message for another request: the loop goes round.\<close>

inductive bcdc_skips :: "'s rxctl_fn \<Rightarrow> u32 \<Rightarrow> u32 \<Rightarrow> u8 list \<times> 's \<Rightarrow> u8 list \<times> 's \<Rightarrow> bool"
  for rxctl rid len where
  skip_refl: "bcdc_skips rxctl rid len (w, s) (w, s)"
| skip_step: "rxctl len s = (ret, bs, s') \<Longrightarrow> 0 \<le> ret \<Longrightarrow> write_bytes w 0 bs = Some w' \<Longrightarrow>
    wire_word w' 8 = Some flags \<Longrightarrow> BCDC_DCMD_ID flags \<noteq> rid \<Longrightarrow>
    bcdc_skips rxctl rid len (w', s') x \<Longrightarrow> bcdc_skips rxctl rid len (w, s) x"

lemma cmplt_loop_skips:
  "bcdc_skips rxctl rid len (w, s) (w', s') \<Longrightarrow>
     bcdc_cmplt_loop rxctl rid len w s = bcdc_cmplt_loop rxctl rid len w' s'"
proof (induction "(w, s)" "(w', s')" arbitrary: w s rule: bcdc_skips.induct)
  case skip_refl
  then show ?case ..
next
  case (skip_step s ret bs s1 w w1 flags)
  then show ?case by (subst bcdc_cmplt_loop.simps) simp
qed

lemma cmplt_loop_match:
  assumes "rxctl len s = (ret, bs, s')" and "write_bytes w 0 bs = Some w'"
    and "0 \<le> ret \<Longrightarrow> \<exists>flags. wire_word w' 8 = Some flags \<and> BCDC_DCMD_ID flags = rid"
  shows "bcdc_cmplt_loop rxctl rid len w s = Some (ret, w', s')"
  using assms by (subst bcdc_cmplt_loop.simps) (auto simp: not_less)

lemma cmplt_loop_result_aux:
  assumes "bcdc_cmplt_loop rxctl rid len w s = Some r"
  shows "0 \<le> fst r \<longrightarrow> (\<exists>flags. wire_word (fst (snd r)) 8 = Some flags \<and> BCDC_DCMD_ID flags = rid)"
proof (rule bcdc_cmplt_loop.raw_induct [where P = "\<lambda>rxctl rid len w s r. 0 \<le> fst r \<longrightarrow>
    (\<exists>flags. wire_word (fst (snd r)) 8 = Some flags \<and> BCDC_DCMD_ID flags = rid)", OF _ assms])
  fix loop :: "'a rxctl_fn \<Rightarrow> u32 \<Rightarrow> u32 \<Rightarrow> u8 list \<Rightarrow> 'a \<Rightarrow> (int \<times> u8 list \<times> 'a) option"
    and rxctl rid len w s r
  assume IH: "\<And>rxctl rid len w s r. loop rxctl rid len w s = Some r \<Longrightarrow> 0 \<le> fst r \<longrightarrow>
      (\<exists>flags. wire_word (fst (snd r)) 8 = Some flags \<and> BCDC_DCMD_ID flags = rid)"
    and body: "(let (ret, bs, s) = rxctl len s in do {
       w \<leftarrow> write_bytes w 0 bs;
       if ret < 0 then Some (ret, w, s)
       else do {
         flags \<leftarrow> wire_word w 8;
         if BCDC_DCMD_ID flags \<noteq> rid then loop rxctl rid len w s else Some (ret, w, s) } }) = Some r"
  obtain ret bs s' where rx: "rxctl len s = (ret, bs, s')" by (metis surj_pair)
  from body obtain w' where w': "write_bytes w 0 bs = Some w'" by (auto simp: rx bind_Some_iff)
  show "0 \<le> fst r \<longrightarrow> (\<exists>flags. wire_word (fst (snd r)) 8 = Some flags \<and> BCDC_DCMD_ID flags = rid)"
  proof (cases "ret < 0")
    case True
    with body show ?thesis by (auto simp: rx w')
  next
    case False
    with body obtain flags where f: "wire_word w' 8 = Some flags" by (auto simp: rx w' bind_Some_iff)
    show ?thesis
    proof (cases "BCDC_DCMD_ID flags = rid")
      case True
      with body False show ?thesis by (auto simp: rx w' f)
    next
      case ne: False
      with body False have "loop rxctl rid len w' s' = Some r" by (simp add: rx w' f)
      then show ?thesis by (rule IH)
    qed
  qed
qed

lemma cmplt_loop_result:
  "bcdc_cmplt_loop rxctl rid len w s = Some (ret, w', s') \<Longrightarrow> 0 \<le> ret \<Longrightarrow>
     \<exists>flags. wire_word w' 8 = Some flags \<and> BCDC_DCMD_ID flags = rid"
  using cmplt_loop_result_aux [of rxctl rid len w s "(ret, w', s')"] by simp

lemma cmplt_result:
  assumes "brcmf_proto_bcdc_cmplt rxctl rid len st = Some (ret, b, s)"
  shows "reqid b = reqid (fst st)"
    and "0 \<le> ret \<Longrightarrow> \<exists>flags. wire_word (wire b) 8 = Some flags \<and> BCDC_DCMD_ID flags = rid"
  using assms cmplt_loop_result [of rxctl rid "len + 16" "wire (fst st)" "snd st" ret "wire b" s]
  by (auto simp: brcmf_proto_bcdc_cmplt_def bind_Some_iff split: prod.splits)

text \<open>Since the wait only ends with the right identifier, the checks behind it never fail: the query
  neither retries nor reports an unexpected identifier.\<close>

lemma query_retry_eq:
  "bcdc_query_retry rxctl buf len left st = do {
     (ret, b, s) \<leftarrow> brcmf_proto_bcdc_cmplt rxctl (ucast (reqid (fst st))) len st;
     if ret < 0 then Some (ret, 0, buf, b, s)
     else do {
       flags \<leftarrow> wire_word (wire b) 8;
       buf \<leftarrow> (case buf of None \<Rightarrow> Some None
           | Some dst \<Rightarrow> do {
               let n = (if ret < sint len then unat (of_int ret :: u32) else unat len);
               info \<leftarrow> read_bytes (wire b) 16 n;
               dst \<leftarrow> write_bytes dst 0 info;
               Some (Some dst) });
       fwerr \<leftarrow> bcdc_fwerr flags (wire b);
       Some (0, fwerr, buf, b, s) } }"
proof (cases "brcmf_proto_bcdc_cmplt rxctl (ucast (reqid (fst st))) len st")
  case None
  then show ?thesis by (subst bcdc_query_retry.simps) simp
next
  case (Some r)
  obtain ret b s where r: "r = (ret, b, s)" by (metis surj_pair)
  note res = cmplt_result [OF Some [unfolded r]]
  show ?thesis
  proof (cases "ret < 0")
    case True
    then show ?thesis by (subst bcdc_query_retry.simps) (simp add: Some r)
  next
    case False
    then obtain flags where "wire_word (wire b) 8 = Some flags" "BCDC_DCMD_ID flags = ucast (reqid b)"
      using res by auto
    then show ?thesis using False
      by (subst bcdc_query_retry.simps)
        (auto simp: Some r Let_def bcdc_query_done_def BCDC_DCMD_ID_def split: nat.splits)
  qed
qed

declare bcdc_query_retry.simps [simp del]

section \<open>The flags word\<close>

lemma bcdc_flags_fields:
  assumes "ifidx < 16"
  shows "BCDC_DCMD_ID (bcdc_flags rid ifidx is_set) = ucast rid"
    and "drop_bit 12 (bcdc_flags rid ifidx is_set AND BCDC_DCMD_IF_MASK) = ifidx"
    and "bcdc_flags rid ifidx is_set AND BCDC_DCMD_SET \<noteq> 0 \<longleftrightarrow> is_set"
proof -
  note small = small_word_bits [of ifidx 4, simplified, OF assms]
  have lit: "(0xF000 :: u32) = push_bit 12 (mask 4)" "(0xFFFF0000 :: u32) = push_bit 16 (mask 16)"
    by (simp_all add: mask_eq_exp_minus_1)
  have two: "bit (2 :: u32) n \<longleftrightarrow> n = 1" for n using bit_exp_iff [where 'a = u32, of 1 n] by auto
  show "BCDC_DCMD_ID (bcdc_flags rid ifidx is_set) = ucast rid"
    unfolding BCDC_DCMD_ID_def bcdc_flags_def Let_def lit
    by (rule bit_word_eqI) (auto simp: bit_simps two dest: small bit_imp_le_length)
  show "drop_bit 12 (bcdc_flags rid ifidx is_set AND BCDC_DCMD_IF_MASK) = ifidx"
    unfolding bcdc_flags_def Let_def lit
    by (rule bit_word_eqI) (auto simp: bit_simps two dest: small bit_imp_le_length)
  have "bit (bcdc_flags rid ifidx is_set) 1 \<longleftrightarrow> is_set"
    unfolding bcdc_flags_def Let_def lit by (auto simp: bit_simps two dest: small bit_imp_le_length)
  then show "bcdc_flags rid ifidx is_set AND BCDC_DCMD_SET \<noteq> 0 \<longleftrightarrow> is_set"
    using and_pow_eq [of "bcdc_flags rid ifidx is_set" 1] by simp
qed

section \<open>Properties\<close>

text \<open>C7: The request \<open>brcmf_proto_bcdc_msg\<close> hands to the bus carries the next identifier, the
  interface, the direction, the command and the length in its header, zero status, and the caller's
  bytes behind it, cut at the largest control message; the identifier kept for the reply is the one
  sent.\<close>

theorem bcdc_request_format:
  assumes "length (wire b) = 16 + 8192" and "length src \<le> 8192" and "ifidx < 16"
    and "rid = reqid b + 1" and "flags = bcdc_flags rid ifidx is_set"
    and "txctl (take 1518 (le32 cmd @ le32 (of_nat (length src)) @ le32 flags @ le32 0 @ src)) s = (ret, s')"
  shows "(\<exists>w. brcmf_proto_bcdc_msg txctl ifidx cmd (Some src) (of_nat (length src)) is_set (b, s)
        = Some (ret, \<lparr>reqid = rid, wire = w\<rparr>, s') \<and> length w = length (wire b))
    \<and> BCDC_DCMD_ID flags = ucast rid \<and> drop_bit 12 (flags AND BCDC_DCMD_IF_MASK) = ifidx
    \<and> (flags AND BCDC_DCMD_SET \<noteq> 0 \<longleftrightarrow> is_set)"
proof -
  let ?h = "le32 cmd @ le32 (of_nat (length src)) @ le32 flags @ le32 0"
  let ?w = "?h @ src @ drop (16 + length src) (wire b)"
  have w: "write_bytes (wire b) 0 ?h = Some (?h @ drop 16 (wire b))" using assms(1) by (simp add: write_bytes_def)
  have w2: "write_bytes (?h @ drop 16 (wire b)) 16 src = Some ?w"
    using assms(1,2) by (simp add: write_bytes_def add.commute)
  have n: "unat (of_nat (length src) :: u32) = length src"
    using assms(2) by (simp add: unat_of_nat take_bit_nat_eq_self)
  let ?n = "of_nat (length src) + 16 :: u32"
  have n16: "unat ?n = length src + 16" using n assms(2) by (simp add: unat_word_ariths)
  have cut: "unat (if BRCMF_TX_IOCTL_MAX_MSG_SIZE < ?n then BRCMF_TX_IOCTL_MAX_MSG_SIZE else ?n)
      = min 1518 (length src + 16)" using n16 by (auto simp: word_less_nat_alt)
  have r: "read_bytes ?w 0 (min 1518 (length src + 16)) = Some (take 1518 (?h @ src))"
    using assms(1,2) by (auto simp: read_bytes_def min_def)
  have src: "read_bytes src 0 (length src) = Some src" by (simp add: read_bytes_def)
  have "brcmf_proto_bcdc_msg txctl ifidx cmd (Some src) (of_nat (length src)) is_set (b, s)
      = Some (ret, \<lparr>reqid = rid, wire = ?w\<rparr>, s')"
    using w w2 r src assms(6)
    by (simp add: brcmf_proto_bcdc_msg_def Let_def n cut assms(4) [symmetric] assms(5) [symmetric]
        del: append_assoc) simp
  moreover have "length ?w = length (wire b)" using assms(1,2) by simp
  moreover have "BCDC_DCMD_ID flags = ucast rid \<and> drop_bit 12 (flags AND BCDC_DCMD_IF_MASK) = ifidx
      \<and> (flags AND BCDC_DCMD_SET \<noteq> 0 \<longleftrightarrow> is_set)"
    using bcdc_flags_fields [OF assms(3)] by (simp add: assms(5))
  ultimately show ?thesis by blast
qed

definition tx_ex :: "u8 list list txctl_fn" where
  "tx_ex bs s = (0, s @ [bs])"

theorem bcdc_request_format_witness:
  "\<exists>w. brcmf_proto_bcdc_msg tx_ex 1 262 (Some [5, 6]) 2 False
      (\<lparr>reqid = 7, wire = replicate 8208 0\<rparr>, [])
    = Some (0, \<lparr>reqid = 8, wire = w\<rparr>, [[6, 1, 0, 0, 2, 0, 0, 0, 0, 16, 8, 0, 0, 0, 0, 0, 5, 6]])"
proof -
  let ?b = "\<lparr>reqid = 7, wire = replicate 8208 (0 :: u8)\<rparr>" and ?src = "[5, 6] :: u8 list"
  have h: "length (wire ?b) = 16 + 8192" "length ?src \<le> 8192" "(1 :: u32) < 16" "(8 :: u16) = reqid ?b + 1"
    by simp_all
  have n2: "of_nat (length ?src) = (2 :: u32)" by simp
  have f: "0x81000 = bcdc_flags 8 1 False" by code_simp
  have "take 1518 (le32 262 @ le32 (of_nat (length ?src)) @ le32 0x81000 @ le32 0 @ ?src)
      = [6, 1, 0, 0, 2, 0, 0, 0, 0, 16, 8, 0, 0, 0, 0, 0, 5, 6]" by code_simp
  then have t: "tx_ex (take 1518 (le32 262 @ le32 (of_nat (length ?src)) @ le32 0x81000 @ le32 0 @ ?src)) []
      = (0, [[6, 1, 0, 0, 2, 0, 0, 0, 0, 16, 8, 0, 0, 0, 0, 0, 5, 6]])" by (simp add: tx_ex_def)
  from bcdc_request_format [where txctl = tx_ex and b = ?b and src = ?src, OF h f t, unfolded n2]
  show ?thesis by blast
qed

text \<open>C8: A query whose request was sent, followed by any number of replies to other requests and then by one with
  its identifier, returns zero, and the firmware's status when the reply flags an error. The caller's buffer gets
  the body of that reply (what follows its header of 16 bytes), cut at the buffer. A body that is shorter than
  the buffer is followed by up to 16 bytes that are not of the reply but were in the message buffer before it,
  because the code takes the length of the whole message for the length of its body; the rest of the caller's
  buffer is as it was. The bus returns the length of the message and stores as much of it as was asked for.\<close>

theorem bcdc_query_matched:
  assumes "brcmf_proto_bcdc_msg txctl ifidx cmd (Some dst) len False st = Some (r, b, s)" and "0 \<le> r"
    and "bcdc_skips rxctl (ucast (reqid b)) (len + 16) (wire b, s) (w1, s1)"
    and "rxctl (len + 16) s1 = (ret, bs, s2)" and "16 \<le> ret" and "ret < 2 ^ 31" and "unat len = n" and "n < 2 ^ 31"
    and "length bs = min (n + 16) (nat ret)" and "n + 16 \<le> length w1" and "n \<le> length dst"
    and "wire_word bs 8 = Some flags" and "BCDC_DCMD_ID flags = ucast (reqid b)"
    and "wire_word bs 12 = Some status" and "stale = min 16 (n - (length bs - 16))"
  shows "brcmf_proto_bcdc_query_dcmd txctl rxctl ifidx cmd (Some dst) len st
      = Some (0, if flags AND BCDC_DCMD_ERROR \<noteq> 0 then sint status else 0,
          Some (drop 16 bs @ take stale (drop (length bs) w1) @ drop (length bs - 16 + stale) dst),
          b\<lparr>wire := bs @ drop (length bs) w1\<rparr>, s2)"
proof -
  let ?w2 = "bs @ drop (length bs) w1" and ?m = "min n (nat ret)" and ?k = stale
  have l: "16 \<le> length bs" "length bs \<le> n + 16" using assms(5,9) by auto
  have w2: "write_bytes w1 0 bs = Some ?w2" using assms(10) l by (simp add: write_bytes_def)
  have word: "wire_word ?w2 k = wire_word bs k" if "k \<le> 12" for k
    using l that by (simp add: wire_word_def nth_opt_def nth_append)
  have loop: "bcdc_cmplt_loop rxctl (ucast (reqid b)) (len + 16) (wire b) s = Some (ret, ?w2, s2)"
    unfolding cmplt_loop_skips [OF assms(3)]
    using assms(4,5,12,13) w2 word [of 8] by (intro cmplt_loop_match) auto
  have cm: "brcmf_proto_bcdc_cmplt rxctl (ucast (reqid b)) len (b, s) = Some (ret, b\<lparr>wire := ?w2\<rparr>, s2)"
    by (simp add: brcmf_proto_bcdc_cmplt_def loop)
  have sl: "sint len = int n" using sint_small [of len] assms(7,8) by simp
  have "unat (of_int ret :: u32) = nat ret" using assms(5,6) by (intro unat_of_int_small) simp_all
  then have m: "(if ret < sint len then unat (of_int ret :: u32) else unat len) = ?m"
    unfolding sl assms(7) using assms(5) by (cases "ret < int n") (simp_all add: min_def)
  have mk: "?m = length bs - 16 + ?k" using assms(5,9) unfolding assms(15) by (auto simp: min_def)
  have "read_bytes ?w2 16 ?m = Some (take ?m (drop 16 ?w2))" using assms(10) l by (simp add: read_bytes_def)
  moreover have "take ?m (drop 16 ?w2) = drop 16 bs @ take ?k (drop (length bs) w1)" unfolding mk using l by simp
  moreover have "write_bytes dst 0 x = Some (x @ drop ?m dst)" if "length x = ?m" for x
    using assms(11) that by (simp add: write_bytes_def)
  moreover have "length (take ?m (drop 16 ?w2)) = ?m" using assms(10) l by simp
  ultimately show ?thesis
    using assms(1,2,5,12,14) word [of 8] word [of 12]
    by (simp add: brcmf_proto_bcdc_query_dcmd_def query_retry_eq cm bcdc_fwerr_def m mk)
qed

text \<open>A bus for the witnesses that delivers a list of replies and then times out.\<close>

definition rx_ex :: "(int \<times> u8 list) list rxctl_fn" where
  "rx_ex len s = (case s of [] \<Rightarrow> (-110, [], []) | (r, bs) # rs \<Rightarrow> (r, bs, rs))"

definition reply_ex :: "u8 \<Rightarrow> u8 \<Rightarrow> u8 list" where
  "reply_ex rid v = [6, 1, 0, 0, 2, 0, 0, 0, 0, 16, rid, 0, 0, 0, 0, 0, v, v]"

theorem bcdc_query_matched_witness:
  "\<exists>w. brcmf_proto_bcdc_query_dcmd (\<lambda>bs s. (0, s)) rx_ex 1 262 (Some [0, 0]) 2
      (\<lparr>reqid = 7, wire = replicate 18 0\<rparr>, [(18, reply_ex 5 1), (17, take 17 (reply_ex 8 2))])
    = Some (0, 0, Some [2, 1], \<lparr>reqid = 8, wire = w\<rparr>, [])"
proof -
  let ?b = "\<lparr>reqid = 8, wire = reply_ex 8 0\<rparr>" and ?r = "(17, take 17 (reply_ex 8 2)) :: int \<times> u8 list"
  let ?s = "[(18, reply_ex 5 1), ?r] :: (int \<times> u8 list) list"
  have m: "brcmf_proto_bcdc_msg (\<lambda>bs s. (0, s)) 1 262 (Some [0, 0]) 2 False
      (\<lparr>reqid = 7, wire = replicate 18 0\<rparr>, ?s) = Some (0, ?b, ?s)"
    by code_simp
  have st: "rx_ex 18 ?s = (18, reply_ex 5 1, [?r])" by (simp add: rx_ex_def)
  have w1: "write_bytes (wire ?b) 0 (reply_ex 5 1) = Some (reply_ex 5 1)" by (simp add: write_bytes_def reply_ex_def)
  have f1: "wire_word (reply_ex 5 1) 8 = Some 0x51000" by code_simp
  have n1: "BCDC_DCMD_ID 0x51000 \<noteq> ucast (reqid ?b)" by (simp add: BCDC_DCMD_ID_def)
  have sk: "bcdc_skips rx_ex (ucast (reqid ?b)) (2 + 16) (wire ?b, ?s) (reply_ex 5 1, [?r])"
    using skip_step [where rxctl = rx_ex and len = 18 and s = ?s and w = "wire ?b", OF st _ w1 f1 n1 skip_refl] by simp
  have rx: "rx_ex (2 + 16) [?r] = (17, take 17 (reply_ex 8 2), [])" by (simp add: rx_ex_def)
  have f2: "wire_word (take 17 (reply_ex 8 2)) 8 = Some 0x81000" "wire_word (take 17 (reply_ex 8 2)) 12 = Some 0" by code_simp+
  have n2: "BCDC_DCMD_ID 0x81000 = ucast (reqid ?b)" by (simp add: BCDC_DCMD_ID_def)
  have l: "unat (2 :: u32) = 2" "length (take 17 (reply_ex 8 2)) = min (2 + 16) (nat 17)"
    "2 + 16 \<le> length (reply_ex 5 1)" "2 \<le> length [0, 0 :: u8]"
    by (simp_all add: reply_ex_def)
  from bcdc_query_matched [where rxctl = rx_ex, OF m _ sk rx _ _ l(1) _ l(2-4) f2(1) n2 f2(2) refl]
  show ?thesis by (simp add: reply_ex_def)
qed

text \<open>A packet whose header \<open>hdrpush\<close> wrote is recognised by \<open>hdrpull\<close>: it gives back the payload,
  the interface and the low three bits of the priority; this holds without firmware signals, for
  every interface the tables know.\<close>

theorem bcdc_header_roundtrip:
  assumes "idx < 16" and "brcmf_get_ifp drvr (uint idx) = Some (Some ifp)"
    and "brcmf_proto_bcdc_hdrpush idx 0 skb = Some skb'" and "sk_data skb \<noteq> []"
  shows "\<exists>r. brcmf_proto_bcdc_hdrpull fws_hdrpull drvr False skb' = Some (OK, Some ifp, r)
    \<and> sk_data r = sk_data skb \<and> sk_headroom r = sk_headroom skb
    \<and> sk_priority r = sk_priority skb AND 7"
proof -
  let ?f = "if ip_summed skb = CHECKSUM_PARTIAL then 0x28 else 0x20 :: u8"
  have f: "drop_bit 4 (?f AND BCDC_FLAG_VER_MASK) = 2" by simp
  note small = small_word_bits [of idx 4, simplified, OF assms(1)]
  have lit: "(0x0f :: u8) = mask 4" "(0x7 :: u32) = mask 3" by (simp_all add: mask_eq_exp_minus_1)
  have "bcdc_set_if_idx 0 idx AND BCDC_FLAG2_IF_MASK = ucast idx"
    unfolding bcdc_set_if_idx_def lit by (rule bit_word_eqI) (auto simp: bit_simps dest: small)
  moreover have "unat (ucast idx :: u8) = unat idx"
    using assms(1) by (simp add: unsigned_ucast_eq take_bit_nat_eq_self word_less_nat_alt)
  ultimately have i: "uint (bcdc_set_if_idx 0 idx AND BCDC_FLAG2_IF_MASK) = uint idx"
    by (metis uint_nat)
  have p: "ucast (ucast (sk_priority skb AND BCDC_PRIORITY_MASK) :: u8) AND BCDC_PRIORITY_MASK
      = sk_priority skb AND BCDC_PRIORITY_MASK"
    unfolding lit by (rule bit_word_eqI) (auto simp: bit_simps)
  have skb': "4 \<le> sk_headroom skb" "skb' = skb\<lparr>sk_data := [?f, ucast (sk_priority skb AND BCDC_PRIORITY_MASK),
      bcdc_set_if_idx 0 idx, 0] @ sk_data skb, sk_headroom := sk_headroom skb - 4\<rparr>"
    using assms(3) by (auto simp: brcmf_proto_bcdc_hdrpush_def skb_push_def Let_def split: if_splits)
  show ?thesis
    using assms(2,4) f i p skb'(1)
    by (cases "sk_data skb") (simp_all add: skb'(2) brcmf_proto_bcdc_hdrpull_def nth_opt_def skb_pull_def Let_def)
qed

theorem bcdc_header_roundtrip_witness:
  "\<exists>skb' r. brcmf_proto_bcdc_hdrpush 3 0 \<lparr>sk_data = [1, 2], sk_headroom = 6, ip_summed = CHECKSUM_NONE,
        sk_priority = 13\<rparr> = Some skb'
    \<and> brcmf_proto_bcdc_hdrpull (\<lambda>i n skb. None) \<lparr>if2bss = [0, 1, 2, 0] @ replicate 12 (-1), iflist = [Some 9]\<rparr> False skb'
      = Some (OK, Some (9 :: nat), r) \<and> sk_data r = [1, 2] \<and> sk_priority r = 5"
proof -
  let ?skb = "\<lparr>sk_data = [1, 2], sk_headroom = 6, ip_summed = CHECKSUM_NONE, sk_priority = 13\<rparr>"
  have g: "brcmf_get_ifp \<lparr>if2bss = [0, 1, 2, 0] @ replicate 12 (-1), iflist = [Some (9 :: nat)]\<rparr> (uint (3 :: u32))
      = Some (Some 9)" by (simp add: brcmf_get_ifp_def nth_opt_def)
  obtain skb' where p: "brcmf_proto_bcdc_hdrpush 3 0 ?skb = Some skb'"
    by (simp add: brcmf_proto_bcdc_hdrpush_def skb_push_def)
  have "(3 :: u32) < 16" "sk_data ?skb \<noteq> []" by simp_all
  from bcdc_header_roundtrip [OF this(1) g p this(2)] p show ?thesis by auto
qed

end
