(* ===== verification/Flowring.thy ===== *)
theory Flowring
  imports Prelude
begin

text \<open>
  The transmit flow rings of \<open>flowring.c\<close>: which ring carries the packets for a destination,
  traffic class and interface.

  The hash is an open-addressing table of 512 entries; rings are allocated in a table of
  \<open>nrofrings\<close> pointers. A NULL ring pointer that is followed, an unknown ring number and an index
  outside a table are \<open>None\<close>. What the functions do to the network stack is returned as a list of
  events. \<open>brcmf_msgbuf_delete_flowring\<close> is a parameter of the functions that call it.
\<close>

section \<open>State\<close>

abbreviation BRCMF_FLOWRING_HASHSIZE :: nat where "BRCMF_FLOWRING_HASHSIZE \<equiv> 512"
abbreviation BRCMF_FLOWRING_INVALID_ID :: u32 where "BRCMF_FLOWRING_INVALID_ID \<equiv> 0xFFFFFFFF"
abbreviation BRCMF_FLOWRING_HIGH :: nat where "BRCMF_FLOWRING_HIGH \<equiv> 1024"
abbreviation BRCMF_FLOWRING_LOW :: nat where "BRCMF_FLOWRING_LOW \<equiv> 1024 - 256"
abbreviation BRCMF_FLOWRING_INVALID_IFIDX :: u8 where "BRCMF_FLOWRING_INVALID_IFIDX \<equiv> 0xff"

record flowring_hash =
  fh_mac :: "u8 list"
  fh_fifo :: u8
  fh_ifidx :: u8
  fh_flowid :: u16

datatype ring_status = RING_CLOSED | RING_CLOSING | RING_OPEN

record 'p flowring_ring =
  hash_id :: u16
  blocked :: bool
  status :: ring_status
  fr_skblist :: "'p list"

datatype proto_addr_mode = ADDR_INDIRECT | ADDR_DIRECT

record 'p flowring =
  fl_hash :: "flowring_hash list"
  fl_rings :: "'p flowring_ring option list"
  addr_mode :: "proto_addr_mode list"
  nrofrings :: u16
  tdls_active :: bool
  tdls_entry :: "u8 list list"

text \<open>Effects outside the flow rings: \<open>brcmf_txflowblock_if\<close> and \<open>brcmf_txfinalize\<close> with the
  interface index the interface is looked up by.\<close>

datatype 'p fr_event = TxFlowBlock u8 bool | TxFinalize u8 'p

definition ALLFFMAC :: "u8 list" where "ALLFFMAC = replicate 6 0xff"
definition zero_mac :: "u8 list" where "zero_mac = replicate 6 0"

definition is_multicast_ether_addr :: "u8 list \<Rightarrow> bool option" where
  "is_multicast_ether_addr a = map_option (\<lambda>b. b AND 1 \<noteq> 0) (nth_opt a 0)"

definition brcmf_flowring_prio2fifo :: "u8 list" where
  "brcmf_flowring_prio2fifo = [0, 1, 1, 0, 2, 2, 3, 3]"

section \<open>Lookup and creation\<close>

definition brcmf_flowring_is_tdls_mac :: "'p flowring \<Rightarrow> u8 list \<Rightarrow> bool" where
  "brcmf_flowring_is_tdls_mac flow mac = (\<exists>m \<in> set (tdls_entry flow). m = mac)"

text \<open>The common prologue of lookup and creation: traffic class, whether the address is ignored, the
  address and the first index to probe.\<close>

definition fr_key :: "'p flowring \<Rightarrow> u8 list \<Rightarrow> u8 \<Rightarrow> u8 \<Rightarrow> (bool \<times> u8 list \<times> u8 \<times> u16) option" where
  "fr_key flow da prio ifidx = do {
     fifo \<leftarrow> nth_opt brcmf_flowring_prio2fifo (unat prio);
     mode \<leftarrow> nth_opt (addr_mode flow) (unat ifidx);
     mc \<leftarrow> is_multicast_ether_addr da;
     let sta = (mode = ADDR_INDIRECT);
     let (mac, fifo) = (if \<not> sta \<and> mc then (ALLFFMAC, 0) else (da, fifo));
     let sta = (if sta \<and> tdls_active flow \<and> brcmf_flowring_is_tdls_mac flow da then False else sta);
     last \<leftarrow> nth_opt mac 5;
     let hash_idx = (if sta then ucast fifo + ucast ifidx * 16
                     else ucast last * 2 + ucast fifo + ucast ifidx * 16 :: u16);
     Some (sta, mac, fifo, hash_idx AND 511) }"

fun fr_probe :: "(flowring_hash \<Rightarrow> bool) \<Rightarrow> flowring_hash list \<Rightarrow> nat \<Rightarrow> u16 \<Rightarrow> u16 option option" where
  "fr_probe p h 0 idx = Some None"
| "fr_probe p h (Suc n) idx = do {
     e \<leftarrow> nth_opt h (unat idx);
     if p e then Some (Some idx) else fr_probe p h n ((idx + 1) AND 511) }"

definition brcmf_flowring_lookup :: "'p flowring \<Rightarrow> u8 list \<Rightarrow> u8 \<Rightarrow> u8 \<Rightarrow> u32 option" where
  "brcmf_flowring_lookup flow da prio ifidx = do {
     (sta, mac, fifo, hash_idx) \<leftarrow> fr_key flow da prio ifidx;
     found \<leftarrow> fr_probe (\<lambda>h. (sta \<or> fh_mac h = mac) \<and> fh_fifo h = fifo \<and> fh_ifidx h = ifidx)
                (fl_hash flow) BRCMF_FLOWRING_HASHSIZE hash_idx;
     case found of
       Some i \<Rightarrow> map_option (\<lambda>h. ucast (fh_flowid h)) (nth_opt (fl_hash flow) (unat i))
     | None \<Rightarrow> Some BRCMF_FLOWRING_INVALID_ID }"

text \<open>The index of the first NULL ring pointer, or \<open>nrofrings\<close>.\<close>

fun fr_free_ring :: "'p flowring_ring option list \<Rightarrow> nat \<Rightarrow> nat \<Rightarrow> nat option" where
  "fr_free_ring rings 0 i = Some i"
| "fr_free_ring rings (Suc n) i = do {
     r \<leftarrow> nth_opt rings i;
     if r = None then Some i else fr_free_ring rings n (i + 1) }"

text \<open>\<open>alloc\<close> is whether \<open>kzalloc\<close> succeeds. The error returns are \<open>-ENOMEM\<close> converted to the
  unsigned return type.\<close>

definition brcmf_flowring_create ::
  "bool \<Rightarrow> 'p flowring \<Rightarrow> u8 list \<Rightarrow> u8 \<Rightarrow> u8 \<Rightarrow> (u32 \<times> 'p flowring) option" where
  "brcmf_flowring_create alloc flow da prio ifidx = do {
     (sta, mac, fifo, hash_idx) \<leftarrow> fr_key flow da prio ifidx;
     found \<leftarrow> fr_probe (\<lambda>h. fh_ifidx h = BRCMF_FLOWRING_INVALID_IFIDX \<and> fh_mac h = zero_mac)
                (fl_hash flow) BRCMF_FLOWRING_HASHSIZE hash_idx;
     case found of
       None \<Rightarrow> Some (BRCMF_FLOWRING_INVALID_ID, flow)
     | Some hash_idx \<Rightarrow> do {
         i \<leftarrow> fr_free_ring (fl_rings flow) (unat (nrofrings flow)) 0;
         if i = unat (nrofrings flow) then Some (- 12, flow)
         else if \<not> alloc then Some (- 12, flow)
         else do {
           hash \<leftarrow> upd_opt (fl_hash flow) (unat hash_idx)
             \<lparr>fh_mac = mac, fh_fifo = fifo, fh_ifidx = ifidx, fh_flowid = of_nat i\<rparr>;
           rings \<leftarrow> upd_opt (fl_rings flow) i
             (Some \<lparr>hash_id = hash_idx, blocked = False, status = RING_CLOSED, fr_skblist = []\<rparr>);
           Some (of_nat i, flow\<lparr>fl_hash := hash, fl_rings := rings\<rparr>) } } }"

section \<open>Ring operations\<close>

text \<open>The ring pointer of a ring number, and following it.\<close>

definition fr_ptr :: "'p flowring \<Rightarrow> u16 \<Rightarrow> 'p flowring_ring option option" where
  "fr_ptr flow flowid = nth_opt (fl_rings flow) (unat flowid)"

definition fr_ring :: "'p flowring \<Rightarrow> u16 \<Rightarrow> 'p flowring_ring option" where
  "fr_ring flow flowid = (case fr_ptr flow flowid of Some r \<Rightarrow> r | None \<Rightarrow> None)"

definition fr_set_ring :: "u16 \<Rightarrow> 'p flowring_ring \<Rightarrow> 'p flowring \<Rightarrow> 'p flowring" where
  "fr_set_ring flowid r flow = flow\<lparr>fl_rings := (fl_rings flow)[unat flowid := Some r]\<rparr>"

definition brcmf_flowring_tid :: "'p flowring \<Rightarrow> u16 \<Rightarrow> u8 option" where
  "brcmf_flowring_tid flow flowid = do {
     ring \<leftarrow> fr_ring flow flowid;
     h \<leftarrow> nth_opt (fl_hash flow) (unat (hash_id ring));
     Some (fh_fifo h) }"

definition brcmf_flowring_ifidx_get :: "'p flowring \<Rightarrow> u16 \<Rightarrow> u8 option" where
  "brcmf_flowring_ifidx_get flow flowid = do {
     ring \<leftarrow> fr_ring flow flowid;
     h \<leftarrow> nth_opt (fl_hash flow) (unat (hash_id ring));
     Some (fh_ifidx h) }"

text \<open>The scan for another open, blocked ring of the interface.\<close>

fun fr_other_blocked :: "'p flowring \<Rightarrow> u16 \<Rightarrow> u8 \<Rightarrow> nat list \<Rightarrow> bool option" where
  "fr_other_blocked flow flowid ifidx [] = Some False"
| "fr_other_blocked flow flowid ifidx (i # is) = do {
     r \<leftarrow> nth_opt (fl_rings flow) i;
     case r of
       None \<Rightarrow> fr_other_blocked flow flowid ifidx is
     | Some ring \<Rightarrow>
         if i \<noteq> unat flowid \<and> status ring = RING_OPEN then do {
           x \<leftarrow> brcmf_flowring_ifidx_get flow (of_nat i);
           if x = ifidx \<and> blocked ring then Some True
           else fr_other_blocked flow flowid ifidx is }
         else fr_other_blocked flow flowid ifidx is }"

definition brcmf_flowring_block ::
  "'p flowring \<Rightarrow> u16 \<Rightarrow> bool \<Rightarrow> ('p flowring \<times> 'p fr_event list) option" where
  "brcmf_flowring_block flow flowid b = do {
     ring \<leftarrow> fr_ring flow flowid;
     if blocked ring = b then Some (flow, [])
     else do {
       ifidx \<leftarrow> brcmf_flowring_ifidx_get flow flowid;
       currently_blocked \<leftarrow> fr_other_blocked flow flowid ifidx [0..<unat (nrofrings flow)];
       let flow = fr_set_ring flowid (ring\<lparr>blocked := b\<rparr>) flow;
       if currently_blocked then Some (flow, [])
       else Some (flow, [TxFlowBlock ifidx b]) } }"

definition brcmf_flowring_delete ::
  "'p flowring \<Rightarrow> u16 \<Rightarrow> ('p flowring \<times> 'p fr_event list) option" where
  "brcmf_flowring_delete flow flowid = do {
     ring \<leftarrow> fr_ptr flow flowid;
     case ring of
       None \<Rightarrow> Some (flow, [])
     | Some ring \<Rightarrow> do {
         ifidx \<leftarrow> brcmf_flowring_ifidx_get flow flowid;
         (flow, evs) \<leftarrow> brcmf_flowring_block flow flowid False;
         h \<leftarrow> nth_opt (fl_hash flow) (unat (hash_id ring));
         let h = h\<lparr>fh_ifidx := BRCMF_FLOWRING_INVALID_IFIDX, fh_mac := zero_mac\<rparr>;
         let flow = flow\<lparr>fl_hash := (fl_hash flow)[unat (hash_id ring) := h],
                         fl_rings := (fl_rings flow)[unat flowid := None]\<rparr>;
         Some (flow, evs @ map (TxFinalize ifidx) (fr_skblist ring)) } }"

definition brcmf_flowring_enqueue ::
  "'p flowring \<Rightarrow> u16 \<Rightarrow> 'p \<Rightarrow> (u32 \<times> 'p flowring \<times> 'p fr_event list) option" where
  "brcmf_flowring_enqueue flow flowid skb = do {
     ring \<leftarrow> fr_ring flow flowid;
     let ring = ring\<lparr>fr_skblist := fr_skblist ring @ [skb]\<rparr>;
     let flow = fr_set_ring flowid ring flow;
     (flow, evs) \<leftarrow>
       (if \<not> blocked ring \<and> BRCMF_FLOWRING_HIGH < length (fr_skblist ring) then do {
          (flow, evs) \<leftarrow> brcmf_flowring_block flow flowid True;
          if length (fr_skblist ring) < BRCMF_FLOWRING_LOW then do {
            (flow, evs') \<leftarrow> brcmf_flowring_block flow flowid False;
            Some (flow, evs @ evs') }
          else Some (flow, evs) }
        else Some (flow, []));
     Some (of_nat (length (fr_skblist ring)), flow, evs) }"

definition brcmf_flowring_dequeue ::
  "'p flowring \<Rightarrow> u16 \<Rightarrow> ('p option \<times> 'p flowring \<times> 'p fr_event list) option" where
  "brcmf_flowring_dequeue flow flowid = do {
     ring \<leftarrow> fr_ring flow flowid;
     if status ring \<noteq> RING_OPEN then Some (None, flow, [])
     else do {
       let skb = (case fr_skblist ring of [] \<Rightarrow> None | x # xs \<Rightarrow> Some x);
       let ring = ring\<lparr>fr_skblist := tl (fr_skblist ring)\<rparr>;
       let flow = fr_set_ring flowid ring flow;
       (flow, evs) \<leftarrow> (if blocked ring \<and> length (fr_skblist ring) < BRCMF_FLOWRING_LOW
                     then brcmf_flowring_block flow flowid False else Some (flow, []));
       Some (skb, flow, evs) } }"

definition brcmf_flowring_reinsert :: "'p flowring \<Rightarrow> u16 \<Rightarrow> 'p \<Rightarrow> 'p flowring option" where
  "brcmf_flowring_reinsert flow flowid skb = do {
     ring \<leftarrow> fr_ring flow flowid;
     Some (fr_set_ring flowid (ring\<lparr>fr_skblist := skb # fr_skblist ring\<rparr>) flow) }"

definition brcmf_flowring_qlen :: "'p flowring \<Rightarrow> u16 \<Rightarrow> u32 option" where
  "brcmf_flowring_qlen flow flowid = do {
     ring \<leftarrow> fr_ptr flow flowid;
     case ring of
       None \<Rightarrow> Some 0
     | Some ring \<Rightarrow> Some (if status ring \<noteq> RING_OPEN then 0 else of_nat (length (fr_skblist ring))) }"

definition brcmf_flowring_open :: "'p flowring \<Rightarrow> u16 \<Rightarrow> 'p flowring option" where
  "brcmf_flowring_open flow flowid = do {
     ring \<leftarrow> fr_ptr flow flowid;
     case ring of
       None \<Rightarrow> Some flow
     | Some ring \<Rightarrow> Some (fr_set_ring flowid (ring\<lparr>status := RING_OPEN\<rparr>) flow) }"

definition brcmf_flowring_attach :: "u16 \<Rightarrow> 'p flowring" where
  "brcmf_flowring_attach n =
     \<lparr>fl_hash = replicate BRCMF_FLOWRING_HASHSIZE
        \<lparr>fh_mac = zero_mac, fh_fifo = 0, fh_ifidx = BRCMF_FLOWRING_INVALID_IFIDX, fh_flowid = 0\<rparr>,
      fl_rings = replicate (unat n) None, addr_mode = replicate 16 ADDR_INDIRECT,
      nrofrings = n, tdls_active = False, tdls_entry = []\<rparr>"

section \<open>Address modes and peers\<close>

text \<open>These walk the hash and ask the message buffer layer to delete rings, which changes the flow
  rings and that layer's state \<open>'s\<close>.\<close>

type_synonym ('p, 's) del_fn = "u16 \<Rightarrow> 'p flowring \<times> 's \<Rightarrow> ('p flowring \<times> 's) option"

fun fr_delete_mode :: "('p, 's) del_fn \<Rightarrow> u8 \<Rightarrow> nat list \<Rightarrow> 'p flowring \<times> 's \<Rightarrow> ('p flowring \<times> 's) option" where
  "fr_delete_mode del ifidx [] st = Some st"
| "fr_delete_mode del ifidx (i # is) st = do {
     h \<leftarrow> nth_opt (fl_hash (fst st)) i;
     if fh_ifidx h = ifidx then do {
       ring \<leftarrow> fr_ring (fst st) (fh_flowid h);
       st \<leftarrow> (if status ring \<noteq> RING_OPEN then Some st else del (fh_flowid h) st);
       fr_delete_mode del ifidx is st }
     else fr_delete_mode del ifidx is st }"

definition brcmf_flowring_configure_addr_mode ::
  "('p, 's) del_fn \<Rightarrow> u8 \<Rightarrow> proto_addr_mode \<Rightarrow> 'p flowring \<times> 's \<Rightarrow> ('p flowring \<times> 's) option" where
  "brcmf_flowring_configure_addr_mode del ifidx mode st = do {
     m \<leftarrow> nth_opt (addr_mode (fst st)) (unat ifidx);
     if m \<noteq> mode then do {
       (flow, s) \<leftarrow> fr_delete_mode del ifidx [0..<BRCMF_FLOWRING_HASHSIZE] st;
       Some (flow\<lparr>addr_mode := (addr_mode flow)[unat ifidx := mode]\<rparr>, s) }
     else Some st }"

fun fr_delete_peer_loop ::
  "('p, 's) del_fn \<Rightarrow> bool \<Rightarrow> u8 list \<Rightarrow> u8 \<Rightarrow> nat list \<Rightarrow> 'p flowring \<times> 's \<Rightarrow> ('p flowring \<times> 's) option" where
  "fr_delete_peer_loop del sta peer ifidx [] st = Some st"
| "fr_delete_peer_loop del sta peer ifidx (i # is) st = do {
     h \<leftarrow> nth_opt (fl_hash (fst st)) i;
     if (sta \<or> fh_mac h = peer) \<and> fh_ifidx h = ifidx then do {
       ring \<leftarrow> fr_ring (fst st) (fh_flowid h);
       st \<leftarrow> (if status ring = RING_OPEN then del (fh_flowid h) st else Some st);
       fr_delete_peer_loop del sta peer ifidx is st }
     else fr_delete_peer_loop del sta peer ifidx is st }"

definition brcmf_flowring_delete_peer ::
  "('p, 's) del_fn \<Rightarrow> u8 \<Rightarrow> u8 list \<Rightarrow> 'p flowring \<times> 's \<Rightarrow> ('p flowring \<times> 's) option" where
  "brcmf_flowring_delete_peer del ifidx peer st = do {
     m \<leftarrow> nth_opt (addr_mode (fst st)) (unat ifidx);
     let search = (peer \<in> set (tdls_entry (fst st)));
     let sta = (if search then False else m = ADDR_INDIRECT);
     (flow, s) \<leftarrow> fr_delete_peer_loop del sta peer ifidx [0..<BRCMF_FLOWRING_HASHSIZE] st;
     let flow = (if search then
                   let flow = flow\<lparr>tdls_entry := remove1 peer (tdls_entry flow)\<rparr>
                   in if tdls_entry flow = [] then flow\<lparr>tdls_active := False\<rparr> else flow
                 else flow);
     Some (flow, s) }"

definition brcmf_flowring_add_tdls_peer :: "bool \<Rightarrow> 'p flowring \<Rightarrow> u8 list \<Rightarrow> 'p flowring" where
  "brcmf_flowring_add_tdls_peer alloc flow peer =
     (if \<not> alloc then flow
      else if peer \<in> set (tdls_entry flow) then flow
      else flow\<lparr>tdls_entry := tdls_entry flow @ [peer], tdls_active := True\<rparr>)"

section \<open>Probing the hash\<close>

lemma and_511: "unat ((w :: u16) AND 511) = unat w mod 512"
proof -
  have "(511 :: u16) = mask 9" by (simp add: mask_eq_exp_minus_1)
  then have "w AND 511 = take_bit 9 w" by (simp add: take_bit_eq_mask)
  then show ?thesis by (simp only: unsigned_take_bit_eq) (simp add: take_bit_eq_mod)
qed

lemma and_511_less: "unat ((w :: u16) AND 511) < 512"
  unfolding and_511 by simp

lemma next_idx: "unat idx < 512 \<Longrightarrow> unat (((idx :: u16) + 1) AND 511) = (unat idx + 1) mod 512"
  by (simp add: and_511 unat_word_ariths)

text \<open>A probe of \<open>n\<close> entries stops at the first match on the circle.\<close>

lemma fr_probe_cases:
  assumes "length h = 512" and "unat idx < 512"
  obtains (found) i k where "fr_probe p h n idx = Some (Some i)" "k < n" "unat i = (unat idx + k) mod 512"
      "p (h ! unat i)" "\<forall>j < k. \<not> p (h ! ((unat idx + j) mod 512))"
  | (none) "fr_probe p h n idx = Some None" "\<forall>k < n. \<not> p (h ! ((unat idx + k) mod 512))"
  using assms
proof (induction n arbitrary: idx thesis)
  case 0
  then show ?case by simp
next
  case (Suc n)
  show ?case
  proof (cases "p (h ! unat idx)")
    case True
    with Suc.prems show ?thesis by (intro Suc.prems(1) [of idx 0]) (auto simp: nth_opt_in)
  next
    case False
    let ?i = "(idx + 1) AND 511"
    have ni: "unat ?i = (unat idx + 1) mod 512" using Suc.prems(4) by (rule next_idx)
    have e: "fr_probe p h (Suc n) idx = fr_probe p h n ?i"
      using False Suc.prems(3,4) by (simp add: nth_opt_in)
    have sh: "(unat ?i + k) mod 512 = (unat idx + Suc k) mod 512" for k
      by (simp add: ni mod_add_left_eq)
    show ?thesis
    proof (rule Suc.IH [of "?i"])
      show "length h = 512" "unat ?i < 512" using Suc.prems(3) by (simp_all add: ni)
    next
      fix i k
      assume "fr_probe p h n ?i = Some (Some i)" "k < n" "unat i = (unat ?i + k) mod 512"
        "p (h ! unat i)" "\<forall>j<k. \<not> p (h ! ((unat ?i + j) mod 512))"
      then show thesis
        using False Suc.prems(4) by (intro Suc.prems(1) [of i "Suc k"]) (auto simp: e sh less_Suc_eq_0_disj simp del: fr_probe.simps)
    next
      assume "fr_probe p h n ?i = Some None" "\<forall>k<n. \<not> p (h ! ((unat ?i + k) mod 512))"
      then show thesis
        using False Suc.prems(4) by (intro Suc.prems(2)) (auto simp: e sh less_Suc_eq_0_disj simp del: fr_probe.simps)
    qed
  qed
qed

lemma circle_covers: "s < 512 \<Longrightarrow> j < 512 \<Longrightarrow> \<exists>k < 512. (s + k) mod 512 = (j :: nat)"
proof -
  assume "s < 512" "j < 512"
  then have "(s + (if s \<le> j then j - s else 512 - s + j)) mod 512 = j" by auto
  moreover have "(if s \<le> j then j - s else 512 - s + j) < 512" using \<open>j < 512\<close> \<open>s < 512\<close> by auto
  ultimately show ?thesis by blast
qed

text \<open>A full probe decides whether any entry matches.\<close>

lemma fr_probe_full:
  assumes "length h = 512" and "unat idx < 512"
  obtains (found) i where "fr_probe p h 512 idx = Some (Some i)" "unat i < 512" "p (h ! unat i)"
  | (none) "fr_probe p h 512 idx = Some None" "\<forall>j < 512. \<not> p (h ! j)"
proof (rule fr_probe_cases [OF assms, of p 512])
  fix i k assume "fr_probe p h 512 idx = Some (Some i)" "unat i = (unat idx + k) mod 512" "p (h ! unat i)"
  then show thesis by (intro found [of i]) simp_all
next
  assume "fr_probe p h 512 idx = Some None" and no: "\<forall>k < 512. \<not> p (h ! ((unat idx + k) mod 512))"
  moreover have "\<not> p (h ! j)" if "j < 512" for j
    using circle_covers [OF assms(2) that] no by auto
  ultimately show thesis by (intro none) simp_all
qed

lemma fr_free_ring_cases:
  assumes "i + n = length rings"
  obtains j where "fr_free_ring rings n i = Some j" "i \<le> j" "j < length rings" "rings ! j = None"
  | "fr_free_ring rings n i = Some (length rings)" "\<forall>j. i \<le> j \<and> j < length rings \<longrightarrow> rings ! j \<noteq> None"
  using assms
proof (induction n arbitrary: i thesis)
  case 0
  show ?case by (rule "0.prems"(2)) (use "0.prems"(3) in auto)
next
  case (Suc n)
  show ?case
  proof (cases "rings ! i = None")
    case True
    with Suc.prems show ?thesis by (intro Suc.prems(1) [of i]) (auto simp: nth_opt_in)
  next
    case False
    have e: "fr_free_ring rings (Suc n) i = fr_free_ring rings n (i + 1)"
      using False Suc.prems(3) by (auto simp: nth_opt_in)
    show ?thesis
    proof (rule Suc.IH [of "i + 1"])
      show "i + 1 + n = length rings" using Suc.prems(3) by simp
    next
      fix j assume "fr_free_ring rings n (i + 1) = Some j" "i + 1 \<le> j" "j < length rings" "rings ! j = None"
      then show thesis by (intro Suc.prems(1) [of j]) (simp_all add: e del: fr_free_ring.simps)
    next
      assume *: "fr_free_ring rings n (i + 1) = Some (length rings)"
        "\<forall>j. i + 1 \<le> j \<and> j < length rings \<longrightarrow> rings ! j \<noteq> None"
      show thesis
      proof (rule Suc.prems(2))
        show "fr_free_ring rings (Suc n) i = Some (length rings)" using * by (simp only: e)
        show "\<forall>j. i \<le> j \<and> j < length rings \<longrightarrow> rings ! j \<noteq> None"
        proof (intro allI impI)
          fix j assume "i \<le> j \<and> j < length rings"
          then show "rings ! j \<noteq> None" using *(2) False by (cases "j = i") auto
        qed
      qed
    qed
  qed
qed

section \<open>The invariant\<close>

text \<open>Entries in use and rings name each other; free entries have the zero address, so that the
  creation finds them.\<close>

definition flowring_inv :: "'p flowring \<Rightarrow> bool" where
  "flowring_inv flow \<longleftrightarrow> length (fl_hash flow) = 512 \<and> length (fl_rings flow) = unat (nrofrings flow)
     \<and> length (addr_mode flow) = 16
     \<and> (\<forall>f r. fr_ring flow f = Some r \<longrightarrow> unat (hash_id r) < 512
          \<and> fh_ifidx (fl_hash flow ! unat (hash_id r)) \<noteq> BRCMF_FLOWRING_INVALID_IFIDX
          \<and> fh_flowid (fl_hash flow ! unat (hash_id r)) = f)
     \<and> (\<forall>j < 512. fh_ifidx (fl_hash flow ! j) \<noteq> BRCMF_FLOWRING_INVALID_IFIDX \<longrightarrow>
          (\<exists>r. fr_ring flow (fh_flowid (fl_hash flow ! j)) = Some r \<and> unat (hash_id r) = j))
     \<and> (\<forall>j < 512. fh_ifidx (fl_hash flow ! j) = BRCMF_FLOWRING_INVALID_IFIDX \<longrightarrow> fh_mac (fl_hash flow ! j) = zero_mac)"

lemma fr_ring_Some: "fr_ring flow f = Some r \<longleftrightarrow> unat f < length (fl_rings flow) \<and> fl_rings flow ! unat f = Some r"
  by (cases "unat f < length (fl_rings flow)") (auto simp: fr_ring_def fr_ptr_def nth_opt_in split: option.splits)

lemma fr_ptr_ring: "fr_ring flow f = Some r \<Longrightarrow> fr_ptr flow f = Some (Some r)"
  by (simp add: fr_ring_Some fr_ptr_def)

lemma invD:
  assumes "flowring_inv flow"
  shows "length (fl_hash flow) = 512" "length (fl_rings flow) = unat (nrofrings flow)" "length (addr_mode flow) = 16"
    and "fr_ring flow f = Some r \<Longrightarrow> unat (hash_id r) < 512"
    and "fr_ring flow f = Some r \<Longrightarrow> fh_ifidx (fl_hash flow ! unat (hash_id r)) \<noteq> BRCMF_FLOWRING_INVALID_IFIDX"
    and "fr_ring flow f = Some r \<Longrightarrow> fh_flowid (fl_hash flow ! unat (hash_id r)) = f"
    and "j < 512 \<Longrightarrow> fh_ifidx (fl_hash flow ! j) \<noteq> BRCMF_FLOWRING_INVALID_IFIDX \<Longrightarrow>
       \<exists>r. fr_ring flow (fh_flowid (fl_hash flow ! j)) = Some r \<and> unat (hash_id r) = j"
    and "j < 512 \<Longrightarrow> fh_ifidx (fl_hash flow ! j) = BRCMF_FLOWRING_INVALID_IFIDX \<Longrightarrow> fh_mac (fl_hash flow ! j) = zero_mac"
  using assms by (simp_all add: flowring_inv_def)

lemma attach_inv: "flowring_inv (brcmf_flowring_attach n)"
  by (auto simp: flowring_inv_def brcmf_flowring_attach_def fr_ring_Some)

text \<open>Changing a ring without its hash index.\<close>

lemma fr_ring_set [simp]:
  "fr_ring flow f = Some r \<Longrightarrow> fr_ring (fr_set_ring f r' flow) f = Some r'"
  "g \<noteq> f \<Longrightarrow> fr_ring (fr_set_ring f r' flow) g = fr_ring flow g"
  by (simp_all add: fr_ring_Some) (simp_all add: fr_set_ring_def fr_ring_def fr_ptr_def nth_opt_def word_unat_eq_iff)

lemma fr_set_sel [simp]:
  "fl_hash (fr_set_ring f r flow) = fl_hash flow" "nrofrings (fr_set_ring f r flow) = nrofrings flow"
  "addr_mode (fr_set_ring f r flow) = addr_mode flow" "length (fl_rings (fr_set_ring f r flow)) = length (fl_rings flow)"
  by (simp_all add: fr_set_ring_def)

lemma set_ring_inv [invs]:
  assumes "flowring_inv flow" and "fr_ring flow f = Some r" and "hash_id r' = hash_id r"
  shows "flowring_inv (fr_set_ring f r' flow)"
proof -
  have ring: "fr_ring (fr_set_ring f r' flow) g = (if g = f then Some r' else fr_ring flow g)" for g
    using assms(2) by simp
  note D = invD [OF assms(1)]
  have "\<exists>q. fr_ring (fr_set_ring f r' flow) (fh_flowid (fl_hash flow ! j)) = Some q \<and> unat (hash_id q) = j"
    if "j < 512" "fh_ifidx (fl_hash flow ! j) \<noteq> BRCMF_FLOWRING_INVALID_IFIDX" for j
    using D(7) [OF that] assms(2,3) by (auto simp: ring)
  then show ?thesis
    unfolding flowring_inv_def using D assms(2,3) by (simp add: ring)
qed

lemma ifidx_get_eq:
  "flowring_inv flow \<Longrightarrow> fr_ring flow f = Some r \<Longrightarrow>
     brcmf_flowring_ifidx_get flow f = Some (fh_ifidx (fl_hash flow ! unat (hash_id r)))"
  using invD(1) [of flow] invD(4) [of flow f r] by (simp add: brcmf_flowring_ifidx_get_def nth_opt_in)

section \<open>Creation and lookup\<close>

lemma fr_key_inv:
  assumes "flowring_inv flow" and "length da = 6" and "unat prio < 8" and "unat ifidx < 16"
  obtains sta mac fifo i where "fr_key flow da prio ifidx = Some (sta, mac, fifo, i)" "unat i < 512"
proof -
  have l: "length (addr_mode flow) = 16" using invD(3) [OF assms(1)] .
  obtain fifo where p: "nth_opt brcmf_flowring_prio2fifo (unat prio) = Some fifo"
    using assms(3) by (simp add: brcmf_flowring_prio2fifo_def)
  obtain mode where m: "nth_opt (addr_mode flow) (unat ifidx) = Some mode" using l assms(4) by simp
  obtain mc where c: "is_multicast_ether_addr da = Some mc"
    using assms(2) by (simp add: is_multicast_ether_addr_def nth_opt_in)
  obtain mac fifo' where k: "(if mode \<noteq> ADDR_INDIRECT \<and> mc then (ALLFFMAC, 0) else (da, fifo)) = (mac, fifo')"
    by fastforce
  then have "length mac = 6" using assms(2) by (auto simp: ALLFFMAC_def split: if_splits)
  then have last: "nth_opt mac 5 = Some (mac ! 5)" by simp
  show thesis
    by (rule that, simp add: fr_key_def p m c k last Let_def del: nth_opt_Some, rule and_511_less)
qed

text \<open>The outcome of a creation, for a good key.\<close>

lemma create_cases:
  assumes "flowring_inv flow" and "fr_key flow da prio ifidx = Some (sta, mac, fifo, i)" and "unat i < 512"
    and "ifidx \<noteq> BRCMF_FLOWRING_INVALID_IFIDX"
  obtains (no_hash) "brcmf_flowring_create alloc flow da prio ifidx = Some (BRCMF_FLOWRING_INVALID_ID, flow)"
      "\<forall>j < 512. fh_ifidx (fl_hash flow ! j) \<noteq> BRCMF_FLOWRING_INVALID_IFIDX"
  | (no_ring) "brcmf_flowring_create alloc flow da prio ifidx = Some (-12, flow)"
      "\<not> alloc \<or> (\<forall>j < unat (nrofrings flow). fl_rings flow ! j \<noteq> None)"
  | (made) f idx where "alloc" "unat f < unat (nrofrings flow)" "fr_ring flow f = None" "unat idx < 512"
      "fh_ifidx (fl_hash flow ! unat idx) = BRCMF_FLOWRING_INVALID_IFIDX"
      "brcmf_flowring_create alloc flow da prio ifidx = Some (ucast f, flow\<lparr>
         fl_hash := (fl_hash flow)[unat idx := \<lparr>fh_mac = mac, fh_fifo = fifo, fh_ifidx = ifidx, fh_flowid = f\<rparr>],
         fl_rings := (fl_rings flow)[unat f := Some \<lparr>hash_id = idx, blocked = False, status = RING_CLOSED, fr_skblist = []\<rparr>]\<rparr>)"
proof -
  note D = invD [OF assms(1)]
  let ?p = "\<lambda>h. fh_ifidx h = BRCMF_FLOWRING_INVALID_IFIDX \<and> fh_mac h = zero_mac"
  note defs = brcmf_flowring_create_def assms(2)
  show thesis
  proof (rule fr_probe_full [OF D(1) assms(3), of ?p])
    assume "fr_probe ?p (fl_hash flow) 512 i = Some None" and "\<forall>j < 512. \<not> ?p (fl_hash flow ! j)"
    then show thesis using D(8) by (intro no_hash) (auto simp: defs)
  next
    fix idx assume idx: "fr_probe ?p (fl_hash flow) 512 i = Some (Some idx)" "unat idx < 512" "?p (fl_hash flow ! unat idx)"
    have n: "0 + unat (nrofrings flow) = length (fl_rings flow)" using D(2) by simp
    show thesis
    proof (rule fr_free_ring_cases [OF n])
      assume fr: "fr_free_ring (fl_rings flow) (unat (nrofrings flow)) 0 = Some (length (fl_rings flow))"
        and all: "\<forall>j. 0 \<le> j \<and> j < length (fl_rings flow) \<longrightarrow> fl_rings flow ! j \<noteq> None"
      show thesis using all D(2) by (intro no_ring) (simp_all add: defs idx(1) fr D(2))
    next
      fix j assume j: "fr_free_ring (fl_rings flow) (unat (nrofrings flow)) 0 = Some j"
        "j < length (fl_rings flow)" "fl_rings flow ! j = None"
      have small: "j < 65536" using j(2) D(2) unat_widths_less(2) [of "nrofrings flow"] by simp
      define f where "f = (of_nat j :: u16)"
      have f: "unat f = j" using small by (simp add: f_def unat_of_nat take_bit_nat_eq_self)
      have jf: "of_nat j = (ucast f :: u32)" by (simp add: word_unat_eq_iff f unat_of_nat take_bit_nat_eq_self small order_less_trans [OF small])
      show thesis
      proof (cases alloc)
        case False
        with j D(2) show thesis by (intro no_ring) (simp_all add: defs idx(1))
      next
        case True
        have "fr_ring flow f = None" using j f by (simp add: fr_ring_def fr_ptr_def nth_opt_in)
        then show thesis
          using True j f idx D(1,2)
          by (intro made [of f idx]) (simp_all add: defs upd_opt_in jf f_def [symmetric])
      qed
    qed
  qed
qed

text \<open>Creation keeps the invariant; the rings that exist keep their numbers and queues.\<close>

lemma create_made_ring:
  assumes "fr_ring flow f = None" and "unat f < length (fl_rings flow)"
    and "flow' = flow\<lparr>fl_hash := h, fl_rings := (fl_rings flow)[unat f := Some q]\<rparr>"
  shows "fr_ring flow' g = (if g = f then Some q else fr_ring flow g)"
  using assms by (simp add: fr_ring_def fr_ptr_def nth_opt_def nth_list_update word_unat_eq_iff)

lemma create_inv [invs]:
  assumes inv: "flowring_inv flow" and key: "fr_key flow da prio ifidx = Some (sta, mac, fifo, i)" "unat i < 512"
    and ifx: "ifidx \<noteq> BRCMF_FLOWRING_INVALID_IFIDX"
    and made: "brcmf_flowring_create alloc flow da prio ifidx = Some (res, flow')"
  shows "flowring_inv flow' \<and> (\<forall>g r. fr_ring flow g = Some r \<longrightarrow> fr_ring flow' g = Some r)"
proof (cases rule: create_cases [OF inv key ifx, of alloc, case_names no_hash no_ring made])
  case no_hash
  with made inv show ?thesis by simp
next
  case no_ring
  with made inv show ?thesis by simp
next
  case (made f idx)
  note D = invD [OF inv]
  let ?q = "\<lparr>hash_id = idx, blocked = False, status = RING_CLOSED, fr_skblist = []\<rparr>"
  have flow': "flow' = flow\<lparr>fl_hash := (fl_hash flow)[unat idx := \<lparr>fh_mac = mac, fh_fifo = fifo, fh_ifidx = ifidx, fh_flowid = f\<rparr>],
         fl_rings := (fl_rings flow)[unat f := Some ?q]\<rparr>"
    using made(6) assms(5) by simp
  have ring: "fr_ring flow' g = (if g = f then Some ?q else fr_ring flow g)" for g
    using made(2,3) D(2) by (intro create_made_ring [OF _ _ flow']) simp_all
  have other: "unat (hash_id r) \<noteq> unat idx" if "fr_ring flow g = Some r" for g r
    using D(5) [OF that] made(5) by auto
  have "\<exists>q. fr_ring flow' (fh_flowid (fl_hash flow' ! j)) = Some q \<and> unat (hash_id q) = j"
    if j: "j < 512" "fh_ifidx (fl_hash flow' ! j) \<noteq> BRCMF_FLOWRING_INVALID_IFIDX" for j
  proof (cases "j = unat idx")
    case True
    then show ?thesis using D(1) made(4) by (simp add: ring) (simp add: flow')
  next
    case False
    then have "fl_hash flow' ! j = fl_hash flow ! j" by (simp add: flow')
    with j D(7) [of j] obtain r where "fr_ring flow (fh_flowid (fl_hash flow' ! j)) = Some r" "unat (hash_id r) = j"
      by auto
    then show ?thesis using made(3) by (auto simp: ring)
  qed
  moreover have "unat (hash_id r) < 512 \<and> fh_ifidx (fl_hash flow' ! unat (hash_id r)) \<noteq> BRCMF_FLOWRING_INVALID_IFIDX
      \<and> fh_flowid (fl_hash flow' ! unat (hash_id r)) = g" if "fr_ring flow' g = Some r" for g r
  proof (cases "g = f")
    case True
    then show ?thesis using that D(1) made(4) ifx by (auto simp: ring) (simp_all add: flow')
  next
    case False
    then have r: "fr_ring flow g = Some r" using that by (simp add: ring)
    then have "fl_hash flow' ! unat (hash_id r) = fl_hash flow ! unat (hash_id r)"
      using other [OF r] by (simp add: flow')
    then show ?thesis using D(4-6) [OF r] by simp
  qed
  moreover have "fh_mac (fl_hash flow' ! j) = zero_mac"
    if "j < 512" "fh_ifidx (fl_hash flow' ! j) = BRCMF_FLOWRING_INVALID_IFIDX" for j
    using that D(1,8) made(4) ifx by (cases "j = unat idx") (simp_all add: flow')
  ultimately have "flowring_inv flow'"
    unfolding flowring_inv_def using D(1-3) by (simp add: flow')
  then show ?thesis using made(3) by (auto simp: ring)
qed

lemma lookup_eq:
  assumes "flowring_inv flow" and "fr_key flow da prio ifidx = Some (sta, mac, fifo, i)" and "unat i < 512"
    and "ifidx \<noteq> BRCMF_FLOWRING_INVALID_IFIDX"
    and "p = (\<lambda>h. (sta \<or> fh_mac h = mac) \<and> fh_fifo h = fifo \<and> fh_ifidx h = ifidx)"
  obtains (hit) j r where "j < 512" "p (fl_hash flow ! j)" "fr_ring flow (fh_flowid (fl_hash flow ! j)) = Some r"
      "brcmf_flowring_lookup flow da prio ifidx = Some (ucast (fh_flowid (fl_hash flow ! j)))"
  | (miss) "brcmf_flowring_lookup flow da prio ifidx = Some BRCMF_FLOWRING_INVALID_ID"
      "\<forall>j < 512. \<not> p (fl_hash flow ! j)"
proof -
  note D = invD [OF assms(1)]
  show thesis
  proof (rule fr_probe_full [OF D(1) assms(3), of p])
    fix k assume k: "fr_probe p (fl_hash flow) 512 i = Some (Some k)" "unat k < 512" "p (fl_hash flow ! unat k)"
    with D(7) [of "unat k"] assms(4,5)
    obtain r where "fr_ring flow (fh_flowid (fl_hash flow ! unat k)) = Some r" by auto
    then show thesis
      using k D(1) assms(2) by (intro hit [of "unat k" r]) (simp_all add: brcmf_flowring_lookup_def assms(5) nth_opt_in)
  next
    assume "fr_probe p (fl_hash flow) 512 i = Some None" "\<forall>j < 512. \<not> p (fl_hash flow ! j)"
    then show thesis using assms(2) by (intro miss) (simp_all add: brcmf_flowring_lookup_def assms(5))
  qed
qed

section \<open>Blocking\<close>

definition fr_if :: "'p flowring \<Rightarrow> 'p flowring_ring \<Rightarrow> u8" where
  "fr_if flow r = fh_ifidx (fl_hash flow ! unat (hash_id r))"

text \<open>Another open ring of the interface is blocked.\<close>

definition fr_other :: "'p flowring \<Rightarrow> u16 \<Rightarrow> u8 \<Rightarrow> bool" where
  "fr_other flow f x \<longleftrightarrow> (\<exists>g q. g \<noteq> f \<and> fr_ring flow g = Some q \<and> status q = RING_OPEN \<and> fr_if flow q = x \<and> blocked q)"

lemma unat_of_nat_u16: "n < 65536 \<Longrightarrow> unat (of_nat n :: u16) = n"
  by (simp add: unat_of_nat take_bit_nat_eq_self)

lemma fr_other_blocked_eq:
  assumes "flowring_inv flow" and "set is \<subseteq> {..<length (fl_rings flow)}"
  shows "fr_other_blocked flow f x is = Some (\<exists>i \<in> set is. \<exists>q. i \<noteq> unat f
    \<and> fr_ring flow (of_nat i) = Some q \<and> status q = RING_OPEN \<and> fr_if flow q = x \<and> blocked q)"
  using assms(2)
proof (induction "is")
  case Nil
  then show ?case by simp
next
  case (Cons i "is")
  then have i: "i < length (fl_rings flow)" by simp
  then have "unat (of_nat i :: u16) = i"
    using invD(2) [OF assms(1)] unat_widths_less(2) [of "nrofrings flow"] by (intro unat_of_nat_u16) simp
  then have r: "fr_ring flow (of_nat i) = fl_rings flow ! i"
    using i by (auto simp: fr_ring_def fr_ptr_def nth_opt_in split: option.splits)
  show ?case
  proof (cases "fl_rings flow ! i")
    case None
    with Cons i r show ?thesis by (simp add: nth_opt_in)
  next
    case (Some q)
    with r have q: "fr_ring flow (of_nat i) = Some q" by simp
    have "brcmf_flowring_ifidx_get flow (of_nat i) = Some (fr_if flow q)"
      using ifidx_get_eq [OF assms(1) q] by (simp add: fr_if_def)
    with Cons i Some q show ?thesis by (auto simp: nth_opt_in)
  qed
qed

lemma fr_other_blocked_full:
  assumes "flowring_inv flow"
  shows "fr_other_blocked flow f x [0..<unat (nrofrings flow)] = Some (fr_other flow f x)"
proof -
  have n: "length (fl_rings flow) = unat (nrofrings flow)" using invD(2) [OF assms] .
  have "(\<exists>i \<in> set [0..<unat (nrofrings flow)]. \<exists>q. i \<noteq> unat f \<and> fr_ring flow (of_nat i) = Some q
      \<and> status q = RING_OPEN \<and> fr_if flow q = x \<and> blocked q) = fr_other flow f x" (is "?l = _")
  proof
    assume ?l
    then obtain i q where i: "i < unat (nrofrings flow)" "i \<noteq> unat f" "fr_ring flow (of_nat i) = Some q"
      "status q = RING_OPEN \<and> fr_if flow q = x \<and> blocked q" by auto
    have "unat (of_nat i :: u16) = i"
      using i(1) unat_widths_less(2) [of "nrofrings flow"] by (intro unat_of_nat_u16) simp
    with i(2) have "of_nat i \<noteq> f" by auto
    with i show "fr_other flow f x" unfolding fr_other_def by blast
  next
    assume "fr_other flow f x"
    then obtain g q where g: "g \<noteq> f" "fr_ring flow g = Some q"
      "status q = RING_OPEN \<and> fr_if flow q = x \<and> blocked q" unfolding fr_other_def by blast
    have "unat g < unat (nrofrings flow)" using g(2) n by (simp add: fr_ring_Some)
    moreover have "unat g \<noteq> unat f" "of_nat (unat g) = g" using g(1) by (simp_all add: word_unat_eq_iff)
    ultimately show ?l using g by (intro bexI [of _ "unat g"]) auto
  qed
  moreover have "set [0..<unat (nrofrings flow)] \<subseteq> {..<length (fl_rings flow)}" using n by auto
  note fr_other_blocked_eq [OF assms this, of f x]
  ultimately show ?thesis by (simp only:)
qed

lemma block_eq:
  assumes "flowring_inv flow" and "fr_ring flow f = Some r"
  shows "brcmf_flowring_block flow f b = Some (if blocked r = b then (flow, [])
    else (fr_set_ring f (r\<lparr>blocked := b\<rparr>) flow, if fr_other flow f (fr_if flow r) then [] else [TxFlowBlock (fr_if flow r) b]))"
  using assms fr_other_blocked_full [OF assms(1)] ifidx_get_eq [OF assms]
  by (simp add: brcmf_flowring_block_def fr_if_def)

lemma block_inv:
  assumes "flowring_inv flow" and "fr_ring flow f = Some r"
  obtains flow' evs where "brcmf_flowring_block flow f b = Some (flow', evs)" "flowring_inv flow'"
    "fr_ring flow' f = Some (r\<lparr>blocked := b\<rparr>)" "\<And>g. g \<noteq> f \<Longrightarrow> fr_ring flow' g = fr_ring flow g"
    "fl_hash flow' = fl_hash flow" "nrofrings flow' = nrofrings flow"
proof (cases "blocked r = b")
  case True
  then have "r\<lparr>blocked := b\<rparr> = r" by simp
  with True assms show thesis by (intro that [of flow "[]"]) (simp_all add: block_eq)
next
  case False
  with assms set_ring_inv [OF assms, of "r\<lparr>blocked := b\<rparr>"] show thesis
    by (intro that [of "fr_set_ring f (r\<lparr>blocked := b\<rparr>) flow"
          "if fr_other flow f (fr_if flow r) then [] else [TxFlowBlock (fr_if flow r) b]"])
      (simp_all add: block_eq)
qed

section \<open>Deletion and the queues\<close>

lemma delete_inv:
  assumes inv: "flowring_inv flow" and r: "fr_ring flow f = Some r"
  obtains flow' evs where "brcmf_flowring_delete flow f = Some (flow', evs @ map (TxFinalize (fr_if flow r)) (fr_skblist r))"
    "flowring_inv flow'" "fr_ring flow' f = None" "\<And>g. g \<noteq> f \<Longrightarrow> fr_ring flow' g = fr_ring flow g"
    "set evs \<subseteq> {TxFlowBlock (fr_if flow r) False}"
proof -
  obtain fl evs where b: "brcmf_flowring_block flow f False = Some (fl, evs)" "flowring_inv fl"
    "fr_ring fl f = Some (r\<lparr>blocked := False\<rparr>)" "\<And>g. g \<noteq> f \<Longrightarrow> fr_ring fl g = fr_ring flow g"
    "fl_hash fl = fl_hash flow" "nrofrings fl = nrofrings flow"
    using block_inv [OF inv r] by metis
  have evs: "set evs \<subseteq> {TxFlowBlock (fr_if flow r) False}"
    using b(1) block_eq [OF inv r, of False] by (auto split: if_splits)
  note D = invD [OF b(2)] and D0 = invD [OF inv]
  let ?h = "(fl_hash flow ! unat (hash_id r))\<lparr>fh_ifidx := BRCMF_FLOWRING_INVALID_IFIDX, fh_mac := zero_mac\<rparr>"
  let ?fl = "fl\<lparr>fl_hash := (fl_hash fl)[unat (hash_id r) := ?h], fl_rings := (fl_rings fl)[unat f := None]\<rparr>"
  have del: "brcmf_flowring_delete flow f = Some (?fl, evs @ map (TxFinalize (fr_if flow r)) (fr_skblist r))"
    using fr_ptr_ring [OF r] ifidx_get_eq [OF inv r] b(1) D0(1) D0(4) [OF r] r b(5)
    by (simp add: brcmf_flowring_delete_def fr_if_def nth_opt_in)
  have f: "unat f < length (fl_rings fl)" using b(3) by (simp add: fr_ring_Some)
  have ring: "fr_ring ?fl g = (if g = f then None else fr_ring fl g)" for g
    using f by (auto simp: fr_ring_def fr_ptr_def nth_opt_def nth_list_update word_unat_eq_iff)
  have ne: "unat (hash_id q) \<noteq> unat (hash_id r)" if "fr_ring fl g = Some q" "g \<noteq> f" for g q
    using D(6) [OF that(1)] D(6) [OF b(3)] that(2) by auto
  have hr: "unat (hash_id r) < 512" using D0(4) [OF r] .
  have "\<exists>q. fr_ring ?fl (fh_flowid (fl_hash ?fl ! j)) = Some q \<and> unat (hash_id q) = j"
    if j: "j < 512" "fh_ifidx (fl_hash ?fl ! j) \<noteq> BRCMF_FLOWRING_INVALID_IFIDX" for j
  proof (cases "j = unat (hash_id r)")
    case True
    with j D(1) show ?thesis by simp
  next
    case False
    with j D(7) [of j] obtain q where "fr_ring fl (fh_flowid (fl_hash fl ! j)) = Some q" "unat (hash_id q) = j" by auto
    with False b(3) show ?thesis by (auto simp: ring)
  qed
  moreover have "unat (hash_id q) < 512 \<and> fh_ifidx (fl_hash ?fl ! unat (hash_id q)) \<noteq> BRCMF_FLOWRING_INVALID_IFIDX
      \<and> fh_flowid (fl_hash ?fl ! unat (hash_id q)) = g" if "fr_ring ?fl g = Some q" for g q
  proof -
    have q: "fr_ring fl g = Some q" "g \<noteq> f" using that by (simp_all add: ring split: if_splits)
    show ?thesis using D(4-6) [OF q(1)] ne [OF q] by simp
  qed
  moreover have "fh_mac (fl_hash ?fl ! j) = zero_mac"
    if "j < 512" "fh_ifidx (fl_hash ?fl ! j) = BRCMF_FLOWRING_INVALID_IFIDX" for j
    using that D(1,8) by (cases "j = unat (hash_id r)") simp_all
  ultimately have "flowring_inv ?fl"
    unfolding flowring_inv_def using D(1-3) by simp
  then show thesis using del evs b(4) by (intro that [of ?fl evs]) (simp_all add: ring)
qed

section \<open>Queue operations and reachability\<close>

lemma enqueue_eq:
  assumes inv: "flowring_inv flow" and r: "fr_ring flow f = Some r"
  obtains flow' evs where
    "brcmf_flowring_enqueue flow f p = Some (of_nat (Suc (length (fr_skblist r))), flow', evs)" "flowring_inv flow'"
    "fr_ring flow' f = Some (r\<lparr>fr_skblist := fr_skblist r @ [p], blocked := (blocked r \<or> 1024 \<le> length (fr_skblist r))\<rparr>)"
    "\<And>g. g \<noteq> f \<Longrightarrow> fr_ring flow' g = fr_ring flow g"
proof -
  let ?r = "r\<lparr>fr_skblist := fr_skblist r @ [p]\<rparr>"
  let ?fl = "fr_set_ring f ?r flow"
  have i1: "flowring_inv ?fl" and r1: "fr_ring ?fl f = Some ?r" using set_ring_inv [OF inv r] r by simp_all
  show thesis
  proof (cases "\<not> blocked r \<and> 1024 < length (fr_skblist ?r)")
    case False
    then show thesis
      using r i1 r1 by (intro that [of ?fl "[]"]) (auto simp: brcmf_flowring_enqueue_def)
  next
    case True
    obtain fl2 evs where b: "brcmf_flowring_block ?fl f True = Some (fl2, evs)" "flowring_inv fl2"
      "fr_ring fl2 f = Some (?r\<lparr>blocked := True\<rparr>)" "\<And>g. g \<noteq> f \<Longrightarrow> fr_ring fl2 g = fr_ring ?fl g"
      using block_inv [OF i1 r1] by metis
    have "brcmf_flowring_enqueue flow f p = Some (of_nat (Suc (length (fr_skblist r))), fl2, evs)"
      using True r b(1) by (simp add: brcmf_flowring_enqueue_def Let_def)
    then show thesis using True b r by (intro that [of fl2 evs]) simp_all
  qed
qed

lemma dequeue_eq:
  assumes inv: "flowring_inv flow" and r: "fr_ring flow f = Some r"
  obtains flow' evs where
    "brcmf_flowring_dequeue flow f = Some (if status r = RING_OPEN \<and> fr_skblist r \<noteq> [] then Some (hd (fr_skblist r)) else None, flow', evs)"
    "flowring_inv flow'"
    "fr_ring flow' f = Some (if status r \<noteq> RING_OPEN then r else r\<lparr>fr_skblist := tl (fr_skblist r),
       blocked := (blocked r \<and> 768 \<le> length (tl (fr_skblist r)))\<rparr>)"
    "\<And>g. g \<noteq> f \<Longrightarrow> fr_ring flow' g = fr_ring flow g" "fl_hash flow' = fl_hash flow"
proof (cases "status r = RING_OPEN")
  case False
  then show thesis using inv r by (intro that [of flow "[]"]) (simp_all add: brcmf_flowring_dequeue_def)
next
  case op: True
  let ?r = "r\<lparr>fr_skblist := tl (fr_skblist r)\<rparr>"
  let ?fl = "fr_set_ring f ?r flow"
  let ?skb = "case fr_skblist r of [] \<Rightarrow> None | x # xs \<Rightarrow> Some x"
  have skb: "?skb = (if status r = RING_OPEN \<and> fr_skblist r \<noteq> [] then Some (hd (fr_skblist r)) else None)"
    using op by (cases "fr_skblist r") simp_all
  have i1: "flowring_inv ?fl" and r1: "fr_ring ?fl f = Some ?r" using set_ring_inv [OF inv r] r by simp_all
  show thesis
  proof (cases "blocked r \<and> length (tl (fr_skblist r)) < 768")
    case False
    then have "?r = r\<lparr>fr_skblist := tl (fr_skblist r), blocked := (blocked r \<and> 768 \<le> length (tl (fr_skblist r)))\<rparr>"
      by (cases "blocked r") auto
    with False show thesis
      using op r i1 r1 by (intro that [of ?fl "[]"]) (auto simp: brcmf_flowring_dequeue_def skb)
  next
    case True
    obtain fl2 evs where b: "brcmf_flowring_block ?fl f False = Some (fl2, evs)" "flowring_inv fl2"
      "fr_ring fl2 f = Some (?r\<lparr>blocked := False\<rparr>)" "\<And>g. g \<noteq> f \<Longrightarrow> fr_ring fl2 g = fr_ring ?fl g"
      "fl_hash fl2 = fl_hash ?fl"
      using block_inv [OF i1 r1] by metis
    have "brcmf_flowring_dequeue flow f = Some (?skb, fl2, evs)"
      using True op r b(1) by (simp add: brcmf_flowring_dequeue_def Let_def)
    then show thesis using True op b r by (intro that [of fl2 evs]) (simp_all add: skb)
  qed
qed

text \<open>What the message buffer layer does to the flow rings when it is asked to delete one: the ring is closing, and
  it is deleted at once when the firmware cannot be told.\<close>

definition del_ok :: "('p, 's) del_fn \<Rightarrow> bool" where
  "del_ok del \<longleftrightarrow> (\<forall>f flow s flow' s'. del f (flow, s) = Some (flow', s') \<longrightarrow>
     (\<exists>r. fr_ring flow f = Some r \<and> (flow' = fr_set_ring f (r\<lparr>status := RING_CLOSING\<rparr>) flow
        \<or> (\<exists>evs. brcmf_flowring_delete (fr_set_ring f (r\<lparr>status := RING_CLOSING\<rparr>) flow) f = Some (flow', evs)))))"

text \<open>Any sequence of the operations on the flow rings, including the status changes the message
  buffer layer makes.\<close>

inductive fr_step :: "('p, 's) del_fn \<Rightarrow> 'p flowring \<Rightarrow> 'p flowring \<Rightarrow> bool" for del where
  st_create: "brcmf_flowring_create a flow da prio ifidx = Some (r, flow') \<Longrightarrow> length da = 6 \<Longrightarrow> unat prio < 8
     \<Longrightarrow> unat ifidx < 16 \<Longrightarrow> fr_step del flow flow'"
| st_enqueue: "brcmf_flowring_enqueue flow f p = Some (n, flow', evs) \<Longrightarrow> fr_step del flow flow'"
| st_dequeue: "brcmf_flowring_dequeue flow f = Some (p, flow', evs) \<Longrightarrow> fr_step del flow flow'"
| st_reinsert: "brcmf_flowring_reinsert flow f p = Some flow' \<Longrightarrow> fr_step del flow flow'"
| st_delete: "brcmf_flowring_delete flow f = Some (flow', evs) \<Longrightarrow> fr_step del flow flow'"
| st_open: "brcmf_flowring_open flow f = Some flow' \<Longrightarrow> fr_step del flow flow'"
| st_status: "fr_ring flow f = Some r \<Longrightarrow> fr_step del flow (fr_set_ring f (r\<lparr>status := s\<rparr>) flow)"
| st_tdls: "fr_step del flow (brcmf_flowring_add_tdls_peer a flow peer)"
| st_mode: "brcmf_flowring_configure_addr_mode del ifidx mode (flow, m) = Some (flow', m') \<Longrightarrow> fr_step del flow flow'"
| st_peer: "brcmf_flowring_delete_peer del ifidx peer (flow, m) = Some (flow', m') \<Longrightarrow> fr_step del flow flow'"

inductive fr_reachable :: "('p, 's) del_fn \<Rightarrow> 'p flowring \<Rightarrow> bool" for del where
  fr_attach: "fr_reachable del (brcmf_flowring_attach n)"
| fr_next: "fr_reachable del flow \<Longrightarrow> fr_step del flow flow' \<Longrightarrow> fr_reachable del flow'"

lemma del_okD:
  assumes "del_ok del" and inv: "flowring_inv flow" and d: "del f (flow, s) = Some (flow', s')"
  shows "flowring_inv flow'"
proof -
  obtain r where r: "fr_ring flow f = Some r" and eff: "flow' = fr_set_ring f (r\<lparr>status := RING_CLOSING\<rparr>) flow
      \<or> (\<exists>evs. brcmf_flowring_delete (fr_set_ring f (r\<lparr>status := RING_CLOSING\<rparr>) flow) f = Some (flow', evs))"
    using assms(1) d unfolding del_ok_def by blast
  let ?c = "fr_set_ring f (r\<lparr>status := RING_CLOSING\<rparr>) flow"
  have c: "flowring_inv ?c" "fr_ring ?c f = Some (r\<lparr>status := RING_CLOSING\<rparr>)"
    using set_ring_inv [OF inv r] r by simp_all
  from eff show ?thesis
  proof (elim disjE exE)
    fix evs assume "brcmf_flowring_delete ?c f = Some (flow', evs)"
    with delete_inv [OF c] show ?thesis by (metis Pair_inject option.inject)
  qed (simp add: c)
qed

lemma del_ok_step: "del_ok del \<Longrightarrow> flowring_inv (fst st) \<Longrightarrow> del f st = Some st' \<Longrightarrow> flowring_inv (fst st')"
  by (cases st; cases st') (auto dest: del_okD)

lemma delete_mode_inv:
  "del_ok del \<Longrightarrow> flowring_inv (fst st) \<Longrightarrow> fr_delete_mode del ifidx is st = Some st' \<Longrightarrow> flowring_inv (fst st')"
proof (induction "is" arbitrary: st)
  case (Cons i "is")
  consider (skip) "fr_delete_mode del ifidx is st = Some st'"
    | (del) f st1 where "del f st = Some st1" "fr_delete_mode del ifidx is st1 = Some st'"
    using Cons.prems(3) by (auto simp: bind_eq_Some_conv split: if_splits)
  then show ?case
  proof cases
    case skip
    then show ?thesis by (rule Cons.IH [OF Cons.prems(1,2)])
  next
    case del
    then show ?thesis using Cons.IH [OF Cons.prems(1)] del_ok_step [OF Cons.prems(1,2)] by blast
  qed
qed simp

lemma delete_peer_loop_inv:
  "del_ok del \<Longrightarrow> flowring_inv (fst st) \<Longrightarrow> fr_delete_peer_loop del sta peer ifidx is st = Some st' \<Longrightarrow>
     flowring_inv (fst st')"
proof (induction "is" arbitrary: st)
  case (Cons i "is")
  consider (skip) "fr_delete_peer_loop del sta peer ifidx is st = Some st'"
    | (del) f st1 where "del f st = Some st1" "fr_delete_peer_loop del sta peer ifidx is st1 = Some st'"
    using Cons.prems(3) by (auto simp: bind_eq_Some_conv split: if_splits)
  then show ?case
  proof cases
    case skip
    then show ?thesis by (rule Cons.IH [OF Cons.prems(1,2)])
  next
    case del
    then show ?thesis using Cons.IH [OF Cons.prems(1)] del_ok_step [OF Cons.prems(1,2)] by blast
  qed
qed simp

lemma flowring_inv_modes:
  "flowring_inv flow \<Longrightarrow> length ms = 16 \<Longrightarrow> flowring_inv (flow\<lparr>addr_mode := ms\<rparr>)"
  "flowring_inv flow \<Longrightarrow> flowring_inv (flow\<lparr>tdls_entry := es\<rparr>)"
  "flowring_inv flow \<Longrightarrow> flowring_inv (flow\<lparr>tdls_entry := es, tdls_active := b\<rparr>)"
  by (simp_all add: flowring_inv_def fr_ring_def fr_ptr_def)

lemma configure_addr_mode_inv:
  assumes "del_ok del" and "flowring_inv flow"
    and "brcmf_flowring_configure_addr_mode del ifidx mode (flow, s) = Some (flow', s')"
  shows "flowring_inv flow'"
  using assms delete_mode_inv [OF assms(1), of "(flow, s)"] invD(3)
  by (fastforce simp: brcmf_flowring_configure_addr_mode_def bind_Some_iff intro: flowring_inv_modes split: if_splits)

lemma delete_peer_inv:
  assumes "del_ok del" and "flowring_inv flow" and "brcmf_flowring_delete_peer del ifidx peer (flow, s) = Some (flow', s')"
  shows "flowring_inv flow'"
  using assms delete_peer_loop_inv [OF assms(1), of "(flow, s)"]
  by (fastforce simp: brcmf_flowring_delete_peer_def bind_Some_iff Let_def intro: flowring_inv_modes split: if_splits)

lemma no_ring_None:
  "fr_ring flow f = None \<Longrightarrow> brcmf_flowring_enqueue flow f p = None"
  "fr_ring flow f = None \<Longrightarrow> brcmf_flowring_dequeue flow f = None"
  "fr_ring flow f = None \<Longrightarrow> brcmf_flowring_reinsert flow f p = None"
  by (simp_all add: brcmf_flowring_enqueue_def brcmf_flowring_dequeue_def brcmf_flowring_reinsert_def)

lemma add_tdls_inv: "flowring_inv flow \<Longrightarrow> flowring_inv (brcmf_flowring_add_tdls_peer a flow peer)"
  by (auto simp: brcmf_flowring_add_tdls_peer_def flowring_inv_def fr_ring_def fr_ptr_def)

lemma fr_step_inv [invs]:
  assumes "fr_step del flow flow'" and del: "del_ok del" and inv: "flowring_inv flow"
  shows "flowring_inv flow'"
  using assms(1)
proof cases
  case (st_create a da prio ifidx r)
  obtain sta mac fifo i where k: "fr_key flow da prio ifidx = Some (sta, mac, fifo, i)" "unat i < 512"
    using fr_key_inv [OF inv st_create(2-4)] by metis
  have "ifidx \<noteq> BRCMF_FLOWRING_INVALID_IFIDX" using st_create(4) by auto
  from create_inv [OF inv k this st_create(1)] show ?thesis by blast
next
  case (st_enqueue f p n evs)
  then obtain r where "fr_ring flow f = Some r" using no_ring_None(1) by (metis not_None_eq)
  from enqueue_eq [OF inv this, of p] st_enqueue show ?thesis by (metis Pair_inject option.inject)
next
  case (st_dequeue f p evs)
  then obtain r where "fr_ring flow f = Some r" using no_ring_None(2) by (metis not_None_eq)
  from dequeue_eq [OF inv this] st_dequeue show ?thesis by (metis Pair_inject option.inject)
next
  case (st_reinsert f p)
  then obtain r where "fr_ring flow f = Some r" using no_ring_None(3) by (metis not_None_eq)
  with st_reinsert set_ring_inv [OF inv this] show ?thesis by (auto simp: brcmf_flowring_reinsert_def)
next
  case (st_delete f evs)
  show ?thesis
  proof (cases "fr_ring flow f")
    case None
    with st_delete inv show ?thesis
      by (auto simp: brcmf_flowring_delete_def fr_ring_def bind_Some_iff split: option.splits)
  next
    case (Some r)
    from delete_inv [OF inv this] st_delete show ?thesis by (metis Pair_inject option.inject)
  qed
next
  case (st_open f)
  show ?thesis
  proof (cases "fr_ring flow f")
    case None
    with st_open inv show ?thesis
      by (auto simp: brcmf_flowring_open_def fr_ring_def bind_Some_iff split: option.splits)
  next
    case (Some r)
    with st_open set_ring_inv [OF inv Some] fr_ptr_ring [OF Some] show ?thesis
      by (auto simp: brcmf_flowring_open_def)
  qed
next
  case (st_status f r s)
  then show ?thesis using set_ring_inv [OF inv] by simp
next
  case (st_tdls a peer)
  then show ?thesis using add_tdls_inv [OF inv] by simp
next
  case (st_mode ifidx mode m m')
  then show ?thesis using configure_addr_mode_inv [OF del inv] by blast
next
  case (st_peer ifidx peer m m')
  then show ?thesis using delete_peer_inv [OF del inv] by blast
qed

lemma fr_reachable_inv: "fr_reachable del flow \<Longrightarrow> del_ok del \<Longrightarrow> flowring_inv flow"
  by (induction rule: fr_reachable.induct) (auto intro: attach_inv fr_step_inv)

section \<open>Properties\<close>

lemma ifidx_small_valid: "unat (x :: u8) < 16 \<Longrightarrow> x \<noteq> BRCMF_FLOWRING_INVALID_IFIDX"
  by auto

text \<open>A state without rings: the lookup misses, and changing the mode of an interface deletes nothing.\<close>

lemma empty_lookup:
  assumes inv: "flowring_inv flow" and "length da = 6" and "unat prio < 8" and "unat ifidx < 16"
    and none: "\<forall>j < 512. fh_ifidx (fl_hash flow ! j) = BRCMF_FLOWRING_INVALID_IFIDX"
  shows "brcmf_flowring_lookup flow da prio ifidx = Some BRCMF_FLOWRING_INVALID_ID"
proof -
  obtain sta mac fifo i where k: "fr_key flow da prio ifidx = Some (sta, mac, fifo, i)" "unat i < 512"
    using fr_key_inv [OF inv assms(2-4)] by metis
  show ?thesis
  proof (cases rule: lookup_eq [OF inv k ifidx_small_valid [OF assms(4)] refl, case_names hit miss])
    case (hit j r)
    then show ?thesis using ifidx_small_valid [OF assms(4)] none by simp
  next
    case miss
    then show ?thesis by simp
  qed
qed

lemma empty_delete_mode:
  "\<forall>j \<in> set is. j < length (fl_hash (fst st)) \<and> fh_ifidx (fl_hash (fst st) ! j) \<noteq> ifidx \<Longrightarrow> fr_delete_mode del ifidx is st = Some st"
  by (induction "is") (simp_all add: nth_opt_in)

text \<open>The key does not depend on the hash or the rings.\<close>

lemma fr_key_cong:
  "addr_mode flow' = addr_mode flow \<Longrightarrow> tdls_active flow' = tdls_active flow \<Longrightarrow> tdls_entry flow' = tdls_entry flow
     \<Longrightarrow> fr_key flow' da prio ifidx = fr_key flow da prio ifidx"
  by (simp add: fr_key_def brcmf_flowring_is_tdls_mac_def)

text \<open>What a successful creation leaves in the tables.\<close>

lemma create_made_lookup:
  assumes inv: "flowring_inv flow" and key: "fr_key flow da prio ifidx = Some (sta, mac, fifo, i)" "unat i < 512"
    and ifx: "ifidx \<noteq> BRCMF_FLOWRING_INVALID_IFIDX"
    and miss: "brcmf_flowring_lookup flow da prio ifidx = Some BRCMF_FLOWRING_INVALID_ID"
    and made: "unat f < unat (nrofrings flow)" "fr_ring flow f = None" "unat idx < 512"
    and flow': "flow' = flow\<lparr>
         fl_hash := (fl_hash flow)[unat idx := \<lparr>fh_mac = mac, fh_fifo = fifo, fh_ifidx = ifidx, fh_flowid = f\<rparr>],
         fl_rings := (fl_rings flow)[unat f := Some q]\<rparr>"
    and inv': "flowring_inv flow'"
  shows "brcmf_flowring_lookup flow' da prio ifidx = Some (ucast f)"
proof -
  let ?p = "\<lambda>h. (sta \<or> fh_mac h = mac) \<and> fh_fifo h = fifo \<and> fh_ifidx h = ifidx"
  have k': "fr_key flow' da prio ifidx = Some (sta, mac, fifo, i)"
    using key(1) fr_key_cong [of flow' flow da prio ifidx] by (simp add: flow')
  have no: "\<not> ?p (fl_hash flow ! j)" if "j < 512" for j
  proof (cases rule: lookup_eq [OF inv key ifx refl, case_names hit miss])
    case (hit k r)
    have "(ucast (fh_flowid (fl_hash flow ! k)) :: u32) = BRCMF_FLOWRING_INVALID_ID" using hit(4) miss by simp
    from arg_cong [OF this, of unat] have "unat (fh_flowid (fl_hash flow ! k)) = 4294967295" by simp
    then show ?thesis using unat_widths_less(2) [of "fh_flowid (fl_hash flow ! k)"] by simp
  next
    case miss
    then show ?thesis using that by blast
  qed
  have hl: "length (fl_hash flow) = 512" using invD(1) [OF inv] .
  show ?thesis
  proof (cases rule: lookup_eq [OF inv' k' key(2) ifx refl, case_names hit miss])
    case (hit j r)
    have "j = unat idx"
    proof (rule ccontr)
      assume "j \<noteq> unat idx"
      then have "fl_hash flow' ! j = fl_hash flow ! j" by (simp add: flow')
      with hit(2) no [OF hit(1)] show False by simp
    qed
    then show ?thesis using hit(4) hl made(3) by (simp add: flow')
  next
    case miss
    have "?p (fl_hash flow' ! unat idx)" using hl made(3) by (simp add: flow')
    with miss(2) made(3) show ?thesis by blast
  qed
qed

text \<open>C9: In any state the operations can reach, with stations and access points (indirect and direct
  addresses), changes between the two, and peers that come and go, when the lookup of a valid key misses, \<open>brcmf_flowring_create\<close> for
  that key either leaves the tables as they are, and then no memory, no free ring or no free hash entry was
  the reason and the number returned is no ring's, or returns the number of an unused ring that is then
  closed, empty, bound to the interface and to the traffic class of the key, and that the lookup of the
  key finds; no other ring changes.\<close>

theorem flowring_create_lookup:
  assumes del: "del_ok del" and reach: "fr_reachable del flow" and key: "length da = 6" "unat prio < 8" "unat ifidx < 16"
    and miss: "brcmf_flowring_lookup flow da prio ifidx = Some BRCMF_FLOWRING_INVALID_ID"
  obtains (failed) r where "brcmf_flowring_create alloc flow da prio ifidx = Some (r, flow)"
      "unat (nrofrings flow) \<le> unat r"
      "\<not> alloc \<or> (\<forall>f. unat f < unat (nrofrings flow) \<longrightarrow> fr_ring flow f \<noteq> None)
         \<or> (\<forall>h \<in> set (fl_hash flow). fh_ifidx h \<noteq> BRCMF_FLOWRING_INVALID_IFIDX)"
  | (made) f flow' idx where "brcmf_flowring_create alloc flow da prio ifidx = Some (ucast f, flow')"
      "fr_ring flow f = None"
      "fr_ring flow' f = Some \<lparr>hash_id = idx, blocked = False, status = RING_CLOSED, fr_skblist = []\<rparr>"
      "brcmf_flowring_lookup flow' da prio ifidx = Some (ucast f)"
      "brcmf_flowring_ifidx_get flow' f = Some ifidx"
      "brcmf_flowring_tid flow' f = map_option (\<lambda>(sta, mac, fifo, i). fifo) (fr_key flow da prio ifidx)"
      "\<forall>g. g \<noteq> f \<longrightarrow> fr_ring flow' g = fr_ring flow g"
proof -
  note inv = fr_reachable_inv [OF reach del] and ifx = ifidx_small_valid [OF key(3)]
  note D = invD [OF inv]
  obtain sta mac fifo i where k: "fr_key flow da prio ifidx = Some (sta, mac, fifo, i)" "unat i < 512"
    using fr_key_inv [OF inv key] by metis
  show thesis
  proof (cases rule: create_cases [OF inv k ifx, of alloc, case_names no_hash no_ring made])
    case no_hash
    then show thesis
      using D(1) unat_widths_less(2) [of "nrofrings flow"] by (intro failed) (auto simp: in_set_conv_nth)
  next
    case no_ring
    then show thesis
      using D(2) unat_widths_less(2) [of "nrofrings flow"]
      by (intro failed [of "-12"]) (auto simp: fr_ring_def fr_ptr_def nth_opt_in)
  next
    case (made f idx)
    let ?fl = "flow\<lparr>
         fl_hash := (fl_hash flow)[unat idx := \<lparr>fh_mac = mac, fh_fifo = fifo, fh_ifidx = ifidx, fh_flowid = f\<rparr>],
         fl_rings := (fl_rings flow)[unat f := Some \<lparr>hash_id = idx, blocked = False, status = RING_CLOSED, fr_skblist = []\<rparr>]\<rparr>"
    have ring: "fr_ring ?fl g = (if g = f then Some \<lparr>hash_id = idx, blocked = False, status = RING_CLOSED, fr_skblist = []\<rparr>
        else fr_ring flow g)" for g
      using made(2,3) D(2) by (intro create_made_ring [OF _ _ refl]) simp_all
    have "flowring_inv ?fl" using create_inv [OF inv k ifx made(6)] by simp
    note look = create_made_lookup [OF inv k ifx miss made(2-4) refl this]
    have "brcmf_flowring_ifidx_get ?fl f = Some ifidx" "brcmf_flowring_tid ?fl f = Some fifo"
      using D(1) made(4) by (simp_all add: brcmf_flowring_ifidx_get_def brcmf_flowring_tid_def ring nth_opt_in)
    with made(3,6) look show thesis
      by (intro that(2) [of f ?fl idx]) (simp_all add: ring k(1))
  qed
qed

text \<open>For the witnesses: a message buffer layer that only marks the ring, and the state in which the interface of
  index 0 addresses its peers directly, as an access point does.\<close>

definition close_del :: "('p, unit) del_fn" where
  "close_del f st = map_option (\<lambda>r. (fr_set_ring f (r\<lparr>status := RING_CLOSING\<rparr>) (fst st), snd st)) (fr_ring (fst st) f)"

lemma close_del_ok: "del_ok close_del"
  by (auto simp: del_ok_def close_del_def)

definition direct_ex :: "'p flowring" where
  "direct_ex = (brcmf_flowring_attach 2)\<lparr>addr_mode := (replicate 16 ADDR_INDIRECT)[0 := ADDR_DIRECT]\<rparr>"

lemma direct_ex_reached:
  "brcmf_flowring_configure_addr_mode close_del 0 ADDR_DIRECT (brcmf_flowring_attach 2 :: 'p flowring, ()) = Some (direct_ex, ())"
proof -
  let ?fl = "brcmf_flowring_attach 2 :: 'p flowring"
  have m: "addr_mode ?fl = replicate 16 ADDR_INDIRECT" by (simp add: brcmf_flowring_attach_def)
  have "fr_delete_mode close_del 0 [0..<512] (?fl, ()) = Some (?fl, ())"
    by (rule empty_delete_mode) (simp add: brcmf_flowring_attach_def)
  then show ?thesis by (simp add: brcmf_flowring_configure_addr_mode_def direct_ex_def nth_opt_def m)
qed

lemma direct_ex_props:
  "fr_reachable close_del direct_ex" "flowring_inv direct_ex" "fr_ring direct_ex 0 = None" "nrofrings direct_ex = 2"
  "fl_hash direct_ex = replicate 512 \<lparr>fh_mac = zero_mac, fh_fifo = 0, fh_ifidx = BRCMF_FLOWRING_INVALID_IFIDX, fh_flowid = 0\<rparr>"
proof -
  show r: "fr_reachable close_del direct_ex" by (rule fr_next [OF fr_attach st_mode [OF direct_ex_reached]])
  show "flowring_inv direct_ex" by (rule fr_reachable_inv [OF r close_del_ok])
qed (simp_all add: direct_ex_def brcmf_flowring_attach_def fr_ring_def fr_ptr_def nth_opt_def)

theorem flowring_create_lookup_witness:
  "\<exists>(f :: u16) flow'. brcmf_flowring_create True (direct_ex :: nat flowring) [2, 0, 0, 0, 0, 1] 5 0 = Some (ucast f, flow')
     \<and> brcmf_flowring_lookup flow' [2, 0, 0, 0, 0, 1] 5 0 = Some (ucast f)"
proof (rule flowring_create_lookup [OF close_del_ok direct_ex_props(1), of "[2, 0, 0, 0, 0, 1]" 5 0 True])
  show "brcmf_flowring_lookup (direct_ex :: nat flowring) [2, 0, 0, 0, 0, 1] 5 0 = Some BRCMF_FLOWRING_INVALID_ID"
    by (rule empty_lookup) (simp_all add: direct_ex_props)
next
  fix r assume "\<not> True \<or> (\<forall>f. unat f < unat (nrofrings (direct_ex :: nat flowring)) \<longrightarrow> fr_ring (direct_ex :: nat flowring) f \<noteq> None)
    \<or> (\<forall>h \<in> set (fl_hash (direct_ex :: nat flowring)). fh_ifidx h \<noteq> BRCMF_FLOWRING_INVALID_IFIDX)"
  then have False by (elim disjE allE [of _ 0]) (auto simp: direct_ex_props)
  then show ?thesis by simp
qed auto

text \<open>In any reachable state the lookup of a valid key answers either that there is no ring or the
  number of a ring that exists, belongs to the interface asked for and has the traffic class of the key,
  so that a ring number the transmit path uses is never a NULL ring pointer.\<close>

theorem flowring_lookup_sound:
  assumes del: "del_ok del" and reach: "fr_reachable del flow" and key: "length da = 6" "unat prio < 8" "unat ifidx < 16"
  obtains (miss) "brcmf_flowring_lookup flow da prio ifidx = Some BRCMF_FLOWRING_INVALID_ID"
  | (hit) f r where "brcmf_flowring_lookup flow da prio ifidx = Some (ucast f)" "fr_ring flow f = Some r"
      "brcmf_flowring_ifidx_get flow f = Some ifidx"
      "brcmf_flowring_tid flow f = map_option (\<lambda>(sta, mac, fifo, i). fifo) (fr_key flow da prio ifidx)"
proof -
  note inv = fr_reachable_inv [OF reach del] and ifx = ifidx_small_valid [OF key(3)]
  note D = invD [OF inv]
  obtain sta mac fifo i where k: "fr_key flow da prio ifidx = Some (sta, mac, fifo, i)" "unat i < 512"
    using fr_key_inv [OF inv key] by metis
  show thesis
  proof (cases rule: lookup_eq [OF inv k ifx refl, case_names hit miss])
    case (hit j r)
    obtain q where q: "fr_ring flow (fh_flowid (fl_hash flow ! j)) = Some q" "unat (hash_id q) = j"
      using D(7) [OF hit(1)] hit(2) ifx by auto
    then show thesis
      using hit D(1) by (intro that(2) [OF hit(4,3)])
        (simp_all add: brcmf_flowring_ifidx_get_def brcmf_flowring_tid_def nth_opt_in k(1))
  next
    case miss
    then show thesis using that(1) by simp
  qed
qed

theorem flowring_lookup_sound_witness:
  "\<exists>r. brcmf_flowring_lookup (brcmf_flowring_attach 2 :: nat flowring) [2, 0, 0, 0, 0, 1] 5 0 = Some r"
  by (rule flowring_lookup_sound [OF close_del_ok fr_attach, of "[2, 0, 0, 0, 0, 1]" 5 0]) auto

lemma flowring_queue_parts:
  assumes "fr_reachable del flow" and "fr_ring flow f = Some r" and "del_ok del"
  shows "\<exists>flow' evs. brcmf_flowring_enqueue flow f p = Some (of_nat (Suc (length (fr_skblist r))), flow', evs)
      \<and> fr_reachable del flow' \<and> (\<forall>g. g \<noteq> f \<longrightarrow> fr_ring flow' g = fr_ring flow g)
      \<and> fr_ring flow' f = Some (r\<lparr>fr_skblist := fr_skblist r @ [p],
           blocked := (blocked r \<or> BRCMF_FLOWRING_HIGH \<le> length (fr_skblist r))\<rparr>)"
    and "\<exists>flow' evs. brcmf_flowring_dequeue flow f
        = Some (if status r = RING_OPEN \<and> fr_skblist r \<noteq> [] then Some (hd (fr_skblist r)) else None, flow', evs)
      \<and> fr_reachable del flow' \<and> (\<forall>g. g \<noteq> f \<longrightarrow> fr_ring flow' g = fr_ring flow g)
      \<and> fr_ring flow' f = Some (if status r \<noteq> RING_OPEN then r else r\<lparr>fr_skblist := tl (fr_skblist r),
           blocked := (blocked r \<and> BRCMF_FLOWRING_LOW \<le> length (tl (fr_skblist r)))\<rparr>)"
    and "\<exists>flow'. brcmf_flowring_reinsert flow f p = Some flow' \<and> fr_reachable del flow'
      \<and> fr_ring flow' f = Some (r\<lparr>fr_skblist := p # fr_skblist r\<rparr>)
      \<and> (\<forall>g. g \<noteq> f \<longrightarrow> fr_ring flow' g = fr_ring flow g)"
    and "\<exists>flow' evs x. brcmf_flowring_delete flow f = Some (flow', evs @ map (TxFinalize x) (fr_skblist r))
      \<and> fr_reachable del flow' \<and> fr_ring flow' f = None \<and> (\<forall>g. g \<noteq> f \<longrightarrow> fr_ring flow' g = fr_ring flow g)
      \<and> set evs \<subseteq> {TxFlowBlock x False} \<and> brcmf_flowring_ifidx_get flow f = Some x"
proof -
  note inv = fr_reachable_inv [OF assms(1,3)]
  show "\<exists>flow' evs. brcmf_flowring_enqueue flow f p = Some (of_nat (Suc (length (fr_skblist r))), flow', evs)
      \<and> fr_reachable del flow' \<and> (\<forall>g. g \<noteq> f \<longrightarrow> fr_ring flow' g = fr_ring flow g)
      \<and> fr_ring flow' f = Some (r\<lparr>fr_skblist := fr_skblist r @ [p],
           blocked := (blocked r \<or> BRCMF_FLOWRING_HIGH \<le> length (fr_skblist r))\<rparr>)"
    using enqueue_eq [OF inv assms(2), of p] by (metis fr_next [OF assms(1) st_enqueue])
  show "\<exists>flow' evs. brcmf_flowring_dequeue flow f
        = Some (if status r = RING_OPEN \<and> fr_skblist r \<noteq> [] then Some (hd (fr_skblist r)) else None, flow', evs)
      \<and> fr_reachable del flow' \<and> (\<forall>g. g \<noteq> f \<longrightarrow> fr_ring flow' g = fr_ring flow g)
      \<and> fr_ring flow' f = Some (if status r \<noteq> RING_OPEN then r else r\<lparr>fr_skblist := tl (fr_skblist r),
           blocked := (blocked r \<and> BRCMF_FLOWRING_LOW \<le> length (tl (fr_skblist r)))\<rparr>)"
  proof (rule dequeue_eq [OF inv assms(2)])
    fix flow' evs
    assume d: "brcmf_flowring_dequeue flow f = Some (if status r = RING_OPEN \<and> fr_skblist r \<noteq> [] then Some (hd (fr_skblist r)) else None, flow', evs)"
      "fr_ring flow' f = Some (if status r \<noteq> RING_OPEN then r else r\<lparr>fr_skblist := tl (fr_skblist r),
       blocked := (blocked r \<and> 768 \<le> length (tl (fr_skblist r)))\<rparr>)"
      "\<And>g. g \<noteq> f \<Longrightarrow> fr_ring flow' g = fr_ring flow g"
    have "fr_reachable del flow'" using fr_next [OF assms(1) st_dequeue [OF d(1)]] .
    with d show ?thesis by (intro exI [of _ flow'] exI [of _ evs]) simp
  qed
  have re: "brcmf_flowring_reinsert flow f p = Some (fr_set_ring f (r\<lparr>fr_skblist := p # fr_skblist r\<rparr>) flow)"
    using assms(2) by (simp add: brcmf_flowring_reinsert_def)
  show "\<exists>flow'. brcmf_flowring_reinsert flow f p = Some flow' \<and> fr_reachable del flow'
      \<and> fr_ring flow' f = Some (r\<lparr>fr_skblist := p # fr_skblist r\<rparr>)
      \<and> (\<forall>g. g \<noteq> f \<longrightarrow> fr_ring flow' g = fr_ring flow g)"
    using re fr_next [OF assms(1) st_reinsert [OF re]] assms(2) by simp
  have "brcmf_flowring_ifidx_get flow f = Some (fr_if flow r)"
    using ifidx_get_eq [OF inv assms(2)] by (simp add: fr_if_def)
  then show "\<exists>flow' evs x. brcmf_flowring_delete flow f = Some (flow', evs @ map (TxFinalize x) (fr_skblist r))
      \<and> fr_reachable del flow' \<and> fr_ring flow' f = None \<and> (\<forall>g. g \<noteq> f \<longrightarrow> fr_ring flow' g = fr_ring flow g)
      \<and> set evs \<subseteq> {TxFlowBlock x False} \<and> brcmf_flowring_ifidx_get flow f = Some x"
    using delete_inv [OF inv assms(2)] by (metis fr_next [OF assms(1) st_delete])
qed

text \<open>On an existing ring of a reachable state the queue operations succeed: enqueue appends and
  returns the new length, dequeue of an open ring takes the oldest packet (and nothing from a ring that is
  not open), reinsert puts a packet back in front, the ring becomes blocked exactly when the queue grows past
  the high mark and unblocked exactly when it shrinks below the low mark, and deletion hands every queued
  packet to txfinalize in queue order; all of them lead to reachable states and leave the other rings alone.\<close>

theorem flowring_queue_ops:
  assumes "fr_reachable del flow" and "fr_ring flow f = Some r" and "del_ok del"
  shows "(\<exists>flow' evs. brcmf_flowring_enqueue flow f p = Some (of_nat (Suc (length (fr_skblist r))), flow', evs)
      \<and> fr_reachable del flow' \<and> (\<forall>g. g \<noteq> f \<longrightarrow> fr_ring flow' g = fr_ring flow g)
      \<and> fr_ring flow' f = Some (r\<lparr>fr_skblist := fr_skblist r @ [p],
           blocked := (blocked r \<or> BRCMF_FLOWRING_HIGH \<le> length (fr_skblist r))\<rparr>))
    \<and> (\<exists>flow' evs. brcmf_flowring_dequeue flow f
        = Some (if status r = RING_OPEN \<and> fr_skblist r \<noteq> [] then Some (hd (fr_skblist r)) else None, flow', evs)
      \<and> fr_reachable del flow' \<and> (\<forall>g. g \<noteq> f \<longrightarrow> fr_ring flow' g = fr_ring flow g)
      \<and> fr_ring flow' f = Some (if status r \<noteq> RING_OPEN then r else r\<lparr>fr_skblist := tl (fr_skblist r),
           blocked := (blocked r \<and> BRCMF_FLOWRING_LOW \<le> length (tl (fr_skblist r)))\<rparr>))
    \<and> (\<exists>flow'. brcmf_flowring_reinsert flow f p = Some flow' \<and> fr_reachable del flow'
      \<and> fr_ring flow' f = Some (r\<lparr>fr_skblist := p # fr_skblist r\<rparr>)
      \<and> (\<forall>g. g \<noteq> f \<longrightarrow> fr_ring flow' g = fr_ring flow g))
    \<and> (\<exists>flow' evs x. brcmf_flowring_delete flow f = Some (flow', evs @ map (TxFinalize x) (fr_skblist r))
      \<and> fr_reachable del flow' \<and> fr_ring flow' f = None \<and> (\<forall>g. g \<noteq> f \<longrightarrow> fr_ring flow' g = fr_ring flow g)
      \<and> set evs \<subseteq> {TxFlowBlock x False} \<and> brcmf_flowring_ifidx_get flow f = Some x)"
  by (intro conjI flowring_queue_parts [OF assms])

lemma fr_probe_first:
  "unat idx < length h \<Longrightarrow> p (h ! unat idx) \<Longrightarrow> fr_probe p h 512 idx = Some (Some idx)"
  using fr_probe.simps(2) [of p h 511 idx] by (simp add: nth_opt_in)

text \<open>A state with one ring, for the witnesses: created for the key below.\<close>

lemma attach_create:
  "\<exists>flow' r. brcmf_flowring_create True (brcmf_flowring_attach 2 :: 'p flowring) [2, 0, 0, 0, 0, 1] 5 0 = Some (0, flow')
     \<and> fr_ring flow' 0 = Some r \<and> fr_reachable del flow'"
proof -
  have c: "brcmf_flowring_create True (brcmf_flowring_attach 2 :: 'p flowring) [2, 0, 0, 0, 0, 1] 5 0
    = Some (0, (brcmf_flowring_attach 2)\<lparr>fl_hash := (fl_hash (brcmf_flowring_attach 2 :: 'p flowring))
          [2 := \<lparr>fh_mac = [2, 0, 0, 0, 0, 1], fh_fifo = 2, fh_ifidx = 0, fh_flowid = 0\<rparr>],
        fl_rings := [Some \<lparr>hash_id = 2, blocked = False, status = RING_CLOSED, fr_skblist = []\<rparr>, None]\<rparr>)"
    (is "_ = Some (0, ?fl)")
  proof -
    have k: "fr_key (brcmf_flowring_attach 2 :: 'p flowring) [2, 0, 0, 0, 0, 1] 5 0 = Some (True, [2, 0, 0, 0, 0, 1], 2, 2)"
      by (simp add: fr_key_def brcmf_flowring_attach_def nth_opt_def brcmf_flowring_prio2fifo_def is_multicast_ether_addr_def)
    have a: "fl_hash (brcmf_flowring_attach 2 :: 'p flowring) = replicate 512
        \<lparr>fh_mac = zero_mac, fh_fifo = 0, fh_ifidx = BRCMF_FLOWRING_INVALID_IFIDX, fh_flowid = 0\<rparr>"
      "fl_rings (brcmf_flowring_attach 2 :: 'p flowring) = [None, None]"
      "nrofrings (brcmf_flowring_attach 2 :: 'p flowring) = 2"
      by (simp_all add: brcmf_flowring_attach_def) (simp add: numeral_2_eq_2)
    have "fr_free_ring [None, None :: 'p flowring_ring option] 2 0 = Some 0"
      unfolding numeral_2_eq_2 by (simp add: nth_opt_def)
    then show ?thesis
      by (simp add: brcmf_flowring_create_def k fr_probe_first a upd_opt_def)
  qed
  moreover have "fr_ring ?fl 0 = Some \<lparr>hash_id = 2, blocked = False, status = RING_CLOSED, fr_skblist = []\<rparr>"
    by (simp add: fr_ring_def fr_ptr_def nth_opt_def)
  moreover have "fr_reachable del ?fl" by (rule fr_next [OF fr_attach st_create [OF c]]) simp_all
  ultimately show ?thesis by blast
qed

theorem flowring_queue_ops_witness:
  "\<exists>(flow :: nat flowring) flow' evs. brcmf_flowring_enqueue flow 0 7 = Some (flow', evs)"
proof -
  obtain fl :: "nat flowring" and r where fl: "fr_reachable close_del fl" "fr_ring fl 0 = Some r" using attach_create by blast
  then show ?thesis using flowring_queue_ops [OF fl close_del_ok, of 7] by blast
qed

text \<open>\<open>brcmf_flowring_block\<close> tells the interface about a change of a ring's state exactly when the state
  really changes and no other open ring of the interface is blocked, so that with several blocked rings the
  interface is stopped by the first and woken by the last.\<close>

theorem flowring_block_exact:
  assumes "fr_reachable del flow" and "fr_ring flow f = Some r" and "del_ok del"
  shows "\<exists>flow' x. brcmf_flowring_ifidx_get flow f = Some x
     \<and> brcmf_flowring_block flow f b = Some (flow',
         if blocked r = b \<or> (\<exists>g q. g \<noteq> f \<and> fr_ring flow g = Some q \<and> status q = RING_OPEN
              \<and> brcmf_flowring_ifidx_get flow g = Some x \<and> blocked q)
         then [] else [TxFlowBlock x b])
     \<and> fr_ring flow' f = Some (r\<lparr>blocked := b\<rparr>) \<and> (\<forall>g. g \<noteq> f \<longrightarrow> fr_ring flow' g = fr_ring flow g)"
proof -
  note inv = fr_reachable_inv [OF assms(1,3)]
  have x: "brcmf_flowring_ifidx_get flow g = Some (fr_if flow q)" if "fr_ring flow g = Some q" for g q
    using ifidx_get_eq [OF inv that] by (simp add: fr_if_def)
  have o: "fr_other flow f (fr_if flow r) \<longleftrightarrow> (\<exists>g q. g \<noteq> f \<and> fr_ring flow g = Some q \<and> status q = RING_OPEN
              \<and> brcmf_flowring_ifidx_get flow g = Some (fr_if flow r) \<and> blocked q)"
    unfolding fr_other_def using x by (metis option.inject)
  obtain flow' evs where b: "brcmf_flowring_block flow f b = Some (flow', evs)"
    "fr_ring flow' f = Some (r\<lparr>blocked := b\<rparr>)" "\<And>g. g \<noteq> f \<Longrightarrow> fr_ring flow' g = fr_ring flow g"
    using block_inv [OF inv assms(2)] by metis
  have "evs = (if blocked r = b \<or> fr_other flow f (fr_if flow r) then [] else [TxFlowBlock (fr_if flow r) b])"
    using b(1) block_eq [OF inv assms(2), of b] by (auto split: if_splits)
  with b x [OF assms(2)] show ?thesis unfolding o by blast
qed

theorem flowring_block_exact_witness:
  "\<exists>(flow :: nat flowring) flow' evs. brcmf_flowring_block flow 0 True = Some (flow', evs)"
proof -
  obtain fl :: "nat flowring" and r where fl: "fr_reachable close_del fl" "fr_ring fl 0 = Some r" using attach_create by blast
  then show ?thesis using flowring_block_exact [OF fl close_del_ok, of True] by blast
qed

text \<open>A lookup in station mode ignores the address of the hash entry. When a ring for a TDLS peer is the
  only ring of an interface and traffic class, the lookup for any other unicast destination of that class
  returns the peer's ring, although the ring was created with the peer's address.\<close>

theorem flowring_tdls_capture:
  assumes key: "length peer = 6" "length da = 6" "unat prio < 8" "unat ifidx < 16" and ne: "da \<noteq> peer"
    and made: "brcmf_flowring_create True (brcmf_flowring_add_tdls_peer True (brcmf_flowring_attach n :: 'p flowring) peer)
                 peer prio ifidx = Some (r, flow')" "unat r < unat n"
  shows "brcmf_flowring_lookup flow' da prio ifidx = Some r
    \<and> (\<exists>h \<in> set (fl_hash flow'). fh_mac h = peer \<and> ucast (fh_flowid h) = r \<and> fh_ifidx h = ifidx)"
proof -
  define flow where "flow = brcmf_flowring_add_tdls_peer True (brcmf_flowring_attach n :: 'p flowring) peer"
  note ifx = ifidx_small_valid [OF key(4)]
  have inv: "flowring_inv flow" unfolding flow_def by (intro add_tdls_inv attach_inv)
  have fl: "addr_mode flow = replicate 16 ADDR_INDIRECT" "tdls_active flow" "tdls_entry flow = [peer]" "nrofrings flow = n"
    "fl_hash flow = replicate 512 \<lparr>fh_mac = zero_mac, fh_fifo = 0, fh_ifidx = BRCMF_FLOWRING_INVALID_IFIDX, fh_flowid = 0\<rparr>"
    by (simp_all add: flow_def brcmf_flowring_add_tdls_peer_def brcmf_flowring_attach_def)
  obtain fifo where fifo: "nth_opt brcmf_flowring_prio2fifo (unat prio) = Some fifo"
    using key(3) by (simp add: brcmf_flowring_prio2fifo_def)
  have kp: "fr_key flow peer prio ifidx = Some (False, peer, fifo, (ucast (peer ! 5) * 2 + ucast fifo + ucast ifidx * 16) AND 511)"
    using key fifo fl by (simp add: fr_key_def nth_opt_in is_multicast_ether_addr_def brcmf_flowring_is_tdls_mac_def)
  have kd: "fr_key fl2 da prio ifidx = Some (True, da, fifo, (ucast fifo + ucast ifidx * 16) AND 511)"
    if "addr_mode fl2 = addr_mode flow" "tdls_entry fl2 = tdls_entry flow" for fl2 :: "'p flowring"
    using key ne fifo fl that by (simp add: fr_key_def nth_opt_in is_multicast_ether_addr_def brcmf_flowring_is_tdls_mac_def)
  have c: "brcmf_flowring_create True flow peer prio ifidx = Some (r, flow')" using made(1) by (simp add: flow_def)
  show ?thesis
  proof (cases rule: create_cases [OF inv kp and_511_less ifx, of True, case_names no_hash no_ring made])
    case (made f idx)
    then have r: "r = ucast f" and flow': "flow' = flow\<lparr>
         fl_hash := (fl_hash flow)[unat idx := \<lparr>fh_mac = peer, fh_fifo = fifo, fh_ifidx = ifidx, fh_flowid = f\<rparr>],
         fl_rings := (fl_rings flow)[unat f := Some \<lparr>hash_id = idx, blocked = False, status = RING_CLOSED, fr_skblist = []\<rparr>]\<rparr>"
      using c by simp_all
    have inv': "flowring_inv flow'" using create_inv [OF inv kp and_511_less ifx c] by simp
    have h: "fl_hash flow' ! j = (if j = unat idx then \<lparr>fh_mac = peer, fh_fifo = fifo, fh_ifidx = ifidx, fh_flowid = f\<rparr>
        else \<lparr>fh_mac = zero_mac, fh_fifo = 0, fh_ifidx = BRCMF_FLOWRING_INVALID_IFIDX, fh_flowid = 0\<rparr>)" if "j < 512" for j
      using that made(4) by (simp add: flow' fl(5) nth_list_update)
    have mem: "fl_hash flow' ! unat idx \<in> set (fl_hash flow')" using invD(1) [OF inv'] made(4) by (intro nth_mem) simp
    have kd': "fr_key flow' da prio ifidx = Some (True, da, fifo, (ucast fifo + ucast ifidx * 16) AND 511)"
      by (rule kd) (simp_all add: flow')
    have "brcmf_flowring_lookup flow' da prio ifidx = Some r"
    proof (cases rule: lookup_eq [OF inv' kd' and_511_less ifx refl, case_names hit miss])
      case (hit j q)
      then show ?thesis using ifx r h [OF hit(1)] by (simp split: if_splits)
    next
      case miss
      then show ?thesis using made(4) h [OF made(4)] by auto
    qed
    with mem h [OF made(4)] show ?thesis by (auto intro!: bexI [OF _ mem] simp: r)
  qed (use made(2) c fl(4) unat_widths_less(2) [of n] in auto)
qed

theorem flowring_tdls_capture_witness:
  "\<exists>flow'. brcmf_flowring_lookup (flow' :: nat flowring) [2, 0, 0, 0, 0, 9] 5 0 = Some 0
     \<and> (\<exists>h \<in> set (fl_hash flow'). fh_mac h = [2, 0, 0, 0, 0, 1] \<and> ucast (fh_flowid h) = (0 :: u32))"
proof -
  define fl where "fl = brcmf_flowring_add_tdls_peer True (brcmf_flowring_attach 2 :: nat flowring) [2, 0, 0, 0, 0, 1]"
  have k: "fr_key fl [2, 0, 0, 0, 0, 1] 5 0 = Some (False, [2, 0, 0, 0, 0, 1], 2, 4)"
    by (simp add: fr_key_def fl_def brcmf_flowring_add_tdls_peer_def brcmf_flowring_attach_def nth_opt_def
        brcmf_flowring_prio2fifo_def is_multicast_ether_addr_def brcmf_flowring_is_tdls_mac_def)
  have a: "fl_hash fl = replicate 512
        \<lparr>fh_mac = zero_mac, fh_fifo = 0, fh_ifidx = BRCMF_FLOWRING_INVALID_IFIDX, fh_flowid = 0\<rparr>"
      "fl_rings fl = replicate 2 None" "nrofrings fl = 2"
    by (simp_all add: fl_def brcmf_flowring_add_tdls_peer_def brcmf_flowring_attach_def)
  have "fr_free_ring (replicate 2 (None :: nat flowring_ring option)) 2 0 = Some 0"
    unfolding numeral_2_eq_2 by (simp add: nth_opt_def)
  then obtain flow' where "brcmf_flowring_create True fl [2, 0, 0, 0, 0, 1] 5 0 = Some (0, flow')"
    by (simp add: brcmf_flowring_create_def k fr_probe_first a upd_opt_def)
  then show ?thesis
    using flowring_tdls_capture [of "[2, 0, 0, 0, 0, 1]" "[2, 0, 0, 0, 0, 9]" 5 0 2 0 flow'] unfolding fl_def by auto
qed

end
