(* ===== verification/Nvram.thy ===== *)
theory Nvram
  imports Prelude
begin

text \<open>
  The NVRAM file parser of \<open>firmware.c\<close>: it turns a text file of \<open>key=value\<close> lines into the image
  the device reads.

  The file is the byte list \<open>data\<close>, whose length is \<open>data_len\<close>; the \<open>u32\<close> fields that count
  bytes of it are \<^typ>\<open>nat\<close>, which is exact for files below 4 GiB. A read outside the file or
  outside a buffer and a write outside a buffer are \<open>None\<close>.
\<close>

section \<open>The parser\<close>

abbreviation BRCMF_FW_MAX_NVRAM_SIZE :: nat where "BRCMF_FW_MAX_NVRAM_SIZE \<equiv> 64000"
abbreviation BRCMF_FW_NVRAM_DEVPATH_LEN :: nat where "BRCMF_FW_NVRAM_DEVPATH_LEN \<equiv> 19"
abbreviation BRCMF_FW_MACADDR_LEN :: nat where "BRCMF_FW_MACADDR_LEN \<equiv> 7 + 6 * 3"

definition BRCMF_FW_DEFAULT_BOARDREV :: "u8 list" where
  "BRCMF_FW_DEFAULT_BOARDREV = str_bytes ''boardrev=0xff''"

datatype nvram_parser_state = IDLE | KEY | VALUE | COMMENT | END

record nvram_parser =
  nv_state :: nvram_parser_state
  nvram :: "u8 list"
  nvram_len :: nat
  nv_line :: u32
  nv_column :: u32
  nv_pos :: nat
  nv_entry :: nat
  multi_dev_v1 :: bool
  multi_dev_v2 :: bool
  boardrev_found :: bool
  strip_mac :: bool

text \<open>The characters the parser names: newline, carriage return, tab, space, hash and equals sign.\<close>

abbreviation chr_nl :: u8 where "chr_nl \<equiv> 10"
abbreviation chr_cr :: u8 where "chr_cr \<equiv> 13"
abbreviation chr_tab :: u8 where "chr_tab \<equiv> 9"
abbreviation chr_sp :: u8 where "chr_sp \<equiv> 32"
abbreviation chr_hash :: u8 where "chr_hash \<equiv> 35"
abbreviation chr_eq :: u8 where "chr_eq \<equiv> 61"

definition is_nvram_char :: "u8 \<Rightarrow> bool" where
  "is_nvram_char c = (if c = chr_hash then False else 0x20 \<le> c \<and> c < 0x7f)"

definition is_whitespace :: "u8 \<Rightarrow> bool" where
  "is_whitespace c = (c = chr_sp \<or> c = chr_cr \<or> c = chr_nl \<or> c = chr_tab)"

text \<open>\<open>strncmp(&d[p], s, strlen(s)) == 0\<close>: the comparison stops at the first difference.\<close>

fun strncmp_eq :: "u8 list \<Rightarrow> nat \<Rightarrow> u8 list \<Rightarrow> bool option" where
  "strncmp_eq d p [] = Some True"
| "strncmp_eq d p (c # cs) = do {
     b \<leftarrow> nth_opt d p;
     if b = c then strncmp_eq d (p + 1) cs else Some False }"

text \<open>\<open>strchr\<close>: undefined when the string is not terminated, \<open>Some None\<close> when the character is not
  found before the terminating NUL.\<close>

fun strchr :: "u8 \<Rightarrow> u8 list \<Rightarrow> nat option option" where
  "strchr c [] = None"
| "strchr c (x # xs) = (if x = c then Some (Some 0) else if x = 0 then Some None
     else map_option (map_option Suc) (strchr c xs))"

definition brcmf_nvram_handle_idle :: "u8 list \<Rightarrow> nvram_parser \<Rightarrow> (nvram_parser_state \<times> nvram_parser) option" where
  "brcmf_nvram_handle_idle data nvp = do {
     c \<leftarrow> nth_opt data (nv_pos nvp);
     let proceed = (IDLE, nvp\<lparr>nv_column := nv_column nvp + 1, nv_pos := nv_pos nvp + 1\<rparr>);
     if c = chr_nl then Some (COMMENT, nvp)
     else if is_whitespace c \<or> c = 0 then Some proceed
     else if c = chr_hash then Some (COMMENT, nvp)
     else if is_nvram_char c then Some (KEY, nvp\<lparr>nv_entry := nv_pos nvp\<rparr>)
     else Some proceed }"

definition brcmf_nvram_handle_key :: "u8 list \<Rightarrow> nvram_parser \<Rightarrow> (nvram_parser_state \<times> nvram_parser) option" where
  "brcmf_nvram_handle_key data nvp = do {
     c \<leftarrow> nth_opt data (nv_pos nvp);
     if c = chr_eq then do {
       raw1 \<leftarrow> strncmp_eq data (nv_entry nvp) (str_bytes ''RAW1'');
       let st = (if raw1 then COMMENT else VALUE);
       v1 \<leftarrow> strncmp_eq data (nv_entry nvp) (str_bytes ''devpath'');
       v2 \<leftarrow> strncmp_eq data (nv_entry nvp) (str_bytes ''pcie/'');
       rev \<leftarrow> strncmp_eq data (nv_entry nvp) (str_bytes ''boardrev'');
       mac \<leftarrow> (if strip_mac nvp then strncmp_eq data (nv_entry nvp) (str_bytes ''macaddr'') else Some False);
       let st = (if mac then COMMENT else st);
       Some (st, nvp\<lparr>multi_dev_v1 := multi_dev_v1 nvp \<or> v1, multi_dev_v2 := multi_dev_v2 nvp \<or> v2,
         boardrev_found := boardrev_found nvp \<or> rev,
         nv_column := nv_column nvp + 1, nv_pos := nv_pos nvp + 1\<rparr>) }
     else if \<not> is_nvram_char c \<or> c = chr_sp then Some (COMMENT, nvp)
     else Some (nv_state nvp, nvp\<lparr>nv_column := nv_column nvp + 1, nv_pos := nv_pos nvp + 1\<rparr>) }"

definition brcmf_nvram_handle_value :: "u8 list \<Rightarrow> nvram_parser \<Rightarrow> (nvram_parser_state \<times> nvram_parser) option" where
  "brcmf_nvram_handle_value data nvp = do {
     c \<leftarrow> nth_opt data (nv_pos nvp);
     if \<not> is_nvram_char c then do {
       let cplen = nv_pos nvp - nv_entry nvp;
       if BRCMF_FW_MAX_NVRAM_SIZE \<le> nvram_len nvp + cplen + 1 then Some (END, nvp)
       else do {
         skv \<leftarrow> read_bytes data (nv_entry nvp) cplen;
         buf \<leftarrow> write_bytes (nvram nvp) (nvram_len nvp) skv;
         buf \<leftarrow> upd_opt buf (nvram_len nvp + cplen) 0;
         Some (IDLE, nvp\<lparr>nvram := buf, nvram_len := nvram_len nvp + cplen + 1\<rparr>) } }
     else Some (VALUE, nvp\<lparr>nv_pos := nv_pos nvp + 1, nv_column := nv_column nvp + 1\<rparr>) }"

definition brcmf_nvram_handle_comment :: "u8 list \<Rightarrow> nvram_parser \<Rightarrow> (nvram_parser_state \<times> nvram_parser) option" where
  "brcmf_nvram_handle_comment data nvp = do {
     let sol = drop (nv_pos nvp) data;
     nl \<leftarrow> strchr chr_nl sol;
     eoc \<leftarrow> (case nl of None \<Rightarrow> strchr 0 sol | Some e \<Rightarrow> Some (Some e));
     case eoc of
       None \<Rightarrow> Some (END, nvp)
     | Some e \<Rightarrow> Some (IDLE, nvp\<lparr>nv_line := nv_line nvp + 1, nv_column := 1, nv_pos := nv_pos nvp + e + 1\<rparr>) }"

definition brcmf_nvram_handle_end :: "u8 list \<Rightarrow> nvram_parser \<Rightarrow> (nvram_parser_state \<times> nvram_parser) option" where
  "brcmf_nvram_handle_end data nvp = Some (END, nvp)"

definition nv_parser_states :: "u8 list \<Rightarrow> nvram_parser \<Rightarrow> (nvram_parser_state \<times> nvram_parser) option" where
  "nv_parser_states data nvp = (case nv_state nvp of
       IDLE \<Rightarrow> brcmf_nvram_handle_idle data nvp
     | KEY \<Rightarrow> brcmf_nvram_handle_key data nvp
     | VALUE \<Rightarrow> brcmf_nvram_handle_value data nvp
     | COMMENT \<Rightarrow> brcmf_nvram_handle_comment data nvp
     | END \<Rightarrow> brcmf_nvram_handle_end data nvp)"

text \<open>What the key state does to the position.\<close>

lemma handle_key_shape:
  assumes "brcmf_nvram_handle_key data nvp = Some (st, nvp')"
  shows "nv_pos nvp' = nv_pos nvp + 1 \<and> (st = COMMENT \<or> st = VALUE \<or> st = nv_state nvp) \<or> st = COMMENT \<and> nvp' = nvp"
proof -
  obtain c where c: "nth_opt data (nv_pos nvp) = Some c"
    using assms by (cases "nth_opt data (nv_pos nvp)") (simp_all add: brcmf_nvram_handle_key_def)
  show ?thesis
  proof (cases "c = chr_eq")
    case True
    with assms c show ?thesis
      by (simp add: brcmf_nvram_handle_key_def Let_def bind_Some_iff del: nth_opt_Some split del: if_split)
        (elim exE conjE, hypsubst, simp)
  next
    case False
    with assms c show ?thesis
      by (simp add: brcmf_nvram_handle_key_def del: nth_opt_Some split: if_splits) auto
  qed
qed

text \<open>Each step consumes a character or moves the state down this order, which is why the loop ends.\<close>

fun nv_rank :: "nvram_parser_state \<Rightarrow> nat" where
  "nv_rank VALUE = 3" | "nv_rank IDLE = 2" | "nv_rank KEY = 1" | "nv_rank COMMENT = 0" | "nv_rank END = 0"

lemma nv_step_measure:
  assumes "nv_parser_states data nvp = Some (st, nvp')" and "st \<noteq> END"
  shows "4 * (length data - nv_pos nvp') + nv_rank st < 4 * (length data - nv_pos nvp) + nv_rank (nv_state nvp)
    \<or> length data \<le> nv_pos nvp"
proof (cases "nv_state nvp")
  case IDLE
  with assms show ?thesis
    by (auto simp: nv_parser_states_def brcmf_nvram_handle_idle_def bind_Some_iff Let_def split: if_splits)
next
  case KEY
  with assms handle_key_shape [of data nvp st nvp'] show ?thesis
    by (cases st) (auto simp: nv_parser_states_def)
next
  case VALUE
  with assms show ?thesis
    by (auto simp: nv_parser_states_def brcmf_nvram_handle_value_def bind_Some_iff Let_def split: if_splits)
next
  case COMMENT
  with assms show ?thesis
    by (auto simp: nv_parser_states_def brcmf_nvram_handle_comment_def bind_Some_iff Let_def split: option.splits)
next
  case END
  with assms show ?thesis by (simp add: nv_parser_states_def brcmf_nvram_handle_end_def)
qed

text \<open>The main loop.\<close>

function nv_parse :: "u8 list \<Rightarrow> nvram_parser \<Rightarrow> nvram_parser option" where
  "nv_parse data nvp =
     (if nv_pos nvp < length data then
        (case nv_parser_states data nvp of
           None \<Rightarrow> None
         | Some (st, nvp') \<Rightarrow> if st = END then Some (nvp'\<lparr>nv_state := st\<rparr>) else nv_parse data (nvp'\<lparr>nv_state := st\<rparr>))
      else Some nvp)"
  by pat_completeness auto
termination
proof (relation "measure (\<lambda>(data, nvp). 4 * (length data - nv_pos nvp) + nv_rank (nv_state nvp))", goal_cases)
  case (2 data nvp x st nvp')
  then show ?case using nv_step_measure [of data nvp st nvp'] by auto
qed simp

declare nv_parse.simps [simp del]

section \<open>Initialisation\<close>

text \<open>\<open>alloc\<close> is whether \<open>kzalloc\<close> succeeds. The buffer has room for the properties added later,
  the padding and the length token.\<close>

definition brcmf_init_nvram_parser :: "bool \<Rightarrow> u8 list \<Rightarrow> rc \<times> nvram_parser option" where
  "brcmf_init_nvram_parser alloc data =
     (let size = (if BRCMF_FW_MAX_NVRAM_SIZE < length data then BRCMF_FW_MAX_NVRAM_SIZE else length data);
          size = size + length BRCMF_FW_DEFAULT_BOARDREV + 1;
          size = size + BRCMF_FW_MACADDR_LEN + 1;
          size = size + 1 + 3 + 4
      in if \<not> alloc then (ERR ENOMEM, None)
         else (OK, Some \<lparr>nv_state = IDLE, nvram = replicate size 0, nvram_len = 0, nv_line = 1, nv_column = 1,
           nv_pos = 0, nv_entry = 0, multi_dev_v1 = False, multi_dev_v2 = False, boardrev_found = False,
           strip_mac = False\<rparr>))"

section \<open>Files for several devices\<close>

text \<open>The inner loops: skipping to the end of an entry, and copying an entry.\<close>

function nv_skip :: "u8 list \<Rightarrow> nat \<Rightarrow> nat option" where
  "nv_skip src i = (if length src \<le> i then None else if src ! i = 0 then Some i else nv_skip src (i + 1))"
  by pat_completeness auto
termination by (relation "measure (\<lambda>(src, i). length src - i)") auto

function nv_copy :: "u8 list \<Rightarrow> u8 list \<Rightarrow> nat \<Rightarrow> nat \<Rightarrow> (u8 list \<times> nat \<times> nat) option" where
  "nv_copy src dst i j =
     (if length src \<le> i then None
      else if src ! i = 0 then Some (dst, i, j)
      else if length dst \<le> j then None
      else nv_copy src (dst[j := src ! i]) (i + 1) (j + 1))"
  by pat_completeness auto
termination by (relation "measure (\<lambda>(src, dst, i, j). length src - i)") auto

declare nv_skip.simps [simp del] nv_copy.simps [simp del]

text \<open>The part both loops share: copy the entry at \<open>i\<close> without its prefix, then its terminator; then
  move on to the next entry.\<close>

definition nv_take :: "u8 list \<Rightarrow> u8 list \<Rightarrow> nat \<Rightarrow> nat \<Rightarrow> bool \<Rightarrow> (u8 list \<times> nat \<times> nat \<times> bool) option" where
  "nv_take src dst i j bf = do {
     rev \<leftarrow> strncmp_eq src i (str_bytes ''boardrev'');
     (dst, i, j) \<leftarrow> nv_copy src dst i j;
     dst \<leftarrow> upd_opt dst j 0;
     Some (dst, i, j + 1, bf \<or> rev) }"

lemma nv_skip_bounds: "nv_skip src i = Some i' \<Longrightarrow> i \<le> i' \<and> i' < length src \<and> src ! i' = 0"
  by (induction src i rule: nv_skip.induct) (auto simp: nv_skip.simps split: if_splits)

lemma nv_copy_bounds: "nv_copy src dst i j = Some (dst', i', j') \<Longrightarrow> i \<le> i' \<and> i' < length src"
proof (induction src dst i j rule: nv_copy.induct)
  case (1 src dst i j)
  from "1.prems" "1.IH" show ?case by (subst (asm) nv_copy.simps) (fastforce split: if_splits)
qed

lemma nv_take_bounds: "nv_take src dst i j bf = Some (dst', i', j', bf') \<Longrightarrow> i \<le> i' \<and> i' < length src"
  by (auto simp: nv_take_def bind_Some_iff dest: nv_copy_bounds)

text \<open>The search for the device path of version 1, which finds the identifier of the entries.\<close>

function nv_find_devpath :: "u8 list \<Rightarrow> u8 list \<Rightarrow> u8 list \<Rightarrow> nat \<Rightarrow> nat \<Rightarrow> u8 option option" where
  "nv_find_devpath src pci pcie bound i =
     (if i < bound then do {
        dev \<leftarrow> strncmp_eq src i (str_bytes ''devpath'');
        hit \<leftarrow> (if \<not> dev then Some False else do {
          a \<leftarrow> strncmp_eq src (i + 8) pci;
          if a then Some True else strncmp_eq src (i + 8) pcie });
        if hit then map_option (\<lambda>c. Some (c - 48)) (nth_opt src (i + 7))
        else (case nv_skip src i of None \<Rightarrow> None | Some i' \<Rightarrow> nv_find_devpath src pci pcie bound (i' + 1)) }
      else Some None)"
  by pat_completeness auto
termination
proof (relation "measure (\<lambda>(src, pci, pcie, bound, i). length src - i)", goal_cases)
  case (2 src pci pcie bound i dev hit i')
  then show ?case using nv_skip_bounds [of src i i'] by auto
qed simp

function nv_v1_loop :: "u8 list \<Rightarrow> u8 \<Rightarrow> nat \<Rightarrow> u8 list \<Rightarrow> nat \<Rightarrow> nat \<Rightarrow> bool \<Rightarrow> (u8 list \<times> nat \<times> bool) option" where
  "nv_v1_loop src dev n dst i j bf =
     (if i < n then do {
        c \<leftarrow> nth_opt src i;
        colon \<leftarrow> (if int (unat c) - 48 = int (unat dev) then map_option (\<lambda>d. d = 58) (nth_opt src (i + 1)) else Some False);
        case (if colon then nv_take src dst (i + 2) j bf else Some (dst, i, j, bf)) of
          None \<Rightarrow> None
        | Some (dst, i, j, bf) \<Rightarrow>
            (case nv_skip src i of None \<Rightarrow> None | Some i' \<Rightarrow> nv_v1_loop src dev n dst (i' + 1) j bf) }
      else Some (dst, j, bf))"
  by pat_completeness auto
termination
proof (relation "measure (\<lambda>(src, dev, n, dst, i, j, bf). length src - i)", goal_cases)
  case (2 src dev n dst i j bf c colon x dst' y i' z j' bf' k)
  then have "i \<le> i'" using nv_take_bounds [of src dst "i + 2" j bf dst' i' j' bf'] by (auto split: if_splits)
  with 2 show ?case using nv_skip_bounds [of src i' k] by auto
qed simp

function nv_v2_loop :: "u8 list \<Rightarrow> u8 list \<Rightarrow> u64 \<Rightarrow> u8 list \<Rightarrow> nat \<Rightarrow> nat \<Rightarrow> bool \<Rightarrow> (u8 list \<times> nat \<times> bool) option" where
  "nv_v2_loop src pre bound dst i j bf =
     (if of_nat i < bound then do {
        m \<leftarrow> strncmp_eq src i pre;
        case (if m then nv_take src dst (i + length pre) j bf else Some (dst, i, j, bf)) of
          None \<Rightarrow> None
        | Some (dst, i, j, bf) \<Rightarrow>
            (case nv_skip src i of None \<Rightarrow> None | Some i' \<Rightarrow> nv_v2_loop src pre bound dst (i' + 1) j bf) }
      else Some (dst, j, bf))"
  by pat_completeness auto
termination
proof (relation "measure (\<lambda>(src, pre, bound, dst, i, j, bf). length src - i)", goal_cases)
  case (2 src pre bound dst i j bf m x dst' y i' z j' bf' k)
  then have "i \<le> i'" using nv_take_bounds [of src dst "i + length pre" j bf dst' i' j' bf'] by (auto split: if_splits)
  with 2 show ?case using nv_skip_bounds [of src i' k] by auto
qed simp

declare nv_find_devpath.simps [simp del] nv_v1_loop.simps [simp del] nv_v2_loop.simps [simp del]

text \<open>The strings printed for a domain and bus number; they are shorter than the buffers.\<close>

definition nv_path :: "string \<Rightarrow> u16 \<Rightarrow> u16 \<Rightarrow> u8 list" where
  "nv_path s d b = str_bytes (snprintf 20 (s @ decimal (unat d) @ ''/'' @ decimal (unat b)))"

definition brcmf_fw_strip_multi_v1 :: "bool \<Rightarrow> nvram_parser \<Rightarrow> u16 \<Rightarrow> u16 \<Rightarrow> nvram_parser option" where
  "brcmf_fw_strip_multi_v1 alloc nvp domain_nr bus_nr =
     (let new = replicate (nvram_len nvp + 1 + 3 + 4) 0; failed = nvp\<lparr>nvram_len := 0\<rparr>
      in if \<not> alloc then Some failed
         else if nvram_len nvp < BRCMF_FW_NVRAM_DEVPATH_LEN + 6 then Some failed
         else do {
           found \<leftarrow> nv_find_devpath (nvram nvp) (nv_path ''=pci/'' domain_nr bus_nr)
                      (nv_path ''=pcie/'' domain_nr bus_nr) (nvram_len nvp - BRCMF_FW_NVRAM_DEVPATH_LEN) 0;
           case found of
             None \<Rightarrow> Some failed
           | Some dev \<Rightarrow> do {
               (new, j, bf) \<leftarrow> nv_v1_loop (nvram nvp) dev (nvram_len nvp) new 0 0 (boardrev_found nvp);
               Some (nvp\<lparr>nvram := new, nvram_len := j, boardrev_found := bf\<rparr>) } })"

definition nv_v2_prefix :: "u16 \<Rightarrow> u16 \<Rightarrow> u8 list" where
  "nv_v2_prefix d b = str_bytes (snprintf 20 (''pcie/'' @ decimal (unat d) @ ''/'' @ decimal (unat b) @ ''/''))"

text \<open>The loop bound of version 2 is the difference of a \<open>u32\<close> and a \<open>size_t\<close>.\<close>

definition brcmf_fw_strip_multi_v2 :: "bool \<Rightarrow> nvram_parser \<Rightarrow> u16 \<Rightarrow> u16 \<Rightarrow> nvram_parser option" where
  "brcmf_fw_strip_multi_v2 alloc nvp domain_nr bus_nr =
     (if \<not> alloc then Some (nvp\<lparr>nvram_len := 0\<rparr>)
      else do {
        let new = replicate (nvram_len nvp + 1 + 3 + 4) 0;
        let prefix = nv_v2_prefix domain_nr bus_nr;
        let bound = of_nat (nvram_len nvp) - of_nat (length prefix);
        (new, j, bf) \<leftarrow> nv_v2_loop (nvram nvp) prefix bound new 0 0 (boardrev_found nvp);
        Some (nvp\<lparr>nvram := new, nvram_len := j, boardrev_found := bf\<rparr>) })"

section \<open>The image\<close>

definition brcmf_fw_add_defaults :: "nvram_parser \<Rightarrow> nvram_parser option" where
  "brcmf_fw_add_defaults nvp =
     (if boardrev_found nvp then Some nvp
      else do {
        buf \<leftarrow> write_bytes (nvram nvp) (nvram_len nvp) BRCMF_FW_DEFAULT_BOARDREV;
        let n = nvram_len nvp + length BRCMF_FW_DEFAULT_BOARDREV;
        buf \<leftarrow> upd_opt buf n 0;
        Some (nvp\<lparr>nvram := buf, nvram_len := n + 1\<rparr>) })"

text \<open>What \<open>%pM\<close> prints for an address.\<close>

definition nv_hex :: "u8 \<Rightarrow> string" where
  "nv_hex b = [hex_digit (unat b div 16), hex_digit (unat b mod 16)]"

fun nv_pM :: "u8 list \<Rightarrow> string" where
  "nv_pM [] = ''''"
| "nv_pM [b] = nv_hex b"
| "nv_pM (b # c # bs) = nv_hex b @ '':'' @ nv_pM (c # bs)"

definition nv_macaddr :: "u8 list \<Rightarrow> u8 list" where
  "nv_macaddr mac = str_bytes (snprintf (BRCMF_FW_MACADDR_LEN + 1) (''macaddr='' @ nv_pM mac))"

definition brcmf_fw_add_macaddr :: "nvram_parser \<Rightarrow> u8 list \<Rightarrow> nvram_parser option" where
  "brcmf_fw_add_macaddr nvp mac = do {
     let s = nv_macaddr mac;
     buf \<leftarrow> write_bytes (nvram nvp) (nvram_len nvp) (s @ [0]);
     Some (nvp\<lparr>nvram := buf, nvram_len := nvram_len nvp + length s + 1\<rparr>) }"

text \<open>The padding loop.\<close>

fun nv_pad :: "u8 list \<Rightarrow> nat \<Rightarrow> nat \<Rightarrow> u8 list option" where
  "nv_pad buf p 0 = Some buf"
| "nv_pad buf p (Suc n) = do { buf \<leftarrow> upd_opt buf p 0; nv_pad buf (p + 1) n }"

definition nv_token :: "u32 \<Rightarrow> u32" where
  "nv_token n = push_bit 16 (NOT n) OR (n AND 0x0000FFFF)"

text \<open>\<open>alloc\<close> and \<open>alloc2\<close> are the outcomes of the two allocations, \<open>mac\<close> the address
  \<open>eth_platform_get_mac_address\<close> finds. The result is NULL (an inner \<^const>\<open>None\<close>) or the buffer
  with the length it reports.\<close>

definition brcmf_fw_nvram_strip ::
  "bool \<Rightarrow> bool \<Rightarrow> u8 list option \<Rightarrow> u8 list \<Rightarrow> u16 \<Rightarrow> u16 \<Rightarrow> (u8 list \<times> nat) option option" where
  "brcmf_fw_nvram_strip alloc alloc2 mac data domain_nr bus_nr =
     (case brcmf_init_nvram_parser alloc data of
        (_, None) \<Rightarrow> Some None
      | (_, Some nvp) \<Rightarrow> do {
          nvp \<leftarrow> nv_parse data (nvp\<lparr>strip_mac := (mac \<noteq> None)\<rparr>);
          nvp \<leftarrow> (if multi_dev_v1 nvp then brcmf_fw_strip_multi_v1 alloc2 (nvp\<lparr>boardrev_found := False\<rparr>) domain_nr bus_nr
                 else if multi_dev_v2 nvp then brcmf_fw_strip_multi_v2 alloc2 (nvp\<lparr>boardrev_found := False\<rparr>) domain_nr bus_nr
                 else Some nvp);
          if nvram_len nvp = 0 then Some None
          else do {
            nvp \<leftarrow> brcmf_fw_add_defaults nvp;
            nvp \<leftarrow> (case mac of Some m \<Rightarrow> brcmf_fw_add_macaddr nvp m | None \<Rightarrow> Some nvp);
            let new_length = (nvram_len nvp + 1 + 3) div 4 * 4;
            buf \<leftarrow> nv_pad (nvram nvp) (nvram_len nvp) (new_length - nvram_len nvp);
            buf \<leftarrow> write_bytes buf new_length (le32 (nv_token (of_nat (new_length div 4))));
            Some (Some (buf, new_length + 4)) } })"

section \<open>Steps of the parser on a well-formed line\<close>

definition starts :: "u8 list \<Rightarrow> u8 list \<Rightarrow> bool" where
  "starts lit k = (take (length lit) k = lit)"

lemma starts_simps [simp]:
  "starts [] k" "starts (c # cs) [] = False" "starts (c # cs) (x # xs) = (x = c \<and> starts cs xs)"
  by (auto simp: starts_def)

text \<open>A comparison with a text that lacks the terminating character never reads past it.\<close>

lemma strncmp_eq_term:
  "t \<notin> set lit \<Longrightarrow> strncmp_eq (pre @ k @ t # rest) (length pre) lit = Some (starts lit k)" if "t \<notin> set k"
  using that
proof (induction lit arbitrary: pre k)
  case Nil
  then show ?case by simp
next
  case (Cons c cs)
  show ?case
  proof (cases k)
    case Nil
    with Cons.prems show ?thesis by (simp add: nth_opt_def nth_append)
  next
    case (Cons x xs)
    have "strncmp_eq ((pre @ [x]) @ xs @ t # rest) (length (pre @ [x])) cs = Some (starts cs xs)"
      using Cons.prems Cons by (intro Cons.IH) auto
    then show ?thesis using Cons by (auto simp: nth_opt_def nth_append)
  qed
qed

lemma nv_parse_step:
  assumes "nv_pos nvp < length data" and "nv_parser_states data nvp = Some (st, nvp')" and "st \<noteq> END"
  shows "nv_parse data nvp = nv_parse data (nvp'\<lparr>nv_state := st\<rparr>)"
  using assms by (subst nv_parse.simps) simp

lemma nv_parse_done: "length data \<le> nv_pos nvp \<Longrightarrow> nv_parse data nvp = Some nvp"
  by (subst nv_parse.simps) simp

text \<open>Runs of key and of value characters.\<close>

definition nv_key_char :: "u8 \<Rightarrow> bool" where
  "nv_key_char c = (is_nvram_char c \<and> c \<noteq> chr_sp \<and> c \<noteq> chr_eq)"

lemma nv_key_run:
  assumes "data = pre @ ks @ rest" and "list_all nv_key_char ks" and "nv_state nvp = KEY" and "nv_pos nvp = length pre"
  shows "\<exists>c. nv_parse data nvp = nv_parse data (nvp\<lparr>nv_pos := length pre + length ks, nv_column := c\<rparr>)"
  using assms
proof (induction ks arbitrary: pre nvp)
  case Nil
  then have "nvp\<lparr>nv_pos := length pre + length [], nv_column := nv_column nvp\<rparr> = nvp" by simp
  then show ?case by metis
next
  case (Cons k ks)
  let ?n = "nvp\<lparr>nv_column := nv_column nvp + 1, nv_pos := nv_pos nvp + 1\<rparr>"
  have "nv_parser_states data nvp = Some (KEY, ?n)"
    using Cons.prems by (auto simp: nv_parser_states_def brcmf_nvram_handle_key_def nv_key_char_def nth_opt_def nth_append)
  then have st: "nv_parse data nvp = nv_parse data (?n\<lparr>nv_state := KEY\<rparr>)"
    using Cons.prems by (intro nv_parse_step) simp_all
  have "\<exists>c. nv_parse data (?n\<lparr>nv_state := KEY\<rparr>)
      = nv_parse data (?n\<lparr>nv_state := KEY, nv_pos := length (pre @ [k]) + length ks, nv_column := c\<rparr>)"
    using Cons.prems by (intro Cons.IH) simp_all
  then obtain c where "nv_parse data nvp
      = nv_parse data (?n\<lparr>nv_state := KEY, nv_pos := length (pre @ [k]) + length ks, nv_column := c\<rparr>)"
    using st by auto
  moreover have "?n\<lparr>nv_state := KEY, nv_pos := length (pre @ [k]) + length ks, nv_column := c\<rparr>
      = nvp\<lparr>nv_pos := length pre + length (k # ks), nv_column := c\<rparr>" using Cons.prems by simp
  ultimately show ?case by metis
qed

lemma nv_value_run:
  assumes "data = pre @ vs @ rest" and "list_all is_nvram_char vs" and "nv_state nvp = VALUE" and "nv_pos nvp = length pre"
  shows "\<exists>c. nv_parse data nvp = nv_parse data (nvp\<lparr>nv_pos := length pre + length vs, nv_column := c\<rparr>)"
  using assms
proof (induction vs arbitrary: pre nvp)
  case Nil
  then have "nvp\<lparr>nv_pos := length pre + length [], nv_column := nv_column nvp\<rparr> = nvp" by simp
  then show ?case by metis
next
  case (Cons v vs)
  let ?n = "nvp\<lparr>nv_pos := nv_pos nvp + 1, nv_column := nv_column nvp + 1\<rparr>"
  have "nv_parser_states data nvp = Some (VALUE, ?n)"
    using Cons.prems by (auto simp: nv_parser_states_def brcmf_nvram_handle_value_def nth_opt_def nth_append)
  then have st: "nv_parse data nvp = nv_parse data (?n\<lparr>nv_state := VALUE\<rparr>)"
    using Cons.prems by (intro nv_parse_step) simp_all
  have "\<exists>c. nv_parse data (?n\<lparr>nv_state := VALUE\<rparr>)
      = nv_parse data (?n\<lparr>nv_state := VALUE, nv_pos := length (pre @ [v]) + length vs, nv_column := c\<rparr>)"
    using Cons.prems by (intro Cons.IH) simp_all
  then obtain c where "nv_parse data nvp
      = nv_parse data (?n\<lparr>nv_state := VALUE, nv_pos := length (pre @ [v]) + length vs, nv_column := c\<rparr>)"
    using st by auto
  moreover have "?n\<lparr>nv_state := VALUE, nv_pos := length (pre @ [v]) + length vs, nv_column := c\<rparr>
      = nvp\<lparr>nv_pos := length pre + length (v # vs), nv_column := c\<rparr>" using Cons.prems by simp
  ultimately show ?case by metis
qed

text \<open>The end of a line, and the rest of a line that is skipped.\<close>

definition nv_eol :: "bool \<Rightarrow> u8 list" where
  "nv_eol cr = (if cr then [chr_cr, chr_nl] else [chr_nl])"

lemma strchr_found: "c \<notin> set xs \<Longrightarrow> 0 \<notin> set xs \<Longrightarrow> strchr c (xs @ c # rest) = Some (Some (length xs))"
  by (induction xs) auto

lemma nv_comment_run:
  assumes "data = pre @ xs @ chr_nl # rest" and "chr_nl \<notin> set xs" and "0 \<notin> set xs"
    and "nv_state nvp = COMMENT" and "nv_pos nvp = length pre"
  shows "\<exists>l c. nv_parse data nvp = nv_parse data (nvp\<lparr>nv_state := IDLE, nv_pos := length pre + length xs + 1, nv_line := l, nv_column := c\<rparr>)"
proof -
  let ?n = "nvp\<lparr>nv_line := nv_line nvp + 1, nv_column := 1, nv_pos := length pre + length xs + 1\<rparr>"
  have "nv_parser_states data nvp = Some (IDLE, ?n)"
    using assms by (simp add: nv_parser_states_def brcmf_nvram_handle_comment_def strchr_found)
  from nv_parse_step [OF _ this] have "nv_parse data nvp = nv_parse data (?n\<lparr>nv_state := IDLE\<rparr>)"
    using assms(1,5) by simp
  moreover have "?n\<lparr>nv_state := IDLE\<rparr>
      = nvp\<lparr>nv_state := IDLE, nv_pos := length pre + length xs + 1, nv_line := nv_line nvp + 1, nv_column := 1\<rparr>" by simp
  ultimately show ?thesis by metis
qed

lemma nv_idle_comment:
  assumes "data = pre @ c # rest" and "c = chr_nl \<or> c = chr_hash" and "nv_state nvp = IDLE" and "nv_pos nvp = length pre"
  shows "nv_parse data nvp = nv_parse data (nvp\<lparr>nv_state := COMMENT\<rparr>)"
proof -
  have "nv_parser_states data nvp = Some (COMMENT, nvp)"
    using assms by (auto simp: nv_parser_states_def brcmf_nvram_handle_idle_def is_whitespace_def nth_opt_def nth_append)
  from nv_parse_step [OF _ this] assms(1,4) show ?thesis by simp
qed

lemma nv_eol_run:
  assumes "data = pre @ nv_eol cr @ rest" and "nv_state nvp = IDLE" and "nv_pos nvp = length pre"
  shows "\<exists>l c. nv_parse data nvp = nv_parse data (nvp\<lparr>nv_state := IDLE, nv_pos := length pre + length (nv_eol cr), nv_line := l, nv_column := c\<rparr>)"
proof (cases cr)
  case False
  then have d: "data = pre @ [] @ chr_nl # rest" using assms(1) by (simp add: nv_eol_def)
  have "nv_parse data nvp = nv_parse data (nvp\<lparr>nv_state := COMMENT\<rparr>)"
    using d assms(2,3) by (intro nv_idle_comment [of data pre chr_nl rest]) simp_all
  moreover have "\<exists>l c. nv_parse data (nvp\<lparr>nv_state := COMMENT\<rparr>) = nv_parse data
      (nvp\<lparr>nv_state := COMMENT\<rparr>\<lparr>nv_state := IDLE, nv_pos := length pre + length ([] :: u8 list) + 1, nv_line := l, nv_column := c\<rparr>)"
    using assms(3) by (intro nv_comment_run [OF d]) simp_all
  ultimately show ?thesis using False assms(2) by (auto simp: nv_eol_def)
next
  case True
  let ?n = "nvp\<lparr>nv_column := nv_column nvp + 1, nv_pos := nv_pos nvp + 1\<rparr>"
  have d: "data = (pre @ [chr_cr]) @ [] @ chr_nl # rest" using True assms(1) by (simp add: nv_eol_def)
  have "nv_parser_states data nvp = Some (IDLE, ?n)"
    using assms d by (auto simp: nv_parser_states_def brcmf_nvram_handle_idle_def is_whitespace_def nth_opt_def nth_append)
  from nv_parse_step [OF _ this] have "nv_parse data nvp = nv_parse data (?n\<lparr>nv_state := IDLE\<rparr>)"
    using d assms(3) by simp
  also have "\<dots> = nv_parse data (?n\<lparr>nv_state := IDLE\<rparr>\<lparr>nv_state := COMMENT\<rparr>)"
    using d assms(3) by (intro nv_idle_comment [of data "pre @ [chr_cr]" chr_nl rest]) simp_all
  moreover have "\<exists>l c. nv_parse data (?n\<lparr>nv_state := IDLE\<rparr>\<lparr>nv_state := COMMENT\<rparr>) = nv_parse data
      (?n\<lparr>nv_state := IDLE\<rparr>\<lparr>nv_state := COMMENT\<rparr>\<lparr>nv_state := IDLE, nv_pos := length (pre @ [chr_cr]) + length ([] :: u8 list) + 1, nv_line := l, nv_column := c\<rparr>)"
    using assms(3) by (intro nv_comment_run [OF d]) simp_all
  ultimately show ?thesis using True assms(2) by (auto simp: nv_eol_def)
qed

text \<open>Storing a complete entry.\<close>

lemma nv_store:
  assumes "data = pre @ s @ t # rest" and "\<not> is_nvram_char t" and "nv_state nvp = VALUE"
    and "nv_pos nvp = length pre + length s" and "nv_entry nvp = length pre"
    and "nvram_len nvp + length s + 1 < BRCMF_FW_MAX_NVRAM_SIZE" and "nvram_len nvp + length s < length (nvram nvp)"
  shows "nv_parse data nvp = nv_parse data (nvp\<lparr>
     nvram := take (nvram_len nvp) (nvram nvp) @ s @ [0] @ drop (nvram_len nvp + length s + 1) (nvram nvp),
     nvram_len := nvram_len nvp + length s + 1, nv_state := IDLE\<rparr>)"
proof -
  let ?n = "nvram_len nvp" and ?b = "nvram nvp"
  have "drop (?n + length s) ?b = ?b ! (?n + length s) # drop (?n + length s + 1) ?b"
    using assms(7) by (simp add: Cons_nth_drop_Suc)
  then have "(take ?n ?b @ s @ drop (?n + length s) ?b)[?n + length s := 0]
      = take ?n ?b @ s @ [0] @ drop (?n + length s + 1) ?b"
    using assms(7) by (simp add: list_update_append)
  then have "nv_parser_states data nvp = Some (IDLE, nvp\<lparr>
     nvram := take ?n ?b @ s @ [0] @ drop (?n + length s + 1) ?b, nvram_len := ?n + length s + 1\<rparr>)"
    using assms by (simp add: nv_parser_states_def brcmf_nvram_handle_value_def nth_opt_def nth_append
        read_bytes_def write_bytes_def upd_opt_def Let_def)
  from nv_parse_step [OF _ this] assms(1,4) show ?thesis by simp
qed

text \<open>The equals sign decides what happens to the entry.\<close>

definition nv_dropped :: "bool \<Rightarrow> u8 list \<Rightarrow> bool" where
  "nv_dropped sm k = (starts (str_bytes ''RAW1'') k \<or> sm \<and> starts (str_bytes ''macaddr'') k)"

lemma nv_key_end:
  assumes d: "data = pre @ k @ chr_eq # rest" and k: "chr_eq \<notin> set k" and nvp: "nv_state nvp = KEY"
    "nv_pos nvp = length pre + length k" "nv_entry nvp = length pre"
  shows "nv_parse data nvp = nv_parse data (nvp\<lparr>
     multi_dev_v1 := multi_dev_v1 nvp \<or> starts (str_bytes ''devpath'') k,
     multi_dev_v2 := multi_dev_v2 nvp \<or> starts (str_bytes ''pcie/'') k,
     boardrev_found := boardrev_found nvp \<or> starts (str_bytes ''boardrev'') k,
     nv_column := nv_column nvp + 1, nv_pos := nv_pos nvp + 1,
     nv_state := if nv_dropped (strip_mac nvp) k then COMMENT else VALUE\<rparr>)"
proof -
  have cmp: "strncmp_eq data (nv_entry nvp) (str_bytes s) = Some (starts (str_bytes s) k)"
    if "chr_eq \<notin> set (str_bytes s)" for s
    unfolding d nvp(3) using k that by (rule strncmp_eq_term)
  have "nv_parser_states data nvp = Some (if nv_dropped (strip_mac nvp) k then COMMENT else VALUE, nvp\<lparr>
     multi_dev_v1 := multi_dev_v1 nvp \<or> starts (str_bytes ''devpath'') k,
     multi_dev_v2 := multi_dev_v2 nvp \<or> starts (str_bytes ''pcie/'') k,
     boardrev_found := boardrev_found nvp \<or> starts (str_bytes ''boardrev'') k,
     nv_column := nv_column nvp + 1, nv_pos := nv_pos nvp + 1\<rparr>)"
    using d nvp(1,2) cmp [of "''RAW1''"] cmp [of "''devpath''"] cmp [of "''pcie/''"] cmp [of "''boardrev''"] cmp [of "''macaddr''"]
    by (simp add: nv_parser_states_def brcmf_nvram_handle_key_def nth_opt_def nth_append str_bytes_def nv_dropped_def)
  from nv_parse_step [OF _ this] d nvp(2) show ?thesis by simp
qed

text \<open>A line of a file, the bytes it consists of and what it contributes.\<close>

datatype nv_file_line = Setting "u8 list" "u8 list" bool | Remark "u8 list" | Blank bool

fun nv_line_ok :: "nv_file_line \<Rightarrow> bool" where
  "nv_line_ok (Setting k v cr) = (list_all nv_key_char k \<and> list_all is_nvram_char v)"
| "nv_line_ok (Remark t) = (chr_nl \<notin> set t \<and> 0 \<notin> set t)"
| "nv_line_ok (Blank cr) = True"

fun nv_line_bytes :: "nv_file_line \<Rightarrow> u8 list" where
  "nv_line_bytes (Setting k v cr) = k @ chr_eq # v @ nv_eol cr"
| "nv_line_bytes (Remark t) = chr_hash # t @ [chr_nl]"
| "nv_line_bytes (Blank cr) = nv_eol cr"

fun nv_line_out :: "bool \<Rightarrow> nv_file_line \<Rightarrow> u8 list" where
  "nv_line_out sm (Setting k v cr) = (if nv_dropped sm k then [] else k @ chr_eq # v @ [0])"
| "nv_line_out sm _ = []"

fun nv_line_key :: "string \<Rightarrow> nv_file_line \<Rightarrow> bool" where
  "nv_line_key s (Setting k v cr) = starts (str_bytes s) k"
| "nv_line_key s _ = False"

text \<open>The parser between two lines.\<close>

definition nv_at :: "nat \<Rightarrow> nat \<Rightarrow> u8 list \<Rightarrow> bool \<Rightarrow> bool \<Rightarrow> bool \<Rightarrow> bool \<Rightarrow> nvram_parser \<Rightarrow> bool" where
  "nv_at sz p acc sm v1 v2 bf nvp \<longleftrightarrow> nv_state nvp = IDLE \<and> nv_pos nvp = p \<and> nvram_len nvp = length acc
     \<and> take (length acc) (nvram nvp) = acc \<and> length (nvram nvp) = sz \<and> strip_mac nvp = sm
     \<and> multi_dev_v1 nvp = v1 \<and> multi_dev_v2 nvp = v2 \<and> boardrev_found nvp = bf"

lemma nv_setting_key:
  assumes d: "data = pre @ k @ chr_eq # rest" and k: "list_all nv_key_char k"
    and at: "nv_at sz (length pre) acc sm v1 v2 bf nvp"
  shows "\<exists>nvp'. nv_parse data nvp = nv_parse data (nvp'\<lparr>nv_state := if nv_dropped sm k then COMMENT else VALUE\<rparr>)
    \<and> nv_at sz (length pre + length k + 1) acc sm (v1 \<or> starts (str_bytes ''devpath'') k)
        (v2 \<or> starts (str_bytes ''pcie/'') k) (bf \<or> starts (str_bytes ''boardrev'') k) nvp'
    \<and> nv_entry nvp' = length pre"
proof -
  have c: "is_nvram_char (data ! length pre) \<and> \<not> is_whitespace (data ! length pre)"
    using d k by (cases k) (auto simp: nth_append nv_key_char_def is_whitespace_def is_nvram_char_def)
  let ?n = "nvp\<lparr>nv_entry := length pre\<rparr>"
  have "data ! length pre \<noteq> chr_nl" "data ! length pre \<noteq> 0" "data ! length pre \<noteq> chr_hash"
    using c by (auto simp: is_nvram_char_def)
  then have "nv_parser_states data nvp = Some (KEY, ?n)"
    using c d at by (simp add: nv_parser_states_def brcmf_nvram_handle_idle_def nth_opt_def nv_at_def)
  from nv_parse_step [OF _ this] have 1: "nv_parse data nvp = nv_parse data (?n\<lparr>nv_state := KEY\<rparr>)"
    using d at by (simp add: nv_at_def)
  obtain c where 2: "nv_parse data (?n\<lparr>nv_state := KEY\<rparr>)
      = nv_parse data (?n\<lparr>nv_state := KEY\<rparr>\<lparr>nv_pos := length pre + length k, nv_column := c\<rparr>)"
    using nv_key_run [OF d k, of "?n\<lparr>nv_state := KEY\<rparr>"] at by (auto simp: nv_at_def)
  have "chr_eq \<notin> set k" using k by (auto simp: list_all_iff nv_key_char_def)
  note 3 = nv_key_end [OF d this, of "?n\<lparr>nv_state := KEY\<rparr>\<lparr>nv_pos := length pre + length k, nv_column := c\<rparr>"]
  let ?m = "?n\<lparr>multi_dev_v1 := v1 \<or> starts (str_bytes ''devpath'') k,
     multi_dev_v2 := v2 \<or> starts (str_bytes ''pcie/'') k, boardrev_found := bf \<or> starts (str_bytes ''boardrev'') k,
     nv_column := c + 1, nv_pos := length pre + length k + 1, nv_state := IDLE\<rparr>"
  have "nv_parse data nvp = nv_parse data (?m\<lparr>nv_state := if nv_dropped sm k then COMMENT else VALUE\<rparr>)"
    unfolding 1 2 using at by (subst 3) (simp_all add: nv_at_def)
  moreover have "nv_at sz (length pre + length k + 1) acc sm (v1 \<or> starts (str_bytes ''devpath'') k)
        (v2 \<or> starts (str_bytes ''pcie/'') k) (bf \<or> starts (str_bytes ''boardrev'') k) ?m"
    using at by (simp add: nv_at_def)
  ultimately show ?thesis by (intro exI [of _ ?m]) simp
qed

lemma take_drop_store: "take n xs = acc \<Longrightarrow> n = length acc \<Longrightarrow>
    take (length (acc @ s)) (take n xs @ s @ zs) = acc @ s"
  by simp

lemma nv_setting_run:
  assumes d: "data = pre @ nv_line_bytes (Setting k v cr) @ rest" and ok: "nv_line_ok (Setting k v cr)"
    and at: "nv_at sz (length pre) acc sm v1 v2 bf nvp"
    and room: "length acc + length (nv_line_out sm (Setting k v cr)) < BRCMF_FW_MAX_NVRAM_SIZE"
      "length acc + length (nv_line_out sm (Setting k v cr)) \<le> sz"
  shows "\<exists>nvp'. nv_parse data nvp = nv_parse data nvp'
    \<and> nv_at sz (length (pre @ nv_line_bytes (Setting k v cr))) (acc @ nv_line_out sm (Setting k v cr)) sm
        (v1 \<or> starts (str_bytes ''devpath'') k) (v2 \<or> starts (str_bytes ''pcie/'') k)
        (bf \<or> starts (str_bytes ''boardrev'') k) nvp'"
proof -
  have k: "list_all nv_key_char k" and v: "list_all is_nvram_char v" using ok by simp_all
  have d1: "data = pre @ k @ chr_eq # (v @ nv_eol cr @ rest)" using d by simp
  obtain n1 where n1: "nv_parse data nvp = nv_parse data (n1\<lparr>nv_state := if nv_dropped sm k then COMMENT else VALUE\<rparr>)"
    "nv_at sz (length pre + length k + 1) acc sm (v1 \<or> starts (str_bytes ''devpath'') k)
        (v2 \<or> starts (str_bytes ''pcie/'') k) (bf \<or> starts (str_bytes ''boardrev'') k) n1" "nv_entry n1 = length pre"
    using nv_setting_key [OF d1 k at] by blast
  show ?thesis
  proof (cases "nv_dropped sm k")
    case True
    let ?xs = "v @ (if cr then [chr_cr] else [])"
    have d2: "data = (pre @ k @ [chr_eq]) @ ?xs @ chr_nl # rest" using d1 by (simp add: nv_eol_def)
    have "chr_nl \<notin> set ?xs" "0 \<notin> set ?xs" using v by (auto simp: list_all_iff is_nvram_char_def)
    from nv_comment_run [OF d2 this, of "n1\<lparr>nv_state := COMMENT\<rparr>"] n1(2)
    obtain l c where "nv_parse data (n1\<lparr>nv_state := COMMENT\<rparr>) = nv_parse data (n1\<lparr>nv_state := COMMENT\<rparr>
        \<lparr>nv_state := IDLE, nv_pos := length (pre @ k @ [chr_eq]) + length ?xs + 1, nv_line := l, nv_column := c\<rparr>)"
      by (auto simp: nv_at_def)
    with n1(1,2) True show ?thesis
      by (intro exI [of _ "n1\<lparr>nv_state := IDLE, nv_pos := length (pre @ k @ [chr_eq]) + length ?xs + 1, nv_line := l, nv_column := c\<rparr>"])
        (simp add: nv_at_def nv_eol_def)
  next
    case False
    let ?n2 = "n1\<lparr>nv_state := VALUE\<rparr>" and ?s = "k @ chr_eq # v"
    obtain t ts where t: "nv_eol cr = t # ts" "\<not> is_nvram_char t"
      by (cases cr) (auto simp: nv_eol_def is_nvram_char_def)
    have d2: "data = (pre @ k @ [chr_eq]) @ v @ (nv_eol cr @ rest)" and d3: "data = pre @ ?s @ t # (ts @ rest)"
      and d4: "data = (pre @ ?s) @ nv_eol cr @ rest"
      using d1 t by simp_all
    obtain c where c: "nv_parse data ?n2 = nv_parse data (?n2\<lparr>nv_pos := length (pre @ k @ [chr_eq]) + length v, nv_column := c\<rparr>)"
      using nv_value_run [OF d2 v, of ?n2] n1(2) by (auto simp: nv_at_def)
    let ?n3 = "?n2\<lparr>nv_pos := length (pre @ k @ [chr_eq]) + length v, nv_column := c\<rparr>"
    let ?n4 = "?n3\<lparr>nvram := take (nvram_len ?n3) (nvram ?n3) @ ?s @ [0] @ drop (nvram_len ?n3 + length ?s + 1) (nvram ?n3),
     nvram_len := nvram_len ?n3 + length ?s + 1, nv_state := IDLE\<rparr>"
    have 4: "nv_parse data ?n3 = nv_parse data ?n4"
      using n1(2,3) room False by (intro nv_store [OF d3 t(2)]) (simp_all add: nv_at_def)
    have at4: "nv_at sz (length (pre @ ?s)) (acc @ ?s @ [0]) sm (v1 \<or> starts (str_bytes ''devpath'') k)
        (v2 \<or> starts (str_bytes ''pcie/'') k) (bf \<or> starts (str_bytes ''boardrev'') k) ?n4"
      using n1(2) room False by (simp add: nv_at_def)
    from nv_eol_run [OF d4, of ?n4] at4
    obtain l c' where 5: "nv_parse data ?n4 = nv_parse data (?n4\<lparr>nv_state := IDLE, nv_pos := length (pre @ ?s) + length (nv_eol cr), nv_line := l, nv_column := c'\<rparr>)"
      (is "_ = nv_parse data ?n5")
      by (auto simp: nv_at_def)
    have "nv_parse data nvp = nv_parse data ?n2" using n1(1) False by simp
    then have "nv_parse data nvp = nv_parse data ?n5" using c 4 5 by (rule trans [OF trans [OF trans]])
    moreover have "nv_at sz (length (pre @ nv_line_bytes (Setting k v cr))) (acc @ nv_line_out sm (Setting k v cr)) sm
        (v1 \<or> starts (str_bytes ''devpath'') k) (v2 \<or> starts (str_bytes ''pcie/'') k)
        (bf \<or> starts (str_bytes ''boardrev'') k) ?n5"
      using n1(2) room False by (simp add: nv_at_def)
    ultimately show ?thesis by blast
  qed
qed

lemma nv_line_run:
  assumes d: "data = pre @ nv_line_bytes ln @ rest" and ok: "nv_line_ok ln"
    and at: "nv_at sz (length pre) acc sm v1 v2 bf nvp"
    and room: "length acc + length (nv_line_out sm ln) < BRCMF_FW_MAX_NVRAM_SIZE"
      "length acc + length (nv_line_out sm ln) \<le> sz"
  shows "\<exists>nvp'. nv_parse data nvp = nv_parse data nvp'
    \<and> nv_at sz (length (pre @ nv_line_bytes ln)) (acc @ nv_line_out sm ln) sm
        (v1 \<or> nv_line_key ''devpath'' ln) (v2 \<or> nv_line_key ''pcie/'' ln) (bf \<or> nv_line_key ''boardrev'' ln) nvp'"
proof (cases ln)
  case (Setting k v cr)
  then show ?thesis using nv_setting_run [of data pre k v cr rest sz acc sm v1 v2 bf nvp] assms by simp
next
  case (Remark t)
  have d2: "data = pre @ (chr_hash # t) @ chr_nl # rest" using d Remark by simp
  have 1: "nv_parse data nvp = nv_parse data (nvp\<lparr>nv_state := COMMENT\<rparr>)"
    using d Remark at by (intro nv_idle_comment [of data pre chr_hash "t @ chr_nl # rest"]) (simp_all add: nv_at_def)
  obtain l c where "nv_parse data (nvp\<lparr>nv_state := COMMENT\<rparr>) = nv_parse data
     (nvp\<lparr>nv_state := COMMENT\<rparr>\<lparr>nv_state := IDLE, nv_pos := length pre + length (chr_hash # t) + 1, nv_line := l, nv_column := c\<rparr>)"
    using nv_comment_run [OF d2, of "nvp\<lparr>nv_state := COMMENT\<rparr>"] ok at Remark by (auto simp: nv_at_def)
  with 1 at Remark show ?thesis
    by (intro exI [of _ "nvp\<lparr>nv_state := IDLE, nv_pos := length pre + length (chr_hash # t) + 1, nv_line := l, nv_column := c\<rparr>"])
      (simp add: nv_at_def)
next
  case (Blank cr)
  then have "data = pre @ nv_eol cr @ rest" using d by simp
  from nv_eol_run [OF this, of nvp] at
  obtain l c where "nv_parse data nvp = nv_parse data (nvp\<lparr>nv_state := IDLE, nv_pos := length pre + length (nv_eol cr), nv_line := l, nv_column := c\<rparr>)"
    by (auto simp: nv_at_def)
  with at Blank show ?thesis
    by (intro exI [of _ "nvp\<lparr>nv_state := IDLE, nv_pos := length pre + length (nv_eol cr), nv_line := l, nv_column := c\<rparr>"])
      (simp add: nv_at_def)
qed

lemma nv_file_run:
  assumes "data = pre @ concat (map nv_line_bytes ls)" and "list_all nv_line_ok ls"
    and "nv_at sz (length pre) acc sm v1 v2 bf nvp"
    and "length acc + length (concat (map (nv_line_out sm) ls)) < BRCMF_FW_MAX_NVRAM_SIZE"
    and "length acc + length (concat (map (nv_line_out sm) ls)) \<le> sz"
  shows "\<exists>nvp'. nv_parse data nvp = Some nvp'
    \<and> nv_at sz (length data) (acc @ concat (map (nv_line_out sm) ls)) sm
        (v1 \<or> list_ex (nv_line_key ''devpath'') ls) (v2 \<or> list_ex (nv_line_key ''pcie/'') ls)
        (bf \<or> list_ex (nv_line_key ''boardrev'') ls) nvp'"
  using assms
proof (induction ls arbitrary: pre acc v1 v2 bf nvp)
  case Nil
  then show ?case by (intro exI [of _ nvp]) (simp add: nv_at_def nv_parse_done)
next
  case (Cons ln ls)
  have d: "data = pre @ nv_line_bytes ln @ concat (map nv_line_bytes ls)" using Cons.prems(1) by simp
  obtain n1 where n1: "nv_parse data nvp = nv_parse data n1"
    "nv_at sz (length (pre @ nv_line_bytes ln)) (acc @ nv_line_out sm ln) sm
        (v1 \<or> nv_line_key ''devpath'' ln) (v2 \<or> nv_line_key ''pcie/'' ln) (bf \<or> nv_line_key ''boardrev'' ln) n1"
    using nv_line_run [OF d _ Cons.prems(3)] Cons.prems(2,4,5) by auto
  have "data = (pre @ nv_line_bytes ln) @ concat (map nv_line_bytes ls)" using d by simp
  from Cons.IH [OF this _ n1(2)] Cons.prems(2,4,5) n1(1) show ?case by auto
qed

section \<open>Finishing the image\<close>

text \<open>What the device is given for the entries \<open>acc\<close>: at least one NUL of padding up to a multiple of four,
  then the token with the number of words and its complement.\<close>

definition nv_image :: "u8 list \<Rightarrow> u8 list" where
  "nv_image acc = (let n = (length acc + 1 + 3) div 4 * 4
     in acc @ replicate (n - length acc) 0 @ le32 (nv_token (of_nat (n div 4))))"

definition nv_has :: "u8 list \<Rightarrow> nat \<Rightarrow> nvram_parser \<Rightarrow> bool" where
  "nv_has acc sz nvp \<longleftrightarrow> nvram_len nvp = length acc \<and> take (length acc) (nvram nvp) = acc \<and> length (nvram nvp) = sz"

lemma nv_pad_eq:
  "p + n \<le> length buf \<Longrightarrow> nv_pad buf p n = Some (take p buf @ replicate n 0 @ drop (p + n) buf)"
proof (induction n arbitrary: buf p)
  case 0
  then show ?case by simp
next
  case (Suc n)
  have "take (p + 1) (buf[p := 0]) = take p buf @ [0]" using Suc.prems by (simp add: take_Suc_conv_app_nth)
  then show ?case using Suc.prems Suc.IH [of "p + 1" "buf[p := 0]"] by (simp add: upd_opt_in)
qed

lemma nv_add_defaults:
  assumes "nv_has acc sz nvp" and "length acc + 14 \<le> sz"
  shows "\<exists>nvp'. brcmf_fw_add_defaults nvp = Some nvp'
    \<and> nv_has (acc @ (if boardrev_found nvp then [] else BRCMF_FW_DEFAULT_BOARDREV @ [0])) sz nvp'"
proof -
  have l: "length BRCMF_FW_DEFAULT_BOARDREV = 14 - 1" by (simp add: BRCMF_FW_DEFAULT_BOARDREV_def)
  let ?n = "length acc" and ?b = "nvram nvp" and ?d = BRCMF_FW_DEFAULT_BOARDREV
  have w: "do { buf \<leftarrow> write_bytes ?b ?n ?d; upd_opt buf (?n + length ?d) 0 }
      = Some (acc @ ?d @ [0] @ drop (?n + 14) ?b)"
  proof -
    have "drop (?n + 13) ?b = ?b ! (?n + 13) # drop (?n + 14) ?b"
      using Cons_nth_drop_Suc [of "?n + 13" ?b] assms by (simp add: nv_has_def add.commute [of _ 14] flip: add_Suc_right)
    then show ?thesis using assms l by (simp add: nv_has_def write_bytes_def upd_opt_def list_update_append)
  qed
  then obtain buf where buf: "write_bytes ?b ?n ?d = Some buf" "upd_opt buf (?n + length ?d) 0 = Some (acc @ ?d @ [0] @ drop (?n + 14) ?b)"
    unfolding bind_Some_iff by blast
  show ?thesis
  proof (cases "boardrev_found nvp")
    case True
    then show ?thesis using assms by (simp add: brcmf_fw_add_defaults_def)
  next
    case False
    let ?nvp = "nvp\<lparr>nvram := acc @ ?d @ [0] @ drop (?n + 14) ?b, nvram_len := ?n + length ?d + 1\<rparr>"
    have "nvram_len nvp = ?n" using assms(1) by (simp add: nv_has_def)
    then have "brcmf_fw_add_defaults nvp = Some ?nvp"
      using False buf by (simp only: brcmf_fw_add_defaults_def Let_def bind.bind_lunit if_False)
    then show ?thesis using False assms l by (simp add: nv_has_def)
  qed
qed

lemma length_nv_pM: "length (nv_pM mac) = 3 * length mac - 1"
  by (induction mac rule: nv_pM.induct) (simp_all add: nv_hex_def)

lemma length_nv_macaddr: "length mac = 6 \<Longrightarrow> length (nv_macaddr mac) = BRCMF_FW_MACADDR_LEN"
  using length_nv_pM [of mac] by (simp add: nv_macaddr_def snprintf_def)

lemma nv_add_macaddr:
  assumes "nv_has acc sz nvp" and "length mac = 6" and "length acc + 26 \<le> sz"
  shows "\<exists>nvp'. brcmf_fw_add_macaddr nvp mac = Some nvp' \<and> nv_has (acc @ nv_macaddr mac @ [0]) sz nvp'"
  using assms length_nv_macaddr [OF assms(2)]
  by (auto simp: brcmf_fw_add_macaddr_def nv_has_def write_bytes_def Let_def)

text \<open>The end of \<open>brcmf_fw_nvram_strip\<close>.\<close>

lemma nv_finish:
  assumes "nv_has acc sz nvp" and "length acc + 8 \<le> sz"
  shows "\<exists>buf n. do {
            let new_length = (nvram_len nvp + 1 + 3) div 4 * 4;
            buf \<leftarrow> nv_pad (nvram nvp) (nvram_len nvp) (new_length - nvram_len nvp);
            buf \<leftarrow> write_bytes buf new_length (le32 (nv_token (of_nat (new_length div 4))));
            Some (Some (buf, new_length + 4)) } = Some (Some (buf, n)) \<and> take n buf = nv_image acc \<and> length buf = sz"
proof -
  let ?n = "(length acc + 1 + 3) div 4 * 4"
  have n: "length acc < ?n" "?n \<le> length acc + 4" by simp_all
  have p: "nv_pad (nvram nvp) (length acc) (?n - length acc)
      = Some (acc @ replicate (?n - length acc) 0 @ drop ?n (nvram nvp))"
    using assms n by (subst nv_pad_eq) (simp_all add: nv_has_def)
  have w: "write_bytes (acc @ replicate (?n - length acc) 0 @ drop ?n (nvram nvp)) ?n (le32 (nv_token (of_nat (?n div 4))))
      = Some (acc @ replicate (?n - length acc) 0 @ le32 (nv_token (of_nat (?n div 4))) @ drop (?n + 4) (nvram nvp))"
    using assms n by (simp add: nv_has_def write_bytes_def add.commute [of 4])
  have "do {
            let new_length = (nvram_len nvp + 1 + 3) div 4 * 4;
            buf \<leftarrow> nv_pad (nvram nvp) (nvram_len nvp) (new_length - nvram_len nvp);
            buf \<leftarrow> write_bytes buf new_length (le32 (nv_token (of_nat (new_length div 4))));
            Some (Some (buf, new_length + 4)) }
     = Some (Some (acc @ replicate (?n - length acc) 0 @ le32 (nv_token (of_nat (?n div 4))) @ drop (?n + 4) (nvram nvp), ?n + 4))"
    (is "_ = Some (Some (?buf, _))")
    using assms(1) p w by (simp only: nv_has_def Let_def) (simp only: bind.bind_lunit)
  then show ?thesis
    using assms n by (intro exI [of _ ?buf] exI [of _ "?n + 4"]) (simp add: nv_image_def Let_def nv_has_def)
qed

text \<open>The way a single-device file takes through \<open>brcmf_fw_nvram_strip\<close>.\<close>

lemma nv_strip_single:
  assumes "brcmf_init_nvram_parser True data = (OK, Some n0)" and "nv_parse data (n0\<lparr>strip_mac := (mac \<noteq> None)\<rparr>) = Some n1"
    and "\<not> multi_dev_v1 n1" and "\<not> multi_dev_v2 n1" and "nvram_len n1 \<noteq> 0"
    and "brcmf_fw_add_defaults n1 = Some n2"
    and "(case mac of Some m \<Rightarrow> brcmf_fw_add_macaddr n2 m | None \<Rightarrow> Some n2) = Some n3"
  shows "brcmf_fw_nvram_strip True alloc2 mac data d b = do {
            let new_length = (nvram_len n3 + 1 + 3) div 4 * 4;
            buf \<leftarrow> nv_pad (nvram n3) (nvram_len n3) (new_length - nvram_len n3);
            buf \<leftarrow> write_bytes buf new_length (le32 (nv_token (of_nat (new_length div 4))));
            Some (Some (buf, new_length + 4)) }"
  unfolding brcmf_fw_nvram_strip_def by (simp only: assms prod.case option.case bind.bind_lunit if_False)

section \<open>Properties\<close>

lemma nv_line_out_le: "length (nv_line_out sm ln) \<le> length (nv_line_bytes ln)"
  by (cases ln) (auto simp: nv_eol_def)

lemma nv_out_le: "length (concat (map (nv_line_out sm) ls)) \<le> length (concat (map nv_line_bytes ls))"
  by (induction ls) (auto intro: add_mono nv_line_out_le)

lemma length_default: "length BRCMF_FW_DEFAULT_BOARDREV = 13"
  by (simp add: BRCMF_FW_DEFAULT_BOARDREV_def)

text \<open>The parser after initialisation.\<close>

lemma nv_init:
  "\<exists>nvp. brcmf_init_nvram_parser True data = (OK, Some nvp)
    \<and> nv_at (min (length data) BRCMF_FW_MAX_NVRAM_SIZE + 48) 0 [] sm False False False (nvp\<lparr>strip_mac := sm\<rparr>)"
  by (auto simp: brcmf_init_nvram_parser_def Let_def nv_at_def length_default)

text \<open>Everything after the parse of a single-device file.\<close>

definition nv_dflt :: "bool \<Rightarrow> u8 list" where
  "nv_dflt found = (if found then [] else BRCMF_FW_DEFAULT_BOARDREV @ [0])"

definition nv_mac_out :: "u8 list option \<Rightarrow> u8 list" where
  "nv_mac_out mac = (case mac of Some m \<Rightarrow> nv_macaddr m @ [0] | None \<Rightarrow> [])"

lemma nv_mac_stage:
  assumes "nv_has acc sz n2" and "\<And>m. mac = Some m \<Longrightarrow> length m = 6" and "length acc + 26 \<le> sz"
  shows "\<exists>n3. (case mac of Some m \<Rightarrow> brcmf_fw_add_macaddr n2 m | None \<Rightarrow> Some n2) = Some n3 \<and> nv_has (acc @ nv_mac_out mac) sz n3"
proof (cases mac)
  case None
  with assms(1) show ?thesis by (simp add: nv_mac_out_def)
next
  case (Some m)
  from nv_add_macaddr [OF assms(1) assms(2) [OF Some] assms(3)] Some show ?thesis by (simp add: nv_mac_out_def)
qed

lemma nv_strip_image:
  assumes init: "brcmf_init_nvram_parser True data = (OK, Some n0)" and parse: "nv_parse data (n0\<lparr>strip_mac := (mac \<noteq> None)\<rparr>) = Some n1"
    and single: "\<not> multi_dev_v1 n1" "\<not> multi_dev_v2 n1"
    and has: "nv_has out (min (length data) BRCMF_FW_MAX_NVRAM_SIZE + 48) n1" and ne: "out \<noteq> []"
    and le: "length out \<le> min (length data) BRCMF_FW_MAX_NVRAM_SIZE"
    and mac: "\<And>m. mac = Some m \<Longrightarrow> length m = 6"
  shows "\<exists>buf n. brcmf_fw_nvram_strip True alloc2 mac data d b = Some (Some (buf, n))
    \<and> take n buf = nv_image (out @ nv_dflt (boardrev_found n1) @ nv_mac_out mac)"
proof -
  define sz where "sz = min (length data) BRCMF_FW_MAX_NVRAM_SIZE + 48"
  have ld: "length (nv_dflt (boardrev_found n1)) \<le> 14" by (simp add: nv_dflt_def length_default)
  have lm: "length (nv_mac_out mac) \<le> 26" using mac length_nv_macaddr by (cases mac) (simp_all add: nv_mac_out_def)
  have sz: "length out + 48 \<le> sz" using le by (simp add: sz_def)
  then have "length out + 14 \<le> sz" by simp
  from nv_add_defaults [OF has [folded sz_def] this, folded nv_dflt_def]
  obtain n2 where n2: "brcmf_fw_add_defaults n1 = Some n2" "nv_has (out @ nv_dflt (boardrev_found n1)) sz n2" by blast
  have "length (out @ nv_dflt (boardrev_found n1)) + 26 \<le> sz" unfolding length_append using sz ld by linarith
  from nv_mac_stage [OF n2(2) mac this]
  obtain n3 where n3: "(case mac of Some m \<Rightarrow> brcmf_fw_add_macaddr n2 m | None \<Rightarrow> Some n2) = Some n3"
    "nv_has ((out @ nv_dflt (boardrev_found n1)) @ nv_mac_out mac) sz n3" by blast
  have "length ((out @ nv_dflt (boardrev_found n1)) @ nv_mac_out mac) + 8 \<le> sz"
    unfolding length_append using sz ld lm by linarith
  note fin = nv_finish [OF n3(2) this]
  have "nvram_len n1 \<noteq> 0" using has ne by (simp add: nv_has_def)
  note call = nv_strip_single [OF init parse single this n2(1) n3(1), of alloc2 d b]
  show ?thesis using fin [folded call] by (simp only: append_assoc) blast
qed

text \<open>C10: For a file of settings, comments and blank lines (with either line ending) for a single device,
  whose settings fit the largest NVRAM size, the parser never leaves its buffers and the image is exactly the
  settings in order, each ended by NUL, without the RAW1 entries and without the MAC address where the
  platform supplies one, followed by the default board revision when the file has none, the platform's address,
  the padding and the length token.\<close>

theorem nvram_image:
  assumes ok: "list_all nv_line_ok ls" and bytes: "data = concat (map nv_line_bytes ls)"
    and out: "out = concat (map (nv_line_out (mac \<noteq> None)) ls)" "out \<noteq> []" "length out < BRCMF_FW_MAX_NVRAM_SIZE"
    and single: "\<not> list_ex (nv_line_key ''devpath'') ls" "\<not> list_ex (nv_line_key ''pcie/'') ls"
    and mac: "\<And>m. mac = Some m \<Longrightarrow> length m = 6"
  shows "\<exists>buf n. brcmf_fw_nvram_strip True alloc2 mac data domain_nr bus_nr = Some (Some (buf, n))
    \<and> take n buf = nv_image (out @ nv_dflt (list_ex (nv_line_key ''boardrev'') ls) @ nv_mac_out mac)"
proof -
  define sm where "sm = (mac \<noteq> None)"
  let ?sz = "min (length data) BRCMF_FW_MAX_NVRAM_SIZE + 48"
  obtain n0 where n0: "brcmf_init_nvram_parser True data = (OK, Some n0)"
    "nv_at ?sz (length ([] :: u8 list)) [] sm False False False (n0\<lparr>strip_mac := sm\<rparr>)"
    using nv_init [of data sm] by auto
  have le: "length out \<le> min (length data) BRCMF_FW_MAX_NVRAM_SIZE"
    using nv_out_le [of sm ls] out bytes by (simp add: sm_def)
  have d: "data = [] @ concat (map nv_line_bytes ls)" using bytes by simp
  obtain n1 where n1: "nv_parse data (n0\<lparr>strip_mac := sm\<rparr>) = Some n1"
    "nv_at ?sz (length data) out sm False False (list_ex (nv_line_key ''boardrev'') ls) n1"
    using nv_file_run [OF d ok n0(2)] le out(1,3) single unfolding sm_def [symmetric]
    by (simp only: simp_thms append_Nil list.size add_0 min_less_iff_conj) (auto intro: le_trans)
  have n1': "\<not> multi_dev_v1 n1" "\<not> multi_dev_v2 n1" "boardrev_found n1 = list_ex (nv_line_key ''boardrev'') ls" "nv_has out ?sz n1"
    using n1(2) by (simp_all add: nv_at_def nv_has_def)
  show ?thesis
    using nv_strip_image [OF n0(1) n1(1) [unfolded sm_def] n1'(1,2,4) out(2) le mac] unfolding n1'(3) .
qed

theorem nvram_image_witness:
  "\<exists>buf n. brcmf_fw_nvram_strip True True (Some [2, 0, 0, 0, 0, 1])
      (str_bytes ''#x'' @ [10] @ str_bytes ''a=b c'' @ [13, 10] @ str_bytes ''macaddr=0'' @ [10]) 0 0 = Some (Some (buf, n))
    \<and> take n buf = nv_image (str_bytes ''a=b c'' @ [0] @ BRCMF_FW_DEFAULT_BOARDREV @ [0] @ nv_macaddr [2, 0, 0, 0, 0, 1] @ [0])"
proof -
  let ?ls = "[Remark (str_bytes ''x''), Setting (str_bytes ''a'') (str_bytes ''b c'') True, Setting (str_bytes ''macaddr'') (str_bytes ''0'') False]"
  show ?thesis
    using nvram_image [of ?ls "str_bytes ''#x'' @ [10] @ str_bytes ''a=b c'' @ [13, 10] @ str_bytes ''macaddr=0'' @ [10]"
        "str_bytes ''a=b c'' @ [0]" "Some [2, 0, 0, 0, 0, 1]" True 0 0]
    by (simp add: str_bytes_def nv_eol_def nv_key_char_def is_nvram_char_def nv_dropped_def nv_dflt_def nv_mac_out_def)
qed

section \<open>Several devices\<close>

text \<open>The entries of a parsed file, and the loops on them.\<close>

definition nv_entries :: "u8 list list \<Rightarrow> u8 list" where
  "nv_entries es = concat (map (\<lambda>e. e @ [0]) es)"

lemma nv_entries_simps [simp]: "nv_entries [] = []" "nv_entries (e # es) = e @ 0 # nv_entries es"
  by (simp_all add: nv_entries_def)

lemma nv_skip_run: "0 \<notin> set xs \<Longrightarrow> nv_skip (pre @ xs @ 0 # rest) (length pre) = Some (length pre + length xs)"
proof (induction xs arbitrary: pre)
  case Nil
  then show ?case by (subst nv_skip.simps) simp
next
  case (Cons x xs)
  then show ?case using Cons.IH [of "pre @ [x]"] by (subst nv_skip.simps) (simp add: nth_append)
qed

lemma nv_copy_run:
  "0 \<notin> set xs \<Longrightarrow> j + length xs \<le> length dst \<Longrightarrow> nv_copy (pre @ xs @ 0 # rest) dst (length pre) j
     = Some (take j dst @ xs @ drop (j + length xs) dst, length pre + length xs, j + length xs)"
proof (induction xs arbitrary: pre dst j)
  case Nil
  then show ?case by (subst nv_copy.simps) simp
next
  case (Cons x xs)
  have "take (j + 1) (dst[j := x]) = take j dst @ [x]" using Cons.prems by (simp add: take_Suc_conv_app_nth)
  then show ?case
    using Cons.prems Cons.IH [of "j + 1" "dst[j := x]" "pre @ [x]"] by (subst nv_copy.simps) (simp add: nth_append)
qed

lemma nv_take_run:
  assumes "0 \<notin> set xs" and "j + length xs < length dst"
  shows "nv_take (pre @ xs @ 0 # rest) dst (length pre) j bf
     = Some (take j dst @ (xs @ [0]) @ drop (j + length (xs @ [0])) dst, length pre + length xs, j + length (xs @ [0]),
         bf \<or> starts (str_bytes ''boardrev'') xs)"
proof -
  have "drop (j + length xs) dst = dst ! (j + length xs) # drop (j + length xs + 1) dst"
    using assms(2) by (simp add: Cons_nth_drop_Suc)
  then have "(take j dst @ xs @ drop (j + length xs) dst)[j + length xs := 0] = take j dst @ xs @ [0] @ drop (j + length xs + 1) dst"
    using assms(2) by (simp add: list_update_append)
  moreover have "strncmp_eq (pre @ xs @ 0 # rest) (length pre) (str_bytes ''boardrev'') = Some (starts (str_bytes ''boardrev'') xs)"
    using assms(1) by (intro strncmp_eq_term) (simp_all add: str_bytes_def)
  ultimately show ?thesis
    using assms nv_copy_run [OF assms(1), of j dst pre rest] by (simp add: nv_take_def upd_opt_in)
qed

text \<open>What version 2 keeps for a prefix.\<close>

definition nv_v2_keep :: "u8 list \<Rightarrow> u8 list list \<Rightarrow> u8 list list" where
  "nv_v2_keep p es = map (drop (length p)) (filter (starts p) es)"

lemma nv_v2_keep_simps [simp]:
  "nv_v2_keep p [] = []" "nv_v2_keep p (e # es) = (if starts p e then drop (length p) e # nv_v2_keep p es else nv_v2_keep p es)"
  by (simp_all add: nv_v2_keep_def)

lemma nv_v2_short: "length (nv_entries es) \<le> length p \<Longrightarrow> nv_v2_keep p es = []"
proof (induction es)
  case (Cons e es)
  then have "\<not> starts p e" using le_trans by (fastforce simp: starts_def dest: arg_cong [of _ _ length])
  with Cons show ?case by simp
qed simp

lemma starts_split: "starts p e \<Longrightarrow> e = p @ drop (length p) e"
  by (metis append_take_drop_id starts_def)

lemma nv_bound_less:
  "l \<le> n \<Longrightarrow> i \<le> n \<Longrightarrow> n < 2 ^ 32 \<Longrightarrow> (of_nat i :: u64) < of_nat n - of_nat l \<longleftrightarrow> i < n - l"
  by (simp add: word_less_nat_alt unat_of_nat take_bit_nat_eq_self flip: of_nat_diff)

lemma nv_v2_run:
  assumes "src = pre @ nv_entries es @ rest" and "\<forall>e \<in> set es. 0 \<notin> set e" and "0 \<notin> set p"
    and "n = length pre + length (nv_entries es)" and "length p \<le> n" and "n < 2 ^ 32"
    and "j + length (nv_entries (nv_v2_keep p es)) \<le> length dst"
  shows "nv_v2_loop src p (of_nat n - of_nat (length p)) dst (length pre) j bf
     = Some (take j dst @ nv_entries (nv_v2_keep p es) @ drop (j + length (nv_entries (nv_v2_keep p es))) dst,
         j + length (nv_entries (nv_v2_keep p es)), bf \<or> list_ex (starts (str_bytes ''boardrev'')) (nv_v2_keep p es))"
  using assms
proof (induction es arbitrary: pre dst j bf)
  case Nil
  have "\<not> (of_nat (length pre) :: u64) < of_nat n - of_nat (length p)"
    using Nil.prems(4-6) nv_bound_less [of "length p" n n] by simp
  then show ?case by (subst nv_v2_loop.simps) simp
next
  case (Cons e es)
  have lt: "(of_nat (length pre) :: u64) < of_nat n - of_nat (length p) \<longleftrightarrow> length pre < n - length p"
    using Cons.prems(4-6) by (intro nv_bound_less) simp_all
  show ?case
  proof (cases "length pre < n - length p")
    case False
    then have "length (nv_entries (e # es)) \<le> length p" using Cons.prems(4) by arith
    from nv_v2_short [OF this] False lt show ?thesis by (subst nv_v2_loop.simps) simp
  next
    case True
    have e: "0 \<notin> set e" using Cons.prems(2) by simp
    have src: "src = pre @ e @ 0 # (nv_entries es @ rest)" using Cons.prems(1) by simp
    have cmp: "strncmp_eq src (length pre) p = Some (starts p e)"
      unfolding src using Cons.prems(3) e by (intro strncmp_eq_term)
    have src2: "src = (pre @ e @ [0]) @ nv_entries es @ rest" using src by simp
    have n2: "n = length (pre @ e @ [0]) + length (nv_entries es)" using Cons.prems(4) by simp
    note IH = Cons.IH [OF src2 _ Cons.prems(3) n2 Cons.prems(5,6)]
    show ?thesis
    proof (cases "starts p e")
      case False
      have "nv_skip src (length pre) = Some (length pre + length e)" unfolding src using e by (rule nv_skip_run)
      then show ?thesis
        using IH [of j dst bf] Cons.prems(2,7) True False lt cmp by (subst nv_v2_loop.simps) simp
    next
      case hit: True
      let ?d = "drop (length p) e"
      have d: "0 \<notin> set ?d" using e by (auto dest: in_set_dropD)
      have src3: "src = (pre @ p) @ ?d @ 0 # (nv_entries es @ rest)" using src starts_split [OF hit] by simp
      let ?dst = "take j dst @ (?d @ [0]) @ drop (j + length (?d @ [0])) dst"
      have room: "j + length ?d < length dst" using Cons.prems(7) hit by simp
      have tk: "nv_take src dst (length pre + length p) j bf
          = Some (?dst, length (pre @ p) + length ?d, j + length (?d @ [0]), bf \<or> starts (str_bytes ''boardrev'') ?d)"
        using nv_take_run [OF d room, of "pre @ p" "nv_entries es @ rest" bf] unfolding src3 by simp
      have le: "length (pre @ p) + length ?d = length pre + length e" using starts_split [OF hit] by (metis add.assoc length_append)
      have "nv_skip src (length (pre @ p @ ?d)) = Some (length (pre @ p @ ?d) + length ([] :: u8 list))"
        using nv_skip_run [of "[]" "pre @ p @ ?d" "nv_entries es @ rest"] unfolding src3 by simp
      then have sk: "nv_skip src (length pre + length e) = Some (length pre + length e)" using le by simp
      have "nv_v2_loop src p (of_nat n - of_nat (length p)) dst (length pre) j bf
          = nv_v2_loop src p (of_nat n - of_nat (length p)) ?dst (length (pre @ e @ [0])) (j + length (?d @ [0]))
              (bf \<or> starts (str_bytes ''boardrev'') ?d)"
        using True hit lt cmp tk sk le by (subst nv_v2_loop.simps) simp
      also have "\<dots> = Some (take (j + length (?d @ [0])) ?dst @ nv_entries (nv_v2_keep p es)
            @ drop (j + length (?d @ [0]) + length (nv_entries (nv_v2_keep p es))) ?dst,
          j + length (?d @ [0]) + length (nv_entries (nv_v2_keep p es)),
          (bf \<or> starts (str_bytes ''boardrev'') ?d) \<or> list_ex (starts (str_bytes ''boardrev'')) (nv_v2_keep p es))"
        using Cons.prems(2,7) hit room by (intro IH) simp_all
      finally show ?thesis using hit room by (simp add: ac_simps)
    qed
  qed
qed

lemma str_bytes_nonzero: "(\<And>c. c \<in> set s \<Longrightarrow> of_char c \<noteq> (0 :: nat)) \<Longrightarrow> 0 \<notin> set (str_bytes s)"
proof
  assume nz: "\<And>c. c \<in> set s \<Longrightarrow> of_char c \<noteq> (0 :: nat)" and "0 \<in> set (str_bytes s)"
  then obtain c where c: "c \<in> set s" "(of_nat (of_char c) :: u8) = 0" by (auto simp: str_bytes_def)
  have "(of_char c :: nat) < 256" by simp
  with arg_cong [OF c(2), of unat] have "of_char c = (0 :: nat)" by (simp add: unat_of_nat take_bit_nat_eq_self)
  with nz [OF c(1)] show False by simp
qed

lemma nv_v2_prefix_props: "0 \<notin> set (nv_v2_prefix d b)" "9 \<le> length (nv_v2_prefix d b)" "length (nv_v2_prefix d b) < 20"
proof -
  show "0 \<notin> set (nv_v2_prefix d b)"
    unfolding nv_v2_prefix_def
    by (rule str_bytes_nonzero) (auto simp: snprintf_def dest!: in_set_takeD decimal_digits)
  have "1 \<le> length (decimal n)" for n using decimal_nonempty [of n] by (cases "decimal n") auto
  from this [of "unat d"] this [of "unat b"] show "9 \<le> length (nv_v2_prefix d b)"
    by (simp add: nv_v2_prefix_def snprintf_def)
  show "length (nv_v2_prefix d b) < 20" by (simp add: nv_v2_prefix_def snprintf_def)
qed

lemma nv_keep_le: "length (nv_entries (nv_v2_keep p es)) \<le> length (nv_entries es)"
  by (induction es) auto

text \<open>For a version 2 file, \<open>brcmf_fw_strip_multi_v2\<close> keeps exactly the entries that begin with the device's
  \<open>pcie/domain/bus/\<close> prefix, in order and without the prefix, and notes a board revision among them, as
  long as the parsed entries are at least as long as the prefix.\<close>

theorem nvram_v2_exact:
  assumes "nvram nvp = nv_entries es @ rest" and "nvram_len nvp = length (nv_entries es)" and "\<forall>e \<in> set es. 0 \<notin> set e"
    and "length (nv_v2_prefix d b) \<le> nvram_len nvp" and "nvram_len nvp < 2 ^ 32"
  shows "\<exists>nvp'. brcmf_fw_strip_multi_v2 True nvp d b = Some nvp'
    \<and> nvram_len nvp' = length (nv_entries (nv_v2_keep (nv_v2_prefix d b) es))
    \<and> take (nvram_len nvp') (nvram nvp') = nv_entries (nv_v2_keep (nv_v2_prefix d b) es)
    \<and> boardrev_found nvp' = (boardrev_found nvp \<or> list_ex (starts (str_bytes ''boardrev'')) (nv_v2_keep (nv_v2_prefix d b) es))"
proof -
  let ?p = "nv_v2_prefix d b" and ?new = "replicate (nvram_len nvp + 1 + 3 + 4) 0 :: u8 list"
  have src: "nvram nvp = [] @ nv_entries es @ rest" and n: "nvram_len nvp = length ([] :: u8 list) + length (nv_entries es)"
    using assms by simp_all
  have room: "0 + length (nv_entries (nv_v2_keep ?p es)) \<le> length ?new"
    using nv_keep_le [of ?p es] assms(2) by simp
  note R = nv_v2_run [OF src assms(3) nv_v2_prefix_props(1) n assms(4,5) room, of "boardrev_found nvp"]
  show ?thesis
    using R by (simp add: brcmf_fw_strip_multi_v2_def Let_def)
qed

theorem nvram_v2_exact_witness:
  "\<exists>nvp'. brcmf_fw_strip_multi_v2 True \<lparr>nv_state = IDLE, nvram = nv_entries [str_bytes ''pcie/0/0/a=b'', str_bytes ''pcie/1/0/a=c''],
      nvram_len = 26, nv_line = 1, nv_column = 1, nv_pos = 26, nv_entry = 13, multi_dev_v1 = False, multi_dev_v2 = True,
      boardrev_found = False, strip_mac = False\<rparr> 1 0 = Some nvp' \<and> take (nvram_len nvp') (nvram nvp') = str_bytes ''a=c'' @ [0]"
  (is "\<exists>nvp'. brcmf_fw_strip_multi_v2 True ?n 1 0 = Some nvp' \<and> _")
proof -
  have p: "nv_v2_prefix 1 0 = str_bytes ''pcie/1/0/''"
    by (simp add: nv_v2_prefix_def snprintf_def decimal.simps char_of_def bit_Suc_0_iff)
  show ?thesis
    using nvram_v2_exact [of ?n "[str_bytes ''pcie/0/0/a=b'', str_bytes ''pcie/1/0/a=c'']" "[]" 1 0]
    unfolding p by (auto simp: str_bytes_def)
qed

text \<open>The loop with a bound beyond the buffer only ends by reading past it.\<close>

lemma nv_v2_runaway:
  "\<forall>k \<le> length src. (of_nat k :: u64) < bound \<Longrightarrow> p \<noteq> [] \<Longrightarrow> i \<le> length src \<Longrightarrow> nv_v2_loop src p bound dst i j bf = None"
proof (induction src p bound dst i j bf rule: nv_v2_loop.induct)
  case (1 src p bound dst i j bf)
  have lt: "of_nat i < bound" using "1.prems" by blast
  show ?case
  proof (cases "strncmp_eq src i p")
    case None
    with lt show ?thesis by (subst nv_v2_loop.simps) simp
  next
    case m: (Some m)
    show ?thesis
    proof (cases "if m then nv_take src dst (i + length p) j bf else Some (dst, i, j, bf)")
      case None
      with lt m show ?thesis by (subst nv_v2_loop.simps) simp
    next
      case (Some r)
      obtain dst' i' j' bf' where r: "r = (dst', i', j', bf')" by (cases r)
      show ?thesis
      proof (cases "nv_skip src i'")
        case None
        with lt m Some r show ?thesis by (subst nv_v2_loop.simps) simp
      next
        case sk: (Some k)
        have "k + 1 \<le> length src" using nv_skip_bounds [OF sk] by simp
        with "1.IH" [OF lt m Some r [symmetric] refl refl sk] "1.prems"(1,2)
        have "nv_v2_loop src p bound dst' (k + 1) j' bf' = None" by simp
        with lt m Some r sk show ?thesis by (subst nv_v2_loop.simps) simp
      qed
    qed
  qed
qed

text \<open>The parse of a well-formed version 2 file, up to the call of \<open>brcmf_fw_strip_multi_v2\<close>.\<close>

lemma nv_v2_parsed:
  assumes "list_all nv_line_ok ls" and "out = concat (map (nv_line_out (mac \<noteq> None)) ls)" and "length out < BRCMF_FW_MAX_NVRAM_SIZE"
    and "\<not> list_ex (nv_line_key ''devpath'') ls" "list_ex (nv_line_key ''pcie/'') ls"
  obtains nvp where "nvram_len nvp = length out" "take (length out) (nvram nvp) = out" "length (nvram nvp) \<le> 64048"
    "\<not> boardrev_found nvp"
    "brcmf_fw_nvram_strip True True mac (concat (map nv_line_bytes ls)) d b = do {
       nvp \<leftarrow> brcmf_fw_strip_multi_v2 True nvp d b;
       if nvram_len nvp = 0 then Some None
          else do {
            nvp \<leftarrow> brcmf_fw_add_defaults nvp;
            nvp \<leftarrow> (case mac of Some m \<Rightarrow> brcmf_fw_add_macaddr nvp m | None \<Rightarrow> Some nvp);
            let new_length = (nvram_len nvp + 1 + 3) div 4 * 4;
            buf \<leftarrow> nv_pad (nvram nvp) (nvram_len nvp) (new_length - nvram_len nvp);
            buf \<leftarrow> write_bytes buf new_length (le32 (nv_token (of_nat (new_length div 4))));
            Some (Some (buf, new_length + 4)) } }"
proof -
  define sm where "sm = (mac \<noteq> None)"
  let ?data = "concat (map nv_line_bytes ls)"
  let ?sz = "min (length ?data) BRCMF_FW_MAX_NVRAM_SIZE + 48"
  obtain n0 where n0: "brcmf_init_nvram_parser True ?data = (OK, Some n0)"
    "nv_at ?sz (length ([] :: u8 list)) [] sm False False False (n0\<lparr>strip_mac := sm\<rparr>)"
    using nv_init [of ?data sm] by auto
  have le: "length (concat (map (nv_line_out sm) ls)) \<le> min (length ?data) BRCMF_FW_MAX_NVRAM_SIZE"
    using nv_out_le [of sm ls] assms(2,3) by (simp add: sm_def)
  have d: "?data = [] @ concat (map nv_line_bytes ls)" by simp
  obtain n1 where n1: "nv_parse ?data (n0\<lparr>strip_mac := sm\<rparr>) = Some n1"
    "nv_at ?sz (length ?data) out sm False True (list_ex (nv_line_key ''boardrev'') ls) n1"
    using nv_file_run [OF d assms(1) n0(2)] le assms(2-5) unfolding sm_def [symmetric]
    by (simp only: simp_thms append_Nil list.size add_0 min_less_iff_conj) (auto intro: le_trans)
  show thesis
  proof (rule that [of "n1\<lparr>boardrev_found := False\<rparr>"])
    show "length (nvram (n1\<lparr>boardrev_found := False\<rparr>)) \<le> 64048" using n1(2) by (simp add: nv_at_def)
  qed (use n1 n0(1) in \<open>simp_all add: nv_at_def brcmf_fw_nvram_strip_def sm_def\<close>)
qed

text \<open>When the parsed entries of a version 2 file are shorter than the device prefix, the unsigned loop bound
  of \<open>brcmf_fw_strip_multi_v2\<close> wraps around and the loop reads past the end of the NVRAM buffer.\<close>

theorem nvram_v2_underflow:
  assumes "list_all nv_line_ok ls" and "\<not> list_ex (nv_line_key ''devpath'') ls" "list_ex (nv_line_key ''pcie/'') ls"
    and "length (concat (map (nv_line_out (mac \<noteq> None)) ls)) < length (nv_v2_prefix d b)"
  shows "brcmf_fw_nvram_strip True True mac (concat (map nv_line_bytes ls)) d b = None"
proof -
  let ?out = "concat (map (nv_line_out (mac \<noteq> None)) ls)" and ?p = "nv_v2_prefix d b"
  have n: "length ?out < 20" using assms(4) nv_v2_prefix_props(3) [of d b] by simp
  show ?thesis
  proof (rule nv_v2_parsed [OF assms(1) refl _ assms(2,3), of mac d b])
    show "length ?out < BRCMF_FW_MAX_NVRAM_SIZE" using n by simp
  next
    fix nvp assume nvp: "nvram_len nvp = length ?out" "length (nvram nvp) \<le> 64048"
      and call: "brcmf_fw_nvram_strip True True mac (concat (map nv_line_bytes ls)) d b = do {
       nvp \<leftarrow> brcmf_fw_strip_multi_v2 True nvp d b;
       if nvram_len nvp = 0 then Some None
          else do {
            nvp \<leftarrow> brcmf_fw_add_defaults nvp;
            nvp \<leftarrow> (case mac of Some m \<Rightarrow> brcmf_fw_add_macaddr nvp m | None \<Rightarrow> Some nvp);
            let new_length = (nvram_len nvp + 1 + 3) div 4 * 4;
            buf \<leftarrow> nv_pad (nvram nvp) (nvram_len nvp) (new_length - nvram_len nvp);
            buf \<leftarrow> write_bytes buf new_length (le32 (nv_token (of_nat (new_length div 4))));
            Some (Some (buf, new_length + 4)) } }"
    define k where "k = length ?p - length ?out"
    have k: "0 < k" "k < 20" using assms(4) nv_v2_prefix_props(3) [of d b] by (simp_all add: k_def)
    have bound: "(of_nat (length ?out) - of_nat (length ?p) :: u64) = - of_nat k"
      using assms(4) by (simp add: k_def of_nat_diff)
    have m: "(- of_nat k :: u64) = of_nat (2 ^ 64 - k)" using k by (simp add: of_nat_diff)
    have "unat (- of_nat k :: u64) = 2 ^ 64 - k"
      unfolding m unat_of_nat by (rule mod_less) (use k in simp)
    then have "(of_nat i :: u64) < - of_nat k" if "i \<le> length (nvram nvp)" for i
      using that k nvp(2) by (simp add: word_less_nat_alt unat_of_nat take_bit_nat_eq_self)
    moreover have "?p \<noteq> []" using nv_v2_prefix_props(2) [of d b] by auto
    ultimately have "nv_v2_loop (nvram nvp) ?p (of_nat (nvram_len nvp) - of_nat (length ?p)) dst 0 0 bf = None" for dst bf
      unfolding nvp(1) bound by (intro nv_v2_runaway) auto
    then show ?thesis unfolding call by (simp add: brcmf_fw_strip_multi_v2_def)
  qed
qed

theorem nvram_v2_underflow_witness:
  "brcmf_fw_nvram_strip True True None (str_bytes ''pcie/='' @ [10]) 0 0 = None"
  using nvram_v2_underflow [of "[Setting (str_bytes ''pcie/'') [] False]" None 0 0] nv_v2_prefix_props(2) [of 0 0]
  by (simp add: str_bytes_def nv_eol_def nv_key_char_def is_nvram_char_def nv_dropped_def)

lemma length_nv_pad: "nv_pad buf p n = Some buf' \<Longrightarrow> length buf' = length buf"
  by (induction n arbitrary: buf p) (auto simp: bind_Some_iff)

lemma nv_finish_overflow:
  assumes "length (nvram nvp) < nvram_len nvp + 5"
  shows "do {
            let new_length = (nvram_len nvp + 1 + 3) div 4 * 4;
            buf \<leftarrow> nv_pad (nvram nvp) (nvram_len nvp) (new_length - nvram_len nvp);
            buf \<leftarrow> write_bytes buf new_length (le32 (nv_token (of_nat (new_length div 4))));
            Some (Some (buf, new_length + 4)) } = None"
proof (cases "nv_pad (nvram nvp) (nvram_len nvp) ((nvram_len nvp + 1 + 3) div 4 * 4 - nvram_len nvp)")
  case None
  then show ?thesis by (simp only: Let_def bind.bind_lzero)
next
  case (Some buf)
  have "length buf < (nvram_len nvp + 1 + 3) div 4 * 4 + 4" using length_nv_pad [OF Some] assms by presburger
  then have "write_bytes buf ((nvram_len nvp + 1 + 3) div 4 * 4) (le32 x) = None" for x
    by (simp add: write_bytes_None)
  with Some show ?thesis by (simp only: Let_def bind.bind_lunit bind.bind_lzero)
qed

text \<open>\<open>brcmf_fw_strip_multi_v2\<close> allocates its buffer for the stripped entries only, but the default board
  revision is still appended. For a version 2 file with one entry of the device, of any length, a device path of
  at most ten characters and no board revision, the image is written past the end of the buffer.\<close>

theorem nvram_v2_overflow:
  assumes k: "list_all nv_key_char k" "\<not> starts (str_bytes ''boardrev'') k" and v: "list_all is_nvram_char v"
    and path: "list_all nv_key_char (nv_v2_prefix d b)" "length (nv_v2_prefix d b) \<le> 10" "starts (str_bytes ''pcie/'') (nv_v2_prefix d b)"
    and small: "length k + length v < 63000"
  shows "brcmf_fw_nvram_strip True True None (nv_line_bytes (Setting (nv_v2_prefix d b @ k) v cr)) d b = None"
proof -
  let ?p = "nv_v2_prefix d b"
  let ?ls = "[Setting (?p @ k) v cr]" and ?s = "k @ chr_eq # v"
  obtain q where q: "?p = str_bytes ''pcie/'' @ q" using starts_split [OF path(3)] by blast
  have drop0: "\<not> nv_dropped False (?p @ k)" "nv_line_key ''pcie/'' (hd ?ls)" "\<not> nv_line_key ''devpath'' (hd ?ls)"
    unfolding q by (simp_all add: nv_dropped_def str_bytes_def)
  let ?out = "concat (map (nv_line_out (None \<noteq> (None :: u8 list option))) ?ls)"
  have out: "?out = nv_entries [?p @ ?s]" using drop0(1) by simp
  have "list_all nv_line_ok ?ls" using k(1) v path(1) by simp
  moreover have "length ?out < BRCMF_FW_MAX_NVRAM_SIZE" using out small path(2) by simp
  moreover have "\<not> list_ex (nv_line_key ''devpath'') ?ls" "list_ex (nv_line_key ''pcie/'') ?ls" using drop0 by simp_all
  ultimately obtain nvp where nvp: "nvram_len nvp = length ?out" "take (length ?out) (nvram nvp) = ?out" "\<not> boardrev_found nvp"
    and call: "brcmf_fw_nvram_strip True True None (concat (map nv_line_bytes ?ls)) d b = do {
       nvp \<leftarrow> brcmf_fw_strip_multi_v2 True nvp d b;
       if nvram_len nvp = 0 then Some None
          else do {
            nvp \<leftarrow> brcmf_fw_add_defaults nvp;
            nvp \<leftarrow> (case None of Some m \<Rightarrow> brcmf_fw_add_macaddr nvp m | None \<Rightarrow> Some nvp);
            let new_length = (nvram_len nvp + 1 + 3) div 4 * 4;
            buf \<leftarrow> nv_pad (nvram nvp) (nvram_len nvp) (new_length - nvram_len nvp);
            buf \<leftarrow> write_bytes buf new_length (le32 (nv_token (of_nat (new_length div 4))));
            Some (Some (buf, new_length + 4)) } }"
    using nv_v2_parsed [OF _ refl, of ?ls None d b] by blast
  have "nvram nvp = ?out @ drop (length ?out) (nvram nvp)"
    using append_take_drop_id [of "length ?out" "nvram nvp"] unfolding nvp(2) by (rule sym)
  then have src: "nvram nvp = [] @ nv_entries [?p @ ?s] @ drop (length ?out) (nvram nvp)"
    unfolding out append_Nil .
  have keep: "nv_v2_keep ?p [?p @ ?s] = [?s]" by (simp add: starts_def)
  have nz: "\<forall>e \<in> set [?p @ ?s]. 0 \<notin> set e"
    using k v nv_v2_prefix_props(1) [of d b] by (auto simp: list_all_iff nv_key_char_def is_nvram_char_def)
  have n: "nvram_len nvp = length ([] :: u8 list) + length (nv_entries [?p @ ?s])" "length ?p \<le> nvram_len nvp" "nvram_len nvp < 2 ^ 32"
    using nvp(1) out small path(2) by simp_all
  let ?new = "replicate (nvram_len nvp + 1 + 3 + 4) 0 :: u8 list"
  have room: "0 + length (nv_entries (nv_v2_keep ?p [?p @ ?s])) \<le> length ?new" unfolding keep using n(1) by simp
  note R = nv_v2_run [OF src nz nv_v2_prefix_props(1) n room, of False, unfolded keep]
  have rv: "\<not> starts (str_bytes ''boardrev'') ?s"
  proof -
    have "strncmp_eq (?s @ [0]) 0 (str_bytes ''boardrev'') = Some (starts (str_bytes ''boardrev'') k)"
      using strncmp_eq_term [of chr_eq k "str_bytes ''boardrev''" "[]" "v @ [0]"] k(1)
      by (auto simp: str_bytes_def list_all_iff nv_key_char_def)
    moreover have "strncmp_eq (?s @ [0]) 0 (str_bytes ''boardrev'') = Some (starts (str_bytes ''boardrev'') ?s)"
      using strncmp_eq_term [of 0 ?s "str_bytes ''boardrev''" "[]" "[]"] nz by (auto simp: str_bytes_def)
    ultimately show ?thesis using k(2) by simp
  qed
  obtain nvp2 where nvp2: "brcmf_fw_strip_multi_v2 True nvp d b = Some nvp2" "nvram_len nvp2 = length ?s + 1"
    "length (nvram nvp2) = length ?out + 8" "\<not> boardrev_found nvp2"
  proof -
    have "brcmf_fw_strip_multi_v2 True nvp d b = Some (nvp\<lparr>nvram := nv_entries [?s] @ drop (length (nv_entries [?s])) ?new,
        nvram_len := length (nv_entries [?s]), boardrev_found := False\<rparr>)" (is "_ = Some ?nvp2")
      using R rv nvp(3) by (simp add: brcmf_fw_strip_multi_v2_def Let_def)
    then show thesis
    proof (rule that [of ?nvp2])
      show "length (nvram ?nvp2) = length ?out + 8" unfolding nvp(1) out by simp
    qed simp_all
  qed
  have "length ?out \<le> length ?s + 11" using out path(2) by simp
  then have len: "length (nvram nvp2) < nvram_len nvp2 + 14 + 5" using nvp2(2,3) by simp
  show ?thesis
  proof (cases "brcmf_fw_add_defaults nvp2")
    case None
    then show ?thesis using call nvp2(1,2) by simp
  next
    case (Some nvp3)
    then have "nvram_len nvp3 = nvram_len nvp2 + 14" "length (nvram nvp3) = length (nvram nvp2)"
      using nvp2(4) by (auto simp: brcmf_fw_add_defaults_def bind_Some_iff Let_def length_default dest: length_write_bytes)
    with len have "length (nvram nvp3) < nvram_len nvp3 + 5" by simp
    from nv_finish_overflow [OF this] show ?thesis using call nvp2(1,2) Some by simp
  qed
qed

theorem nvram_v2_overflow_witness:
  "brcmf_fw_nvram_strip True True None (str_bytes ''pcie/0/0/a=b'' @ [10]) 0 0 = None"
proof -
  have p: "nv_v2_prefix 0 0 = str_bytes ''pcie/0/0/''"
    by (simp add: nv_v2_prefix_def snprintf_def decimal.simps char_of_def bit_Suc_0_iff)
  show ?thesis
    using nvram_v2_overflow [of "str_bytes ''a''" "str_bytes ''b''" 0 0 False] unfolding p
    by (simp add: str_bytes_def nv_eol_def nv_key_char_def is_nvram_char_def)
qed

section \<open>Arbitrary files\<close>

text \<open>A comparison that starts before a character its text lacks stops there at the latest.\<close>

lemma strncmp_eq_before:
  "t \<notin> set lit \<Longrightarrow> p \<le> q \<Longrightarrow> q < length d \<Longrightarrow> d ! q = t \<Longrightarrow> \<exists>b. strncmp_eq d p lit = Some b"
proof (induction lit arbitrary: p)
  case (Cons c cs)
  show ?case
  proof (cases "d ! p = c")
    case True
    with Cons.prems have "p \<noteq> q" by auto
    with Cons.prems Cons.IH [of "p + 1"] True show ?thesis by (simp add: nth_opt_in)
  next
    case False
    with Cons.prems show ?thesis by (intro exI [of _ False]) (simp add: nth_opt_in)
  qed
qed auto

lemma strchr_total: "last xs = c \<or> last xs = 0 \<Longrightarrow> xs \<noteq> [] \<Longrightarrow> \<exists>r. strchr c xs = Some r \<and> (\<forall>e. r = Some e \<longrightarrow> e < length xs)"
  by (induction xs) (auto split: if_splits)

definition nv_inv :: "u8 list \<Rightarrow> nvram_parser \<Rightarrow> bool" where
  "nv_inv data nvp \<longleftrightarrow> length (nvram nvp) = min (length data) BRCMF_FW_MAX_NVRAM_SIZE + 48
     \<and> nvram_len nvp \<le> length data \<and> nvram_len nvp < BRCMF_FW_MAX_NVRAM_SIZE \<and> nv_pos nvp \<le> length data
     \<and> (case nv_state nvp of
          IDLE \<Rightarrow> nvram_len nvp \<le> nv_pos nvp \<or> nvram_len nvp = nv_pos nvp + 1 \<and> \<not> is_nvram_char (data ! nv_pos nvp)
        | KEY \<Rightarrow> nvram_len nvp \<le> nv_entry nvp \<and> nv_entry nvp \<le> nv_pos nvp
        | VALUE \<Rightarrow> nvram_len nvp \<le> nv_entry nvp \<and> nv_entry nvp \<le> nv_pos nvp
        | COMMENT \<Rightarrow> nvram_len nvp \<le> nv_pos nvp + 1
        | END \<Rightarrow> True)"

lemma nv_step_idle:
  assumes "nv_inv data nvp" and "nv_pos nvp < length data" and "nv_state nvp = IDLE"
  shows "\<exists>st nvp'. nv_parser_states data nvp = Some (st, nvp') \<and> nv_inv data (nvp'\<lparr>nv_state := st\<rparr>)"
  using assms
  by (auto simp: nv_parser_states_def brcmf_nvram_handle_idle_def nv_inv_def nth_opt_in Let_def)

lemma nv_step_key:
  assumes "nv_inv data nvp" and "nv_pos nvp < length data" and "nv_state nvp = KEY"
  shows "\<exists>st nvp'. nv_parser_states data nvp = Some (st, nvp') \<and> nv_inv data (nvp'\<lparr>nv_state := st\<rparr>)"
proof (cases "data ! nv_pos nvp = chr_eq")
  case False
  with assms show ?thesis
    by (auto simp: nv_parser_states_def brcmf_nvram_handle_key_def nv_inv_def nth_opt_in)
next
  case True
  have le: "nv_entry nvp \<le> nv_pos nvp" using assms by (simp add: nv_inv_def)
  have cmp: "\<exists>b. strncmp_eq data (nv_entry nvp) (str_bytes s) = Some b" if "chr_eq \<notin> set (str_bytes s)" for s
    using strncmp_eq_before [OF that le assms(2)] True by simp
  obtain b1 b2 b3 b4 b5 where b: "strncmp_eq data (nv_entry nvp) (str_bytes ''RAW1'') = Some b1"
    "strncmp_eq data (nv_entry nvp) (str_bytes ''devpath'') = Some b2" "strncmp_eq data (nv_entry nvp) (str_bytes ''pcie/'') = Some b3"
    "strncmp_eq data (nv_entry nvp) (str_bytes ''boardrev'') = Some b4" "strncmp_eq data (nv_entry nvp) (str_bytes ''macaddr'') = Some b5"
    using cmp [of "''RAW1''"] cmp [of "''devpath''"] cmp [of "''pcie/''"] cmp [of "''boardrev''"] cmp [of "''macaddr''"]
    by (auto simp: str_bytes_def)
  show ?thesis
    using assms True b by (auto simp: nv_parser_states_def brcmf_nvram_handle_key_def nv_inv_def nth_opt_in)
qed

lemma nv_step_value:
  assumes "nv_inv data nvp" and "nv_pos nvp < length data" and "nv_state nvp = VALUE"
  shows "\<exists>st nvp'. nv_parser_states data nvp = Some (st, nvp') \<and> nv_inv data (nvp'\<lparr>nv_state := st\<rparr>)"
  using assms
  by (auto simp: nv_parser_states_def brcmf_nvram_handle_value_def nv_inv_def nth_opt_in Let_def read_bytes_def
      write_bytes_def upd_opt_def)

lemma nv_step_comment:
  assumes "nv_inv data nvp" and "nv_pos nvp < length data" and "nv_state nvp = COMMENT" and "last data = chr_nl \<or> last data = 0"
  shows "\<exists>st nvp'. nv_parser_states data nvp = Some (st, nvp') \<and> nv_inv data (nvp'\<lparr>nv_state := st\<rparr>)"
proof -
  let ?s = "drop (nv_pos nvp) data"
  have s: "?s \<noteq> []" "last ?s = last data" using assms(2) by simp_all
  obtain r where r: "strchr chr_nl ?s = Some r" "\<forall>e. r = Some e \<longrightarrow> e < length ?s"
    using strchr_total [of ?s chr_nl] s assms(4) by auto
  have z: "\<exists>r0. strchr 0 ?s = Some r0 \<and> (\<forall>e. r0 = Some e \<longrightarrow> e < length ?s)" if "r = None"
  proof -
    have "strchr chr_nl xs = Some None \<Longrightarrow> \<exists>r0. strchr 0 xs = Some r0 \<and> (\<forall>e. r0 = Some e \<longrightarrow> e < length xs)" for xs
      by (induction xs) (auto split: if_splits)
    from this [of ?s] show ?thesis using r that by simp
  qed
  show ?thesis
  proof (cases r)
    case (Some e)
    with r assms show ?thesis
      by (auto simp: nv_parser_states_def brcmf_nvram_handle_comment_def nv_inv_def)
  next
    case None
    with z obtain r0 where "strchr 0 ?s = Some r0" "\<forall>e. r0 = Some e \<longrightarrow> e < length ?s" by blast
    with None r assms show ?thesis
      by (cases r0) (auto simp: nv_parser_states_def brcmf_nvram_handle_comment_def nv_inv_def)
  qed
qed

lemma nv_step_inv [invs]:
  assumes "nv_inv data nvp" and "nv_pos nvp < length data" and "last data = chr_nl \<or> last data = 0"
  shows "\<exists>st nvp'. nv_parser_states data nvp = Some (st, nvp') \<and> nv_inv data (nvp'\<lparr>nv_state := st\<rparr>)"
proof (cases "nv_state nvp")
  case END
  then show ?thesis using assms by (simp add: nv_parser_states_def brcmf_nvram_handle_end_def nv_inv_def)
qed (use assms nv_step_idle nv_step_key nv_step_value nv_step_comment in blast)+

lemma nv_parse_inv:
  assumes "last data = chr_nl \<or> last data = 0"
  shows "nv_inv data nvp \<Longrightarrow> \<exists>nvp'. nv_parse data nvp = Some nvp' \<and> nv_inv data nvp'
     \<and> (length data \<le> nv_pos nvp' \<or> nv_state nvp' = END)"
  using assms
proof (induction data nvp rule: nv_parse.induct)
  case (1 data nvp)
  show ?case
  proof (cases "nv_pos nvp < length data")
    case False
    with "1.prems" show ?thesis by (subst nv_parse.simps) simp
  next
    case True
    obtain st nvp' where s: "nv_parser_states data nvp = Some (st, nvp')" "nv_inv data (nvp'\<lparr>nv_state := st\<rparr>)"
      using nv_step_inv [OF "1.prems"(1) True "1.prems"(2)] by blast
    show ?thesis
    proof (cases "st = END")
      case True
      with s \<open>nv_pos nvp < length data\<close> show ?thesis by (subst nv_parse.simps) simp
    next
      case False
      then have "nv_parse data nvp = nv_parse data (nvp'\<lparr>nv_state := st\<rparr>)" using True s(1) by (intro nv_parse_step)
      with "1.IH" [OF True s(1) refl False s(2) "1.prems"(2)] show ?thesis by simp
    qed
  qed
qed

lemma nv_inv_init:
  assumes "brcmf_init_nvram_parser True data = (OK, Some nvp)"
  shows "nv_inv data (nvp\<lparr>strip_mac := sm\<rparr>)"
  using assms by (auto simp: brcmf_init_nvram_parser_def Let_def nv_inv_def length_default)

text \<open>C11: For every file that ends in a newline or NUL, whatever its contents, the parser terminates, reads only
  inside the file and writes only inside its buffer, stops at the end of the file or when the NVRAM is full, and
  produces no more bytes than the file has; and when the file is for a single device the image is built without
  leaving the buffer, NULL being returned exactly when there is no entry.\<close>

theorem nvram_parse_safe:
  assumes "last data = chr_nl \<or> last data = 0" and mac: "\<And>m. mac = Some m \<Longrightarrow> length m = 6"
  shows "\<exists>n0 nvp r. brcmf_init_nvram_parser True data = (OK, Some n0)
    \<and> nv_parse data (n0\<lparr>strip_mac := (mac \<noteq> None)\<rparr>) = Some nvp
    \<and> (length data \<le> nv_pos nvp \<or> nv_state nvp = END)
    \<and> nvram_len nvp \<le> length data \<and> nvram_len nvp < BRCMF_FW_MAX_NVRAM_SIZE \<and> nvram_len nvp < length (nvram nvp)
    \<and> (\<not> multi_dev_v1 nvp \<and> \<not> multi_dev_v2 nvp \<longrightarrow>
         brcmf_fw_nvram_strip True alloc2 mac data d b = Some r \<and> (r = None \<longleftrightarrow> nvram_len nvp = 0))"
proof -
  define sm where "sm = (mac \<noteq> None)"
  let ?sz = "min (length data) BRCMF_FW_MAX_NVRAM_SIZE + 48"
  obtain n0 where n0: "brcmf_init_nvram_parser True data = (OK, Some n0)" using nv_init [of data sm] by blast
  obtain n1 where n1: "nv_parse data (n0\<lparr>strip_mac := sm\<rparr>) = Some n1" "nv_inv data n1"
    "length data \<le> nv_pos n1 \<or> nv_state n1 = END"
    using nv_parse_inv [OF assms(1) nv_inv_init [OF n0]] by blast
  have le: "nvram_len n1 \<le> min (length data) BRCMF_FW_MAX_NVRAM_SIZE" using n1(2) by (simp add: nv_inv_def)
  define out where "out = take (nvram_len n1) (nvram n1)"
  have buf: "length (nvram n1) = ?sz" using n1(2) by (simp add: nv_inv_def)
  have lo: "length out = nvram_len n1" using le unfolding out_def length_take buf by linarith
  have has: "nv_has out ?sz n1" by (simp add: nv_has_def lo buf) (simp add: out_def)
  have run: "\<exists>r. brcmf_fw_nvram_strip True alloc2 mac data d b = Some r \<and> (r = None \<longleftrightarrow> nvram_len n1 = 0)"
    if single: "\<not> multi_dev_v1 n1" "\<not> multi_dev_v2 n1"
  proof (cases "nvram_len n1 = 0")
    case True
    with n0 n1(1) single show ?thesis by (simp add: brcmf_fw_nvram_strip_def sm_def)
  next
    case False
    with lo have "out \<noteq> []" by auto
    from nv_strip_image [OF n0 n1(1) [unfolded sm_def] single has this _ mac, of alloc2 d b] le lo False
    show ?thesis by auto
  qed
  obtain r where r: "\<not> multi_dev_v1 n1 \<and> \<not> multi_dev_v2 n1 \<longrightarrow>
      brcmf_fw_nvram_strip True alloc2 mac data d b = Some r \<and> (r = None \<longleftrightarrow> nvram_len n1 = 0)"
  proof (cases "\<not> multi_dev_v1 n1 \<and> \<not> multi_dev_v2 n1")
    case True
    with run obtain r where "brcmf_fw_nvram_strip True alloc2 mac data d b = Some r \<and> (r = None \<longleftrightarrow> nvram_len n1 = 0)"
      by (elim conjE) (drule meta_mp, assumption, drule meta_mp, assumption, elim exE)
    then show thesis by (intro that impI)
  next
    case False
    then show thesis by (intro that) (rule impI, rule notE)
  qed
  have "nvram_len n1 \<le> length data" "nvram_len n1 < BRCMF_FW_MAX_NVRAM_SIZE" using n1(2) by (simp_all add: nv_inv_def)
  moreover have "nvram_len n1 < length (nvram n1)" using le buf by linarith
  ultimately show ?thesis using n0 n1(1,3) r unfolding sm_def
    by - (intro exI [of _ n0] exI [of _ n1] exI [of _ r] conjI; assumption)
qed

theorem nvram_parse_safe_witness:
  "\<exists>n0 nvp. brcmf_init_nvram_parser True (str_bytes ''a=#='' @ [10]) = (OK, Some n0) \<and> nv_parse (str_bytes ''a=#='' @ [10]) (n0\<lparr>strip_mac := False\<rparr>) = Some nvp"
  using nvram_parse_safe [of "str_bytes ''a=#='' @ [10]" None True 0 0] by (auto simp: str_bytes_def)

end
