(* ===== verification/Pktids.thy ===== *)
theory Pktids
  imports Prelude
begin

text \<open>
  The packet identifier tables of \<open>msgbuf.c\<close>: between posting a packet to the device and the
  device's completion message the driver knows the packet only by its index in such a table.

  A packet is any type \<open>'p\<close> with a length. DMA mappings are recorded as events; whether
  \<open>dma_map_single\<close> succeeds, and with which address, is a parameter. An index outside the table and a
  NULL packet that is followed are \<open>None\<close>.
\<close>

section \<open>State\<close>

datatype dma_ev = DmaMap u64 nat | DmaUnmap u64 nat

record 'p pktid =
  allocated :: bool
  data_offset :: u16
  pk_skb :: "'p option"
  pk_physaddr :: u64

record 'p pktids =
  array_size :: u32
  last_allocated_idx :: u32
  pk_array :: "'p pktid list"

abbreviation NR_TX_PKTIDS :: u32 where "NR_TX_PKTIDS \<equiv> 2048"
abbreviation NR_RX_PKTIDS :: u32 where "NR_RX_PKTIDS \<equiv> 2048"

definition brcmf_msgbuf_init_pktids :: "bool \<Rightarrow> u32 \<Rightarrow> 'p pktids option" where
  "brcmf_msgbuf_init_pktids alloc n =
     (if \<not> alloc then None
      else Some \<lparr>array_size = n, last_allocated_idx = 0,
        pk_array = replicate (unat n) \<lparr>allocated = False, data_offset = 0, pk_skb = None, pk_physaddr = 0\<rparr>\<rparr>)"

section \<open>Operations\<close>

text \<open>The search of \<open>brcmf_msgbuf_alloc_pktid\<close>: \<open>Some None\<close> when \<open>count\<close> reaches the size.\<close>

function pktid_scan :: "'p pktid list \<Rightarrow> u32 \<Rightarrow> nat \<Rightarrow> u32 \<Rightarrow> u32 option option" where
  "pktid_scan arr sz count idx =
     (let idx = idx + 1; idx = (if idx = sz then 0 else idx) in
      case nth_opt arr (unat idx) of
        None \<Rightarrow> None
      | Some p \<Rightarrow>
          if \<not> allocated p then Some (Some idx)
          else if count + 1 < unat sz then pktid_scan arr sz (count + 1) idx
          else Some None)"
  by pat_completeness auto
termination by (relation "measure (\<lambda>(arr, sz, count, idx). unat sz - count)") auto

declare pktid_scan.simps [simp del]

text \<open>\<open>len\<close> is the packet's length, \<open>mp\<close> the outcome of \<open>dma_map_single\<close>. The result is the address and the
  index, or \<^const>\<open>None\<close> for \<open>-ENOMEM\<close>.\<close>

definition brcmf_msgbuf_alloc_pktid ::
  "u64 option \<Rightarrow> 'p pktids \<Rightarrow> 'p \<Rightarrow> nat \<Rightarrow> u16 \<Rightarrow> ((u64 \<times> u32) option \<times> 'p pktids \<times> dma_ev list) option" where
  "brcmf_msgbuf_alloc_pktid mp t skb len off =
     (case mp of
        None \<Rightarrow> Some (None, t, [])
      | Some physaddr \<Rightarrow> do {
          found \<leftarrow> pktid_scan (pk_array t) (array_size t) 0 (last_allocated_idx t);
          case found of
            None \<Rightarrow> Some (None, t, [DmaMap physaddr (len - unat off), DmaUnmap physaddr (len - unat off)])
          | Some idx \<Rightarrow> do {
              arr \<leftarrow> upd_opt (pk_array t) (unat idx)
                \<lparr>allocated = True, data_offset = off, pk_skb = Some skb, pk_physaddr = physaddr\<rparr>;
              Some (Some (physaddr, idx), t\<lparr>pk_array := arr, last_allocated_idx := idx\<rparr>,
                    [DmaMap physaddr (len - unat off)]) } })"

definition brcmf_msgbuf_get_pktid ::
  "('p \<Rightarrow> nat) \<Rightarrow> 'p pktids \<Rightarrow> u32 \<Rightarrow> ('p option \<times> 'p pktids \<times> dma_ev list) option" where
  "brcmf_msgbuf_get_pktid skb_len t idx =
     (if array_size t \<le> idx then Some (None, t, [])
      else do {
        p \<leftarrow> nth_opt (pk_array t) (unat idx);
        if allocated p then do {
          skb \<leftarrow> pk_skb p;
          Some (Some skb, t\<lparr>pk_array := (pk_array t)[unat idx := p\<lparr>allocated := False\<rparr>]\<rparr>,
                [DmaUnmap (pk_physaddr p) (skb_len skb - unat (data_offset p))]) }
        else Some (None, t, []) })"

text \<open>Releasing a table unmaps and frees every packet still in it.\<close>

fun release_entries :: "('p \<Rightarrow> nat) \<Rightarrow> 'p pktid list \<Rightarrow> ('p list \<times> dma_ev list) option" where
  "release_entries skb_len [] = Some ([], [])"
| "release_entries skb_len (p # ps) = do {
     (fs, es) \<leftarrow> release_entries skb_len ps;
     if allocated p then do {
       skb \<leftarrow> pk_skb p;
       Some (skb # fs, DmaUnmap (pk_physaddr p) (skb_len skb - unat (data_offset p)) # es) }
     else Some (fs, es) }"

definition brcmf_msgbuf_release_array :: "('p \<Rightarrow> nat) \<Rightarrow> 'p pktids \<Rightarrow> ('p list \<times> dma_ev list) option" where
  "brcmf_msgbuf_release_array skb_len t = release_entries skb_len (take (unat (array_size t)) (pk_array t))"

section \<open>The invariant\<close>

definition pktids_inv :: "'p pktids \<Rightarrow> bool" where
  "pktids_inv t \<longleftrightarrow> 0 < array_size t \<and> length (pk_array t) = unat (array_size t) \<and> last_allocated_idx t < array_size t
     \<and> (\<forall>p \<in> set (pk_array t). allocated p \<longrightarrow> pk_skb p \<noteq> None)"

text \<open>The packets in the table by identifier, with their mappings.\<close>

definition pktid_of :: "'p pktids \<Rightarrow> u32 \<Rightarrow> ('p \<times> u64 \<times> u16) option" where
  "pktid_of t idx = (case nth_opt (pk_array t) (unat idx) of
       Some p \<Rightarrow> if allocated p then map_option (\<lambda>s. (s, pk_physaddr p, data_offset p)) (pk_skb p) else None
     | None \<Rightarrow> None)"

lemma pktids_init: "0 < n \<Longrightarrow> brcmf_msgbuf_init_pktids True n = Some t \<Longrightarrow> pktids_inv t \<and> (\<forall>i. pktid_of t i = None)"
  by (auto simp: brcmf_msgbuf_init_pktids_def pktids_inv_def pktid_of_def split: option.splits)

text \<open>The scan finds a free entry, or every entry is in use.\<close>

lemma pktid_scan_cases:
  assumes "length arr = unat sz" and "idx < sz" and "count < unat sz"
  obtains (found) i where "pktid_scan arr sz count idx = Some (Some i)" "i < sz" "\<not> allocated (arr ! unat i)"
  | (full) "pktid_scan arr sz count idx = Some None"
      "\<forall>k. 0 < k \<and> k \<le> unat sz - count \<longrightarrow> allocated (arr ! ((unat idx + k) mod unat sz))"
  using assms
proof (induction arr sz count idx arbitrary: thesis rule: pktid_scan.induct)
  case (1 arr sz count idx)
  define i where "i = (if idx + 1 = sz then 0 else idx + 1)"
  have lt: "unat idx < unat sz" using "1.prems"(4) by (simp add: word_less_nat_alt)
  have w: "unat (idx + 1) = unat idx + 1"
    using lt unat_widths_less(3) [of sz] by (simp add: unat_word_ariths)
  have ui: "unat i = (unat idx + 1) mod unat sz"
  proof (cases "idx + 1 = sz")
    case True
    then have "unat idx + 1 = unat sz" using w by simp
    with True show ?thesis by (simp add: i_def)
  next
    case False
    then have "unat idx + 1 \<noteq> unat sz" using w by (metis word_unat_eq_iff)
    with False lt w show ?thesis by (simp add: i_def)
  qed
  have li: "unat i < unat sz" unfolding ui using lt by simp
  then have i_lt: "i < sz" by (simp add: word_less_nat_alt)
  have step: "pktid_scan arr sz count idx = (if \<not> allocated (arr ! unat i) then Some (Some i)
      else if count + 1 < unat sz then pktid_scan arr sz (count + 1) i else Some None)"
    using li "1.prems"(3) by (subst pktid_scan.simps) (simp add: Let_def i_def [symmetric] nth_opt_in)
  show ?case
  proof (cases "allocated (arr ! unat i)")
    case False
    with step i_lt show ?thesis by (intro "1.prems"(1)) simp_all
  next
    case al: True
    show ?thesis
    proof (cases "count + 1 < unat sz")
      case False
      have "allocated (arr ! ((unat idx + k) mod unat sz))" if k: "0 < k \<and> k \<le> unat sz - count" for k
      proof -
        have "k = 1" using k False "1.prems"(5) by linarith
        then show ?thesis using al ui by simp
      qed
      then show ?thesis using step al False by (intro "1.prems"(2)) simp_all
    next
      case True
      have e: "pktid_scan arr sz count idx = pktid_scan arr sz (count + 1) i" using step al True by simp
      have IH: "P" if "\<And>j. pktid_scan arr sz (count + 1) i = Some (Some j) \<Longrightarrow> j < sz \<Longrightarrow> \<not> allocated (arr ! unat j) \<Longrightarrow> P"
        and "pktid_scan arr sz (count + 1) i = Some None \<Longrightarrow>
          \<forall>k. 0 < k \<and> k \<le> unat sz - (count + 1) \<longrightarrow> allocated (arr ! ((unat i + k) mod unat sz)) \<Longrightarrow> P" for P
        by (rule "1.IH" [OF refl i_def _ _ _ that(1) that(2)])
          (use al True "1.prems"(3) i_lt li in \<open>simp_all add: nth_opt_in\<close>)
      show ?thesis
      proof (rule IH)
        fix j assume "pktid_scan arr sz (count + 1) i = Some (Some j)" "j < sz" "\<not> allocated (arr ! unat j)"
        then show thesis using e by (intro "1.prems"(1)) simp_all
      next
        assume n: "pktid_scan arr sz (count + 1) i = Some None"
          "\<forall>k. 0 < k \<and> k \<le> unat sz - (count + 1) \<longrightarrow> allocated (arr ! ((unat i + k) mod unat sz))"
        have "allocated (arr ! ((unat idx + k) mod unat sz))" if k: "0 < k \<and> k \<le> unat sz - count" for k
        proof (cases "k = 1")
          case True
          then show ?thesis using al ui by simp
        next
          case False
          then have "0 < k - 1 \<and> k - 1 \<le> unat sz - (count + 1)" using k by linarith
          with n(2) have "allocated (arr ! ((unat i + (k - 1)) mod unat sz))" by blast
          moreover have "(unat i + (k - 1)) mod unat sz = (unat idx + k) mod unat sz"
          proof -
            have "(unat i + (k - 1)) mod unat sz = (unat idx + 1 + (k - 1)) mod unat sz"
              unfolding ui by (rule mod_add_left_eq)
            then show ?thesis using k by simp
          qed
          ultimately show ?thesis by simp
        qed
        then show thesis using e n(1) by (intro "1.prems"(2)) simp_all
      qed
    qed
  qed
qed

section \<open>The operations on the abstract table\<close>

lemma pktids_invD:
  assumes "pktids_inv t"
  shows "0 < array_size t" "length (pk_array t) = unat (array_size t)" "last_allocated_idx t < array_size t"
    and "i < array_size t \<Longrightarrow> allocated (pk_array t ! unat i) \<Longrightarrow> \<exists>s. pk_skb (pk_array t ! unat i) = Some s"
  using assms by (auto simp: pktids_inv_def word_less_nat_alt)

lemma pktid_of_Some:
  assumes "pktids_inv t"
  shows "pktid_of t i = Some (s, pa, off) \<longleftrightarrow> i < array_size t \<and> allocated (pk_array t ! unat i)
    \<and> pk_skb (pk_array t ! unat i) = Some s \<and> pk_physaddr (pk_array t ! unat i) = pa \<and> data_offset (pk_array t ! unat i) = off"
  using pktids_invD(2) [OF assms]
  by (cases "i < array_size t") (auto simp: pktid_of_def nth_opt_def word_less_nat_alt)

lemma pktid_of_None:
  assumes "pktids_inv t"
  shows "pktid_of t i = None \<longleftrightarrow> \<not> (i < array_size t \<and> allocated (pk_array t ! unat i))"
  using pktids_invD(2,4) [OF assms]
  by (cases "i < array_size t") (auto simp: pktid_of_def nth_opt_def word_less_nat_alt)

lemma pktid_store:
  assumes "pktids_inv t" and "i < array_size t" and "allocated p \<longrightarrow> pk_skb p \<noteq> None" and "l < array_size t"
    and "t' = t\<lparr>pk_array := (pk_array t)[unat i := p], last_allocated_idx := l\<rparr>"
  shows "pktids_inv t'"
    and "pktid_of t' = (pktid_of t)(i := if allocated p then map_option (\<lambda>s. (s, pk_physaddr p, data_offset p)) (pk_skb p) else None)"
proof -
  show "pktids_inv t'" using assms set_update_subset_insert [of "pk_array t" "unat i" p] by (auto simp: pktids_inv_def)
  show "pktid_of t' = (pktid_of t)(i := if allocated p then map_option (\<lambda>s. (s, pk_physaddr p, data_offset p)) (pk_skb p) else None)"
    using assms(2) pktids_invD(2) [OF assms(1)]
    by (auto simp: assms(5) pktid_of_def nth_opt_def fun_eq_iff nth_list_update word_less_nat_alt word_unat_eq_iff)
qed

lemma alloc_pktid_cases [consumes 1, case_names unmapped full fresh]:
  assumes "pktids_inv t"
  obtains (unmapped) "mp = None" "brcmf_msgbuf_alloc_pktid mp t skb len off = Some (None, t, [])"
  | (full) pa where "mp = Some pa" "\<forall>i < array_size t. pktid_of t i \<noteq> None"
      "brcmf_msgbuf_alloc_pktid mp t skb len off = Some (None, t, [DmaMap pa (len - unat off), DmaUnmap pa (len - unat off)])"
  | (fresh) pa i t' where "mp = Some pa" "i < array_size t" "pktid_of t i = None" "pktids_inv t'"
      "pktid_of t' = (pktid_of t)(i \<mapsto> (skb, pa, off))" "array_size t' = array_size t"
      "brcmf_msgbuf_alloc_pktid mp t skb len off = Some (Some (pa, i), t', [DmaMap pa (len - unat off)])"
proof (cases mp)
  case None
  then show thesis by (intro unmapped) (simp_all add: brcmf_msgbuf_alloc_pktid_def)
next
  case (Some pa)
  note D = pktids_invD [OF assms]
  have c: "0 < unat (array_size t)" using D(1) by (simp add: word_less_nat_alt)
  show thesis
  proof (rule pktid_scan_cases [OF D(2,3) c])
    fix i assume i: "pktid_scan (pk_array t) (array_size t) 0 (last_allocated_idx t) = Some (Some i)" "i < array_size t"
      "\<not> allocated (pk_array t ! unat i)"
    let ?p = "\<lparr>allocated = True, data_offset = off, pk_skb = Some skb, pk_physaddr = pa\<rparr>"
    let ?t = "t\<lparr>pk_array := (pk_array t)[unat i := ?p], last_allocated_idx := i\<rparr>"
    have "pktids_inv ?t" "pktid_of ?t = (pktid_of t)(i \<mapsto> (skb, pa, off))"
      using pktid_store [OF assms i(2) _ i(2) refl, of ?p] by simp_all
    then show thesis
      using i D(2) by (intro fresh [of pa i ?t])
        (simp_all add: Some brcmf_msgbuf_alloc_pktid_def upd_opt_in pktid_of_None [OF assms] word_less_nat_alt)
  next
    assume f: "pktid_scan (pk_array t) (array_size t) 0 (last_allocated_idx t) = Some None"
      "\<forall>k. 0 < k \<and> k \<le> unat (array_size t) - 0 \<longrightarrow> allocated (pk_array t ! ((unat (last_allocated_idx t) + k) mod unat (array_size t)))"
    have "pktid_of t i \<noteq> None" if "i < array_size t" for i
    proof -
      let ?n = "unat (array_size t)" and ?l = "unat (last_allocated_idx t)"
      have lt: "unat i < ?n" "?l < ?n" using that D(3) by (simp_all add: word_less_nat_alt)
      define k where "k = (if ?l < unat i then unat i - ?l else ?n - ?l + unat i)"
      have "0 < k \<and> k \<le> ?n" "(?l + k) mod ?n = unat i" using lt by (auto simp: k_def)
      with f(2) have "allocated (pk_array t ! unat i)" by auto
      with that show ?thesis by (simp add: pktid_of_None [OF assms])
    qed
    then show thesis using f(1) by (intro full [of pa]) (simp_all add: Some brcmf_msgbuf_alloc_pktid_def)
  qed
qed

lemma get_pktid_None:
  "pktids_inv t \<Longrightarrow> pktid_of t i = None \<Longrightarrow> brcmf_msgbuf_get_pktid skb_len t i = Some (None, t, [])"
  using pktids_invD(2) [of t]
  by (auto simp: brcmf_msgbuf_get_pktid_def pktid_of_None word_less_nat_alt word_le_nat_alt nth_opt_in)

lemma get_pktid_Some:
  assumes "pktids_inv t" and "pktid_of t i = Some (s, pa, off)"
  obtains t' where "brcmf_msgbuf_get_pktid skb_len t i = Some (Some s, t', [DmaUnmap pa (skb_len s - unat off)])"
    "pktids_inv t'" "pktid_of t' = (pktid_of t)(i := None)" "array_size t' = array_size t"
proof -
  note D = pktids_invD [OF assms(1)] and S = assms(2) [unfolded pktid_of_Some [OF assms(1)]]
  let ?p = "(pk_array t ! unat i)\<lparr>allocated := False\<rparr>"
  let ?t = "t\<lparr>pk_array := (pk_array t)[unat i := ?p]\<rparr>"
  have eq: "?t = t\<lparr>pk_array := (pk_array t)[unat i := ?p], last_allocated_idx := last_allocated_idx t\<rparr>" by simp
  have "pktids_inv ?t" "pktid_of ?t = (pktid_of t)(i := None)"
    using pktid_store [OF assms(1) _ _ D(3) eq] S by simp_all
  moreover have "brcmf_msgbuf_get_pktid skb_len t i = Some (Some s, ?t, [DmaUnmap pa (skb_len s - unat off)])"
    using S D(2) by (simp add: brcmf_msgbuf_get_pktid_def nth_opt_in word_less_nat_alt word_le_nat_alt)
  ultimately show thesis by (intro that [of ?t]) simp_all
qed

section \<open>Properties\<close>

text \<open>The table is a finite map from identifiers to packets. An allocation binds an identifier that was free
  (it fails, changing nothing and leaving no mapping behind, only when the packet cannot be mapped or every
  identifier is in use); the identifier then gives back that packet exactly once, unmapping exactly the address and
  length that were mapped, whereupon the table is what it was and the identifier is invalid.\<close>

theorem pktid_exchange:
  assumes "pktids_inv t"
  shows "\<exists>r t' evs. brcmf_msgbuf_alloc_pktid mp t skb (skb_len skb) off = Some (r, t', evs) \<and> pktids_inv t'
    \<and> (case r of
         None \<Rightarrow> t' = t \<and> (mp = None \<and> evs = [] \<or> (\<forall>i < array_size t. pktid_of t i \<noteq> None)
             \<and> (\<exists>pa n. mp = Some pa \<and> evs = [DmaMap pa n, DmaUnmap pa n]))
       | Some (pa, i) \<Rightarrow> mp = Some pa \<and> i < array_size t \<and> pktid_of t i = None
           \<and> pktid_of t' = (pktid_of t)(i \<mapsto> (skb, pa, off)) \<and> evs = [DmaMap pa (skb_len skb - unat off)]
           \<and> (\<exists>t''. brcmf_msgbuf_get_pktid skb_len t' i = Some (Some skb, t'', [DmaUnmap pa (skb_len skb - unat off)])
                \<and> pktids_inv t'' \<and> pktid_of t'' = pktid_of t \<and> brcmf_msgbuf_get_pktid skb_len t'' i = Some (None, t'', [])))"
  using assms
proof (cases rule: alloc_pktid_cases [where mp = mp and skb = skb and len = "skb_len skb" and off = off])
  case unmapped
  then show ?thesis using assms by simp
next
  case (full pa)
  then show ?thesis using assms by simp
next
  case (fresh pa i t')
  have "pktid_of t' i = Some (skb, pa, off)" using fresh(5) by simp
  from get_pktid_Some [OF fresh(4) this, of skb_len]
  obtain t'' where t'': "brcmf_msgbuf_get_pktid skb_len t' i = Some (Some skb, t'', [DmaUnmap pa (skb_len skb - unat off)])"
    "pktids_inv t''" "pktid_of t'' = (pktid_of t')(i := None)" by blast
  have "pktid_of t'' = pktid_of t" using t''(3) fresh(3,5) by (simp add: fun_eq_iff)
  with t'' get_pktid_None [OF t''(2), of i skb_len] fresh show ?thesis by auto
qed

theorem pktid_exchange_witness:
  "\<exists>t'. brcmf_msgbuf_alloc_pktid (Some 0x1000) \<lparr>array_size = 2, last_allocated_idx = 1,
       pk_array = replicate 2 \<lparr>allocated = False, data_offset = 0, pk_skb = None, pk_physaddr = 0\<rparr>\<rparr> [1, 2 :: u8] (length [1, 2 :: u8]) 0
     = Some (Some (0x1000, 0), t', [DmaMap 0x1000 2])"
proof -
  let ?t = "\<lparr>array_size = 2, last_allocated_idx = 1,
       pk_array = replicate 2 \<lparr>allocated = False, data_offset = 0, pk_skb = None, pk_physaddr = 0\<rparr>\<rparr> :: u8 list pktids"
  have "pktids_inv ?t" by (simp add: pktids_inv_def)
  note E = pktid_exchange [OF this, of "Some 0x1000" "[1, 2]" length 0]
  have "pktid_scan (pk_array ?t) 2 0 1 = Some (Some 0)"
    by (subst pktid_scan.simps) (simp add: nth_opt_def)
  then show ?thesis using E by (auto simp: brcmf_msgbuf_alloc_pktid_def upd_opt_def)
qed

end
