(* ===== verification/Msgbuf.thy ===== *)
theory Msgbuf
  imports Commonring Pktids Flowring Bcdc
begin

text \<open>
  The message buffer protocol of \<open>msgbuf.c\<close>, which moves control requests, packets and events over the
  message rings of \<open>Commonring\<close>, with the packet identifiers of \<open>Pktids\<close> and the flow rings of
  \<open>Flowring\<close>.

  The protocol's structure and everything it reaches is one record. A message is written into the slot the
  ring reserved; a received item is the bytes of its slot. The outcomes of the allocator and of the DMA
  layer are functions of a clock that every such call advances (\<open>mb_env\<close>), and what the code hands
  to the network stack, the work queues and the bus is appended to a log. An index outside an array, a NULL
  pointer that is followed and a read past a slot are \<^const>\<open>None\<close>.

  Locks are not modelled: every function runs to its end, except that \<open>query_dcmd\<close> and
  \<open>delete_flowring\<close> let other contexts run while they wait.
\<close>

section \<open>Messages\<close>

abbreviation BRCMF_MSGBUF_MAX_PKT_SIZE :: nat where "BRCMF_MSGBUF_MAX_PKT_SIZE \<equiv> 2048"
abbreviation BRCMF_MSGBUF_MAX_CTL_PKT_SIZE :: nat where "BRCMF_MSGBUF_MAX_CTL_PKT_SIZE \<equiv> 8192"
abbreviation BRCMF_MSGBUF_RXBUFPOST_THRESHOLD :: u32 where "BRCMF_MSGBUF_RXBUFPOST_THRESHOLD \<equiv> 32"
abbreviation BRCMF_MSGBUF_TX_FLUSH_CNT1 :: u32 where "BRCMF_MSGBUF_TX_FLUSH_CNT1 \<equiv> 32"
abbreviation BRCMF_MSGBUF_TX_FLUSH_CNT2 :: u32 where "BRCMF_MSGBUF_TX_FLUSH_CNT2 \<equiv> 96"
abbreviation BRCMF_MSGBUF_DELAY_TXWORKER_THRS :: int where "BRCMF_MSGBUF_DELAY_TXWORKER_THRS \<equiv> 96"
abbreviation BRCMF_MSGBUF_TRICKLE_TXWORKER_THRS :: u32 where "BRCMF_MSGBUF_TRICKLE_TXWORKER_THRS \<equiv> 32"
abbreviation BRCMF_MSGBUF_UPDATE_RX_PTR_THRS :: u16 where "BRCMF_MSGBUF_UPDATE_RX_PTR_THRS \<equiv> 48"
abbreviation BRCMF_MAX_TXSTATUS_WAIT_RETRIES :: nat where "BRCMF_MAX_TXSTATUS_WAIT_RETRIES \<equiv> 10"
abbreviation BRCMF_IOCTL_REQ_PKTID :: u32 where "BRCMF_IOCTL_REQ_PKTID \<equiv> 0xFFFE"
abbreviation BRCMF_H2D_TXFLOWRING_MAX_ITEM :: u16 where "BRCMF_H2D_TXFLOWRING_MAX_ITEM \<equiv> 512"
abbreviation BRCMF_H2D_TXFLOWRING_ITEMSIZE :: u16 where "BRCMF_H2D_TXFLOWRING_ITEMSIZE \<equiv> 48"
abbreviation BRCMF_H2D_MSGRING_FLOWRING_IDSTART :: u16 where "BRCMF_H2D_MSGRING_FLOWRING_IDSTART \<equiv> 2"
abbreviation ETH_HLEN :: nat where "ETH_HLEN \<equiv> 14"

record msgbuf_buf_addr =
  low_addr :: u32
  high_addr :: u32

definition buf_addr :: "u64 \<Rightarrow> msgbuf_buf_addr" where
  "buf_addr address = \<lparr>low_addr = ucast (address AND 0xffffffff), high_addr = ucast (drop_bit 32 address)\<rparr>"

text \<open>The host's messages; the message type is the constructor, except for the posted buffers, whose
  type field is zero until the buffer is there.\<close>

record msgbuf_ioctl_req_hdr =
  rq_ifidx :: u8
  rq_request_id :: u32
  rq_cmd :: u32
  rq_trans_id :: u16
  rq_input_buf_len :: u16
  rq_output_buf_len :: u16
  rq_req_buf_addr :: msgbuf_buf_addr

record msgbuf_tx_msghdr =
  tx_ifidx :: u8
  tx_request_id :: u32
  tx_txhdr :: "u8 list"
  tx_flags :: u8
  tx_seg_cnt :: u8
  tx_metadata_buf_addr :: msgbuf_buf_addr
  tx_data_buf_addr :: msgbuf_buf_addr
  tx_metadata_buf_len :: u16
  tx_data_len :: u16

record msgbuf_rx_bufpost =
  rb_msgtype :: u8
  rb_request_id :: u32
  rb_metadata_buf_len :: u16
  rb_data_buf_len :: u16
  rb_metadata_buf_addr :: msgbuf_buf_addr
  rb_data_buf_addr :: msgbuf_buf_addr

record msgbuf_rx_ioctl_resp_or_event =
  cb_msgtype :: u8
  cb_request_id :: u32
  cb_host_buf_len :: u16
  cb_host_buf_addr :: msgbuf_buf_addr

record msgbuf_tx_flowring_create_req =
  fc_ifidx :: u8
  fc_request_id :: u32
  fc_da :: "u8 list"
  fc_sa :: "u8 list"
  fc_tid :: u8
  fc_flow_ring_id :: u16
  fc_max_items :: u16
  fc_len_item :: u16
  fc_flow_ring_addr :: msgbuf_buf_addr

record msgbuf_tx_flowring_delete_req =
  fd_ifidx :: u8
  fd_request_id :: u32
  fd_flow_ring_id :: u16
  fd_reason :: u16

record msgbuf_h2d_mailbox_data =
  hm_ifidx :: u8
  hm_flags :: u8
  hm_request_id :: u32
  hm_data :: u32

datatype h2d_msg =
    IOCTLPTR_REQ msgbuf_ioctl_req_hdr
  | TX_POST msgbuf_tx_msghdr
  | RX_BUFPOST msgbuf_rx_bufpost
  | CTL_BUFPOST msgbuf_rx_ioctl_resp_or_event
  | FLOW_RING_CREATE msgbuf_tx_flowring_create_req
  | FLOW_RING_DELETE msgbuf_tx_flowring_delete_req
  | H2D_MAILBOX_DATA msgbuf_h2d_mailbox_data

text \<open>The device's messages are read from their bytes: the common header (type, interface, flags, request
  identifier), the completion header (status, flow ring) and the fields after them.\<close>

definition get_le16 :: "u8 list \<Rightarrow> nat \<Rightarrow> u16 option" where
  "get_le16 b off = do { x \<leftarrow> nth_opt b off; y \<leftarrow> nth_opt b (off + 1); Some (of_le16 x y) }"

definition get_le32 :: "u8 list \<Rightarrow> nat \<Rightarrow> u32 option" where
  "get_le32 b off = do { x \<leftarrow> nth_opt b off; y \<leftarrow> nth_opt b (off + 1); z \<leftarrow> nth_opt b (off + 2);
     w \<leftarrow> nth_opt b (off + 3); Some (of_le32 x y z w) }"

definition msg_msgtype :: "u8 list \<Rightarrow> u8 option" where "msg_msgtype b = nth_opt b 0"
definition msg_ifidx :: "u8 list \<Rightarrow> u8 option" where "msg_ifidx b = nth_opt b 1"
definition msg_request_id :: "u8 list \<Rightarrow> u32 option" where "msg_request_id b = get_le32 b 4"
definition compl_status :: "u8 list \<Rightarrow> u16 option" where "compl_status b = get_le16 b 8"
definition compl_flow_ring_id :: "u8 list \<Rightarrow> u16 option" where "compl_flow_ring_id b = get_le16 b 10"

section \<open>State\<close>

record mb_if =
  if_bsscfgidx :: int
  if_ndev :: bool

record brcmf_msgbuf_work_item =
  wk_flowid :: u32
  wk_ifidx :: int
  wk_sa :: "u8 list"
  wk_da :: "u8 list"

datatype mb_ev =
    MbDma dma_ev
  | DmaFreeCoherent u64
  | MbFlow "sk_buff fr_event"
  | QueueTxflowWork
  | ScheduleFlowringWork
  | FreeSkb sk_buff
  | TxFinalizeIf "mb_if option" sk_buff bool
  | FwehSkb mb_if sk_buff
  | NetifRx mb_if sk_buff
  | NetifMonRx mb_if sk_buff
  | BusMbRx u32

record msgbuf =
  mb_ctl_submit :: "h2d_msg ring_world"
  mb_rxpost_submit :: "h2d_msg ring_world"
  mb_rx_complete :: "u8 list ring_world"
  mb_tx_complete :: "u8 list ring_world"
  mb_ctl_complete :: "u8 list ring_world"
  mb_flowrings :: "h2d_msg ring_world list"
  outstanding_tx :: "u32 list"
  flowring_dma_handle :: "u64 list"
  max_flowrings :: u16
  rx_dataoffset :: u16
  max_rxbufpost :: u32
  rx_metadata_offset :: u16
  rxbufpost :: u32
  max_ioctlrespbuf :: u32
  cur_ioctlrespbuf :: u32
  max_eventbuf :: u32
  cur_eventbuf :: u32
  ioctbuf :: "u8 list"
  ioctbuf_phys_hi :: u32
  ioctbuf_phys_lo :: u32
  ioctl_resp_status :: int
  ioctl_resp_ret_len :: u32
  ioctl_resp_pktid :: u32
  mb_reqid :: u32
  ctl_completed :: bool
  tx_pktids :: "sk_buff pktids"
  rx_pktids :: "sk_buff pktids"
  mb_flow :: "sk_buff flowring"
  flow_map :: "bool list"
  txstatus_done_map :: "bool list"
  work_queue :: "brcmf_msgbuf_work_item list"
  mb_bus_up :: bool
  mb_ifs :: "mb_if if_tables"
  mb_mon_if :: "mb_if option"
  mb_clock :: nat
  mb_log :: "mb_ev list"

record mb_env =
  env_kzalloc :: "nat \<Rightarrow> bool"
  env_skb :: "nat \<Rightarrow> bool"
  env_map :: "nat \<Rightarrow> u64 option"
  env_coherent :: "nat \<Rightarrow> u64 option"

definition mb_tick :: "msgbuf \<Rightarrow> msgbuf" where
  "mb_tick m = m\<lparr>mb_clock := mb_clock m + 1\<rparr>"

definition mb_emit :: "mb_ev list \<Rightarrow> msgbuf \<Rightarrow> msgbuf" where
  "mb_emit es m = m\<lparr>mb_log := mb_log m @ es\<rparr>"

definition skb_len :: "sk_buff \<Rightarrow> nat" where
  "skb_len skb = length (sk_data skb)"

definition skb_trim :: "nat \<Rightarrow> sk_buff \<Rightarrow> sk_buff" where
  "skb_trim n skb = skb\<lparr>sk_data := take n (sk_data skb)\<rparr>"

text \<open>\<open>brcmu_pkt_buf_get_skb\<close>, the packet tables and the flow rings on the whole state.\<close>

definition brcmu_pkt_buf_get_skb :: "mb_env \<Rightarrow> nat \<Rightarrow> msgbuf \<Rightarrow> sk_buff option \<times> msgbuf" where
  "brcmu_pkt_buf_get_skb env len m =
     (if env_skb env (mb_clock m)
      then (Some \<lparr>sk_data = replicate len 0, sk_headroom = 0, ip_summed = CHECKSUM_NONE, sk_priority = 0\<rparr>, mb_tick m)
      else (None, mb_tick m))"

definition mb_alloc_rx :: "mb_env \<Rightarrow> sk_buff \<Rightarrow> msgbuf \<Rightarrow> ((u64 \<times> u32) option \<times> msgbuf) option" where
  "mb_alloc_rx env skb m = do {
     (r, t, evs) \<leftarrow> brcmf_msgbuf_alloc_pktid (env_map env (mb_clock m)) (rx_pktids m) skb (skb_len skb) 0;
     Some (r, mb_emit (map MbDma evs) (mb_tick (m\<lparr>rx_pktids := t\<rparr>))) }"

definition mb_get_rx :: "u32 \<Rightarrow> msgbuf \<Rightarrow> (sk_buff option \<times> msgbuf) option" where
  "mb_get_rx idx m = do {
     (s, t, evs) \<leftarrow> brcmf_msgbuf_get_pktid skb_len (rx_pktids m) idx;
     Some (s, mb_emit (map MbDma evs) (m\<lparr>rx_pktids := t\<rparr>)) }"

definition mb_alloc_tx :: "mb_env \<Rightarrow> sk_buff \<Rightarrow> msgbuf \<Rightarrow> ((u64 \<times> u32) option \<times> msgbuf) option" where
  "mb_alloc_tx env skb m = do {
     (r, t, evs) \<leftarrow> brcmf_msgbuf_alloc_pktid (env_map env (mb_clock m)) (tx_pktids m) skb (skb_len skb) (of_nat ETH_HLEN);
     Some (r, mb_emit (map MbDma evs) (mb_tick (m\<lparr>tx_pktids := t\<rparr>))) }"

definition mb_get_tx :: "u32 \<Rightarrow> msgbuf \<Rightarrow> (sk_buff option \<times> msgbuf) option" where
  "mb_get_tx idx m = do {
     (s, t, evs) \<leftarrow> brcmf_msgbuf_get_pktid skb_len (tx_pktids m) idx;
     Some (s, mb_emit (map MbDma evs) (m\<lparr>tx_pktids := t\<rparr>)) }"

definition mb_flowring_delete :: "u16 \<Rightarrow> msgbuf \<Rightarrow> msgbuf option" where
  "mb_flowring_delete flowid m = do {
     (flow, evs) \<leftarrow> brcmf_flowring_delete (mb_flow m) flowid;
     Some (mb_emit (map MbFlow evs) (m\<lparr>mb_flow := flow\<rparr>)) }"

section \<open>Submitting messages\<close>

definition mb_reserve :: "'a ring_world \<Rightarrow> int option \<times> 'a ring_world" where
  "mb_reserve w = (let (p, st) = brcmf_commonring_reserve_for_write pcie_ring_ops (fst w) in (p, (st, snd w)))"

definition mb_store :: "int \<Rightarrow> 'a \<Rightarrow> 'a ring_world \<Rightarrow> 'a ring_world" where
  "mb_store off x w = (fst w, (snd w)(off := x))"

definition mb_complete :: "'a ring_world \<Rightarrow> rc \<times> 'a ring_world" where
  "mb_complete w = (let (r, st) = brcmf_commonring_write_complete pcie_ring_ops (fst w) in (r, (st, snd w)))"

definition mb_cancel :: "u16 \<Rightarrow> 'a ring_world \<Rightarrow> 'a ring_world" where
  "mb_cancel n w = (let ((cr, x), mem) = w in ((brcmf_commonring_write_cancel n cr, x), mem))"

text \<open>\<open>min_t(u16, len, BRCMF_TX_IOCTL_MAX_MSG_SIZE)\<close> compares after the conversion to 16 bits. A NULL
  \<open>buf\<close> is \<^const>\<open>None\<close>.\<close>

definition brcmf_msgbuf_tx_ioctl :: "int \<Rightarrow> u32 \<Rightarrow> u8 list option \<Rightarrow> u32 \<Rightarrow> msgbuf \<Rightarrow> (rc \<times> msgbuf) option" where
  "brcmf_msgbuf_tx_ioctl ifidx cmd buf len m = do {
     let (p, ring) = mb_reserve (mb_ctl_submit m);
     case p of
       None \<Rightarrow> Some (ERR ENOMEM, m\<lparr>mb_ctl_submit := ring\<rparr>)
     | Some off \<Rightarrow> do {
         let m = m\<lparr>mb_reqid := mb_reqid m + 1\<rparr>;
         let buf_len = min (ucast len :: u16) 1518;
         let request = \<lparr>rq_ifidx = of_int ifidx, rq_request_id = BRCMF_IOCTL_REQ_PKTID, rq_cmd = cmd,
               rq_trans_id = ucast (mb_reqid m), rq_input_buf_len = buf_len, rq_output_buf_len = ucast len,
               rq_req_buf_addr = \<lparr>low_addr = ioctbuf_phys_lo m, high_addr = ioctbuf_phys_hi m\<rparr>\<rparr>;
         bs \<leftarrow> (case buf of Some b \<Rightarrow> read_bytes b 0 (unat buf_len) | None \<Rightarrow> Some (replicate (unat buf_len) 0));
         ib \<leftarrow> write_bytes (ioctbuf m) 0 bs;
         let (err, ring) = mb_complete (mb_store off (IOCTLPTR_REQ request) ring);
         Some (err, m\<lparr>mb_ctl_submit := ring, ioctbuf := ib\<rparr>) } }"

text \<open>\<open>waiting\<close> is what the other contexts do to the state until the completion or the timeout. The
  result is the return value, the firmware's status and the caller's buffer.\<close>

definition brcmf_msgbuf_query_dcmd ::
  "(msgbuf \<Rightarrow> msgbuf) \<Rightarrow> int \<Rightarrow> u32 \<Rightarrow> u8 list option \<Rightarrow> u32 \<Rightarrow> msgbuf \<Rightarrow> (rc \<times> int \<times> u8 list option \<times> msgbuf) option" where
  "brcmf_msgbuf_query_dcmd waiting ifidx cmd buf len m = do {
     let m = m\<lparr>ctl_completed := False\<rparr>;
     (err, m) \<leftarrow> brcmf_msgbuf_tx_ioctl ifidx cmd buf len m;
     if err \<noteq> OK then Some (err, 0, buf, m)
     else do {
       let m = waiting m;
       if \<not> ctl_completed m then Some (ERR EIO, 0, buf, m)
       else do {
         (skb, m) \<leftarrow> mb_get_rx (ioctl_resp_pktid m) m;
         if ioctl_resp_ret_len m \<noteq> 0 then
           (case skb of
              None \<Rightarrow> Some (ERR EBADF, 0, buf, m)
            | Some s \<Rightarrow> do {
                b \<leftarrow> buf;
                let n = (if len < ioctl_resp_ret_len m then len else ioctl_resp_ret_len m);
                bs \<leftarrow> read_bytes (sk_data s) 0 (unat n);
                b \<leftarrow> write_bytes b 0 bs;
                Some (OK, ioctl_resp_status m, Some b, mb_emit [FreeSkb s] m) })
         else Some (OK, ioctl_resp_status m, buf, mb_emit (case skb of None \<Rightarrow> [] | Some s \<Rightarrow> [FreeSkb s]) m) } } }"

definition brcmf_msgbuf_set_dcmd ::
  "(msgbuf \<Rightarrow> msgbuf) \<Rightarrow> int \<Rightarrow> u32 \<Rightarrow> u8 list option \<Rightarrow> u32 \<Rightarrow> msgbuf \<Rightarrow> (rc \<times> int \<times> u8 list option \<times> msgbuf) option" where
  "brcmf_msgbuf_set_dcmd waiting ifidx cmd buf len m = brcmf_msgbuf_query_dcmd waiting ifidx cmd buf len m"

section \<open>Flow ring management\<close>

definition brcmf_msgbuf_remove_flowring :: "u16 \<Rightarrow> msgbuf \<Rightarrow> msgbuf option" where
  "brcmf_msgbuf_remove_flowring flowid m = do {
     _ \<leftarrow> nth_opt (mb_flowrings m) (unat flowid);
     h \<leftarrow> nth_opt (flowring_dma_handle m) (unat flowid);
     mb_flowring_delete flowid (mb_emit [DmaFreeCoherent h] m) }"

definition brcmf_msgbuf_dequeue_work :: "msgbuf \<Rightarrow> brcmf_msgbuf_work_item option \<times> msgbuf" where
  "brcmf_msgbuf_dequeue_work m = (case work_queue m of
     [] \<Rightarrow> (None, m) | w # ws \<Rightarrow> (Some w, m\<lparr>work_queue := ws\<rparr>))"

definition brcmf_msgbuf_flowring_create_worker ::
  "mb_env \<Rightarrow> brcmf_msgbuf_work_item \<Rightarrow> msgbuf \<Rightarrow> (u32 \<times> msgbuf) option" where
  "brcmf_msgbuf_flowring_create_worker env work m = do {
     let flowid = wk_flowid work;
     let buf = env_coherent env (mb_clock m);
     let m = mb_tick m;
     case buf of
       None \<Rightarrow> do { m \<leftarrow> mb_flowring_delete (ucast flowid) m; Some (BRCMF_FLOWRING_INVALID_ID, m) }
     | Some address \<Rightarrow> do {
         hs \<leftarrow> upd_opt (flowring_dma_handle m) (unat flowid) address;
         (st, mem) \<leftarrow> nth_opt (mb_flowrings m) (unat flowid);
         let st = brcmf_commonring_config pcie_ring_ops BRCMF_H2D_TXFLOWRING_MAX_ITEM BRCMF_H2D_TXFLOWRING_ITEMSIZE st;
         let m = m\<lparr>flowring_dma_handle := hs, mb_flowrings := (mb_flowrings m)[unat flowid := (st, mem)]\<rparr>;
         let (p, ring) = mb_reserve (mb_ctl_submit m);
         case p of
           None \<Rightarrow> do {
             m \<leftarrow> brcmf_msgbuf_remove_flowring (ucast flowid) (m\<lparr>mb_ctl_submit := ring\<rparr>);
             Some (BRCMF_FLOWRING_INVALID_ID, m) }
         | Some off \<Rightarrow> do {
             tid \<leftarrow> brcmf_flowring_tid (mb_flow m) (ucast flowid);
             let create = \<lparr>fc_ifidx = of_int (wk_ifidx work), fc_request_id = 0, fc_da = wk_da work,
                   fc_sa = wk_sa work, fc_tid = tid,
                   fc_flow_ring_id = ucast flowid + BRCMF_H2D_MSGRING_FLOWRING_IDSTART,
                   fc_max_items = BRCMF_H2D_TXFLOWRING_MAX_ITEM, fc_len_item = BRCMF_H2D_TXFLOWRING_ITEMSIZE,
                   fc_flow_ring_addr = buf_addr address\<rparr>;
             let (err, ring) = mb_complete (mb_store off (FLOW_RING_CREATE create) ring);
             let m = m\<lparr>mb_ctl_submit := ring\<rparr>;
             if err \<noteq> OK then do {
               m \<leftarrow> brcmf_msgbuf_remove_flowring (ucast flowid) m;
               Some (BRCMF_FLOWRING_INVALID_ID, m) }
             else Some (flowid, m) } } }"

text \<open>The worker empties the queue of requests for new rings.\<close>

partial_function (option) brcmf_msgbuf_flowring_worker :: "mb_env \<Rightarrow> msgbuf \<Rightarrow> msgbuf option" where
  "brcmf_msgbuf_flowring_worker env m =
     (case brcmf_msgbuf_dequeue_work m of
        (None, m) \<Rightarrow> Some m
      | (Some create, m) \<Rightarrow> do {
          (_, m) \<leftarrow> brcmf_msgbuf_flowring_create_worker env create m;
          brcmf_msgbuf_flowring_worker env m })"

definition brcmf_msgbuf_flowring_create :: "mb_env \<Rightarrow> int \<Rightarrow> sk_buff \<Rightarrow> msgbuf \<Rightarrow> (u32 \<times> msgbuf) option" where
  "brcmf_msgbuf_flowring_create env ifidx skb m = do {
     let alloc = env_kzalloc env (mb_clock m);
     let m = mb_tick m;
     if \<not> alloc then Some (BRCMF_FLOWRING_INVALID_ID, m)
     else do {
       h_dest \<leftarrow> read_bytes (sk_data skb) 0 6;
       h_source \<leftarrow> read_bytes (sk_data skb) 6 6;
       (flowid, flow) \<leftarrow> brcmf_flowring_create (env_kzalloc env (mb_clock m)) (mb_flow m) h_dest
                           (ucast (sk_priority skb)) (of_int ifidx);
       let m = mb_tick (m\<lparr>mb_flow := flow\<rparr>);
       if flowid = BRCMF_FLOWRING_INVALID_ID then Some (flowid, m)
       else do {
         let create = \<lparr>wk_flowid = flowid, wk_ifidx = ifidx, wk_sa = h_source, wk_da = h_dest\<rparr>;
         Some (flowid, mb_emit [ScheduleFlowringWork] (m\<lparr>work_queue := work_queue m @ [create]\<rparr>)) } } }"

section \<open>Transmission\<close>

definition mb_tx_msghdr :: "u32 \<Rightarrow> u64 \<Rightarrow> u8 \<Rightarrow> u8 list \<Rightarrow> sk_buff \<Rightarrow> msgbuf_tx_msghdr" where
  "mb_tx_msghdr pktid physaddr ifidx txhdr skb =
     \<lparr>tx_ifidx = ifidx, tx_request_id = pktid + 1, tx_txhdr = txhdr,
      tx_flags = 0x01 OR ucast (push_bit 5 (sk_priority skb AND 0x07)), tx_seg_cnt = 1,
      tx_metadata_buf_addr = \<lparr>low_addr = 0, high_addr = 0\<rparr>, tx_data_buf_addr = buf_addr physaddr,
      tx_metadata_buf_len = 0, tx_data_len = of_nat (skb_len skb) - of_nat ETH_HLEN\<rparr>"

definition mb_set_flowring :: "u16 \<Rightarrow> h2d_msg ring_world \<Rightarrow> msgbuf \<Rightarrow> msgbuf" where
  "mb_set_flowring flowid w m = m\<lparr>mb_flowrings := (mb_flowrings m)[unat flowid := w]\<rparr>"

text \<open>The loop of \<open>brcmf_msgbuf_txflow\<close>; its result is the number of messages not yet published.\<close>

partial_function (option) txflow_loop :: "mb_env \<Rightarrow> u16 \<Rightarrow> u32 \<Rightarrow> msgbuf \<Rightarrow> (u32 \<times> msgbuf) option" where
  "txflow_loop env flowid count m = do {
     qlen \<leftarrow> brcmf_flowring_qlen (mb_flow m) flowid;
     if qlen = 0 then Some (count, m)
     else do {
       (skb, flow, evs) \<leftarrow> brcmf_flowring_dequeue (mb_flow m) flowid;
       let m = mb_emit (map MbFlow evs) (m\<lparr>mb_flow := flow\<rparr>);
       case skb of
         None \<Rightarrow> Some (count, m)
       | Some skb \<Rightarrow> do {
           (r, m) \<leftarrow> mb_alloc_tx env skb m;
           case r of
             None \<Rightarrow> do {
               flow \<leftarrow> brcmf_flowring_reinsert (mb_flow m) flowid skb;
               Some (count, m\<lparr>mb_flow := flow\<rparr>) }
           | Some (physaddr, pktid) \<Rightarrow> do {
               ring \<leftarrow> nth_opt (mb_flowrings m) (unat flowid);
               let (p, ring) = mb_reserve ring;
               let m = mb_set_flowring flowid ring m;
               case p of
                 None \<Rightarrow> do {
                   (_, m) \<leftarrow> mb_get_tx pktid m;
                   flow \<leftarrow> brcmf_flowring_reinsert (mb_flow m) flowid skb;
                   Some (count, m\<lparr>mb_flow := flow\<rparr>) }
               | Some off \<Rightarrow> do {
                   let count = count + 1;
                   ifidx \<leftarrow> brcmf_flowring_ifidx_get (mb_flow m) flowid;
                   txhdr \<leftarrow> read_bytes (sk_data skb) 0 ETH_HLEN;
                   let ring = mb_store off (TX_POST (mb_tx_msghdr pktid physaddr ifidx txhdr skb)) ring;
                   n \<leftarrow> nth_opt (outstanding_tx m) (unat flowid);
                   let m = m\<lparr>outstanding_tx := (outstanding_tx m)[unat flowid := n + 1]\<rparr>;
                   if BRCMF_MSGBUF_TX_FLUSH_CNT2 \<le> count
                   then txflow_loop env flowid 0 (mb_set_flowring flowid (snd (mb_complete ring)) m)
                   else txflow_loop env flowid count (mb_set_flowring flowid ring m) } } } } }"

definition brcmf_msgbuf_txflow :: "mb_env \<Rightarrow> u16 \<Rightarrow> msgbuf \<Rightarrow> msgbuf option" where
  "brcmf_msgbuf_txflow env flowid m = do {
     (st, mem) \<leftarrow> nth_opt (mb_flowrings m) (unat flowid);
     let (avail, st) = brcmf_commonring_write_available pcie_ring_ops st;
     let m = mb_set_flowring flowid (st, mem) m;
     if \<not> avail then Some m
     else do {
       (count, m) \<leftarrow> txflow_loop env flowid (BRCMF_MSGBUF_TX_FLUSH_CNT2 - BRCMF_MSGBUF_TX_FLUSH_CNT1) m;
       ring \<leftarrow> nth_opt (mb_flowrings m) (unat flowid);
       if count \<noteq> 0 then Some (mb_set_flowring flowid (snd (mb_complete ring)) m)
       else Some m } }"

text \<open>\<open>for_each_set_bit\<close> over the map as it is when each bit is reached.\<close>

fun txflow_worker_from :: "mb_env \<Rightarrow> nat list \<Rightarrow> msgbuf \<Rightarrow> msgbuf option" where
  "txflow_worker_from env [] m = Some m"
| "txflow_worker_from env (i # is) m = do {
     b \<leftarrow> nth_opt (flow_map m) i;
     if b then do {
       m \<leftarrow> brcmf_msgbuf_txflow env (of_nat i) (m\<lparr>flow_map := (flow_map m)[i := False]\<rparr>);
       txflow_worker_from env is m }
     else txflow_worker_from env is m }"

definition brcmf_msgbuf_txflow_worker :: "mb_env \<Rightarrow> msgbuf \<Rightarrow> msgbuf option" where
  "brcmf_msgbuf_txflow_worker env m = txflow_worker_from env [0..<unat (max_flowrings m)] m"

definition brcmf_msgbuf_schedule_txdata :: "u32 \<Rightarrow> bool \<Rightarrow> msgbuf \<Rightarrow> msgbuf option" where
  "brcmf_msgbuf_schedule_txdata flowid force m = do {
     fm \<leftarrow> upd_opt (flow_map m) (unat flowid) True;
     _ \<leftarrow> nth_opt (mb_flowrings m) (unat flowid);
     n \<leftarrow> nth_opt (outstanding_tx m) (unat flowid);
     let m = m\<lparr>flow_map := fm\<rparr>;
     Some (if force \<or> sint n < BRCMF_MSGBUF_DELAY_TXWORKER_THRS then mb_emit [QueueTxflowWork] m else m) }"

definition brcmf_msgbuf_tx_queue_data :: "mb_env \<Rightarrow> int \<Rightarrow> sk_buff \<Rightarrow> msgbuf \<Rightarrow> (rc \<times> msgbuf) option" where
  "brcmf_msgbuf_tx_queue_data env ifidx skb m = do {
     h_dest \<leftarrow> read_bytes (sk_data skb) 0 6;
     flowid \<leftarrow> brcmf_flowring_lookup (mb_flow m) h_dest (ucast (sk_priority skb)) (of_int ifidx);
     if flowid = BRCMF_FLOWRING_INVALID_ID then do {
       (flowid, m) \<leftarrow> brcmf_msgbuf_flowring_create env ifidx skb m;
       if flowid = BRCMF_FLOWRING_INVALID_ID then Some (ERR ENOMEM, m)
       else do {
         (_, flow, evs) \<leftarrow> brcmf_flowring_enqueue (mb_flow m) (ucast flowid) skb;
         Some (OK, mb_emit (map MbFlow evs) (m\<lparr>mb_flow := flow\<rparr>)) } }
     else do {
       (queue_count, flow, evs) \<leftarrow> brcmf_flowring_enqueue (mb_flow m) (ucast flowid) skb;
       let force = (queue_count mod BRCMF_MSGBUF_TRICKLE_TXWORKER_THRS = 0);
       m \<leftarrow> brcmf_msgbuf_schedule_txdata flowid force (mb_emit (map MbFlow evs) (m\<lparr>mb_flow := flow\<rparr>));
       Some (OK, m) } }"

section \<open>Receive buffers\<close>

text \<open>Filling the reserved slots, shared by data buffers and control buffers: \<open>mk\<close> is the message for a
  buffer at an address with an identifier and a length, \<open>moff\<close> the room for metadata at its front. On a
  failure the slots not used are given back. \<open>skb_pull\<close> changes the buffer that is in the table.\<close>

definition pk_set_skb :: "u32 \<Rightarrow> 'p \<Rightarrow> 'p pktids \<Rightarrow> 'p pktids" where
  "pk_set_skb i s t = t\<lparr>pk_array := (pk_array t)[unat i := (pk_array t ! unat i)\<lparr>pk_skb := Some s\<rparr>]\<rparr>"

fun rx_post_loop ::
  "mb_env \<Rightarrow> nat \<Rightarrow> u16 \<Rightarrow> h2d_msg \<Rightarrow> (u32 \<Rightarrow> u64 \<Rightarrow> u32 \<Rightarrow> h2d_msg) \<Rightarrow> u16 \<Rightarrow> nat \<Rightarrow> nat \<Rightarrow> int
     \<Rightarrow> h2d_msg ring_world \<times> msgbuf \<Rightarrow> (nat \<times> h2d_msg ring_world \<times> msgbuf) option" where
  "rx_post_loop env sz moff zero mk alloced i 0 ret_ptr (ring, m) = Some (i, ring, m)"
| "rx_post_loop env sz moff zero mk alloced i (Suc n) ret_ptr (ring, m) = do {
     let ring = mb_store ret_ptr zero ring;
     let (skb, m) = brcmu_pkt_buf_get_skb env sz m;
     case skb of
       None \<Rightarrow> Some (i, mb_cancel (alloced - of_nat i) ring, m)
     | Some skb \<Rightarrow> do {
         (r, m) \<leftarrow> mb_alloc_rx env skb m;
         case r of
           None \<Rightarrow> Some (i, mb_cancel (alloced - of_nat i) ring, mb_emit [FreeSkb skb] m)
         | Some (physaddr, pktid) \<Rightarrow> do {
             let (skb', t) = (if moff = 0 then (skb, rx_pktids m)
                else let s = skb_pull (unat moff) skb in (s, pk_set_skb pktid s (rx_pktids m)));
             let msg = mk pktid physaddr (of_nat (skb_len skb'));
             rx_post_loop env sz moff zero mk alloced (i + 1) n (ret_ptr + int (unat (item_len (fst (fst ring)))))
               (mb_store ret_ptr msg ring, m\<lparr>rx_pktids := t\<rparr>) } } }"

abbreviation zero_addr :: msgbuf_buf_addr where "zero_addr \<equiv> \<lparr>low_addr = 0, high_addr = 0\<rparr>"

definition rx_bufpost_msg :: "u16 \<Rightarrow> u32 \<Rightarrow> u64 \<Rightarrow> u32 \<Rightarrow> h2d_msg" where
  "rx_bufpost_msg moff pktid physaddr pktlen = RX_BUFPOST
     \<lparr>rb_msgtype = 0x11, rb_request_id = pktid, rb_metadata_buf_len = moff, rb_data_buf_len = ucast pktlen,
      rb_metadata_buf_addr = (if moff = 0 then zero_addr else buf_addr physaddr),
      rb_data_buf_addr = buf_addr (physaddr + ucast moff)\<rparr>"

definition rx_bufpost_zero :: h2d_msg where
  "rx_bufpost_zero = RX_BUFPOST \<lparr>rb_msgtype = 0, rb_request_id = 0, rb_metadata_buf_len = 0, rb_data_buf_len = 0,
     rb_metadata_buf_addr = zero_addr, rb_data_buf_addr = zero_addr\<rparr>"

definition brcmf_msgbuf_rxbuf_data_post :: "mb_env \<Rightarrow> u32 \<Rightarrow> msgbuf \<Rightarrow> (u32 \<times> msgbuf) option" where
  "brcmf_msgbuf_rxbuf_data_post env count m = do {
     let (st, mem) = mb_rxpost_submit m;
     let (r, st) = brcmf_commonring_reserve_for_write_multiple pcie_ring_ops (ucast count) st;
     case r of
       None \<Rightarrow> Some (0, m\<lparr>mb_rxpost_submit := (st, mem)\<rparr>)
     | Some (ret_ptr, alloced) \<Rightarrow> do {
         let moff = rx_metadata_offset m;
         (i, ring, m) \<leftarrow> rx_post_loop env BRCMF_MSGBUF_MAX_PKT_SIZE moff rx_bufpost_zero (rx_bufpost_msg moff)
                           alloced 0 (unat alloced) ret_ptr ((st, mem), m);
         Some (of_nat i, m\<lparr>mb_rxpost_submit := if 0 < i then snd (mb_complete ring) else ring\<rparr>) } }"

text \<open>Every round that goes on posts at least one buffer.\<close>

partial_function (option) rxbuf_data_fill_loop :: "mb_env \<Rightarrow> u32 \<Rightarrow> msgbuf \<Rightarrow> msgbuf option" where
  "rxbuf_data_fill_loop env fillbufs m =
     (if fillbufs = 0 then Some m
      else do {
        (retcount, m) \<leftarrow> brcmf_msgbuf_rxbuf_data_post env fillbufs m;
        if retcount = 0 then Some m
        else rxbuf_data_fill_loop env (fillbufs - retcount) (m\<lparr>rxbufpost := rxbufpost m + retcount\<rparr>) })"

definition brcmf_msgbuf_rxbuf_data_fill :: "mb_env \<Rightarrow> msgbuf \<Rightarrow> msgbuf option" where
  "brcmf_msgbuf_rxbuf_data_fill env m = rxbuf_data_fill_loop env (max_rxbufpost m - rxbufpost m) m"

definition brcmf_msgbuf_update_rxbufpost_count :: "mb_env \<Rightarrow> u16 \<Rightarrow> msgbuf \<Rightarrow> msgbuf option" where
  "brcmf_msgbuf_update_rxbufpost_count env rxcnt m =
     (let m = m\<lparr>rxbufpost := rxbufpost m - ucast rxcnt\<rparr> in
      if rxbufpost m \<le> max_rxbufpost m - BRCMF_MSGBUF_RXBUFPOST_THRESHOLD
      then brcmf_msgbuf_rxbuf_data_fill env m else Some m)"

definition ctl_bufpost_msg :: "bool \<Rightarrow> u32 \<Rightarrow> u64 \<Rightarrow> u32 \<Rightarrow> h2d_msg" where
  "ctl_bufpost_msg event_buf pktid physaddr pktlen = CTL_BUFPOST
     \<lparr>cb_msgtype = if event_buf then 0xD else 0xB, cb_request_id = pktid, cb_host_buf_len = ucast pktlen,
      cb_host_buf_addr = buf_addr physaddr\<rparr>"

definition ctl_bufpost_zero :: h2d_msg where
  "ctl_bufpost_zero = CTL_BUFPOST \<lparr>cb_msgtype = 0, cb_request_id = 0, cb_host_buf_len = 0, cb_host_buf_addr = zero_addr\<rparr>"

definition brcmf_msgbuf_rxbuf_ctrl_post :: "mb_env \<Rightarrow> bool \<Rightarrow> u32 \<Rightarrow> msgbuf \<Rightarrow> (u32 \<times> msgbuf) option" where
  "brcmf_msgbuf_rxbuf_ctrl_post env event_buf count m = do {
     let (st, mem) = mb_ctl_submit m;
     let (r, st) = brcmf_commonring_reserve_for_write_multiple pcie_ring_ops (ucast count) st;
     case r of
       None \<Rightarrow> Some (0, m\<lparr>mb_ctl_submit := (st, mem)\<rparr>)
     | Some (ret_ptr, alloced) \<Rightarrow> do {
         (i, ring, m) \<leftarrow> rx_post_loop env BRCMF_MSGBUF_MAX_CTL_PKT_SIZE 0 ctl_bufpost_zero (ctl_bufpost_msg event_buf)
                           alloced 0 (unat alloced) ret_ptr ((st, mem), m);
         Some (of_nat i, m\<lparr>mb_ctl_submit := if 0 < i then snd (mb_complete ring) else ring\<rparr>) } }"

definition brcmf_msgbuf_rxbuf_ioctlresp_post :: "mb_env \<Rightarrow> msgbuf \<Rightarrow> msgbuf option" where
  "brcmf_msgbuf_rxbuf_ioctlresp_post env m = do {
     (count, m) \<leftarrow> brcmf_msgbuf_rxbuf_ctrl_post env False (max_ioctlrespbuf m - cur_ioctlrespbuf m) m;
     Some (m\<lparr>cur_ioctlrespbuf := cur_ioctlrespbuf m + count\<rparr>) }"

definition brcmf_msgbuf_rxbuf_event_post :: "mb_env \<Rightarrow> msgbuf \<Rightarrow> msgbuf option" where
  "brcmf_msgbuf_rxbuf_event_post env m = do {
     (count, m) \<leftarrow> brcmf_msgbuf_rxbuf_ctrl_post env True (max_eventbuf m - cur_eventbuf m) m;
     Some (m\<lparr>cur_eventbuf := cur_eventbuf m + count\<rparr>) }"

section \<open>Completions\<close>

definition brcmf_msgbuf_process_ioctl_complete :: "mb_env \<Rightarrow> u8 list \<Rightarrow> msgbuf \<Rightarrow> msgbuf option" where
  "brcmf_msgbuf_process_ioctl_complete env buf m = do {
     st \<leftarrow> compl_status buf;
     resp_len \<leftarrow> get_le16 buf 12;
     id \<leftarrow> msg_request_id buf;
     let m = m\<lparr>ioctl_resp_status := sint st, ioctl_resp_ret_len := ucast resp_len, ioctl_resp_pktid := id,
               ctl_completed := True\<rparr>;
     let m = (if cur_ioctlrespbuf m \<noteq> 0 then m\<lparr>cur_ioctlrespbuf := cur_ioctlrespbuf m - 1\<rparr> else m);
     brcmf_msgbuf_rxbuf_ioctlresp_post env m }"

definition brcmf_msgbuf_process_txstatus :: "u8 list \<Rightarrow> msgbuf \<Rightarrow> msgbuf option" where
  "brcmf_msgbuf_process_txstatus buf m = do {
     id \<leftarrow> msg_request_id buf;
     f \<leftarrow> compl_flow_ring_id buf;
     ifidx \<leftarrow> msg_ifidx buf;
     let idx = id - 1;
     let flowid = f - BRCMF_H2D_MSGRING_FLOWRING_IDSTART;
     (skb, m) \<leftarrow> mb_get_tx idx m;
     case skb of
       None \<Rightarrow> Some m
     | Some skb \<Rightarrow> do {
         tm \<leftarrow> upd_opt (txstatus_done_map m) (unat flowid) True;
         _ \<leftarrow> nth_opt (mb_flowrings m) (unat flowid);
         n \<leftarrow> nth_opt (outstanding_tx m) (unat flowid);
         let m = m\<lparr>outstanding_tx := (outstanding_tx m)[unat flowid := n - 1], txstatus_done_map := tm\<rparr>;
         ifp \<leftarrow> brcmf_get_ifp (mb_ifs m) (uint ifidx);
         Some (mb_emit [TxFinalizeIf ifp skb True] m) } }"

definition brcmf_msgbuf_process_event :: "mb_env \<Rightarrow> u8 list \<Rightarrow> msgbuf \<Rightarrow> msgbuf option" where
  "brcmf_msgbuf_process_event env buf m = do {
     idx \<leftarrow> msg_request_id buf;
     buflen \<leftarrow> get_le16 buf 12;
     ifidx \<leftarrow> msg_ifidx buf;
     let m = (if cur_eventbuf m \<noteq> 0 then m\<lparr>cur_eventbuf := cur_eventbuf m - 1\<rparr> else m);
     m \<leftarrow> brcmf_msgbuf_rxbuf_event_post env m;
     (skb, m) \<leftarrow> mb_get_rx idx m;
     case skb of
       None \<Rightarrow> Some m
     | Some skb \<Rightarrow> do {
         let skb = (if rx_dataoffset m \<noteq> 0 then skb_pull (unat (rx_dataoffset m)) skb else skb);
         let skb = skb_trim (unat buflen) skb;
         ifp \<leftarrow> brcmf_get_ifp (mb_ifs m) (uint ifidx);
         case ifp of
           Some i \<Rightarrow> if if_ndev i then Some (mb_emit [FwehSkb i skb, FreeSkb skb] m)
                     else Some (mb_emit [FreeSkb skb] m)
         | None \<Rightarrow> Some (mb_emit [FreeSkb skb] m) } }"

definition brcmf_msgbuf_process_rx_complete :: "mb_env \<Rightarrow> u8 list \<Rightarrow> msgbuf \<Rightarrow> msgbuf option" where
  "brcmf_msgbuf_process_rx_complete env buf m = do {
     m \<leftarrow> brcmf_msgbuf_update_rxbufpost_count env 1 m;
     data_offset \<leftarrow> get_le16 buf 16;
     buflen \<leftarrow> get_le16 buf 14;
     idx \<leftarrow> msg_request_id buf;
     flags \<leftarrow> get_le16 buf 18;
     ifidx \<leftarrow> msg_ifidx buf;
     (skb, m) \<leftarrow> mb_get_rx idx m;
     case skb of
       None \<Rightarrow> Some m
     | Some skb \<Rightarrow> do {
         let skb = (if data_offset \<noteq> 0 then skb_pull (unat data_offset) skb
                    else if rx_dataoffset m \<noteq> 0 then skb_pull (unat (rx_dataoffset m)) skb else skb);
         let skb = skb_trim (unat buflen) skb;
         if flags AND 0x07 = 0x02 then
           (case mb_mon_if m of
              None \<Rightarrow> Some (mb_emit [FreeSkb skb] m)
            | Some i \<Rightarrow> Some (mb_emit [NetifMonRx i skb] m))
         else do {
           ifp \<leftarrow> brcmf_get_ifp (mb_ifs m) (uint ifidx);
           case ifp of
             Some i \<Rightarrow> if if_ndev i then Some (mb_emit [NetifRx i skb] m)
                       else Some (mb_emit [FreeSkb skb] m)
           | None \<Rightarrow> Some (mb_emit [FreeSkb skb] m) } } }"

definition brcmf_msgbuf_process_gen_status :: "u8 list \<Rightarrow> msgbuf \<Rightarrow> msgbuf option" where
  "brcmf_msgbuf_process_gen_status buf m = do { _ \<leftarrow> compl_status buf; Some m }"

definition brcmf_msgbuf_process_ring_status :: "u8 list \<Rightarrow> msgbuf \<Rightarrow> msgbuf option" where
  "brcmf_msgbuf_process_ring_status buf m = do {
     err \<leftarrow> compl_status buf;
     if err \<noteq> 0 then do { _ \<leftarrow> compl_flow_ring_id buf; Some m } else Some m }"

definition brcmf_msgbuf_process_flow_ring_create_response :: "u8 list \<Rightarrow> msgbuf \<Rightarrow> msgbuf option" where
  "brcmf_msgbuf_process_flow_ring_create_response buf m = do {
     f \<leftarrow> compl_flow_ring_id buf;
     let flowid = f - BRCMF_H2D_MSGRING_FLOWRING_IDSTART;
     st \<leftarrow> compl_status buf;
     if st \<noteq> 0 then brcmf_msgbuf_remove_flowring flowid m
     else do {
       flow \<leftarrow> brcmf_flowring_open (mb_flow m) flowid;
       brcmf_msgbuf_schedule_txdata (ucast flowid) True (m\<lparr>mb_flow := flow\<rparr>) } }"

definition brcmf_msgbuf_process_flow_ring_delete_response :: "u8 list \<Rightarrow> msgbuf \<Rightarrow> msgbuf option" where
  "brcmf_msgbuf_process_flow_ring_delete_response buf m = do {
     f \<leftarrow> compl_flow_ring_id buf;
     let flowid = f - BRCMF_H2D_MSGRING_FLOWRING_IDSTART;
     st \<leftarrow> compl_status buf;
     if st \<noteq> 0 then mb_flowring_delete flowid m
     else brcmf_msgbuf_remove_flowring flowid m }"

definition brcmf_msgbuf_process_d2h_mailbox_data :: "u8 list \<Rightarrow> msgbuf \<Rightarrow> msgbuf option" where
  "brcmf_msgbuf_process_d2h_mailbox_data buf m = do { d \<leftarrow> get_le32 buf 12; Some (mb_emit [BusMbRx d] m) }"

definition brcmf_msgbuf_process_msgtype :: "mb_env \<Rightarrow> u8 list \<Rightarrow> msgbuf \<Rightarrow> msgbuf option" where
  "brcmf_msgbuf_process_msgtype env buf m = do {
     msgtype \<leftarrow> msg_msgtype buf;
     if msgtype = 0x1 then brcmf_msgbuf_process_gen_status buf m
     else if msgtype = 0x2 then brcmf_msgbuf_process_ring_status buf m
     else if msgtype = 0x4 then brcmf_msgbuf_process_flow_ring_create_response buf m
     else if msgtype = 0x6 then brcmf_msgbuf_process_flow_ring_delete_response buf m
     else if msgtype = 0xA then Some m
     else if msgtype = 0xC then brcmf_msgbuf_process_ioctl_complete env buf m
     else if msgtype = 0xE then brcmf_msgbuf_process_event env buf m
     else if msgtype = 0x10 then brcmf_msgbuf_process_txstatus buf m
     else if msgtype = 0x12 then brcmf_msgbuf_process_rx_complete env buf m
     else if msgtype = 0x24 then brcmf_msgbuf_process_d2h_mailbox_data buf m
     else Some m }"

section \<open>Reading a completion ring\<close>

text \<open>The inner loop of \<open>brcmf_msgbuf_process_rx\<close> over \<open>count\<close> items from the offset \<open>p\<close>; \<open>handle\<close> is
  \<open>brcmf_msgbuf_process_msgtype\<close> on the item. Its result is the number of items whose slots are not
  yet given back.\<close>

fun process_rx_items :: "('a \<Rightarrow> 's \<Rightarrow> 's option) \<Rightarrow> nat \<Rightarrow> u16 \<Rightarrow> int \<Rightarrow> 'a ring_world \<times> 's \<Rightarrow> (u16 \<times> 'a ring_world \<times> 's) option" where
  "process_rx_items handle 0 processed p (ring, s) = Some (processed, ring, s)"
| "process_rx_items handle (Suc count) processed p (ring, s) = do {
     s \<leftarrow> handle (snd ring p) s;
     let p = p + int (unat (item_len (fst (fst ring))));
     let processed = processed + 1;
     if processed = BRCMF_MSGBUF_UPDATE_RX_PTR_THRS
     then process_rx_items handle count 0 p ((snd (brcmf_commonring_read_complete pcie_ring_ops processed (fst ring)), snd ring), s)
     else process_rx_items handle count processed p (ring, s) }"

partial_function (option) process_rx_again :: "('a \<Rightarrow> 's \<Rightarrow> 's option) \<Rightarrow> 'a ring_world \<times> 's \<Rightarrow> ('a ring_world \<times> 's) option" where
  "process_rx_again handle w = do {
     let ((st, mem), s) = w;
     let ((buf, count), st) = brcmf_commonring_get_read_ptr pcie_ring_ops st;
     case buf of
       None \<Rightarrow> Some ((st, mem), s)
     | Some p \<Rightarrow> do {
         (processed, ring, s) \<leftarrow> process_rx_items handle (unat count) 0 p ((st, mem), s);
         let ring = (if processed \<noteq> 0
                     then (snd (brcmf_commonring_read_complete pcie_ring_ops processed (fst ring)), snd ring) else ring);
         if r_ptr (fst (fst ring)) = 0 then process_rx_again handle (ring, s) else Some (ring, s) } }"

definition brcmf_msgbuf_process_rx :: "mb_env \<Rightarrow> u8 list ring_world \<times> msgbuf \<Rightarrow> (u8 list ring_world \<times> msgbuf) option" where
  "brcmf_msgbuf_process_rx env =
     process_rx_again (\<lambda>item m. brcmf_msgbuf_process_msgtype env (drop (unat (rx_dataoffset m)) item) m)"

fun rx_trigger_flows :: "nat list \<Rightarrow> msgbuf \<Rightarrow> msgbuf option" where
  "rx_trigger_flows [] m = Some m"
| "rx_trigger_flows (i # is) m = do {
     b \<leftarrow> nth_opt (txstatus_done_map m) i;
     if b then do {
       let m = m\<lparr>txstatus_done_map := (txstatus_done_map m)[i := False]\<rparr>;
       _ \<leftarrow> nth_opt (mb_flowrings m) i;
       qlen \<leftarrow> brcmf_flowring_qlen (mb_flow m) (of_nat i);
       n \<leftarrow> nth_opt (outstanding_tx m) i;
       m \<leftarrow> (if sint BRCMF_MSGBUF_TRICKLE_TXWORKER_THRS < sint qlen
              \<or> qlen \<noteq> 0 \<and> sint n < sint BRCMF_MSGBUF_TRICKLE_TXWORKER_THRS
            then brcmf_msgbuf_schedule_txdata (of_nat i) True m else Some m);
       rx_trigger_flows is m }
     else rx_trigger_flows is m }"

definition brcmf_proto_msgbuf_rx_trigger :: "mb_env \<Rightarrow> msgbuf \<Rightarrow> msgbuf option" where
  "brcmf_proto_msgbuf_rx_trigger env m = do {
     (ring, m) \<leftarrow> brcmf_msgbuf_process_rx env (mb_rx_complete m, m);
     let m = m\<lparr>mb_rx_complete := ring\<rparr>;
     (ring, m) \<leftarrow> brcmf_msgbuf_process_rx env (mb_tx_complete m, m);
     let m = m\<lparr>mb_tx_complete := ring\<rparr>;
     (ring, m) \<leftarrow> brcmf_msgbuf_process_rx env (mb_ctl_complete m, m);
     let m = m\<lparr>mb_ctl_complete := ring\<rparr>;
     rx_trigger_flows [0..<unat (max_flowrings m)] m }"

section \<open>Closing flow rings, addresses, mailbox\<close>

text \<open>While the deletion waits, other contexts complete transmissions: \<open>later k n\<close> is the counter after
  the \<open>k\<close>th sleep when it was \<open>n\<close>. The result is the number of retries left and the counter.\<close>

fun wait_tx :: "(nat \<Rightarrow> u32 \<Rightarrow> u32) \<Rightarrow> nat \<Rightarrow> u32 \<Rightarrow> nat \<times> u32" where
  "wait_tx later 0 n = (0, n)"
| "wait_tx later (Suc retry) n = (if n = 0 then (Suc retry, n) else wait_tx later retry (later retry n))"

definition brcmf_msgbuf_delete_flowring :: "(nat \<Rightarrow> u32 \<Rightarrow> u32) \<Rightarrow> u16 \<Rightarrow> msgbuf \<Rightarrow> msgbuf option" where
  "brcmf_msgbuf_delete_flowring later flowid m = do {
     _ \<leftarrow> nth_opt (mb_flowrings m) (unat flowid);
     ring \<leftarrow> fr_ring (mb_flow m) flowid;
     let m = m\<lparr>mb_flow := fr_set_ring flowid (ring\<lparr>status := RING_CLOSING\<rparr>) (mb_flow m)\<rparr>;
     n \<leftarrow> nth_opt (outstanding_tx m) (unat flowid);
     let (retry, n) = wait_tx later BRCMF_MAX_TXSTATUS_WAIT_RETRIES n;
     let m = m\<lparr>outstanding_tx := (outstanding_tx m)[unat flowid := if retry = 0 then 0 else n]\<rparr>;
     if \<not> mb_bus_up m then brcmf_msgbuf_remove_flowring flowid m
     else do {
       let (p, ring) = mb_reserve (mb_ctl_submit m);
       case p of
         None \<Rightarrow> brcmf_msgbuf_remove_flowring flowid (m\<lparr>mb_ctl_submit := ring\<rparr>)
       | Some off \<Rightarrow> do {
           ifidx \<leftarrow> brcmf_flowring_ifidx_get (mb_flow m) flowid;
           let del = \<lparr>fd_ifidx = ifidx, fd_request_id = 0,
                 fd_flow_ring_id = flowid + BRCMF_H2D_MSGRING_FLOWRING_IDSTART, fd_reason = 0\<rparr>;
           let (err, ring) = mb_complete (mb_store off (FLOW_RING_DELETE del) ring);
           let m = m\<lparr>mb_ctl_submit := ring\<rparr>;
           if err \<noteq> OK then brcmf_msgbuf_remove_flowring flowid m else Some m } } }"

definition brcmf_msgbuf_h2d_mb_write :: "u32 \<Rightarrow> msgbuf \<Rightarrow> rc \<times> msgbuf" where
  "brcmf_msgbuf_h2d_mb_write data m =
     (let (p, ring) = mb_reserve (mb_ctl_submit m) in
      case p of
        None \<Rightarrow> (ERR ENOMEM, m\<lparr>mb_ctl_submit := ring\<rparr>)
      | Some off \<Rightarrow>
          (let request = \<lparr>hm_ifidx = - 1, hm_flags = 0, hm_request_id = 0, hm_data = data\<rparr>;
               (err, ring) = mb_complete (mb_store off (H2D_MAILBOX_DATA request) ring)
           in (err, m\<lparr>mb_ctl_submit := ring\<rparr>)))"

text \<open>The flow ring functions that delete rings, with this layer as their parameter.\<close>

definition mb_del :: "(nat \<Rightarrow> u32 \<Rightarrow> u32) \<Rightarrow> (sk_buff, msgbuf) del_fn" where
  "mb_del later flowid st = do {
     m \<leftarrow> brcmf_msgbuf_delete_flowring later flowid ((snd st)\<lparr>mb_flow := fst st\<rparr>);
     Some (mb_flow m, m) }"

definition brcmf_msgbuf_configure_addr_mode ::
  "(nat \<Rightarrow> u32 \<Rightarrow> u32) \<Rightarrow> int \<Rightarrow> proto_addr_mode \<Rightarrow> msgbuf \<Rightarrow> msgbuf option" where
  "brcmf_msgbuf_configure_addr_mode later ifidx mode m = do {
     (flow, m) \<leftarrow> brcmf_flowring_configure_addr_mode (mb_del later) (of_int ifidx) mode (mb_flow m, m);
     Some (m\<lparr>mb_flow := flow\<rparr>) }"

definition brcmf_msgbuf_delete_peer :: "(nat \<Rightarrow> u32 \<Rightarrow> u32) \<Rightarrow> int \<Rightarrow> u8 list \<Rightarrow> msgbuf \<Rightarrow> msgbuf option" where
  "brcmf_msgbuf_delete_peer later ifidx peer m = do {
     (flow, m) \<leftarrow> brcmf_flowring_delete_peer (mb_del later) (of_int ifidx) peer (mb_flow m, m);
     Some (m\<lparr>mb_flow := flow\<rparr>) }"

definition brcmf_msgbuf_add_tdls_peer :: "mb_env \<Rightarrow> u8 list \<Rightarrow> msgbuf \<Rightarrow> msgbuf" where
  "brcmf_msgbuf_add_tdls_peer env peer m =
     mb_tick (m\<lparr>mb_flow := brcmf_flowring_add_tdls_peer (env_kzalloc env (mb_clock m)) (mb_flow m) peer\<rparr>)"

section \<open>Attaching and detaching\<close>

text \<open>What the bus provides. The allocations before the buffers are fed succeed or fail as \<open>allocs\<close> says,
  in their order; any failure releases everything and returns \<open>-ENOMEM\<close>.\<close>

record brcmf_bus_msgbuf =
  bm_ctl_submit :: "h2d_msg ring_world"
  bm_rxpost_submit :: "h2d_msg ring_world"
  bm_rx_complete :: "u8 list ring_world"
  bm_tx_complete :: "u8 list ring_world"
  bm_ctl_complete :: "u8 list ring_world"
  bm_flowrings :: "h2d_msg ring_world list"
  bm_max_flowrings :: u16
  bm_rx_dataoffset :: u16
  bm_max_rxbufpost :: u32
  bm_bus_up :: bool

definition msgbuf_init :: "brcmf_bus_msgbuf \<Rightarrow> mb_if if_tables \<Rightarrow> u64 \<Rightarrow> msgbuf" where
  "msgbuf_init b ifs address =
     (let mf = (if 512 \<le> bm_max_flowrings b then 511 else bm_max_flowrings b);
          bits = (unat mf + 63) div 64 * 64;
          t = \<lparr>array_size = 2048, last_allocated_idx = 0,
            pk_array = replicate 2048 \<lparr>allocated = False, data_offset = 0, pk_skb = None, pk_physaddr = 0\<rparr>\<rparr>
      in \<lparr>mb_ctl_submit = bm_ctl_submit b, mb_rxpost_submit = bm_rxpost_submit b, mb_rx_complete = bm_rx_complete b,
          mb_tx_complete = bm_tx_complete b, mb_ctl_complete = bm_ctl_complete b, mb_flowrings = bm_flowrings b,
          outstanding_tx = replicate (length (bm_flowrings b)) 0, flowring_dma_handle = replicate (unat mf) 0,
          max_flowrings = mf, rx_dataoffset = bm_rx_dataoffset b, max_rxbufpost = bm_max_rxbufpost b,
          rx_metadata_offset = 0, rxbufpost = 0, max_ioctlrespbuf = 8, cur_ioctlrespbuf = 0, max_eventbuf = 8,
          cur_eventbuf = 0, ioctbuf = replicate 1518 0, ioctbuf_phys_hi = ucast (drop_bit 32 address),
          ioctbuf_phys_lo = ucast (address AND 0xffffffff), ioctl_resp_status = 0, ioctl_resp_ret_len = 0,
          ioctl_resp_pktid = 0, mb_reqid = 0, ctl_completed = False, tx_pktids = t, rx_pktids = t,
          mb_flow = brcmf_flowring_attach mf, flow_map = replicate bits False,
          txstatus_done_map = replicate bits False, work_queue = [], mb_bus_up = bm_bus_up b, mb_ifs = ifs,
          mb_mon_if = None, mb_clock = 0, mb_log = []\<rparr>)"

fun attach_fill :: "mb_env \<Rightarrow> nat \<Rightarrow> msgbuf \<Rightarrow> msgbuf option" where
  "attach_fill env 0 m = Some m"
| "attach_fill env (Suc n) m = do {
     m \<leftarrow> brcmf_msgbuf_rxbuf_data_fill env m;
     if max_rxbufpost m \<noteq> rxbufpost m then attach_fill env n m else Some m }"

definition brcmf_proto_msgbuf_attach ::
  "mb_env \<Rightarrow> bool list \<Rightarrow> u64 option \<Rightarrow> brcmf_bus_msgbuf \<Rightarrow> mb_if if_tables \<Rightarrow> (errno + msgbuf) option" where
  "brcmf_proto_msgbuf_attach env allocs ioct b ifs =
     (case ioct of
        None \<Rightarrow> Some (Inl ENOMEM)
      | Some address \<Rightarrow>
          if \<not> list_all id allocs then Some (Inl ENOMEM)
          else do {
            m \<leftarrow> attach_fill env 10 (msgbuf_init b ifs address);
            m \<leftarrow> brcmf_msgbuf_rxbuf_event_post env m;
            m \<leftarrow> brcmf_msgbuf_rxbuf_ioctlresp_post env m;
            Some (Inr m) })"

definition brcmf_msgbuf_release_pktids :: "msgbuf \<Rightarrow> (sk_buff list \<times> dma_ev list) option" where
  "brcmf_msgbuf_release_pktids m = do {
     (rs, re) \<leftarrow> brcmf_msgbuf_release_array skb_len (rx_pktids m);
     (ts, te) \<leftarrow> brcmf_msgbuf_release_array skb_len (tx_pktids m);
     Some (rs @ ts, re @ te) }"

end
