(* ===== verification/MsgbufTx.thy ===== *)
theory MsgbufTx
  imports Msgbuf
begin

text \<open>
  Transmission over the message buffer protocol: what one run of \<open>brcmf_msgbuf_txflow\<close> does to a flow
  ring's queue, to the message ring and to the table of packet identifiers, and what the completion of a
  transmission does; and the failure of \<open>brcmf_msgbuf_tx_queue_data\<close> when no flow ring is left.
\<close>

section \<open>Deleting a ring, as the flow rings see it\<close>

lemma mb_emit_flow: "mb_flow (mb_emit evs m) = mb_flow m"
  by (simp add: mb_emit_def)

lemma remove_flowring_flow:
  "brcmf_msgbuf_remove_flowring f m = Some m' \<Longrightarrow> \<exists>evs. brcmf_flowring_delete (mb_flow m) f = Some (mb_flow m', evs)"
  by (auto simp: brcmf_msgbuf_remove_flowring_def mb_flowring_delete_def bind_eq_Some_conv mb_emit_flow)

lemma delete_flowring_flow:
  assumes "brcmf_msgbuf_delete_flowring later f m = Some m'"
  shows "\<exists>r. fr_ring (mb_flow m) f = Some r \<and> (mb_flow m' = fr_set_ring f (r\<lparr>status := RING_CLOSING\<rparr>) (mb_flow m)
     \<or> (\<exists>evs. brcmf_flowring_delete (fr_set_ring f (r\<lparr>status := RING_CLOSING\<rparr>) (mb_flow m)) f = Some (mb_flow m', evs)))"
proof -
  obtain retry n where w: "wait_tx later BRCMF_MAX_TXSTATUS_WAIT_RETRIES (outstanding_tx m ! unat f) = (retry, n)"
    by fastforce
  obtain p ring where q: "mb_reserve (mb_ctl_submit m) = (p, ring)" by (rule prod.exhaust)
  from assms w q show ?thesis
    by (cases p) (auto simp: brcmf_msgbuf_delete_flowring_def bind_eq_Some_conv Let_def split_def
        dest!: remove_flowring_flow split: if_splits)
qed

text \<open>The contract of the flow rings for the layer that deletes rings holds for this layer.\<close>

lemma mb_del_ok: "del_ok (mb_del later)"
  unfolding del_ok_def mb_del_def by (auto simp: bind_eq_Some_conv dest!: delete_flowring_flow)

section \<open>One slot at a time\<close>

lemma mb_reserve_put:
  "h2d_put w x = (case mb_reserve w of (None, w') \<Rightarrow> (False, w') | (Some off, w') \<Rightarrow> (True, mb_store off x w'))"
  by (cases w) (simp add: h2d_put_def mb_reserve_def mb_store_def split: prod.split option.split)

lemma mb_reserve_cases [consumes 1, case_names full slot]:
  assumes "h2d_inv (fst w)"
  obtains (full) w' where "mb_reserve w = (None, w')" "h2d_inv (fst w')" "h2d_items w' = h2d_items w"
      "ring_cap w' = ring_cap w" "length (h2d_items w) = ring_cap w"
      "w_ptr (fst (fst w')) = w_ptr (fst (fst w))" "snd (fst w') = snd (fst w)"
  | (slot) off w' where "mb_reserve w = (Some off, w')"
      "\<And>x. h2d_inv (fst (mb_store off x w')) \<and> h2d_items (mb_store off x w') = h2d_items w @ [x]
         \<and> ring_cap (mb_store off x w') = ring_cap w"
proof -
  obtain st mem where w: "w = (st, mem)" by fastforce
  have inv: "h2d_inv st" using assms by (simp add: w)
  obtain p w' where r: "mb_reserve w = (p, w')" by (rule prod.exhaust)
  have put: "h2d_put (st, mem) x = (case p of None \<Rightarrow> (False, w') | Some off \<Rightarrow> (True, mb_store off x w'))" for x
    using mb_reserve_put [of w x] r by (simp add: w)
  show thesis
  proof (cases p)
    case None
    obtain st' where st': "brcmf_commonring_reserve_for_write pcie_ring_ops st = (None, st')" "w' = (st', mem)"
      using r None by (auto simp: mb_reserve_def w split: prod.splits)
    have "w_ptr (fst st') = w_ptr (fst st) \<and> snd st' = snd st"
    proof (cases rule: reserve_multiple_cases [OF inv, of 1])
      case (2 s)
      then show ?thesis using st'(1) by (simp add: reserve_is_multiple [OF inv])
    next
      case (3 cr x k)
      then show ?thesis using st'(1) by (simp add: reserve_is_multiple [OF inv])
    qed simp
    then show thesis using h2d_put_cases [OF inv, of mem _ False w'] put r None by (intro full [of w']) (auto simp: w st'(2))
  next
    case (Some off)
    then have "h2d_put (st, mem) x = (True, mb_store off x w')" for x using put by simp
    from h2d_put_cases [OF inv this] show thesis using Some r w by (intro slot [of off w']) auto
  qed
qed

lemma mb_complete_eq:
  assumes "h2d_inv (fst w)"
  shows "mb_complete w = (OK, h2d_commit w)"
proof -
  obtain cr x mem where w: "w = ((cr, x), mem)" by (metis surj_pair)
  with assms show ?thesis by (simp add: mb_complete_def h2d_commit_def write_complete_pcie)
qed

lemma write_available_keeps:
  assumes "\<And>cr x b. P (cr, x) \<Longrightarrow> P (cr\<lparr>was_full := b\<rparr>, x)" and "\<And>st. P st \<Longrightarrow> P (cr_call (cr_update_rptr ops) st)"
    and "P st"
  shows "P (snd (write_available_again ops retry st))"
proof -
  have F: "P (snd (write_available_again ops False st))" if "P st" for st
    using that by (subst write_available_again.simps) (auto simp: Let_def split: prod.split intro: assms(1))
  show ?thesis
  proof (cases retry)
    case True
    then show ?thesis using assms(3) F [OF assms(2) [OF assms(3)]]
      by (subst write_available_again.simps) (auto simp: Let_def split: prod.split intro: assms(1))
  qed (simp add: F assms(3))
qed

lemma write_available_ring:
  assumes "h2d_inv st"
  shows "h2d_inv (snd (brcmf_commonring_write_available pcie_ring_ops st))
    \<and> h2d_items (snd (brcmf_commonring_write_available pcie_ring_ops st), mem) = h2d_items (st, mem)
    \<and> ring_cap (snd (brcmf_commonring_write_available pcie_ring_ops st), mem) = ring_cap (st, mem)"
  unfolding brcmf_commonring_write_available_def
proof (rule write_available_keeps [where P = "\<lambda>s. h2d_inv s \<and> h2d_items (s, mem) = h2d_items (st, mem) \<and> ring_cap (s, mem) = ring_cap (st, mem)"])
  fix cr :: commonring and x b
  assume "h2d_inv (cr, x) \<and> h2d_items ((cr, x), mem) = h2d_items (st, mem) \<and> ring_cap ((cr, x), mem) = ring_cap (st, mem)"
  then show "h2d_inv (cr\<lparr>was_full := b\<rparr>, x) \<and> h2d_items ((cr\<lparr>was_full := b\<rparr>, x), mem) = h2d_items (st, mem)
      \<and> ring_cap ((cr\<lparr>was_full := b\<rparr>, x), mem) = ring_cap (st, mem)"
    by (simp add: h2d_items_def ring_cap_def)
next
  fix s :: "pcie_ring cr_state"
  obtain cr x where s: "s = (cr, x)" by fastforce
  assume *: "h2d_inv s \<and> h2d_items (s, mem) = h2d_items (st, mem) \<and> ring_cap (s, mem) = ring_cap (st, mem)"
  then have inv: "h2d_inv (cr, x)" by (simp only: s)
  have c: "cr_call (cr_update_rptr pcie_ring_ops) s = h2d_refresh s"
    using pcie_update_rptr [OF inv] by (simp add: s)
  show "h2d_inv (cr_call (cr_update_rptr pcie_ring_ops) s)
      \<and> h2d_items (cr_call (cr_update_rptr pcie_ring_ops) s, mem) = h2d_items (st, mem)
      \<and> ring_cap (cr_call (cr_update_rptr pcie_ring_ops) s, mem) = ring_cap (st, mem)"
    unfolding c using * h2d_refresh_inv [OF inv] by (auto simp: s h2d_items_def ring_cap_def)
qed (use assms in simp)

section \<open>One packet\<close>

text \<open>The state a run of the loop works on: an open ring \<open>f\<close> with the queue \<open>q\<close>, whose interface is \<open>ifx\<close>.\<close>

definition tx_ready :: "u16 \<Rightarrow> u8 \<Rightarrow> sk_buff list \<Rightarrow> msgbuf \<Rightarrow> bool" where
  "tx_ready f ifx q m \<longleftrightarrow> flowring_inv (mb_flow m)
     \<and> (\<exists>r. fr_ring (mb_flow m) f = Some r \<and> status r = RING_OPEN \<and> fr_skblist r = q)
     \<and> brcmf_flowring_ifidx_get (mb_flow m) f = Some ifx
     \<and> unat f < length (mb_flowrings m) \<and> h2d_inv (fst (mb_flowrings m ! unat f))
     \<and> unat f < length (outstanding_tx m) \<and> pktids_inv (tx_pktids m)"

text \<open>What such a run leaves alone.\<close>

definition tx_frame :: "u16 \<Rightarrow> msgbuf \<Rightarrow> msgbuf \<Rightarrow> bool" where
  "tx_frame f m m' \<longleftrightarrow> length (mb_flowrings m') = length (mb_flowrings m)
     \<and> (\<forall>g. g \<noteq> unat f \<longrightarrow> mb_flowrings m' ! g = mb_flowrings m ! g)
     \<and> (\<forall>g. g \<noteq> f \<longrightarrow> fr_ring (mb_flow m') g = fr_ring (mb_flow m) g)
     \<and> mb_ctl_submit m' = mb_ctl_submit m \<and> mb_rxpost_submit m' = mb_rxpost_submit m
     \<and> rx_pktids m' = rx_pktids m \<and> work_queue m' = work_queue m"

lemma tx_frame_refl: "tx_frame f m m"
  by (simp add: tx_frame_def)

lemma tx_frame_trans: "tx_frame f m m' \<Longrightarrow> tx_frame f m' m'' \<Longrightarrow> tx_frame f m m''"
  by (simp add: tx_frame_def)

definition mb_ring :: "u16 \<Rightarrow> msgbuf \<Rightarrow> h2d_msg ring_world" where
  "mb_ring f m = mb_flowrings m ! unat f"

text \<open>Everything reserved has been published to the device.\<close>

definition published :: "'a ring_world \<Rightarrow> bool" where
  "published w \<longleftrightarrow> w_idx (snd (fst w)) = w_ptr (fst (fst w))"

lemma published_commit: "h2d_inv (fst w) \<Longrightarrow> published (h2d_commit w)"
  using h2d_commit_props [of w] by (simp add: published_def)

text \<open>What stops a run: the message ring or the table of identifiers is full, or mapping a packet failed.\<close>

definition tx_stuck :: "mb_env \<Rightarrow> u16 \<Rightarrow> msgbuf \<Rightarrow> bool" where
  "tx_stuck env f m \<longleftrightarrow> length (h2d_items (mb_ring f m)) = ring_cap (mb_ring f m)
     \<or> (\<forall>i < array_size (tx_pktids m). pktid_of (tx_pktids m) i \<noteq> None) \<or> (\<exists>t. env_map env t = None)"

lemma open_qlen:
  assumes "fr_ring fl f = Some r" and "status r = RING_OPEN"
  shows "brcmf_flowring_qlen fl f = Some (of_nat (length (fr_skblist r)))"
  using assms by (simp add: brcmf_flowring_qlen_def fr_ptr_ring)

lemma dequeue_open:
  assumes "flowring_inv fl" and "fr_ring fl f = Some r" and "status r = RING_OPEN" and "fr_skblist r = s # q"
  obtains fl' evs r' where "brcmf_flowring_dequeue fl f = Some (Some s, fl', evs)" "flowring_inv fl'"
    "fr_ring fl' f = Some r'" "status r' = RING_OPEN" "fr_skblist r' = q" "hash_id r' = hash_id r"
    "\<forall>g. g \<noteq> f \<longrightarrow> fr_ring fl' g = fr_ring fl g" "fl_hash fl' = fl_hash fl"
proof (rule dequeue_eq [OF assms(1,2)])
  fix fl' evs
  assume *: "brcmf_flowring_dequeue fl f = Some (if status r = RING_OPEN \<and> fr_skblist r \<noteq> [] then Some (hd (fr_skblist r)) else None, fl', evs)"
    "flowring_inv fl'"
    "fr_ring fl' f = Some (if status r \<noteq> RING_OPEN then r else r\<lparr>fr_skblist := tl (fr_skblist r),
       blocked := (blocked r \<and> 768 \<le> length (tl (fr_skblist r)))\<rparr>)"
    "\<And>g. g \<noteq> f \<Longrightarrow> fr_ring fl' g = fr_ring fl g" "fl_hash fl' = fl_hash fl"
  show thesis
    by (rule that [of fl' evs "r\<lparr>fr_skblist := q, blocked := (blocked r \<and> 768 \<le> length q)\<rparr>"]) (use * assms(3,4) in simp_all)
qed

lemma reinsert_open:
  assumes "flowring_inv fl" and "fr_ring fl f = Some r"
  shows "brcmf_flowring_reinsert fl f s = Some (fr_set_ring f (r\<lparr>fr_skblist := s # fr_skblist r\<rparr>) fl)"
    and "flowring_inv (fr_set_ring f (r\<lparr>fr_skblist := s # fr_skblist r\<rparr>) fl)"
    and "fr_ring (fr_set_ring f (r\<lparr>fr_skblist := s # fr_skblist r\<rparr>) fl) g
       = (if g = f then Some (r\<lparr>fr_skblist := s # fr_skblist r\<rparr>) else fr_ring fl g)"
  using set_ring_inv [OF assms(1,2), of "r\<lparr>fr_skblist := s # fr_skblist r\<rparr>"] assms(2)
  by (auto simp: brcmf_flowring_reinsert_def fr_ring_set)

lemma ifidx_get_ring:
  assumes "fr_ring fl f = Some r" and "fr_ring fl' f = Some r'" and "hash_id r' = hash_id r" and "fl_hash fl' = fl_hash fl"
  shows "brcmf_flowring_ifidx_get fl' f = brcmf_flowring_ifidx_get fl f"
  using assms by (simp add: brcmf_flowring_ifidx_get_def)

lemma mb_alloc_tx_cases [consumes 1, case_names fail got]:
  assumes "pktids_inv (tx_pktids m)"
  obtains (fail) l where "mb_alloc_tx env skb m = Some (None, mb_emit l (mb_tick m))"
      "env_map env (mb_clock m) = None \<or> (\<forall>i < array_size (tx_pktids m). pktid_of (tx_pktids m) i \<noteq> None)"
  | (got) pa i t l where "mb_alloc_tx env skb m = Some (Some (pa, i), mb_emit l (mb_tick (m\<lparr>tx_pktids := t\<rparr>)))"
      "pktid_of (tx_pktids m) i = None" "pktids_inv t" "pktid_of t = (pktid_of (tx_pktids m))(i \<mapsto> (skb, pa, 14))"
  using assms
proof (cases rule: alloc_pktid_cases [where mp = "env_map env (mb_clock m)" and skb = skb and len = "skb_len skb" and off = "of_nat ETH_HLEN"])
  case unmapped
  then show thesis by (intro fail [of "[]"]) (simp_all add: mb_alloc_tx_def)
next
  case (full pa)
  then show thesis
    by (intro fail [of "map MbDma [DmaMap pa (skb_len skb - unat (of_nat ETH_HLEN :: u16)), DmaUnmap pa (skb_len skb - unat (of_nat ETH_HLEN :: u16))]"])
      (simp_all add: mb_alloc_tx_def)
next
  case (fresh pa i t')
  then show thesis
    by (intro got [of pa i "map MbDma [DmaMap pa (skb_len skb - unat (of_nat ETH_HLEN :: u16))]" t']) (simp_all add: mb_alloc_tx_def)
qed

lemma mb_get_tx_Some:
  assumes "pktids_inv (tx_pktids m)" and "pktid_of (tx_pktids m) i = Some (s, pa, off)"
  obtains t l where "mb_get_tx i m = Some (Some s, mb_emit l (m\<lparr>tx_pktids := t\<rparr>))" "pktids_inv t"
    "pktid_of t = (pktid_of (tx_pktids m))(i := None)"
proof (rule get_pktid_Some [OF assms, of skb_len])
  fix t :: "sk_buff pktids"
  assume "brcmf_msgbuf_get_pktid skb_len (tx_pktids m) i = Some (Some s, t, [DmaUnmap pa (skb_len s - unat off)])"
    "pktids_inv t" "pktid_of t = (pktid_of (tx_pktids m))(i := None)"
  then show thesis by (intro that [of "map MbDma [DmaUnmap pa (skb_len s - unat off)]" t]) (simp_all add: mb_get_tx_def)
qed

lemma read_hdr: "14 \<le> length b \<Longrightarrow> read_bytes b 0 14 = Some (take 14 b)"
  by (simp add: read_bytes_def)

text \<open>The possible outcomes of one round: it stops with the packet back at the head of the queue, or the packet is posted.\<close>

lemma txflow_step [case_names stop post]:
  assumes ready: "tx_ready f ifx (s # q) m" and len: "length (s # q) < 2 ^ 32" and hdr: "14 \<le> length (sk_data s)"
    and cnt: "unat count < 96"
  obtains (stop) m' where "txflow_loop env f count m = Some (count, m')" "tx_ready f ifx (s # q) m'" "tx_frame f m m'"
      "h2d_items (mb_ring f m') = h2d_items (mb_ring f m)" "pktid_of (tx_pktids m') = pktid_of (tx_pktids m)"
      "outstanding_tx m' = outstanding_tx m" "published (mb_ring f m) \<Longrightarrow> published (mb_ring f m')"
      "tx_stuck env f m'"
  | (post) pa id count' m' where "txflow_loop env f count m = txflow_loop env f count' m'" "tx_ready f ifx q m'" "tx_frame f m m'"
      "h2d_items (mb_ring f m') = h2d_items (mb_ring f m) @ [TX_POST (mb_tx_msghdr id pa ifx (take 14 (sk_data s)) s)]"
      "pktid_of (tx_pktids m) id = None" "pktid_of (tx_pktids m') = (pktid_of (tx_pktids m))(id \<mapsto> (s, pa, 14))"
      "outstanding_tx m' = (outstanding_tx m)[unat f := outstanding_tx m ! unat f + 1]"
      "unat count' < 96" "count' = 0 \<Longrightarrow> published (mb_ring f m')"
proof -
  obtain r where r: "fr_ring (mb_flow m) f = Some r" "status r = RING_OPEN" "fr_skblist r = s # q"
    using ready by (auto simp: tx_ready_def)
  have R: "flowring_inv (mb_flow m)" "brcmf_flowring_ifidx_get (mb_flow m) f = Some ifx" "unat f < length (mb_flowrings m)"
    "h2d_inv (fst (mb_ring f m))" "unat f < length (outstanding_tx m)" "pktids_inv (tx_pktids m)"
    using ready by (simp_all add: tx_ready_def mb_ring_def)
  have qlen: "brcmf_flowring_qlen (mb_flow m) f = Some (of_nat (length (s # q)))" using open_qlen [OF r(1,2)] r(3) by simp
  have nz: "(of_nat (length (s # q)) :: u32) \<noteq> 0"
  proof
    assume "(of_nat (length (s # q)) :: u32) = 0"
    then have "unat (of_nat (length (s # q)) :: u32) = 0" by simp
    moreover have "unat (of_nat (length (s # q)) :: u32) = length (s # q)"
      using len unfolding unat_of_nat by (intro mod_less) simp
    ultimately show False by simp
  qed
  obtain fl evs r' where dq: "brcmf_flowring_dequeue (mb_flow m) f = Some (Some s, fl, evs)" "flowring_inv fl"
    "fr_ring fl f = Some r'" "status r' = RING_OPEN" "fr_skblist r' = q" "hash_id r' = hash_id r"
    "\<forall>g. g \<noteq> f \<longrightarrow> fr_ring fl g = fr_ring (mb_flow m) g" "fl_hash fl = fl_hash (mb_flow m)"
    by (rule dequeue_open [OF R(1) r])
  have ifx: "brcmf_flowring_ifidx_get fl f = Some ifx" using ifidx_get_ring [OF r(1) dq(3,6,8)] R(2) by simp
  define m1 where "m1 = mb_emit (map MbFlow evs) (m\<lparr>mb_flow := fl\<rparr>)"
  have m1: "mb_flow m1 = fl" "mb_flowrings m1 = mb_flowrings m" "outstanding_tx m1 = outstanding_tx m" "tx_pktids m1 = tx_pktids m"
    "mb_ctl_submit m1 = mb_ctl_submit m" "mb_rxpost_submit m1 = mb_rxpost_submit m" "rx_pktids m1 = rx_pktids m" "work_queue m1 = work_queue m"
    by (simp_all add: m1_def mb_emit_def)
  have loop: "txflow_loop env f count m = do {
           (r, m) \<leftarrow> mb_alloc_tx env s m1;
           case r of
             None \<Rightarrow> do {
               flow \<leftarrow> brcmf_flowring_reinsert (mb_flow m) f s;
               Some (count, m\<lparr>mb_flow := flow\<rparr>) }
           | Some (physaddr, pktid) \<Rightarrow> do {
               ring \<leftarrow> nth_opt (mb_flowrings m) (unat f);
               let (p, ring) = mb_reserve ring;
               let m = mb_set_flowring f ring m;
               case p of
                 None \<Rightarrow> do {
                   (_, m) \<leftarrow> mb_get_tx pktid m;
                   flow \<leftarrow> brcmf_flowring_reinsert (mb_flow m) f s;
                   Some (count, m\<lparr>mb_flow := flow\<rparr>) }
               | Some off \<Rightarrow> do {
                   let count = count + 1;
                   ifidx \<leftarrow> brcmf_flowring_ifidx_get (mb_flow m) f;
                   txhdr \<leftarrow> read_bytes (sk_data s) 0 ETH_HLEN;
                   let ring = mb_store off (TX_POST (mb_tx_msghdr pktid physaddr ifidx txhdr s)) ring;
                   n \<leftarrow> nth_opt (outstanding_tx m) (unat f);
                   let m = m\<lparr>outstanding_tx := (outstanding_tx m)[unat f := n + 1]\<rparr>;
                   if BRCMF_MSGBUF_TX_FLUSH_CNT2 \<le> count
                   then txflow_loop env f 0 (mb_set_flowring f (snd (mb_complete ring)) m)
                   else txflow_loop env f count (mb_set_flowring f ring m) } } }"
    by (subst txflow_loop.simps) (simp only: qlen dq(1) Option.bind.simps nz if_False prod.case option.case Let_def m1_def)
  note re = reinsert_open [OF dq(2,3), of s]
  define fl2 where "fl2 = fr_set_ring f (r'\<lparr>fr_skblist := s # fr_skblist r'\<rparr>) fl"
  have fl2: "flowring_inv fl2" "fr_ring fl2 f = Some (r'\<lparr>fr_skblist := s # q\<rparr>)" "\<And>g. g \<noteq> f \<Longrightarrow> fr_ring fl2 g = fr_ring (mb_flow m) g"
    "brcmf_flowring_ifidx_get fl2 f = Some ifx"
    using re dq ifx ifidx_get_ring [OF dq(3), of fl2 "r'\<lparr>fr_skblist := s # q\<rparr>"] by (simp_all add: fl2_def)
  have "pktids_inv (tx_pktids m1)" using R(6) m1 by simp
  then show thesis
  proof (cases rule: mb_alloc_tx_cases [where env = env and skb = s])
    case (fail l)
    let ?m = "(mb_emit l (mb_tick m1))\<lparr>mb_flow := fl2\<rparr>"
    have "txflow_loop env f count m = Some (count, ?m)"
      unfolding loop fail using re(1) by (simp add: mb_emit_def mb_tick_def m1 fl2_def)
    then show thesis
      by (rule stop) (use R fl2 dq m1 fail(2) in \<open>auto simp: tx_ready_def tx_frame_def tx_stuck_def mb_ring_def mb_emit_def mb_tick_def\<close>)
  next
    case (got pa i t l)
    define m2 where "m2 = mb_emit l (mb_tick (m1\<lparr>tx_pktids := t\<rparr>))"
    have m2: "mb_flow m2 = fl" "mb_flowrings m2 = mb_flowrings m" "outstanding_tx m2 = outstanding_tx m" "tx_pktids m2 = t"
      "mb_ctl_submit m2 = mb_ctl_submit m" "mb_rxpost_submit m2 = mb_rxpost_submit m" "rx_pktids m2 = rx_pktids m" "work_queue m2 = work_queue m"
      by (simp_all add: m2_def mb_emit_def mb_tick_def m1)
    have nth: "nth_opt (mb_flowrings m2) (unat f) = Some (mb_ring f m)" using R(3) by (simp add: m2 mb_ring_def)
    from R(4) show thesis
    proof (cases rule: mb_reserve_cases)
      case (full w')
      define m3 where "m3 = mb_set_flowring f w' m2"
      have t: "pktids_inv (tx_pktids m3)" "pktid_of (tx_pktids m3) i = Some (s, pa, 14)" using got by (simp_all add: m3_def mb_set_flowring_def m2)
      obtain t' l' where g: "mb_get_tx i m3 = Some (Some s, mb_emit l' (m3\<lparr>tx_pktids := t'\<rparr>))" "pktids_inv t'"
        "pktid_of t' = (pktid_of (tx_pktids m3))(i := None)" by (rule mb_get_tx_Some [OF t])
      have pk: "pktid_of t' = pktid_of (tx_pktids m)" using g(3) got(2,4) m1(4) by (auto simp: m3_def mb_set_flowring_def m2 fun_eq_iff)
      let ?m = "(mb_emit l' (m3\<lparr>tx_pktids := t'\<rparr>))\<lparr>mb_flow := fl2\<rparr>"
      have mf: "mb_flow (mb_emit l' (m3\<lparr>tx_pktids := t'\<rparr>)) = fl" by (simp add: mb_emit_def m3_def mb_set_flowring_def m2)
      have "txflow_loop env f count m = Some (count, ?m)"
        by (simp only: loop got(1) m2_def [symmetric] Option.bind.simps nth full(1) prod.case option.case Let_def
            m3_def [symmetric] g(1) mf re(1) fl2_def)
      then show thesis
        by (rule stop)
          (use R fl2 dq pk g(2) full in \<open>simp_all add: tx_ready_def tx_frame_def tx_stuck_def mb_ring_def mb_emit_def m3_def mb_set_flowring_def m2 published_def\<close>)
    next
      case (slot off w')
      let ?msg = "TX_POST (mb_tx_msghdr i pa ifx (take 14 (sk_data s)) s)"
      define w2 where "w2 = mb_store off ?msg w'"
      have w2: "h2d_inv (fst w2)" "h2d_items w2 = h2d_items (mb_ring f m) @ [?msg]" using slot(2) [of ?msg] by (simp_all add: w2_def)
      define m3 where "m3 = (mb_set_flowring f w' m2)\<lparr>outstanding_tx := (outstanding_tx m)[unat f := outstanding_tx m ! unat f + 1]\<rparr>"
      have post': thesis
        if e: "txflow_loop env f count m = txflow_loop env f c (mb_set_flowring f w3 m3)" and w3: "h2d_inv (fst w3)" "h2d_items w3 = h2d_items w2"
          and c: "unat c < 96" "c = 0 \<Longrightarrow> published w3" for c w3
        by (rule post [OF e])
          (use R dq ifx got w2 w3 c in \<open>simp_all add: tx_ready_def tx_frame_def mb_ring_def mb_set_flowring_def m3_def m2 m1\<close>)
      have red: "txflow_loop env f count m = (if BRCMF_MSGBUF_TX_FLUSH_CNT2 \<le> count + 1
          then txflow_loop env f 0 (mb_set_flowring f (snd (mb_complete w2)) m3) else txflow_loop env f (count + 1) (mb_set_flowring f w2 m3))"
        unfolding loop got(1) m2_def [symmetric] using nth slot(1) R(5) read_hdr [OF hdr] ifx
        by (simp add: Let_def mb_set_flowring_def m2 m3_def w2_def nth_opt_in)
      have c1: "unat (count + 1) = unat count + 1" using cnt by (simp add: unat_word_ariths)
      show thesis
      proof (cases "BRCMF_MSGBUF_TX_FLUSH_CNT2 \<le> count + 1")
        case True
        then show thesis
          using red w2(1) h2d_commit_props [OF w2(1)] published_commit [OF w2(1)] by (intro post' [of 0 "h2d_commit w2"]) (simp_all add: mb_complete_eq)
      next
        case False
        then have "unat (count + 1) < 96" by (simp add: word_le_nat_alt)
        moreover have "count + 1 \<noteq> 0" using c1 by auto
        ultimately show thesis using False red w2 by (intro post' [of "count + 1" w2]) simp_all
      qed
    qed
  qed
qed

section \<open>A run of the loop\<close>

text \<open>The messages for the packets \<open>q\<close> under the addresses and identifiers \<open>ids\<close>, and the table's new entries.\<close>

definition tx_posts :: "u8 \<Rightarrow> (u64 \<times> u32) list \<Rightarrow> sk_buff list \<Rightarrow> h2d_msg list" where
  "tx_posts ifx ids q = map2 (\<lambda>(pa, i) s. TX_POST (mb_tx_msghdr i pa ifx (take 14 (sk_data s)) s)) ids q"

definition tx_bound :: "(u64 \<times> u32) list \<Rightarrow> sk_buff list \<Rightarrow> (u32 \<times> sk_buff \<times> u64 \<times> u16) list" where
  "tx_bound ids q = map2 (\<lambda>(pa, i) s. (i, s, pa, 14)) ids q"

lemma tx_posts_simps [simp]:
  "tx_posts ifx [] q = []"
  "tx_posts ifx ((pa, i) # ids) (s # q) = TX_POST (mb_tx_msghdr i pa ifx (take 14 (sk_data s)) s) # tx_posts ifx ids q"
  "tx_bound [] q = []"
  "tx_bound ((pa, i) # ids) (s # q) = (i, s, pa, 14) # tx_bound ids q"
  by (simp_all add: tx_posts_def tx_bound_def)

lemma fst_tx_bound: "length ids \<le> length q \<Longrightarrow> map fst (tx_bound ids q) = map snd ids"
  by (rule nth_equalityI) (auto simp: tx_bound_def split: prod.split)

text \<open>The result of a run from \<open>m\<close> that posts a prefix of \<open>q\<close> under \<open>ids\<close>.\<close>

definition tx_run :: "u16 \<Rightarrow> u8 \<Rightarrow> sk_buff list \<Rightarrow> (u64 \<times> u32) list \<Rightarrow> msgbuf \<Rightarrow> msgbuf \<Rightarrow> bool" where
  "tx_run f ifx q ids m m' \<longleftrightarrow> length ids \<le> length q \<and> tx_ready f ifx (drop (length ids) q) m'
     \<and> h2d_items (mb_ring f m') = h2d_items (mb_ring f m) @ tx_posts ifx ids q
     \<and> distinct (map snd ids) \<and> (\<forall>i \<in> snd ` set ids. pktid_of (tx_pktids m) i = None)
     \<and> pktid_of (tx_pktids m') = pktid_of (tx_pktids m) ++ map_of (tx_bound ids q)
     \<and> outstanding_tx m' ! unat f = outstanding_tx m ! unat f + of_nat (length ids) \<and> tx_frame f m m'"

lemma tx_run_Nil:
  "tx_ready f ifx q m' \<Longrightarrow> h2d_items (mb_ring f m') = h2d_items (mb_ring f m) \<Longrightarrow>
    pktid_of (tx_pktids m') = pktid_of (tx_pktids m) \<Longrightarrow> outstanding_tx m' = outstanding_tx m \<Longrightarrow> tx_frame f m m' \<Longrightarrow> tx_run f ifx q [] m m'"
  by (simp add: tx_run_def)

lemma fresh_ids:
  assumes "T' = T(q \<mapsto> v)" and "T q = None" and "\<forall>j \<in> A. T' j = None"
  shows "q \<notin> A" and "\<forall>j \<in> insert q A. T j = None"
  using assms by (auto split: if_splits)

lemma tx_run_Cons:
  assumes "tx_run f ifx q ids m' m''" and "tx_frame f m m'" and "unat f < length (outstanding_tx m)"
    and "h2d_items (mb_ring f m') = h2d_items (mb_ring f m) @ [TX_POST (mb_tx_msghdr i pa ifx (take 14 (sk_data s)) s)]"
    and "pktid_of (tx_pktids m) i = None" and "pktid_of (tx_pktids m') = (pktid_of (tx_pktids m))(i \<mapsto> (s, pa, 14))"
    and "outstanding_tx m' = (outstanding_tx m)[unat f := outstanding_tx m ! unat f + 1]"
  shows "tx_run f ifx (s # q) ((pa, i) # ids) m m''"
proof -
  note R = assms(1) [unfolded tx_run_def]
  have "\<forall>i \<in> snd ` set ids. pktid_of (tx_pktids m') i = None" using R by (elim conjE)
  note F = fresh_ids [OF assms(6,5) this]
  have i: "i \<notin> snd ` set ids" and free: "\<forall>j \<in> snd ` set ids. pktid_of (tx_pktids m) j = None" using F by simp_all
  have d: "dom (map_of (tx_bound ids q)) = snd ` set ids"
    using R by (simp add: dom_map_of_conv_image_fst flip: set_map) (metis fst_tx_bound list.set_map)
  have "pktid_of (tx_pktids m'') = pktid_of (tx_pktids m) ++ map_of (tx_bound ((pa, i) # ids) (s # q))"
    using R i d by (simp add: assms(6) map_add_upd_left)
  moreover have "tx_frame f m m''" using R assms(2) by (blast intro: tx_frame_trans)
  ultimately show ?thesis
    using R i free assms(3,4,5,7) unfolding tx_run_def by (simp add: algebra_simps)
qed

lemma txflow_loop_run:
  assumes "tx_ready f ifx q m" and "length q < 2 ^ 32" and "\<forall>s \<in> set q. 14 \<le> length (sk_data s)"
    and "unat count < 96" and "count = 0 \<longrightarrow> published (mb_ring f m)"
  shows "\<exists>ids count' m'. txflow_loop env f count m = Some (count', m') \<and> tx_run f ifx q ids m m'
    \<and> (count' = 0 \<longrightarrow> published (mb_ring f m')) \<and> (drop (length ids) q \<noteq> [] \<longrightarrow> tx_stuck env f m')"
  using assms
proof (induction q arbitrary: m count)
  case Nil
  obtain r where r: "fr_ring (mb_flow m) f = Some r" "status r = RING_OPEN" "fr_skblist r = []"
    using Nil.prems(1) by (auto simp: tx_ready_def)
  have "txflow_loop env f count m = Some (count, m)"
    using open_qlen [OF r(1,2)] r(3) by (subst txflow_loop.simps) simp
  moreover have "tx_run f ifx [] [] m m" using Nil.prems(1) by (intro tx_run_Nil) (simp_all add: tx_frame_refl)
  ultimately show ?case using Nil.prems(5) by (intro exI [of _ "[]"]) auto
next
  case (Cons s q)
  have hdr: "14 \<le> length (sk_data s)" and hdrs: "\<forall>s \<in> set q. 14 \<le> length (sk_data s)" using Cons.prems(3) by simp_all
  show ?case
  proof (cases rule: txflow_step [OF Cons.prems(1,2) hdr Cons.prems(4), of env, case_names stop post])
    case (stop m')
    have "tx_run f ifx (s # q) [] m m'" using stop by (intro tx_run_Nil)
    then show ?thesis using stop(1,7,8) Cons.prems(5) by (intro exI [of _ "[]"]) auto
  next
    case (post pa i count' m')
    have l: "length q < 2 ^ 32" using Cons.prems(2) by simp
    have c: "count' = 0 \<longrightarrow> published (mb_ring f m')" using post(9) by blast
    from Cons.IH [OF post(2) l hdrs post(8) c] obtain ids c'' m'' where
      r: "txflow_loop env f count' m' = Some (c'', m'')" "tx_run f ifx q ids m' m''"
        "c'' = 0 \<longrightarrow> published (mb_ring f m'')" "drop (length ids) q \<noteq> [] \<longrightarrow> tx_stuck env f m''" by blast
    have "unat f < length (outstanding_tx m)" using Cons.prems(1) by (simp add: tx_ready_def)
    with r(2) post(3) have "tx_run f ifx (s # q) ((pa, i) # ids) m m''" using post(4-7) by (rule tx_run_Cons)
    then show ?thesis using r post(1) by (intro exI [of _ "(pa, i) # ids"] exI [of _ c''] exI [of _ m'']) auto
  qed
qed

section \<open>Properties\<close>

text \<open>C12: A run of \<open>brcmf_msgbuf_txflow\<close> on an open flow ring, from any state in which the ring, the packet table
  and the flow rings are sound, returns and posts a prefix of the queue: the message ring receives, in queue order and
  after what it held, one transmit message per packet with its Ethernet header, length, priority, address and an
  identifier that was free; the table binds exactly these identifiers to exactly these packets; the rest of the queue
  stays in order, nothing is lost and no other ring is touched; everything posted is published to the device. Packets are
  left behind only when the message ring, the table or the mapping of a packet gave out.\<close>

theorem txflow_delivers:
  assumes ready: "tx_ready f ifx q m" and len: "length q < 2 ^ 32" and hdr: "\<forall>s \<in> set q. 14 \<le> length (sk_data s)"
  shows "\<exists>ids m'. brcmf_msgbuf_txflow env f m = Some m' \<and> tx_run f ifx q ids m m'
    \<and> (ids \<noteq> [] \<longrightarrow> published (mb_ring f m'))
    \<and> (drop (length ids) q \<noteq> [] \<longrightarrow> tx_stuck env f m'
         \<or> \<not> fst (brcmf_commonring_write_available pcie_ring_ops (fst (mb_ring f m))))"
proof -
  have R: "unat f < length (mb_flowrings m)" "h2d_inv (fst (mb_ring f m))" using ready by (simp_all add: tx_ready_def mb_ring_def)
  obtain st mem where ring: "mb_ring f m = (st, mem)" by fastforce
  obtain av st' where av: "brcmf_commonring_write_available pcie_ring_ops st = (av, st')" by (rule prod.exhaust)
  define m0 where "m0 = mb_set_flowring f (st', mem) m"
  have keeps: "h2d_inv st'" "h2d_items (st', mem) = h2d_items (mb_ring f m)"
    using write_available_ring [of st mem] R(2) by (simp_all add: ring av)
  have m0: "mb_ring f m0 = (st', mem)" "unat f < length (mb_flowrings m0)" using R(1) by (simp_all add: m0_def mb_ring_def mb_set_flowring_def)
  have ready0: "tx_ready f ifx q m0" and frame0: "tx_frame f m m0"
    using ready keeps(1) by (simp_all add: m0_def tx_ready_def tx_frame_def mb_set_flowring_def)
  have e: "brcmf_msgbuf_txflow env f m = (if \<not> av then Some m0 else do {
       (count, m) \<leftarrow> txflow_loop env f 64 m0;
       ring \<leftarrow> nth_opt (mb_flowrings m) (unat f);
       if count \<noteq> 0 then Some (mb_set_flowring f (snd (mb_complete ring)) m) else Some m })"
    using R(1) ring by (simp add: brcmf_msgbuf_txflow_def nth_opt_in mb_ring_def av m0_def)
  have same: "tx_run f ifx q ids m m' = tx_run f ifx q ids m0 m'" for ids m'
    using keeps frame0 by (simp add: tx_run_def m0 tx_frame_def) (simp add: m0_def mb_set_flowring_def)
  show ?thesis
  proof (cases av)
    case False
    have "tx_run f ifx q [] m m0"
      using ready0 frame0 keeps(2) by (intro tx_run_Nil) (simp_all add: m0(1), simp_all add: m0_def mb_set_flowring_def)
    then show ?thesis using e False by (intro exI [of _ "[]"] exI [of _ m0]) (simp add: ring av)
  next
    case True
    from txflow_loop_run [OF ready0 len hdr, of 64 env] obtain ids c m1 where
      r: "txflow_loop env f 64 m0 = Some (c, m1)" "tx_run f ifx q ids m0 m1"
        "c = 0 \<longrightarrow> published (mb_ring f m1)" "drop (length ids) q \<noteq> [] \<longrightarrow> tx_stuck env f m1" by auto
    note T = r(2) [unfolded tx_run_def]
    have f1: "unat f < length (mb_flowrings m1)" "h2d_inv (fst (mb_ring f m1))" using T by (simp_all add: tx_ready_def mb_ring_def)
    define m2 where "m2 = mb_set_flowring f (h2d_commit (mb_ring f m1)) m1"
    note C = h2d_commit_props [OF f1(2)]
    have ring2: "mb_ring f m2 = h2d_commit (mb_ring f m1)" using f1(1) by (simp add: m2_def mb_ring_def mb_set_flowring_def)
    have "brcmf_msgbuf_txflow env f m = Some (if c = 0 then m1 else m2)"
      using e True r(1) f1(1) mb_complete_eq [OF f1(2)] by (simp add: mb_ring_def m2_def nth_opt_in)
    moreover have "tx_run f ifx q ids m0 m2"
      using T C f1 by (simp add: tx_run_def ring2) (simp add: m2_def tx_ready_def tx_frame_def mb_set_flowring_def mb_ring_def)
    moreover have "tx_stuck env f m1 \<longrightarrow> tx_stuck env f m2"
      using C by (simp add: tx_stuck_def ring2) (simp add: m2_def mb_set_flowring_def)
    moreover have "published (mb_ring f m2)" unfolding ring2 by (rule published_commit [OF f1(2)])
    ultimately show ?thesis
      using r by (intro exI [of _ ids] exI [of _ "if c = 0 then m1 else m2"]) (auto simp: same)
  qed
qed

text \<open>C13: The device's transmit status for a packet bound to an identifier finalises exactly that packet as
  transmitted, once: the mapping is undone, the identifier is free again, the ring's count of outstanding packets goes
  down and the ring is marked for the scheduler; a second status for the identifier changes nothing. The flow ring number
  in the message is not checked: for a number without a ring the handler leaves its arrays.\<close>

theorem txstatus_exactly_once:
  assumes inv: "pktids_inv (tx_pktids m)" and bound: "pktid_of (tx_pktids m) i = Some (s, pa, off)"
    and buf: "msg_request_id buf = Some (i + 1)" "compl_flow_ring_id buf = Some g" "msg_ifidx buf = Some x"
    and ifp: "brcmf_get_ifp (mb_ifs m) (uint x) = Some ifp"
    and sizes: "length (outstanding_tx m) = length (mb_flowrings m)" "length (mb_flowrings m) \<le> length (txstatus_done_map m)"
  shows "(unat (g - 2) < length (mb_flowrings m) \<longrightarrow>
       (\<exists>m'. brcmf_msgbuf_process_txstatus buf m = Some m'
          \<and> mb_log m' = mb_log m @ [MbDma (DmaUnmap pa (skb_len s - unat off)), TxFinalizeIf ifp s True]
          \<and> pktid_of (tx_pktids m') = (pktid_of (tx_pktids m))(i := None) \<and> pktids_inv (tx_pktids m')
          \<and> outstanding_tx m' = (outstanding_tx m)[unat (g - 2) := outstanding_tx m ! unat (g - 2) - 1]
          \<and> txstatus_done_map m' = (txstatus_done_map m)[unat (g - 2) := True] \<and> mb_flow m' = mb_flow m
          \<and> brcmf_msgbuf_process_txstatus buf m' = Some m'))
    \<and> (length (mb_flowrings m) \<le> unat (g - 2) \<longrightarrow> brcmf_msgbuf_process_txstatus buf m = None)"
proof -
  obtain t where t: "brcmf_msgbuf_get_pktid skb_len (tx_pktids m) i = Some (Some s, t, [DmaUnmap pa (skb_len s - unat off)])"
    "pktids_inv t" "pktid_of t = (pktid_of (tx_pktids m))(i := None)"
    by (rule get_pktid_Some [OF inv bound, of skb_len])
  have g1: "mb_get_tx i m = Some (Some s, mb_emit [MbDma (DmaUnmap pa (skb_len s - unat off))] (m\<lparr>tx_pktids := t\<rparr>))"
    by (simp add: mb_get_tx_def t(1))
  have again: "mb_get_tx i m' = Some (None, m')" if "tx_pktids m' = t" for m'
  proof -
    have "m'\<lparr>tx_pktids := t\<rparr> = m'" using that by auto
    then show ?thesis using get_pktid_None [OF t(2), of i skb_len] t(3) by (simp add: mb_get_tx_def that mb_emit_def)
  qed
  have dup: "brcmf_msgbuf_process_txstatus buf m' = Some m'" if "tx_pktids m' = t" for m'
    using again [OF that] buf by (simp add: brcmf_msgbuf_process_txstatus_def)
  define m' where "m' = mb_emit [TxFinalizeIf ifp s True] ((mb_emit [MbDma (DmaUnmap pa (skb_len s - unat off))] (m\<lparr>tx_pktids := t\<rparr>))
      \<lparr>outstanding_tx := (outstanding_tx m)[unat (g - 2) := outstanding_tx m ! unat (g - 2) - 1],
       txstatus_done_map := (txstatus_done_map m)[unat (g - 2) := True]\<rparr>)"
  have "brcmf_msgbuf_process_txstatus buf m = (if unat (g - 2) < length (mb_flowrings m) then Some m' else None)"
    using g1 buf ifp sizes
    by (auto simp: brcmf_msgbuf_process_txstatus_def mb_emit_def nth_opt_in upd_opt_in m'_def nth_opt_def upd_opt_def bind_eq_None_conv Let_def)
  moreover have "tx_pktids m' = t" by (simp add: m'_def mb_emit_def)
  ultimately show ?thesis
    using dup t by (intro conjI impI exI [of _ m']) (simp_all, simp_all add: m'_def mb_emit_def)
qed

text \<open>When a packet needs a new flow ring and there is none left, or no memory for one, while the hash still has
  a free entry, \<open>brcmf_flowring_create\<close> returns \<open>-ENOMEM\<close>. The caller tests for the invalid number only, requests a
  ring with that number and queues the packet on it: \<open>brcmf_msgbuf_tx_queue_data\<close> reads the ring table out of bounds.\<close>

theorem tx_queue_exhausted:
  assumes reach: "fr_reachable (mb_del later) (mb_flow m)" and few: "unat (nrofrings (mb_flow m)) \<le> 512"
    and pkt: "14 \<le> length (sk_data skb)" "unat (ucast (sk_priority skb) :: u8) < 8" "unat (of_int ifidx :: u8) < 16"
    and miss: "brcmf_flowring_lookup (mb_flow m) (take 6 (sk_data skb)) (ucast (sk_priority skb)) (of_int ifidx) = Some BRCMF_FLOWRING_INVALID_ID"
    and alloc: "env_kzalloc env (mb_clock m)"
    and out: "\<not> env_kzalloc env (mb_clock m + 1) \<or> (\<forall>f. unat f < unat (nrofrings (mb_flow m)) \<longrightarrow> fr_ring (mb_flow m) f \<noteq> None)"
    and free: "\<exists>h \<in> set (fl_hash (mb_flow m)). fh_ifidx h = BRCMF_FLOWRING_INVALID_IFIDX"
  shows "brcmf_msgbuf_tx_queue_data env ifidx skb m = None"
proof -
  let ?da = "take 6 (sk_data skb)" and ?prio = "ucast (sk_priority skb) :: u8" and ?ifx = "of_int ifidx :: u8"
  let ?alloc = "env_kzalloc env (mb_clock m + 1)"
  note inv = fr_reachable_inv [OF reach mb_del_ok]
  have da: "length ?da = 6" using pkt(1) by simp
  obtain sta mac fifo i where k: "fr_key (mb_flow m) ?da ?prio ?ifx = Some (sta, mac, fifo, i)" "unat i < 512"
    using fr_key_inv [OF inv da pkt(2,3)] by metis
  have c: "brcmf_flowring_create ?alloc (mb_flow m) ?da ?prio ?ifx = Some (-12, mb_flow m)"
  proof (cases rule: create_cases [OF inv k ifidx_small_valid [OF pkt(3)], of ?alloc, case_names no_hash no_ring made])
    case no_hash
    then show ?thesis using free invD(1) [OF inv] by (auto simp: in_set_conv_nth)
  next
    case no_ring
    then show ?thesis by simp
  next
    case (made f idx)
    then show ?thesis using out by auto
  qed
  have r: "read_bytes (sk_data skb) 0 6 = Some ?da" "read_bytes (sk_data skb) 6 6 = Some (take 6 (drop 6 (sk_data skb)))"
    using pkt(1) by (simp_all add: read_bytes_def)
  have mk: "\<exists>m'. brcmf_msgbuf_flowring_create env ifidx skb m = Some (-12, m') \<and> mb_flow m' = mb_flow m"
    using alloc c r by (simp add: brcmf_msgbuf_flowring_create_def mb_tick_def mb_emit_def)
  have "unat (ucast (- 12 :: u32) :: u16) = 65524" by simp
  then have "fr_ring (mb_flow m) (ucast (- 12 :: u32)) = None"
    using few invD(2) [OF inv] by (simp add: fr_ring_def fr_ptr_def nth_opt_def)
  then have "brcmf_flowring_enqueue (mb_flow m) (ucast (- 12 :: u32)) skb = None" by (rule no_ring_None)
  then show ?thesis using mk miss r by (auto simp: brcmf_msgbuf_tx_queue_data_def)
qed

section \<open>A concrete state\<close>

text \<open>A device with two flow rings, a ring created for the destination below, and one packet.\<close>

definition mbring_ex :: "pcie_ring cr_state" where
  "mbring_ex = brcmf_commonring_config pcie_ring_ops 512 48
     (\<lparr>r_ptr = 0, w_ptr = 0, f_ptr = 0, depth = 0, item_len = 0, inited = False, was_full = False\<rparr>, shm_ex)"

definition mb_bus_ex :: brcmf_bus_msgbuf where
  "mb_bus_ex = \<lparr>bm_ctl_submit = (mbring_ex, \<lambda>_. rx_bufpost_zero), bm_rxpost_submit = (mbring_ex, \<lambda>_. rx_bufpost_zero),
     bm_rx_complete = (mbring_ex, \<lambda>_. []), bm_tx_complete = (mbring_ex, \<lambda>_. []), bm_ctl_complete = (mbring_ex, \<lambda>_. []),
     bm_flowrings = [(mbring_ex, \<lambda>_. rx_bufpost_zero), (mbring_ex, \<lambda>_. rx_bufpost_zero)], bm_max_flowrings = 2,
     bm_rx_dataoffset = 0, bm_max_rxbufpost = 4, bm_bus_up = True\<rparr>"

definition mb_ex :: msgbuf where
  "mb_ex = msgbuf_init mb_bus_ex \<lparr>if2bss = replicate 16 0, iflist = [Some \<lparr>if_bsscfgidx = 0, if_ndev = True\<rparr>]\<rparr> 0x10000"

definition env_ex :: mb_env where
  "env_ex = \<lparr>env_kzalloc = (\<lambda>_. True), env_skb = (\<lambda>_. True), env_map = Some \<circ> of_nat, env_coherent = Some \<circ> of_nat\<rparr>"

definition skb_ex :: sk_buff where
  "skb_ex = \<lparr>sk_data = [2, 0, 0, 0, 0, 1] @ replicate 58 7, sk_headroom = 0, ip_summed = CHECKSUM_NONE, sk_priority = 5\<rparr>"

lemma mbring_ex_inv: "h2d_inv mbring_ex"
  unfolding mbring_ex_def by (rule config_h2d) (simp_all add: shm_ex_def)

lemma pktids_inv_fresh:
  "pktids_inv \<lparr>array_size = 2048, last_allocated_idx = 0,
     pk_array = replicate 2048 \<lparr>allocated = False, data_offset = 0, pk_skb = None, pk_physaddr = 0\<rparr>\<rparr>"
  by (simp add: pktids_inv_def)

lemma mb_ex_simps:
  "mb_flow mb_ex = brcmf_flowring_attach 2" "mb_clock mb_ex = 0" "pktids_inv (tx_pktids mb_ex)" "pktids_inv (rx_pktids mb_ex)"
  "mb_flowrings mb_ex = [(mbring_ex, \<lambda>_. rx_bufpost_zero), (mbring_ex, \<lambda>_. rx_bufpost_zero)]"
  "mb_ctl_submit mb_ex = (mbring_ex, \<lambda>_. rx_bufpost_zero)" "mb_rxpost_submit mb_ex = (mbring_ex, \<lambda>_. rx_bufpost_zero)"
  "outstanding_tx mb_ex = [0, 0]" "length (txstatus_done_map mb_ex) = 64" "rx_metadata_offset mb_ex = 0"
  "mb_ifs mb_ex = \<lparr>if2bss = replicate 16 0, iflist = [Some \<lparr>if_bsscfgidx = 0, if_ndev = True\<rparr>]\<rparr>"
  "mb_log mb_ex = []"
  by (simp_all add: mb_ex_def msgbuf_init_def mb_bus_ex_def Let_def pktids_inv_fresh)

theorem tx_queue_exhausted_witness:
  "brcmf_msgbuf_tx_queue_data \<lparr>env_kzalloc = (\<lambda>t. t = 0), env_skb = (\<lambda>_. True), env_map = Some \<circ> of_nat, env_coherent = Some \<circ> of_nat\<rparr>
     0 skb_ex mb_ex = None"
proof -
  have miss: "brcmf_flowring_lookup (mb_flow mb_ex) (take 6 (sk_data skb_ex)) (ucast (sk_priority skb_ex)) (of_int 0)
      = Some BRCMF_FLOWRING_INVALID_ID"
    by (simp add: mb_ex_simps(1), rule empty_lookup [OF attach_inv]) (simp_all add: skb_ex_def brcmf_flowring_attach_def)
  have n: "nrofrings (mb_flow mb_ex) = 2" "fl_hash (mb_flow mb_ex)
      = replicate 512 \<lparr>fh_mac = zero_mac, fh_fifo = 0, fh_ifidx = BRCMF_FLOWRING_INVALID_IFIDX, fh_flowid = 0\<rparr>"
    by (simp_all add: mb_ex_simps brcmf_flowring_attach_def)
  show ?thesis
    by (rule tx_queue_exhausted [where later = "\<lambda>_ n. n", OF _ _ _ _ _ miss])
      (simp_all add: n mb_ex_simps(2) skb_ex_def, simp_all add: mb_ex_simps(1) fr_attach)
qed

theorem txflow_delivers_witness:
  "\<exists>m ifx env ids m'. tx_ready 0 ifx [skb_ex] m \<and> brcmf_msgbuf_txflow env 0 m = Some m' \<and> tx_run 0 ifx [skb_ex] ids m m'"
proof -
  obtain fl :: "sk_buff flowring" and r where fl: "fr_ring fl 0 = Some r" "fr_reachable close_del fl" using attach_create by blast
  let ?r = "r\<lparr>fr_skblist := [skb_ex], status := RING_OPEN\<rparr>"
  let ?m = "mb_ex\<lparr>mb_flow := fr_set_ring 0 ?r fl\<rparr>"
  have inv: "flowring_inv (fr_set_ring 0 ?r fl)" by (rule set_ring_inv [OF fr_reachable_inv [OF fl(2) close_del_ok] fl(1)]) simp
  have ring: "fr_ring (fr_set_ring 0 ?r fl) 0 = Some ?r" by (rule fr_ring_set(1) [OF fl(1)])
  obtain ifx where ifx: "brcmf_flowring_ifidx_get (fr_set_ring 0 ?r fl) 0 = Some ifx" using ifidx_get_eq [OF inv ring] by blast
  have ready: "tx_ready 0 ifx [skb_ex] ?m"
    using inv ring ifx by (simp add: tx_ready_def mb_ex_simps mbring_ex_inv)
  have hdr: "\<forall>s \<in> set [skb_ex]. 14 \<le> length (sk_data s)" by (simp add: skb_ex_def)
  have "length [skb_ex] < 2 ^ 32" by simp
  from txflow_delivers [OF ready this hdr] ready show ?thesis by blast
qed

theorem txstatus_exactly_once_witness:
  "\<exists>m'. brcmf_msgbuf_process_txstatus ([0x10, 0, 0, 0] @ le32 1 @ le16 0 @ le16 3)
      (mb_ex\<lparr>tx_pktids := \<lparr>array_size = 1, last_allocated_idx = 0,
         pk_array = [\<lparr>allocated = True, data_offset = 14, pk_skb = Some skb_ex, pk_physaddr = 0x1000\<rparr>]\<rparr>\<rparr>) = Some m'
     \<and> mb_log m' = [MbDma (DmaUnmap 0x1000 50), TxFinalizeIf (Some \<lparr>if_bsscfgidx = 0, if_ndev = True\<rparr>) skb_ex True]"
proof -
  let ?t = "\<lparr>array_size = 1, last_allocated_idx = 0,
     pk_array = [\<lparr>allocated = True, data_offset = 14, pk_skb = Some skb_ex, pk_physaddr = 0x1000\<rparr>]\<rparr>"
  let ?m = "mb_ex\<lparr>tx_pktids := ?t\<rparr>" and ?buf = "[0x10, 0, 0, 0] @ le32 1 @ le16 0 @ le16 3 :: u8 list"
  have inv: "pktids_inv (tx_pktids ?m)" by (simp add: pktids_inv_def)
  have bound: "pktid_of (tx_pktids ?m) 0 = Some (skb_ex, 0x1000, 14)" by (simp add: pktid_of_def nth_opt_def)
  have buf: "msg_request_id ?buf = Some (0 + 1)" "compl_flow_ring_id ?buf = Some 3" "msg_ifidx ?buf = Some 0"
    by (simp_all add: msg_request_id_def compl_flow_ring_id_def msg_ifidx_def get_le32_def get_le16_def nth_opt_def le32_def le16_def
        of_le32_def of_le16_def)
  have ifp: "brcmf_get_ifp (mb_ifs ?m) (uint (0 :: u8)) = Some (Some \<lparr>if_bsscfgidx = 0, if_ndev = True\<rparr>)"
    by (simp add: brcmf_get_ifp_def mb_ex_simps nth_opt_def)
  have sizes: "length (outstanding_tx ?m) = length (mb_flowrings ?m)" "length (mb_flowrings ?m) \<le> length (txstatus_done_map ?m)"
    by (simp_all add: mb_ex_simps)
  have in_range: "unat (3 - 2 :: u16) < length (mb_flowrings ?m)" by (simp add: mb_ex_simps)
  from txstatus_exactly_once [OF inv bound buf ifp sizes] in_range obtain m' where
    "brcmf_msgbuf_process_txstatus ?buf ?m = Some m'"
    "mb_log m' = mb_log ?m @ [MbDma (DmaUnmap 0x1000 (skb_len skb_ex - unat (14 :: u16))), TxFinalizeIf (Some \<lparr>if_bsscfgidx = 0, if_ndev = True\<rparr>) skb_ex True]"
    by blast
  moreover have "skb_len skb_ex = 64" by (simp add: skb_len_def skb_ex_def)
  ultimately show ?thesis by (simp add: mb_ex_simps)
qed

end
