(* ===== verification/MsgbufRx.thy ===== *)
theory MsgbufRx
  imports MsgbufTx
begin

text \<open>
  Reception over the message buffer protocol: reading a completion ring to its end, feeding the device with
  receive buffers, and control requests with their replies.
\<close>

section \<open>Reading a completion ring\<close>

text \<open>The handler applied to the items in order; \<^const>\<open>None\<close> as soon as it is undefined.\<close>

fun handle_all :: "('a \<Rightarrow> 's \<Rightarrow> 's option) \<Rightarrow> 'a list \<Rightarrow> 's \<Rightarrow> 's option" where
  "handle_all handle [] s = Some s"
| "handle_all handle (x # xs) s = do { s \<leftarrow> handle x s; handle_all handle xs s }"

lemma handle_all_append: "handle_all handle (xs @ ys) s = do { s \<leftarrow> handle_all handle xs s; handle_all handle ys s }"
proof (induction xs arbitrary: s)
  case (Cons x xs)
  then show ?case by (cases "handle x s") simp_all
qed simp

lemma pcie_same [simp]: "x\<lparr>r_idx := r_idx x\<rparr> = (x :: pcie_ring)" "cr\<lparr>r_ptr := r_ptr cr\<rparr> = (cr :: commonring)"
  by simp_all

text \<open>The items of a contiguous run of slots.\<close>

definition run_items :: "(int \<Rightarrow> 'a) \<Rightarrow> nat \<Rightarrow> int \<Rightarrow> nat \<Rightarrow> 'a list" where
  "run_items mem len p n = map (\<lambda>i. mem (p + int (i * len))) [0..<n]"

lemma run_items_simps [simp]:
  "run_items mem len p 0 = []"
  "run_items mem len p (Suc n) = mem p # run_items mem len (p + int len) n"
proof -
  show "run_items mem len p 0 = []" by (simp add: run_items_def)
  show "run_items mem len p (Suc n) = mem p # run_items mem len (p + int len) n"
    by (simp add: run_items_def upt_conv_Cons map_Suc_upt [symmetric] algebra_simps del: upt_Suc)
qed

lemma run_items_slots: "a + n \<le> d \<Longrightarrow> run_items mem len (int (a * len)) n = slots mem len d a n"
  by (auto simp: run_items_def slots_def algebra_simps)

lemma slots_split: "slots mem len d a (n + k) = slots mem len d a n @ slots mem len d ((a + n) mod d) k"
  by (rule nth_equalityI) (auto simp: slots_def nth_append mod_add_left_eq add.assoc)

text \<open>The inner loop: the slots given back so far and those still owed add up.\<close>

lemma process_rx_items_run:
  assumes "pcie_up x" and "r_idx x = r_ptr cr" and "unat P < 48" and "r_ptr cr < depth cr"
    and "unat (r_ptr cr) + unat P + n \<le> unat (depth cr)"
  shows "\<exists>P' R'. process_rx_items handle n P p (((cr, x), mem), s)
       = map_option (\<lambda>s'. (P', ((cr\<lparr>r_ptr := R'\<rparr>, x\<lparr>r_idx := R'\<rparr>), mem), s')) (handle_all handle (run_items mem (unat (item_len cr)) p n) s)
     \<and> R' < depth cr \<and> unat P' < 48
     \<and> (unat R' + unat P' = unat (r_ptr cr) + unat P + n
        \<or> unat (r_ptr cr) + unat P + n = unat (depth cr) \<and> R' = 0 \<and> P' = 0)"
  using assms
proof (induction n arbitrary: P p cr x s)
  case 0
  have "x\<lparr>r_idx := r_ptr cr\<rparr> = x" using "0.prems"(2) pcie_same(1) [of x] by simp
  then show ?case using "0.prems" by (intro exI [of _ P] exI [of _ "r_ptr cr"]) simp
next
  case (Suc n)
  have P1: "unat (P + 1) = unat P + 1" using Suc.prems(3) by (simp add: unat_word_ariths)
  show ?case
  proof (cases "handle (mem p) s")
    case None
    have "\<exists>P' R'. R' < depth cr \<and> unat P' < 48 \<and> (unat R' + unat P' = unat (r_ptr cr) + unat P + Suc n
        \<or> unat (r_ptr cr) + unat P + Suc n = unat (depth cr) \<and> R' = 0 \<and> P' = (0 :: u16))"
    proof (cases "unat (r_ptr cr) + unat P + Suc n = unat (depth cr)")
      case True
      then show ?thesis using Suc.prems(4) by (intro exI [of _ 0] exI [of _ "0 :: u16"]) (auto simp: word_less_nat_alt)
    next
      case False
      then have "unat (r_ptr cr) + unat P + Suc n < unat (depth cr)" using Suc.prems(5) by simp
      then show ?thesis using unat_widths_less(2) [of "depth cr"]
        by (intro exI [of _ 0] exI [of _ "of_nat (unat (r_ptr cr) + unat P + Suc n) :: u16"])
          (simp add: word_less_nat_alt unat_of_nat take_bit_nat_eq_self del: of_nat_add of_nat_Suc)
    qed
    then show ?thesis using None by auto
  next
    case (Some s1)
    show ?thesis
    proof (cases "P + 1 = 48")
      case False
      then have "unat (P + 1) \<noteq> 48" by (auto simp: word_unat_eq_iff)
      then have "unat (P + 1) < 48" using P1 Suc.prems(3) by linarith
      then show ?thesis
        using Suc.IH [of x cr "P + 1" "p + int (unat (item_len cr))" s1] Suc.prems False Some P1 by simp
    next
      case True
      then have P: "unat P = 47" using P1 by simp
      let ?R = "if r_ptr cr + 48 = depth cr then 0 else r_ptr cr + 48"
      have rc: "snd (brcmf_commonring_read_complete pcie_ring_ops 48 (cr, x)) = (cr\<lparr>r_ptr := ?R\<rparr>, x\<lparr>r_idx := ?R\<rparr>)"
        using Suc.prems(1) by (simp add: read_complete_pcie Let_def)
      have w: "unat (r_ptr cr + 48) = unat (r_ptr cr) + 48"
        using Suc.prems(5) P unat_widths_less(2) [of "depth cr"] by (simp add: unat_word_ariths)
      show ?thesis
      proof (cases "r_ptr cr + 48 = depth cr")
        case wrap: True
        then have d: "unat (depth cr) = unat (r_ptr cr) + 48" using w by simp
        then have "n = 0" using Suc.prems(5) P by simp
        then show ?thesis
          using Some True wrap rc Suc.prems(4) d P by (intro exI [of _ 0] exI [of _ "0 :: u16"]) (auto simp: word_less_nat_alt)
      next
        case nowrap: False
        have "unat (r_ptr cr + 48) \<le> unat (depth cr)" using w Suc.prems(5) P by linarith
        then have lt: "r_ptr cr + 48 < depth cr" using nowrap by (simp add: word_less_nat_alt order_le_less word_unat_eq_iff)
        have "\<exists>P' R'. process_rx_items handle n 0 (p + int (unat (item_len cr))) (((cr\<lparr>r_ptr := r_ptr cr + 48\<rparr>, x\<lparr>r_idx := r_ptr cr + 48\<rparr>), mem), s1)
            = map_option (\<lambda>s'. (P', ((cr\<lparr>r_ptr := R'\<rparr>, x\<lparr>r_idx := R'\<rparr>), mem), s'))
                (handle_all handle (run_items mem (unat (item_len cr)) (p + int (unat (item_len cr))) n) s1)
          \<and> R' < depth cr \<and> unat P' < 48
          \<and> (unat R' + unat P' = unat (r_ptr cr) + 48 + n \<or> unat (r_ptr cr) + 48 + n = unat (depth cr) \<and> R' = 0 \<and> P' = 0)"
          using Suc.IH [of "x\<lparr>r_idx := r_ptr cr + 48\<rparr>" "cr\<lparr>r_ptr := r_ptr cr + 48\<rparr>" 0 "p + int (unat (item_len cr))" s1]
            Suc.prems P w lt by simp
        moreover have "unat (r_ptr cr) + unat P + Suc n = unat (r_ptr cr) + 48 + n" using P by simp
        ultimately show ?thesis using nowrap Some True rc by (simp add: ac_simps)
      qed
    qed
  qed
qed

text \<open>One round: the run from the read index to the published write index, or to the end of the buffer.\<close>

lemma process_rx_round:
  assumes inv: "d2h_inv (cr, x) (w_idx x)" and ne: "w_idx x \<noteq> r_ptr cr"
  defines "R \<equiv> if r_ptr cr \<le> w_idx x then w_idx x else 0"
  defines "n \<equiv> unat (if r_ptr cr \<le> w_idx x then w_idx x - r_ptr cr else depth cr - r_ptr cr)"
  shows "process_rx_again handle (((cr, x), mem), s) = do {
     s' \<leftarrow> handle_all handle (slots mem (unat (item_len cr)) (unat (depth cr)) (unat (r_ptr cr)) n) s;
     let w' = ((cr\<lparr>w_ptr := w_idx x, r_ptr := R\<rparr>, x\<lparr>r_idx := R\<rparr>), mem);
     if R = 0 then process_rx_again handle (w', s') else Some (w', s') }"
    and "(unat (r_ptr cr) + n) mod unat (depth cr) = unat R"
    and "cr_gap (unat (depth cr)) (unat (r_ptr cr)) (unat (w_idx x)) = n + cr_gap (unat (depth cr)) (unat R) (unat (w_idx x))"
proof -
  note lt = d2h_ok_lt [OF inv]
  have n: "n = (if r_ptr cr \<le> w_idx x then unat (w_idx x) - unat (r_ptr cr) else unat (depth cr) - unat (r_ptr cr))"
    using lt unfolding n_def by (auto simp: unat_sub word_le_nat_alt word_less_nat_alt)
  have rn: "unat (r_ptr cr) + n = (if r_ptr cr \<le> w_idx x then unat (w_idx x) else unat (depth cr))"
    using lt unfolding n by (auto simp: word_le_nat_alt)
  let ?cr = "cr\<lparr>w_ptr := w_idx x\<rparr>"
  have up: "pcie_up x" and rx: "r_idx x = r_ptr ?cr" using inv by simp_all
  have z: "unat (0 :: u16) < 48" and rd: "r_ptr ?cr < depth ?cr" using inv by simp_all
  have le: "unat (r_ptr ?cr) + unat (0 :: u16) + n \<le> unat (depth ?cr)" using rn lt by auto
  obtain P R' where it: "process_rx_items handle n 0 (int (unat (r_ptr cr) * unat (item_len cr))) (((?cr, x), mem), s)
       = map_option (\<lambda>s'. (P, ((?cr\<lparr>r_ptr := R'\<rparr>, x\<lparr>r_idx := R'\<rparr>), mem), s'))
           (handle_all handle (run_items mem (unat (item_len ?cr)) (int (unat (r_ptr cr) * unat (item_len cr))) n) s)"
    and R': "R' < depth cr" "unat P < 48"
      "unat R' + unat P = unat (r_ptr cr) + n \<or> unat (r_ptr cr) + n = unat (depth cr) \<and> R' = 0 \<and> P = 0"
    using process_rx_items_run [OF up rx z rd le, of handle "int (unat (r_ptr cr) * unat (item_len cr))" mem s] by auto
  have run: "run_items mem (unat (item_len ?cr)) (int (unat (r_ptr cr) * unat (item_len cr))) n
      = slots mem (unat (item_len cr)) (unat (depth cr)) (unat (r_ptr cr)) n"
  proof -
    have "unat (r_ptr cr) + n \<le> unat (depth cr)" using le by simp
    from run_items_slots [OF this] have "run_items mem (unat (item_len cr)) (int (unat (r_ptr cr) * unat (item_len cr))) n
      = slots mem (unat (item_len cr)) (unat (depth cr)) (unat (r_ptr cr)) n" .
    then show ?thesis by (simp del: of_nat_mult)
  qed
  have fin: "(if P \<noteq> 0 then snd (brcmf_commonring_read_complete pcie_ring_ops P (?cr\<lparr>r_ptr := R'\<rparr>, x\<lparr>r_idx := R'\<rparr>))
        else (?cr\<lparr>r_ptr := R'\<rparr>, x\<lparr>r_idx := R'\<rparr>)) = (?cr\<lparr>r_ptr := R\<rparr>, x\<lparr>r_idx := R\<rparr>)"
  proof (cases "P = 0")
    case True
    then have "R' = R" using R' rn lt by (auto simp: R_def word_less_nat_alt word_unat_eq_iff split: if_splits)
    then show ?thesis using True by simp
  next
    case False
    then have s: "unat R' + unat P = (if r_ptr cr \<le> w_idx x then unat (w_idx x) else unat (depth cr))" using R'(3) rn by auto
    have "unat (R' + P) = unat R' + unat P"
      using s lt unat_widths_less(2) [of "depth cr"] by (auto simp: unat_word_ariths split: if_splits)
    then have "R' + P = (if r_ptr cr \<le> w_idx x then w_idx x else depth cr)" using s by (simp add: word_unat_eq_iff split: if_splits)
    moreover have "w_idx x \<noteq> depth cr" using lt by auto
    ultimately show ?thesis using False up by (auto simp: read_complete_pcie Let_def R_def)
  qed
  have g: "brcmf_commonring_get_read_ptr pcie_ring_ops (cr, x) = ((Some (int (unat (r_ptr cr) * unat (item_len cr))),
      if r_ptr cr \<le> w_idx x then w_idx x - r_ptr cr else depth cr - r_ptr cr), (?cr, x))"
    using get_read_ptr_pcie [OF inv] ne by simp
  have e: "process_rx_again handle (((cr, x), mem), s) = do {
       (processed, ring, s) \<leftarrow> process_rx_items handle n 0 (int (unat (r_ptr cr) * unat (item_len cr))) (((?cr, x), mem), s);
       let ring = (if processed \<noteq> 0
                   then (snd (brcmf_commonring_read_complete pcie_ring_ops processed (fst ring)), snd ring) else ring);
       if r_ptr (fst (fst ring)) = 0 then process_rx_again handle (ring, s) else Some (ring, s) }"
    by (subst process_rx_again.simps) (simp only: Let_def prod.case g option.case n_def [symmetric])
  show "process_rx_again handle (((cr, x), mem), s) = do {
     s' \<leftarrow> handle_all handle (slots mem (unat (item_len cr)) (unat (depth cr)) (unat (r_ptr cr)) n) s;
     let w' = ((cr\<lparr>w_ptr := w_idx x, r_ptr := R\<rparr>, x\<lparr>r_idx := R\<rparr>), mem);
     if R = 0 then process_rx_again handle (w', s') else Some (w', s') }"
  proof (cases "handle_all handle (slots mem (unat (item_len cr)) (unat (depth cr)) (unat (r_ptr cr)) n) s")
    case None
    then show ?thesis unfolding e it run by simp
  next
    case (Some s')
    show ?thesis unfolding e it run using fin by (cases "P = 0") (simp_all add: Some Let_def)
  qed
  show "(unat (r_ptr cr) + n) mod unat (depth cr) = unat R" using rn lt by (simp add: R_def)
  show "cr_gap (unat (depth cr)) (unat (r_ptr cr)) (unat (w_idx x)) = n + cr_gap (unat (depth cr)) (unat R) (unat (w_idx x))"
    using lt rn n by (auto simp: cr_gap_def R_def word_le_nat_alt)
qed

text \<open>The \<open>goto again\<close> is taken at most once: after a wrapped first round the second starts at slot 0.\<close>

lemma process_rx_all_ring:
  assumes inv: "d2h_inv (cr, x) (w_idx x)"
  shows "\<exists>cr'. process_rx_again handle (((cr, x), mem), s)
      = map_option (\<lambda>s'. (((cr', x\<lparr>r_idx := w_idx x\<rparr>), mem), s')) (handle_all handle (d2h_items (((cr, x), mem), w_idx x)) s)
    \<and> d2h_inv (cr', x\<lparr>r_idx := w_idx x\<rparr>) (w_idx x) \<and> d2h_items (((cr', x\<lparr>r_idx := w_idx x\<rparr>), mem), w_idx x) = []
    \<and> d2h_cap (((cr', x\<lparr>r_idx := w_idx x\<rparr>), mem), w_idx x) = d2h_cap (((cr, x), mem), w_idx x)"
proof -
  let ?d = "unat (depth cr)" and ?len = "unat (item_len cr)"
  have end_ok: "d2h_inv (cr\<lparr>w_ptr := w_idx x, r_ptr := w_idx x\<rparr>, x\<lparr>r_idx := w_idx x\<rparr>) (w_idx x)"
    "d2h_items (((cr\<lparr>w_ptr := w_idx x, r_ptr := w_idx x\<rparr>, x\<lparr>r_idx := w_idx x\<rparr>), mem), w_idx x) = []"
    "d2h_cap (((cr\<lparr>w_ptr := w_idx x, r_ptr := w_idx x\<rparr>, x\<lparr>r_idx := w_idx x\<rparr>), mem), w_idx x) = d2h_cap (((cr, x), mem), w_idx x)"
    using inv by (auto simp: d2h_items_def slots_def d2h_cap_def ring_cap_def word_less_nat_alt)
  have empty: "process_rx_again handle (((c, y), mem), s') = Some (((c\<lparr>w_ptr := w_idx y\<rparr>, y), mem), s')"
    if "d2h_inv (c, y) (w_idx y)" "w_idx y = r_ptr c" for c y s'
    using get_read_ptr_pcie [OF that(1)] that(2) by (subst process_rx_again.simps) simp
  show ?thesis
  proof (cases "w_idx x = r_ptr cr")
    case True
    have "x\<lparr>r_idx := r_ptr cr\<rparr> = x" using inv pcie_same(1) [of x] by simp
    moreover have "cr\<lparr>w_ptr := w_idx x, r_ptr := w_idx x\<rparr> = cr\<lparr>w_ptr := w_idx x\<rparr>" using True by simp
    ultimately show ?thesis
      using end_ok empty [OF inv True] True
      by (intro exI [of _ "cr\<lparr>w_ptr := w_idx x\<rparr>"]) (simp add: d2h_items_def slots_def d2h_cap_def ring_cap_def)
  next
    case ne: False
    define R where "R = (if r_ptr cr \<le> w_idx x then w_idx x else 0)"
    define n where "n = unat (if r_ptr cr \<le> w_idx x then w_idx x - r_ptr cr else depth cr - r_ptr cr)"
    note r1 = process_rx_round(1) [OF inv ne, of handle mem s, folded R_def n_def]
    note r2 = process_rx_round(2,3) [OF inv ne, folded R_def n_def]
    have items: "d2h_items (((cr, x), mem), w_idx x)
      = slots mem ?len ?d (unat (r_ptr cr)) n @ slots mem ?len ?d (unat R) (cr_gap ?d (unat R) (unat (w_idx x)))"
      using r2 by (simp add: d2h_items_def slots_split)
    let ?c = "cr\<lparr>w_ptr := w_idx x, r_ptr := R\<rparr>" and ?y = "x\<lparr>r_idx := R\<rparr>"
    have inv': "d2h_inv (?c, ?y) (w_idx ?y)" using inv d2h_ok_lt [OF inv] cr_gap_less [of "unat R" ?d "unat (w_idx x)"]
      by (auto simp: R_def word_less_nat_alt)
    show ?thesis
    proof (cases "R = 0")
      case False
      then have Rw: "R = w_idx x" by (auto simp: R_def split: if_splits)
      then have "d2h_items (((cr, x), mem), w_idx x) = slots mem ?len ?d (unat (r_ptr cr)) n" unfolding items by (simp add: slots_def)
      then show ?thesis using r1 end_ok False unfolding Rw
        by (intro exI [of _ "cr\<lparr>w_ptr := w_idx x, r_ptr := w_idx x\<rparr>"])
          (cases "handle_all handle (d2h_items (((cr, x), mem), w_idx x)) s"; simp)
    next
      case R0: True
      have two: "process_rx_again handle (((?c, ?y), mem), s')
        = map_option (\<lambda>s'. (((cr\<lparr>w_ptr := w_idx x, r_ptr := w_idx x\<rparr>, x\<lparr>r_idx := w_idx x\<rparr>), mem), s'))
            (handle_all handle (slots mem ?len ?d (unat R) (cr_gap ?d (unat R) (unat (w_idx x)))) s')" for s'
      proof (cases "w_idx x = 0")
        case True
        then show ?thesis using empty [OF inv'] R0 by (simp add: slots_def)
      next
        case False
        then show ?thesis using process_rx_round(1) [OF inv', of handle mem s'] R0
          by (cases "handle_all handle (slots mem ?len ?d 0 (unat (w_idx x))) s'") (simp_all add: cr_gap_def Let_def)
      qed
      show ?thesis
        using r1 end_ok two R0
        by (intro exI [of _ "cr\<lparr>w_ptr := w_idx x, r_ptr := w_idx x\<rparr>"])
          (cases "handle_all handle (slots mem ?len ?d (unat (r_ptr cr)) n) s"; simp add: items handle_all_append)
    qed
  qed
qed

section \<open>Feeding receive buffers\<close>

text \<open>A buffer fresh from the allocator.\<close>

definition fresh_skb :: "nat \<Rightarrow> sk_buff" where
  "fresh_skb sz = \<lparr>sk_data = replicate sz 0, sk_headroom = 0, ip_summed = CHECKSUM_NONE, sk_priority = 0\<rparr>"

lemma skb_len_fresh [simp]: "skb_len (fresh_skb sz) = sz"
  by (simp add: skb_len_def fresh_skb_def)

lemma mb_alloc_rx_cases [consumes 1, case_names fail got]:
  assumes "pktids_inv (rx_pktids m)"
  obtains (fail) l where "mb_alloc_rx env skb m = Some (None, mb_emit l (mb_tick m))"
  | (got) pa i t l where "mb_alloc_rx env skb m = Some (Some (pa, i), mb_emit l (mb_tick (m\<lparr>rx_pktids := t\<rparr>)))"
      "pktid_of (rx_pktids m) i = None" "pktids_inv t" "pktid_of t = (pktid_of (rx_pktids m))(i \<mapsto> (skb, pa, 0))"
  using assms
proof (cases rule: alloc_pktid_cases [where mp = "env_map env (mb_clock m)" and skb = skb and len = "skb_len skb" and off = 0])
  case unmapped
  then show thesis by (intro fail [of "[]"]) (simp add: mb_alloc_rx_def)
next
  case (full pa)
  then show thesis
    by (intro fail [of "map MbDma [DmaMap pa (skb_len skb), DmaUnmap pa (skb_len skb)]"]) (simp add: mb_alloc_rx_def)
next
  case (fresh pa i t')
  then show thesis
    by (intro got [of pa i "map MbDma [DmaMap pa (skb_len skb)]" t']) (simp_all add: mb_alloc_rx_def)
qed

text \<open>What feeding a ring leaves alone.\<close>

definition rx_frame :: "msgbuf \<Rightarrow> msgbuf \<Rightarrow> bool" where
  "rx_frame m m' \<longleftrightarrow> m'\<lparr>rx_pktids := rx_pktids m, mb_clock := mb_clock m, mb_log := mb_log m\<rparr> = m"

lemma rx_frame_sel:
  assumes "rx_frame m m'"
  shows "mb_ctl_submit m' = mb_ctl_submit m" "mb_rxpost_submit m' = mb_rxpost_submit m" "rxbufpost m' = rxbufpost m"
    "max_rxbufpost m' = max_rxbufpost m" "rx_metadata_offset m' = rx_metadata_offset m" "mb_flow m' = mb_flow m"
    "tx_pktids m' = tx_pktids m" "mb_flowrings m' = mb_flowrings m"
proof -
  note eq = assms [unfolded rx_frame_def]
  show "mb_ctl_submit m' = mb_ctl_submit m" using arg_cong [OF eq, of mb_ctl_submit] by simp
  show "mb_rxpost_submit m' = mb_rxpost_submit m" using arg_cong [OF eq, of mb_rxpost_submit] by simp
  show "rxbufpost m' = rxbufpost m" using arg_cong [OF eq, of rxbufpost] by simp
  show "max_rxbufpost m' = max_rxbufpost m" using arg_cong [OF eq, of max_rxbufpost] by simp
  show "rx_metadata_offset m' = rx_metadata_offset m" using arg_cong [OF eq, of rx_metadata_offset] by simp
  show "mb_flow m' = mb_flow m" using arg_cong [OF eq, of mb_flow] by simp
  show "tx_pktids m' = tx_pktids m" using arg_cong [OF eq, of tx_pktids] by simp
  show "mb_flowrings m' = mb_flowrings m" using arg_cong [OF eq, of mb_flowrings] by simp
qed

lemma rx_frame_refl: "rx_frame m m"
  by (simp add: rx_frame_def)

lemma rx_frame_tick: "rx_frame m m' \<Longrightarrow> rx_frame m (mb_tick m')"
  by (auto simp: rx_frame_def mb_tick_def)

lemma rx_frame_emit: "rx_frame m m' \<Longrightarrow> rx_frame m (mb_emit l m')"
  by (auto simp: rx_frame_def mb_emit_def)

lemma rx_frame_trans: "rx_frame m m' \<Longrightarrow> rx_frame m' m'' \<Longrightarrow> rx_frame m m''"
proof -
  assume "rx_frame m m'" and "rx_frame m' m''"
  then have "m''\<lparr>rx_pktids := rx_pktids m', mb_clock := mb_clock m', mb_log := mb_log m'\<rparr>
      \<lparr>rx_pktids := rx_pktids m, mb_clock := mb_clock m, mb_log := mb_log m\<rparr> = m"
    by (simp only: rx_frame_def)
  then show ?thesis by (simp add: rx_frame_def)
qed

text \<open>The table's entries for posted buffers of size \<open>sz\<close>.\<close>

definition rx_bound :: "nat \<Rightarrow> (u64 \<times> u32) list \<Rightarrow> (u32 \<times> sk_buff \<times> u64 \<times> u16) list" where
  "rx_bound sz ids = map (\<lambda>(pa, i). (i, fresh_skb sz, pa, 0)) ids"

lemma map_fst_rx_bound: "map fst (rx_bound sz ids) = map snd ids"
  by (induction ids) (auto simp: rx_bound_def)

text \<open>The loop writes one message per buffer into consecutive slots and gives the others back.\<close>

lemma rx_post_loop_run:
  assumes "pktids_inv (rx_pktids m)" and "unat k = i + n" and "unat (w_ptr cr) + unat k \<le> unat (depth cr)" and "w_ptr cr < depth cr"
    and "0 < item_len cr"
  shows "\<exists>ids mem' m'. rx_post_loop env sz 0 zero mk k i n (int ((unat (w_ptr cr) + i) * unat (item_len cr))) (((cr_adv k cr, x), mem), m)
       = Some (i + length ids, ((cr_adv (of_nat (i + length ids)) cr, x), mem'), m')
     \<and> length ids \<le> n \<and> rx_frame m m' \<and> pktids_inv (rx_pktids m')
     \<and> (\<forall>a. a < int ((unat (w_ptr cr) + i) * unat (item_len cr)) \<or> int ((unat (w_ptr cr) + i + n) * unat (item_len cr)) \<le> a \<longrightarrow> mem' a = mem a)
     \<and> (\<forall>j < length ids. mem' (int ((unat (w_ptr cr) + i + j) * unat (item_len cr))) = mk (snd (ids ! j)) (fst (ids ! j)) (of_nat sz))
     \<and> distinct (map snd ids) \<and> (\<forall>j \<in> snd ` set ids. pktid_of (rx_pktids m) j = None)
     \<and> pktid_of (rx_pktids m') = pktid_of (rx_pktids m) ++ map_of (rx_bound sz ids)"
  using assms
proof (induction n arbitrary: i m mem)
  case 0
  have "of_nat i = k" using "0.prems"(2) word_unat_eq_iff [of "of_nat i" k] unat_widths_less(2) [of k] by (simp add: unat_of_nat_u16)
  then show ?case using "0.prems"
    by (intro exI [of _ "[]"] exI [of _ mem] exI [of _ m]) (simp add: rx_bound_def rx_frame_refl)
next
  case (Suc n)
  let ?len = "unat (item_len cr)" and ?w = "unat (w_ptr cr)"
  let ?ret = "int ((?w + i) * ?len)"
  have i: "i < unat k" using Suc.prems(2) by simp
  have ki: "unat (of_nat i :: u16) = i" using i unat_widths_less(2) [of k] by (intro unat_of_nat_u16) linarith
  have j: "0 < k - of_nat i" "k - of_nat i \<le> k"
    using i ki by (simp_all add: word_less_nat_alt word_le_nat_alt unat_sub word_le_nat_alt)
  have cancel: "brcmf_commonring_write_cancel (k - of_nat i) (cr_adv k cr) = cr_adv (of_nat i) cr"
    using write_cancel_adv [OF j Suc.prems(3,4)] by simp
  have inside: "?ret < int ((?w + i + Suc n) * ?len)"
    unfolding of_nat_less_iff using Suc.prems(5) by (intro mult_strict_right_mono) (simp_all add: word_less_nat_alt)
  have stop: ?case if e: "rx_post_loop env sz 0 zero mk k i (Suc n) ?ret (((cr_adv k cr, x), mem), m)
      = Some (i, ((cr_adv (of_nat i) cr, x), mem(?ret := zero)), m')" and m': "rx_frame m m'" "rx_pktids m' = rx_pktids m" for m'
    using e m' inside Suc.prems(1)
    by (intro exI [of _ "[]"] exI [of _ "mem(?ret := zero)"] exI [of _ m']) (auto simp: rx_bound_def)
  show ?case
  proof (cases "env_skb env (mb_clock m)")
    case False
    then show ?thesis
      by (intro stop [of "mb_tick m"])
        (simp_all add: brcmu_pkt_buf_get_skb_def mb_store_def mb_cancel_def cancel rx_frame_tick rx_frame_refl, simp add: mb_tick_def)
  next
    case True
    have g: "brcmu_pkt_buf_get_skb env sz m = (Some (fresh_skb sz), mb_tick m)"
      using True by (simp add: brcmu_pkt_buf_get_skb_def fresh_skb_def)
    have "pktids_inv (rx_pktids (mb_tick m))" using Suc.prems(1) by (simp add: mb_tick_def)
    then show ?thesis
    proof (cases rule: mb_alloc_rx_cases [where env = env and skb = "fresh_skb sz"])
      case (fail l)
      show ?thesis
        by (rule stop [of "mb_emit [FreeSkb (fresh_skb sz)] (mb_emit l (mb_tick (mb_tick m)))"])
          (simp_all add: g fail mb_store_def mb_cancel_def cancel rx_frame_emit rx_frame_tick rx_frame_refl, simp add: mb_tick_def mb_emit_def)
    next
      case (got pa q t l)
      define m1 where "m1 = mb_emit l (mb_tick ((mb_tick m)\<lparr>rx_pktids := t\<rparr>))"
      have m1: "rx_pktids m1 = t" "rx_frame m m1" "m1\<lparr>rx_pktids := t\<rparr> = m1"
        by (auto simp: m1_def mb_emit_def mb_tick_def rx_frame_def)
      let ?mem = "mem(?ret := mk q pa (of_nat sz))"
      have e: "rx_post_loop env sz 0 zero mk k i (Suc n) ?ret (((cr_adv k cr, x), mem), m)
        = rx_post_loop env sz 0 zero mk k (Suc i) n (int ((?w + Suc i) * ?len)) (((cr_adv k cr, x), ?mem), m1)"
        using m1(1,3) by (simp add: g got(1) m1_def [symmetric] mb_store_def algebra_simps)
      have "pktids_inv (rx_pktids m1)" and k: "unat k = Suc i + n" using got(3) m1(1) Suc.prems(2) by simp_all
      from Suc.IH [OF this Suc.prems(3-5), of ?mem] obtain ids mem' m' where r:
        "rx_post_loop env sz 0 zero mk k (Suc i) n (int ((?w + Suc i) * ?len)) (((cr_adv k cr, x), ?mem), m1)
           = Some (Suc i + length ids, ((cr_adv (of_nat (Suc i + length ids)) cr, x), mem'), m')"
        "length ids \<le> n" "rx_frame m1 m'" "pktids_inv (rx_pktids m')"
        "\<forall>a. a < int ((?w + Suc i) * ?len) \<or> int ((?w + Suc i + n) * ?len) \<le> a \<longrightarrow> mem' a = ?mem a"
        "\<forall>j < length ids. mem' (int ((?w + Suc i + j) * ?len)) = mk (snd (ids ! j)) (fst (ids ! j)) (of_nat sz)"
        "distinct (map snd ids)" "\<forall>j \<in> snd ` set ids. pktid_of (rx_pktids m1) j = None"
        "pktid_of (rx_pktids m') = pktid_of (rx_pktids m1) ++ map_of (rx_bound sz ids)" by blast
      have len: "0 < ?len" using Suc.prems(5) by (simp add: word_less_nat_alt)
      have lo: "?ret < int ((?w + Suc i) * ?len)" unfolding of_nat_less_iff using len by (intro mult_strict_right_mono) simp_all
      have first: "mem' ?ret = mk q pa (of_nat sz)" using r(5) lo by auto
      have others: "mem' a = mem a" if "a < ?ret \<or> int ((?w + i + Suc n) * ?len) \<le> a" for a
        using that r(5) lo inside by (auto simp: algebra_simps)
      have posts: "mem' (int ((?w + i + j) * ?len)) = mk (snd (((pa, q) # ids) ! j)) (fst (((pa, q) # ids) ! j)) (of_nat sz)"
        if "j < length ((pa, q) # ids)" for j
        using that first r(6) by (cases j) (simp_all add: algebra_simps)
      have pk: "pktid_of (rx_pktids m1) = (pktid_of (rx_pktids m))(q \<mapsto> (fresh_skb sz, pa, 0))" "pktid_of (rx_pktids m) q = None"
        using got(2,4) m1(1) by (simp_all add: mb_tick_def)
      note F = fresh_ids [OF pk r(8)]
      have nq: "q \<notin> snd ` set ids" using F(1) .
      have free: "\<forall>j \<in> snd ` set ((pa, q) # ids). pktid_of (rx_pktids m) j = None" using F(2) by simp
      have "dom (map_of (rx_bound sz ids)) = snd ` set ids"
        by (simp add: dom_map_of_conv_image_fst flip: set_map) (metis map_fst_rx_bound list.set_map)
      then have bound: "pktid_of (rx_pktids m') = pktid_of (rx_pktids m) ++ map_of (rx_bound sz ((pa, q) # ids))"
        using r(9) pk nq by (simp add: rx_bound_def map_add_upd_left)
      have "rx_frame m m'" using m1(2) r(3) by (rule rx_frame_trans)
      then show ?thesis
        using e r(1,2,4,7) others posts free bound nq
        by (intro exI [of _ "(pa, q) # ids"] exI [of _ mem'] exI [of _ m']) (simp del: of_nat_mult of_nat_add)
    qed
  qed
qed

text \<open>A slot of the consumer's part is outside the granted run.\<close>

lemma busy_outside_grant:
  assumes "r < d" and "w = (r + used) mod d" and "used + k < d" and "w + k \<le> d" and "a < (used :: nat)"
  shows "(r + a) mod d < w \<or> w + k \<le> (r + a) mod d"
proof -
  have "used < d" "a < d" using assms(3,5) by simp_all
  then show ?thesis
    using assms by (simp add: mod_add_lt) (auto split: if_splits)
qed

lemma h2d_gap:
  assumes "h2d_inv (cr, x)"
  shows "cr_gap (unat (depth cr)) (unat (r_ptr cr)) (unat (w_ptr cr)) = cr_gap (unat (depth cr)) (unat (r_ptr cr)) (unat (r_idx x)) + h2d_used (cr, x)"
    and "cr_gap (unat (depth cr)) (unat (r_ptr cr)) (unat (w_ptr cr)) < unat (depth cr)"
proof -
  have lt: "unat (r_ptr cr) < unat (depth cr)" "unat (w_ptr cr) < unat (depth cr)" "unat (r_idx x) < unat (depth cr)"
    using assms by (simp_all add: word_less_nat_alt)
  then show "cr_gap (unat (depth cr)) (unat (r_ptr cr)) (unat (w_ptr cr)) = cr_gap (unat (depth cr)) (unat (r_ptr cr)) (unat (r_idx x)) + h2d_used (cr, x)"
    using assms h2d_chain [of cr x] by (subst cr_gap_split [of _ _ "unat (r_idx x)"]) auto
  show "cr_gap (unat (depth cr)) (unat (r_ptr cr)) (unat (w_ptr cr)) < unat (depth cr)" using lt by (intro cr_gap_less)
qed

text \<open>Reserving, filling and publishing: the ring receives exactly the messages of the buffers that were had.\<close>

lemma feed_ring [consumes 3, case_names full fed]:
  assumes "h2d_inv st" and "0 < n" and "pktids_inv (rx_pktids m)"
  obtains (full) st' where "brcmf_commonring_reserve_for_write_multiple pcie_ring_ops n st = (None, st')" "h2d_inv st'"
      "h2d_items (st', mem) = h2d_items (st, mem)" "ring_cap (st', mem) = ring_cap (st, mem)"
      "published (st, mem) \<Longrightarrow> published (st', mem)"
  | (fed) p k st' ids ring' m' where "brcmf_commonring_reserve_for_write_multiple pcie_ring_ops n st = (Some (p, k), st')"
      "rx_post_loop env sz 0 zero mk k 0 (unat k) p ((st', mem), m) = Some (length ids, ring', m')"
      "length ids \<le> unat n" "rx_frame m m'" "pktids_inv (rx_pktids m')" "h2d_inv (fst ring')"
      "h2d_items ring' = h2d_items (st, mem) @ map (\<lambda>(pa, i). mk i pa (of_nat sz)) ids" "ring_cap ring' = ring_cap (st, mem)"
      "distinct (map snd ids)" "\<forall>j \<in> snd ` set ids. pktid_of (rx_pktids m) j = None"
      "pktid_of (rx_pktids m') = pktid_of (rx_pktids m) ++ map_of (rx_bound sz ids)"
      "ids = [] \<Longrightarrow> published (st, mem) \<Longrightarrow> published ring'"
  using assms(1,2)
proof (cases rule: reserve_multiple_cases)
  case (full st')
  have "h2d_items (st', mem) = h2d_items (st, mem)" "ring_cap (st', mem) = ring_cap (st, mem)"
    using full by (auto simp: h2d_items_def ring_cap_def split: prod.split)
  moreover have "published (st', mem)" if "published (st, mem)" using full(5,7) that by (simp add: published_def)
  ultimately show thesis using full(1,4) that(1) by blast
next
  case (granted cr x k)
  obtain c y where st: "st = (c, y)" by fastforce
  let ?d = "unat (depth cr)" and ?len = "unat (item_len cr)" and ?w = "unat (w_ptr cr)" and ?r = "unat (r_idx x)"
  let ?used = "h2d_used st"
  have same: "depth c = depth cr" "item_len c = item_len cr" "y = x" "h2d_used (cr, x) = ?used"
    using granted(2,3) by (auto simp: st)
  have lt: "?r < ?d" "?w < ?d" "0 < ?len" "w_ptr cr < depth cr" "0 < item_len cr" using granted(9) by (simp_all add: word_less_nat_alt)
  have w: "?w = (?r + ?used) mod ?d" using cr_gap_reach [OF lt(1,2)] same(4) by simp
  from rx_post_loop_run [OF assms(3) _ granted(6) lt(4,5), of 0 "unat k" env sz zero mk x mem] obtain ids mem' m' where r:
    "rx_post_loop env sz 0 zero mk k 0 (unat k) (int (?w * ?len)) (((cr_adv k cr, x), mem), m)
       = Some (length ids, ((cr_adv (of_nat (length ids)) cr, x), mem'), m')"
    "length ids \<le> unat k" "rx_frame m m'" "pktids_inv (rx_pktids m')"
    "\<forall>a. a < int (?w * ?len) \<or> int ((?w + unat k) * ?len) \<le> a \<longrightarrow> mem' a = mem a"
    "\<forall>j < length ids. mem' (int ((?w + j) * ?len)) = mk (snd (ids ! j)) (fst (ids ! j)) (of_nat sz)"
    "distinct (map snd ids)" "\<forall>j \<in> snd ` set ids. pktid_of (rx_pktids m) j = None"
    "pktid_of (rx_pktids m') = pktid_of (rx_pktids m) ++ map_of (rx_bound sz ids)"
    unfolding add_0_left add_0_right by blast
  let ?i = "of_nat (length ids) :: u16"
  have i: "unat ?i = length ids" using r(2) unat_widths_less(2) [of k] by (intro unat_of_nat_u16) linarith
  have "cr_gap ?d (unat (r_ptr cr)) ?w + unat k < ?d"
    using h2d_gap [OF granted(9)] h2d_gap [OF granted(10)] granted(8) same(4) by simp
  then have adv: "h2d_inv (cr_adv ?i cr, x)" "h2d_used (cr_adv ?i cr, x) = ?used + length ids"
    using h2d_adv [OF granted(9), of ?i] granted(6) r(2) i same(4) by auto
  have "slots mem' ?len ?d ?r ?used = slots mem ?len ?d ?r ?used"
  proof (unfold slots_def, rule map_cong [OF refl])
    fix a assume "a \<in> set [0..<?used]"
    then have "(?r + a) mod ?d < ?w \<or> ?w + unat k \<le> (?r + a) mod ?d"
      using busy_outside_grant [OF lt(1) w granted(7,6)] by simp
    then have "int ((?r + a) mod ?d * ?len) < int (?w * ?len) \<or> int ((?w + unat k) * ?len) \<le> int ((?r + a) mod ?d * ?len)"
      unfolding of_nat_less_iff of_nat_le_iff using lt(3) by auto
    then show "mem' (int ((?r + a) mod ?d * ?len)) = mem (int ((?r + a) mod ?d * ?len))" using r(5) by blast
  qed
  moreover have "slots mem' ?len ?d ?w (length ids) = map (\<lambda>(pa, i). mk i pa (of_nat sz)) ids"
  proof (rule nth_equalityI)
    fix j assume "j < length (slots mem' ?len ?d ?w (length ids))"
    then have j: "j < length ids" by simp
    then have "(?w + j) mod ?d = ?w + j" using r(2) granted(6) by (intro mod_less) linarith
    then show "slots mem' ?len ?d ?w (length ids) ! j = map (\<lambda>(pa, i). mk i pa (of_nat sz)) ids ! j"
      using j r(6) by (simp add: slots_def split_beta del: of_nat_mult of_nat_add)
  qed simp
  ultimately have items: "h2d_items ((cr_adv ?i cr, x), mem') = h2d_items (st, mem) @ map (\<lambda>(pa, i). mk i pa (of_nat sz)) ids"
    using adv(2) w by (simp add: h2d_items_def slots_split st same)
  have pub: "published ((cr_adv ?i cr, x), mem')" if "ids = []" "published (st, mem)"
    using that granted(2,4,9) same by (auto simp: published_def st cr_adv_def)
  show thesis
    by (rule that(2) [OF granted(1) r(1) _ r(3,4) _ _ _ r(7-9) pub])
      (use r(2) granted(5) adv(1) items in \<open>simp_all add: ring_cap_def st same\<close>)
qed

text \<open>What feeding the receive ring does: \<open>ids\<close> are the addresses and identifiers of the buffers posted.\<close>

definition rx_fed :: "msgbuf \<Rightarrow> (u64 \<times> u32) list \<Rightarrow> msgbuf \<Rightarrow> bool" where
  "rx_fed m ids m' \<longleftrightarrow> h2d_inv (fst (mb_rxpost_submit m')) \<and> pktids_inv (rx_pktids m')
     \<and> h2d_items (mb_rxpost_submit m') = h2d_items (mb_rxpost_submit m) @ map (\<lambda>(pa, i). rx_bufpost_msg 0 i pa 2048) ids
     \<and> ring_cap (mb_rxpost_submit m') = ring_cap (mb_rxpost_submit m)
     \<and> distinct (map snd ids) \<and> (\<forall>j \<in> snd ` set ids. pktid_of (rx_pktids m) j = None)
     \<and> pktid_of (rx_pktids m') = pktid_of (rx_pktids m) ++ map_of (rx_bound 2048 ids)
     \<and> (ids \<noteq> [] \<or> published (mb_rxpost_submit m) \<longrightarrow> published (mb_rxpost_submit m'))
     \<and> rx_metadata_offset m' = rx_metadata_offset m \<and> max_rxbufpost m' = max_rxbufpost m
     \<and> mb_flow m' = mb_flow m \<and> tx_pktids m' = tx_pktids m \<and> mb_ctl_submit m' = mb_ctl_submit m"

lemma rx_fed_append:
  assumes "rx_fed m ids m1" and "rx_fed m1 ids' m2"
  shows "rx_fed m (ids @ ids') m2"
proof -
  note A = assms(1) [unfolded rx_fed_def] and B = assms(2) [unfolded rx_fed_def]
  have dom: "dom (map_of (rx_bound 2048 l)) = snd ` set l" for l
    by (simp add: dom_map_of_conv_image_fst flip: set_map) (metis map_fst_rx_bound list.set_map)
  have new: "snd ` set ids \<inter> snd ` set ids' = {}" and free: "\<forall>j \<in> snd ` set ids'. pktid_of (rx_pktids m) j = None"
  proof -
    have f: "pktid_of (rx_pktids m1) j = None" if "j \<in> snd ` set ids'" for j using B that by (elim conjE) (erule bspec)
    have t: "pktid_of (rx_pktids m1) = pktid_of (rx_pktids m) ++ map_of (rx_bound 2048 ids)" using A by (elim conjE)
    show "\<forall>j \<in> snd ` set ids'. pktid_of (rx_pktids m) j = None" using f unfolding t by (simp add: map_add_None)
    show "snd ` set ids \<inter> snd ` set ids' = {}"
    proof (rule ccontr)
      assume "snd ` set ids \<inter> snd ` set ids' \<noteq> {}"
      then obtain j where j: "j \<in> snd ` set ids" "j \<in> snd ` set ids'" by blast
      have "map_of (rx_bound 2048 ids) j = None" using f [OF j(2)] unfolding t by (simp add: map_add_None)
      with j(1) dom [of ids] show False by (metis domIff)
    qed
  qed
  have "map_of (rx_bound 2048 (ids @ ids')) = map_of (rx_bound 2048 ids) ++ map_of (rx_bound 2048 ids')"
    using new dom by (simp add: rx_bound_def map_of_append) (metis (no_types, lifting) map_add_comm Int_commute rx_bound_def)
  then show ?thesis using A B new free unfolding rx_fed_def by (auto simp: map_add_assoc image_Un)
qed

lemma rxbuf_data_post_run:
  assumes "h2d_inv (fst (mb_rxpost_submit m))" and "pktids_inv (rx_pktids m)" and "rx_metadata_offset m = 0"
    and "0 < (ucast count :: u16)"
  shows "\<exists>ids m'. brcmf_msgbuf_rxbuf_data_post env count m = Some (of_nat (length ids), m') \<and> length ids \<le> unat (ucast count :: u16)
    \<and> rx_fed m ids m' \<and> rxbufpost m' = rxbufpost m"
proof -
  obtain st mem where ring: "mb_rxpost_submit m = (st, mem)" by fastforce
  have inv: "h2d_inv st" using assms(1) by (simp add: ring)
  from inv assms(4,2) show ?thesis
  proof (cases rule: feed_ring [where mem = mem and env = env and sz = 2048 and zero = rx_bufpost_zero and mk = "rx_bufpost_msg 0"])
    case (full st')
    then show ?thesis using assms
      by (intro exI [of _ "[]"] exI [of _ "m\<lparr>mb_rxpost_submit := (st', mem)\<rparr>"])
        (simp add: brcmf_msgbuf_rxbuf_data_post_def ring rx_fed_def rx_bound_def)
  next
    case (fed p k st' ids ring' m')
    let ?ring = "if 0 < length ids then snd (mb_complete ring') else ring'"
    let ?m = "m'\<lparr>mb_rxpost_submit := ?ring\<rparr>"
    note F = rx_frame_sel [OF fed(4)]
    have ring2: "h2d_inv (fst ?ring)" "h2d_items ?ring = h2d_items ring'" "ring_cap ?ring = ring_cap ring'" "ids \<noteq> [] \<Longrightarrow> published ?ring"
      using h2d_commit_props [OF fed(6)] published_commit [OF fed(6)] fed(6) by (simp_all add: mb_complete_eq)
    have "brcmf_msgbuf_rxbuf_data_post env count m = Some (of_nat (length ids), ?m)"
      using fed(1,2) by (simp add: brcmf_msgbuf_rxbuf_data_post_def ring assms(3))
    moreover have "rx_fed m ids ?m"
      using fed ring2 F by (auto simp: rx_fed_def ring)
    ultimately show ?thesis using fed(3) F(3) by (intro exI [of _ ids] exI [of _ ?m]) simp
  qed
qed

lemma rxbuf_fill_loop_run:
  assumes "h2d_inv (fst (mb_rxpost_submit m))" and "pktids_inv (rx_pktids m)" and "rx_metadata_offset m = 0" and "unat fillbufs < 65536"
  shows "\<exists>ids m'. rxbuf_data_fill_loop env fillbufs m = Some m' \<and> length ids \<le> unat fillbufs
    \<and> rxbufpost m' = rxbufpost m + of_nat (length ids) \<and> rx_fed m ids m'"
  using assms
proof (induction "unat fillbufs" arbitrary: fillbufs m rule: less_induct)
  case less
  show ?case
  proof (cases "fillbufs = 0")
    case True
    then show ?thesis using less.prems
      by (intro exI [of _ "[]"] exI [of _ m]) (simp add: rxbuf_data_fill_loop.simps rx_fed_def rx_bound_def)
  next
    case False
    have u: "unat (ucast fillbufs :: u16) = unat fillbufs"
      using less.prems(4) by (simp add: unsigned_ucast_eq take_bit_nat_eq_self)
    then have "0 < (ucast fillbufs :: u16)" using False by (simp add: word_less_nat_alt unat_gt_0)
    from rxbuf_data_post_run [OF less.prems(1-3) this, of env] obtain ids m1 where
      p: "brcmf_msgbuf_rxbuf_data_post env fillbufs m = Some (of_nat (length ids), m1)" "length ids \<le> unat fillbufs"
        "rx_fed m ids m1" "rxbufpost m1 = rxbufpost m" unfolding u by blast
    have l: "unat (of_nat (length ids) :: u32) = length ids"
      using p(2) less.prems(4) by (simp add: unat_of_nat take_bit_nat_eq_self)
    show ?thesis
    proof (cases "ids = []")
      case True
      then show ?thesis using p False
        by (intro exI [of _ "[]"] exI [of _ m1]) (simp add: rxbuf_data_fill_loop.simps [of _ fillbufs])
    next
      case ids: False
      define m2 where "m2 = m1\<lparr>rxbufpost := rxbufpost m1 + of_nat (length ids)\<rparr>"
      have nz: "(of_nat (length ids) :: u32) \<noteq> 0" using l ids by (metis length_0_conv unat_0)
      have s: "unat (fillbufs - of_nat (length ids)) = unat fillbufs - length ids"
        using l p(2) by (simp add: unat_sub word_le_nat_alt)
      have fed2: "rx_fed m ids m2" using p(3) by (simp add: m2_def rx_fed_def)
      then have pre: "h2d_inv (fst (mb_rxpost_submit m2))" "pktids_inv (rx_pktids m2)" "rx_metadata_offset m2 = 0"
        using less.prems(3) by (simp_all add: rx_fed_def)
      have smaller: "unat (fillbufs - of_nat (length ids)) < unat fillbufs"
        unfolding s using ids p(2) by (metis diff_less length_greater_0_conv less_le_trans)
      have "unat (fillbufs - of_nat (length ids)) < 65536" using smaller less.prems(4) by linarith
      from less.hyps [OF smaller pre this] obtain ids' m3 where
        q: "rxbuf_data_fill_loop env (fillbufs - of_nat (length ids)) m2 = Some m3" "length ids' \<le> unat fillbufs - length ids"
          "rxbufpost m3 = rxbufpost m2 + of_nat (length ids')" "rx_fed m2 ids' m3" unfolding s by blast
      have "rxbuf_data_fill_loop env fillbufs m = Some m3"
        using p(1) q(1) False nz by (simp add: rxbuf_data_fill_loop.simps [of _ fillbufs] m2_def)
      moreover have "rx_fed m (ids @ ids') m3" using fed2 q(4) by (rule rx_fed_append)
      ultimately show ?thesis using q(2,3) p(2,4)
        by (intro exI [of _ "ids @ ids'"] exI [of _ m3]) (simp add: m2_def algebra_simps)
    qed
  qed
qed

section \<open>Control requests\<close>

text \<open>The message and the shared buffer of a request.\<close>

definition ioctl_req :: "int \<Rightarrow> u32 \<Rightarrow> u32 \<Rightarrow> msgbuf \<Rightarrow> h2d_msg" where
  "ioctl_req ifidx cmd len m = IOCTLPTR_REQ \<lparr>rq_ifidx = of_int ifidx, rq_request_id = BRCMF_IOCTL_REQ_PKTID, rq_cmd = cmd,
     rq_trans_id = ucast (mb_reqid m + 1), rq_input_buf_len = min (ucast len) 1518, rq_output_buf_len = ucast len,
     rq_req_buf_addr = \<lparr>low_addr = ioctbuf_phys_lo m, high_addr = ioctbuf_phys_hi m\<rparr>\<rparr>"

lemma ioctl_len: "unat len < 65536 \<Longrightarrow> unat (min (ucast (len :: u32)) 1518 :: u16) = min (unat len) 1518"
proof -
  assume "unat len < 65536"
  then have "unat (ucast len :: u16) = unat len" by (simp add: unsigned_ucast_eq take_bit_nat_eq_self)
  then show ?thesis by (simp add: min_def word_le_nat_alt)
qed

lemma h2d_items_bound:
  assumes "h2d_inv (fst w)"
  shows "length (h2d_items w) \<le> ring_cap w"
proof -
  obtain cr x mem where w: "w = ((cr, x), mem)" by (metis surj_pair)
  then show ?thesis using h2d_used_less [of "(cr, x)"] assms by (simp add: h2d_items_def ring_cap_def)
qed

lemma tx_ioctl_cases [consumes 4, case_names full sent]:
  assumes "h2d_inv (fst (mb_ctl_submit m))" and "length (ioctbuf m) = 1518" and "length b = unat len" and "unat len < 65536"
  obtains (full) ring where "brcmf_msgbuf_tx_ioctl ifidx cmd (Some b) len m = Some (ERR ENOMEM, m\<lparr>mb_ctl_submit := ring\<rparr>)"
      "length (h2d_items (mb_ctl_submit m)) = ring_cap (mb_ctl_submit m)" "h2d_items ring = h2d_items (mb_ctl_submit m)"
  | (sent) ring where "brcmf_msgbuf_tx_ioctl ifidx cmd (Some b) len m = Some (OK, m\<lparr>mb_reqid := mb_reqid m + 1,
        mb_ctl_submit := ring, ioctbuf := take (min (unat len) 1518) b @ drop (min (unat len) 1518) (ioctbuf m)\<rparr>)"
      "h2d_inv (fst ring)" "h2d_items ring = h2d_items (mb_ctl_submit m) @ [ioctl_req ifidx cmd len m]" "published ring"
      "length (h2d_items (mb_ctl_submit m)) < ring_cap (mb_ctl_submit m)"
  using assms(1)
proof (cases rule: mb_reserve_cases)
  case (full w')
  then show thesis by (intro that(1) [of w']) (simp_all add: brcmf_msgbuf_tx_ioctl_def)
next
  case (slot off w')
  let ?n = "min (unat len) 1518" and ?w = "mb_store off (ioctl_req ifidx cmd len m) w'"
  have w: "h2d_inv (fst ?w)" "h2d_items ?w = h2d_items (mb_ctl_submit m) @ [ioctl_req ifidx cmd len m]"
    using slot(2) [of "ioctl_req ifidx cmd len m"] by simp_all
  have "length (h2d_items ?w) \<le> ring_cap (mb_ctl_submit m)"
    using h2d_items_bound [OF w(1)] slot(2) [of "ioctl_req ifidx cmd len m"] by simp
  then have space: "length (h2d_items (mb_ctl_submit m)) < ring_cap (mb_ctl_submit m)" by (simp add: w(2))
  have rd: "read_bytes b 0 (unat (min (ucast len) 1518 :: u16)) = Some (take ?n b)"
    using assms(3) by (simp add: read_bytes_def ioctl_len [OF assms(4)])
  have wr: "write_bytes (ioctbuf m) 0 (take ?n b) = Some (take ?n b @ drop ?n (ioctbuf m))"
    using assms(2,3) by (simp add: write_bytes_def)
  have "brcmf_msgbuf_tx_ioctl ifidx cmd (Some b) len m = Some (OK, m\<lparr>mb_reqid := mb_reqid m + 1,
        mb_ctl_submit := h2d_commit ?w, ioctbuf := take ?n b @ drop ?n (ioctbuf m)\<rparr>)"
    using rd wr w(1) by (simp add: brcmf_msgbuf_tx_ioctl_def slot(1) Let_def ioctl_req_def mb_complete_eq)
  then show thesis
    using w space h2d_commit_props [OF w(1)] published_commit [OF w(1)] by (intro that(2) [of "h2d_commit ?w"]) simp_all
qed

lemma mb_get_rx_eq:
  assumes "pktids_inv (rx_pktids m)"
  shows "pktid_of (rx_pktids m) i = None \<Longrightarrow> mb_get_rx i m = Some (None, m)"
    and "pktid_of (rx_pktids m) i = Some (s, pa, off) \<Longrightarrow> \<exists>t l. mb_get_rx i m = Some (Some s, mb_emit l (m\<lparr>rx_pktids := t\<rparr>))
      \<and> pktids_inv t \<and> pktid_of t = (pktid_of (rx_pktids m))(i := None)"
proof -
  assume "pktid_of (rx_pktids m) i = None"
  then show "mb_get_rx i m = Some (None, m)" using get_pktid_None [OF assms] by (simp add: mb_get_rx_def mb_emit_def)
next
  assume "pktid_of (rx_pktids m) i = Some (s, pa, off)"
  then show "\<exists>t l. mb_get_rx i m = Some (Some s, mb_emit l (m\<lparr>rx_pktids := t\<rparr>))
      \<and> pktids_inv t \<and> pktid_of t = (pktid_of (rx_pktids m))(i := None)"
    by (rule get_pktid_Some [OF assms, of i s pa off skb_len]) (auto simp: mb_get_rx_def)
qed

text \<open>Posting response buffers keeps the table's entries and appends to the control ring.\<close>

lemma ioctlresp_post_run:
  assumes "h2d_inv (fst (mb_ctl_submit m))" and "pktids_inv (rx_pktids m)"
    and "cur_ioctlrespbuf m < max_ioctlrespbuf m" and "unat (max_ioctlrespbuf m) < 65536"
  shows "\<exists>m' rest. brcmf_msgbuf_rxbuf_ioctlresp_post env m = Some m' \<and> pktids_inv (rx_pktids m')
    \<and> (\<forall>i v. pktid_of (rx_pktids m) i = Some v \<longrightarrow> pktid_of (rx_pktids m') i = Some v)
    \<and> h2d_items (mb_ctl_submit m') = h2d_items (mb_ctl_submit m) @ rest
    \<and> ctl_completed m' = ctl_completed m \<and> ioctl_resp_status m' = ioctl_resp_status m
    \<and> ioctl_resp_ret_len m' = ioctl_resp_ret_len m \<and> ioctl_resp_pktid m' = ioctl_resp_pktid m"
proof -
  let ?c = "max_ioctlrespbuf m - cur_ioctlrespbuf m"
  obtain st mem where ring: "mb_ctl_submit m = (st, mem)" by fastforce
  have "unat ?c = unat (max_ioctlrespbuf m) - unat (cur_ioctlrespbuf m)"
    using assms(3) by (simp add: unat_sub word_le_nat_alt word_less_nat_alt)
  then have "unat ?c < 65536" "0 < unat ?c" using assms(3,4) by (simp_all add: word_less_nat_alt)
  then have n: "0 < (ucast ?c :: u16)" by (simp add: word_less_nat_alt unsigned_ucast_eq take_bit_nat_eq_self)
  have inv: "h2d_inv st" using assms(1) by (simp add: ring)
  from inv n assms(2) show ?thesis
  proof (cases rule: feed_ring [where mem = mem and env = env and sz = 8192 and zero = ctl_bufpost_zero and mk = "ctl_bufpost_msg False"])
    case (full st')
    then show ?thesis using assms(2)
      by (simp add: brcmf_msgbuf_rxbuf_ioctlresp_post_def brcmf_msgbuf_rxbuf_ctrl_post_def ring)
  next
    case (fed p k st' ids ring' m')
    let ?ring = "if 0 < length ids then snd (mb_complete ring') else ring'"
    have r: "h2d_items ?ring = h2d_items (mb_ctl_submit m) @ map (\<lambda>(pa, i). ctl_bufpost_msg False i pa 8192) ids"
      using h2d_commit_props [OF fed(6)] fed(6,7) by (simp add: mb_complete_eq ring)
    have keep: "pktid_of (rx_pktids m') i = Some v" if "pktid_of (rx_pktids m) i = Some v" for i v
    proof -
      have "i \<notin> snd ` set ids" using that fed(10) by auto
      then have "map_of (rx_bound 8192 ids) i = None" by (metis map_fst_rx_bound map_of_eq_None_iff list.set_map)
      then show ?thesis using that by (simp add: fed(11) map_add_def)
    qed
    note eq = fed(4) [unfolded rx_frame_def]
    have same: "ctl_completed m' = ctl_completed m" "ioctl_resp_status m' = ioctl_resp_status m"
      "ioctl_resp_ret_len m' = ioctl_resp_ret_len m" "ioctl_resp_pktid m' = ioctl_resp_pktid m"
      using arg_cong [OF eq, of ctl_completed] arg_cong [OF eq, of ioctl_resp_status]
        arg_cong [OF eq, of ioctl_resp_ret_len] arg_cong [OF eq, of ioctl_resp_pktid] by simp_all
    show ?thesis
      using fed(1,2,5) r keep same
      by (intro exI [of _ "m'\<lparr>mb_ctl_submit := ?ring, cur_ioctlrespbuf := cur_ioctlrespbuf m' + of_nat (length ids)\<rparr>"]
          exI [of _ "map (\<lambda>(pa, i). ctl_bufpost_msg False i pa 8192) ids"])
        (simp add: brcmf_msgbuf_rxbuf_ioctlresp_post_def brcmf_msgbuf_rxbuf_ctrl_post_def ring)
  qed
qed

section \<open>Properties\<close>

text \<open>C14: \<open>brcmf_msgbuf_process_rx\<close> returns and hands every item the device has published, and nothing else, to the
  handler exactly once and in the device's order, across the end of the buffer and whatever the batches in which slots
  are given back; when it is done the ring is empty on the host's side and the device sees all slots free. It is
  undefined only where the handler is undefined on one of the items.\<close>

theorem process_rx_in_order:
  assumes "d2h_inv (cr, x) (w_idx x)"
  shows "\<exists>cr'. brcmf_msgbuf_process_rx env (((cr, x), mem), m)
      = map_option (\<lambda>m'. (((cr', x\<lparr>r_idx := w_idx x\<rparr>), mem), m'))
          (handle_all (\<lambda>item m. brcmf_msgbuf_process_msgtype env (drop (unat (rx_dataoffset m)) item) m)
             (d2h_items (((cr, x), mem), w_idx x)) m)
    \<and> d2h_inv (cr', x\<lparr>r_idx := w_idx x\<rparr>) (w_idx x) \<and> d2h_items (((cr', x\<lparr>r_idx := w_idx x\<rparr>), mem), w_idx x) = []
    \<and> d2h_cap (((cr', x\<lparr>r_idx := w_idx x\<rparr>), mem), w_idx x) = d2h_cap (((cr, x), mem), w_idx x)"
  unfolding brcmf_msgbuf_process_rx_def by (rule process_rx_all_ring [OF assms])

text \<open>The witness: the device's write index has wrapped round a ring of 512 slots.\<close>

theorem process_rx_in_order_witness:
  "\<exists>cr' m'. brcmf_msgbuf_process_rx env_ex
      ((((fst mbring_ex)\<lparr>r_ptr := 511, w_ptr := 511\<rparr>, (snd mbring_ex)\<lparr>r_idx := 511, w_idx := 1\<rparr>), \<lambda>_. [0x24, 0, 0, 0, 0, 0, 0, 0, 0, 0, 0, 0, 5, 0, 0, 0]), mb_ex)
    = Some (((cr', (snd mbring_ex)\<lparr>r_idx := 1, w_idx := 1\<rparr>), \<lambda>_. [0x24, 0, 0, 0, 0, 0, 0, 0, 0, 0, 0, 0, 5, 0, 0, 0]), m')
    \<and> mb_log m' = [BusMbRx 5, BusMbRx 5]"
proof -
  let ?cr = "(fst mbring_ex)\<lparr>r_ptr := 511, w_ptr := 511\<rparr>" and ?x = "(snd mbring_ex)\<lparr>r_idx := 511, w_idx := 1\<rparr>"
  let ?item = "[0x24, 0, 0, 0, 0, 0, 0, 0, 0, 0, 0, 0, 5, 0, 0, 0] :: u8 list"
  have e: "depth (fst mbring_ex) = 512" "item_len (fst mbring_ex) = 48" "pcie_up (snd mbring_ex)"
    by (simp_all add: mbring_ex_def config_pcie shm_ex_def)
  have inv: "d2h_inv (?cr, ?x) (w_idx ?x)" by (simp add: e cr_gap_def)
  have items: "d2h_items (((?cr, ?x), \<lambda>_. ?item), w_idx ?x) = [?item, ?item]"
    by (simp add: d2h_items_def e cr_gap_def slots_def upt_rec)
  have h: "brcmf_msgbuf_process_msgtype env_ex (drop (unat (rx_dataoffset m)) ?item) m = Some (mb_emit [BusMbRx 5] m)"
    if "rx_dataoffset m = 0" for m
    using that by (simp add: brcmf_msgbuf_process_msgtype_def msg_msgtype_def nth_opt_def brcmf_msgbuf_process_d2h_mailbox_data_def
        get_le32_def of_le32_def)
  have o: "rx_dataoffset mb_ex = 0" by (simp add: mb_ex_def msgbuf_init_def mb_bus_ex_def Let_def)
  have "handle_all (\<lambda>item m. brcmf_msgbuf_process_msgtype env_ex (drop (unat (rx_dataoffset m)) item) m) [?item, ?item] mb_ex
      = Some (mb_emit [BusMbRx 5] (mb_emit [BusMbRx 5] mb_ex))"
    using h [OF o] h [of "mb_emit [BusMbRx 5] mb_ex"] o by (simp add: mb_emit_def)
  moreover have "mb_log (mb_emit [BusMbRx 5] (mb_emit [BusMbRx 5] mb_ex)) = [BusMbRx 5, BusMbRx 5]"
    by (simp add: mb_emit_def mb_ex_simps)
  ultimately show ?thesis
    using process_rx_in_order [OF inv, of env_ex "\<lambda>_. ?item" mb_ex, unfolded items] by auto
qed

text \<open>Feeding the device with receive buffers returns, and posts at most the number missing from the target: the
  receive ring gets, after what it held, one message per buffer with its address, the buffer size and an identifier that
  was free, each identifier is bound to a fresh buffer of that size, the count of posted buffers goes up by exactly their
  number, slots reserved beyond them are given back, and what was posted is published. (The metadata offset is never
  set by the driver.)\<close>

theorem rx_fill_feeds:
  assumes "h2d_inv (fst (mb_rxpost_submit m))" and "pktids_inv (rx_pktids m)" and "rx_metadata_offset m = 0"
    and "unat (max_rxbufpost m - rxbufpost m) < 65536"
  shows "\<exists>ids m'. brcmf_msgbuf_rxbuf_data_fill env m = Some m' \<and> length ids \<le> unat (max_rxbufpost m - rxbufpost m)
    \<and> rxbufpost m' = rxbufpost m + of_nat (length ids) \<and> rx_fed m ids m'"
  unfolding brcmf_msgbuf_rxbuf_data_fill_def by (rule rxbuf_fill_loop_run [OF assms])

theorem rx_fill_feeds_witness:
  "\<exists>ids m'. brcmf_msgbuf_rxbuf_data_fill env_ex mb_ex = Some m' \<and> length ids \<le> 4 \<and> rxbufpost m' = of_nat (length ids) \<and> rx_fed mb_ex ids m'"
proof -
  have "max_rxbufpost mb_ex = 4" "rxbufpost mb_ex = 0" by (simp_all add: mb_ex_def msgbuf_init_def mb_bus_ex_def Let_def)
  then show ?thesis using rx_fill_feeds [of mb_ex env_ex] by (simp add: mb_ex_simps mbring_ex_inv)
qed

text \<open>C15: A control request whose completion arrives while the caller waits succeeds: the request is on the control
  ring, the caller gets the firmware's status and, at the front of its buffer, as many bytes of the reply as both the
  buffer and the reply length allow, the rest of the buffer is untouched, the reply buffer's identifier is free again and
  the driver has gone on to post response buffers.\<close>

theorem ioctl_roundtrip:
  assumes ctl: "h2d_inv (fst (mb_ctl_submit m))" "length (h2d_items (mb_ctl_submit m)) < ring_cap (mb_ctl_submit m)"
    and rx: "pktids_inv (rx_pktids m)" "pktid_of (rx_pktids m) i = Some (s, pa, 0)"
    and cnt: "cur_ioctlrespbuf m \<le> max_ioctlrespbuf m" "0 < max_ioctlrespbuf m" "unat (max_ioctlrespbuf m) < 65536"
    and buf: "length (ioctbuf m) = 1518" "length b = unat len" "unat len < 65536"
    and resp: "msg_request_id resp = Some i" "compl_status resp = Some st" "get_le16 resp 12 = Some rl" "unat rl \<le> length (sk_data s)"
    and waiting: "\<And>m1 m2. brcmf_msgbuf_process_ioctl_complete env resp m1 = Some m2 \<Longrightarrow> waiting m1 = m2"
  shows "\<exists>m' rest. brcmf_msgbuf_query_dcmd waiting ifidx cmd (Some b) len m
      = Some (OK, sint st, Some (take (min (unat len) (unat rl)) (sk_data s) @ drop (min (unat len) (unat rl)) b), m')
    \<and> h2d_items (mb_ctl_submit m') = h2d_items (mb_ctl_submit m) @ ioctl_req ifidx cmd len m # rest
    \<and> pktid_of (rx_pktids m') i = None"
proof -
  let ?m = "m\<lparr>ctl_completed := False\<rparr>" and ?n = "min (unat len) (unat rl)"
  have req: "ioctl_req ifidx cmd len ?m = ioctl_req ifidx cmd len m" by (simp add: ioctl_req_def)
  have pre: "h2d_inv (fst (mb_ctl_submit ?m))" "length (ioctbuf ?m) = 1518" using ctl(1) buf(1) by simp_all
  obtain ring ib where sent: "brcmf_msgbuf_tx_ioctl ifidx cmd (Some b) len ?m
      = Some (OK, ?m\<lparr>mb_reqid := mb_reqid m + 1, mb_ctl_submit := ring, ioctbuf := ib\<rparr>)"
    "h2d_inv (fst ring)" "h2d_items ring = h2d_items (mb_ctl_submit m) @ [ioctl_req ifidx cmd len m]"
  proof (cases rule: tx_ioctl_cases [OF pre buf(2,3), of ifidx cmd, case_names full sent])
    case (full ring)
    then show ?thesis using ctl(2) by simp
  next
    case (sent ring)
    then show ?thesis by (intro that) (simp_all add: req)
  qed
  define m1 where "m1 = ?m\<lparr>mb_reqid := mb_reqid m + 1, mb_ctl_submit := ring, ioctbuf := ib\<rparr>"
  define mc where "mc = m1\<lparr>ioctl_resp_status := sint st, ioctl_resp_ret_len := ucast rl, ioctl_resp_pktid := i, ctl_completed := True\<rparr>"
  define m2 where "m2 = (if cur_ioctlrespbuf mc \<noteq> 0 then mc\<lparr>cur_ioctlrespbuf := cur_ioctlrespbuf mc - 1\<rparr> else mc)"
  have "unat (cur_ioctlrespbuf m - 1) = unat (cur_ioctlrespbuf m) - 1" if "cur_ioctlrespbuf m \<noteq> 0"
    using that by (simp add: unat_dec_pos unat_gt_0)
  moreover have "0 < unat (max_ioctlrespbuf m)" "unat (cur_ioctlrespbuf m) \<le> unat (max_ioctlrespbuf m)"
    using cnt(1,2) by (simp_all add: word_less_nat_alt word_le_nat_alt)
  ultimately have lt: "cur_ioctlrespbuf m2 < max_ioctlrespbuf m2"
    by (cases "cur_ioctlrespbuf m = 0") (simp_all add: m2_def mc_def m1_def word_less_nat_alt)
  have "h2d_inv (fst (mb_ctl_submit m2))" "pktids_inv (rx_pktids m2)" "unat (max_ioctlrespbuf m2) < 65536"
    using sent(2) rx(1) cnt(3) by (simp_all add: m2_def mc_def m1_def)
  from ioctlresp_post_run [OF this(1,2) lt this(3), of env] obtain m3 rest where post: "brcmf_msgbuf_rxbuf_ioctlresp_post env m2 = Some m3" "pktids_inv (rx_pktids m3)"
    "\<forall>i v. pktid_of (rx_pktids m2) i = Some v \<longrightarrow> pktid_of (rx_pktids m3) i = Some v"
    "h2d_items (mb_ctl_submit m3) = h2d_items (mb_ctl_submit m2) @ rest" "ctl_completed m3 = ctl_completed m2"
    "ioctl_resp_status m3 = ioctl_resp_status m2" "ioctl_resp_ret_len m3 = ioctl_resp_ret_len m2" "ioctl_resp_pktid m3 = ioctl_resp_pktid m2"
    by blast
  have "brcmf_msgbuf_process_ioctl_complete env resp m1 = Some m3"
    unfolding brcmf_msgbuf_process_ioctl_complete_def resp(1-3) using post(1) by (simp only: Option.bind.simps Let_def mc_def [symmetric] m2_def [symmetric])
  then have w: "waiting m1 = m3" by (rule waiting)
  have b3: "pktid_of (rx_pktids m3) i = Some (s, pa, 0)" using post(3) rx(2) by (simp add: m2_def mc_def m1_def)
  from mb_get_rx_eq(2) [OF post(2) b3] obtain t l where
    g: "mb_get_rx i m3 = Some (Some s, mb_emit l (m3\<lparr>rx_pktids := t\<rparr>))" "pktid_of t = (pktid_of (rx_pktids m3))(i := None)" by blast
  define m4 where "m4 = mb_emit l (m3\<lparr>rx_pktids := t\<rparr>)"
  have m4: "ioctl_resp_ret_len m4 = ucast rl" "ioctl_resp_status m4 = sint st" "rx_pktids m4 = t" "mb_ctl_submit m4 = mb_ctl_submit m3"
    using post by (simp_all add: m4_def mb_emit_def m2_def mc_def)
  have n: "unat (if len < ioctl_resp_ret_len m4 then len else ioctl_resp_ret_len m4) = ?n" by (auto simp: m4(1) word_less_nat_alt)
  have rd: "read_bytes (sk_data s) 0 ?n = Some (take ?n (sk_data s))" using resp(4) by (simp add: read_bytes_def)
  have wr: "write_bytes b 0 (take ?n (sk_data s)) = Some (take ?n (sk_data s) @ drop ?n b)"
    using resp(4) buf(2) by (simp add: write_bytes_def min_absorb2)
  have c3: "ctl_completed m3" "ioctl_resp_pktid m3 = i" using post by (simp_all add: m2_def mc_def)
  have q: "brcmf_msgbuf_query_dcmd waiting ifidx cmd (Some b) len m
      = Some (OK, sint st, Some (take ?n (sk_data s) @ drop ?n b), mb_emit [FreeSkb s] m4)"
  proof (cases "rl = 0")
    case True
    then show ?thesis using sent(1) w c3 g(1) m4 by (simp add: brcmf_msgbuf_query_dcmd_def m1_def [symmetric] m4_def [symmetric])
  next
    case False
    then have "(ucast rl :: u32) \<noteq> 0" by (metis unat_ucast_widths(3) unat_0 unat_eq_0)
    then show ?thesis using sent(1) w c3 g(1) m4 rd wr n
      by (simp add: brcmf_msgbuf_query_dcmd_def m1_def [symmetric] m4_def [symmetric] Let_def split del: if_split)
  qed
  then show ?thesis
    using post(4) sent(3) g(2) m4
    by (intro exI [of _ "mb_emit [FreeSkb s] m4"] exI [of _ rest]) (simp add: mb_emit_def, simp add: m2_def mc_def m1_def)
qed

text \<open>The failures of a control request: \<open>-ENOMEM\<close> with nothing submitted when the control ring is full,
  \<open>-EIO\<close> when no completion arrives in time, \<open>-EBADF\<close> when the completion announces data under an identifier no
  buffer is bound to; in each the caller's buffer is unchanged.\<close>

theorem ioctl_errors:
  assumes ctl: "h2d_inv (fst (mb_ctl_submit m))"
    and buf: "length (ioctbuf m) = 1518" "length b = unat len" "unat len < 65536"
  shows "(length (h2d_items (mb_ctl_submit m)) = ring_cap (mb_ctl_submit m) \<longrightarrow>
       (\<exists>ring. brcmf_msgbuf_query_dcmd waiting ifidx cmd (Some b) len m
            = Some (ERR ENOMEM, 0, Some b, m\<lparr>ctl_completed := False, mb_ctl_submit := ring\<rparr>)
          \<and> h2d_items ring = h2d_items (mb_ctl_submit m)))
    \<and> (length (h2d_items (mb_ctl_submit m)) < ring_cap (mb_ctl_submit m) \<longrightarrow>
       (\<exists>m1. h2d_items (mb_ctl_submit m1) = h2d_items (mb_ctl_submit m) @ [ioctl_req ifidx cmd len m] \<and> \<not> ctl_completed m1
          \<and> (\<not> ctl_completed (waiting m1) \<longrightarrow>
               brcmf_msgbuf_query_dcmd waiting ifidx cmd (Some b) len m = Some (ERR EIO, 0, Some b, waiting m1))
          \<and> (ctl_completed (waiting m1) \<and> ioctl_resp_ret_len (waiting m1) \<noteq> 0 \<and> pktids_inv (rx_pktids (waiting m1))
               \<and> pktid_of (rx_pktids (waiting m1)) (ioctl_resp_pktid (waiting m1)) = None \<longrightarrow>
               brcmf_msgbuf_query_dcmd waiting ifidx cmd (Some b) len m = Some (ERR EBADF, 0, Some b, waiting m1))))"
proof -
  let ?m = "m\<lparr>ctl_completed := False\<rparr>"
  have req: "ioctl_req ifidx cmd len ?m = ioctl_req ifidx cmd len m" by (simp add: ioctl_req_def)
  have pre: "h2d_inv (fst (mb_ctl_submit ?m))" "length (ioctbuf ?m) = 1518" using ctl buf(1) by simp_all
  show ?thesis
  proof (cases rule: tx_ioctl_cases [OF pre buf(2,3), of ifidx cmd, case_names full sent])
    case (full ring)
    then have "brcmf_msgbuf_query_dcmd waiting ifidx cmd (Some b) len m = Some (ERR ENOMEM, 0, Some b, m\<lparr>ctl_completed := False, mb_ctl_submit := ring\<rparr>)"
      by (simp add: brcmf_msgbuf_query_dcmd_def)
    then show ?thesis using full by (intro conjI impI exI [of _ ring]) simp_all
  next
    case (sent ring)
    let ?m1 = "?m\<lparr>mb_reqid := mb_reqid ?m + 1, mb_ctl_submit := ring,
      ioctbuf := take (min (unat len) 1518) b @ drop (min (unat len) 1518) (ioctbuf ?m)\<rparr>"
    have e: "brcmf_msgbuf_query_dcmd waiting ifidx cmd (Some b) len m = (if \<not> ctl_completed (waiting ?m1) then Some (ERR EIO, 0, Some b, waiting ?m1)
       else do {
         (skb, m) \<leftarrow> mb_get_rx (ioctl_resp_pktid (waiting ?m1)) (waiting ?m1);
         if ioctl_resp_ret_len m \<noteq> 0 then
           (case skb of
              None \<Rightarrow> Some (ERR EBADF, 0, Some b, m)
            | Some s \<Rightarrow> do {
                b \<leftarrow> Some b;
                let n = (if len < ioctl_resp_ret_len m then len else ioctl_resp_ret_len m);
                bs \<leftarrow> read_bytes (sk_data s) 0 (unat n);
                b \<leftarrow> write_bytes b 0 bs;
                Some (OK, ioctl_resp_status m, Some b, mb_emit [FreeSkb s] m) })
         else Some (OK, ioctl_resp_status m, Some b, mb_emit (case skb of None \<Rightarrow> [] | Some s \<Rightarrow> [FreeSkb s]) m) })"
      unfolding brcmf_msgbuf_query_dcmd_def Let_def sent(1) by simp
    have "brcmf_msgbuf_query_dcmd waiting ifidx cmd (Some b) len m = Some (ERR EBADF, 0, Some b, waiting ?m1)"
      if "ctl_completed (waiting ?m1)" "ioctl_resp_ret_len (waiting ?m1) \<noteq> 0" "pktids_inv (rx_pktids (waiting ?m1))"
        "pktid_of (rx_pktids (waiting ?m1)) (ioctl_resp_pktid (waiting ?m1)) = None"
      using that(1,2) mb_get_rx_eq(1) [OF that(3,4)] by (simp add: e)
    then show ?thesis using sent(3,5) by (intro conjI impI exI [of _ ?m1]) (simp_all add: req, simp add: e)
  qed
qed

lemma mb_ex_ctl: "length (h2d_items (mb_ctl_submit mb_ex)) < ring_cap (mb_ctl_submit mb_ex)"
proof -
  have c: "0 < (512 :: u16)" "0 < (48 :: u16)" "unat (512 :: u16) * unat (48 :: u16) < 2 ^ 31" by simp_all
  have up: "pcie_up shm_ex" by (simp add: shm_ex_def)
  show ?thesis
    using config_h2d(2,3) [OF up c, of "\<lparr>r_ptr = 0, w_ptr = 0, f_ptr = 0, depth = 0, item_len = 0, inited = False, was_full = False\<rparr>" "\<lambda>_. rx_bufpost_zero"]
    by (simp add: mb_ex_simps mbring_ex_def)
qed

lemma mb_ex_more: "length (ioctbuf mb_ex) = 1518" "cur_ioctlrespbuf mb_ex = 0" "max_ioctlrespbuf mb_ex = 8"
  by (simp_all add: mb_ex_def msgbuf_init_def Let_def)

theorem ioctl_roundtrip_witness:
  "\<exists>m'. brcmf_msgbuf_query_dcmd (\<lambda>m1. case brcmf_msgbuf_process_ioctl_complete env_ex ([0xC, 0, 0, 0] @ le32 0 @ le16 0 @ le16 0 @ le16 2) m1 of
        Some m2 \<Rightarrow> m2 | None \<Rightarrow> m1) 0 1 (Some [9, 9, 9]) 3
      (mb_ex\<lparr>rx_pktids := \<lparr>array_size = 1, last_allocated_idx = 0,
         pk_array = [\<lparr>allocated = True, data_offset = 0, pk_skb = Some skb_ex, pk_physaddr = 0x1000\<rparr>]\<rparr>\<rparr>)
     = Some (OK, 0, Some [2, 0, 9], m')"
proof -
  let ?t = "\<lparr>array_size = 1, last_allocated_idx = 0,
     pk_array = [\<lparr>allocated = True, data_offset = 0, pk_skb = Some skb_ex, pk_physaddr = 0x1000\<rparr>]\<rparr>"
  let ?m = "mb_ex\<lparr>rx_pktids := ?t\<rparr>" and ?resp = "[0xC, 0, 0, 0] @ le32 0 @ le16 0 @ le16 0 @ le16 2 :: u8 list"
  have ctl: "h2d_inv (fst (mb_ctl_submit ?m))" "length (h2d_items (mb_ctl_submit ?m)) < ring_cap (mb_ctl_submit ?m)"
    using mb_ex_ctl by (simp_all add: mb_ex_simps mbring_ex_inv)
  have rx: "pktids_inv (rx_pktids ?m)" "pktid_of (rx_pktids ?m) 0 = Some (skb_ex, 0x1000, 0)"
    by (simp_all add: pktids_inv_def pktid_of_def nth_opt_def)
  have cnt: "cur_ioctlrespbuf ?m \<le> max_ioctlrespbuf ?m" "0 < max_ioctlrespbuf ?m" "unat (max_ioctlrespbuf ?m) < 65536"
    by (simp_all add: mb_ex_more)
  have buf: "length (ioctbuf ?m) = 1518" "length [9, 9, 9 :: u8] = unat (3 :: u32)" "unat (3 :: u32) < 65536" by (simp_all add: mb_ex_more)
  have resp: "msg_request_id ?resp = Some 0" "compl_status ?resp = Some 0" "get_le16 ?resp 12 = Some 2" "unat (2 :: u16) \<le> length (sk_data skb_ex)"
    by (simp_all add: msg_request_id_def compl_status_def get_le32_def get_le16_def nth_opt_def le32_def le16_def of_le32_def of_le16_def skb_ex_def)
  show ?thesis
    using ioctl_roundtrip [OF ctl rx cnt buf resp, of env_ex "\<lambda>m1. case brcmf_msgbuf_process_ioctl_complete env_ex ?resp m1 of Some m2 \<Rightarrow> m2 | None \<Rightarrow> m1" 0 1]
    by (auto simp: skb_ex_def min_def)
qed

theorem ioctl_errors_witness:
  "\<exists>m1. brcmf_msgbuf_query_dcmd id 0 1 (Some [9, 9, 9]) 3 mb_ex = Some (ERR EIO, 0, Some [9, 9, 9], m1)"
proof -
  have "h2d_inv (fst (mb_ctl_submit mb_ex))" "length [9, 9, 9 :: u8] = unat (3 :: u32)" "unat (3 :: u32) < 65536"
    by (simp_all add: mb_ex_simps mbring_ex_inv)
  from ioctl_errors [OF this(1) mb_ex_more(1) this(2,3), of id 0 1] mb_ex_ctl show ?thesis by auto
qed

end
