(* ===== verification/Fweh.thy ===== *)
theory Fweh
  imports Prelude
begin

text \<open>
  Firmware events: \<open>fweh.c\<close>, the packet check of \<open>fweh.h\<close>, and the event map and activation of the
  Cypress vendor module (\<open>cyw/core.c\<close>).

  An event packet arrives as an Ethernet frame; if it is well formed and someone listens, its message and data
  are queued, and a worker later converts the message and calls the handler registered for the code. Handlers
  are values of a type \<open>'h\<close>, interfaces of a type \<open>'i\<close>; a call of a handler and the calls into the core
  are recorded in a log, and the outcomes of the core's functions and of the firmware interface are parameters.
  An index outside a table or past the end of a buffer is \<^const>\<open>None\<close>.
\<close>

section \<open>State\<close>

abbreviation ETH_P_LINK_CTL :: u16 where "ETH_P_LINK_CTL \<equiv> 0x886c"
abbreviation BRCMF_E_IF :: u32 where "BRCMF_E_IF \<equiv> 54"
abbreviation BRCMF_E_TDLS_PEER_EVENT :: u32 where "BRCMF_E_TDLS_PEER_EVENT \<equiv> 92"
abbreviation BRCMF_DCMD_MAXLEN :: u32 where "BRCMF_DCMD_MAXLEN \<equiv> 8192"

text \<open>The message as the handlers see it, in host byte order.\<close>

record brcmf_event_msg =
  em_version :: u16
  em_flags :: u16
  em_event_code :: u32
  em_status :: u32
  em_reason :: u32
  em_auth_type :: u32
  em_datalen :: u32
  em_addr :: "u8 list"
  em_ifname :: "u8 list"
  em_ifidx :: u8
  em_bsscfgidx :: u8

text \<open>A queued event; its message is still the 48 big-endian bytes of the packet.\<close>

record brcmf_fweh_queue_item =
  qi_code :: u32
  qi_ifidx :: u8
  qi_ifaddr :: "u8 list"
  qi_emsg :: "u8 list"
  qi_datalen :: u32
  qi_data :: "u8 list"

record 'h brcmf_fweh_info =
  p2pdev_setup_ongoing :: bool
  event_q :: "brcmf_fweh_queue_item list"
  event_mask_len :: u32
  event_mask :: "u8 list"
  event_map :: "(u32 \<times> u32) list option"
  num_event_codes :: u32
  evt_handler :: "'h option list"

datatype ('h, 'i) fw_action =
    CallHandler 'h 'i brcmf_event_msg "u8 list"
  | ProtoAddIf 'i
  | NetAttach 'i
  | ProtoResetIf 'i
  | RemoveInterface 'i
  | FilSet string "u8 list"

record ('h, 'i) fw_drv =
  dv_fweh :: "'h brcmf_fweh_info"
  dv_iflist :: "'i option list"
  dv_log :: "('h, 'i) fw_action list"

text \<open>What the core answers: the interface added (or an error) with the new table, whether attaching the
  network device succeeds, and whether someone waits for the interface event.\<close>

record 'i fw_core =
  fc_add_if :: "u8 \<Rightarrow> u8 \<Rightarrow> bool \<Rightarrow> u8 list \<Rightarrow> u8 list \<Rightarrow> 'i option list \<Rightarrow> 'i option \<times> 'i option list"
  fc_net_attach :: "'i \<Rightarrow> bool"
  fc_armed :: bool

definition dv_emit :: "('h, 'i) fw_action \<Rightarrow> ('h, 'i) fw_drv \<Rightarrow> ('h, 'i) fw_drv" where
  "dv_emit a d = d\<lparr>dv_log := dv_log d @ [a]\<rparr>"

definition get_be16 :: "u8 list \<Rightarrow> nat \<Rightarrow> u16 option" where
  "get_be16 b off = do { x \<leftarrow> nth_opt b off; y \<leftarrow> nth_opt b (off + 1); Some (of_le16 y x) }"

definition get_be32 :: "u8 list \<Rightarrow> nat \<Rightarrow> u32 option" where
  "get_be32 b off = do { x \<leftarrow> nth_opt b off; y \<leftarrow> nth_opt b (off + 1); z \<leftarrow> nth_opt b (off + 2);
     w \<leftarrow> nth_opt b (off + 3); Some (of_le32 w z y x) }"

section \<open>Registration and the event map\<close>

definition brcmf_fweh_map_event_code :: "'h brcmf_fweh_info \<Rightarrow> u32 \<Rightarrow> u32" where
  "brcmf_fweh_map_event_code fweh code =
     (case event_map fweh of
        None \<Rightarrow> code
      | Some items \<Rightarrow> (case find (\<lambda>(c, f). c = code) items of Some (c, f) \<Rightarrow> f | None \<Rightarrow> code))"

definition brcmf_fweh_map_fwevt_code :: "'h brcmf_fweh_info \<Rightarrow> u32 \<Rightarrow> u32" where
  "brcmf_fweh_map_fwevt_code fweh fw_code =
     (case event_map fweh of
        None \<Rightarrow> fw_code
      | Some items \<Rightarrow> (case find (\<lambda>(c, f). f = fw_code) items of Some (c, f) \<Rightarrow> c | None \<Rightarrow> fw_code))"

definition brcmf_fweh_register :: "'h brcmf_fweh_info \<Rightarrow> u32 \<Rightarrow> 'h \<Rightarrow> (rc \<times> 'h brcmf_fweh_info) option" where
  "brcmf_fweh_register fweh code handler = do {
     let idx = brcmf_fweh_map_event_code fweh code;
     h \<leftarrow> nth_opt (evt_handler fweh) (unat idx);
     if h \<noteq> None then Some (ERR ENOSPC, fweh)
     else Some (OK, fweh\<lparr>evt_handler := (evt_handler fweh)[unat idx := Some handler]\<rparr>) }"

definition brcmf_fweh_unregister :: "'h brcmf_fweh_info \<Rightarrow> u32 \<Rightarrow> 'h brcmf_fweh_info option" where
  "brcmf_fweh_unregister fweh code = do {
     hs \<leftarrow> upd_opt (evt_handler fweh) (unat (brcmf_fweh_map_event_code fweh code)) None;
     Some (fweh\<lparr>evt_handler := hs\<rparr>) }"

definition brcmf_cyw_event_map :: "(u32 \<times> u32) list" where
  "brcmf_cyw_event_map = [(0x80000000, 187), (0x80000001, 188), (0x80000002, 189), (0x80000003, 190)]"

definition brcmf_cyw_alloc_fweh_info :: "'h brcmf_fweh_info" where
  "brcmf_cyw_alloc_fweh_info =
     \<lparr>p2pdev_setup_ongoing = False, event_q = [], event_mask_len = 0, event_mask = [],
      event_map = Some brcmf_cyw_event_map, num_event_codes = 197, evt_handler = replicate 197 None\<rparr>"

text \<open>\<open>info\<close> is what the vendor module allocates; \<open>-ENOMEM\<close> is the only error of its function.\<close>

definition brcmf_fweh_attach :: "'h brcmf_fweh_info option \<Rightarrow> bool \<Rightarrow> errno + 'h brcmf_fweh_info" where
  "brcmf_fweh_attach info alloc =
     (case info of
        None \<Rightarrow> Inl ENOMEM
      | Some fweh \<Rightarrow>
          let len = (num_event_codes fweh + 7) div 8 in
          if \<not> alloc then Inl ENOMEM
          else Inr (fweh\<lparr>event_mask_len := len, event_mask := replicate (unat len) 0, event_q := []\<rparr>))"

definition brcmf_fweh_p2pdev_setup :: "bool \<Rightarrow> 'h brcmf_fweh_info \<Rightarrow> 'h brcmf_fweh_info" where
  "brcmf_fweh_p2pdev_setup ongoing fweh = fweh\<lparr>p2pdev_setup_ongoing := ongoing\<rparr>"

section \<open>Receiving\<close>

definition brcmf_fweh_queue_event :: "brcmf_fweh_queue_item \<Rightarrow> 'h brcmf_fweh_info \<Rightarrow> 'h brcmf_fweh_info" where
  "brcmf_fweh_queue_event event fweh = fweh\<lparr>event_q := event_q fweh @ [event]\<rparr>"

text \<open>\<open>p\<close> is the packet from its MAC header on.\<close>

definition brcmf_fweh_process_event :: "bool \<Rightarrow> u8 list \<Rightarrow> 'h brcmf_fweh_info \<Rightarrow> 'h brcmf_fweh_info option" where
  "brcmf_fweh_process_event alloc p fweh = do {
     fwevt_idx \<leftarrow> get_be32 p 28;
     datalen \<leftarrow> get_be32 p 44;
     if num_event_codes fweh \<le> fwevt_idx then Some fweh
     else do {
       listening \<leftarrow> (if fwevt_idx = BRCMF_E_IF then Some True
                    else map_option (\<lambda>h. h \<noteq> None) (nth_opt (evt_handler fweh) (unat fwevt_idx)));
       if \<not> listening then Some fweh
       else if BRCMF_DCMD_MAXLEN < datalen \<or> length p < unat datalen + 72 then Some fweh
       else if \<not> alloc then Some fweh
       else do {
         ifidx \<leftarrow> nth_opt p 70;
         emsg \<leftarrow> read_bytes p 24 48;
         data \<leftarrow> read_bytes p 72 (unat datalen);
         ifaddr \<leftarrow> read_bytes p 0 6;
         Some (brcmf_fweh_queue_event
           \<lparr>qi_code = fwevt_idx, qi_ifidx = ifidx, qi_ifaddr = ifaddr, qi_emsg = emsg, qi_datalen = datalen, qi_data = data\<rparr>
           fweh) } } }"

definition brcmf_fweh_process_skb :: "bool \<Rightarrow> u16 \<Rightarrow> u16 \<Rightarrow> u8 list \<Rightarrow> 'h brcmf_fweh_info \<Rightarrow> 'h brcmf_fweh_info option" where
  "brcmf_fweh_process_skb alloc protocol stype p fweh =
     (if protocol \<noteq> ETH_P_LINK_CTL then Some fweh
      else if length p < 72 then Some fweh
      else do {
        subtype_ok \<leftarrow> (if stype \<noteq> 0 then map_option (\<lambda>s. s = stype) (get_be16 p 14) else Some True);
        if \<not> subtype_ok then Some fweh
        else do {
          oui \<leftarrow> read_bytes p 19 3;
          if oui \<noteq> [0x00, 0x10, 0x18] then Some fweh
          else do {
            usr_stype \<leftarrow> get_be16 p 22;
            if usr_stype \<noteq> 1 then Some fweh else brcmf_fweh_process_event alloc p fweh } } })"

section \<open>The worker\<close>

definition brcmf_fweh_dequeue_event :: "'h brcmf_fweh_info \<Rightarrow> brcmf_fweh_queue_item option \<times> 'h brcmf_fweh_info" where
  "brcmf_fweh_dequeue_event fweh = (case event_q fweh of
     [] \<Rightarrow> (None, fweh) | e # es \<Rightarrow> (Some e, fweh\<lparr>event_q := es\<rparr>))"

definition brcmf_fweh_call_event_handler ::
  "'i option \<Rightarrow> u32 \<Rightarrow> brcmf_event_msg \<Rightarrow> u8 list \<Rightarrow> ('h, 'i) fw_drv \<Rightarrow> ('h, 'i) fw_drv option" where
  "brcmf_fweh_call_event_handler ifp fwcode emsg data d =
     (case ifp of
        None \<Rightarrow> Some d
      | Some i \<Rightarrow> do {
          h \<leftarrow> nth_opt (evt_handler (dv_fweh d)) (unat fwcode);
          case h of Some handler \<Rightarrow> Some (dv_emit (CallHandler handler i emsg data) d) | None \<Rightarrow> Some d })"

text \<open>The interface event's data are five bytes: interface index, action, flags, configuration index, role.\<close>

definition fw_is_p2pdev :: "'h brcmf_fweh_info \<Rightarrow> u8 list \<Rightarrow> bool option" where
  "fw_is_p2pdev fweh data = do {
     flags \<leftarrow> nth_opt data 2;
     if flags AND 1 = 0 then Some False
     else do { role \<leftarrow> nth_opt data 4; Some (role = 4 \<or> role = 0 \<and> p2pdev_setup_ongoing fweh) } }"

definition brcmf_fweh_handle_if_event ::
  "'i fw_core \<Rightarrow> brcmf_event_msg \<Rightarrow> u8 list \<Rightarrow> ('h, 'i) fw_drv \<Rightarrow> ('h, 'i) fw_drv option" where
  "brcmf_fweh_handle_if_event core emsg data d = do {
     is_p2pdev \<leftarrow> fw_is_p2pdev (dv_fweh d) data;
     flags \<leftarrow> nth_opt data 2;
     if \<not> is_p2pdev \<and> flags AND 1 \<noteq> 0 then Some d
     else do {
       ifidx \<leftarrow> nth_opt data 0;
       if 16 \<le> ifidx then Some d
       else do {
         bsscfgidx \<leftarrow> nth_opt data 3;
         if 16 \<le> bsscfgidx then Some d
         else do {
           action \<leftarrow> nth_opt data 1;
           ifp \<leftarrow> nth_opt (dv_iflist d) (unat bsscfgidx);
           if action = 1 then
             (case fc_add_if core bsscfgidx ifidx is_p2pdev (em_ifname emsg) (em_addr emsg) (dv_iflist d) of
                (None, il) \<Rightarrow> Some (d\<lparr>dv_iflist := il\<rparr>)
              | (Some i, il) \<Rightarrow> do {
                  let d = d\<lparr>dv_iflist := il\<rparr>;
                  let d = (if \<not> is_p2pdev then dv_emit (ProtoAddIf i) d else d);
                  h \<leftarrow> nth_opt (evt_handler (dv_fweh d)) (unat BRCMF_E_IF);
                  if h = None then
                    let d = dv_emit (NetAttach i) d in
                    if \<not> fc_net_attach core i then Some d
                    else brcmf_fweh_call_event_handler (Some i) (em_event_code emsg) emsg data d
                  else brcmf_fweh_call_event_handler (Some i) (em_event_code emsg) emsg data d })
           else do {
             let d = (case ifp of Some i \<Rightarrow> if action = 3 then dv_emit (ProtoResetIf i) d else d | None \<Rightarrow> d);
             d \<leftarrow> brcmf_fweh_call_event_handler ifp (em_event_code emsg) emsg data d;
             Some (case ifp of
                 Some i \<Rightarrow> if action = 2 \<and> \<not> fc_armed core then dv_emit (RemoveInterface i) d else d
               | None \<Rightarrow> d) } } } } }"

text \<open>The conversion of the message.\<close>

definition fw_emsg :: "u32 \<Rightarrow> u8 list \<Rightarrow> brcmf_event_msg option" where
  "fw_emsg code b = do {
     version \<leftarrow> get_be16 b 0; flags \<leftarrow> get_be16 b 2;
     st \<leftarrow> get_be32 b 8; reason \<leftarrow> get_be32 b 12; auth \<leftarrow> get_be32 b 16; datalen \<leftarrow> get_be32 b 20;
     addr \<leftarrow> read_bytes b 24 6; ifname \<leftarrow> read_bytes b 30 16;
     ifidx \<leftarrow> nth_opt b 46; bsscfgidx \<leftarrow> nth_opt b 47;
     Some \<lparr>em_version = version, em_flags = flags, em_event_code = code, em_status = st, em_reason = reason,
           em_auth_type = auth, em_datalen = datalen, em_addr = addr, em_ifname = ifname, em_ifidx = ifidx,
           em_bsscfgidx = bsscfgidx\<rparr> }"

definition fw_handle_event :: "'i fw_core \<Rightarrow> brcmf_fweh_queue_item \<Rightarrow> ('h, 'i) fw_drv \<Rightarrow> ('h, 'i) fw_drv option" where
  "fw_handle_event core event d = do {
     let code = brcmf_fweh_map_fwevt_code (dv_fweh d) (qi_code event);
     bsscfgidx \<leftarrow> nth_opt (qi_emsg event) 47;
     if 16 \<le> bsscfgidx then Some d
     else do {
       emsg \<leftarrow> fw_emsg code (qi_emsg event);
       if qi_code event = BRCMF_E_IF then brcmf_fweh_handle_if_event core emsg (qi_data event) d
       else do {
         ifp \<leftarrow> nth_opt (dv_iflist d) (if qi_code event = BRCMF_E_TDLS_PEER_EVENT then 0 else unat (em_bsscfgidx emsg));
         brcmf_fweh_call_event_handler ifp (qi_code event) emsg (qi_data event) d } } }"

partial_function (option) brcmf_fweh_event_worker :: "'i fw_core \<Rightarrow> ('h, 'i) fw_drv \<Rightarrow> ('h, 'i) fw_drv option" where
  "brcmf_fweh_event_worker core d =
     (case brcmf_fweh_dequeue_event (dv_fweh d) of
        (None, fweh) \<Rightarrow> Some (d\<lparr>dv_fweh := fweh\<rparr>)
      | (Some event, fweh) \<Rightarrow> do {
          d \<leftarrow> fw_handle_event core event (d\<lparr>dv_fweh := fweh\<rparr>);
          brcmf_fweh_event_worker core d })"

section \<open>Event masks\<close>

text \<open>\<open>setbit\<close> on a byte array.\<close>

definition setbit :: "u8 list \<Rightarrow> nat \<Rightarrow> u8 list option" where
  "setbit bm i = do { b \<leftarrow> nth_opt bm (i div 8); Some (bm[i div 8 := b OR push_bit (i mod 8) 1]) }"

fun set_handler_bits :: "'h option list \<Rightarrow> nat list \<Rightarrow> u8 list \<Rightarrow> u8 list option" where
  "set_handler_bits hs [] bm = Some bm"
| "set_handler_bits hs (i # is) bm = do {
     h \<leftarrow> nth_opt hs i;
     bm \<leftarrow> (if h \<noteq> None then setbit bm i else Some bm);
     set_handler_bits hs is bm }"

text \<open>\<open>struct brcmf_eventmsgs_ext_le\<close> as its bytes.\<close>

definition eventmsgs :: "u8 \<Rightarrow> u8 \<Rightarrow> u8 \<Rightarrow> u8 \<Rightarrow> u8 list \<Rightarrow> u8 list" where
  "eventmsgs version command len maxgetsize bm = [version, command, len, maxgetsize] @ bm"

text \<open>\<open>fget\<close> and \<open>fset\<close> are the firmware variable accesses: the first returns the bytes read. \<open>ext\<close> is
  whether the firmware has the extended variable, \<open>vendor\<close> the result of the vendor's activation.\<close>

definition brcmf_fweh_init_events ::
  "(string \<Rightarrow> u8 list \<Rightarrow> rc \<times> u8 list) \<Rightarrow> (string \<Rightarrow> u8 list \<Rightarrow> rc) \<Rightarrow> bool \<Rightarrow> bool \<Rightarrow> ('h, 'i) fw_drv
     \<Rightarrow> (rc \<times> ('h, 'i) fw_drv) option" where
  "brcmf_fweh_init_events fget fset alloc ext d =
     (let fweh = dv_fweh d; n = event_mask_len fweh in
      if \<not> alloc then Some (ERR ENOMEM, d)
      else
        let msg = eventmsgs 1 0 (ucast n) (ucast n) (replicate (unat n) 0);
            (err, got) = (if ext then fget ''event_msgs_ext'' msg else fget ''event_msgs'' (event_mask fweh))
        in if err \<noteq> OK then Some (err, d)
           else do {
             let msg = (if ext then got else msg);
             let fweh = (if ext then fweh else fweh\<lparr>event_mask := got\<rparr>);
             bm \<leftarrow> setbit (drop 4 msg) (unat BRCMF_E_IF);
             maxget \<leftarrow> nth_opt msg 3;
             let msg = eventmsgs 1 3 (ucast n) maxget bm;
             let (name, out) = (if ext then (''event_msgs_ext'', msg) else (''event_msgs'', event_mask fweh));
             Some (fset name out, dv_emit (FilSet name out) (d\<lparr>dv_fweh := fweh\<rparr>)) })"

text \<open>The Cypress module's activation: the message is version, command, length and the mask of the event
  information (\<open>struct brcmf_eventmsgs_ext\<close>).\<close>

definition brcmf_cyw_activate_events :: "(string \<Rightarrow> u8 list \<Rightarrow> rc) \<Rightarrow> bool \<Rightarrow> ('h, 'i) fw_drv \<Rightarrow> rc \<times> ('h, 'i) fw_drv" where
  "brcmf_cyw_activate_events fset alloc d =
     (if \<not> alloc then (ERR ENOMEM, d)
      else let out = eventmsgs 1 3 (ucast (event_mask_len (dv_fweh d))) 0 (event_mask (dv_fweh d))
           in (fset ''event_msgs_ext'' out, dv_emit (FilSet ''event_msgs_ext'' out) d))"

definition brcmf_fweh_activate_events ::
  "(string \<Rightarrow> u8 list \<Rightarrow> rc) \<Rightarrow> (('h, 'i) fw_drv \<Rightarrow> rc \<times> ('h, 'i) fw_drv) \<Rightarrow> bool \<Rightarrow> bool \<Rightarrow> ('h, 'i) fw_drv
     \<Rightarrow> (rc \<times> ('h, 'i) fw_drv) option" where
  "brcmf_fweh_activate_events fset vendor alloc ext d =
     (let n = event_mask_len (dv_fweh d) in
      if \<not> alloc then Some (ERR ENOMEM, d)
      else do {
        bm \<leftarrow> set_handler_bits (evt_handler (dv_fweh d)) [0..<unat (num_event_codes (dv_fweh d))] (replicate (unat n) 0);
        bm \<leftarrow> setbit bm (unat BRCMF_E_IF);
        let msg = eventmsgs 1 3 (ucast n) 0 bm;
        let (err, d) = vendor d;
        if err = OK then Some (OK, d)
        else
          let (name, out) = (if ext then (''event_msgs_ext'', msg) else (''event_msgs'', event_mask (dv_fweh d)))
          in Some (fset name out, dv_emit (FilSet name out) d) })"

section \<open>The worker drains the queue in order\<close>

text \<open>A reference for the worker: every queued event is handled once, in the order of the queue, on a driver
  whose queue is already empty.\<close>

fun deliver_all :: "'i fw_core \<Rightarrow> brcmf_fweh_queue_item list \<Rightarrow> ('h, 'i) fw_drv \<Rightarrow> ('h, 'i) fw_drv option" where
  "deliver_all core [] d = Some d"
| "deliver_all core (e # es) d = do { d \<leftarrow> fw_handle_event core e d; deliver_all core es d }"

definition dv_queue :: "brcmf_fweh_queue_item list \<Rightarrow> ('h, 'i) fw_drv \<Rightarrow> ('h, 'i) fw_drv" where
  "dv_queue q d = d\<lparr>dv_fweh := (dv_fweh d)\<lparr>event_q := q\<rparr>\<rparr>"

lemma dv_queue_simps [simp]:
  "dv_fweh (dv_queue q d) = (dv_fweh d)\<lparr>event_q := q\<rparr>"
  "dv_iflist (dv_queue q d) = dv_iflist d"
  "dv_log (dv_queue q d) = dv_log d"
  "dv_queue q (dv_queue q' d) = dv_queue q d"
  "(dv_queue q d)\<lparr>dv_iflist := il\<rparr> = dv_queue q (d\<lparr>dv_iflist := il\<rparr>)"
  "brcmf_fweh_map_fwevt_code ((dv_fweh d)\<lparr>event_q := q\<rparr>) = brcmf_fweh_map_fwevt_code (dv_fweh d)"
  "brcmf_fweh_map_event_code ((dv_fweh d)\<lparr>event_q := q\<rparr>) = brcmf_fweh_map_event_code (dv_fweh d)"
  "fw_is_p2pdev ((dv_fweh d)\<lparr>event_q := q\<rparr>) = fw_is_p2pdev (dv_fweh d)"
  "dv_emit a (dv_queue q d) = dv_queue q (dv_emit a d)"
  "dv_fweh (dv_emit a d) = dv_fweh d"
  "dv_iflist (dv_emit a d) = dv_iflist d"
  "dv_log (dv_emit a d) = dv_log d @ [a]"
  by (simp_all add: fun_eq_iff brcmf_fweh_map_fwevt_code_def brcmf_fweh_map_event_code_def fw_is_p2pdev_def dv_emit_def
      dv_queue_def
      cong: if_cong)

lemma map_option_bind: "map_option f (Option.bind x g) = Option.bind x (\<lambda>y. map_option f (g y))"
  by (cases x) simp_all

lemma bind_map_option: "Option.bind (map_option f x) h = Option.bind x (\<lambda>y. h (f y))"
  by (cases x) simp_all

lemma bind_Some_f: "Option.bind x (\<lambda>y. Some (f y)) = map_option f x"
  by (cases x) simp_all

lemma call_handler_queue:
  "brcmf_fweh_call_event_handler ifp code emsg data (dv_queue q d)
     = map_option (dv_queue q) (brcmf_fweh_call_event_handler ifp code emsg data d)"
  by (auto simp: brcmf_fweh_call_event_handler_def map_option_bind intro!: Option.bind_cong split: option.splits)

lemma call_handler_fweh:
  "brcmf_fweh_call_event_handler ifp code emsg data d = Some d' \<Longrightarrow> dv_fweh d' = dv_fweh d \<and> dv_iflist d' = dv_iflist d"
  by (auto simp: brcmf_fweh_call_event_handler_def bind_Some_iff split: option.splits)

lemma if_event_fweh:
  "brcmf_fweh_handle_if_event core emsg data d = Some d' \<Longrightarrow> dv_fweh d' = dv_fweh d"
  unfolding brcmf_fweh_handle_if_event_def Let_def
  by (auto simp: bind_Some_iff dest!: call_handler_fweh split: if_splits option.splits prod.splits)

lemma handle_event_fweh:
  "fw_handle_event core e d = Some d' \<Longrightarrow> dv_fweh d' = dv_fweh d"
  unfolding fw_handle_event_def Let_def
  by (auto simp: bind_Some_iff dest!: call_handler_fweh if_event_fweh split: if_splits)

lemma if_event_queue:
  "brcmf_fweh_handle_if_event core emsg data (dv_queue q d)
     = map_option (dv_queue q) (brcmf_fweh_handle_if_event core emsg data d)"
  unfolding brcmf_fweh_handle_if_event_def
  by (auto simp: call_handler_queue Let_def map_option_bind bind_map_option bind_Some_f option.map_comp o_def option.map_ident
      intro!: Option.bind_cong option.map_cong0 split: option.splits prod.splits)

lemma handle_event_queue:
  "fw_handle_event core e (dv_queue q d) = map_option (dv_queue q) (fw_handle_event core e d)"
  unfolding fw_handle_event_def
  by (auto simp: call_handler_queue if_event_queue Let_def map_option_bind bind_map_option intro!: Option.bind_cong)

lemma dv_queue_fold: "d\<lparr>dv_fweh := (dv_fweh d)\<lparr>event_q := q\<rparr>\<rparr> = dv_queue q d"
  by (simp add: dv_queue_def)

lemma worker_deliver_all:
  "event_q (dv_fweh d) = q \<Longrightarrow> brcmf_fweh_event_worker core d = deliver_all core q (dv_queue [] d)"
proof (induction q arbitrary: d)
  case Nil
  then show ?case
    by (subst brcmf_fweh_event_worker.simps) (simp add: brcmf_fweh_dequeue_event_def dv_queue_def)
next
  case (Cons e es)
  show ?case
  proof (cases "fw_handle_event core e d")
    case None
    then show ?thesis using Cons.prems
      by (subst brcmf_fweh_event_worker.simps) (simp add: brcmf_fweh_dequeue_event_def handle_event_queue dv_queue_fold)
  next
    case (Some d')
    have "brcmf_fweh_event_worker core (dv_queue es d') = deliver_all core es (dv_queue [] d')"
      using Cons.IH [of "dv_queue es d'"] by simp
    then show ?thesis using Cons.prems Some
      by (subst brcmf_fweh_event_worker.simps) (simp add: brcmf_fweh_dequeue_event_def handle_event_queue dv_queue_fold)
  qed
qed


section \<open>From the wire to the handler\<close>

text \<open>The bytes of an event frame, written from the layout of \<open>struct brcmf_event\<close> (\<open>fweh.h\<close>).\<close>

definition be16 :: "u16 \<Rightarrow> u8 list" where "be16 w = rev (le16 w)"
definition be32 :: "u32 \<Rightarrow> u8 list" where "be32 w = rev (le32 w)"

definition event_bytes :: "u32 \<Rightarrow> brcmf_event_msg \<Rightarrow> u8 list" where
  "event_bytes fwcode m = be16 (em_version m) @ be16 (em_flags m) @ be32 fwcode @ be32 (em_status m)
     @ be32 (em_reason m) @ be32 (em_auth_type m) @ be32 (em_datalen m) @ em_addr m @ em_ifname m
     @ [em_ifidx m, em_bsscfgidx m]"

definition event_frame :: "u8 list \<Rightarrow> u8 list \<Rightarrow> u16 \<Rightarrow> u16 \<Rightarrow> u8 \<Rightarrow> u32 \<Rightarrow> brcmf_event_msg \<Rightarrow> u8 list \<Rightarrow> u8 list" where
  "event_frame dst src sub len ver fwcode m data = dst @ src @ be16 ETH_P_LINK_CTL @ be16 sub @ be16 len @ [ver]
     @ [0x00, 0x10, 0x18] @ be16 1 @ event_bytes fwcode m @ data"

definition event_msg_wf :: "brcmf_event_msg \<Rightarrow> bool" where
  "event_msg_wf m \<longleftrightarrow> length (em_addr m) = 6 \<and> length (em_ifname m) = 16 \<and> em_bsscfgidx m < 16
     \<and> em_datalen m \<le> BRCMF_DCMD_MAXLEN"

lemma length_be [simp]: "length (be16 a) = 2" "length (be32 b) = 4"
  by (simp_all add: be16_def be32_def)

lemma nth_opt_drop: "drop off b = x # r \<Longrightarrow> nth_opt b off = Some x"
  by (metis drop_eq_Nil list.discI nth_opt_Some nth_via_drop not_le)

lemma nth_opt_drop_add: "drop off b = r \<Longrightarrow> r \<noteq> [] \<Longrightarrow> nth_opt b (off + k) = nth_opt r k"
  by (auto simp: nth_opt_def)

lemma get_be16_drop: "drop off b = be16 w @ r \<Longrightarrow> get_be16 b off = Some w"
  using nth_opt_drop_add [of off b "be16 w @ r" 0] nth_opt_drop_add [of off b "be16 w @ r" 1]
  by (simp add: get_be16_def be16_def le16_def nth_opt_def)

lemma get_be32_drop: "drop off b = be32 w @ r \<Longrightarrow> get_be32 b off = Some w"
  using nth_opt_drop_add [of off b "be32 w @ r" 0] nth_opt_drop_add [of off b "be32 w @ r" 1]
    nth_opt_drop_add [of off b "be32 w @ r" 2] nth_opt_drop_add [of off b "be32 w @ r" 3]
  by (simp add: get_be32_def be32_def le32_def nth_opt_def)

lemma read_bytes_drop:
  assumes "drop off b = bs @ r" and "length bs = n" and "off \<le> length b"
  shows "read_bytes b off n = Some bs"
proof -
  have "length b - off = n + length r" using assms by (metis length_append length_drop)
  then show ?thesis using assms by (auto simp: read_bytes_def)
qed

lemma length_event_bytes: "event_msg_wf m \<Longrightarrow> length (event_bytes fwcode m) = 48"
  by (simp add: event_bytes_def event_msg_wf_def)

lemma fw_emsg_event_bytes:
  assumes "event_msg_wf m"
  shows "fw_emsg (em_event_code m) (event_bytes fwcode m) = Some m"
    and "nth_opt (event_bytes fwcode m) 47 = Some (em_bsscfgidx m)"
proof -
  let ?b = "event_bytes fwcode m"
  have l: "length (em_addr m) = 6" "length (em_ifname m) = 16" using assms by (auto simp: event_msg_wf_def)
  note d = event_bytes_def l
  have "get_be16 ?b 0 = Some (em_version m)" by (rule get_be16_drop) (simp add: d)
  moreover have "get_be16 ?b 2 = Some (em_flags m)" by (rule get_be16_drop) (simp add: d)
  moreover have "get_be32 ?b 8 = Some (em_status m)" by (rule get_be32_drop) (simp add: d)
  moreover have "get_be32 ?b 12 = Some (em_reason m)" by (rule get_be32_drop) (simp add: d)
  moreover have "get_be32 ?b 16 = Some (em_auth_type m)" by (rule get_be32_drop) (simp add: d)
  moreover have "get_be32 ?b 20 = Some (em_datalen m)" by (rule get_be32_drop) (simp add: d)
  moreover have "read_bytes ?b 24 6 = Some (em_addr m)" by (rule read_bytes_drop) (simp_all add: d)
  moreover have "read_bytes ?b 30 16 = Some (em_ifname m)" by (rule read_bytes_drop) (simp_all add: d)
  moreover have "nth_opt ?b 46 = Some (em_ifidx m)" by (rule nth_opt_drop) (simp add: d)
  moreover have 47: "nth_opt ?b 47 = Some (em_bsscfgidx m)" by (rule nth_opt_drop) (simp add: d)
  ultimately show "fw_emsg (em_event_code m) ?b = Some m"
    by (simp only: fw_emsg_def Option.bind.simps) simp
  show "nth_opt ?b 47 = Some (em_bsscfgidx m)" by (rule 47)
qed

lemma process_skb_frame:
  assumes m: "event_msg_wf m" and len: "length dst = 6" "length src = 6" "length data = unat (em_datalen m)"
    and sub: "stype = 0 \<or> stype = sub"
    and code: "fwcode < num_event_codes fweh"
    and lis: "fwcode = BRCMF_E_IF \<or> nth_opt (evt_handler fweh) (unat fwcode) = Some (Some h)"
  shows "brcmf_fweh_process_skb True ETH_P_LINK_CTL stype (event_frame dst src sub elen ver fwcode m data @ extra) fweh
    = Some (brcmf_fweh_queue_event \<lparr>qi_code = fwcode, qi_ifidx = em_ifidx m, qi_ifaddr = dst,
        qi_emsg = event_bytes fwcode m, qi_datalen = em_datalen m, qi_data = data\<rparr> fweh)"
proof -
  let ?p = "event_frame dst src sub elen ver fwcode m data @ extra"
  have l: "length (em_addr m) = 6" "length (em_ifname m) = 16" "em_datalen m \<le> 8192"
    using m by (auto simp: event_msg_wf_def)
  note le = length_event_bytes [OF m, of fwcode]
  note d = event_frame_def len le and dd = event_frame_def event_bytes_def len l
  have plen: "length ?p = unat (em_datalen m) + 72 + length extra" by (simp add: d)
  have 14: "get_be16 ?p 14 = Some sub" by (rule get_be16_drop) (simp add: d)
  have 19: "read_bytes ?p 19 3 = Some [0x00, 0x10, 0x18]" by (rule read_bytes_drop) (simp_all add: d)
  have 22: "get_be16 ?p 22 = Some 1" by (rule get_be16_drop) (simp add: d)
  have 28: "get_be32 ?p 28 = Some fwcode" by (rule get_be32_drop) (simp add: dd)
  have 44: "get_be32 ?p 44 = Some (em_datalen m)" by (rule get_be32_drop) (simp add: dd)
  have 70: "nth_opt ?p 70 = Some (em_ifidx m)" by (rule nth_opt_drop) (simp add: dd)
  have 24: "read_bytes ?p 24 48 = Some (event_bytes fwcode m)" by (rule read_bytes_drop) (simp_all add: d)
  have 72: "read_bytes ?p 72 (unat (em_datalen m)) = Some data" by (rule read_bytes_drop) (simp_all add: d)
  have 0: "read_bytes ?p 0 6 = Some dst" by (rule read_bytes_drop) (simp_all add: d)
  have li: "(if fwcode = BRCMF_E_IF then Some True
      else map_option (\<lambda>h. h \<noteq> None) (nth_opt (evt_handler fweh) (unat fwcode))) = Some True"
    using lis by (auto simp del: nth_opt_Some)
  have ev: "brcmf_fweh_process_event True ?p fweh
    = Some (brcmf_fweh_queue_event \<lparr>qi_code = fwcode, qi_ifidx = em_ifidx m, qi_ifaddr = dst,
        qi_emsg = event_bytes fwcode m, qi_datalen = em_datalen m, qi_data = data\<rparr> fweh)"
    unfolding brcmf_fweh_process_event_def 28 44 Option.bind.simps li 70 24 72 0 plen
    using code l(3) by (simp add: not_le not_less)
  have st: "(if stype \<noteq> 0 then map_option (\<lambda>s. s = stype) (Some sub) else Some True) = Some True"
    using sub by auto
  show ?thesis
    unfolding brcmf_fweh_process_skb_def 14 19 22 Option.bind.simps plen ev st by simp
qed

lemma deliver_all_append: "deliver_all core (xs @ ys) d = Option.bind (deliver_all core xs d) (\<lambda>d. deliver_all core ys d)"
  by (induction xs arbitrary: d) (auto intro!: Option.bind_cong)


lemma deliver_all_fweh: "deliver_all core es d = Some d' \<Longrightarrow> dv_fweh d' = dv_fweh d"
  by (induction es arbitrary: d) (auto simp: bind_Some_iff dest!: handle_event_fweh)

lemma cyw_map_roundtrip:
  assumes "event_map fweh = Some brcmf_cyw_event_map" and "code \<notin> {187, 188, 189, 190}"
  shows "brcmf_fweh_map_fwevt_code fweh (brcmf_fweh_map_event_code fweh code) = code"
  using assms by (auto simp: brcmf_fweh_map_fwevt_code_def brcmf_fweh_map_event_code_def brcmf_cyw_event_map_def)

text \<open>C16: an event the firmware sends for a registered code reaches its handler. Register a handler for a code;
  when a frame for the code's firmware number arrives for interface \<open>i\<close>, it is queued behind the events already
  waiting, and the worker, once it has handled those, calls that handler exactly once for \<open>i\<close> with the message
  in host byte order (under the driver's own code) and the frame's data, and leaves the queue empty.\<close>

theorem fweh_event_delivered:
  fixes d :: "('h, 'i) fw_drv"
  assumes "brcmf_fweh_register fweh (em_event_code m) h = Some (OK, dv_fweh d)"
    and "fwcode = brcmf_fweh_map_event_code fweh (em_event_code m)"
    and "brcmf_fweh_map_fwevt_code fweh fwcode = em_event_code m"
    and "fwcode < num_event_codes fweh" and "fwcode \<noteq> BRCMF_E_IF"
    and "event_msg_wf m" and "length dst = 6" and "length src = 6" and "length data = unat (em_datalen m)"
    and "stype = 0 \<or> stype = sub"
    and "brcmf_fweh_event_worker core d = Some d1"
    and "nth_opt (dv_iflist d1) (if fwcode = BRCMF_E_TDLS_PEER_EVENT then 0 else unat (em_bsscfgidx m)) = Some (Some i)"
  shows "\<exists>fweh2. brcmf_fweh_process_skb True ETH_P_LINK_CTL stype
        (event_frame dst src sub elen ver fwcode m data @ extra) (dv_fweh d) = Some fweh2
      \<and> length (event_q fweh2) = Suc (length (event_q (dv_fweh d)))
      \<and> brcmf_fweh_event_worker core (d\<lparr>dv_fweh := fweh2\<rparr>)
        = Some (d1\<lparr>dv_log := dv_log d1 @ [CallHandler h i m data]\<rparr>)
      \<and> event_q (dv_fweh d1) = []"
proof -
  let ?ev = "\<lparr>qi_code = fwcode, qi_ifidx = em_ifidx m, qi_ifaddr = dst,
        qi_emsg = event_bytes fwcode m, qi_datalen = em_datalen m, qi_data = data\<rparr>"
  let ?q = "event_q (dv_fweh d)"
  let ?f2 = "brcmf_fweh_queue_event ?ev (dv_fweh d)"
  have hl: "unat fwcode < length (evt_handler fweh)"
    and d0: "dv_fweh d = fweh\<lparr>evt_handler := (evt_handler fweh)[unat fwcode := Some h]\<rparr>"
    using assms(1,2) by (auto simp: brcmf_fweh_register_def Let_def bind_Some_iff split: if_splits)
  have h: "nth_opt (evt_handler (dv_fweh d)) (unat fwcode) = Some (Some h)" using hl by (simp add: d0)
  have skb: "brcmf_fweh_process_skb True ETH_P_LINK_CTL stype
      (event_frame dst src sub elen ver fwcode m data @ extra) (dv_fweh d) = Some ?f2"
    using assms(4-10) h by (intro process_skb_frame [where h = h]) (simp_all add: d0)
  have d1: "deliver_all core ?q (dv_queue [] d) = Some d1"
    using assms(11) by (simp add: worker_deliver_all [OF refl])
  have fd1: "dv_fweh d1 = (dv_fweh d)\<lparr>event_q := []\<rparr>" using deliver_all_fweh [OF d1] by simp
  have mp: "brcmf_fweh_map_fwevt_code (dv_fweh d) fwcode = em_event_code m"
    using assms(3) by (simp add: d0 brcmf_fweh_map_fwevt_code_def)
  have le: "\<not> 16 \<le> em_bsscfgidx m" using assms(6) by (simp add: event_msg_wf_def not_le)
  have "fw_handle_event core ?ev d1 = Some (dv_emit (CallHandler h i m data) d1)"
    using assms(5,6,12) h fw_emsg_event_bytes [OF assms(6), of fwcode]
    unfolding fw_handle_event_def brcmf_fweh_call_event_handler_def Let_def
    by (simp del: nth_opt_Some add: mp fd1 le)
  then have "deliver_all core (?q @ [?ev]) (dv_queue [] d) = Some (dv_emit (CallHandler h i m data) d1)"
    using d1 by (simp add: deliver_all_append)
  moreover have "brcmf_fweh_event_worker core (d\<lparr>dv_fweh := ?f2\<rparr>) = deliver_all core (?q @ [?ev]) (dv_queue [] d)"
    by (subst worker_deliver_all [where q = "?q @ [?ev]"]) (simp_all add: brcmf_fweh_queue_event_def dv_queue_def)
  ultimately show ?thesis using skb fd1 by (auto simp: brcmf_fweh_queue_event_def dv_emit_def)
qed

definition em_ex :: brcmf_event_msg where
  "em_ex = \<lparr>em_version = 2, em_flags = 1, em_event_code = 0x80000001, em_status = 0, em_reason = 7, em_auth_type = 0,
     em_datalen = 2, em_addr = [0xaa, 0xbb, 0xcc, 1, 2, 3], em_ifname = replicate 16 0, em_ifidx = 0, em_bsscfgidx = 1\<rparr>"

definition core_ex :: "nat fw_core" where
  "core_ex = \<lparr>fc_add_if = (\<lambda>b x p n a il. (None, il)), fc_net_attach = (\<lambda>i. True), fc_armed = False\<rparr>"

definition drv_ex :: "(nat, nat) fw_drv" where
  "drv_ex = \<lparr>dv_fweh = brcmf_cyw_alloc_fweh_info\<lparr>evt_handler := (replicate 197 None)[188 := Some 9]\<rparr>,
     dv_iflist = replicate 16 (Some 4), dv_log = []\<rparr>"

theorem fweh_event_delivered_witness:
  "\<exists>fweh2. brcmf_fweh_process_skb True ETH_P_LINK_CTL 0
        (event_frame [1,2,3,4,5,6] [6,5,4,3,2,1] 32769 60 0 188 em_ex [0x11, 0x22] @ [0]) (dv_fweh drv_ex) = Some fweh2
      \<and> length (event_q fweh2) = Suc (length (event_q (dv_fweh drv_ex)))
      \<and> brcmf_fweh_event_worker core_ex (drv_ex\<lparr>dv_fweh := fweh2\<rparr>)
        = Some (drv_ex\<lparr>dv_log := dv_log drv_ex @ [CallHandler 9 4 em_ex [0x11, 0x22]]\<rparr>)
      \<and> event_q (dv_fweh drv_ex) = []"
proof (rule fweh_event_delivered [where fweh = brcmf_cyw_alloc_fweh_info])
  show "brcmf_fweh_event_worker core_ex drv_ex = Some drv_ex"
    by (subst worker_deliver_all [where q = "[]"])
       (simp_all add: drv_ex_def brcmf_cyw_alloc_fweh_info_def dv_queue_def)
qed (simp_all add: em_ex_def drv_ex_def event_msg_wf_def brcmf_cyw_alloc_fweh_info_def brcmf_cyw_event_map_def
  brcmf_fweh_map_event_code_def brcmf_fweh_map_fwevt_code_def brcmf_fweh_register_def nth_opt_def)


section \<open>What the worker is given\<close>

text \<open>C17: whatever arrives, receiving it has a defined result, and what it may queue is sound: the code is in
  the table and someone listens for it (or it is the interface event), the message is whole, and the data are the
  bytes of the packet behind the message, as many as announced and at most the firmware's maximum.\<close>

theorem fweh_receive_safe:
  assumes "unat (num_event_codes fweh) \<le> length (evt_handler fweh)"
  shows "\<exists>fweh'. brcmf_fweh_process_skb alloc protocol stype p fweh = Some fweh' \<and>
    (fweh' = fweh \<or> (\<exists>e. fweh' = brcmf_fweh_queue_event e fweh \<and> alloc \<and> protocol = ETH_P_LINK_CTL
        \<and> qi_code e < num_event_codes fweh
        \<and> (qi_code e = BRCMF_E_IF \<or> evt_handler fweh ! unat (qi_code e) \<noteq> None)
        \<and> length (qi_emsg e) = 48 \<and> read_bytes p 24 48 = Some (qi_emsg e)
        \<and> qi_datalen e \<le> BRCMF_DCMD_MAXLEN \<and> read_bytes p 72 (unat (qi_datalen e)) = Some (qi_data e)))"
proof -
  have idx: "unat c < length (evt_handler fweh)" if "\<not> num_event_codes fweh \<le> c" for c
    using that assms by (simp add: word_le_nat_alt)
  have 14: "72 \<le> length p \<Longrightarrow> \<exists>x. get_be16 p 14 = Some x" and 22: "72 \<le> length p \<Longrightarrow> \<exists>x. get_be16 p 22 = Some x"
    and 28: "72 \<le> length p \<Longrightarrow> \<exists>x. get_be32 p 28 = Some x" and 44: "72 \<le> length p \<Longrightarrow> \<exists>x. get_be32 p 44 = Some x"
    by (simp_all add: get_be16_def get_be32_def fwsimps del: nth_opt_Some)
  have ev: "\<exists>fweh'. brcmf_fweh_process_event alloc p fweh = Some fweh' \<and>
    (fweh' = fweh \<or> (\<exists>e. fweh' = brcmf_fweh_queue_event e fweh \<and> alloc
        \<and> qi_code e < num_event_codes fweh
        \<and> (qi_code e = BRCMF_E_IF \<or> evt_handler fweh ! unat (qi_code e) \<noteq> None)
        \<and> length (qi_emsg e) = 48 \<and> read_bytes p 24 48 = Some (qi_emsg e)
        \<and> qi_datalen e \<le> BRCMF_DCMD_MAXLEN \<and> read_bytes p 72 (unat (qi_datalen e)) = Some (qi_data e)))"
    if l: "72 \<le> length p"
  proof -
    obtain c n where cn: "get_be32 p 28 = Some c" "get_be32 p 44 = Some n" using 28 44 l by blast
    show ?thesis
    proof (cases "num_event_codes fweh \<le> c")
      case True
      then show ?thesis by (simp add: brcmf_fweh_process_event_def cn)
    next
      case False
      note i = nth_opt_in [OF idx [OF False]]
      show ?thesis
      proof (cases "(c \<noteq> BRCMF_E_IF \<and> evt_handler fweh ! unat c = None)
          \<or> BRCMF_DCMD_MAXLEN < n \<or> length p < unat n + 72 \<or> \<not> alloc")
        case True
        then show ?thesis using False
          by (auto simp: brcmf_fweh_process_event_def cn i simp del: nth_opt_Some)
      next
        case ok: False
        let ?e = "\<lparr>qi_code = c, qi_ifidx = p ! 70, qi_ifaddr = take 6 p, qi_emsg = take 48 (drop 24 p),
            qi_datalen = n, qi_data = take (unat n) (drop 72 p)\<rparr>"
        have "brcmf_fweh_process_event alloc p fweh = Some (brcmf_fweh_queue_event ?e fweh)"
          using False ok l by (auto simp: brcmf_fweh_process_event_def cn i read_bytes_def fwsimps simp del: nth_opt_Some)
        moreover have "alloc \<and> qi_code ?e < num_event_codes fweh
            \<and> (qi_code ?e = BRCMF_E_IF \<or> evt_handler fweh ! unat (qi_code ?e) \<noteq> None)
            \<and> length (qi_emsg ?e) = 48 \<and> read_bytes p 24 48 = Some (qi_emsg ?e)
            \<and> qi_datalen ?e \<le> BRCMF_DCMD_MAXLEN \<and> read_bytes p 72 (unat (qi_datalen ?e)) = Some (qi_data ?e)"
          using False ok l by (auto simp: read_bytes_def not_le)
        ultimately show ?thesis by blast
      qed
    qed
  qed
  show ?thesis
  proof (cases "protocol = ETH_P_LINK_CTL \<and> 72 \<le> length p")
    case False
    then show ?thesis by (auto simp: brcmf_fweh_process_skb_def)
  next
    case True
    then obtain s u where su: "get_be16 p 14 = Some s" "get_be16 p 22 = Some u" using 14 22 by blast
    have oui: "read_bytes p 19 3 = Some (take 3 (drop 19 p))" using True by (simp add: read_bytes_def)
    show ?thesis
      using True ev by (simp add: brcmf_fweh_process_skb_def su oui)
  qed
qed

theorem fweh_receive_safe_witness:
  "\<exists>fweh'. brcmf_fweh_process_skb True ETH_P_LINK_CTL 0 [1, 2, 3] (brcmf_cyw_alloc_fweh_info :: nat brcmf_fweh_info) = Some fweh' \<and>
    (fweh' = brcmf_cyw_alloc_fweh_info \<or> (\<exists>e. fweh' = brcmf_fweh_queue_event e brcmf_cyw_alloc_fweh_info \<and> True \<and> ETH_P_LINK_CTL = ETH_P_LINK_CTL
        \<and> qi_code e < num_event_codes (brcmf_cyw_alloc_fweh_info :: nat brcmf_fweh_info)
        \<and> (qi_code e = BRCMF_E_IF \<or> evt_handler (brcmf_cyw_alloc_fweh_info :: nat brcmf_fweh_info) ! unat (qi_code e) \<noteq> None)
        \<and> length (qi_emsg e) = 48 \<and> read_bytes [1, 2, 3] 24 48 = Some (qi_emsg e)
        \<and> qi_datalen e \<le> BRCMF_DCMD_MAXLEN \<and> read_bytes [1, 2, 3] 72 (unat (qi_datalen e)) = Some (qi_data e)))"
  by (rule fweh_receive_safe) (simp add: brcmf_cyw_alloc_fweh_info_def)

text \<open>A message of the interface event that carries fewer than three bytes of data is accepted like any other,
  and the worker then reads the event's fields past the end of the data it was queued with (no length is checked
  between the packet and the handler of the interface event).\<close>

theorem fweh_if_event_short:
  assumes "event_msg_wf m" and "em_datalen m < 3" and "length dst = 6" and "length src = 6"
    and "length data = unat (em_datalen m)" and "BRCMF_E_IF < num_event_codes (dv_fweh d)"
    and "event_q (dv_fweh d) = []"
  shows "\<exists>fweh2. brcmf_fweh_process_skb True ETH_P_LINK_CTL 0
        (event_frame dst src sub elen ver BRCMF_E_IF m data @ extra) (dv_fweh d) = Some fweh2
      \<and> brcmf_fweh_event_worker core (d\<lparr>dv_fweh := fweh2\<rparr>) = None"
proof -
  let ?ev = "\<lparr>qi_code = BRCMF_E_IF, qi_ifidx = em_ifidx m, qi_ifaddr = dst,
        qi_emsg = event_bytes BRCMF_E_IF m, qi_datalen = em_datalen m, qi_data = data\<rparr>"
  let ?f2 = "brcmf_fweh_queue_event ?ev (dv_fweh d)"
  have skb: "brcmf_fweh_process_skb True ETH_P_LINK_CTL 0
      (event_frame dst src sub elen ver BRCMF_E_IF m data @ extra) (dv_fweh d) = Some ?f2"
    using assms by (intro process_skb_frame) simp_all
  have short: "length data < 3" using assms(2,5) by (simp add: word_less_nat_alt)
  have le: "\<not> 16 \<le> em_bsscfgidx m" using assms(1) by (simp add: event_msg_wf_def not_le)
  have em: "fw_emsg c (event_bytes BRCMF_E_IF m) = Some (m\<lparr>em_event_code := c\<rparr>)" for c
  proof -
    have "event_msg_wf (m\<lparr>em_event_code := c\<rparr>)" using assms(1) by (simp add: event_msg_wf_def)
    from fw_emsg_event_bytes(1) [OF this, of BRCMF_E_IF] show ?thesis by (simp add: event_bytes_def)
  qed
  have "brcmf_fweh_handle_if_event core em data d' = None" for em d'
    using short by (simp add: brcmf_fweh_handle_if_event_def fw_is_p2pdev_def nth_opt_def)
  then have "fw_handle_event core ?ev (dv_queue [] d) = None"
    using fw_emsg_event_bytes(2) [OF assms(1), of BRCMF_E_IF] le
    by (simp add: fw_handle_event_def Let_def em del: nth_opt_Some)
  then have "brcmf_fweh_event_worker core (d\<lparr>dv_fweh := ?f2\<rparr>) = None"
    by (subst worker_deliver_all [where q = "[?ev]"])
       (simp_all add: brcmf_fweh_queue_event_def dv_queue_def assms(7))
  then show ?thesis using skb by blast
qed

theorem fweh_if_event_short_witness:
  "\<exists>fweh2. brcmf_fweh_process_skb True ETH_P_LINK_CTL 0
        (event_frame [1,2,3,4,5,6] [6,5,4,3,2,1] 32769 60 0 BRCMF_E_IF em_ex [0x11, 0x22] @ []) (dv_fweh drv_ex) = Some fweh2
      \<and> brcmf_fweh_event_worker core_ex (drv_ex\<lparr>dv_fweh := fweh2\<rparr>) = None"
  by (rule fweh_if_event_short)
     (simp_all add: em_ex_def drv_ex_def event_msg_wf_def brcmf_cyw_alloc_fweh_info_def)

section \<open>What activation sends\<close>

definition mask_bit :: "u8 list \<Rightarrow> nat \<Rightarrow> bool" where
  "mask_bit bm j \<longleftrightarrow> bit (bm ! (j div 8)) (j mod 8)"

lemma setbit_in:
  assumes "i < 8 * length bm"
  shows "\<exists>bm'. setbit bm i = Some bm' \<and> length bm' = length bm
    \<and> (\<forall>j < 8 * length bm. mask_bit bm' j \<longleftrightarrow> mask_bit bm j \<or> j = i)"
proof -
  have i: "i div 8 < length bm" using assms by (simp add: div_less_iff_less_mult mult.commute)
  have "j div 8 = i div 8 \<Longrightarrow> j mod 8 = i mod 8 \<Longrightarrow> j = i" for j by (metis mult_div_mod_eq)
  then have "mask_bit (bm[i div 8 := bm ! (i div 8) OR push_bit (i mod 8) 1]) j \<longleftrightarrow> mask_bit bm j \<or> j = i" for j
    using i by (cases "j div 8 = i div 8") (auto simp: mask_bit_def bit_simps)
  then show ?thesis using i by (simp add: setbit_def nth_opt_in del: nth_opt_Some)
qed

lemma set_handler_bits_in:
  assumes "\<forall>i \<in> set is. i < length hs \<and> i < 8 * length bm"
  shows "\<exists>bm'. set_handler_bits hs is bm = Some bm' \<and> length bm' = length bm
    \<and> (\<forall>j < 8 * length bm. mask_bit bm' j \<longleftrightarrow> mask_bit bm j \<or> (j \<in> set is \<and> hs ! j \<noteq> None))"
  using assms
proof (induction "is" arbitrary: bm)
  case Nil
  then show ?case by simp
next
  case (Cons i "is")
  obtain bm1 where 1: "(if hs ! i \<noteq> None then setbit bm i else Some bm) = Some bm1" "length bm1 = length bm"
    "\<forall>j < 8 * length bm. mask_bit bm1 j \<longleftrightarrow> mask_bit bm j \<or> (j = i \<and> hs ! i \<noteq> None)"
    using setbit_in [of i bm] Cons.prems by (cases "hs ! i \<noteq> None") auto
  obtain bm' where 2: "set_handler_bits hs is bm1 = Some bm'" "length bm' = length bm1"
    "\<forall>j < 8 * length bm1. mask_bit bm' j \<longleftrightarrow> mask_bit bm1 j \<or> (j \<in> set is \<and> hs ! j \<noteq> None)"
    using Cons.IH [of bm1] Cons.prems 1(2) by auto
  have "set_handler_bits hs (i # is) bm = Some bm'"
    using Cons.prems 1(1) 2(1) by (simp add: nth_opt_in del: nth_opt_Some)
  then show ?case using 1(2,3) 2(2,3) by auto
qed

text \<open>Once the vendor module declines, activation asks firmware with the extended variable for exactly the
  events that have a handler, and the interface event: a bit of the mask it sends is set iff its code is
  registered or is that of the interface event. Firmware without the variable is sent the event information's
  own mask, which activation does not change, whatever is registered.\<close>

theorem fweh_activate_mask:
  assumes "event_mask_len (dv_fweh d) = (num_event_codes (dv_fweh d) + 7) div 8"
    and "length (evt_handler (dv_fweh d)) = unat (num_event_codes (dv_fweh d))"
    and "BRCMF_E_IF < num_event_codes (dv_fweh d)" and "num_event_codes (dv_fweh d) < 2040"
    and "vendor d = (ERR e, d')"
  shows "\<exists>bm. length bm = unat (event_mask_len (dv_fweh d))
      \<and> (\<forall>j < 8 * length bm. mask_bit bm j
          \<longleftrightarrow> j = unat BRCMF_E_IF \<or> j < length (evt_handler (dv_fweh d)) \<and> evt_handler (dv_fweh d) ! j \<noteq> None)
      \<and> brcmf_fweh_activate_events fset vendor True True d
        = Some (fset ''event_msgs_ext'' (eventmsgs 1 3 (ucast (event_mask_len (dv_fweh d))) 0 bm),
            dv_emit (FilSet ''event_msgs_ext'' (eventmsgs 1 3 (ucast (event_mask_len (dv_fweh d))) 0 bm)) d')
      \<and> brcmf_fweh_activate_events fset vendor True False d
        = Some (fset ''event_msgs'' (event_mask (dv_fweh d')), dv_emit (FilSet ''event_msgs'' (event_mask (dv_fweh d'))) d')"
proof -
  let ?f = "dv_fweh d"
  let ?n = "unat (num_event_codes ?f)"
  have n: "?n < 2040" using assms(4) by (simp add: word_less_nat_alt)
  have l: "unat (event_mask_len ?f) = (?n + 7) div 8"
    using n unfolding assms(1) by (simp add: unat_div unat_word_ariths)
  have n8: "?n \<le> 8 * unat (event_mask_len ?f)" unfolding l by simp
  have i54: "54 < ?n" using assms(3) by (simp add: word_less_nat_alt)
  obtain bm1 where 1: "set_handler_bits (evt_handler ?f) [0..<?n] (replicate (unat (event_mask_len ?f)) 0) = Some bm1"
    "length bm1 = unat (event_mask_len ?f)"
    "\<forall>j < 8 * unat (event_mask_len ?f). mask_bit bm1 j \<longleftrightarrow> j < ?n \<and> evt_handler ?f ! j \<noteq> None"
    using set_handler_bits_in [of "[0..<?n]" "evt_handler ?f" "replicate (unat (event_mask_len ?f)) 0"] assms(2) n8
    by (auto simp: mask_bit_def div_less_iff_less_mult mult.commute)
  obtain bm where 2: "setbit bm1 (unat BRCMF_E_IF) = Some bm" "length bm = length bm1"
    "\<forall>j < 8 * length bm1. mask_bit bm j \<longleftrightarrow> mask_bit bm1 j \<or> j = unat BRCMF_E_IF"
    using setbit_in [of "unat BRCMF_E_IF" bm1] 1(2) n8 i54 by auto
  show ?thesis
    using 1 2 assms(2,5)
    by (intro exI [of _ bm]) (auto simp: brcmf_fweh_activate_events_def Let_def)
qed

definition drv_ex2 :: "(nat, nat) fw_drv" where
  "drv_ex2 = drv_ex\<lparr>dv_fweh := (dv_fweh drv_ex)\<lparr>event_mask_len := 25, event_mask := replicate 25 0\<rparr>\<rparr>"

theorem fweh_activate_mask_witness:
  "\<exists>bm. length bm = 25
      \<and> (\<forall>j < 8 * length bm. mask_bit bm j \<longleftrightarrow> j = 54 \<or> j = 188)
      \<and> brcmf_fweh_activate_events (\<lambda>n b. OK) (\<lambda>x. (ERR EOPNOTSUPP, x)) True True drv_ex2
        = Some (OK, dv_emit (FilSet ''event_msgs_ext'' (eventmsgs 1 3 25 0 bm)) drv_ex2)
      \<and> brcmf_fweh_activate_events (\<lambda>n b. OK) (\<lambda>x. (ERR EOPNOTSUPP, x)) True False drv_ex2
        = Some (OK, dv_emit (FilSet ''event_msgs'' (replicate 25 0)) drv_ex2)"
proof -
  have e: "event_mask_len (dv_fweh drv_ex2) = 25" "num_event_codes (dv_fweh drv_ex2) = 197"
    "evt_handler (dv_fweh drv_ex2) = (replicate 197 None)[188 := Some 9]" "event_mask (dv_fweh drv_ex2) = replicate 25 0"
    by (simp_all add: drv_ex2_def drv_ex_def brcmf_cyw_alloc_fweh_info_def)
  have r: "j < 197 \<and> (\<exists>y. (replicate 197 None)[188 := Some (9 :: nat)] ! j = Some y) \<longleftrightarrow> j = 188" for j :: nat
    by (cases "j = 188") (auto simp: nth_list_update)
  show ?thesis
    using fweh_activate_mask [of drv_ex2 "\<lambda>x. (ERR EOPNOTSUPP, x)" EOPNOTSUPP drv_ex2 "\<lambda>n b. OK"]
    by (simp add: e r)
qed


end
