(* ===== verification/RxReorder.thy ===== *)
theory RxReorder
  imports PktQueue "HOL-Library.Multiset"
begin

text \<open>
  Receive reordering: \<open>brcmf_rxreorder_get_skb_list\<close> and \<open>brcmf_fws_rxreorder\<close> of \<open>fwsignal.c\<close>.

  Firmware that reorders on the host tags every packet of an AMPDU flow with ten bytes (flow, largest index,
  flags, index of this packet, index expected next); the driver keeps packets that are early in the slots of
  the flow and hands them to the network stack (\<open>netif_rx\<close>) in order once the hole is filled or given up.
  Packets are a type \<open>'p\<close>; what is delivered and what is freed is recorded in the order of the calls.
\<close>

section \<open>State and operations\<close>

record 'p brcmf_ampdu_rx_reorder =
  cur_idx :: u8
  exp_idx :: u8
  max_idx :: u8
  pend_pkts :: u8
  pktslots :: "'p option list"

record 'p reorder_state =
  reorder_flows :: "'p brcmf_ampdu_rx_reorder option list"
  netif_rx :: "'p list"
  rx_freed :: "'p list"

abbreviation BRCMF_RXREORDER_DEL_FLOW :: u8 where "BRCMF_RXREORDER_DEL_FLOW \<equiv> 0x01"
abbreviation BRCMF_RXREORDER_FLUSH_ALL :: u8 where "BRCMF_RXREORDER_FLUSH_ALL \<equiv> 0x02"
abbreviation BRCMF_RXREORDER_CURIDX_VALID :: u8 where "BRCMF_RXREORDER_CURIDX_VALID \<equiv> 0x04"
abbreviation BRCMF_RXREORDER_NEW_HOLE :: u8 where "BRCMF_RXREORDER_NEW_HOLE \<equiv> 0x10"

text \<open>The do-while of \<open>brcmf_rxreorder_get_skb_list\<close>: the list collected and the slots; a slot outside the
  array is \<^const>\<open>None\<close>, and so is a loop that never meets \<open>end\<close>.\<close>

partial_function (option) reorder_collect ::
  "u8 \<Rightarrow> u8 \<Rightarrow> u8 \<Rightarrow> 'p option list \<Rightarrow> 'p list \<Rightarrow> ('p list \<times> 'p option list) option" where
  "reorder_collect mx start end slots skbs = do {
     slot \<leftarrow> nth_opt slots (unat start);
     let skbs = (case slot of Some p \<Rightarrow> skbs @ [p] | None \<Rightarrow> skbs);
     let slots = slots[unat start := None];
     let next = (if mx < start + 1 then 0 else start + 1);
     if next \<noteq> end then reorder_collect mx next end slots skbs else Some (skbs, slots) }"

definition brcmf_rxreorder_get_skb_list ::
  "'p brcmf_ampdu_rx_reorder \<Rightarrow> u8 \<Rightarrow> u8 \<Rightarrow> ('p list \<times> 'p brcmf_ampdu_rx_reorder) option" where
  "brcmf_rxreorder_get_skb_list rfi start end =
     (if pend_pkts rfi = 0 then Some ([], rfi)
      else do {
        (skbs, slots) \<leftarrow> reorder_collect (max_idx rfi) start end (pktslots rfi) [];
        Some (skbs, rfi\<lparr>pktslots := slots, pend_pkts := pend_pkts rfi - of_nat (length skbs)\<rparr>) })"

definition rx_deliver :: "'p list \<Rightarrow> 'p reorder_state \<Rightarrow> 'p reorder_state" where
  "rx_deliver ps st = st\<lparr>netif_rx := netif_rx st @ ps\<rparr>"

definition rx_set_flow :: "u8 \<Rightarrow> 'p brcmf_ampdu_rx_reorder option \<Rightarrow> 'p reorder_state \<Rightarrow> 'p reorder_state" where
  "rx_set_flow fid r st = st\<lparr>reorder_flows := (reorder_flows st)[unat fid := r]\<rparr>"

text \<open>Storing a packet: a packet that is already there is freed.\<close>

definition rx_store :: "'p brcmf_ampdu_rx_reorder \<Rightarrow> u8 \<Rightarrow> 'p \<Rightarrow> ('p list \<times> 'p brcmf_ampdu_rx_reorder) option" where
  "rx_store rfi idx pkt = do {
     slot \<leftarrow> nth_opt (pktslots rfi) (unat idx);
     Some ((case slot of Some p \<Rightarrow> [p] | None \<Rightarrow> []),
       rfi\<lparr>pktslots := (pktslots rfi)[unat idx := Some pkt], pend_pkts := pend_pkts rfi + 1\<rparr>) }"

text \<open>The part with an existing flow that is not deleted: the packets released, the packets freed and the flow.\<close>

definition reorder_flow ::
  "u8 list \<Rightarrow> u8 \<Rightarrow> 'p \<Rightarrow> 'p brcmf_ampdu_rx_reorder \<Rightarrow> ('p list \<times> 'p list \<times> 'p brcmf_ampdu_rx_reorder) option" where
  "reorder_flow rd flags pkt rfi =
     (if flags AND BRCMF_RXREORDER_NEW_HOLE \<noteq> 0 then do {
        (skbs, rfi) \<leftarrow> (if pend_pkts rfi \<noteq> 0 then brcmf_rxreorder_get_skb_list rfi (exp_idx rfi) (exp_idx rfi)
                       else Some ([], rfi));
        cur \<leftarrow> nth_opt rd 6; ex \<leftarrow> nth_opt rd 8; mx \<leftarrow> nth_opt rd 2;
        let rfi = rfi\<lparr>cur_idx := cur, exp_idx := ex, max_idx := mx\<rparr>;
        slots \<leftarrow> upd_opt (pktslots rfi) (unat cur) (Some pkt);
        Some (skbs, [], rfi\<lparr>pktslots := slots, pend_pkts := pend_pkts rfi + 1\<rparr>) }
      else if flags AND BRCMF_RXREORDER_CURIDX_VALID \<noteq> 0 then do {
        cur \<leftarrow> nth_opt rd 6; ex \<leftarrow> nth_opt rd 8;
        if ex = exp_idx rfi \<and> cur \<noteq> exp_idx rfi then do {
          (freed, rfi) \<leftarrow> rx_store rfi cur pkt;
          Some ([], freed, rfi\<lparr>cur_idx := cur\<rparr>) }
        else if exp_idx rfi = cur then do {
          (freed, rfi) \<leftarrow> rx_store rfi cur pkt;
          (skbs, rfi) \<leftarrow> brcmf_rxreorder_get_skb_list (rfi\<lparr>cur_idx := cur, exp_idx := ex\<rparr>) cur ex;
          Some (skbs, freed, rfi) }
        else do {
          let end_idx = (if flags AND BRCMF_RXREORDER_FLUSH_ALL \<noteq> 0 then exp_idx rfi else ex);
          (skbs, rfi) \<leftarrow> brcmf_rxreorder_get_skb_list rfi (exp_idx rfi) end_idx;
          if unat ex = (unat cur + 1) mod (unat (max_idx rfi) + 1)
          then Some (skbs @ [pkt], [], rfi\<lparr>exp_idx := ex, cur_idx := cur\<rparr>)
          else do {
            slots \<leftarrow> upd_opt (pktslots rfi) (unat cur) (Some pkt);
            Some (skbs, [], rfi\<lparr>pktslots := slots, pend_pkts := pend_pkts rfi + 1, exp_idx := ex, cur_idx := cur\<rparr>) } } }
      else do {
        ex \<leftarrow> nth_opt rd 8;
        let end_idx = (if flags AND BRCMF_RXREORDER_FLUSH_ALL \<noteq> 0 then exp_idx rfi else ex);
        (skbs, rfi) \<leftarrow> brcmf_rxreorder_get_skb_list rfi (exp_idx rfi) end_idx;
        Some (skbs @ [pkt], [], rfi\<lparr>exp_idx := ex\<rparr>) })"

definition brcmf_fws_rxreorder :: "bool \<Rightarrow> u8 list \<Rightarrow> 'p \<Rightarrow> 'p reorder_state \<Rightarrow> 'p reorder_state option" where
  "brcmf_fws_rxreorder alloc rd pkt st = do {
     flow_id \<leftarrow> nth_opt rd 0;
     flags \<leftarrow> nth_opt rd 4;
     if flags = 0xFF then Some (rx_deliver [pkt] st)
     else do {
       flow \<leftarrow> nth_opt (reorder_flows st) (unat flow_id);
       if flags AND BRCMF_RXREORDER_DEL_FLOW \<noteq> 0 then
         (case flow of
            None \<Rightarrow> Some (rx_deliver [pkt] st)
          | Some rfi \<Rightarrow> do {
              (skbs, rfi) \<leftarrow> brcmf_rxreorder_get_skb_list rfi (exp_idx rfi) (exp_idx rfi);
              Some (rx_deliver (skbs @ [pkt]) (rx_set_flow flow_id None st)) })
       else do {
         rfi \<leftarrow> (case flow of
                  Some rfi \<Rightarrow> Some (Some rfi)
                | None \<Rightarrow> do {
                    mx \<leftarrow> nth_opt rd 2;
                    Some (if alloc then Some \<lparr>cur_idx = 0, exp_idx = 0, max_idx = mx, pend_pkts = 0,
                        pktslots = replicate (unat mx + 1) None\<rparr> else None) });
         case rfi of
           None \<Rightarrow> Some (rx_deliver [pkt] st)
         | Some rfi \<Rightarrow> do {
             (skbs, freed, rfi) \<leftarrow> reorder_flow rd flags pkt rfi;
             let st = rx_set_flow flow_id (Some rfi) st;
             Some (rx_deliver skbs (st\<lparr>rx_freed := rx_freed st @ freed\<rparr>)) } } } }"

section \<open>What is collected\<close>

text \<open>The indices the loop visits: from \<open>start\<close> round the slots up to \<open>end\<close>, at least one, all of them when the
  two are equal.\<close>

definition ro_count :: "nat \<Rightarrow> nat \<Rightarrow> nat \<Rightarrow> nat" where
  "ro_count m s e = (if s < e then e - s else m + 1 + e - s)"

definition ro_window :: "nat \<Rightarrow> nat \<Rightarrow> nat \<Rightarrow> nat list" where
  "ro_window m s e = map (\<lambda>k. (s + k) mod (m + 1)) [0..<ro_count m s e]"

text \<open>The packets in some slots, in order, and the slots without them.\<close>

definition slots_at :: "'p option list \<Rightarrow> nat list \<Rightarrow> 'p list" where
  "slots_at slots is = concat (map (\<lambda>i. case slots ! i of Some p \<Rightarrow> [p] | None \<Rightarrow> []) is)"

definition slots_clear :: "'p option list \<Rightarrow> nat list \<Rightarrow> 'p option list" where
  "slots_clear slots is = map (\<lambda>i. if i \<in> set is then None else slots ! i) [0..<length slots]"

lemma ro_window_step:
  assumes "s \<le> m" and "e \<le> m"
  defines "n \<equiv> if s = m then 0 else s + 1"
  shows "ro_window m s e = s # (if n = e then [] else ro_window m n e)"
proof -
  have c: "ro_count m s e = (if n = e then 1 else Suc (ro_count m n e))"
    using assms by (auto simp: ro_count_def)
  have "(s + Suc k) mod (m + 1) = (n + k) mod (m + 1)" for k
  proof (cases "s = m")
    case True
    then have "s + Suc k = k + (m + 1)" by simp
    then show ?thesis using True by (simp only: mod_add_self2) (simp add: n_def)
  qed (simp add: n_def)
  moreover have "[0..<Suc (ro_count m n e)] = 0 # map Suc [0..<ro_count m n e]"
    by (simp add: upt_conv_Cons map_Suc_upt del: upt_Suc)
  ultimately show ?thesis
    using assms(1) c by (auto simp: ro_window_def o_def)
qed

lemma ro_window_distinct:
  assumes "s \<le> m" and "e \<le> m"
  shows "distinct (ro_window m s e)" and "set (ro_window m s e) \<subseteq> {..m}"
    and "s = e \<Longrightarrow> set (ro_window m s e) = {..m}"
proof -
  have le: "ro_count m s e \<le> m + 1" using assms by (auto simp: ro_count_def)
  have ne: "(s + x) mod (m + 1) \<noteq> (s + y) mod (m + 1)" if "x < y" "y < m + 1" for x y
  proof
    assume "(s + x) mod (m + 1) = (s + y) mod (m + 1)"
    then have "m + 1 dvd (s + y) - (s + x)" using that mod_eq_dvd_iff_nat [of "s + x" "s + y" "m + 1"] by simp
    then show False using that by (auto dest: dvd_imp_le)
  qed
  have inj: "inj_on (\<lambda>k. (s + k) mod (m + 1)) {0..<ro_count m s e}"
  proof (rule inj_onI)
    fix x y assume "x \<in> {0..<ro_count m s e}" "y \<in> {0..<ro_count m s e}"
      and "(s + x) mod (m + 1) = (s + y) mod (m + 1)"
    then show "x = y" using ne [of x y] ne [of y x] le by (cases x y rule: linorder_cases) auto
  qed
  show "distinct (ro_window m s e)" using inj by (simp add: ro_window_def distinct_map)
  show sub: "set (ro_window m s e) \<subseteq> {..m}" by (auto simp: ro_window_def less_Suc_eq_le [symmetric])
  show "s = e \<Longrightarrow> set (ro_window m s e) = {..m}"
  proof -
    assume "s = e"
    moreover have "card (set (ro_window m s e)) = card {0..<ro_count m s e}"
      unfolding ro_window_def set_map set_upt by (rule card_image [OF inj])
    ultimately show ?thesis using sub by (intro card_subset_eq) (auto simp: ro_count_def)
  qed
qed

text \<open>The loop follows the window.\<close>

lemma slots_clear_Cons:
  "i < length slots \<Longrightarrow> slots_clear (slots[i := None]) is = slots_clear slots (i # is)"
  by (rule nth_equalityI) (auto simp: slots_clear_def nth_list_update)

lemma slots_at_Cons:
  "slots_at slots (i # is) = (case slots ! i of Some p \<Rightarrow> [p] | None \<Rightarrow> []) @ slots_at slots is"
  by (simp add: slots_at_def)

lemma slots_at_update:
  "i \<notin> set is \<Longrightarrow> slots_at (slots[i := x]) is = slots_at slots is"
  unfolding slots_at_def
  by (rule arg_cong [where f = concat], rule map_cong [OF refl]) (metis nth_list_update_neq)

lemma u8_next:
  fixes s mx :: u8
  assumes "s \<le> mx"
  shows "unat (if mx < s + 1 then 0 else s + 1) = (if unat s = unat mx then 0 else unat s + 1)"
proof (cases "s = mx")
  case True
  have "mx < mx + 1" if "mx + 1 \<noteq> 0"
    using that unatSuc [of mx] by (simp add: word_less_nat_alt add.commute)
  then show ?thesis using True by (cases "mx + 1 = 0") simp_all
next
  case False
  then have lt: "s < mx" using assms by simp
  then have "unat (s + 1) = unat s + 1"
    using unat_inc_less [of s "unat mx"] unat_widths_less(1) [of mx] by (simp add: word_less_nat_alt)
  moreover have "unat s < unat mx" using lt by (simp add: word_less_nat_alt)
  ultimately show ?thesis by (simp add: word_less_nat_alt)
qed

lemma reorder_collect_window:
  assumes "s \<le> mx" and "e \<le> mx" and "length slots = unat mx + 1"
  shows "reorder_collect mx s e slots acc
    = Some (acc @ slots_at slots (ro_window (unat mx) (unat s) (unat e)),
        slots_clear slots (ro_window (unat mx) (unat s) (unat e)))"
  using assms
proof (induction "ro_count (unat mx) (unat s) (unat e)" arbitrary: s slots acc rule: less_induct)
  case less
  let ?m = "unat mx"
  define n where "n = (if mx < s + 1 then 0 else s + 1)"
  have b: "unat s \<le> ?m" "unat e \<le> ?m" using less.prems by (simp_all add: word_le_nat_alt)
  have un: "unat n = (if unat s = ?m then 0 else unat s + 1)" unfolding n_def by (rule u8_next) (rule less.prems)
  have nle: "n \<le> mx" using un b by (auto simp: word_le_nat_alt)
  have i: "unat s < length slots" using b less.prems by simp
  let ?slots = "slots[unat s := None]"
  let ?acc = "case slots ! unat s of Some p \<Rightarrow> acc @ [p] | None \<Rightarrow> acc"
  have step: "reorder_collect mx s e slots acc
      = (if n \<noteq> e then reorder_collect mx n e ?slots ?acc else Some (?acc, ?slots))"
    by (subst reorder_collect.simps) (simp add: nth_opt_in i Let_def n_def del: nth_opt_Some)
  note w = ro_window_step [OF b, folded un]
  show ?case
  proof (cases "n = e")
    case True
    then have "ro_window ?m (unat s) (unat e) = [unat s]" using w by simp
    moreover have "slots_clear slots [unat s] = ?slots"
      by (rule nth_equalityI) (auto simp: slots_clear_def nth_list_update)
    ultimately show ?thesis using step True by (simp add: slots_at_def split: option.splits)
  next
    case False
    then have "unat n \<noteq> unat e" by (simp add: word_unat_eq_iff)
    then have w2: "ro_window ?m (unat s) (unat e) = unat s # ro_window ?m (unat n) (unat e)"
      using w by simp
    have cnt: "ro_count ?m (unat n) (unat e) < ro_count ?m (unat s) (unat e)"
      using arg_cong [OF w2, of length] by (simp add: ro_window_def)
    have "distinct (ro_window ?m (unat s) (unat e))" by (rule ro_window_distinct(1) [OF b])
    then have notin: "unat s \<notin> set (ro_window ?m (unat n) (unat e))" using w2 by simp
    have "reorder_collect mx n e ?slots ?acc
        = Some (?acc @ slots_at ?slots (ro_window ?m (unat n) (unat e)),
            slots_clear ?slots (ro_window ?m (unat n) (unat e)))"
      using less.hyps [OF cnt nle] less.prems by simp
    then show ?thesis using step False w2
      by (simp add: slots_at_update [OF notin] slots_clear_Cons [OF i] slots_at_Cons split: option.splits)
  qed
qed

section \<open>Every packet is delivered exactly once\<close>

text \<open>The packets a flow and a state hold.\<close>

definition slot_pkts :: "'p option list \<Rightarrow> 'p multiset" where
  "slot_pkts slots = mset (slots_at slots [0..<length slots])"

definition flow_pkts :: "'p brcmf_ampdu_rx_reorder option \<Rightarrow> 'p multiset" where
  "flow_pkts r = (case r of Some rfi \<Rightarrow> slot_pkts (pktslots rfi) | None \<Rightarrow> {#})"

definition held_pkts :: "'p reorder_state \<Rightarrow> 'p multiset" where
  "held_pkts st = sum_list (map flow_pkts (reorder_flows st))"

text \<open>The invariant of a flow: its slots are those of its window, its indices lie in it, and the count is
  the number of packets in the slots.\<close>

definition flow_inv :: "'p brcmf_ampdu_rx_reorder \<Rightarrow> bool" where
  "flow_inv rfi \<longleftrightarrow> length (pktslots rfi) = unat (max_idx rfi) + 1 \<and> max_idx rfi < 255
     \<and> exp_idx rfi \<le> max_idx rfi \<and> unat (pend_pkts rfi) = size (slot_pkts (pktslots rfi))"

definition reorder_inv :: "'p reorder_state \<Rightarrow> bool" where
  "reorder_inv st \<longleftrightarrow> length (reorder_flows st) = 256 \<and> (\<forall>rfi. Some rfi \<in> set (reorder_flows st) \<longrightarrow> flow_inv rfi)"

lemma slots_at_append: "slots_at slots (is @ js) = slots_at slots is @ slots_at slots js"
  by (simp add: slots_at_def)

lemma mset_slots_at: "mset (slots_at slots is) = (\<Sum>i\<in>#mset is. case slots ! i of Some p \<Rightarrow> {#p#} | None \<Rightarrow> {#})"
  by (induction "is") (auto simp: slots_at_def split: option.splits)

lemma mset_slots_at_cong: "mset is = mset js \<Longrightarrow> mset (slots_at slots is) = mset (slots_at slots js)"
  by (simp add: mset_slots_at)

lemma slots_at_none: "(\<And>i. i \<in> set is \<Longrightarrow> slots ! i = None) \<Longrightarrow> slots_at slots is = []"
  by (auto simp: slots_at_def)

lemma slots_at_eq: "(\<And>i. i \<in> set is \<Longrightarrow> slots ! i = slots' ! i) \<Longrightarrow> slots_at slots is = slots_at slots' is"
  unfolding slots_at_def by (rule arg_cong [where f = concat], rule map_cong [OF refl]) simp

text \<open>Taking the packets of distinct slots out leaves the others.\<close>

lemma slot_pkts_clear:
  assumes "distinct is" and "set is \<subseteq> {0..<length slots}"
  shows "slot_pkts (slots_clear slots is) + mset (slots_at slots is) = slot_pkts slots"
proof -
  let ?n = "length slots"
  let ?js = "filter (\<lambda>i. i \<notin> set is) [0..<?n]"
  have "mset [0..<?n] = mset is + mset ?js"
  proof -
    have "mset [0..<?n] = mset (filter (\<lambda>i. i \<in> set is) [0..<?n]) + mset ?js"
      unfolding mset_filter by (rule multiset_partition)
    moreover have "mset (filter (\<lambda>i. i \<in> set is) [0..<?n]) = mset is"
      using assms by (intro set_eq_iff_mset_eq_distinct [THEN iffD1]) auto
    ultimately show ?thesis by simp
  qed
  then have all: "mset (slots_at xs [0..<?n]) = mset (slots_at xs is) + mset (slots_at xs ?js)" for xs :: "'a option list"
    using mset_slots_at_cong [of "[0..<?n]" "is @ ?js" xs] by (simp add: slots_at_append)
  have 1: "slots_at (slots_clear slots is) is = []"
    using assms(2) by (intro slots_at_none) (auto simp: slots_clear_def)
  have 2: "slots_at (slots_clear slots is) ?js = slots_at slots ?js"
    by (intro slots_at_eq) (auto simp: slots_clear_def)
  have "length (slots_clear slots is) = ?n" by (simp add: slots_clear_def)
  then show ?thesis using all [of "slots_clear slots is"] all [of slots] 1 2 by (simp add: slot_pkts_def)
qed

lemma slot_pkts_store:
  assumes "i < length slots" and "slots ! i = None"
  shows "slot_pkts (slots[i := Some p]) = add_mset p (slot_pkts slots)"
proof -
  have c: "slots_clear (slots[i := Some p]) [i] = slots"
    using assms by (intro nth_equalityI) (auto simp: slots_clear_def nth_list_update)
  show ?thesis
    using slot_pkts_clear [of "[i]" "slots[i := Some p]"] assms(1) c by (simp add: slots_at_def)
qed

lemma slot_pkts_bound: "size (slot_pkts slots) \<le> length slots"
proof -
  have "size (mset (slots_at slots is)) \<le> length is" for "is"
    by (induction "is") (auto simp: slots_at_def split: option.splits)
  from this [of "[0..<length slots]"] show ?thesis by (simp add: slot_pkts_def)
qed

lemma flow_invD:
  assumes "flow_inv rfi"
  shows "length (pktslots rfi) = unat (max_idx rfi) + 1" "unat (max_idx rfi) < 255"
    "unat (pend_pkts rfi) = size (slot_pkts (pktslots rfi))" "exp_idx rfi \<le> max_idx rfi"
  using assms by (auto simp: flow_inv_def word_less_nat_alt)

text \<open>Releasing a window, and storing into a free slot.\<close>

lemma get_skb_list_run:
  assumes inv: "flow_inv rfi" and "s \<le> max_idx rfi" and "e \<le> max_idx rfi"
  defines "is \<equiv> ro_window (unat (max_idx rfi)) (unat s) (unat e)"
  obtains rfi' where "brcmf_rxreorder_get_skb_list rfi s e = Some (slots_at (pktslots rfi) is, rfi')"
    and "flow_inv rfi'" and "cur_idx rfi' = cur_idx rfi" "exp_idx rfi' = exp_idx rfi" "max_idx rfi' = max_idx rfi"
    and "pktslots rfi' = slots_clear (pktslots rfi) is"
    and "slot_pkts (pktslots rfi') + mset (slots_at (pktslots rfi) is) = slot_pkts (pktslots rfi)"
proof -
  note d = flow_invD [OF inv]
  have b: "unat s \<le> unat (max_idx rfi)" "unat e \<le> unat (max_idx rfi)"
    using assms(2,3) by (simp_all add: word_le_nat_alt)
  have sub: "distinct is" "set is \<subseteq> {0..<length (pktslots rfi)}"
    using ro_window_distinct [OF b] d(1) unfolding is_def by auto
  note eq = slot_pkts_clear [OF sub]
  show ?thesis
  proof (cases "pend_pkts rfi = 0")
    case True
    then have z: "slot_pkts (pktslots rfi) = {#}" using d(3) by simp
    then have none: "slots_at (pktslots rfi) is = []" and "slot_pkts (slots_clear (pktslots rfi) is) = {#}"
      using eq by simp_all
    have "pktslots rfi ! i = None" if "i < length (pktslots rfi)" for i
    proof (rule ccontr)
      assume "pktslots rfi ! i \<noteq> None"
      then obtain p where "pktslots rfi ! i = Some p" by auto
      then have "p \<in> set (slots_at (pktslots rfi) [0..<length (pktslots rfi)])"
        using that by (force simp: slots_at_def)
      then show False using z by (simp add: slot_pkts_def)
    qed
    then have "slots_clear (pktslots rfi) is = pktslots rfi"
      by (intro nth_equalityI) (auto simp: slots_clear_def)
    then show ?thesis using True none z inv that [of rfi]
      by (simp add: brcmf_rxreorder_get_skb_list_def)
  next
    case False
    let ?r = "rfi\<lparr>pktslots := slots_clear (pktslots rfi) is,
        pend_pkts := pend_pkts rfi - of_nat (length (slots_at (pktslots rfi) is))\<rparr>"
    have run: "brcmf_rxreorder_get_skb_list rfi s e = Some (slots_at (pktslots rfi) is, ?r)"
      using False reorder_collect_window [OF assms(2,3) d(1), of "[]"]
      by (simp add: brcmf_rxreorder_get_skb_list_def is_def)
    have "size (slot_pkts (slots_clear (pktslots rfi) is)) + length (slots_at (pktslots rfi) is) = unat (pend_pkts rfi)"
      using arg_cong [OF eq, of size] d(3) by simp
    then have "unat (pend_pkts rfi - of_nat (length (slots_at (pktslots rfi) is))) = size (slot_pkts (slots_clear (pktslots rfi) is))"
      using unat_sub_of_nat [of "length (slots_at (pktslots rfi) is)" "pend_pkts rfi"] by linarith
    then have "flow_inv ?r" using d inv by (simp add: flow_inv_def slots_clear_def)
    then show ?thesis using run eq that [of ?r] by simp
  qed
qed

lemma rx_store_run:
  assumes inv: "flow_inv rfi" and "idx \<le> max_idx rfi" and "pktslots rfi ! unat idx = None"
  obtains rfi' where "rx_store rfi idx pkt = Some ([], rfi')"
    and "rfi' = rfi\<lparr>pktslots := (pktslots rfi)[unat idx := Some pkt], pend_pkts := pend_pkts rfi + 1\<rparr>"
    and "flow_inv rfi'"
    and "slot_pkts (pktslots rfi') = add_mset pkt (slot_pkts (pktslots rfi))"
proof -
  note d = flow_invD [OF inv]
  let ?r = "rfi\<lparr>pktslots := (pktslots rfi)[unat idx := Some pkt], pend_pkts := pend_pkts rfi + 1\<rparr>"
  have i: "unat idx < length (pktslots rfi)" using assms(2) d(1) by (simp add: word_le_nat_alt)
  note sp = slot_pkts_store [OF i assms(3), of pkt]
  have "size (slot_pkts ((pktslots rfi)[unat idx := Some pkt])) \<le> length (pktslots rfi)"
    using slot_pkts_bound [of "(pktslots rfi)[unat idx := Some pkt]"] by simp
  then have "unat (pend_pkts rfi) < 255" using sp d(1-3) by simp
  then have "unat (pend_pkts rfi + 1) = Suc (unat (pend_pkts rfi))"
    using unat_inc_less [of "pend_pkts rfi" 255] by simp
  then have "flow_inv ?r" using inv sp d(3) by (simp add: flow_inv_def)
  moreover have "rx_store rfi idx pkt = Some ([], ?r)"
    using i assms(3) by (simp add: rx_store_def nth_opt_in del: nth_opt_Some)
  ultimately show ?thesis using sp that by simp
qed

text \<open>What well-behaved firmware sends: indices inside the flow's window, an unchanged window, and no index whose
  packet is still waiting.\<close>

definition rd_ok :: "u8 list \<Rightarrow> u8 \<Rightarrow> 'p brcmf_ampdu_rx_reorder \<Rightarrow> bool" where
  "rd_ok rd flags rfi \<longleftrightarrow> rd ! 8 \<le> max_idx rfi
     \<and> (flags AND BRCMF_RXREORDER_NEW_HOLE \<noteq> 0 \<longrightarrow> rd ! 2 = max_idx rfi \<and> rd ! 6 \<le> max_idx rfi)
     \<and> (flags AND BRCMF_RXREORDER_NEW_HOLE = 0 \<and> flags AND BRCMF_RXREORDER_CURIDX_VALID \<noteq> 0
          \<longrightarrow> rd ! 6 \<le> max_idx rfi \<and> pktslots rfi ! unat (rd ! 6) = None)"

text \<open>The same without the last condition, which the two branches that look into the slot do not need: they free
  the packet that is still waiting.\<close>

definition rd_window :: "u8 list \<Rightarrow> u8 \<Rightarrow> 'p brcmf_ampdu_rx_reorder \<Rightarrow> bool" where
  "rd_window rd flags rfi \<longleftrightarrow> rd ! 8 \<le> max_idx rfi
     \<and> (flags AND BRCMF_RXREORDER_NEW_HOLE \<noteq> 0 \<longrightarrow> rd ! 2 = max_idx rfi \<and> rd ! 6 \<le> max_idx rfi)
     \<and> (flags AND BRCMF_RXREORDER_NEW_HOLE = 0 \<and> flags AND BRCMF_RXREORDER_CURIDX_VALID \<noteq> 0
          \<longrightarrow> rd ! 6 \<le> max_idx rfi
            \<and> (rd ! 8 \<noteq> exp_idx rfi \<and> rd ! 6 \<noteq> exp_idx rfi \<longrightarrow> pktslots rfi ! unat (rd ! 6) = None))"

definition slot_free :: "u8 list \<Rightarrow> u8 \<Rightarrow> 'p brcmf_ampdu_rx_reorder \<Rightarrow> bool" where
  "slot_free rd flags rfi \<longleftrightarrow> (flags AND BRCMF_RXREORDER_NEW_HOLE = 0 \<and> flags AND BRCMF_RXREORDER_CURIDX_VALID \<noteq> 0
     \<longrightarrow> pktslots rfi ! unat (rd ! 6) = None)"

lemma rd_ok_window: "rd_window rd flags rfi \<Longrightarrow> slot_free rd flags rfi \<Longrightarrow> rd_ok rd flags rfi"
  by (simp add: rd_ok_def rd_window_def slot_free_def)

lemma flow_inv_idx: "flow_inv rfi \<Longrightarrow> e \<le> max_idx rfi \<Longrightarrow> flow_inv (rfi\<lparr>cur_idx := c, exp_idx := e\<rparr>)"
  "flow_inv rfi \<Longrightarrow> e \<le> max_idx rfi \<Longrightarrow> flow_inv (rfi\<lparr>exp_idx := e\<rparr>)"
  "flow_inv rfi \<Longrightarrow> flow_inv (rfi\<lparr>cur_idx := c\<rparr>)"
  by (simp_all add: flow_inv_def)

lemma get_skb_list_full:
  assumes inv: "flow_inv rfi"
  obtains skbs rfi' where "brcmf_rxreorder_get_skb_list rfi (exp_idx rfi) (exp_idx rfi) = Some (skbs, rfi')"
    and "flow_inv rfi'" "max_idx rfi' = max_idx rfi"
    and "\<forall>i < length (pktslots rfi'). pktslots rfi' ! i = None" "slot_pkts (pktslots rfi') = {#}"
    and "mset skbs = slot_pkts (pktslots rfi)"
proof -
  note d = flow_invD [OF inv]
  let ?is = "ro_window (unat (max_idx rfi)) (unat (exp_idx rfi)) (unat (exp_idx rfi))"
  have b: "unat (exp_idx rfi) \<le> unat (max_idx rfi)" using d(4) by (simp add: word_le_nat_alt)
  obtain rfi' where r: "brcmf_rxreorder_get_skb_list rfi (exp_idx rfi) (exp_idx rfi) = Some (slots_at (pktslots rfi) ?is, rfi')"
    "flow_inv rfi'" "max_idx rfi' = max_idx rfi" "pktslots rfi' = slots_clear (pktslots rfi) ?is"
    "slot_pkts (pktslots rfi') + mset (slots_at (pktslots rfi) ?is) = slot_pkts (pktslots rfi)"
    by (rule get_skb_list_run [OF inv d(4) d(4)])
  have all: "\<forall>i < length (pktslots rfi'). pktslots rfi' ! i = None"
    using ro_window_distinct(3) [OF b b] d(1) by (auto simp: r(4) slots_clear_def simp del: upt_Suc)
  then have "slots_at (pktslots rfi') [0..<length (pktslots rfi')] = []" by (intro slots_at_none) simp
  then have "slot_pkts (pktslots rfi') = {#}" by (simp add: slot_pkts_def)
  then show ?thesis using that [OF r(1-3) all] r(5) by simp
qed

lemma reorder_hole:
  assumes inv: "flow_inv rfi" and len: "10 \<le> length rd" and ok: "rd_ok rd flags rfi"
    and hole: "flags AND BRCMF_RXREORDER_NEW_HOLE \<noteq> 0"
  shows "\<exists>skbs rfi'. reorder_flow rd flags pkt rfi = Some (skbs, [], rfi') \<and> flow_inv rfi'
    \<and> mset skbs + slot_pkts (pktslots rfi') = add_mset pkt (slot_pkts (pktslots rfi))"
proof -
  have rd: "nth_opt rd 2 = Some (rd ! 2)" "nth_opt rd 6 = Some (rd ! 6)" "nth_opt rd 8 = Some (rd ! 8)"
    using len by simp_all
  note d = flow_invD [OF inv]
  from hole have i: "rd ! 8 \<le> max_idx rfi" "rd ! 2 = max_idx rfi" "rd ! 6 \<le> max_idx rfi" using ok by (auto simp: rd_ok_def)
  obtain skbs r1 where r1: "brcmf_rxreorder_get_skb_list rfi (exp_idx rfi) (exp_idx rfi) = Some (skbs, r1)"
    "flow_inv r1" "max_idx r1 = max_idx rfi" "\<forall>i < length (pktslots r1). pktslots r1 ! i = None"
    "slot_pkts (pktslots r1) = {#}" "mset skbs = slot_pkts (pktslots rfi)"
    by (rule get_skb_list_full [OF inv])
  let ?g = "if pend_pkts rfi \<noteq> 0 then brcmf_rxreorder_get_skb_list rfi (exp_idx rfi) (exp_idx rfi) else Some ([], rfi)"
  have g: "?g = Some (skbs, r1)"
    using r1(1) by (auto simp: brcmf_rxreorder_get_skb_list_def)
  let ?r2 = "r1\<lparr>cur_idx := rd ! 6, exp_idx := rd ! 8, max_idx := rd ! 2\<rparr>"
  have r2: "flow_inv ?r2" using r1(2,3) i by (simp add: flow_inv_def)
  have "unat (rd ! 6) < length (pktslots r1)" using flow_invD(1) [OF r1(2)] r1(3) i(3) by (simp add: word_le_nat_alt)
  then have free: "pktslots ?r2 ! unat (rd ! 6) = None" using r1(4) by simp
  obtain r3 where r3: "rx_store ?r2 (rd ! 6) pkt = Some ([], r3)"
    "r3 = ?r2\<lparr>pktslots := (pktslots ?r2)[unat (rd ! 6) := Some pkt], pend_pkts := pend_pkts ?r2 + 1\<rparr>" "flow_inv r3"
    "slot_pkts (pktslots r3) = add_mset pkt (slot_pkts (pktslots ?r2))"
    by (rule rx_store_run [OF r2 _ free]) (simp add: i)
  have "reorder_flow rd flags pkt rfi = Some (skbs, [], r3)"
    using hole \<open>unat (rd ! 6) < _\<close>
    unfolding reorder_flow_def g rd Option.bind.simps by (simp add: r3(2) upd_opt_in del: upd_opt_Some)
  then show ?thesis using r3(3,4) r1(5,6) by auto
qed

lemma reorder_cur:
  assumes inv: "flow_inv rfi" and len: "10 \<le> length rd" and ok: "rd_ok rd flags rfi"
    and cur: "flags AND BRCMF_RXREORDER_NEW_HOLE = 0" "flags AND BRCMF_RXREORDER_CURIDX_VALID \<noteq> 0"
  shows "\<exists>skbs rfi'. reorder_flow rd flags pkt rfi = Some (skbs, [], rfi') \<and> flow_inv rfi'
    \<and> mset skbs + slot_pkts (pktslots rfi') = add_mset pkt (slot_pkts (pktslots rfi))"
proof -
  have rd: "nth_opt rd 2 = Some (rd ! 2)" "nth_opt rd 6 = Some (rd ! 6)" "nth_opt rd 8 = Some (rd ! 8)"
    using len by simp_all
  note d = flow_invD [OF inv]
  from cur have i: "rd ! 8 \<le> max_idx rfi" "rd ! 6 \<le> max_idx rfi" "pktslots rfi ! unat (rd ! 6) = None"
    using ok by (auto simp: rd_ok_def)
  obtain r1 where r1: "rx_store rfi (rd ! 6) pkt = Some ([], r1)"
    "r1 = rfi\<lparr>pktslots := (pktslots rfi)[unat (rd ! 6) := Some pkt], pend_pkts := pend_pkts rfi + 1\<rparr>" "flow_inv r1"
    "slot_pkts (pktslots r1) = add_mset pkt (slot_pkts (pktslots rfi))"
    by (rule rx_store_run [OF inv i(2,3)])
  show ?thesis
  proof (cases "rd ! 8 = exp_idx rfi \<and> rd ! 6 \<noteq> exp_idx rfi")
    case True
    then have "reorder_flow rd flags pkt rfi = Some ([], [], r1\<lparr>cur_idx := rd ! 6\<rparr>)"
      using cur unfolding reorder_flow_def rd Option.bind.simps r1(1) by simp
    then show ?thesis using r1(3,4) by (simp add: flow_inv_idx)
  next
    case no: False
    show ?thesis
    proof (cases "exp_idx rfi = rd ! 6")
      case True
      let ?r2 = "r1\<lparr>cur_idx := rd ! 6, exp_idx := rd ! 8\<rparr>"
      have r2: "flow_inv ?r2" using r1(2,3) i(1) by (intro flow_inv_idx) simp_all
      obtain r3 where r3: "brcmf_rxreorder_get_skb_list ?r2 (rd ! 6) (rd ! 8)
          = Some (slots_at (pktslots ?r2) (ro_window (unat (max_idx ?r2)) (unat (rd ! 6)) (unat (rd ! 8))), r3)"
        "flow_inv r3"
        "slot_pkts (pktslots r3) + mset (slots_at (pktslots ?r2) (ro_window (unat (max_idx ?r2)) (unat (rd ! 6)) (unat (rd ! 8))))
          = slot_pkts (pktslots ?r2)"
        by (rule get_skb_list_run [OF r2, of "rd ! 6" "rd ! 8"]) (use i r1(2) in simp_all)
      have "reorder_flow rd flags pkt rfi
          = Some (slots_at (pktslots ?r2) (ro_window (unat (max_idx ?r2)) (unat (rd ! 6)) (unat (rd ! 8))), [], r3)"
        using cur no True r3(1) unfolding reorder_flow_def rd Option.bind.simps r1(1) by simp
      then show ?thesis using r3(2,3) r1(4) by (auto simp: add.commute)
    next
      case False
      let ?fin = "if flags AND BRCMF_RXREORDER_FLUSH_ALL \<noteq> 0 then exp_idx rfi else rd ! 8"
      let ?w = "slots_at (pktslots rfi) (ro_window (unat (max_idx rfi)) (unat (exp_idx rfi)) (unat ?fin))"
      obtain r2 where r2: "brcmf_rxreorder_get_skb_list rfi (exp_idx rfi) ?fin = Some (?w, r2)" "flow_inv r2"
        "max_idx r2 = max_idx rfi"
        "pktslots r2 = slots_clear (pktslots rfi) (ro_window (unat (max_idx rfi)) (unat (exp_idx rfi)) (unat ?fin))"
        "slot_pkts (pktslots r2) + mset ?w = slot_pkts (pktslots rfi)"
        by (rule get_skb_list_run [OF inv d(4), of ?fin]) (use i(1) d(4) in simp_all)
      have li: "unat (rd ! 6) < length (pktslots r2)"
        using flow_invD(1) [OF r2(2)] r2(3) i(2) by (simp add: word_le_nat_alt)
      have free: "pktslots r2 ! unat (rd ! 6) = None"
        using li i(3) by (simp add: r2(4) slots_clear_def)
      show ?thesis
      proof (cases "unat (rd ! 8) = (unat (rd ! 6) + 1) mod (unat (max_idx rfi) + 1)")
        case True
        then have "reorder_flow rd flags pkt rfi = Some (?w @ [pkt], [], r2\<lparr>exp_idx := rd ! 8, cur_idx := rd ! 6\<rparr>)"
          using cur no False r2(3) unfolding reorder_flow_def rd Option.bind.simps Let_def r2(1) by simp
        moreover have "flow_inv (r2\<lparr>exp_idx := rd ! 8, cur_idx := rd ! 6\<rparr>)"
          using r2(2,3) i(1) by (simp add: flow_inv_def)
        ultimately show ?thesis using r2(5) by (auto simp: add.commute)
      next
        case ne: False
        obtain r3 where r3: "r3 = r2\<lparr>pktslots := (pktslots r2)[unat (rd ! 6) := Some pkt], pend_pkts := pend_pkts r2 + 1\<rparr>"
          "flow_inv r3" "slot_pkts (pktslots r3) = add_mset pkt (slot_pkts (pktslots r2))"
          by (rule rx_store_run [OF r2(2) _ free]) (simp add: r2(3) i(2))
        have "reorder_flow rd flags pkt rfi = Some (?w, [], r3\<lparr>exp_idx := rd ! 8, cur_idx := rd ! 6\<rparr>)"
          using cur no False ne r2(3) li unfolding reorder_flow_def rd Option.bind.simps Let_def r2(1)
          by (simp add: r3(1) upd_opt_in del: upd_opt_Some)
        moreover have "flow_inv (r3\<lparr>exp_idx := rd ! 8, cur_idx := rd ! 6\<rparr>)"
          using r3(1,2) r2(3) i(1) by (simp add: flow_inv_def)
        ultimately show ?thesis using r2(5) r3(3) by (auto simp: add.commute)
      qed
    qed
  qed
qed

lemma reorder_move:
  assumes inv: "flow_inv rfi" and len: "10 \<le> length rd" and ok: "rd_ok rd flags rfi"
    and move: "flags AND BRCMF_RXREORDER_NEW_HOLE = 0" "flags AND BRCMF_RXREORDER_CURIDX_VALID = 0"
  shows "\<exists>skbs rfi'. reorder_flow rd flags pkt rfi = Some (skbs, [], rfi') \<and> flow_inv rfi'
    \<and> mset skbs + slot_pkts (pktslots rfi') = add_mset pkt (slot_pkts (pktslots rfi))"
proof -
  have rd: "nth_opt rd 2 = Some (rd ! 2)" "nth_opt rd 6 = Some (rd ! 6)" "nth_opt rd 8 = Some (rd ! 8)"
    using len by simp_all
  note d = flow_invD [OF inv]
  let ?fin = "if flags AND BRCMF_RXREORDER_FLUSH_ALL \<noteq> 0 then exp_idx rfi else rd ! 8"
  let ?w = "slots_at (pktslots rfi) (ro_window (unat (max_idx rfi)) (unat (exp_idx rfi)) (unat ?fin))"
  have i: "rd ! 8 \<le> max_idx rfi" using ok by (simp add: rd_ok_def)
  obtain r2 where r2: "brcmf_rxreorder_get_skb_list rfi (exp_idx rfi) ?fin = Some (?w, r2)" "flow_inv r2"
    "max_idx r2 = max_idx rfi" "slot_pkts (pktslots r2) + mset ?w = slot_pkts (pktslots rfi)"
    by (rule get_skb_list_run [OF inv d(4), of ?fin]) (use i d(4) in simp_all)
  have "reorder_flow rd flags pkt rfi = Some (?w @ [pkt], [], r2\<lparr>exp_idx := rd ! 8\<rparr>)"
    using move unfolding reorder_flow_def rd Option.bind.simps Let_def r2(1) by simp
  moreover have "flow_inv (r2\<lparr>exp_idx := rd ! 8\<rparr>)" using r2(2,3) i by (intro flow_inv_idx) simp_all
  ultimately show ?thesis using r2(4) by (auto simp: add.commute)
qed

lemma reorder_flow_run:
  assumes "flow_inv rfi" and "10 \<le> length rd" and "rd_ok rd flags rfi"
  shows "\<exists>skbs rfi'. reorder_flow rd flags pkt rfi = Some (skbs, [], rfi') \<and> flow_inv rfi'
    \<and> mset skbs + slot_pkts (pktslots rfi') = add_mset pkt (slot_pkts (pktslots rfi))"
  using reorder_hole [OF assms] reorder_cur [OF assms] reorder_move [OF assms] by blast

text \<open>A packet whose slot is taken: the one that waits there is freed, the count is no longer that of the slots.\<close>

lemma get_skb_list_keeps:
  assumes "length (pktslots rfi) = unat (max_idx rfi) + 1" and "s \<le> max_idx rfi" and "e \<le> max_idx rfi"
  shows "\<exists>skbs rfi'. brcmf_rxreorder_get_skb_list rfi s e = Some (skbs, rfi')
    \<and> mset skbs + slot_pkts (pktslots rfi') = slot_pkts (pktslots rfi)"
proof -
  let ?is = "ro_window (unat (max_idx rfi)) (unat s) (unat e)"
  have b: "unat s \<le> unat (max_idx rfi)" "unat e \<le> unat (max_idx rfi)"
    using assms(2,3) by (simp_all add: word_le_nat_alt)
  have "set ?is \<subseteq> {0..<length (pktslots rfi)}" using ro_window_distinct(2) [OF b] assms(1) by auto
  note eq = slot_pkts_clear [OF ro_window_distinct(1) [OF b] this]
  show ?thesis
    using eq reorder_collect_window [OF assms(2,3,1), of "[]"]
    by (simp add: brcmf_rxreorder_get_skb_list_def add.commute)
qed

lemma slot_pkts_replace:
  assumes "i < length slots" and "slots ! i = Some old"
  shows "slot_pkts (slots[i := Some p]) + {#old#} = add_mset p (slot_pkts slots)"
proof -
  have "slot_pkts (slots_clear slots [i]) + {#old#} = slot_pkts slots"
    using slot_pkts_clear [of "[i]" slots] assms by (simp add: slots_at_def)
  moreover have "slots_clear (slots[i := Some p]) [i] = slots_clear slots [i]"
    by (rule nth_equalityI) (auto simp: slots_clear_def)
  then have "slot_pkts (slots_clear slots [i]) + {#p#} = slot_pkts (slots[i := Some p])"
    using slot_pkts_clear [of "[i]" "slots[i := Some p]"] assms(1) by (simp add: slots_at_def)
  ultimately show ?thesis by (simp flip: \<open>slot_pkts (slots_clear slots [i]) + {#p#} = _\<close>)
qed

lemma reorder_taken:
  assumes inv: "flow_inv rfi" and len: "10 \<le> length rd" and ok: "rd_window rd flags rfi"
    and cur: "flags AND BRCMF_RXREORDER_NEW_HOLE = 0" "flags AND BRCMF_RXREORDER_CURIDX_VALID \<noteq> 0"
    and old: "pktslots rfi ! unat (rd ! 6) = Some old"
  shows "\<exists>skbs rfi'. reorder_flow rd flags pkt rfi = Some (skbs, [old], rfi')
    \<and> mset skbs + slot_pkts (pktslots rfi') + {#old#} = add_mset pkt (slot_pkts (pktslots rfi))"
proof -
  have rd: "nth_opt rd 6 = Some (rd ! 6)" "nth_opt rd 8 = Some (rd ! 8)" using len by simp_all
  note d = flow_invD [OF inv]
  from cur ok have i: "rd ! 8 \<le> max_idx rfi" "rd ! 6 \<le> max_idx rfi" "rd ! 8 = exp_idx rfi \<or> rd ! 6 = exp_idx rfi"
    using old by (auto simp: rd_window_def)
  have li: "unat (rd ! 6) < length (pktslots rfi)" using i(2) d(1) by (simp add: word_le_nat_alt)
  let ?r1 = "rfi\<lparr>pktslots := (pktslots rfi)[unat (rd ! 6) := Some pkt], pend_pkts := pend_pkts rfi + 1\<rparr>"
  have st: "rx_store rfi (rd ! 6) pkt = Some ([old], ?r1)"
    using li old by (simp add: rx_store_def nth_opt_in del: nth_opt_Some)
  note rep = slot_pkts_replace [OF li old, of pkt]
  show ?thesis
  proof (cases "rd ! 6 = exp_idx rfi")
    case False
    then have "reorder_flow rd flags pkt rfi = Some ([], [old], ?r1\<lparr>cur_idx := rd ! 6\<rparr>)"
      using cur i(3) unfolding reorder_flow_def rd Option.bind.simps st by simp
    then show ?thesis using rep by simp
  next
    case True
    let ?r2 = "?r1\<lparr>cur_idx := rd ! 6, exp_idx := rd ! 8\<rparr>"
    obtain skbs r3 where r3: "brcmf_rxreorder_get_skb_list ?r2 (rd ! 6) (rd ! 8) = Some (skbs, r3)"
      "mset skbs + slot_pkts (pktslots r3) = slot_pkts (pktslots ?r2)"
      using get_skb_list_keeps [of ?r2 "rd ! 6" "rd ! 8"] d(1) i by auto
    have "reorder_flow rd flags pkt rfi = Some (skbs, [old], r3)"
      using cur True r3(1) unfolding reorder_flow_def rd Option.bind.simps st by simp
    then show ?thesis using r3(2) rep by simp
  qed
qed

lemma rx_freed_sel [simp]: "held_pkts (st\<lparr>rx_freed := ps\<rparr>) = held_pkts st" "reorder_inv (st\<lparr>rx_freed := ps\<rparr>) = reorder_inv st"
  by (simp_all add: held_pkts_def reorder_inv_def)

lemma reorder_flow_keeps:
  assumes "flow_inv rfi" and "10 \<le> length rd" and "rd_window rd flags rfi"
  shows "\<exists>skbs freed rfi'. reorder_flow rd flags pkt rfi = Some (skbs, freed, rfi')
    \<and> mset skbs + slot_pkts (pktslots rfi') + mset freed = add_mset pkt (slot_pkts (pktslots rfi))
    \<and> (slot_free rd flags rfi \<longrightarrow> freed = [] \<and> flow_inv rfi')"
proof (cases "slot_free rd flags rfi")
  case True
  then show ?thesis using reorder_flow_run [OF assms(1,2) rd_ok_window [OF assms(3)]] by fastforce
next
  case False
  then show ?thesis using reorder_taken [OF assms(1-3)] by (fastforce simp: slot_free_def)
qed

lemma sum_list_update_flow:
  fixes f :: "'a \<Rightarrow> 'b multiset"
  shows "i < length xs \<Longrightarrow> sum_list (map f (xs[i := x])) + f (xs ! i) = sum_list (map f xs) + f x"
proof (induction xs arbitrary: i)
  case Nil
  then show ?case by simp
next
  case (Cons y ys)
  then show ?case by (cases i) (auto simp: ac_simps)
qed

lemma held_set_flow:
  assumes "unat fid < length (reorder_flows st)"
  shows "held_pkts (rx_set_flow fid r st) + flow_pkts (reorder_flows st ! unat fid) = held_pkts st + flow_pkts r"
  using sum_list_update_flow [OF assms, of flow_pkts] by (simp add: held_pkts_def rx_set_flow_def)

lemma reorder_inv_set:
  assumes "reorder_inv st" and "\<And>rfi. r = Some rfi \<Longrightarrow> flow_inv rfi"
  shows "reorder_inv (rx_set_flow fid r st)"
  using assms by (auto simp: reorder_inv_def rx_set_flow_def dest!: set_update_subset_insert [THEN subsetD])

lemma rx_sel [simp]:
  "netif_rx (rx_deliver ps st) = netif_rx st @ ps" "rx_freed (rx_deliver ps st) = rx_freed st"
  "held_pkts (rx_deliver ps st) = held_pkts st" "reorder_inv (rx_deliver ps st) = reorder_inv st"
  "netif_rx (rx_set_flow fid r st) = netif_rx st" "rx_freed (rx_set_flow fid r st) = rx_freed st"
  by (simp_all add: rx_deliver_def rx_set_flow_def held_pkts_def reorder_inv_def)

text \<open>The flow a packet is for: the existing one, or the one the packet creates.\<close>

definition rd_flow :: "u8 list \<Rightarrow> 'p reorder_state \<Rightarrow> 'p brcmf_ampdu_rx_reorder" where
  "rd_flow rd st = (case reorder_flows st ! unat (rd ! 0) of Some rfi \<Rightarrow> rfi
     | None \<Rightarrow> \<lparr>cur_idx = 0, exp_idx = 0, max_idx = rd ! 2, pend_pkts = 0, pktslots = replicate (unat (rd ! 2) + 1) None\<rparr>)"

lemma rd_flow_inv:
  fixes st :: "'p reorder_state"
  assumes "reorder_inv st" and "rd ! 2 < 255"
  shows "flow_inv (rd_flow rd st)" and "slot_pkts (pktslots (rd_flow rd st)) = flow_pkts (reorder_flows st ! unat (rd ! 0))"
proof -
  have l: "unat (rd ! 0) < length (reorder_flows st)" using assms(1) unat_widths_less(1) [of "rd ! 0"] by (simp add: reorder_inv_def)
  have z: "slot_pkts (replicate n (None :: 'p option)) = {#}" for n
    using slots_at_none [of "[0..<n]" "replicate n (None :: 'p option)"] by (simp add: slot_pkts_def)
  show "flow_inv (rd_flow rd st)"
  proof (cases "reorder_flows st ! unat (rd ! 0)")
    case None
    then show ?thesis using assms(2) z [of "Suc (unat (rd ! 2))"] by (simp add: rd_flow_def flow_inv_def)
  next
    case (Some rfi)
    then have "Some rfi \<in> set (reorder_flows st)" using l by (metis nth_mem)
    then show ?thesis using assms(1) Some by (simp add: rd_flow_def reorder_inv_def)
  qed
  show "slot_pkts (pktslots (rd_flow rd st)) = flow_pkts (reorder_flows st ! unat (rd ! 0))"
    using z [of "Suc (unat (rd ! 2))"] by (simp add: rd_flow_def flow_pkts_def split: option.splits)
qed


text \<open>A flow with a hole: index 0 is awaited, packets 1 and 2 of four wait.\<close>

definition flow_ex :: "nat brcmf_ampdu_rx_reorder" where
  "flow_ex = \<lparr>cur_idx = 2, exp_idx = 0, max_idx = 3, pend_pkts = 2, pktslots = [None, Some 11, Some 12, None]\<rparr>"

definition reorder_ex :: "nat reorder_state" where
  "reorder_ex = \<lparr>reorder_flows = (replicate 256 None)[7 := Some flow_ex], netif_rx = [], rx_freed = []\<rparr>"

lemma reorder_ex_inv: "flow_inv flow_ex" "reorder_inv reorder_ex"
proof -
  show f: "flow_inv flow_ex"
    by (simp add: flow_inv_def flow_ex_def slot_pkts_def slots_at_def upt_rec)
  have "set ((replicate 256 None)[7 := Some flow_ex]) \<subseteq> insert (Some flow_ex) (set (replicate 256 None))"
    by (rule set_update_subset_insert)
  then have "rfi = flow_ex" if "Some rfi \<in> set ((replicate 256 None)[7 := Some flow_ex])" for rfi
    using that by (metis (no_types, lifting) in_set_replicate insertE option.distinct(1) option.inject subsetD)
  then show "reorder_inv reorder_ex" using f unfolding reorder_inv_def reorder_ex_def
    by (metis (no_types, lifting) length_list_update length_replicate reorder_state.select_convs(1))
qed

lemma reorder_ex_flow: "reorder_flows reorder_ex ! 7 = Some flow_ex"
  by (simp add: reorder_ex_def)

lemma reorder_ex_lists: "netif_rx reorder_ex = []" "rx_freed reorder_ex = []"
  by (simp_all add: reorder_ex_def)


section \<open>Order\<close>

text \<open>C19: the packet that fills the hole is delivered first, then the packets that waited behind it in the order
  of their indices up to the next expected one; those slots are empty afterwards, and packets that are early
  wait. The first packet behind a new expectation is therefore never overtaken.\<close>

theorem rxreorder_in_order:
  assumes "reorder_inv st" and "10 \<le> length rd" and "reorder_flows st ! unat (rd ! 0) = Some rfi"
    and "rd ! 4 AND BRCMF_RXREORDER_DEL_FLOW = 0" and "rd ! 4 AND BRCMF_RXREORDER_NEW_HOLE = 0"
    and "rd ! 4 AND BRCMF_RXREORDER_CURIDX_VALID \<noteq> 0"
    and "rd ! 6 = exp_idx rfi" and "rd ! 8 \<le> max_idx rfi"
    and "pktslots rfi ! unat (rd ! 6) = None"
  defines "behind \<equiv> tl (ro_window (unat (max_idx rfi)) (unat (exp_idx rfi)) (unat (rd ! 8)))"
  shows "\<exists>st' rfi'. brcmf_fws_rxreorder alloc rd pkt st = Some st' \<and> reorder_flows st' ! unat (rd ! 0) = Some rfi'
    \<and> netif_rx st' = netif_rx st @ pkt # slots_at (pktslots rfi) behind
    \<and> exp_idx rfi' = rd ! 8 \<and> pktslots rfi' = slots_clear (pktslots rfi) behind"
proof -
  have rd: "nth_opt rd 0 = Some (rd ! 0)" "nth_opt rd 4 = Some (rd ! 4)" "nth_opt rd 6 = Some (rd ! 6)"
    "nth_opt rd 8 = Some (rd ! 8)"
    using assms(2) by - (cases rd; simp)+
  have l: "unat (rd ! 0) < length (reorder_flows st)"
    using assms(1) unat_widths_less(1) [of "rd ! 0"] by (simp add: reorder_inv_def)
  have inv: "flow_inv rfi" using assms(1,3) l by (metis nth_mem reorder_inv_def)
  note d = flow_invD [OF inv]
  have b: "unat (exp_idx rfi) \<le> unat (max_idx rfi)" "unat (rd ! 8) \<le> unat (max_idx rfi)"
    using d(4) assms(8) by (simp_all add: word_le_nat_alt)
  let ?is = "ro_window (unat (max_idx rfi)) (unat (exp_idx rfi)) (unat (rd ! 8))"
  have w: "?is = unat (exp_idx rfi) # behind"
    using ro_window_step [OF b] by (simp add: behind_def)
  have ni: "unat (exp_idx rfi) \<notin> set behind" using ro_window_distinct(1) [OF b] w by simp
  have li: "unat (rd ! 6) < length (pktslots rfi)" using b(1) d(1) assms(7) by simp
  obtain r1 where r1: "rx_store rfi (rd ! 6) pkt = Some ([], r1)"
    "r1 = rfi\<lparr>pktslots := (pktslots rfi)[unat (rd ! 6) := Some pkt], pend_pkts := pend_pkts rfi + 1\<rparr>" "flow_inv r1"
    by (rule rx_store_run [OF inv _ assms(9), where pkt = pkt]) (simp add: assms(7) d(4))
  let ?r2 = "r1\<lparr>cur_idx := rd ! 6, exp_idx := rd ! 8\<rparr>"
  have r2: "flow_inv ?r2" using r1(2,3) assms(8) by (intro flow_inv_idx) simp_all
  have m1: "max_idx r1 = max_idx rfi" by (simp add: r1(2))
  obtain r3 where r3: "brcmf_rxreorder_get_skb_list ?r2 (rd ! 6) (rd ! 8) = Some (slots_at (pktslots ?r2) ?is, r3)"
    "exp_idx r3 = rd ! 8" "pktslots r3 = slots_clear (pktslots ?r2) ?is"
    by (rule get_skb_list_run [OF r2, of "rd ! 6" "rd ! 8"]) (use assms(7,8) d(4) in \<open>simp_all add: m1\<close>)
  have at: "slots_at (pktslots ?r2) ?is = pkt # slots_at (pktslots rfi) behind"
    using li ni assms(7) by (simp add: w r1(2) slots_at_Cons slots_at_update)
  have cl: "slots_clear (pktslots ?r2) ?is = slots_clear (pktslots rfi) behind"
    using li assms(7,9) by (intro nth_equalityI) (auto simp: w r1(2) slots_clear_def nth_list_update)
  have "reorder_flow rd (rd ! 4) pkt rfi = Some (pkt # slots_at (pktslots rfi) behind, [], r3)"
    using assms(5-7) r3(1) unfolding reorder_flow_def rd Option.bind.simps r1(1) at by simp
  moreover have "rd ! 4 \<noteq> 0xFF" using assms(4) by auto
  ultimately show ?thesis
    using assms(3,4) l r3(2,3) cl
    by (simp add: brcmf_fws_rxreorder_def rd nth_opt_in Let_def rx_deliver_def rx_set_flow_def del: nth_opt_Some)
qed

theorem rxreorder_in_order_witness:
  "\<exists>st' rfi'. brcmf_fws_rxreorder True [7, 0, 3, 0, 4, 0, 0, 0, 3, 0] 10 reorder_ex = Some st'
    \<and> reorder_flows st' ! 7 = Some rfi' \<and> netif_rx st' = [10, 11, 12] \<and> exp_idx rfi' = 3"
proof -
  have "ro_window 3 0 3 = [0, 1, 2]" by (simp add: ro_window_def ro_count_def upt_rec)
  then show ?thesis
    using rxreorder_in_order [OF reorder_ex_inv(2), of "[7, 0, 3, 0, 4, 0, 0, 0, 3, 0]" flow_ex True 10]
    by (auto simp: reorder_ex_flow flow_ex_def slots_at_def reorder_ex_def [THEN arg_cong [where f = netif_rx]])
qed

section \<open>An index outside the window\<close>

lemma reorder_collect_runaway:
  assumes "reorder_collect mx s e slots acc = Some y"
  shows "\<not> (s \<le> mx \<and> mx < e)"
proof (rule reorder_collect.raw_induct [where P = "\<lambda>mx s e slots acc y. \<not> (s \<le> mx \<and> mx < e)", OF _ assms])
  fix rc :: "u8 \<Rightarrow> u8 \<Rightarrow> u8 \<Rightarrow> 'a option list \<Rightarrow> 'a list \<Rightarrow> ('a list \<times> 'a option list) option"
    and mx s e :: u8 and slots :: "'a option list" and acc :: "'a list" and y
  let ?n = "if mx < s + 1 then 0 else s + 1"
  assume ih: "\<And>mx s e slots acc y. rc mx s e slots acc = Some y \<Longrightarrow> \<not> (s \<le> mx \<and> mx < e)"
    and run: "do {
      slot \<leftarrow> nth_opt slots (unat s);
      let skbs = (case slot of Some p \<Rightarrow> acc @ [p] | None \<Rightarrow> acc);
      let slots = slots[unat s := None];
      let next = ?n;
      if next \<noteq> e then rc mx next e slots skbs else Some (skbs, slots) } = Some y"
  show "\<not> (s \<le> mx \<and> mx < e)"
  proof
    assume b: "s \<le> mx \<and> mx < e"
    have n: "?n \<le> mx" by (simp add: not_less)
    then have "?n \<noteq> e" using b by auto
    then obtain slots' acc' where "rc mx ?n e slots' acc' = Some y"
      using run by (auto simp: bind_Some_iff Let_def)
    from ih [OF this] show False using n b by blast
  qed
qed

text \<open>The indices firmware sends are not checked. When it moves the window of a flow that holds packets to an
  expected index beyond the flow's largest one, the loop that releases packets never meets its end: the call
  does not return.\<close>

theorem rxreorder_runaway:
  assumes "10 \<le> length rd" and "nth_opt (reorder_flows st) (unat (rd ! 0)) = Some (Some rfi)" and "flow_inv rfi"
    and "pend_pkts rfi \<noteq> 0" and "rd ! 4 = 0" and "max_idx rfi < rd ! 8"
  shows "brcmf_fws_rxreorder alloc rd pkt st = None"
proof -
  have rd: "nth_opt rd 0 = Some (rd ! 0)" "nth_opt rd 4 = Some 0" "nth_opt rd 8 = Some (rd ! 8)"
    using assms(1,5) by - (cases rd; simp)+
  have "reorder_collect (max_idx rfi) (exp_idx rfi) (rd ! 8) (pktslots rfi) [] = None"
    using reorder_collect_runaway [of "max_idx rfi" "exp_idx rfi" "rd ! 8" "pktslots rfi" "[]"]
      flow_invD(4) [OF assms(3)] assms(6) by (metis not_None_eq)
  then show ?thesis
    using assms(4) by (simp add: brcmf_fws_rxreorder_def rd assms(2) reorder_flow_def
        brcmf_rxreorder_get_skb_list_def Let_def del: nth_opt_Some)
qed

theorem rxreorder_runaway_witness:
  "brcmf_fws_rxreorder True [7, 0, 3, 0, 0, 0, 0, 0, 9, 0] 10 reorder_ex = None"
proof (rule rxreorder_runaway [where rfi = flow_ex])
  show "flow_inv flow_ex" by (rule reorder_ex_inv(1))
qed (simp_all add: reorder_ex_def nth_opt_def flow_ex_def)

end
