(* ===== verification/FwsData.thy ===== *)
theory FwsData
  imports PktQueue D11 Bcdc
begin

text \<open>
  Firmware signalling, part one (\<open>fwsignal.c\<close>): the state of \<open>struct brcmf_fws_info\<close>, the hanger that keeps
  packets until their status arrives, the destination descriptors, the header pushed before a packet, credits,
  and the power-save queues.

  Packets are the indices of a table of socket buffers, as pointers are in the code; a descriptor is its index in
  \<open>struct brcmf_fws_macdesc_table\<close> seen as the flat array \<open>brcmf_fws_deq\<close> takes it for: 32 nodes, 16 interfaces,
  one other. C \<open>int\<close> counters are integers, unsigned fields words. An index outside a table, a NULL descriptor that
  is followed and a header without headroom are \<^const>\<open>None\<close>. Locks are not modelled; a call
  out of the layer (transmission, freeing, flow control, scheduling the worker) is recorded in a log, and its
  outcome is a parameter.
\<close>

section \<open>State\<close>

abbreviation FIFO_COUNT :: nat where "FIFO_COUNT \<equiv> 6"
abbreviation FIFO_AC_BE :: nat where "FIFO_AC_BE \<equiv> 1"
abbreviation FIFO_AC_VO :: nat where "FIFO_AC_VO \<equiv> 3"
abbreviation FIFO_BCMC :: nat where "FIFO_BCMC \<equiv> 4"
abbreviation HANGER_MAXITEMS :: u32 where "HANGER_MAXITEMS \<equiv> 3072"
abbreviation PSQ_PREC_COUNT :: nat where "PSQ_PREC_COUNT \<equiv> 14"
abbreviation PSQ_LEN :: nat where "PSQ_LEN \<equiv> 256"
abbreviation DESC_IFACE :: nat where "DESC_IFACE \<equiv> 32"
abbreviation DESC_OTHER :: nat where "DESC_OTHER \<equiv> 48"
abbreviation DESC_COUNT :: nat where "DESC_COUNT \<equiv> 49"
abbreviation STATE_OPEN :: u8 where "STATE_OPEN \<equiv> 1"
abbreviation STATE_CLOSE :: u8 where "STATE_CLOSE \<equiv> 2"

datatype brcmf_fws_skb_state = SKBSTATE_NEW | SKBSTATE_DELAYED | SKBSTATE_SUPPRESSED | SKBSTATE_TIM
datatype brcmf_fws_hanger_item_state = ITEM_FREE | ITEM_INUSE | ITEM_INUSE_SUPPRESSED
datatype brcmf_fws_fcmode = FCMODE_NONE | FCMODE_IMPLIED_CREDIT | FCMODE_EXPLICIT_CREDIT

text \<open>A packet with its control buffer.\<close>

record brcmf_skbuff_cb =
  kb_skb :: sk_buff
  if_flags :: u16
  htod :: u32
  htod_seq :: u16
  kb_state :: brcmf_fws_skb_state
  kb_mac :: "nat option"

record brcmf_fws_mac_descriptor =
  md_name :: string
  occupied :: bool
  mac_handle :: u8
  interface_id :: u8
  md_state :: u8
  suppressed :: bool
  generation :: u8
  ac_bitmap :: u8
  requested_credit :: u8
  requested_packet :: u8
  md_ea :: "u8 list"
  md_seq :: "u8 list"
  psq :: "nat pktq"
  transit_count :: int
  suppr_transit_count :: int
  send_tim_signal :: bool
  traffic_pending_bmp :: u8
  traffic_lastreported_bmp :: u8

record 'p brcmf_fws_hanger =
  h_pushed :: u32
  h_popped :: u32
  h_failed_to_push :: u32
  h_failed_to_pop :: u32
  h_failed_slotfind :: u32
  slot_pos :: u32
  h_items :: "(brcmf_fws_hanger_item_state \<times> 'p option) list"

datatype brcmf_fws_stat = tlv_parse_failed | tlv_invalid_type | header_only_pkt | header_pulls | pkt2bus
  | send_pkts nat | requested_sent nat | generic_error | mac_update_failed | mac_ps_update_failed
  | if_update_failed | packet_request_failed | credit_request_failed | rollback_success | rollback_failed
  | delayq_full_error | supprq_full_error | txs_indicate | txs_discard | txs_supp_core | txs_supp_ps
  | txs_tossed | txs_host_tossed | bus_flow_block | fws_flow_block

datatype fws_action = TxData nat u32 u8 | FreeSkb nat | TxFinalize nat bool | FlowBlock nat bool
  | BusFlowBlock nat bool | ScheduleDeq

record brcmf_fws_info =
  fw_stats :: "brcmf_fws_stat \<Rightarrow> u32"
  hanger :: "nat brcmf_fws_hanger"
  fcmode :: brcmf_fws_fcmode
  fw_signals :: bool
  bcmc_credit_check :: bool
  fw_desc :: "brcmf_fws_mac_descriptor list"
  fifo_enqpkt :: "u32 list"
  fifo_credit :: "int list"
  init_fifo_credit :: "int list"
  credits_borrowed :: "int list list"
  deq_node_pos :: "nat list"
  fifo_credit_map :: u32
  fifo_delay_map :: u32
  borrow_defer_timestamp :: u64
  bus_flow_blocked :: bool
  creditmap_received :: bool
  fw_mode :: u8
  avoid_queueing :: bool
  fw_skbs :: "brcmf_skbuff_cb list"
  fw_txq :: "nat pktq option"
  fw_stopped :: "bool list"
  fw_ifdesc :: "nat option list"
  fw_log :: "fws_action list"

text \<open>The surroundings: the outcome of the \<open>n\<close>-th transmission, the interface tables (interfaces are numbers,
  indexing \<open>fw_stopped\<close> and \<open>fw_ifdesc\<close>), whether a socket buffer can be allocated, the driver's header room and
  the clock.\<close>

record fws_env =
  fe_tx :: "nat \<Rightarrow> int"
  fe_ifs :: "nat if_tables"
  fe_alloc :: bool
  fe_hdrlen :: nat
  fe_jiffies :: u64
  fe_hz :: u64

definition fw_emit :: "fws_action \<Rightarrow> brcmf_fws_info \<Rightarrow> brcmf_fws_info" where
  "fw_emit a s = s\<lparr>fw_log := fw_log s @ [a]\<rparr>"

definition stat_add :: "brcmf_fws_stat \<Rightarrow> u32 \<Rightarrow> brcmf_fws_info \<Rightarrow> brcmf_fws_info" where
  "stat_add c n s = s\<lparr>fw_stats := (fw_stats s)(c := fw_stats s c + n)\<rparr>"

definition skb_upd :: "nat \<Rightarrow> brcmf_skbuff_cb \<Rightarrow> brcmf_fws_info \<Rightarrow> brcmf_fws_info" where
  "skb_upd i k s = s\<lparr>fw_skbs := (fw_skbs s)[i := k]\<rparr>"

definition desc_upd :: "nat \<Rightarrow> brcmf_fws_mac_descriptor \<Rightarrow> brcmf_fws_info \<Rightarrow> brcmf_fws_info" where
  "desc_upd i e s = s\<lparr>fw_desc := (fw_desc s)[i := e]\<rparr>"

section \<open>Packet tags\<close>

definition brcmu_maskset32 :: "u32 \<Rightarrow> u32 \<Rightarrow> nat \<Rightarrow> u32 \<Rightarrow> u32" where
  "brcmu_maskset32 var msk shift val = (var AND NOT msk) OR (push_bit shift val AND msk)"

definition brcmu_maskget32 :: "u32 \<Rightarrow> u32 \<Rightarrow> nat \<Rightarrow> u32" where
  "brcmu_maskget32 var msk shift = drop_bit shift (var AND msk)"

abbreviation tag_generation :: "u32 \<Rightarrow> u32" where "tag_generation w \<equiv> brcmu_maskget32 w 0x80000000 31"
abbreviation tag_flags :: "u32 \<Rightarrow> u32" where "tag_flags w \<equiv> brcmu_maskget32 w 0x78000000 27"
abbreviation tag_fifo :: "u32 \<Rightarrow> u32" where "tag_fifo w \<equiv> brcmu_maskget32 w 0x07000000 24"
abbreviation tag_hslot :: "u32 \<Rightarrow> u32" where "tag_hslot w \<equiv> brcmu_maskget32 w 0x00ffff00 8"
abbreviation tag_freerun :: "u32 \<Rightarrow> u32" where "tag_freerun w \<equiv> brcmu_maskget32 w 0x000000ff 0"
abbreviation set_generation :: "u32 \<Rightarrow> u32 \<Rightarrow> u32" where "set_generation v w \<equiv> brcmu_maskset32 w 0x80000000 31 v"
abbreviation set_flags :: "u32 \<Rightarrow> u32 \<Rightarrow> u32" where "set_flags v w \<equiv> brcmu_maskset32 w 0x78000000 27 v"
abbreviation set_fifo :: "u32 \<Rightarrow> u32 \<Rightarrow> u32" where "set_fifo v w \<equiv> brcmu_maskset32 w 0x07000000 24 v"
abbreviation set_hslot :: "u32 \<Rightarrow> u32 \<Rightarrow> u32" where "set_hslot v w \<equiv> brcmu_maskset32 w 0x00ffff00 8 v"
abbreviation set_freerun :: "u32 \<Rightarrow> u32 \<Rightarrow> u32" where "set_freerun v w \<equiv> brcmu_maskset32 w 0x000000ff 0 v"

abbreviation if_index :: "u16 \<Rightarrow> u16" where "if_index w \<equiv> brcmu_maskget16 w 0x000f 0"
abbreviation if_requested :: "u16 \<Rightarrow> u16" where "if_requested w \<equiv> brcmu_maskget16 w 0x0800 11"
abbreviation if_req_credit :: "u16 \<Rightarrow> u16" where "if_req_credit w \<equiv> brcmu_maskget16 w 0x0100 8"
abbreviation set_if_index :: "u16 \<Rightarrow> u16 \<Rightarrow> u16" where "set_if_index v w \<equiv> brcmu_maskset16 w 0x000f 0 v"
abbreviation set_if_requested :: "u16 \<Rightarrow> u16 \<Rightarrow> u16" where "set_if_requested v w \<equiv> brcmu_maskset16 w 0x0800 11 v"
abbreviation set_if_req_credit :: "u16 \<Rightarrow> u16 \<Rightarrow> u16" where "set_if_req_credit v w \<equiv> brcmu_maskset16 w 0x0100 8 v"

abbreviation seq_fromfw :: "u16 \<Rightarrow> u16" where "seq_fromfw w \<equiv> brcmu_maskget16 w 0x2000 13"
abbreviation set_seq_fromfw :: "u16 \<Rightarrow> u16 \<Rightarrow> u16" where "set_seq_fromfw v w \<equiv> brcmu_maskset16 w 0x2000 13 v"
abbreviation set_seq_fromdrv :: "u16 \<Rightarrow> u16 \<Rightarrow> u16" where "set_seq_fromdrv v w \<equiv> brcmu_maskset16 w 0x1000 12 v"

definition mode_reuseseq :: "u8 \<Rightarrow> bool" where
  "mode_reuseseq mode \<longleftrightarrow> drop_bit 3 mode AND 1 \<noteq> 0"

text \<open>The match function of the queue walks, on the interface index of a packet's control buffer.\<close>

definition brcmf_fws_ifidx_match :: "brcmf_fws_info \<Rightarrow> int \<Rightarrow> nat \<Rightarrow> bool" where
  "brcmf_fws_ifidx_match s ifidx p = (p < length (fw_skbs s) \<and> uint (if_index (if_flags (fw_skbs s ! p))) = ifidx)"

definition fws_matchfn :: "brcmf_fws_info \<Rightarrow> int \<Rightarrow> (nat \<Rightarrow> bool) option" where
  "fws_matchfn s ifidx = (if ifidx \<noteq> -1 then Some (brcmf_fws_ifidx_match s ifidx) else None)"

section \<open>The hanger\<close>

definition brcmf_fws_hanger_init :: "'p brcmf_fws_hanger" where
  "brcmf_fws_hanger_init = \<lparr>h_pushed = 0, h_popped = 0, h_failed_to_push = 0, h_failed_to_pop = 0,
     h_failed_slotfind = 0, slot_pos = 0, h_items = replicate (unat HANGER_MAXITEMS) (ITEM_FREE, None)\<rparr>"

text \<open>The search for a free slot: \<open>Some None\<close> when it is back at \<open>slot_pos\<close>.\<close>

partial_function (option) hanger_scan ::
  "(brcmf_fws_hanger_item_state \<times> 'p option) list \<Rightarrow> u32 \<Rightarrow> u32 \<Rightarrow> u32 option option" where
  "hanger_scan items pos i =
     (if i = pos then Some None
      else do {
        it \<leftarrow> nth_opt items (unat i);
        if fst it = ITEM_FREE then Some (Some i)
        else hanger_scan items pos (if i + 1 = HANGER_MAXITEMS then 0 else i + 1) })"

definition brcmf_fws_hanger_get_free_slot :: "'p brcmf_fws_hanger \<Rightarrow> (u32 \<times> 'p brcmf_fws_hanger) option" where
  "brcmf_fws_hanger_get_free_slot h = do {
     r \<leftarrow> hanger_scan (h_items h) (slot_pos h) ((slot_pos h + 1) mod HANGER_MAXITEMS);
     case r of
       Some i \<Rightarrow> Some (i, h\<lparr>slot_pos := i\<rparr>)
     | None \<Rightarrow> Some (HANGER_MAXITEMS, h\<lparr>h_failed_slotfind := h_failed_slotfind h + 1\<rparr>) }"

definition brcmf_fws_hanger_pushpkt :: "'p brcmf_fws_hanger \<Rightarrow> 'p \<Rightarrow> u32 \<Rightarrow> (rc \<times> 'p brcmf_fws_hanger) option" where
  "brcmf_fws_hanger_pushpkt h pkt slot_id =
     (if HANGER_MAXITEMS \<le> slot_id then Some (ERR ENOENT, h)
      else do {
        it \<leftarrow> nth_opt (h_items h) (unat slot_id);
        if fst it \<noteq> ITEM_FREE then Some (ERR EINVAL, h\<lparr>h_failed_to_push := h_failed_to_push h + 1\<rparr>)
        else Some (OK, h\<lparr>h_items := (h_items h)[unat slot_id := (ITEM_INUSE, Some pkt)], h_pushed := h_pushed h + 1\<rparr>) })"

text \<open>The packet is the one stored through \<open>pktout\<close>.\<close>

definition brcmf_fws_hanger_poppkt ::
  "'p brcmf_fws_hanger \<Rightarrow> u32 \<Rightarrow> bool \<Rightarrow> (rc \<times> 'p option \<times> 'p brcmf_fws_hanger) option" where
  "brcmf_fws_hanger_poppkt h slot_id remove_item =
     (if HANGER_MAXITEMS \<le> slot_id then Some (ERR ENOENT, None, h)
      else do {
        it \<leftarrow> nth_opt (h_items h) (unat slot_id);
        if fst it = ITEM_FREE then Some (ERR EINVAL, None, h\<lparr>h_failed_to_pop := h_failed_to_pop h + 1\<rparr>)
        else Some (OK, snd it,
          if remove_item
          then h\<lparr>h_items := (h_items h)[unat slot_id := (ITEM_FREE, None)], h_popped := h_popped h + 1\<rparr> else h) })"

definition brcmf_fws_hanger_mark_suppressed :: "'p brcmf_fws_hanger \<Rightarrow> u32 \<Rightarrow> (rc \<times> 'p brcmf_fws_hanger) option" where
  "brcmf_fws_hanger_mark_suppressed h slot_id =
     (if HANGER_MAXITEMS \<le> slot_id then Some (ERR ENOENT, h)
      else do {
        it \<leftarrow> nth_opt (h_items h) (unat slot_id);
        if fst it = ITEM_FREE then Some (ERR EINVAL, h)
        else Some (OK, h\<lparr>h_items := (h_items h)[unat slot_id := (ITEM_INUSE_SUPPRESSED, snd it)]\<rparr>) })"

text \<open>Freeing a slot from outside, which keeps its packet pointer.\<close>

definition hanger_free_item :: "'p brcmf_fws_hanger \<Rightarrow> u32 \<Rightarrow> 'p brcmf_fws_hanger option" where
  "hanger_free_item h hslot = do {
     it \<leftarrow> nth_opt (h_items h) (unat hslot);
     Some (h\<lparr>h_items := (h_items h)[unat hslot := (ITEM_FREE, snd it)]\<rparr>) }"

section \<open>Flushing\<close>

text \<open>One precedence of \<open>brcmf_fws_psq_flush\<close>: the packets that match leave the queue and are freed. The slot
  is freed before \<open>poppkt\<close> looks at it.\<close>

partial_function (option) psq_flush_prec ::
  "(nat \<Rightarrow> bool) option \<Rightarrow> nat \<Rightarrow> nat pktq \<Rightarrow> brcmf_fws_info \<Rightarrow> (nat pktq \<times> brcmf_fws_info) option" where
  "psq_flush_prec fn prec q s = do {
     (skb, q) \<leftarrow> brcmu_pktq_pdeq_match q prec fn;
     case skb of
       None \<Rightarrow> Some (q, s)
     | Some p \<Rightarrow> do {
         k \<leftarrow> nth_opt (fw_skbs s) p;
         let hslot = tag_hslot (htod k);
         h \<leftarrow> hanger_free_item (hanger s) hslot;
         (rc, out, h) \<leftarrow> brcmf_fws_hanger_poppkt h hslot True;
         p \<leftarrow> (if rc = OK then out else Some p);
         psq_flush_prec fn prec q (fw_emit (FreeSkb p) (s\<lparr>hanger := h\<rparr>)) } }"

fun psq_flush_precs ::
  "(nat \<Rightarrow> bool) option \<Rightarrow> nat list \<Rightarrow> nat pktq \<Rightarrow> brcmf_fws_info \<Rightarrow> (nat pktq \<times> brcmf_fws_info) option" where
  "psq_flush_precs fn [] q s = Some (q, s)"
| "psq_flush_precs fn (prec # precs) q s = do {
     (q, s) \<leftarrow> psq_flush_prec fn prec q s; psq_flush_precs fn precs q s }"

definition brcmf_fws_psq_flush :: "nat pktq \<Rightarrow> int \<Rightarrow> brcmf_fws_info \<Rightarrow> (nat pktq \<times> brcmf_fws_info) option" where
  "brcmf_fws_psq_flush q ifidx s = psq_flush_precs (fws_matchfn s ifidx) [0..<unat (num_prec q)] q s"

partial_function (option) txq_cleanup_prec ::
  "(nat \<Rightarrow> bool) option \<Rightarrow> nat \<Rightarrow> nat pktq \<Rightarrow> brcmf_fws_info \<Rightarrow> (nat pktq \<times> brcmf_fws_info) option" where
  "txq_cleanup_prec fn prec q s = do {
     (skb, q) \<leftarrow> brcmu_pktq_pdeq_match q prec fn;
     case skb of
       None \<Rightarrow> Some (q, s)
     | Some p \<Rightarrow> do {
         k \<leftarrow> nth_opt (fw_skbs s) p;
         h \<leftarrow> hanger_free_item (hanger s) (tag_hslot (htod k));
         txq_cleanup_prec fn prec q (fw_emit (FreeSkb p) (s\<lparr>hanger := h\<rparr>)) } }"

fun txq_cleanup_precs ::
  "(nat \<Rightarrow> bool) option \<Rightarrow> nat list \<Rightarrow> nat pktq \<Rightarrow> brcmf_fws_info \<Rightarrow> (nat pktq \<times> brcmf_fws_info) option" where
  "txq_cleanup_precs fn [] q s = Some (q, s)"
| "txq_cleanup_precs fn (prec # precs) q s = do {
     (q, s) \<leftarrow> txq_cleanup_prec fn prec q s; txq_cleanup_precs fn precs q s }"

definition brcmf_fws_bus_txq_cleanup :: "(nat \<Rightarrow> bool) option \<Rightarrow> brcmf_fws_info \<Rightarrow> brcmf_fws_info option" where
  "brcmf_fws_bus_txq_cleanup fn s = (case fw_txq s of
     None \<Rightarrow> Some s
   | Some txq \<Rightarrow> do {
       (q, s) \<leftarrow> txq_cleanup_precs fn [0..<unat (num_prec txq)] txq s;
       Some (s\<lparr>fw_txq := Some q\<rparr>) })"

fun hanger_cleanup_items ::
  "(nat \<Rightarrow> bool) option \<Rightarrow> nat list \<Rightarrow> brcmf_fws_info \<Rightarrow> brcmf_fws_info option" where
  "hanger_cleanup_items fn [] s = Some s"
| "hanger_cleanup_items fn (i # is) s = do {
     (st, pkt) \<leftarrow> nth_opt (h_items (hanger s)) i;
     if st = ITEM_FREE then hanger_cleanup_items fn is s
     else do {
       skb \<leftarrow> pkt;
       if (case fn of None \<Rightarrow> True | Some f \<Rightarrow> f skb) then do {
         let s = (if st = ITEM_INUSE then fw_emit (FreeSkb skb) s else s);
         let h = hanger s;
         hanger_cleanup_items fn is (s\<lparr>hanger := h\<lparr>h_items := (h_items h)[i := (ITEM_FREE, pkt)]\<rparr>\<rparr>) }
       else hanger_cleanup_items fn is s } }"

definition brcmf_fws_hanger_cleanup :: "(nat \<Rightarrow> bool) option \<Rightarrow> brcmf_fws_info \<Rightarrow> brcmf_fws_info option" where
  "brcmf_fws_hanger_cleanup fn s = hanger_cleanup_items fn [0..<unat HANGER_MAXITEMS] s"

section \<open>Descriptors\<close>

definition brcmf_fws_macdesc_set_name :: "nat \<Rightarrow> brcmf_fws_mac_descriptor \<Rightarrow> brcmf_fws_mac_descriptor" where
  "brcmf_fws_macdesc_set_name i e =
     (if i = DESC_OTHER then e\<lparr>md_name := ''MAC-OTHER''\<rparr>
      else if mac_handle e \<noteq> 0
      then e\<lparr>md_name := snprintf 16 (''MAC-'' @ decimal (unat (mac_handle e)) @ '':'' @ decimal (unat (interface_id e)))\<rparr>
      else e\<lparr>md_name := snprintf 16 (''MACIF:'' @ decimal (unat (interface_id e)))\<rparr>)"

definition brcmf_fws_macdesc_init ::
  "u8 list option \<Rightarrow> u8 \<Rightarrow> brcmf_fws_mac_descriptor \<Rightarrow> brcmf_fws_mac_descriptor" where
  "brcmf_fws_macdesc_init addr ifidx e =
     (let e = e\<lparr>occupied := True, md_state := STATE_OPEN, requested_credit := 0, requested_packet := 0,
        interface_id := ifidx, ac_bitmap := 0xff\<rparr>
      in case addr of Some a \<Rightarrow> e\<lparr>md_ea := a\<rparr> | None \<Rightarrow> e)"

definition brcmf_fws_macdesc_deinit :: "brcmf_fws_mac_descriptor \<Rightarrow> brcmf_fws_mac_descriptor" where
  "brcmf_fws_macdesc_deinit e =
     e\<lparr>occupied := False, md_state := STATE_CLOSE, requested_credit := 0, requested_packet := 0\<rparr>"

text \<open>The nodes are the first 32 descriptors; the result is the index of the first occupied one with the address.\<close>

definition brcmf_fws_macdesc_lookup :: "brcmf_fws_info \<Rightarrow> u8 list \<Rightarrow> nat option" where
  "brcmf_fws_macdesc_lookup s ea =
     find (\<lambda>i. i < length (fw_desc s) \<and> occupied (fw_desc s ! i) \<and> md_ea (fw_desc s ! i) = ea) [0..<DESC_IFACE]"

definition is_multicast_ether_addr :: "u8 list \<Rightarrow> bool option" where
  "is_multicast_ether_addr da = do { b \<leftarrow> nth_opt da 0; Some (b AND 1 \<noteq> 0) }"

definition brcmf_fws_macdesc_find :: "brcmf_fws_info \<Rightarrow> nat option \<Rightarrow> u8 list \<Rightarrow> nat option option" where
  "brcmf_fws_macdesc_find s ifdesc da = do {
     multicast \<leftarrow> is_multicast_ether_addr da;
     if multicast \<and> ifdesc \<noteq> None then Some ifdesc
     else Some (case brcmf_fws_macdesc_lookup s da of Some i \<Rightarrow> Some i | None \<Rightarrow> ifdesc) }"

definition brcmf_fws_macdesc_closed :: "brcmf_fws_info \<Rightarrow> brcmf_fws_mac_descriptor \<Rightarrow> nat \<Rightarrow> bool option" where
  "brcmf_fws_macdesc_closed s e fifo = do {
     if_closed \<leftarrow> (if mac_handle e \<noteq> 0 then do {
         ie \<leftarrow> (if interface_id e < 16 then nth_opt (fw_desc s) (DESC_IFACE + unat (interface_id e)) else None);
         Some (md_state ie = STATE_CLOSE) } else Some False);
     if if_closed then Some True
     else Some (md_state e = STATE_CLOSE \<and> requested_credit e = 0 \<and> requested_packet e = 0
                \<or> ac_bitmap e AND push_bit fifo 1 = 0) }"

definition brcmf_fws_macdesc_cleanup :: "nat \<Rightarrow> int \<Rightarrow> brcmf_fws_info \<Rightarrow> brcmf_fws_info option" where
  "brcmf_fws_macdesc_cleanup i ifidx s = do {
     e \<leftarrow> nth_opt (fw_desc s) i;
     if occupied e \<and> (ifidx = -1 \<or> ifidx = uint (interface_id e)) then do {
       (q, s) \<leftarrow> brcmf_fws_psq_flush (psq e) ifidx s;
       Some (desc_upd i (e\<lparr>psq := q, occupied := pq_len q \<noteq> 0\<rparr>) s) }
     else Some s }"

fun macdesc_cleanup_all :: "nat list \<Rightarrow> int \<Rightarrow> brcmf_fws_info \<Rightarrow> brcmf_fws_info option" where
  "macdesc_cleanup_all [] ifidx s = Some s"
| "macdesc_cleanup_all (i # is) ifidx s = do {
     s \<leftarrow> brcmf_fws_macdesc_cleanup i ifidx s; macdesc_cleanup_all is ifidx s }"

definition brcmf_fws_cleanup :: "int \<Rightarrow> brcmf_fws_info \<Rightarrow> brcmf_fws_info option" where
  "brcmf_fws_cleanup ifidx s = do {
     s \<leftarrow> macdesc_cleanup_all [0..<DESC_IFACE] ifidx s;
     s \<leftarrow> brcmf_fws_macdesc_cleanup DESC_OTHER ifidx s;
     s \<leftarrow> brcmf_fws_bus_txq_cleanup (fws_matchfn s ifidx) s;
     brcmf_fws_hanger_cleanup (fws_matchfn s ifidx) s }"

section \<open>Sending to the bus\<close>

text \<open>The header in front of a packet: its tag, the sequence number when it is reused, the traffic indication
  when one is due, and fillers up to a multiple of four.\<close>

definition fws_header :: "u8 \<Rightarrow> brcmf_fws_mac_descriptor \<Rightarrow> u32 \<Rightarrow> u16 \<Rightarrow> u8 list" where
  "fws_header mode e tag seq =
     (let reuse = mode_reuseseq mode;
          hdr = [5, if reuse then 6 else 4] @ le32 tag @ (if reuse then le16 seq else [])
            @ (if send_tim_signal e then [12, 2, mac_handle e, traffic_pending_bmp e] else []);
          fillers = (length hdr + 3) div 4 * 4 - length hdr
      in hdr @ replicate fillers 255)"

definition brcmf_fws_hdrpush :: "nat \<Rightarrow> brcmf_fws_info \<Rightarrow> (u8 \<times> brcmf_fws_info) option" where
  "brcmf_fws_hdrpush p s = do {
     k \<leftarrow> nth_opt (fw_skbs s) p;
     i \<leftarrow> kb_mac k;
     e \<leftarrow> nth_opt (fw_desc s) i;
     let hdr = fws_header (fw_mode s) e (htod k) (htod_seq k);
     b \<leftarrow> skb_push hdr (kb_skb k);
     let e = (if send_tim_signal e
              then e\<lparr>send_tim_signal := False, traffic_lastreported_bmp := traffic_pending_bmp e\<rparr> else e);
     Some (of_nat (length hdr div 4), desc_upd i e (skb_upd p (k\<lparr>kb_skb := b\<rparr>) s)) }"

text \<open>\<open>brcmf_proto_txdata\<close> for this layer's protocol: the header is pushed and the packet given to the bus.\<close>

definition fws_txdata :: "fws_env \<Rightarrow> u32 \<Rightarrow> u8 \<Rightarrow> nat \<Rightarrow> brcmf_fws_info \<Rightarrow> (int \<times> brcmf_fws_info) option" where
  "fws_txdata env ifidx offset p s = do {
     k \<leftarrow> nth_opt (fw_skbs s) p;
     b \<leftarrow> brcmf_proto_bcdc_hdrpush ifidx offset (kb_skb k);
     Some (fe_tx env (length (fw_log s)), fw_emit (TxData p ifidx offset) (skb_upd p (k\<lparr>kb_skb := b\<rparr>) s)) }"

definition tim_bits :: "nat \<Rightarrow> nat \<Rightarrow> brcmf_fws_mac_descriptor \<Rightarrow> brcmf_fws_mac_descriptor" where
  "tim_bits fifo n e =
     (let bmp = (if n = 0 then traffic_pending_bmp e AND NOT (push_bit fifo 1) else traffic_pending_bmp e OR push_bit fifo 1)
      in e\<lparr>traffic_pending_bmp := bmp, send_tim_signal := traffic_lastreported_bmp e \<noteq> bmp\<rparr>)"

text \<open>The packet that only carries the indication.\<close>

definition fws_send_tim :: "fws_env \<Rightarrow> nat \<Rightarrow> brcmf_fws_info \<Rightarrow> (bool \<times> brcmf_fws_info) option" where
  "fws_send_tim env i s =
     (if \<not> fe_alloc env then Some (False, s)
      else do {
        let p = length (fw_skbs s);
        let len = 4 + 2 + 2 + 2 + 2 + 4 + fe_hdrlen env;
        let skb = \<lparr>sk_data = [], sk_headroom = len, ip_summed = CHECKSUM_NONE, sk_priority = 0\<rparr>;
        let s = s\<lparr>fw_skbs := fw_skbs s @ [\<lparr>kb_skb = skb, if_flags = 0, htod = 0, htod_seq = 0,
            kb_state = SKBSTATE_TIM, kb_mac = Some i\<rparr>]\<rparr>;
        (off, s) \<leftarrow> brcmf_fws_hdrpush p s;
        (err, s) \<leftarrow> fws_txdata env 0 off p s;
        Some (True, if err \<noteq> 0 then fw_emit (FreeSkb p) s else s) })"

definition brcmf_fws_tim_update ::
  "fws_env \<Rightarrow> nat \<Rightarrow> nat \<Rightarrow> bool \<Rightarrow> brcmf_fws_info \<Rightarrow> (bool \<times> brcmf_fws_info) option" where
  "brcmf_fws_tim_update env i fifo send_immediately s = do {
     e \<leftarrow> nth_opt (fw_desc s) i;
     n \<leftarrow> brcmu_pktq_mlen (psq e) (push_bit (fifo * 2) 3);
     let e = tim_bits fifo n e;
     let s = desc_upd i e s;
     if send_immediately \<and> send_tim_signal e \<and> md_state e = STATE_CLOSE then fws_send_tim env i s
     else Some (False, s) }"

text \<open>Stopping and waking the interface's queue, for the reason of this layer.\<close>

definition brcmf_fws_flow_control_check :: "fws_env \<Rightarrow> nat pktq \<Rightarrow> int \<Rightarrow> brcmf_fws_info \<Rightarrow> brcmf_fws_info option" where
  "brcmf_fws_flow_control_check env pq if_id s = do {
     ifp \<leftarrow> brcmf_get_ifp (fe_ifs env) if_id;
     case ifp of
       None \<Rightarrow> Some s
     | Some n \<Rightarrow> do {
         st \<leftarrow> nth_opt (fw_stopped s) n;
         let s1 = (if st \<and> pq_len pq \<le> 64
                   then fw_emit (FlowBlock n False) (s\<lparr>fw_stopped := (fw_stopped s)[n := False]\<rparr>) else s);
         st \<leftarrow> nth_opt (fw_stopped s1) n;
         Some (if \<not> st \<and> 128 \<le> pq_len pq
               then fw_emit (FlowBlock n True)
                 (stat_add fws_flow_block 1 (s1\<lparr>fw_stopped := (fw_stopped s1)[n := True]\<rparr>)) else s1) } }"

end
