(* ===== verification/Fws.thy ===== *)
theory Fws
  imports FwsData
begin

text \<open>
  Firmware signalling, part two (\<open>fwsignal.c\<close>): the indications firmware sends, credits, enqueueing and dequeueing,
  transmit status, the signal parser \<open>brcmf_fws_hdrpull\<close>, committing a packet to the bus, and the dequeue worker.
  The state and the conventions are those of \<^theory_text>\<open>FwsData\<close>.
\<close>

section \<open>Indications\<close>

definition brcmf_fws_fc_active :: "brcmf_fws_info \<Rightarrow> bool" where
  "brcmf_fws_fc_active s \<longleftrightarrow> creditmap_received s \<and> fcmode s \<noteq> FCMODE_NONE"

definition brcmf_fws_queue_skbs :: "brcmf_fws_info \<Rightarrow> bool" where
  "brcmf_fws_queue_skbs s \<longleftrightarrow> \<not> avoid_queueing s"

definition brcmf_fws_schedule_deq :: "brcmf_fws_info \<Rightarrow> brcmf_fws_info" where
  "brcmf_fws_schedule_deq s =
     (if fifo_credit_map s AND fifo_delay_map s \<noteq> 0 \<or> (\<not> brcmf_fws_fc_active s \<and> fifo_delay_map s \<noteq> 0)
      then fw_emit ScheduleDeq s else s)"

text \<open>The fields of a descriptor before its queue, which a relocation copies.\<close>

definition macdesc_copy :: "brcmf_fws_mac_descriptor \<Rightarrow> brcmf_fws_mac_descriptor \<Rightarrow> brcmf_fws_mac_descriptor" where
  "macdesc_copy e x = e\<lparr>md_name := md_name x, occupied := occupied x, mac_handle := mac_handle x,
     interface_id := interface_id x, md_state := md_state x, suppressed := suppressed x, generation := generation x,
     ac_bitmap := ac_bitmap x, requested_credit := requested_credit x, requested_packet := requested_packet x,
     md_ea := md_ea x, md_seq := md_seq x\<rparr>"

definition brcmf_fws_macdesc_indicate :: "bool \<Rightarrow> u8 list \<Rightarrow> brcmf_fws_info \<Rightarrow> brcmf_fws_info option" where
  "brcmf_fws_macdesc_indicate del data s = do {
     handle \<leftarrow> nth_opt data 0;
     ifidx \<leftarrow> nth_opt data 1;
     addr \<leftarrow> read_bytes data 2 6;
     let i = unat (handle AND 0x1F);
     e \<leftarrow> nth_opt (fw_desc s) i;
     if del then
       (if occupied e then do {
          s \<leftarrow> brcmf_fws_macdesc_cleanup i (-1) s;
          e \<leftarrow> nth_opt (fw_desc s) i;
          Some (desc_upd i (brcmf_fws_macdesc_deinit e) s) }
        else Some (stat_add mac_update_failed 1 s))
     else (case brcmf_fws_macdesc_lookup s addr of
         None \<Rightarrow>
           if \<not> occupied e then do {
             let e = brcmf_fws_macdesc_set_name i (brcmf_fws_macdesc_init (Some addr) ifidx (e\<lparr>mac_handle := handle\<rparr>));
             q \<leftarrow> brcmu_pktq_init (psq e) PSQ_PREC_COUNT PSQ_LEN;
             Some (desc_upd i (e\<lparr>psq := q\<rparr>) s) }
           else Some (stat_add mac_update_failed 1 s)
       | Some x \<Rightarrow>
           if i \<noteq> x then do {
             existing \<leftarrow> nth_opt (fw_desc s) x;
             let e = (macdesc_copy e existing)\<lparr>mac_handle := handle\<rparr>;
             let s = desc_upd x (brcmf_fws_macdesc_deinit existing) s;
             Some (desc_upd i (brcmf_fws_macdesc_set_name i e) s) }
           else Some s) }"

text \<open>The result tells whether the dequeue worker is to be scheduled: \<open>1\<close>, \<open>0\<close>, or an error.\<close>

definition brcmf_fws_macdesc_state_indicate ::
  "fws_env \<Rightarrow> bool \<Rightarrow> u8 list \<Rightarrow> brcmf_fws_info \<Rightarrow> ((errno + bool) \<times> brcmf_fws_info) option" where
  "brcmf_fws_macdesc_state_indicate env opn data s = do {
     handle \<leftarrow> nth_opt data 0;
     let i = unat (handle AND 0x1F);
     e \<leftarrow> nth_opt (fw_desc s) i;
     if \<not> occupied e then Some (Inl ESRCH, stat_add mac_ps_update_failed 1 s)
     else do {
       let e = e\<lparr>requested_credit := 0, requested_packet := 0\<rparr>;
       if opn then Some (Inr True, desc_upd i (e\<lparr>md_state := STATE_OPEN\<rparr>) s)
       else do {
         let s = desc_upd i (e\<lparr>md_state := STATE_CLOSE\<rparr>) s;
         (_, s) \<leftarrow> brcmf_fws_tim_update env i 0 False s;
         (_, s) \<leftarrow> brcmf_fws_tim_update env i 1 False s;
         (_, s) \<leftarrow> brcmf_fws_tim_update env i 2 False s;
         (_, s) \<leftarrow> brcmf_fws_tim_update env i 3 True s;
         Some (Inr False, s) } } }"

definition brcmf_fws_interface_state_indicate ::
  "bool \<Rightarrow> u8 list \<Rightarrow> brcmf_fws_info \<Rightarrow> ((errno + bool) \<times> brcmf_fws_info) option" where
  "brcmf_fws_interface_state_indicate opn data s = do {
     ifidx \<leftarrow> nth_opt data 0;
     if 16 \<le> ifidx then Some (Inl ERANGE, stat_add if_update_failed 1 s)
     else do {
       let i = DESC_IFACE + unat ifidx;
       e \<leftarrow> nth_opt (fw_desc s) i;
       if \<not> occupied e then Some (Inl ESRCH, stat_add if_update_failed 1 s)
       else Some (Inr opn, desc_upd i (e\<lparr>md_state := (if opn then STATE_OPEN else STATE_CLOSE)\<rparr>) s) } }"

definition brcmf_fws_request_indicate ::
  "bool \<Rightarrow> u8 list \<Rightarrow> brcmf_fws_info \<Rightarrow> ((errno + bool) \<times> brcmf_fws_info) option" where
  "brcmf_fws_request_indicate credit data s = do {
     handle \<leftarrow> nth_opt data 1;
     let i = unat (handle AND 0x1F);
     e \<leftarrow> nth_opt (fw_desc s) i;
     if \<not> occupied e
     then Some (Inl ESRCH, stat_add (if credit then credit_request_failed else packet_request_failed) 1 s)
     else do {
       cnt \<leftarrow> nth_opt data 0;
       bmp \<leftarrow> nth_opt data 2;
       let e = (if credit then e\<lparr>requested_credit := cnt\<rparr> else e\<lparr>requested_packet := cnt\<rparr>);
       Some (Inr True, desc_upd i (e\<lparr>ac_bitmap := bmp\<rparr>) s) } }"

section \<open>Credits\<close>

definition brcmf_fws_macdesc_use_req_credit :: "nat \<Rightarrow> nat \<Rightarrow> brcmf_fws_info \<Rightarrow> brcmf_fws_info option" where
  "brcmf_fws_macdesc_use_req_credit i p s = do {
     e \<leftarrow> nth_opt (fw_desc s) i;
     k \<leftarrow> nth_opt (fw_skbs s) p;
     Some (if 0 < requested_credit e then
         skb_upd p (k\<lparr>if_flags := set_if_req_credit 1 (set_if_requested 1 (if_flags k))\<rparr>)
           (desc_upd i (e\<lparr>requested_credit := requested_credit e - 1\<rparr>) s)
       else if 0 < requested_packet e then
         skb_upd p (k\<lparr>if_flags := set_if_req_credit 0 (set_if_requested 1 (if_flags k))\<rparr>)
           (desc_upd i (e\<lparr>requested_packet := requested_packet e - 1\<rparr>) s)
       else skb_upd p (k\<lparr>if_flags := set_if_req_credit 0 (set_if_requested 0 (if_flags k))\<rparr>) s) }"

definition brcmf_fws_macdesc_return_req_credit :: "nat \<Rightarrow> brcmf_fws_info \<Rightarrow> brcmf_fws_info option" where
  "brcmf_fws_macdesc_return_req_credit p s = do {
     k \<leftarrow> nth_opt (fw_skbs s) p;
     if if_req_credit (if_flags k) = 0 then Some s
     else do {
       i \<leftarrow> kb_mac k;
       e \<leftarrow> nth_opt (fw_desc s) i;
       Some (if md_state e = STATE_CLOSE then desc_upd i (e\<lparr>requested_credit := requested_credit e + 1\<rparr>) s else s) } }"

text \<open>Paying back what the fifo borrowed, from the highest lender down: what is left of the credits, or
  \<^const>\<open>None\<close> when the code returns early because they are used up.\<close>

fun repay_lenders :: "nat \<Rightarrow> nat list \<Rightarrow> int \<Rightarrow> brcmf_fws_info \<Rightarrow> (int option \<times> brcmf_fws_info) option" where
  "repay_lenders fifo [] credits s = Some (Some credits, s)"
| "repay_lenders fifo (l # ls) credits s = do {
     row \<leftarrow> nth_opt (credits_borrowed s) fifo;
     borrowed \<leftarrow> nth_opt row l;
     if borrowed = 0 then repay_lenders fifo ls credits s
     else do {
       c \<leftarrow> nth_opt (fifo_credit s) l;
       let s = s\<lparr>fifo_credit_map := fifo_credit_map s OR push_bit l 1\<rparr>;
       let paid = (if credits \<le> borrowed then credits else borrowed);
       let s = s\<lparr>credits_borrowed := (credits_borrowed s)[fifo := row[l := borrowed - paid]],
                 fifo_credit := (fifo_credit s)[l := c + paid]\<rparr>;
       if credits \<le> borrowed then Some (None, s)
       else repay_lenders fifo ls (credits - borrowed) s } }"

definition brcmf_fws_return_credits :: "nat \<Rightarrow> u8 \<Rightarrow> brcmf_fws_info \<Rightarrow> brcmf_fws_info option" where
  "brcmf_fws_return_credits fifo credits s =
     (if credits = 0 then Some s
      else do {
        let s = s\<lparr>fifo_credit_map := fifo_credit_map s OR push_bit fifo 1\<rparr>;
        (left, s) \<leftarrow> (if 0 < fifo \<and> fifo \<le> FIFO_AC_VO then repay_lenders fifo [3, 2, 1, 0] (uint credits) s
                     else Some (Some (uint credits), s));
        case left of
          None \<Rightarrow> Some s
        | Some n \<Rightarrow> do {
            c \<leftarrow> nth_opt (fifo_credit s) fifo;
            m \<leftarrow> nth_opt (init_fifo_credit s) fifo;
            Some (s\<lparr>fifo_credit := (fifo_credit s)[fifo := min (c + n) m]\<rparr>) } })"

fun borrow_from :: "nat \<Rightarrow> bool \<Rightarrow> nat list \<Rightarrow> brcmf_fws_info \<Rightarrow> (rc \<times> brcmf_fws_info) option" where
  "borrow_from borrower borrow_all [] s =
     Some (ERR ENAVAIL, s\<lparr>fifo_credit_map := fifo_credit_map s AND NOT (push_bit borrower 1)\<rparr>)"
| "borrow_from borrower borrow_all (l # ls) s = do {
     m \<leftarrow> nth_opt (init_fifo_credit s) l;
     c \<leftarrow> nth_opt (fifo_credit s) l;
     if (if borrow_all then 0 else m div 3) < c then do {
       row \<leftarrow> nth_opt (credits_borrowed s) borrower;
       b \<leftarrow> nth_opt row l;
       let s = s\<lparr>credits_borrowed := (credits_borrowed s)[borrower := row[l := b + 1]],
                 fifo_credit := (fifo_credit s)[l := c - 1]\<rparr>;
       let m = (if c - 1 = 0 then fifo_credit_map s AND NOT (push_bit l 1) else fifo_credit_map s);
       Some (OK, s\<lparr>fifo_credit_map := m OR push_bit borrower 1\<rparr>) }
     else borrow_from borrower borrow_all ls s }"

definition brcmf_fws_borrow_credit :: "nat \<Rightarrow> nat \<Rightarrow> bool \<Rightarrow> brcmf_fws_info \<Rightarrow> (rc \<times> brcmf_fws_info) option" where
  "brcmf_fws_borrow_credit highest borrower borrow_all s = borrow_from borrower borrow_all [0..<Suc highest] s"

fun return_all_credits :: "nat list \<Rightarrow> u8 list \<Rightarrow> brcmf_fws_info \<Rightarrow> brcmf_fws_info option" where
  "return_all_credits [] data s = Some s"
| "return_all_credits (i # is) data s = do {
     c \<leftarrow> nth_opt data i; s \<leftarrow> brcmf_fws_return_credits i c s; return_all_credits is data s }"

definition brcmf_fws_fifocreditback_indicate :: "u8 list \<Rightarrow> brcmf_fws_info \<Rightarrow> (bool \<times> brcmf_fws_info) option" where
  "brcmf_fws_fifocreditback_indicate data s =
     (if fcmode s \<noteq> FCMODE_EXPLICIT_CREDIT then Some (False, s)
      else do { s \<leftarrow> return_all_credits [0..<FIFO_COUNT] data s; Some (True, s) })"

fun credit_map_update :: "nat list \<Rightarrow> u8 list \<Rightarrow> brcmf_fws_info \<Rightarrow> brcmf_fws_info option" where
  "credit_map_update [] data s = Some s"
| "credit_map_update (i # is) data s = do {
     n \<leftarrow> nth_opt data i; c \<leftarrow> nth_opt (fifo_credit s) i; m \<leftarrow> nth_opt (init_fifo_credit s) i;
     let c = c + (uint n - m);
     let s = s\<lparr>fifo_credit := (fifo_credit s)[i := c], init_fifo_credit := (init_fifo_credit s)[i := uint n],
       fifo_credit_map := (if 0 < c then fifo_credit_map s OR push_bit i 1 else fifo_credit_map s AND NOT (push_bit i 1))\<rparr>;
     credit_map_update is data s }"

definition brcmf_fws_notify_credit_map :: "u32 \<Rightarrow> u8 list \<Rightarrow> brcmf_fws_info \<Rightarrow> (rc \<times> brcmf_fws_info) option" where
  "brcmf_fws_notify_credit_map datalen data s =
     (if datalen < 6 then Some (ERR EINVAL, s)
      else do {
        s \<leftarrow> credit_map_update [0..<FIFO_COUNT] data (s\<lparr>creditmap_received := True\<rparr>);
        Some (OK, brcmf_fws_schedule_deq s) })"

definition brcmf_fws_notify_bcmc_credit_support :: "brcmf_fws_info \<Rightarrow> brcmf_fws_info" where
  "brcmf_fws_notify_bcmc_credit_support s = s\<lparr>bcmc_credit_check := True\<rparr>"

section \<open>The queues\<close>

text \<open>Whether a packet with free-running number \<open>a\<close> belongs behind one with \<open>b\<close>; the numbers wrap at 256.\<close>

definition fr_after :: "u32 \<Rightarrow> u32 \<Rightarrow> bool" where
  "fr_after a b \<longleftrightarrow> b < a \<and> a - b < 128 \<or> a < b \<and> 128 < b - a"

text \<open>The walk from the tail: the packet it stops at, never beyond the head.\<close>

fun enq_stop :: "u32 \<Rightarrow> u32 list \<Rightarrow> nat \<Rightarrow> nat" where
  "enq_stop fr frs 0 = 0"
| "enq_stop fr frs (Suc j) = (if fr_after fr (frs ! Suc j) then Suc j else enq_stop fr frs j)"

definition enq_position :: "u32 \<Rightarrow> u32 list \<Rightarrow> nat" where
  "enq_position fr frs = (if frs = [] then 0
     else let j = enq_stop fr frs (length frs - 1) in if fr_after fr (frs ! j) then Suc j else j)"

fun skb_freeruns :: "brcmf_fws_info \<Rightarrow> nat list \<Rightarrow> u32 list option" where
  "skb_freeruns s [] = Some []"
| "skb_freeruns s (p # ps) = do {
     k \<leftarrow> nth_opt (fw_skbs s) p; frs \<leftarrow> skb_freeruns s ps; Some (tag_freerun (htod k) # frs) }"

text \<open>The insertion of a suppressed packet; \<^const>\<open>None\<close> for a full queue.\<close>

definition psq_insert_suppressed :: "brcmf_fws_info \<Rightarrow> nat pktq \<Rightarrow> nat \<Rightarrow> nat \<Rightarrow> nat pktq option option" where
  "psq_insert_suppressed s pq prec p =
     (if pktq_full pq then Some None
      else do {
        full \<leftarrow> pktq_pfull pq prec;
        if full then Some None
        else do {
          e \<leftarrow> nth_opt (pq_q pq) prec;
          k \<leftarrow> nth_opt (fw_skbs s) p;
          frs \<leftarrow> skb_freeruns s (skblist e);
          let j = enq_position (tag_freerun (htod k)) frs;
          Some (Some ((pktq_setq pq prec (take j (skblist e) @ [p] @ drop j (skblist e)))
            \<lparr>pq_len := pq_len pq + 1,
             hi_prec := (if unat (hi_prec pq) < prec then ucast (of_nat prec :: u8) else hi_prec pq)\<rparr>)) } })"

definition brcmf_fws_enq ::
  "fws_env \<Rightarrow> brcmf_fws_skb_state \<Rightarrow> nat \<Rightarrow> nat \<Rightarrow> brcmf_fws_info \<Rightarrow> (rc \<times> brcmf_fws_info) option" where
  "brcmf_fws_enq env st fifo p s = do {
     k \<leftarrow> nth_opt (fw_skbs s) p;
     case kb_mac k of
       None \<Rightarrow> Some (ERR ENOENT, s)
     | Some i \<Rightarrow> do {
         e \<leftarrow> nth_opt (fw_desc s) i;
         q \<leftarrow> (if st = SKBSTATE_SUPPRESSED then psq_insert_suppressed s (psq e) (2 * fifo + 1) p
              else do { (r, q) \<leftarrow> brcmu_pktq_penq (psq e) (2 * fifo) p; Some (if r = None then None else Some q) });
         case q of
           None \<Rightarrow> Some (ERR ENFILE, stat_add (if st = SKBSTATE_SUPPRESSED then supprq_full_error else delayq_full_error) 1 s)
         | Some q \<Rightarrow> do {
             n \<leftarrow> nth_opt (fifo_enqpkt s) fifo;
             let s = desc_upd i (e\<lparr>psq := q\<rparr>) (s\<lparr>fifo_delay_map := fifo_delay_map s OR push_bit fifo 1,
               fifo_enqpkt := (fifo_enqpkt s)[fifo := n + 1]\<rparr>);
             let s = skb_upd p (k\<lparr>kb_state := st\<rparr>) s;
             (_, s) \<leftarrow> brcmf_fws_tim_update env i fifo True s;
             s \<leftarrow> brcmf_fws_flow_control_check env q (uint (if_index (if_flags k))) s;
             Some (OK, s) } } }"

text \<open>Taking a packet from one descriptor: nothing, or the packet.\<close>

definition deq_entry :: "nat \<Rightarrow> nat \<Rightarrow> brcmf_fws_info \<Rightarrow> (nat option \<times> brcmf_fws_info) option" where
  "deq_entry i fifo s = do {
     e \<leftarrow> nth_opt (fw_desc s) i;
     (r, q) \<leftarrow> brcmu_pktq_mdeq (psq e) (push_bit (fifo * 2) (if suppressed e then 2 else 3));
     let e = e\<lparr>psq := q\<rparr>;
     if r = None \<and> suppressed e \<and> suppr_transit_count e = 0 then do {
       let e = e\<lparr>suppressed := False\<rparr>;
       (r, q) \<leftarrow> brcmu_pktq_mdeq (psq e) (push_bit (fifo * 2) 1);
       Some (map_option fst r, desc_upd i (e\<lparr>psq := q\<rparr>) s) }
     else Some (map_option fst r, desc_upd i e s) }"

text \<open>The round over the descriptors from \<open>node_pos\<close>; \<open>ks\<close> are the values of the loop variable.\<close>

fun deq_nodes :: "fws_env \<Rightarrow> nat \<Rightarrow> nat \<Rightarrow> nat list \<Rightarrow> brcmf_fws_info \<Rightarrow> (nat option \<times> brcmf_fws_info) option" where
  "deq_nodes env fifo node_pos [] s = Some (None, s)"
| "deq_nodes env fifo node_pos (k # ks) s = do {
     let i = (node_pos + k) mod DESC_COUNT;
     e \<leftarrow> nth_opt (fw_desc s) i;
     skip \<leftarrow> (if \<not> occupied e then Some True else brcmf_fws_macdesc_closed s e fifo);
     if skip then deq_nodes env fifo node_pos ks s
     else do {
       (p, s) \<leftarrow> deq_entry i fifo s;
       case p of
         None \<Rightarrow> deq_nodes env fifo node_pos ks s
       | Some p \<Rightarrow> do {
           s \<leftarrow> brcmf_fws_macdesc_use_req_credit i p s;
           let s = s\<lparr>deq_node_pos := (deq_node_pos s)[fifo := (node_pos + k + 1) mod DESC_COUNT]\<rparr>;
           e \<leftarrow> nth_opt (fw_desc s) i;
           sk \<leftarrow> nth_opt (fw_skbs s) p;
           s \<leftarrow> brcmf_fws_flow_control_check env (psq e) (uint (if_index (if_flags sk))) s;
           (_, s) \<leftarrow> brcmf_fws_tim_update env i fifo False s;
           n \<leftarrow> nth_opt (fifo_enqpkt s) fifo;
           let s = s\<lparr>fifo_enqpkt := (fifo_enqpkt s)[fifo := n - 1]\<rparr>;
           Some (Some p, if n - 1 = 0 then s\<lparr>fifo_delay_map := fifo_delay_map s AND NOT (push_bit fifo 1)\<rparr> else s) } } }"

definition brcmf_fws_deq :: "fws_env \<Rightarrow> nat \<Rightarrow> brcmf_fws_info \<Rightarrow> (nat option \<times> brcmf_fws_info) option" where
  "brcmf_fws_deq env fifo s = do {
     node_pos \<leftarrow> nth_opt (deq_node_pos s) fifo;
     deq_nodes env fifo node_pos [0..<DESC_COUNT] s }"

section \<open>Transmit status\<close>

definition brcmf_fws_txstatus_suppressed ::
  "fws_env \<Rightarrow> nat \<Rightarrow> nat \<Rightarrow> u32 \<Rightarrow> u16 \<Rightarrow> brcmf_fws_info \<Rightarrow> (rc \<times> brcmf_fws_info) option" where
  "brcmf_fws_txstatus_suppressed env fifo p genbit seq s = do {
     k \<leftarrow> nth_opt (fw_skbs s) p;
     i \<leftarrow> kb_mac k;
     e \<leftarrow> nth_opt (fw_desc s) i;
     let hslot = tag_hslot (htod k);
     let e = (if \<not> suppressed e then e\<lparr>suppressed := True, suppr_transit_count := transit_count e\<rparr> else e);
     let s = desc_upd i (e\<lparr>generation := ucast genbit\<rparr>) s;
     let q = (if seq_fromfw seq \<noteq> 0 then set_seq_fromfw 0 (set_seq_fromdrv 1 seq) else set_seq_fromdrv 0 seq);
     let s = skb_upd p (k\<lparr>htod := set_generation genbit (htod k), htod_seq := q\<rparr>) s;
     (ret, s) \<leftarrow> brcmf_fws_enq env SKBSTATE_SUPPRESSED fifo p s;
     if ret \<noteq> OK then do {
       (_, _, h) \<leftarrow> brcmf_fws_hanger_poppkt (hanger s) hslot True;
       Some (ret, s\<lparr>hanger := h\<rparr>) }
     else do {
       (_, h) \<leftarrow> brcmf_fws_hanger_mark_suppressed (hanger s) hslot;
       Some (ret, s\<lparr>hanger := h\<rparr>) } }"

definition txs_stat :: "u8 \<Rightarrow> brcmf_fws_stat option" where
  "txs_stat flags = (if flags = 0 \<or> flags = 4 \<or> flags = 5 then Some txs_discard
     else if flags = 1 then Some txs_supp_core else if flags = 2 then Some txs_supp_ps
     else if flags = 3 then Some txs_tossed else if flags = 6 then Some txs_host_tossed else None)"

text \<open>One packet of \<open>brcmf_fws_txs_process\<close>.\<close>

definition txs_packet :: "fws_env \<Rightarrow> u8 \<Rightarrow> u32 \<Rightarrow> u32 \<Rightarrow> u16 \<Rightarrow> brcmf_fws_info \<Rightarrow> brcmf_fws_info option" where
  "txs_packet env flags hslot genbit seq s = do {
     let remove_from_hanger = (flags \<noteq> 1 \<and> flags \<noteq> 2);
     (ret, skb, h) \<leftarrow> brcmf_fws_hanger_poppkt (hanger s) hslot remove_from_hanger;
     let s = s\<lparr>hanger := h\<rparr>;
     if ret \<noteq> OK then Some s
     else do {
       p \<leftarrow> skb;
       k \<leftarrow> nth_opt (fw_skbs s) p;
       case kb_mac k of
         None \<Rightarrow> Some (fw_emit (FreeSkb p) s)
       | Some i \<Rightarrow> do {
           e \<leftarrow> nth_opt (fw_desc s) i;
           let e = e\<lparr>transit_count := transit_count e - 1\<rparr>;
           let e = (if suppressed e \<and> suppr_transit_count e \<noteq> 0
                    then e\<lparr>suppr_transit_count := suppr_transit_count e - 1\<rparr> else e);
           let s = desc_upd i e s;
           let fifo = unat (tag_fifo (htod k));
           s \<leftarrow> (if fcmode s = FCMODE_IMPLIED_CREDIT \<or> if_req_credit (if_flags k) \<noteq> 0 \<or> flags = 6
                then map_option brcmf_fws_schedule_deq (brcmf_fws_return_credits fifo 1 s) else Some s);
           s \<leftarrow> brcmf_fws_macdesc_return_req_credit p s;
           k \<leftarrow> nth_opt (fw_skbs s) p;
           (ret, _, b) \<leftarrow> brcmf_proto_bcdc_hdrpull (\<lambda>_ _ b. Some b) (fe_ifs env) False (kb_skb k);
           let s = skb_upd p (k\<lparr>kb_skb := b\<rparr>) s;
           if ret \<noteq> OK then Some (fw_emit (FreeSkb p) s)
           else if remove_from_hanger then Some (fw_emit (TxFinalize p True) s)
           else do {
             (ret, s) \<leftarrow> brcmf_fws_txstatus_suppressed env fifo p genbit seq s;
             Some (if ret \<noteq> OK then fw_emit (TxFinalize p True) s else s) } } } }"

fun txs_packets :: "fws_env \<Rightarrow> u8 \<Rightarrow> nat \<Rightarrow> u32 \<Rightarrow> u32 \<Rightarrow> u16 \<Rightarrow> brcmf_fws_info \<Rightarrow> brcmf_fws_info option" where
  "txs_packets env flags 0 hslot genbit seq s = Some s"
| "txs_packets env flags (Suc n) hslot genbit seq s = do {
     s \<leftarrow> txs_packet env flags hslot genbit seq s;
     txs_packets env flags n ((hslot + 1) AND 0xffff) genbit
       (if mode_reuseseq (fw_mode s) then (seq + 1) AND 0x0fff else seq) s }"

definition brcmf_fws_txs_process ::
  "fws_env \<Rightarrow> u8 \<Rightarrow> u32 \<Rightarrow> u32 \<Rightarrow> u16 \<Rightarrow> u8 \<Rightarrow> brcmf_fws_info \<Rightarrow> brcmf_fws_info option" where
  "brcmf_fws_txs_process env flags hslot genbit seq compcnt s =
     txs_packets env flags (unat compcnt) hslot genbit seq
       (case txs_stat flags of Some c \<Rightarrow> stat_add c (ucast compcnt) s | None \<Rightarrow> s)"

definition brcmf_fws_txstatus_indicate ::
  "fws_env \<Rightarrow> bool \<Rightarrow> u8 list \<Rightarrow> brcmf_fws_info \<Rightarrow> brcmf_fws_info option" where
  "brcmf_fws_txstatus_indicate env compressed data s = do {
     st \<leftarrow> wire_word data 0;
     let reuse = mode_reuseseq (fw_mode s);
     seq \<leftarrow> (if reuse then do { a \<leftarrow> nth_opt data 4; b \<leftarrow> nth_opt data 5; Some (of_le16 a b) } else Some 0);
     compcnt \<leftarrow> (if compressed then nth_opt data (if reuse then 6 else 4) else Some 1);
     brcmf_fws_txs_process env (ucast (tag_flags st)) (tag_hslot st) (tag_generation st) seq compcnt
       (stat_add txs_indicate (ucast compcnt) s) }"

section \<open>The signal parser\<close>

definition brcmf_fws_tlv_len :: "u8 \<Rightarrow> nat option" where
  "brcmf_fws_tlv_len type = (map_of [(1, 1), (2, 1), (3, 2), (4, 4), (5, 4), (6, 8), (7, 8), (8, 1), (9, 1), (10, 1),
     (11, 6), (12, 2), (13, 3), (14, 10), (18, 6), (19, 1), (255, 0)]) type"

definition brcmf_fws_get_tlv_len :: "u8 \<Rightarrow> brcmf_fws_info \<Rightarrow> nat option \<times> brcmf_fws_info" where
  "brcmf_fws_get_tlv_len type s = (case brcmf_fws_tlv_len type of
     Some n \<Rightarrow> (Some n, s) | None \<Rightarrow> (None, stat_add tlv_invalid_type 1 s))"

definition sched_of :: "((errno + bool) \<times> brcmf_fws_info) option \<Rightarrow> (bool \<times> u8 list option \<times> brcmf_fws_info) option" where
  "sched_of r = do { (v, s) \<leftarrow> r; Some (v = Inr True, None, s) }"

text \<open>One signal: whether the worker is to be scheduled, the reorder data it points to, and the state. \<open>data\<close> runs
  to the end of the packet.\<close>

definition fws_signal :: "fws_env \<Rightarrow> u8 \<Rightarrow> u8 list \<Rightarrow> brcmf_fws_info \<Rightarrow> (bool \<times> u8 list option \<times> brcmf_fws_info) option" where
  "fws_signal env type data s =
     (if type = 14 then Some (False, Some data, s)
      else if type = 6 \<or> type = 7 then do { s \<leftarrow> brcmf_fws_macdesc_indicate (type = 7) data s; Some (False, None, s) }
      else if type = 1 \<or> type = 2 then sched_of (brcmf_fws_macdesc_state_indicate env (type = 1) data s)
      else if type = 9 \<or> type = 10 then sched_of (brcmf_fws_interface_state_indicate (type = 9) data s)
      else if type = 3 \<or> type = 13 then sched_of (brcmf_fws_request_indicate (type = 3) data s)
      else if type = 4 \<or> type = 19 then do { s \<leftarrow> brcmf_fws_txstatus_indicate env (type = 19) data s; Some (False, None, s) }
      else if type = 11 then do { (b, s) \<leftarrow> brcmf_fws_fifocreditback_indicate data s; Some (b, None, s) }
      else if type = 8 then do { _ \<leftarrow> nth_opt data 0; Some (False, None, s) }
      else if type = 18 then do { _ \<leftarrow> read_bytes data 1 5; Some (False, None, s) }
      else Some (False, None, stat_add tlv_invalid_type 1 s))"

text \<open>The loop: \<open>sd\<close> is the packet from the signal on, \<open>n\<close> the length of the signals left. The result is what is left
  when the loop ends, whether to schedule, the reorder data and the state.\<close>

function fws_signals ::
  "fws_env \<Rightarrow> u8 list \<Rightarrow> nat \<Rightarrow> bool \<Rightarrow> u8 list option \<Rightarrow> brcmf_fws_info
     \<Rightarrow> (nat \<times> bool \<times> u8 list option \<times> brcmf_fws_info) option" where
  "fws_signals env sd n sched rd s =
     (if n = 0 then Some (0, sched, rd, s)
      else do {
        type \<leftarrow> nth_opt sd 0;
        if type = 255 then fws_signals env (drop 1 sd) (n - 1) sched rd s
        else do {
          len \<leftarrow> nth_opt sd 1;
          if n < unat len + 2 then Some (n, sched, rd, s)
          else case brcmf_fws_get_tlv_len type s of
            (l, s) \<Rightarrow>
              if (case l of Some m \<Rightarrow> unat len < m | None \<Rightarrow> False) then Some (n, sched, rd, s)
              else do {
                (b, r, s) \<leftarrow> fws_signal env type (drop 2 sd) s;
                fws_signals env (drop (unat len + 2) sd) (n - (unat len + 2)) (sched \<or> b)
                  (if r = None then rd else r) s } } })"
  by pat_completeness auto
termination by (relation "measure (\<lambda>(env, sd, n, sched, rd, s). n)") auto

declare fws_signals.simps [simp del]

definition brcmf_fws_hdrpull ::
  "fws_env \<Rightarrow> nat \<Rightarrow> sk_buff \<Rightarrow> brcmf_fws_info \<Rightarrow> (u8 list option \<times> sk_buff \<times> brcmf_fws_info) option" where
  "brcmf_fws_hdrpull env siglen skb s = do {
     let siglen = min siglen (length (sk_data skb));
     if siglen = 0 then Some (None, skb, s)
     else if \<not> fw_signals s then Some (None, skb_pull siglen skb, s)
     else do {
       (rest, sched, rd, s) \<leftarrow> fws_signals env (sk_data skb) siglen False None (stat_add header_pulls 1 s);
       let s = (if rest \<noteq> 0 then stat_add tlv_parse_failed 1 s else s);
       let s = (if sched then brcmf_fws_schedule_deq s else s);
       let skb = skb_pull siglen skb;
       Some (rd, skb, if sk_data skb = [] then stat_add header_only_pkt 1 s else s) } }"

section \<open>Committing packets\<close>

definition brcmf_fws_precommit_skb :: "nat \<Rightarrow> brcmf_fws_info \<Rightarrow> (u8 \<times> brcmf_fws_info) option" where
  "brcmf_fws_precommit_skb p s = do {
     k \<leftarrow> nth_opt (fw_skbs s) p;
     i \<leftarrow> kb_mac k;
     e \<leftarrow> nth_opt (fw_desc s) i;
     let tag = (if kb_state k \<noteq> SKBSTATE_SUPPRESSED then set_generation (ucast (generation e)) (htod k) else htod k);
     let flags = (if if_requested (if_flags k) \<noteq> 0 then 3 else 1);
     brcmf_fws_hdrpush p (skb_upd p (k\<lparr>htod := set_flags flags tag\<rparr>) s) }"

definition brcmf_fws_rollback_toq :: "fws_env \<Rightarrow> nat \<Rightarrow> nat \<Rightarrow> brcmf_fws_info \<Rightarrow> brcmf_fws_info option" where
  "brcmf_fws_rollback_toq env p fifo s = do {
     k \<leftarrow> nth_opt (fw_skbs s) p;
     i \<leftarrow> kb_mac k;
     e \<leftarrow> nth_opt (fw_desc s) i;
     q \<leftarrow> (if occupied e then do {
            (r, q) \<leftarrow> brcmu_pktq_penq_head (psq e) (if kb_state k = SKBSTATE_SUPPRESSED then 2 * fifo + 1 else 2 * fifo) p;
            Some (if r = None then None else Some q) } else Some None);
     case q of
       None \<Rightarrow> brcmf_fws_txs_process env 6 (tag_hslot (htod k)) 0 0 1 (stat_add rollback_failed 1 s)
     | Some q \<Rightarrow> do {
         s \<leftarrow> brcmf_fws_return_credits fifo 1 (desc_upd i (e\<lparr>psq := q\<rparr>) (stat_add rollback_success 1 s));
         brcmf_fws_macdesc_return_req_credit p s } }"

definition brcmf_fws_commit_skb :: "fws_env \<Rightarrow> nat \<Rightarrow> nat \<Rightarrow> brcmf_fws_info \<Rightarrow> (int \<times> brcmf_fws_info) option" where
  "brcmf_fws_commit_skb env fifo p s = do {
     (off, s) \<leftarrow> brcmf_fws_precommit_skb p s;
     k \<leftarrow> nth_opt (fw_skbs s) p;
     i \<leftarrow> kb_mac k;
     e \<leftarrow> nth_opt (fw_desc s) i;
     let e = e\<lparr>transit_count := transit_count e + 1,
               suppr_transit_count := (if suppressed e then suppr_transit_count e + 1 else suppr_transit_count e)\<rparr>;
     (rc, s) \<leftarrow> fws_txdata env (ucast (if_index (if_flags k))) off p (desc_upd i e s);
     if rc < 0 then do {
       e \<leftarrow> nth_opt (fw_desc s) i;
       let e = e\<lparr>transit_count := transit_count e - 1,
                 suppr_transit_count := (if suppressed e then suppr_transit_count e - 1 else suppr_transit_count e)\<rparr>;
       let s = desc_upd i e s;
       k \<leftarrow> nth_opt (fw_skbs s) p;
       (_, _, b) \<leftarrow> brcmf_proto_bcdc_hdrpull (\<lambda>_ _ b. Some b) (fe_ifs env) False (kb_skb k);
       s \<leftarrow> brcmf_fws_rollback_toq env p fifo (skb_upd p (k\<lparr>kb_skb := b\<rparr>) s);
       Some (rc, s) }
     else do {
       let s = stat_add (send_pkts fifo) 1 (stat_add pkt2bus 1 s);
       Some (rc, if if_requested (if_flags k) \<noteq> 0 then stat_add (requested_sent fifo) 1 s else s) } }"

definition brcmf_fws_assign_htod :: "nat \<Rightarrow> nat \<Rightarrow> brcmf_fws_info \<Rightarrow> (rc \<times> brcmf_fws_info) option" where
  "brcmf_fws_assign_htod p fifo s = do {
     k \<leftarrow> nth_opt (fw_skbs s) p;
     (hslot, h) \<leftarrow> brcmf_fws_hanger_get_free_slot (hanger s);
     i \<leftarrow> kb_mac k;
     e \<leftarrow> nth_opt (fw_desc s) i;
     fr \<leftarrow> nth_opt (md_seq e) fifo;
     let tag = set_fifo (of_nat fifo) (set_freerun (ucast fr) (set_hslot hslot 0));
     (rc, h) \<leftarrow> brcmf_fws_hanger_pushpkt h p hslot;
     let s = skb_upd p (k\<lparr>htod := tag, htod_seq := 0\<rparr>) (s\<lparr>hanger := h\<rparr>);
     Some (rc, if rc = OK then desc_upd i (e\<lparr>md_seq := (md_seq e)[fifo := fr + 1]\<rparr>) s else stat_add generic_error 1 s) }"

text \<open>\<open>ifn\<close> and \<open>ifidx\<close> are the interface and its index, \<open>aci\<close> the access category \<open>brcmf_map_prio_to_aci\<close> gives.\<close>

definition brcmf_fws_process_skb :: "fws_env \<Rightarrow> nat \<Rightarrow> u16 \<Rightarrow> nat \<Rightarrow> nat \<Rightarrow> brcmf_fws_info \<Rightarrow> (rc \<times> brcmf_fws_info) option" where
  "brcmf_fws_process_skb env ifn ifidx aci p s = do {
     k \<leftarrow> nth_opt (fw_skbs s) p;
     da \<leftarrow> read_bytes (sk_data (kb_skb k)) 0 6;
     multicast \<leftarrow> is_multicast_ether_addr da;
     let fifo = (if multicast then FIFO_BCMC else aci);
     let s = (if fifo \<noteq> FIFO_AC_BE \<and> fifo < FIFO_BCMC
              then s\<lparr>borrow_defer_timestamp := fe_jiffies env + fe_hz env div 10\<rparr> else s);
     ifd \<leftarrow> nth_opt (fw_ifdesc s) ifn;
     mac \<leftarrow> brcmf_fws_macdesc_find s ifd da;
     let s = skb_upd p (k\<lparr>if_flags := set_if_index ifidx 0, kb_state := SKBSTATE_NEW, kb_mac := mac\<rparr>) s;
     (rc, s) \<leftarrow> brcmf_fws_assign_htod p fifo s;
     if rc = OK then do {
       (_, s) \<leftarrow> brcmf_fws_enq env SKBSTATE_DELAYED fifo p s;
       Some (OK, brcmf_fws_schedule_deq s) }
     else Some (ERR ENOMEM, s) }"

section \<open>Interfaces, attachment and the bus\<close>

definition brcmf_fws_reset_interface :: "nat \<Rightarrow> u8 list \<Rightarrow> u8 \<Rightarrow> brcmf_fws_info \<Rightarrow> brcmf_fws_info option" where
  "brcmf_fws_reset_interface ifn addr ifidx s = do {
     d \<leftarrow> nth_opt (fw_ifdesc s) ifn;
     case d of
       None \<Rightarrow> Some s
     | Some i \<Rightarrow> do { e \<leftarrow> nth_opt (fw_desc s) i; Some (desc_upd i (brcmf_fws_macdesc_init (Some addr) ifidx e) s) } }"

definition brcmf_fws_add_interface :: "bool \<Rightarrow> nat \<Rightarrow> u8 list \<Rightarrow> u8 \<Rightarrow> brcmf_fws_info \<Rightarrow> brcmf_fws_info option" where
  "brcmf_fws_add_interface ndev ifn addr ifidx s =
     (if \<not> ndev \<or> \<not> brcmf_fws_queue_skbs s then Some s
      else do {
        let i = DESC_IFACE + unat ifidx;
        e \<leftarrow> (if ifidx < 16 then nth_opt (fw_desc s) i else None);
        ifd \<leftarrow> upd_opt (fw_ifdesc s) ifn (Some i);
        let e = brcmf_fws_macdesc_set_name i (brcmf_fws_macdesc_init (Some addr) ifidx e);
        q \<leftarrow> brcmu_pktq_init (psq e) PSQ_PREC_COUNT PSQ_LEN;
        Some (desc_upd i (e\<lparr>psq := q\<rparr>) (s\<lparr>fw_ifdesc := ifd\<rparr>)) })"

definition brcmf_fws_del_interface :: "nat \<Rightarrow> u8 \<Rightarrow> brcmf_fws_info \<Rightarrow> brcmf_fws_info option" where
  "brcmf_fws_del_interface ifn ifidx s = do {
     d \<leftarrow> nth_opt (fw_ifdesc s) ifn;
     case d of
       None \<Rightarrow> Some s
     | Some i \<Rightarrow> do {
         let s = s\<lparr>fw_ifdesc := (fw_ifdesc s)[ifn := None]\<rparr>;
         s \<leftarrow> (if ifidx < 16 then brcmf_fws_macdesc_cleanup (DESC_IFACE + unat ifidx) (uint ifidx) s else None);
         e \<leftarrow> nth_opt (fw_desc s) i;
         brcmf_fws_cleanup (uint ifidx) (desc_upd i (brcmf_fws_macdesc_deinit e) s) } }"

text \<open>The inner loops of the worker. Without flow control packets are taken from the hanger and sent as they are.\<close>

partial_function (option) deq_plain :: "fws_env \<Rightarrow> nat \<Rightarrow> brcmf_fws_info \<Rightarrow> brcmf_fws_info option" where
  "deq_plain env fifo s = do {
     (r, s) \<leftarrow> brcmf_fws_deq env fifo s;
     case r of
       None \<Rightarrow> Some s
     | Some p \<Rightarrow> do {
         k \<leftarrow> nth_opt (fw_skbs s) p;
         (rc, out, h) \<leftarrow> brcmf_fws_hanger_poppkt (hanger s) (tag_hslot (htod k)) True;
         p \<leftarrow> (if rc = OK then out else Some p);
         k \<leftarrow> nth_opt (fw_skbs s) p;
         (ret, s) \<leftarrow> fws_txdata env (ucast (if_index (if_flags k))) 0 p (s\<lparr>hanger := h\<rparr>);
         let s = (if ret < 0 then fw_emit (TxFinalize p False) s else s);
         if bus_flow_blocked s then Some s else deq_plain env fifo s } }"

partial_function (option) deq_credit :: "fws_env \<Rightarrow> nat \<Rightarrow> brcmf_fws_info \<Rightarrow> brcmf_fws_info option" where
  "deq_credit env fifo s = do {
     c \<leftarrow> nth_opt (fifo_credit s) fifo;
     if c = 0 \<and> (bcmc_credit_check s \<or> fifo \<noteq> FIFO_BCMC) then Some s
     else do {
       (r, s) \<leftarrow> brcmf_fws_deq env fifo s;
       case r of
         None \<Rightarrow> Some s
       | Some p \<Rightarrow> do {
           c \<leftarrow> nth_opt (fifo_credit s) fifo;
           (rc, s) \<leftarrow> brcmf_fws_commit_skb env fifo p (s\<lparr>fifo_credit := (fifo_credit s)[fifo := c - 1]\<rparr>);
           if rc \<noteq> 0 \<or> bus_flow_blocked s then Some s else deq_credit env fifo s } } }"

partial_function (option) deq_borrow :: "fws_env \<Rightarrow> nat \<Rightarrow> brcmf_fws_info \<Rightarrow> brcmf_fws_info option" where
  "deq_borrow env fifo s = do {
     (rc, s) \<leftarrow> brcmf_fws_borrow_credit (fifo - 1) fifo True s;
     if rc \<noteq> OK then Some s
     else do {
       (r, s) \<leftarrow> brcmf_fws_deq env fifo s;
       case r of
         None \<Rightarrow> brcmf_fws_return_credits fifo 1 s
       | Some p \<Rightarrow> do {
           (rc, s) \<leftarrow> brcmf_fws_commit_skb env fifo p s;
           if rc \<noteq> 0 \<or> bus_flow_blocked s then Some s else deq_borrow env fifo s } } }"

fun deq_fifos :: "fws_env \<Rightarrow> nat list \<Rightarrow> brcmf_fws_info \<Rightarrow> brcmf_fws_info option" where
  "deq_fifos env [] s = Some s"
| "deq_fifos env (fifo # fifos) s =
     (if bus_flow_blocked s then Some s
      else if \<not> brcmf_fws_fc_active s then do { s \<leftarrow> deq_plain env fifo s; deq_fifos env fifos s }
      else do {
        s \<leftarrow> deq_credit env fifo s;
        c \<leftarrow> nth_opt (fifo_credit s) fifo;
        s \<leftarrow> (if FIFO_AC_BE \<le> fifo \<and> fifo \<le> FIFO_AC_VO \<and> c = 0 \<and> \<not> bus_flow_blocked s then deq_borrow env fifo s
             else Some s);
        deq_fifos env fifos s })"

definition brcmf_fws_dequeue_worker :: "fws_env \<Rightarrow> brcmf_fws_info \<Rightarrow> brcmf_fws_info option" where
  "brcmf_fws_dequeue_worker env s = deq_fifos env [4, 3, 2, 1, 0] s"

definition brcmf_fws_bustxcomplete :: "fws_env \<Rightarrow> nat \<Rightarrow> bool \<Rightarrow> brcmf_fws_info \<Rightarrow> brcmf_fws_info option" where
  "brcmf_fws_bustxcomplete env p success s = do {
     k \<leftarrow> nth_opt (fw_skbs s) p;
     if kb_state k = SKBSTATE_TIM then Some (fw_emit (FreeSkb p) s)
     else if \<not> success then brcmf_fws_txs_process env 6 (tag_hslot (htod k)) 0 0 1 s
     else Some s }"

text \<open>\<open>ndevs\<close> are the interfaces of the driver that have a network device.\<close>

definition brcmf_fws_bus_blocked :: "nat list \<Rightarrow> bool \<Rightarrow> brcmf_fws_info \<Rightarrow> brcmf_fws_info" where
  "brcmf_fws_bus_blocked ndevs flow_blocked s =
     (if avoid_queueing s then fold (\<lambda>n. fw_emit (BusFlowBlock n flow_blocked)) ndevs s
      else let s = s\<lparr>bus_flow_blocked := flow_blocked\<rparr> in
        if \<not> flow_blocked then brcmf_fws_schedule_deq s else stat_add bus_flow_block 1 s)"

text \<open>What zeroed memory is, and the state \<open>brcmf_fws_attach\<close> builds from it. \<open>fset\<close> sets an integer firmware
  variable, \<open>fmode\<close> is what \<open>wlfc_mode\<close> reads, \<open>reg\<close> the results of the two registrations of event handlers. The
  interfaces, buffers and log belong to the surroundings and start empty.\<close>

definition pktq_zero :: "'p pktq" where
  "pktq_zero = \<lparr>num_prec = 0, hi_prec = 0, pq_max = 0, pq_len = 0,
     pq_q = replicate PKTQ_MAX_PREC \<lparr>skblist = [], prec_max = 0\<rparr>\<rparr>"

definition macdesc_zero :: brcmf_fws_mac_descriptor where
  "macdesc_zero = \<lparr>md_name = [], occupied = False, mac_handle = 0, interface_id = 0, md_state = 0, suppressed = False,
     generation = 0, ac_bitmap = 0, requested_credit = 0, requested_packet = 0, md_ea = replicate 6 0,
     md_seq = replicate FIFO_COUNT 0, psq = pktq_zero, transit_count = 0, suppr_transit_count = 0,
     send_tim_signal = False, traffic_pending_bmp = 0, traffic_lastreported_bmp = 0\<rparr>"

definition fws_zero :: "brcmf_fws_fcmode \<Rightarrow> brcmf_fws_info" where
  "fws_zero fc = \<lparr>fw_stats = (\<lambda>_. 0), hanger = brcmf_fws_hanger_init, fcmode = fc, fw_signals = False,
     bcmc_credit_check = False, fw_desc = replicate DESC_COUNT macdesc_zero, fifo_enqpkt = replicate FIFO_COUNT 0,
     fifo_credit = replicate FIFO_COUNT 0, init_fifo_credit = replicate FIFO_COUNT 0,
     credits_borrowed = replicate 4 (replicate 4 0), deq_node_pos = replicate FIFO_COUNT 0,
     fifo_credit_map = 0, fifo_delay_map = 0, borrow_defer_timestamp = 0, bus_flow_blocked = False,
     creditmap_received = False, fw_mode = 0, avoid_queueing = False, fw_skbs = [], fw_txq = None,
     fw_stopped = replicate 16 False, fw_ifdesc = replicate 16 None, fw_log = []\<rparr>"

definition brcmf_fws_attach ::
  "bool \<Rightarrow> bool \<Rightarrow> bool \<Rightarrow> rc \<times> rc \<Rightarrow> (string \<Rightarrow> u32 \<Rightarrow> bool) \<Rightarrow> u32 option \<Rightarrow> brcmf_fws_fcmode
     \<Rightarrow> (rc + brcmf_fws_info) option" where
  "brcmf_fws_attach alloc wq always_use_queue reg fset fmode fc =
     (if \<not> alloc then Some (Inl (ERR ENOMEM))
      else if \<not> always_use_queue \<and> fc = FCMODE_NONE then Some (Inr ((fws_zero fc)\<lparr>avoid_queueing := True\<rparr>))
      else if \<not> wq then Some (Inl (ERR EBADF))
      else if fst reg \<noteq> OK then Some (Inl (fst reg))
      else if snd reg \<noteq> OK then Some (Inl (snd reg))
      else do {
        let tlv = (if fc \<noteq> FCMODE_NONE then 1 OR 2 OR 4 OR 8 OR 0x40 else 1);
        let s = (fws_zero fc)\<lparr>fw_signals := True\<rparr>;
        let s = (if fset ''tlv'' tlv then s else s\<lparr>fcmode := FCMODE_NONE, fw_signals := False\<rparr>);
        let s = (case fmode of
            Some m \<Rightarrow> if drop_bit 3 m AND 1 \<noteq> 0 \<and> fset ''wlfc_mode'' 8 then s\<lparr>fw_mode := 8\<rparr> else s
          | None \<Rightarrow> s);
        let s = s\<lparr>hanger := brcmf_fws_hanger_init\<rparr>;
        e \<leftarrow> nth_opt (fw_desc s) DESC_OTHER;
        let e = brcmf_fws_macdesc_set_name DESC_OTHER (brcmf_fws_macdesc_init None 0 e);
        q \<leftarrow> brcmu_pktq_init (psq e) PSQ_PREC_COUNT PSQ_LEN;
        Some (Inr (desc_upd DESC_OTHER (e\<lparr>psq := q\<rparr>) s)) })"

definition brcmf_fws_detach :: "brcmf_fws_info \<Rightarrow> brcmf_fws_info option" where
  "brcmf_fws_detach s = brcmf_fws_cleanup (-1) s"

end
