(* ===== verification/FwsProps.thy ===== *)
theory FwsProps
  imports Fws
begin

text \<open>
  What the firmware signalling layer guarantees: the order of suppressed packets, the credit accounts, and the
  places where the code loses a packet.
\<close>

section \<open>Suppressed packets keep their order\<close>

text \<open>The distance of a free-running number from a base, modulo its range. Numbers are comparable when they lie
  less than half the range behind a common base.\<close>

definition fr_dist :: "u32 \<Rightarrow> u32 \<Rightarrow> nat" where
  "fr_dist base a = (unat a + 256 - unat base) mod 256"

definition fr_window :: "u32 \<Rightarrow> u32 \<Rightarrow> bool" where
  "fr_window base a \<longleftrightarrow> base < 256 \<and> a < 256 \<and> fr_dist base a < 128"

text \<open>A list of numbers in the order firmware gave them.\<close>

definition fr_ordered :: "u32 list \<Rightarrow> bool" where
  "fr_ordered frs \<longleftrightarrow> (\<forall>i j. i < j \<and> j < length frs \<longrightarrow> fr_after (frs ! j) (frs ! i))"

lemma fr_after_dist:
  assumes "fr_window base a" and "fr_window base b"
  shows "fr_after a b \<longleftrightarrow> fr_dist base b < fr_dist base a"
proof -
  have l: "unat base < 256" "unat a < 256" "unat b < 256"
    using assms by (simp_all add: fr_window_def word_less_nat_alt)
  have sub: "unat (x - y) = unat x - unat y" if "y < x" for x y :: u32
    using that by (intro unat_sub) simp
  have af: "fr_after a b \<longleftrightarrow> unat b < unat a \<and> unat a - unat b < 128 \<or> unat a < unat b \<and> 128 < unat b - unat a"
    using sub [of b a] sub [of a b] by (auto simp: fr_after_def word_less_nat_alt)
  have da: "fr_dist base x = (if unat base \<le> unat x then unat x - unat base else unat x + 256 - unat base)"
    if "unat x < 256" for x
    using that l(1) by (auto simp: fr_dist_def mod_if)
  show ?thesis
    using assms l unfolding af fr_window_def da [OF l(2)] da [OF l(3)] by (auto split: if_splits)
qed

lemma enq_stop_spec:
  "enq_stop fr frs n \<le> n \<and> (\<forall>i. enq_stop fr frs n < i \<and> i \<le> n \<longrightarrow> \<not> fr_after fr (frs ! i))
    \<and> (enq_stop fr frs n = 0 \<or> fr_after fr (frs ! enq_stop fr frs n))"
  by (induction n) (auto simp: le_Suc_eq)

lemma fr_ordered_insert:
  assumes ord: "fr_ordered frs" and win: "\<forall>x \<in> insert fr (set frs). fr_window base x" and new: "fr \<notin> set frs"
  defines "j \<equiv> enq_position fr frs"
  shows "fr_ordered (take j frs @ [fr] @ drop j frs)" and "j \<le> length frs"
proof -
  let ?d = "fr_dist base"
  have after: "fr_after x y \<longleftrightarrow> ?d y < ?d x" if "x \<in> insert fr (set frs)" "y \<in> insert fr (set frs)" for x y
    using win that by (intro fr_after_dist) auto
  have inj: "?d x \<noteq> ?d fr" if "x \<in> set frs" for x
  proof
    assume eq: "?d x = ?d fr"
    have l: "unat base < 256" "unat x < 256" "unat fr < 256"
      using win that by (auto simp: fr_window_def word_less_nat_alt)
    have "unat x = unat fr" using eq l by (auto simp: fr_dist_def mod_if split: if_splits)
    then show False using new that by (simp add: word_unat_eq_iff [symmetric])
  qed
  have pos: "j \<le> length frs \<and> (\<forall>i < j. ?d (frs ! i) < ?d fr) \<and> (\<forall>i. j \<le> i \<and> i < length frs \<longrightarrow> ?d fr < ?d (frs ! i))"
  proof (cases "frs = []")
    case True
    then show ?thesis by (simp add: j_def enq_position_def)
  next
    case False
    obtain k where k: "enq_stop fr frs (length frs - 1) = k" by simp
    have sp: "k \<le> length frs - 1" "\<And>i. k < i \<Longrightarrow> i \<le> length frs - 1 \<Longrightarrow> \<not> fr_after fr (frs ! i)"
      "k = 0 \<or> fr_after fr (frs ! k)"
      using enq_stop_spec [of fr frs "length frs - 1"] k by auto
    have kl: "k < length frs" using sp(1) False by (cases frs) auto
    have mono: "?d (frs ! a) < ?d (frs ! b)" if "a < b" "b < length frs" for a b
      using ord that after [of "frs ! b" "frs ! a"] by (simp add: fr_ordered_def)
    have up: "?d fr < ?d (frs ! i)" if "k < i" "i < length frs" for i
      using sp(2) [of i] that after [of fr "frs ! i"] inj [of "frs ! i"] by fastforce
    show ?thesis
    proof (cases "fr_after fr (frs ! k)")
      case True
      then have "j = Suc k" using False k by (simp add: j_def enq_position_def)
      moreover have "?d (frs ! i) < ?d fr" if "i < Suc k" for i
        using True after [of fr "frs ! k"] kl mono [of i k] that by (cases "i = k") auto
      ultimately show ?thesis using kl up by auto
    next
      case no: False
      then have "k = 0" and j: "j = 0" using sp(3) False k by (auto simp: j_def enq_position_def)
      moreover have "?d fr < ?d (frs ! 0)"
        using no \<open>k = 0\<close> after [of fr "frs ! 0"] inj [of "frs ! 0"] False by fastforce
      ultimately show ?thesis using up by (auto simp: neq0_conv) (metis gr0I)
    qed
  qed
  then show "j \<le> length frs" by simp
  let ?l = "take j frs @ [fr] @ drop j frs"
  have nth: "?l ! i = (if i < j then frs ! i else if i = j then fr else frs ! (i - 1))" if "i < length ?l" for i
    using that pos by (auto simp: nth_append nth_Cons')
  show "fr_ordered ?l"
    unfolding fr_ordered_def
  proof (intro allI impI)
    fix a b assume ab: "a < b \<and> b < length ?l"
    have len: "length ?l = Suc (length frs)" using pos by simp
    have mono: "?d (frs ! x) < ?d (frs ! y)" if "x < y" "y < length frs" for x y
      using ord that after [of "frs ! y" "frs ! x"] by (simp add: fr_ordered_def)
    have hi: "?d fr < ?d (frs ! (b - 1))" if "j < b"
    proof -
      have "j \<le> b - 1 \<and> b - 1 < length frs" using that ab len by linarith
      then show ?thesis using pos by blast
    qed
    have "?d (?l ! a) < ?d (?l ! b)"
      using hi ab len pos mono [of a b] mono [of a "b - 1"] mono [of "a - 1" "b - 1"] nth [of a] nth [of b]
      by (auto split: if_splits)
    moreover have "?l ! a \<in> insert fr (set frs)" "?l ! b \<in> insert fr (set frs)"
      using ab len pos nth [of a] nth [of b] by (auto split: if_splits)
    ultimately show "fr_after (?l ! b) (?l ! a)" using after by simp
  qed
qed

text \<open>What updating the traffic indication and checking flow control leave alone: the buffers that exist, the
  queues, and everything but the descriptors' indication, the log and the stop flags.\<close>

definition fws_rest :: "brcmf_fws_info \<Rightarrow> _" where
  "fws_rest s = (hanger s, fcmode s, fw_signals s, bcmc_credit_check s, fifo_enqpkt s, fifo_credit s,
     init_fifo_credit s, credits_borrowed s, deq_node_pos s, fifo_credit_map s, fifo_delay_map s,
     borrow_defer_timestamp s, bus_flow_blocked s, creditmap_received s, fw_mode s, avoid_queueing s, fw_txq s, fw_ifdesc s)"

lemma fws_rest_upd [simp]:
  "fws_rest (fw_emit a s) = fws_rest s" "fws_rest (skb_upd p k s) = fws_rest s" "fws_rest (desc_upd i e s) = fws_rest s"
  "fws_rest (stat_add c n s) = fws_rest s" "fws_rest (s\<lparr>fw_skbs := ks\<rparr>) = fws_rest s" "fws_rest (s\<lparr>fw_stopped := st\<rparr>) = fws_rest s"
  by (simp_all add: fws_rest_def fw_emit_def skb_upd_def desc_upd_def stat_add_def)

lemma upd_sel [simp]:
  "fw_skbs (fw_emit a s) = fw_skbs s" "fw_desc (fw_emit a s) = fw_desc s"
  "fw_skbs (desc_upd i e s) = fw_skbs s" "fw_desc (skb_upd p k s) = fw_desc s"
  "fw_desc (desc_upd i e s) = (fw_desc s)[i := e]" "fw_skbs (skb_upd p k s) = (fw_skbs s)[p := k]"
  "fw_skbs (stat_add c n s) = fw_skbs s" "fw_desc (stat_add c n s) = fw_desc s"
  by (simp_all add: fw_emit_def skb_upd_def desc_upd_def stat_add_def)

definition tim_frame :: "brcmf_fws_info \<Rightarrow> brcmf_fws_info \<Rightarrow> bool" where
  "tim_frame s s' \<longleftrightarrow> fws_rest s' = fws_rest s \<and> (\<exists>new. fw_skbs s' = fw_skbs s @ new)
    \<and> map psq (fw_desc s') = map psq (fw_desc s) \<and> map occupied (fw_desc s') = map occupied (fw_desc s)"

lemma tim_frame_refl: "tim_frame s s"
  by (simp add: tim_frame_def)

lemma tim_frame_trans: "tim_frame s1 s2 \<Longrightarrow> tim_frame s2 s3 \<Longrightarrow> tim_frame s1 s3"
  by (auto simp: tim_frame_def)

lemma map_upd_same: "i < length xs \<Longrightarrow> f y = f (xs ! i) \<Longrightarrow> map f (xs[i := y]) = map f xs"
  by (simp add: map_update list_update_same_conv)

lemma tim_frame_desc:
  assumes "tim_frame s s2" and "i < length (fw_desc s2)" and "psq e = psq (fw_desc s2 ! i)" and "occupied e = occupied (fw_desc s2 ! i)"
  shows "tim_frame s (desc_upd i e s2)"
proof (rule tim_frame_trans [OF assms(1)])
  show "tim_frame s2 (desc_upd i e s2)"
    using assms(2-4) by (simp add: tim_frame_def map_upd_same)
qed

lemma tim_frame_skb:
  assumes "tim_frame s s2" and "length (fw_skbs s) \<le> p"
  shows "tim_frame s (skb_upd p k s2)"
proof -
  obtain new where "fw_skbs s2 = fw_skbs s @ new" using assms(1) by (auto simp: tim_frame_def)
  then have "(fw_skbs s2)[p := k] = fw_skbs s @ new[p - length (fw_skbs s) := k]"
    using assms(2) by (simp add: list_update_append)
  then show ?thesis using assms(1) by (auto simp: tim_frame_def)
qed

lemma tim_frame_emit: "tim_frame s s2 \<Longrightarrow> tim_frame s (fw_emit a s2)"
  by (auto simp: tim_frame_def)

lemma hdrpush_cases:
  assumes "brcmf_fws_hdrpush p s = Some (off, s')"
  obtains k i e b e' where "nth_opt (fw_skbs s) p = Some k" "kb_mac k = Some i" "nth_opt (fw_desc s) i = Some e"
    "skb_push (fws_header (fw_mode s) e (htod k) (htod_seq k)) (kb_skb k) = Some b"
    "s' = desc_upd i e' (skb_upd p (k\<lparr>kb_skb := b\<rparr>) s)"
    "e' = (if send_tim_signal e then e\<lparr>send_tim_signal := False, traffic_lastreported_bmp := traffic_pending_bmp e\<rparr> else e)"
    "off = of_nat (length (fws_header (fw_mode s) e (htod k) (htod_seq k)) div 4)"
  using assms unfolding brcmf_fws_hdrpush_def Let_def by (auto simp: bind_Some_iff simp del: nth_opt_Some)

lemma txdata_cases:
  assumes "fws_txdata env ifidx off p s = Some (r, s')"
  obtains k b where "nth_opt (fw_skbs s) p = Some k" "brcmf_proto_bcdc_hdrpush ifidx off (kb_skb k) = Some b"
    "s' = fw_emit (TxData p ifidx off) (skb_upd p (k\<lparr>kb_skb := b\<rparr>) s)" "r = fe_tx env (length (fw_log s))"
  using assms unfolding fws_txdata_def by (auto simp: bind_Some_iff simp del: nth_opt_Some)

lemma send_tim_frame:
  assumes "fws_send_tim env i s = Some (r, s')" and i: "i < length (fw_desc s)"
  shows "tim_frame s s'"
proof (cases "fe_alloc env")
  case False
  then show ?thesis using assms(1) by (simp add: fws_send_tim_def tim_frame_def)
next
  case True
  let ?p = "length (fw_skbs s)"
  define kn where "kn = \<lparr>kb_skb = \<lparr>sk_data = [], sk_headroom = 16 + fe_hdrlen env, ip_summed = CHECKSUM_NONE, sk_priority = 0\<rparr>,
    if_flags = 0, htod = 0, htod_seq = 0, kb_state = SKBSTATE_TIM, kb_mac = Some i\<rparr>"
  define s2 where "s2 = s\<lparr>fw_skbs := fw_skbs s @ [kn]\<rparr>"
  have kn: "kb_mac kn = Some i" by (simp add: kn_def)
  note s2 = s2_def
  obtain off s3 err s4 where h: "brcmf_fws_hdrpush ?p s2 = Some (off, s3)"
    and t: "fws_txdata env 0 off ?p s3 = Some (err, s4)" and s': "s' = (if err \<noteq> 0 then fw_emit (FreeSkb ?p) s4 else s4)"
    using assms(1) True by (auto simp: fws_send_tim_def Let_def bind_Some_iff kn_def s2_def)
  obtain e' k where h3: "s3 = desc_upd i e' (skb_upd ?p k s2)"
    "psq e' = psq (fw_desc s ! i)" "occupied e' = occupied (fw_desc s ! i)"
  proof (rule hdrpush_cases [OF h])
    fix k j e3 b e'
    assume a: "nth_opt (fw_skbs s2) ?p = Some k" "kb_mac k = Some j" "nth_opt (fw_desc s2) j = Some e3"
      "s3 = desc_upd j e' (skb_upd ?p (k\<lparr>kb_skb := b\<rparr>) s2)"
      "e' = (if send_tim_signal e3 then e3\<lparr>send_tim_signal := False, traffic_lastreported_bmp := traffic_pending_bmp e3\<rparr> else e3)"
    have "k = kn" using a(1) by (simp add: s2)
    then have j: "j = i" using a(2) kn by simp
    then have "e3 = fw_desc s ! i" using a(3) by (simp add: s2)
    then show thesis using that [of e' "k\<lparr>kb_skb := b\<rparr>"] a(4,5) j by simp
  qed
  obtain k2 where t4: "s4 = fw_emit (TxData ?p 0 off) (skb_upd ?p k2 s3)"
    by (rule txdata_cases [OF t])
  have "tim_frame s s2" by (simp add: s2 tim_frame_def)
  then have "tim_frame s (skb_upd ?p k s2)" by (rule tim_frame_skb) simp
  then have "tim_frame s s3" unfolding h3(1)
    by (rule tim_frame_desc) (use i h3(2,3) in \<open>simp_all add: s2\<close>)
  then have "tim_frame s s4" unfolding t4 by (intro tim_frame_emit tim_frame_skb) simp_all
  then show ?thesis by (simp add: s' tim_frame_emit)
qed

lemma tim_update_frame:
  assumes "brcmf_fws_tim_update env i fifo now s = Some (r, s')"
  shows "tim_frame s s'"
proof -
  obtain n where i: "i < length (fw_desc s)"
    and r: "(if now \<and> send_tim_signal (tim_bits fifo n (fw_desc s ! i)) \<and> md_state (tim_bits fifo n (fw_desc s ! i)) = STATE_CLOSE
        then fws_send_tim env i (desc_upd i (tim_bits fifo n (fw_desc s ! i)) s)
        else Some (False, desc_upd i (tim_bits fifo n (fw_desc s ! i)) s)) = Some (r, s')"
    using assms unfolding brcmf_fws_tim_update_def Let_def by (auto simp: bind_Some_iff)
  let ?s = "desc_upd i (tim_bits fifo n (fw_desc s ! i)) s"
  have "tim_frame s ?s"
    using i by (simp add: tim_frame_def map_upd_same tim_bits_def Let_def)
  moreover have "tim_frame ?s s'"
    using r send_tim_frame [of env i ?s r s'] i by (auto simp: tim_frame_refl split: if_splits)
  ultimately show ?thesis by (rule tim_frame_trans)
qed

lemma flow_check_frame:
  "brcmf_fws_flow_control_check env q n s = Some s' \<Longrightarrow> tim_frame s s'"
  unfolding brcmf_fws_flow_control_check_def Let_def
  by (auto simp: bind_Some_iff tim_frame_def split: option.splits if_splits)

lemma skb_freeruns_eq:
  "skb_freeruns s ps = Some frs \<longleftrightarrow>
     (\<forall>p \<in> set ps. p < length (fw_skbs s)) \<and> frs = map (\<lambda>p. tag_freerun (htod (fw_skbs s ! p))) ps"
  by (induction ps arbitrary: frs) (auto simp: bind_Some_iff)

lemma enq_suppressed_cases:
  assumes "brcmf_fws_enq env SKBSTATE_SUPPRESSED fifo p s = Some (OK, s')"
    and "nth_opt (fw_skbs s) p = Some k" and "kb_mac k = Some i" and "nth_opt (fw_desc s) i = Some e"
  obtains q s1 where "psq_insert_suppressed s (psq e) (2 * fifo + 1) p = Some (Some q)"
    and "fw_desc s1 = (fw_desc s)[i := e\<lparr>psq := q\<rparr>]"
    and "fw_skbs s1 = (fw_skbs s)[p := k\<lparr>kb_state := SKBSTATE_SUPPRESSED\<rparr>]" and "tim_frame s1 s'"
proof -
  obtain q n s2 r where q: "psq_insert_suppressed s (psq e) (2 * fifo + 1) p = Some (Some q)"
    and n: "nth_opt (fifo_enqpkt s) fifo = Some n"
    and t: "brcmf_fws_tim_update env i fifo True (skb_upd p (k\<lparr>kb_state := SKBSTATE_SUPPRESSED\<rparr>)
        (desc_upd i (e\<lparr>psq := q\<rparr>) (s\<lparr>fifo_delay_map := fifo_delay_map s OR push_bit fifo 1,
           fifo_enqpkt := (fifo_enqpkt s)[fifo := n + 1]\<rparr>))) = Some (r, s2)"
    and f: "brcmf_fws_flow_control_check env q (uint (if_index (if_flags k))) s2 = Some s'"
    using assms unfolding brcmf_fws_enq_def Let_def
    by (auto simp: bind_Some_iff simp del: nth_opt_Some split: option.splits)
  show ?thesis
    by (rule that [OF q _ _ tim_frame_trans [OF tim_update_frame [OF t] flow_check_frame [OF f]]]) simp_all
qed

text \<open>C20: a packet firmware suppressed goes back into its queue at the place its number gives it. If the numbers of
  the waiting packets are in order, and they and the new one lie within half the range of the counter (which wraps
  at 256), then the packet is inserted without disturbing the others and the numbers are in order again.\<close>

theorem fws_suppressed_order:
  assumes "nth_opt (fw_skbs s) p = Some k" and "kb_mac k = Some i" and "nth_opt (fw_desc s) i = Some e"
    and "nth_opt (pq_q (psq e)) (2 * fifo + 1) = Some pe"
    and "skb_freeruns s (skblist pe) = Some frs" and "fr_ordered frs"
    and "\<forall>x \<in> insert (tag_freerun (htod k)) (set frs). fr_window base x"
    and "tag_freerun (htod k) \<notin> set frs"
    and "brcmf_fws_enq env SKBSTATE_SUPPRESSED fifo p s = Some (OK, s')"
  shows "\<exists>ys zs frs'. skblist pe = ys @ zs
      \<and> skblist (pq_q (psq (fw_desc s' ! i)) ! (2 * fifo + 1)) = ys @ p # zs
      \<and> skb_freeruns s' (ys @ p # zs) = Some frs' \<and> fr_ordered frs'"
proof -
  let ?fr = "tag_freerun (htod k)" and ?prec = "2 * fifo + 1"
  obtain q s1 where q: "psq_insert_suppressed s (psq e) ?prec p = Some (Some q)"
    and s1: "fw_desc s1 = (fw_desc s)[i := e\<lparr>psq := q\<rparr>]"
      "fw_skbs s1 = (fw_skbs s)[p := k\<lparr>kb_state := SKBSTATE_SUPPRESSED\<rparr>]" and fr: "tim_frame s1 s'"
    by (rule enq_suppressed_cases [OF assms(9,1-3)])
  have i: "i < length (fw_desc s)" and p: "p < length (fw_skbs s)" "fw_skbs s ! p = k" using assms(1,3) by simp_all
  have pe: "?prec < length (pq_q (psq e))" "pq_q (psq e) ! ?prec = pe" using assms(4) by simp_all
  let ?j = "enq_position ?fr frs"
  let ?ys = "take ?j (skblist pe)" and ?zs = "drop ?j (skblist pe)"
  have ql: "skblist (pq_q q ! ?prec) = ?ys @ p # ?zs"
    using q pe unfolding psq_insert_suppressed_def assms(1,4,5) Option.bind.simps
    by (auto simp: Let_def bind_Some_iff pktq_setq_def split: if_splits)
  have "psq (fw_desc s' ! i) = psq (fw_desc s1 ! i)"
  proof -
    have "map psq (fw_desc s') = map psq (fw_desc s1)" using fr by (simp add: tim_frame_def)
    then show ?thesis using i s1(1) by (metis length_list_update length_map nth_map)
  qed
  then have l': "skblist (pq_q (psq (fw_desc s' ! i)) ! ?prec) = ?ys @ p # ?zs" using s1(1) i ql by simp
  obtain new where new: "fw_skbs s' = fw_skbs s1 @ new" using fr by (auto simp: tim_frame_def)
  have same: "htod (fw_skbs s' ! x) = htod (fw_skbs s ! x)" "x < length (fw_skbs s')" if "x < length (fw_skbs s)" for x
    using that p by (auto simp: new s1(2) nth_append nth_list_update)
  have frs: "\<forall>x \<in> set (skblist pe). x < length (fw_skbs s)" "frs = map (\<lambda>x. tag_freerun (htod (fw_skbs s ! x))) (skblist pe)"
    using assms(5) by (auto simp: skb_freeruns_eq)
  have in': "\<forall>x \<in> set (?ys @ p # ?zs). x < length (fw_skbs s)"
    using frs(1) p by (auto dest: in_set_takeD in_set_dropD)
  have "map (\<lambda>x. tag_freerun (htod (fw_skbs s' ! x))) (?ys @ p # ?zs) = map (\<lambda>x. tag_freerun (htod (fw_skbs s ! x))) (?ys @ p # ?zs)"
    using in' same by (intro map_cong) auto
  also have "\<dots> = take ?j frs @ [?fr] @ drop ?j frs"
    using p(2) by (simp add: frs(2) take_map drop_map)
  finally have "skb_freeruns s' (?ys @ p # ?zs) = Some (take ?j frs @ [?fr] @ drop ?j frs)"
    using in' same by (auto simp: skb_freeruns_eq)
  moreover have "fr_ordered (take ?j frs @ [?fr] @ drop ?j frs)"
    by (rule fr_ordered_insert [OF assms(6,7,8)])
  ultimately show ?thesis using l' by (metis append_take_drop_id)
qed

section \<open>Credits\<close>

text \<open>What a fifo owes each lender.\<close>

definition fifo_debt :: "brcmf_fws_info \<Rightarrow> nat \<Rightarrow> nat \<Rightarrow> int" where
  "fifo_debt s fifo l = credits_borrowed s ! fifo ! l"

definition credits_wf :: "brcmf_fws_info \<Rightarrow> bool" where
  "credits_wf s \<longleftrightarrow> length (fifo_credit s) = FIFO_COUNT \<and> length (init_fifo_credit s) = FIFO_COUNT
     \<and> length (credits_borrowed s) = 4 \<and> (\<forall>f < 4. length (credits_borrowed s ! f) = 4 \<and> (\<forall>l < 4. 0 \<le> fifo_debt s f l))"

text \<open>What the payments leave: the lenders' accounts are settled from the front of the list.\<close>

fun settle :: "int list \<Rightarrow> int \<Rightarrow> int list \<times> int" where
  "settle [] n = ([], n)"
| "settle (d # ds) n = (let paid = min d n; (ds', n') = settle ds (n - paid) in ((d - paid) # ds', n'))"

lemma settle_zero: "(\<forall>d \<in> set ds. 0 \<le> d) \<Longrightarrow> settle ds 0 = (ds, 0)"
  by (induction ds) auto

lemma settle_sum: "(\<forall>d \<in> set ds. 0 \<le> d) \<Longrightarrow> 0 \<le> n \<Longrightarrow>
    sum_list (fst (settle ds n)) = max 0 (sum_list ds - n) \<and> snd (settle ds n) = max 0 (n - sum_list ds)"
proof (induction ds arbitrary: n)
  case Nil
  then show ?case by simp
next
  case (Cons d ds)
  have "0 \<le> sum_list ds" using Cons.prems by (intro sum_list_nonneg) auto
  then show ?case using Cons.IH [of "n - min d n"] Cons.prems
    by (auto simp: Let_def case_prod_beta min_def max_def)
qed

text \<open>One payment.\<close>

definition pay :: "nat \<Rightarrow> nat \<Rightarrow> int \<Rightarrow> brcmf_fws_info \<Rightarrow> brcmf_fws_info" where
  "pay fifo l n s = s\<lparr>fifo_credit_map := fifo_credit_map s OR push_bit l 1,
     credits_borrowed := (credits_borrowed s)[fifo := (credits_borrowed s ! fifo)[l := fifo_debt s fifo l - n]],
     fifo_credit := (fifo_credit s)[l := fifo_credit s ! l + n]\<rparr>"

lemma pay_run:
  assumes "credits_wf s" and "fifo < 4" and "l < 4" and "n \<le> fifo_debt s fifo l"
  shows "credits_wf (pay fifo l n s)"
    and "fifo_debt (pay fifo l n s) g m = (if g = fifo \<and> m = l then fifo_debt s fifo l - n else fifo_debt s g m)"
    and "fifo_credit (pay fifo l n s) ! m = (if m = l then fifo_credit s ! l + n else fifo_credit s ! m)"
    and "init_fifo_credit (pay fifo l n s) = init_fifo_credit s"
proof -
  have w: "length (credits_borrowed s) = 4" "length (credits_borrowed s ! fifo) = 4" "length (fifo_credit s) = 6"
    using assms(1,2) by (auto simp: credits_wf_def)
  show d: "fifo_debt (pay fifo l n s) g m = (if g = fifo \<and> m = l then fifo_debt s fifo l - n else fifo_debt s g m)" for g m
    using w assms(2,3) by (auto simp: pay_def fifo_debt_def nth_list_update)
  show "credits_wf (pay fifo l n s)"
    unfolding credits_wf_def d using assms w by (auto simp: credits_wf_def pay_def nth_list_update)
  show "fifo_credit (pay fifo l n s) ! m = (if m = l then fifo_credit s ! l + n else fifo_credit s ! m)"
    using w assms(3) by (auto simp: pay_def nth_list_update)
  show "init_fifo_credit (pay fifo l n s) = init_fifo_credit s" by (simp add: pay_def)
qed

lemma repay_step:
  assumes "credits_wf s" and "fifo < 4" and "l < 4" and "fifo_debt s fifo l \<noteq> 0"
  shows "repay_lenders fifo (l # ls) n s =
    (if n \<le> fifo_debt s fifo l then Some (None, pay fifo l n s)
     else repay_lenders fifo ls (n - fifo_debt s fifo l) (pay fifo l (fifo_debt s fifo l) s))"
proof -
  have "fifo < length (credits_borrowed s)" "l < length (credits_borrowed s ! fifo)" "l < length (fifo_credit s)"
    using assms(1-3) by (auto simp: credits_wf_def)
  then show ?thesis using assms(4)
    by (auto simp: nth_opt_in Let_def pay_def fifo_debt_def simp del: nth_opt_Some)
qed

lemma repay_skip:
  assumes "credits_wf s" and "fifo < 4" and "l < 4" and "fifo_debt s fifo l = 0"
  shows "repay_lenders fifo (l # ls) n s = repay_lenders fifo ls n s"
proof -
  have "fifo < length (credits_borrowed s)" "l < length (credits_borrowed s ! fifo)"
    using assms(1-3) by (auto simp: credits_wf_def)
  then show ?thesis using assms(4) by (simp add: nth_opt_in fifo_debt_def del: nth_opt_Some)
qed

definition repaid :: "nat \<Rightarrow> nat list \<Rightarrow> int \<Rightarrow> brcmf_fws_info \<Rightarrow> brcmf_fws_info \<Rightarrow> bool" where
  "repaid fifo ls n s s' \<longleftrightarrow> credits_wf s' \<and> init_fifo_credit s' = init_fifo_credit s
     \<and> map (fifo_debt s' fifo) ls = fst (settle (map (fifo_debt s fifo) ls) n)
     \<and> (\<forall>g l. g \<noteq> fifo \<or> l \<notin> set ls \<longrightarrow> fifo_debt s' g l = fifo_debt s g l)
     \<and> (\<forall>l. fifo_credit s' ! l = fifo_credit s ! l + (if l \<in> set ls then fifo_debt s fifo l - fifo_debt s' fifo l else 0))"

lemma repay_lenders_run:
  assumes "credits_wf s" and "fifo < 4" and "distinct ls" and "set ls \<subseteq> {..<4}" and "0 < n"
  shows "\<exists>s'. repay_lenders fifo ls n s
      = Some (if n \<le> sum_list (map (fifo_debt s fifo) ls) then None else Some (n - sum_list (map (fifo_debt s fifo) ls)), s')
    \<and> repaid fifo ls n s s'"
  using assms
proof (induction ls arbitrary: s n)
  case Nil
  then show ?case by (simp add: repaid_def)
next
  case (Cons l ls)
  let ?d = "fifo_debt s fifo"
  have l: "l < 4" "l \<notin> set ls" and ls: "distinct ls" "set ls \<subseteq> {..<4}" using Cons.prems(3,4) by auto
  have nn: "0 \<le> ?d m" if "m \<in> set (l # ls)" for m
    using that Cons.prems(1,2,4) by (auto simp: credits_wf_def)
  then have sum0: "0 \<le> sum_list (map ?d ls)" by (intro sum_list_nonneg) auto
  show ?case
  proof (cases "?d l = 0")
    case True
    obtain s' where s': "repay_lenders fifo ls n s = Some (if n \<le> sum_list (map ?d ls) then None else Some (n - sum_list (map ?d ls)), s')"
      "repaid fifo ls n s s'" using Cons.IH [OF Cons.prems(1,2) ls Cons.prems(5)] by blast
    have "repaid fifo (l # ls) n s s'"
      using s'(2) True l(2) Cons.prems(5) by (auto simp: repaid_def case_prod_beta)
    then show ?thesis using s'(1) True repay_skip [OF Cons.prems(1,2) l(1) True] by (auto simp del: repay_lenders.simps)
  next
    case False
    note step = repay_step [OF Cons.prems(1,2) l(1) False]
    show ?thesis
    proof (cases "n \<le> ?d l")
      case True
      note p = pay_run [OF Cons.prems(1,2) l(1) True]
      have "repaid fifo (l # ls) n s (pay fifo l n s)"
        using p l(2) True nn settle_zero [of "map ?d ls"] by (auto simp: repaid_def)
      then show ?thesis using step True sum0 by (auto simp del: repay_lenders.simps)
    next
      case no: False
      let ?s1 = "pay fifo l (?d l) s"
      note p = pay_run [OF Cons.prems(1,2) l(1) order_refl]
      have d1: "map (fifo_debt ?s1 fifo) ls = map ?d ls" using p(2) l(2) by (intro map_cong) auto
      have "0 < n - ?d l" using no by simp
      from Cons.IH [OF p(1) Cons.prems(2) ls this] obtain s' where s':
        "repay_lenders fifo ls (n - ?d l) ?s1 = Some (if n - ?d l \<le> sum_list (map ?d ls) then None
            else Some (n - ?d l - sum_list (map ?d ls)), s')" "repaid fifo ls (n - ?d l) ?s1 s'"
        unfolding d1 by blast
      have "repaid fifo (l # ls) n s s'"
        using s'(2) p l(2) no d1 by (auto simp: repaid_def case_prod_beta min_def Let_def)
      then show ?thesis using step no s'(1) by (auto simp: algebra_simps simp del: repay_lenders.simps)
    qed
  qed
qed

text \<open>C21: credits that come back first pay the fifo's debts. For the borrowing fifos (best effort, video, voice), the
  lenders are settled from the highest down, each getting back exactly what the fifo's debt to it shrinks by; no
  other account changes. Only what exceeds the debts goes to the fifo's own account, which never ends above its
  initial credit then.\<close>

theorem fws_credits_repaid:
  assumes "credits_wf s" and "0 < fifo" and "fifo < 4" and "n \<noteq> 0"
  defines "debts \<equiv> map (fifo_debt s fifo) [3, 2, 1, 0]"
  shows "\<exists>s'. brcmf_fws_return_credits fifo n s = Some s' \<and> credits_wf s'
    \<and> map (fifo_debt s' fifo) [3, 2, 1, 0] = fst (settle debts (uint n))
    \<and> sum_list (map (fifo_debt s' fifo) [3, 2, 1, 0]) = max 0 (sum_list debts - uint n)
    \<and> (\<forall>g l. g \<noteq> fifo \<longrightarrow> fifo_debt s' g l = fifo_debt s g l)
    \<and> (\<forall>l < 6. l \<noteq> fifo \<longrightarrow>
        fifo_credit s' ! l = fifo_credit s ! l + (if l < 4 then fifo_debt s fifo l - fifo_debt s' fifo l else 0))
    \<and> fifo_credit s' ! fifo = (let own = fifo_credit s ! fifo + fifo_debt s fifo fifo - fifo_debt s' fifo fifo in
        if uint n \<le> sum_list debts then own else min (own + (uint n - sum_list debts)) (init_fifo_credit s ! fifo))"
proof -
  let ?s0 = "s\<lparr>fifo_credit_map := fifo_credit_map s OR push_bit fifo 1\<rparr>"
  have s0: "credits_wf ?s0" "fifo_debt ?s0 = fifo_debt s"
    using assms(1) by (simp_all add: credits_wf_def fifo_debt_def fun_eq_iff)
  have n0: "0 < uint n" using assms(4) by (simp add: uint_word_ariths order.not_eq_order_implies_strict word_uint_eq_iff)
  let ?D = "sum_list debts"
  obtain s1 where r: "repay_lenders fifo [3, 2, 1, 0] (uint n) ?s0
      = Some (if uint n \<le> ?D then None else Some (uint n - ?D), s1)" "repaid fifo [3, 2, 1, 0] (uint n) ?s0 s1"
    using repay_lenders_run [OF s0(1) assms(3) _ _ n0, of "[3, 2, 1, 0]"] unfolding s0(2) debts_def by auto
  have lens: "fifo < length (fifo_credit s1)" "fifo < length (init_fifo_credit s1)"
    using r(2) assms(3) by (auto simp: repaid_def credits_wf_def)
  let ?s2 = "s1\<lparr>fifo_credit := (fifo_credit s1)[fifo := min (fifo_credit s1 ! fifo + (uint n - ?D)) (init_fifo_credit s1 ! fifo)]\<rparr>"
  have run: "brcmf_fws_return_credits fifo n s = Some (if uint n \<le> ?D then s1 else ?s2)"
    unfolding brcmf_fws_return_credits_def Let_def r(1)
    using assms(2-4) lens by (simp add: nth_opt_in del: nth_opt_Some repay_lenders.simps)
  have debt2: "fifo_debt ?s2 = fifo_debt s1" by (simp add: fifo_debt_def fun_eq_iff)
  have "credits_wf s1" using r(2) unfolding repaid_def by blast
  then have wf2: "credits_wf ?s2" by (simp add: credits_wf_def fifo_debt_def)
  have sums: "sum_list (fst (settle debts (uint n))) = max 0 (?D - uint n)"
    using settle_sum [of debts "uint n"] n0 assms(1,3) by (auto simp: debts_def credits_wf_def)
  have mem: "l \<in> set [3, 2, 1, 0] \<longleftrightarrow> l < 4" for l :: nat by auto
  have rp: "map (fifo_debt s1 fifo) [3, 2, 1, 0] = fst (settle debts (uint n))"
    "\<And>g l. g \<noteq> fifo \<Longrightarrow> fifo_debt s1 g l = fifo_debt s g l"
    "\<And>l. fifo_credit s1 ! l = fifo_credit s ! l + (if l < 4 then fifo_debt s fifo l - fifo_debt s1 fifo l else 0)"
    "init_fifo_credit s1 = init_fifo_credit s" "credits_wf s1"
    using r(2) unfolding repaid_def s0(2) mem debts_def by (simp_all del: list.map settle.simps)
  show ?thesis
  proof (cases "uint n \<le> ?D")
    case True
    then show ?thesis using run rp sums assms(3)
      by (intro exI [of _ s1]) (simp add: Let_def del: list.map settle.simps)
  next
    case False
    have "fifo_credit ?s2 ! fifo = min (fifo_credit s1 ! fifo + (uint n - ?D)) (init_fifo_credit s ! fifo)"
      using lens rp(4) by simp
    moreover have "fifo_credit ?s2 ! l = fifo_credit s1 ! l" if "l \<noteq> fifo" for l using that by simp
    ultimately show ?thesis using run False rp sums assms(3) debt2 wf2
      by (intro exI [of _ ?s2]) (simp add: Let_def del: list.map settle.simps)
  qed
qed


section \<open>A packet rolled back\<close>

text \<open>What returning credits leaves alone.\<close>

definition queue_part :: "brcmf_fws_info \<Rightarrow> _" where
  "queue_part s = (map psq (fw_desc s), fifo_enqpkt s, fifo_delay_map s, fw_log s, hanger s)"

lemma repay_queue_part: "repay_lenders fifo ls n s = Some (r, s') \<Longrightarrow> queue_part s' = queue_part s \<and> fw_skbs s' = fw_skbs s \<and> fw_desc s' = fw_desc s"
proof (induction ls arbitrary: n s)
  case Nil
  then show ?case by simp
next
  case (Cons l ls)
  obtain row b where rb: "nth_opt (credits_borrowed s) fifo = Some row" "nth_opt row l = Some b"
    using Cons.prems by (auto simp: bind_Some_iff simp del: nth_opt_Some)
  then show ?case
    using Cons.prems Cons.IH
    by (auto simp: bind_Some_iff Let_def queue_part_def simp del: nth_opt_Some split: if_splits)
qed

lemma return_credits_queue_part:
  assumes "brcmf_fws_return_credits fifo n s = Some s'"
  shows "queue_part s' = queue_part s" and "fw_skbs s' = fw_skbs s" and "fw_desc s' = fw_desc s"
proof -
  have "queue_part s' = queue_part s \<and> fw_skbs s' = fw_skbs s \<and> fw_desc s' = fw_desc s"
  proof (cases "n = 0")
    case True
    then show ?thesis using assms by (simp add: brcmf_fws_return_credits_def)
  next
    case False
    let ?s0 = "s\<lparr>fifo_credit_map := fifo_credit_map s OR push_bit fifo 1\<rparr>"
    obtain left s1 where l: "(if 0 < fifo \<and> fifo \<le> FIFO_AC_VO then repay_lenders fifo [3, 2, 1, 0] (uint n) ?s0
        else Some (Some (uint n), ?s0)) = Some (left, s1)"
      and r: "(case left of None \<Rightarrow> Some s1 | Some n \<Rightarrow> do {
            c \<leftarrow> nth_opt (fifo_credit s1) fifo;
            m \<leftarrow> nth_opt (init_fifo_credit s1) fifo;
            Some (s1\<lparr>fifo_credit := (fifo_credit s1)[fifo := min (c + n) m]\<rparr>) }) = Some s'"
      using assms False unfolding brcmf_fws_return_credits_def Let_def
      by (auto simp: bind_Some_iff simp del: repay_lenders.simps nth_opt_Some)
    have "queue_part s1 = queue_part ?s0 \<and> fw_skbs s1 = fw_skbs ?s0 \<and> fw_desc s1 = fw_desc ?s0"
      using l repay_queue_part [of fifo "[3, 2, 1, 0]" "uint n" ?s0 left s1]
      by (auto simp del: repay_lenders.simps split: if_splits)
    then show ?thesis using r
      by (auto simp: bind_Some_iff queue_part_def simp del: nth_opt_Some split: option.splits)
  qed
  then show "queue_part s' = queue_part s" "fw_skbs s' = fw_skbs s" "fw_desc s' = fw_desc s" by simp_all
qed

lemma return_req_queue_part:
  assumes "brcmf_fws_macdesc_return_req_credit p s = Some s'"
  shows "queue_part s' = queue_part s"
  using assms unfolding brcmf_fws_macdesc_return_req_credit_def
  by (auto simp: bind_Some_iff queue_part_def desc_upd_def map_upd_same split: if_splits)

text \<open>A packet whose transmission failed is put back at the head of its queue, but the fifo's packet count and
  its bit in the delay map, which \<open>brcmf_fws_deq\<close> took back when it handed the packet out, are not restored. When it
  was the last packet waiting, scheduling the dequeue worker afterwards does nothing: the packet stays in its queue
  until another one is enqueued.\<close>

theorem fws_rollback_forgotten:
  assumes "nth_opt (fw_skbs s) p = Some k" and "kb_mac k = Some i" and "nth_opt (fw_desc s) i = Some e" and "occupied e"
    and "prec = (if kb_state k = SKBSTATE_SUPPRESSED then 2 * fifo + 1 else 2 * fifo)"
    and "brcmu_pktq_penq_head (psq e) prec p = Some (Some p, q)"
    and "brcmf_fws_rollback_toq env p fifo s = Some s'"
  shows "psq (fw_desc s' ! i) = q \<and> (\<exists>ps. skblist (pq_q q ! prec) = p # ps)
    \<and> fifo_enqpkt s' = fifo_enqpkt s \<and> fifo_delay_map s' = fifo_delay_map s
    \<and> (fifo_delay_map s = 0 \<longrightarrow> brcmf_fws_schedule_deq s' = s')"
proof -
  let ?s1 = "desc_upd i (e\<lparr>psq := q\<rparr>) (stat_add rollback_success 1 s)"
  obtain s2 where s2: "brcmf_fws_return_credits fifo 1 ?s1 = Some s2" "brcmf_fws_macdesc_return_req_credit p s2 = Some s'"
    using assms(4,7) unfolding brcmf_fws_rollback_toq_def assms(1-3) Option.bind.simps assms(5) [symmetric] assms(6)
    by (auto simp: bind_Some_iff simp del: nth_opt_Some)
  have "queue_part s' = queue_part ?s1"
    using return_credits_queue_part(1) [OF s2(1)] return_req_queue_part [OF s2(2)] by simp
  then have qp: "map psq (fw_desc s') = map psq (fw_desc ?s1)" "fifo_enqpkt s' = fifo_enqpkt s" "fifo_delay_map s' = fifo_delay_map s"
    by (simp_all add: queue_part_def desc_upd_def stat_add_def)
  have i: "i < length (fw_desc s)" using assms(3) by simp
  then have "psq (fw_desc s' ! i) = psq (fw_desc ?s1 ! i)"
    using qp(1) by (metis length_list_update length_map nth_map upd_sel(5,8))
  then have "psq (fw_desc s' ! i) = q" using i by simp
  moreover have "\<exists>ps. skblist (pq_q q ! prec) = p # ps"
    using assms(6) unfolding brcmu_pktq_penq_head_def
    by (auto simp: bind_Some_iff pktq_setq_def split: if_splits)
  moreover have "fifo_delay_map s = 0 \<longrightarrow> brcmf_fws_schedule_deq s' = s'"
    using qp(3) by (simp add: brcmf_fws_schedule_deq_def)
  ultimately show ?thesis using qp by blast
qed

section \<open>An example state\<close>

text \<open>One interface with one descriptor; best effort packets 0 and 1, with numbers 254 and 1, are suppressed and
  wait; packet 2 has number 255. Video owes one credit to best effort and two to itself.\<close>

definition fws_ex_skb :: "u32 \<Rightarrow> brcmf_fws_skb_state \<Rightarrow> brcmf_skbuff_cb" where
  "fws_ex_skb fr st = \<lparr>kb_skb = \<lparr>sk_data = replicate 20 0, sk_headroom = 40, ip_summed = CHECKSUM_NONE, sk_priority = 0\<rparr>,
     if_flags = 0, htod = fr, htod_seq = 0, kb_state = st, kb_mac = Some 0\<rparr>"

definition fws_ex_psq :: "nat pktq" where
  "fws_ex_psq = \<lparr>num_prec = 14, hi_prec = 3, pq_max = 256, pq_len = 2,
     pq_q = (replicate 16 \<lparr>skblist = [], prec_max = 256\<rparr>)[3 := \<lparr>skblist = [0, 1], prec_max = 256\<rparr>]\<rparr>"

definition fws_ex_desc :: brcmf_fws_mac_descriptor where
  "fws_ex_desc = macdesc_zero\<lparr>occupied := True, md_state := STATE_OPEN, ac_bitmap := 0xff, psq := fws_ex_psq\<rparr>"

definition fws_ex :: brcmf_fws_info where
  "fws_ex = (fws_zero FCMODE_EXPLICIT_CREDIT)\<lparr>fw_desc := [fws_ex_desc],
     fifo_credit := [4, 3, 0, 4, 2, 0], init_fifo_credit := [4, 4, 4, 4, 2, 0],
     credits_borrowed := [[0, 0, 0, 0], [0, 0, 0, 0], [0, 1, 2, 0], [0, 0, 0, 0]],
     fw_skbs := [fws_ex_skb 254 SKBSTATE_SUPPRESSED, fws_ex_skb 1 SKBSTATE_SUPPRESSED, fws_ex_skb 255 SKBSTATE_DELAYED]\<rparr>"

definition fws_ex_env :: fws_env where
  "fws_ex_env = \<lparr>fe_tx = (\<lambda>_. -1), fe_ifs = \<lparr>if2bss = replicate 16 0, iflist = replicate 16 (Some 0)\<rparr>, fe_alloc = True,
     fe_hdrlen = 30, fe_jiffies = 0, fe_hz = 250\<rparr>"

lemma fws_ex_run:
  "map_option (\<lambda>(r, s). (r, skblist (pq_q (psq (fw_desc s ! 0)) ! 3))) (brcmf_fws_enq fws_ex_env SKBSTATE_SUPPRESSED 1 2 fws_ex)
    = Some (OK, [0, 2, 1])"
  by code_simp

lemma fws_ex_credits: "credits_wf fws_ex"
  unfolding credits_wf_def fws_ex_def fws_zero_def fifo_debt_def by (auto simp: less_Suc_eq numeral_eq_Suc)

lemma fws_ex_rollback:
  "map_option (\<lambda>(r, q). (r, skblist (pq_q q ! 2))) (brcmu_pktq_penq_head fws_ex_psq 2 2) = Some (Some 2, [2])"
  "brcmf_fws_rollback_toq fws_ex_env 2 1 fws_ex \<noteq> None"
  by code_simp code_simp

theorem fws_suppressed_order_witness:
  "\<exists>s' frs'. brcmf_fws_enq fws_ex_env SKBSTATE_SUPPRESSED 1 2 fws_ex = Some (OK, s')
    \<and> skblist (pq_q (psq (fw_desc s' ! 0)) ! 3) = [0, 2, 1] \<and> skb_freeruns s' [0, 2, 1] = Some frs' \<and> fr_ordered frs'"
proof -
  obtain s' where s': "brcmf_fws_enq fws_ex_env SKBSTATE_SUPPRESSED 1 2 fws_ex = Some (OK, s')"
    "skblist (pq_q (psq (fw_desc s' ! 0)) ! 3) = [0, 2, 1]"
    using fws_ex_run by (auto simp: map_option_eq_Some)
  have ord: "fr_ordered [254, 1]" by (auto simp: fr_ordered_def less_Suc_eq fr_after_def)
  have "\<exists>ys zs frs'. skblist (fws_ex_psq_e :: nat pktq_prec) = ys @ zs
      \<and> skblist (pq_q (psq (fw_desc s' ! 0)) ! (2 * 1 + 1)) = ys @ 2 # zs
      \<and> skb_freeruns s' (ys @ 2 # zs) = Some frs' \<and> fr_ordered frs'"
    if "fws_ex_psq_e = \<lparr>skblist = [0, 1], prec_max = 256\<rparr>" for fws_ex_psq_e
  proof (rule fws_suppressed_order [where k = "fws_ex_skb 255 SKBSTATE_DELAYED" and e = fws_ex_desc and frs = "[254, 1]" and base = 250])
    show "nth_opt (pq_q (psq fws_ex_desc)) (2 * 1 + 1) = Some fws_ex_psq_e"
      by (simp add: fws_ex_desc_def fws_ex_psq_def that)
    show "skb_freeruns fws_ex (skblist fws_ex_psq_e) = Some [254, 1]"
      by (simp add: that fws_ex_def fws_ex_skb_def nth_opt_def brcmu_maskget32_def)
    show "brcmf_fws_enq fws_ex_env SKBSTATE_SUPPRESSED 1 2 fws_ex = Some (OK, s')" by (rule s')
  qed (use ord that in \<open>simp_all add: fws_ex_def fws_ex_skb_def nth_opt_def brcmu_maskget32_def fr_window_def fr_dist_def\<close>)
  then show ?thesis using s' by fastforce
qed

theorem fws_credits_repaid_witness:
  "\<exists>s'. brcmf_fws_return_credits 2 4 fws_ex = Some s'
    \<and> map (fifo_debt s' 2) [3, 2, 1, 0] = [0, 0, 0, 0] \<and> fifo_credit s' ! 1 = 4 \<and> fifo_credit s' ! 2 = 3"
  using fws_credits_repaid [OF fws_ex_credits, of 2 4]
  by (auto simp: fws_ex_def fifo_debt_def Let_def)

theorem fws_rollback_forgotten_witness:
  "\<exists>s'. brcmf_fws_rollback_toq fws_ex_env 2 1 fws_ex = Some s'
    \<and> skblist (pq_q (psq (fw_desc s' ! 0)) ! 2) = [2] \<and> fifo_enqpkt s' ! 1 = 0 \<and> brcmf_fws_schedule_deq s' = s'"
proof -
  obtain q where q: "brcmu_pktq_penq_head fws_ex_psq 2 2 = Some (Some 2, q)" "skblist (pq_q q ! 2) = [2]"
    using fws_ex_rollback(1) by (auto simp: map_option_eq_Some)
  obtain s' where s': "brcmf_fws_rollback_toq fws_ex_env 2 1 fws_ex = Some s'" using fws_ex_rollback(2) by blast
  have "psq (fw_desc s' ! 0) = q \<and> (\<exists>ps. skblist (pq_q q ! 2) = 2 # ps)
    \<and> fifo_enqpkt s' = fifo_enqpkt fws_ex \<and> fifo_delay_map s' = fifo_delay_map fws_ex
    \<and> (fifo_delay_map fws_ex = 0 \<longrightarrow> brcmf_fws_schedule_deq s' = s')"
    by (rule fws_rollback_forgotten [OF _ _ _ _ _ _ s', where k = "fws_ex_skb 255 SKBSTATE_DELAYED" and e = fws_ex_desc])
       (use q in \<open>simp_all add: fws_ex_def fws_ex_skb_def fws_ex_desc_def\<close>)
  then show ?thesis using s' q(2) by (auto simp: fws_ex_def fws_zero_def)
qed

end
