(* ===== verification/Chip.thy ===== *)
theory Chip
  imports Prelude "HOL-Library.State_Monad"
begin

text \<open>
  The chip layer (\<open>chip.c\<close>, \<open>chip.h\<close>): enumeration of the cores on the backplane from the table in the chip's
  ROM, core reset and disable for both interconnects, the memory sizes, and making the chip passive and active.

  The bus and the chip behind it are a state of type \<open>'c\<close> that the callbacks of \<open>struct brcmf_buscore_ops\<close> read
  and change; they, the delays and the register layout and core numbers of the kernel's \<open>ssb\<close> and \<open>bcma\<close> headers
  are the parameter \<open>chip_env\<close>. Sequences of accesses are programs of the state monad. A core is its record (a
  pointer to one of the list's entries); a NULL core that is followed is \<^const>\<open>None\<close>.
\<close>

section \<open>The surroundings\<close>

abbreviation SBCONFIGOFF :: u32 where "SBCONFIGOFF \<equiv> 0xf00"

record soc_regs =
  BCMA_IOCTL :: u32
  BCMA_IOCTL_CLK :: u32
  BCMA_IOCTL_FGC :: u32
  BCMA_RESET_CTL :: u32
  BCMA_RESET_CTL_RESET :: u32
  SSB_TMSLOW_RESET :: u32
  SSB_TMSLOW_REJECT :: u32
  SSB_TMSLOW_CLOCK :: u32
  SSB_TMSLOW_FGC :: u32
  SSB_TMSHIGH_SERR :: u32
  SSB_TMSHIGH_BUSY :: u32
  SSB_IMSTATE_REJECT :: u32
  SSB_IMSTATE_BUSY :: u32
  SSB_IMSTATE_IBE :: u32
  SSB_IMSTATE_TO :: u32
  SSB_IDLOW_INITIATOR :: u32
  SSB_IDHIGH_RCHI :: u32
  SSB_IDHIGH_RCHI_SHIFT :: nat
  SSB_IDHIGH_RCLO :: u32
  BCMA_CC_CAP_EXT_AOB_PRESENT :: u32
  BCMA_CORE_CHIPCOMMON :: u16
  BCMA_CORE_ARM_CM3 :: u16
  BCMA_CORE_ARM_CR4 :: u16
  BCMA_CORE_ARM_CA7 :: u16
  BCMA_CORE_INTERNAL_MEM :: u16
  BCMA_CORE_SYS_MEM :: u16
  BCMA_CORE_80211 :: u16
  BCMA_CORE_SDIO_DEV :: u16
  BCMA_CORE_PMU :: u16
  BCMA_CORE_GCI :: u16

record brcmf_core_priv =
  core_id :: u16
  core_rev :: u16
  core_base :: u32
  wrapbase :: u32

record brcmf_chip =
  ch_chip :: u32
  ch_chiprev :: u32
  enum_base :: u32
  cc_caps :: u32
  cc_caps_ext :: u32
  pmucaps :: u32
  pmurev :: u32
  rambase :: u32
  ramsize :: u32
  srsize :: u32
  ch_name :: string

text \<open>Which of the two sets of functions \<open>iscoreup\<close>, \<open>coredisable\<close> and \<open>resetcore\<close> point to.\<close>

datatype soci = SOCI_SB | SOCI_AI

record brcmf_chip_priv =
  ch_pub :: brcmf_chip
  ch_cores :: "brcmf_core_priv list"
  ch_soci :: soci

text \<open>\<open>op_reset\<close> and \<open>op_setup\<close> are optional callbacks; \<open>op_alloc n\<close> tells whether the allocation of the core with
  \<open>n\<close> others before it succeeds; \<open>op_sleep\<close> is a delay of so many microseconds.\<close>

record 'c chip_env =
  soc :: soc_regs
  op_read32 :: "u32 \<Rightarrow> 'c \<Rightarrow> u32 \<times> 'c"
  op_write32 :: "u32 \<Rightarrow> u32 \<Rightarrow> 'c \<Rightarrow> 'c"
  op_prepare :: "'c \<Rightarrow> rc \<times> 'c"
  op_reset :: "(brcmf_chip \<Rightarrow> 'c \<Rightarrow> 'c) option"
  op_setup :: "(brcmf_chip \<Rightarrow> 'c \<Rightarrow> rc \<times> 'c) option"
  op_activate :: "brcmf_chip \<Rightarrow> u32 \<Rightarrow> 'c \<Rightarrow> 'c"
  op_sleep :: "nat \<Rightarrow> 'c \<Rightarrow> 'c"
  op_alloc :: "nat \<Rightarrow> bool"

definition rd :: "'c chip_env \<Rightarrow> u32 \<Rightarrow> ('c, u32) state" where
  "rd E addr = State (op_read32 E addr)"

definition wr :: "'c chip_env \<Rightarrow> u32 \<Rightarrow> u32 \<Rightarrow> ('c, unit) state" where
  "wr E addr val = State (\<lambda>c. ((), op_write32 E addr val c))"

definition delay :: "'c chip_env \<Rightarrow> nat \<Rightarrow> ('c, unit) state" where
  "delay E us = State (\<lambda>c. ((), op_sleep E us c))"

definition only_if :: "bool \<Rightarrow> ('c, unit) state \<Rightarrow> ('c, unit) state" where
  "only_if b m = (if b then m else State_Monad.return ())"

text \<open>\<open>SPINWAIT\<close>: the condition is evaluated before every delay of ten microseconds, and once after the last.\<close>

fun spinwait_n :: "'c chip_env \<Rightarrow> ('c, bool) state \<Rightarrow> nat \<Rightarrow> ('c, unit) state" where
  "spinwait_n E busy 0 = do { _ \<leftarrow> busy; State_Monad.return () }"
| "spinwait_n E busy (Suc n) = do {
     b \<leftarrow> busy;
     if b then do { delay E 10; spinwait_n E busy n } else State_Monad.return () }"

definition spinwait :: "'c chip_env \<Rightarrow> ('c, bool) state \<Rightarrow> nat \<Rightarrow> ('c, unit) state" where
  "spinwait E busy us = spinwait_n E busy ((us + 9) div 10)"

section \<open>Core state, disable and reset\<close>

abbreviation sb_idhigh :: u32 where "sb_idhigh \<equiv> 0xfc"
abbreviation sb_idlow :: u32 where "sb_idlow \<equiv> 0xf8"
abbreviation sb_tmstatelow :: u32 where "sb_tmstatelow \<equiv> 0x98"
abbreviation sb_tmstatehigh :: u32 where "sb_tmstatehigh \<equiv> 0x9c"
abbreviation sb_imstate :: u32 where "sb_imstate \<equiv> 0x90"

definition CORE_SB :: "'c chip_env \<Rightarrow> u32 \<Rightarrow> u32 \<Rightarrow> u32" where
  "CORE_SB E base field = base + SBCONFIGOFF + field"

definition SBCOREREV :: "soc_regs \<Rightarrow> u32 \<Rightarrow> u32" where
  "SBCOREREV K sbidh = drop_bit (SSB_IDHIGH_RCHI_SHIFT K) (sbidh AND SSB_IDHIGH_RCHI K) OR (sbidh AND SSB_IDHIGH_RCLO K)"

definition brcmf_chip_sb_corerev :: "'c chip_env \<Rightarrow> brcmf_core_priv \<Rightarrow> ('c, brcmf_core_priv) state" where
  "brcmf_chip_sb_corerev E core = do {
     regdata \<leftarrow> rd E (CORE_SB E (core_base core) sb_idhigh);
     State_Monad.return (core\<lparr>core_rev := ucast (SBCOREREV (soc E) regdata)\<rparr>) }"

definition brcmf_chip_sb_iscoreup :: "'c chip_env \<Rightarrow> brcmf_core_priv \<Rightarrow> ('c, bool) state" where
  "brcmf_chip_sb_iscoreup E core = do {
     let K = soc E;
     regdata \<leftarrow> rd E (CORE_SB E (core_base core) sb_tmstatelow);
     State_Monad.return (regdata AND (SSB_TMSLOW_RESET K OR SSB_TMSLOW_REJECT K OR SSB_IMSTATE_REJECT K
       OR SSB_TMSLOW_CLOCK K) = SSB_TMSLOW_CLOCK K) }"

definition brcmf_chip_ai_iscoreup :: "'c chip_env \<Rightarrow> brcmf_core_priv \<Rightarrow> ('c, bool) state" where
  "brcmf_chip_ai_iscoreup E core = do {
     let K = soc E;
     regdata \<leftarrow> rd E (wrapbase core + BCMA_IOCTL K);
     let ret = (regdata AND (BCMA_IOCTL_FGC K OR BCMA_IOCTL_CLK K) = BCMA_IOCTL_CLK K);
     regdata \<leftarrow> rd E (wrapbase core + BCMA_RESET_CTL K);
     State_Monad.return (ret \<and> regdata AND BCMA_RESET_CTL_RESET K = 0) }"

text \<open>Rejecting new transfers of a clocked core and putting it into reset with its clocks forced on.\<close>

definition sb_reject_and_reset :: "'c chip_env \<Rightarrow> u32 \<Rightarrow> ('c, unit) state" where
  "sb_reject_and_reset E base = do {
     let K = soc E;
     let low = CORE_SB E base sb_tmstatelow;
     let high = CORE_SB E base sb_tmstatehigh;
     let im = CORE_SB E base sb_imstate;
     val \<leftarrow> rd E low;
     wr E low (val OR SSB_TMSLOW_REJECT K);
     _ \<leftarrow> rd E low;
     delay E 1;
     spinwait E (do { v \<leftarrow> rd E high; State_Monad.return (v AND SSB_TMSHIGH_BUSY K \<noteq> 0) }) 100000;
     _ \<leftarrow> rd E high;
     val \<leftarrow> rd E (CORE_SB E base sb_idlow);
     only_if (val AND SSB_IDLOW_INITIATOR K \<noteq> 0) (do {
       val \<leftarrow> rd E im;
       wr E im (val OR SSB_IMSTATE_REJECT K);
       _ \<leftarrow> rd E im;
       delay E 1;
       spinwait E (do { v \<leftarrow> rd E im; State_Monad.return (v AND SSB_IMSTATE_BUSY K \<noteq> 0) }) 100000 });
     wr E low (SSB_TMSLOW_FGC K OR SSB_TMSLOW_CLOCK K OR SSB_TMSLOW_REJECT K OR SSB_TMSLOW_RESET K);
     _ \<leftarrow> rd E low;
     delay E 10;
     val \<leftarrow> rd E (CORE_SB E base sb_idlow);
     only_if (val AND SSB_IDLOW_INITIATOR K \<noteq> 0) (do {
       val \<leftarrow> rd E im;
       wr E im (val AND NOT (SSB_IMSTATE_REJECT K)) }) }"

definition brcmf_chip_sb_coredisable :: "'c chip_env \<Rightarrow> brcmf_core_priv \<Rightarrow> ('c, unit) state" where
  "brcmf_chip_sb_coredisable E core = do {
     let K = soc E;
     let low = CORE_SB E (core_base core) sb_tmstatelow;
     val \<leftarrow> rd E low;
     if val AND SSB_TMSLOW_RESET K \<noteq> 0 then State_Monad.return ()
     else do {
       val \<leftarrow> rd E low;
       only_if (val AND SSB_TMSLOW_CLOCK K \<noteq> 0) (sb_reject_and_reset E (core_base core));
       wr E low (SSB_TMSLOW_REJECT K OR SSB_TMSLOW_RESET K);
       delay E 1 } }"

definition brcmf_chip_ai_coredisable :: "'c chip_env \<Rightarrow> brcmf_core_priv \<Rightarrow> u32 \<Rightarrow> u32 \<Rightarrow> ('c, unit) state" where
  "brcmf_chip_ai_coredisable E core prereset reset = do {
     let K = soc E;
     let ioctl = wrapbase core + BCMA_IOCTL K;
     let rst = wrapbase core + BCMA_RESET_CTL K;
     regdata \<leftarrow> rd E rst;
     only_if (regdata AND BCMA_RESET_CTL_RESET K = 0) (do {
       wr E ioctl (prereset OR BCMA_IOCTL_FGC K OR BCMA_IOCTL_CLK K);
       _ \<leftarrow> rd E ioctl;
       wr E rst (BCMA_RESET_CTL_RESET K);
       delay E 10;
       spinwait E (do { v \<leftarrow> rd E rst; State_Monad.return (v \<noteq> BCMA_RESET_CTL_RESET K) }) 300 });
     wr E ioctl (reset OR BCMA_IOCTL_FGC K OR BCMA_IOCTL_CLK K);
     _ \<leftarrow> rd E ioctl;
     State_Monad.return () }"

definition brcmf_chip_sb_resetcore :: "'c chip_env \<Rightarrow> brcmf_core_priv \<Rightarrow> ('c, unit) state" where
  "brcmf_chip_sb_resetcore E core = do {
     let K = soc E;
     let low = CORE_SB E (core_base core) sb_tmstatelow;
     let high = CORE_SB E (core_base core) sb_tmstatehigh;
     let im = CORE_SB E (core_base core) sb_imstate;
     brcmf_chip_sb_coredisable E core;
     wr E low (SSB_TMSLOW_FGC K OR SSB_TMSLOW_CLOCK K OR SSB_TMSLOW_RESET K);
     _ \<leftarrow> rd E low;
     delay E 1;
     regdata \<leftarrow> rd E high;
     only_if (regdata AND SSB_TMSHIGH_SERR K \<noteq> 0) (wr E high 0);
     regdata \<leftarrow> rd E im;
     only_if (regdata AND (SSB_IMSTATE_IBE K OR SSB_IMSTATE_TO K) \<noteq> 0)
       (wr E im (regdata AND NOT (SSB_IMSTATE_IBE K OR SSB_IMSTATE_TO K)));
     wr E low (SSB_TMSLOW_FGC K OR SSB_TMSLOW_CLOCK K);
     _ \<leftarrow> rd E low;
     delay E 1;
     wr E low (SSB_TMSLOW_CLOCK K);
     _ \<leftarrow> rd E low;
     delay E 1 }"

text \<open>The loop that takes a core out of reset, at most \<open>n\<close> more writes.\<close>

fun ai_out_of_reset :: "'c chip_env \<Rightarrow> u32 \<Rightarrow> nat \<Rightarrow> ('c, unit) state" where
  "ai_out_of_reset E rst 0 = State_Monad.return ()"
| "ai_out_of_reset E rst (Suc n) = do {
     v \<leftarrow> rd E rst;
     if v AND BCMA_RESET_CTL_RESET (soc E) = 0 then State_Monad.return ()
     else do {
       wr E rst 0;
       if n = 0 then State_Monad.return () else do { delay E 40; ai_out_of_reset E rst n } } }"

definition brcmf_chip_ai_resetcore :: "'c chip_env \<Rightarrow> brcmf_core_priv \<Rightarrow> u32 \<Rightarrow> u32 \<Rightarrow> u32 \<Rightarrow> ('c, unit) state" where
  "brcmf_chip_ai_resetcore E core prereset reset postreset = do {
     let K = soc E;
     let ioctl = wrapbase core + BCMA_IOCTL K;
     brcmf_chip_ai_coredisable E core prereset reset;
     ai_out_of_reset E (wrapbase core + BCMA_RESET_CTL K) 51;
     wr E ioctl (postreset OR BCMA_IOCTL_CLK K);
     _ \<leftarrow> rd E ioctl;
     State_Monad.return () }"

definition brcmf_chip_iscoreup :: "'c chip_env \<Rightarrow> brcmf_chip_priv \<Rightarrow> brcmf_core_priv \<Rightarrow> ('c, bool) state" where
  "brcmf_chip_iscoreup E ch core = (case ch_soci ch of
     SOCI_SB \<Rightarrow> brcmf_chip_sb_iscoreup E core | SOCI_AI \<Rightarrow> brcmf_chip_ai_iscoreup E core)"

definition brcmf_chip_coredisable ::
  "'c chip_env \<Rightarrow> brcmf_chip_priv \<Rightarrow> brcmf_core_priv \<Rightarrow> u32 \<Rightarrow> u32 \<Rightarrow> ('c, unit) state" where
  "brcmf_chip_coredisable E ch core prereset reset = (case ch_soci ch of
     SOCI_SB \<Rightarrow> brcmf_chip_sb_coredisable E core | SOCI_AI \<Rightarrow> brcmf_chip_ai_coredisable E core prereset reset)"

definition brcmf_chip_resetcore ::
  "'c chip_env \<Rightarrow> brcmf_chip_priv \<Rightarrow> brcmf_core_priv \<Rightarrow> u32 \<Rightarrow> u32 \<Rightarrow> u32 \<Rightarrow> ('c, unit) state" where
  "brcmf_chip_resetcore E ch core prereset reset postreset = (case ch_soci ch of
     SOCI_SB \<Rightarrow> brcmf_chip_sb_resetcore E core
   | SOCI_AI \<Rightarrow> brcmf_chip_ai_resetcore E core prereset reset postreset)"


section \<open>The list of cores\<close>

text \<open>printf's percent-d and percent-x.\<close>

definition fmt_d :: "int \<Rightarrow> string" where
  "fmt_d i = (if i < 0 then ''-'' @ decimal (nat (- i)) else decimal (nat i))"

fun fmt_x :: "nat \<Rightarrow> string" where
  "fmt_x n = (if n < 16 then [hex_digit n] else fmt_x (n div 16) @ [hex_digit (n mod 16)])"

declare fmt_x.simps [simp del]

definition brcmf_chip_name :: "u32 \<Rightarrow> u32 \<Rightarrow> nat \<Rightarrow> string" where
  "brcmf_chip_name cid rv len =
     (let num = (if 0xa000 < cid \<or> cid < 0x4000 then fmt_d (sint cid) else fmt_x (unat cid))
      in snprintf len (''BCM'' @ num @ ''/'' @ decimal (unat rv)))"

definition brcmf_chip_add_core ::
  "'c chip_env \<Rightarrow> u16 \<Rightarrow> u32 \<Rightarrow> u32 \<Rightarrow> brcmf_core_priv list \<Rightarrow> brcmf_core_priv option" where
  "brcmf_chip_add_core E coreid base wrap cores =
     (if op_alloc E (length cores) then Some \<lparr>core_id = coreid, core_rev = 0, core_base = base, wrapbase = wrap\<rparr> else None)"

definition brcmf_chip_cores_check :: "soc_regs \<Rightarrow> brcmf_core_priv list \<Rightarrow> rc" where
  "brcmf_chip_cores_check K cores =
     (let ids = map core_id cores;
          need_socram = BCMA_CORE_ARM_CM3 K \<in> set ids;
          has_socram = BCMA_CORE_INTERNAL_MEM K \<in> set ids;
          cpu_found = BCMA_CORE_ARM_CM3 K \<in> set ids \<or> BCMA_CORE_ARM_CR4 K \<in> set ids \<or> BCMA_CORE_ARM_CA7 K \<in> set ids
      in if \<not> cpu_found then ERR ENXIO
         else if need_socram \<and> \<not> has_socram then ERR ENODEV else OK)"

definition brcmf_chip_get_core :: "brcmf_core_priv list \<Rightarrow> u16 \<Rightarrow> brcmf_core_priv option" where
  "brcmf_chip_get_core cores coreid = find (\<lambda>c. core_id c = coreid) cores"

text \<open>The \<open>unit\<close>-th core of the kind; \<open>unit\<close> is a byte that is decremented for each one passed.\<close>

fun brcmf_chip_get_d11core :: "soc_regs \<Rightarrow> brcmf_core_priv list \<Rightarrow> u8 \<Rightarrow> brcmf_core_priv option" where
  "brcmf_chip_get_d11core K [] u = None"
| "brcmf_chip_get_d11core K (c # cs) u =
     (if core_id c = BCMA_CORE_80211 K then (if u = 0 then Some c else brcmf_chip_get_d11core K cs (u - 1))
      else brcmf_chip_get_d11core K cs u)"

text \<open>The first entry of an empty list is not a core.\<close>

definition brcmf_chip_get_chipcommon :: "soc_regs \<Rightarrow> brcmf_core_priv list \<Rightarrow> brcmf_core_priv option option" where
  "brcmf_chip_get_chipcommon K cores = (case cores of
     [] \<Rightarrow> None
   | cc # _ \<Rightarrow> Some (if core_id cc \<noteq> BCMA_CORE_CHIPCOMMON K
       then brcmf_chip_get_core cores (BCMA_CORE_CHIPCOMMON K) else Some cc))"

definition brcmf_chip_get_pmu :: "soc_regs \<Rightarrow> brcmf_chip_priv \<Rightarrow> brcmf_core_priv option" where
  "brcmf_chip_get_pmu K ch = do {
     r \<leftarrow> brcmf_chip_get_chipcommon K (ch_cores ch);
     cc \<leftarrow> r;
     Some (if 35 \<le> core_rev cc \<and> cc_caps_ext (ch_pub ch) AND BCMA_CC_CAP_EXT_AOB_PRESENT K \<noteq> 0
       then (case brcmf_chip_get_core (ch_cores ch) (BCMA_CORE_PMU K) of Some pmu \<Rightarrow> pmu | None \<Rightarrow> cc) else cc) }"

section \<open>Memory sizes\<close>

abbreviation sr_coreinfo :: u32 where "sr_coreinfo \<equiv> 0x00"
abbreviation sr_bankidx :: u32 where "sr_bankidx \<equiv> 0x10"
abbreviation sr_bankinfo :: u32 where "sr_bankinfo \<equiv> 0x40"
abbreviation sr_bankpda :: u32 where "sr_bankpda \<equiv> 0x44"
abbreviation BRCMF_CHIP_MAX_MEMSIZE :: u32 where "BRCMF_CHIP_MAX_MEMSIZE \<equiv> 4194304"
abbreviation INVALID_RAMBASE :: u32 where "INVALID_RAMBASE \<equiv> 0xffffffff"

definition brcmf_chip_socram_banksize :: "'c chip_env \<Rightarrow> brcmf_core_priv \<Rightarrow> u8 \<Rightarrow> ('c, bool \<times> u32) state" where
  "brcmf_chip_socram_banksize E core idx = do {
     wr E (core_base core + sr_bankidx) (ucast idx);
     bankinfo \<leftarrow> rd E (core_base core + sr_bankinfo);
     State_Monad.return (bankinfo AND 0x00010000 \<noteq> 0, ((bankinfo AND 0x7f) + 1) * 8192) }"

text \<open>Adding up the banks \<open>i\<close>, \<open>i + 1\<close>, ...; the bank number is a byte. The sums are all banks and those that retain.\<close>

fun sum_banks :: "'c chip_env \<Rightarrow> brcmf_core_priv \<Rightarrow> nat \<Rightarrow> u8 \<Rightarrow> u32 \<Rightarrow> u32 \<Rightarrow> ('c, u32 \<times> u32) state" where
  "sum_banks E core 0 i ram sr = State_Monad.return (ram, sr)"
| "sum_banks E core (Suc n) i ram sr = do {
     (retent, banksize) \<leftarrow> brcmf_chip_socram_banksize E core i;
     sum_banks E core n (i + 1) (ram + banksize) (if retent then sr + banksize else sr) }"

text \<open>The size of old cores; \<open>nb\<close> is unsigned and wraps when there is no bank.\<close>

definition socram_old_size :: "u32 \<Rightarrow> u32" where
  "socram_old_size coreinfo =
     (let nb = drop_bit 4 (coreinfo AND 0xf0);
          banksize = coreinfo AND 0xf;
          lss = drop_bit 20 (coreinfo AND 0x00f00000);
          nb = (if lss \<noteq> 0 then nb - 1 else nb)
      in nb * push_bit (unat banksize + 14) 1 + (if lss \<noteq> 0 then push_bit (unat lss - 1 + 14) 1 else 0))"

definition socram_srsize :: "brcmf_chip \<Rightarrow> u32 \<Rightarrow> u32" where
  "socram_srsize pub sr =
     (if ch_chip pub = 0x4334 then (if ch_chiprev pub < 2 then 32 * 1024 else sr)
      else if ch_chip pub = 43430 \<or> ch_chip pub = 43439 then 64 * 1024 else sr)"

definition brcmf_chip_socram_ramsize :: "'c chip_env \<Rightarrow> brcmf_chip_priv \<Rightarrow> brcmf_core_priv \<Rightarrow> ('c, u32 \<times> u32) state" where
  "brcmf_chip_socram_ramsize E ch sr =
     (if core_rev sr < 4 then State_Monad.return (0, 0)
      else do {
        up \<leftarrow> brcmf_chip_iscoreup E ch sr;
        only_if (\<not> up) (brcmf_chip_resetcore E ch sr 0 0 0);
        coreinfo \<leftarrow> rd E (core_base sr + sr_coreinfo);
        (ram, srs) \<leftarrow> (if core_rev sr \<le> 7 \<or> core_rev sr = 12 then State_Monad.return (socram_old_size coreinfo, 0)
           else sum_banks E sr (unat (drop_bit 4 (coreinfo AND (if 23 \<le> core_rev sr then 0x1f0 else 0xf0)))) 0 0 0);
        State_Monad.return (ram, socram_srsize (ch_pub ch) srs) })"

definition brcmf_chip_sysmem_ramsize :: "'c chip_env \<Rightarrow> brcmf_chip_priv \<Rightarrow> brcmf_core_priv \<Rightarrow> ('c, u32) state" where
  "brcmf_chip_sysmem_ramsize E ch sysmem = do {
     up \<leftarrow> brcmf_chip_iscoreup E ch sysmem;
     only_if (\<not> up) (brcmf_chip_resetcore E ch sysmem 0 0 0);
     coreinfo \<leftarrow> rd E (core_base sysmem + sr_coreinfo);
     let (nrb, nb) = (if 12 \<le> core_rev sysmem
        then (drop_bit 24 (coreinfo AND 0xff000000), drop_bit 16 (coreinfo AND 0xff0000))
        else (drop_bit 5 (coreinfo AND 0x3e0), coreinfo AND 0x1f));
     (ram, _) \<leftarrow> sum_banks E sysmem (unat nb) (ucast nrb) 0 0;
     State_Monad.return ram }"

fun tcm_banks :: "'c chip_env \<Rightarrow> brcmf_core_priv \<Rightarrow> nat \<Rightarrow> u32 \<Rightarrow> u32 \<Rightarrow> ('c, u32) state" where
  "tcm_banks E cr4 0 idx memsize = State_Monad.return memsize"
| "tcm_banks E cr4 (Suc n) idx memsize = do {
     wr E (core_base cr4 + 0x40) idx;
     bxinfo \<leftarrow> rd E (core_base cr4 + 0x44);
     let blksize = (if bxinfo AND 0x200 \<noteq> 0 then drop_bit 3 8192 else 8192);
     tcm_banks E cr4 n (idx + 1) (memsize + ((bxinfo AND 0x7f) + 1) * blksize) }"

definition brcmf_chip_tcm_ramsize :: "'c chip_env \<Rightarrow> brcmf_core_priv \<Rightarrow> ('c, u32) state" where
  "brcmf_chip_tcm_ramsize E cr4 = do {
     corecap \<leftarrow> rd E (core_base cr4 + 0x04);
     tcm_banks E cr4 (unat ((corecap AND 0xf) + drop_bit 4 (corecap AND 0xf0))) 0 0 }"

definition brcmf_chip_tcm_rambase :: "brcmf_chip \<Rightarrow> u32" where
  "brcmf_chip_tcm_rambase pub =
     (let c = ch_chip pub in
      if c = 0x4345 \<or> c = 43454 then 0x198000
      else if c \<in> {0x4335, 0x4339, 0x4350, 0x4354, 0x4356, 43567, 43569, 43570, 0x4358, 43602, 0x4371} then 0x180000
      else if c \<in> {43465, 43525, 0x4365, 0x4366, 43664, 43666, 0x4388} then 0x200000
      else if c = 0x4355 \<or> c = 0x4359 then (if ch_chiprev pub < 9 then 0x180000 else 0x160000)
      else if c = 0x4364 \<or> c = 0x4373 then 0x160000
      else if c \<in> {43751, 43752, 0x4377} then 0x170000
      else if c = 0x4378 then 0x352000
      else if c = 0x4387 then 0x740000
      else INVALID_RAMBASE)"

text \<open>The sizes found: an error, or the three fields.\<close>

definition brcmf_chip_get_raminfo :: "'c chip_env \<Rightarrow> brcmf_chip_priv \<Rightarrow> ('c, rc \<times> brcmf_chip_priv) state" where
  "brcmf_chip_get_raminfo E ch = do {
     let K = soc E;
     (rc, pub) \<leftarrow>
       (case brcmf_chip_get_core (ch_cores ch) (BCMA_CORE_ARM_CR4 K) of
          Some mem \<Rightarrow> do {
            ram \<leftarrow> brcmf_chip_tcm_ramsize E mem;
            let base = brcmf_chip_tcm_rambase (ch_pub ch);
            State_Monad.return (if base = INVALID_RAMBASE then ERR EINVAL else OK,
              (ch_pub ch)\<lparr>ramsize := ram, rambase := base\<rparr>) }
        | None \<Rightarrow> (case brcmf_chip_get_core (ch_cores ch) (BCMA_CORE_SYS_MEM K) of
            Some mem \<Rightarrow> do {
              ram \<leftarrow> brcmf_chip_sysmem_ramsize E ch mem;
              let base = brcmf_chip_tcm_rambase (ch_pub ch);
              State_Monad.return (if base = INVALID_RAMBASE then ERR EINVAL else OK,
                (ch_pub ch)\<lparr>ramsize := ram, rambase := base\<rparr>) }
          | None \<Rightarrow> (case brcmf_chip_get_core (ch_cores ch) (BCMA_CORE_INTERNAL_MEM K) of
              Some mem \<Rightarrow> do {
                (ram, sr) \<leftarrow> brcmf_chip_socram_ramsize E ch mem;
                State_Monad.return (OK, (ch_pub ch)\<lparr>ramsize := ram, srsize := sr\<rparr>) }
            | None \<Rightarrow> State_Monad.return (ERR ENOMEM, ch_pub ch))));
     let ch = ch\<lparr>ch_pub := pub\<rparr>;
     State_Monad.return
       (if rc \<noteq> OK then rc
        else if ramsize pub = 0 then ERR ENOMEM
        else if BRCMF_CHIP_MAX_MEMSIZE < ramsize pub then ERR ENOMEM else OK, ch) }"

section \<open>The enumeration table\<close>

abbreviation DMP_EMPTY :: u8 where "DMP_EMPTY \<equiv> 0"
abbreviation DMP_COMPONENT :: u8 where "DMP_COMPONENT \<equiv> 1"
abbreviation DMP_MASTER_PORT :: u8 where "DMP_MASTER_PORT \<equiv> 3"
abbreviation DMP_ADDRESS :: u8 where "DMP_ADDRESS \<equiv> 5"
abbreviation DMP_EOT :: u8 where "DMP_EOT \<equiv> 15"

definition dmp_type :: "u32 \<Rightarrow> u8" where
  "dmp_type val = (let t = ucast (val AND 0xf) :: u8 in if t AND NOT 8 = DMP_ADDRESS then DMP_ADDRESS else t)"

text \<open>The next descriptor with its type; the address moves on.\<close>

definition brcmf_chip_dmp_get_desc :: "'c chip_env \<Rightarrow> u32 \<Rightarrow> ('c, u32 \<times> u8 \<times> u32) state" where
  "brcmf_chip_dmp_get_desc E a = do { val \<leftarrow> rd E a; State_Monad.return (val, dmp_type val, a + 4) }"

text \<open>The inner loop: the next address or component descriptor, or the table's end. \<^const>\<open>None\<close> when it never comes.\<close>

partial_function (option) dmp_locate :: "'c chip_env \<Rightarrow> u32 \<Rightarrow> 'c \<Rightarrow> ((u32 \<times> u8 \<times> u32) \<times> 'c) option" where
  "dmp_locate E a c = (case run_state (brcmf_chip_dmp_get_desc E a) c of
     ((val, desc, a'), c') \<Rightarrow>
       if desc = DMP_EOT \<or> desc = DMP_ADDRESS \<or> desc = DMP_COMPONENT then Some ((val, desc, a'), c')
       else dmp_locate E a' c')"

text \<open>The words after an address descriptor: the upper address, and the size with its upper half.\<close>

definition dmp_skip :: "'c chip_env \<Rightarrow> u32 \<Rightarrow> u32 \<Rightarrow> ('c, u32) state" where
  "dmp_skip E val a = do {
     a \<leftarrow> (if val AND 8 \<noteq> 0 then do { (_, _, a) \<leftarrow> brcmf_chip_dmp_get_desc E a; State_Monad.return a }
         else State_Monad.return a);
     if drop_bit 4 (val AND 0x30) = 3 then do {
       (szdesc, _, a) \<leftarrow> brcmf_chip_dmp_get_desc E a;
       if szdesc AND 8 \<noteq> 0 then do { (_, _, a) \<leftarrow> brcmf_chip_dmp_get_desc E a; State_Monad.return a }
       else State_Monad.return a }
     else State_Monad.return a }"

text \<open>What an address descriptor says about the register base and the wrapper base found so far.\<close>

definition dmp_region :: "u32 \<Rightarrow> u32 \<Rightarrow> u32 \<times> u32 \<Rightarrow> u32 \<times> u32" where
  "dmp_region wraptype val bw =
     (let sztype = drop_bit 4 (val AND 0x30); stype = drop_bit 6 (val AND 0xc0); addr = val AND 0xfffff000 in
      if sztype \<noteq> 0 \<and> sztype \<noteq> 1 then bw
      else (if fst bw = 0 \<and> stype = 0 then addr else fst bw, if snd bw = 0 \<and> stype = wraptype then addr else snd bw))"

partial_function (option) dmp_regions ::
  "'c chip_env \<Rightarrow> u32 \<Rightarrow> u32 \<Rightarrow> u32 \<times> u32 \<Rightarrow> 'c \<Rightarrow> ((rc \<times> (u32 \<times> u32) \<times> u32) \<times> 'c) option" where
  "dmp_regions E wraptype a bw c = do {
     ((val, desc, a), c) \<leftarrow> dmp_locate E a c;
     if desc = DMP_EOT then Some ((ERR EFAULT, bw, a - 4), c)
     else if desc = DMP_COMPONENT then Some ((OK, bw, a - 4), c)
     else case run_state (dmp_skip E val a) c of (a, c) \<Rightarrow>
       let bw = dmp_region wraptype val bw in
       if fst bw = 0 \<or> snd bw = 0 then dmp_regions E wraptype a bw c else Some ((OK, bw, a), c) }"

definition brcmf_chip_dmp_get_regaddr :: "'c chip_env \<Rightarrow> u32 \<Rightarrow> 'c \<Rightarrow> ((rc \<times> (u32 \<times> u32) \<times> u32) \<times> 'c) option" where
  "brcmf_chip_dmp_get_regaddr E a c = (case run_state (brcmf_chip_dmp_get_desc E a) c of
     ((val, desc, a), c) \<Rightarrow>
       if desc = DMP_MASTER_PORT then dmp_regions E 3 a (0, 0) c
       else if desc = DMP_ADDRESS then dmp_regions E 2 (a - 4) (0, 0) c
       else Some ((ERR EILSEQ, (0, 0), a - 4), c))"

text \<open>The scan from address \<open>a\<close>: the return value and the cores.\<close>

partial_function (option) dmp_scan ::
  "'c chip_env \<Rightarrow> u32 \<Rightarrow> brcmf_core_priv list \<Rightarrow> 'c \<Rightarrow> ((rc \<times> brcmf_core_priv list) \<times> 'c) option" where
  "dmp_scan E a cores c = (case run_state (brcmf_chip_dmp_get_desc E a) c of
     ((val, desc, a), c) \<Rightarrow>
       if desc = DMP_EOT then Some ((OK, cores), c)
       else if val AND 1 = 0 \<or> desc \<noteq> DMP_COMPONENT then dmp_scan E a cores c
       else let cid = ucast (drop_bit 8 (val AND 0xfff00)) :: u16 in
       case run_state (brcmf_chip_dmp_get_desc E a) c of
         ((val, desc, a), c) \<Rightarrow>
           if val AND 0xf \<noteq> 1 then Some ((ERR EFAULT, cores), c)
           else let nmw = drop_bit 14 (val AND 0x7c000); nsw = drop_bit 19 (val AND 0xf80000);
                    rv = drop_bit 24 (val AND 0xff000000) in
           if nmw + nsw = 0 \<and> cid \<noteq> BCMA_CORE_PMU (soc E) \<and> cid \<noteq> BCMA_CORE_GCI (soc E) then dmp_scan E a cores c
           else do {
             ((err, (base, wrap), a), c) \<leftarrow> brcmf_chip_dmp_get_regaddr E a c;
             if err \<noteq> OK then dmp_scan E a cores c
             else case brcmf_chip_add_core E cid base wrap cores of
                None \<Rightarrow> Some ((ERR ENOMEM, cores), c)
              | Some core \<Rightarrow> dmp_scan E a (cores @ [core\<lparr>core_rev := ucast rv\<rparr>]) c })"

definition brcmf_chip_dmp_erom_scan ::
  "'c chip_env \<Rightarrow> u32 \<Rightarrow> brcmf_core_priv list \<Rightarrow> 'c \<Rightarrow> ((rc \<times> brcmf_core_priv list) \<times> 'c) option" where
  "brcmf_chip_dmp_erom_scan E ebase cores c =
     (case run_state (rd E (ebase + 0xfc)) c of (eromaddr, c) \<Rightarrow> dmp_scan E eromaddr cores c)"

section \<open>Passive and active\<close>

abbreviation ARMCR4_BCMA_IOCTL_CPUHALT :: u32 where "ARMCR4_BCMA_IOCTL_CPUHALT \<equiv> 0x20"
abbreviation D11_BCMA_IOCTL_PHYCLOCKEN :: u32 where "D11_BCMA_IOCTL_PHYCLOCKEN \<equiv> 4"
abbreviation D11_BCMA_IOCTL_PHYRESET :: u32 where "D11_BCMA_IOCTL_PHYRESET \<equiv> 8"

definition brcmf_chip_disable_arm :: "'c chip_env \<Rightarrow> brcmf_chip_priv \<Rightarrow> u16 \<Rightarrow> ('c, unit) state" where
  "brcmf_chip_disable_arm E ch cid =
     (let K = soc E in
      case brcmf_chip_get_core (ch_cores ch) cid of
        None \<Rightarrow> State_Monad.return ()
      | Some core \<Rightarrow>
          if cid = BCMA_CORE_ARM_CM3 K then brcmf_chip_coredisable E ch core 0 0
          else if cid = BCMA_CORE_ARM_CR4 K \<or> cid = BCMA_CORE_ARM_CA7 K then do {
            val \<leftarrow> rd E (wrapbase core + BCMA_IOCTL K);
            brcmf_chip_resetcore E ch core (val AND ARMCR4_BCMA_IOCTL_CPUHALT) ARMCR4_BCMA_IOCTL_CPUHALT
              ARMCR4_BCMA_IOCTL_CPUHALT }
          else State_Monad.return ())"

definition brcmf_chip_cm3_set_passive :: "'c chip_env \<Rightarrow> brcmf_chip_priv \<Rightarrow> ('c, unit) state option" where
  "brcmf_chip_cm3_set_passive E ch =
     (let K = soc E in
      case brcmf_chip_get_core (ch_cores ch) (BCMA_CORE_80211 K) of None \<Rightarrow> None | Some d11 \<Rightarrow>
      case brcmf_chip_get_core (ch_cores ch) (BCMA_CORE_INTERNAL_MEM K) of None \<Rightarrow> None | Some sr \<Rightarrow>
      Some (do {
        brcmf_chip_disable_arm E ch (BCMA_CORE_ARM_CM3 K);
        brcmf_chip_resetcore E ch d11 (D11_BCMA_IOCTL_PHYRESET OR D11_BCMA_IOCTL_PHYCLOCKEN)
          D11_BCMA_IOCTL_PHYCLOCKEN D11_BCMA_IOCTL_PHYCLOCKEN;
        brcmf_chip_resetcore E ch sr 0 0 0;
        only_if (ch_chip (ch_pub ch) = 43430 \<or> ch_chip (ch_pub ch) = 43439) (do {
          wr E (core_base sr + sr_bankidx) 3;
          wr E (core_base sr + sr_bankpda) 0 }) }))"

definition brcmf_chip_cm3_set_active :: "'c chip_env \<Rightarrow> brcmf_chip_priv \<Rightarrow> ('c, bool) state option" where
  "brcmf_chip_cm3_set_active E ch =
     (let K = soc E in
      case brcmf_chip_get_core (ch_cores ch) (BCMA_CORE_INTERNAL_MEM K) of None \<Rightarrow> None | Some sr \<Rightarrow>
      case brcmf_chip_get_core (ch_cores ch) (BCMA_CORE_ARM_CM3 K) of None \<Rightarrow> None | Some arm \<Rightarrow>
      Some (do {
        up \<leftarrow> brcmf_chip_iscoreup E ch sr;
        if \<not> up then State_Monad.return False
        else do {
          State (\<lambda>c. ((), op_activate E (ch_pub ch) 0 c));
          brcmf_chip_resetcore E ch arm 0 0 0;
          State_Monad.return True } }))"

text \<open>The loop over the units, whose counter is passed as a byte: it ends at the first unit that does not exist, and
  \<open>fuel\<close> (one more than the number of cores) bounds it (with 256 such cores the counter wraps and the code never ends).\<close>

fun disable_d11cores :: "'c chip_env \<Rightarrow> brcmf_chip_priv \<Rightarrow> nat \<Rightarrow> u8 \<Rightarrow> ('c, unit) state" where
  "disable_d11cores E ch 0 i = State_Monad.return ()"
| "disable_d11cores E ch (Suc fuel) i =
     (case brcmf_chip_get_d11core (soc E) (ch_cores ch) i of
        None \<Rightarrow> State_Monad.return ()
      | Some core \<Rightarrow> do {
          brcmf_chip_coredisable E ch core (D11_BCMA_IOCTL_PHYRESET OR D11_BCMA_IOCTL_PHYCLOCKEN) D11_BCMA_IOCTL_PHYCLOCKEN;
          disable_d11cores E ch fuel (i + 1) })"

definition brcmf_chip_cr4_set_passive :: "'c chip_env \<Rightarrow> brcmf_chip_priv \<Rightarrow> ('c, unit) state" where
  "brcmf_chip_cr4_set_passive E ch = do {
     brcmf_chip_disable_arm E ch (BCMA_CORE_ARM_CR4 (soc E));
     disable_d11cores E ch (Suc (length (ch_cores ch))) 0 }"

definition brcmf_chip_ca7_set_passive :: "'c chip_env \<Rightarrow> brcmf_chip_priv \<Rightarrow> ('c, unit) state" where
  "brcmf_chip_ca7_set_passive E ch = do {
     brcmf_chip_disable_arm E ch (BCMA_CORE_ARM_CA7 (soc E));
     disable_d11cores E ch (Suc (length (ch_cores ch))) 0 }"

text \<open>\<open>brcmf_chip_cr4_set_active\<close> and \<open>brcmf_chip_ca7_set_active\<close> differ in the core only.\<close>

definition brcmf_chip_cr4_set_active :: "'c chip_env \<Rightarrow> brcmf_chip_priv \<Rightarrow> brcmf_core_priv \<Rightarrow> u32 \<Rightarrow> ('c, bool) state" where
  "brcmf_chip_cr4_set_active E ch core rstvec = do {
     State (\<lambda>c. ((), op_activate E (ch_pub ch) rstvec c));
     brcmf_chip_resetcore E ch core ARMCR4_BCMA_IOCTL_CPUHALT 0 0;
     State_Monad.return True }"

definition brcmf_chip_set_passive :: "'c chip_env \<Rightarrow> brcmf_chip_priv \<Rightarrow> ('c, unit) state option" where
  "brcmf_chip_set_passive E ch =
     (let K = soc E; has = (\<lambda>i. brcmf_chip_get_core (ch_cores ch) i \<noteq> None) in
      if has (BCMA_CORE_ARM_CR4 K) then Some (brcmf_chip_cr4_set_passive E ch)
      else if has (BCMA_CORE_ARM_CA7 K) then Some (brcmf_chip_ca7_set_passive E ch)
      else if has (BCMA_CORE_ARM_CM3 K) then brcmf_chip_cm3_set_passive E ch
      else Some (State_Monad.return ()))"

definition brcmf_chip_set_active :: "'c chip_env \<Rightarrow> brcmf_chip_priv \<Rightarrow> u32 \<Rightarrow> ('c, bool) state option" where
  "brcmf_chip_set_active E ch rstvec =
     (let K = soc E in
      case brcmf_chip_get_core (ch_cores ch) (BCMA_CORE_ARM_CR4 K) of
        Some core \<Rightarrow> Some (brcmf_chip_cr4_set_active E ch core rstvec)
      | None \<Rightarrow> (case brcmf_chip_get_core (ch_cores ch) (BCMA_CORE_ARM_CA7 K) of
          Some core \<Rightarrow> Some (brcmf_chip_cr4_set_active E ch core rstvec)
        | None \<Rightarrow> if brcmf_chip_get_core (ch_cores ch) (BCMA_CORE_ARM_CM3 K) \<noteq> None
            then brcmf_chip_cm3_set_active E ch else Some (State_Monad.return False)))"

section \<open>Recognition and attachment\<close>

fun add_sb_cores :: "'c chip_env \<Rightarrow> (u16 \<times> u32) list \<Rightarrow> brcmf_core_priv list \<Rightarrow> ('c, rc \<times> brcmf_core_priv list) state" where
  "add_sb_cores E [] cores = State_Monad.return (OK, cores)"
| "add_sb_cores E ((cid, base) # xs) cores =
     (case brcmf_chip_add_core E cid base 0 cores of
        None \<Rightarrow> State_Monad.return (ERR ENOMEM, cores)
      | Some core \<Rightarrow> do { core \<leftarrow> brcmf_chip_sb_corerev E core; add_sb_cores E xs (cores @ [core]) })"

text \<open>The enumeration for the interconnect type: the return value and the chip. A scan that fails is not an error.\<close>

definition chip_enumerate :: "'c chip_env \<Rightarrow> u32 \<Rightarrow> brcmf_chip_priv \<Rightarrow> 'c \<Rightarrow> ((rc \<times> brcmf_chip_priv) \<times> 'c) option" where
  "chip_enumerate E socitype ch c =
     (let K = soc E in
      if socitype = 0 then
        (if ch_chip (ch_pub ch) \<noteq> 0x4329 then Some ((ERR ENODEV, ch), c)
         else case run_state (add_sb_cores E [(BCMA_CORE_CHIPCOMMON K, 0x18000000), (BCMA_CORE_SDIO_DEV K, 0x18011000),
             (BCMA_CORE_INTERNAL_MEM K, 0x18003000), (BCMA_CORE_ARM_CM3 K, 0x18002000), (BCMA_CORE_80211 K, 0x18001000)]
             (ch_cores ch)) c of ((rc, cores), c) \<Rightarrow> Some ((rc, ch\<lparr>ch_cores := cores, ch_soci := SOCI_SB\<rparr>), c))
      else if socitype = 1 then do {
        ((_, cores), c) \<leftarrow> brcmf_chip_dmp_erom_scan E (enum_base (ch_pub ch)) (ch_cores ch) c;
        Some ((OK, ch\<lparr>ch_cores := cores, ch_soci := SOCI_AI\<rparr>), c) }
      else Some ((ERR ENODEV, ch), c))"

definition brcmf_chip_recognition :: "'c chip_env \<Rightarrow> brcmf_chip_priv \<Rightarrow> 'c \<Rightarrow> ((rc \<times> brcmf_chip_priv) \<times> 'c) option" where
  "brcmf_chip_recognition E ch c =
     (case run_state (rd E (enum_base (ch_pub ch))) c of (regdata, c) \<Rightarrow>
      if regdata = 0xffffffff then Some ((ERR ENODEV, ch), c)
      else do {
        let cid = regdata AND 0xffff;
        let rv = drop_bit 16 (regdata AND 0xf0000);
        let ch = ch\<lparr>ch_pub := (ch_pub ch)\<lparr>ch_chip := cid, ch_chiprev := rv, ch_name := brcmf_chip_name cid rv 12\<rparr>\<rparr>;
        ((rc, ch), c) \<leftarrow> chip_enumerate E (drop_bit 28 (regdata AND 0xf0000000)) ch c;
        if rc \<noteq> OK then Some ((rc, ch), c)
        else if brcmf_chip_cores_check (soc E) (ch_cores ch) \<noteq> OK
        then Some ((brcmf_chip_cores_check (soc E) (ch_cores ch), ch), c)
        else do {
          passive \<leftarrow> brcmf_chip_set_passive E ch;
          let c = snd (run_state passive c);
          let c = (case op_reset E of Some f \<Rightarrow> snd (run_state passive (f (ch_pub ch) c)) | None \<Rightarrow> c);
          Some (run_state (brcmf_chip_get_raminfo E ch) c) } })"

definition brcmf_chip_setup :: "'c chip_env \<Rightarrow> brcmf_chip_priv \<Rightarrow> 'c \<Rightarrow> ((rc \<times> brcmf_chip_priv) \<times> 'c) option" where
  "brcmf_chip_setup E ch c = do {
     cc \<leftarrow> nth_opt (ch_cores ch) 0;
     let (caps, c) = run_state (rd E (core_base cc + 4)) c;
     let (ext, c) = run_state (rd E (core_base cc + 0xac)) c;
     let ch = ch\<lparr>ch_pub := (ch_pub ch)\<lparr>cc_caps := caps, cc_caps_ext := ext\<rparr>\<rparr>;
     pmu \<leftarrow> brcmf_chip_get_pmu (soc E) ch;
     let (ch, c) = (if caps AND 0x10000000 \<noteq> 0
       then (case run_state (rd E (core_base pmu + 0x604)) c of (val, c) \<Rightarrow>
          (ch\<lparr>ch_pub := (ch_pub ch)\<lparr>pmurev := val AND 0xff, pmucaps := val\<rparr>\<rparr>, c))
       else (ch, c));
     case op_setup E of
       None \<Rightarrow> Some ((OK, ch), c)
     | Some f \<Rightarrow> (case f (ch_pub ch) c of (rc, c) \<Rightarrow> Some ((rc, ch), c)) }"

definition chip_zero :: brcmf_chip_priv where
  "chip_zero = \<lparr>ch_pub = \<lparr>ch_chip = 0, ch_chiprev = 0, enum_base = 0x18000000, cc_caps = 0, cc_caps_ext = 0, pmucaps = 0,
     pmurev = 0, rambase = 0, ramsize = 0, srsize = 0, ch_name = []\<rparr>, ch_cores = [], ch_soci = SOCI_SB\<rparr>"

text \<open>Attaching with all callbacks present; \<open>alloc\<close> tells whether the chip itself can be allocated.\<close>

definition brcmf_chip_attach :: "'c chip_env \<Rightarrow> bool \<Rightarrow> 'c \<Rightarrow> ((errno + brcmf_chip_priv) \<times> 'c) option" where
  "brcmf_chip_attach E alloc c =
     (if \<not> alloc then Some (Inl ENOMEM, c)
      else case op_prepare E c of
        (ERR e, c) \<Rightarrow> Some (Inl e, c)
      | (OK, c) \<Rightarrow> do {
          ((rc, ch), c) \<leftarrow> brcmf_chip_recognition E chip_zero c;
          case rc of
            ERR e \<Rightarrow> Some (Inl e, c)
          | OK \<Rightarrow> do {
              ((rc, ch), c) \<leftarrow> brcmf_chip_setup E ch c;
              Some (case rc of ERR e \<Rightarrow> Inl e | OK \<Rightarrow> Inr ch, c) } })"

section \<open>Save and restore\<close>

definition brcmf_chip_sr_capable :: "'c chip_env \<Rightarrow> brcmf_chip_priv \<Rightarrow> ('c, bool) state option" where
  "brcmf_chip_sr_capable E ch = do {
     pmu \<leftarrow> brcmf_chip_get_pmu (soc E) ch;
     let c = ch_chip (ch_pub ch);
     if pmurev (ch_pub ch) < 17 then Some (State_Monad.return False)
     else do {
       r \<leftarrow> brcmf_chip_get_chipcommon (soc E) (ch_cores ch);
       cc \<leftarrow> r;
       Some (if c \<in> {0x4354, 0x4356, 0x4345, 43454, 0x4324, 0x4335, 0x4339} then do {
           wr E (core_base pmu + 0x650) 3;
           reg \<leftarrow> rd E (core_base pmu + 0x654);
           State_Monad.return (reg AND (if c \<in> {0x4354, 0x4356, 0x4345, 43454} then 4 else 0xffffffff) \<noteq> 0) }
         else if c = 43430 \<or> c = 43439 then do {
           reg \<leftarrow> rd E (core_base cc + 0x508); State_Monad.return (reg \<noteq> 0) }
         else if c = 0x4355 \<or> c = 0x4373 then do {
           reg \<leftarrow> rd E (core_base cc + 0x504); State_Monad.return (reg AND 1 \<noteq> 0) }
         else if c \<in> {0x4359, 43751, 43752, 43012} then do {
           reg \<leftarrow> rd E (core_base pmu + 0x670); State_Monad.return (reg AND 0x0c000000 = 0) }
         else do {
           reg \<leftarrow> rd E (core_base pmu + 0x64c);
           if reg AND 2 = 0 then State_Monad.return False
           else do { reg \<leftarrow> rd E (core_base pmu + 0x670); State_Monad.return (reg AND 0x0c000000 = 0) } }) } }"

section \<open>What the scan finds\<close>

text \<open>A component of the table as its words: the two component descriptors, the master ports, and the address
  descriptors, each with the words that belong to it.\<close>

record erom_comp =
  cp_a :: u32
  cp_b :: u32
  cp_ports :: "u32 list"
  cp_addrs :: "(u32 \<times> u32 list) list"

definition addr_words :: "(u32 \<times> u32 list) list \<Rightarrow> u32 list" where
  "addr_words as = concat (map (\<lambda>(v, ws). v # ws) as)"

definition comp_words :: "erom_comp \<Rightarrow> u32 list" where
  "comp_words cp = cp_a cp # cp_b cp # cp_ports cp @ addr_words (cp_addrs cp)"

text \<open>The number of extra words is what the descriptor announces, and none of them looks like a component
  descriptor or the end of the table (the scan reads over them when it looks for the next component).\<close>

definition addr_ok :: "u32 \<times> u32 list \<Rightarrow> bool" where
  "addr_ok = (\<lambda>(v, ws). dmp_type v = DMP_ADDRESS \<and> (\<forall>w \<in> set ws. dmp_type w \<noteq> DMP_COMPONENT \<and> dmp_type w \<noteq> DMP_EOT)
     \<and> (let upper = (if v AND 8 \<noteq> 0 then 1 else 0) in
        if drop_bit 4 (v AND 0x30) = 3
        then upper < length ws \<and> length ws = upper + (if ws ! upper AND 8 \<noteq> 0 then 2 else 1)
        else length ws = upper))"

definition comp_ok :: "erom_comp \<Rightarrow> bool" where
  "comp_ok cp \<longleftrightarrow> cp_a cp AND 0xf = 1 \<and> cp_b cp AND 0xf = 1 \<and> (\<forall>w \<in> set (cp_ports cp). dmp_type w = DMP_MASTER_PORT)
     \<and> (\<forall>x \<in> set (cp_addrs cp). addr_ok x)"

definition small_region :: "u32 \<Rightarrow> u32 \<Rightarrow> bool" where
  "small_region t v \<longleftrightarrow> drop_bit 4 (v AND 0x30) \<in> {0, 1} \<and> drop_bit 6 (v AND 0xc0) = t \<and> v AND 0xfffff000 \<noteq> 0"

text \<open>The first region of a kind, zero when there is none.\<close>

definition first_region :: "u32 \<Rightarrow> (u32 \<times> u32 list) list \<Rightarrow> u32" where
  "first_region t as = (case find (\<lambda>x. small_region t (fst x)) as of Some x \<Rightarrow> fst x AND 0xfffff000 | None \<Rightarrow> 0)"

definition comp_base :: "erom_comp \<Rightarrow> u32" where
  "comp_base cp = first_region 0 (cp_addrs cp)"

definition comp_wrap :: "erom_comp \<Rightarrow> u32" where
  "comp_wrap cp = first_region (if cp_ports cp = [] then 2 else 3) (cp_addrs cp)"

definition comp_id :: "erom_comp \<Rightarrow> u16" where
  "comp_id cp = ucast (drop_bit 8 (cp_a cp AND 0xfff00))"

text \<open>Whether the component becomes a core: it has wrappers or is one of the two that need none, it has a port or
  an address, and either both regions were found or another component follows.\<close>

definition comp_core :: "soc_regs \<Rightarrow> bool \<Rightarrow> erom_comp \<Rightarrow> bool" where
  "comp_core K is_last cp \<longleftrightarrow>
     (drop_bit 14 (cp_b cp AND 0x7c000) + drop_bit 19 (cp_b cp AND 0xf80000) \<noteq> 0
        \<or> comp_id cp = BCMA_CORE_PMU K \<or> comp_id cp = BCMA_CORE_GCI K)
     \<and> (cp_ports cp \<noteq> [] \<or> cp_addrs cp \<noteq> []) \<and> (\<not> is_last \<or> comp_base cp \<noteq> 0 \<and> comp_wrap cp \<noteq> 0)"

fun erom_cores :: "soc_regs \<Rightarrow> erom_comp list \<Rightarrow> brcmf_core_priv list" where
  "erom_cores K [] = []"
| "erom_cores K (cp # cps) =
     (if comp_core K (cps = []) cp
      then [\<lparr>core_id = comp_id cp, core_rev = ucast (drop_bit 24 (cp_b cp AND 0xff000000)), core_base = comp_base cp,
             wrapbase = comp_wrap cp\<rparr>] else []) @ erom_cores K cps"

text \<open>The words are in the chip's address space from \<open>a\<close> on, and reading them changes nothing.\<close>

fun rom :: "'c chip_env \<Rightarrow> u32 \<Rightarrow> u32 list \<Rightarrow> 'c \<Rightarrow> bool" where
  "rom E a [] c = True"
| "rom E a (w # ws) c = (op_read32 E a c = (w, c) \<and> rom E (a + 4) ws c)"

abbreviation word_off :: "u32 \<Rightarrow> nat \<Rightarrow> u32" where "word_off a n \<equiv> a + 4 * of_nat n"

lemma rom_append: "rom E a (xs @ ys) c \<longleftrightarrow> rom E a xs c \<and> rom E (word_off a (length xs)) ys c"
  by (induction xs arbitrary: a) (auto simp: algebra_simps)

lemma get_desc_rom: "op_read32 E a c = (w, c) \<Longrightarrow> run_state (brcmf_chip_dmp_get_desc E a) c = ((w, dmp_type w, a + 4), c)"
  by (simp add: brcmf_chip_dmp_get_desc_def rd_def)

lemma dmp_type_component:
  assumes "v AND 0xf = 1"
  shows "dmp_type v = DMP_COMPONENT" and "v AND 1 \<noteq> 0"
proof -
  show "dmp_type v = DMP_COMPONENT" using assms by (simp add: dmp_type_def Let_def)
  have "bit (v AND 0xf) 0" using assms by simp
  then have "bit v 0" by (simp add: bit_and_iff)
  then show "v AND 1 \<noteq> 0" by (metis and_pow_eq power_0 one_neq_zero)
qed

lemma dmp_scan_skip:
  assumes "rom E a ws c" and "\<forall>w \<in> set ws. dmp_type w \<noteq> DMP_COMPONENT \<and> dmp_type w \<noteq> DMP_EOT"
  shows "dmp_scan E a cores c = dmp_scan E (word_off a (length ws)) cores c"
  using assms
proof (induction ws arbitrary: a)
  case Nil
  then show ?case by simp
next
  case (Cons w ws)
  then have "dmp_scan E a cores c = dmp_scan E (a + 4) cores c"
    by (subst dmp_scan.simps) (auto simp: get_desc_rom)
  then show ?case using Cons by (simp add: algebra_simps)
qed

lemma dmp_locate_skip:
  assumes "rom E a (ws @ [w]) c" and "\<forall>x \<in> set ws. dmp_type x \<noteq> DMP_COMPONENT \<and> dmp_type x \<noteq> DMP_EOT \<and> dmp_type x \<noteq> DMP_ADDRESS"
    and "dmp_type w = DMP_COMPONENT \<or> dmp_type w = DMP_EOT \<or> dmp_type w = DMP_ADDRESS"
  shows "dmp_locate E a c = Some ((w, dmp_type w, word_off a (length ws) + 4), c)"
  using assms
proof (induction ws arbitrary: a)
  case Nil
  then show ?case by (subst dmp_locate.simps) (auto simp: get_desc_rom)
next
  case (Cons x xs)
  then have "dmp_locate E a c = dmp_locate E (a + 4) c"
    by (subst dmp_locate.simps) (auto simp: get_desc_rom)
  then show ?case using Cons by (simp add: algebra_simps)
qed

lemma dmp_skip_run:
  assumes "addr_ok (v, ws)" and "rom E a ws c"
  shows "run_state (dmp_skip E v a) c = (word_off a (length ws), c)"
proof -
  let ?u = "if v AND 8 \<noteq> 0 then 1 else 0 :: nat"
  have len: "if drop_bit 4 (v AND 0x30) = 3 then ?u < length ws \<and> length ws = ?u + (if ws ! ?u AND 8 \<noteq> 0 then 2 else 1)
      else length ws = ?u"
    using assms(1) by (simp add: addr_ok_def Let_def split: if_splits)
  show ?thesis
  proof (cases "drop_bit 4 (v AND 0x30) = 3")
    case True
    show ?thesis
    proof (cases "v AND 8 = 0")
      case v: True
      then obtain x xs where ws: "ws = x # xs" "length xs = (if x AND 8 \<noteq> 0 then 1 else 0)"
        using len True by (cases ws) (auto split: if_splits)
      then consider "xs = []" "x AND 8 = 0" | y where "xs = [y]" "x AND 8 \<noteq> 0"
        by (cases xs) (auto split: if_splits)
      then show ?thesis using assms(2) True v ws(1)
        by cases (simp_all add: dmp_skip_def get_desc_rom)
    next
      case v: False
      then have l: "1 < length ws" "length ws = 1 + (if ws ! 1 AND 8 \<noteq> 0 then 2 else 1)" using len True by simp_all
      then obtain x y xs where ws: "ws = x # y # xs"
        by (metis length_greater_0_conv list.exhaust list.size(3) not_less_zero One_nat_def length_Cons less_irrefl zero_less_one)
      then have "length xs = (if y AND 8 \<noteq> 0 then 1 else 0)" using l(2) by (simp split: if_splits)
      then consider "xs = []" "y AND 8 = 0" | z where "xs = [z]" "y AND 8 \<noteq> 0"
        by (cases xs) (auto split: if_splits)
      then show ?thesis using assms(2) True v ws
        by cases (simp_all add: dmp_skip_def get_desc_rom)
    qed
  next
    case False
    consider "ws = []" "v AND 8 = 0" | x where "ws = [x]" "v AND 8 \<noteq> 0"
      using len False by (cases ws) (auto split: if_splits)
    then show ?thesis using assms(2) False
      by cases (auto simp: dmp_skip_def get_desc_rom)
  qed
qed

lemma addr_okD:
  assumes "addr_ok (v, ws)"
  shows "dmp_type v = DMP_ADDRESS" and "\<forall>w \<in> set (v # ws). dmp_type w \<noteq> DMP_COMPONENT \<and> dmp_type w \<noteq> DMP_EOT"
  using assms by (auto simp: addr_ok_def)

lemma addr_words_simps [simp]: "addr_words [] = []" "addr_words ((v, ws) # as) = v # ws @ addr_words as"
  by (simp_all add: addr_words_def)

lemma addr_words_plain:
  "\<forall>x \<in> set as. addr_ok x \<Longrightarrow> \<forall>w \<in> set (addr_words as). dmp_type w \<noteq> DMP_COMPONENT \<and> dmp_type w \<noteq> DMP_EOT"
  by (induction as) (force dest: addr_okD(2))+

definition regions_of :: "u32 \<Rightarrow> u32 \<times> u32 \<Rightarrow> (u32 \<times> u32 list) list \<Rightarrow> u32 \<times> u32" where
  "regions_of t bw as = (if fst bw = 0 then first_region 0 as else fst bw, if snd bw = 0 then first_region t as else snd bw)"

lemma regions_of_Cons: "regions_of t bw ((v, ws) # as) = regions_of t (dmp_region t v bw) as"
  by (auto simp: regions_of_def first_region_def small_region_def dmp_region_def Let_def)

lemma regions_of_found: "fst bw \<noteq> 0 \<Longrightarrow> snd bw \<noteq> 0 \<Longrightarrow> regions_of t bw as = bw"
  by (simp add: regions_of_def)

text \<open>The address search over ports that are skipped and the component's addresses, up to a component descriptor or
  the end of the table: its result, and that the scan goes on from there as from the end of the component.\<close>

lemma dmp_regions_run:
  assumes "rom E a (ps @ addr_words as @ [w]) c" and "\<forall>x \<in> set ps. dmp_type x = DMP_MASTER_PORT" and "\<forall>x \<in> set as. addr_ok x"
    and "dmp_type w = DMP_COMPONENT \<or> dmp_type w = DMP_EOT" and "fst bw = 0 \<or> snd bw = 0"
  shows "\<exists>a'. dmp_regions E t a bw c
      = Some ((if fst (regions_of t bw as) \<noteq> 0 \<and> snd (regions_of t bw as) \<noteq> 0 \<or> dmp_type w = DMP_COMPONENT
          then OK else ERR EFAULT, regions_of t bw as, a'), c)
    \<and> (\<forall>cores. dmp_scan E a' cores c = dmp_scan E (word_off a (length ps + length (addr_words as))) cores c)"
  using assms(1-3,5)
proof (induction as arbitrary: a ps bw)
  case Nil
  have l: "dmp_locate E a c = Some ((w, dmp_type w, word_off a (length ps) + 4), c)"
    by (rule dmp_locate_skip) (use Nil assms(4) in auto)
  have "regions_of t bw [] = bw" by (cases bw) (simp add: regions_of_def first_region_def)
  then show ?case using assms(4) Nil(4) by (subst dmp_regions.simps) (auto simp: l)
next
  case (Cons x as)
  obtain v ws where x: "x = (v, ws)" by (cases x)
  have ok: "addr_ok (v, ws)" "\<forall>x \<in> set as. addr_ok x" using Cons.prems(3) x by auto
  have rom: "rom E a (ps @ [v]) c" "rom E (word_off a (length ps) + 4) ws c"
    "rom E (word_off (word_off a (length ps) + 4) (length ws)) (addr_words as @ [w]) c"
    using Cons.prems(1) by (auto simp: x rom_append algebra_simps)
  have l: "dmp_locate E a c = Some ((v, DMP_ADDRESS, word_off a (length ps) + 4), c)"
    using dmp_locate_skip [OF rom(1)] Cons.prems(2) addr_okD(1) [OF ok(1)] by auto
  let ?a = "word_off (word_off a (length ps) + 4) (length ws)" and ?bw = "dmp_region t v bw"
  have step: "dmp_regions E t a bw c = (if fst ?bw = 0 \<or> snd ?bw = 0 then dmp_regions E t ?a ?bw c else Some ((OK, ?bw, ?a), c))"
    using dmp_skip_run [OF ok(1) rom(2)] by (subst dmp_regions.simps) (simp add: l)
  have end_eq: "word_off ?a (length (addr_words as)) = word_off a (length ps + length (addr_words (x # as)))"
    by (simp add: x algebra_simps)
  show ?case
  proof (cases "fst ?bw = 0 \<or> snd ?bw = 0")
    case True
    have ex: "\<exists>a'. dmp_regions E t ?a ?bw c = Some ((if fst (regions_of t ?bw as) \<noteq> 0 \<and> snd (regions_of t ?bw as) \<noteq> 0
          \<or> dmp_type w = DMP_COMPONENT then OK else ERR EFAULT, regions_of t ?bw as, a'), c)
      \<and> (\<forall>cores. dmp_scan E a' cores c = dmp_scan E (word_off ?a (length [] + length (addr_words as))) cores c)"
      using Cons.IH [of ?a "[]" ?bw] rom(3) ok(2) True by simp
    then show ?thesis unfolding step x regions_of_Cons using True end_eq [unfolded x] by simp
  next
    case False
    have skip: "dmp_scan E ?a cores c = dmp_scan E (word_off ?a (length (addr_words as))) cores c" for cores
      using rom(3) addr_words_plain [OF ok(2)] by (intro dmp_scan_skip) (simp_all add: rom_append)
    have "regions_of t ?bw as = ?bw" using False by (simp add: regions_of_found)
    then show ?thesis unfolding step x regions_of_Cons using False skip end_eq [unfolded x] by simp
  qed
qed

text \<open>The search as \<open>dmp_scan\<close> starts it.\<close>

lemma dmp_get_regaddr_run:
  assumes "rom E a (cp_ports cp @ addr_words (cp_addrs cp) @ [w]) c" and "comp_ok cp"
    and w: "dmp_type w = DMP_COMPONENT \<or> dmp_type w = DMP_EOT"
  defines "ok \<equiv> (cp_ports cp \<noteq> [] \<or> cp_addrs cp \<noteq> []) \<and> (dmp_type w = DMP_COMPONENT \<or> comp_base cp \<noteq> 0 \<and> comp_wrap cp \<noteq> 0)"
  shows "\<exists>rc b wr a'. brcmf_chip_dmp_get_regaddr E a c = Some ((rc, (b, wr), a'), c)
    \<and> (rc = OK \<longleftrightarrow> ok) \<and> (ok \<longrightarrow> b = comp_base cp \<and> wr = comp_wrap cp)
    \<and> (\<forall>cores. dmp_scan E a' cores c = dmp_scan E (word_off a (length (cp_ports cp) + length (addr_words (cp_addrs cp)))) cores c)"
proof -
  have ports: "\<forall>x \<in> set (cp_ports cp). dmp_type x = DMP_MASTER_PORT" and addrs: "\<forall>x \<in> set (cp_addrs cp). addr_ok x"
    using assms(2) by (auto simp: comp_ok_def)
  show ?thesis
  proof (cases "cp_ports cp")
    case (Cons p ps)
    have "rom E (a + 4) (ps @ addr_words (cp_addrs cp) @ [w]) c" using assms(1) Cons by simp
    from dmp_regions_run [OF this _ addrs w, of "(0, 0)" 3] ports Cons
    obtain a' where "dmp_regions E 3 (a + 4) (0, 0) c = Some ((if comp_base cp \<noteq> 0 \<and> comp_wrap cp \<noteq> 0 \<or> dmp_type w = DMP_COMPONENT
        then OK else ERR EFAULT, (comp_base cp, comp_wrap cp), a'), c)"
      "\<forall>cores. dmp_scan E a' cores c = dmp_scan E (word_off (a + 4) (length ps + length (addr_words (cp_addrs cp)))) cores c"
      by (auto simp: regions_of_def comp_base_def comp_wrap_def)
    moreover have "run_state (brcmf_chip_dmp_get_desc E a) c = ((p, DMP_MASTER_PORT, a + 4), c)"
      using assms(1) ports Cons get_desc_rom [of E a c p] by simp
    ultimately show ?thesis using Cons
      by (auto simp: brcmf_chip_dmp_get_regaddr_def ok_def algebra_simps)
  next
    case Nil
    show ?thesis
    proof (cases "cp_addrs cp")
      case none: Nil
      have "op_read32 E a c = (w, c)" using assms(1) Nil none by simp
      then have "brcmf_chip_dmp_get_regaddr E a c = Some ((ERR EILSEQ, (0, 0), a), c)"
        using w get_desc_rom [of E a c w] by (auto simp: brcmf_chip_dmp_get_regaddr_def)
      then show ?thesis using Nil none by (simp add: ok_def)
    next
      case (Cons x as)
      obtain v ws where x: "x = (v, ws)" by (cases x)
      have "rom E a ([] @ addr_words (cp_addrs cp) @ [w]) c" using assms(1) Nil by simp
      from dmp_regions_run [OF this _ addrs w, of "(0, 0)" 2]
      obtain a' where "dmp_regions E 2 a (0, 0) c = Some ((if comp_base cp \<noteq> 0 \<and> comp_wrap cp \<noteq> 0 \<or> dmp_type w = DMP_COMPONENT
          then OK else ERR EFAULT, (comp_base cp, comp_wrap cp), a'), c)"
        "\<forall>cores. dmp_scan E a' cores c = dmp_scan E (word_off a (length (addr_words (cp_addrs cp)))) cores c"
        using Nil by (auto simp: regions_of_def comp_base_def comp_wrap_def)
      moreover have "run_state (brcmf_chip_dmp_get_desc E a) c = ((v, DMP_ADDRESS, a + 4), c)"
        using assms(1) Nil Cons x addrs get_desc_rom [of E a c v] addr_okD(1) [of v ws] by simp
      ultimately show ?thesis using Nil Cons
        by (auto simp: brcmf_chip_dmp_get_regaddr_def ok_def algebra_simps)
    qed
  qed
qed

lemma dmp_scan_comp:
  assumes "rom E a (comp_words cp @ w # rest) c" and "comp_ok cp" and "dmp_type w = DMP_COMPONENT \<or> dmp_type w = DMP_EOT"
    and "op_alloc E (length cores)"
  shows "dmp_scan E a cores c = dmp_scan E (word_off a (length (comp_words cp)))
      (if comp_core (soc E) (dmp_type w = DMP_EOT) cp
       then cores @ [\<lparr>core_id = comp_id cp, core_rev = ucast (drop_bit 24 (cp_b cp AND 0xff000000)),
              core_base = comp_base cp, wrapbase = comp_wrap cp\<rparr>] else cores) c"
proof -
  have ab: "cp_a cp AND 0xf = 1" "cp_b cp AND 0xf = 1" using assms(2) by (auto simp: comp_ok_def)
  note a = dmp_type_component [OF ab(1)]
  have rom: "op_read32 E a c = (cp_a cp, c)" "op_read32 E (a + 4) c = (cp_b cp, c)"
    "rom E (a + 8) ((cp_ports cp @ addr_words (cp_addrs cp) @ [w]) @ rest) c"
    using assms(1) by (simp_all add: comp_words_def algebra_simps)
  obtain rc b wr a' where r: "brcmf_chip_dmp_get_regaddr E (a + 8) c = Some ((rc, (b, wr), a'), c)"
      "rc = OK \<longleftrightarrow> (cp_ports cp \<noteq> [] \<or> cp_addrs cp \<noteq> []) \<and> (dmp_type w = DMP_COMPONENT \<or> comp_base cp \<noteq> 0 \<and> comp_wrap cp \<noteq> 0)"
      "rc = OK \<longrightarrow> b = comp_base cp \<and> wr = comp_wrap cp"
      "\<And>cores. dmp_scan E a' cores c = dmp_scan E (word_off (a + 8) (length (cp_ports cp) + length (addr_words (cp_addrs cp)))) cores c"
    using dmp_get_regaddr_run [OF _ assms(2,3)] rom(3) by (metis rom_append)
  have plain: "dmp_scan E (a + 8) cores c = dmp_scan E (word_off (a + 8) (length (cp_ports cp @ addr_words (cp_addrs cp)))) cores c"
  proof (rule dmp_scan_skip)
    show "rom E (a + 8) (cp_ports cp @ addr_words (cp_addrs cp)) c" using rom(3) by (simp add: rom_append)
    show "\<forall>w \<in> set (cp_ports cp @ addr_words (cp_addrs cp)). dmp_type w \<noteq> DMP_COMPONENT \<and> dmp_type w \<noteq> DMP_EOT"
      using assms(2) addr_words_plain [of "cp_addrs cp"] by (auto simp: comp_ok_def)
  qed
  have off: "word_off (a + 8) (length (cp_ports cp) + length (addr_words (cp_addrs cp))) = word_off a (length (comp_words cp))"
    by (simp add: comp_words_def algebra_simps)
  have d2: "run_state (brcmf_chip_dmp_get_desc E (a + 4)) c = ((cp_b cp, dmp_type (cp_b cp), a + 8), c)"
    using get_desc_rom [OF rom(2)] by (simp add: add.assoc)
  let ?none = "drop_bit 14 (cp_b cp AND 0x7c000) + drop_bit 19 (cp_b cp AND 0xf80000) = 0
    \<and> comp_id cp \<noteq> BCMA_CORE_PMU (soc E) \<and> comp_id cp \<noteq> BCMA_CORE_GCI (soc E)"
  have go: "dmp_scan E a cores c = (if ?none then dmp_scan E (a + 8) cores c
      else if rc \<noteq> OK then dmp_scan E a' cores c
      else dmp_scan E a' (cores @ [\<lparr>core_id = comp_id cp, core_rev = ucast (drop_bit 24 (cp_b cp AND 0xff000000)),
        core_base = b, wrapbase = wr\<rparr>]) c)"
    using a ab(2) assms(4) r(1)
    by (subst dmp_scan.simps) (simp add: get_desc_rom [OF rom(1)] d2 Let_def comp_id_def brcmf_chip_add_core_def)
  have core: "comp_core (soc E) (dmp_type w = DMP_EOT) cp \<longleftrightarrow> \<not> ?none \<and> rc = OK"
    using r(2) assms(3) by (auto simp: comp_core_def)
  show ?thesis
  proof (cases ?none)
    case True
    then show ?thesis unfolding go plain [unfolded length_append off] using core by simp
  next
    case False
    then show ?thesis unfolding go r(4) off using core r(3) by auto
  qed
qed

lemma dmp_scan_all:
  assumes "rom E a (concat (map comp_words cps) @ [w]) c" and "\<forall>cp \<in> set cps. comp_ok cp" and "w AND 0xf = 0xf"
    and "\<forall>n. op_alloc E n"
  shows "dmp_scan E a cores c = Some ((OK, cores @ erom_cores (soc E) cps), c)"
  using assms(1,2)
proof (induction cps arbitrary: a cores)
  case Nil
  have "dmp_type w = DMP_EOT" using assms(3) by (simp add: dmp_type_def Let_def)
  then show ?case using Nil by (subst dmp_scan.simps) (simp add: get_desc_rom)
next
  case (Cons cp cps)
  have eot: "dmp_type w = DMP_EOT" using assms(3) by (simp add: dmp_type_def Let_def)
  obtain x rest where x: "concat (map comp_words cps) @ [w] = x # rest" by (cases "concat (map comp_words cps)") auto
  have tx: "dmp_type x = (if cps = [] then DMP_EOT else DMP_COMPONENT)"
  proof (cases cps)
    case Nil
    then show ?thesis using x eot by simp
  next
    case (Cons q qs)
    then have "x = cp_a q" "cp_a q AND 0xf = 1" using x Cons.prems(2) by (auto simp: comp_words_def comp_ok_def)
    then show ?thesis using Cons dmp_type_component(1) [of "cp_a q"] by simp
  qed
  have "rom E a (comp_words cp @ x # rest) c" using Cons.prems(1) x by simp
  from dmp_scan_comp [OF this _ _ assms(4) [rule_format]] Cons.prems(2) tx
  have step: "dmp_scan E a cores c = dmp_scan E (word_off a (length (comp_words cp)))
      (if comp_core (soc E) (cps = []) cp
       then cores @ [\<lparr>core_id = comp_id cp, core_rev = ucast (drop_bit 24 (cp_b cp AND 0xff000000)),
              core_base = comp_base cp, wrapbase = comp_wrap cp\<rparr>] else cores) c"
    by (auto split: if_splits)
  have "rom E (word_off a (length (comp_words cp))) (concat (map comp_words cps) @ [w]) c"
    using Cons.prems(1) by (simp add: rom_append)
  then show ?case unfolding step using Cons.IH Cons.prems(2) by simp
qed

text \<open>C22: the scan of the enumeration table finds exactly the components that have wrappers (or are the PMU or the
  GCI core) and a port or an address, in their order, with the identifier, the revision, the first small register
  region and the first small wrapper region the table gives. A component without one of the two regions is kept with
  a zero address, except when it is the last one.\<close>

theorem chip_erom_exact:
  assumes "op_read32 E (ebase + 0xfc) c = (a, c)" and "rom E a (concat (map comp_words cps) @ [w]) c"
    and "\<forall>cp \<in> set cps. comp_ok cp" and "w AND 0xf = 0xf" and "\<forall>n. op_alloc E n"
  shows "brcmf_chip_dmp_erom_scan E ebase [] c = Some ((OK, erom_cores (soc E) cps), c)"
  using dmp_scan_all [OF assms(2-5), of "[]"] assms(1) by (simp add: brcmf_chip_dmp_erom_scan_def rd_def)

section \<open>Reset of a core\<close>

text \<open>A wrapper whose two registers hold what is written to them: \<open>io\<close> and \<open>rst\<close> read them off the chip's state.\<close>

definition ai_registers :: "'c chip_env \<Rightarrow> brcmf_core_priv \<Rightarrow> ('c \<Rightarrow> u32) \<Rightarrow> ('c \<Rightarrow> u32) \<Rightarrow> bool" where
  "ai_registers E core io rst \<longleftrightarrow> (let i = wrapbase core + BCMA_IOCTL (soc E); r = wrapbase core + BCMA_RESET_CTL (soc E) in
     (\<forall>c. op_read32 E i c = (io c, c) \<and> op_read32 E r c = (rst c, c)
        \<and> (\<forall>v. io (op_write32 E i v c) = v \<and> rst (op_write32 E i v c) = rst c
           \<and> rst (op_write32 E r v c) = v \<and> io (op_write32 E r v c) = io c)
        \<and> (\<forall>us. io (op_sleep E us c) = io c \<and> rst (op_sleep E us c) = rst c)))"

definition soc_bits :: "soc_regs \<Rightarrow> bool" where
  "soc_bits K \<longleftrightarrow> BCMA_IOCTL_FGC K AND BCMA_IOCTL_CLK K = 0 \<and> BCMA_RESET_CTL_RESET K \<noteq> 0"

lemma spinwait_stops: "run_state busy c = (False, c) \<Longrightarrow> run_state (spinwait E busy us) c = ((), c)"
  by (cases "(us + 9) div 10") (simp_all add: spinwait_def)

lemma ai_coredisable_run:
  assumes "ai_registers E core io rst" and "soc_bits (soc E)"
  shows "\<exists>c'. run_state (brcmf_chip_ai_coredisable E core pre reset) c = ((), c')
    \<and> io c' = (reset OR BCMA_IOCTL_FGC (soc E) OR BCMA_IOCTL_CLK (soc E)) \<and> rst c' AND BCMA_RESET_CTL_RESET (soc E) \<noteq> 0"
proof -
  let ?i = "wrapbase core + BCMA_IOCTL (soc E)" and ?r = "wrapbase core + BCMA_RESET_CTL (soc E)"
  let ?R = "BCMA_RESET_CTL_RESET (soc E)"
  have reg: "op_read32 E ?i c = (io c, c)" "op_read32 E ?r c = (rst c, c)" "io (op_write32 E ?i v c) = v"
    "rst (op_write32 E ?i v c) = rst c" "rst (op_write32 E ?r v c) = v" "rst (op_sleep E us c) = rst c" for v us c
    using assms(1) unfolding ai_registers_def Let_def by blast+
  have reads: "run_state (rd E ?i) c = (io c, c)" "run_state (rd E ?r) c = (rst c, c)" for c by (simp_all add: rd_def reg)
  have spin: "run_state (spinwait E (do { v \<leftarrow> rd E ?r; State_Monad.return (v \<noteq> ?R) }) 300) c = ((), c)" if "rst c = ?R" for c
    using that by (intro spinwait_stops) (simp add: rd_def reg)
  have "?R AND ?R \<noteq> 0" using assms(2) by (simp add: soc_bits_def)
  then show ?thesis
    unfolding brcmf_chip_ai_coredisable_def Let_def
    by (auto simp: reads wr_def delay_def only_if_def reg spin)
qed

lemma ai_out_of_reset_run:
  assumes "ai_registers E core io rst" and "1 < n"
  shows "\<exists>c'. run_state (ai_out_of_reset E (wrapbase core + BCMA_RESET_CTL (soc E)) n) c = ((), c')
    \<and> rst c' AND BCMA_RESET_CTL_RESET (soc E) = 0"
proof -
  let ?r = "wrapbase core + BCMA_RESET_CTL (soc E)"
  have reg: "op_read32 E ?r c = (rst c, c)" "rst (op_write32 E ?r v c) = v" "rst (op_sleep E us c) = rst c" for v us c
    using assms(1) unfolding ai_registers_def Let_def by blast+
  obtain m where "n = Suc (Suc m)" using assms(2) by (metis less_imp_Suc_add One_nat_def add_Suc)
  then show ?thesis by (auto simp: rd_def wr_def delay_def reg)
qed

lemma chip_reset_run:
  assumes "ch_soci ch = SOCI_AI" and "ai_registers E core io rst" and "soc_bits (soc E)"
    and "postreset AND BCMA_IOCTL_FGC (soc E) = 0"
  shows "\<exists>c'. run_state (brcmf_chip_resetcore E ch core prereset reset postreset) c = ((), c')
      \<and> io c' = postreset OR BCMA_IOCTL_CLK (soc E) \<and> rst c' AND BCMA_RESET_CTL_RESET (soc E) = 0
      \<and> run_state (brcmf_chip_iscoreup E ch core) c' = (True, c')"
    and "\<exists>c'. run_state (brcmf_chip_coredisable E ch core prereset reset) c = ((), c')
      \<and> io c' = (reset OR BCMA_IOCTL_FGC (soc E) OR BCMA_IOCTL_CLK (soc E))
      \<and> run_state (brcmf_chip_iscoreup E ch core) c' = (False, c')"
proof -
  let ?i = "wrapbase core + BCMA_IOCTL (soc E)" and ?r = "wrapbase core + BCMA_RESET_CTL (soc E)"
  have reg: "op_read32 E ?i c = (io c, c)" "op_read32 E ?r c = (rst c, c)" "io (op_write32 E ?i v c) = v"
    "rst (op_write32 E ?i v c) = rst c" for v c
    using assms(2) unfolding ai_registers_def Let_def by blast+
  have up: "run_state (brcmf_chip_iscoreup E ch core) c
      = (io c AND (BCMA_IOCTL_FGC (soc E) OR BCMA_IOCTL_CLK (soc E)) = BCMA_IOCTL_CLK (soc E)
         \<and> rst c AND BCMA_RESET_CTL_RESET (soc E) = 0, c)" for c
    by (simp add: brcmf_chip_iscoreup_def assms(1) brcmf_chip_ai_iscoreup_def rd_def reg Let_def)
  obtain c1 where c1: "run_state (brcmf_chip_ai_coredisable E core prereset reset) c = ((), c1)"
    "io c1 = (reset OR BCMA_IOCTL_FGC (soc E) OR BCMA_IOCTL_CLK (soc E))" "rst c1 AND BCMA_RESET_CTL_RESET (soc E) \<noteq> 0"
    using ai_coredisable_run [OF assms(2,3)] by blast
  then show "\<exists>c'. run_state (brcmf_chip_coredisable E ch core prereset reset) c = ((), c')
      \<and> io c' = (reset OR BCMA_IOCTL_FGC (soc E) OR BCMA_IOCTL_CLK (soc E))
      \<and> run_state (brcmf_chip_iscoreup E ch core) c' = (False, c')"
    by (simp add: brcmf_chip_coredisable_def assms(1) up)
  obtain c2 where c2: "run_state (ai_out_of_reset E ?r 51) c1 = ((), c2)" "rst c2 AND BCMA_RESET_CTL_RESET (soc E) = 0"
    using ai_out_of_reset_run [OF assms(2), of 51 c1] by auto
  have bits: "(postreset OR BCMA_IOCTL_CLK (soc E)) AND (BCMA_IOCTL_FGC (soc E) OR BCMA_IOCTL_CLK (soc E)) = BCMA_IOCTL_CLK (soc E)"
  proof (rule bit_word_eqI)
    fix n
    have "\<not> bit (postreset AND BCMA_IOCTL_FGC (soc E)) n" "\<not> bit (BCMA_IOCTL_FGC (soc E) AND BCMA_IOCTL_CLK (soc E)) n"
      using assms(3,4) by (simp_all add: soc_bits_def)
    then show "bit ((postreset OR BCMA_IOCTL_CLK (soc E)) AND (BCMA_IOCTL_FGC (soc E) OR BCMA_IOCTL_CLK (soc E))) n
        = bit (BCMA_IOCTL_CLK (soc E)) n"
      by (auto simp: bit_and_iff bit_or_iff)
  qed
  let ?c = "op_write32 E ?i (postreset OR BCMA_IOCTL_CLK (soc E)) c2"
  have "run_state (brcmf_chip_resetcore E ch core prereset reset postreset) c = ((), ?c)"
    using c1(1) c2(1)
    by (simp add: brcmf_chip_resetcore_def assms(1) brcmf_chip_ai_resetcore_def Let_def rd_def wr_def reg del: ai_out_of_reset.simps)
  then show "\<exists>c'. run_state (brcmf_chip_resetcore E ch core prereset reset postreset) c = ((), c')
      \<and> io c' = postreset OR BCMA_IOCTL_CLK (soc E) \<and> rst c' AND BCMA_RESET_CTL_RESET (soc E) = 0
      \<and> run_state (brcmf_chip_iscoreup E ch core) c' = (True, c')"
    using bits c2(2) by (simp add: up reg)
qed

text \<open>On an AXI backplane whose wrapper registers hold what is written, resetting a core brings it up whatever
  state it was in: it is out of reset, its control register holds the bits asked for and the clock, and
  \<open>brcmf_chip_iscoreup\<close> says so. Disabling it leaves it in reset with its clocks forced on, and reported as down.\<close>

theorem chip_reset_up:
  assumes "ch_soci ch = SOCI_AI" and "ai_registers E core io rst" and "soc_bits (soc E)"
    and "postreset AND BCMA_IOCTL_FGC (soc E) = 0"
  shows "(\<exists>c'. run_state (brcmf_chip_resetcore E ch core prereset reset postreset) c = ((), c')
      \<and> io c' = postreset OR BCMA_IOCTL_CLK (soc E) \<and> rst c' AND BCMA_RESET_CTL_RESET (soc E) = 0
      \<and> run_state (brcmf_chip_iscoreup E ch core) c' = (True, c'))
    \<and> (\<exists>c'. run_state (brcmf_chip_coredisable E ch core prereset reset) c = ((), c')
      \<and> io c' = (reset OR BCMA_IOCTL_FGC (soc E) OR BCMA_IOCTL_CLK (soc E))
      \<and> run_state (brcmf_chip_iscoreup E ch core) c' = (False, c'))"
  using chip_reset_run [OF assms] by blast

section \<open>An example chip\<close>

text \<open>The kernel's values, and a chip whose registers are memory with a table of three components at 0x1000: the
  chipcommon core, an ARM CM3 core and a component without wrappers.\<close>

definition soc_ex :: soc_regs where
  "soc_ex = \<lparr>BCMA_IOCTL = 0x408, BCMA_IOCTL_CLK = 1, BCMA_IOCTL_FGC = 2, BCMA_RESET_CTL = 0x800, BCMA_RESET_CTL_RESET = 1,
     SSB_TMSLOW_RESET = 1, SSB_TMSLOW_REJECT = 2, SSB_TMSLOW_CLOCK = 0x10000, SSB_TMSLOW_FGC = 0x20000, SSB_TMSHIGH_SERR = 1,
     SSB_TMSHIGH_BUSY = 4, SSB_IMSTATE_REJECT = 0x2000000, SSB_IMSTATE_BUSY = 0x1800000, SSB_IMSTATE_IBE = 0x20000,
     SSB_IMSTATE_TO = 0x40000, SSB_IDLOW_INITIATOR = 0x80, SSB_IDHIGH_RCHI = 0x7000, SSB_IDHIGH_RCHI_SHIFT = 8,
     SSB_IDHIGH_RCLO = 0xf, BCMA_CC_CAP_EXT_AOB_PRESENT = 0x40, BCMA_CORE_CHIPCOMMON = 0x800, BCMA_CORE_ARM_CM3 = 0x82a,
     BCMA_CORE_ARM_CR4 = 0x83e, BCMA_CORE_ARM_CA7 = 0x847, BCMA_CORE_INTERNAL_MEM = 0x80e, BCMA_CORE_SYS_MEM = 0x849,
     BCMA_CORE_80211 = 0x812, BCMA_CORE_SDIO_DEV = 0x829, BCMA_CORE_PMU = 0x827, BCMA_CORE_GCI = 0x840\<rparr>"

definition chip_ex :: "(u32 \<Rightarrow> u32) chip_env" where
  "chip_ex = \<lparr>soc = soc_ex, op_read32 = (\<lambda>a m. (m a, m)), op_write32 = (\<lambda>a v m. m(a := v)), op_prepare = (\<lambda>m. (OK, m)),
     op_reset = None, op_setup = None, op_activate = (\<lambda>_ _ m. m), op_sleep = (\<lambda>_ m. m), op_alloc = (\<lambda>_. True)\<rparr>"

definition erom_ex :: "erom_comp list" where
  "erom_ex = [\<lparr>cp_a = 0x4bf80001, cp_b = 0x2a004211, cp_ports = [0x103], cp_addrs = [(0x18000005, []), (0x181000c5, [])]\<rparr>,
     \<lparr>cp_a = 0x4bf82a01, cp_b = 0x01084411, cp_ports = [], cp_addrs = [(0x1800203d, [0, 0x4008, 0]), (0x18002005, []), (0x18102085, [])]\<rparr>,
     \<lparr>cp_a = 0x4bf13501, cp_b = 0x00000201, cp_ports = [], cp_addrs = [(0x18006005, [])]\<rparr>]"

definition erom_mem :: "u32 \<Rightarrow> u32" where
  "erom_mem a = (if a = 0x180000fc then 0x1000 else (concat (map comp_words erom_ex) @ [0xf]) ! (unat (a - 0x1000) div 4))"

theorem chip_erom_exact_witness:
  "brcmf_chip_dmp_erom_scan chip_ex 0x18000000 [] erom_mem = Some ((OK,
     [\<lparr>core_id = 0x800, core_rev = 0x2a, core_base = 0x18000000, wrapbase = 0x18100000\<rparr>,
      \<lparr>core_id = 0x82a, core_rev = 1, core_base = 0x18002000, wrapbase = 0x18102000\<rparr>]), erom_mem)"
proof -
  have r: "rom chip_ex 0x1000 (concat (map comp_words erom_ex) @ [0xf]) erom_mem"
    by (simp add: chip_ex_def erom_mem_def erom_ex_def comp_words_def addr_words_def)
  have ok: "\<forall>cp \<in> set erom_ex. comp_ok cp"
    by (simp add: erom_ex_def comp_ok_def addr_ok_def dmp_type_def Let_def)
  have "erom_cores (soc chip_ex) erom_ex =
     [\<lparr>core_id = 0x800, core_rev = 0x2a, core_base = 0x18000000, wrapbase = 0x18100000\<rparr>,
      \<lparr>core_id = 0x82a, core_rev = 1, core_base = 0x18002000, wrapbase = 0x18102000\<rparr>]"
    by (simp add: erom_ex_def chip_ex_def soc_ex_def comp_core_def comp_id_def comp_base_def comp_wrap_def first_region_def small_region_def)
  then show ?thesis using chip_erom_exact [OF _ r ok] by (simp add: chip_ex_def erom_mem_def)
qed

theorem chip_reset_up_witness:
  "\<exists>c'. run_state (brcmf_chip_resetcore chip_ex (chip_zero\<lparr>ch_soci := SOCI_AI\<rparr>)
        \<lparr>core_id = 0x812, core_rev = 1, core_base = 0x18001000, wrapbase = 0x18101000\<rparr> 12 4 4) (\<lambda>_. 0) = ((), c')
     \<and> c' 0x18101408 = 5"
proof -
  let ?core = "\<lparr>core_id = 0x812, core_rev = 1, core_base = 0x18001000, wrapbase = 0x18101000 :: u32\<rparr>"
  have reg: "ai_registers chip_ex ?core (\<lambda>m. m 0x18101408) (\<lambda>m. m 0x18101800)"
    by (simp add: ai_registers_def chip_ex_def soc_ex_def Let_def)
  show ?thesis
    using chip_reset_up [OF _ reg, of "chip_zero\<lparr>ch_soci := SOCI_AI\<rparr>" 4 12 4 "\<lambda>_. 0"]
    by (simp add: chip_ex_def soc_ex_def soc_bits_def) blast
qed

end
