(* ===== verification/Bcmsdh.thy ===== *)
theory Bcmsdh
  imports Prelude
begin

text \<open>
  Access to the SDIO card (\<open>bcmsdh.c\<close>, the accessors of \<open>sdio.h\<close>) and the packet buffers it
  fills and sends.

  The functions of the kernel's MMC stack (\<open>sdio_readb\<close>, \<open>sdio_memcpy_toio\<close>,
  \<open>mmc_wait_for_req\<close>, \<dots>) and the allocation of a socket buffer are parameters: a record of
  functions on an arbitrary state \<open>'d\<close> of the surroundings. An error is the negative integer the
  C code passes on. Claiming the host and debug output are not modelled.

  A socket buffer is its memory, the address of that memory, and the offset and length of its data.
  An access outside the memory, and the kernel's panic when a buffer is extended beyond it, are
  \<^const>\<open>None\<close>.
\<close>

section \<open>Packet buffers\<close>

record skbuf =
  sb_addr :: nat
  sb_mem :: "u8 list"
  sb_off :: nat
  sb_len :: nat
  sb_cb :: u16
  sb_id :: nat

definition sb_data :: "skbuf \<Rightarrow> u8 list" where
  "sb_data p = take (sb_len p) (drop (sb_off p) (sb_mem p))"

text \<open>\<open>p->data\<close> as an address, \<open>skb_headroom\<close>, \<open>skb_tailroom\<close>.\<close>

definition sb_ptr :: "skbuf \<Rightarrow> nat" where
  "sb_ptr p = sb_addr p + sb_off p"

definition skb_tailroom :: "skbuf \<Rightarrow> nat" where
  "skb_tailroom p = length (sb_mem p) - (sb_off p + sb_len p)"

definition sb_read :: "skbuf \<Rightarrow> nat \<Rightarrow> nat \<Rightarrow> u8 list option" where
  "sb_read p i n = read_bytes (sb_mem p) (sb_off p + i) n"

definition sb_write :: "skbuf \<Rightarrow> nat \<Rightarrow> u8 list \<Rightarrow> skbuf option" where
  "sb_write p i bs = do { mem \<leftarrow> write_bytes (sb_mem p) (sb_off p + i) bs; Some (p\<lparr>sb_mem := mem\<rparr>) }"

definition skb_pull :: "nat \<Rightarrow> skbuf \<Rightarrow> skbuf" where
  "skb_pull n p = (if sb_len p < n then p else p\<lparr>sb_off := sb_off p + n, sb_len := sb_len p - n\<rparr>)"

definition skb_push :: "nat \<Rightarrow> skbuf \<Rightarrow> skbuf option" where
  "skb_push n p = (if n \<le> sb_off p then Some (p\<lparr>sb_off := sb_off p - n, sb_len := sb_len p + n\<rparr>) else None)"

definition skb_put :: "nat \<Rightarrow> skbuf \<Rightarrow> skbuf option" where
  "skb_put n p = (if n \<le> skb_tailroom p then Some (p\<lparr>sb_len := sb_len p + n\<rparr>) else None)"

definition skb_set_trim :: "nat \<Rightarrow> skbuf \<Rightarrow> skbuf" where
  "skb_set_trim n p = p\<lparr>sb_len := n\<rparr>"

definition skb_trim :: "nat \<Rightarrow> skbuf \<Rightarrow> skbuf" where
  "skb_trim n p = (if n < sb_len p then skb_set_trim n p else p)"

text \<open>The data of a buffer lies in its memory.\<close>

definition sb_ok :: "skbuf \<Rightarrow> bool" where
  "sb_ok p \<longleftrightarrow> sb_off p + sb_len p \<le> length (sb_mem p)"

lemma length_sb_data [simp]: "sb_ok p \<Longrightarrow> length (sb_data p) = sb_len p"
  by (simp add: sb_data_def sb_ok_def)

section \<open>The card and the driver's state\<close>

datatype brcmf_sdiod_state = SDIOD_DOWN | SDIOD_DATA | SDIOD_NOMEDIUM

abbreviation E_NOMEDIUM :: int where "E_NOMEDIUM \<equiv> - 123"
abbreviation E_NOMEM :: int where "E_NOMEM \<equiv> - 12"
abbreviation E_IO :: int where "E_IO \<equiv> - 5"
abbreviation E_INVAL :: int where "E_INVAL \<equiv> - 22"

text \<open>The MMC stack: byte registers of function 0 and 1, words of function 1, blocks of bytes of a
  function, one scattered request (its argument, the block size, the number of blocks, the sizes of the
  segments, the bytes to write) with the errors of the command and of the data and the bytes
  read, and the allocation of a buffer with room for a number of bytes.\<close>

record 'd mmc =
  f0_rb :: "nat \<Rightarrow> 'd \<Rightarrow> (u8 \<times> int) \<times> 'd"
  f0_wb :: "nat \<Rightarrow> u8 \<Rightarrow> 'd \<Rightarrow> int \<times> 'd"
  f1_rb :: "nat \<Rightarrow> 'd \<Rightarrow> (u8 \<times> int) \<times> 'd"
  f1_wb :: "nat \<Rightarrow> u8 \<Rightarrow> 'd \<Rightarrow> int \<times> 'd"
  f1_rl :: "u32 \<Rightarrow> 'd \<Rightarrow> (u32 \<times> int) \<times> 'd"
  f1_wl :: "u32 \<Rightarrow> u32 \<Rightarrow> 'd \<Rightarrow> int \<times> 'd"
  fn_read :: "nat \<Rightarrow> u32 \<Rightarrow> nat \<Rightarrow> 'd \<Rightarrow> (int \<times> u8 list) \<times> 'd"
  fn_write :: "nat \<Rightarrow> u32 \<Rightarrow> u8 list \<Rightarrow> 'd \<Rightarrow> int \<times> 'd"
  mmc_req :: "u32 \<Rightarrow> nat \<Rightarrow> nat \<Rightarrow> nat list \<Rightarrow> u8 list \<Rightarrow> 'd \<Rightarrow> ((int \<times> int) \<times> u8 list) \<times> 'd"
  skb_alloc :: "nat \<Rightarrow> 'd \<Rightarrow> skbuf option \<times> 'd"

record 'd brcmf_sdio_dev =
  sbwad :: u32
  sd_state :: brcmf_sdiod_state
  sd_busup :: bool
  irq_en :: bool
  sg_support :: bool
  broken_sg_support :: bool
  max_request_size :: nat
  max_segment_count :: nat
  max_segment_size :: nat
  txglomsz :: u32
  sgt_nents :: nat
  f2_blksize :: nat
  cc_base :: u32
  sd_dev :: 'd

definition sd_with :: "('d \<Rightarrow> 'a \<times> 'd) \<Rightarrow> 'd brcmf_sdio_dev \<Rightarrow> 'a \<times> 'd brcmf_sdio_dev" where
  "sd_with f s = (let (r, d) = f (sd_dev s) in (r, s\<lparr>sd_dev := d\<rparr>))"

definition brcmf_sdiod_func0_rb :: "'d mmc \<Rightarrow> nat \<Rightarrow> 'd brcmf_sdio_dev \<Rightarrow> (u8 \<times> int) \<times> 'd brcmf_sdio_dev" where
  "brcmf_sdiod_func0_rb m a = sd_with (f0_rb m a)"

definition brcmf_sdiod_func0_wb :: "'d mmc \<Rightarrow> nat \<Rightarrow> u8 \<Rightarrow> 'd brcmf_sdio_dev \<Rightarrow> int \<times> 'd brcmf_sdio_dev" where
  "brcmf_sdiod_func0_wb m a v = sd_with (f0_wb m a v)"

definition brcmf_sdiod_readb :: "'d mmc \<Rightarrow> nat \<Rightarrow> 'd brcmf_sdio_dev \<Rightarrow> (u8 \<times> int) \<times> 'd brcmf_sdio_dev" where
  "brcmf_sdiod_readb m a = sd_with (f1_rb m a)"

definition brcmf_sdiod_writeb :: "'d mmc \<Rightarrow> nat \<Rightarrow> u8 \<Rightarrow> 'd brcmf_sdio_dev \<Rightarrow> int \<times> 'd brcmf_sdio_dev" where
  "brcmf_sdiod_writeb m a v = sd_with (f1_wb m a v)"

definition brcmu_pkt_buf_get_skb ::
  "'d mmc \<Rightarrow> nat \<Rightarrow> 'd brcmf_sdio_dev \<Rightarrow> (skbuf option \<times> 'd brcmf_sdio_dev) option" where
  "brcmu_pkt_buf_get_skb m len s = (case sd_with (skb_alloc m len) s of
       (None, s) \<Rightarrow> Some (None, s)
     | (Some p, s) \<Rightarrow> do { p \<leftarrow> skb_put len p; Some (Some p, s) })"

section \<open>States and windows\<close>

definition brcmf_sdiod_change_state :: "brcmf_sdiod_state \<Rightarrow> 'd brcmf_sdio_dev \<Rightarrow> 'd brcmf_sdio_dev" where
  "brcmf_sdiod_change_state st s =
     (if sd_state s = SDIOD_NOMEDIUM \<or> st = sd_state s then s
      else (let s = (case sd_state s of
                SDIOD_DATA \<Rightarrow> s\<lparr>sd_busup := False\<rparr>
              | SDIOD_DOWN \<Rightarrow> if st = SDIOD_DATA then s\<lparr>sd_busup := True\<rparr> else s
              | SDIOD_NOMEDIUM \<Rightarrow> s)
            in s\<lparr>sd_state := st\<rparr>))"

abbreviation SBADDRLOW :: nat where "SBADDRLOW \<equiv> 0x1000A"
abbreviation SBWINDOW_MASK :: u32 where "SBWINDOW_MASK \<equiv> 0xffff8000"
abbreviation SB_OFT_ADDR_MASK :: u32 where "SB_OFT_ADDR_MASK \<equiv> 0x07FFF"
abbreviation SB_OFT_ADDR_LIMIT :: nat where "SB_OFT_ADDR_LIMIT \<equiv> 0x08000"
abbreviation SB_ACCESS_2_4B_FLAG :: u32 where "SB_ACCESS_2_4B_FLAG \<equiv> 0x08000"

text \<open>The writes of the window bytes: \<open>n\<close> left, register, value.\<close>

fun window_bytes :: "'d mmc \<Rightarrow> nat \<Rightarrow> nat \<Rightarrow> u32 \<Rightarrow> 'd brcmf_sdio_dev \<Rightarrow> int \<times> 'd brcmf_sdio_dev" where
  "window_bytes m 0 reg v s = (0, s)"
| "window_bytes m (Suc n) reg v s = (let (err, s) = brcmf_sdiod_writeb m reg (ucast (v AND 0xff)) s
     in if err = 0 then window_bytes m n (reg + 1) (drop_bit 8 v) s else (err, s))"

definition brcmf_sdiod_set_backplane_window ::
  "'d mmc \<Rightarrow> u32 \<Rightarrow> 'd brcmf_sdio_dev \<Rightarrow> int \<times> 'd brcmf_sdio_dev" where
  "brcmf_sdiod_set_backplane_window m addr s = (let bar0 = addr AND SBWINDOW_MASK in
     if bar0 = sbwad s then (0, s)
     else (let (err, s) = window_bytes m 3 SBADDRLOW (drop_bit 8 bar0) s
           in (err, if err = 0 then s\<lparr>sbwad := bar0\<rparr> else s)))"

definition sb_window_addr :: "u32 \<Rightarrow> u32" where
  "sb_window_addr addr = (addr AND SB_OFT_ADDR_MASK) OR SB_ACCESS_2_4B_FLAG"

definition brcmf_sdiod_readl :: "'d mmc \<Rightarrow> u32 \<Rightarrow> 'd brcmf_sdio_dev \<Rightarrow> (u32 \<times> int) \<times> 'd brcmf_sdio_dev" where
  "brcmf_sdiod_readl m addr s = (let (err, s) = brcmf_sdiod_set_backplane_window m addr s
     in if err \<noteq> 0 then ((0, err), s) else sd_with (f1_rl m (sb_window_addr addr)) s)"

definition brcmf_sdiod_writel :: "'d mmc \<Rightarrow> u32 \<Rightarrow> u32 \<Rightarrow> 'd brcmf_sdio_dev \<Rightarrow> int \<times> 'd brcmf_sdio_dev" where
  "brcmf_sdiod_writel m addr data s = (let (err, s) = brcmf_sdiod_set_backplane_window m addr s
     in if err \<noteq> 0 then (err, s) else sd_with (f1_wl m (sb_window_addr addr) data) s)"

definition brcmf_sdiod_abort :: "'d mmc \<Rightarrow> nat \<Rightarrow> 'd brcmf_sdio_dev \<Rightarrow> 'd brcmf_sdio_dev" where
  "brcmf_sdiod_abort m num s = snd (brcmf_sdiod_func0_wb m 6 (of_nat num) s)"

section \<open>Single buffers\<close>

definition req_round :: "nat \<Rightarrow> nat" where
  "req_round n = (n + 3) div 4 * 4"

definition medium_gone :: "int \<Rightarrow> 'd brcmf_sdio_dev \<Rightarrow> 'd brcmf_sdio_dev" where
  "medium_gone err s = (if err = E_NOMEDIUM then brcmf_sdiod_change_state SDIOD_NOMEDIUM s else s)"

definition brcmf_sdiod_skbuff_read ::
  "'d mmc \<Rightarrow> nat \<Rightarrow> u32 \<Rightarrow> skbuf \<Rightarrow> 'd brcmf_sdio_dev \<Rightarrow> (int \<times> skbuf \<times> 'd brcmf_sdio_dev) option" where
  "brcmf_sdiod_skbuff_read m num addr p s = (
     if num = 1 \<or> num = 2 then do {
       let ((err, bs), s) = sd_with (fn_read m num addr (req_round (sb_len p))) s;
       p \<leftarrow> sb_write p 0 bs;
       Some (err, p, medium_gone err s) }
     else Some (E_NOMEDIUM, p, medium_gone E_NOMEDIUM s))"

definition brcmf_sdiod_skbuff_write ::
  "'d mmc \<Rightarrow> nat \<Rightarrow> u32 \<Rightarrow> skbuf \<Rightarrow> 'd brcmf_sdio_dev \<Rightarrow> (int \<times> 'd brcmf_sdio_dev) option" where
  "brcmf_sdiod_skbuff_write m num addr p s = do {
     bs \<leftarrow> sb_read p 0 (req_round (sb_len p));
     let (err, s) = sd_with (fn_write m num addr bs) s;
     Some (err, medium_gone err s) }"

definition brcmf_sdiod_recv_pkt ::
  "'d mmc \<Rightarrow> skbuf \<Rightarrow> 'd brcmf_sdio_dev \<Rightarrow> (int \<times> skbuf \<times> 'd brcmf_sdio_dev) option" where
  "brcmf_sdiod_recv_pkt m p s = (let addr = cc_base s;
       (err, s) = brcmf_sdiod_set_backplane_window m addr s
     in if err \<noteq> 0 then Some (err, p, s)
        else brcmf_sdiod_skbuff_read m 2 (sb_window_addr addr) p s)"

text \<open>The bytes \<open>recv_buf\<close> copies into the caller's buffer, nothing on an error.\<close>

definition brcmf_sdiod_recv_buf ::
  "'d mmc \<Rightarrow> nat \<Rightarrow> 'd brcmf_sdio_dev \<Rightarrow> (int \<times> u8 list \<times> 'd brcmf_sdio_dev) option" where
  "brcmf_sdiod_recv_buf m nbytes s = do {
     (pkt, s) \<leftarrow> brcmu_pkt_buf_get_skb m nbytes s;
     case pkt of None \<Rightarrow> Some (E_IO, [], s)
     | Some p \<Rightarrow> do {
         (err, p, s) \<leftarrow> brcmf_sdiod_recv_pkt m p s;
         if err = 0 then do { bs \<leftarrow> sb_read p 0 nbytes; Some (0, bs, s) } else Some (err, [], s) } }"

definition brcmf_sdiod_send_buf ::
  "'d mmc \<Rightarrow> u8 list \<Rightarrow> 'd brcmf_sdio_dev \<Rightarrow> (int \<times> 'd brcmf_sdio_dev) option" where
  "brcmf_sdiod_send_buf m buf s = do {
     let addr = cc_base s;
     (pkt, s) \<leftarrow> brcmu_pkt_buf_get_skb m (length buf) s;
     case pkt of None \<Rightarrow> Some (E_IO, s)
     | Some p \<Rightarrow> do {
         p \<leftarrow> sb_write p 0 buf;
         let (err, s) = brcmf_sdiod_set_backplane_window m addr s;
         if err \<noteq> 0 then Some (err, s)
         else brcmf_sdiod_skbuff_write m 2 (sb_window_addr addr) p s } }"

section \<open>Scattered requests\<close>

text \<open>A segment is a packet of the list, an offset in its data and a size. A read fills the segments
  in order, a write takes its bytes from them in order.\<close>

type_synonym segment = "nat \<times> nat \<times> nat"

definition seg_size :: "segment \<Rightarrow> nat" where
  "seg_size g = snd (snd g)"

fun seg_gather :: "skbuf list \<Rightarrow> segment list \<Rightarrow> u8 list option" where
  "seg_gather pkts [] = Some []"
| "seg_gather pkts ((i, off, n) # gs) = do {
     p \<leftarrow> nth_opt pkts i; bs \<leftarrow> sb_read p off n; r \<leftarrow> seg_gather pkts gs; Some (bs @ r) }"

fun seg_scatter :: "skbuf list \<Rightarrow> segment list \<Rightarrow> u8 list \<Rightarrow> skbuf list option" where
  "seg_scatter pkts [] bs = Some pkts"
| "seg_scatter pkts ((i, off, n) # gs) bs = do {
     p \<leftarrow> nth_opt pkts i; p \<leftarrow> sb_write p off (take n bs);
     seg_scatter (pkts[i := p]) gs (drop n bs) }"

record 'd sg_walk =
  sg_pkts :: "skbuf list"
  sg_segs :: "segment list"
  sg_req :: nat
  sg_left :: nat
  sg_addr :: u32
  sg_arg :: u32
  sg_sd :: "'d brcmf_sdio_dev"

text \<open>The argument of the command is only ever extended: it starts with the direction, the function, block
  mode and the incrementing address, and every request puts its address and number of blocks on top.\<close>

definition mmc_submit_one :: "'d mmc \<Rightarrow> bool \<Rightarrow> nat \<Rightarrow> 'd sg_walk \<Rightarrow> (int \<times> 'd sg_walk) option" where
  "mmc_submit_one m write num w = (
     if f2_blksize (sg_sd w) = 0 then None else do {
       let blocks = sg_req w div f2_blksize (sg_sd w);
       let arg = sg_arg w OR push_bit 9 (sg_addr w AND 0x1FFFF) OR (of_nat blocks AND 0x1FF);
       let addr = (if num = 1 then sg_addr w + of_nat (sg_req w) else sg_addr w);
       out \<leftarrow> (if write then seg_gather (sg_pkts w) (sg_segs w) else Some []);
       let (((cerr, derr), bs), s) =
         sd_with (mmc_req m arg (f2_blksize (sg_sd w)) blocks (map seg_size (sg_segs w)) out) (sg_sd w);
       pkts \<leftarrow> (if write then Some (sg_pkts w) else seg_scatter (sg_pkts w) (sg_segs w) bs);
       let ret = (if cerr \<noteq> 0 then cerr else derr);
       let ret' = (if ret = E_NOMEDIUM then ret else if ret \<noteq> 0 then E_IO else 0);
       Some (ret', w\<lparr>sg_pkts := pkts, sg_arg := arg, sg_addr := addr, sg_sd := medium_gone ret s\<rparr>) })"

text \<open>The segments of one packet from an offset, \<open>rest\<close> bytes left. A size of zero would repeat for
  ever.\<close>

definition sg_seg_size :: "'d sg_walk \<Rightarrow> nat \<Rightarrow> nat" where
  "sg_seg_size w rest = min (min rest (max_segment_size (sg_sd w))) (max_request_size (sg_sd w) - sg_req w)"

function sg_packet :: "'d mmc \<Rightarrow> bool \<Rightarrow> nat \<Rightarrow> nat \<Rightarrow> nat \<Rightarrow> nat \<Rightarrow> nat \<Rightarrow> 'd sg_walk
    \<Rightarrow> (int \<times> 'd sg_walk) option" where
  "sg_packet m write num max_seg_cnt i off rest w = (
     if rest = 0 then Some (0, w)
     else if sg_left w = 0 then Some (E_NOMEM, w)
     else let n = sg_seg_size w rest in
     if n = 0 then None
     else do {
       let w = w\<lparr>sg_segs := sg_segs w @ [(i, off, n)], sg_left := sg_left w - 1, sg_req := sg_req w + n\<rparr>;
       if max_request_size (sg_sd w) \<le> sg_req w \<or> max_seg_cnt \<le> length (sg_segs w) then do {
         (ret, w) \<leftarrow> mmc_submit_one m write num w;
         if ret \<noteq> 0 then Some (ret, w)
         else sg_packet m write num max_seg_cnt i (off + n) (rest - n)
                (w\<lparr>sg_req := 0, sg_segs := [], sg_left := sgt_nents (sg_sd w)\<rparr>) }
       else sg_packet m write num max_seg_cnt i (off + n) (rest - n) w })"
  by pat_completeness auto
termination
  by (relation "measure (\<lambda>(m, write, num, k, i, off, rest, w). rest)") (auto simp: sg_seg_size_def)

declare sg_packet.simps [simp del]

fun sg_packets :: "'d mmc \<Rightarrow> bool \<Rightarrow> nat \<Rightarrow> nat \<Rightarrow> nat list \<Rightarrow> 'd sg_walk \<Rightarrow> (int \<times> 'd sg_walk) option" where
  "sg_packets m write num max_seg_cnt [] w = Some (0, w)"
| "sg_packets m write num max_seg_cnt (i # js) w = do {
     p \<leftarrow> nth_opt (sg_pkts w) i;
     (ret, w) \<leftarrow> sg_packet m write num max_seg_cnt i 0 (sb_len p) w;
     if ret \<noteq> 0 then Some (ret, w) else sg_packets m write num max_seg_cnt js w }"

text \<open>The page-sized list for hosts with broken scatter-gather support; on a failure what was
  allocated is freed.\<close>

function page_list :: "'d mmc \<Rightarrow> nat \<Rightarrow> 'd brcmf_sdio_dev \<Rightarrow> (skbuf list option \<times> 'd brcmf_sdio_dev) option" where
  "page_list m req_sz s = do {
     (p, s) \<leftarrow> brcmu_pkt_buf_get_skb m (min req_sz 4096) s;
     case p of None \<Rightarrow> Some (None, s)
     | Some p \<Rightarrow>
         if req_sz \<le> 4096 then Some (Some [p], s)
         else do { (ps, s) \<leftarrow> page_list m (req_sz - 4096) s; Some (map_option ((#) p) ps, s) } }"
  by pat_completeness auto
termination
  by (relation "measure (\<lambda>(m, n, s). n)") auto

declare page_list.simps [simp del]

text \<open>Copying the list back: \<open>n\<close> bytes of the first packet are missing, \<open>dst\<close> are there.\<close>

definition next_src :: "skbuf \<Rightarrow> nat \<Rightarrow> skbuf list \<Rightarrow> skbuf list \<times> nat" where
  "next_src src src_off srcs = (if src_off = sb_len src then (srcs, 0) else (src # srcs, src_off))"

function copy_back :: "skbuf list \<Rightarrow> nat \<Rightarrow> skbuf list \<Rightarrow> nat \<Rightarrow> skbuf list option" where
  "copy_back [] dst srcs src_off = Some []"
| "copy_back (p # ps) dst [] src_off = None"
| "copy_back (p # ps) dst (src # srcs) src_off = do {
     bs \<leftarrow> sb_read src src_off (min (sb_len p - dst) (sb_len src - src_off));
     p \<leftarrow> sb_write p dst bs;
     if sb_len p - dst \<le> sb_len src - src_off then do {
       r \<leftarrow> copy_back ps 0 (fst (next_src src (src_off + (sb_len p - dst)) srcs))
         (snd (next_src src (src_off + (sb_len p - dst)) srcs));
       Some (p # r) }
     else copy_back (p # ps) (dst + (sb_len src - src_off)) srcs 0 }"
  by pat_completeness auto
termination
  by (relation "measure (\<lambda>(ps, dst, srcs, so). 2 * length ps + length srcs)") (auto simp: next_src_def)

definition sg_init :: "bool \<Rightarrow> nat \<Rightarrow> u32 \<Rightarrow> skbuf list \<Rightarrow> 'd brcmf_sdio_dev \<Rightarrow> 'd sg_walk" where
  "sg_init write num addr pkts s =
     \<lparr>sg_pkts = pkts, sg_segs = [], sg_req = 0, sg_left = sgt_nents s, sg_addr = addr,
      sg_arg = (if write then push_bit 31 1 else 0) OR push_bit 28 (of_nat num AND 7) OR push_bit 27 1
        OR (if num = 1 then push_bit 26 1 else 0),
      sg_sd = s\<rparr>"

definition sglist_run ::
  "'d mmc \<Rightarrow> bool \<Rightarrow> nat \<Rightarrow> u32 \<Rightarrow> skbuf list \<Rightarrow> 'd brcmf_sdio_dev \<Rightarrow> (int \<times> 'd sg_walk) option" where
  "sglist_run m write num addr target s = do {
     let k = min (max_segment_count s) (length target);
     (ret, w) \<leftarrow> sg_packets m write num k [0..<length target] (sg_init write num addr target s);
     if ret = 0 \<and> sg_segs w \<noteq> [] then mmc_submit_one m write num w else Some (ret, w) }"

text \<open>An error other than the missing scatterlist entries (that of a request) still copies the list
  back.\<close>

definition brcmf_sdiod_sglist_rw ::
  "'d mmc \<Rightarrow> nat \<Rightarrow> bool \<Rightarrow> u32 \<Rightarrow> skbuf list \<Rightarrow> 'd brcmf_sdio_dev
    \<Rightarrow> (int \<times> skbuf list \<times> 'd brcmf_sdio_dev) option" where
  "brcmf_sdiod_sglist_rw m num write addr pktlist s = (
     if pktlist = [] then Some (E_INVAL, pktlist, s)
     else if \<not> write \<and> broken_sg_support s then do {
       let req_sz = sum_list (map sb_len pktlist);
       let req_sz = (req_sz + f2_blksize s - 1) div f2_blksize s * f2_blksize s;
       (target, s) \<leftarrow> page_list m req_sz s;
       case target of None \<Rightarrow> Some (E_NOMEM, pktlist, s)
       | Some target \<Rightarrow> do {
           (ret, w) \<leftarrow> sglist_run m write num addr target s;
           if ret = E_NOMEM then Some (ret, pktlist, sg_sd w)
           else do {
             pkts \<leftarrow> copy_back pktlist 0 (sg_pkts w) 0;
             Some (ret, pkts, sg_sd w) } } }
     else do {
       (ret, w) \<leftarrow> sglist_run m write num addr pktlist s;
       Some (ret, sg_pkts w, sg_sd w) })"

section \<open>Chains\<close>

text \<open>Without scatter-gather a chain is read into one buffer and copied out.\<close>

fun split_glom :: "skbuf list \<Rightarrow> skbuf \<Rightarrow> skbuf list option" where
  "split_glom [] g = Some []"
| "split_glom (p # ps) g = do {
     bs \<leftarrow> sb_read g 0 (sb_len p);
     p' \<leftarrow> sb_write p 0 bs;
     r \<leftarrow> split_glom ps (skb_pull (sb_len p) g);
     Some (p' # r) }"

definition brcmf_sdiod_recv_chain ::
  "'d mmc \<Rightarrow> skbuf list \<Rightarrow> nat \<Rightarrow> 'd brcmf_sdio_dev \<Rightarrow> (int \<times> skbuf list \<times> 'd brcmf_sdio_dev) option" where
  "brcmf_sdiod_recv_chain m pktq totlen s = do {
     let base = cc_base s;
     let (err, s) = brcmf_sdiod_set_backplane_window m base s;
     let addr = sb_window_addr base;
     if err \<noteq> 0 then Some (err, pktq, s)
     else case pktq of
       [p] \<Rightarrow> do { (err, p, s) \<leftarrow> brcmf_sdiod_skbuff_read m 2 addr p s; Some (err, [p], s) }
     | _ \<Rightarrow>
       if \<not> sg_support s then do {
         (g, s) \<leftarrow> brcmu_pkt_buf_get_skb m totlen s;
         case g of None \<Rightarrow> Some (E_NOMEM, pktq, s)
         | Some g \<Rightarrow> do {
             (err, g, s) \<leftarrow> brcmf_sdiod_skbuff_read m 2 addr g s;
             if err \<noteq> 0 then Some (err, pktq, s)
             else do { ps \<leftarrow> split_glom pktq g; Some (0, ps, s) } } }
       else brcmf_sdiod_sglist_rw m 2 False addr pktq s }"

fun send_each :: "'d mmc \<Rightarrow> u32 \<Rightarrow> skbuf list \<Rightarrow> 'd brcmf_sdio_dev \<Rightarrow> (int \<times> 'd brcmf_sdio_dev) option" where
  "send_each m addr [] s = Some (0, s)"
| "send_each m addr (p # ps) s = do {
     (err, s) \<leftarrow> brcmf_sdiod_skbuff_write m 2 addr p s;
     if err \<noteq> 0 then Some (err, s) else send_each m addr ps s }"

definition brcmf_sdiod_send_pkt ::
  "'d mmc \<Rightarrow> skbuf list \<Rightarrow> 'd brcmf_sdio_dev \<Rightarrow> (int \<times> 'd brcmf_sdio_dev) option" where
  "brcmf_sdiod_send_pkt m pktq s = do {
     let base = cc_base s;
     let (err, s) = brcmf_sdiod_set_backplane_window m base s;
     let addr = sb_window_addr base;
     if err \<noteq> 0 then Some (err, s)
     else if length pktq = 1 \<or> \<not> sg_support s then send_each m addr pktq s
     else do { (err, ps, s) \<leftarrow> brcmf_sdiod_sglist_rw m 2 True addr pktq s; Some (err, s) } }"

section \<open>Device memory\<close>

text \<open>One round per window: the buffer, the bytes already moved, the next address, offset and size. The
  data of the caller is the list \<open>buf\<close>.\<close>

function ramrw_loop :: "'d mmc \<Rightarrow> bool \<Rightarrow> skbuf \<Rightarrow> u32 \<Rightarrow> u32 \<Rightarrow> nat \<Rightarrow> nat \<Rightarrow> nat \<Rightarrow> u8 list \<Rightarrow> 'd brcmf_sdio_dev
    \<Rightarrow> (int \<times> u8 list \<times> 'd brcmf_sdio_dev) option" where
  "ramrw_loop m write pkt address sdaddr dsize pos left buf s = (
     if left = 0 then Some (0, buf, s)
     else if dsize = 0 then None
     else do {
       let (err, s) = brcmf_sdiod_set_backplane_window m address s;
       if err \<noteq> 0 then Some (err, buf, s)
       else do {
         pkt \<leftarrow> skb_put dsize pkt;
         (err, pkt, s) \<leftarrow> (if write then do {
              bs \<leftarrow> read_bytes buf pos dsize;
              pkt \<leftarrow> sb_write pkt 0 bs;
              (err, s) \<leftarrow> brcmf_sdiod_skbuff_write m 1 (sb_window_addr sdaddr) pkt s;
              Some (err, pkt, s) }
            else brcmf_sdiod_skbuff_read m 1 (sb_window_addr sdaddr) pkt s);
         if err \<noteq> 0 then Some (err, buf, s)
         else do {
           buf \<leftarrow> (if write then Some buf
                    else do { bs \<leftarrow> sb_read pkt 0 dsize; write_bytes buf pos bs });
           ramrw_loop m write (skb_trim 0 pkt) (address + of_nat dsize) 0 (min SB_OFT_ADDR_LIMIT (left - dsize))
             (pos + dsize) (left - dsize) buf s } } })"
  by pat_completeness auto
termination
  by (relation "measure (\<lambda>(m, wr, p, a, sa, d, pos, left, buf, s). left)") auto

declare ramrw_loop.simps [simp del]

definition ramrw_first :: "u32 \<Rightarrow> nat \<Rightarrow> nat" where
  "ramrw_first address sz = (let sdaddr = address AND SB_OFT_ADDR_MASK in
     if (sdaddr + of_nat sz) AND SBWINDOW_MASK \<noteq> 0 then SB_OFT_ADDR_LIMIT - unat sdaddr else sz)"

text \<open>\<open>sz\<close> is below \<open>2\<^sup>32\<close>.\<close>

definition brcmf_sdiod_ramrw :: "'d mmc \<Rightarrow> bool \<Rightarrow> u32 \<Rightarrow> u8 list \<Rightarrow> nat \<Rightarrow> 'd brcmf_sdio_dev
    \<Rightarrow> (int \<times> u8 list \<times> 'd brcmf_sdio_dev) option" where
  "brcmf_sdiod_ramrw m write address data sz s = do {
     let (pkt, s) = sd_with (skb_alloc m (min SB_OFT_ADDR_LIMIT sz)) s;
     case pkt of None \<Rightarrow> Some (E_IO, data, s)
     | Some pkt \<Rightarrow> ramrw_loop m write pkt address (address AND SB_OFT_ADDR_MASK) (ramrw_first address sz) 0 sz data s }"

section \<open>Scatterlist setup\<close>

text \<open>The limits of the host controller, and whether the scatterlist of so many entries could be had.\<close>

record mmc_host =
  mh_max_segs :: nat
  mh_max_blk_count :: nat
  mh_max_req_size :: nat
  mh_max_seg_size :: nat

definition brcmf_sdiod_sgtable_alloc ::
  "mmc_host \<Rightarrow> u32 \<Rightarrow> (nat \<Rightarrow> bool) \<Rightarrow> 'd brcmf_sdio_dev \<Rightarrow> 'd brcmf_sdio_dev" where
  "brcmf_sdiod_sgtable_alloc h settings_txglomsz alloc s =
     (let s = s\<lparr>sg_support := 1 < mh_max_segs h,
                max_request_size := min (mh_max_req_size h) (min (mh_max_blk_count h) 511 * f2_blksize s),
                max_segment_count := min (mh_max_segs h) 128,
                max_segment_size := mh_max_seg_size h\<rparr>
      in if \<not> sg_support s then s
         else let nents = max 32 (unat settings_txglomsz) * 2;
                  s = (if alloc nents then s\<lparr>sgt_nents := nents\<rparr> else s\<lparr>sg_support := False\<rparr>)
              in s\<lparr>txglomsz := settings_txglomsz\<rparr>)"

section \<open>Reading and writing device memory\<close>

text \<open>A card whose function 1 shows a window of the chip's address space: the three window registers,
  the memory, and an allocator that hands out buffers with four spare bytes.\<close>

definition reg_window :: "('d \<Rightarrow> nat \<Rightarrow> u8) \<Rightarrow> 'd \<Rightarrow> u32" where
  "reg_window reg d = of_le32 0 (reg d 0) (reg d 1) (reg d 2)"

definition window_pos :: "('d \<Rightarrow> nat \<Rightarrow> u8) \<Rightarrow> 'd \<Rightarrow> u32 \<Rightarrow> u32" where
  "window_pos reg d a = reg_window reg d + (a AND SB_OFT_ADDR_MASK)"

definition mem_write :: "(u32 \<Rightarrow> u8) \<Rightarrow> u32 \<Rightarrow> u8 list \<Rightarrow> u32 \<Rightarrow> u8" where
  "mem_write M p bs x = (if unat (x - p) < length bs then bs ! unat (x - p) else M x)"

definition mem_read :: "(u32 \<Rightarrow> u8) \<Rightarrow> u32 \<Rightarrow> nat \<Rightarrow> u8 list" where
  "mem_read M p n = map (\<lambda>i. M (p + of_nat i)) [0..<n]"

definition backplane :: "'d mmc \<Rightarrow> ('d \<Rightarrow> u32 \<Rightarrow> u8) \<Rightarrow> ('d \<Rightarrow> nat \<Rightarrow> u8) \<Rightarrow> bool" where
  "backplane m mem reg \<longleftrightarrow>
     (\<forall>d i v. i < 3 \<longrightarrow> (case f1_wb m (SBADDRLOW + i) v d of (err, d') \<Rightarrow>
        err = 0 \<and> mem d' = mem d \<and> (\<forall>j<3. reg d' j = (if j = i then v else reg d j)))) \<and>
     (\<forall>d a bs. unat (a AND SB_OFT_ADDR_MASK) + length bs \<le> SB_OFT_ADDR_LIMIT \<longrightarrow>
        (case fn_write m 1 a bs d of (err, d') \<Rightarrow>
        err = 0 \<and> mem d' = mem_write (mem d) (window_pos reg d a) bs \<and> (\<forall>j<3. reg d' j = reg d j))) \<and>
     (\<forall>d a n. unat (a AND SB_OFT_ADDR_MASK) + n \<le> SB_OFT_ADDR_LIMIT \<longrightarrow>
        (case fn_read m 1 a n d of ((err, bs), d') \<Rightarrow>
        err = 0 \<and> bs = mem_read (mem d) (window_pos reg d a) n \<and> mem d' = mem d \<and> (\<forall>j<3. reg d' j = reg d j))) \<and>
     (\<forall>d n. case skb_alloc m n d of (p, d') \<Rightarrow> mem d' = mem d \<and> (\<forall>j<3. reg d' j = reg d j) \<and>
        (\<exists>q. p = Some q \<and> sb_len q = 0 \<and> n + 4 \<le> skb_tailroom q))"

definition synced :: "('d \<Rightarrow> nat \<Rightarrow> u8) \<Rightarrow> 'd brcmf_sdio_dev \<Rightarrow> bool" where
  "synced reg s \<longleftrightarrow> sbwad s = reg_window reg (sd_dev s)"

lemma reg_window_cong: "(\<And>j. j < 3 \<Longrightarrow> reg d' j = reg d j) \<Longrightarrow> reg_window reg d' = reg_window reg d"
  by (simp add: reg_window_def)

lemma backplane_reg:
  assumes "backplane m mem reg" and "i < 3"
  obtains d' where "f1_wb m (SBADDRLOW + i) v d = (0, d')" "mem d' = mem d"
    "\<And>j. j < 3 \<Longrightarrow> reg d' j = (if j = i then v else reg d j)"
proof -
  have "case f1_wb m (SBADDRLOW + i) v d of (err, d') \<Rightarrow>
      err = 0 \<and> mem d' = mem d \<and> (\<forall>j<3. reg d' j = (if j = i then v else reg d j))"
    using assms(2) assms(1) [unfolded backplane_def, THEN conjunct1] by simp
  then show ?thesis by (intro that [of "snd (f1_wb m (SBADDRLOW + i) v d)"]) (auto split: prod.splits)
qed

lemma window_of_bytes:
  fixes a :: u32
  shows "of_le32 0 (ucast (drop_bit 8 (a AND SBWINDOW_MASK) AND 0xff))
      (ucast (drop_bit 8 (drop_bit 8 (a AND SBWINDOW_MASK)) AND 0xff))
      (ucast (drop_bit 8 (drop_bit 8 (drop_bit 8 (a AND SBWINDOW_MASK))) AND 0xff)) = a AND SBWINDOW_MASK"
proof -
  let ?w = "a AND SBWINDOW_MASK"
  have ff: "(ucast (x AND 0xff) :: u8) = ucast x" for x :: u32
  proof -
    have m: "(0xff :: u32) = mask 8" by (simp add: mask_eq_exp_minus_1)
    show ?thesis unfolding m by (rule bit_word_eqI) (auto simp: bit_simps)
  qed
  have "(ucast ?w :: u8) = 0"
  proof -
    have m: "(0xffff8000 :: u32) = push_bit 15 (mask 17)" by (simp add: mask_eq_exp_minus_1 push_bit_eq_mult)
    show ?thesis unfolding m by (rule bit_word_eqI) (auto simp: bit_simps)
  qed
  then show ?thesis using of_le32_split [of ?w] by (simp add: ff drop_bit_drop_bit)
qed

lemma set_window_ok:
  assumes bp: "backplane m mem reg" and sy: "synced reg s"
  obtains s' where "brcmf_sdiod_set_backplane_window m addr s = (0, s')"
    "sbwad s' = addr AND SBWINDOW_MASK" "synced reg s'" "mem (sd_dev s') = mem (sd_dev s)"
proof (cases "addr AND SBWINDOW_MASK = sbwad s")
  case True
  then show ?thesis using sy by (intro that [of s]) (simp_all add: brcmf_sdiod_set_backplane_window_def)
next
  case False
  let ?v = "drop_bit 8 (addr AND SBWINDOW_MASK)"
  obtain d1 where 1: "f1_wb m (SBADDRLOW + 0) (ucast (?v AND 0xff)) (sd_dev s) = (0, d1)"
    "mem d1 = mem (sd_dev s)" "\<And>j. j < 3 \<Longrightarrow> reg d1 j = (if j = 0 then ucast (?v AND 0xff) else reg (sd_dev s) j)"
    by (rule backplane_reg [OF bp, of 0 "ucast (?v AND 0xff)" "sd_dev s"]) auto
  obtain d2 where 2: "f1_wb m (SBADDRLOW + 1) (ucast (drop_bit 8 ?v AND 0xff)) d1 = (0, d2)"
    "mem d2 = mem d1" "\<And>j. j < 3 \<Longrightarrow> reg d2 j = (if j = 1 then ucast (drop_bit 8 ?v AND 0xff) else reg d1 j)"
    by (rule backplane_reg [OF bp, of 1 "ucast (drop_bit 8 ?v AND 0xff)" d1]) auto
  obtain d3 where 3: "f1_wb m (SBADDRLOW + 2) (ucast (drop_bit 8 (drop_bit 8 ?v) AND 0xff)) d2 = (0, d3)"
    "mem d3 = mem d2" "\<And>j. j < 3 \<Longrightarrow> reg d3 j = (if j = 2 then ucast (drop_bit 8 (drop_bit 8 ?v) AND 0xff) else reg d2 j)"
    by (rule backplane_reg [OF bp, of 2 "ucast (drop_bit 8 (drop_bit 8 ?v) AND 0xff)" d2]) auto
  have w: "window_bytes m 3 SBADDRLOW ?v s = (0, s\<lparr>sd_dev := d3\<rparr>)"
    using 1(1) 2(1) 3(1) by (simp add: numeral_3_eq_3 brcmf_sdiod_writeb_def sd_with_def)
  have "reg_window reg d3 = addr AND SBWINDOW_MASK"
    by (rule trans [OF _ window_of_bytes]) (simp only: reg_window_def, simp add: 1(3) 2(3) 3(3))
  then show ?thesis
    using False w 1(2) 2(2) 3(2)
    by (intro that [of "s\<lparr>sd_dev := d3, sbwad := addr AND SBWINDOW_MASK\<rparr>"])
       (simp_all add: brcmf_sdiod_set_backplane_window_def synced_def)
qed

lemma window_split:
  fixes a :: u32
  shows "(a AND SBWINDOW_MASK) + (sb_window_addr (a AND SB_OFT_ADDR_MASK) AND SB_OFT_ADDR_MASK) = a"
proof -
  have m: "(0x7fff :: u32) = mask 15" "(0xffff8000 :: u32) = NOT (mask 15)" "(0x8000 :: u32) = mask 16 AND NOT (mask 15)"
    by (simp_all add: mask_eq_exp_minus_1)
  have "sb_window_addr (a AND SB_OFT_ADDR_MASK) AND SB_OFT_ADDR_MASK = a AND mask 15"
    unfolding sb_window_addr_def m by (rule bit_word_eqI) (auto simp: bit_simps)
  moreover have "(a AND NOT (mask 15)) + (a AND mask 15) = a"
    by (subst disjunctive_add) (auto simp: bit_simps intro!: bit_word_eqI)
  ultimately show ?thesis by (simp add: m)
qed
lemma backplane_write:
  assumes "backplane m mem reg" and "unat (a AND SB_OFT_ADDR_MASK) + length bs \<le> SB_OFT_ADDR_LIMIT"
  obtains d' where "fn_write m 1 a bs d = (0, d')" "mem d' = mem_write (mem d) (window_pos reg d a) bs"
    "reg_window reg d' = reg_window reg d"
proof -
  have "case fn_write m 1 a bs d of (err, d') \<Rightarrow>
      err = 0 \<and> mem d' = mem_write (mem d) (window_pos reg d a) bs \<and> (\<forall>j<3. reg d' j = reg d j)"
    using assms(2) assms(1) [unfolded backplane_def, THEN conjunct2, THEN conjunct1] by simp
  then show ?thesis
    by (intro that [of "snd (fn_write m 1 a bs d)"]) (auto simp: reg_window_def split: prod.splits)
qed

lemma backplane_read:
  assumes "backplane m mem reg" and "unat (a AND SB_OFT_ADDR_MASK) + n \<le> SB_OFT_ADDR_LIMIT"
  obtains d' where "fn_read m 1 a n d = ((0, mem_read (mem d) (window_pos reg d a) n), d')" "mem d' = mem d"
    "reg_window reg d' = reg_window reg d"
proof -
  have "case fn_read m 1 a n d of ((err, bs), d') \<Rightarrow>
      err = 0 \<and> bs = mem_read (mem d) (window_pos reg d a) n \<and> mem d' = mem d \<and> (\<forall>j<3. reg d' j = reg d j)"
    using assms(2) assms(1) [unfolded backplane_def, THEN conjunct2, THEN conjunct2, THEN conjunct1] by simp
  then show ?thesis
    by (intro that [of "snd (fn_read m 1 a n d)"]) (auto simp: reg_window_def split: prod.splits)
qed

lemma backplane_alloc:
  assumes "backplane m mem reg"
  obtains p d' where "skb_alloc m n d = (Some p, d')" "mem d' = mem d" "reg_window reg d' = reg_window reg d"
    "sb_len p = 0" "n + 4 \<le> skb_tailroom p"
proof -
  have "case skb_alloc m n d of (p, d') \<Rightarrow> mem d' = mem d \<and> (\<forall>j<3. reg d' j = reg d j) \<and>
        (\<exists>q. p = Some q \<and> sb_len q = 0 \<and> n + 4 \<le> skb_tailroom q)"
    using assms [unfolded backplane_def, THEN conjunct2, THEN conjunct2, THEN conjunct2] by simp
  then obtain q d' where "skb_alloc m n d = (Some q, d')" "mem d' = mem d" "\<forall>j<3. reg d' j = reg d j"
    "sb_len q = 0" "n + 4 \<le> skb_tailroom q" by (auto split: prod.splits)
  then show ?thesis by (intro that [of q d']) (auto simp: reg_window_def)
qed

text \<open>The bytes a write leaves in the memory, given what is padded up to a multiple of four.\<close>

definition stored :: "u8 list \<Rightarrow> u32 \<Rightarrow> (u32 \<Rightarrow> u8) \<Rightarrow> (u32 \<Rightarrow> u8) \<Rightarrow> bool" where
  "stored bs a M M' \<longleftrightarrow> (\<forall>x. unat (x - a) < length bs \<longrightarrow> M' x = bs ! unat (x - a)) \<and>
     (\<forall>x. req_round (length bs) \<le> unat (x - a) \<longrightarrow> M' x = M x)"

lemma skb_write_zero:
  assumes "sb_off p + sb_len p \<le> length (sb_mem p)" "length bs \<le> sb_len p"
    "sb_off p + req_round (sb_len p) \<le> length (sb_mem p)" "sb_len p = length bs"
  obtains p' pad where "sb_write p 0 bs = Some p'" "sb_read p' 0 (req_round (sb_len p)) = Some (bs @ pad)"
    "length (bs @ pad) = req_round (length bs)" "sb_off p' = sb_off p" "sb_len p' = sb_len p"
    "length (sb_mem p') = length (sb_mem p)"
proof -
  have le: "length bs \<le> req_round (length bs)" by (simp add: req_round_def)
  let ?mem = "take (sb_off p) (sb_mem p) @ bs @ drop (sb_off p + length bs) (sb_mem p)"
  let ?pad = "take (req_round (length bs) - length bs) (drop (sb_off p + length bs) (sb_mem p))"
  have w: "sb_write p 0 bs = Some (p\<lparr>sb_mem := ?mem\<rparr>)" using assms by (simp add: sb_write_def write_bytes_def)
  have "drop (sb_off p) ?mem = bs @ drop (sb_off p + length bs) (sb_mem p)" using assms by simp
  then have "sb_read (p\<lparr>sb_mem := ?mem\<rparr>) 0 (req_round (sb_len p)) = Some (bs @ ?pad)"
    using assms le by (simp add: sb_read_def read_bytes_def)
  then show ?thesis using assms le by (intro that [OF w]) auto
qed
lemma unat_offset_add:
  fixes x a :: u32
  assumes "d < 2 ^ 32"
  shows "unat (x - (a + of_nat d)) = (if d \<le> unat (x - a) then unat (x - a) - d else unat (x - a) + 2 ^ 32 - d)"
proof -
  have "x - (a + of_nat d) = (x - a) - of_nat d" by simp
  moreover have "unat (of_nat d :: u32) = d" using assms by (simp add: unsigned_of_nat take_bit_nat_eq_self)
  ultimately show ?thesis by (simp only: unat_sub_if') simp
qed

lemma unat_oft:
  fixes a :: u32
  shows "unat (a AND SB_OFT_ADDR_MASK) = unat a mod SB_OFT_ADDR_LIMIT"
proof -
  have m: "(0x7fff :: u32) = mask 15" by (simp add: mask_eq_exp_minus_1)
  show ?thesis unfolding m take_bit_eq_mask [symmetric] unsigned_take_bit_eq by (simp add: take_bit_nat_def)
qed

lemma stored_append:
  assumes "stored bs1 a M M1" and "stored bs2 (a + of_nat (length bs1)) M1 M2"
    and "length bs1 mod 4 = 0" and "length bs1 + req_round (length bs2) \<le> 2 ^ 32" and "length bs1 < 2 ^ 32"
  shows "stored (bs1 @ bs2) a M M2"
proof -
  let ?d = "length bs1"
  have r1: "req_round ?d = ?d" using assms(3) by (auto simp: req_round_def mod_eq_0_iff_dvd)
  obtain k where k: "?d = 4 * k" using assms(3) by auto
  have r: "req_round (length (bs1 @ bs2)) = ?d + req_round (length bs2)"
    by (simp add: req_round_def k add.assoc div_mult_self1 distrib_right)
  have le: "length bs2 \<le> req_round (length bs2)" by (simp add: req_round_def)
  note off = unat_offset_add [OF assms(5)]
  show ?thesis unfolding stored_def
  proof (intro conjI allI impI)
    fix x :: u32
    assume x: "unat (x - a) < length (bs1 @ bs2)"
    show "M2 x = (bs1 @ bs2) ! unat (x - a)"
    proof (cases "unat (x - a) < ?d")
      case True
      then have "req_round (length bs2) \<le> unat (x - (a + of_nat ?d))" using assms(4) by (simp only: off) simp
      then have "M2 x = M1 x" using assms(2) by (simp add: stored_def)
      then show ?thesis using assms(1) True by (simp add: stored_def nth_append)
    next
      case False
      then have "unat (x - (a + of_nat ?d)) = unat (x - a) - ?d" by (simp add: off)
      then show ?thesis using assms(2) x False by (auto simp: stored_def nth_append)
    qed
  next
    fix x :: u32
    assume x: "req_round (length (bs1 @ bs2)) \<le> unat (x - a)"
    then have "unat (x - (a + of_nat ?d)) = unat (x - a) - ?d" by (simp add: off r del: length_append)
    with x have "req_round (length bs2) \<le> unat (x - (a + of_nat ?d))" unfolding r by simp
    then have "M2 x = M1 x" using assms(2) by (simp add: stored_def)
    moreover have "M1 x = M x" using assms(1) x unfolding r by (simp add: stored_def r1)
    ultimately show "M2 x = M x" by simp
  qed
qed

lemma stored_mem_write: "length (bs @ pad) = req_round (length bs) \<Longrightarrow> stored bs a M (mem_write M a (bs @ pad))"
  by (auto simp: stored_def mem_write_def nth_append)

lemma mem_read_append: "mem_read M a (d + n) = mem_read M a d @ mem_read M (a + of_nat d) n"
  by (rule nth_equalityI) (auto simp: mem_read_def nth_append algebra_simps simp flip: of_nat_add)

lemma length_mem_read [simp]: "length (mem_read M a n) = n"
  by (simp add: mem_read_def)

lemma oft_next:
  fixes a :: u32
  assumes "unat a + (SB_OFT_ADDR_LIMIT - unat (a AND SB_OFT_ADDR_MASK)) < 2 ^ 32"
  shows "(a + of_nat (SB_OFT_ADDR_LIMIT - unat (a AND SB_OFT_ADDR_MASK))) AND SB_OFT_ADDR_MASK = 0"
proof -
  let ?d = "SB_OFT_ADDR_LIMIT - unat (a AND SB_OFT_ADDR_MASK)"
  have m: "unat a mod SB_OFT_ADDR_LIMIT < SB_OFT_ADDR_LIMIT" by simp
  have "unat (a + of_nat ?d) = unat a + ?d"
    using assms by (simp only: unat_word_ariths unat_of_nat) simp
  also have "\<dots> mod SB_OFT_ADDR_LIMIT = 0"
    using m unfolding unat_oft
    by (metis (no_types, lifting) le_add_diff_inverse less_imp_le mod_add_left_eq mod_self)
  finally show ?thesis by (metis unat_oft unat_eq_0)
qed
lemma oft_round:
  fixes a :: u32
  assumes "unat a mod 4 = 0" and "n \<le> SB_OFT_ADDR_LIMIT - unat (a AND SB_OFT_ADDR_MASK)"
  shows "unat (sb_window_addr (a AND SB_OFT_ADDR_MASK) AND SB_OFT_ADDR_MASK) + req_round n \<le> SB_OFT_ADDR_LIMIT"
proof -
  have e: "sb_window_addr (a AND SB_OFT_ADDR_MASK) AND SB_OFT_ADDR_MASK = a AND SB_OFT_ADDR_MASK"
  proof -
    have m: "(0x7fff :: u32) = mask 15" "(0x8000 :: u32) = mask 16 AND NOT (mask 15)"
      by (simp_all add: mask_eq_exp_minus_1)
    show ?thesis unfolding sb_window_addr_def m by (rule bit_word_eqI) (auto simp: bit_simps)
  qed
  have "unat a mod SB_OFT_ADDR_LIMIT mod 4 = 0" using assms(1) by (simp add: mod_mod_cancel)
  then obtain k where k: "unat a mod SB_OFT_ADDR_LIMIT = 4 * k" by auto
  have "unat a mod SB_OFT_ADDR_LIMIT < SB_OFT_ADDR_LIMIT" by simp
  with assms(2) have n: "n + 4 * k \<le> SB_OFT_ADDR_LIMIT" unfolding unat_oft k by simp
  obtain q where q: "(n + 3) div 4 = q" by simp
  have "q * 4 \<le> n + 3" using div_times_less_eq_dividend [of "n + 3" 4] by (simp add: q)
  with n have "k + q \<le> 8192" by arith
  then show ?thesis unfolding e unat_oft req_round_def k q by simp
qed

text \<open>One chunk of a write and of a read, inside the window of its address.\<close>

lemma chunk_write:
  assumes bp: "backplane m mem reg" and sy: "synced reg s" and a4: "unat a mod 4 = 0"
    and n: "length bs \<le> SB_OFT_ADDR_LIMIT - unat (a AND SB_OFT_ADDR_MASK)"
    and p: "sb_len p = 0" "length bs + 4 \<le> skb_tailroom p"
  obtains s1 s2 p1 p2 where "brcmf_sdiod_set_backplane_window m a s = (0, s1)" "skb_put (length bs) p = Some p1"
    "sb_write p1 0 bs = Some p2"
    "brcmf_sdiod_skbuff_write m 1 (sb_window_addr (a AND SB_OFT_ADDR_MASK)) p2 s1 = Some (0, s2)"
    "synced reg s2" "stored bs a (mem (sd_dev s)) (mem (sd_dev s2))"
    "sb_off p2 = sb_off p" "length (sb_mem p2) = length (sb_mem p)" "sb_len p2 = length bs"
proof -
  obtain s1 where 1: "brcmf_sdiod_set_backplane_window m a s = (0, s1)" "sbwad s1 = a AND SBWINDOW_MASK"
    "synced reg s1" "mem (sd_dev s1) = mem (sd_dev s)" by (rule set_window_ok [OF bp sy])
  let ?p1 = "p\<lparr>sb_len := length bs\<rparr>" and ?a = "sb_window_addr (a AND SB_OFT_ADDR_MASK)"
  have put: "skb_put (length bs) p = Some ?p1" using p by (simp add: skb_put_def)
  have r: "req_round (length bs) \<le> length bs + 3" by (simp add: req_round_def)
  have fit: "sb_off p + length bs + 4 \<le> length (sb_mem p)" using p by (simp add: skb_tailroom_def)
  obtain p2 pad where 2: "sb_write ?p1 0 bs = Some p2" "sb_read p2 0 (req_round (sb_len ?p1)) = Some (bs @ pad)"
    "length (bs @ pad) = req_round (length bs)" "sb_off p2 = sb_off ?p1" "sb_len p2 = sb_len ?p1"
    "length (sb_mem p2) = length (sb_mem ?p1)"
    by (rule skb_write_zero [of ?p1 bs]) (use r fit in auto)
  obtain d where 3: "fn_write m 1 ?a (bs @ pad) (sd_dev s1) = (0, d)"
    "mem d = mem_write (mem (sd_dev s1)) (window_pos reg (sd_dev s1) ?a) (bs @ pad)"
    "reg_window reg d = reg_window reg (sd_dev s1)"
    by (rule backplane_write [OF bp, of ?a "bs @ pad" "sd_dev s1"]) (use oft_round [OF a4 n] 2(3) in auto)
  have "window_pos reg (sd_dev s1) ?a = a"
    using 1(2,3) window_split [of a] by (simp add: window_pos_def synced_def)
  then have "stored bs a (mem (sd_dev s)) (mem d)" using 1(4) 3(2) stored_mem_write [OF 2(3)] by simp
  then show ?thesis
    using 1 2 3 put
    by (intro that [of s1 ?p1 p2 "s1\<lparr>sd_dev := d\<rparr>"])
       (simp_all add: brcmf_sdiod_skbuff_write_def sd_with_def medium_gone_def synced_def)
qed

lemma chunk_read:
  assumes bp: "backplane m mem reg" and sy: "synced reg s" and a4: "unat a mod 4 = 0"
    and n: "n \<le> SB_OFT_ADDR_LIMIT - unat (a AND SB_OFT_ADDR_MASK)"
    and p: "sb_len p = 0" "n + 4 \<le> skb_tailroom p"
  obtains s1 s2 p1 p2 where "brcmf_sdiod_set_backplane_window m a s = (0, s1)" "skb_put n p = Some p1"
    "brcmf_sdiod_skbuff_read m 1 (sb_window_addr (a AND SB_OFT_ADDR_MASK)) p1 s1 = Some (0, p2, s2)"
    "synced reg s2" "mem (sd_dev s2) = mem (sd_dev s)" "sb_read p2 0 n = Some (mem_read (mem (sd_dev s)) a n)"
    "sb_off p2 = sb_off p" "length (sb_mem p2) = length (sb_mem p)" "sb_len p2 = n"
proof -
  obtain s1 where 1: "brcmf_sdiod_set_backplane_window m a s = (0, s1)" "sbwad s1 = a AND SBWINDOW_MASK"
    "synced reg s1" "mem (sd_dev s1) = mem (sd_dev s)" by (rule set_window_ok [OF bp sy])
  let ?p1 = "p\<lparr>sb_len := n\<rparr>" and ?a = "sb_window_addr (a AND SB_OFT_ADDR_MASK)"
    and ?b = "mem_read (mem (sd_dev s)) a (req_round n)"
  have put: "skb_put n p = Some ?p1" using p by (simp add: skb_put_def)
  have r: "n \<le> req_round n" "req_round n \<le> n + 3" by (simp_all add: req_round_def)
  have fit: "sb_off p + n + 4 \<le> length (sb_mem p)" using p by (simp add: skb_tailroom_def)
  have pos: "window_pos reg (sd_dev s1) ?a = a"
    using 1(2,3) window_split [of a] by (simp add: window_pos_def synced_def)
  obtain d where 3: "fn_read m 1 ?a (req_round n) (sd_dev s1) = ((0, ?b), d)" "mem d = mem (sd_dev s1)"
    "reg_window reg d = reg_window reg (sd_dev s1)"
    by (rule backplane_read [OF bp, of ?a "req_round n" "sd_dev s1"]) (use oft_round [OF a4 n] 1(4) pos in auto)
  let ?p2 = "?p1\<lparr>sb_mem := take (sb_off p) (sb_mem p) @ ?b @ drop (sb_off p + req_round n) (sb_mem p)\<rparr>"
  have w: "sb_write ?p1 0 ?b = Some ?p2" using r fit by (simp add: sb_write_def write_bytes_def)
  have "take n ?b = mem_read (mem (sd_dev s)) a n"
    using mem_read_append [of "mem (sd_dev s)" a n "req_round n - n"] r by simp
  then have "sb_read ?p2 0 n = Some (mem_read (mem (sd_dev s)) a n)"
    using r fit by (simp add: sb_read_def read_bytes_def)
  then show ?thesis
    using 1 3 put w r fit
    by (intro that [of s1 ?p1 ?p2 "s1\<lparr>sd_dev := d\<rparr>"])
       (simp_all add: brcmf_sdiod_skbuff_read_def sd_with_def medium_gone_def synced_def)
qed
lemma ramrw_write_loop:
  assumes bp: "backplane m mem reg"
  shows "\<lbrakk>synced reg s; unat a mod 4 = 0; sb_len p = 0; min left SB_OFT_ADDR_LIMIT + 4 \<le> skb_tailroom p;
      unat a + left \<le> 2 ^ 32; pos + left = length buf; sdaddr = a AND SB_OFT_ADDR_MASK;
      dsize = min left (SB_OFT_ADDR_LIMIT - unat (a AND SB_OFT_ADDR_MASK))\<rbrakk>
    \<Longrightarrow> \<exists>s'. ramrw_loop m True p a sdaddr dsize pos left buf s = Some (0, buf, s') \<and> synced reg s' \<and>
      stored (drop pos buf) a (mem (sd_dev s)) (mem (sd_dev s'))"
proof (induction left arbitrary: s a p pos sdaddr dsize rule: less_induct)
  case (less left)
  have lim: "unat (a AND SB_OFT_ADDR_MASK) < SB_OFT_ADDR_LIMIT" unfolding unat_oft by simp
  show ?case
  proof (cases "left = 0")
    case True
    then show ?thesis using less.prems
      by (subst ramrw_loop.simps) (simp add: stored_def req_round_def)
  next
    case False
    let ?bs = "take dsize (drop pos buf)"
    have d: "0 < dsize" "dsize \<le> left" "length ?bs = dsize" "dsize \<le> SB_OFT_ADDR_LIMIT - unat (a AND SB_OFT_ADDR_MASK)"
      using less.prems(6,8) lim False by auto
    have rd: "read_bytes buf pos dsize = Some ?bs" using d less.prems(6) by (simp add: read_bytes_def)
    obtain s1 s2 p1 p2 where c: "brcmf_sdiod_set_backplane_window m a s = (0, s1)" "skb_put dsize p = Some p1"
      "sb_write p1 0 ?bs = Some p2"
      "brcmf_sdiod_skbuff_write m 1 (sb_window_addr sdaddr) p2 s1 = Some (0, s2)"
      "synced reg s2" "stored ?bs a (mem (sd_dev s)) (mem (sd_dev s2))"
      "sb_off p2 = sb_off p" "length (sb_mem p2) = length (sb_mem p)" "sb_len p2 = dsize"
      by (rule chunk_write [OF bp less.prems(1,2), of ?bs p])
         (use less.prems d in \<open>simp_all only: length_take, auto\<close>)
    have step: "ramrw_loop m True p a sdaddr dsize pos left buf s = ramrw_loop m True (skb_trim 0 p2) (a + of_nat dsize) 0
        (min SB_OFT_ADDR_LIMIT (left - dsize)) (pos + dsize) (left - dsize) buf s2"
      using False d c(1-4) rd by (subst ramrw_loop.simps) simp
    show ?thesis
    proof (cases "dsize = left")
      case True
      then show ?thesis unfolding step using c(5,6) less.prems(6) d
        by (subst ramrw_loop.simps) (simp add: take_all)
    next
      case False
      let ?lim = "SB_OFT_ADDR_LIMIT - unat (a AND SB_OFT_ADDR_MASK)"
      have ds: "dsize = ?lim" "dsize < left" using False d less.prems(8) by auto
      have a': "(a + of_nat dsize) AND SB_OFT_ADDR_MASK = 0"
        unfolding ds(1) by (rule oft_next) (use less.prems(5) ds in simp)
      have ua: "unat (a + of_nat dsize) = unat a + dsize"
        using less.prems(5) ds(2) by (simp only: unat_word_ariths unat_of_nat) simp
      obtain k where k: "unat a = 4 * k" using less.prems(2) by auto
      have d4: "dsize mod 4 = 0"
      proof -
        have "unat a mod SB_OFT_ADDR_LIMIT mod 4 = 0" using less.prems(2) by (simp add: mod_mod_cancel)
        then obtain j where "unat a mod SB_OFT_ADDR_LIMIT = 4 * j" by auto
        then show ?thesis unfolding ds(1) unat_oft using dvd_diff_nat [of 4 SB_OFT_ADDR_LIMIT "4 * j"] by simp
      qed
      have "\<exists>s'. ramrw_loop m True (skb_trim 0 p2) (a + of_nat dsize) 0 (min SB_OFT_ADDR_LIMIT (left - dsize))
          (pos + dsize) (left - dsize) buf s2 = Some (0, buf, s') \<and> synced reg s' \<and>
        stored (drop (pos + dsize) buf) (a + of_nat dsize) (mem (sd_dev s2)) (mem (sd_dev s'))"
      proof (rule less.IH)
        show "unat (a + of_nat dsize) mod 4 = 0" using less.prems(2) d4 by (simp add: ua mod_add_eq [symmetric])
        show "sb_len (skb_trim 0 p2) = 0" by (simp add: skb_trim_def skb_set_trim_def)
        show "min (left - dsize) SB_OFT_ADDR_LIMIT + 4 \<le> skb_tailroom (skb_trim 0 p2)"
          using less.prems(3,4) c(7-9) by (auto simp: skb_trim_def skb_set_trim_def skb_tailroom_def min_def split: if_splits)
      qed (use less.prems d ds c a' ua in auto)
      then obtain s' where s': "ramrw_loop m True (skb_trim 0 p2) (a + of_nat dsize) 0 (min SB_OFT_ADDR_LIMIT (left - dsize))
          (pos + dsize) (left - dsize) buf s2 = Some (0, buf, s')" "synced reg s'"
        "stored (drop (pos + dsize) buf) (a + of_nat dsize) (mem (sd_dev s2)) (mem (sd_dev s'))" by blast
      have "stored (?bs @ drop (pos + dsize) buf) a (mem (sd_dev s)) (mem (sd_dev s'))"
      proof (rule stored_append [OF c(6)])
        have "req_round (left - dsize) + dsize \<le> 2 ^ 32"
        proof -
          obtain j where j: "dsize = 4 * j" using d4 by auto
          obtain q where q: "(left - dsize + 3) div 4 = q" by simp
          have "q * 4 \<le> left - dsize + 3" using div_times_less_eq_dividend [of "left - dsize + 3" 4] by (simp add: q)
          then have "q + j + k \<le> 2 ^ 30" using less.prems(5) k j ds(2) by simp
          then show ?thesis unfolding req_round_def q by (simp add: j)
        qed
        then show "length ?bs + req_round (length (drop (pos + dsize) buf)) \<le> 2 ^ 32"
          using d(3) less.prems(6) by (metis add.commute diff_add_inverse diff_diff_left length_drop)
      qed (use s'(3) d d4 less.prems(5) ds(2) in auto)
      moreover have "?bs @ drop (pos + dsize) buf = drop pos buf"
        by (metis append_take_drop_id drop_drop add.commute)
      ultimately show ?thesis using s' unfolding step by auto
    qed
  qed
qed
lemma ramrw_read_loop:
  assumes bp: "backplane m mem reg"
  shows "\<lbrakk>synced reg s; unat a mod 4 = 0; sb_len p = 0; min left SB_OFT_ADDR_LIMIT + 4 \<le> skb_tailroom p;
      unat a + left \<le> 2 ^ 32; pos + left = length buf; sdaddr = a AND SB_OFT_ADDR_MASK;
      dsize = min left (SB_OFT_ADDR_LIMIT - unat (a AND SB_OFT_ADDR_MASK))\<rbrakk>
    \<Longrightarrow> \<exists>s'. ramrw_loop m False p a sdaddr dsize pos left buf s
          = Some (0, take pos buf @ mem_read (mem (sd_dev s)) a left, s')"
proof (induction left arbitrary: s a p pos sdaddr dsize buf rule: less_induct)
  case (less left)
  have lim: "unat (a AND SB_OFT_ADDR_MASK) < SB_OFT_ADDR_LIMIT" unfolding unat_oft by simp
  show ?case
  proof (cases "left = 0")
    case True
    then show ?thesis using less.prems(6) by (subst ramrw_loop.simps) (simp add: mem_read_def)
  next
    case False
    let ?M = "mem (sd_dev s)"
    have d: "0 < dsize" "dsize \<le> left" "dsize \<le> SB_OFT_ADDR_LIMIT - unat (a AND SB_OFT_ADDR_MASK)"
      using less.prems(8) lim False by auto
    obtain s1 s2 p1 p2 where c: "brcmf_sdiod_set_backplane_window m a s = (0, s1)" "skb_put dsize p = Some p1"
      "brcmf_sdiod_skbuff_read m 1 (sb_window_addr sdaddr) p1 s1 = Some (0, p2, s2)"
      "synced reg s2" "mem (sd_dev s2) = ?M" "sb_read p2 0 dsize = Some (mem_read ?M a dsize)"
      "sb_off p2 = sb_off p" "length (sb_mem p2) = length (sb_mem p)" "sb_len p2 = dsize"
      by (rule chunk_read [OF bp less.prems(1,2) d(3), of p]) (use less.prems d in auto)
    let ?buf = "take pos buf @ mem_read ?M a dsize @ drop (pos + dsize) buf"
    have wr: "write_bytes buf pos (mem_read ?M a dsize) = Some ?buf"
      using less.prems(6) d by (simp add: write_bytes_def)
    have step: "ramrw_loop m False p a sdaddr dsize pos left buf s = ramrw_loop m False (skb_trim 0 p2) (a + of_nat dsize) 0
        (min SB_OFT_ADDR_LIMIT (left - dsize)) (pos + dsize) (left - dsize) ?buf s2"
      using False d c(1-3,6) wr by (subst ramrw_loop.simps) simp
    show ?thesis
    proof (cases "dsize = left")
      case True
      then show ?thesis unfolding step using less.prems(6) by (subst ramrw_loop.simps) simp
    next
      case False
      have ds: "dsize = SB_OFT_ADDR_LIMIT - unat (a AND SB_OFT_ADDR_MASK)" "dsize < left"
        using False d less.prems(8) by auto
      have a': "(a + of_nat dsize) AND SB_OFT_ADDR_MASK = 0"
        unfolding ds(1) by (rule oft_next) (use less.prems(5) ds in simp)
      have ua: "unat (a + of_nat dsize) = unat a + dsize"
        using less.prems(5) ds(2) by (simp only: unat_word_ariths unat_of_nat) simp
      have "unat (a + of_nat dsize) mod SB_OFT_ADDR_LIMIT = 0" using a' unat_oft [of "a + of_nat dsize"] by simp
      then obtain k where "unat (a + of_nat dsize) = 4 * (8192 * k)" by auto
      then have a4: "unat (a + of_nat dsize) mod 4 = 0" by simp
      have "\<exists>s'. ramrw_loop m False (skb_trim 0 p2) (a + of_nat dsize) 0 (min SB_OFT_ADDR_LIMIT (left - dsize))
          (pos + dsize) (left - dsize) ?buf s2
        = Some (0, take (pos + dsize) ?buf @ mem_read (mem (sd_dev s2)) (a + of_nat dsize) (left - dsize), s')"
      proof (rule less.IH [OF _ c(4) a4])
        show "sb_len (skb_trim 0 p2) = 0" by (simp add: skb_trim_def skb_set_trim_def)
        show "min (left - dsize) SB_OFT_ADDR_LIMIT + 4 \<le> skb_tailroom (skb_trim 0 p2)"
          using less.prems(3,4) c(7-9) by (auto simp: skb_trim_def skb_set_trim_def skb_tailroom_def min_def split: if_splits)
      qed (use less.prems d ds c a' ua in auto)
      moreover have "mem_read ?M a left = mem_read ?M a dsize @ mem_read ?M (a + of_nat dsize) (left - dsize)"
        using mem_read_append [of ?M a dsize "left - dsize"] ds(2) by simp
      ultimately show ?thesis using less.prems(6) d unfolding step c(5) by simp
    qed
  qed
qed

lemma ramrw_first_min:
  assumes "unat a + n < 2 ^ 32"
  shows "ramrw_first a n = min n (SB_OFT_ADDR_LIMIT - unat (a AND SB_OFT_ADDR_MASK))"
proof -
  let ?o = "a AND SB_OFT_ADDR_MASK"
  have lim: "unat ?o < SB_OFT_ADDR_LIMIT" unfolding unat_oft by simp
  have oa: "unat ?o \<le> unat a" unfolding unat_oft by simp
  have mask: "w AND SBWINDOW_MASK = 0 \<longleftrightarrow> unat w < SB_OFT_ADDR_LIMIT" for w :: u32
  proof -
    have m: "(0xffff8000 :: u32) = NOT (mask 15)" by (simp add: mask_eq_exp_minus_1)
    have "w AND NOT (mask 15) = 0 \<longleftrightarrow> take_bit 15 w = w"
    proof -
      have "(w AND NOT (mask 15)) + (w AND mask 15) = w"
        by (subst disjunctive_add) (auto simp: bit_simps intro!: bit_word_eqI)
      then show ?thesis unfolding take_bit_eq_mask by (metis add.left_neutral add_cancel_left_left)
    qed
    also have "\<dots> \<longleftrightarrow> unat w mod SB_OFT_ADDR_LIMIT = unat w"
      by (simp add: word_unat_eq_iff unsigned_take_bit_eq take_bit_nat_def)
    also have "\<dots> \<longleftrightarrow> unat w < SB_OFT_ADDR_LIMIT" by (metis mod_less mod_less_divisor zero_less_numeral)
    finally show ?thesis unfolding m .
  qed
  have "unat (?o + of_nat n) = unat ?o + n" using assms oa by (simp only: unat_word_ariths unat_of_nat) simp
  then show ?thesis using lim by (simp add: ramrw_first_def Let_def mask)
qed
text \<open>C23: Writing device memory through the sliding window and reading it back. For a word-aligned
  address \<open>brcmf_sdiod_ramrw\<close> returns zero, stores every byte at its address whatever windows the
  range crosses, leaves the rest of the memory alone except for the bytes that fill up the last word, and a
  later read of the same range returns the bytes written.\<close>

theorem ramrw_roundtrip:
  assumes "backplane m mem reg" and "synced reg s" and "unat a mod 4 = 0" and "unat a + length data < 2 ^ 32"
  shows "\<exists>s'. brcmf_sdiod_ramrw m True a data (length data) s = Some (0, data, s') \<and>
      (\<forall>x. unat (x - a) < length data \<longrightarrow> mem (sd_dev s') x = data ! unat (x - a)) \<and>
      (\<forall>x. req_round (length data) \<le> unat (x - a) \<longrightarrow> mem (sd_dev s') x = mem (sd_dev s) x) \<and>
      (\<forall>buf. length buf = length data \<longrightarrow>
         (\<exists>s''. brcmf_sdiod_ramrw m False a buf (length data) s' = Some (0, data, s'')))"
proof -
  note first = ramrw_first_min [OF assms(4)]
  obtain p d where p: "skb_alloc m (min SB_OFT_ADDR_LIMIT (length data)) (sd_dev s) = (Some p, d)" "mem d = mem (sd_dev s)"
    "reg_window reg d = reg_window reg (sd_dev s)" "sb_len p = 0" "min SB_OFT_ADDR_LIMIT (length data) + 4 \<le> skb_tailroom p"
    by (rule backplane_alloc [OF assms(1)])
  have "\<exists>s'. ramrw_loop m True p a (a AND SB_OFT_ADDR_MASK) (ramrw_first a (length data)) 0 (length data) data (s\<lparr>sd_dev := d\<rparr>)
      = Some (0, data, s') \<and> synced reg s' \<and> stored (drop 0 data) a (mem (sd_dev (s\<lparr>sd_dev := d\<rparr>))) (mem (sd_dev s'))"
    by (rule ramrw_write_loop [OF assms(1)]) (use p assms first in \<open>auto simp: synced_def min.commute\<close>)
  then obtain s' where w: "brcmf_sdiod_ramrw m True a data (length data) s = Some (0, data, s')" "synced reg s'"
    "stored data a (mem (sd_dev s)) (mem (sd_dev s'))"
    using p(1,2) by (auto simp: brcmf_sdiod_ramrw_def sd_with_def)
  have rb: "mem_read (mem (sd_dev s')) a (length data) = data"
  proof (rule nth_equalityI)
    fix i assume "i < length (mem_read (mem (sd_dev s')) a (length data))"
    then have i: "i < length data" by simp
    then have "unat ((a + of_nat i) - a) = i"
      using assms(4) by (simp add: unsigned_of_nat take_bit_nat_eq_self)
    then show "mem_read (mem (sd_dev s')) a (length data) ! i = data ! i"
      using w(3) i by (simp add: mem_read_def stored_def)
  qed simp
  have "\<exists>s''. brcmf_sdiod_ramrw m False a buf (length data) s' = Some (0, data, s'')" if len: "length buf = length data" for buf
  proof -
    obtain q e where q: "skb_alloc m (min SB_OFT_ADDR_LIMIT (length data)) (sd_dev s') = (Some q, e)" "mem e = mem (sd_dev s')"
      "reg_window reg e = reg_window reg (sd_dev s')" "sb_len q = 0" "min SB_OFT_ADDR_LIMIT (length data) + 4 \<le> skb_tailroom q"
      by (rule backplane_alloc [OF assms(1)])
    have "\<exists>s''. ramrw_loop m False q a (a AND SB_OFT_ADDR_MASK) (ramrw_first a (length data)) 0 (length data) buf (s'\<lparr>sd_dev := e\<rparr>)
      = Some (0, take 0 buf @ mem_read (mem (sd_dev (s'\<lparr>sd_dev := e\<rparr>))) a (length data), s'')"
      by (rule ramrw_read_loop [OF assms(1)]) (use q w(2) len assms first in \<open>auto simp: synced_def min.commute\<close>)
    then show ?thesis using q(1,2) rb by (auto simp: brcmf_sdiod_ramrw_def sd_with_def)
  qed
  with w show ?thesis by (intro exI [of _ s']) (auto simp: stored_def)
qed

text \<open>A card of this kind: its memory and its three window registers.\<close>

definition ram_card :: "((u32 \<Rightarrow> u8) \<times> (nat \<Rightarrow> u8)) mmc" where
  "ram_card = \<lparr>f0_rb = (\<lambda>a d. ((0, 0), d)), f0_wb = (\<lambda>a v d. (0, d)), f1_rb = (\<lambda>a d. ((0, 0), d)),
     f1_wb = (\<lambda>a v (M, r). (0, (M, r(a - SBADDRLOW := v)))),
     f1_rl = (\<lambda>a d. ((0, 0), d)), f1_wl = (\<lambda>a v d. (0, d)),
     fn_read = (\<lambda>k a n d. ((0, mem_read (fst d) (window_pos snd d a) n), d)),
     fn_write = (\<lambda>k a bs d. (0, (mem_write (fst d) (window_pos snd d a) bs, snd d))),
     mmc_req = (\<lambda>a b c d e f. (((0, 0), []), f)),
     skb_alloc = (\<lambda>n d. (Some \<lparr>sb_addr = 0, sb_mem = replicate (n + 4) 0, sb_off = 0, sb_len = 0, sb_cb = 0, sb_id = 0\<rparr>, d))\<rparr>"

definition ram_sd :: "((u32 \<Rightarrow> u8) \<times> (nat \<Rightarrow> u8)) brcmf_sdio_dev" where
  "ram_sd = \<lparr>sbwad = 0, sd_state = SDIOD_DATA, sd_busup = True, irq_en = True, sg_support = False,
     broken_sg_support = False, max_request_size = 512, max_segment_count = 1, max_segment_size = 512, txglomsz = 1,
     sgt_nents = 1, f2_blksize = 512, cc_base = 0x18000000, sd_dev = (\<lambda>x. 0, \<lambda>i. 0)\<rparr>"

lemma ram_card_backplane: "backplane ram_card fst snd"
  by (auto simp: backplane_def ram_card_def skb_tailroom_def split: prod.splits)

theorem ramrw_roundtrip_witness:
  "\<exists>s' s''. brcmf_sdiod_ramrw ram_card True 0x7ffc [1, 2, 3, 4, 5, 6] 6 ram_sd = Some (0, [1, 2, 3, 4, 5, 6], s') \<and>
     fst (sd_dev s') 0x8001 = 6 \<and> brcmf_sdiod_ramrw ram_card False 0x7ffc (replicate 6 0) 6 s' = Some (0, [1, 2, 3, 4, 5, 6], s'')"
proof -
  let ?l = "[1, 2, 3, 4, 5, 6] :: u8 list"
  have sy: "synced snd ram_sd" by (simp add: synced_def ram_sd_def reg_window_def of_le32_def)
  have l6: "length ?l = 6" by simp
  have num_ok: "unat (0x7ffc :: u32) mod 4 = 0" "unat (0x7ffc :: u32) + 6 < 2 ^ 32" by simp_all
  obtain s' where s': "brcmf_sdiod_ramrw ram_card True 0x7ffc ?l 6 ram_sd = Some (0, ?l, s')"
    "\<forall>x. unat (x - 0x7ffc) < 6 \<longrightarrow> fst (sd_dev s') x = ?l ! unat (x - 0x7ffc)"
    "\<forall>buf. length buf = 6 \<longrightarrow> (\<exists>s''. brcmf_sdiod_ramrw ram_card False 0x7ffc buf 6 s' = Some (0, ?l, s''))"
    using ramrw_roundtrip [OF ram_card_backplane sy, where a = "0x7ffc" and data = "?l", unfolded l6]
    num_ok by blast
  have "fst (sd_dev s') 0x8001 = 6" using s'(2) [rule_format, of "0x8001"] by simp
  then show ?thesis using s'(1) s'(3) [rule_format, of "replicate 6 0"] by auto
qed

section \<open>Reading a chain\<close>

text \<open>Filling the data of packets with consecutive bytes of a stream: what every way of reading a chain
  comes down to.\<close>

definition fill_one :: "skbuf \<Rightarrow> u8 list \<Rightarrow> skbuf" where
  "fill_one p bs = p\<lparr>sb_mem := take (sb_off p) (sb_mem p) @ take (sb_len p) bs @ drop (sb_off p + sb_len p) (sb_mem p)\<rparr>"

fun fill :: "skbuf list \<Rightarrow> u8 list \<Rightarrow> skbuf list" where
  "fill [] bs = []"
| "fill (p # ps) bs = fill_one p bs # fill ps (drop (sb_len p) bs)"

fun deal :: "nat list \<Rightarrow> 'a list \<Rightarrow> 'a list list" where
  "deal [] bs = []"
| "deal (n # ns) bs = take n bs # deal ns (drop n bs)"

lemma length_fill [simp]: "length (fill ps bs) = length ps"
  by (induction ps arbitrary: bs) auto

lemma fill_lens: "map sb_len (fill ps bs) = map sb_len ps"
  by (induction ps arbitrary: bs) (auto simp: fill_one_def)

lemma fill_one_data: "sb_ok p \<Longrightarrow> sb_len p \<le> length bs \<Longrightarrow> sb_data (fill_one p bs) = take (sb_len p) bs"
  by (simp add: fill_one_def sb_data_def sb_ok_def)

lemma fill_one_ok: "sb_ok p \<Longrightarrow> sb_len p \<le> length bs \<Longrightarrow> sb_ok (fill_one p bs)"
  by (simp add: fill_one_def sb_ok_def)

lemma fill_ok: "\<forall>p\<in>set ps. sb_ok p \<Longrightarrow> sum_list (map sb_len ps) \<le> length bs \<Longrightarrow> \<forall>p\<in>set (fill ps bs). sb_ok p"
proof (induction ps arbitrary: bs)
  case (Cons p ps)
  then show ?case using Cons.IH [of "drop (sb_len p) bs"] by (auto simp: fill_one_ok)
qed simp

lemma fill_data:
  "\<forall>p\<in>set ps. sb_ok p \<Longrightarrow> sum_list (map sb_len ps) \<le> length bs \<Longrightarrow> map sb_data (fill ps bs) = deal (map sb_len ps) bs"
  by (induction ps arbitrary: bs) (auto simp: fill_one_data)

lemma concat_deal: "concat (deal ns bs) = take (sum_list ns) bs"
  by (induction ns arbitrary: bs) (auto simp: take_add)

lemma fill_take: "sum_list (map sb_len ps) \<le> n \<Longrightarrow> fill ps (take n bs) = fill ps bs"
proof (induction ps arbitrary: n bs)
  case (Cons p ps)
  then have "fill_one p (take n bs) = fill_one p bs" by (simp add: fill_one_def min_def)
  moreover have "drop (sb_len p) (take n bs) = take (n - sb_len p) (drop (sb_len p) bs)" by (simp add: drop_take)
  ultimately show ?case using Cons.IH [of "n - sb_len p"] Cons.prems by simp
qed simp

lemma sb_write_fill:
  assumes "sb_ok p" and "length bs = sb_len p"
  shows "sb_write p 0 bs = Some (fill_one p bs)"
  using assms by (simp add: sb_write_def write_bytes_def fill_one_def sb_ok_def)

lemma fill_one_take: "fill_one p (take (sb_len p) bs) = fill_one p bs"
  by (simp add: fill_one_def)

subsection \<open>One buffer copied out\<close>

lemma sb_read_data:
  assumes "sb_ok g" and "n \<le> sb_len g"
  shows "sb_read g 0 n = Some (take n (sb_data g))"
  using assms by (simp add: sb_read_def read_bytes_def sb_data_def sb_ok_def min_def)

lemma skb_pull_data:
  assumes "sb_ok g" and "n \<le> sb_len g"
  shows "sb_ok (skb_pull n g)" "sb_len (skb_pull n g) = sb_len g - n" "sb_data (skb_pull n g) = drop n (sb_data g)"
  using assms by (auto simp: skb_pull_def sb_ok_def sb_data_def drop_take add.commute)

lemma split_glom_fill:
  "\<lbrakk>sb_ok g; \<forall>p\<in>set ps. sb_ok p; sum_list (map sb_len ps) \<le> sb_len g\<rbrakk> \<Longrightarrow> split_glom ps g = Some (fill ps (sb_data g))"
proof (induction ps arbitrary: g)
  case (Cons p ps)
  have n: "sb_len p \<le> sb_len g" using Cons.prems(3) by simp
  note g' = skb_pull_data [OF Cons.prems(1) n]
  have "split_glom ps (skb_pull (sb_len p) g) = Some (fill ps (drop (sb_len p) (sb_data g)))"
    using Cons.IH [OF g'(1)] Cons.prems g' by simp
  then show ?case
    using sb_read_data [OF Cons.prems(1) n] Cons.prems sb_write_fill [of p "take (sb_len p) (sb_data g)"] n
    by (simp add: fill_one_take)
qed simp

subsection \<open>Scattered\<close>

fun segs_of :: "nat \<Rightarrow> skbuf list \<Rightarrow> segment list" where
  "segs_of i [] = []"
| "segs_of i (p # ps) = (i, 0, sb_len p) # segs_of (Suc i) ps"

lemma length_segs_of [simp]: "length (segs_of i ps) = length ps"
  by (induction ps arbitrary: i) auto

lemma segs_of_append: "segs_of i (ps @ qs) = segs_of i ps @ segs_of (i + length ps) qs"
  by (induction ps arbitrary: i) auto

lemma scatter_fill:
  "\<lbrakk>\<forall>p\<in>set ps. sb_ok p; sum_list (map sb_len ps) \<le> length bs\<rbrakk>
    \<Longrightarrow> seg_scatter (A @ ps) (segs_of (length A) ps) bs = Some (A @ fill ps bs)"
proof (induction ps arbitrary: A bs)
  case (Cons p ps)
  have w: "sb_write p 0 (take (sb_len p) bs) = Some (fill_one p bs)"
    using Cons.prems sb_write_fill [of p "take (sb_len p) bs"] by (simp add: fill_one_take)
  have "seg_scatter ((A @ [fill_one p bs]) @ ps) (segs_of (length (A @ [fill_one p bs])) ps) (drop (sb_len p) bs)
      = Some ((A @ [fill_one p bs]) @ fill ps (drop (sb_len p) bs))"
    by (rule Cons.IH) (use Cons.prems in auto)
  then show ?case using w by (simp add: nth_opt_def list_update_append)
qed simp

text \<open>A chain that one request can hold is one request.\<close>

definition sg_full :: "skbuf list \<Rightarrow> 'd sg_walk \<Rightarrow> 'd sg_walk" where
  "sg_full ps w = w\<lparr>sg_segs := segs_of 0 ps, sg_req := sum_list (map sb_len ps), sg_left := sg_left w - length ps\<rparr>"

lemma sg_packet_one:
  assumes "0 < n" "n \<le> max_segment_size (sg_sd w)" "sg_req w + n \<le> max_request_size (sg_sd w)" "0 < sg_left w"
    and "w' = w\<lparr>sg_segs := sg_segs w @ [(i, 0, n)], sg_left := sg_left w - 1, sg_req := sg_req w + n\<rparr>"
  shows "sg_packet m wr num k i 0 n w =
     (if max_request_size (sg_sd w) \<le> sg_req w' \<or> k \<le> length (sg_segs w') then do {
         (ret, w) \<leftarrow> mmc_submit_one m wr num w';
         if ret \<noteq> 0 then Some (ret, w)
         else Some (0, w\<lparr>sg_req := 0, sg_segs := [], sg_left := sgt_nents (sg_sd w)\<rparr>) }
      else Some (0, w'))"
proof -
  have z: "sg_packet m wr num k i off 0 v = Some (0, v)" for off v by (subst sg_packet.simps) simp
  have "sg_seg_size w n = n" using assms by (simp add: sg_seg_size_def)
  then show ?thesis using assms(1,4) by (subst sg_packet.simps) (simp add: z assms(5) cong: if_cong)
qed

lemma sg_packets_one:
  assumes "sg_pkts w = ps @ qs" "qs \<noteq> []" "sg_segs w = segs_of 0 ps" "sg_req w = sum_list (map sb_len ps)"
    and "\<forall>p\<in>set qs. 0 < sb_len p \<and> sb_len p \<le> max_segment_size (sg_sd w)"
    and "sum_list (map sb_len (ps @ qs)) \<le> max_request_size (sg_sd w)" "length qs \<le> sg_left w"
    and "k = length (ps @ qs)"
  shows "sg_packets m wr num k [length ps..<length (ps @ qs)] w =
      do { (ret, w') \<leftarrow> mmc_submit_one m wr num (sg_full (ps @ qs) w\<lparr>sg_left := sg_left w - length qs\<rparr>);
           if ret \<noteq> 0 then Some (ret, w') else Some (0, w'\<lparr>sg_req := 0, sg_segs := [], sg_left := sgt_nents (sg_sd w')\<rparr>) }"
  using assms
proof (induction qs arbitrary: ps w)
  case (Cons q qs)
  let ?w = "w\<lparr>sg_segs := sg_segs w @ [(length ps, 0, sb_len q)], sg_left := sg_left w - 1, sg_req := sg_req w + sb_len q\<rparr>"
  have up: "[length ps..<length (ps @ q # qs)] = length ps # [Suc (length ps)..<length (ps @ q # qs)]"
    by (simp add: upt_rec)
  have p: "nth_opt (sg_pkts w) (length ps) = Some q" using Cons.prems(1) by simp
  have one: "sg_packet m wr num k (length ps) 0 (sb_len q) w =
     (if max_request_size (sg_sd w) \<le> sg_req ?w \<or> k \<le> length (sg_segs ?w) then do {
         (ret, w) \<leftarrow> mmc_submit_one m wr num ?w;
         if ret \<noteq> 0 then Some (ret, w)
         else Some (0, w\<lparr>sg_req := 0, sg_segs := [], sg_left := sgt_nents (sg_sd w)\<rparr>) }
      else Some (0, ?w))"
    by (rule sg_packet_one) (use Cons.prems in auto)
  show ?case
  proof (cases "qs = []")
    case True
    then have full: "sg_full (ps @ q # qs) w\<lparr>sg_left := sg_left w - length (q # qs)\<rparr> = ?w"
      using Cons.prems(3,4) by (simp add: sg_full_def segs_of_append)
    have "k \<le> length (sg_segs ?w)" using True Cons.prems(3,8) by simp
    then have "sg_packet m wr num k (length ps) 0 (sb_len q) w = do {
         (ret, w) \<leftarrow> mmc_submit_one m wr num ?w;
         if ret \<noteq> 0 then Some (ret, w)
         else Some (0, w\<lparr>sg_req := 0, sg_segs := [], sg_left := sgt_nents (sg_sd w)\<rparr>) }"
      using one by simp
    moreover have "[Suc (length ps)..<length (ps @ q # qs)] = []" using True by simp
    ultimately show ?thesis unfolding up full sg_packets.simps p
      by (cases "mmc_submit_one m wr num ?w") auto
  next
    case False
    then have s: "sg_req ?w < max_request_size (sg_sd w)" "length (sg_segs ?w) < k"
      using Cons.prems by (cases qs; auto)+
    have "sg_packets m wr num k [length (ps @ [q])..<length ((ps @ [q]) @ qs)] ?w =
      do { (ret, w') \<leftarrow> mmc_submit_one m wr num (sg_full ((ps @ [q]) @ qs) ?w\<lparr>sg_left := sg_left ?w - length qs\<rparr>);
           if ret \<noteq> 0 then Some (ret, w') else Some (0, w'\<lparr>sg_req := 0, sg_segs := [], sg_left := sgt_nents (sg_sd w')\<rparr>) }"
      by (rule Cons.IH) (use Cons.prems False in \<open>auto simp: segs_of_append\<close>)
    moreover have "sg_full ((ps @ [q]) @ qs) ?w\<lparr>sg_left := sg_left ?w - length qs\<rparr>
        = sg_full (ps @ q # qs) w\<lparr>sg_left := sg_left w - length (q # qs)\<rparr>" by (simp add: sg_full_def)
    ultimately have "sg_packets m wr num k [Suc (length ps)..<length (ps @ q # qs)] ?w =
      do { (ret, w') \<leftarrow> mmc_submit_one m wr num (sg_full (ps @ q # qs) w\<lparr>sg_left := sg_left w - length (q # qs)\<rparr>);
           if ret \<noteq> 0 then Some (ret, w') else Some (0, w'\<lparr>sg_req := 0, sg_segs := [], sg_left := sgt_nents (sg_sd w')\<rparr>) }"
      by simp
    moreover have "sg_packet m wr num k (length ps) 0 (sb_len q) w = Some (0, ?w)" using one s by simp
    ultimately show ?thesis unfolding up sg_packets.simps p by simp
  qed
qed simp
subsection \<open>Copied back from pages\<close>

definition fill_at :: "skbuf \<Rightarrow> nat \<Rightarrow> u8 list \<Rightarrow> skbuf" where
  "fill_at p dst bs = p\<lparr>sb_mem := take (sb_off p + dst) (sb_mem p) @ take (sb_len p - dst) bs
     @ drop (sb_off p + sb_len p) (sb_mem p)\<rparr>"

lemma sb_len_fill_at [simp]: "sb_len (fill_at p dst bs) = sb_len p"
  by (simp add: fill_at_def)

lemma fill_at_0: "fill_at p 0 bs = fill_one p bs"
  by (simp add: fill_at_def fill_one_def)

lemma sb_write_at:
  assumes "sb_ok p" and "dst + length bs = sb_len p"
  shows "sb_write p dst bs = Some (fill_at p dst bs)"
  using assms by (simp add: sb_write_def write_bytes_def fill_at_def sb_ok_def add.assoc)

lemma sb_write_more:
  assumes p: "sb_ok p" and l: "dst + length xs \<le> sb_len p" "sb_len p - dst \<le> length xs + length ys"
    and w: "sb_write p dst xs = Some p'"
  shows "fill_at p' (dst + length xs) ys = fill_at p dst (xs @ ys)" "sb_len p' = sb_len p" "sb_ok p'"
proof -
  have p': "p' = p\<lparr>sb_mem := take (sb_off p + dst) (sb_mem p) @ xs @ drop (sb_off p + dst + length xs) (sb_mem p)\<rparr>"
    using w by (auto simp: sb_write_def write_bytes_def split: if_splits)
  have in_mem: "sb_off p + sb_len p \<le> length (sb_mem p)" using p by (simp add: sb_ok_def)
  show "fill_at p' (dst + length xs) ys = fill_at p dst (xs @ ys)"
    using l in_mem by (simp add: p' fill_at_def add.commute add.left_commute min_def)
  show "sb_len p' = sb_len p" by (simp add: p')
  show "sb_ok p'" using l in_mem by (simp add: p' sb_ok_def)
qed

lemma copy_back_fill:
  "\<lbrakk>\<forall>p\<in>set (q # ps). sb_ok p \<and> 0 < sb_len p; \<forall>p\<in>set srcs. sb_ok p \<and> 0 < sb_len p; dst < sb_len q;
    so \<le> sb_len (hd srcs);
    sb_len q - dst + sum_list (map sb_len ps) \<le> length (drop so (concat (map sb_data srcs)))\<rbrakk>
   \<Longrightarrow> copy_back (q # ps) dst srcs so = Some (fill_at q dst (drop so (concat (map sb_data srcs)))
        # fill ps (drop (sb_len q - dst) (drop so (concat (map sb_data srcs)))))"
proof (induction "2 * length ps + length srcs" arbitrary: q ps dst srcs so rule: less_induct)
  case less
  from less.prems(3,5) obtain src rest where srcs: "srcs = src # rest" by (cases srcs) auto
  let ?S = "drop so (concat (map sb_data srcs))"
  let ?n = "sb_len q - dst" and ?r = "sb_len src - so"
  have src: "sb_ok src" "so \<le> sb_len src" "length (sb_data src) = sb_len src" using less.prems(2,4) srcs by auto
  have S: "?S = drop so (sb_data src) @ concat (map sb_data rest)" using src srcs by simp
  have q: "sb_ok q" using less.prems(1) by simp
  have rd: "sb_read src so (min ?n ?r) = Some (take (min ?n ?r) (drop so (sb_data src)))"
  proof -
    have "sb_off src + so + min ?n ?r \<le> length (sb_mem src)" 
    proof -
      have "min ?n ?r \<le> ?r" by simp
      then show ?thesis using src(1,2) unfolding sb_ok_def by linarith
    qed
    moreover have "min (min ?n ?r) ?r = min ?n ?r" by simp
    ultimately show ?thesis by (simp add: sb_read_def read_bytes_def sb_data_def drop_take add.commute)
  qed
  show ?case
  proof (cases "?n \<le> ?r")
    case True
    let ?bs = "take ?n (drop so (sb_data src))"
    have le: "so + ?n \<le> sb_len src" using True src(2) by linarith
    have t: "take ?n ?S = ?bs" using True src by (simp add: S)
    have w: "sb_write q dst ?bs = Some (fill_at q dst ?S)"
    proof -
      have "sb_write q dst ?bs = Some (fill_at q dst ?bs)"
        by (rule sb_write_at [OF q]) (use True src less.prems(3) in simp)
      moreover have "fill_at q dst ?bs = fill_at q dst ?S" by (simp add: fill_at_def t [symmetric])
      ultimately show ?thesis by simp
    qed
    let ?nx = "next_src src (so + ?n) rest"
    have nx: "drop (snd ?nx) (concat (map sb_data (fst ?nx))) = drop ?n ?S"
      using True src by (auto simp: next_src_def S add.commute)
    have tail: "copy_back ps 0 (fst ?nx) (snd ?nx) = Some (fill ps (drop ?n ?S))"
    proof (cases ps)
      case Nil
      then show ?thesis by simp
    next
      case (Cons p' ps')
      have "copy_back (p' # ps') 0 (fst ?nx) (snd ?nx) = Some (fill_at p' 0 (drop (snd ?nx) (concat (map sb_data (fst ?nx))))
        # fill ps' (drop (sb_len p' - 0) (drop (snd ?nx) (concat (map sb_data (fst ?nx))))))"
      proof (rule less.hyps)
        show "2 * length ps' + length (fst ?nx) < 2 * length ps + length srcs"
          using Cons srcs by (simp add: next_src_def)
        show "sb_len p' - 0 + sum_list (map sb_len ps') \<le> length (drop (snd ?nx) (concat (map sb_data (fst ?nx))))"
          unfolding nx using less.prems(5) Cons by simp
        show "snd ?nx \<le> sb_len (hd (fst ?nx))" using le by (auto simp: next_src_def)
      qed (use less.prems(1,2) Cons srcs in \<open>auto simp: next_src_def\<close>)
      then show ?thesis by (simp add: Cons nx fill_at_0)
    qed
    show ?thesis using rd w tail True less.prems(3) by (simp add: srcs min_def)
  next
    case False
    let ?bs = "drop so (sb_data src)"
    have len: "length ?bs = ?r" using src by simp
    have "\<exists>q'. sb_write q dst ?bs = Some q'"
      using q False len less.prems(3) by (simp add: sb_write_def sb_ok_def write_bytes_def)
    then obtain q' where w: "sb_write q dst ?bs = Some q'" by blast
    have pre: "dst + length ?bs \<le> sb_len q" "sb_len q - dst \<le> length ?bs + length (concat (map sb_data rest))"
      using False len less.prems(3,5) by (simp_all add: S)
    note more = sb_write_more [OF q pre w]
    have rec: "copy_back (q' # ps) (dst + ?r) rest 0 = Some (fill_at q' (dst + ?r) (drop 0 (concat (map sb_data rest)))
        # fill ps (drop (sb_len q' - (dst + ?r)) (drop 0 (concat (map sb_data rest)))))"
    proof (rule less.hyps)
      show "sb_len q' - (dst + ?r) + sum_list (map sb_len ps) \<le> length (drop 0 (concat (map sb_data rest)))"
        using less.prems(5) len False unfolding S more(2) by simp
    qed (use less.prems(1,2) srcs more False in auto)
    have "drop ?n ?S = drop (?n - ?r) (concat (map sb_data rest))" using False len by (simp add: S)
    then show ?thesis
      using rd w rec more False len less.prems(3) src(2,3) by (simp add: srcs S min_def)
  qed
qed
subsection \<open>Every way of reading a chain gives the same packets\<close>

text \<open>A card whose second function is a stream of bytes, read in blocks or by the byte.\<close>

definition fifo_card :: "'d mmc \<Rightarrow> ('d \<Rightarrow> u8 list) \<Rightarrow> bool" where
  "fifo_card m fifo \<longleftrightarrow>
     (\<forall>d a v. fst (f1_wb m a v d) = 0 \<and> fifo (snd (f1_wb m a v d)) = fifo d) \<and>
     (\<forall>d a n. n \<le> length (fifo d) \<longrightarrow>
        fst (fn_read m 2 a n d) = (0, take n (fifo d)) \<and> fifo (snd (fn_read m 2 a n d)) = drop n (fifo d)) \<and>
     (\<forall>d a bs n sizes. bs * n \<le> length (fifo d) \<longrightarrow>
        fst (mmc_req m a bs n sizes [] d) = ((0, 0), take (bs * n) (fifo d)) \<and>
        fifo (snd (mmc_req m a bs n sizes [] d)) = drop (bs * n) (fifo d)) \<and>
     (\<forall>d n. fifo (snd (skb_alloc m n d)) = fifo d \<and>
        (\<exists>q. fst (skb_alloc m n d) = Some q \<and> sb_len q = 0 \<and> n + 4 \<le> skb_tailroom q))"

lemma fifo_wb: "fifo_card m fifo \<Longrightarrow> \<exists>d'. f1_wb m a v d = (0, d') \<and> fifo d' = fifo d"
  unfolding fifo_card_def by (metis prod.collapse)

lemma fifo_read: "fifo_card m fifo \<Longrightarrow> n \<le> length (fifo d) \<Longrightarrow>
    \<exists>d'. fn_read m 2 a n d = ((0, take n (fifo d)), d') \<and> fifo d' = drop n (fifo d)"
  unfolding fifo_card_def by (metis prod.collapse)

lemma fifo_req: "fifo_card m fifo \<Longrightarrow> bs * n \<le> length (fifo d) \<Longrightarrow>
    \<exists>d'. mmc_req m a bs n sizes [] d = (((0, 0), take (bs * n) (fifo d)), d') \<and> fifo d' = drop (bs * n) (fifo d)"
  unfolding fifo_card_def by (metis prod.collapse)

lemma fifo_alloc:
  assumes "fifo_card m fifo"
  obtains q d' where "skb_alloc m n d = (Some q, d')" "fifo d' = fifo d" "sb_len q = 0" "n + 4 \<le> skb_tailroom q"
proof -
  have "fifo (snd (skb_alloc m n d)) = fifo d"
    "\<exists>q. fst (skb_alloc m n d) = Some q \<and> sb_len q = 0 \<and> n + 4 \<le> skb_tailroom q"
    using assms unfolding fifo_card_def by simp_all
  then show ?thesis using that by (metis prod.collapse)
qed

lemma fifo_get_skb:
  assumes "fifo_card m fifo"
  shows "\<exists>p d'. brcmu_pkt_buf_get_skb m n s = Some (Some p, s\<lparr>sd_dev := d'\<rparr>) \<and> fifo d' = fifo (sd_dev s) \<and>
    sb_ok p \<and> sb_len p = n \<and> sb_off p + n + 4 \<le> length (sb_mem p)"
proof -
  obtain q d' where q: "skb_alloc m n (sd_dev s) = (Some q, d')" "fifo d' = fifo (sd_dev s)" "sb_len q = 0"
    "n + 4 \<le> skb_tailroom q" by (rule fifo_alloc [OF assms])
  then have "skb_put n q = Some (q\<lparr>sb_len := n\<rparr>)" by (simp add: skb_put_def)
  with q show ?thesis by (auto simp: brcmu_pkt_buf_get_skb_def sd_with_def sb_ok_def skb_tailroom_def)
qed

lemma fifo_window:
  assumes "fifo_card m fifo"
  shows "\<exists>d' w. brcmf_sdiod_set_backplane_window m a s = (0, s\<lparr>sd_dev := d', sbwad := w\<rparr>) \<and> fifo d' = fifo (sd_dev s)"
proof -
  have wb: "\<exists>d'. window_bytes m n r v s = (0, s\<lparr>sd_dev := d'\<rparr>) \<and> fifo d' = fifo (sd_dev s)" for n r v s
  proof (induction n arbitrary: r v s)
    case 0
    have "s = s\<lparr>sd_dev := sd_dev s\<rparr>" by simp
    then show ?case by (metis window_bytes.simps(1))
  next
    case (Suc n)
    obtain d1 where 1: "f1_wb m r (ucast (v AND 0xff)) (sd_dev s) = (0, d1)" "fifo d1 = fifo (sd_dev s)"
      using fifo_wb [OF assms] by blast
    obtain d2 where 2: "window_bytes m n (r + 1) (drop_bit 8 v) (s\<lparr>sd_dev := d1\<rparr>) = (0, s\<lparr>sd_dev := d2\<rparr>)"
      "fifo d2 = fifo d1" using Suc.IH [of "r + 1" "drop_bit 8 v" "s\<lparr>sd_dev := d1\<rparr>"] by auto
    show ?case by (rule exI [of _ d2]) (use 1 2 in \<open>simp add: brcmf_sdiod_writeb_def sd_with_def\<close>)
  qed
  show ?thesis
  proof (cases "a AND SBWINDOW_MASK = sbwad s")
    case True
    then show ?thesis
      by (intro exI [of _ "sd_dev s"] exI [of _ "sbwad s"]) (simp add: brcmf_sdiod_set_backplane_window_def)
  next
    case False
    obtain d' where "window_bytes m 3 SBADDRLOW (drop_bit 8 (a AND SBWINDOW_MASK)) s = (0, s\<lparr>sd_dev := d'\<rparr>)"
      "fifo d' = fifo (sd_dev s)" using wb by blast
    then show ?thesis using False by (auto simp: brcmf_sdiod_set_backplane_window_def)
  qed
qed

text \<open>A list that fits one request.\<close>

definition one_request :: "'d brcmf_sdio_dev \<Rightarrow> skbuf list \<Rightarrow> bool" where
  "one_request s ps \<longleftrightarrow> ps \<noteq> [] \<and> (\<forall>p\<in>set ps. sb_ok p \<and> 0 < sb_len p \<and> sb_len p \<le> max_segment_size s) \<and>
     sum_list (map sb_len ps) \<le> max_request_size s \<and> length ps \<le> max_segment_count s \<and> length ps \<le> sgt_nents s \<and>
     sum_list (map sb_len ps) mod f2_blksize s = 0 \<and> 0 < f2_blksize s"

lemma sglist_run_fill:
  assumes fc: "fifo_card m fifo" and one: "one_request s ps" and "sum_list (map sb_len ps) \<le> length (fifo (sd_dev s))"
  shows "\<exists>w d'. sglist_run m False 2 addr ps s = Some (0, w) \<and> sg_pkts w = fill ps (fifo (sd_dev s)) \<and>
    sg_sd w = s\<lparr>sd_dev := d'\<rparr> \<and> fifo d' = drop (sum_list (map sb_len ps)) (fifo (sd_dev s))"
proof -
  let ?ini = "sg_init False 2 addr ps s" and ?n = "sum_list (map sb_len ps)" and ?F = "fifo (sd_dev s)"
  let ?w = "sg_full ([] @ ps) ?ini\<lparr>sg_left := sg_left ?ini - length ps\<rparr>"
  have k: "min (max_segment_count s) (length ps) = length ([] @ ps)" using one by (simp add: one_request_def)
  have walk: "sg_packets m False 2 (length ([] @ ps)) [length ([] :: skbuf list)..<length ([] @ ps)] ?ini =
      do { (ret, w') \<leftarrow> mmc_submit_one m False 2 ?w;
           if ret \<noteq> 0 then Some (ret, w') else Some (0, w'\<lparr>sg_req := 0, sg_segs := [], sg_left := sgt_nents (sg_sd w')\<rparr>) }"
    by (rule sg_packets_one) (use one in \<open>auto simp: sg_init_def one_request_def\<close>)
  have blocks: "f2_blksize s * (?n div f2_blksize s) = ?n" using one by (auto simp: one_request_def)
  let ?arg = "sg_arg ?ini OR push_bit 9 (addr AND 0x1FFFF) OR (of_nat (?n div f2_blksize s) AND 0x1FF)"
  obtain d' where d': "mmc_req m ?arg (f2_blksize s) (?n div f2_blksize s) (map seg_size (segs_of 0 ps)) [] (sd_dev s)
      = (((0, 0), take ?n ?F), d')" "fifo d' = drop ?n ?F"
    using fifo_req [OF fc, of "f2_blksize s" "?n div f2_blksize s" "sd_dev s"] assms(3) unfolding blocks by blast
  have sc: "seg_scatter ps (segs_of 0 ps) (take ?n ?F) = Some (fill ps ?F)"
    using scatter_fill [of ps "take ?n ?F" "[]"] one assms(3) by (simp add: one_request_def fill_take)
  have sub: "\<exists>w'. mmc_submit_one m False 2 ?w = Some (0, w') \<and> sg_pkts w' = fill ps ?F \<and> sg_sd w' = s\<lparr>sd_dev := d'\<rparr>"
    using one d' sc
    by (simp add: mmc_submit_one_def sg_full_def sg_init_def sd_with_def medium_gone_def one_request_def)
  then obtain w' where w': "mmc_submit_one m False 2 ?w = Some (0, w')" "sg_pkts w' = fill ps ?F" "sg_sd w' = s\<lparr>sd_dev := d'\<rparr>"
    by blast
  have "sglist_run m False 2 addr ps s = Some (0, w'\<lparr>sg_req := 0, sg_segs := [], sg_left := sgt_nents (sg_sd w')\<rparr>)"
    using walk k w'(1) by (simp add: sglist_run_def)
  then show ?thesis using w' d'(2) by auto
qed
text \<open>The pages a host with broken scatter-gather support reads into.\<close>

lemma page_list_fifo:
  assumes "fifo_card m fifo"
  shows "0 < n \<Longrightarrow> \<exists>ps d'. page_list m n s = Some (Some ps, s\<lparr>sd_dev := d'\<rparr>) \<and> fifo d' = fifo (sd_dev s) \<and> ps \<noteq> [] \<and>
    sum_list (map sb_len ps) = n \<and> (\<forall>p\<in>set ps. sb_ok p \<and> 0 < sb_len p \<and> sb_len p \<le> 4096) \<and> length ps = (n + 4095) div 4096"
proof (induction n arbitrary: s rule: less_induct)
  case (less n)
  obtain p d where p: "brcmu_pkt_buf_get_skb m (min n 4096) s = Some (Some p, s\<lparr>sd_dev := d\<rparr>)" "fifo d = fifo (sd_dev s)"
    "sb_ok p" "sb_len p = min n 4096" using fifo_get_skb [OF assms, of "min n 4096" s] by blast
  show ?case
  proof (cases "n \<le> 4096")
    case True
    then have "(n + 4095) div 4096 = 1" using less.prems by (simp add: div_nat_eqI)
    then show ?thesis using p True less.prems by (subst page_list.simps) auto
  next
    case False
    have "\<exists>ps d'. page_list m (n - 4096) (s\<lparr>sd_dev := d\<rparr>) = Some (Some ps, s\<lparr>sd_dev := d\<rparr>\<lparr>sd_dev := d'\<rparr>) \<and>
      fifo d' = fifo (sd_dev (s\<lparr>sd_dev := d\<rparr>)) \<and> ps \<noteq> [] \<and> sum_list (map sb_len ps) = n - 4096 \<and>
      (\<forall>p\<in>set ps. sb_ok p \<and> 0 < sb_len p \<and> sb_len p \<le> 4096) \<and> length ps = (n - 4096 + 4095) div 4096"
      by (rule less.IH) (use False in auto)
    then obtain ps d' where ps: "page_list m (n - 4096) (s\<lparr>sd_dev := d\<rparr>) = Some (Some ps, s\<lparr>sd_dev := d'\<rparr>)"
      "fifo d' = fifo d" "ps \<noteq> []" "sum_list (map sb_len ps) = n - 4096"
      "\<forall>p\<in>set ps. sb_ok p \<and> 0 < sb_len p \<and> sb_len p \<le> 4096" "length ps = (n - 4096 + 4095) div 4096" by auto
    have "n + 4095 = n - 4096 + 4095 + 1 * 4096" using False by simp
    then have "(n + 4095) div 4096 = length (p # ps)" using ps(6) by (metis div_mult_self1 length_Cons add.commute
      plus_1_eq_Suc zero_neq_numeral)
    then show ?thesis using p ps False by (subst page_list.simps) auto
  qed
qed

text \<open>What the host must be able to take in one request, on each of the three ways.\<close>

definition chain_fits :: "'d brcmf_sdio_dev \<Rightarrow> skbuf list \<Rightarrow> bool" where
  "chain_fits s ps \<longleftrightarrow> ps \<noteq> [] \<and> (\<forall>p\<in>set ps. sb_ok p \<and> 0 < sb_len p) \<and>
     sum_list (map sb_len ps) mod f2_blksize s = 0 \<and> f2_blksize s mod 4 = 0 \<and> 0 < f2_blksize s \<and>
     (1 < length ps \<and> sg_support s \<longrightarrow> sum_list (map sb_len ps) \<le> max_request_size s \<and>
       (if broken_sg_support s then 4096 \<le> max_segment_size s \<and>
          (sum_list (map sb_len ps) + 4095) div 4096 \<le> min (max_segment_count s) (sgt_nents s)
        else (\<forall>p\<in>set ps. sb_len p \<le> max_segment_size s) \<and> length ps \<le> min (max_segment_count s) (sgt_nents s)))"

lemma sum_pos: "ps \<noteq> [] \<Longrightarrow> \<forall>p\<in>set ps. 0 < sb_len p \<Longrightarrow> 0 < sum_list (map sb_len ps)"
  by (cases ps) auto

lemma sglist_rw_fill:
  assumes fc: "fifo_card m fifo" and fit: "chain_fits s ps" "1 < length ps" "sg_support s"
    and len: "sum_list (map sb_len ps) \<le> length (fifo (sd_dev s))"
  shows "\<exists>s'. brcmf_sdiod_sglist_rw m 2 False addr ps s = Some (0, fill ps (fifo (sd_dev s)), s') \<and>
    fifo (sd_dev s') = drop (sum_list (map sb_len ps)) (fifo (sd_dev s))"
proof (cases "broken_sg_support s")
  case False
  then have "one_request s ps" using fit by (auto simp: one_request_def chain_fits_def)
  from sglist_run_fill [OF fc this len, of addr] show ?thesis
    using False fit(1) by (auto simp: brcmf_sdiod_sglist_rw_def chain_fits_def)
next
  case True
  let ?n = "sum_list (map sb_len ps)" and ?F = "fifo (sd_dev s)"
  have ps: "ps \<noteq> []" "\<forall>p\<in>set ps. sb_ok p \<and> 0 < sb_len p" "?n mod f2_blksize s = 0" "0 < f2_blksize s"
    using fit(1) by (auto simp: chain_fits_def)
  have r: "(?n + f2_blksize s - 1) div f2_blksize s * f2_blksize s = ?n"
  proof -
    obtain k where k: "?n = f2_blksize s * k" using ps(3) by auto
    have "(f2_blksize s * k + (f2_blksize s - 1)) div f2_blksize s = k + (f2_blksize s - 1) div f2_blksize s"
      using ps(4) by (intro div_mult_self4) simp
    also have "\<dots> = k" using ps(4) by simp
    finally show ?thesis using k ps(4) by (metis Nat.add_diff_assoc One_nat_def Suc_leI mult.commute)
  qed
  have "0 < ?n" using ps sum_pos by blast
  from page_list_fifo [OF fc this, of s] obtain pg d where pg: "page_list m ?n s = Some (Some pg, s\<lparr>sd_dev := d\<rparr>)"
    "fifo d = ?F" "pg \<noteq> []" "sum_list (map sb_len pg) = ?n" "\<forall>p\<in>set pg. sb_ok p \<and> 0 < sb_len p \<and> sb_len p \<le> 4096"
    "length pg = (?n + 4095) div 4096" by blast
  have "one_request (s\<lparr>sd_dev := d\<rparr>) pg" using fit True pg(3-6) ps
    by (force simp: one_request_def chain_fits_def)
  from sglist_run_fill [OF fc this, of addr] obtain w d' where w: "sglist_run m False 2 addr pg (s\<lparr>sd_dev := d\<rparr>) = Some (0, w)"
    "sg_pkts w = fill pg ?F" "sg_sd w = s\<lparr>sd_dev := d'\<rparr>" "fifo d' = drop ?n ?F" using len pg(2,4) by auto
  have data: "concat (map sb_data (fill pg ?F)) = take ?n ?F"
    using fill_data [of pg ?F] pg(4,5) len by (simp add: concat_deal)
  obtain q qs where q: "ps = q # qs" using ps(1) by (cases ps) auto
  have "copy_back (q # qs) 0 (fill pg ?F) 0 = Some (fill_at q 0 (drop 0 (concat (map sb_data (fill pg ?F))))
        # fill qs (drop (sb_len q - 0) (drop 0 (concat (map sb_data (fill pg ?F))))))"
  proof (rule copy_back_fill)
    have "\<forall>l\<in>set (map sb_len (fill pg ?F)). 0 < l" unfolding fill_lens using pg(5) by simp
    then show "\<forall>p\<in>set (fill pg ?F). sb_ok p \<and> 0 < sb_len p"
      using fill_ok [of pg ?F] pg(4,5) len by simp
    show "sb_len q - 0 + sum_list (map sb_len qs) \<le> length (drop 0 (concat (map sb_data (fill pg ?F))))"
      unfolding data using len q by simp
  qed (use ps(2) q in auto)
  then have "copy_back ps 0 (fill pg ?F) 0 = Some (fill ps (take ?n ?F))" unfolding data q by (simp add: fill_at_0)
  then have "copy_back ps 0 (sg_pkts w) 0 = Some (fill ps ?F)" unfolding w(2) by (simp add: fill_take)
  then show ?thesis using True ps(1) r pg(1) w by (simp add: brcmf_sdiod_sglist_rw_def Let_def)
qed

lemma recv_chain_glom:
  assumes "1 < length ps" and "brcmf_sdiod_set_backplane_window m (cc_base s) s = (0, s1)" and "\<not> sg_support s1"
    and "brcmu_pkt_buf_get_skb m n s1 = Some (Some g, s2)"
    and "brcmf_sdiod_skbuff_read m 2 (sb_window_addr (cc_base s)) g s2 = Some (0, g', s3)"
    and "split_glom ps g' = Some ps'"
  shows "brcmf_sdiod_recv_chain m ps n s = Some (0, ps', s3)"
proof -
  obtain p q r where "ps = p # q # r" using assms(1) by (cases ps; cases "tl ps") auto
  then show ?thesis using assms(2-6) by (simp add: brcmf_sdiod_recv_chain_def del: split_glom.simps)
qed

lemma recv_chain_fill:
  assumes "fifo_card m fifo" and "chain_fits s ps" and "sum_list (map sb_len ps) \<le> length (fifo (sd_dev s))"
  shows "\<exists>s'. brcmf_sdiod_recv_chain m ps (sum_list (map sb_len ps)) s = Some (0, fill ps (fifo (sd_dev s)), s') \<and>
      fifo (sd_dev s') = drop (sum_list (map sb_len ps)) (fifo (sd_dev s))"
proof -
  let ?n = "sum_list (map sb_len ps)" and ?F = "fifo (sd_dev s)" and ?a = "sb_window_addr (cc_base s)"
  have ps: "ps \<noteq> []" "\<forall>p\<in>set ps. sb_ok p \<and> 0 < sb_len p" using assms(2) by (auto simp: chain_fits_def)
  have "?n mod 4 = 0" using assms(2) unfolding chain_fits_def by (metis dvd_trans mod_0_imp_dvd dvd_imp_mod_0)
  then have round: "req_round ?n = ?n" by (auto simp: req_round_def)
  obtain d w where win: "brcmf_sdiod_set_backplane_window m (cc_base s) s = (0, s\<lparr>sd_dev := d, sbwad := w\<rparr>)" "fifo d = ?F"
    using fifo_window [OF assms(1)] by blast
  let ?s = "s\<lparr>sd_dev := d, sbwad := w\<rparr>"
  have "\<exists>s'. brcmf_sdiod_recv_chain m ps ?n s = Some (0, fill ps ?F, s') \<and> fifo (sd_dev s') = drop ?n ?F"
  proof (cases "length ps = 1")
    case True
    then obtain p where p: "ps = [p]" by (cases ps) auto
    obtain d' where "fn_read m 2 ?a ?n d = ((0, take ?n ?F), d')" "fifo d' = drop ?n ?F"
      using fifo_read [OF assms(1), of ?n d] assms(3) win(2) by auto
    moreover have "sb_write p 0 (take ?n ?F) = Some (fill_one p ?F)"
      using sb_write_fill [of p "take ?n ?F"] ps p assms(3) by (simp add: fill_one_take)
    ultimately show ?thesis using win round p
      by (simp add: brcmf_sdiod_recv_chain_def brcmf_sdiod_skbuff_read_def sd_with_def medium_gone_def)
  next
    case False
    then obtain p q r where p: "ps = p # q # r" using ps(1) by (cases ps; cases "tl ps") auto
    show ?thesis
    proof (cases "sg_support s")
      case True
      have "chain_fits ?s ps" using assms(2) by (auto simp: chain_fits_def split: if_splits)
      then obtain s' where "brcmf_sdiod_sglist_rw m 2 False ?a ps ?s = Some (0, fill ps ?F, s')"
        "fifo (sd_dev s') = drop ?n ?F"
        using sglist_rw_fill [OF assms(1), of ?s ps ?a] True assms(3) win(2) p by auto
      then show ?thesis using True win(1) p by (simp add: brcmf_sdiod_recv_chain_def)
    next
      case False
      obtain g e where g: "brcmu_pkt_buf_get_skb m ?n ?s = Some (Some g, ?s\<lparr>sd_dev := e\<rparr>)" "fifo e = ?F"
        "sb_ok g" "sb_len g = ?n" using fifo_get_skb [OF assms(1), of ?n ?s] win(2) by auto
      obtain d' where d': "fn_read m 2 ?a ?n e = ((0, take ?n ?F), d')" "fifo d' = drop ?n ?F"
        using fifo_read [OF assms(1), of ?n e] assms(3) g(2) by auto
      have wr: "sb_write g 0 (take ?n ?F) = Some (fill_one g (take ?n ?F))"
        by (rule sb_write_fill) (use g assms(3) in auto)
      have "sb_data (fill_one g (take ?n ?F)) = take ?n ?F"
        using fill_one_data [of g "take ?n ?F"] g assms(3) by simp
      then have "split_glom ps (fill_one g (take ?n ?F)) = Some (fill ps ?F)"
        using split_glom_fill [of "fill_one g (take ?n ?F)" ps] fill_one_ok [of g "take ?n ?F"] ps(2) g(3,4) assms(3)
        by (simp add: fill_take fill_one_def)
      moreover have "brcmf_sdiod_skbuff_read m 2 ?a g (?s\<lparr>sd_dev := e\<rparr>)
          = Some (0, fill_one g (take ?n ?F), ?s\<lparr>sd_dev := d'\<rparr>)"
        using d'(1) wr g(4) round by (simp add: brcmf_sdiod_skbuff_read_def sd_with_def medium_gone_def)
      ultimately have "brcmf_sdiod_recv_chain m ps ?n s = Some (0, fill ps ?F, ?s\<lparr>sd_dev := d'\<rparr>)"
        using recv_chain_glom [OF _ win(1) _ g(1)] False p by simp
      then show ?thesis using d'(2) by simp
    qed
  qed
  then show ?thesis .
qed
text \<open>C24: The three ways of reading a chain are equivalent. Whether the chain is a single packet read directly, is
  read into one buffer and copied out, is scattered by the host, or is scattered into pages first and copied
  back, \<open>brcmf_sdiod_recv_chain\<close> succeeds and the packets hold consecutive pieces of the card's stream, each
  as long as it was, and exactly those bytes are taken from the card.\<close>

theorem recv_chain_equiv:
  assumes "fifo_card m fifo" and "chain_fits s ps" and "sum_list (map sb_len ps) \<le> length (fifo (sd_dev s))"
  shows "\<exists>ps' s'. brcmf_sdiod_recv_chain m ps (sum_list (map sb_len ps)) s = Some (0, ps', s') \<and>
      map sb_data ps' = deal (map sb_len ps) (fifo (sd_dev s)) \<and>
      fifo (sd_dev s') = drop (sum_list (map sb_len ps)) (fifo (sd_dev s))"
proof -
  have "\<forall>p\<in>set ps. sb_ok p" using assms(2) by (simp add: chain_fits_def)
  then show ?thesis using recv_chain_fill [OF assms] fill_data [of ps "fifo (sd_dev s)"] assms(3) by auto
qed

text \<open>A card whose function 2 streams the bytes it holds, and the witness: two packets of two words on a host
  with broken scatter-gather support.\<close>

definition stream_card :: "u8 list mmc" where
  "stream_card = \<lparr>f0_rb = (\<lambda>a d. ((0, 0), d)), f0_wb = (\<lambda>a v d. (0, d)), f1_rb = (\<lambda>a d. ((0, 0), d)),
     f1_wb = (\<lambda>a v d. (0, d)), f1_rl = (\<lambda>a d. ((0, 0), d)), f1_wl = (\<lambda>a v d. (0, d)),
     fn_read = (\<lambda>k a n d. ((0, take n d), drop n d)), fn_write = (\<lambda>k a bs d. (0, d)),
     mmc_req = (\<lambda>a bs n sizes out d. (((0, 0), take (bs * n) d), drop (bs * n) d)),
     skb_alloc = (\<lambda>n d. (Some \<lparr>sb_addr = 0, sb_mem = replicate (n + 4) 0, sb_off = 0, sb_len = 0, sb_cb = 0, sb_id = 0\<rparr>, d))\<rparr>"

definition stream_sd :: "bool \<Rightarrow> bool \<Rightarrow> u8 list brcmf_sdio_dev" where
  "stream_sd sg broken = \<lparr>sbwad = 0, sd_state = SDIOD_DATA, sd_busup = True, irq_en = True, sg_support = sg,
     broken_sg_support = broken, max_request_size = 4096, max_segment_count = 8, max_segment_size = 4096, txglomsz = 1,
     sgt_nents = 8, f2_blksize = 4, cc_base = 0x18000000, sd_dev = [1, 2, 3, 4, 5, 6, 7, 8, 9, 10]\<rparr>"

definition wit_pkt :: "nat \<Rightarrow> skbuf" where
  "wit_pkt n = \<lparr>sb_addr = 0, sb_mem = replicate 8 0, sb_off = 2, sb_len = n, sb_cb = 0, sb_id = 0\<rparr>"

lemma stream_card_fifo: "fifo_card stream_card (\<lambda>d. d)"
  by (auto simp: fifo_card_def stream_card_def skb_tailroom_def)

theorem recv_chain_equiv_witness:
  "\<exists>ps' s'. brcmf_sdiod_recv_chain stream_card [wit_pkt 3, wit_pkt 5] 8 (stream_sd True True) = Some (0, ps', s') \<and>
     map sb_data ps' = [[1, 2, 3], [4, 5, 6, 7, 8]] \<and> sd_dev s' = [9, 10]"
proof -
  have "chain_fits (stream_sd True True) [wit_pkt 3, wit_pkt 5]"
    by (simp add: chain_fits_def stream_sd_def wit_pkt_def sb_ok_def)
  from recv_chain_equiv [OF stream_card_fifo this] show ?thesis
    by (simp add: stream_sd_def wit_pkt_def)
qed

end
