(* ===== verification/Sdio.thy ===== *)
theory Sdio
  imports Bcmsdh PktQueue
begin

text \<open>
  The SDIO bus layer (\<open>sdio.c\<close>), part one: the state of \<open>struct brcmf_sdio\<close>, the send window, clocks and
  sleep, the mailbox, frame termination, the header of the software-defined protocol, superframes and the
  receive loop.

  The functions change the bus record, which contains the state of the card below it; a read outside a buffer
  is \<^const>\<open>None\<close>. What leaves the layer (received packets, freed packets, wake-ups) goes to a log. A
  \<open>struct brcmf_sdio_hdrinfo\<close> that a function gets by reference is either \<open>cur_read\<close> of the bus or the local one
  of the caller, kept in \<open>rd_loc\<close>: the two are told apart because terminating a frame clears the length of the
  first. Locking, debug output and the DEBUG build are not modelled.
\<close>

section \<open>State\<close>

record brcmf_sdio_hdrinfo =
  seq_num :: u8
  channel :: u8
  hd_len :: u16
  len_left :: u16
  len_nxtfrm :: u16
  dat_offset :: u8
  lastfrm :: bool
  tail_pad :: u16

datatype brcmf_sdio_count = intrcount | lastintrs | pollcnt | tx_sderrs | fcqueued | rxrtx | rx_toolong | rxc_errors | rx_hdrfail
  | rx_badhdr | rx_badseq | fc_rcvd | fc_xoff | fc_xon | rxglomfail | rxglomframes | rxglompkts | f2rxhdrs
  | f2rxdata | f2txdata | f1regdata | tickcnt | tx_ctlerrs | tx_ctlpkts | rx_ctlerrs | rx_ctlpkts
  | rx_readahead_cnt | pktcowed | pktcow_failed

datatype brcmf_sdio_clkstate = CLK_NONE | CLK_SDONLY | CLK_PENDING | CLK_AVAIL
datatype brcmf_sdio_frmtype = FT_NORMAL | FT_SUPER | FT_SUB

datatype sdio_action = RxEvent skbuf | RxFrame skbuf | FreePkt skbuf | FwCrashed | WakeDcmd | WakeCtrl
  | TxComplete skbuf bool | TxFlowblock bool | QueueWork

record 'd brcmf_sdio =
  sd :: "'d brcmf_sdio_dev"
  hostintmask :: u32
  intstatus :: u32
  fcstate :: bool
  blocksize :: nat
  roundup :: nat
  txq :: "skbuf pktq"
  flowcontrol :: u8
  tx_seq :: u8
  tx_max :: u8
  rxhdr :: "u8 list"
  rx_seq :: u8
  cur_read :: brcmf_sdio_hdrinfo
  rd_loc :: brcmf_sdio_hdrinfo
  rxskip :: bool
  rxpending :: bool
  rxbound :: nat
  txbound :: nat
  txminmax :: nat
  glomd :: "skbuf option"
  glom :: "skbuf list"
  rxbuf_addr :: nat
  rxblen :: nat
  rxctl :: "(u8 list \<times> nat) option"
  rxlen :: nat
  sdpcm_ver :: u8
  use_intr :: bool
  use_poll :: bool
  ipend :: bool
  pollrate :: nat
  polltick :: nat
  clkstate :: brcmf_sdio_clkstate
  idletime :: int
  idlecount :: int
  alp_only :: bool
  ctrl_frame_buf :: skbuf
  ctrl_frame_len :: u16
  ctrl_frame_stat :: bool
  ctrl_frame_err :: int
  wd_active :: bool
  dpc_triggered :: bool
  dpc_running :: bool
  txoff :: bool
  sdcnt :: "brcmf_sdio_count \<Rightarrow> u32"
  sr_enabled :: bool
  sleeping :: bool
  tx_hdrlen :: u8
  txglom :: bool
  head_align :: u16
  sgentry_align :: u16
  sdio_log :: "sdio_action list"

text \<open>The surroundings: the MMC stack, the base address of the SDIO core, the chip, the limit for control frames,
  what an uninitialised header record holds, whether memory for a control frame can be had, the reallocation of a
  packet with more room in front or behind, and how often the clock is polled before the time is up.\<close>

record 'd sdio_env =
  e_mmc :: "'d mmc"
  e_core :: u32
  e_chip :: u32
  e_maxctl :: nat
  e_garbage :: brcmf_sdio_hdrinfo
  e_vzalloc :: "nat \<Rightarrow> 'd \<Rightarrow> bool"
  e_cow :: "skbuf \<Rightarrow> nat \<Rightarrow> 'd \<Rightarrow> skbuf option \<times> 'd"
  e_expand :: "skbuf \<Rightarrow> nat \<Rightarrow> 'd \<Rightarrow> skbuf option \<times> 'd"
  e_polls :: "'d \<Rightarrow> nat"

definition count :: "brcmf_sdio_count \<Rightarrow> u32 \<Rightarrow> 'd brcmf_sdio \<Rightarrow> 'd brcmf_sdio" where
  "count c n b = b\<lparr>sdcnt := (sdcnt b)(c := sdcnt b c + n)\<rparr>"

definition sdio_emit :: "sdio_action \<Rightarrow> 'd brcmf_sdio \<Rightarrow> 'd brcmf_sdio" where
  "sdio_emit a b = b\<lparr>sdio_log := sdio_log b @ [a]\<rparr>"

definition on_sd :: "('d brcmf_sdio_dev \<Rightarrow> 'a \<times> 'd brcmf_sdio_dev) \<Rightarrow> 'd brcmf_sdio \<Rightarrow> 'a \<times> 'd brcmf_sdio" where
  "on_sd f b = (let (r, s) = f (sd b) in (r, b\<lparr>sd := s\<rparr>))"

definition rd_get :: "bool \<Rightarrow> 'd brcmf_sdio \<Rightarrow> brcmf_sdio_hdrinfo" where
  "rd_get cur b = (if cur then cur_read b else rd_loc b)"

definition rd_upd :: "bool \<Rightarrow> (brcmf_sdio_hdrinfo \<Rightarrow> brcmf_sdio_hdrinfo) \<Rightarrow> 'd brcmf_sdio \<Rightarrow> 'd brcmf_sdio" where
  "rd_upd cur f b = (if cur then b\<lparr>cur_read := f (cur_read b)\<rparr> else b\<lparr>rd_loc := f (rd_loc b)\<rparr>)"

abbreviation E_NODATA :: int where "E_NODATA \<equiv> - 61"
abbreviation E_PROTO :: int where "E_PROTO \<equiv> - 71"
abbreviation E_NXIO :: int where "E_NXIO \<equiv> - 6"
abbreviation E_BADE :: int where "E_BADE \<equiv> - 52"
abbreviation FIRSTREAD :: nat where "FIRSTREAD \<equiv> 64"
abbreviation MAX_RX_DATASZ :: nat where "MAX_RX_DATASZ \<equiv> 2048"
abbreviation SDPCM_HDRLEN :: nat where "SDPCM_HDRLEN \<equiv> 12"
abbreviation TXCTL_CREDITS :: int where "TXCTL_CREDITS \<equiv> 2"

definition round_up :: "nat \<Rightarrow> nat \<Rightarrow> nat" where
  "round_up n a = (n + a - 1) div a * a"

section \<open>The send window\<close>

text \<open>The bytes are promoted to \<open>int\<close> before they are subtracted.\<close>

definition data_ok :: "'d brcmf_sdio \<Rightarrow> bool" where
  "data_ok b = (let tx_rsv = (if ctrl_frame_stat b then TXCTL_CREDITS else 0);
       n = int (unat (tx_max b)) - int (unat (tx_seq b)) - tx_rsv
     in n \<noteq> 0 \<and> n AND 0x80 = 0)"

definition txctl_ok :: "'d brcmf_sdio \<Rightarrow> bool" where
  "txctl_ok b = (let n = int (unat (tx_max b)) - int (unat (tx_seq b)) in n \<noteq> 0 \<and> n AND 0x80 = 0)"

definition pkt_align :: "nat \<Rightarrow> nat \<Rightarrow> skbuf \<Rightarrow> skbuf" where
  "pkt_align len align p = (let datalign = round_up (sb_ptr p) align - sb_ptr p in
     skb_set_trim len (if datalign \<noteq> 0 then skb_pull datalign p else p))"

section \<open>Clocks and sleep\<close>

abbreviation SLEEPCSR :: nat where "SLEEPCSR \<equiv> 0x1001F"
abbreviation CHIPCLKCSR :: nat where "CHIPCLKCSR \<equiv> 0x1000E"
abbreviation DEVICE_CTL :: nat where "DEVICE_CTL \<equiv> 0x10009"
abbreviation FRAMECTRL :: nat where "FRAMECTRL \<equiv> 0x1000D"
abbreviation CY_CC_43012_CHIP_ID :: u32 where "CY_CC_43012_CHIP_ID \<equiv> 43012"

definition readb :: "'d sdio_env \<Rightarrow> nat \<Rightarrow> 'd brcmf_sdio \<Rightarrow> (u8 \<times> int) \<times> 'd brcmf_sdio" where
  "readb e a = on_sd (brcmf_sdiod_readb (e_mmc e) a)"

definition writeb :: "'d sdio_env \<Rightarrow> nat \<Rightarrow> u8 \<Rightarrow> 'd brcmf_sdio \<Rightarrow> int \<times> 'd brcmf_sdio" where
  "writeb e a v = on_sd (brcmf_sdiod_writeb (e_mmc e) a v)"

definition readl :: "'d sdio_env \<Rightarrow> u32 \<Rightarrow> 'd brcmf_sdio \<Rightarrow> (u32 \<times> int) \<times> 'd brcmf_sdio" where
  "readl e a = on_sd (brcmf_sdiod_readl (e_mmc e) a)"

definition writel :: "'d sdio_env \<Rightarrow> u32 \<Rightarrow> u32 \<Rightarrow> 'd brcmf_sdio \<Rightarrow> int \<times> 'd brcmf_sdio" where
  "writel e a v = on_sd (brcmf_sdiod_writel (e_mmc e) a v)"

text \<open>The repeated check of the KSO bit: attempts left, consecutive errors.\<close>

fun kso_poll :: "'d sdio_env \<Rightarrow> u8 \<Rightarrow> u8 \<Rightarrow> u8 \<Rightarrow> nat \<Rightarrow> nat \<Rightarrow> 'd brcmf_sdio \<Rightarrow> int \<times> 'd brcmf_sdio" where
  "kso_poll e wr bmask cmp n err_cnt b = (let ((rd, err), b) = readb e SLEEPCSR b in
     if err = 0 \<and> rd AND bmask = cmp then (err, b)
     else let err_cnt = (if err = 0 then 0 else err_cnt) in
       if err \<noteq> 0 \<and> 5 < err_cnt then (err, b)
       else let err_cnt = (if err \<noteq> 0 then err_cnt + 1 else err_cnt); (err, b) = writeb e SLEEPCSR wr b
         in (case n of 0 \<Rightarrow> (err, b) | Suc n \<Rightarrow> kso_poll e wr bmask cmp n err_cnt b))"

declare kso_poll.simps [simp del]

definition brcmf_sdio_kso_control :: "'d sdio_env \<Rightarrow> bool \<Rightarrow> 'd brcmf_sdio \<Rightarrow> int \<times> 'd brcmf_sdio" where
  "brcmf_sdio_kso_control e on b = (let wr = (if on then 1 else 0); (err, b) = writeb e SLEEPCSR wr b in
     if \<not> on \<and> e_chip e = CY_CC_43012_CHIP_ID then (err, b)
     else kso_poll e wr (if on then 3 else 1) (if on then 3 else 0) 20000 0 b)"

definition SBSDIO_CLKAV :: "u8 \<Rightarrow> bool \<Rightarrow> bool" where
  "SBSDIO_CLKAV regval alponly \<longleftrightarrow> regval AND 0xC0 \<noteq> 0 \<and> (if alponly then True else regval AND 0xC0 = 0xC0)"

text \<open>Waiting for the clock: \<open>n\<close> polls until the time is up, the last value read and its error.\<close>

fun htclk_wait :: "'d sdio_env \<Rightarrow> bool \<Rightarrow> nat \<Rightarrow> u8 \<Rightarrow> int \<Rightarrow> 'd brcmf_sdio \<Rightarrow> (u8 \<times> int) \<times> 'd brcmf_sdio" where
  "htclk_wait e alp n clkctl err b =
     (if SBSDIO_CLKAV clkctl alp then ((clkctl, err), b)
      else let ((clkctl, err), b) = readb e CHIPCLKCSR b in
        case n of 0 \<Rightarrow> ((clkctl, err), b) | Suc n \<Rightarrow> htclk_wait e alp n clkctl err b)"

declare htclk_wait.simps [simp del]

definition cancel_ca_only :: "'d sdio_env \<Rightarrow> int \<Rightarrow> 'd brcmf_sdio \<Rightarrow> int \<times> 'd brcmf_sdio" where
  "cancel_ca_only e err b = (if clkstate b = CLK_PENDING then
       let ((devctl, err), b) = readb e DEVICE_CTL b in writeb e DEVICE_CTL (devctl AND NOT 0x04) b
     else (err, b))"

definition htclk_on :: "'d sdio_env \<Rightarrow> bool \<Rightarrow> 'd brcmf_sdio \<Rightarrow> int \<times> 'd brcmf_sdio" where
  "htclk_on e pendok b = (
     let clkreq = (if alp_only b then 0x08 else 0x10); (err, b) = writeb e CHIPCLKCSR clkreq b in
     if err \<noteq> 0 then (E_BADE, b)
     else let ((clkctl, err), b) = readb e CHIPCLKCSR b in
     if err \<noteq> 0 then (E_BADE, b)
     else if \<not> SBSDIO_CLKAV clkctl (alp_only b) \<and> pendok then
       let ((devctl, err), b) = readb e DEVICE_CTL b in
       if err \<noteq> 0 then (E_BADE, b)
       else let (err, b) = writeb e DEVICE_CTL (devctl OR 0x04) b in (0, b\<lparr>clkstate := CLK_PENDING\<rparr>)
     else let (err, b) = cancel_ca_only e err b;
              ((clkctl, err), b) = htclk_wait e (alp_only b) (e_polls e (sd_dev (sd b))) clkctl err b
       in if err \<noteq> 0 then (E_BADE, b)
          else if \<not> SBSDIO_CLKAV clkctl (alp_only b) then (E_BADE, b)
          else (0, b\<lparr>clkstate := CLK_AVAIL\<rparr>))"

definition brcmf_sdio_htclk :: "'d sdio_env \<Rightarrow> bool \<Rightarrow> bool \<Rightarrow> 'd brcmf_sdio \<Rightarrow> int \<times> 'd brcmf_sdio" where
  "brcmf_sdio_htclk e on pendok b = (
     if sr_enabled b then (0, b\<lparr>clkstate := (if on then CLK_AVAIL else CLK_SDONLY)\<rparr>)
     else if on then htclk_on e pendok b
     else let (err, b) = cancel_ca_only e 0 b;
              (err, b) = writeb e CHIPCLKCSR 0 (b\<lparr>clkstate := CLK_SDONLY\<rparr>)
       in (if err \<noteq> 0 then E_BADE else 0, b))"

definition brcmf_sdio_sdclk :: "bool \<Rightarrow> 'd brcmf_sdio \<Rightarrow> 'd brcmf_sdio" where
  "brcmf_sdio_sdclk on b = b\<lparr>clkstate := (if on then CLK_SDONLY else CLK_NONE)\<rparr>"

definition brcmf_sdio_clkctl ::
  "'d sdio_env \<Rightarrow> brcmf_sdio_clkstate \<Rightarrow> bool \<Rightarrow> 'd brcmf_sdio \<Rightarrow> 'd brcmf_sdio" where
  "brcmf_sdio_clkctl e target pendok b = (
     if clkstate b = target then b
     else case target of
       CLK_AVAIL \<Rightarrow> let b = (if clkstate b = CLK_NONE then brcmf_sdio_sdclk True b else b)
         in snd (brcmf_sdio_htclk e True pendok b)
     | CLK_SDONLY \<Rightarrow> if clkstate b = CLK_NONE then brcmf_sdio_sdclk True b
         else if clkstate b = CLK_AVAIL then snd (brcmf_sdio_htclk e False False b) else b
     | CLK_NONE \<Rightarrow> let b = (if clkstate b = CLK_AVAIL then snd (brcmf_sdio_htclk e False False b) else b)
         in brcmf_sdio_sdclk False b
     | CLK_PENDING \<Rightarrow> b)"

text \<open>The watchdog timer: nothing is started while the bus is not ready for data.\<close>

definition brcmf_sdio_wd_timer :: "bool \<Rightarrow> 'd brcmf_sdio \<Rightarrow> 'd brcmf_sdio" where
  "brcmf_sdio_wd_timer active b = (
     if \<not> active \<and> wd_active b then b\<lparr>wd_active := False\<rparr>
     else if sd_state (sd b) \<noteq> SDIOD_DATA then b
     else if active then b\<lparr>wd_active := True\<rparr> else b)"

definition brcmf_sdio_bus_sleep ::
  "'d sdio_env \<Rightarrow> bool \<Rightarrow> bool \<Rightarrow> 'd brcmf_sdio \<Rightarrow> int \<times> 'd brcmf_sdio" where
  "brcmf_sdio_bus_sleep e slp pendok b = (
     let (err, b) =
       (if sr_enabled b \<and> slp \<noteq> sleeping b then
          let b = (if slp then
                 let ((clkcsr, err), b) = readb e CHIPCLKCSR b
                 in if clkcsr AND 0x1F = 0 then snd (writeb e CHIPCLKCSR 0x08 b) else b
               else b)
          in brcmf_sdio_kso_control e (\<not> slp) b
        else (0, b))
     in if err \<noteq> 0 then (err, b)
        else let b = (if slp then if \<not> sr_enabled b then brcmf_sdio_clkctl e CLK_NONE pendok b else b
                      else brcmf_sdio_wd_timer True (brcmf_sdio_clkctl e CLK_AVAIL pendok b))
          in (0, b\<lparr>sleeping := slp\<rparr>))"

section \<open>The mailbox\<close>

abbreviation I_HMB_FRAME_IND :: u32 where "I_HMB_FRAME_IND \<equiv> 0x40"
abbreviation REG_INTSTATUS :: u32 where "REG_INTSTATUS \<equiv> 0x20"
abbreviation REG_HOSTINTMASK :: u32 where "REG_HOSTINTMASK \<equiv> 0x24"
abbreviation REG_TOSBMAILBOX :: u32 where "REG_TOSBMAILBOX \<equiv> 0x40"
abbreviation REG_TOHOSTMAILBOXDATA :: u32 where "REG_TOHOSTMAILBOXDATA \<equiv> 0x4c"

definition set_flowcontrol :: "u8 \<Rightarrow> 'd brcmf_sdio \<Rightarrow> 'd brcmf_sdio" where
  "set_flowcontrol fc b = (
     let old = flowcontrol b;
         b = (if fc AND NOT old \<noteq> 0 then count fc_xoff 1 b else b);
         b = (if old AND NOT fc \<noteq> 0 then count fc_xon 1 b else b)
     in (count fc_rcvd 1 b)\<lparr>flowcontrol := fc\<rparr>)"

definition brcmf_sdio_hostmail :: "'d sdio_env \<Rightarrow> 'd brcmf_sdio \<Rightarrow> u32 \<times> 'd brcmf_sdio" where
  "brcmf_sdio_hostmail e b = (
     let ((hmb_data, ret), b) = readl e (e_core e + REG_TOHOSTMAILBOXDATA) b;
         b = (if ret = 0 then snd (writel e (e_core e + REG_TOSBMAILBOX) 2 b) else b);
         b = count f1regdata 2 b;
         b = (if hmb_data AND 0x10 \<noteq> 0 then sdio_emit FwCrashed b else b);
         (ints, b) = (if hmb_data AND 0x01 \<noteq> 0 then (I_HMB_FRAME_IND, b\<lparr>rxskip := False\<rparr>) else (0, b));
         b = (if hmb_data AND 0x0A \<noteq> 0 then b\<lparr>sdpcm_ver := ucast (drop_bit 16 (hmb_data AND 0x00ff0000))\<rparr> else b);
         b = (if hmb_data AND 0x04 \<noteq> 0 then set_flowcontrol (ucast (drop_bit 24 (hmb_data AND 0xff000000))) b else b)
     in (ints, b))"

section \<open>Terminating a frame\<close>

fun rx_flush :: "'d sdio_env \<Rightarrow> nat \<Rightarrow> 'd brcmf_sdio \<Rightarrow> 'd brcmf_sdio" where
  "rx_flush e 0 b = b"
| "rx_flush e (Suc n) b = (
     let ((hi, err), b) = readb e 0x1001C b; ((lo, err), b) = readb e 0x1001B b; b = count f1regdata 2 b
     in if hi = 0 \<and> lo = 0 then b else rx_flush e n b)"

definition brcmf_sdio_rxfail :: "'d sdio_env \<Rightarrow> bool \<Rightarrow> bool \<Rightarrow> 'd brcmf_sdio \<Rightarrow> 'd brcmf_sdio" where
  "brcmf_sdio_rxfail e abort rtx b = (
     let b = (if abort then b\<lparr>sd := brcmf_sdiod_abort (e_mmc e) 2 (sd b)\<rparr> else b);
         b = count f1regdata 1 (snd (writeb e FRAMECTRL 1 b));
         b = rx_flush e 0xffff b;
         b = (if rtx then
                let b = count rxrtx 1 b; (err, b) = writel e (e_core e + REG_TOSBMAILBOX) 1 b; b = count f1regdata 1 b
                in if err = 0 then b\<lparr>rxskip := True\<rparr> else b
              else b)
     in b\<lparr>cur_read := (cur_read b)\<lparr>hd_len := 0\<rparr>\<rparr>)"

fun tx_flush :: "'d sdio_env \<Rightarrow> nat \<Rightarrow> 'd brcmf_sdio \<Rightarrow> 'd brcmf_sdio" where
  "tx_flush e 0 b = b"
| "tx_flush e (Suc n) b = (
     let ((hi, err), b) = readb e 0x1001A b; ((lo, err), b) = readb e 0x10019 b; b = count f1regdata 2 b
     in if hi = 0 \<and> lo = 0 then b else tx_flush e n b)"

definition brcmf_sdio_txfail :: "'d sdio_env \<Rightarrow> 'd brcmf_sdio \<Rightarrow> 'd brcmf_sdio" where
  "brcmf_sdio_txfail e b = (
     let b = count tx_sderrs 1 b;
         b = b\<lparr>sd := brcmf_sdiod_abort (e_mmc e) 2 (sd b)\<rparr>;
         b = count f1regdata 1 (snd (writeb e FRAMECTRL 2 b))
     in tx_flush e 3 b)"

definition brcmf_sdio_glom_len :: "'d brcmf_sdio \<Rightarrow> nat" where
  "brcmf_sdio_glom_len b = sum_list (map sb_len (glom b))"

definition brcmf_sdio_free_glom :: "'d brcmf_sdio \<Rightarrow> 'd brcmf_sdio" where
  "brcmf_sdio_free_glom b = b\<lparr>glom := [], sdio_log := sdio_log b @ map FreePkt (glom b)\<rparr>"

section \<open>The header\<close>

text \<open>A header is at least the twelve bytes the parser reads; its words are little endian.\<close>

definition hdr_word :: "u8 list \<Rightarrow> nat \<Rightarrow> u32 option" where
  "hdr_word h off = do {
     a \<leftarrow> nth_opt h off; b \<leftarrow> nth_opt h (off + 1); c \<leftarrow> nth_opt h (off + 2); d \<leftarrow> nth_opt h (off + 3);
     Some (of_le32 a b c d) }"

definition hdr_half :: "u8 list \<Rightarrow> nat \<Rightarrow> u16 option" where
  "hdr_half h off = do { a \<leftarrow> nth_opt h off; b \<leftarrow> nth_opt h (off + 1); Some (of_le16 a b) }"

definition brcmf_sdio_getdatoffset :: "u32 \<Rightarrow> u8" where
  "brcmf_sdio_getdatoffset swheader = ucast (drop_bit 24 (swheader AND 0xff000000))"

definition sdpcm_channel :: "u32 \<Rightarrow> u8" where
  "sdpcm_channel swheader = ucast (drop_bit 8 (swheader AND 0x00000f00))"

definition brcmf_sdio_fromevntchan :: "u32 \<Rightarrow> bool" where
  "brcmf_sdio_fromevntchan swheader \<longleftrightarrow> sdpcm_channel swheader = 1"

text \<open>The second half: window and flow control, which a subframe does not carry.\<close>

definition hdparse_window :: "bool \<Rightarrow> u32 \<Rightarrow> u32 \<Rightarrow> 'd brcmf_sdio \<Rightarrow> 'd brcmf_sdio" where
  "hdparse_window cur sw1 sw2 b = (
     let nxt = ucast (drop_bit 16 (sw1 AND 0x00ff0000)) :: u16;
         nxt = (if MAX_RX_DATASZ < unat nxt * 16 then 0 else nxt);
         b = rd_upd cur (\<lambda>r. r\<lparr>len_nxtfrm := nxt\<rparr>) b;
         fc = ucast (sw2 AND 0xff) :: u8;
         b = (if flowcontrol b \<noteq> fc then set_flowcontrol fc b else b);
         mx = ucast (drop_bit 8 (sw2 AND 0xff00)) :: u8;
         mx = (if 0x40 < mx - tx_seq b then tx_seq b + 2 else mx)
     in b\<lparr>tx_max := mx\<rparr>)"

definition hdparse_sw ::
  "'d sdio_env \<Rightarrow> u8 list \<Rightarrow> bool \<Rightarrow> brcmf_sdio_frmtype \<Rightarrow> 'd brcmf_sdio \<Rightarrow> (int \<times> 'd brcmf_sdio) option" where
  "hdparse_sw e header cur ty b = do {
     sw \<leftarrow> hdr_word header 4;
     flags \<leftarrow> nth_opt header 5;
     let clear = rd_upd cur (\<lambda>r. r\<lparr>hd_len := 0\<rparr>);
     if ty = FT_SUPER \<and> flags AND 0x80 \<noteq> 0 then Some (E_INVAL, clear b)
     else do {
       let rx_seq = (ucast (sw AND 0xff) :: u8);
       let chan = sdpcm_channel sw;
       let b = rd_upd cur (\<lambda>r. r\<lparr>channel := chan\<rparr>) b;
       if MAX_RX_DATASZ < unat (hd_len (rd_get cur b)) \<and> chan \<noteq> 0 \<and> ty \<noteq> FT_SUPER then
         Some (E_PROTO, clear (brcmf_sdio_rxfail e False False (count rx_toolong 1 b)))
       else if ty = FT_SUPER \<and> chan \<noteq> 3 then Some (E_INVAL, clear b)
       else if ty = FT_SUB \<and> chan \<noteq> 2 \<and> chan \<noteq> 1 then Some (E_INVAL, clear b)
       else do {
         let doff = brcmf_sdio_getdatoffset sw;
         let b = rd_upd cur (\<lambda>r. r\<lparr>dat_offset := doff\<rparr>) b;
         if unat doff < SDPCM_HDRLEN \<or> unat (hd_len (rd_get cur b)) < unat doff then
           Some (E_NXIO, clear (brcmf_sdio_rxfail e False False (count rx_badhdr 1 b)))
         else do {
           let b = (if seq_num (rd_get cur b) \<noteq> rx_seq
                    then rd_upd cur (\<lambda>r. r\<lparr>seq_num := rx_seq\<rparr>) (count rx_badseq 1 b) else b);
           if ty = FT_SUB then Some (0, b)
           else do { sw2 \<leftarrow> hdr_word header 8; Some (0, hdparse_window cur sw sw2 b) } } } } }"

definition brcmf_sdio_hdparse ::
  "'d sdio_env \<Rightarrow> u8 list \<Rightarrow> bool \<Rightarrow> brcmf_sdio_frmtype \<Rightarrow> 'd brcmf_sdio \<Rightarrow> (int \<times> 'd brcmf_sdio) option" where
  "brcmf_sdio_hdparse e header cur ty b = do {
     len \<leftarrow> hdr_half header 0;
     checksum \<leftarrow> hdr_half header 2;
     if len OR checksum = 0 then Some (E_NODATA, b\<lparr>rxpending := False\<rparr>)
     else if NOT (len XOR checksum) \<noteq> 0 then Some (E_IO, brcmf_sdio_rxfail e False False (count rx_badhdr 1 b))
     else if unat len < SDPCM_HDRLEN then Some (E_PROTO, b)
     else if ty = FT_SUPER \<and> round_up (unat len) (blocksize b) \<noteq> unat (hd_len (rd_get cur b)) then Some (E_PROTO, b)
     else if ty = FT_SUB \<and> hd_len (rd_get cur b) < len then Some (E_PROTO, b)
     else hdparse_sw e header cur ty (rd_upd cur (\<lambda>r. r\<lparr>hd_len := len\<rparr>) b) }"

definition brcmf_sdio_update_hwhdr :: "u16 \<Rightarrow> u8 list" where
  "brcmf_sdio_update_hwhdr frm_length = le16 frm_length @ le16 (NOT frm_length)"

text \<open>The bytes \<open>brcmf_sdio_hdpack\<close> writes.\<close>

definition brcmf_sdio_hdpack :: "'d brcmf_sdio \<Rightarrow> brcmf_sdio_hdrinfo \<Rightarrow> u8 list" where
  "brcmf_sdio_hdpack b hi =
     brcmf_sdio_update_hwhdr (hd_len hi) @
     (if txglom b then le32 ((ucast (hd_len hi) - 4) OR (if lastfrm hi then 0x01000000 else 0))
        @ le32 (push_bit 16 (ucast (tail_pad hi))) else []) @
     le32 (ucast (seq_num hi) OR (push_bit 8 (ucast (channel hi)) AND 0x00000f00)
       OR (push_bit 24 (ucast (dat_offset hi)) AND 0xff000000)) @
     le32 0"

section \<open>Superframes\<close>

text \<open>One allocated and aligned buffer per length of the descriptor: entries left, offset, total length so far,
  number of frames. The result says whether the last allocation went well.\<close>

fun glom_chain :: "'d sdio_env \<Rightarrow> skbuf \<Rightarrow> nat \<Rightarrow> nat \<Rightarrow> u16 \<Rightarrow> u8 \<Rightarrow> 'd brcmf_sdio
    \<Rightarrow> ((bool \<times> u8) \<times> 'd brcmf_sdio) option" where
  "glom_chain e desc 0 off totlen num b = Some ((True, num), b)"
| "glom_chain e desc (Suc n) off totlen num b = do {
     h \<leftarrow> sb_read desc off 2;
     sublen \<leftarrow> hdr_half h 0;
     if unat sublen < SDPCM_HDRLEN \<or> (num = 0 \<and> unat sublen < 2 * SDPCM_HDRLEN) then Some ((False, num), b)
     else do {
       let totlen = totlen + sublen;
       let sublen = (if n = 0 then sublen + of_nat (round_up (unat totlen) (blocksize b) - unat totlen) else sublen);
       (p, s) \<leftarrow> brcmu_pkt_buf_get_skb (e_mmc e) (unat sublen + unat (sgentry_align b)) (sd b);
       let b = b\<lparr>sd := s\<rparr>;
       case p of None \<Rightarrow> Some ((False, num), b)
       | Some p \<Rightarrow> glom_chain e desc n (off + 2) totlen (num + 1)
           (b\<lparr>glom := glom b @ [pkt_align (unat sublen) (unat (sgentry_align b)) p]\<rparr>) } }"

definition glom_descriptor :: "'d sdio_env \<Rightarrow> skbuf \<Rightarrow> 'd brcmf_sdio \<Rightarrow> (u8 \<times> 'd brcmf_sdio) option" where
  "glom_descriptor e desc b = do {
     let dlen = (of_nat (sb_len desc) :: u16);
     let dlen = (if odd (unat dlen) then 0 else dlen);
     ((ok, num), b) \<leftarrow> (if dlen = 0 then Some ((False, 0), b)
        else glom_chain e desc (unat dlen div 2) 0 0 0 b);
     let (num, b) = (if ok then (num, b) else (0, brcmf_sdio_free_glom b));
     let b = sdio_emit (FreePkt desc) b;
     Some (num, b\<lparr>glomd := None, cur_read := (cur_read b)\<lparr>hd_len := 0\<rparr>\<rparr>) }"

text \<open>The headers of the subframes, with the sequence number each should have.\<close>

fun glom_validate :: "'d sdio_env \<Rightarrow> skbuf list \<Rightarrow> u8 \<Rightarrow> u8 \<Rightarrow> 'd brcmf_sdio \<Rightarrow> ((int \<times> u8) \<times> 'd brcmf_sdio) option" where
  "glom_validate e [] rxseq num b = Some ((0, num), b)"
| "glom_validate e (p # ps) rxseq num b = do {
     let b = rd_upd False (\<lambda>r. r\<lparr>hd_len := of_nat (sb_len p), seq_num := rxseq\<rparr>) b;
     h \<leftarrow> sb_read p 0 SDPCM_HDRLEN;
     (err, b) \<leftarrow> brcmf_sdio_hdparse e h False FT_SUB b;
     if err \<noteq> 0 then Some ((err, num + 1), b) else glom_validate e ps (rxseq + 1) (num + 1) b }"

fun glom_deliver :: "skbuf list \<Rightarrow> 'd brcmf_sdio \<Rightarrow> 'd brcmf_sdio option" where
  "glom_deliver [] b = Some b"
| "glom_deliver (p # ps) b = do {
     h \<leftarrow> sb_read p 0 8;
     sublen \<leftarrow> hdr_half h 0;
     sw \<leftarrow> hdr_word h 4;
     let q = skb_pull (unat (brcmf_sdio_getdatoffset sw)) (skb_set_trim (unat sublen) p);
     glom_deliver ps (if sb_len q = 0 then sdio_emit (FreePkt q) b
       else count rxglompkts 1 (sdio_emit (if brcmf_sdio_fromevntchan sw then RxEvent q else RxFrame q) b)) }"

definition glom_read :: "'d sdio_env \<Rightarrow> u8 \<Rightarrow> u8 \<Rightarrow> 'd brcmf_sdio \<Rightarrow> (u8 \<times> 'd brcmf_sdio) option" where
  "glom_read e rxseq num b = do {
     let dlen = (of_nat (brcmf_sdio_glom_len b) :: u16);
     (err, ps, s) \<leftarrow> brcmf_sdiod_recv_chain (e_mmc e) (glom b) (unat dlen) (sd b);
     let b = count f2rxdata 1 (b\<lparr>sd := s, glom := ps\<rparr>);
     if err < 0 then Some (0, brcmf_sdio_free_glom (count rxglomfail 1 (brcmf_sdio_rxfail e True False b)))
     else do {
       pfirst \<leftarrow> nth_opt ps 0;
       let b = rd_upd False (\<lambda>r. r\<lparr>seq_num := rxseq, hd_len := dlen\<rparr>) b;
       h \<leftarrow> sb_read pfirst 0 SDPCM_HDRLEN;
       (err, b) \<leftarrow> brcmf_sdio_hdparse e h False FT_SUPER b;
       let b = b\<lparr>cur_read := (cur_read b)\<lparr>hd_len := push_bit 4 (len_nxtfrm (rd_loc b))\<rparr>,
                 glom := skb_pull (unat (dat_offset (rd_loc b))) pfirst # tl ps\<rparr>;
       ((err, num), b) \<leftarrow> (if err \<noteq> 0 then Some ((err, 0), b) else glom_validate e (glom b) rxseq 0 b);
       if err \<noteq> 0 then do {
         let b = brcmf_sdio_free_glom (count rxglomfail 1 (brcmf_sdio_rxfail e True False b));
         Some (0, b\<lparr>cur_read := (cur_read b)\<lparr>hd_len := 0\<rparr>\<rparr>) }
       else do {
         b \<leftarrow> glom_deliver (glom b) b;
         Some (num, count rxglomframes 1 (b\<lparr>glom := []\<rparr>)) } } }"

definition brcmf_sdio_rxglom :: "'d sdio_env \<Rightarrow> u8 \<Rightarrow> 'd brcmf_sdio \<Rightarrow> (u8 \<times> 'd brcmf_sdio) option" where
  "brcmf_sdio_rxglom e rxseq b = do {
     let b = b\<lparr>rd_loc := e_garbage e\<rparr>;
     (num, b) \<leftarrow> (case glomd b of None \<Rightarrow> Some (0, b) | Some desc \<Rightarrow> glom_descriptor e desc b);
     if glom b = [] then Some (num, b) else glom_read e rxseq num b }"

section \<open>Control frames\<close>

text \<open>How much more of a control frame is read, in whole blocks where that is allowed.\<close>

definition control_rdlen :: "'d sdio_env \<Rightarrow> nat \<Rightarrow> 'd brcmf_sdio \<Rightarrow> nat" where
  "control_rdlen e len b = (let rdlen = len - FIRSTREAD in
     if roundup b \<noteq> 0 \<and> blocksize b \<noteq> 0 \<and> blocksize b < rdlen then
       (let pad = blocksize b - rdlen mod blocksize b
        in if pad \<le> roundup b \<and> pad < blocksize b \<and> len + pad < e_maxctl e then rdlen + pad else rdlen)
     else if rdlen mod unat (head_align b) \<noteq> 0
     then rdlen + (unat (head_align b) - rdlen mod unat (head_align b)) else rdlen)"

definition control_got :: "u8 list \<Rightarrow> nat \<Rightarrow> nat \<Rightarrow> 'd brcmf_sdio \<Rightarrow> 'd brcmf_sdio" where
  "control_got buf len doff b = (if rxctl b \<noteq> None then b else b\<lparr>rxctl := Some (buf, doff), rxlen := len - doff\<rparr>)"

definition brcmf_sdio_read_control ::
  "'d sdio_env \<Rightarrow> u8 list \<Rightarrow> nat \<Rightarrow> nat \<Rightarrow> 'd brcmf_sdio \<Rightarrow> 'd brcmf_sdio option" where
  "brcmf_sdio_read_control e hdr len doff b = do {
     b \<leftarrow> (if rxblen b = 0 \<or> \<not> e_vzalloc e (rxblen b) (sd_dev (sd b)) then Some b
       else do {
         let pad = rxbuf_addr b mod unat (head_align b);
         let rpos = (if pad \<noteq> 0 then unat (head_align b) - pad else 0);
         first \<leftarrow> read_bytes hdr 0 FIRSTREAD;
         buf \<leftarrow> write_bytes (replicate (rxblen b) 0) 0 first;
         if len \<le> FIRSTREAD then Some (control_got buf len doff b)
         else do {
           let rdlen = control_rdlen e len b;
           if e_maxctl e < rdlen + FIRSTREAD then Some (brcmf_sdio_rxfail e False False b)
           else if e_maxctl e < len - doff then
             Some (brcmf_sdio_rxfail e False False (count rx_toolong 1 b))
           else do {
             (sdret, bs, s) \<leftarrow> brcmf_sdiod_recv_buf (e_mmc e) rdlen (sd b);
             let b = count f2rxdata 1 (b\<lparr>sd := s\<rparr>);
             if sdret < 0 then Some (brcmf_sdio_rxfail e True True (count rxc_errors 1 b))
             else if rxblen b < rpos + rdlen then None
             else do { buf \<leftarrow> write_bytes buf FIRSTREAD bs; Some (control_got buf len doff b) } } } });
     Some (sdio_emit WakeDcmd b) }"

section \<open>The receive loop\<close>

definition brcmf_sdio_pad :: "'d brcmf_sdio \<Rightarrow> u16 \<Rightarrow> u16" where
  "brcmf_sdio_pad b rdlen = (
     if roundup b \<noteq> 0 \<and> blocksize b \<noteq> 0 \<and> blocksize b < unat rdlen then
       (let pad = of_nat (blocksize b - unat rdlen mod blocksize b) :: u16
        in if unat pad \<le> roundup b \<and> unat pad < blocksize b \<and> unat rdlen + unat pad + FIRSTREAD < MAX_RX_DATASZ
           then rdlen + pad else rdlen)
     else if unat rdlen mod unat (head_align b) \<noteq> 0
     then rdlen + of_nat (unat (head_align b) - unat rdlen mod unat (head_align b)) else rdlen)"

definition RETRYCHAN :: "u8 \<Rightarrow> bool" where
  "RETRYCHAN chan \<longleftrightarrow> chan = 1"

text \<open>Preparing the descriptor for the next read.\<close>

definition next_read :: "'d brcmf_sdio \<Rightarrow> 'd brcmf_sdio" where
  "next_read b = b\<lparr>cur_read := (cur_read b)\<lparr>hd_len := push_bit 4 (len_nxtfrm (cur_read b)), len_nxtfrm := 0, channel := 1\<rparr>\<rparr>"

datatype rx_step = RxBreak | RxContinue

text \<open>A packet read: to the descriptor of a superframe, or up the stack.\<close>

definition readframes_deliver :: "'d sdio_env \<Rightarrow> skbuf \<Rightarrow> 'd brcmf_sdio \<Rightarrow> 'd brcmf_sdio option" where
  "readframes_deliver e pkt b = (
     if channel (cur_read b) = 3 then do {
       flags \<leftarrow> nth_opt (rxhdr b) 5;
       Some (next_read (if flags AND 0x80 \<noteq> 0
         then b\<lparr>glomd := Some (skb_pull SDPCM_HDRLEN (skb_set_trim (unat (hd_len (cur_read b))) pkt))\<rparr>
         else brcmf_sdio_rxfail e False False b)) }
     else do {
       let q = skb_pull (unat (dat_offset (cur_read b))) (skb_set_trim (unat (hd_len (cur_read b))) pkt);
       Some (next_read (sdio_emit (if sb_len q = 0 then FreePkt q
         else if channel (cur_read b) = 1 then RxEvent q else RxFrame q) b)) })"

text \<open>Read-ahead: the header of a packet read whole is parsed into a local record first; \<open>None\<close> of the inner option
  asks for another round.\<close>

definition readahead_check :: "'d sdio_env \<Rightarrow> skbuf \<Rightarrow> 'd brcmf_sdio \<Rightarrow> (bool \<times> 'd brcmf_sdio) option" where
  "readahead_check e pkt b = do {
     h \<leftarrow> sb_read pkt 0 SDPCM_HDRLEN;
     hdr \<leftarrow> write_bytes (rxhdr b) 0 h;
     let b = rd_upd False (\<lambda>r. r\<lparr>seq_num := seq_num (cur_read b)\<rparr>) (b\<lparr>rxhdr := hdr\<rparr>);
     (err, b) \<leftarrow> brcmf_sdio_hdparse e hdr False FT_NORMAL b;
     let zero = (\<lambda>b. b\<lparr>cur_read := (cur_read b)\<lparr>hd_len := 0\<rparr>\<rparr>);
     if err \<noteq> 0 then Some (False, sdio_emit (FreePkt pkt) (brcmf_sdio_rxfail e True True (zero b)))
     else do {
       let b = count rx_readahead_cnt 1 b;
       if unat (hd_len (cur_read b)) \<noteq> round_up (unat (hd_len (rd_loc b))) 16 then
         Some (False, sdio_emit (FreePkt pkt) (brcmf_sdio_rxfail e True True (zero b)))
       else do {
         let b = b\<lparr>cur_read := (cur_read b)\<lparr>len_nxtfrm := len_nxtfrm (rd_loc b), channel := channel (rd_loc b),
                    dat_offset := dat_offset (rd_loc b)\<rparr>\<rparr>;
         if channel (rd_loc b) = 0 then
           Some (False, sdio_emit (FreePkt pkt) (brcmf_sdio_rxfail e False True (zero b)))
         else Some (True, b) } } }"

text \<open>Reading the body: the result is the value of \<open>head_read\<close> for the next round.\<close>

definition readframes_body :: "'d sdio_env \<Rightarrow> nat \<Rightarrow> 'd brcmf_sdio \<Rightarrow> (nat \<times> 'd brcmf_sdio) option" where
  "readframes_body e head_read b = do {
     let left = brcmf_sdio_pad b (len_left (cur_read b));
     let b = b\<lparr>cur_read := (cur_read b)\<lparr>len_left := left\<rparr>\<rparr>;
     let retry = RETRYCHAN (channel (cur_read b));
     (pkt, s) \<leftarrow> brcmu_pkt_buf_get_skb (e_mmc e) (unat left + head_read + unat (head_align b)) (sd b);
     let b = b\<lparr>sd := s\<rparr>;
     case pkt of None \<Rightarrow> Some (head_read, brcmf_sdio_rxfail e False retry b)
     | Some pkt \<Rightarrow> do {
         let pkt = pkt_align (unat left) (unat (head_align b)) (skb_pull head_read pkt);
         (ret, pkt, s) \<leftarrow> brcmf_sdiod_recv_pkt (e_mmc e) pkt (sd b);
         let b = count f2rxdata 1 (b\<lparr>sd := s\<rparr>);
         if ret < 0 then
           Some (head_read, brcmf_sdio_rxfail e True retry (sdio_emit (FreePkt pkt) b))
         else if head_read \<noteq> 0 then do {
           pkt \<leftarrow> skb_push head_read pkt;
           h \<leftarrow> read_bytes (rxhdr b) 0 head_read;
           pkt \<leftarrow> sb_write pkt 0 h;
           b \<leftarrow> readframes_deliver e pkt b;
           Some (0, b) }
         else do {
           (go, b) \<leftarrow> readahead_check e pkt b;
           b \<leftarrow> (if go then readframes_deliver e pkt b else Some b);
           Some (0, b) } } }"

text \<open>One round of the loop without glomming.\<close>

definition readframes_one :: "'d sdio_env \<Rightarrow> nat \<Rightarrow> 'd brcmf_sdio \<Rightarrow> (rx_step \<times> nat \<times> 'd brcmf_sdio) option" where
  "readframes_one e head_read b = (
     let b = b\<lparr>cur_read := (cur_read b)\<lparr>len_left := hd_len (cur_read b)\<rparr>\<rparr> in
     if hd_len (cur_read b) \<noteq> 0 then do { (h, b) \<leftarrow> readframes_body e head_read b; Some (RxContinue, h, b) }
     else do {
       (ret, bs, s) \<leftarrow> brcmf_sdiod_recv_buf (e_mmc e) FIRSTREAD (sd b);
       hdr \<leftarrow> write_bytes (rxhdr b) 0 bs;
       let b = count f2rxhdrs 1 (b\<lparr>sd := s, rxhdr := hdr\<rparr>);
       if ret < 0 then Some (RxContinue, head_read, brcmf_sdio_rxfail e True True (count rx_hdrfail 1 b))
       else do {
         (err, b) \<leftarrow> brcmf_sdio_hdparse e hdr True FT_NORMAL b;
         if err \<noteq> 0 then Some (if rxpending b then RxContinue else RxBreak, head_read, b)
         else if channel (cur_read b) = 0 then do {
           b \<leftarrow> brcmf_sdio_read_control e hdr (unat (hd_len (cur_read b))) (unat (dat_offset (cur_read b))) b;
           Some (RxContinue, head_read, next_read b) }
         else do {
           let len = hd_len (cur_read b);
           let b = b\<lparr>cur_read := (cur_read b)\<lparr>len_left := (if FIRSTREAD < unat len then len - 64 else 0)\<rparr>\<rparr>;
           (h, b) \<leftarrow> readframes_body e FIRSTREAD b;
           Some (RxContinue, h, b) } } })"

definition next_seq :: "u8 \<Rightarrow> 'd brcmf_sdio \<Rightarrow> 'd brcmf_sdio" where
  "next_seq n b = b\<lparr>cur_read := (cur_read b)\<lparr>seq_num := seq_num (cur_read b) + n\<rparr>\<rparr>"

function readframes_loop :: "'d sdio_env \<Rightarrow> nat \<Rightarrow> nat \<Rightarrow> 'd brcmf_sdio \<Rightarrow> (nat \<times> 'd brcmf_sdio) option" where
  "readframes_loop e rxleft head_read b = (
     if rxskip b \<or> rxleft = 0 \<or> sd_state (sd b) \<noteq> SDIOD_DATA then Some (rxleft, b)
     else if glomd b \<noteq> None \<or> glom b \<noteq> [] then do {
       (cnt, b) \<leftarrow> brcmf_sdio_rxglom e (seq_num (cur_read b)) b;
       let b = next_seq (cnt - 1) b;
       let left = (if unat cnt < rxleft then rxleft - unat cnt else 1);
       readframes_loop e (min (left - 1) (rxleft - 1)) head_read (next_seq 1 b) }
     else do {
       (step, head_read, b) \<leftarrow> readframes_one e head_read b;
       if step = RxBreak then Some (rxleft, b)
       else readframes_loop e (rxleft - 1) head_read (next_seq 1 b) })"
  by pat_completeness auto
termination
  by (relation "measure (\<lambda>(e, n, h, b). n)") auto

declare readframes_loop.simps [simp del]

definition brcmf_sdio_readframes :: "'d sdio_env \<Rightarrow> nat \<Rightarrow> 'd brcmf_sdio \<Rightarrow> (nat \<times> 'd brcmf_sdio) option" where
  "brcmf_sdio_readframes e maxframes b = do {
     let b = b\<lparr>rxpending := True, cur_read := (cur_read b)\<lparr>seq_num := rx_seq b\<rparr>, rd_loc := e_garbage e\<rparr>;
     (rxleft, b) \<leftarrow> readframes_loop e maxframes 0 b;
     let b = (if rxskip b then next_seq (- 1) b else b);
     Some (maxframes - rxleft, b\<lparr>rx_seq := seq_num (cur_read b)\<rparr>) }"

end
