(* ===== verification/SdioTx.thy ===== *)
theory SdioTx
  imports Sdio
begin

text \<open>
  The SDIO bus layer (\<open>sdio.c\<close>), part two: aligning and padding packets, transmission, control requests, the
  deferred procedure, the watchdog, interrupts, and the download of the firmware.

  A packet to send is one linear buffer of its own (neither cloned nor fragmented); the queue the C code links
  pad packets into is a list. What other threads do while a control request waits is a function on the bus.
\<close>

section \<open>Preparing packets\<close>

abbreviation ALIGN_SKB_FLAG :: u16 where "ALIGN_SKB_FLAG \<equiv> 0x8000"
abbreviation SDPCM_SWHDR_LEN :: nat where "SDPCM_SWHDR_LEN \<equiv> 8"

definition brcmf_sdio_txpkt_hdalign ::
  "'d sdio_env \<Rightarrow> skbuf \<Rightarrow> 'd brcmf_sdio \<Rightarrow> (int \<times> skbuf \<times> 'd brcmf_sdio) option" where
  "brcmf_sdio_txpkt_hdalign e pkt b = do {
     let pad = sb_ptr pkt mod unat (head_align b);
     let zero = (\<lambda>n p b. do { p \<leftarrow> sb_write p 0 (replicate (n + unat (tx_hdrlen b)) 0); Some (int n, p, b) });
     if pad = 0 then zero 0 pkt b
     else if pad \<le> sb_off pkt then do { p \<leftarrow> skb_push pad pkt; zero pad p b }
     else do {
       let (r, s) = sd_with (e_cow e pkt pad) (sd b);
       let b = count pktcowed 1 (b\<lparr>sd := s\<rparr>);
       case r of None \<Rightarrow> Some (E_NOMEM, pkt, count pktcow_failed 1 b)
       | Some p \<Rightarrow> zero 0 p b } }"

text \<open>The padding behind a packet of a chain; the result is the packets that replace it.\<close>

definition sg_tail_pad :: "'d brcmf_sdio \<Rightarrow> skbuf \<Rightarrow> u16 \<Rightarrow> bool \<Rightarrow> nat" where
  "sg_tail_pad b pkt total_len lastf = (
     let chop = sb_len pkt mod unat (sgentry_align b);
         pad = (if chop \<noteq> 0 then unat (sgentry_align b) - chop else 0);
         chain_pad = (unat total_len + pad) mod f2_blksize (sd b)
     in if lastf \<and> chain_pad \<noteq> 0 then pad + (f2_blksize (sd b) - chain_pad) else pad)"

definition brcmf_sdio_txpkt_prep_sg ::
  "'d sdio_env \<Rightarrow> skbuf \<Rightarrow> u16 \<Rightarrow> bool \<Rightarrow> 'd brcmf_sdio \<Rightarrow> (int \<times> skbuf list \<times> 'd brcmf_sdio) option" where
  "brcmf_sdio_txpkt_prep_sg e pkt total_len lastf b = do {
     let chop = sb_len pkt mod unat (sgentry_align b);
     let pad = sg_tail_pad b pkt total_len lastf;
     if skb_tailroom pkt < pad \<and> f2_blksize (sd b) < sb_len pkt then do {
       (q, s) \<leftarrow> brcmu_pkt_buf_get_skb (e_mmc e) (pad + chop + unat (head_align b)) (sd b);
       let b = b\<lparr>sd := s\<rparr>;
       case q of None \<Rightarrow> Some (E_NOMEM, [pkt], b)
       | Some q \<Rightarrow> do {
           (ret, q, b) \<leftarrow> brcmf_sdio_txpkt_hdalign e q b;
           if ret < 0 then Some (ret, [pkt], sdio_emit (FreePkt q) b)
           else do {
             bs \<leftarrow> sb_read pkt (sb_len pkt - chop) chop;
             q \<leftarrow> sb_write q 0 bs;
             let q = skb_trim (pad + chop) (q\<lparr>sb_cb := ALIGN_SKB_FLAG + of_nat chop\<rparr>);
             Some (int pad, [skb_trim (sb_len pkt - chop) pkt, q], b) } } }
     else if skb_tailroom pkt < pad then do {
       let (r, s) = sd_with (e_expand e pkt (pad - skb_tailroom pkt)) (sd b);
       let b = b\<lparr>sd := s\<rparr>;
       case r of None \<Rightarrow> Some (E_NOMEM, [pkt], b)
       | Some p \<Rightarrow> do { p \<leftarrow> skb_put pad p; Some (int pad, [p], b) } }
     else do { p \<leftarrow> skb_put pad pkt; Some (int pad, [p], b) } }"

text \<open>The walk over the queue: sequence number, total length so far, and whether there are several packets. A
  failure leaves the packets behind it as they were.\<close>

fun prep_walk :: "'d sdio_env \<Rightarrow> u8 \<Rightarrow> bool \<Rightarrow> u8 \<Rightarrow> u16 \<Rightarrow> skbuf list \<Rightarrow> 'd brcmf_sdio
    \<Rightarrow> (int \<times> u16 \<times> skbuf list \<times> 'd brcmf_sdio) option" where
  "prep_walk e chan multi txseq tot [] b = Some (0, tot, [], b)"
| "prep_walk e chan multi txseq tot (p # ps) b = (
     if sb_cb p AND ALIGN_SKB_FLAG \<noteq> 0 then do {
       (ret, t, qs, b) \<leftarrow> prep_walk e chan multi txseq tot ps b; Some (ret, t, p # qs, b) }
     else do {
       (ret, p, b) \<leftarrow> brcmf_sdio_txpkt_hdalign e p b;
       if ret < 0 then Some (ret, tot, p # ps, b)
       else do {
         let head_pad = nat ret;
         p \<leftarrow> sb_write p (unat (tx_hdrlen b)) (replicate head_pad 0);
         let tot = tot + of_nat (sb_len p);
         let len = of_nat (sb_len p);
         let lastf = (ps = []);
         (ret, new, b) \<leftarrow> (if txglom b \<and> multi then brcmf_sdio_txpkt_prep_sg e p tot lastf b else Some (0, [p], b));
         if ret < 0 then Some (ret, tot, new @ ps, b)
         else do {
           let tot = tot + of_nat (nat ret);
           let hi = \<lparr>seq_num = txseq, channel = chan, hd_len = len, len_left = 0, len_nxtfrm = 0,
                     dat_offset = of_nat head_pad + tx_hdrlen b, lastfrm = lastf, tail_pad = of_nat (nat ret)\<rparr>;
           p \<leftarrow> nth_opt new 0;
           p \<leftarrow> sb_write p 0 (brcmf_sdio_hdpack b hi);
           (ret, t, qs, b) \<leftarrow> prep_walk e chan multi (txseq + 1) tot ps b;
           Some (ret, t, (p # tl new) @ qs, b) } } })"

definition brcmf_sdio_txpkt_prep ::
  "'d sdio_env \<Rightarrow> skbuf list \<Rightarrow> u8 \<Rightarrow> 'd brcmf_sdio \<Rightarrow> (int \<times> skbuf list \<times> 'd brcmf_sdio) option" where
  "brcmf_sdio_txpkt_prep e pktq chan b = do {
     (ret, tot, qs, b) \<leftarrow> prep_walk e chan (1 < length pktq) (tx_seq b) 0 pktq b;
     if ret = 0 \<and> txglom b then do {
       p \<leftarrow> nth_opt qs 0;
       p \<leftarrow> sb_write p 0 (brcmf_sdio_update_hwhdr tot);
       Some (0, qs[0 := p], b) }
     else Some (ret, qs, b) }"

section \<open>After transmission\<close>

text \<open>The walk of \<open>brcmf_sdio_txpkt_postp\<close>; \<open>done\<close> is what is left of the packets before, the last one first.\<close>

fun postp_walk :: "skbuf list \<Rightarrow> skbuf list \<Rightarrow> 'd brcmf_sdio \<Rightarrow> (skbuf list \<times> 'd brcmf_sdio) option" where
  "postp_walk acc [] b = Some (List.rev acc, b)"
| "postp_walk acc (p # ps) b = (
     if sb_cb p AND ALIGN_SKB_FLAG \<noteq> 0 then do {
       let chop = unat (sb_cb p AND 0x7fff);
       acc \<leftarrow> (if chop = 0 then Some acc
         else case acc of [] \<Rightarrow> None | q # qs \<Rightarrow> do { q \<leftarrow> skb_put chop q; Some (q # qs) });
       postp_walk acc ps (sdio_emit (FreePkt p) b) }
     else do {
       h \<leftarrow> sb_read p (unat (tx_hdrlen b) - SDPCM_SWHDR_LEN) 4;
       sw \<leftarrow> hdr_word h 0;
       let q = skb_pull (unat (brcmf_sdio_getdatoffset sw)) p;
       q \<leftarrow> (if txglom b then do {
            t \<leftarrow> sb_read p (unat (tx_hdrlen b) - SDPCM_SWHDR_LEN - 2) 2;
            w \<leftarrow> hdr_half t 0;
            Some (if sb_len q < unat w then q else skb_trim (sb_len q - unat w) q) }
          else Some q);
       postp_walk (q # acc) ps b })"

definition brcmf_sdio_txpkt_postp :: "skbuf list \<Rightarrow> 'd brcmf_sdio \<Rightarrow> (skbuf list \<times> 'd brcmf_sdio) option" where
  "brcmf_sdio_txpkt_postp pktq b = postp_walk [] pktq b"

section \<open>Transmission\<close>

definition brcmf_sdio_txpkt ::
  "'d sdio_env \<Rightarrow> skbuf list \<Rightarrow> u8 \<Rightarrow> 'd brcmf_sdio \<Rightarrow> (int \<times> 'd brcmf_sdio) option" where
  "brcmf_sdio_txpkt e pktq chan b = do {
     (ret, qs, b) \<leftarrow> brcmf_sdio_txpkt_prep e pktq chan b;
     (ret, b) \<leftarrow> (if ret \<noteq> 0 then Some (ret, b)
       else do {
         (ret, s) \<leftarrow> brcmf_sdiod_send_pkt (e_mmc e) qs (sd b);
         let b = count f2txdata 1 (b\<lparr>sd := s\<rparr>);
         Some (ret, if ret < 0 then brcmf_sdio_txfail e b else b) });
     (qs, b) \<leftarrow> brcmf_sdio_txpkt_postp qs b;
     let b = (if ret = 0 then b\<lparr>tx_seq := tx_seq b + of_nat (length qs)\<rparr> else b);
     Some (ret, b\<lparr>sdio_log := sdio_log b @ map (\<lambda>q. TxComplete q (ret = 0)) qs\<rparr>) }"

text \<open>Taking up to \<open>n\<close> packets from the queue.\<close>

fun deq_pkts :: "nat \<Rightarrow> u8 \<Rightarrow> skbuf pktq \<Rightarrow> (skbuf list \<times> skbuf pktq) option" where
  "deq_pkts 0 bmp q = Some ([], q)"
| "deq_pkts (Suc n) bmp q = do {
     (r, q) \<leftarrow> brcmu_pktq_mdeq q (ucast bmp);
     case r of None \<Rightarrow> Some ([], q)
     | Some (p, prec) \<Rightarrow> do { (ps, q) \<leftarrow> deq_pkts n bmp q; Some (p # ps, q) } }"

definition sendfromq_num :: "'d brcmf_sdio \<Rightarrow> nat option" where
  "sendfromq_num b = do {
     let n = (if txglom b then min (tx_max b - tx_seq b) (ucast (txglomsz (sd b))) else 1);
     m \<leftarrow> brcmu_pktq_mlen (txq b) (NOT (ucast (flowcontrol b)));
     Some (min (unat n) m) }"

function sendfromq_loop :: "'d sdio_env \<Rightarrow> u8 \<Rightarrow> nat \<Rightarrow> nat \<Rightarrow> 'd brcmf_sdio \<Rightarrow> (nat \<times> 'd brcmf_sdio) option" where
  "sendfromq_loop e bmp cnt left b = (
     if left = 0 \<or> \<not> data_ok b then Some (cnt, b)
     else do {
       n \<leftarrow> sendfromq_num b;
       (ps, q) \<leftarrow> deq_pkts n bmp (txq b);
       let b = b\<lparr>txq := q\<rparr>;
       if ps = [] then Some (cnt, b)
       else do {
         (ret, b) \<leftarrow> brcmf_sdio_txpkt e ps 2 b;
         let i = length ps;
         let ((ints, ret), b) = (if use_intr b then ((0, 0), b)
           else let (r, b) = readl e (e_core e + REG_INTSTATUS) b in (r, count f2txdata 1 b));
         if ret \<noteq> 0 then Some (cnt + i, b)
         else sendfromq_loop e bmp (cnt + i) (left - i)
                (if ints AND hostintmask b \<noteq> 0 then b\<lparr>ipend := True\<rparr> else b) } })"
  by pat_completeness auto
termination
  by (relation "measure (\<lambda>(e, bmp, cnt, left, b). left)") auto

declare sendfromq_loop.simps [simp del]

definition brcmf_sdio_sendfromq :: "'d sdio_env \<Rightarrow> nat \<Rightarrow> 'd brcmf_sdio \<Rightarrow> (nat \<times> 'd brcmf_sdio) option" where
  "brcmf_sdio_sendfromq e maxframes b = do {
     (cnt, b) \<leftarrow> sendfromq_loop e (NOT (flowcontrol b)) 0 maxframes b;
     Some (cnt, if sd_state (sd b) = SDIOD_DATA \<and> txoff b \<and> unat (pq_len (txq b)) < 1536
       then sdio_emit (TxFlowblock False) (b\<lparr>txoff := False\<rparr>) else b) }"

section \<open>Control requests\<close>

text \<open>The attempts: \<open>n\<close> retries left.\<close>

fun ctrl_send :: "'d sdio_env \<Rightarrow> nat \<Rightarrow> u8 list \<Rightarrow> 'd brcmf_sdio \<Rightarrow> (int \<times> 'd brcmf_sdio) option" where
  "ctrl_send e n frame b = do {
     (ret, s) \<leftarrow> brcmf_sdiod_send_buf (e_mmc e) frame (sd b);
     let b = b\<lparr>sd := s\<rparr>;
     if 0 \<le> ret then Some (ret, b\<lparr>tx_seq := tx_seq b + 1\<rparr>)
     else (case n of 0 \<Rightarrow> Some (ret, brcmf_sdio_txfail e b) | Suc n \<Rightarrow> ctrl_send e n frame (brcmf_sdio_txfail e b)) }"

declare ctrl_send.simps [simp del]

definition ctrl_pad :: "'d brcmf_sdio \<Rightarrow> u16 \<Rightarrow> u16" where
  "ctrl_pad b len = (
     if roundup b \<noteq> 0 \<and> blocksize b \<noteq> 0 \<and> blocksize b < unat len then
       (let pad = of_nat (blocksize b - unat len mod blocksize b) :: u16
        in if roundup b < unat pad \<or> blocksize b \<le> unat pad then 0 else pad)
     else if unat len mod unat (head_align b) \<noteq> 0 then head_align b - len mod head_align b else 0)"

definition brcmf_sdio_tx_ctrlframe ::
  "'d sdio_env \<Rightarrow> skbuf \<Rightarrow> u16 \<Rightarrow> 'd brcmf_sdio \<Rightarrow> (int \<times> 'd brcmf_sdio) option" where
  "brcmf_sdio_tx_ctrlframe e frame len b = do {
     frame \<leftarrow> skb_push (unat (tx_hdrlen b)) frame;
     let len = len + ucast (tx_hdrlen b);
     let doff = sb_ptr frame mod unat (head_align b);
     frame \<leftarrow> skb_push doff frame;
     let len = len + of_nat doff;
     frame \<leftarrow> (if doff \<noteq> 0 then sb_write frame (unat (tx_hdrlen b)) (replicate doff 0) else Some frame);
     let pad = ctrl_pad b len;
     let hi = \<lparr>seq_num = tx_seq b, channel = 0, hd_len = len, len_left = 0, len_nxtfrm = 0,
               dat_offset = of_nat doff + tx_hdrlen b, lastfrm = True, tail_pad = pad\<rparr>;
     let len = len + pad;
     frame \<leftarrow> sb_write frame 0 (brcmf_sdio_hdpack b hi);
     frame \<leftarrow> (if txglom b then sb_write frame 0 (brcmf_sdio_update_hwhdr len) else Some frame);
     bs \<leftarrow> sb_read frame 0 (unat len);
     ctrl_send e 2 bs b }"

definition brcmf_sdio_trigger_dpc :: "'d brcmf_sdio \<Rightarrow> 'd brcmf_sdio" where
  "brcmf_sdio_trigger_dpc b = (if dpc_triggered b then b else sdio_emit QueueWork (b\<lparr>dpc_triggered := True\<rparr>))"

text \<open>What happens until the waiting thread goes on is the parameter \<open>run\<close>.\<close>

definition brcmf_sdio_bus_txctl ::
  "('d brcmf_sdio \<Rightarrow> 'd brcmf_sdio option) \<Rightarrow> skbuf \<Rightarrow> u16 \<Rightarrow> 'd brcmf_sdio \<Rightarrow> (int \<times> 'd brcmf_sdio) option" where
  "brcmf_sdio_bus_txctl run msg msglen b = (
     if sd_state (sd b) \<noteq> SDIOD_DATA then Some (E_IO, b)
     else do {
       b \<leftarrow> run (brcmf_sdio_trigger_dpc (b\<lparr>ctrl_frame_buf := msg, ctrl_frame_len := msglen, ctrl_frame_stat := True\<rparr>));
       let (ret, b) = (if ctrl_frame_stat b then (- 110, b\<lparr>ctrl_frame_stat := False\<rparr>) else (ctrl_frame_err b, b));
       Some (ret, count (if ret \<noteq> 0 then tx_ctlerrs else tx_ctlpkts) 1 b) })"

text \<open>\<open>timeleft\<close> is what is left of the time; \<open>pending\<close> is the variable that is only set when a signal
  is pending. The result is the return value and the bytes copied to the caller.\<close>

definition brcmf_sdio_bus_rxctl ::
  "('d brcmf_sdio \<Rightarrow> 'd brcmf_sdio option) \<Rightarrow> nat \<Rightarrow> bool \<Rightarrow> nat \<Rightarrow> 'd brcmf_sdio
    \<Rightarrow> (int \<times> u8 list \<times> 'd brcmf_sdio) option" where
  "brcmf_sdio_bus_rxctl run timeleft pending msglen b = (
     if sd_state (sd b) \<noteq> SDIOD_DATA then Some (E_IO, [], b)
     else do {
       b \<leftarrow> run b;
       let n = rxlen b;
       bs \<leftarrow> (case rxctl b of
           None \<Rightarrow> if min msglen n = 0 then Some [] else None
         | Some (buf, off) \<Rightarrow> read_bytes buf off (min msglen n));
       let b = b\<lparr>rxctl := None, rxlen := 0\<rparr>;
       if n = 0 \<and> timeleft \<noteq> 0 \<and> pending then Some (- 512, bs, b)
       else Some (if n \<noteq> 0 then int n else - 110, bs, count (if n \<noteq> 0 then rx_ctlpkts else rx_ctlerrs) 1 b) })"

section \<open>Queueing\<close>

abbreviation TXHI :: nat where "TXHI \<equiv> 1792"

text \<open>The precedence \<open>brcmu_pktq_peek_tail\<close> reports: it is stored also when its queue turns out to be empty, and
  left alone when there is no packet at all.\<close>

definition peek_prec :: "'p pktq \<Rightarrow> int option" where
  "peek_prec q = (if pktq_empty q then Some (- 1)
     else map_option int (pktq_scan_up (pq_q q) 0 (unat (hi_prec q))))"

definition brcmf_sdio_prec_enq :: "skbuf pktq \<Rightarrow> skbuf \<Rightarrow> nat \<Rightarrow> ((bool \<times> skbuf option) \<times> skbuf pktq) option" where
  "brcmf_sdio_prec_enq q pkt prec = do {
     pfull \<leftarrow> pktq_pfull q prec;
     if \<not> pfull \<and> \<not> pktq_full q then do { (r, q) \<leftarrow> brcmu_pktq_penq q prec pkt; Some ((True, None), q) }
     else do {
       eprec \<leftarrow> (if pfull then Some (int prec) else peek_prec q);
       if \<not> pfull \<and> int prec < eprec then Some ((False, None), q)
       else if 0 \<le> eprec \<and> eprec = int prec then Some ((False, None), q)
       else do {
         (ev, q) \<leftarrow> (if 0 \<le> eprec then brcmu_pktq_pdeq_tail q (nat eprec) else Some (None, q));
         (r, q) \<leftarrow> brcmu_pktq_penq q prec pkt;
         Some ((r \<noteq> None, ev), q) } } }"

text \<open>\<open>brcmf_map_prio_to_prec\<close> of the WMM configuration is a parameter.\<close>

definition brcmf_sdio_bus_txdata ::
  "(nat \<Rightarrow> nat) \<Rightarrow> nat \<Rightarrow> skbuf \<Rightarrow> 'd brcmf_sdio \<Rightarrow> (int \<times> skbuf \<times> 'd brcmf_sdio) option" where
  "brcmf_sdio_bus_txdata prio_to_prec prio pkt b = (
     if sd_state (sd b) \<noteq> SDIOD_DATA then Some (E_IO, pkt, b)
     else do {
       pkt \<leftarrow> skb_push (unat (tx_hdrlen b)) pkt;
       let b = count fcqueued 1 b;
       let pkt = pkt\<lparr>sb_cb := 0\<rparr>;
       ((ok, ev), q) \<leftarrow> brcmf_sdio_prec_enq (txq b) pkt (prio_to_prec (prio mod 8));
       let b = (case ev of None \<Rightarrow> b\<lparr>txq := q\<rparr> | Some p \<Rightarrow> sdio_emit (FreePkt p) (b\<lparr>txq := q\<rparr>));
       let (ret, pkt) = (if ok then (0, pkt) else (- 63, skb_pull (unat (tx_hdrlen b)) pkt));
       let b = (if TXHI \<le> unat (pq_len (txq b)) then sdio_emit (TxFlowblock True) (b\<lparr>txoff := True\<rparr>) else b);
       Some (ret, pkt, brcmf_sdio_trigger_dpc b) })"

section \<open>Interrupts and the deferred procedure\<close>

definition brcmf_sdio_intr_rstatus :: "'d sdio_env \<Rightarrow> 'd brcmf_sdio \<Rightarrow> int \<times> 'd brcmf_sdio" where
  "brcmf_sdio_intr_rstatus e b = (
     let addr = e_core e + REG_INTSTATUS; ((val, ret), b) = readl e addr b; b = count f1regdata 1 b in
     if ret \<noteq> 0 then (ret, b)
     else let val = val AND hostintmask b; b = b\<lparr>fcstate := (val AND 0x10 \<noteq> 0)\<rparr> in
       if val = 0 then (0, b)
       else let (ret, b) = writel e addr val b; b = count f1regdata 1 b in (ret, b\<lparr>intstatus := intstatus b OR val\<rparr>))"

text \<open>\<open>brcmf_sdio_clrintr\<close> for an out-of-band interrupt that was requested or not.\<close>

definition brcmf_sdio_clrintr :: "bool \<Rightarrow> 'd brcmf_sdio \<Rightarrow> 'd brcmf_sdio" where
  "brcmf_sdio_clrintr oob_requested b =
     (if oob_requested \<and> \<not> irq_en (sd b) \<and> \<not> ipend b then b\<lparr>sd := (sd b)\<lparr>irq_en := True\<rparr>\<rparr> else b)"

definition brcmf_sdio_isr :: "'d sdio_env \<Rightarrow> bool \<Rightarrow> 'd brcmf_sdio \<Rightarrow> 'd brcmf_sdio" where
  "brcmf_sdio_isr e in_isr b = (
     let b = count intrcount 1 b;
         b = (if in_isr then b\<lparr>ipend := True\<rparr> else snd (brcmf_sdio_intr_rstatus e b))
     in sdio_emit QueueWork (b\<lparr>dpc_triggered := True\<rparr>))"

definition dpc_clock :: "'d sdio_env \<Rightarrow> 'd brcmf_sdio \<Rightarrow> int \<times> 'd brcmf_sdio" where
  "dpc_clock e b = (
     if \<not> sr_enabled b \<and> clkstate b = CLK_PENDING then
       let ((clkctl, err), b) = readb e CHIPCLKCSR b in
       if clkctl AND 0xC0 = 0xC0 then
         let ((devctl, err), b) = readb e DEVICE_CTL b; (err, b) = writeb e DEVICE_CTL (devctl AND NOT 0x04) b
         in (err, b\<lparr>clkstate := CLK_AVAIL\<rparr>)
       else (err, b)
     else (0, b))"

text \<open>The status to work on, and the error of the last register access.\<close>

definition dpc_status :: "'d sdio_env \<Rightarrow> int \<Rightarrow> 'd brcmf_sdio \<Rightarrow> (u32 \<times> int) \<times> 'd brcmf_sdio" where
  "dpc_status e err b = (
     let (err, b) = (if ipend b then brcmf_sdio_intr_rstatus e (b\<lparr>ipend := False\<rparr>) else (err, b));
         st = intstatus b; b = b\<lparr>intstatus := 0\<rparr>; addr = e_core e + REG_INTSTATUS;
         (st, err, b) = (if st AND 0x20 \<noteq> 0 then
             let st = st AND NOT 0x20; (err, b) = writel e addr 0x20 b; ((new, err), b) = readl e addr b;
                 b = (count f1regdata 2 b)\<lparr>fcstate := (new AND 0x30 \<noteq> 0)\<rparr>
             in (st OR (new AND hostintmask b), err, b)
           else (st, err, b));
         (st, b) = (if st AND 0x80 \<noteq> 0 then
             let (ints, b) = brcmf_sdio_hostmail e b in ((st AND NOT 0x80) OR ints, b)
           else (st, b));
         st = st AND NOT (0x100 OR 0x200 OR 0x10000000 OR 0x20000000);
         st = (if rxskip b then st AND NOT I_HMB_FRAME_IND else st)
     in ((st, err), b))"

definition dpc_ctrl :: "'d sdio_env \<Rightarrow> int \<Rightarrow> 'd brcmf_sdio \<Rightarrow> (int \<times> 'd brcmf_sdio) option" where
  "dpc_ctrl e err b = (
     if ctrl_frame_stat b \<and> clkstate b = CLK_AVAIL \<and> txctl_ok b then do {
       (err, b) \<leftarrow> brcmf_sdio_tx_ctrlframe e (ctrl_frame_buf b) (ctrl_frame_len b) b;
       Some (err, sdio_emit WakeCtrl (b\<lparr>ctrl_frame_err := err, ctrl_frame_stat := False\<rparr>)) }
     else Some (err, b))"

definition tx_waiting :: "'d brcmf_sdio \<Rightarrow> bool option" where
  "tx_waiting b = (if fcstate b then Some False
     else do { n \<leftarrow> brcmu_pktq_mlen (txq b) (NOT (ucast (flowcontrol b))); Some (n \<noteq> 0 \<and> data_ok b) })"

definition dpc_finish :: "int \<Rightarrow> 'd brcmf_sdio \<Rightarrow> 'd brcmf_sdio option" where
  "dpc_finish err b = (
     if sd_state (sd b) \<noteq> SDIOD_DATA \<or> err \<noteq> 0 then
       Some (let b = b\<lparr>intstatus := 0\<rparr> in
         if ctrl_frame_stat b then sdio_emit WakeCtrl (b\<lparr>ctrl_frame_err := - 19, ctrl_frame_stat := False\<rparr>) else b)
     else do {
       w \<leftarrow> tx_waiting b;
       Some (if intstatus b \<noteq> 0 \<or> ipend b \<or> w then b\<lparr>dpc_triggered := True\<rparr> else b) })"

definition brcmf_sdio_dpc :: "'d sdio_env \<Rightarrow> bool \<Rightarrow> 'd brcmf_sdio \<Rightarrow> 'd brcmf_sdio option" where
  "brcmf_sdio_dpc e oob b = do {
     let txlimit = txbound b;
     let (err, b) = dpc_clock e b;
     let b = snd (brcmf_sdio_bus_sleep e False True b);
     let ((st, err), b) = dpc_status e err b;
     (st, b) \<leftarrow> (if st AND I_HMB_FRAME_IND \<noteq> 0 \<and> clkstate b = CLK_AVAIL then do {
           (n, b) \<leftarrow> brcmf_sdio_readframes e (rxbound b) b;
           Some (if rxpending b then st else st AND NOT I_HMB_FRAME_IND, b) }
         else Some (st, b));
     let b = brcmf_sdio_clrintr oob (b\<lparr>intstatus := intstatus b OR st\<rparr>);
     (err, b) \<leftarrow> dpc_ctrl e err b;
     w \<leftarrow> tx_waiting b;
     b \<leftarrow> (if clkstate b = CLK_AVAIL \<and> w \<and> txlimit \<noteq> 0 then
           map_option snd (brcmf_sdio_sendfromq e (if rxpending b then min txlimit (txminmax b) else txlimit) b)
         else Some b);
     dpc_finish err b }"

text \<open>The worker, which need not end; \<open>freezing\<close> says whether the system is going to sleep.\<close>

partial_function (option) dataworker_loop :: "'d sdio_env \<Rightarrow> bool \<Rightarrow> 'd brcmf_sdio \<Rightarrow> 'd brcmf_sdio option" where
  "dataworker_loop e oob b = (
     if dpc_triggered b then do {
       b \<leftarrow> brcmf_sdio_dpc e oob (b\<lparr>dpc_triggered := False\<rparr>);
       dataworker_loop e oob (b\<lparr>idlecount := 0\<rparr>) }
     else Some b)"

definition brcmf_sdio_dataworker :: "'d sdio_env \<Rightarrow> bool \<Rightarrow> bool \<Rightarrow> 'd brcmf_sdio \<Rightarrow> 'd brcmf_sdio option" where
  "brcmf_sdio_dataworker e oob freezing b = do {
     b \<leftarrow> dataworker_loop e oob (b\<lparr>dpc_running := True\<rparr>);
     let b = b\<lparr>dpc_running := False\<rparr>;
     Some (if freezing
       then b\<lparr>sd := brcmf_sdiod_change_state SDIOD_DATA (brcmf_sdiod_change_state SDIOD_DOWN (sd b))\<rparr> else b) }"

section \<open>The watchdog\<close>

definition watchdog_poll :: "'d sdio_env \<Rightarrow> 'd brcmf_sdio \<Rightarrow> 'd brcmf_sdio" where
  "watchdog_poll e b = (
     if sr_enabled b \<or> \<not> use_poll b then b
     else let b = b\<lparr>polltick := polltick b + 1\<rparr> in
       if polltick b < pollrate b then b
       else let b = b\<lparr>polltick := 0\<rparr>;
                b = (if (\<not> use_intr b \<or> sdcnt b intrcount = sdcnt b lastintrs) \<and> \<not> dpc_triggered b then
                  let ((devpend, err), b) = on_sd (brcmf_sdiod_func0_rb (e_mmc e) 5) b in
                  if devpend AND 6 \<noteq> 0
                  then sdio_emit QueueWork ((count pollcnt 1 b)\<lparr>ipend := True, dpc_triggered := True\<rparr>) else b
                else b)
            in b\<lparr>sdcnt := (sdcnt b)(lastintrs := sdcnt b intrcount)\<rparr>)"

definition brcmf_sdio_bus_watchdog :: "'d sdio_env \<Rightarrow> 'd brcmf_sdio \<Rightarrow> 'd brcmf_sdio" where
  "brcmf_sdio_bus_watchdog e b = (
     let b = watchdog_poll e b in
     if dpc_triggered b then b\<lparr>idlecount := 0\<rparr>
     else if \<not> dpc_running b \<and> 0 < idletime b \<and> clkstate b = CLK_AVAIL then
       let b = b\<lparr>idlecount := idlecount b + 1\<rparr> in
       if idletime b < idlecount b
       then snd (brcmf_sdio_bus_sleep e True False ((brcmf_sdio_wd_timer False b)\<lparr>idlecount := 0\<rparr>))
       else b
     else b\<lparr>idlecount := 0\<rparr>)"

definition brcmf_sdio_sleep :: "'d sdio_env \<Rightarrow> bool \<Rightarrow> 'd brcmf_sdio \<Rightarrow> int \<times> 'd brcmf_sdio" where
  "brcmf_sdio_sleep e slp b = brcmf_sdio_bus_sleep e slp False b"

section \<open>Stopping, save and restore, download\<close>

definition brcmf_chip_is_ulp :: "'d sdio_env \<Rightarrow> bool" where
  "brcmf_chip_is_ulp e \<longleftrightarrow> e_chip e = CY_CC_43012_CHIP_ID"

text \<open>Disabling function 2 is a parameter; the descriptor of a superframe is freed but stays in \<open>glomd\<close>.\<close>

definition brcmf_sdio_bus_stop :: "'d sdio_env \<Rightarrow> ('d \<Rightarrow> 'd) \<Rightarrow> 'd brcmf_sdio \<Rightarrow> 'd brcmf_sdio option" where
  "brcmf_sdio_bus_stop e disable_f2 b = do {
     let b = (if sd_state (sd b) = SDIOD_NOMEDIUM then b else
        let b = snd (brcmf_sdio_bus_sleep e False False b);
            b = snd (writel e (e_core e + REG_HOSTINTMASK) 0 b);
            local = hostintmask b; b = b\<lparr>hostintmask := 0\<rparr>;
            ((saveclk, err), b) = readb e CHIPCLKCSR b;
            b = (if err = 0 then snd (writeb e CHIPCLKCSR (saveclk OR (if brcmf_chip_is_ulp e then 0x10 else 0x02)) b) else b);
            b = b\<lparr>sd := (sd b)\<lparr>sd_dev := disable_f2 (sd_dev (sd b))\<rparr>\<rparr>
        in snd (writel e (e_core e + REG_INTSTATUS) local b));
     (freed, q) \<leftarrow> brcmu_pktq_flush (txq b) None;
     let b = b\<lparr>txq := q, sdio_log := sdio_log b @ map FreePkt freed @ (case glomd b of None \<Rightarrow> [] | Some p \<Rightarrow> [FreePkt p])\<rparr>;
     let b = (brcmf_sdio_free_glom b)\<lparr>rxlen := 0\<rparr>;
     Some ((sdio_emit WakeDcmd b)\<lparr>rxskip := False, tx_seq := 0, rx_seq := 0\<rparr>) }"

definition brcmf_sdio_aos_no_decode :: "'d sdio_env \<Rightarrow> bool" where
  "brcmf_sdio_aos_no_decode e \<longleftrightarrow> e_chip e = 43751 \<or> e_chip e = 43752 \<or> e_chip e = CY_CC_43012_CHIP_ID"

definition brcmf_sdio_sr_init :: "'d sdio_env \<Rightarrow> 'd brcmf_sdio \<Rightarrow> 'd brcmf_sdio" where
  "brcmf_sdio_sr_init e b = (
     let wakeupctrl = (if brcmf_chip_is_ulp e then 1 else 2);
         csr = (if brcmf_chip_is_ulp e then 0x10 else 0x02);
         cardcap = (if brcmf_sdio_aos_no_decode e then 0x08 else 0x06);
         ((val, err), b) = readb e 0x1001E b in
     if err \<noteq> 0 then b
     else let (err, b) = writeb e 0x1001E (val OR wakeupctrl) b in
     if err \<noteq> 0 then b
     else let (err, b) = on_sd (brcmf_sdiod_func0_wb (e_mmc e) 0xf0 cardcap) b in
     if err \<noteq> 0 then b
     else let (err, b) = writeb e CHIPCLKCSR csr b in
     if err \<noteq> 0 then b else b\<lparr>sr_enabled := True\<rparr>)"

definition brcmf_sdio_kso_init :: "'d sdio_env \<Rightarrow> nat \<Rightarrow> 'd brcmf_sdio \<Rightarrow> int \<times> 'd brcmf_sdio" where
  "brcmf_sdio_kso_init e core_rev b = (
     if core_rev < 12 then (0, b)
     else let ((val, err), b) = readb e SLEEPCSR b in
       if err \<noteq> 0 then (err, b)
       else if val AND 1 = 0 then writeb e SLEEPCSR (val OR 1) b
       else (0, b))"

definition brcmf_sdio_download_code_file ::
  "'d sdio_env \<Rightarrow> u32 \<Rightarrow> u8 list \<Rightarrow> 'd brcmf_sdio \<Rightarrow> (int \<times> 'd brcmf_sdio) option" where
  "brcmf_sdio_download_code_file e rambase fw b = do {
     (err, buf, s) \<leftarrow> brcmf_sdiod_ramrw (e_mmc e) True rambase fw (length fw) (sd b);
     Some (err, b\<lparr>sd := s\<rparr>) }"

definition brcmf_sdio_download_nvram ::
  "'d sdio_env \<Rightarrow> u32 \<Rightarrow> u32 \<Rightarrow> u8 list \<Rightarrow> 'd brcmf_sdio \<Rightarrow> (int \<times> 'd brcmf_sdio) option" where
  "brcmf_sdio_download_nvram e rambase ramsize vars b = do {
     (err, buf, s) \<leftarrow> brcmf_sdiod_ramrw (e_mmc e) True (ramsize - of_nat (length vars) + rambase) vars (length vars) (sd b);
     Some (err, b\<lparr>sd := s\<rparr>) }"

text \<open>Starting the processor at the reset vector, the first word of the image, is a parameter.\<close>

definition brcmf_sdio_download_firmware ::
  "'d sdio_env \<Rightarrow> (u32 \<Rightarrow> 'd \<Rightarrow> bool \<times> 'd) \<Rightarrow> u32 \<Rightarrow> u32 \<Rightarrow> u8 list \<Rightarrow> u8 list \<Rightarrow> 'd brcmf_sdio
    \<Rightarrow> (int \<times> 'd brcmf_sdio) option" where
  "brcmf_sdio_download_firmware e set_active rambase ramsize fw nvram b = do {
     let b = brcmf_sdio_clkctl e CLK_AVAIL False b;
     rstvec \<leftarrow> hdr_word fw 0;
     (err, b) \<leftarrow> brcmf_sdio_download_code_file e rambase fw b;
     (err, b) \<leftarrow> (if err \<noteq> 0 then Some (err, b) else do {
        (err, b) \<leftarrow> brcmf_sdio_download_nvram e rambase ramsize nvram b;
        if err \<noteq> 0 then Some (err, b)
        else let (ok, b) = on_sd (sd_with (set_active rstvec)) b in Some (if ok then 0 else E_IO, b) });
     Some (err, brcmf_sdio_clkctl e CLK_SDONLY False b) }"

text \<open>Reading the memory in blocks of 2048 bytes: bytes left, address, what was read so far.\<close>

function memdump_loop :: "'d sdio_env \<Rightarrow> nat \<Rightarrow> u32 \<Rightarrow> u8 list \<Rightarrow> 'd brcmf_sdio \<Rightarrow> (int \<times> u8 list \<times> 'd brcmf_sdio) option" where
  "memdump_loop e left address acc b = (
     if left = 0 then Some (0, acc, b)
     else do {
       let len = min 2048 left;
       (err, bs, s) \<leftarrow> brcmf_sdiod_ramrw (e_mmc e) False address (replicate len 0) len (sd b);
       let b = b\<lparr>sd := s\<rparr>;
       if err \<noteq> 0 then Some (err, acc, b)
       else memdump_loop e (left - len) (address + of_nat len) (acc @ bs) b })"
  by pat_completeness auto
termination
  by (relation "measure (\<lambda>(e, n, a, acc, b). n)") auto

declare memdump_loop.simps [simp del]

definition brcmf_sdio_bus_get_memdump ::
  "'d sdio_env \<Rightarrow> u32 \<Rightarrow> nat \<Rightarrow> 'd brcmf_sdio \<Rightarrow> (int \<times> u8 list \<times> 'd brcmf_sdio) option" where
  "brcmf_sdio_bus_get_memdump e rambase mem_size b = memdump_loop e mem_size rambase [] b"

end
