(* ===== verification/SdioProps.thy ===== *)
theory SdioProps
  imports SdioTx
begin

text \<open>
  What the SDIO bus layer guarantees: the send window, the header of the protocol, superframes, the transmit
  queue, and packets around a transmission.
\<close>

section \<open>The send window\<close>

lemma and_128_int: "(n :: int) AND 128 = 0 \<longleftrightarrow> n mod 256 < 128"
proof -
  have "n AND 128 = 0 \<longleftrightarrow> \<not> bit n 7"
  proof
    assume "n AND 128 = 0"
    then have "\<not> bit (n AND 128) 7" by simp
    moreover have "bit (128 :: int) 7" by (simp add: bit_iff_odd)
    ultimately show "\<not> bit n 7" by (simp add: bit_and_iff)
  next
    assume h: "\<not> bit n 7"
    show "n AND 128 = 0"
    proof (rule bit_eqI)
      fix k
      have "bit (128 :: int) k \<longleftrightarrow> k = 7" using bit_exp_iff [where 'a = int, of 7 k] by simp
      then show "bit (n AND 128) k = bit (0 :: int) k" using h by (auto simp: bit_and_iff)
    qed
  qed
  also have "\<dots> \<longleftrightarrow> n mod 256 < 128"
  proof -
    define r where "r = n mod 256"
    have r: "0 \<le> r" "r < 256" by (simp_all add: r_def)
    have "r = take_bit 8 n" by (simp add: r_def take_bit_eq_mod)
    then have "bit n 7 \<longleftrightarrow> bit r 7" by (simp add: bit_take_bit_iff)
    also have "\<dots> \<longleftrightarrow> odd (r div 128)" by (simp add: bit_iff_odd)
    also have "\<dots> \<longleftrightarrow> 128 \<le> r"
    proof (cases "r < 128")
      case True
      then show ?thesis using r by (simp add: div_pos_pos_trivial)
    next
      case False
      then have "r div 128 = 1" using r by (simp add: int_div_pos_eq [of r 128 1 "r - 128"])
      then show ?thesis using False by simp
    qed
    finally show ?thesis by (auto simp: r_def)
  qed
  finally show ?thesis .
qed

text \<open>C25: The send window. \<open>data_ok\<close> lets data out exactly when the device has offered more credits than are
  reserved for a waiting control request and fewer than half the sequence space is open, with one exception: the
  subtraction is done in integers, so when exactly the reserve is left and the numbers have wrapped around it says
  yes as well.\<close>

theorem data_ok_window:
  "data_ok b \<longleftrightarrow>
     (let r = (if ctrl_frame_stat b then 2 else 0); d = int (unat (tx_max b - tx_seq b))
      in (d - r) mod 256 < 128 \<and> (d \<noteq> r \<or> r = 2 \<and> tx_max b < tx_seq b))"
proof -
  let ?M = "uint (tx_max b)" and ?S = "uint (tx_seq b)"
  have range: "0 \<le> ?M" "?M < 256" "0 \<le> ?S" "?S < 256"
    using unsigned_less [of "tx_max b", where 'a = int] unsigned_less [of "tx_seq b", where 'a = int] by simp_all
  have d: "uint (tx_max b - tx_seq b) = (?M - ?S) mod 256" by (simp add: uint_word_ariths)
  have wrap: "(?M - ?S) mod 256 = (if ?M < ?S then ?M - ?S + 256 else ?M - ?S)"
  proof (cases "?M < ?S")
    case True
    have "(?M - ?S) mod 256 = (?M - ?S + 256) mod 256" by simp
    also have "\<dots> = ?M - ?S + 256" using range True by (intro mod_pos_pos_trivial; linarith)
    finally show ?thesis using True by simp
  next
    case False
    then have "(?M - ?S) mod 256 = ?M - ?S" using range by (intro mod_pos_pos_trivial; linarith)
    then show ?thesis using False by simp
  qed
  have lt: "tx_max b < tx_seq b \<longleftrightarrow> ?M < ?S" by (simp add: word_less_def)
  have m: "((?M - ?S) mod 256 - r) mod 256 = (?M - ?S - r) mod 256" for r by (simp add: mod_diff_left_eq)
  have ne: "?M - ?S - 2 \<noteq> 0 \<longleftrightarrow> (?M - ?S) mod 256 \<noteq> 2 \<or> ?M < ?S" "?M - ?S \<noteq> 0 \<longleftrightarrow> (?M - ?S) mod 256 \<noteq> 0"
  proof -
    have "?M < ?S \<Longrightarrow> ?M - ?S - 2 \<noteq> 0 \<and> ?M - ?S + 256 \<noteq> 0 \<and> ?M - ?S \<noteq> 0" using range by linarith
    then show "?M - ?S - 2 \<noteq> 0 \<longleftrightarrow> (?M - ?S) mod 256 \<noteq> 2 \<or> ?M < ?S" "?M - ?S \<noteq> 0 \<longleftrightarrow> (?M - ?S) mod 256 \<noteq> 0"
      unfolding wrap by auto
  qed
  show ?thesis
  proof (cases "ctrl_frame_stat b")
    case True
    then have "data_ok b \<longleftrightarrow> (?M - ?S - 2 \<noteq> 0 \<and> (?M - ?S - 2) mod 256 < 128)"
      by (simp add: data_ok_def Let_def and_128_int)
    then show ?thesis unfolding ne m [symmetric] using True lt by (auto simp: d Let_def)
  next
    case False
    then have "data_ok b \<longleftrightarrow> (?M - ?S \<noteq> 0 \<and> (?M - ?S) mod 256 < 128)"
      by (simp add: data_ok_def Let_def and_128_int)
    then show ?thesis unfolding ne using False by (auto simp: d Let_def)
  qed
qed

section \<open>The header\<close>

text \<open>A header as the device builds it: length, sequence number, flags and channel, length of the next frame,
  data offset, flow control and the last sequence number it accepts.\<close>

definition sdpcm_header :: "u16 \<Rightarrow> u8 \<Rightarrow> u8 \<Rightarrow> u8 \<Rightarrow> u8 \<Rightarrow> u8 \<Rightarrow> u8 \<Rightarrow> u8 list" where
  "sdpcm_header len sq chan nxt doff fc mx =
     brcmf_sdio_update_hwhdr len @ [sq, chan, nxt, doff, fc, mx, 0, 0]"

lemma length_sdpcm_header [simp]: "length (sdpcm_header len sq chan nxt doff fc mx) = 12"
  by (simp add: sdpcm_header_def brcmf_sdio_update_hwhdr_def)

lemma of_le32_fields:
  "(ucast (of_le32 a b c d AND 0xff) :: u8) = a"
  "(ucast (drop_bit 8 (of_le32 a b c d AND 0x00000f00)) :: u8) = b AND 0xf"
  "(ucast (drop_bit 16 (of_le32 a b c d AND 0x00ff0000)) :: u16) = ucast c"
  "(ucast (drop_bit 24 (of_le32 a b c d AND 0xff000000)) :: u8) = d"
  "(ucast (drop_bit 8 (of_le32 a b c d AND 0xff00)) :: u8) = b"
proof -
  have m: "(0xff :: u32) = mask 8" "(0x00000f00 :: u32) = push_bit 8 (mask 4)" "(0xf :: u8) = mask 4"
    "(0x00ff0000 :: u32) = push_bit 16 (mask 8)" "(0xff000000 :: u32) = push_bit 24 (mask 8)"
    "(0xff00 :: u32) = push_bit 8 (mask 8)"
    by (simp_all add: mask_eq_exp_minus_1 push_bit_eq_mult)
  note s = of_le32_def bit_simps
  show "(ucast (of_le32 a b c d AND 0xff) :: u8) = a"
    unfolding m by (rule bit_word_eqI) (auto simp: s)
  show "(ucast (drop_bit 8 (of_le32 a b c d AND 0x00000f00)) :: u8) = b AND 0xf"
    unfolding m by (rule bit_word_eqI) (auto simp: s dest: bit_imp_le_length)
  show "(ucast (drop_bit 16 (of_le32 a b c d AND 0x00ff0000)) :: u16) = ucast c"
    unfolding m by (rule bit_word_eqI) (auto simp: s dest: bit_imp_le_length)
  show "(ucast (drop_bit 24 (of_le32 a b c d AND 0xff000000)) :: u8) = d"
    unfolding m by (rule bit_word_eqI) (auto simp: s dest: bit_imp_le_length)
  show "(ucast (drop_bit 8 (of_le32 a b c d AND 0xff00)) :: u8) = b"
    unfolding m by (rule bit_word_eqI) (auto simp: s dest: bit_imp_le_length)
qed

lemma of_le32_channel [simp]: "sdpcm_channel (of_le32 a b c d) = b AND 0xf"
  unfolding sdpcm_channel_def by (rule of_le32_fields)

lemma of_le32_datoffset [simp]: "brcmf_sdio_getdatoffset (of_le32 a b c d) = d"
  unfolding brcmf_sdio_getdatoffset_def by (rule of_le32_fields)

lemma of_le32_low [simp]: "(ucast (of_le32 a b c d AND 0xff) :: u8) = a"
  by (rule of_le32_fields)

lemma nxt_limit: "MAX_RX_DATASZ < unat (ucast (nxt :: u8) :: u16) * 16 \<longleftrightarrow> 128 < nxt"
  by (simp add: word_less_nat_alt)

lemma hdparse_window_fields:
  "hdparse_window cur (of_le32 sq chan nxt doff) (of_le32 fc mx x y) b =
     (let n = (if 128 < nxt then 0 else ucast nxt);
          b = rd_upd cur (\<lambda>r. r\<lparr>len_nxtfrm := n\<rparr>) b;
          b = (if flowcontrol b \<noteq> fc then set_flowcontrol fc b else b)
      in b\<lparr>tx_max := (if 0x40 < mx - tx_seq b then tx_seq b + 2 else mx)\<rparr>)"
  unfolding hdparse_window_def of_le32_fields by (simp only: Let_def nxt_limit)

lemma sdpcm_header_words:
  fixes len :: u16
  shows "hdr_half (sdpcm_header len sq chan nxt doff fc mx @ rest) 0 = Some len"
    "hdr_half (sdpcm_header len sq chan nxt doff fc mx @ rest) 2 = Some (NOT len)"
    "hdr_word (sdpcm_header len sq chan nxt doff fc mx @ rest) 4 = Some (of_le32 sq chan nxt doff)"
    "hdr_word (sdpcm_header len sq chan nxt doff fc mx @ rest) 8 = Some (of_le32 fc mx 0 0)"
    "nth_opt (sdpcm_header len sq chan nxt doff fc mx @ rest) 5 = Some chan"
  by (simp_all add: hdr_half_def hdr_word_def nth_opt_def sdpcm_header_def brcmf_sdio_update_hwhdr_def le16_def)

lemma sdpcm_header_words0:
  fixes len :: u16
  shows "hdr_half (sdpcm_header len sq chan nxt doff fc mx) 0 = Some len"
    "hdr_half (sdpcm_header len sq chan nxt doff fc mx) 2 = Some (NOT len)"
    "hdr_word (sdpcm_header len sq chan nxt doff fc mx) 4 = Some (of_le32 sq chan nxt doff)"
    "hdr_word (sdpcm_header len sq chan nxt doff fc mx) 8 = Some (of_le32 fc mx 0 0)"
    "nth_opt (sdpcm_header len sq chan nxt doff fc mx) 5 = Some chan"
  using sdpcm_header_words [of len sq chan nxt doff fc mx "[]"] by simp_all

lemma checksum_ok: "(w :: u16) OR NOT w \<noteq> 0" "NOT (w XOR NOT w) = 0"
  by (simp_all add: bit.xor_compl_right)

text \<open>The fields a frame header sets, for each kind of frame.\<close>

lemma rd_get_upd [simp]: "rd_get cur (rd_upd cur f b) = f (rd_get cur b)"
  by (simp add: rd_get_def rd_upd_def)

lemma set_flowcontrol_simps [simp]:
  "flowcontrol (set_flowcontrol fc b) = fc" "tx_seq (set_flowcontrol fc b) = tx_seq b"
  "cur_read (set_flowcontrol fc b) = cur_read b" "rd_loc (set_flowcontrol fc b) = rd_loc b"
  "sd (set_flowcontrol fc b) = sd b" "glom (set_flowcontrol fc b) = glom b" "glomd (set_flowcontrol fc b) = glomd b"
  "sdio_log (set_flowcontrol fc b) = sdio_log b" "tx_max (set_flowcontrol fc b) = tx_max b"
  by (simp_all add: set_flowcontrol_def count_def Let_def)

lemma count_simps [simp]:
  "flowcontrol (count c n b) = flowcontrol b" "tx_seq (count c n b) = tx_seq b" "cur_read (count c n b) = cur_read b"
  "rd_loc (count c n b) = rd_loc b" "sd (count c n b) = sd b" "glom (count c n b) = glom b"
  "glomd (count c n b) = glomd b" "sdio_log (count c n b) = sdio_log b" "tx_max (count c n b) = tx_max b"
  "blocksize (count c n b) = blocksize b" "rd_get cur (count c n b) = rd_get cur b"
  by (simp_all add: count_def rd_get_def)

text \<open>C26: Parsing a frame header. For a header with a matching checksum whose length and data offset are in range,
  \<open>brcmf_sdio_hdparse\<close> succeeds and takes from it exactly the length, channel, data offset, sequence number and
  the length of the next frame (zero when that is beyond the limit), the flow control bits, and the send
  window, which is only believed up to sixty-four frames ahead.\<close>

theorem hdparse_exact:
  assumes "12 \<le> len" and "len \<le> 2048 \<or> chan AND 0xf = 0" and "12 \<le> doff" and "unat doff \<le> unat len"
  shows "\<exists>b'. brcmf_sdio_hdparse e (sdpcm_header len sq chan nxt doff fc mx @ rest) True FT_NORMAL b = Some (0, b') \<and>
      cur_read b' = (cur_read b)\<lparr>hd_len := len, channel := chan AND 0xf, dat_offset := doff, seq_num := sq,
        len_nxtfrm := (if 128 < nxt then 0 else ucast nxt)\<rparr> \<and>
      flowcontrol b' = fc \<and> tx_max b' = (if mx - tx_seq b \<le> 0x40 then mx else tx_seq b + 2) \<and>
      sdio_log b' = sdio_log b \<and> sd b' = sd b"
proof -
  have l: "12 \<le> unat len" "12 \<le> unat doff" "\<not> (2048 < unat len \<and> chan AND 0xf \<noteq> 0)"
    using assms by (auto simp: word_le_nat_alt)
  let ?b = "rd_upd True (\<lambda>r. r\<lparr>dat_offset := doff\<rparr>) (rd_upd True (\<lambda>r. r\<lparr>channel := chan AND 0xf\<rparr>)
    (rd_upd True (\<lambda>r. r\<lparr>hd_len := len\<rparr>) b))"
  let ?c = "if seq_num (rd_get True ?b) \<noteq> sq then rd_upd True (\<lambda>r. r\<lparr>seq_num := sq\<rparr>) (count rx_badseq 1 ?b) else ?b"
  have parse: "brcmf_sdio_hdparse e (sdpcm_header len sq chan nxt doff fc mx @ rest) True FT_NORMAL b
      = Some (0, hdparse_window True (of_le32 sq chan nxt doff) (of_le32 fc mx 0 0) ?c)"
    using l assms(4)
    by (simp add: brcmf_sdio_hdparse_def sdpcm_header_words checksum_ok hdparse_sw_def Let_def del: nth_opt_Some)
  show ?thesis unfolding parse
    by (auto simp: hdparse_window_fields Let_def rd_upd_def rd_get_def not_le [symmetric])
qed

section \<open>Superframes\<close>

record subframe =
  sf_event :: bool
  sf_flags :: u8
  sf_seq :: u8
  sf_info :: "u8 \<times> u8 \<times> u8"
  sf_fill :: "u8 list"
  sf_payload :: "u8 list"
  sf_pad :: "u8 list"

definition sf_doff :: "subframe \<Rightarrow> nat" where
  "sf_doff f = 12 + length (sf_fill f)"

definition sf_len :: "subframe \<Rightarrow> nat" where
  "sf_len f = sf_doff f + length (sf_payload f)"

definition sf_chan :: "subframe \<Rightarrow> u8" where
  "sf_chan f = (sf_flags f AND 0xF0) OR (if sf_event f then 1 else 2)"

text \<open>The bytes of a subframe: header, filler up to the data offset, payload, padding.\<close>

definition sub_bytes :: "subframe \<Rightarrow> u8 list" where
  "sub_bytes f = sdpcm_header (of_nat (sf_len f)) (sf_seq f) (sf_chan f) (fst (sf_info f)) (of_nat (sf_doff f))
     (fst (snd (sf_info f))) (snd (snd (sf_info f))) @ sf_fill f @ sf_payload f @ sf_pad f"

definition sub_ok :: "subframe \<Rightarrow> bool" where
  "sub_ok f \<longleftrightarrow> sf_doff f < 256 \<and> sf_len f \<le> 2048 \<and> length (sub_bytes f) < 65536"

lemma sub_nums:
  assumes "sub_ok f"
  shows "unat (of_nat (sf_len f) :: u16) = sf_len f" "unat (of_nat (sf_doff f) :: u8) = sf_doff f"
    "12 \<le> sf_doff f" "sf_doff f \<le> sf_len f" "sf_len f \<le> length (sub_bytes f)"
proof -
  show "unat (of_nat (sf_len f) :: u16) = sf_len f" "unat (of_nat (sf_doff f) :: u8) = sf_doff f"
    using assms by (simp_all add: sub_ok_def unsigned_of_nat take_bit_nat_eq_self)
qed (auto simp: sf_len_def sf_doff_def sub_bytes_def)

lemma sf_chan_low: "sf_chan f AND 0xf = (if sf_event f then 1 else 2)"
proof -
  have m: "(0xF0 :: u8) = NOT (mask 4)" "(0xf :: u8) = mask 4" by (simp_all add: mask_eq_exp_minus_1)
  have "sf_chan f AND 0xf = ((sf_flags f AND 0xF0) AND 0xf) OR ((if sf_event f then 1 else 2) AND 0xf)"
    by (simp add: sf_chan_def bit.conj_disj_distrib2)
  also have "(sf_flags f AND 0xF0) AND 0xf = 0" unfolding m by (rule bit_word_eqI) (auto simp: bit_simps)
  finally show ?thesis by simp
qed

lemma sb_read_prefix:
  assumes "sb_ok p" and "n \<le> sb_len p"
  shows "sb_read p 0 n = Some (take n (sb_data p))"
  by (rule sb_read_data [OF assms])

lemma sub_read:
  assumes "sb_ok p" and "sb_data p = sub_bytes f"
  shows "sb_read p 0 SDPCM_HDRLEN = Some (sdpcm_header (of_nat (sf_len f)) (sf_seq f) (sf_chan f) (fst (sf_info f))
      (of_nat (sf_doff f)) (fst (snd (sf_info f))) (snd (snd (sf_info f))))"
    and "sb_read p 0 8 = Some (take 8 (sdpcm_header (of_nat (sf_len f)) (sf_seq f) (sf_chan f) (fst (sf_info f))
      (of_nat (sf_doff f)) (fst (snd (sf_info f))) (snd (snd (sf_info f)))))"
proof -
  have "sb_len p = length (sub_bytes f)" using assms by (metis length_sb_data)
  then have "12 \<le> sb_len p" by (simp add: sub_bytes_def)
  then show "sb_read p 0 SDPCM_HDRLEN = Some (sdpcm_header (of_nat (sf_len f)) (sf_seq f) (sf_chan f) (fst (sf_info f))
      (of_nat (sf_doff f)) (fst (snd (sf_info f))) (snd (snd (sf_info f))))"
    "sb_read p 0 8 = Some (take 8 (sdpcm_header (of_nat (sf_len f)) (sf_seq f) (sf_chan f) (fst (sf_info f))
      (of_nat (sf_doff f)) (fst (snd (sf_info f))) (snd (snd (sf_info f)))))"
    using assms by (simp_all add: sb_read_data sub_bytes_def)
qed

text \<open>What parsing does not touch.\<close>

definition same_io :: "'d brcmf_sdio \<Rightarrow> 'd brcmf_sdio \<Rightarrow> bool" where
  "same_io b b' \<longleftrightarrow> sd b' = sd b \<and> glom b' = glom b \<and> glomd b' = glomd b \<and> sdio_log b' = sdio_log b \<and>
     blocksize b' = blocksize b"

lemma blocksize_flowcontrol [simp]: "blocksize (set_flowcontrol fc b) = blocksize b"
  by (simp add: set_flowcontrol_def count_def Let_def)

lemma same_io_refl [simp]: "same_io b b"
  by (simp add: same_io_def)

lemma same_io_trans: "same_io a b \<Longrightarrow> same_io b c \<Longrightarrow> same_io a c"
  by (simp add: same_io_def)

lemma same_io_steps [simp]:
  "same_io a (count c n b) = same_io a b" "same_io a (rd_upd cur f b) = same_io a b"
  "same_io a (set_flowcontrol fc b) = same_io a b" "same_io a (b\<lparr>tx_max := x\<rparr>) = same_io a b"
  by (auto simp: same_io_def count_def rd_upd_def set_flowcontrol_def Let_def)

lemma hdparse_sub:
  assumes "12 \<le> unat len" "unat len \<le> 2048" "len \<le> hd_len (rd_loc b)" "chan AND 0xf = 1 \<or> chan AND 0xf = 2"
    "12 \<le> unat doff" "unat doff \<le> unat len"
  shows "\<exists>b'. brcmf_sdio_hdparse e (sdpcm_header len sq chan nxt doff fc mx) False FT_SUB b = Some (0, b') \<and> same_io b b'"
proof -
  have "\<not> hd_len (rd_get False b) < len" using assms(3) by (simp add: rd_get_def)
  then show ?thesis
    using assms
    by (auto simp: brcmf_sdio_hdparse_def sdpcm_header_words0 checksum_ok hdparse_sw_def Let_def simp del: nth_opt_Some)
qed

lemma hdparse_super:
  assumes "12 \<le> unat len" "round_up (unat len) (blocksize b) = unat (hd_len (rd_loc b))"
    "chan AND 0x80 = 0" "chan AND 0xf = 3" "12 \<le> unat doff" "unat doff \<le> unat len"
  shows "\<exists>b'. brcmf_sdio_hdparse e (sdpcm_header len sq chan nxt doff fc mx) False FT_SUPER b = Some (0, b') \<and> same_io b b' \<and>
    dat_offset (rd_loc b') = doff"
proof -
  have "round_up (unat len) (blocksize b) = unat (hd_len (rd_get False b))" using assms(2) by (simp add: rd_get_def)
  then show ?thesis
    using assms
    by (auto simp: brcmf_sdio_hdparse_def sdpcm_header_words0 checksum_ok hdparse_sw_def Let_def hdparse_window_fields
        rd_upd_def rd_get_def same_io_def simp del: nth_opt_Some)
qed

lemma glom_validate_ok:
  "\<lbrakk>map sb_data ps = map sub_bytes fs; \<forall>p\<in>set ps. sb_ok p; \<forall>f\<in>set fs. sub_ok f\<rbrakk>
    \<Longrightarrow> \<exists>b'. glom_validate e ps rxseq num b = Some ((0, num + of_nat (length fs)), b') \<and> same_io b b'"
proof (induction ps arbitrary: fs rxseq num b)
  case Nil
  then show ?case by simp
next
  case (Cons p ps)
  then obtain f gs where fs: "fs = f # gs" "sb_data p = sub_bytes f" "map sb_data ps = map sub_bytes gs" by auto
  have f: "sub_ok f" and p: "sb_ok p" using Cons.prems fs by auto
  have len: "sb_len p = length (sub_bytes f)" using p fs(2) by (metis length_sb_data)
  let ?b = "rd_upd False (\<lambda>r. r\<lparr>hd_len := of_nat (sb_len p), seq_num := rxseq\<rparr>) b"
  have lenw: "unat (of_nat (sb_len p) :: u16) = sb_len p"
    using f len by (simp add: sub_ok_def unsigned_of_nat take_bit_nat_eq_self)
  have "(of_nat (sf_len f) :: u16) \<le> hd_len (rd_loc ?b)"
    using sub_nums [OF f] len lenw by (simp add: word_le_nat_alt rd_upd_def)
  then obtain b1 where b1: "brcmf_sdio_hdparse e (sdpcm_header (of_nat (sf_len f)) (sf_seq f) (sf_chan f) (fst (sf_info f))
      (of_nat (sf_doff f)) (fst (snd (sf_info f))) (snd (snd (sf_info f)))) False FT_SUB ?b = Some (0, b1)" "same_io ?b b1"
  proof -
    have "\<exists>b1. brcmf_sdio_hdparse e (sdpcm_header (of_nat (sf_len f)) (sf_seq f) (sf_chan f) (fst (sf_info f))
      (of_nat (sf_doff f)) (fst (snd (sf_info f))) (snd (snd (sf_info f)))) False FT_SUB ?b = Some (0, b1) \<and> same_io ?b b1"
    proof (rule hdparse_sub)
      show "sf_chan f AND 15 = 1 \<or> sf_chan f AND 15 = 2" by (simp add: sf_chan_low)
    qed (use sub_nums [OF f] f \<open>of_nat (sf_len f) \<le> hd_len (rd_loc ?b)\<close> in \<open>auto simp: sub_ok_def\<close>)
    then show ?thesis using that by blast
  qed
  obtain b2 where b2: "glom_validate e ps (rxseq + 1) (num + 1) b1 = Some ((0, num + 1 + of_nat (length gs)), b2)" "same_io b1 b2"
    using Cons.IH [OF fs(3), of "rxseq + 1" "num + 1" b1] Cons.prems fs by auto
  have "same_io b b2" using b1(2) b2(2) by (auto intro: same_io_trans simp: same_io_def rd_upd_def)
  then show ?case using b1(1) b2(1) sub_read(1) [OF p fs(2)] fs(1) by (simp add: add.assoc)
qed

fun delivered :: "sdio_action list \<Rightarrow> (bool \<times> u8 list) list" where
  "delivered [] = []"
| "delivered (RxEvent q # as) = (True, sb_data q) # delivered as"
| "delivered (RxFrame q # as) = (False, sb_data q) # delivered as"
| "delivered (a # as) = delivered as"

lemma delivered_append: "delivered (as @ bs) = delivered as @ delivered bs"
  by (induction as rule: delivered.induct) auto

text \<open>The payloads a superframe carries, events marked.\<close>

definition sub_payloads :: "subframe list \<Rightarrow> (bool \<times> u8 list) list" where
  "sub_payloads fs = map (\<lambda>f. (sf_event f, sf_payload f)) (filter (\<lambda>f. sf_payload f \<noteq> []) fs)"

lemma glom_deliver_ok:
  "\<lbrakk>map sb_data ps = map sub_bytes fs; \<forall>p\<in>set ps. sb_ok p; \<forall>f\<in>set fs. sub_ok f\<rbrakk>
    \<Longrightarrow> \<exists>b'. glom_deliver ps b = Some b' \<and> sd b' = sd b \<and> delivered (sdio_log b') = delivered (sdio_log b) @ sub_payloads fs"
proof (induction ps arbitrary: fs b)
  case Nil
  then show ?case by (simp add: sub_payloads_def)
next
  case (Cons p ps)
  then obtain f gs where fs: "fs = f # gs" "sb_data p = sub_bytes f" "map sb_data ps = map sub_bytes gs" by auto
  have f: "sub_ok f" and p: "sb_ok p" using Cons.prems fs by auto
  note n = sub_nums [OF f]
  have len: "sb_len p = length (sub_bytes f)" using p fs(2) by (metis length_sb_data)
  let ?t = "skb_set_trim (sf_len f) p"
  have t: "sb_ok ?t" "sb_len ?t = sf_len f" "sb_data ?t = take (sf_len f) (sub_bytes f)"
  proof -
    show "sb_ok ?t" "sb_len ?t = sf_len f" using p len n by (simp_all add: skb_set_trim_def sb_ok_def)
    have "sb_data ?t = take (sf_len f) (sb_data p)" using len n by (simp add: skb_set_trim_def sb_data_def min_def)
    then show "sb_data ?t = take (sf_len f) (sub_bytes f)" using fs(2) by simp
  qed
  let ?q = "skb_pull (sf_doff f) ?t"
  have pl: "drop (sf_doff f) (take (sf_len f) (sub_bytes f)) = sf_payload f"
    by (simp add: sub_bytes_def sf_len_def sf_doff_def)
  have q: "sb_len ?q = length (sf_payload f)" "sb_data ?q = sf_payload f"
    using skb_pull_data [of ?t "sf_doff f"] t n pl by (simp_all add: sf_len_def)
  have hdr: "hdr_half (take 8 (sdpcm_header (of_nat (sf_len f)) (sf_seq f) (sf_chan f) (fst (sf_info f))
      (of_nat (sf_doff f)) (fst (snd (sf_info f))) (snd (snd (sf_info f))))) 0 = Some (of_nat (sf_len f))"
    "hdr_word (take 8 (sdpcm_header (of_nat (sf_len f)) (sf_seq f) (sf_chan f) (fst (sf_info f))
      (of_nat (sf_doff f)) (fst (snd (sf_info f))) (snd (snd (sf_info f))))) 4
      = Some (of_le32 (sf_seq f) (sf_chan f) (fst (sf_info f)) (of_nat (sf_doff f)))"
    by (simp_all add: hdr_half_def hdr_word_def nth_opt_def sdpcm_header_def brcmf_sdio_update_hwhdr_def le16_def)
  let ?b = "if sb_len ?q = 0 then sdio_emit (FreePkt ?q) b
    else count rxglompkts 1 (sdio_emit (if sf_event f then RxEvent ?q else RxFrame ?q) b)"
  have ev: "brcmf_sdio_fromevntchan (of_le32 (sf_seq f) (sf_chan f) (fst (sf_info f)) (of_nat (sf_doff f))) = sf_event f"
    by (simp add: brcmf_sdio_fromevntchan_def sf_chan_low)
  have step: "glom_deliver (p # ps) b = glom_deliver ps ?b"
    using sub_read(2) [OF p fs(2)] hdr n(1,2) ev by simp
  obtain b' where b': "glom_deliver ps ?b = Some b'" "sd b' = sd ?b"
    "delivered (sdio_log b') = delivered (sdio_log ?b) @ sub_payloads gs"
    using Cons.IH [OF fs(3), of ?b] Cons.prems fs by auto
  have "sd ?b = sd b" "delivered (sdio_log ?b) = delivered (sdio_log b) @ sub_payloads [f]"
    using q by (simp_all add: sdio_emit_def delivered_append sub_payloads_def)
  then show ?case unfolding step using b' by (auto simp: fs(1) sub_payloads_def)
qed
text \<open>The lengths of the buffers for a descriptor: the last one is extended to a whole block.\<close>

fun glom_lens :: "nat \<Rightarrow> nat \<Rightarrow> nat list \<Rightarrow> nat list" where
  "glom_lens blk tot [] = []"
| "glom_lens blk tot (n # ns) =
     (if ns = [] then [n + (round_up (tot + n) blk - (tot + n))] else n # glom_lens blk (tot + n) ns)"

lemma round_up_bounds:
  assumes "0 < a"
  shows "n \<le> round_up n a" "round_up n a < n + a"
proof -
  obtain q r where q: "n + a - 1 = q * a + r" "r < a"
    using assms by (metis div_mult_mod_eq mod_less_divisor)
  then have "round_up n a = q * a" unfolding round_up_def using assms by simp
  then show "n \<le> round_up n a" "round_up n a < n + a" using q assms by linarith+
qed

lemma glom_lens_pos: "\<forall>n\<in>set ns. 0 < n \<Longrightarrow> \<forall>n\<in>set (glom_lens blk tot ns). 0 < n"
  by (induction ns arbitrary: tot) auto

lemma pkt_align_ok:
  assumes "sb_ok p" and "sb_len p = n + a" and "0 < a"
  shows "sb_ok (pkt_align n a p)" "sb_len (pkt_align n a p) = n"
proof -
  have "round_up (sb_ptr p) a - sb_ptr p < a" using round_up_bounds [OF assms(3), of "sb_ptr p"] by simp
  then show "sb_ok (pkt_align n a p)" "sb_len (pkt_align n a p) = n"
    using assms by (auto simp: pkt_align_def Let_def skb_pull_def skb_set_trim_def sb_ok_def)
qed

lemma glom_chain_ok:
  assumes fc: "fifo_card (e_mmc e) fifo" and al: "0 < unat (sgentry_align b)" and d: "sb_ok desc"
  shows "\<lbrakk>take (2 * length ns) (drop off (sb_data desc)) = concat (map (\<lambda>n. le16 (of_nat n)) ns); off + 2 * length ns \<le> sb_len desc;
      \<forall>n\<in>set ns. 12 \<le> n; num = 0 \<longrightarrow> ns \<noteq> [] \<longrightarrow> 24 \<le> hd ns; unat num + length ns < 256;
      tot + sum_list (glom_lens (blocksize b) tot ns) < 65536; b2 = b\<lparr>sd := (sd b)\<lparr>sd_dev := dv\<rparr>, glom := gl\<rparr>; fifo dv = F\<rbrakk>
    \<Longrightarrow> \<exists>ps dv'. glom_chain e desc (length ns) off (of_nat tot) num b2
        = Some ((True, num + of_nat (length ns)), b\<lparr>sd := (sd b)\<lparr>sd_dev := dv'\<rparr>, glom := gl @ ps\<rparr>) \<and>
      fifo dv' = F \<and> map sb_len ps = glom_lens (blocksize b) tot ns \<and> (\<forall>p\<in>set ps. sb_ok p)"
proof (induction ns arbitrary: off tot num b2 dv gl)
  case Nil
  then show ?case by (intro exI [of _ "[]"] exI [of _ dv]) simp
next
  case (Cons n ns)
  let ?blk = "blocksize b" and ?al = "unat (sgentry_align b)"
  have bytes: "take 2 (drop off (sb_data desc)) = le16 (of_nat n)"
    "take (2 * length ns) (drop (off + 2) (sb_data desc)) = concat (map (\<lambda>n. le16 (of_nat n)) ns)"
  proof -
    have e: "take (2 + 2 * length ns) (drop off (sb_data desc)) = le16 (of_nat n) @ concat (map (\<lambda>n. le16 (of_nat n)) ns)"
      using Cons.prems(1) by simp
    show "take 2 (drop off (sb_data desc)) = le16 (of_nat n)"
      using arg_cong [OF e, of "take 2"] by (simp add: min_def)
    show "take (2 * length ns) (drop (off + 2) (sb_data desc)) = concat (map (\<lambda>n. le16 (of_nat n)) ns)"
      using arg_cong [OF e, of "drop 2"] by (simp add: drop_take add.commute)
  qed
  have rd: "sb_read desc off 2 = Some (le16 (of_nat n))"
  proof -
    have le: "off + 2 \<le> sb_len desc" using Cons.prems(2) by simp
    then have "sb_read desc off 2 = Some (take 2 (drop (sb_off desc + off) (sb_mem desc)))"
      using d by (simp add: sb_read_def read_bytes_def sb_ok_def)
    also have "take 2 (drop (sb_off desc + off) (sb_mem desc)) = take 2 (drop off (sb_data desc))"
      using le by (simp add: sb_data_def drop_take add.commute)
    finally show ?thesis by (simp add: bytes(1))
  qed
  let ?m = "if ns = [] then n + (round_up (tot + n) ?blk - (tot + n)) else n"
  have small: "n < 65536" "tot + n < 65536" "?m < 65536" "ns = [] \<Longrightarrow> tot + ?m < 65536"
    using Cons.prems(6) by (auto split: if_splits)
  have w: "unat (of_nat n :: u16) = n" "unat (of_nat tot + of_nat n :: u16) = tot + n"
    using small by (simp_all add: unsigned_of_nat take_bit_nat_eq_self flip: of_nat_add)
  have h: "hdr_half (le16 (of_nat n)) 0 = Some (of_nat n)" by (simp add: hdr_half_def nth_opt_def le16_def)
  let ?sub = "(if length ns = 0 then of_nat n + of_nat (round_up (tot + n) ?blk - (tot + n)) else of_nat n) :: u16"
  have sub: "unat ?sub = ?m"
    using small by (auto simp: unsigned_of_nat take_bit_nat_eq_self simp flip: of_nat_add)
  obtain p dv1 where p: "brcmu_pkt_buf_get_skb (e_mmc e) (?m + ?al) (sd b2) = Some (Some p, (sd b2)\<lparr>sd_dev := dv1\<rparr>)"
    "fifo dv1 = fifo (sd_dev (sd b2))" "sb_ok p" "sb_len p = ?m + ?al"
    using fifo_get_skb [OF fc, of "?m + ?al" "sd b2"] by blast
  let ?p = "pkt_align ?m ?al p"
  note al' = pkt_align_ok [OF p(3,4) al]
  have ok: "(n < 12 \<or> num = 0 \<and> n < 24) = False" using Cons.prems(3,4) by auto
  let ?b3 = "b\<lparr>sd := (sd b)\<lparr>sd_dev := dv1\<rparr>, glom := gl @ [?p]\<rparr>"
  have step: "glom_chain e desc (length (n # ns)) off (of_nat tot) num b2
      = glom_chain e desc (length ns) (off + 2) (of_nat (tot + n)) (num + 1) ?b3"
    using rd h w sub p(1) Cons.prems(7) by (simp only: glom_chain.simps length_Cons Let_def) (simp add: ok cong: if_cong)
  have num: "unat (num + 1) = unat num + 1" using Cons.prems(5) unat_inc_less [of num 255] by simp
  have "\<exists>ps dv'. glom_chain e desc (length ns) (off + 2) (of_nat (tot + n)) (num + 1) ?b3
        = Some ((True, num + 1 + of_nat (length ns)), b\<lparr>sd := (sd b)\<lparr>sd_dev := dv'\<rparr>, glom := (gl @ [?p]) @ ps\<rparr>) \<and>
      fifo dv' = F \<and> map sb_len ps = glom_lens ?blk (tot + n) ns \<and> (\<forall>p\<in>set ps. sb_ok p)"
  proof (rule Cons.IH [OF bytes(2)])
    show "num + 1 = 0 \<longrightarrow> ns \<noteq> [] \<longrightarrow> 24 \<le> hd ns" using num by (metis add_is_0 unat_0 zero_neq_one)
    show "tot + n + sum_list (glom_lens ?blk (tot + n) ns) < 65536"
      using Cons.prems(6) small by (cases "ns = []") auto
    show "off + 2 + 2 * length ns \<le> sb_len desc" using Cons.prems(2) by simp
    show "\<forall>n\<in>set ns. 12 \<le> n" using Cons.prems(3) by simp
    show "unat (num + 1) + length ns < 256" using Cons.prems(5) num by simp
    show "fifo dv1 = F" using Cons.prems(7,8) p(2) by simp
    show "?b3 = b\<lparr>sd := (sd b)\<lparr>sd_dev := dv1\<rparr>, glom := gl @ [?p]\<rparr>" ..
  qed
  then obtain ps dv' where ps: "glom_chain e desc (length ns) (off + 2) (of_nat (tot + n)) (num + 1) ?b3
        = Some ((True, num + 1 + of_nat (length ns)), b\<lparr>sd := (sd b)\<lparr>sd_dev := dv'\<rparr>, glom := (gl @ [?p]) @ ps\<rparr>)"
      "fifo dv' = F" "map sb_len ps = glom_lens ?blk (tot + n) ns" "\<forall>p\<in>set ps. sb_ok p" by blast
  show ?case unfolding step ps(1)
    by (intro exI [of _ "?p # ps"] exI [of _ dv']) (use ps al' in \<open>auto simp: add.assoc\<close>)
qed
text \<open>What the host must be able to take in one request, by lengths.\<close>

definition lens_fit :: "'d brcmf_sdio_dev \<Rightarrow> nat list \<Rightarrow> bool" where
  "lens_fit s ns \<longleftrightarrow> ns \<noteq> [] \<and> (\<forall>n\<in>set ns. 0 < n) \<and>
     sum_list ns mod f2_blksize s = 0 \<and> f2_blksize s mod 4 = 0 \<and> 0 < f2_blksize s \<and>
     (1 < length ns \<and> sg_support s \<longrightarrow> sum_list ns \<le> max_request_size s \<and>
       (if broken_sg_support s then 4096 \<le> max_segment_size s \<and>
          (sum_list ns + 4095) div 4096 \<le> min (max_segment_count s) (sgt_nents s)
        else (\<forall>n\<in>set ns. n \<le> max_segment_size s) \<and> length ns \<le> min (max_segment_count s) (sgt_nents s)))"

lemma chain_fits_lens: "chain_fits s ps \<longleftrightarrow> (\<forall>p\<in>set ps. sb_ok p) \<and> lens_fit s (map sb_len ps)"
  by (auto simp: chain_fits_def lens_fit_def)

definition super_bytes :: "u16 \<Rightarrow> u8 \<Rightarrow> u8 \<Rightarrow> u8 \<times> u8 \<times> u8 \<Rightarrow> u8 list \<Rightarrow> u8 list" where
  "super_bytes len sq chan info filler = sdpcm_header len sq chan (fst info) (of_nat (12 + length filler))
     (fst (snd info)) (snd (snd info)) @ filler"

lemma glom_read_ok:
  assumes fc: "fifo_card (e_mmc e) fifo" and fit: "chain_fits (sd b) (glom b)" and n: "brcmf_sdio_glom_len b < 65536"
    and fs: "fs = f # gs" "\<forall>f\<in>set fs. sub_ok f"
    and lens: "map sb_len (glom b) = (12 + length filler + length (sub_bytes f)) # map (length \<circ> sub_bytes) gs"
    and stream: "fifo (sd_dev (sd b)) = super_bytes len sq chan info filler @ concat (map sub_bytes fs) @ rest"
    and hdr: "12 + length filler < 256" "12 + length filler \<le> unat len" "chan AND 0x80 = 0" "chan AND 0xf = 3"
      "round_up (unat len) (blocksize b) = brcmf_sdio_glom_len b"
  shows "\<exists>b'. glom_read e rxseq num b = Some (of_nat (length fs), b') \<and>
    delivered (sdio_log b') = delivered (sdio_log b) @ sub_payloads fs \<and> glom b' = [] \<and> glomd b' = glomd b \<and>
    fifo (sd_dev (sd b')) = rest"
proof -
  let ?n = "brcmf_sdio_glom_len b" and ?F = "fifo (sd_dev (sd b))"
  have sum: "sum_list (map sb_len (glom b)) = ?n" by (simp add: brcmf_sdio_glom_len_def)
  have tot: "?n = length (super_bytes len sq chan info filler @ concat (map sub_bytes fs))"
    unfolding sum [symmetric] lens by (simp add: super_bytes_def fs(1) length_concat comp_def)
  have nw: "unat (of_nat ?n :: u16) = ?n" using n by (simp add: unsigned_of_nat take_bit_nat_eq_self)
  have avail: "sum_list (map sb_len (glom b)) \<le> length ?F" unfolding sum tot stream by simp
  obtain s where s: "brcmf_sdiod_recv_chain (e_mmc e) (glom b) ?n (sd b) = Some (0, fill (glom b) ?F, s)"
    "fifo (sd_dev s) = drop ?n ?F"
    using recv_chain_fill [OF fc fit avail] unfolding sum by blast
  have left: "fifo (sd_dev s) = rest" unfolding s(2) tot stream by simp
  have ok: "\<forall>p\<in>set (glom b). sb_ok p" using fit by (simp add: chain_fits_lens)
  have data: "map sb_data (fill (glom b) ?F) = deal (map sb_len (glom b)) ?F" by (rule fill_data [OF ok avail])
  have dealt: "deal (map (length \<circ> sub_bytes) gs) (concat (map sub_bytes gs) @ rest) = map sub_bytes gs" for gs rest
    by (induction gs) auto
  let ?first = "super_bytes len sq chan info filler @ sub_bytes f"
  have data': "map sb_data (fill (glom b) ?F) = ?first # map sub_bytes gs"
    unfolding data unfolding lens stream using dealt by (simp add: fs(1) super_bytes_def del: map_map)
  obtain p ps where ps: "fill (glom b) ?F = p # ps" using data' by (cases "fill (glom b) ?F") auto
  have p: "sb_data p = ?first" "map sb_data ps = map sub_bytes gs" using data' ps by auto
  have oks: "sb_ok p" "\<forall>q\<in>set ps. sb_ok q" using fill_ok [OF ok avail] ps by auto
  have plen: "sb_len p = length ?first" using oks(1) p(1) by (metis length_sb_data)
  let ?b1 = "rd_upd False (\<lambda>r. r\<lparr>seq_num := rxseq, hd_len := of_nat ?n\<rparr>) (count f2rxdata 1 (b\<lparr>sd := s, glom := p # ps\<rparr>))"
  let ?doff = "of_nat (12 + length filler) :: u8"
  have dw: "unat ?doff = 12 + length filler" using hdr(1) by (simp only: unsigned_of_nat) (simp add: take_bit_nat_eq_self)
  have h: "sb_read p 0 SDPCM_HDRLEN = Some (sdpcm_header len sq chan (fst info) ?doff (fst (snd info)) (snd (snd info)))"
    using sb_read_data [OF oks(1), of 12] plen p(1) by (simp add: super_bytes_def)
  have "\<exists>b2. brcmf_sdio_hdparse e (sdpcm_header len sq chan (fst info) ?doff (fst (snd info)) (snd (snd info))) False FT_SUPER ?b1
      = Some (0, b2) \<and> same_io ?b1 b2 \<and> dat_offset (rd_loc b2) = ?doff"
    by (rule hdparse_super) (use hdr dw nw in \<open>auto simp: rd_upd_def count_def\<close>)
  then obtain b2 where b2: "brcmf_sdio_hdparse e (sdpcm_header len sq chan (fst info) ?doff (fst (snd info)) (snd (snd info))) False FT_SUPER ?b1
      = Some (0, b2)" "same_io ?b1 b2" "dat_offset (rd_loc b2) = ?doff" by blast
  let ?q = "skb_pull (12 + length filler) p"
  have q: "sb_ok ?q" "sb_data ?q = sub_bytes f"
    using skb_pull_data [OF oks(1), of "12 + length filler"] plen p(1) by (simp_all add: super_bytes_def)
  let ?b3 = "b2\<lparr>cur_read := (cur_read b2)\<lparr>hd_len := push_bit 4 (len_nxtfrm (rd_loc b2))\<rparr>, glom := ?q # ps\<rparr>"
  have all: "map sb_data (?q # ps) = map sub_bytes fs" "\<forall>r\<in>set (?q # ps). sb_ok r" using q p(2) oks fs(1) by auto
  obtain b4 where b4: "glom_validate e (?q # ps) rxseq 0 ?b3 = Some ((0, of_nat (length fs)), b4)" "same_io ?b3 b4"
    using glom_validate_ok [OF all fs(2), of e rxseq 0 ?b3] by auto
  obtain b5 where b5: "glom_deliver (?q # ps) b4 = Some b5" "sd b5 = sd b4"
    "delivered (sdio_log b5) = delivered (sdio_log b4) @ sub_payloads fs"
    using glom_deliver_ok [OF all fs(2), of b4] by blast
  have keep: "glomd b5 = glomd b4"
  proof -
    have "glom_deliver ps b = Some b' \<Longrightarrow> glomd b' = glomd b" for ps and b b' :: "'a brcmf_sdio"
      by (induction ps arbitrary: b) (auto simp: bind_eq_Some_conv sdio_emit_def count_def Let_def split: if_splits)
    then show ?thesis using b5(1) by blast
  qed
  have g4: "glom b4 = ?q # ps" using b4(2) by (simp add: same_io_def)
  have "glom_read e rxseq num b = Some (of_nat (length fs), count rxglomframes 1 (b5\<lparr>glom := []\<rparr>))"
    using s(1) nw ps h b2(1,3) b4(1) b5(1) g4 dw
    by (simp add: glom_read_def Let_def nth_opt_def del: glom_validate.simps glom_deliver.simps)
  moreover have "sd b4 = s" "sdio_log b4 = sdio_log b" "glomd b4 = glomd b"
    using b2(2) b4(2) by (simp_all add: same_io_def rd_upd_def)
  ultimately show ?thesis using b5 keep left by simp
qed

lemma length_le16s [simp]: "length (concat (map (\<lambda>n. le16 (of_nat n)) ns)) = 2 * length ns"
  by (induction ns) auto

text \<open>C27: Superframes. When the device has announced a chain of subframes by their lengths, and then sends a
  superframe whose header, data offset and subframes are in order, \<open>brcmf_sdio_rxglom\<close> allocates the chain,
  reads it with one request, and hands every non-empty payload up exactly once and in the order of the
  subframes, events apart from data, whatever filler and padding the device puts around them; it returns
  their number, takes exactly the superframe from the card, and leaves neither descriptor nor chain
  behind.\<close>

theorem rxglom_superframe:
  assumes fc: "fifo_card (e_mmc e) fifo" and al: "0 < unat (sgentry_align b)"
    and desc: "glomd b = Some desc" "glom b = []" "sb_ok desc" "sb_data desc = concat (map (\<lambda>n. le16 (of_nat n)) ns)"
    and ns: "\<forall>n\<in>set ns. 12 \<le> n" "24 \<le> hd ns" "length ns < 256" "sum_list (glom_lens (blocksize b) 0 ns) < 65536"
    and fit: "lens_fit (sd b) (glom_lens (blocksize b) 0 ns)"
    and fs: "fs = f # gs" "\<forall>f\<in>set fs. sub_ok f"
    and lens: "glom_lens (blocksize b) 0 ns = (12 + length filler + length (sub_bytes f)) # map (length \<circ> sub_bytes) gs"
    and stream: "fifo (sd_dev (sd b)) = super_bytes len sq chan info filler @ concat (map sub_bytes fs) @ rest"
    and hdr: "12 + length filler < 256" "12 + length filler \<le> unat len" "chan AND 0x80 = 0" "chan AND 0xf = 3"
      "round_up (unat len) (blocksize b) = sum_list (glom_lens (blocksize b) 0 ns)"
  shows "\<exists>b'. brcmf_sdio_rxglom e rxseq b = Some (of_nat (length fs), b') \<and>
    delivered (sdio_log b') = delivered (sdio_log b) @ sub_payloads fs \<and> glom b' = [] \<and> glomd b' = None \<and>
    fifo (sd_dev (sd b')) = rest"
proof -
  let ?b0 = "b\<lparr>rd_loc := e_garbage e\<rparr>" and ?ls = "glom_lens (blocksize b) 0 ns"
  have "ns \<noteq> []" using fit by (auto simp: lens_fit_def)
  have dlen: "sb_len desc = 2 * length ns"
    using desc(3,4) by (metis length_sb_data length_le16s)
  have dw: "unat (of_nat (sb_len desc) :: u16) = 2 * length ns"
    using ns(3) unfolding dlen unsigned_of_nat by (simp add: take_bit_nat_eq_self)
  have chain: "\<exists>ps dv'. glom_chain e desc (length ns) 0 (of_nat 0) 0 ?b0
        = Some ((True, 0 + of_nat (length ns)), ?b0\<lparr>sd := (sd ?b0)\<lparr>sd_dev := dv'\<rparr>, glom := [] @ ps\<rparr>) \<and>
      fifo dv' = fifo (sd_dev (sd b)) \<and> map sb_len ps = glom_lens (blocksize ?b0) 0 ns \<and> (\<forall>p\<in>set ps. sb_ok p)"
    by (rule glom_chain_ok [OF fc, where dv = "sd_dev (sd b)" and gl = "[]"]) (use al desc dlen ns in auto)
  then obtain ps dv where ps: "glom_chain e desc (length ns) 0 0 0 ?b0
        = Some ((True, of_nat (length ns)), ?b0\<lparr>sd := (sd b)\<lparr>sd_dev := dv\<rparr>, glom := ps\<rparr>)"
      "fifo dv = fifo (sd_dev (sd b))" "map sb_len ps = ?ls" "\<forall>p\<in>set ps. sb_ok p" by auto
  let ?b1 = "(sdio_emit (FreePkt desc) (?b0\<lparr>sd := (sd b)\<lparr>sd_dev := dv\<rparr>, glom := ps\<rparr>))
      \<lparr>glomd := None, cur_read := (cur_read b)\<lparr>hd_len := 0\<rparr>\<rparr>"
  have d: "glom_descriptor e desc ?b0 = Some (of_nat (length ns), ?b1)"
  proof -
    have "(of_nat (sb_len desc) :: u16) \<noteq> 0" using dw \<open>ns \<noteq> []\<close> by (metis length_0_conv mult_is_0 unat_0 zero_neq_numeral)
    then show ?thesis using ps(1) dw by (simp add: glom_descriptor_def Let_def sdio_emit_def)
  qed
  have gl: "brcmf_sdio_glom_len ?b1 = sum_list ?ls" by (simp add: brcmf_sdio_glom_len_def sdio_emit_def ps(3))
  have "\<exists>b'. glom_read e rxseq (of_nat (length ns)) ?b1 = Some (of_nat (length fs), b') \<and>
    delivered (sdio_log b') = delivered (sdio_log ?b1) @ sub_payloads fs \<and> glom b' = [] \<and> glomd b' = glomd ?b1 \<and>
    fifo (sd_dev (sd b')) = rest"
  proof (rule glom_read_ok [OF fc])
    have "lens_fit ((sd b)\<lparr>sd_dev := dv\<rparr>) ?ls" using fit by (auto simp: lens_fit_def split: if_splits)
    then show "chain_fits (sd ?b1) (glom ?b1)" using ps by (simp add: chain_fits_lens sdio_emit_def)
    show "brcmf_sdio_glom_len ?b1 < 65536" unfolding gl by (rule ns(4))
    show "map sb_len (glom ?b1) = (12 + length filler + length (sub_bytes f)) # map (length \<circ> sub_bytes) gs"
      using ps(3) lens by (simp add: sdio_emit_def)
    show "fifo (sd_dev (sd ?b1)) = super_bytes len sq chan info filler @ concat (map sub_bytes fs) @ rest"
      using ps(2) stream by (simp add: sdio_emit_def)
    show "round_up (unat len) (blocksize ?b1) = brcmf_sdio_glom_len ?b1" unfolding gl using hdr(5) by (simp add: sdio_emit_def)
  qed (use fs hdr in auto)
  then obtain b' where b': "glom_read e rxseq (of_nat (length ns)) ?b1 = Some (of_nat (length fs), b')"
    "delivered (sdio_log b') = delivered (sdio_log ?b1) @ sub_payloads fs" "glom b' = []" "glomd b' = glomd ?b1"
    "fifo (sd_dev (sd b')) = rest" by blast
  have ne: "glom ?b1 \<noteq> []" using ps(3) fit by (auto simp: sdio_emit_def lens_fit_def)
  have "brcmf_sdio_rxglom e rxseq b = glom_read e rxseq (of_nat (length ns)) ?b1"
    using d ne desc(1) by (simp add: brcmf_sdio_rxglom_def)
  then show ?thesis using b' by (auto simp: sdio_emit_def delivered_append)
qed
text \<open>A bus and its surroundings to run the model on.\<close>

definition wit_hdr :: brcmf_sdio_hdrinfo where
  "wit_hdr = \<lparr>seq_num = 0, channel = 0, hd_len = 0, len_left = 0, len_nxtfrm = 0, dat_offset = 0, lastfrm = False,
     tail_pad = 0\<rparr>"

definition wit_env :: "u8 list sdio_env" where
  "wit_env = \<lparr>e_mmc = stream_card, e_core = 0x18002000, e_chip = 43430, e_maxctl = 8192, e_garbage = wit_hdr,
     e_vzalloc = (\<lambda>n d. True), e_cow = (\<lambda>p n d. (Some p, d)), e_expand = (\<lambda>p n d. (None, d)), e_polls = (\<lambda>d. 10)\<rparr>"

definition wit_skb :: "u8 list \<Rightarrow> skbuf" where
  "wit_skb bs = \<lparr>sb_addr = 0, sb_mem = bs, sb_off = 0, sb_len = length bs, sb_cb = 0, sb_id = 0\<rparr>"

definition wit_q :: "nat \<Rightarrow> skbuf list \<Rightarrow> skbuf pktq" where
  "wit_q n ps = \<lparr>num_prec = 2, hi_prec = 0, pq_max = of_nat n, pq_len = of_nat (length ps),
     pq_q = [\<lparr>skblist = ps, prec_max = of_nat n\<rparr>, \<lparr>skblist = [], prec_max = of_nat n\<rparr>]\<rparr>"

definition wit_bus :: "skbuf option \<Rightarrow> u8 list \<Rightarrow> u8 list brcmf_sdio" where
  "wit_bus desc stream = \<lparr>sd = (stream_sd True False)\<lparr>sd_dev := stream\<rparr>, hostintmask = 0xF0, intstatus = 0, fcstate = False,
     blocksize = 4, roundup = 4, txq = wit_q 4 [], flowcontrol = 0, tx_seq = 0, tx_max = 4, rxhdr = replicate 64 0,
     rx_seq = 0, cur_read = wit_hdr, rd_loc = wit_hdr, rxskip = False, rxpending = False, rxbound = 50, txbound = 20,
     txminmax = 1, glomd = desc, glom = [], rxbuf_addr = 0, rxblen = 8192, rxctl = None, rxlen = 0, sdpcm_ver = 4,
     use_intr = True, use_poll = False, ipend = False, pollrate = 1, polltick = 0, clkstate = CLK_AVAIL, idletime = 1,
     idlecount = 0, alp_only = False, ctrl_frame_buf = wit_skb [], ctrl_frame_len = 0, ctrl_frame_stat = False,
     ctrl_frame_err = 0, wd_active = False, dpc_triggered = False, dpc_running = False, txoff = False, sdcnt = (\<lambda>c. 0),
     sr_enabled = False, sleeping = False, tx_hdrlen = 12, txglom = False, head_align = 4, sgentry_align = 4,
     sdio_log = []\<rparr>"

theorem hdparse_exact_witness:
  "\<exists>b'. brcmf_sdio_hdparse wit_env (sdpcm_header 100 7 2 3 14 0 9 @ []) True FT_NORMAL (wit_bus None []) = Some (0, b') \<and>
     hd_len (cur_read b') = 100 \<and> tx_max b' = 9"
  using hdparse_exact [of 100 2 14 wit_env 7 3 0 9 "[]" "wit_bus None []"]
  by (auto simp: wit_bus_def)

definition wit_frames :: "subframe list" where
  "wit_frames = [\<lparr>sf_event = True, sf_flags = 0, sf_seq = 7, sf_info = (0, 0, 0), sf_fill = [], sf_payload = [1, 2], sf_pad = [0, 0]\<rparr>,
     \<lparr>sf_event = False, sf_flags = 0, sf_seq = 8, sf_info = (0, 0, 0), sf_fill = [], sf_payload = [3, 4, 5], sf_pad = [0]\<rparr>]"

definition wit_super :: "u8 list" where
  "wit_super = super_bytes 44 7 3 (0, 0, 4) [] @ concat (map sub_bytes wit_frames)"

theorem rxglom_superframe_witness:
  "\<exists>b'. brcmf_sdio_rxglom wit_env 7 (wit_bus (Some (wit_skb [28, 0, 16, 0])) wit_super) = Some (2, b') \<and>
     delivered (sdio_log b') = [(True, [1, 2]), (False, [3, 4, 5])]"
proof -
  let ?d = "wit_skb [28, 0, 16, 0]"
  let ?b = "wit_bus (Some ?d) wit_super"
  have lens: "glom_lens (blocksize ?b) 0 [28, 16] = [28, 16]" by (simp add: wit_bus_def round_up_def)
  have sub: "map (length \<circ> sub_bytes) wit_frames = [16, 16]" by (simp add: wit_frames_def sub_bytes_def)
  have fc: "fifo_card (e_mmc wit_env) (\<lambda>d. d)" by (simp add: wit_env_def stream_card_fifo)
  have "\<exists>b'. brcmf_sdio_rxglom wit_env 7 ?b = Some (of_nat (length wit_frames), b') \<and>
    delivered (sdio_log b') = delivered (sdio_log ?b) @ sub_payloads wit_frames \<and> glom b' = [] \<and> glomd b' = None \<and>
    sd_dev (sd b') = []"
  proof (rule rxglom_superframe [OF fc, where ns = "[28, 16]" and filler = "[]" and len = 44 and sq = 7 and chan = 3 and
        info = "(0, 0, 4)" and f = "hd wit_frames" and gs = "tl wit_frames" and desc = ?d])
    show "glomd ?b = Some ?d" "glom ?b = []" "0 < unat (sgentry_align ?b)" by (simp_all add: wit_bus_def)
    show "sb_ok ?d" "sb_data ?d = concat (map (\<lambda>n. le16 (of_nat n)) [28, 16])"
      by (simp_all add: wit_skb_def sb_ok_def sb_data_def le16_def)
    show "lens_fit (sd ?b) (glom_lens (blocksize ?b) 0 [28, 16])"
      unfolding lens by (simp add: lens_fit_def wit_bus_def stream_sd_def)
    show "sum_list (glom_lens (blocksize ?b) 0 [28, 16]) < 65536" unfolding lens by simp
    show "wit_frames = hd wit_frames # tl wit_frames" by (simp add: wit_frames_def)
    show "\<forall>f\<in>set wit_frames. sub_ok f" by (simp add: wit_frames_def sub_ok_def sf_doff_def sf_len_def sub_bytes_def)
    show "glom_lens (blocksize ?b) 0 [28, 16] = (12 + length [] + length (sub_bytes (hd wit_frames))) # map (length \<circ> sub_bytes) (tl wit_frames)"
      unfolding lens by (simp add: wit_frames_def sub_bytes_def)
    show "sd_dev (sd ?b) = super_bytes 44 7 3 (0, 0, 4) [] @ concat (map sub_bytes wit_frames) @ []"
      by (simp add: wit_bus_def wit_super_def)
    show "round_up (unat (44 :: u16)) (blocksize ?b) = sum_list (glom_lens (blocksize ?b) 0 [28, 16])"
      unfolding lens by (simp add: wit_bus_def round_up_def)
  qed auto
  moreover have "sub_payloads wit_frames = [(True, [1, 2]), (False, [3, 4, 5])]" by (simp add: sub_payloads_def wit_frames_def)
  moreover have "sdio_log ?b = []" by (simp add: wit_bus_def)
  moreover have "length wit_frames = 2" by (simp add: wit_frames_def)
  ultimately show ?thesis by auto
qed

section \<open>The transmit queue\<close>

lemma pfull_eq:
  assumes "pktq_inv q" and "prec < pktq_in_use q"
  shows "pktq_pfull q prec = Some (unat (prec_max (pq_q q ! prec)) \<le> length (pktq_seq q prec))"
  using pktq_invD [OF assms] by (simp add: pktq_pfull_def nth_opt_in)

lemma peek_prec_lowest:
  assumes inv: "pktq_inv q" and ne: "pktq_seq q c \<noteq> []" and low: "\<forall>d < c. pktq_seq q d = []"
  shows "peek_prec q = Some (int c)"
proof -
  have "\<not> pktq_empty q"
    using pktq_seq_le_len [OF inv, of c] ne by (auto simp: pktq_empty_def)
  obtain x where "pktq_scan_up (pq_q q) 0 (unat (hi_prec q)) = Some x"
    using peek_tail_eq [OF inv ne low] \<open>\<not> pktq_empty q\<close>
    by (auto simp: brcmu_pktq_peek_tail_def bind_eq_Some_conv)
  moreover have "x = c"
    using peek_tail_eq [OF inv ne low] \<open>\<not> pktq_empty q\<close> \<open>pktq_scan_up (pq_q q) 0 (unat (hi_prec q)) = Some x\<close>
    by (auto simp: brcmu_pktq_peek_tail_def bind_eq_Some_conv split: if_splits)
  ultimately show ?thesis using \<open>\<not> pktq_empty q\<close> by (simp add: peek_prec_def)
qed

lemma penq_room:
  assumes "pktq_inv q" and "prec < pktq_in_use q" and "\<not> pktq_full q"
    and "length (pktq_seq q prec) < unat (prec_max (pq_q q ! prec))"
  obtains q' where "brcmu_pktq_penq q prec p = Some (Some p, q')" "pktq_inv q'"
    "pktq_seq q' = (pktq_seq q)(prec := pktq_seq q prec @ [p])"
  using penq_cases [OF assms(1,2), of "\<lambda>l. l @ [p]" p "brcmu_pktq_penq q prec p"] assms(3,4) by auto

lemma lowest_exists:
  assumes inv: "pktq_inv q" and "0 < pq_max q" and "pktq_full q"
  shows "pktq_seq q (LEAST c. pktq_seq q c \<noteq> []) \<noteq> []" "\<forall>d < (LEAST c. pktq_seq q c \<noteq> []). pktq_seq q d = []"
proof -
  have "0 < unat (pq_len q)" using assms(2,3) by (simp add: pktq_full_def word_le_nat_alt word_less_nat_alt)
  then have "\<exists>c. pktq_seq q c \<noteq> []" using pktq_len_zero [OF inv] by (auto simp: pktq_empty_def)
  then show "pktq_seq q (LEAST c. pktq_seq q c \<noteq> []) \<noteq> []" by (rule LeastI_ex)
  show "\<forall>d < (LEAST c. pktq_seq q c \<noteq> []). pktq_seq q d = []" using not_less_Least by blast
qed

text \<open>The discard policy of the transmit queue. With room, a packet goes to the end of its precedence. When its
  own precedence is full, or the whole queue is and nothing of a lower precedence waits, the packet is refused
  and the queue unchanged. Otherwise the last packet of the lowest precedence that has any makes room for it and
  is the only one lost. In every case the queue stays well formed.\<close>

theorem prec_enq_policy:
  assumes inv: "pktq_inv q" and prec: "prec < pktq_in_use q" and "0 < pq_max q"
    and "pfull = (unat (prec_max (pq_q q ! prec)) \<le> length (pktq_seq q prec))" and "low = (LEAST c. pktq_seq q c \<noteq> [])"
  shows "\<exists>ok ev q'. brcmf_sdio_prec_enq q pkt prec = Some ((ok, ev), q') \<and> pktq_inv q' \<and>
      (if \<not> pfull \<and> \<not> pktq_full q
       then ok \<and> ev = None \<and> pktq_seq q' = (pktq_seq q)(prec := pktq_seq q prec @ [pkt])
       else if pfull \<or> prec \<le> low then \<not> ok \<and> ev = None \<and> q' = q
       else ok \<and> ev = Some (last (pktq_seq q low)) \<and>
         pktq_seq q' = (pktq_seq q)(low := butlast (pktq_seq q low), prec := pktq_seq q prec @ [pkt]))"
proof -
  note pf = pfull_eq [OF inv prec, folded assms(4)]
  consider "\<not> pfull" "\<not> pktq_full q" | "pfull" | "\<not> pfull" "pktq_full q" by blast
  then show ?thesis
  proof cases
    case 1
    obtain q' where "brcmu_pktq_penq q prec pkt = Some (Some pkt, q')" "pktq_inv q'"
      "pktq_seq q' = (pktq_seq q)(prec := pktq_seq q prec @ [pkt])"
      by (rule penq_room [OF inv prec 1(2), of pkt]) (use 1(1) assms(4) in auto)
    then show ?thesis using 1 pf by (auto simp: brcmf_sdio_prec_enq_def)
  next
    case 2
    then show ?thesis using pf inv by (auto simp: brcmf_sdio_prec_enq_def)
  next
    case 3
    note low = lowest_exists [OF inv assms(3) 3(2), folded assms(5)]
    note pk = peek_prec_lowest [OF inv low]
    show ?thesis
    proof (cases "prec \<le> low")
      case True
      then show ?thesis using 3 pf pk inv by (auto simp: brcmf_sdio_prec_enq_def)
    next
      case False
      have lu: "low < pktq_in_use q" using low(1) by (auto simp: pktq_seq_def split: if_splits)
      obtain q1 where q1: "brcmu_pktq_pdeq_tail q low = Some (Some (last (pktq_seq q low)), q1)" "pktq_inv q1"
        "num_prec q1 = num_prec q" "pktq_seq q1 = (pktq_seq q)(low := butlast (pktq_seq q low))"
        using pdeq_tail_snoc [OF inv lu, of "butlast (pktq_seq q low)" "last (pktq_seq q low)"] low(1) by auto
      have q1def: "q1 = (pktq_setq q low (butlast (skblist (pq_q q ! low))))\<lparr>pq_len := pq_len q - 1\<rparr>"
        using q1(1) by (auto simp: brcmu_pktq_pdeq_tail_def bind_eq_Some_conv split: if_splits)
      have use: "prec < pktq_in_use q1" using q1(3) prec by (simp add: pktq_in_use_def)
      have s1: "pktq_seq q1 prec = pktq_seq q prec" using q1(4) False by auto
      have len: "0 < unat (pq_len q)" using 3(2) assms(3) by (simp add: pktq_full_def word_le_nat_alt word_less_nat_alt)
      have "\<not> pktq_full q1"
      proof -
        have "unat (pq_len q1) < unat (pq_len q)" using len by (simp add: q1def pktq_setq_def unat_dec_pos)
        moreover have "unat (pq_len q) \<le> unat (pq_max q1)"
          using inv by (simp add: q1def pktq_setq_def pktq_inv_def word_le_nat_alt)
        ultimately show ?thesis by (simp add: pktq_full_def word_le_nat_alt)
      qed
      moreover have "prec_max (pq_q q1 ! prec) = prec_max (pq_q q ! prec)"
        using False by (simp add: q1def pktq_setq_def)
      ultimately obtain q' where "brcmu_pktq_penq q1 prec pkt = Some (Some pkt, q')" "pktq_inv q'"
        "pktq_seq q' = (pktq_seq q1)(prec := pktq_seq q1 prec @ [pkt])"
        using penq_room [OF q1(2) use, of pkt] 3(1) assms(4) s1 by auto
      then show ?thesis using 3 pf pk q1 False s1 by (auto simp: brcmf_sdio_prec_enq_def)
    qed
  qed
qed

definition wit_txq :: "skbuf pktq" where
  "wit_txq = \<lparr>num_prec = 2, hi_prec = 1, pq_max = 2, pq_len = 2,
     pq_q = [\<lparr>skblist = [wit_skb [1], wit_skb [2]], prec_max = 2\<rparr>] @ replicate 15 \<lparr>skblist = [], prec_max = 2\<rparr>\<rparr>"

theorem prec_enq_policy_witness:
  "\<exists>q'. brcmf_sdio_prec_enq wit_txq (wit_skb [3]) 1 = Some ((True, Some (wit_skb [2])), q') \<and>
     pktq_seq q' 0 = [wit_skb [1]] \<and> pktq_seq q' 1 = [wit_skb [3]]"
proof -
  have use: "pktq_in_use wit_txq = 2" by (simp add: pktq_in_use_def wit_txq_def)
  have seq: "pktq_seq wit_txq 0 = [wit_skb [1], wit_skb [2]]" "pktq_seq wit_txq 1 = []"
    by (simp_all add: pktq_seq_def use) (simp_all add: wit_txq_def)
  have inv: "pktq_inv wit_txq"
    unfolding pktq_inv_def use by (simp add: pktq_total_def use lessThan_nat_numeral) (auto simp: wit_txq_def less_2_cases_iff)
  have low: "(LEAST c. pktq_seq wit_txq c \<noteq> []) = 0" using seq by (intro Least_equality) auto
  have st: "0 < pq_max wit_txq" "pktq_full wit_txq" "prec_max (pq_q wit_txq ! 1) = 2" by (simp_all add: wit_txq_def pktq_full_def)
  obtain ok ev q' where r: "brcmf_sdio_prec_enq wit_txq (wit_skb [3]) 1 = Some ((ok, ev), q')"
    "ok \<and> ev = Some (last (pktq_seq wit_txq 0)) \<and>
      pktq_seq q' = (pktq_seq wit_txq)(0 := butlast (pktq_seq wit_txq 0), 1 := pktq_seq wit_txq 1 @ [wit_skb [3]])"
    using prec_enq_policy [OF inv _ st(1) refl refl, of 1 "wit_skb [3]"] use st low seq by auto
  then show ?thesis using seq by simp
qed

theorem data_ok_window_witness:
  "data_ok ((wit_bus None [])\<lparr>tx_max := 1, tx_seq := 255, ctrl_frame_stat := True\<rparr>) \<and>
   \<not> data_ok ((wit_bus None [])\<lparr>tx_max := 3, tx_seq := 1, ctrl_frame_stat := True\<rparr>)"
  using data_ok_window [of "(wit_bus None [])\<lparr>tx_max := 1, tx_seq := 255, ctrl_frame_stat := True\<rparr>"]
    data_ok_window [of "(wit_bus None [])\<lparr>tx_max := 3, tx_seq := 1, ctrl_frame_stat := True\<rparr>"]
  by simp

end
