(* ===== verification/Fil.thy ===== *)
theory Fil
  imports Fwil
begin

text \<open>
  The firmware as its clients see it: setting and asking commands and variables of an interface
  (\<open>fwil.c\<close>, \<open>fwil.h\<close>) and the detected features (\<open>feature.h\<close>). The configuration layer is written
  against this record, \<open>fil_of\<close> is the record the model of \<open>fwil.c\<close> gives.
\<close>

section \<open>Requests\<close>

datatype fil_var = CMD u32 | IOVAR string | BSSCFG string

datatype brcmf_feat_id = FEAT_MBSS | FEAT_MCHAN | FEAT_PNO | FEAT_WOWL | FEAT_P2P | FEAT_RSDB | FEAT_TDLS
  | FEAT_SCAN_RANDOM_MAC | FEAT_WOWL_ND | FEAT_WOWL_GTK | FEAT_WOWL_ARP_ND | FEAT_MFP | FEAT_GSCAN | FEAT_FWSUP
  | FEAT_MONITOR | FEAT_MONITOR_FLAG | FEAT_MONITOR_FMT_RADIOTAP | FEAT_MONITOR_FMT_HW_RX_HDR | FEAT_DOT11H
  | FEAT_SAE | FEAT_FWAUTH | FEAT_DUMP_OBSS | FEAT_PMKID_V2 | FEAT_PMKID_V3 | FEAT_SAE_EXT
  | FEAT_EVENT_MSGS_EXT | FEAT_GCMP

datatype brcmf_feat_quirk = QUIRK_AUTO_AUTH | QUIRK_NEED_MPC

text \<open>A request has an error, an asked one also the buffer as it was left. \<open>None\<close> is undefined behaviour below.\<close>

record 'f fil =
  fil_put :: "fil_if \<Rightarrow> fil_var \<Rightarrow> u8 list option \<Rightarrow> 'f \<Rightarrow> (int \<times> 'f) option"
  fil_ask :: "fil_if \<Rightarrow> fil_var \<Rightarrow> u8 list \<Rightarrow> 'f \<Rightarrow> (int \<times> u8 list \<times> 'f) option"
  feat_enabled :: "brcmf_feat_id \<Rightarrow> bool"
  quirk_enabled :: "brcmf_feat_quirk \<Rightarrow> bool"

definition put_int :: "'f fil \<Rightarrow> fil_if \<Rightarrow> fil_var \<Rightarrow> u32 \<Rightarrow> 'f \<Rightarrow> (int \<times> 'f) option" where
  "put_int w ifp v n f = fil_put w ifp v (Some (le32 n)) f"

text \<open>The word is the one the caller had when the request fails before the buffer is touched; a shorter
  buffer than four bytes cannot come back.\<close>

definition ask_int :: "'f fil \<Rightarrow> fil_if \<Rightarrow> fil_var \<Rightarrow> u32 \<Rightarrow> 'f \<Rightarrow> (int \<times> u32 \<times> 'f) option" where
  "ask_int w ifp v n f = do {
     (err, bs, f) \<leftarrow> fil_ask w ifp v (le32 n) f;
     x \<leftarrow> (if length bs = 4 then Some (le32_word bs) else None);
     Some (err, x, f) }"

section \<open>The record fwil.c provides\<close>

definition fil_of :: "'s dcmd_fn \<Rightarrow> (brcmf_feat_id \<Rightarrow> bool) \<Rightarrow> (brcmf_feat_quirk \<Rightarrow> bool) \<Rightarrow> (u8 list \<times> 's) fil" where
  "fil_of dcmd feats quirks = \<lparr>
     fil_put = (\<lambda>ifp v data (pb, s). let n = (case data of None \<Rightarrow> 0 | Some bs \<Rightarrow> of_nat (length bs)) in
       case v of
         CMD c \<Rightarrow> (let (err, _, s) = brcmf_fil_cmd_data_set dcmd ifp c data n s in Some (err, pb, s))
       | IOVAR x \<Rightarrow> brcmf_fil_iovar_data_set dcmd ifp x data n (pb, s)
       | BSSCFG x \<Rightarrow> brcmf_fil_bsscfg_data_set dcmd ifp x data n (pb, s)),
     fil_ask = (\<lambda>ifp v data (pb, s). case v of
         CMD c \<Rightarrow> (let (err, bs, s) = brcmf_fil_cmd_data_get dcmd ifp c (Some data) (of_nat (length data)) s
                    in Some (err, (case bs of None \<Rightarrow> data | Some b \<Rightarrow> b), pb, s))
       | IOVAR x \<Rightarrow> brcmf_fil_iovar_data_get dcmd ifp x data (of_nat (length data)) (pb, s)
       | BSSCFG x \<Rightarrow> brcmf_fil_bsscfg_data_get dcmd ifp x data (of_nat (length data)) (pb, s)),
     feat_enabled = feats, quirk_enabled = quirks\<rparr>"

lemma fil_of_int:
  "put_int (fil_of dcmd fe qu) ifp (IOVAR x) n (pb, s) = brcmf_fil_iovar_int_set dcmd ifp x n (pb, s)"
  "put_int (fil_of dcmd fe qu) ifp (BSSCFG x) n (pb, s) = brcmf_fil_bsscfg_int_set dcmd ifp x n (pb, s)"
  by (simp_all add: put_int_def fil_of_def brcmf_fil_iovar_int_set_def brcmf_fil_bsscfg_int_set_def)

section \<open>A recording firmware\<close>

text \<open>The firmware of the witnesses: it records what it is told and answers from a table.\<close>

type_synonym fw_log = "(nat \<times> fil_var \<times> u8 list option) list"

definition rec_fil :: "(fil_var \<Rightarrow> u8 list \<Rightarrow> u8 list) \<Rightarrow> (brcmf_feat_id \<Rightarrow> bool) \<Rightarrow> fw_log fil" where
  "rec_fil answer feats = \<lparr>
     fil_put = (\<lambda>ifp v data f. Some (0, f @ [(unat (bsscfgidx ifp), v, data)])),
     fil_ask = (\<lambda>ifp v data f. Some (0, answer v data, f)),
     feat_enabled = feats, quirk_enabled = (\<lambda>_. False)\<rparr>"

lemma rec_fil_simps [simp]:
  "fil_put (rec_fil an fe) ifp v data f = Some (0, f @ [(unat (bsscfgidx ifp), v, data)])"
  "fil_ask (rec_fil an fe) ifp v buf f = Some (0, an v buf, f)"
  "feat_enabled (rec_fil an fe) = fe" "quirk_enabled (rec_fil an fe) = (\<lambda>_. False)"
  by (simp_all add: rec_fil_def)

definition wit_if :: fil_if where
  "wit_if = \<lparr>bus_up = True, ifidx = 0, bsscfgidx = 0, fwil_fwerr = False\<rparr>"

end
