(* ===== verification/CfgIe.thy ===== *)
theory CfgIe
  imports Fil
begin

text \<open>
  Information elements in \<open>cfg80211.c\<close>: walking tag-length-value strings, finding the WPA and WPS elements,
  turning an access point's WPA or RSN element into firmware settings, and keeping the vendor elements of the
  management frames in step with the firmware.

  A pointer into a buffer is the buffer and an offset; reading outside the buffer is \<open>None\<close>.
\<close>

abbreviation E_PERM :: int where "E_PERM \<equiv> - 1"
abbreviation E_NOMEM :: int where "E_NOMEM \<equiv> - 12"
abbreviation E_NODEV :: int where "E_NODEV \<equiv> - 19"
abbreviation E_INVAL :: int where "E_INVAL \<equiv> - 22"

abbreviation WLAN_EID_VENDOR_SPECIFIC :: u8 where "WLAN_EID_VENDOR_SPECIFIC \<equiv> 221"
abbreviation WLAN_EID_RSN :: u8 where "WLAN_EID_RSN \<equiv> 48"

definition WPA_OUI :: "u8 list" where "WPA_OUI = [0x00, 0x50, 0xF2]"
definition RSN_OUI :: "u8 list" where "RSN_OUI = [0x00, 0x0F, 0xAC]"

declare of_nat_unat [simp del]

section \<open>Virtual interfaces\<close>

text \<open>The interface types the code tells apart (\<open>enum nl80211_iftype\<close>).\<close>

datatype nl80211_iftype = IFTYPE_ADHOC | IFTYPE_STATION | IFTYPE_AP | IFTYPE_MONITOR | IFTYPE_P2P_CLIENT
  | IFTYPE_P2P_GO | IFTYPE_P2P_DEVICE | IFTYPE_AP_VLAN | IFTYPE_WDS | IFTYPE_MESH_POINT | IFTYPE_UNSPECIFIED

datatype brcmf_vif_status = VIF_READY | VIF_CONNECTING | VIF_CONNECTED | VIF_DISCONNECTING | VIF_AP_CREATED
  | VIF_EAP_SUCCESS | VIF_ASSOC_SUCCESS

datatype brcmf_profile_fwsup = FWSUP_NONE | FWSUP_PSK | FWSUP_1X | FWSUP_SAE | FWSUP_ROAM

record brcmf_wsec_key =
  k_index :: u32
  k_len :: u32
  k_data :: "u8 list"
  k_algo :: u32
  k_flags :: u32
  rxiv_hi :: u32
  rxiv_lo :: u16
  iv_initialized :: bool
  k_ea :: "u8 list"

record brcmf_cfg80211_profile =
  prof_bssid :: "u8 list"
  sec_wpa_versions :: u32
  sec_auth_type :: u32
  sec_cipher_pairwise :: u32
  sec_cipher_group :: u32
  prof_key :: "brcmf_wsec_key list"
  use_fwsup :: brcmf_profile_fwsup
  use_fwauth :: u16
  is_ft :: bool
  is_okc :: bool

text \<open>The saved elements are five buffers with the lengths in use.\<close>

record brcmf_cfg80211_vif =
  vif_ifp :: fil_if
  iftype :: nl80211_iftype
  profile :: brcmf_cfg80211_profile
  sme_state :: "brcmf_vif_status set"
  probe_req_ie :: "u8 list \<times> u32"
  probe_res_ie :: "u8 list \<times> u32"
  beacon_ie :: "u8 list \<times> u32"
  assoc_req_ie :: "u8 list \<times> u32"
  assoc_res_ie :: "u8 list \<times> u32"
  mgmt_rx_reg :: u16
  mbss :: bool
  is_11d :: int
  cqm_rssi_low :: int
  cqm_rssi_high :: int
  cqm_rssi_last :: int

definition brcmf_is_apmode :: "brcmf_cfg80211_vif \<Rightarrow> bool" where
  "brcmf_is_apmode vif \<longleftrightarrow> iftype vif = IFTYPE_AP"

definition brcmf_is_ibssmode :: "brcmf_cfg80211_vif \<Rightarrow> bool" where
  "brcmf_is_ibssmode vif \<longleftrightarrow> iftype vif = IFTYPE_ADHOC"

definition check_vif_up :: "brcmf_cfg80211_vif \<Rightarrow> bool" where
  "check_vif_up vif \<longleftrightarrow> VIF_READY \<in> sme_state vif"

section \<open>Tag-length-value strings\<close>

function brcmf_parse_tlvs :: "u8 list \<Rightarrow> nat \<Rightarrow> int \<Rightarrow> u8 \<Rightarrow> nat option option" where
  "brcmf_parse_tlvs buf elt totlen key = (
     if totlen < 2 then Some None
     else do {
       l \<leftarrow> nth_opt buf (elt + 1);
       i \<leftarrow> nth_opt buf elt;
       if i = key \<and> int (unat l) + 2 \<le> totlen then Some (Some elt)
       else brcmf_parse_tlvs buf (elt + unat l + 2) (totlen - (int (unat l) + 2)) key })"
  by pat_completeness auto
termination
  by (relation "measure (\<lambda>(b, e, t, k). nat t)") auto

declare brcmf_parse_tlvs.simps [simp del]

text \<open>Whether the element has the OUI and type; what is left behind it otherwise.\<close>

definition brcmf_tlv_has_ie :: "u8 list \<Rightarrow> nat \<Rightarrow> u8 list \<Rightarrow> u8 \<Rightarrow> bool option" where
  "brcmf_tlv_has_ie buf ie oui type = do {
     l \<leftarrow> nth_opt buf (ie + 1);
     if length oui + 1 \<le> unat l then do {
       o3 \<leftarrow> read_bytes buf (ie + 2) (length oui);
       if o3 = oui then do { t \<leftarrow> nth_opt buf (ie + 2 + length oui); Some (t = type) } else Some False }
     else Some False }"

definition tlv_rest :: "u8 list \<Rightarrow> nat \<Rightarrow> nat \<Rightarrow> u32 \<Rightarrow> (nat \<times> u32) option" where
  "tlv_rest buf ie tlvs tlvs_len = do {
     l \<leftarrow> nth_opt buf (ie + 1);
     let ie' = ie + unat l + 2;
     Some (ie', tlvs_len - of_nat (ie' - tlvs)) }"

lemma parse_tlvs_found:
  "brcmf_parse_tlvs buf elt totlen key = Some (Some p) \<Longrightarrow>
     elt \<le> p \<and> p + 1 < length buf \<and> buf ! p = key \<and> int (p - elt) + int (unat (buf ! (p + 1))) + 2 \<le> totlen"
proof (induction buf elt totlen key rule: brcmf_parse_tlvs.induct)
  case (1 buf elt totlen key)
  from "1.prems" have t: "2 \<le> totlen" and l: "elt + 1 < length buf"
    by (subst (asm) brcmf_parse_tlvs.simps, force simp: bind_eq_Some_conv split: if_splits)+
  show ?case
  proof (cases "buf ! elt = key \<and> int (unat (buf ! (elt + 1))) + 2 \<le> totlen")
    case True
    then have "p = elt" using "1.prems" t l by (subst (asm) brcmf_parse_tlvs.simps) (simp add: nth_opt_in)
    then show ?thesis using True l by simp
  next
    case False
    then have n: "brcmf_parse_tlvs buf (elt + unat (buf ! (elt + 1)) + 2) (totlen - (int (unat (buf ! (elt + 1))) + 2)) key = Some (Some p)"
      using "1.prems" t l False by (subst (asm) brcmf_parse_tlvs.simps) (auto simp: nth_opt_in split: if_splits)
    have "\<not> totlen < 2" using t by simp
    from "1.IH" [OF this _ _ False n] l show ?thesis by auto
  qed
qed

lemma sint_pos_small: "0 \<le> sint (w :: u32) \<Longrightarrow> unat w < 2 ^ 31"
proof (rule ccontr)
  assume p: "0 \<le> sint w" and "\<not> unat w < 2 ^ 31"
  then have k: "2 ^ 31 \<le> uint w" by (metis not_le of_nat_less_iff of_nat_numeral of_nat_power uint_nat)
  have "uint w < 2 ^ 32" using unsigned_less [of w, where 'a = int] by simp
  with k have "take_bit 32 (uint w + 2 ^ 31) = uint w + 2 ^ 31 - 2 ^ 32"
    using mod_pos_pos_trivial [of "uint w + 2 ^ 31 - 2 ^ 32" "2 ^ 32"] mod_diff_right_eq [of "uint w + 2 ^ 31" "2 ^ 32" "2 ^ 32"]
    by (simp add: take_bit_eq_mod)
  then have "sint w = uint w - 2 ^ 32" by (simp add: sint_uint signed_take_bit_eq_take_bit_shift)
  with p \<open>uint w < 2 ^ 32\<close> show False by simp
qed

text \<open>The search of a vendor element by type, for WPA and WPS.\<close>

function find_vendor_ie :: "u8 \<Rightarrow> u8 list \<Rightarrow> nat \<Rightarrow> u32 \<Rightarrow> nat option option" where
  "find_vendor_ie type buf parse len = (
     case brcmf_parse_tlvs buf parse (sint len) WLAN_EID_VENDOR_SPECIFIC of
       None \<Rightarrow> None
     | Some None \<Rightarrow> Some None
     | Some (Some ie) \<Rightarrow>
         (case brcmf_tlv_has_ie buf ie WPA_OUI type of
            None \<Rightarrow> None
          | Some True \<Rightarrow> Some (Some ie)
          | Some False \<Rightarrow>
              (case tlv_rest buf ie parse len of None \<Rightarrow> None
               | Some (parse', len') \<Rightarrow> find_vendor_ie type buf parse' len')))"
  by pat_completeness auto

lemma tlv_rest_less:
  assumes "brcmf_parse_tlvs buf parse (sint len) key = Some (Some ie)" and "tlv_rest buf ie parse len = Some (parse', len')"
  shows "parse' = ie + unat (buf ! (ie + 1)) + 2 \<and> unat len' + (parse' - parse) = unat len \<and> parse < parse' \<and>
    sint len' = sint len - int (parse' - parse) \<and> unat len < 2 ^ 31"
proof -
  note f = parse_tlvs_found [OF assms(1)]
  have p: "parse' = ie + unat (buf ! (ie + 1)) + 2" "len' = len - of_nat (parse' - parse)"
    using assms(2) by (auto simp: tlv_rest_def bind_eq_Some_conv)
  have le: "int (parse' - parse) \<le> sint len" using f p(1) by auto
  then have small: "unat len < 2 ^ 31" by (intro sint_pos_small) simp
  then have u: "sint len = int (unat len)" by (rule sint_small)
  have n: "parse' - parse < 2 ^ 31" "parse' - parse \<le> unat len" using le u small by simp_all
  then have len': "unat len' = unat len - (parse' - parse)"
    unfolding p(2) by (subst unat_sub) (simp_all add: word_le_nat_alt unat_of_nat take_bit_nat_eq_self)
  then have "sint len' = int (unat len')" using small by (intro sint_small) simp
  then show ?thesis using p(1) f len' n u small by auto
qed

termination find_vendor_ie
  by (relation "measure (\<lambda>(t, b, p, l). unat l)") (auto dest: tlv_rest_less)

declare find_vendor_ie.simps [simp del]

definition brcmf_find_wpaie :: "u8 list \<Rightarrow> u32 \<Rightarrow> nat option option" where
  "brcmf_find_wpaie buf len = find_vendor_ie 1 buf 0 len"

definition brcmf_find_wpsie :: "u8 list \<Rightarrow> u32 \<Rightarrow> nat option option" where
  "brcmf_find_wpsie buf len = find_vendor_ie 4 buf 0 len"

section \<open>Security of an access point\<close>

abbreviation WEP_ENABLED :: u32 where "WEP_ENABLED \<equiv> 1"
abbreviation TKIP_ENABLED :: u32 where "TKIP_ENABLED \<equiv> 2"
abbreviation AES_ENABLED :: u32 where "AES_ENABLED \<equiv> 4"
abbreviation SES_OW_ENABLED :: u32 where "SES_OW_ENABLED \<equiv> 0x40"
abbreviation WPA_AUTH_DISABLED :: u32 where "WPA_AUTH_DISABLED \<equiv> 0"
abbreviation WPA_AUTH_NONE :: u32 where "WPA_AUTH_NONE \<equiv> 1"
abbreviation WPA_AUTH_UNSPECIFIED :: u32 where "WPA_AUTH_UNSPECIFIED \<equiv> 2"
abbreviation WPA_AUTH_PSK :: u32 where "WPA_AUTH_PSK \<equiv> 4"
abbreviation WPA2_AUTH_UNSPECIFIED :: u32 where "WPA2_AUTH_UNSPECIFIED \<equiv> 0x40"
abbreviation WPA2_AUTH_PSK :: u32 where "WPA2_AUTH_PSK \<equiv> 0x80"
abbreviation WPA2_AUTH_1X_SHA256 :: u32 where "WPA2_AUTH_1X_SHA256 \<equiv> 0x1000"
abbreviation WPA2_AUTH_FT :: u32 where "WPA2_AUTH_FT \<equiv> 0x4000"
abbreviation WPA2_AUTH_PSK_SHA256 :: u32 where "WPA2_AUTH_PSK_SHA256 \<equiv> 0x8000"
abbreviation WPA3_AUTH_SAE_PSK :: u32 where "WPA3_AUTH_SAE_PSK \<equiv> 0x40000"
abbreviation WPA3_AUTH_OWE :: u32 where "WPA3_AUTH_OWE \<equiv> 0x100000"
abbreviation WFA_AUTH_DPP :: u32 where "WFA_AUTH_DPP \<equiv> 0x200000"
abbreviation WPA3_AUTH_1X_SUITE_B_SHA384 :: u32 where "WPA3_AUTH_1X_SUITE_B_SHA384 \<equiv> 0x400000"

definition brcmf_configure_opensecurity :: "'f fil \<Rightarrow> brcmf_cfg80211_vif \<Rightarrow> 'f \<Rightarrow> (int \<times> 'f) option" where
  "brcmf_configure_opensecurity w vif f = do {
     (err, f) \<leftarrow> put_int w (vif_ifp vif) (BSSCFG ''auth'') 0 f;
     if err < 0 then Some (err, f) else do {
     (err, f) \<leftarrow> put_int w (vif_ifp vif) (BSSCFG ''wsec'') 0 f;
     if err < 0 then Some (err, f) else do {
     let wpa_val = (if brcmf_is_ibssmode vif then WPA_AUTH_NONE else WPA_AUTH_DISABLED);
     (err, f) \<leftarrow> put_int w (vif_ifp vif) (BSSCFG ''wpa_auth'') wpa_val f;
     if err < 0 then Some (err, f) else Some (0, f) } } }"

definition brcmf_valid_wpa_oui :: "u8 list \<Rightarrow> nat \<Rightarrow> bool \<Rightarrow> bool option" where
  "brcmf_valid_wpa_oui d off is_rsn = do {
     o3 \<leftarrow> read_bytes d off 3;
     Some (o3 = (if is_rsn then RSN_OUI else WPA_OUI)) }"

text \<open>The settings of a cipher suite type: the first switch refuses what the second ignores.\<close>

definition wpa_cipher :: "u8 \<Rightarrow> u32 option" where
  "wpa_cipher t = (if t = 0 then Some 0 else if t = 1 \<or> t = 5 then Some WEP_ENABLED
     else if t = 2 then Some TKIP_ENABLED else if t = 4 then Some AES_ENABLED else None)"

definition wpa_akm :: "bool \<Rightarrow> u8 \<Rightarrow> u32" where
  "wpa_akm is_rsn t = (
     if t = 0 then WPA_AUTH_NONE
     else if t = 1 then (if is_rsn then WPA2_AUTH_UNSPECIFIED else WPA_AUTH_UNSPECIFIED)
     else if t = 2 then (if is_rsn then WPA2_AUTH_PSK else WPA_AUTH_PSK)
     else if t = 6 then WPA2_AUTH_PSK_SHA256
     else if t = 5 then WPA2_AUTH_1X_SHA256
     else if t = 8 then WPA3_AUTH_SAE_PSK else 0)"

text \<open>A list of \<open>n\<close> suites from an offset, each adding its settings: the settings, or nothing at an
  invalid OUI.\<close>

fun wpa_suites :: "(u8 \<Rightarrow> u32) \<Rightarrow> bool \<Rightarrow> u8 list \<Rightarrow> nat \<Rightarrow> nat \<Rightarrow> u32 \<Rightarrow> u32 option option" where
  "wpa_suites g is_rsn d off 0 acc = Some (Some acc)"
| "wpa_suites g is_rsn d off (Suc n) acc = do {
     ok \<leftarrow> brcmf_valid_wpa_oui d off is_rsn;
     if \<not> ok then Some None
     else do {
       t \<leftarrow> nth_opt d (off + 3);
       wpa_suites g is_rsn d (off + 4) n (acc OR g t) } }"

definition suite_count :: "u8 list \<Rightarrow> nat \<Rightarrow> nat option" where
  "suite_count d off = do { a \<leftarrow> nth_opt d off; b \<leftarrow> nth_opt d (off + 1); Some (unat (of_le16 a b)) }"

text \<open>Offset behind the lists, unicast and group settings and key management, or \<open>-EINVAL\<close>.\<close>

definition wpaie_suites :: "u8 list \<Rightarrow> nat \<Rightarrow> bool \<Rightarrow> (nat \<times> u32 \<times> u32 \<times> u32) option option" where
  "wpaie_suites d len is_rsn = (
     let off = 2 + (if is_rsn then 2 else 6) in
     if len < off + 4 then Some None else do {
     ok \<leftarrow> brcmf_valid_wpa_oui d off is_rsn;
     if \<not> ok then Some None else do {
     t \<leftarrow> nth_opt d (off + 3);
     case wpa_cipher t of None \<Rightarrow> Some None | Some gval \<Rightarrow> do {
     n \<leftarrow> suite_count d (off + 4);
     let off = off + 6;
     if len < off + 4 * n then Some None else do {
     p \<leftarrow> wpa_suites (\<lambda>t. case wpa_cipher t of None \<Rightarrow> 0 | Some v \<Rightarrow> v) is_rsn d off n 0;
     case p of None \<Rightarrow> Some None | Some pval \<Rightarrow> do {
     let off = off + 4 * n;
     n \<leftarrow> suite_count d off;
     let off = off + 2;
     if len < off + 4 * n then Some None else do {
     a \<leftarrow> wpa_suites (wpa_akm is_rsn) is_rsn d off n 0;
     case a of None \<Rightarrow> Some None
     | Some wpa_auth \<Rightarrow> Some (Some (off + 4 * n, pval, gval, wpa_auth)) } } } } } })"

text \<open>Management frame protection from the RSN capabilities: \<open>wme_bss_disable\<close>, the mode and the key
  management settings, or nothing when it is required without a suite the firmware supports it with.\<close>

definition rsn_caps :: "u16 \<Rightarrow> u32 \<Rightarrow> (u32 \<times> u32 \<times> u32) option" where
  "rsn_caps rsn_cap wpa_auth = (
     let wme = (if rsn_cap AND 0x0C \<noteq> 0 then 0 else 1) in
     if rsn_cap AND 0x40 \<noteq> 0 then
       if wpa_auth AND (WPA2_AUTH_PSK_SHA256 OR WPA2_AUTH_1X_SHA256 OR WPA3_AUTH_SAE_PSK) = 0 then None
       else Some (wme, 2,
         if wpa_auth AND WPA2_AUTH_PSK_SHA256 \<noteq> 0 then wpa_auth OR WPA2_AUTH_PSK
         else if wpa_auth AND WPA2_AUTH_1X_SHA256 \<noteq> 0 then wpa_auth OR WPA2_AUTH_UNSPECIFIED else wpa_auth)
     else Some (wme, if rsn_cap AND 0x80 \<noteq> 0 then 1 else 0, wpa_auth))"

definition wpaie_rsn ::
  "'f fil \<Rightarrow> fil_if \<Rightarrow> u8 list \<Rightarrow> nat \<Rightarrow> nat \<Rightarrow> u32 \<Rightarrow> 'f \<Rightarrow> (int \<times> u32 \<times> u32 \<times> 'f) option" where
  "wpaie_rsn w ifp d len off wpa_auth f = do {
     caps \<leftarrow> (if off + 2 \<le> len then do { c \<leftarrow> suite_count d off; Some (rsn_caps (of_nat c) wpa_auth) }
              else Some (Some (1, 0, wpa_auth)));
     case caps of None \<Rightarrow> Some (E_INVAL, 0, wpa_auth, f)
     | Some (wme, mfp, wpa_auth) \<Rightarrow> do {
         (err, f) \<leftarrow> put_int w ifp (BSSCFG ''wme_bss_disable'') wme f;
         if err < 0 then Some (err, mfp, wpa_auth, f)
         else if feat_enabled w FEAT_MFP \<and> off + 8 \<le> len then do {
           bip \<leftarrow> read_bytes d (off + 4) 4;
           (err, f) \<leftarrow> fil_put w ifp (BSSCFG ''bip'') (Some bip) f;
           Some (err, mfp, wpa_auth, f) }
         else Some (err, mfp, wpa_auth, f) } }"

text \<open>\<open>d\<close> is the buffer from the element on; the result is \<open>-EINVAL\<close>, a firmware error or zero.\<close>

definition brcmf_configure_wpaie ::
  "'f fil \<Rightarrow> fil_if \<Rightarrow> u8 list option \<Rightarrow> bool \<Rightarrow> 'f \<Rightarrow> (int \<times> 'f) option" where
  "brcmf_configure_wpaie w ifp wpa_ie is_rsn f = (case wpa_ie of None \<Rightarrow> Some (0, f) | Some d \<Rightarrow> do {
     l \<leftarrow> nth_opt d 1;
     let len = unat l + 2;
     s \<leftarrow> wpaie_suites d len is_rsn;
     case s of None \<Rightarrow> Some (E_INVAL, f)
     | Some (off, pval, gval, wpa_auth) \<Rightarrow> do {
     (err, mfp, wpa_auth, f) \<leftarrow>
       (if is_rsn then wpaie_rsn w ifp d len off wpa_auth f else Some (0, 0, wpa_auth, f));
     if err < 0 then Some (err, f) else do {
     (err, f) \<leftarrow> put_int w ifp (BSSCFG ''auth'') 0 f;
     if err < 0 then Some (err, f) else do {
     (err, f) \<leftarrow> put_int w ifp (BSSCFG ''wsec'') (pval OR gval OR SES_OW_ENABLED) f;
     if err < 0 then Some (err, f) else do {
     (err, f) \<leftarrow> (if feat_enabled w FEAT_MFP then put_int w ifp (BSSCFG ''mfp'') mfp f else Some (err, f));
     if err < 0 then Some (err, f) else put_int w ifp (BSSCFG ''wpa_auth'') wpa_auth f } } } } })"

text \<open>The beacon's tail decides.\<close>

definition brcmf_parse_configure_security ::
  "'f fil \<Rightarrow> brcmf_cfg80211_vif \<Rightarrow> u8 list \<Rightarrow> 'f \<Rightarrow> (int \<times> 'f) option" where
  "brcmf_parse_configure_security w vif tail f = do {
     rsn \<leftarrow> brcmf_parse_tlvs tail 0 (sint (of_nat (length tail) :: u32)) WLAN_EID_RSN;
     wpa \<leftarrow> brcmf_find_wpaie tail (of_nat (length tail));
     case (wpa, rsn) of
       (Some p, _) \<Rightarrow> brcmf_configure_wpaie w (vif_ifp vif) (Some (drop p tail)) False f
     | (None, Some p) \<Rightarrow> brcmf_configure_wpaie w (vif_ifp vif) (Some (drop p tail)) True f
     | (None, None) \<Rightarrow> do { (_, f) \<leftarrow> brcmf_configure_opensecurity w vif f; Some (0, f) } }"

section \<open>Vendor elements\<close>

text \<open>The parsed elements as offsets and lengths, at most five. WPA and WME elements and those too short for an
  OUI and type are passed over. The length of the last element is not compared with what is left.\<close>

definition vndr_wanted :: "u8 list \<Rightarrow> nat \<Rightarrow> bool option" where
  "vndr_wanted buf ie = do {
     i \<leftarrow> nth_opt buf ie;
     if i \<noteq> WLAN_EID_VENDOR_SPECIFIC then Some False else do {
     l \<leftarrow> nth_opt buf (ie + 1);
     if unat l < 5 then Some False else do {
     o3 \<leftarrow> read_bytes buf (ie + 2) 3;
     if o3 = WPA_OUI then do { t \<leftarrow> nth_opt buf (ie + 5); Some (t \<noteq> 1 \<and> t \<noteq> 2) } else Some True } } }"

function vndr_loop :: "u8 list \<Rightarrow> nat \<Rightarrow> int \<Rightarrow> (nat \<times> nat) list \<Rightarrow> (nat \<times> nat) list option" where
  "vndr_loop buf ie remaining_len acc = do {
     want \<leftarrow> vndr_wanted buf ie;
     l \<leftarrow> nth_opt buf (ie + 1);
     acc \<leftarrow> (if want then do { _ \<leftarrow> read_bytes buf ie 6; Some (acc @ [(ie, unat l + 2)]) } else Some acc);
     if want \<and> 5 \<le> length acc then Some acc
     else if remaining_len - (int (unat l) + 2) \<le> 2 then Some acc
     else vndr_loop buf (ie + unat l + 2) (remaining_len - (int (unat l) + 2)) acc }"
  by pat_completeness auto
termination
  by (relation "measure (\<lambda>(b, i, r, a). nat r)") auto

declare vndr_loop.simps [simp del]

definition brcmf_parse_vndr_ies :: "u8 list \<Rightarrow> u32 \<Rightarrow> (nat \<times> nat) list option" where
  "brcmf_parse_vndr_ies buf len = vndr_loop buf 0 (sint len) []"

text \<open>One command: four characters, the count, the frame flag and the element.\<close>

definition brcmf_vndr_ie :: "u8 list \<Rightarrow> nat \<Rightarrow> u32 \<Rightarrow> u8 list \<Rightarrow> string \<Rightarrow> (u8 list \<times> nat) option" where
  "brcmf_vndr_ie iovar off pktflag ie cmd = do {
     iovar \<leftarrow> write_bytes iovar off (str_bytes (take 3 cmd) @ [0] @ le32 1 @ le32 pktflag @ ie);
     Some (iovar, length ie + 12) }"

text \<open>The saved elements of a frame type.\<close>

definition saved_ie :: "u32 \<Rightarrow> brcmf_cfg80211_vif \<Rightarrow> (u8 list \<times> u32) option" where
  "saved_ie pktflag vif = (
     if pktflag = 0x10 then Some (probe_req_ie vif) else if pktflag = 2 then Some (probe_res_ie vif)
     else if pktflag = 1 then Some (beacon_ie vif) else if pktflag = 0x20 then Some (assoc_req_ie vif)
     else if pktflag = 4 then Some (assoc_res_ie vif) else None)"

definition save_ie :: "u32 \<Rightarrow> u8 list \<times> u32 \<Rightarrow> brcmf_cfg80211_vif \<Rightarrow> brcmf_cfg80211_vif" where
  "save_ie pktflag v vif = (
     if pktflag = 0x10 then vif\<lparr>probe_req_ie := v\<rparr> else if pktflag = 2 then vif\<lparr>probe_res_ie := v\<rparr>
     else if pktflag = 1 then vif\<lparr>beacon_ie := v\<rparr> else if pktflag = 0x20 then vif\<lparr>assoc_req_ie := v\<rparr>
     else if pktflag = 4 then vif\<lparr>assoc_res_ie := v\<rparr> else vif)"

text \<open>The elements themselves, copied one after the other.\<close>

fun copy_ies :: "u8 list \<Rightarrow> (nat \<times> nat) list \<Rightarrow> u8 list \<Rightarrow> nat \<Rightarrow> (u8 list \<times> nat) option" where
  "copy_ies src [] dst pos = Some (dst, pos)"
| "copy_ies src ((off, n) # es) dst pos = do {
     bs \<leftarrow> read_bytes src off n; dst \<leftarrow> write_bytes dst pos bs; copy_ies src es dst (pos + n) }"

fun del_ies :: "u32 \<Rightarrow> u8 list \<Rightarrow> (nat \<times> nat) list \<Rightarrow> u8 list \<Rightarrow> nat \<Rightarrow> (u8 list \<times> nat) option" where
  "del_ies pktflag src [] iovar pos = Some (iovar, pos)"
| "del_ies pktflag src ((off, n) # es) iovar pos = do {
     bs \<leftarrow> read_bytes src off n;
     (iovar, k) \<leftarrow> brcmf_vndr_ie iovar pos pktflag bs ''del'';
     del_ies pktflag src es iovar (pos + k) }"

text \<open>Adding stops at the first element that may not fit the saved buffer.\<close>

fun add_ies :: "u32 \<Rightarrow> u8 list \<Rightarrow> (nat \<times> nat) list \<Rightarrow> int \<Rightarrow> u8 list \<Rightarrow> nat \<Rightarrow> u8 list \<Rightarrow> nat
    \<Rightarrow> (u8 list \<times> nat \<times> u8 list \<times> nat) option" where
  "add_ies pktflag src [] remained iovar pos saved len = Some (iovar, pos, saved, len)"
| "add_ies pktflag src ((off, n) # es) remained iovar pos saved len = (
     if remained < int n - 2 + 12 then Some (iovar, pos, saved, len)
     else do {
       bs \<leftarrow> read_bytes src off n;
       (iovar, k) \<leftarrow> brcmf_vndr_ie iovar pos pktflag bs ''add'';
       saved \<leftarrow> write_bytes saved len bs;
       add_ies pktflag src es (remained - (int n + 12)) iovar (pos + k) saved (len + n) })"

text \<open>\<open>mem\<close> says whether the work buffer could be had.\<close>

definition brcmf_vif_set_mgmt_ie ::
  "'f fil \<Rightarrow> bool \<Rightarrow> brcmf_cfg80211_vif option \<Rightarrow> u32 \<Rightarrow> u8 list option \<Rightarrow> u32 \<Rightarrow> 'f
    \<Rightarrow> (int \<times> brcmf_cfg80211_vif option \<times> 'f) option" where
  "brcmf_vif_set_mgmt_ie w mem vif pktflag vndr_ie_buf vndr_ie_len f = (case vif of None \<Rightarrow> Some (E_NODEV, None, f)
   | Some vif \<Rightarrow>
     if \<not> mem then Some (E_NOMEM, Some vif, f)
     else case saved_ie pktflag vif of None \<Rightarrow> Some (E_PERM, Some vif, f)
     | Some (buf, len) \<Rightarrow>
       if length buf < unat vndr_ie_len then Some (E_NOMEM, Some vif, f)
       else do {
         let iovar = replicate 2048 0;
         (new, src, iovar, parsed) \<leftarrow> (case vndr_ie_buf of
             Some b \<Rightarrow> (if vndr_ie_len \<noteq> 0 then do {
                 new \<leftarrow> brcmf_parse_vndr_ies b vndr_ie_len;
                 (iovar, parsed) \<leftarrow> copy_ies b new iovar 0;
                 Some (new, b, iovar, parsed) }
               else Some ([], [], iovar, 0))
           | None \<Rightarrow> Some ([], [], iovar, 0));
         same \<leftarrow> (if len \<noteq> 0 \<and> parsed \<noteq> 0 \<and> parsed = unat len then do {
             a \<leftarrow> read_bytes buf 0 parsed; b \<leftarrow> read_bytes iovar 0 parsed; Some (a = b) } else Some False);
         if same then Some (0, Some vif, f)
         else do {
           old \<leftarrow> (if len \<noteq> 0 then brcmf_parse_vndr_ies buf len else Some []);
           (iovar, pos) \<leftarrow> del_ies pktflag buf old iovar 0;
           (iovar, pos, buf, n) \<leftarrow> (if parsed \<noteq> 0 then add_ies pktflag src new (int (length buf)) iovar pos buf 0
             else Some (iovar, pos, buf, 0));
           let vif = save_ie pktflag (buf, of_nat n) vif;
           if pos \<noteq> 0 then do {
             cmd \<leftarrow> read_bytes iovar 0 pos;
             (err, f) \<leftarrow> fil_put w (vif_ifp vif) (BSSCFG ''vndr_ie'') (Some cmd) f;
             Some (err, Some vif, f) }
           else Some (0, Some vif, f) } })"

definition clear_saved_ies :: "brcmf_cfg80211_vif \<Rightarrow> brcmf_cfg80211_vif" where
  "clear_saved_ies vif = vif\<lparr>probe_req_ie := (replicate 512 0, 0), probe_res_ie := (replicate 512 0, 0),
     beacon_ie := (replicate 512 0, 0), assoc_req_ie := (replicate 512 0, 0), assoc_res_ie := (replicate 512 0, 0)\<rparr>"

text \<open>The errors are ignored, the memory decisions are taken one after the other.\<close>

definition brcmf_vif_clear_mgmt_ies ::
  "'f fil \<Rightarrow> (nat \<Rightarrow> bool) \<Rightarrow> brcmf_cfg80211_vif \<Rightarrow> 'f \<Rightarrow> (int \<times> brcmf_cfg80211_vif \<times> 'f) option" where
  "brcmf_vif_clear_mgmt_ies w mem vif f = do {
     (_, v, f) \<leftarrow> brcmf_vif_set_mgmt_ie w (mem 0) (Some vif) (if iftype vif = IFTYPE_AP then 4 else 0x10) None 0 f;
     (_, v, f) \<leftarrow> brcmf_vif_set_mgmt_ie w (mem 1) v 2 None 0 f;
     (_, v, f) \<leftarrow> brcmf_vif_set_mgmt_ie w (mem 2) v 1 None 0 f;
     vif \<leftarrow> v;
     Some (0, clear_saved_ies vif, f) }"

definition brcmf_config_ap_mgmt_ie ::
  "'f fil \<Rightarrow> (nat \<Rightarrow> bool) \<Rightarrow> brcmf_cfg80211_vif \<Rightarrow> u8 list option \<Rightarrow> u8 list option \<Rightarrow> u8 list option \<Rightarrow> 'f
    \<Rightarrow> (int \<times> brcmf_cfg80211_vif option \<times> 'f) option" where
  "brcmf_config_ap_mgmt_ie w mem vif tail proberesp assocresp f = do {
     let len = (\<lambda>b :: u8 list option. case b of None \<Rightarrow> 0 | Some b \<Rightarrow> (of_nat (length b) :: u32));
     (err, v, f) \<leftarrow> brcmf_vif_set_mgmt_ie w (mem 0) (Some vif) 1 tail (len tail) f;
     if err \<noteq> 0 then Some (err, v, f)
     else do {
       (_, v, f) \<leftarrow> brcmf_vif_set_mgmt_ie w (mem 1) v 2 proberesp (len proberesp) f;
       brcmf_vif_set_mgmt_ie w (mem 2) v 4 assocresp (len assocresp) f } }"

section \<open>Well-formed strings\<close>

type_synonym tlv = "u8 \<times> u8 list"

definition tlv_bytes :: "tlv \<Rightarrow> u8 list" where
  "tlv_bytes e = fst e # of_nat (length (snd e)) # snd e"

definition tlvs_bytes :: "tlv list \<Rightarrow> u8 list" where
  "tlvs_bytes ts = concat (map tlv_bytes ts)"

definition tlv_ok :: "tlv \<Rightarrow> bool" where
  "tlv_ok e \<longleftrightarrow> length (snd e) < 256"

lemma tlvs_bytes_simps [simp]:
  "tlvs_bytes [] = []" "tlvs_bytes (e # ts) = tlv_bytes e @ tlvs_bytes ts"
  "tlvs_bytes (ts @ us) = tlvs_bytes ts @ tlvs_bytes us"
  by (simp_all add: tlvs_bytes_def)

lemma length_tlv_bytes [simp]: "length (tlv_bytes e) = length (snd e) + 2"
  by (simp add: tlv_bytes_def)

lemma unat_len [simp]: "tlv_ok e \<Longrightarrow> unat (of_nat (length (snd e)) :: u8) = length (snd e)"
  by (simp add: tlv_ok_def unat_of_nat take_bit_nat_eq_self)

lemma tlv_nth:
  "k < length (snd e) \<Longrightarrow> nth_opt (pre @ tlv_bytes e @ post) (length pre + 2 + k) = Some (snd e ! k)"
  by (auto simp: tlv_bytes_def nth_append)

lemma tlv_read:
  "n \<le> length (snd e) \<Longrightarrow> read_bytes (pre @ tlv_bytes e @ post) (length pre + 2) n = Some (take n (snd e))"
  by (auto simp: tlv_bytes_def read_bytes_def)

lemma tlv_head [simp]:
  "nth_opt (pre @ tlv_bytes e @ post) (length pre) = Some (fst e)"
  "nth_opt (pre @ tlv_bytes e @ post) (Suc (length pre)) = Some (of_nat (length (snd e)))"
  by (auto simp: tlv_bytes_def nth_append)

text \<open>Where the first element that satisfies a test starts.\<close>

fun tlv_pos :: "(tlv \<Rightarrow> bool) \<Rightarrow> tlv list \<Rightarrow> nat \<Rightarrow> nat option" where
  "tlv_pos P [] pos = None"
| "tlv_pos P (e # ts) pos = (if P e then Some pos else tlv_pos P ts (pos + length (snd e) + 2))"

lemma parse_tlvs_wf:
  assumes "\<forall>e\<in>set ts. tlv_ok e"
  shows "brcmf_parse_tlvs (pre @ tlvs_bytes ts @ post) (length pre) (int (length (tlvs_bytes ts))) key
    = Some (tlv_pos (\<lambda>e. fst e = key) ts (length pre))"
  using assms
proof (induction ts arbitrary: pre)
  case Nil
  then show ?case by (simp add: brcmf_parse_tlvs.simps)
next
  case (Cons e ts)
  have ok: "tlv_ok e" using Cons.prems by simp
  have step: "brcmf_parse_tlvs ((pre @ tlv_bytes e) @ tlvs_bytes ts @ post) (length (pre @ tlv_bytes e)) (int (length (tlvs_bytes ts))) key
      = Some (tlv_pos (\<lambda>e. fst e = key) ts (length (pre @ tlv_bytes e)))"
    using Cons.prems by (intro Cons.IH) simp
  show ?case
    by (subst brcmf_parse_tlvs.simps) (use ok step in \<open>simp add: add.assoc add.commute add.left_commute\<close>)
qed

definition is_vendor_type :: "u8 \<Rightarrow> tlv \<Rightarrow> bool" where
  "is_vendor_type type e \<longleftrightarrow> fst e = WLAN_EID_VENDOR_SPECIFIC \<and> 4 \<le> length (snd e) \<and> take 3 (snd e) = WPA_OUI \<and> snd e ! 3 = type"

lemma has_ie_wf:
  assumes "tlv_ok e"
  shows "brcmf_tlv_has_ie (pre @ tlv_bytes e @ post) (length pre) WPA_OUI type
    = Some (4 \<le> length (snd e) \<and> take 3 (snd e) = WPA_OUI \<and> snd e ! 3 = type)"
proof (cases "4 \<le> length (snd e)")
  case True
  have "nth_opt (pre @ tlv_bytes e @ post) (length pre + 2 + length WPA_OUI) = Some (snd e ! 3)"
    using tlv_nth [of 3 e pre post] True by (simp add: WPA_OUI_def numeral_3_eq_3 add.commute)
  moreover have "read_bytes (pre @ tlv_bytes e @ post) (length pre + 2) (length WPA_OUI) = Some (take 3 (snd e))"
    using tlv_read [of 3 e pre post] True by (simp add: WPA_OUI_def numeral_3_eq_3)
  moreover have "length WPA_OUI + 1 \<le> length (snd e)" using True by (simp add: WPA_OUI_def)
  ultimately show ?thesis
    using assms True tlv_head(2) [of pre e post] unfolding brcmf_tlv_has_ie_def by (simp del: nth_opt_Some)
next
  case False
  then show ?thesis using assms by (simp add: brcmf_tlv_has_ie_def WPA_OUI_def)
qed

lemma tlv_pos_split:
  "tlv_pos P ts pos = Some p \<Longrightarrow>
    \<exists>as e bs. ts = as @ e # bs \<and> P e \<and> (\<forall>x\<in>set as. \<not> P x) \<and> p = pos + length (tlvs_bytes as)"
proof (induction ts arbitrary: pos)
  case Nil
  then show ?case by simp
next
  case (Cons e ts)
  show ?case
  proof (cases "P e")
    case True
    then show ?thesis using Cons.prems by (intro exI [of _ "[]"]) simp
  next
    case False
    then obtain as x bs where "ts = as @ x # bs" "P x" "\<forall>y\<in>set as. \<not> P y"
      "p = pos + length (snd e) + 2 + length (tlvs_bytes as)"
      using Cons.IH [of "pos + length (snd e) + 2"] Cons.prems by auto
    then show ?thesis using False by (intro exI [of _ "e # as"] exI [of _ x] exI [of _ bs]) simp
  qed
qed

lemma tlv_pos_skip: "\<forall>x\<in>set as. \<not> P x \<Longrightarrow> tlv_pos P (as @ bs) pos = tlv_pos P bs (pos + length (tlvs_bytes as))"
  by (induction as arbitrary: pos) (auto simp: add.assoc add.commute add.left_commute)

lemma tlv_pos_none: "tlv_pos P ts pos = None \<longleftrightarrow> (\<forall>x\<in>set ts. \<not> P x)"
  by (induction ts arbitrary: pos) auto

lemma sint_of_nat_small: "n < 2 ^ 31 \<Longrightarrow> sint (of_nat n :: u32) = int n"
  by (subst sint_small) (simp_all add: unat_of_nat take_bit_nat_eq_self)

lemma find_vendor_wf:
  assumes "\<forall>e\<in>set ts. tlv_ok e" and "length (tlvs_bytes ts) < 2 ^ 31"
  shows "find_vendor_ie type (pre @ tlvs_bytes ts @ post) (length pre) (of_nat (length (tlvs_bytes ts)))
    = Some (tlv_pos (is_vendor_type type) ts (length pre))"
  using assms
proof (induction "length ts" arbitrary: ts pre rule: less_induct)
  case less
  let ?n = "length (tlvs_bytes ts)" and ?b = "pre @ tlvs_bytes ts @ post"
  have p: "brcmf_parse_tlvs ?b (length pre) (sint (of_nat ?n :: u32)) WLAN_EID_VENDOR_SPECIFIC
      = Some (tlv_pos (\<lambda>e. fst e = WLAN_EID_VENDOR_SPECIFIC) ts (length pre))"
    using parse_tlvs_wf [OF less.prems(1)] less.prems(2) by (simp add: sint_of_nat_small)
  show ?case
  proof (cases "tlv_pos (\<lambda>e. fst e = WLAN_EID_VENDOR_SPECIFIC) ts (length pre)")
    case None
    then have "tlv_pos (is_vendor_type type) ts (length pre) = None" by (auto simp: tlv_pos_none is_vendor_type_def)
    then show ?thesis using p None by (subst find_vendor_ie.simps) simp
  next
    case (Some q)
    then obtain as e bs where ts: "ts = as @ e # bs" "fst e = WLAN_EID_VENDOR_SPECIFIC"
      "\<forall>x\<in>set as. fst x \<noteq> WLAN_EID_VENDOR_SPECIFIC" "q = length pre + length (tlvs_bytes as)"
      using tlv_pos_split by blast
    have ok: "tlv_ok e" using ts(1) less.prems(1) by simp
    let ?pre = "pre @ tlvs_bytes as"
    have b: "?b = ?pre @ tlv_bytes e @ (tlvs_bytes bs @ post)" and q: "q = length ?pre" using ts by simp_all
    have has: "brcmf_tlv_has_ie ?b q WPA_OUI type = Some (is_vendor_type type e)"
      unfolding b q using has_ie_wf [OF ok, of ?pre "tlvs_bytes bs @ post" type] ts(2) by (simp add: is_vendor_type_def)
    have skip: "tlv_pos (is_vendor_type type) ts (length pre) = tlv_pos (is_vendor_type type) (e # bs) q"
      unfolding ts(1) using ts(3,4) by (subst tlv_pos_skip) (auto simp: is_vendor_type_def)
    show ?thesis
    proof (cases "is_vendor_type type e")
      case True
      then show ?thesis using p Some has skip by (subst find_vendor_ie.simps) simp
    next
      case False
      have l: "nth_opt ?b (q + 1) = Some (of_nat (length (snd e)))"
        unfolding b q using tlv_head(2) [of ?pre e "tlvs_bytes bs @ post"] by (simp del: nth_opt_Some)
      have eq: "(of_nat ?n :: u32) - of_nat (q + length (snd e) + 2 - length pre) = of_nat (length (tlvs_bytes bs))"
      proof -
        have "?n = (q + length (snd e) + 2 - length pre) + length (tlvs_bytes bs)" using ts by simp
        then show ?thesis by (metis add_diff_cancel_left' of_nat_add)
      qed
      have rest: "tlv_rest ?b q (length pre) (of_nat ?n) = Some (q + length (snd e) + 2, of_nat (length (tlvs_bytes bs)))"
        using l eq ok unfolding tlv_rest_def by (simp del: nth_opt_Some)
      have "find_vendor_ie type ((?pre @ tlv_bytes e) @ tlvs_bytes bs @ post) (length (?pre @ tlv_bytes e)) (of_nat (length (tlvs_bytes bs)))
          = Some (tlv_pos (is_vendor_type type) bs (length (?pre @ tlv_bytes e)))"
        by (rule less.hyps) (use ts less.prems in auto)
      then have "find_vendor_ie type ?b (q + length (snd e) + 2) (of_nat (length (tlvs_bytes bs)))
          = Some (tlv_pos (is_vendor_type type) bs (q + length (snd e) + 2))"
        unfolding b q by (simp add: add.assoc)
      then show ?thesis using p Some has skip rest False by (subst find_vendor_ie.simps) simp
    qed
  qed
qed

text \<open>C28: \<open>brcmf_find_wpaie\<close> and \<open>brcmf_find_wpsie\<close> on a well-formed string of elements return the first vendor
  element with Microsoft's OUI and their type byte, whatever other vendor elements come before, and nothing
  when there is none.\<close>

theorem find_ie_exact:
  assumes "\<forall>e\<in>set ts. tlv_ok e" and "length (tlvs_bytes ts) < 2 ^ 31"
  shows "brcmf_find_wpaie (tlvs_bytes ts) (of_nat (length (tlvs_bytes ts))) = Some (tlv_pos (is_vendor_type 1) ts 0) \<and>
    brcmf_find_wpsie (tlvs_bytes ts) (of_nat (length (tlvs_bytes ts))) = Some (tlv_pos (is_vendor_type 4) ts 0)"
  using find_vendor_wf [OF assms, of _ "[]" "[]"] by (simp add: brcmf_find_wpaie_def brcmf_find_wpsie_def)

definition wit_ies :: "tlv list" where
  "wit_ies = [(0, [1]), (221, [0x00, 0x50, 0xF2, 2, 0]), (221, [0x50, 0x6F, 0x9A, 9, 1, 2]), (221, [0x00, 0x50, 0xF2, 1, 1, 0])]"

theorem find_ie_exact_witness:
  "brcmf_find_wpaie (tlvs_bytes wit_ies) 26 = Some (Some 18) \<and> brcmf_find_wpsie (tlvs_bytes wit_ies) 26 = Some None"
  using find_ie_exact [of wit_ies] by (simp add: wit_ies_def tlv_ok_def is_vendor_type_def WPA_OUI_def tlv_bytes_def)

section \<open>Vendor elements of well-formed strings\<close>

definition vndr_ok :: "tlv \<Rightarrow> bool" where
  "vndr_ok e \<longleftrightarrow> fst e = WLAN_EID_VENDOR_SPECIFIC \<and> 5 \<le> length (snd e) \<and>
     \<not> (take 3 (snd e) = WPA_OUI \<and> (snd e ! 3 = 1 \<or> snd e ! 3 = 2))"

fun vndr_pos :: "tlv list \<Rightarrow> nat \<Rightarrow> (nat \<times> nat) list" where
  "vndr_pos [] pos = []"
| "vndr_pos (e # ts) pos = (if vndr_ok e then [(pos, length (snd e) + 2)] else []) @ vndr_pos ts (pos + length (snd e) + 2)"

lemma vndr_wanted_wf:
  assumes "tlv_ok e"
  shows "vndr_wanted (pre @ tlv_bytes e @ post) (length pre) = Some (vndr_ok e)"
proof (cases "5 \<le> length (snd e)")
  case True
  have "length pre + 5 = length pre + 2 + 3" by simp
  moreover have "nth_opt (pre @ tlv_bytes e @ post) (length pre + 2 + 3) = Some (snd e ! 3)"
    by (rule tlv_nth) (use True in simp)
  ultimately have "nth_opt (pre @ tlv_bytes e @ post) (length pre + 5) = Some (snd e ! 3)" by (simp only:)
  moreover have "read_bytes (pre @ tlv_bytes e @ post) (length pre + 2) 3 = Some (take 3 (snd e))"
    using tlv_read [of 3 e pre post] True by simp
  ultimately show ?thesis
    using assms True tlv_head [of pre e post] unfolding vndr_wanted_def vndr_ok_def by (auto simp del: nth_opt_Some)
next
  case False
  then show ?thesis using assms by (simp add: vndr_wanted_def vndr_ok_def)
qed

lemma vndr_loop_wf:
  assumes "\<forall>e\<in>set ts. tlv_ok e" and "ts \<noteq> []" and "length acc < 5"
  shows "vndr_loop (pre @ tlvs_bytes ts @ post) (length pre) (int (length (tlvs_bytes ts))) acc
    = Some (take 5 (acc @ vndr_pos ts (length pre)))"
  using assms
proof (induction ts arbitrary: pre acc)
  case Nil
  then show ?case by simp
next
  case (Cons e ts)
  define b where "b = pre @ tlvs_bytes (e # ts) @ post"
  let ?acc = "if vndr_ok e then acc @ [(length pre, length (snd e) + 2)] else acc"
  have ok: "tlv_ok e" using Cons.prems(1) by simp
  have want: "vndr_wanted b (length pre) = Some (vndr_ok e)" using vndr_wanted_wf [OF ok, of pre "tlvs_bytes ts @ post"] by (simp add: b_def)
  have l: "nth_opt b (Suc (length pre)) = Some (of_nat (length (snd e)))"
    using tlv_head(2) [of pre e "tlvs_bytes ts @ post"] by (simp add: b_def del: nth_opt_Some)
  have six: "vndr_ok e \<Longrightarrow> read_bytes b (length pre) 6 \<noteq> None" by (auto simp: b_def vndr_ok_def read_bytes_def)
  have step: "vndr_loop b (length pre) (int (length (tlvs_bytes (e # ts)))) acc
     = (if vndr_ok e \<and> 5 \<le> length ?acc \<or> int (length (tlvs_bytes ts)) \<le> 2 then Some ?acc
        else vndr_loop b (length pre + length (snd e) + 2) (int (length (tlvs_bytes ts))) ?acc)"
    using six ok by (subst vndr_loop.simps) (auto simp: want l simp del: nth_opt_Some)
  have small: "vndr_pos ts p = []" if "int (length (tlvs_bytes ts)) \<le> 2" for p
    using that by (cases ts; cases "tl ts") (auto simp: vndr_ok_def)
  show ?case
  proof (cases "vndr_ok e \<and> 5 \<le> length ?acc \<or> int (length (tlvs_bytes ts)) \<le> 2")
    case True
    then show ?thesis using step Cons.prems(3) small by (auto simp: b_def)
  next
    case False
    then have "ts \<noteq> []" "length ?acc < 5" using Cons.prems(3) by (auto split: if_splits)
    then have "vndr_loop ((pre @ tlv_bytes e) @ tlvs_bytes ts @ post) (length (pre @ tlv_bytes e)) (int (length (tlvs_bytes ts))) ?acc
        = Some (take 5 (?acc @ vndr_pos ts (length (pre @ tlv_bytes e))))"
      by (intro Cons.IH) (use Cons.prems(1) in auto)
    then show ?thesis using step False by (simp add: b_def add.assoc)
  qed
qed

text \<open>Copying, deleting and adding at the positions of a list of elements. \<open>at ts es\<close>: the positions \<open>es\<close>
  of the elements \<open>ts\<close> in a buffer.\<close>

definition at_pos :: "u8 list \<Rightarrow> tlv list \<Rightarrow> (nat \<times> nat) list \<Rightarrow> bool" where
  "at_pos buf ts es \<longleftrightarrow> list_all2 (\<lambda>e (off, n). n = length (snd e) + 2 \<and> read_bytes buf off n = Some (tlv_bytes e)) ts es"

lemma at_pos_simps [simp]:
  "at_pos buf [] es \<longleftrightarrow> es = []" "at_pos buf ts [] \<longleftrightarrow> ts = []"
  "at_pos buf (e # ts) ((off, n) # es) \<longleftrightarrow> n = length (snd e) + 2 \<and> read_bytes buf off n = Some (tlv_bytes e) \<and> at_pos buf ts es"
  by (auto simp: at_pos_def)

lemma at_pos_take: "at_pos buf ts es \<Longrightarrow> at_pos buf (take k ts) (take k es)"
  unfolding at_pos_def by (rule list_all2_takeI)

lemma vndr_pos_at:
  "at_pos (pre @ tlvs_bytes ts @ post) (filter vndr_ok ts) (vndr_pos ts (length pre))"
proof (induction ts arbitrary: pre)
  case Nil
  then show ?case by simp
next
  case (Cons e ts)
  have "at_pos ((pre @ tlv_bytes e) @ tlvs_bytes ts @ post) (filter vndr_ok ts) (vndr_pos ts (length (pre @ tlv_bytes e)))"
    by (rule Cons.IH)
  then show ?case by (simp add: add.assoc read_bytes_def)
qed

lemma parse_vndr_wf:
  assumes "\<forall>e\<in>set ts. tlv_ok e" and "ts \<noteq> []" and "length (tlvs_bytes ts) < 2 ^ 31"
  obtains es where "brcmf_parse_vndr_ies (tlvs_bytes ts @ post) (of_nat (length (tlvs_bytes ts))) = Some es"
    "at_pos (tlvs_bytes ts @ post) (take 5 (filter vndr_ok ts)) es"
proof -
  have "brcmf_parse_vndr_ies (tlvs_bytes ts @ post) (of_nat (length (tlvs_bytes ts))) = Some (take 5 (vndr_pos ts 0))"
    using vndr_loop_wf [OF assms(1,2), of "[]" "[]" post] assms(3) by (simp add: brcmf_parse_vndr_ies_def sint_of_nat_small)
  moreover have "at_pos (tlvs_bytes ts @ post) (take 5 (filter vndr_ok ts)) (take 5 (vndr_pos ts 0))"
    using at_pos_take [OF vndr_pos_at [of "[]" ts post]] by simp
  ultimately show ?thesis by (rule that)
qed

definition vndr_cmd :: "u32 \<Rightarrow> string \<Rightarrow> tlv \<Rightarrow> u8 list" where
  "vndr_cmd pktflag cmd e = str_bytes cmd @ [0] @ le32 1 @ le32 pktflag @ tlv_bytes e"

definition vndr_cmds :: "u32 \<Rightarrow> string \<Rightarrow> tlv list \<Rightarrow> u8 list" where
  "vndr_cmds pktflag cmd ts = concat (map (vndr_cmd pktflag cmd) ts)"

lemma vndr_cmds_simps [simp]:
  "vndr_cmds fl cmd [] = []" "vndr_cmds fl cmd (e # ts) = vndr_cmd fl cmd e @ vndr_cmds fl cmd ts"
  by (simp_all add: vndr_cmds_def)

lemma length_vndr_cmds:
  "length cmd = 3 \<Longrightarrow> length (vndr_cmds fl cmd ts) = length (tlvs_bytes ts) + 12 * length ts"
  by (induction ts) (simp_all add: vndr_cmd_def)

lemma write_next:
  "length pre + length bs \<le> length buf \<Longrightarrow> take (length pre) buf = pre \<Longrightarrow>
    \<exists>buf'. write_bytes buf (length pre) bs = Some buf' \<and> length buf' = length buf \<and> take (length pre + length bs) buf' = pre @ bs"
  by (simp add: write_bytes_def)

lemma copy_ies_at:
  assumes "at_pos src ts es" and "length pre + length (tlvs_bytes ts) \<le> length dst" and "take (length pre) dst = pre"
  shows "\<exists>dst'. copy_ies src es dst (length pre) = Some (dst', length pre + length (tlvs_bytes ts)) \<and>
    length dst' = length dst \<and> take (length pre + length (tlvs_bytes ts)) dst' = pre @ tlvs_bytes ts"
  using assms
proof (induction ts arbitrary: es pre dst)
  case Nil
  then show ?case by simp
next
  case (Cons e ts)
  obtain off es' where es: "es = (off, length (snd e) + 2) # es'" "read_bytes src off (length (snd e) + 2) = Some (tlv_bytes e)"
    "at_pos src ts es'"
    using Cons.prems(1) by (cases es) auto
  obtain d where d: "write_bytes dst (length pre) (tlv_bytes e) = Some d" "length d = length dst"
    "take (length (pre @ tlv_bytes e)) d = pre @ tlv_bytes e"
    using write_next [of pre "tlv_bytes e" dst] Cons.prems(2,3) by auto
  have "\<exists>dst'. copy_ies src es' d (length (pre @ tlv_bytes e)) = Some (dst', length (pre @ tlv_bytes e) + length (tlvs_bytes ts)) \<and>
    length dst' = length d \<and> take (length (pre @ tlv_bytes e) + length (tlvs_bytes ts)) dst' = (pre @ tlv_bytes e) @ tlvs_bytes ts"
    by (rule Cons.IH) (use es(3) d Cons.prems(2) in auto)
  then show ?case using es d by (auto simp: add.assoc)
qed

lemma vndr_ie_cmd:
  assumes "length pre + length (vndr_cmd fl cmd e) \<le> length buf" and "take (length pre) buf = pre" and "length cmd = 3"
  obtains buf' where "brcmf_vndr_ie buf (length pre) fl (tlv_bytes e) cmd = Some (buf', length (vndr_cmd fl cmd e))"
    "length buf' = length buf" "take (length (pre @ vndr_cmd fl cmd e)) buf' = pre @ vndr_cmd fl cmd e"
proof -
  obtain b where b: "write_bytes buf (length pre) (vndr_cmd fl cmd e) = Some b" "length b = length buf"
    "take (length pre + length (vndr_cmd fl cmd e)) b = pre @ vndr_cmd fl cmd e"
    using write_next [OF assms(1,2)] by auto
  have "brcmf_vndr_ie buf (length pre) fl (tlv_bytes e) cmd = Some (b, length (vndr_cmd fl cmd e))"
    using b(1) assms(3) by (simp add: brcmf_vndr_ie_def vndr_cmd_def)
  then show ?thesis using b(2,3) by (intro that) simp_all
qed

lemma del_ies_at:
  assumes "at_pos src ts es" and "length pre + length (vndr_cmds fl ''del'' ts) \<le> length buf" and "take (length pre) buf = pre"
  shows "\<exists>buf'. del_ies fl src es buf (length pre) = Some (buf', length pre + length (vndr_cmds fl ''del'' ts)) \<and>
    length buf' = length buf \<and> take (length pre + length (vndr_cmds fl ''del'' ts)) buf' = pre @ vndr_cmds fl ''del'' ts"
  using assms
proof (induction ts arbitrary: es pre buf)
  case Nil
  then show ?case by simp
next
  case (Cons e ts)
  obtain off es' where es: "es = (off, length (snd e) + 2) # es'" "read_bytes src off (length (snd e) + 2) = Some (tlv_bytes e)"
    "at_pos src ts es'"
    using Cons.prems(1) by (cases es) auto
  obtain b where b: "brcmf_vndr_ie buf (length pre) fl (tlv_bytes e) ''del'' = Some (b, length (vndr_cmd fl ''del'' e))"
    "length b = length buf" "take (length (pre @ vndr_cmd fl ''del'' e)) b = pre @ vndr_cmd fl ''del'' e"
    by (rule vndr_ie_cmd [of pre fl "''del''" e buf]) (use Cons.prems in auto)
  have "\<exists>buf'. del_ies fl src es' b (length (pre @ vndr_cmd fl ''del'' e)) = Some (buf', length (pre @ vndr_cmd fl ''del'' e) + length (vndr_cmds fl ''del'' ts)) \<and>
    length buf' = length b \<and> take (length (pre @ vndr_cmd fl ''del'' e) + length (vndr_cmds fl ''del'' ts)) buf' = (pre @ vndr_cmd fl ''del'' e) @ vndr_cmds fl ''del'' ts"
    by (rule Cons.IH) (use es(3) b Cons.prems(2) in auto)
  then show ?case using es b by (auto simp: add.assoc)
qed

lemma add_ies_at:
  assumes "at_pos src ts es" and "length pre + length (vndr_cmds fl ''add'' ts) \<le> length buf" and "take (length pre) buf = pre"
    and "length sv + length (tlvs_bytes ts) \<le> length saved" and "take (length sv) saved = sv"
    and "int (length (vndr_cmds fl ''add'' ts)) \<le> rem"
  shows "\<exists>buf' saved'. add_ies fl src es rem buf (length pre) saved (length sv)
      = Some (buf', length pre + length (vndr_cmds fl ''add'' ts), saved', length sv + length (tlvs_bytes ts)) \<and>
    take (length pre + length (vndr_cmds fl ''add'' ts)) buf' = pre @ vndr_cmds fl ''add'' ts \<and> length buf' = length buf \<and>
    length saved' = length saved \<and> take (length sv + length (tlvs_bytes ts)) saved' = sv @ tlvs_bytes ts"
  using assms
proof (induction ts arbitrary: es pre buf sv saved rem)
  case Nil
  then show ?case by simp
next
  case (Cons e ts)
  let ?c = "vndr_cmd fl ''add'' e"
  obtain off es' where es: "es = (off, length (snd e) + 2) # es'" "read_bytes src off (length (snd e) + 2) = Some (tlv_bytes e)"
    "at_pos src ts es'"
    using Cons.prems(1) by (cases es) auto
  obtain b where b: "brcmf_vndr_ie buf (length pre) fl (tlv_bytes e) ''add'' = Some (b, length ?c)"
    "length b = length buf" "take (length (pre @ ?c)) b = pre @ ?c"
    by (rule vndr_ie_cmd [of pre fl "''add''" e buf]) (use Cons.prems in auto)
  obtain d where d: "write_bytes saved (length sv) (tlv_bytes e) = Some d" "length d = length saved"
    "take (length (sv @ tlv_bytes e)) d = sv @ tlv_bytes e"
    using write_next [of sv "tlv_bytes e" saved] Cons.prems(4,5) by auto
  have lc: "length ?c = length (snd e) + 2 + 12" by (simp add: vndr_cmd_def)
  have "\<exists>buf' saved'. add_ies fl src es' (rem - (int (length (snd e) + 2) + 12)) b (length (pre @ ?c)) d (length (sv @ tlv_bytes e))
      = Some (buf', length (pre @ ?c) + length (vndr_cmds fl ''add'' ts), saved', length (sv @ tlv_bytes e) + length (tlvs_bytes ts)) \<and>
    take (length (pre @ ?c) + length (vndr_cmds fl ''add'' ts)) buf' = (pre @ ?c) @ vndr_cmds fl ''add'' ts \<and> length buf' = length b \<and>
    length saved' = length d \<and> take (length (sv @ tlv_bytes e) + length (tlvs_bytes ts)) saved' = (sv @ tlv_bytes e) @ tlvs_bytes ts"
    by (rule Cons.IH) (use es(3) b d Cons.prems lc in auto)
  moreover have "\<not> rem < int (length (snd e) + 2) - 2 + 12" using Cons.prems(6) lc by simp
  ultimately show ?case using es b d by (auto simp: add.assoc)
qed

section \<open>Keeping the firmware's vendor elements\<close>

text \<open>What is saved for a frame type: a buffer of 512 bytes that starts with the elements \<open>ts\<close>, at most five,
  all of them ones the driver hands on.\<close>

definition saved_ok :: "u8 list \<times> u32 \<Rightarrow> tlv list \<Rightarrow> bool" where
  "saved_ok s ts \<longleftrightarrow> length (fst s) = 512 \<and> unat (snd s) = length (tlvs_bytes ts) \<and>
     take (length (tlvs_bytes ts)) (fst s) = tlvs_bytes ts \<and> length ts \<le> 5 \<and> (\<forall>e\<in>set ts. tlv_ok e \<and> vndr_ok e)"

lemma saved_ok_len: "saved_ok s ts \<Longrightarrow> length (tlvs_bytes ts) \<le> 512"
  by (metis length_take min.absorb_iff2 min.commute nat_le_linear saved_ok_def)

lemma tlvs_bytes_inj:
  "\<forall>e\<in>set ts. tlv_ok e \<Longrightarrow> \<forall>e\<in>set us. tlv_ok e \<Longrightarrow> tlvs_bytes ts = tlvs_bytes us \<Longrightarrow> ts = us"
proof (induction ts arbitrary: us)
  case Nil
  then show ?case by (cases us) (auto simp: tlv_bytes_def)
next
  case (Cons e ts)
  obtain d us' where us: "us = d # us'" using Cons.prems(3) by (cases us) (auto simp: tlv_bytes_def)
  have h: "fst e = fst d" "(of_nat (length (snd e)) :: u8) = of_nat (length (snd d))"
    "snd e @ tlvs_bytes ts = snd d @ tlvs_bytes us'"
    using Cons.prems(3) unfolding us by (simp_all add: tlv_bytes_def)
  have "length (snd e) = length (snd d)"
    using h(2) unat_len [of e] unat_len [of d] Cons.prems(1,2) us by (metis list.set_intros(1))
  then have "snd e = snd d" "tlvs_bytes ts = tlvs_bytes us'" using h(3) by simp_all
  then have "e = d" using h(1) by (simp add: prod_eq_iff)
  moreover have "ts = us'" by (rule Cons.IH) (use Cons.prems(1,2) us \<open>tlvs_bytes ts = tlvs_bytes us'\<close> in auto)
  ultimately show ?case by (simp add: us)
qed

lemma tlvs_bytes_nil [simp]: "tlvs_bytes ts = [] \<longleftrightarrow> ts = []"
  by (cases ts) (auto simp: tlv_bytes_def)

lemma parse_saved:
  assumes "saved_ok (buf, len) olds"
  obtains es where "(if len \<noteq> 0 then brcmf_parse_vndr_ies buf len else Some []) = Some es" "at_pos buf olds es"
proof (cases "olds = []")
  case True
  then have "len = 0" using assms by (simp add: saved_ok_def unat_eq_0)
  then show ?thesis using True that by simp
next
  case False
  have n: "length (tlvs_bytes olds) \<le> 512" using saved_ok_len [OF assms] .
  have len: "len = of_nat (length (tlvs_bytes olds))" using assms n by (simp add: saved_ok_def word_unat_eq_iff unat_of_nat take_bit_nat_eq_self)
  have b: "buf = tlvs_bytes olds @ drop (length (tlvs_bytes olds)) buf"
    using assms by (metis append_take_drop_id fst_conv saved_ok_def)
  have f: "take 5 (filter vndr_ok olds) = olds" using assms by (auto simp: saved_ok_def)
  obtain es where es: "brcmf_parse_vndr_ies buf len = Some es" "at_pos buf olds es"
    by (rule parse_vndr_wf [of olds "drop (length (tlvs_bytes olds)) buf"])
      (use assms False n f b len in \<open>auto simp: saved_ok_def\<close>)
  have "len \<noteq> 0" using assms False by (auto simp: saved_ok_def)
  then show ?thesis using es that by simp
qed

lemma parse_new:
  assumes "\<forall>e\<in>set ts. tlv_ok e" and "length (tlvs_bytes ts) \<le> 512" and "want = take 5 (filter vndr_ok ts)"
    and "length (tlvs_bytes want) \<le> 512"
  obtains es iovar where "(if (of_nat (length (tlvs_bytes ts)) :: u32) \<noteq> 0 then do {
       new \<leftarrow> brcmf_parse_vndr_ies (tlvs_bytes ts) (of_nat (length (tlvs_bytes ts)));
       (iovar, parsed) \<leftarrow> copy_ies (tlvs_bytes ts) new (replicate 2048 0) 0;
       Some (new, tlvs_bytes ts, iovar, parsed) }
      else Some ([], [], replicate 2048 0, 0)) = Some (es, if ts = [] then [] else tlvs_bytes ts, iovar, length (tlvs_bytes want))"
    "at_pos (tlvs_bytes ts) want es" "length iovar = 2048" "take (length (tlvs_bytes want)) iovar = tlvs_bytes want"
proof (cases "ts = []")
  case True
  then show ?thesis using that assms(3) by auto
next
  case False
  obtain es where es: "brcmf_parse_vndr_ies (tlvs_bytes ts) (of_nat (length (tlvs_bytes ts))) = Some es" "at_pos (tlvs_bytes ts) want es"
    using parse_vndr_wf [of ts "[]"] assms False by auto
  obtain iovar where io: "copy_ies (tlvs_bytes ts) es (replicate 2048 0) 0 = Some (iovar, length (tlvs_bytes want))"
    "length iovar = 2048" "take (length (tlvs_bytes want)) iovar = tlvs_bytes want"
    using copy_ies_at [OF es(2), of "[]" "replicate 2048 0"] assms(4) by auto
  have "unat (of_nat (length (tlvs_bytes ts)) :: u32) = length (tlvs_bytes ts)"
    using assms(2) by (simp add: unat_of_nat take_bit_nat_eq_self)
  then have "(of_nat (length (tlvs_bytes ts)) :: u32) \<noteq> 0" using False by (metis length_0_conv tlvs_bytes_nil unat_0)
  then show ?thesis using es io False that by auto
qed

lemma set_mgmt_ie_run:
  assumes "saved_ie fl vif = Some s" and "saved_ok s olds" and "\<forall>e\<in>set ts. tlv_ok e" and "length (tlvs_bytes ts) \<le> 512"
    and "want = take 5 (filter vndr_ok ts)" and "length (vndr_cmds fl ''add'' want) \<le> 512"
  shows "\<exists>s'. saved_ok s' want \<and>
    brcmf_vif_set_mgmt_ie w True (Some vif) fl (Some (tlvs_bytes ts)) (of_nat (length (tlvs_bytes ts))) f =
      (if want = olds \<and> want \<noteq> [] then Some (0, Some vif, f)
       else if want = [] \<and> olds = [] then Some (0, Some (save_ie fl s' vif), f)
       else do {
         (err, f) \<leftarrow> fil_put w (vif_ifp vif) (BSSCFG ''vndr_ie'') (Some (vndr_cmds fl ''del'' olds @ vndr_cmds fl ''add'' want)) f;
         Some (err, Some (save_ie fl s' vif), f) })"
proof -
  obtain buf len where s: "s = (buf, len)" by fastforce
  let ?B = "tlvs_bytes ts" and ?n = "length (tlvs_bytes want)"
  have buf: "length buf = 512" and len: "unat len = length (tlvs_bytes olds)" "take (unat len) buf = tlvs_bytes olds"
    using assms(2) s by (auto simp: saved_ok_def)
  have n512: "?n \<le> 512" "length (tlvs_bytes want) + 12 * length want \<le> 512" using assms(6) by (simp_all add: length_vndr_cmds)
  have wok: "\<forall>e\<in>set want. tlv_ok e \<and> vndr_ok e" using assms(3,5) by (auto dest!: in_set_takeD)
  obtain es io where new: "(if (of_nat (length ?B) :: u32) \<noteq> 0 then do {
       new \<leftarrow> brcmf_parse_vndr_ies ?B (of_nat (length ?B));
       (iovar, parsed) \<leftarrow> copy_ies ?B new (replicate 2048 0) 0;
       Some (new, ?B, iovar, parsed) }
      else Some ([], [], replicate 2048 0, 0)) = Some (es, if ts = [] then [] else ?B, io, ?n)"
    "at_pos ?B want es" "length io = 2048" "take ?n io = tlvs_bytes want"
    by (rule parse_new [OF assms(3,4,5) n512(1)])
  obtain os where old: "(if len \<noteq> 0 then brcmf_parse_vndr_ies buf len else Some []) = Some os" "at_pos buf olds os"
    using parse_saved assms(2) s by metis
  have lenB: "unat (of_nat (length ?B) :: u32) = length ?B" using assms(4) by (simp add: unat_of_nat take_bit_nat_eq_self)
  have same: "(if len \<noteq> 0 \<and> ?n \<noteq> 0 \<and> ?n = unat len then do {
             a \<leftarrow> read_bytes buf 0 ?n; b \<leftarrow> read_bytes io 0 ?n; Some (a = b) } else Some False) = Some (want = olds \<and> want \<noteq> [])"
  proof (cases "len \<noteq> 0 \<and> ?n \<noteq> 0 \<and> ?n = unat len")
    case True
    then have "read_bytes buf 0 ?n = Some (tlvs_bytes olds)" "read_bytes io 0 ?n = Some (tlvs_bytes want)"
      using len new(3,4) n512 buf by (auto simp: read_bytes_def)
    moreover have "tlvs_bytes olds = tlvs_bytes want \<longleftrightarrow> want = olds"
      using tlvs_bytes_inj [of want olds] wok assms(2) unfolding saved_ok_def by metis
    ultimately show ?thesis using True by auto
  next
    case False
    then show ?thesis using len by auto
  qed
  have olen: "length (vndr_cmds fl ''del'' olds) \<le> 1024" "length (vndr_cmds fl ''add'' want) \<le> 512"
    using saved_ok_len [OF assms(2)] assms(2,6) by (simp_all add: length_vndr_cmds saved_ok_def)
  let ?D = "vndr_cmds fl ''del'' olds" and ?A = "vndr_cmds fl ''add'' want"
  obtain io1 where io1: "del_ies fl buf os io 0 = Some (io1, length ?D)" "length io1 = 2048" "take (length ?D) io1 = ?D"
    using del_ies_at [OF old(2), of "[]" fl io] olen new(3) by auto
  obtain io2 buf2 where add: "(if ?n \<noteq> 0 then add_ies fl (if ts = [] then [] else ?B) es (int (length buf)) io1 (length ?D) buf 0
        else Some (io1, length ?D, buf, 0)) = Some (io2, length ?D + length ?A, buf2, ?n)"
    "length io2 = 2048" "take (length ?D + length ?A) io2 = ?D @ ?A" "length buf2 = 512" "take ?n buf2 = tlvs_bytes want"
  proof (cases "want = []")
    case True
    then show ?thesis using that [of io1 buf] io1 buf by simp
  next
    case False
    then have "ts \<noteq> []" using assms(5) by auto
    have "\<exists>buf' saved'. add_ies fl ?B es (int (length buf)) io1 (length ?D) buf (length ([] :: u8 list))
      = Some (buf', length ?D + length ?A, saved', length ([] :: u8 list) + ?n) \<and>
      take (length ?D + length ?A) buf' = ?D @ ?A \<and> length buf' = length io1 \<and>
      length saved' = length buf \<and> take (length ([] :: u8 list) + ?n) saved' = [] @ tlvs_bytes want"
      by (rule add_ies_at) (use new(2) io1 olen buf n512 in auto)
    then show ?thesis using that False \<open>ts \<noteq> []\<close> io1(2) buf by auto
  qed
  have bigB: "\<not> length buf < unat (of_nat (length ?B) :: u32)" using lenB assms(4) buf by simp
  let ?s' = "(buf2, of_nat ?n)"
  have s'ok: "saved_ok ?s' want"
  proof -
    have "unat (of_nat ?n :: u32) = ?n" using n512(1) by (simp add: unat_of_nat take_bit_nat_eq_self)
    moreover have "length want \<le> 5" using assms(5) by simp
    ultimately show ?thesis using add(4,5) wok unfolding saved_ok_def fst_conv snd_conv by blast
  qed
  have cmd: "read_bytes io2 0 (length ?D + length ?A) = Some (?D @ ?A)" using add(2,3) olen by (simp add: read_bytes_def)
  have zero: "length ?D + length ?A = 0 \<longleftrightarrow> want = [] \<and> olds = []" by (auto simp: length_vndr_cmds)
  have run: "brcmf_vif_set_mgmt_ie w True (Some vif) fl (Some ?B) (of_nat (length ?B)) f =
      (if want = olds \<and> want \<noteq> [] then Some (0, Some vif, f)
       else if length ?D + length ?A \<noteq> 0 then do {
         cmd \<leftarrow> read_bytes io2 0 (length ?D + length ?A);
         (err, f) \<leftarrow> fil_put w (vif_ifp (save_ie fl ?s' vif)) (BSSCFG ''vndr_ie'') (Some cmd) f;
         Some (err, Some (save_ie fl ?s' vif), f) }
       else Some (0, Some (save_ie fl ?s' vif), f))"
    unfolding brcmf_vif_set_mgmt_ie_def option.case if_not_P [OF bigB] Let_def assms(1) s prod.case not_True_eq_False if_False new(1)
      bind.simps(2) same old(1) io1(1) add(1) by (rule refl)
  have "brcmf_vif_set_mgmt_ie w True (Some vif) fl (Some ?B) (of_nat (length ?B)) f =
      (if want = olds \<and> want \<noteq> [] then Some (0, Some vif, f)
       else if want = [] \<and> olds = [] then Some (0, Some (save_ie fl ?s' vif), f)
       else do {
         (err, f) \<leftarrow> fil_put w (vif_ifp (save_ie fl ?s' vif)) (BSSCFG ''vndr_ie'') (Some (?D @ ?A)) f;
         Some (err, Some (save_ie fl ?s' vif), f) })"
    unfolding run cmd bind.simps(2) zero by (simp only: if_not_P if_P if_False if_True split: if_split) blast
  moreover have "vif_ifp (save_ie fl ?s' vif) = vif_ifp vif" by (simp add: save_ie_def)
  ultimately have "brcmf_vif_set_mgmt_ie w True (Some vif) fl (Some ?B) (of_nat (length ?B)) f =
      (if want = olds \<and> want \<noteq> [] then Some (0, Some vif, f)
       else if want = [] \<and> olds = [] then Some (0, Some (save_ie fl ?s' vif), f)
       else do {
         (err, f) \<leftarrow> fil_put w (vif_ifp vif) (BSSCFG ''vndr_ie'') (Some (?D @ ?A)) f;
         Some (err, Some (save_ie fl ?s' vif), f) })" by (simp only:)
  then show ?thesis using s'ok by blast
qed

text \<open>C29: Handing the vendor elements of a management frame to the firmware. For a well-formed string the driver
  takes the first five elements that are vendor elements other than WPA and WME. If they are the saved
  ones nothing is sent. Otherwise one request deletes exactly the saved elements and adds exactly the
  new ones, in order, and these are what is saved afterwards, so that the next call again starts from what the
  firmware has been given.\<close>

theorem set_mgmt_ie_exact:
  assumes "saved_ie fl vif = Some s" and "saved_ok s olds" and "\<forall>e\<in>set ts. tlv_ok e" and "length (tlvs_bytes ts) \<le> 512"
    and "want = take 5 (filter vndr_ok ts)" and "length (vndr_cmds fl ''add'' want) \<le> 512"
  shows "\<exists>s'. saved_ok s' want \<and>
    brcmf_vif_set_mgmt_ie w True (Some vif) fl (Some (tlvs_bytes ts)) (of_nat (length (tlvs_bytes ts))) f =
      (if want = olds \<and> want \<noteq> [] then Some (0, Some vif, f)
       else if want = [] \<and> olds = [] then Some (0, Some (save_ie fl s' vif), f)
       else do {
         (err, f) \<leftarrow> fil_put w (vif_ifp vif) (BSSCFG ''vndr_ie'') (Some (vndr_cmds fl ''del'' olds @ vndr_cmds fl ''add'' want)) f;
         Some (err, Some (save_ie fl s' vif), f) })"
  by (rule set_mgmt_ie_run [OF assms])

definition wit_vif :: brcmf_cfg80211_vif where
  "wit_vif = \<lparr>vif_ifp = wit_if, iftype = IFTYPE_AP,
     profile = \<lparr>prof_bssid = [], sec_wpa_versions = 0, sec_auth_type = 0, sec_cipher_pairwise = 0, sec_cipher_group = 0,
       prof_key = [], use_fwsup = FWSUP_NONE, use_fwauth = 0, is_ft = False, is_okc = False\<rparr>,
     sme_state = {}, probe_req_ie = (replicate 512 0, 0), probe_res_ie = (replicate 512 0, 0),
     beacon_ie = ([221, 5, 1, 2, 3, 4, 5] @ replicate 505 0, 7), assoc_req_ie = (replicate 512 0, 0),
     assoc_res_ie = (replicate 512 0, 0), mgmt_rx_reg = 0, mbss = False, is_11d = 0, cqm_rssi_low = 0,
     cqm_rssi_high = 0, cqm_rssi_last = 0\<rparr>"

theorem set_mgmt_ie_exact_witness:
  "\<exists>v'. brcmf_vif_set_mgmt_ie (rec_fil (\<lambda>_ b. b) (\<lambda>_. False)) True (Some wit_vif) 1 (Some (tlvs_bytes wit_ies)) 26 [] =
     Some (0, v', [(0, BSSCFG ''vndr_ie'', Some (vndr_cmds 1 ''del'' [(221, [1, 2, 3, 4, 5])] @
        vndr_cmds 1 ''add'' [(221, [0x50, 0x6F, 0x9A, 9, 1, 2])]))])"
proof -
  have old: "saved_ie 1 wit_vif = Some ([221, 5, 1, 2, 3, 4, 5] @ replicate 505 0, 7)" by (simp add: saved_ie_def wit_vif_def)
  have sok: "saved_ok ([221, 5, 1, 2, 3, 4, 5] @ replicate 505 0, 7) [(221, [1, 2, 3, 4, 5])]"
    by (simp add: saved_ok_def tlv_bytes_def tlv_ok_def vndr_ok_def WPA_OUI_def)
  have want: "[(221, [0x50, 0x6F, 0x9A, 9, 1, 2])] = take 5 (filter vndr_ok wit_ies)"
    by (simp add: wit_ies_def vndr_ok_def WPA_OUI_def)
  have st: "\<forall>e\<in>set wit_ies. tlv_ok e" "length (tlvs_bytes wit_ies) = 26" by (simp_all add: wit_ies_def tlv_ok_def)
  have add: "length (vndr_cmds 1 ''add'' [(221, [0x50, 0x6F, 0x9A, 9, 1, 2])]) \<le> 512" by (simp add: vndr_cmd_def)
  have idx: "unat (bsscfgidx (vif_ifp wit_vif)) = 0" by (simp add: wit_vif_def wit_if_def)
  have le: "length (tlvs_bytes wit_ies) \<le> 512" using st(2) by simp
  show ?thesis
    using set_mgmt_ie_exact [OF old sok st(1) le want add, of "rec_fil (\<lambda>_ b. b) (\<lambda>_. False)" "[]"]
    unfolding st(2) by (auto simp: idx simp del: vndr_cmds_simps)
qed

end
