(* ===== verification/BtCoex.thy ===== *)
theory BtCoex
  imports Fil
begin

text \<open>
  Bluetooth coexistence (\<open>btcoex.c\<close>): while an interface gets its address with DHCP and a Bluetooth voice link is
  active, the driver changes coexistence registers of the firmware in two steps and restores them afterwards. A
  timer and a work item drive the state machine. A virtual interface is a number; what the kernel is told
  (\<open>cfg80211_crit_proto_stopped\<close>) is recorded.
\<close>

section \<open>State\<close>

datatype brcmf_btcoex_state = BT_DHCP_IDLE | BT_DHCP_START | BT_DHCP_OPPR_WIN | BT_DHCP_FLAG_FORCE_TIMEOUT

datatype brcmf_btcoex_mode = BTCOEX_DISABLED | BTCOEX_ENABLED

record brcmf_btcoex_info =
  bt_vif :: "nat option"
  timer_expires :: nat
  timer_pending :: bool
  bt_timeout :: u16
  timer_on :: bool
  dhcp_done :: bool
  bt_state :: brcmf_btcoex_state
  work_pending :: bool
  reg66 :: u32
  reg41 :: u32
  reg68 :: u32
  saved_regs_part1 :: bool
  reg50 :: u32
  reg51 :: u32
  reg64 :: u32
  reg65 :: u32
  reg71 :: u32
  saved_regs_part2 :: bool
  crit_stopped :: "nat list"

text \<open>The interface of each virtual interface, that of index 0, and the kernel's conversion to jiffies.\<close>

record btc_env =
  bt_if :: "nat \<Rightarrow> fil_if"
  bt_if0 :: fil_if
  msecs_to_jiffies :: "nat \<Rightarrow> nat"

definition BRCMF_BTCOEX_OPPR_WIN_TIME :: "btc_env \<Rightarrow> nat" where
  "BRCMF_BTCOEX_OPPR_WIN_TIME e = msecs_to_jiffies e 2000"

definition mod_timer :: "nat \<Rightarrow> brcmf_btcoex_info \<Rightarrow> brcmf_btcoex_info" where
  "mod_timer t b = b\<lparr>timer_expires := t, timer_pending := True\<rparr>"

section \<open>Registers\<close>

definition brcmf_btcoex_params_write :: "'f fil \<Rightarrow> fil_if \<Rightarrow> u32 \<Rightarrow> u32 \<Rightarrow> 'f \<Rightarrow> (int \<times> 'f) option" where
  "brcmf_btcoex_params_write w ifp addr data f = fil_put w ifp (IOVAR ''btc_params'') (Some (le32 addr @ le32 data)) f"

text \<open>The word returned is the address when the firmware does not answer.\<close>

definition brcmf_btcoex_params_read :: "'f fil \<Rightarrow> fil_if \<Rightarrow> u32 \<Rightarrow> 'f \<Rightarrow> (int \<times> u32 \<times> 'f) option" where
  "brcmf_btcoex_params_read w ifp addr f = ask_int w ifp (IOVAR ''btc_params'') addr f"

text \<open>Writes whose results are not looked at.\<close>

fun params_write_all :: "'f fil \<Rightarrow> fil_if \<Rightarrow> (u32 \<times> u32) list \<Rightarrow> 'f \<Rightarrow> 'f option" where
  "params_write_all w ifp [] f = Some f"
| "params_write_all w ifp ((a, d) # rs) f = do {
     (_, f) \<leftarrow> brcmf_btcoex_params_write w ifp a d f; params_write_all w ifp rs f }"

definition brcmf_btcoex_boost_wifi ::
  "'f fil \<Rightarrow> btc_env \<Rightarrow> bool \<Rightarrow> brcmf_btcoex_info \<Rightarrow> 'f \<Rightarrow> (brcmf_btcoex_info \<times> 'f) option" where
  "brcmf_btcoex_boost_wifi w e trump_sco b f = (let ifp = bt_if0 e in
     if trump_sco \<and> \<not> saved_regs_part2 b then do {
       (_, r50, f) \<leftarrow> brcmf_btcoex_params_read w ifp 50 f;
       (_, r51, f) \<leftarrow> brcmf_btcoex_params_read w ifp 51 f;
       (_, r64, f) \<leftarrow> brcmf_btcoex_params_read w ifp 64 f;
       (_, r65, f) \<leftarrow> brcmf_btcoex_params_read w ifp 65 f;
       (_, r71, f) \<leftarrow> brcmf_btcoex_params_read w ifp 71 f;
       let b = b\<lparr>reg50 := r50, reg51 := r51, reg64 := r64, reg65 := r65, reg71 := r71, saved_regs_part2 := True\<rparr>;
       f \<leftarrow> params_write_all w ifp [(50, 0x8022), (51, 0), (64, 0), (65, 0), (71, 0)] f;
       Some (b, f) }
     else if saved_regs_part2 b then do {
       f \<leftarrow> params_write_all w ifp [(50, reg50 b), (51, reg51 b), (64, reg64 b), (65, reg65 b), (71, reg71 b)] f;
       Some (b\<lparr>saved_regs_part2 := False\<rparr>, f) }
     else Some (b, f))"

text \<open>At most twelve samples of register 27; three that show a voice link are enough.\<close>

fun sco_samples :: "'f fil \<Rightarrow> fil_if \<Rightarrow> nat \<Rightarrow> nat \<Rightarrow> 'f \<Rightarrow> (bool \<times> 'f) option" where
  "sco_samples w ifp 0 cnt f = Some (False, f)"
| "sco_samples w ifp (Suc n) cnt f = do {
     (err, param27, f) \<leftarrow> brcmf_btcoex_params_read w ifp 27 f;
     if err < 0 then Some (False, f)
     else let cnt = (if param27 AND 6 = 2 then cnt + 1 else cnt) in
       if 2 < cnt then Some (True, f) else sco_samples w ifp n cnt f }"

definition brcmf_btcoex_is_sco_active :: "'f fil \<Rightarrow> fil_if \<Rightarrow> 'f \<Rightarrow> (bool \<times> 'f) option" where
  "brcmf_btcoex_is_sco_active w ifp f = sco_samples w ifp 12 0 f"

definition btcmf_btcoex_save_part1 ::
  "'f fil \<Rightarrow> btc_env \<Rightarrow> brcmf_btcoex_info \<Rightarrow> 'f \<Rightarrow> (brcmf_btcoex_info \<times> 'f) option" where
  "btcmf_btcoex_save_part1 w e b f = do {
     v \<leftarrow> bt_vif b;
     if \<not> saved_regs_part1 b then do {
       (_, r66, f) \<leftarrow> brcmf_btcoex_params_read w (bt_if e v) 66 f;
       (_, r41, f) \<leftarrow> brcmf_btcoex_params_read w (bt_if e v) 41 f;
       (_, r68, f) \<leftarrow> brcmf_btcoex_params_read w (bt_if e v) 68 f;
       Some (b\<lparr>reg66 := r66, reg41 := r41, reg68 := r68, saved_regs_part1 := True\<rparr>, f) }
     else Some (b, f) }"

definition brcmf_btcoex_restore_part1 ::
  "'f fil \<Rightarrow> btc_env \<Rightarrow> brcmf_btcoex_info \<Rightarrow> 'f \<Rightarrow> (brcmf_btcoex_info \<times> 'f) option" where
  "brcmf_btcoex_restore_part1 w e b f = (
     if saved_regs_part1 b then do {
       v \<leftarrow> bt_vif b;
       f \<leftarrow> params_write_all w (bt_if e v) [(66, reg66 b), (41, reg41 b), (68, reg68 b)] f;
       Some (b\<lparr>saved_regs_part1 := False\<rparr>, f) }
     else Some (b, f))"

section \<open>The state machine\<close>

definition brcmf_btcoex_timerfunc :: "brcmf_btcoex_info \<Rightarrow> brcmf_btcoex_info" where
  "brcmf_btcoex_timerfunc b = b\<lparr>timer_on := False, work_pending := True\<rparr>"

text \<open>The common end of the handler; the kernel is told about the interface, so there must be one.\<close>

definition btcoex_idle :: "'f fil \<Rightarrow> btc_env \<Rightarrow> brcmf_btcoex_info \<Rightarrow> 'f \<Rightarrow> (brcmf_btcoex_info \<times> 'f) option" where
  "btcoex_idle w e b f = do {
     (b, f) \<leftarrow> brcmf_btcoex_boost_wifi w e False (b\<lparr>bt_state := BT_DHCP_IDLE, timer_on := False\<rparr>) f;
     v \<leftarrow> bt_vif b;
     (b, f) \<leftarrow> brcmf_btcoex_restore_part1 w e (b\<lparr>crit_stopped := crit_stopped b @ [v]\<rparr>) f;
     Some (b\<lparr>bt_vif := None\<rparr>, f) }"

definition brcmf_btcoex_handler ::
  "'f fil \<Rightarrow> btc_env \<Rightarrow> nat \<Rightarrow> brcmf_btcoex_info \<Rightarrow> 'f \<Rightarrow> (brcmf_btcoex_info \<times> 'f) option" where
  "brcmf_btcoex_handler w e jiffies b f = (
     let b = (if timer_on b then b\<lparr>timer_on := False, timer_pending := False\<rparr> else b);
         win = BRCMF_BTCOEX_OPPR_WIN_TIME e in
     case bt_state b of
       BT_DHCP_START \<Rightarrow>
         (let b = b\<lparr>bt_state := BT_DHCP_OPPR_WIN\<rparr>;
              b = (if unat (bt_timeout b) < win then mod_timer (timer_expires b) b
                   else mod_timer (jiffies + win) (b\<lparr>bt_timeout := bt_timeout b - of_nat win\<rparr>))
          in Some (b\<lparr>timer_on := True\<rparr>, f))
     | BT_DHCP_OPPR_WIN \<Rightarrow>
         (if dhcp_done b then btcoex_idle w e b f
          else do {
            (b, f) \<leftarrow> brcmf_btcoex_boost_wifi w e True b f;
            let b = mod_timer (jiffies + unat (bt_timeout b)) (b\<lparr>bt_state := BT_DHCP_FLAG_FORCE_TIMEOUT\<rparr>);
            Some (b\<lparr>timer_on := True\<rparr>, f) })
     | BT_DHCP_FLAG_FORCE_TIMEOUT \<Rightarrow> btcoex_idle w e b f
     | BT_DHCP_IDLE \<Rightarrow> btcoex_idle w e b f)"

text \<open>The memory is not cleared: the fields not set have arbitrary contents.\<close>

definition brcmf_btcoex_attach :: "btc_env \<Rightarrow> brcmf_btcoex_info option \<Rightarrow> int \<times> brcmf_btcoex_info option" where
  "brcmf_btcoex_attach e mem = (case mem of
     None \<Rightarrow> (- 12, None)
   | Some b \<Rightarrow> (0, Some (b\<lparr>bt_state := BT_DHCP_IDLE, timer_on := False,
       bt_timeout := of_nat (BRCMF_BTCOEX_OPPR_WIN_TIME e), timer_pending := False,
       saved_regs_part1 := False, saved_regs_part2 := False, work_pending := False\<rparr>)))"

definition brcmf_btcoex_detach ::
  "'f fil \<Rightarrow> btc_env \<Rightarrow> brcmf_btcoex_info option \<Rightarrow> 'f \<Rightarrow> (brcmf_btcoex_info option \<times> 'f) option" where
  "brcmf_btcoex_detach w e btcoex f = (case btcoex of
     None \<Rightarrow> Some (None, f)
   | Some b \<Rightarrow> do {
       (b, f) \<leftarrow> brcmf_btcoex_boost_wifi w e False (b\<lparr>timer_pending := False, timer_on := False, work_pending := False\<rparr>) f;
       (_, f) \<leftarrow> brcmf_btcoex_restore_part1 w e b f;
       Some (None, f) })"

definition brcmf_btcoex_dhcp_start ::
  "'f fil \<Rightarrow> btc_env \<Rightarrow> brcmf_btcoex_info \<Rightarrow> 'f \<Rightarrow> (brcmf_btcoex_info \<times> 'f) option" where
  "brcmf_btcoex_dhcp_start w e b f = do {
     v \<leftarrow> bt_vif b;
     (b, f) \<leftarrow> btcmf_btcoex_save_part1 w e b f;
     f \<leftarrow> params_write_all w (bt_if e v) [(66, 0x2710), (41, 0x33), (68, 0x190)] f;
     Some (b\<lparr>dhcp_done := False, bt_state := BT_DHCP_START, work_pending := True\<rparr>, f) }"

definition brcmf_btcoex_dhcp_end ::
  "'f fil \<Rightarrow> btc_env \<Rightarrow> brcmf_btcoex_info \<Rightarrow> 'f \<Rightarrow> (brcmf_btcoex_info \<times> 'f) option" where
  "brcmf_btcoex_dhcp_end w e b f = (let b = b\<lparr>dhcp_done := True\<rparr> in
     if timer_on b then
       (let b = b\<lparr>timer_on := False, timer_pending := False\<rparr> in
        Some (if bt_state b \<noteq> BT_DHCP_IDLE then b\<lparr>work_pending := True\<rparr> else b, f))
     else brcmf_btcoex_restore_part1 w e b f)"

definition brcmf_btcoex_set_mode ::
  "'f fil \<Rightarrow> btc_env \<Rightarrow> nat \<Rightarrow> brcmf_btcoex_mode \<Rightarrow> u16 \<Rightarrow> brcmf_btcoex_info \<Rightarrow> 'f \<Rightarrow> (int \<times> brcmf_btcoex_info \<times> 'f) option" where
  "brcmf_btcoex_set_mode w e vif mode duration b f = (case mode of
     BTCOEX_DISABLED \<Rightarrow>
       if bt_state b \<noteq> BT_DHCP_IDLE then Some (- 16, b, f)
       else do {
         (sco, f) \<leftarrow> brcmf_btcoex_is_sco_active w (bt_if0 e) f;
         if sco then do {
           (b, f) \<leftarrow> brcmf_btcoex_dhcp_start w e
             (b\<lparr>bt_timeout := of_nat (msecs_to_jiffies e (unat duration)), bt_vif := Some vif\<rparr>) f;
           Some (0, b, f) }
         else Some (0, b, f) }
   | BTCOEX_ENABLED \<Rightarrow>
       if bt_state b \<noteq> BT_DHCP_IDLE \<and> bt_vif b = Some vif then do {
         (b, f) \<leftarrow> brcmf_btcoex_dhcp_end w e b f; Some (0, b, f) }
       else Some (0, b, f))"

text \<open>What may happen next: a request, the timer, the work item.\<close>

inductive bt_step :: "'f fil \<Rightarrow> btc_env \<Rightarrow> brcmf_btcoex_info \<times> 'f \<Rightarrow> brcmf_btcoex_info \<times> 'f \<Rightarrow> bool" for w e where
  mode: "brcmf_btcoex_set_mode w e vif m duration b f = Some (err, b', f') \<Longrightarrow> bt_step w e (b, f) (b', f')"
| timer: "timer_pending b \<Longrightarrow> bt_step w e (b, f) (brcmf_btcoex_timerfunc (b\<lparr>timer_pending := False\<rparr>), f)"
| work: "work_pending b \<Longrightarrow> brcmf_btcoex_handler w e jiffies (b\<lparr>work_pending := False\<rparr>) f = Some (b', f')
    \<Longrightarrow> bt_step w e (b, f) (b', f')"

inductive_cases bt_stepE: "bt_step w e (b, f) (b', f')"

section \<open>What the firmware promises\<close>

text \<open>\<open>btc_params\<close> is a file of registers: reading gives the last value written.\<close>

definition btc_registers :: "'f fil \<Rightarrow> ('f \<Rightarrow> u32 \<Rightarrow> u32) \<Rightarrow> bool" where
  "btc_registers w regs \<longleftrightarrow>
     (\<forall>ifp a f. \<exists>f'. ask_int w ifp (IOVAR ''btc_params'') a f = Some (0, regs f a, f') \<and> regs f' = regs f) \<and>
     (\<forall>ifp a d f. \<exists>f'. fil_put w ifp (IOVAR ''btc_params'') (Some (le32 a @ le32 d)) f = Some (0, f') \<and>
        regs f' = (regs f)(a := d))"

lemma btc_read: "btc_registers w regs \<Longrightarrow> \<exists>f'. brcmf_btcoex_params_read w ifp a f = Some (0, regs f a, f') \<and> regs f' = regs f"
  by (simp add: btc_registers_def brcmf_btcoex_params_read_def)

lemma btc_write_all:
  "btc_registers w regs \<Longrightarrow> \<exists>f'. params_write_all w ifp rs f = Some f' \<and> regs f' = fold (\<lambda>(a, d) r. r(a := d)) rs (regs f)"
proof (induction rs arbitrary: f)
  case (Cons r rs)
  obtain a d where r: "r = (a, d)" by (cases r)
  obtain f1 where f1: "brcmf_btcoex_params_write w ifp a d f = Some (0, f1)" "regs f1 = (regs f)(a := d)"
    using Cons.prems unfolding btc_registers_def brcmf_btcoex_params_write_def by metis
  show ?case using Cons.IH [OF Cons.prems, of f1] f1 by (simp add: r)
qed simp

lemma btc_sco: "btc_registers w regs \<Longrightarrow> \<exists>s f'. sco_samples w ifp n cnt f = Some (s, f') \<and> regs f' = regs f"
proof (induction n arbitrary: cnt f)
  case (Suc n)
  obtain f1 where f1: "brcmf_btcoex_params_read w ifp 27 f = Some (0, regs f 27, f1)" "regs f1 = regs f"
    using btc_read [OF Suc.prems] by metis
  show ?case using Suc.IH [OF Suc.prems, of _ f1] f1 by (auto simp: Let_def)
next
  case 0
  show ?case by (intro exI [of _ False] exI [of _ f]) simp
qed

text \<open>The registers as the state says they are.\<close>

definition bt_regs :: "brcmf_btcoex_info \<Rightarrow> (u32 \<Rightarrow> u32) \<Rightarrow> u32 \<Rightarrow> u32" where
  "bt_regs b r0 = (let r = (if saved_regs_part1 b then r0(66 := 0x2710, 41 := 0x33, 68 := 0x190) else r0) in
     if saved_regs_part2 b then r(50 := 0x8022, 51 := 0, 64 := 0, 65 := 0, 71 := 0) else r)"

definition bt_inv :: "(u32 \<Rightarrow> u32) \<Rightarrow> brcmf_btcoex_info \<Rightarrow> (u32 \<Rightarrow> u32) \<Rightarrow> bool" where
  "bt_inv r0 b r \<longleftrightarrow> r = bt_regs b r0 \<and>
     (saved_regs_part1 b \<longrightarrow> reg66 b = r0 66 \<and> reg41 b = r0 41 \<and> reg68 b = r0 68) \<and>
     (saved_regs_part2 b \<longrightarrow> reg50 b = r0 50 \<and> reg51 b = r0 51 \<and> reg64 b = r0 64 \<and> reg65 b = r0 65 \<and> reg71 b = r0 71) \<and>
     (saved_regs_part2 b \<longleftrightarrow> bt_state b = BT_DHCP_FLAG_FORCE_TIMEOUT) \<and>
     timer_on b = timer_pending b \<and> \<not> (timer_pending b \<and> work_pending b) \<and>
     (timer_pending b \<or> work_pending b \<longleftrightarrow> bt_state b \<noteq> BT_DHCP_IDLE) \<and>
     (bt_state b = BT_DHCP_START \<longrightarrow> work_pending b) \<and>
     (bt_state b = BT_DHCP_IDLE \<longrightarrow> \<not> saved_regs_part1 b) \<and>
     (bt_state b \<noteq> BT_DHCP_IDLE \<longrightarrow> bt_vif b \<noteq> None \<and> (saved_regs_part1 b \<or> dhcp_done b))"

text \<open>How many of the pending events are still to come.\<close>

definition bt_rank :: "brcmf_btcoex_info \<Rightarrow> nat" where
  "bt_rank b = (case bt_state b of BT_DHCP_IDLE \<Rightarrow> 0 | BT_DHCP_START \<Rightarrow> 5
     | BT_DHCP_OPPR_WIN \<Rightarrow> (if work_pending b then 3 else 4)
     | BT_DHCP_FLAG_FORCE_TIMEOUT \<Rightarrow> (if work_pending b then 1 else 2))"

text \<open>The pending event, and a number of them; nothing is left to do when none is pending.\<close>

definition bt_event :: "'f fil \<Rightarrow> btc_env \<Rightarrow> nat \<Rightarrow> brcmf_btcoex_info \<times> 'f \<Rightarrow> (brcmf_btcoex_info \<times> 'f) option" where
  "bt_event w e jiffies s = (let (b, f) = s in
     if work_pending b then brcmf_btcoex_handler w e jiffies (b\<lparr>work_pending := False\<rparr>) f
     else if timer_pending b then Some (brcmf_btcoex_timerfunc (b\<lparr>timer_pending := False\<rparr>), f)
     else Some (b, f))"

fun bt_events :: "'f fil \<Rightarrow> btc_env \<Rightarrow> nat list \<Rightarrow> brcmf_btcoex_info \<times> 'f \<Rightarrow> (brcmf_btcoex_info \<times> 'f) option" where
  "bt_events w e [] s = Some s"
| "bt_events w e (t # ts) s = do { s \<leftarrow> bt_event w e t s; bt_events w e ts s }"


section \<open>Every operation keeps the invariant\<close>

lemma boost_true:
  assumes "btc_registers w regs" and "\<not> saved_regs_part2 b"
  shows "\<exists>f'. brcmf_btcoex_boost_wifi w e True b f = Some (b\<lparr>reg50 := regs f 50, reg51 := regs f 51, reg64 := regs f 64,
      reg65 := regs f 65, reg71 := regs f 71, saved_regs_part2 := True\<rparr>, f') \<and>
    regs f' = (regs f)(50 := 0x8022, 51 := 0, 64 := 0, 65 := 0, 71 := 0)"
proof -
  note rd = btc_read [OF assms(1)]
  obtain f1 where 1: "brcmf_btcoex_params_read w (bt_if0 e) 50 f = Some (0, regs f 50, f1)" "regs f1 = regs f" using rd by metis
  obtain f2 where 2: "brcmf_btcoex_params_read w (bt_if0 e) 51 f1 = Some (0, regs f 51, f2)" "regs f2 = regs f" using rd 1(2) by metis
  obtain f3 where 3: "brcmf_btcoex_params_read w (bt_if0 e) 64 f2 = Some (0, regs f 64, f3)" "regs f3 = regs f" using rd 2(2) by metis
  obtain f4 where 4: "brcmf_btcoex_params_read w (bt_if0 e) 65 f3 = Some (0, regs f 65, f4)" "regs f4 = regs f" using rd 3(2) by metis
  obtain f5 where 5: "brcmf_btcoex_params_read w (bt_if0 e) 71 f4 = Some (0, regs f 71, f5)" "regs f5 = regs f" using rd 4(2) by metis
  obtain f6 where 6: "params_write_all w (bt_if0 e) [(50, 0x8022), (51, 0), (64, 0), (65, 0), (71, 0)] f5 = Some f6"
      "regs f6 = (regs f)(50 := 0x8022, 51 := 0, 64 := 0, 65 := 0, 71 := 0)"
    using btc_write_all [OF assms(1), of "bt_if0 e" "[(50, 0x8022), (51, 0), (64, 0), (65, 0), (71, 0)]" f5] 5(2)
    by (auto simp del: params_write_all.simps)
  show ?thesis
    by (rule exI [of _ f6]) (simp add: brcmf_btcoex_boost_wifi_def Let_def assms(2) 1 2 3 4 5 6 del: params_write_all.simps)
qed

lemma boost_false:
  assumes "btc_registers w regs"
  shows "\<exists>f'. brcmf_btcoex_boost_wifi w e False b f = Some (b\<lparr>saved_regs_part2 := False\<rparr>, f') \<and>
    regs f' = (if saved_regs_part2 b then (regs f)(50 := reg50 b, 51 := reg51 b, 64 := reg64 b, 65 := reg65 b, 71 := reg71 b)
      else regs f)"
proof (cases "saved_regs_part2 b")
  case True
  obtain f' where "params_write_all w (bt_if0 e) [(50, reg50 b), (51, reg51 b), (64, reg64 b), (65, reg65 b), (71, reg71 b)] f = Some f'"
      "regs f' = (regs f)(50 := reg50 b, 51 := reg51 b, 64 := reg64 b, 65 := reg65 b, 71 := reg71 b)"
    using btc_write_all [OF assms, of "bt_if0 e" "[(50, reg50 b), (51, reg51 b), (64, reg64 b), (65, reg65 b), (71, reg71 b)]" f]
    by (auto simp del: params_write_all.simps)
  then show ?thesis using True by (simp add: brcmf_btcoex_boost_wifi_def Let_def del: params_write_all.simps)
qed (simp add: brcmf_btcoex_boost_wifi_def Let_def)

lemma restore_part1:
  assumes "btc_registers w regs" and "saved_regs_part1 b \<longrightarrow> bt_vif b \<noteq> None"
  shows "\<exists>f'. brcmf_btcoex_restore_part1 w e b f = Some (b\<lparr>saved_regs_part1 := False\<rparr>, f') \<and>
    regs f' = (if saved_regs_part1 b then (regs f)(66 := reg66 b, 41 := reg41 b, 68 := reg68 b) else regs f)"
proof (cases "saved_regs_part1 b")
  case True
  then obtain v where v: "bt_vif b = Some v" using assms(2) by auto
  obtain f' where "params_write_all w (bt_if e v) [(66, reg66 b), (41, reg41 b), (68, reg68 b)] f = Some f'"
      "regs f' = (regs f)(66 := reg66 b, 41 := reg41 b, 68 := reg68 b)"
    using btc_write_all [OF assms(1), of "bt_if e v" "[(66, reg66 b), (41, reg41 b), (68, reg68 b)]" f]
    by (auto simp del: params_write_all.simps)
  then show ?thesis using True v by (simp add: brcmf_btcoex_restore_part1_def del: params_write_all.simps)
qed (simp add: brcmf_btcoex_restore_part1_def)

lemma dhcp_start:
  assumes "btc_registers w regs" and "bt_vif b = Some v" and "\<not> saved_regs_part1 b"
  shows "\<exists>f'. brcmf_btcoex_dhcp_start w e b f = Some (b\<lparr>reg66 := regs f 66, reg41 := regs f 41, reg68 := regs f 68,
      saved_regs_part1 := True, dhcp_done := False, bt_state := BT_DHCP_START, work_pending := True\<rparr>, f') \<and>
    regs f' = (regs f)(66 := 0x2710, 41 := 0x33, 68 := 0x190)"
proof -
  note rd = btc_read [OF assms(1)]
  obtain f1 where 1: "brcmf_btcoex_params_read w (bt_if e v) 66 f = Some (0, regs f 66, f1)" "regs f1 = regs f" using rd by metis
  obtain f2 where 2: "brcmf_btcoex_params_read w (bt_if e v) 41 f1 = Some (0, regs f 41, f2)" "regs f2 = regs f" using rd 1(2) by metis
  obtain f3 where 3: "brcmf_btcoex_params_read w (bt_if e v) 68 f2 = Some (0, regs f 68, f3)" "regs f3 = regs f" using rd 2(2) by metis
  obtain f4 where 4: "params_write_all w (bt_if e v) [(66, 0x2710), (41, 0x33), (68, 0x190)] f3 = Some f4"
      "regs f4 = (regs f)(66 := 0x2710, 41 := 0x33, 68 := 0x190)"
    using btc_write_all [OF assms(1), of "bt_if e v" "[(66, 0x2710), (41, 0x33), (68, 0x190)]" f3] 3(2)
    by (auto simp del: params_write_all.simps)
  show ?thesis
    by (rule exI [of _ f4]) (simp add: brcmf_btcoex_dhcp_start_def btcmf_btcoex_save_part1_def assms 1 2 3 4 del: params_write_all.simps)
qed

text \<open>Restoring both parts gives the registers back.\<close>

lemma restored:
  fixes r0 :: "u32 \<Rightarrow> u32"
  shows "r0(66 := a, 41 := b, 68 := c, 66 := r0 66, 41 := r0 41, 68 := r0 68) = r0"
    "r0(50 := d, 51 := g, 64 := h, 65 := i, 71 := j, 50 := r0 50, 51 := r0 51, 64 := r0 64, 65 := r0 65, 71 := r0 71) = r0"
    "r0(66 := a, 41 := b, 68 := c, 50 := d, 51 := g, 64 := h, 65 := i, 71 := j,
        50 := r0 50, 51 := r0 51, 64 := r0 64, 65 := r0 65, 71 := r0 71) = r0(66 := a, 41 := b, 68 := c)"
  by (rule ext, simp)+

lemma btcoex_idle_inv:
  assumes "btc_registers w regs" and "bt_regs b r0 = regs f" and "bt_vif b \<noteq> None"
    and "saved_regs_part1 b \<longrightarrow> reg66 b = r0 66 \<and> reg41 b = r0 41 \<and> reg68 b = r0 68"
    and "saved_regs_part2 b \<longrightarrow> reg50 b = r0 50 \<and> reg51 b = r0 51 \<and> reg64 b = r0 64 \<and> reg65 b = r0 65 \<and> reg71 b = r0 71"
  shows "\<exists>f'. btcoex_idle w e b f = Some (b\<lparr>bt_state := BT_DHCP_IDLE, timer_on := False, saved_regs_part2 := False,
      crit_stopped := crit_stopped b @ [the (bt_vif b)], saved_regs_part1 := False, bt_vif := None\<rparr>, f') \<and> regs f' = r0"
proof -
  obtain v where v: "bt_vif b = Some v" using assms(3) by auto
  let ?b1 = "b\<lparr>bt_state := BT_DHCP_IDLE, timer_on := False\<rparr>"
  let ?b2 = "?b1\<lparr>saved_regs_part2 := False, crit_stopped := crit_stopped b @ [v]\<rparr>"
  obtain f1 where f1: "brcmf_btcoex_boost_wifi w e False ?b1 f = Some (?b1\<lparr>saved_regs_part2 := False\<rparr>, f1)"
      "regs f1 = (if saved_regs_part2 b then (regs f)(50 := reg50 b, 51 := reg51 b, 64 := reg64 b, 65 := reg65 b, 71 := reg71 b)
        else regs f)"
    using boost_false [OF assms(1), of e ?b1 f] by auto
  obtain f2 where f2: "brcmf_btcoex_restore_part1 w e ?b2 f1 = Some (?b2\<lparr>saved_regs_part1 := False\<rparr>, f2)"
      "regs f2 = (if saved_regs_part1 b then (regs f1)(66 := reg66 b, 41 := reg41 b, 68 := reg68 b) else regs f1)"
    using restore_part1 [OF assms(1), of ?b2 e f1] v by auto
  have "regs f2 = r0"
    using assms(4,5) unfolding f2(2) f1(2) assms(2) [symmetric]
    by (cases "saved_regs_part1 b"; cases "saved_regs_part2 b") (simp_all only: bt_regs_def Let_def restored if_True if_False simp_thms)
  then show ?thesis using f1(1) f2(1) v by (intro exI [of _ f2]) (simp add: btcoex_idle_def)
qed

lemma bt_inv_handler:
  assumes "btc_registers w regs" and "bt_inv r0 b (regs f)" and "work_pending b"
  shows "\<exists>b' f'. brcmf_btcoex_handler w e jiffies (b\<lparr>work_pending := False\<rparr>) f = Some (b', f') \<and> bt_inv r0 b' (regs f') \<and>
    bt_rank b' < bt_rank b"
proof -
  have inv: "timer_on b = timer_pending b" "\<not> timer_pending b" "bt_state b \<noteq> BT_DHCP_IDLE" "bt_vif b \<noteq> None"
    using assms(2,3) by (auto simp: bt_inv_def)
  show ?thesis
  proof (cases "bt_state b")
    case BT_DHCP_IDLE
    then show ?thesis using inv by simp
  next
    case BT_DHCP_START
    then show ?thesis using assms(2) inv
      by (auto simp: brcmf_btcoex_handler_def bt_inv_def Let_def mod_timer_def bt_regs_def bt_rank_def)
  next
    case BT_DHCP_OPPR_WIN
    show ?thesis
    proof (cases "dhcp_done b")
      case True
      obtain f' where "btcoex_idle w e (b\<lparr>work_pending := False\<rparr>) f = Some (b\<lparr>work_pending := False, bt_state := BT_DHCP_IDLE,
          timer_on := False, saved_regs_part2 := False, crit_stopped := crit_stopped b @ [the (bt_vif b)],
          saved_regs_part1 := False, bt_vif := None\<rparr>, f')" "regs f' = r0"
        using btcoex_idle_inv [OF assms(1), of "b\<lparr>work_pending := False\<rparr>" r0 f e] assms(2) inv by (auto simp: bt_inv_def bt_regs_def)
      then show ?thesis using BT_DHCP_OPPR_WIN True inv
        using assms(3) by (auto simp: brcmf_btcoex_handler_def Let_def bt_inv_def bt_regs_def bt_rank_def)
    next
      case False
      have s: "\<not> saved_regs_part2 b" using assms(2) BT_DHCP_OPPR_WIN by (auto simp: bt_inv_def)
      obtain f' where f': "brcmf_btcoex_boost_wifi w e True (b\<lparr>work_pending := False\<rparr>) f = Some (b\<lparr>work_pending := False,
          reg50 := regs f 50, reg51 := regs f 51, reg64 := regs f 64, reg65 := regs f 65, reg71 := regs f 71,
          saved_regs_part2 := True\<rparr>, f')" "regs f' = (regs f)(50 := 0x8022, 51 := 0, 64 := 0, 65 := 0, 71 := 0)"
        using boost_true [OF assms(1), of "b\<lparr>work_pending := False\<rparr>" e f] s by auto
      then show ?thesis using BT_DHCP_OPPR_WIN False inv s assms(2)
        using assms(3) by (auto simp: brcmf_btcoex_handler_def Let_def bt_inv_def bt_regs_def mod_timer_def bt_rank_def)
    qed
  next
    case BT_DHCP_FLAG_FORCE_TIMEOUT
    obtain f' where "btcoex_idle w e (b\<lparr>work_pending := False\<rparr>) f = Some (b\<lparr>work_pending := False, bt_state := BT_DHCP_IDLE,
        timer_on := False, saved_regs_part2 := False, crit_stopped := crit_stopped b @ [the (bt_vif b)],
        saved_regs_part1 := False, bt_vif := None\<rparr>, f')" "regs f' = r0"
      using btcoex_idle_inv [OF assms(1), of "b\<lparr>work_pending := False\<rparr>" r0 f e] assms(2) inv by (auto simp: bt_inv_def bt_regs_def)
    then show ?thesis using BT_DHCP_FLAG_FORCE_TIMEOUT inv
      using assms(3) by (auto simp: brcmf_btcoex_handler_def Let_def bt_inv_def bt_regs_def bt_rank_def)
  qed
qed

lemma bt_inv_set_mode:
  assumes "btc_registers w regs" and "bt_inv r0 b (regs f)"
  shows "\<exists>err b' f'. brcmf_btcoex_set_mode w e vif m duration b f = Some (err, b', f') \<and> bt_inv r0 b' (regs f')"
proof (cases m)
  case BTCOEX_DISABLED
  obtain sco f1 where f1: "sco_samples w (bt_if0 e) 12 0 f = Some (sco, f1)" "regs f1 = regs f"
    using btc_sco [OF assms(1)] by metis
  show ?thesis
  proof (cases "bt_state b = BT_DHCP_IDLE \<and> sco")
    case True
    let ?b = "b\<lparr>bt_timeout := of_nat (msecs_to_jiffies e (unat duration)), bt_vif := Some vif\<rparr>"
    obtain f2 where "brcmf_btcoex_dhcp_start w e ?b f1 = Some (?b\<lparr>reg66 := regs f 66, reg41 := regs f 41,
        reg68 := regs f 68, saved_regs_part1 := True, dhcp_done := False, bt_state := BT_DHCP_START, work_pending := True\<rparr>, f2)"
        "regs f2 = (regs f)(66 := 0x2710, 41 := 0x33, 68 := 0x190)"
      using dhcp_start [OF assms(1), of ?b vif e f1] True assms(2) f1(2) by (auto simp: bt_inv_def)
    then show ?thesis using True BTCOEX_DISABLED f1 assms(2)
      by (auto simp: brcmf_btcoex_set_mode_def brcmf_btcoex_is_sco_active_def bt_inv_def bt_regs_def)
  next
    case False
    then show ?thesis using BTCOEX_DISABLED f1 assms(2)
      by (auto simp: brcmf_btcoex_set_mode_def brcmf_btcoex_is_sco_active_def)
  qed
next
  case BTCOEX_ENABLED
  show ?thesis
  proof (cases "bt_state b \<noteq> BT_DHCP_IDLE \<and> bt_vif b = Some vif \<and> \<not> timer_on b")
    case True
    obtain f2 where "brcmf_btcoex_restore_part1 w e (b\<lparr>dhcp_done := True\<rparr>) f = Some (b\<lparr>dhcp_done := True, saved_regs_part1 := False\<rparr>, f2)"
        "regs f2 = (if saved_regs_part1 b then (regs f)(66 := reg66 b, 41 := reg41 b, 68 := reg68 b) else regs f)"
      using restore_part1 [OF assms(1), of "b\<lparr>dhcp_done := True\<rparr>" e f] True by auto
    then show ?thesis using True BTCOEX_ENABLED assms(2)
      by (auto simp: brcmf_btcoex_set_mode_def brcmf_btcoex_dhcp_end_def bt_inv_def bt_regs_def fun_eq_iff Let_def split: if_splits)
  next
    case False
    then show ?thesis using BTCOEX_ENABLED assms(2)
      by (auto simp: brcmf_btcoex_set_mode_def brcmf_btcoex_dhcp_end_def bt_inv_def bt_regs_def Let_def)
  qed
qed

lemma bt_inv_timer:
  "bt_inv r0 b r \<Longrightarrow> timer_pending b \<Longrightarrow> bt_inv r0 (brcmf_btcoex_timerfunc (b\<lparr>timer_pending := False\<rparr>)) r \<and>
    bt_rank (brcmf_btcoex_timerfunc (b\<lparr>timer_pending := False\<rparr>)) < bt_rank b"
  by (auto simp: bt_inv_def bt_regs_def brcmf_btcoex_timerfunc_def bt_rank_def split: brcmf_btcoex_state.splits)

lemma bt_inv_attach: "brcmf_btcoex_attach e mem = (0, Some b) \<Longrightarrow> bt_inv r b r"
  by (auto simp: brcmf_btcoex_attach_def bt_inv_def bt_regs_def split: option.splits)

lemma bt_inv_reach:
  assumes "btc_registers w regs" and "brcmf_btcoex_attach e mem = (0, Some b0)" and "(bt_step w e)\<^sup>*\<^sup>* (b0, f0) (b, f)"
  shows "bt_inv (regs f0) b (regs f)"
proof -
  have "bt_inv (regs f0) (fst s) (regs (snd s))" if "(bt_step w e)\<^sup>*\<^sup>* (b0, f0) s" for s
    using that
  proof (induction rule: rtranclp_induct)
    case base
    then show ?case using bt_inv_attach [OF assms(2)] by simp
  next
    case (step s s')
    obtain b f b' f' where s: "s = (b, f)" "s' = (b', f')" by (cases s; cases s')
    have inv: "bt_inv (regs f0) b (regs f)" and "bt_step w e (b, f) (b', f')" using step.IH step.hyps(2) s by simp_all
    from this(2) have "bt_inv (regs f0) b' (regs f')"
    proof (rule bt_stepE)
      show ?thesis if "brcmf_btcoex_set_mode w e vif m duration b f = Some (err, b', f')" for vif m duration err
        using bt_inv_set_mode [OF assms(1) inv, of e vif m duration] that by auto
      show ?thesis if "b' = brcmf_btcoex_timerfunc (b\<lparr>timer_pending := False\<rparr>)" "f' = f" "timer_pending b"
        using bt_inv_timer [OF inv] that by auto
      show ?thesis if "work_pending b" "brcmf_btcoex_handler w e jiffies (b\<lparr>work_pending := False\<rparr>) f = Some (b', f')" for jiffies
        using bt_inv_handler [OF assms(1) inv that(1), of e jiffies] that(2) by auto
    qed
    then show ?case using s by simp
  qed
  from this [OF assms(3)] show ?thesis by simp
qed

lemma bt_inv_event:
  assumes "btc_registers w regs" and "bt_inv r0 b (regs f)"
  shows "\<exists>b' f'. bt_event w e t (b, f) = Some (b', f') \<and> bt_inv r0 b' (regs f') \<and> bt_rank b' \<le> bt_rank b - 1"
proof -
  consider "work_pending b" | "\<not> work_pending b \<and> timer_pending b" | "\<not> work_pending b \<and> \<not> timer_pending b" by blast
  then show ?thesis
  proof cases
    case 1
    then show ?thesis using bt_inv_handler [OF assms 1, of e t] by (auto simp: bt_event_def)
  next
    case 2
    then show ?thesis using bt_inv_timer [OF assms(2)] by (auto simp: bt_event_def)
  next
    case 3
    then have "bt_state b = BT_DHCP_IDLE" using assms(2) by (auto simp: bt_inv_def)
    then show ?thesis using 3 assms(2) by (auto simp: bt_event_def bt_rank_def)
  qed
qed

lemma bt_inv_events:
  assumes "btc_registers w regs" and "bt_inv r0 b (regs f)"
  shows "\<exists>b' f'. bt_events w e ts (b, f) = Some (b', f') \<and> bt_inv r0 b' (regs f') \<and> bt_rank b' \<le> bt_rank b - length ts"
  using assms(2)
proof (induction ts arbitrary: b f)
  case (Cons t ts)
  obtain b1 f1 where 1: "bt_event w e t (b, f) = Some (b1, f1)" "bt_inv r0 b1 (regs f1)" "bt_rank b1 \<le> bt_rank b - 1"
    using bt_inv_event [OF assms(1) Cons.prems] by blast
  obtain b2 f2 where 2: "bt_events w e ts (b1, f1) = Some (b2, f2)" "bt_inv r0 b2 (regs f2)" "bt_rank b2 \<le> bt_rank b1 - length ts"
    using Cons.IH [OF 1(2)] by blast
  then show ?case using 1 by auto
qed auto

section \<open>What the state machine guarantees\<close>

text \<open>C32: Whatever requests, timer and work item do, in any order: when the coexistence machine is idle the registers
  of the firmware have the values they had before it was attached, and no request and no run of the handler ever
  uses an interface that is not there.\<close>

theorem btcoex_restores_registers:
  assumes "btc_registers w regs" and "brcmf_btcoex_attach e mem = (0, Some b0)" and "(bt_step w e)\<^sup>*\<^sup>* (b0, f0) (b, f)"
  shows "(bt_state b = BT_DHCP_IDLE \<longrightarrow> regs f = regs f0) \<and>
    (\<forall>vif m duration. brcmf_btcoex_set_mode w e vif m duration b f \<noteq> None) \<and>
    (\<forall>jiffies. work_pending b \<longrightarrow> brcmf_btcoex_handler w e jiffies (b\<lparr>work_pending := False\<rparr>) f \<noteq> None)"
proof -
  note inv = bt_inv_reach [OF assms]
  have "regs f = regs f0" if "bt_state b = BT_DHCP_IDLE" using inv that by (simp add: bt_inv_def bt_regs_def)
  moreover have "brcmf_btcoex_set_mode w e vif m duration b f \<noteq> None" for vif m duration
    using bt_inv_set_mode [OF assms(1) inv, of e vif m duration] by auto
  moreover have "brcmf_btcoex_handler w e jiffies (b\<lparr>work_pending := False\<rparr>) f \<noteq> None" if "work_pending b" for jiffies
    using bt_inv_handler [OF assms(1) inv that, of e jiffies] by auto
  ultimately show ?thesis by blast
qed

text \<open>C33: The coexistence machine always finishes by itself: from every state it can be in, five pending events (runs
  of the work item and firings of the timer, at whatever times) leave it idle with the registers restored.\<close>

theorem btcoex_settles:
  assumes "btc_registers w regs" and "brcmf_btcoex_attach e mem = (0, Some b0)" and "(bt_step w e)\<^sup>*\<^sup>* (b0, f0) (b, f)"
    and "length ts = 5"
  shows "\<exists>b' f'. bt_events w e ts (b, f) = Some (b', f') \<and> bt_state b' = BT_DHCP_IDLE \<and> regs f' = regs f0"
proof -
  obtain b' f' where e: "bt_events w e ts (b, f) = Some (b', f')" "bt_inv (regs f0) b' (regs f')" "bt_rank b' \<le> bt_rank b - 5"
    using bt_inv_events [OF assms(1) bt_inv_reach [OF assms(1-3)], of e ts] assms(4) by auto
  have "bt_rank b \<le> 5" by (simp add: bt_rank_def split: brcmf_btcoex_state.split)
  then have "bt_state b' = BT_DHCP_IDLE" using e(3) by (auto simp: bt_rank_def split: brcmf_btcoex_state.splits if_splits)
  then show ?thesis using e by (auto simp: bt_inv_def bt_regs_def)
qed

text \<open>A firmware whose state is its registers.\<close>

definition reg_fil :: "(u32 \<Rightarrow> u32) fil" where
  "reg_fil = \<lparr>
     fil_put = (\<lambda>ifp v data r. case data of None \<Rightarrow> Some (0, r)
       | Some bs \<Rightarrow> Some (0, r(le32_word (take 4 bs) := le32_word (drop 4 bs)))),
     fil_ask = (\<lambda>ifp v bs r. Some (0, le32 (r (le32_word bs)), r)),
     feat_enabled = (\<lambda>_. False), quirk_enabled = (\<lambda>_. False)\<rparr>"

lemma reg_fil_registers: "btc_registers reg_fil (\<lambda>r. r)"
proof -
  have "length (le32 x) = 4" "le32_word (le32 x) = x" for x by (simp_all add: le32_def le32_word_def)
  then show ?thesis by (auto simp: btc_registers_def reg_fil_def ask_int_def)
qed

definition wit_btc :: btc_env where
  "wit_btc = \<lparr>bt_if = (\<lambda>_. wit_if), bt_if0 = wit_if, msecs_to_jiffies = (\<lambda>n. n)\<rparr>"

definition wit_bt :: brcmf_btcoex_info where
  "wit_bt = \<lparr>bt_vif = None, timer_expires = 0, timer_pending = False, bt_timeout = 2000, timer_on = False, dhcp_done = False,
     bt_state = BT_DHCP_IDLE, work_pending = False, reg66 = 0, reg41 = 0, reg68 = 0, saved_regs_part1 = False, reg50 = 0,
     reg51 = 0, reg64 = 0, reg65 = 0, reg71 = 0, saved_regs_part2 = False, crit_stopped = []\<rparr>"

lemma wit_attach: "brcmf_btcoex_attach wit_btc (Some wit_bt) = (0, Some wit_bt)"
  by (simp add: brcmf_btcoex_attach_def wit_bt_def BRCMF_BTCOEX_OPPR_WIN_TIME_def wit_btc_def)

text \<open>A voice link is active, register 27 says; the machine has started.\<close>

lemma wit_started:
  "\<exists>b f. (bt_step reg_fil wit_btc)\<^sup>*\<^sup>* (wit_bt, (\<lambda>a. if a = 27 then 2 else a)) (b, f) \<and> bt_state b = BT_DHCP_START"
proof -
  have l: "length (le32 x) = 4" "le32_word (le32 x) = x" for x by (simp_all add: le32_def le32_word_def)
  have rd: "brcmf_btcoex_params_read reg_fil i a r = Some (0, r a, r)" for i a r
    by (simp add: brcmf_btcoex_params_read_def ask_int_def reg_fil_def l)
  have wr: "brcmf_btcoex_params_write reg_fil i a d r = Some (0, r(a := d))" for i a d r
    by (simp add: brcmf_btcoex_params_write_def reg_fil_def l)
  have "\<exists>err b f. brcmf_btcoex_set_mode reg_fil wit_btc 0 BTCOEX_DISABLED 5000 wit_bt (\<lambda>a. if a = 27 then 2 else a) = Some (err, b, f) \<and>
      bt_state b = BT_DHCP_START"
    by (simp add: brcmf_btcoex_set_mode_def brcmf_btcoex_is_sco_active_def eval_nat_numeral rd wr wit_bt_def
        brcmf_btcoex_dhcp_start_def btcmf_btcoex_save_part1_def)
  then show ?thesis by (blast intro: bt_step.mode)
qed

theorem btcoex_restores_registers_witness:
  "\<exists>b f. bt_state b = BT_DHCP_START \<and> (\<forall>vif m duration. brcmf_btcoex_set_mode reg_fil wit_btc vif m duration b f \<noteq> None)"
  using wit_started btcoex_restores_registers [OF reg_fil_registers wit_attach] by blast

theorem btcoex_settles_witness:
  "\<exists>b f b' f'. bt_state b = BT_DHCP_START \<and> bt_events reg_fil wit_btc [0, 10, 2010, 2020, 5000] (b, f) = Some (b', f') \<and>
    bt_state b' = BT_DHCP_IDLE \<and> f' = (\<lambda>a. if a = 27 then 2 else a)"
proof -
  obtain b f where r: "(bt_step reg_fil wit_btc)\<^sup>*\<^sup>* (wit_bt, (\<lambda>a. if a = 27 then 2 else a)) (b, f)" "bt_state b = BT_DHCP_START"
    using wit_started by blast
  show ?thesis
    using btcoex_settles [OF reg_fil_registers wit_attach r(1), of "[0, 10, 2010, 2020, 5000]"] r(2) by auto
qed

end
