(* ===== verification/Params.thy ===== *)
theory Params
  imports Fil D11
begin

text \<open>
  The structures the driver hands to the firmware for scanning, joining and creating interfaces
  (\<open>scan_param.c\<close>, \<open>join_param.c\<close>, \<open>interface_create.c\<close>), in all their versions. A structure is the list of its
  bytes. The choice of a version stores function pointers, which are the fields of the two handler records.
\<close>

text \<open>What turns a channel into its specification: \<open>ieee80211_frequency_to_channel\<close>, the arbitrary contents of the
  uninitialised local of \<open>channel_to_chanspec\<close>, and the attached codec; and the driver's current channel.\<close>

record chan_env =
  ce_f2c :: "u32 \<Rightarrow> int"
  ce_junk :: brcmu_chan
  ce_d11inf :: brcmu_d11inf
  ce_channel :: u32

definition ce_chanspec :: "chan_env \<Rightarrow> ieee80211_channel \<Rightarrow> u16" where
  "ce_chanspec c = channel_to_chanspec (ce_f2c c) (ce_junk c) (ce_d11inf c)"

definition broadcast :: "u8 list" where
  "broadcast = replicate 6 0xFF"

section \<open>Scan requests\<close>

record cfg80211_scan_request =
  rq_channels :: "ieee80211_channel list"
  rq_ssids :: "u8 list list"
  rq_flags :: u32

text \<open>\<open>NL80211_SCAN_FLAG_LOW_PRIORITY\<close>, \<open>LOW_SPAN\<close>, \<open>LOW_POWER\<close>, \<open>HIGH_ACCURACY\<close> and \<open>COLOCATED_6GHZ\<close> are
  the kernel's bits 0, 8, 9, 10 and 14.\<close>

definition brcmf_nl80211_scan_flags_to_scan_flags :: "u32 \<Rightarrow> u32" where
  "brcmf_nl80211_scan_flags_to_scan_flags fl =
     (if fl AND 0x100 \<noteq> 0 then 0x4000 else 0) OR (if fl AND 0x400 \<noteq> 0 then 0x2000 else 0)
     OR (if fl AND 0x200 \<noteq> 0 then 0x1000 else 0) OR (if fl AND 1 \<noteq> 0 then 2 else 0)"

text \<open>Sizes that round up to a multiple of four.\<close>

definition align4 :: "nat \<Rightarrow> nat" where
  "align4 n = (n + 3) div 4 * 4"

definition brcmf_scan_param_tail_size :: "cfg80211_scan_request option \<Rightarrow> nat \<Rightarrow> nat" where
  "brcmf_scan_param_tail_size request params_size = (case request of
     Some r \<Rightarrow> params_size + 4 * ((length (rq_channels r) + 1) div 2) + 36 * length (rq_ssids r)
   | None \<Rightarrow> params_size + 2)"

fun brcmf_scan_param_copy_chanspecs :: "chan_env \<Rightarrow> u8 list \<Rightarrow> nat \<Rightarrow> ieee80211_channel list \<Rightarrow> u8 list option" where
  "brcmf_scan_param_copy_chanspecs c buf off [] = Some buf"
| "brcmf_scan_param_copy_chanspecs c buf off (ch # chs) = do {
     buf \<leftarrow> write_bytes buf off (le16 (ce_chanspec c ch));
     brcmf_scan_param_copy_chanspecs c buf (off + 2) chs }"

text \<open>An SSID structure: the length and 32 bytes; a longer one would be copied past its end.\<close>

definition ssid_le :: "u8 list \<Rightarrow> u8 list option" where
  "ssid_le s = (if length s \<le> 32 then Some (le32 (of_nat (length s)) @ s @ replicate (32 - length s) 0) else None)"

fun brcmf_scan_param_copy_ssids :: "u8 list \<Rightarrow> nat \<Rightarrow> u8 list list \<Rightarrow> u8 list option" where
  "brcmf_scan_param_copy_ssids buf off [] = Some buf"
| "brcmf_scan_param_copy_ssids buf off (s # ss) = do {
     bs \<leftarrow> ssid_le s;
     buf \<leftarrow> write_bytes buf off bs;
     brcmf_scan_param_copy_ssids buf (off + 36) ss }"

text \<open>The lists behind the fixed part of \<open>fixed\<close> bytes, and the length in use.\<close>

definition scan_lists :: "chan_env \<Rightarrow> nat \<Rightarrow> cfg80211_scan_request \<Rightarrow> u8 list \<Rightarrow> (u8 list \<times> nat) option" where
  "scan_lists c fixed r buf = do {
     let n = length (rq_channels r);
     let len = fixed + (if 0 < n then align4 (2 * n) else 0);
     buf \<leftarrow> brcmf_scan_param_copy_chanspecs c buf fixed (rq_channels r);
     let len = len + 36 * length (rq_ssids r);
     buf \<leftarrow> brcmf_scan_param_copy_ssids buf (align4 (fixed + 2 * n)) (rq_ssids r);
     Some (buf, len) }"

definition scan_type_of :: "cfg80211_scan_request \<Rightarrow> u32" where
  "scan_type_of r = (if rq_ssids r = [] then 1 else 0) OR brcmf_nl80211_scan_flags_to_scan_flags (rq_flags r)"

definition channel_num_of :: "cfg80211_scan_request \<Rightarrow> u32" where
  "channel_num_of r = push_bit 16 (of_nat (length (rq_ssids r))) OR (of_nat (length (rq_channels r)) AND 0xffff)"

text \<open>The four times that default to minus one.\<close>

definition scan_times :: "u8 list" where
  "scan_times = le32 (- 1) @ le32 (- 1) @ le32 (- 1) @ le32 (- 1)"

text \<open>Each builder gives the bytes handed over, or \<open>NULL\<close> without memory; \<open>DOT11_BSSTYPE_ANY\<close> is 2. The fields
  before the lists are written first; an abort has the one channel minus one. The first version does not count
  it.\<close>

definition brcmf_scan_param_get_prepped_struct_v1 ::
  "chan_env \<Rightarrow> bool \<Rightarrow> cfg80211_scan_request option \<Rightarrow> u8 list option option" where
  "brcmf_scan_param_get_prepped_struct_v1 c mem request = (
     if \<not> mem then Some None else do {
     let params = replicate (brcmf_scan_param_tail_size request 64) 0;
     let fixed = (\<lambda>scan_type num. replicate 36 0 @ broadcast @ [2, ucast scan_type] @ scan_times @ le32 num);
     case request of
       None \<Rightarrow> do {
         b \<leftarrow> write_bytes params 0 (fixed 0 1 @ le16 (- 1));
         Some (Some (take 64 b)) }
     | Some r \<Rightarrow> do {
         b \<leftarrow> write_bytes params 0 (fixed (scan_type_of r) (channel_num_of r));
         (b, len) \<leftarrow> scan_lists c 64 r b;
         Some (Some (take len b)) } })"

definition brcmf_scan_param_get_prepped_struct_v2 ::
  "chan_env \<Rightarrow> bool \<Rightarrow> cfg80211_scan_request option \<Rightarrow> u8 list option option" where
  "brcmf_scan_param_get_prepped_struct_v2 c mem request = (
     if \<not> mem then Some None else do {
     let params = replicate (brcmf_scan_param_tail_size request 72) 0;
     let fixed = (\<lambda>len scan_type num. le16 2 @ le16 (of_nat len) @ replicate 36 0 @ broadcast @ [2, 0] @
       le32 scan_type @ scan_times @ le32 num);
     case request of
       None \<Rightarrow> do {
         b \<leftarrow> write_bytes params 0 (fixed 74 0 1 @ le16 (- 1));
         Some (Some (take 74 b)) }
     | Some r \<Rightarrow> do {
         (b, len) \<leftarrow> scan_lists c 72 r params;
         b \<leftarrow> write_bytes b 0 (fixed len (scan_type_of r) (channel_num_of r));
         Some (Some (take len b)) } })"

definition rnr_of :: "cfg80211_scan_request \<Rightarrow> u8" where
  "rnr_of r = (if rq_flags r AND 0x4000 \<noteq> 0 then 2 else 0)"

definition brcmf_scan_param_get_prepped_struct_v3 ::
  "chan_env \<Rightarrow> bool \<Rightarrow> cfg80211_scan_request option \<Rightarrow> u8 list option option" where
  "brcmf_scan_param_get_prepped_struct_v3 c mem request = (
     if \<not> mem then Some None else do {
     let params = replicate (brcmf_scan_param_tail_size request 72) 0;
     let fixed = (\<lambda>len ssid_type scan_type num. le16 3 @ le16 (of_nat len) @ replicate 36 0 @ broadcast @
       [2, ssid_type] @ le32 scan_type @ scan_times @ le32 num);
     case request of
       None \<Rightarrow> do {
         b \<leftarrow> write_bytes params 0 (fixed 74 0 0 1 @ le16 (- 1));
         Some (Some (take 74 b)) }
     | Some r \<Rightarrow> do {
         (b, len) \<leftarrow> scan_lists c 72 r params;
         b \<leftarrow> write_bytes b 0 (fixed len (rnr_of r) (scan_type_of r) (channel_num_of r));
         Some (Some (take len b)) } })"

definition brcmf_scan_param_get_prepped_struct_v4 ::
  "chan_env \<Rightarrow> bool \<Rightarrow> cfg80211_scan_request option \<Rightarrow> u8 list option option" where
  "brcmf_scan_param_get_prepped_struct_v4 c mem request = (
     if \<not> mem then Some None else do {
     let params = replicate (brcmf_scan_param_tail_size request 76) 0;
     let fixed = (\<lambda>len ssid_type scan_type num. le16 4 @ le16 (of_nat len) @ replicate 36 0 @ broadcast @
       [2, ssid_type] @ le32 scan_type @ le32 0 @ scan_times @ le32 num);
     case request of
       None \<Rightarrow> do {
         b \<leftarrow> write_bytes params 0 (fixed 78 0 0 1 @ le16 (- 1));
         Some (Some (take 78 b)) }
     | Some r \<Rightarrow> do {
         (b, len) \<leftarrow> scan_lists c 76 r params;
         b \<leftarrow> write_bytes b 0 (fixed len (rnr_of r) (scan_type_of r) (channel_num_of r));
         Some (Some (take len b)) } })"

type_synonym scan_builder = "chan_env \<Rightarrow> bool \<Rightarrow> cfg80211_scan_request option \<Rightarrow> u8 list option option"

text \<open>The version is stored even when there is no builder for it.\<close>

definition brcmf_scan_param_setup_for_version :: "u8 \<Rightarrow> u8 \<times> scan_builder option \<Rightarrow> int \<times> u8 \<times> scan_builder option" where
  "brcmf_scan_param_setup_for_version version h = (
     if version = 1 then (0, version, Some brcmf_scan_param_get_prepped_struct_v1)
     else if version = 2 then (0, version, Some brcmf_scan_param_get_prepped_struct_v2)
     else if version = 3 then (0, version, Some brcmf_scan_param_get_prepped_struct_v3)
     else if version = 4 then (0, version, Some brcmf_scan_param_get_prepped_struct_v4)
     else (- 22, version, snd h))"

section \<open>Joining\<close>

text \<open>The request of the configuration layer: the SSID's bytes, the BSSID when given, the channel of the hint or
  the request.\<close>

record join_req =
  jr_ssid :: "u8 list"
  jr_bssid :: "u8 list option"
  jr_chan :: "ieee80211_channel option"

definition brcmf_joinscan_set_ssid :: "u8 list \<Rightarrow> u8 list" where
  "brcmf_joinscan_set_ssid ssid = (let n = min (length ssid) 32 in
     le32 (of_nat n) @ take n ssid @ replicate (32 - n) 0)"

definition brcmf_joinscan_set_bssid :: "u8 list option \<Rightarrow> u8 list" where
  "brcmf_joinscan_set_bssid bssid = (case bssid of None \<Rightarrow> broadcast | Some b \<Rightarrow> take 6 b)"

text \<open>The number of channels and the list; with the current channel set, the request's channel is used, and
  one that is missing is a NULL pointer.\<close>

definition brcmf_joinscan_set_single_chanspec_from_channel ::
  "chan_env \<Rightarrow> ieee80211_channel option \<Rightarrow> u8 list option" where
  "brcmf_joinscan_set_single_chanspec_from_channel c ch = do { ch \<leftarrow> ch; Some (le32 1 @ le16 (ce_chanspec c ch)) }"

definition brcmf_joinscan_set_single_chanspec_from_chandef ::
  "chan_env \<Rightarrow> cfg80211_chan_def option \<Rightarrow> u8 list option" where
  "brcmf_joinscan_set_single_chanspec_from_chandef c cd = do {
     cd \<leftarrow> cd; Some (le32 1 @ le16 (chandef_to_chanspec (ce_f2c c) (ce_junk c) (ce_d11inf c) cd)) }"

text \<open>The IBSS structures reserve the channel list by the definition's channel and fill it by the driver's.\<close>

definition ibss_chans :: "chan_env \<Rightarrow> cfg80211_chan_def option \<Rightarrow> u8 list option" where
  "ibss_chans c cd = (
     if ce_channel c \<noteq> 0 then brcmf_joinscan_set_single_chanspec_from_chandef c cd
     else Some (le32 0 @ (if cd = None then [] else [0, 0])))"

definition brcmf_get_struct_for_ibss_v0 ::
  "chan_env \<Rightarrow> bool \<Rightarrow> u8 list \<Rightarrow> u8 list option \<Rightarrow> cfg80211_chan_def option \<Rightarrow> u8 list option option" where
  "brcmf_get_struct_for_ibss_v0 c mem ssid bssid cd = (if \<not> mem then Some None else do {
     chans \<leftarrow> ibss_chans c cd;
     Some (Some (brcmf_joinscan_set_ssid ssid @ brcmf_joinscan_set_bssid bssid @ le16 0 @ chans)) })"

definition brcmf_get_prepped_struct_for_ibss_v1 ::
  "chan_env \<Rightarrow> bool \<Rightarrow> u8 list \<Rightarrow> u8 list option \<Rightarrow> cfg80211_chan_def option \<Rightarrow> u8 list option option" where
  "brcmf_get_prepped_struct_for_ibss_v1 c mem ssid bssid cd = (if \<not> mem then Some None else do {
     chans \<leftarrow> ibss_chans c cd;
     Some (Some (brcmf_joinscan_set_ssid ssid @ le16 1 @ le16 0 @ brcmf_joinscan_set_bssid bssid @ le16 0 @ chans)) })"

definition brcmf_joinscan_set_common_v0v1_params :: "bool \<Rightarrow> u8 list" where
  "brcmf_joinscan_set_common_v0v1_params have_channel = [0, 0, 0, 0] @
     (if have_channel then le32 (320 div 20) @ le32 320 @ le32 400 else le32 (- 1) @ le32 (- 1) @ le32 (- 1)) @ le32 (- 1)"

definition connect_chans :: "chan_env \<Rightarrow> join_req \<Rightarrow> u8 list option" where
  "connect_chans c p = (
     if ce_channel c \<noteq> 0 then brcmf_joinscan_set_single_chanspec_from_channel c (jr_chan p) else Some (le32 0))"

definition brcmf_get_struct_for_connect_v0 :: "chan_env \<Rightarrow> bool \<Rightarrow> join_req \<Rightarrow> u8 list option option" where
  "brcmf_get_struct_for_connect_v0 c mem p = (if \<not> mem then Some None else do {
     chans \<leftarrow> connect_chans c p;
     Some (Some (brcmf_joinscan_set_ssid (jr_ssid p) @ brcmf_joinscan_set_common_v0v1_params (ce_channel c \<noteq> 0) @
       brcmf_joinscan_set_bssid (jr_bssid p) @ le16 0 @ chans)) })"

definition brcmf_get_struct_for_connect_v1 :: "chan_env \<Rightarrow> bool \<Rightarrow> join_req \<Rightarrow> u8 list option option" where
  "brcmf_get_struct_for_connect_v1 c mem p = (if \<not> mem then Some None else do {
     chans \<leftarrow> connect_chans c p;
     Some (Some (le16 1 @ le16 0 @ brcmf_joinscan_set_ssid (jr_ssid p) @
       brcmf_joinscan_set_common_v0v1_params (ce_channel c \<noteq> 0) @
       le16 1 @ le16 0 @ brcmf_joinscan_set_bssid (jr_bssid p) @ le16 0 @ chans)) })"

text \<open>The plain structure out of the extended one. Both versions copy as many bytes of the association
  part as its version 0 has.\<close>

definition read_le32 :: "u8 list \<Rightarrow> nat \<Rightarrow> u32 option" where
  "read_le32 b off = do { bs \<leftarrow> read_bytes b off 4; Some (le32_word bs) }"

definition brcmf_get_join_from_ext_join_v0 :: "bool \<Rightarrow> u8 list option \<Rightarrow> u8 list option option" where
  "brcmf_get_join_from_ext_join_v0 mem ext_join = do {
     ext \<leftarrow> ext_join;
     n \<leftarrow> read_le32 ext 64;
     if \<not> mem then Some None else do {
     ssid \<leftarrow> read_bytes ext 0 36;
     assoc \<leftarrow> read_bytes ext 56 (12 + 2 * unat n);
     b \<leftarrow> write_bytes (replicate (48 + 2 * unat n) 0) 0 (ssid @ assoc);
     Some (Some b) } }"

definition brcmf_get_join_from_ext_join_v1 :: "bool \<Rightarrow> u8 list option \<Rightarrow> u8 list option option" where
  "brcmf_get_join_from_ext_join_v1 mem ext_join = do {
     ext \<leftarrow> ext_join;
     n \<leftarrow> read_le32 ext 72;
     if \<not> mem then Some None else do {
     ssid \<leftarrow> read_bytes ext 4 36;
     assoc \<leftarrow> read_bytes ext 60 (12 + 2 * unat n);
     b \<leftarrow> write_bytes (replicate (52 + 2 * unat n) 0) 0 (ssid @ assoc);
     Some (Some b) } }"

record join_handler =
  jh_version :: u8
  get_struct_for_ibss :: "chan_env \<Rightarrow> bool \<Rightarrow> u8 list \<Rightarrow> u8 list option \<Rightarrow> cfg80211_chan_def option \<Rightarrow> u8 list option option"
  get_struct_for_connect :: "chan_env \<Rightarrow> bool \<Rightarrow> join_req \<Rightarrow> u8 list option option"
  get_join_from_ext_join :: "bool \<Rightarrow> u8 list option \<Rightarrow> u8 list option option"

definition brcmf_join_param_setup_for_version :: "u8 \<Rightarrow> join_handler \<Rightarrow> int \<times> join_handler" where
  "brcmf_join_param_setup_for_version version h = (let h = h\<lparr>jh_version := version\<rparr> in
     if version = 0 then (0, h\<lparr>get_struct_for_ibss := brcmf_get_struct_for_ibss_v0,
         get_struct_for_connect := brcmf_get_struct_for_connect_v0,
         get_join_from_ext_join := brcmf_get_join_from_ext_join_v0\<rparr>)
     else if version = 1 then (0, h\<lparr>get_struct_for_ibss := brcmf_get_prepped_struct_for_ibss_v1,
         get_struct_for_connect := brcmf_get_struct_for_connect_v1,
         get_join_from_ext_join := brcmf_get_join_from_ext_join_v1\<rparr>)
     else (- 22, h))"

section \<open>Creating interfaces\<close>

text \<open>What the requests use of the driver: the index that makes addresses differ, the primary address and which
  entries of the interface list are taken.\<close>

record if_pub =
  sta_mac_idx :: u8
  if_mac :: "u8 list"
  if_taken :: "bool list"

text \<open>Entry 1 is passed over, the legacy P2P interface has it.\<close>

definition brcmf_get_first_free_bsscfgidx :: "if_pub \<Rightarrow> int option" where
  "brcmf_get_first_free_bsscfgidx d = (
     if length (if_taken d) < 16 then None
     else case filter (\<lambda>i. i \<noteq> 1 \<and> \<not> if_taken d ! i) [0..<16] of [] \<Rightarrow> Some (- 12) | i # _ \<Rightarrow> Some (int i))"

definition brcmf_set_vif_sta_macaddr :: "if_pub \<Rightarrow> (u8 list \<times> if_pub) option" where
  "brcmf_set_vif_sta_macaddr d = do {
     a \<leftarrow> nth_opt (if_mac d) 0;
     b \<leftarrow> nth_opt (if_mac d) 3;
     let mac = (if_mac d)[0 := a OR 2, 3 := b XOR (if sta_mac_idx d \<noteq> 0 then 0xC0 else 0xA0)];
     Some (mac, d\<lparr>sta_mac_idx := (sta_mac_idx d + 1) mod 2\<rparr>) }"

text \<open>The address of a request and the flag for it.\<close>

definition if_request_mac :: "u8 list option \<Rightarrow> if_pub \<Rightarrow> (u32 \<times> u8 list \<times> if_pub) option" where
  "if_request_mac macaddr d = (case macaddr of
     None \<Rightarrow> Some (0, replicate 6 0, d)
   | Some m \<Rightarrow> if list_all ((=) 0) m then do { (a, d) \<leftarrow> brcmf_set_vif_sta_macaddr d; Some (2, a, d) }
               else Some (2, take 6 m, d))"

definition brcmf_cfg80211_request_if_internal ::
  "'f fil \<Rightarrow> fil_if \<Rightarrow> u32 \<Rightarrow> u32 \<Rightarrow> u8 list option \<Rightarrow> if_pub \<Rightarrow> 'f \<Rightarrow> (int \<times> if_pub \<times> 'f) option" where
  "brcmf_cfg80211_request_if_internal w ifp version if_type macaddr d f = (
     let ask = (\<lambda>bs d. do { (err, _, f) \<leftarrow> fil_ask w ifp (IOVAR ''interface_create'') bs f; Some (err, d, f) }) in
     if version = 1 then do {
       (fl, mac, d) \<leftarrow> if_request_mac macaddr d;
       ask (le16 1 @ [0, 0] @ le32 (if_type OR fl) @ mac @ [0, 0] @ le32 0) d }
     else if version = 2 then do {
       (fl, mac, d) \<leftarrow> if_request_mac macaddr d;
       ask (le16 2 @ [0, 0] @ le32 fl @ mac @ [ucast if_type, 0] @ le32 0) d }
     else if version = 3 then do {
       (fl, mac, d) \<leftarrow> if_request_mac macaddr d;
       ask (le16 3 @ le16 28 @ le16 28 @ [ucast if_type, 0] @ le32 fl @ mac @ replicate 6 0 @ [0] @ replicate 3 0) d }
     else Some (- 22, d, f))"

text \<open>When the firmware does not tell its version two are tried; the calls give type and version the other way
  round.\<close>

definition brcmf_cfg80211_request_if ::
  "'f fil \<Rightarrow> fil_if \<Rightarrow> u32 \<Rightarrow> u8 list option \<Rightarrow> if_pub \<Rightarrow> 'f \<Rightarrow> (int \<times> if_pub \<times> 'f) option" where
  "brcmf_cfg80211_request_if w ifp if_type macaddr d f = do {
     (err, ver, f) \<leftarrow> ask_int w ifp (BSSCFG ''interface_create'') 0 f;
     if err = 0 then brcmf_cfg80211_request_if_internal w ifp ver if_type macaddr d f
     else do {
       (err, d, f) \<leftarrow> brcmf_cfg80211_request_if_internal w ifp if_type 2 macaddr d f;
       if err = 0 then Some (0, d, f)
       else do {
         (err, d, f) \<leftarrow> brcmf_cfg80211_request_if_internal w ifp if_type 1 macaddr d f;
         if err = 0 then Some (0, d, f) else Some (- 22, d, f) } } }"

definition brcmf_cfg80211_request_sta_if ::
  "'f fil \<Rightarrow> fil_if \<Rightarrow> u8 list option \<Rightarrow> if_pub \<Rightarrow> 'f \<Rightarrow> (int \<times> if_pub \<times> 'f) option" where
  "brcmf_cfg80211_request_sta_if w ifp macaddr d f = brcmf_cfg80211_request_if w ifp 0 macaddr d f"

definition brcmf_cfg80211_request_ap_if ::
  "'f fil \<Rightarrow> fil_if \<Rightarrow> if_pub \<Rightarrow> 'f \<Rightarrow> (int \<times> if_pub \<times> 'f) option" where
  "brcmf_cfg80211_request_ap_if w ifp d f = do {
     (err, d, f) \<leftarrow> brcmf_cfg80211_request_if w ifp 1 None d f;
     if err = 0 then Some (err, d, f)
     else do {
       idx \<leftarrow> brcmf_get_first_free_bsscfgidx d;
       if idx < 0 then Some (idx, d, f)
       else do {
         let name = str_bytes (''ssid'' @ decimal (nat idx));
         (err, f) \<leftarrow> fil_put w ifp (BSSCFG ''bsscfg:ssid'')
           (Some (le32 (of_int idx) @ le32 5 @ name @ replicate (32 - length name) 0)) f;
         Some (err, d, f) } } }"

section \<open>Layout of a scan request\<close>

definition ssid_bytes :: "u8 list \<Rightarrow> u8 list" where
  "ssid_bytes s = le32 (of_nat (length s)) @ s @ replicate (32 - length s) 0"

lemma length_ssid_bytes: "length s \<le> 32 \<Longrightarrow> length (ssid_bytes s) = 36"
  by (simp add: ssid_bytes_def)

lemma write_zeros:
  "length bs \<le> m \<Longrightarrow> write_bytes (pre @ replicate m 0) (length pre) bs = Some (pre @ bs @ replicate (m - length bs) 0)"
  by (simp add: write_bytes_def)

lemma copy_chanspecs_zeros:
  "2 * length chs \<le> m \<Longrightarrow> brcmf_scan_param_copy_chanspecs c (pre @ replicate m 0) (length pre) chs
    = Some (pre @ concat (map (\<lambda>ch. le16 (ce_chanspec c ch)) chs) @ replicate (m - 2 * length chs) 0)"
proof (induction chs arbitrary: pre m)
  case Nil
  then show ?case by simp
next
  case (Cons ch chs)
  have "brcmf_scan_param_copy_chanspecs c ((pre @ le16 (ce_chanspec c ch)) @ replicate (m - 2) 0) (length (pre @ le16 (ce_chanspec c ch))) chs
      = Some ((pre @ le16 (ce_chanspec c ch)) @ concat (map (\<lambda>ch. le16 (ce_chanspec c ch)) chs) @ replicate (m - 2 - 2 * length chs) 0)"
    by (rule Cons.IH) (use Cons.prems in simp)
  then show ?case using Cons.prems by (simp add: write_zeros)
qed

lemma copy_ssids_zeros:
  "36 * length ss \<le> m \<Longrightarrow> \<forall>s\<in>set ss. length s \<le> 32 \<Longrightarrow> brcmf_scan_param_copy_ssids (pre @ replicate m 0) (length pre) ss
    = Some (pre @ concat (map ssid_bytes ss) @ replicate (m - 36 * length ss) 0)"
proof (induction ss arbitrary: pre m)
  case Nil
  then show ?case by simp
next
  case (Cons s ss)
  have l: "length (ssid_bytes s) = 36" using Cons.prems(2) by (simp add: length_ssid_bytes)
  have "brcmf_scan_param_copy_ssids ((pre @ ssid_bytes s) @ replicate (m - 36) 0) (length (pre @ ssid_bytes s)) ss
      = Some ((pre @ ssid_bytes s) @ concat (map ssid_bytes ss) @ replicate (m - 36 - 36 * length ss) 0)"
    by (rule Cons.IH) (use Cons.prems in auto)
  moreover have "ssid_le s = Some (ssid_bytes s)" using Cons.prems(2) by (simp add: ssid_le_def ssid_bytes_def)
  ultimately show ?case using Cons.prems l by (simp add: write_zeros)
qed

lemma align4_add: "fixed mod 4 = 0 \<Longrightarrow> align4 (fixed + n) = fixed + align4 n"
  unfolding align4_def by (metis (no_types, opaque_lifting) add.assoc add_mult_distrib div_plus_div_distrib_dvd_left mod_0_imp_dvd dvd_div_mult_self)

lemma align4_double: "align4 (2 * n) = 4 * ((n + 1) div 2)" "align4 (2 * n) - 2 * n = (if odd n then 2 else 0)" "2 * n \<le> align4 (2 * n)"
  unfolding align4_def by (cases "even n"; auto elim!: evenE oddE)+

text \<open>What follows the fixed part.\<close>

definition scan_body :: "chan_env \<Rightarrow> cfg80211_scan_request \<Rightarrow> u8 list" where
  "scan_body c r = concat (map (\<lambda>ch. le16 (ce_chanspec c ch)) (rq_channels r)) @
     replicate (if odd (length (rq_channels r)) then 2 else 0) 0 @ concat (map ssid_bytes (rq_ssids r))"

lemma sum_const: "\<forall>x\<in>set xs. f x = (n :: nat) \<Longrightarrow> sum_list (map f xs) = n * length xs"
  by (induction xs) auto

lemma scan_lists_zeros:
  assumes "length pre = fixed" and "fixed mod 4 = 0" and "\<forall>s\<in>set (rq_ssids r). length s \<le> 32"
  shows "scan_lists c fixed r (pre @ replicate (brcmf_scan_param_tail_size (Some r) 0) 0) = Some (pre @ scan_body c r, length (pre @ scan_body c r))"
proof -
  let ?n = "length (rq_channels r)" and ?k = "length (rq_ssids r)" and ?C = "concat (map (\<lambda>ch. le16 (ce_chanspec c ch)) (rq_channels r))"
  let ?p = "if odd ?n then 2 else 0"
  have lc: "length ?C = 2 * ?n" by (simp add: length_concat comp_def sum_list_triv)
  have ls: "length (concat (map ssid_bytes (rq_ssids r))) = 36 * ?k"
    unfolding length_concat map_map using assms(3) by (intro sum_const) (auto simp: length_ssid_bytes)
  have m: "brcmf_scan_param_tail_size (Some r) 0 = 2 * ?n + ?p + 36 * ?k"
    using align4_double [of ?n] by (simp add: brcmf_scan_param_tail_size_def)
  have 1: "brcmf_scan_param_copy_chanspecs c (pre @ replicate (2 * ?n + ?p + 36 * ?k) 0) fixed (rq_channels r)
      = Some ((pre @ ?C @ replicate ?p 0) @ replicate (36 * ?k) 0)"
    using copy_chanspecs_zeros [of "rq_channels r" "2 * ?n + ?p + 36 * ?k" c pre] assms(1)
    by (auto simp flip: replicate_add)
  have al: "align4 (fixed + 2 * ?n) = length (pre @ ?C @ replicate ?p 0)"
    using align4_add [OF assms(2), of "2 * ?n"] align4_double [of ?n] assms(1) lc by simp
  have 2: "brcmf_scan_param_copy_ssids ((pre @ ?C @ replicate ?p 0) @ replicate (36 * ?k) 0) (align4 (fixed + 2 * ?n)) (rq_ssids r)
      = Some (pre @ scan_body c r)"
    unfolding al using copy_ssids_zeros [OF le_refl assms(3), of "pre @ ?C @ replicate ?p 0"]
    by (simp only: scan_body_def append_assoc diff_self_eq_0 replicate_0 append_Nil2)
  have "(if 0 < ?n then align4 (2 * ?n) else 0) = 2 * ?n + ?p"
    using align4_double(2,3) [of ?n] by (cases "?n = 0") (simp_all add: align4_def)
  then have "length (pre @ scan_body c r) = fixed + (if 0 < ?n then align4 (2 * ?n) else 0) + 36 * ?k"
    using assms(1) lc ls by (simp add: scan_body_def)
  then show ?thesis unfolding scan_lists_def m 1 Let_def bind.simps(2) 2 by simp
qed

text \<open>The size of the fixed part of each version.\<close>

definition scan_fixed :: "u8 \<Rightarrow> nat" where
  "scan_fixed v = (if v = 1 then 64 else if v = 4 then 76 else 72)"

lemma write_front:
  "length h = n \<Longrightarrow> length x = n \<Longrightarrow> write_bytes (x @ y) 0 h = Some (h @ y)"
  by (simp add: write_bytes_def)

lemma length_scan_parts: "length scan_times = 16" "length broadcast = 6"
  by (simp_all add: scan_times_def broadcast_def)

lemma tail_size_split: "brcmf_scan_param_tail_size (Some r) n = n + brcmf_scan_param_tail_size (Some r) 0"
  by (simp add: brcmf_scan_param_tail_size_def)

lemma read_count:
  assumes "length x = n"
  shows "read_le32 (x @ le32 v @ y) n = Some v"
  using assms by (simp add: read_le32_def read_bytes_def le32_word_def le32_def)

lemma replicate_split: "replicate (a + b) (0 :: u8) = replicate a 0 @ replicate b 0"
  by (rule replicate_add)

lemma scan_structs:
  assumes "\<forall>s\<in>set (rq_ssids r). length s \<le> 32" and "brcmf_scan_param_setup_for_version v h = (0, v', Some b)"
  shows "\<exists>pre. length pre = scan_fixed v - 4 \<and> b c True (Some r) = Some (Some (pre @ le32 (channel_num_of r) @ scan_body c r))"
proof -
  have sl: "scan_lists c n r (replicate n 0 @ replicate (brcmf_scan_param_tail_size (Some r) 0) 0)
      = Some (replicate n 0 @ scan_body c r, n + length (scan_body c r))" if "n mod 4 = 0" for n
    using scan_lists_zeros [of "replicate n 0" n r c] that assms(1) by simp
  consider "v = 1" | "v = 2" | "v = 3" | "v = 4" using assms(2) by (auto simp: brcmf_scan_param_setup_for_version_def split: if_splits)
  then show ?thesis
  proof cases
    case 1
    let ?p = "replicate 36 0 @ broadcast @ [2, ucast (scan_type_of r)] @ scan_times"
    have "scan_lists c 64 r ((?p @ le32 (channel_num_of r)) @ replicate (brcmf_scan_param_tail_size (Some r) 0) 0)
        = Some ((?p @ le32 (channel_num_of r)) @ scan_body c r, length ((?p @ le32 (channel_num_of r)) @ scan_body c r))"
      by (rule scan_lists_zeros) (use assms(1) in \<open>simp_all add: length_scan_parts\<close>)
    moreover have "write_bytes (replicate 64 0 @ replicate (brcmf_scan_param_tail_size (Some r) 0) 0) 0 (?p @ le32 (channel_num_of r))
        = Some ((?p @ le32 (channel_num_of r)) @ replicate (brcmf_scan_param_tail_size (Some r) 0) 0)"
      by (rule write_front [of _ 64]) (simp_all add: length_scan_parts)
    ultimately show ?thesis using 1 assms(2)
      by (intro exI [of _ ?p]) (auto simp: brcmf_scan_param_setup_for_version_def brcmf_scan_param_get_prepped_struct_v1_def
          tail_size_split [of r 64] replicate_split scan_fixed_def length_scan_parts)
  next
    case 2
    let ?p = "\<lambda>len. le16 2 @ le16 (of_nat len) @ replicate 36 0 @ broadcast @ [2, 0] @ le32 (scan_type_of r) @ scan_times"
    have "write_bytes (replicate 72 0 @ scan_body c r) 0 (?p n @ le32 (channel_num_of r)) = Some ((?p n @ le32 (channel_num_of r)) @ scan_body c r)" for n
      by (rule write_front [of _ 72]) (simp_all add: length_scan_parts)
    then show ?thesis using 2 assms(2) sl [of 72]
      by (intro exI [of _ "?p (72 + length (scan_body c r))"])
        (auto simp: brcmf_scan_param_setup_for_version_def brcmf_scan_param_get_prepped_struct_v2_def
          tail_size_split [of r 72] replicate_split scan_fixed_def length_scan_parts)
  next
    case 3
    let ?p = "\<lambda>len. le16 3 @ le16 (of_nat len) @ replicate 36 0 @ broadcast @ [2, rnr_of r] @ le32 (scan_type_of r) @ scan_times"
    have "write_bytes (replicate 72 0 @ scan_body c r) 0 (?p n @ le32 (channel_num_of r)) = Some ((?p n @ le32 (channel_num_of r)) @ scan_body c r)" for n
      by (rule write_front [of _ 72]) (simp_all add: length_scan_parts)
    then show ?thesis using 3 assms(2) sl [of 72]
      by (intro exI [of _ "?p (72 + length (scan_body c r))"])
        (auto simp: brcmf_scan_param_setup_for_version_def brcmf_scan_param_get_prepped_struct_v3_def
          tail_size_split [of r 72] replicate_split scan_fixed_def length_scan_parts)
  next
    case 4
    let ?p = "\<lambda>len. le16 4 @ le16 (of_nat len) @ replicate 36 0 @ broadcast @ [2, rnr_of r] @ le32 (scan_type_of r) @ le32 0 @ scan_times"
    have "write_bytes (replicate 76 0 @ scan_body c r) 0 (?p n @ le32 (channel_num_of r)) = Some ((?p n @ le32 (channel_num_of r)) @ scan_body c r)" for n
      by (rule write_front [of _ 76]) (simp_all add: length_scan_parts)
    then show ?thesis using 4 assms(2) sl [of 76]
      by (intro exI [of _ "?p (76 + length (scan_body c r))"])
        (auto simp: brcmf_scan_param_setup_for_version_def brcmf_scan_param_get_prepped_struct_v4_def
          tail_size_split [of r 76] replicate_split scan_fixed_def length_scan_parts)
  qed
qed

lemma channel_num_parts:
  assumes "length (rq_channels r) < 65536" and "length (rq_ssids r) < 65536"
  shows "unat (channel_num_of r AND 0xffff) = length (rq_channels r)" "unat (drop_bit 16 (channel_num_of r)) = length (rq_ssids r)"
proof -
  have small: "(of_nat n :: u32) AND 0xffff = of_nat n" "drop_bit 16 (of_nat n :: u32) = 0" if "n < 65536" for n
  proof -
    have "take_bit 16 (of_nat n :: u32) = of_nat n"
      using that by (simp add: word_unat_eq_iff unsigned_take_bit_eq unat_of_nat take_bit_nat_eq_self)
    then show "(of_nat n :: u32) AND 0xffff = of_nat n" by (simp add: take_bit_eq_mask mask_numeral)
    have "unat (of_nat n :: u32) = n" using that by (simp add: unat_of_nat take_bit_nat_eq_self)
    then have "unat (drop_bit 16 (of_nat n :: u32)) = 0" unfolding unat_drop_bit_eq using that by (simp add: drop_bit_eq_div)
    then show "drop_bit 16 (of_nat n :: u32) = 0" by (simp add: word_unat_eq_iff)
  qed
  have m: "(0xffff :: u32) = mask 16" by (simp add: mask_eq_exp_minus_1)
  have parts: "(push_bit 16 x OR (y AND 0xffff)) AND 0xffff = y AND 0xffff" "drop_bit 16 (push_bit 16 x OR (y AND 0xffff)) = x"
    if "drop_bit 16 x = 0" for x y :: u32
  proof -
    have x: "\<not> bit x (16 + n)" for n using arg_cong [OF that, of "\<lambda>w. bit w n"] by (simp add: bit_simps)
    have n: "n < 16" if "bit x n" for n using x [of "n - 16"] that by (cases "n < 16") auto
    show "(push_bit 16 x OR (y AND 0xffff)) AND 0xffff = y AND 0xffff"
      unfolding m by (rule bit_eqI) (auto simp: bit_simps)
    show "drop_bit 16 (push_bit 16 x OR (y AND 0xffff)) = x"
      unfolding m by (rule bit_eqI) (auto simp: bit_simps dest: n)
  qed
  have low: "channel_num_of r AND 0xffff = of_nat (length (rq_channels r))"
    and high: "drop_bit 16 (channel_num_of r) = of_nat (length (rq_ssids r))"
    using parts [OF small(2) [OF assms(2)], of "of_nat (length (rq_channels r))"] small(1) [OF assms(1)]
    unfolding channel_num_of_def by (metis, metis)
  show "unat (channel_num_of r AND 0xffff) = length (rq_channels r)" "unat (drop_bit 16 (channel_num_of r)) = length (rq_ssids r)"
    unfolding low high using assms by (simp_all add: unat_of_nat take_bit_nat_eq_self)
qed

text \<open>C30: A scan request is laid out the way the firmware reads it, in each of the four versions. Behind the fixed
  part stand the channel specifications of the request in order, padded to a word, and then its SSIDs; the
  count word before them gives both numbers, and nothing is written outside the structure or cut off.\<close>

theorem scan_request_layout:
  assumes "\<forall>s\<in>set (rq_ssids r). length s \<le> 32" and "length (rq_channels r) < 65536" and "length (rq_ssids r) < 65536"
    and "brcmf_scan_param_setup_for_version v h = (0, v', Some b)"
  shows "\<exists>bs num. b c True (Some r) = Some (Some bs) \<and> drop (scan_fixed v) bs = scan_body c r \<and>
    read_le32 bs (scan_fixed v - 4) = Some num \<and> unat (num AND 0xffff) = length (rq_channels r) \<and>
    unat (drop_bit 16 num) = length (rq_ssids r)"
proof -
  obtain pre where p: "length pre = scan_fixed v - 4" "b c True (Some r) = Some (Some (pre @ le32 (channel_num_of r) @ scan_body c r))"
    using scan_structs [OF assms(1,4)] by blast
  have "drop (scan_fixed v) (pre @ le32 (channel_num_of r) @ scan_body c r) = scan_body c r"
    using p(1) by (simp add: scan_fixed_def split: if_splits)
  then show ?thesis using p read_count [OF p(1)] channel_num_parts [OF assms(2,3)] by auto
qed

definition wit_env :: chan_env where
  "wit_env = \<lparr>ce_f2c = (\<lambda>_. 6), ce_junk = \<lparr>chspec = 0, chnum = 0, control_ch_num = 0, chan_band = 0,
     chan_bw = BRCMU_CHAN_BW_20, sb = BRCMU_CHAN_SB_NONE\<rparr>,
     ce_d11inf = \<lparr>io_type = 2, encchspec = brcmu_d11ac_encchspec, decchspec = brcmu_d11ac_decchspec\<rparr>, ce_channel = 6\<rparr>"

definition wit_scan :: cfg80211_scan_request where
  "wit_scan = \<lparr>rq_channels = [\<lparr>ic_band = NL80211_BAND_2GHZ, center_freq = 2437\<rparr>], rq_ssids = [[65, 66]], rq_flags = 0\<rparr>"

theorem scan_request_layout_witness:
  "\<exists>bs num. brcmf_scan_param_get_prepped_struct_v3 wit_env True (Some wit_scan) = Some (Some bs) \<and>
    drop 72 bs = scan_body wit_env wit_scan \<and> read_le32 bs 68 = Some num \<and>
    unat (num AND 0xffff) = 1 \<and> unat (drop_bit 16 num) = 1"
  using scan_request_layout [of wit_scan 3 "(0, None)" 3 brcmf_scan_param_get_prepped_struct_v3 wit_env]
  by (simp add: wit_scan_def brcmf_scan_param_setup_for_version_def scan_fixed_def)

section \<open>The plain join structure\<close>

lemma length_ssid: "length (brcmf_joinscan_set_ssid s) = 36"
  by (simp add: brcmf_joinscan_set_ssid_def Let_def min_def)

lemma length_bssid: "(\<forall>b. bssid = Some b \<longrightarrow> length b = 6) \<Longrightarrow> length (brcmf_joinscan_set_bssid bssid) = 6"
  by (auto simp: brcmf_joinscan_set_bssid_def broadcast_def split: option.splits)

lemma length_common: "length (brcmf_joinscan_set_common_v0v1_params b) = 20"
  by (simp add: brcmf_joinscan_set_common_v0v1_params_def)

lemma read_bytes_at: "length x = n \<Longrightarrow> length y = m \<Longrightarrow> read_bytes (x @ y @ z) n m = Some y"
  by (simp add: read_bytes_def)

text \<open>The association part of the first version, as the extended structure has it.\<close>

definition assoc_v0 :: "chan_env \<Rightarrow> u8 list option \<Rightarrow> ieee80211_channel \<Rightarrow> u8 list" where
  "assoc_v0 c bssid ch = brcmf_joinscan_set_bssid bssid @ [0, 0] @ le32 1 @ le16 (ce_chanspec c ch)"

text \<open>C31: When the firmware refuses the extended join, the plain structure made out of it has the SSID and the whole
  association part in version 0. In version 1 the copy is as long as the part of version 0, which is four bytes
  shorter: the structure still counts one channel, and the channel the user asked for is not in it.\<close>

theorem join_fallback:
  assumes "ce_channel c \<noteq> 0" and "jr_chan p = Some ch" and "\<forall>b. jr_bssid p = Some b \<longrightarrow> length b = 6"
    and "brcmf_get_struct_for_connect_v0 c True p = Some ext0" and "brcmf_get_struct_for_connect_v1 c True p = Some ext1"
  shows "brcmf_get_join_from_ext_join_v0 True ext0 = Some (Some (brcmf_joinscan_set_ssid (jr_ssid p) @ assoc_v0 c (jr_bssid p) ch)) \<and>
    brcmf_get_join_from_ext_join_v1 True ext1 = Some (Some (brcmf_joinscan_set_ssid (jr_ssid p) @ [1, 0, 0, 0] @
      take 8 (assoc_v0 c (jr_bssid p) ch) @ [1, 0] @ [0, 0, 0, 0]))"
proof (rule conjI)
  let ?s = "brcmf_joinscan_set_ssid (jr_ssid p)" and ?C = "brcmf_joinscan_set_common_v0v1_params True"
    and ?b = "brcmf_joinscan_set_bssid (jr_bssid p)" and ?a = "assoc_v0 c (jr_bssid p) ch"
  note len = length_ssid length_common length_bssid [OF assms(3)]
  have le: "le32 1 = [1, 0, 0, 0]" "le16 0 = [0, 0]" "le16 1 = [1, 0]" by (simp_all add: le32_def le16_def)
  have e0: "ext0 = Some (?s @ ?C @ ?b @ le16 0 @ le32 1 @ le16 (ce_chanspec c ch))"
    using assms by (simp add: brcmf_get_struct_for_connect_v0_def connect_chans_def
      brcmf_joinscan_set_single_chanspec_from_channel_def)
  have n0: "read_le32 (?s @ ?C @ ?b @ le16 0 @ le32 1 @ le16 (ce_chanspec c ch)) 64 = Some 1"
    using read_count [of "?s @ ?C @ ?b @ le16 0" 64 1] len by simp
  have a0: "?s @ ?C @ ?b @ le16 0 @ le32 1 @ le16 (ce_chanspec c ch) = (?s @ ?C) @ ?a" and la: "length ?a = 14"
    using len by (simp_all add: assoc_v0_def le)
  show "brcmf_get_join_from_ext_join_v0 True ext0 = Some (Some (?s @ ?a))"
    using n0 len la read_bytes_at [of "?s @ ?C" 56 ?a 14 "[]"] read_bytes_at [of "[]" 0 ?s 36 "?C @ ?a"]
      write_front [of "?s @ ?a" 50 "replicate 50 0" "[]"]
    by (simp add: e0 a0 brcmf_get_join_from_ext_join_v0_def)
  have e1: "ext1 = Some (le16 1 @ le16 0 @ ?s @ ?C @ le16 1 @ le16 0 @ ?b @ le16 0 @ le32 1 @ le16 (ce_chanspec c ch))"
    using assms by (simp add: brcmf_get_struct_for_connect_v1_def connect_chans_def
      brcmf_joinscan_set_single_chanspec_from_channel_def)
  have n1: "read_le32 (le16 1 @ le16 0 @ ?s @ ?C @ le16 1 @ le16 0 @ ?b @ le16 0 @ le32 1 @ le16 (ce_chanspec c ch)) 72 = Some 1"
    using read_count [of "le16 1 @ le16 0 @ ?s @ ?C @ le16 1 @ le16 0 @ ?b @ le16 0" 72 1] len by simp
  have t: "take 8 ?a = ?b @ [0, 0]" using len by (simp add: assoc_v0_def)
  have a1: "le16 1 @ le16 0 @ ?s @ ?C @ le16 1 @ le16 0 @ ?b @ le16 0 @ le32 1 @ le16 (ce_chanspec c ch)
      = [1, 0, 0, 0] @ ?s @ ?C @ ([1, 0, 0, 0] @ take 8 ?a @ [1, 0]) @ [0, 0] @ le16 (ce_chanspec c ch)"
    by (simp add: t le)
  have z: "replicate 54 0 = replicate 50 0 @ [0, 0, 0, 0 :: u8]" by (simp add: eval_nat_numeral)
  show "brcmf_get_join_from_ext_join_v1 True ext1 = Some (Some (?s @ [1, 0, 0, 0] @ take 8 ?a @ [1, 0] @ [0, 0, 0, 0]))"
    using n1 len la read_bytes_at [of "[1, 0, 0, 0] @ ?s @ ?C" 60 "[1, 0, 0, 0] @ take 8 ?a @ [1, 0]" 14 "[0, 0] @ le16 (ce_chanspec c ch)"]
      read_bytes_at [of "[1, 0, 0, 0]" 4 ?s 36 "?C @ [1, 0, 0, 0] @ take 8 ?a @ [1, 0, 0, 0] @ le16 (ce_chanspec c ch)"]
      write_front [of "?s @ [1, 0, 0, 0] @ take 8 ?a @ [1, 0]" 50 "replicate 50 0" "[0, 0, 0, 0]"]
    by (simp add: e1 a1 z brcmf_get_join_from_ext_join_v1_def)
qed

definition wit_join :: join_req where
  "wit_join = \<lparr>jr_ssid = [65], jr_bssid = None, jr_chan = Some \<lparr>ic_band = NL80211_BAND_2GHZ, center_freq = 2437\<rparr>\<rparr>"

theorem join_fallback_witness:
  "\<exists>ext1. brcmf_get_struct_for_connect_v1 wit_env True wit_join = Some ext1 \<and>
    brcmf_get_join_from_ext_join_v1 True ext1
      = Some (Some (brcmf_joinscan_set_ssid [65] @ [1, 0, 0, 0] @ replicate 6 0xFF @ [0, 0, 1, 0, 0, 0, 0, 0]))"
proof -
  have ch: "ce_channel wit_env \<noteq> 0" "jr_chan wit_join = Some \<lparr>ic_band = NL80211_BAND_2GHZ, center_freq = 2437\<rparr>"
    "\<forall>b. jr_bssid wit_join = Some b \<longrightarrow> length b = 6" by (simp_all add: wit_env_def wit_join_def)
  obtain e0 e1 where e: "brcmf_get_struct_for_connect_v0 wit_env True wit_join = Some e0"
      "brcmf_get_struct_for_connect_v1 wit_env True wit_join = Some e1"
    by (auto simp: brcmf_get_struct_for_connect_v0_def brcmf_get_struct_for_connect_v1_def connect_chans_def ch
        brcmf_joinscan_set_single_chanspec_from_channel_def)
  show ?thesis using join_fallback [OF ch e] e(2)
    by (simp add: wit_join_def assoc_v0_def brcmf_joinscan_set_bssid_def broadcast_def eval_nat_numeral)
qed

section \<open>Interfaces when the version is unknown\<close>

text \<open>When the firmware does not tell the version of its interface command, the driver means to try versions two
  and one; but the two arguments change places. A station request then asks the firmware nothing and always
  fails, and an access point request is sent once or twice as version 1 with no type at all.\<close>

theorem interface_create_swapped:
  assumes "ask_int w ifp (BSSCFG ''interface_create'') 0 f = Some (err, ver, f')" and "err \<noteq> 0"
  shows "brcmf_cfg80211_request_sta_if w ifp macaddr d f = Some (- 22, d, f') \<and>
    brcmf_cfg80211_request_if w ifp 1 None d f = (
      let req = (\<lambda>ty. le16 1 @ [0, 0] @ le32 ty @ replicate 6 0 @ [0, 0] @ le32 0) in do {
      (e2, _, f2) \<leftarrow> fil_ask w ifp (IOVAR ''interface_create'') (req 2) f';
      if e2 = 0 then Some (0, d, f2) else do {
      (e1, _, f1) \<leftarrow> fil_ask w ifp (IOVAR ''interface_create'') (req 1) f2;
      Some (if e1 = 0 then 0 else - 22, d, f1) } })"
  using assms by (simp add: brcmf_cfg80211_request_sta_if_def brcmf_cfg80211_request_if_def
      brcmf_cfg80211_request_if_internal_def if_request_mac_def Let_def split: Option.bind_splits)

theorem interface_create_swapped_witness:
  "brcmf_cfg80211_request_sta_if (rec_fil (\<lambda>v b. b) (\<lambda>_. True)\<lparr>fil_ask := \<lambda>i v b f. Some (- 23, b, f)\<rparr>) wit_if None
    \<lparr>sta_mac_idx = 0, if_mac = [0, 1, 2, 3, 4, 5], if_taken = replicate 16 False\<rparr> []
    = Some (- 22, \<lparr>sta_mac_idx = 0, if_mac = [0, 1, 2, 3, 4, 5], if_taken = replicate 16 False\<rparr>, [])"
  using interface_create_swapped [of "rec_fil (\<lambda>v b. b) (\<lambda>_. True)\<lparr>fil_ask := \<lambda>i v b f. Some (- 23, b, f)\<rparr>" wit_if "[]" "- 23"]
  by (simp add: ask_int_def)

end
