(* ===== verification/CfgSec.thy ===== *)
theory CfgSec
  imports CfgIe BtCoex Params
begin

text \<open>
  Keys, security settings and connecting in \<open>cfg80211.c\<close>, with the password requests of the vendor modules
  (\<open>cyw/core.c\<close>, \<open>wcc/core.c\<close>). An operation has the virtual interface and the firmware as state and returns
  the code's error number. Waiting for authentication frames to leave (\<open>brcmf_netdev_wait_pend8021x\<close>) changes
  nothing the model has.
\<close>

section \<open>Constants\<close>

abbreviation E_IO :: int where "E_IO \<equiv> - 5"
abbreviation E_AGAIN :: int where "E_AGAIN \<equiv> - 11"
abbreviation E_OPNOTSUPP :: int where "E_OPNOTSUPP \<equiv> - 95"

abbreviation WLAN_CIPHER_SUITE_WEP40 :: u32 where "WLAN_CIPHER_SUITE_WEP40 \<equiv> 0x000FAC01"
abbreviation WLAN_CIPHER_SUITE_TKIP :: u32 where "WLAN_CIPHER_SUITE_TKIP \<equiv> 0x000FAC02"
abbreviation WLAN_CIPHER_SUITE_CCMP :: u32 where "WLAN_CIPHER_SUITE_CCMP \<equiv> 0x000FAC04"
abbreviation WLAN_CIPHER_SUITE_WEP104 :: u32 where "WLAN_CIPHER_SUITE_WEP104 \<equiv> 0x000FAC05"
abbreviation WLAN_CIPHER_SUITE_AES_CMAC :: u32 where "WLAN_CIPHER_SUITE_AES_CMAC \<equiv> 0x000FAC06"
abbreviation WLAN_CIPHER_SUITE_GCMP_256 :: u32 where "WLAN_CIPHER_SUITE_GCMP_256 \<equiv> 0x000FAC09"
abbreviation WLAN_CIPHER_SUITE_BIP_GMAC_256 :: u32 where "WLAN_CIPHER_SUITE_BIP_GMAC_256 \<equiv> 0x000FAC0C"

abbreviation WLAN_AKM_SUITE_8021X :: u32 where "WLAN_AKM_SUITE_8021X \<equiv> 0x000FAC01"
abbreviation WLAN_AKM_SUITE_PSK :: u32 where "WLAN_AKM_SUITE_PSK \<equiv> 0x000FAC02"
abbreviation WLAN_AKM_SUITE_FT_8021X :: u32 where "WLAN_AKM_SUITE_FT_8021X \<equiv> 0x000FAC03"
abbreviation WLAN_AKM_SUITE_FT_PSK :: u32 where "WLAN_AKM_SUITE_FT_PSK \<equiv> 0x000FAC04"
abbreviation WLAN_AKM_SUITE_8021X_SHA256 :: u32 where "WLAN_AKM_SUITE_8021X_SHA256 \<equiv> 0x000FAC05"
abbreviation WLAN_AKM_SUITE_PSK_SHA256 :: u32 where "WLAN_AKM_SUITE_PSK_SHA256 \<equiv> 0x000FAC06"
abbreviation WLAN_AKM_SUITE_SAE :: u32 where "WLAN_AKM_SUITE_SAE \<equiv> 0x000FAC08"
abbreviation WLAN_AKM_SUITE_FT_OVER_SAE :: u32 where "WLAN_AKM_SUITE_FT_OVER_SAE \<equiv> 0x000FAC09"
abbreviation WLAN_AKM_SUITE_8021X_SUITE_B_192 :: u32 where "WLAN_AKM_SUITE_8021X_SUITE_B_192 \<equiv> 0x000FAC0C"
abbreviation WLAN_AKM_SUITE_OWE :: u32 where "WLAN_AKM_SUITE_OWE \<equiv> 0x000FAC12"
abbreviation WLAN_AKM_SUITE_DPP :: u32 where "WLAN_AKM_SUITE_DPP \<equiv> 0x506F9A02"

abbreviation CRYPTO_ALGO_WEP1 :: u32 where "CRYPTO_ALGO_WEP1 \<equiv> 1"
abbreviation CRYPTO_ALGO_TKIP :: u32 where "CRYPTO_ALGO_TKIP \<equiv> 2"
abbreviation CRYPTO_ALGO_WEP128 :: u32 where "CRYPTO_ALGO_WEP128 \<equiv> 3"
abbreviation CRYPTO_ALGO_AES_CCM :: u32 where "CRYPTO_ALGO_AES_CCM \<equiv> 4"
abbreviation CRYPTO_ALGO_AES_GCM256 :: u32 where "CRYPTO_ALGO_AES_GCM256 \<equiv> 16"
abbreviation CRYPTO_ALGO_BIP_GMAC256 :: u32 where "CRYPTO_ALGO_BIP_GMAC256 \<equiv> 19"

abbreviation BRCMF_PRIMARY_KEY :: u32 where "BRCMF_PRIMARY_KEY \<equiv> 2"

definition KEY_ALGO_MASK :: "u32 \<Rightarrow> u32" where
  "KEY_ALGO_MASK algo = push_bit (unat algo) 1"

section \<open>The driver's state and the request\<close>

text \<open>What the kernel is told.\<close>

datatype up_call = Disconnected nat u16 bool | Carrier nat bool

record brcmf_cfg80211_info =
  cfg_channel :: u32
  ibss_starter :: bool
  scan_suppress :: bool
  cfg_btcoex :: brcmf_btcoex_info
  up_calls :: "up_call list"

text \<open>Allocations by name, the environment of channels, of coexistence, the join structures of the version, the
  password request of the vendor module, and whether the interface is the primary one.\<close>

datatype alloc_site = ALLOC_MGMT_IE | ALLOC_WSEC_INFO | ALLOC_JOIN | ALLOC_FALLBACK

record cfg80211_connect_params =
  cp_ssid :: "u8 list option"
  cp_bssid :: "u8 list option"
  cp_bssid_hint :: "u8 list option"
  cp_channel :: "ieee80211_channel option"
  cp_channel_hint :: "ieee80211_channel option"
  cp_ie :: "u8 list"
  wpa_versions :: u32
  n_akm_suites :: nat
  akm_suites :: "u32 list"
  n_ciphers_pairwise :: nat
  ciphers_pairwise :: "u32 list"
  cipher_group :: u32
  cp_psk :: "u8 list option"
  sae_pwd :: "u8 list option"
  want_1x :: bool
  auth_type :: u32
  privacy :: bool
  cp_key :: "u8 list"
  key_len :: u32
  key_idx :: u8
  bss_behaviour :: nat
  bss_band :: nl80211_band
  bss_delta :: u8

record 'f cfg_env =
  ce_alloc :: "alloc_site \<Rightarrow> bool"
  ce_chan :: chan_env
  ce_btc :: btc_env
  ce_join :: join_handler
  ce_sae :: "fil_if \<Rightarrow> cfg80211_connect_params \<Rightarrow> 'f \<Rightarrow> (int \<times> 'f) option"
  ce_primary :: bool
  ce_stack :: "u8 list"

definition set_profile :: "(brcmf_cfg80211_profile \<Rightarrow> brcmf_cfg80211_profile) \<Rightarrow> brcmf_cfg80211_vif \<Rightarrow> brcmf_cfg80211_vif" where
  "set_profile g vif = vif\<lparr>profile := g (profile vif)\<rparr>"

definition set_sme :: "brcmf_vif_status \<Rightarrow> bool \<Rightarrow> brcmf_cfg80211_vif \<Rightarrow> brcmf_cfg80211_vif" where
  "set_sme st on vif = vif\<lparr>sme_state := (if on then insert st else (\<lambda>s. s - {st})) (sme_state vif)\<rparr>"

section \<open>Keys\<close>

definition brcmf_init_prof :: "brcmf_cfg80211_profile \<Rightarrow> brcmf_cfg80211_profile" where
  "brcmf_init_prof prof = \<lparr>prof_bssid = replicate 6 0, sec_wpa_versions = 0, sec_auth_type = 0, sec_cipher_pairwise = 0,
     sec_cipher_group = 0, prof_key = replicate 6 \<lparr>k_index = 0, k_len = 0, k_data = replicate 32 0, k_algo = 0, k_flags = 0,
       rxiv_hi = 0, rxiv_lo = 0, iv_initialized = False, k_ea = replicate 6 0\<rparr>,
     use_fwsup = FWSUP_NONE, use_fwauth = 0, is_ft = False, is_okc = False\<rparr>"

definition zero_key :: brcmf_wsec_key where
  "zero_key = \<lparr>k_index = 0, k_len = 0, k_data = replicate 32 0, k_algo = 0, k_flags = 0,
     rxiv_hi = 0, rxiv_lo = 0, iv_initialized = False, k_ea = replicate 6 0\<rparr>"

text \<open>The structure on the stack has 164 bytes; the padding keeps what was there.\<close>

fun write_fields :: "u8 list \<Rightarrow> (nat \<times> u8 list) list \<Rightarrow> u8 list option" where
  "write_fields buf [] = Some buf"
| "write_fields buf ((off, bs) # fs) = do { buf \<leftarrow> write_bytes buf off bs; write_fields buf fs }"

definition convert_key_from_CPU :: "brcmf_wsec_key \<Rightarrow> u8 list \<Rightarrow> u8 list option" where
  "convert_key_from_CPU key key_le = write_fields key_le
     [(0, le32 (k_index key)), (4, le32 (k_len key)), (112, le32 (k_algo key)), (116, le32 (k_flags key)),
      (140, le32 (rxiv_hi key)), (144, le16 (rxiv_lo key)), (132, le32 (if iv_initialized key then 1 else 0)),
      (8, take 32 (k_data key)), (156, take 6 (k_ea key))]"

definition send_key_to_dongle :: "'f fil \<Rightarrow> 'f cfg_env \<Rightarrow> fil_if \<Rightarrow> brcmf_wsec_key \<Rightarrow> 'f \<Rightarrow> (int \<times> 'f) option" where
  "send_key_to_dongle w e ifp key f = do {
     key_le \<leftarrow> convert_key_from_CPU key (ce_stack e);
     fil_put w ifp (BSSCFG ''wsec_key'') (Some key_le) f }"

text \<open>\<open>BRCMF_C_SET_WSEC_PMK\<close> is 268; the structure has 262 bytes.\<close>

definition brcmf_set_wsec :: "'f fil \<Rightarrow> fil_if \<Rightarrow> u8 list \<Rightarrow> u16 \<Rightarrow> u16 \<Rightarrow> 'f \<Rightarrow> (int \<times> 'f) option" where
  "brcmf_set_wsec w ifp key len flags f = (
     if 256 < unat len then Some (E_INVAL, f)
     else do {
       key \<leftarrow> read_bytes key 0 (unat len);
       fil_put w ifp (CMD 268) (Some (le16 len @ le16 flags @ key @ replicate (256 - length key) 0 @ le16 0)) f })"

definition brcmf_set_pmk :: "'f fil \<Rightarrow> fil_if \<Rightarrow> u8 list \<Rightarrow> u16 \<Rightarrow> 'f \<Rightarrow> (int \<times> 'f) option" where
  "brcmf_set_pmk w ifp pmk len f = brcmf_set_wsec w ifp pmk len 0 f"

text \<open>The two vendor modules with a password request. The buffer of the first is on the stack, too.\<close>

definition brcmf_cyw_set_sae_pwd :: "'f fil \<Rightarrow> u8 list \<Rightarrow> fil_if \<Rightarrow> cfg80211_connect_params \<Rightarrow> 'f \<Rightarrow> (int \<times> 'f) option" where
  "brcmf_cyw_set_sae_pwd w stack ifp p f = do {
     pwd \<leftarrow> sae_pwd p;
     if 256 < length pwd then Some (E_INVAL, f)
     else do {
       b \<leftarrow> write_bytes stack 0 (le16 (of_nat (length pwd)) @ pwd);
       fil_put w ifp (IOVAR ''sae_password'') (Some (take 258 b)) f } }"

definition brcmf_wcc_set_sae_pwd :: "'f fil \<Rightarrow> fil_if \<Rightarrow> cfg80211_connect_params \<Rightarrow> 'f \<Rightarrow> (int \<times> 'f) option" where
  "brcmf_wcc_set_sae_pwd w ifp p f = do {
     pwd \<leftarrow> sae_pwd p; brcmf_set_wsec w ifp pwd (of_nat (length pwd)) 1 f }"

text \<open>One type-length-value entry behind four bytes of header.\<close>

definition brcmf_set_wsec_info_algos :: "'f fil \<Rightarrow> bool \<Rightarrow> fil_if \<Rightarrow> u32 \<Rightarrow> u32 \<Rightarrow> 'f \<Rightarrow> (int \<times> 'f) option" where
  "brcmf_set_wsec_info_algos w mem ifp algos mask_bits f = (
     if \<not> mem then Some (E_NOMEM, f)
     else do {
       tlv \<leftarrow> brcmf_xtlv_pack_header (replicate 14 0) 0x0106 8 (Some (le32 algos @ le32 mask_bits)) 0;
       fil_put w ifp (BSSCFG ''wsec_info'') (Some ([1, 0, 0, 1] @ take 12 tlv)) f })"

definition brcmf_cfg80211_config_default_key ::
  "'f fil \<Rightarrow> brcmf_cfg80211_vif \<Rightarrow> u8 \<Rightarrow> u32 \<Rightarrow> 'f \<Rightarrow> (int \<times> 'f) option" where
  "brcmf_cfg80211_config_default_key w vif idx junk f = (
     if \<not> check_vif_up vif then Some (E_IO, f)
     else do {
       (err, wsec, f) \<leftarrow> ask_int w (vif_ifp vif) (BSSCFG ''wsec'') junk f;
       if err \<noteq> 0 then Some (err, f)
       else if wsec AND WEP_ENABLED \<noteq> 0 then put_int w (vif_ifp vif) (CMD 236) (ucast idx) f
       else Some (0, f) })"

definition brcmf_cfg80211_del_key ::
  "'f fil \<Rightarrow> 'f cfg_env \<Rightarrow> brcmf_cfg80211_vif \<Rightarrow> u8 \<Rightarrow> 'f \<Rightarrow> (int \<times> brcmf_cfg80211_vif \<times> 'f) option" where
  "brcmf_cfg80211_del_key w e vif idx f = (
     if \<not> check_vif_up vif then Some (E_IO, vif, f)
     else if 6 \<le> idx then Some (E_INVAL, vif, f)
     else do {
       key \<leftarrow> nth_opt (prof_key (profile vif)) (unat idx);
       if k_algo key = 0 then Some (E_INVAL, vif, f)
       else do {
         let key = zero_key\<lparr>k_index := ucast idx, k_flags := BRCMF_PRIMARY_KEY\<rparr>;
         let vif = set_profile (\<lambda>p. p\<lparr>prof_key := (prof_key p)[unat idx := key]\<rparr>) vif;
         (err, f) \<leftarrow> send_key_to_dongle w e (vif_ifp vif) key f;
         Some (err, vif, f) } })"

record key_params =
  kp_cipher :: u32
  kp_key :: "u8 list"
  kp_seq :: "u8 list option"

text \<open>The cipher's algorithm for the key and the mode bit, and the algorithms of the extended setting.\<close>

definition key_cipher :: "(brcmf_feat_id \<Rightarrow> bool) \<Rightarrow> u32 \<Rightarrow> (u32 \<times> u32 \<times> u32 \<times> u32, int) sum" where
  "key_cipher feat cipher = (
     if cipher = WLAN_CIPHER_SUITE_WEP40 then Inl (CRYPTO_ALGO_WEP1, WEP_ENABLED, 0, 0)
     else if cipher = WLAN_CIPHER_SUITE_WEP104 then Inl (CRYPTO_ALGO_WEP128, WEP_ENABLED, 0, 0)
     else if cipher = WLAN_CIPHER_SUITE_TKIP then Inl (CRYPTO_ALGO_TKIP, TKIP_ENABLED, 0, 0)
     else if cipher = WLAN_CIPHER_SUITE_AES_CMAC then Inl (CRYPTO_ALGO_AES_CCM, AES_ENABLED, 0, 0)
     else if cipher = WLAN_CIPHER_SUITE_CCMP then Inl (CRYPTO_ALGO_AES_CCM, AES_ENABLED, 0, 0)
     else if cipher = WLAN_CIPHER_SUITE_GCMP_256 then
       (if feat FEAT_GCMP then Inl (CRYPTO_ALGO_AES_GCM256, AES_ENABLED, KEY_ALGO_MASK CRYPTO_ALGO_AES_GCM256,
          KEY_ALGO_MASK CRYPTO_ALGO_AES_GCM256 OR KEY_ALGO_MASK CRYPTO_ALGO_AES_CCM) else Inr E_OPNOTSUPP)
     else if cipher = WLAN_CIPHER_SUITE_BIP_GMAC_256 then
       (if feat FEAT_GCMP then Inl (CRYPTO_ALGO_BIP_GMAC256, AES_ENABLED, KEY_ALGO_MASK CRYPTO_ALGO_BIP_GMAC256,
          KEY_ALGO_MASK CRYPTO_ALGO_BIP_GMAC256 OR KEY_ALGO_MASK CRYPTO_ALGO_AES_CCM) else Inr E_OPNOTSUPP)
     else Inr E_INVAL)"

text \<open>The receive and transmit integrity keys change places.\<close>

definition swap_mic :: "u8 list \<Rightarrow> u8 list" where
  "swap_mic d = take 16 d @ take 8 (drop 24 d) @ take 8 (drop 16 d) @ drop 32 d"

text \<open>The key before the cipher is looked at.\<close>

definition plain_key :: "bool \<Rightarrow> u8 list option \<Rightarrow> u8 \<Rightarrow> key_params \<Rightarrow> brcmf_wsec_key option" where
  "plain_key ext mac idx p = do {
     let key = zero_key;
     key \<leftarrow> (if ext then do {
         m \<leftarrow> mac;
         m0 \<leftarrow> nth_opt m 0;
         if m0 AND 1 = 0 then do { ea \<leftarrow> read_bytes m 0 6; Some (key\<lparr>k_ea := ea\<rparr>) } else Some key }
       else Some key);
     let key = key\<lparr>k_len := of_nat (length (kp_key p)), k_index := ucast idx,
       k_data := kp_key p @ replicate (32 - length (kp_key p)) 0, k_flags := (if ext then 0 else BRCMF_PRIMARY_KEY)\<rparr>;
     Some (case kp_seq p of
       Some s \<Rightarrow> if length s = 6 then key\<lparr>rxiv_hi := of_le32 (s ! 2) (s ! 3) (s ! 4) (s ! 5),
                      rxiv_lo := of_le16 (s ! 0) (s ! 1), iv_initialized := True\<rparr> else key
     | None \<Rightarrow> key) }"

definition brcmf_cfg80211_add_key ::
  "'f fil \<Rightarrow> 'f cfg_env \<Rightarrow> brcmf_cfg80211_vif \<Rightarrow> u8 \<Rightarrow> u8 list option \<Rightarrow> key_params \<Rightarrow> u32 \<Rightarrow> 'f
     \<Rightarrow> (int \<times> brcmf_cfg80211_vif \<times> 'f) option" where
  "brcmf_cfg80211_add_key w e vif idx mac p junk f = (
     if \<not> check_vif_up vif then Some (E_IO, vif, f)
     else if 6 \<le> idx then Some (E_INVAL, vif, f)
     else if kp_key p = [] then brcmf_cfg80211_del_key w e vif idx f
     else if 32 < length (kp_key p) then Some (E_INVAL, vif, f)
     else do {
       let ext = (mac \<noteq> None \<and> kp_cipher p \<noteq> WLAN_CIPHER_SUITE_WEP40 \<and> kp_cipher p \<noteq> WLAN_CIPHER_SUITE_WEP104);
       key \<leftarrow> plain_key ext mac idx p;
       let store = (\<lambda>key. set_profile (\<lambda>pr. pr\<lparr>prof_key := (prof_key pr)[unat idx := key]\<rparr>) vif);
       case key_cipher (feat_enabled w) (kp_cipher p) of
         Inr err \<Rightarrow> Some (err, store key, f)
       | Inl (algo, val, algos, mask_bits) \<Rightarrow> do {
           let key = key\<lparr>k_algo := algo,
             k_data := (if algo = CRYPTO_ALGO_TKIP \<and> \<not> brcmf_is_apmode vif then swap_mic else (\<lambda>d. d)) (k_data key)\<rparr>;
           let vif = store key;
           let ifp = vif_ifp vif;
           (err, f) \<leftarrow> send_key_to_dongle w e ifp key f;
           if ext \<or> err \<noteq> 0 then Some (err, vif, f)
           else do {
             (err, wsec, f) \<leftarrow> ask_int w ifp (BSSCFG ''wsec'') junk f;
             if err \<noteq> 0 then Some (err, vif, f)
             else do {
               (err, f) \<leftarrow> put_int w ifp (BSSCFG ''wsec'') (wsec OR val) f;
               if err \<noteq> 0 then Some (err, vif, f)
               else if feat_enabled w FEAT_GCMP then do {
                 (err, f) \<leftarrow> brcmf_set_wsec_info_algos w (ce_alloc e ALLOC_WSEC_INFO) ifp algos mask_bits f;
                 Some (err, vif, f) }
               else Some (0, vif, f) } } } })"

text \<open>The cipher the callback is given.\<close>

definition brcmf_cfg80211_get_key :: "'f fil \<Rightarrow> brcmf_cfg80211_vif \<Rightarrow> u32 \<Rightarrow> 'f \<Rightarrow> (int \<times> u32 option \<times> 'f) option" where
  "brcmf_cfg80211_get_key w vif junk f = (
     if \<not> check_vif_up vif then Some (E_IO, None, f)
     else do {
       (err, wsec, f) \<leftarrow> ask_int w (vif_ifp vif) (BSSCFG ''wsec'') junk f;
       let sec = sec_cipher_pairwise (profile vif);
       if err \<noteq> 0 then Some (E_AGAIN, None, f)
       else if wsec AND WEP_ENABLED \<noteq> 0 then
         Some (0, Some (if sec AND WLAN_CIPHER_SUITE_WEP40 \<noteq> 0 then WLAN_CIPHER_SUITE_WEP40
           else if sec AND WLAN_CIPHER_SUITE_WEP104 \<noteq> 0 then WLAN_CIPHER_SUITE_WEP104 else 0), f)
       else if wsec AND TKIP_ENABLED \<noteq> 0 then Some (0, Some WLAN_CIPHER_SUITE_TKIP, f)
       else if wsec AND AES_ENABLED \<noteq> 0 then Some (0, Some WLAN_CIPHER_SUITE_AES_CMAC, f)
       else Some (E_INVAL, None, f) })"

definition brcmf_cfg80211_config_default_mgmt_key :: "'f fil \<Rightarrow> int" where
  "brcmf_cfg80211_config_default_mgmt_key w = (if feat_enabled w FEAT_MFP then 0 else E_OPNOTSUPP)"

definition brcmf_cfg80211_reconfigure_wep :: "'f fil \<Rightarrow> 'f cfg_env \<Rightarrow> brcmf_cfg80211_vif \<Rightarrow> u32 \<Rightarrow> 'f \<Rightarrow> 'f option" where
  "brcmf_cfg80211_reconfigure_wep w e vif junk f = (
     case filter (\<lambda>k. k_algo k = CRYPTO_ALGO_WEP1 \<or> k_algo k = CRYPTO_ALGO_WEP128) (prof_key (profile vif)) of
       [] \<Rightarrow> Some f
     | key # _ \<Rightarrow> do {
         (err, f) \<leftarrow> send_key_to_dongle w e (vif_ifp vif) key f;
         if err \<noteq> 0 then Some f
         else do {
           (err, wsec, f) \<leftarrow> ask_int w (vif_ifp vif) (BSSCFG ''wsec'') junk f;
           if err \<noteq> 0 then Some f
           else do { (_, f) \<leftarrow> put_int w (vif_ifp vif) (BSSCFG ''wsec'') (wsec OR WEP_ENABLED) f; Some f } } })"


section \<open>Security settings of a connection\<close>

definition wpa_version_auth :: "cfg80211_connect_params \<Rightarrow> u32 option" where
  "wpa_version_auth p = (
     if wpa_versions p AND 1 \<noteq> 0 then Some (WPA_AUTH_PSK OR WPA_AUTH_UNSPECIFIED)
     else if wpa_versions p AND 2 \<noteq> 0 then do {
       a \<leftarrow> nth_opt (akm_suites p) 0;
       Some (if a = WLAN_AKM_SUITE_SAE then WPA3_AUTH_SAE_PSK else if a = WLAN_AKM_SUITE_OWE then WPA3_AUTH_OWE
         else WPA2_AUTH_PSK OR WPA2_AUTH_UNSPECIFIED) }
     else if wpa_versions p AND 4 \<noteq> 0 then Some WPA3_AUTH_SAE_PSK
     else Some WPA_AUTH_DISABLED)"

definition brcmf_set_wpa_version ::
  "'f fil \<Rightarrow> brcmf_cfg80211_vif \<Rightarrow> cfg80211_connect_params \<Rightarrow> 'f \<Rightarrow> (int \<times> brcmf_cfg80211_vif \<times> 'f) option" where
  "brcmf_set_wpa_version w vif p f = do {
     val \<leftarrow> wpa_version_auth p;
     (err, f) \<leftarrow> put_int w (vif_ifp vif) (BSSCFG ''wpa_auth'') val f;
     Some (err, if err \<noteq> 0 then vif else set_profile (\<lambda>pr. pr\<lparr>sec_wpa_versions := wpa_versions p\<rparr>) vif, f) }"

text \<open>The numbers of \<open>enum nl80211_auth_type\<close>: open 0, shared key 1, SAE 4, automatic 8.\<close>

definition brcmf_set_auth_type ::
  "'f fil \<Rightarrow> brcmf_cfg80211_vif \<Rightarrow> u32 \<Rightarrow> 'f \<Rightarrow> (int \<times> brcmf_cfg80211_vif \<times> 'f) option" where
  "brcmf_set_auth_type w vif t f = do {
     (err, f) \<leftarrow> put_int w (vif_ifp vif) (BSSCFG ''auth'') (if t = 0 then 0 else if t = 1 then 1 else if t = 4 then 3 else 2) f;
     Some (err, if err \<noteq> 0 then vif else set_profile (\<lambda>pr. pr\<lparr>sec_auth_type := t\<rparr>) vif, f) }"

text \<open>The mode bit of a cipher, and whether it is the extended one.\<close>

definition wsec_cipher :: "(brcmf_feat_id \<Rightarrow> bool) \<Rightarrow> u32 \<Rightarrow> (u32 \<times> bool, int) sum" where
  "wsec_cipher feat c = (
     if c = WLAN_CIPHER_SUITE_WEP40 \<or> c = WLAN_CIPHER_SUITE_WEP104 then Inl (WEP_ENABLED, False)
     else if c = WLAN_CIPHER_SUITE_TKIP then Inl (TKIP_ENABLED, False)
     else if c = WLAN_CIPHER_SUITE_CCMP \<or> c = WLAN_CIPHER_SUITE_AES_CMAC then Inl (AES_ENABLED, False)
     else if c = WLAN_CIPHER_SUITE_GCMP_256 then (if feat FEAT_GCMP then Inl (AES_ENABLED, True) else Inr E_OPNOTSUPP)
     else Inr E_INVAL)"

definition brcmf_set_wsec_mode ::
  "'f fil \<Rightarrow> 'f cfg_env \<Rightarrow> brcmf_cfg80211_vif \<Rightarrow> cfg80211_connect_params \<Rightarrow> 'f \<Rightarrow> (int \<times> brcmf_cfg80211_vif \<times> 'f) option" where
  "brcmf_set_wsec_mode w e vif p f = do {
     c0 \<leftarrow> nth_opt (ciphers_pairwise p) 0;
     let feat = feat_enabled w;
     let pw = (if n_ciphers_pairwise p \<noteq> 0 then wsec_cipher feat c0 else Inl (0, False));
     let gr = (if cipher_group p \<noteq> 0 then wsec_cipher feat (cipher_group p) else Inl (0, False));
     case pw of Inr err \<Rightarrow> Some (err, vif, f)
     | Inl (pval, pgcm) \<Rightarrow> (case gr of Inr err \<Rightarrow> Some (err, vif, f)
       | Inl (gval, ggcm) \<Rightarrow> do {
           wps \<leftarrow> brcmf_find_wpsie (cp_ie p) (of_nat (length (cp_ie p)));
           let pval = (if wps \<noteq> None \<and> pval = 0 \<and> gval = 0 \<and> privacy p then AES_ENABLED else pval);
           (err, f) \<leftarrow> put_int w (vif_ifp vif) (BSSCFG ''wsec'') (pval OR gval) f;
           if err \<noteq> 0 then Some (err, vif, f)
           else do {
             (err, f) \<leftarrow> (if feat FEAT_GCMP then
                let algos = (if pgcm \<or> ggcm then KEY_ALGO_MASK CRYPTO_ALGO_AES_GCM256 else 0) in
                brcmf_set_wsec_info_algos w (ce_alloc e ALLOC_WSEC_INFO) (vif_ifp vif) algos
                  (if pgcm \<or> ggcm then algos OR KEY_ALGO_MASK CRYPTO_ALGO_AES_CCM else 0) f
              else Some (0, f));
             Some (err, if err \<noteq> 0 then vif
               else set_profile (\<lambda>pr. pr\<lparr>sec_cipher_pairwise := c0, sec_cipher_group := cipher_group p\<rparr>) vif, f) } }) }"

text \<open>The authentication of the first key management suite, given the one set before: value, supplicant, fast
  transition. A suite that does not belong to the version is an error.\<close>

definition fwsup_1x :: "cfg80211_connect_params \<Rightarrow> brcmf_profile_fwsup" where
  "fwsup_1x p = (if want_1x p then FWSUP_1X else FWSUP_ROAM)"

definition key_mgmt_wpa :: "cfg80211_connect_params \<Rightarrow> u32 \<Rightarrow> (u32 \<times> brcmf_profile_fwsup \<times> bool) option" where
  "key_mgmt_wpa p a = (
     if a = WLAN_AKM_SUITE_8021X then Some (WPA_AUTH_UNSPECIFIED, fwsup_1x p, False)
     else if a = WLAN_AKM_SUITE_PSK then Some (WPA_AUTH_PSK, FWSUP_NONE, False)
     else None)"

definition key_mgmt_wpa2 :: "(brcmf_feat_id \<Rightarrow> bool) \<Rightarrow> cfg80211_connect_params \<Rightarrow> u32 \<Rightarrow> (u32 \<times> brcmf_profile_fwsup \<times> bool) option" where
  "key_mgmt_wpa2 feat p a = (
     if a = WLAN_AKM_SUITE_8021X then Some (WPA2_AUTH_UNSPECIFIED, fwsup_1x p, False)
     else if a = WLAN_AKM_SUITE_8021X_SHA256 then Some (WPA2_AUTH_1X_SHA256, fwsup_1x p, False)
     else if a = WLAN_AKM_SUITE_PSK_SHA256 then Some (WPA2_AUTH_PSK_SHA256, FWSUP_NONE, False)
     else if a = WLAN_AKM_SUITE_PSK then Some (WPA2_AUTH_PSK, FWSUP_NONE, False)
     else if a = WLAN_AKM_SUITE_FT_8021X then Some (WPA2_AUTH_UNSPECIFIED OR WPA2_AUTH_FT, fwsup_1x p, True)
     else if a = WLAN_AKM_SUITE_FT_PSK then
       Some (WPA2_AUTH_PSK OR WPA2_AUTH_FT, if feat FEAT_FWSUP then FWSUP_PSK else FWSUP_ROAM, True)
     else if a = WLAN_AKM_SUITE_DPP then Some (WFA_AUTH_DPP, FWSUP_NONE, False)
     else if a = WLAN_AKM_SUITE_OWE then Some (WPA3_AUTH_OWE, FWSUP_ROAM, False)
     else if a = WLAN_AKM_SUITE_8021X_SUITE_B_192 then Some (WPA3_AUTH_1X_SUITE_B_SHA384, fwsup_1x p, False)
     else None)"

definition key_mgmt_wpa3 :: "cfg80211_connect_params \<Rightarrow> u32 \<Rightarrow> (u32 \<times> brcmf_profile_fwsup \<times> bool) option" where
  "key_mgmt_wpa3 p a = (let fws = (if sae_pwd p \<noteq> None then FWSUP_SAE else FWSUP_NONE) in
     if a = WLAN_AKM_SUITE_SAE then Some (WPA3_AUTH_SAE_PSK, fws, False)
     else if a = WLAN_AKM_SUITE_FT_OVER_SAE then Some (WPA3_AUTH_SAE_PSK OR WPA2_AUTH_FT, fws, True)
     else None)"

definition key_mgmt_suite ::
  "(brcmf_feat_id \<Rightarrow> bool) \<Rightarrow> cfg80211_connect_params \<Rightarrow> u32 \<Rightarrow> u32 \<Rightarrow> (u32 \<times> brcmf_profile_fwsup \<times> bool) option" where
  "key_mgmt_suite feat p val a = (
     if val AND (WPA_AUTH_PSK OR WPA_AUTH_UNSPECIFIED) \<noteq> 0 then key_mgmt_wpa p a
     else if val AND (WPA2_AUTH_PSK OR WPA2_AUTH_UNSPECIFIED OR WPA2_AUTH_1X_SHA256) \<noteq> 0 then key_mgmt_wpa2 feat p a
     else if val AND WPA3_AUTH_SAE_PSK \<noteq> 0 then key_mgmt_wpa3 p a
     else Some (val, FWSUP_NONE, False))"

text \<open>The capabilities in the RSN element at \<open>ie\<close>: their offset in it, when the element has them.\<close>

definition rsn_caps_offset :: "u8 list \<Rightarrow> nat \<Rightarrow> u32 \<Rightarrow> u32 option option" where
  "rsn_caps_offset buf ie ie_len = (let at = (\<lambda>off. do {
       a \<leftarrow> nth_opt buf (ie + unat off); b \<leftarrow> nth_opt buf (ie + unat (off + 1)); Some (ucast (of_le16 a b) :: u32) }) in
     if ie_len \<le> 8 + 2 then Some None
     else do {
       count \<leftarrow> at 8;
       let offset = 8 + 2 + count * 4;
       if ie_len \<le> offset + 2 then Some None
       else do {
         count \<leftarrow> at offset;
         let offset = offset + 2 + count * 4;
         if ie_len < offset + 2 then Some None else Some (Some offset) } })"

text \<open>The group management cipher behind the list of key identifiers; lengths are unsigned.\<close>

definition rsn_group_mgmt :: "u8 list \<Rightarrow> nat \<Rightarrow> u32 \<Rightarrow> u32 \<Rightarrow> u8 list option option" where
  "rsn_group_mgmt buf ie ie_len offset = (
     if ie_len - offset < 2 then Some None
     else do {
       a \<leftarrow> nth_opt buf (ie + unat offset);
       b \<leftarrow> nth_opt buf (ie + unat (offset + 1));
       let offset = offset + 2 + ucast (of_le16 a b) * 16;
       if ie_len - offset < 4 then Some None
       else do {
         cs \<leftarrow> read_bytes buf (ie + unat offset) 3;
         if cs = RSN_OUI then do { cs \<leftarrow> read_bytes buf (ie + unat offset) 4; Some (Some cs) } else Some None } })"

text \<open>Protection of management frames, out of the RSN element; for DPP the authentication is set first.\<close>

definition key_mgmt_mfp ::
  "'f fil \<Rightarrow> brcmf_cfg80211_vif \<Rightarrow> cfg80211_connect_params \<Rightarrow> u32 \<Rightarrow> 'f \<Rightarrow> (int \<times> 'f) option" where
  "key_mgmt_mfp w vif p val f = (
     if \<not> feat_enabled w FEAT_MFP then Some (0, f)
     else do {
       rsn \<leftarrow> brcmf_parse_tlvs (cp_ie p) 0 (int (length (cp_ie p))) WLAN_EID_RSN;
       case rsn of None \<Rightarrow> Some (0, f)
       | Some ie \<Rightarrow> do {
           l \<leftarrow> nth_opt (cp_ie p) (ie + 1);
           let ie_len = ucast l + 2;
           off \<leftarrow> rsn_caps_offset (cp_ie p) ie ie_len;
           case off of None \<Rightarrow> Some (0, f)
           | Some offset \<Rightarrow> do {
               a \<leftarrow> nth_opt (cp_ie p) (ie + unat offset);
               let mfp = (if a AND 0x40 \<noteq> 0 then 2 else if a AND 0x80 \<noteq> 0 then 1 else 0);
               _ \<leftarrow> nth_opt (cp_ie p) (ie + unat (offset + 1));
               (err, f) \<leftarrow> (if val = WFA_AUTH_DPP then put_int w (vif_ifp vif) (BSSCFG ''wpa_auth'') val f else Some (0, f));
               if err \<noteq> 0 then Some (err, f)
               else do {
                 (_, f) \<leftarrow> put_int w (vif_ifp vif) (BSSCFG ''mfp'') mfp f;
                 cs \<leftarrow> (if mfp \<noteq> 0 then rsn_group_mgmt (cp_ie p) ie ie_len (offset + 2) else Some None);
                 case cs of None \<Rightarrow> Some (0, f)
                 | Some cs \<Rightarrow> do { (_, f) \<leftarrow> fil_put w (vif_ifp vif) (BSSCFG ''bip'') (Some cs) f; Some (0, f) } } } } })"

definition brcmf_set_key_mgmt ::
  "'f fil \<Rightarrow> brcmf_cfg80211_vif \<Rightarrow> cfg80211_connect_params \<Rightarrow> u32 \<Rightarrow> u32 \<Rightarrow> 'f \<Rightarrow> (int \<times> brcmf_cfg80211_vif \<times> 'f) option" where
  "brcmf_set_key_mgmt w vif p junk junk_okc f = (
     let ifp = vif_ifp vif;
         vif = set_profile (\<lambda>pr. pr\<lparr>use_fwsup := FWSUP_NONE, is_ft := False, is_okc := False\<rparr>) vif in
     if n_akm_suites p = 0 then Some (0, vif, f)
     else do {
       (err, val, f) \<leftarrow> ask_int w ifp (BSSCFG ''wpa_auth'') junk f;
       if err \<noteq> 0 then Some (err, vif, f)
       else do {
         a \<leftarrow> nth_opt (akm_suites p) 0;
         case key_mgmt_suite (feat_enabled w) p val a of
           None \<Rightarrow> Some (E_INVAL, vif, f)
         | Some (val, fws, ft) \<Rightarrow> do {
             let vif = set_profile (\<lambda>pr. pr\<lparr>use_fwsup := fws, is_ft := ft\<rparr>) vif;
             (err, vif, f) \<leftarrow> (if fws = FWSUP_1X \<or> fws = FWSUP_ROAM \<or> fws \<noteq> FWSUP_SAE \<and> val = WPA3_AUTH_SAE_PSK then do {
                 (err, okc, f) \<leftarrow> ask_int w ifp (BSSCFG ''okc_enable'') junk_okc f;
                 Some (err, if err \<noteq> 0 then vif else set_profile (\<lambda>pr. pr\<lparr>is_okc := okc \<noteq> 0\<rparr>) vif, f) }
               else Some (err, vif, f));
             (mfp_err, f) \<leftarrow> key_mgmt_mfp w vif p val f;
             if mfp_err \<noteq> 0 then Some (mfp_err, vif, f)
             else if val \<noteq> WFA_AUTH_DPP then do {
               (err, f) \<leftarrow> put_int w ifp (BSSCFG ''wpa_auth'') val f; Some (err, vif, f) }
             else Some (err, vif, f) } } })"

text \<open>A static WEP key that comes with the request.\<close>

definition brcmf_set_sharedkey ::
  "'f fil \<Rightarrow> 'f cfg_env \<Rightarrow> brcmf_cfg80211_vif \<Rightarrow> cfg80211_connect_params \<Rightarrow> 'f \<Rightarrow> (int \<times> 'f) option" where
  "brcmf_set_sharedkey w e vif p f = (let pr = profile vif in
     if key_len p = 0 \<or> sec_wpa_versions pr AND 7 \<noteq> 0
       \<or> sec_cipher_pairwise pr AND (WLAN_CIPHER_SUITE_WEP40 OR WLAN_CIPHER_SUITE_WEP104) = 0 then Some (0, f)
     else if 32 < key_len p then Some (E_INVAL, f)
     else do {
       d \<leftarrow> read_bytes (cp_key p) 0 (unat (key_len p));
       let key = zero_key\<lparr>k_len := key_len p, k_index := ucast (key_idx p), k_data := d @ replicate (32 - length d) 0,
         k_flags := BRCMF_PRIMARY_KEY\<rparr>;
       let algo = (if sec_cipher_pairwise pr = WLAN_CIPHER_SUITE_WEP40 then Some CRYPTO_ALGO_WEP1
         else if sec_cipher_pairwise pr = WLAN_CIPHER_SUITE_WEP104 then Some CRYPTO_ALGO_WEP128 else None);
       case algo of None \<Rightarrow> Some (E_INVAL, f)
       | Some algo \<Rightarrow> do {
           (err, f) \<leftarrow> send_key_to_dongle w e (vif_ifp vif) (key\<lparr>k_algo := algo\<rparr>) f;
           if err \<noteq> 0 then Some (err, f)
           else if sec_auth_type pr = 1 then put_int w (vif_ifp vif) (BSSCFG ''auth'') 1 f
           else Some (0, f) } })"

definition brcmf_war_auth_type :: "'f fil \<Rightarrow> u32 \<Rightarrow> u32" where
  "brcmf_war_auth_type w t = (if t = 8 \<and> quirk_enabled w QUIRK_AUTO_AUTH then 0 else t)"

definition brcmf_c_set_joinpref_default :: "'f fil \<Rightarrow> fil_if \<Rightarrow> 'f \<Rightarrow> 'f option" where
  "brcmf_c_set_joinpref_default w ifp f = do {
     (_, f) \<leftarrow> fil_put w ifp (IOVAR ''join_pref'') (Some [4, 2, 8, 1, 1, 2, 0, 0]) f; Some f }"

text \<open>Behaviours: none 0, signal 1, band 2, signal with an offset for a band 3. The second entry is not set when
  the first is the last.\<close>

definition brcmf_set_join_pref :: "'f fil \<Rightarrow> 'f cfg_env \<Rightarrow> fil_if \<Rightarrow> cfg80211_connect_params \<Rightarrow> 'f \<Rightarrow> 'f option" where
  "brcmf_set_join_pref w e ifp p f = do {
     f \<leftarrow> (if bss_behaviour p \<noteq> 2 then do { (_, f) \<leftarrow> put_int w ifp (CMD 205) 0 f; Some f } else Some f);
     if bss_behaviour p = 0 then brcmf_c_set_joinpref_default w ifp f
     else do {
       let rssi = [1, 2, 0, 0];
       b \<leftarrow> (if bss_behaviour p = 2 then Some ([3, 2, 0, nl80211_band_to_fwil (bss_band p)] @ rssi)
         else if bss_behaviour p = 3 then Some ([4, 2, bss_delta p, nl80211_band_to_fwil (bss_band p)] @ rssi)
         else do { junk \<leftarrow> read_bytes (ce_stack e) 0 4; Some (rssi @ junk) });
       (_, f) \<leftarrow> fil_put w ifp (IOVAR ''join_pref'') (Some b) f;
       Some f } }"

section \<open>Connecting\<close>

text \<open>The WPA element, or else the RSN element, for a primary interface.\<close>

definition connect_wpaie :: "'f fil \<Rightarrow> fil_if \<Rightarrow> u8 list \<Rightarrow> 'f \<Rightarrow> 'f option" where
  "connect_wpaie w ifp ies f = do {
     wpa \<leftarrow> brcmf_find_wpaie ies (of_nat (length ies));
     ie \<leftarrow> (case wpa of Some i \<Rightarrow> Some (Some i) | None \<Rightarrow> brcmf_parse_tlvs ies 0 (int (length ies)) WLAN_EID_RSN);
     data \<leftarrow> (case ie of None \<Rightarrow> Some None
       | Some i \<Rightarrow> do { l \<leftarrow> nth_opt ies (i + 1); b \<leftarrow> read_bytes ies i (unat l + 2); Some (Some b) });
     (_, f) \<leftarrow> fil_put w ifp (IOVAR ''wpaie'') data f;
     Some f }"

text \<open>The supplicant of the firmware: an error, whether the function is left, the profile.\<close>

definition connect_supplicant ::
  "'f fil \<Rightarrow> 'f cfg_env \<Rightarrow> brcmf_cfg80211_vif \<Rightarrow> cfg80211_connect_params \<Rightarrow> 'f \<Rightarrow> (int \<times> bool \<times> brcmf_cfg80211_vif \<times> 'f) option" where
  "connect_supplicant w e vif p f = (let ifp = vif_ifp vif; fws = use_fwsup (profile vif) in
     if \<not> feat_enabled w FEAT_FWSUP then Some (0, False, vif, f)
     else if cp_psk p \<noteq> None \<and> fws \<noteq> FWSUP_SAE \<and> fws \<noteq> FWSUP_PSK \<and> fws \<noteq> FWSUP_NONE then Some (E_INVAL, True, vif, f)
     else do {
       let vif = (if cp_psk p \<noteq> None \<and> fws \<noteq> FWSUP_SAE \<and> fws \<noteq> FWSUP_PSK
         then set_profile (\<lambda>pr. pr\<lparr>use_fwsup := FWSUP_PSK\<rparr>) vif else vif);
       let fws = use_fwsup (profile vif);
       (err, f) \<leftarrow> put_int w ifp (IOVAR ''sup_wpa'') (if fws \<noteq> FWSUP_NONE then 1 else 0) f;
       if fws \<noteq> FWSUP_NONE \<and> err < 0 then Some (err, True, vif, f)
       else if fws = FWSUP_PSK \<and> cp_psk p \<noteq> None then do {
         psk \<leftarrow> cp_psk p;
         (err, f) \<leftarrow> brcmf_set_pmk w ifp psk 32 f;
         Some (err, err \<noteq> 0, vif, f) }
       else if fws = FWSUP_SAE then do {
         (clean, f) \<leftarrow> fil_put w ifp (IOVAR ''wpaie'') None f;
         if clean \<noteq> 0 then Some (err, True, vif, f)
         else do {
           (err, f) \<leftarrow> ce_sae e ifp p f;
           (err, f) \<leftarrow> (case cp_psk p of Some psk \<Rightarrow> if err = 0 then brcmf_set_pmk w ifp psk 32 f else Some (err, f)
             | None \<Rightarrow> Some (err, f));
           Some (err, err \<noteq> 0, vif, f) } }
       else Some (err, err \<noteq> 0, vif, f) })"

text \<open>The join, and the fallback when the firmware refuses it. \<open>BRCMF_C_SET_SSID\<close> is 26.\<close>

definition connect_join ::
  "'f fil \<Rightarrow> 'f cfg_env \<Rightarrow> u32 \<Rightarrow> fil_if \<Rightarrow> join_req \<Rightarrow> 'f \<Rightarrow> (int \<times> 'f) option" where
  "connect_join w e channel ifp r f = do {
     params \<leftarrow> get_struct_for_connect (ce_join e) ((ce_chan e)\<lparr>ce_channel := channel\<rparr>) (ce_alloc e ALLOC_JOIN) r;
     (err, f) \<leftarrow> (case params of Some b \<Rightarrow> fil_put w ifp (BSSCFG ''join'') (Some b) f | None \<Rightarrow> Some (0, f));
     if params \<noteq> None \<and> err = 0 then Some (0, f)
     else do {
       fallback \<leftarrow> get_join_from_ext_join (ce_join e) (ce_alloc e ALLOC_FALLBACK) params;
       case fallback of None \<Rightarrow> Some (err, f)
       | Some b \<Rightarrow> fil_put w ifp (CMD 26) (Some b) f } }"

text \<open>One step after the other; the first error is the result.\<close>

definition connect_steps ::
  "'f fil \<Rightarrow> 'f cfg_env \<Rightarrow> u32 \<Rightarrow> brcmf_cfg80211_vif \<Rightarrow> cfg80211_connect_params \<Rightarrow> u32 \<Rightarrow> u32 \<Rightarrow> 'f
     \<Rightarrow> (int \<times> brcmf_cfg80211_vif \<times> 'f) option" where
  "connect_steps w e channel vif p junk junk_okc f = do {
     (err, vif, f) \<leftarrow> brcmf_set_wpa_version w vif p f;
     if err \<noteq> 0 then Some (err, vif, f) else do {
     (err, vif, f) \<leftarrow> brcmf_set_auth_type w vif (brcmf_war_auth_type w (auth_type p)) f;
     if err \<noteq> 0 then Some (err, vif, f) else do {
     (err, vif, f) \<leftarrow> brcmf_set_wsec_mode w e vif p f;
     if err \<noteq> 0 then Some (err, vif, f) else do {
     (err, vif, f) \<leftarrow> brcmf_set_key_mgmt w vif p junk junk_okc f;
     if err \<noteq> 0 then Some (err, vif, f) else do {
     (err, f) \<leftarrow> brcmf_set_sharedkey w e vif p f;
     if err \<noteq> 0 then Some (err, vif, f) else do {
     (err, leave, vif, f) \<leftarrow> connect_supplicant w e vif p f;
     if leave then Some (err, vif, f) else do {
     f \<leftarrow> brcmf_set_join_pref w e (vif_ifp vif) p f;
     ssid \<leftarrow> cp_ssid p;
     (err, f) \<leftarrow> connect_join w e channel (vif_ifp vif)
       \<lparr>jr_ssid = ssid, jr_bssid = (if cp_bssid_hint p \<noteq> None then cp_bssid_hint p else cp_bssid p),
        jr_chan = (if cp_channel_hint p \<noteq> None then cp_channel_hint p else cp_channel p)\<rparr> f;
     Some (err, vif, f) } } } } } } }"

definition brcmf_cfg80211_connect ::
  "'f fil \<Rightarrow> 'f cfg_env \<Rightarrow> brcmf_cfg80211_info \<Rightarrow> brcmf_cfg80211_vif \<Rightarrow> cfg80211_connect_params \<Rightarrow> u32 \<Rightarrow> u32 \<Rightarrow> 'f
     \<Rightarrow> (int \<times> brcmf_cfg80211_info \<times> brcmf_cfg80211_vif \<times> 'f) option" where
  "brcmf_cfg80211_connect w e cfg vif p junk junk_okc f = (
     if \<not> check_vif_up vif then Some (E_IO, cfg, vif, f)
     else if cp_ssid p = None then Some (E_OPNOTSUPP, cfg, vif, f)
     else do {
       f \<leftarrow> (if ce_primary e then connect_wpaie w (vif_ifp vif) (cp_ie p) f else Some f);
       (_, vif, f) \<leftarrow> brcmf_vif_set_mgmt_ie w (ce_alloc e ALLOC_MGMT_IE) (Some vif) 0x20 (Some (cp_ie p))
         (of_nat (length (cp_ie p))) f;
       vif \<leftarrow> vif;
       let vif = set_sme VIF_CONNECTING True vif;
       let chan = (if cp_channel_hint p \<noteq> None then cp_channel_hint p else cp_channel p);
       let channel = (case chan of Some c \<Rightarrow> of_int (ce_f2c (ce_chan e) (center_freq c)) | None \<Rightarrow> 0);
       let cfg = cfg\<lparr>cfg_channel := channel\<rparr>;
       (err, vif, f) \<leftarrow> connect_steps w e channel vif p junk junk_okc f;
       Some (err, cfg, if err \<noteq> 0 then set_sme VIF_CONNECTING False vif else vif, f) })"

section \<open>Leaving\<close>

text \<open>The reason a frame of the access point gives; codes of \<open>fweh.h\<close>.\<close>

definition brcmf_map_fw_linkdown_reason :: "u32 \<Rightarrow> u32 \<Rightarrow> u16" where
  "brcmf_map_fw_linkdown_reason event_code reason = (if event_code \<in> {5, 6, 12} then ucast reason else 0)"

text \<open>\<open>BRCMF_C_DISASSOC\<close> is 52. The number of the interface identifies it to coexistence and the kernel.\<close>

definition brcmf_link_down ::
  "'f fil \<Rightarrow> 'f cfg_env \<Rightarrow> brcmf_cfg80211_info \<Rightarrow> nat \<Rightarrow> brcmf_cfg80211_vif \<Rightarrow> u16 \<Rightarrow> bool \<Rightarrow> 'f
     \<Rightarrow> (brcmf_cfg80211_info \<times> brcmf_cfg80211_vif \<times> 'f) option" where
  "brcmf_link_down w e cfg me vif reason local f = do {
     let ifp = vif_ifp vif;
     let was = (VIF_CONNECTED \<in> sme_state vif);
     let vif = set_sme VIF_CONNECTED False vif;
     f \<leftarrow> (if was \<and> bus_up ifp then do { (_, f) \<leftarrow> fil_put w ifp (CMD 52) None f; Some f } else Some f);
     let cfg = (if was \<and> (iftype vif = IFTYPE_STATION \<or> iftype vif = IFTYPE_P2P_CLIENT)
       then cfg\<lparr>up_calls := up_calls cfg @ [Disconnected me reason local]\<rparr> else cfg);
     let vif = set_sme VIF_ASSOC_SUCCESS False (set_sme VIF_EAP_SUCCESS False (set_sme VIF_CONNECTING False vif));
     (_, b, f) \<leftarrow> brcmf_btcoex_set_mode w (ce_btc e) me BTCOEX_ENABLED 0 (cfg_btcoex cfg) f;
     let cfg = cfg\<lparr>scan_suppress := False, cfg_btcoex := b\<rparr>;
     if use_fwsup (profile vif) \<noteq> FWSUP_NONE then do {
       f \<leftarrow> (if bus_up ifp then do { (_, f) \<leftarrow> brcmf_set_pmk w ifp [] 0 f; Some f } else Some f);
       Some (cfg, set_profile (\<lambda>pr. pr\<lparr>use_fwsup := FWSUP_NONE\<rparr>) vif, f) }
     else Some (cfg, vif, f) }"

definition brcmf_cfg80211_disconnect ::
  "'f fil \<Rightarrow> brcmf_cfg80211_info \<Rightarrow> nat \<Rightarrow> brcmf_cfg80211_vif \<Rightarrow> u16 \<Rightarrow> 'f
     \<Rightarrow> (int \<times> brcmf_cfg80211_info \<times> brcmf_cfg80211_vif \<times> 'f) option" where
  "brcmf_cfg80211_disconnect w cfg me vif reason f = (
     if \<not> check_vif_up vif then Some (E_IO, cfg, vif, f)
     else do {
       let vif = fold (\<lambda>s. set_sme s False) [VIF_CONNECTED, VIF_CONNECTING, VIF_EAP_SUCCESS, VIF_ASSOC_SUCCESS] vif;
       let cfg = cfg\<lparr>up_calls := up_calls cfg @ [Disconnected me reason True]\<rparr>;
       (err, f) \<leftarrow> fil_put w (vif_ifp vif) (CMD 52)
         (Some (le32 (ucast reason) @ take 6 (prof_bssid (profile vif)) @ [0, 0])) f;
       Some (err, cfg, vif, f) })"

definition brcmf_cfg80211_leave_ibss ::
  "'f fil \<Rightarrow> 'f cfg_env \<Rightarrow> brcmf_cfg80211_info \<Rightarrow> nat \<Rightarrow> brcmf_cfg80211_vif \<Rightarrow> 'f
     \<Rightarrow> (int \<times> brcmf_cfg80211_info \<times> brcmf_cfg80211_vif \<times> 'f) option" where
  "brcmf_cfg80211_leave_ibss w e cfg me vif f = (
     if \<not> check_vif_up vif then Some (0, cfg, vif, f)
     else do {
       (cfg, vif, f) \<leftarrow> brcmf_link_down w e cfg me vif 3 True f;
       Some (0, cfg\<lparr>up_calls := up_calls cfg @ [Carrier me False]\<rparr>, vif, f) })"

record cfg80211_ibss_params =
  ib_ssid :: "u8 list option"
  ib_bssid :: "u8 list option"
  ib_chandef :: "cfg80211_chan_def option"
  beacon_interval :: u16
  ib_privacy :: bool

text \<open>A missing structure leaves the error as it was, zero, and the interface in the connecting state.\<close>

definition join_ibss_steps ::
  "'f fil \<Rightarrow> 'f cfg_env \<Rightarrow> brcmf_cfg80211_info \<Rightarrow> brcmf_cfg80211_vif \<Rightarrow> cfg80211_ibss_params \<Rightarrow> 'f
     \<Rightarrow> (int \<times> brcmf_cfg80211_info \<times> brcmf_cfg80211_vif \<times> 'f) option" where
  "join_ibss_steps w e cfg vif p f = do {
     let ifp = vif_ifp vif;
     ssid \<leftarrow> ib_ssid p;
     (err, f) \<leftarrow> put_int w ifp (IOVAR ''wsec'') (if ib_privacy p then WEP_ENABLED else 0) f;
     if err \<noteq> 0 then Some (err, cfg, vif, f) else do {
     (err, f) \<leftarrow> put_int w ifp (CMD 76) (if beacon_interval p \<noteq> 0 then ucast (beacon_interval p) else 100) f;
     if err \<noteq> 0 then Some (err, cfg, vif, f) else do {
     let vif = set_profile (\<lambda>pr. pr\<lparr>prof_bssid := (case ib_bssid p of Some b \<Rightarrow> take 6 b | None \<Rightarrow> replicate 6 0)\<rparr>) vif;
     let channel = (case ib_chandef p of Some cd \<Rightarrow> of_int (ce_f2c (ce_chan e) (center_freq (cd_chan cd))) | None \<Rightarrow> 0);
     let cfg = cfg\<lparr>ibss_starter := False, cfg_channel := channel\<rparr>;
     (err, f) \<leftarrow> (case ib_chandef p of None \<Rightarrow> Some (0, f)
       | Some cd \<Rightarrow> put_int w ifp (IOVAR ''chanspec'')
           (ucast (chandef_to_chanspec (ce_f2c (ce_chan e)) (ce_junk (ce_chan e)) (ce_d11inf (ce_chan e)) cd)) f);
     if err \<noteq> 0 then Some (err, cfg, vif, f) else do {
     params \<leftarrow> get_struct_for_ibss (ce_join e) ((ce_chan e)\<lparr>ce_channel := channel\<rparr>) (ce_alloc e ALLOC_JOIN) ssid (ib_bssid p) (ib_chandef p);
     case params of None \<Rightarrow> Some (0, cfg, vif, f)
     | Some b \<Rightarrow> do { (err, f) \<leftarrow> fil_put w ifp (CMD 26) (Some b) f; Some (err, cfg, vif, f) } } } } }"

definition brcmf_cfg80211_join_ibss ::
  "'f fil \<Rightarrow> 'f cfg_env \<Rightarrow> brcmf_cfg80211_info \<Rightarrow> brcmf_cfg80211_vif \<Rightarrow> cfg80211_ibss_params \<Rightarrow> 'f
     \<Rightarrow> (int \<times> brcmf_cfg80211_info \<times> brcmf_cfg80211_vif \<times> 'f) option" where
  "brcmf_cfg80211_join_ibss w e cfg vif p f = (
     if \<not> check_vif_up vif then Some (E_IO, cfg, vif, f)
     else if ib_ssid p = None then Some (E_OPNOTSUPP, cfg, vif, f)
     else do {
       (err, cfg, vif, f) \<leftarrow> join_ibss_steps w e cfg (set_sme VIF_CONNECTING True vif) p f;
       Some (err, cfg, if err \<noteq> 0 then set_sme VIF_CONNECTING False vif else vif, f) })"

section \<open>Transmit power\<close>

text \<open>Automatic 0, limited 1, fixed 2; the power in hundredths of a decibel, the firmware's in quarters.\<close>

definition brcmf_cfg80211_set_tx_power :: "'f fil \<Rightarrow> brcmf_cfg80211_vif \<Rightarrow> nat \<Rightarrow> int \<Rightarrow> 'f \<Rightarrow> (int \<times> 'f) option" where
  "brcmf_cfg80211_set_tx_power w vif type mbm f = (
     if \<not> check_vif_up vif then Some (E_IO, f)
     else if 2 < type \<or> type \<noteq> 0 \<and> mbm < 0 then Some (E_INVAL, f)
     else do {
       let qdbm = (if type = 0 then 127 else min 127 (4 * mbm div 100));
       (_, f) \<leftarrow> put_int w (vif_ifp vif) (CMD 38) 0x10000 f;
       put_int w (vif_ifp vif) (IOVAR ''qtxpower'') (of_int qdbm OR (if type = 0 then 0 else 0x80000000)) f })"

definition brcmf_cfg80211_get_tx_power :: "'f fil \<Rightarrow> brcmf_cfg80211_vif \<Rightarrow> u32 \<Rightarrow> int \<Rightarrow> 'f \<Rightarrow> (int \<times> int \<times> 'f) option" where
  "brcmf_cfg80211_get_tx_power w vif junk dbm f = (
     if \<not> check_vif_up vif then Some (E_IO, dbm, f)
     else do {
       (err, qdbm, f) \<leftarrow> ask_int w (vif_ifp vif) (IOVAR ''qtxpower'') junk f;
       Some (err, if err \<noteq> 0 then dbm else uint (qdbm AND 0x7fffffff) div 4, f) })"

section \<open>The key structure\<close>

text \<open>The firmware's view of the 164 bytes, and the places that no field covers.\<close>

definition key_at :: "u8 list \<Rightarrow> nat \<Rightarrow> nat \<Rightarrow> u8 list" where
  "key_at b off n = take n (drop off b)"

definition wsec_key_of :: "u8 list \<Rightarrow> brcmf_wsec_key" where
  "wsec_key_of b = \<lparr>k_index = le32_word (key_at b 0 4), k_len = le32_word (key_at b 4 4), k_data = key_at b 8 32,
     k_algo = le32_word (key_at b 112 4), k_flags = le32_word (key_at b 116 4), rxiv_hi = le32_word (key_at b 140 4),
     rxiv_lo = (case key_at b 144 2 of [x, y] \<Rightarrow> of_le16 x y | _ \<Rightarrow> 0),
     iv_initialized = (le32_word (key_at b 132 4) \<noteq> 0), k_ea = key_at b 156 6\<rparr>"

definition key_padding :: "(nat \<times> nat) list" where
  "key_padding = [(40, 72), (120, 12), (136, 4), (146, 10), (162, 2)]"

lemma le32_word_le32: "le32_word (le32 x) = x" "length (le32 x) = 4" "length (le16 y) = 2"
  by (simp_all add: le32_word_def le32_def le16_def)

text \<open>A buffer cut into pieces of given lengths.\<close>

fun pieces :: "nat list \<Rightarrow> u8 list \<Rightarrow> u8 list list" where
  "pieces [] xs = []"
| "pieces (n # ns) xs = take n xs # pieces ns (drop n xs)"

lemma pieces_concat: "length xs = sum_list ns \<Longrightarrow> concat (pieces ns xs) = xs \<and> map length (pieces ns xs) = ns"
  by (induction ns arbitrary: xs) auto

lemma piece_at:
  assumes "map length xss = ns" and "i < length ns"
  shows "key_at (concat xss) (sum_list (take i ns)) (ns ! i) = xss ! i"
    and "length bs = ns ! i \<Longrightarrow> write_bytes (concat xss) (sum_list (take i ns)) bs = Some (concat (xss[i := bs]))"
proof -
  have i: "i < length xss" and n: "ns ! i = length (xss ! i)" using assms by auto
  have x: "xss = take i xss @ xss ! i # drop (Suc i) xss" using i by (rule id_take_nth_drop)
  have l: "length (concat (take i xss)) = sum_list (take i ns)" by (simp add: length_concat take_map assms(1) [symmetric])
  have c: "concat xss = concat (take i xss) @ xss ! i @ concat (drop (Suc i) xss)" by (subst x) simp
  show "key_at (concat xss) (sum_list (take i ns)) (ns ! i) = xss ! i" unfolding c key_at_def n using l by simp
  have u: "xss[i := bs] = take i xss @ bs # drop (Suc i) xss" using i by (rule upd_conv_take_nth_drop)
  show "write_bytes (concat xss) (sum_list (take i ns)) bs = Some (concat (xss[i := bs]))" if "length bs = ns ! i"
    unfolding c u using l n that by (simp add: write_bytes_def)
qed

lemma write_pieces:
  "map length xss = ns \<Longrightarrow> list_all (\<lambda>(i, bs). i < length ns \<and> length bs = ns ! i) ws \<Longrightarrow>
    write_fields (concat xss) (map (\<lambda>(i, bs). (sum_list (take i ns), bs)) ws)
      = Some (concat (fold (\<lambda>(i, bs) xss. xss[i := bs]) ws xss)) \<and>
    map length (fold (\<lambda>(i, bs) xss. xss[i := bs]) ws xss) = ns"
proof (induction ws arbitrary: xss)
  case (Cons w ws)
  obtain i bs where w: "w = (i, bs)" by (cases w)
  have i: "i < length ns" "length bs = ns ! i" using Cons.prems(2) by (simp_all add: w)
  have "map length (xss[i := bs]) = ns"
    using Cons.prems(1) i(2) by (simp add: map_update)
  moreover have "write_bytes (concat xss) (sum_list (take i ns)) bs = Some (concat (xss[i := bs]))"
    by (rule piece_at(2) [OF Cons.prems(1) i])
  ultimately show ?case using Cons.IH [of "xss[i := bs]"] Cons.prems(2) by (simp add: w)
qed simp

text \<open>The structure's fields and gaps in order.\<close>

definition key_sizes :: "nat list" where
  "key_sizes = [4, 4, 32, 72, 4, 4, 12, 4, 4, 4, 2, 10, 6, 2]"

text \<open>C34: The key structure sent to the firmware says exactly what the driver's key says: reading the fields back gives
  the key, whatever the 164 bytes of stack held before. But the gaps between the fields are not cleared, so those
  hundred bytes of kernel stack go to the firmware with every key.\<close>

theorem key_struct_roundtrip:
  assumes "length stack = 164" and "length (k_data key) = 32" and "length (k_ea key) = 6"
  shows "\<exists>b. convert_key_from_CPU key stack = Some b \<and> length b = 164 \<and> wsec_key_of b = key \<and>
    list_all (\<lambda>(off, n). key_at b off n = key_at stack off n) key_padding"
proof -
  define ps where "ps = pieces key_sizes stack"
  have ps: "stack = concat ps" "map length ps = key_sizes"
    using pieces_concat [of stack key_sizes] assms(1) by (simp_all add: ps_def key_sizes_def)
  obtain a0 a1 a2 a3 a4 a5 a6 a7 a8 a9 a10 a11 a12 a13 where l: "ps = [a0, a1, a2, a3, a4, a5, a6, a7, a8, a9, a10, a11, a12, a13]"
    by (simp add: ps_def key_sizes_def)
  have len: "length a0 = 4" "length a1 = 4" "length a2 = 32" "length a3 = 72" "length a4 = 4" "length a5 = 4" "length a6 = 12"
    "length a7 = 4" "length a8 = 4" "length a9 = 4" "length a10 = 2" "length a11 = 10" "length a12 = 6" "length a13 = 2"
    using ps(2) by (simp_all add: l key_sizes_def)
  let ?ws = "[(0, le32 (k_index key)), (1, le32 (k_len key)), (4, le32 (k_algo key)), (5, le32 (k_flags key)),
    (9, le32 (rxiv_hi key)), (10, le16 (rxiv_lo key)), (7, le32 (if iv_initialized key then 1 else 0)), (2, k_data key),
    (12, k_ea key)]"
  let ?xss = "fold (\<lambda>(i, bs) xss. xss[i := bs]) ?ws ps"
  have "list_all (\<lambda>(i, bs). i < length key_sizes \<and> length bs = key_sizes ! i) ?ws"
    using assms(2,3) by (simp add: key_sizes_def le32_word_le32)
  from write_pieces [OF ps(2) this]
  have w: "write_fields (concat ps) (map (\<lambda>(i, bs). (sum_list (take i key_sizes), bs)) ?ws) = Some (concat ?xss)"
    and m: "map length ?xss = key_sizes" by blast+
  have "convert_key_from_CPU key stack = Some (concat ?xss)"
    using w assms(2,3) unfolding convert_key_from_CPU_def ps(1) by (simp add: key_sizes_def)
  moreover have at: "key_at (concat ?xss) (sum_list (take i key_sizes)) (key_sizes ! i) = ?xss ! i"
    "key_at (concat ps) (sum_list (take i key_sizes)) (key_sizes ! i) = ps ! i" if "i < 14" for i
    using piece_at(1) [OF m, of i] piece_at(1) [OF ps(2), of i] that by (simp_all add: key_sizes_def)
  have "wsec_key_of (concat ?xss) = key"
    using at(1) [of 0] at(1) [of 1] at(1) [of 2] at(1) [of 4] at(1) [of 5] at(1) [of 7] at(1) [of 9] at(1) [of 10] at(1) [of 12]
    by (simp add: key_sizes_def l wsec_key_of_def le32_word_le32) (simp add: le16_def)
  moreover have "list_all (\<lambda>(off, n). key_at (concat ?xss) off n = key_at stack off n) key_padding"
    using at [of 3] at [of 6] at [of 8] at [of 11] at [of 13] by (simp add: key_sizes_def l key_padding_def ps(1))
  moreover have "length (concat ?xss) = 164"
    unfolding length_concat m by (simp add: key_sizes_def)
  ultimately show ?thesis by (intro exI [of _ "concat ?xss"] conjI)
qed

theorem key_struct_roundtrip_witness:
  "\<exists>b. convert_key_from_CPU (zero_key\<lparr>k_len := 16, k_algo := CRYPTO_ALGO_AES_CCM\<rparr>) (replicate 164 0xAA) = Some b \<and>
    k_algo (wsec_key_of b) = 4 \<and> key_at b 136 4 = [0xAA, 0xAA, 0xAA, 0xAA]"
  using key_struct_roundtrip [of "replicate 164 0xAA" "zero_key\<lparr>k_len := 16, k_algo := CRYPTO_ALGO_AES_CCM\<rparr>"]
  by (auto simp: zero_key_def key_padding_def key_at_def eval_nat_numeral)

section \<open>The state of a connection\<close>

text \<open>What holds of the result of a computation if it is defined.\<close>

definition opt_all :: "('a \<Rightarrow> bool) \<Rightarrow> 'a option \<Rightarrow> bool" where
  "opt_all P r \<longleftrightarrow> (case r of None \<Rightarrow> True | Some x \<Rightarrow> P x)"

lemma opt_all_simps [simp]:
  "opt_all P (Some x) = P x" "opt_all P None" "opt_all P (m \<bind> g) = opt_all (\<lambda>x. opt_all P (g x)) m"
  by (auto simp: opt_all_def split: option.split Option.bind_splits)

lemma opt_allI: "(\<And>x. P x) \<Longrightarrow> opt_all P m"
  by (simp add: opt_all_def split: option.split)

lemma opt_all_bind: "opt_all P m \<Longrightarrow> (\<And>x. P x \<Longrightarrow> opt_all Q (g x)) \<Longrightarrow> opt_all Q (m \<bind> g)"
  by (cases m) auto

lemma opt_allD: "opt_all P m \<Longrightarrow> m = Some x \<Longrightarrow> P x"
  by (simp add: opt_all_def)

lemma opt_all_mono: "opt_all P m \<Longrightarrow> (\<And>x. P x \<Longrightarrow> Q x) \<Longrightarrow> opt_all Q m"
  by (auto simp: opt_all_def split: option.splits)

text \<open>Two states of an interface that differ in the profile only; the join a request asks for; and that the firmware
  accepted that join, in the extended or the plain form, as the last request. \<open>clean_refused\<close> is the other way a request succeeds: with the firmware's SAE supplicant, the firmware
  refused to clear the RSN element.\<close>

definition only_profile :: "brcmf_cfg80211_vif \<Rightarrow> brcmf_cfg80211_vif \<Rightarrow> bool" where
  "only_profile v vif \<longleftrightarrow> vif\<lparr>profile := profile v\<rparr> = v"

definition connect_req :: "cfg80211_connect_params \<Rightarrow> join_req" where
  "connect_req p = \<lparr>jr_ssid = the (cp_ssid p), jr_bssid = (if cp_bssid_hint p \<noteq> None then cp_bssid_hint p else cp_bssid p),
     jr_chan = (if cp_channel_hint p \<noteq> None then cp_channel_hint p else cp_channel p)\<rparr>"

definition join_accepted :: "'f fil \<Rightarrow> 'f cfg_env \<Rightarrow> u32 \<Rightarrow> fil_if \<Rightarrow> join_req \<Rightarrow> 'f \<Rightarrow> bool" where
  "join_accepted w e channel ifp r f \<longleftrightarrow> (\<exists>f0 b b'.
     get_struct_for_connect (ce_join e) ((ce_chan e)\<lparr>ce_channel := channel\<rparr>) (ce_alloc e ALLOC_JOIN) r = Some (Some b) \<and>
     (fil_put w ifp (BSSCFG ''join'') (Some b) f0 = Some (0, f) \<or>
      get_join_from_ext_join (ce_join e) (ce_alloc e ALLOC_FALLBACK) (Some b) = Some (Some b') \<and>
      fil_put w ifp (CMD 26) (Some b') f0 = Some (0, f)))"

definition clean_refused :: "'f fil \<Rightarrow> fil_if \<Rightarrow> brcmf_cfg80211_vif \<Rightarrow> 'f \<Rightarrow> bool" where
  "clean_refused w ifp vif f \<longleftrightarrow> feat_enabled w FEAT_FWSUP \<and> use_fwsup (profile vif) = FWSUP_SAE
     \<and> (\<exists>f0 err. err \<noteq> 0 \<and> fil_put w ifp (IOVAR ''wpaie'') None f0 = Some (err, f))"

lemma only_profile_simps [simp]:
  "only_profile v v" "only_profile v (set_profile g vif) = only_profile v vif"
  by (simp_all add: only_profile_def set_profile_def)

lemma only_profileD:
  "only_profile v vif \<Longrightarrow> vif_ifp vif = vif_ifp v" "only_profile v vif \<Longrightarrow> sme_state vif = sme_state v"
  unfolding only_profile_def by (metis brcmf_cfg80211_vif.select_convs(1) brcmf_cfg80211_vif.surjective
      brcmf_cfg80211_vif.update_convs(3)) (metis brcmf_cfg80211_vif.select_convs(4) brcmf_cfg80211_vif.surjective
      brcmf_cfg80211_vif.update_convs(3))

text \<open>The steps of connecting change the profile only.\<close>

lemma wpa_version_frame: "only_profile v vif \<Longrightarrow> opt_all (\<lambda>r. only_profile v (fst (snd r))) (brcmf_set_wpa_version w vif p f)"
  by (auto simp: brcmf_set_wpa_version_def split_def intro!: opt_allI)

lemma auth_type_frame: "only_profile v vif \<Longrightarrow> opt_all (\<lambda>r. only_profile v (fst (snd r))) (brcmf_set_auth_type w vif t f)"
  by (auto simp: brcmf_set_auth_type_def split_def intro!: opt_allI)

lemma wsec_mode_frame: "only_profile v vif \<Longrightarrow> opt_all (\<lambda>r. only_profile v (fst (snd r))) (brcmf_set_wsec_mode w e vif p f)"
  unfolding brcmf_set_wsec_mode_def Let_def
  by (auto simp: split_def intro!: opt_allI split: sum.split)

lemma key_mgmt_frame: "only_profile v vif \<Longrightarrow> opt_all (\<lambda>r. only_profile v (fst (snd r))) (brcmf_set_key_mgmt w vif p junk junk_okc f)"
  unfolding brcmf_set_key_mgmt_def Let_def
  by (auto simp: split_def intro!: opt_allI split: option.split)

lemma supplicant_frame:
  "only_profile v vif \<Longrightarrow> opt_all (\<lambda>r. only_profile v (fst (snd (snd r)))) (connect_supplicant w e vif p f)"
  unfolding connect_supplicant_def Let_def
  by (auto simp: split_def intro!: opt_allI)

lemma opt_all_rest:
  "(\<And>x. opt_all Q (g1 x)) \<Longrightarrow> opt_all Q (brcmf_set_sharedkey w e vif p f \<bind> g1)"
  "(\<And>x. opt_all Q (g2 x)) \<Longrightarrow> opt_all Q (brcmf_set_join_pref w e ifp p f \<bind> g2)"
  "(\<And>x. opt_all Q (g3 x)) \<Longrightarrow> opt_all Q (cp_ssid p \<bind> g3)"
  "(\<And>x. opt_all Q (g4 x)) \<Longrightarrow> opt_all Q (connect_join w e channel ifp req f \<bind> g4)"
  by (auto intro: opt_allI)

lemma connect_steps_frame:
  "opt_all (\<lambda>r. only_profile v (fst (snd r))) (connect_steps w e channel v p junk junk_okc f)"
  unfolding connect_steps_def split_def
  by (auto simp del: opt_all_simps(3) intro!: opt_all_bind [OF wpa_version_frame] opt_all_bind [OF auth_type_frame]
      opt_all_bind [OF wsec_mode_frame] opt_all_bind [OF key_mgmt_frame] opt_all_bind [OF supplicant_frame] opt_all_rest)
    simp_all

text \<open>Leaving without an error only happens in the clean-up; without it, zero is the answer to a join.\<close>

lemma supplicant_leave:
  "connect_supplicant w e vif p f = Some (0, True, vif', f') \<Longrightarrow> clean_refused w (vif_ifp vif) vif' f'"
  by (cases "feat_enabled w FEAT_FWSUP"; cases "cp_psk p"; cases "use_fwsup (profile vif)")
    (auto simp: connect_supplicant_def Let_def bind_eq_Some_conv clean_refused_def set_profile_def split: if_splits)

lemma step_okE:
  "(m \<bind> (\<lambda>(err, v, f). if err \<noteq> 0 then Some (err, v, f) else g v f)) = Some (0, r) \<Longrightarrow>
    (\<And>v f. m = Some (0, v, f) \<Longrightarrow> g v f = Some (0, r) \<Longrightarrow> Q) \<Longrightarrow> Q"
  "(n \<bind> (\<lambda>(err, f). if err \<noteq> 0 then Some (err, v, f) else h f)) = Some (0, r) \<Longrightarrow>
    (\<And>f. n = Some (0, f) \<Longrightarrow> h f = Some (0, r) \<Longrightarrow> Q) \<Longrightarrow> Q"
  by (auto simp: bind_eq_Some_conv split: if_splits)

lemma connect_join_accepted:
  assumes "brcmf_join_param_setup_for_version version h = (0, ce_join e)"
    and "connect_join w e channel ifp req f = Some (0, f')"
  shows "join_accepted w e channel ifp req f'"
proof -
  have "get_join_from_ext_join (ce_join e) = brcmf_get_join_from_ext_join_v0
      \<or> get_join_from_ext_join (ce_join e) = brcmf_get_join_from_ext_join_v1"
    using assms(1) by (auto simp: brcmf_join_param_setup_for_version_def Let_def split: if_splits
        dest!: arg_cong [where f = get_join_from_ext_join])
  then have "get_join_from_ext_join (ce_join e) mem None = None" for mem
    by (auto simp: brcmf_get_join_from_ext_join_v0_def brcmf_get_join_from_ext_join_v1_def)
  then show ?thesis using assms(2)
    by (auto simp: connect_join_def join_accepted_def bind_eq_Some_conv split: if_splits option.splits)
qed

lemma connect_steps_success:
  assumes "brcmf_join_param_setup_for_version version h = (0, ce_join e)"
    and "connect_steps w e channel v p junk junk_okc f = Some (0, v', f')"
  shows "join_accepted w e channel (vif_ifp v) (connect_req p) f' \<or> clean_refused w (vif_ifp v) v' f'"
proof -
  obtain v1 f1 v2 f2 v3 f3 v4 f4 f5 where
    s: "brcmf_set_wpa_version w v p f = Some (0, v1, f1)"
      "brcmf_set_auth_type w v1 (brcmf_war_auth_type w (auth_type p)) f1 = Some (0, v2, f2)"
      "brcmf_set_wsec_mode w e v2 p f2 = Some (0, v3, f3)"
      "brcmf_set_key_mgmt w v3 p junk junk_okc f3 = Some (0, v4, f4)" and
    r: "(do {
     (err, leave, vif, f) \<leftarrow> connect_supplicant w e v4 p f5;
     if leave then Some (err, vif, f) else do {
     f \<leftarrow> brcmf_set_join_pref w e (vif_ifp vif) p f;
     ssid \<leftarrow> cp_ssid p;
     (err, f) \<leftarrow> connect_join w e channel (vif_ifp vif)
       \<lparr>jr_ssid = ssid, jr_bssid = (if cp_bssid_hint p \<noteq> None then cp_bssid_hint p else cp_bssid p),
        jr_chan = (if cp_channel_hint p \<noteq> None then cp_channel_hint p else cp_channel p)\<rparr> f;
     Some (err, vif, f) } }) = Some (0, v', f')"
    using assms(2) unfolding connect_steps_def by (elim step_okE) (rule that)
  have "only_profile v v1" using opt_allD [OF wpa_version_frame s(1)] by simp
  then have "only_profile v v2" using opt_allD [OF auth_type_frame s(2)] by simp
  then have "only_profile v v3" using opt_allD [OF wsec_mode_frame s(3)] by simp
  then have o: "only_profile v v4" using opt_allD [OF key_mgmt_frame s(4)] by simp
  obtain e6 leave v5 f6 where s5: "connect_supplicant w e v4 p f5 = Some (e6, leave, v5, f6)"
    using r by (auto simp: bind_eq_Some_conv)
  have o5: "only_profile v v5" using opt_allD [OF supplicant_frame [OF o] s5] by simp
  show ?thesis
  proof (cases leave)
    case True
    then have "e6 = 0 \<and> v5 = v' \<and> f6 = f'" using r s5 by simp
    then show ?thesis using supplicant_leave [of w e v4 p f5 v' f'] s5 True only_profileD(1) [OF o] by simp
  next
    case False
    then obtain f7 where "connect_join w e channel (vif_ifp v5) (connect_req p) f7 = Some (0, f')"
      using r s5 by (auto simp: bind_eq_Some_conv connect_req_def)
    then show ?thesis using connect_join_accepted [OF assms(1)] only_profileD(1) [OF o5] by metis
  qed
qed

lemma save_req_ie [simp]: "(save_ie 0x20 x vif)\<lparr>assoc_req_ie := assoc_req_ie vif\<rparr> = vif"
  by (simp add: save_ie_def)

lemma set_mgmt_ie_frame:
  "opt_all (\<lambda>r. map_option (\<lambda>v. v\<lparr>assoc_req_ie := assoc_req_ie vif\<rparr>) (fst (snd r)) = Some vif)
     (brcmf_vif_set_mgmt_ie w mem (Some vif) 0x20 buf len f)"
  unfolding brcmf_vif_set_mgmt_ie_def Let_def
  by (auto simp: split_def intro!: opt_allI split: option.split)

lemma record_eqs:
  "v\<lparr>assoc_req_ie := x\<rparr> = vif \<Longrightarrow> v = vif\<lparr>assoc_req_ie := assoc_req_ie v\<rparr>"
  "v2\<lparr>profile := y\<rparr> = v3 \<Longrightarrow> v2 = v3\<lparr>profile := profile v2\<rparr>"
  by auto

text \<open>C35: A request to connect that cannot be made (the interface is not up, or there is no name) fails and changes
  nothing. Otherwise the interface is in the connecting state afterwards exactly when zero is returned; of the
  interface only that state, the security profile and the saved elements of association requests change, and of the
  driver only the channel. Zero is returned only when the firmware, as the last request, has accepted the join with the
  name, address and channel of the request, with one exception: with the firmware's SAE supplicant, a firmware that
  refuses to clear the RSN element also makes the request succeed, without a join.\<close>

theorem connect_state:
  assumes "brcmf_cfg80211_connect w e cfg vif p junk junk_okc f = Some (err, cfg', vif', f')"
    and "brcmf_join_param_setup_for_version version h = (0, ce_join e)"
  shows "if \<not> check_vif_up vif \<or> cp_ssid p = None then err \<noteq> 0 \<and> cfg' = cfg \<and> vif' = vif \<and> f' = f
    else sme_state vif' = (if err = 0 then insert VIF_CONNECTING (sme_state vif) else sme_state vif - {VIF_CONNECTING})
      \<and> vif'\<lparr>sme_state := sme_state vif, profile := profile vif, assoc_req_ie := assoc_req_ie vif\<rparr> = vif
      \<and> cfg'\<lparr>cfg_channel := cfg_channel cfg\<rparr> = cfg
      \<and> (err = 0 \<longrightarrow> join_accepted w e (cfg_channel cfg') (vif_ifp vif) (connect_req p) f' \<or> clean_refused w (vif_ifp vif) vif' f')"
proof (cases "\<not> check_vif_up vif \<or> cp_ssid p = None")
  case True
  then show ?thesis using assms(1)
    by (cases "check_vif_up vif") (simp_all add: brcmf_cfg80211_connect_def)
next
  case False
  then have up: "check_vif_up vif" "cp_ssid p \<noteq> None" by auto
  obtain f1 e1 v f2 channel v2 where
    ie: "brcmf_vif_set_mgmt_ie w (ce_alloc e ALLOC_MGMT_IE) (Some vif) 0x20 (Some (cp_ie p)) (of_nat (length (cp_ie p))) f1
      = Some (e1, Some v, f2)" and
    steps: "connect_steps w e channel (set_sme VIF_CONNECTING True v) p junk junk_okc f2 = Some (err, v2, f')" and
    v2: "vif' = (if err \<noteq> 0 then set_sme VIF_CONNECTING False v2 else v2)" "cfg' = cfg\<lparr>cfg_channel := channel\<rparr>"
    using assms(1) up unfolding brcmf_cfg80211_connect_def Let_def by (auto simp: bind_eq_Some_conv)
  have "v\<lparr>assoc_req_ie := assoc_req_ie vif\<rparr> = vif" using opt_allD [OF set_mgmt_ie_frame ie] by simp
  note v = record_eqs(1) [OF this]
  let ?v = "set_sme VIF_CONNECTING True v"
  have "v2\<lparr>profile := profile ?v\<rparr> = ?v" using opt_allD [OF connect_steps_frame steps] by (simp add: only_profile_def)
  note w2 = record_eqs(2) [OF this]
  have ok: "join_accepted w e channel (vif_ifp ?v) (connect_req p) f' \<or> clean_refused w (vif_ifp ?v) v2 f'" if "err = 0"
    using connect_steps_success [OF assms(2) steps [unfolded that]] .
  obtain pr saved where "v2 = ?v\<lparr>profile := pr\<rparr>" "v = vif\<lparr>assoc_req_ie := saved\<rparr>" using v w2 by blast
  then show ?thesis using up v2 ok by (auto simp: set_sme_def)
qed

section \<open>Success without connecting\<close>

text \<open>With the firmware's SAE supplicant, a firmware that refuses to clear the RSN element stops the request
  before the join; but the error is the result of an earlier step, which was good, so the request is reported as
  successful.\<close>

theorem sae_cleanup_success:
  assumes "feat_enabled w FEAT_FWSUP" and "use_fwsup (profile vif) = FWSUP_SAE"
    and "put_int w (vif_ifp vif) (IOVAR ''sup_wpa'') 1 f = Some (0, f1)"
    and "fil_put w (vif_ifp vif) (IOVAR ''wpaie'') None f1 = Some (err, f2)" and "err \<noteq> 0"
  shows "connect_supplicant w e vif p f = Some (0, True, vif, f2)"
  using assms by (simp add: connect_supplicant_def)

section \<open>Reading past the RSN element\<close>

text \<open>An RSN element with one pairwise and one key management suite that ends with the count of key identifiers.\<close>

definition short_rsn :: "u8 list \<Rightarrow> u8 list \<Rightarrow> u8 list \<Rightarrow> u16 \<Rightarrow> u16 \<Rightarrow> u8 list" where
  "short_rsn grp pws akms caps pmkids =
     [WLAN_EID_RSN, 22, 1, 0] @ grp @ [1, 0] @ pws @ [1, 0] @ akms @ le16 caps @ le16 pmkids"

text \<open>The driver trusts the count of key identifiers in the RSN element of a request: the length that is left is
  unsigned, so after more identifiers than the element holds it wraps, and the code reads the group cipher from
  far behind the element. Any count but zero in an element that ends there does it.\<close>

theorem key_mgmt_overread:
  assumes "feat_enabled w FEAT_MFP" and "cp_ie p = short_rsn grp pws akms caps pmkids"
    and "length grp = 4" and "length pws = 4" and "length akms = 4"
    and "caps AND 0xC0 \<noteq> 0" and "pmkids \<noteq> 0" and "val \<noteq> WFA_AUTH_DPP"
  shows "key_mgmt_mfp w vif p val f = None"
proof -
  obtain g0 g1 g2 g3 where g: "grp = [g0, g1, g2, g3]" using assms(3) by (auto simp: eval_nat_numeral length_Suc_conv)
  obtain p0 p1 p2 p3 where pw: "pws = [p0, p1, p2, p3]" using assms(4) by (auto simp: eval_nat_numeral length_Suc_conv)
  obtain a0 a1 a2 a3 where a: "akms = [a0, a1, a2, a3]" using assms(5) by (auto simp: eval_nat_numeral length_Suc_conv)
  have ie: "cp_ie p = [WLAN_EID_RSN, 22, 1, 0, g0, g1, g2, g3, 1, 0, p0, p1, p2, p3, 1, 0, a0, a1, a2, a3, ucast caps,
      ucast (drop_bit 8 caps), ucast pmkids, ucast (drop_bit 8 pmkids)]"
    by (simp add: assms(2) short_rsn_def g pw a le16_def)
  have tlv: "brcmf_parse_tlvs (cp_ie p) 0 (int (length (cp_ie p))) WLAN_EID_RSN = Some (Some 0)"
    by (subst brcmf_parse_tlvs.simps) (simp add: ie nth_opt_def)
  have off: "rsn_caps_offset (cp_ie p) 0 24 = Some (Some 20)"
    by (simp add: rsn_caps_offset_def ie nth_opt_def of_le16_def Let_def)
  have n: "of_le16 (ucast pmkids) (ucast (drop_bit 8 pmkids)) = pmkids" by simp
  define y :: u32 where "y = ucast pmkids * 16"
  have m: "0 < unat pmkids" "unat pmkids < 65536" using assms(7) unsigned_less [of pmkids] by (simp_all add: unat_gt_0)
  have u: "unat (ucast pmkids :: u32) = unat pmkids" using m(2) by (simp add: unsigned_ucast_eq take_bit_nat_eq_self)
  have y: "unat y = unat pmkids * 16" using m u by (simp add: y_def unat_word_ariths(2))
  have "unat (24 + y) = 24 + unat pmkids * 16" using m y by (simp add: unat_word_ariths(1))
  moreover have "\<not> - y < 4"
  proof -
    have neg: "- (k * 16) mod 2 ^ LENGTH(32) = 2 ^ LENGTH(32) - k * 16" if "0 < k" "k < 65536" for k :: int
      using that by (simp add: zmod_zminus1_eq_if)
    have k: "uint y = uint pmkids * 16" "0 < uint pmkids" "uint pmkids < 65536"
      using y m by (simp_all add: uint_nat del: of_nat_unat)
    show ?thesis using k unfolding word_less_def uint_word_ariths(4) by (simp add: neg [simplified])
  qed
  ultimately have "rsn_group_mgmt (cp_ie p) 0 24 22 = None"
    by (simp add: rsn_group_mgmt_def ie nth_opt_def n y_def [symmetric] read_bytes_def)
  moreover have "ucast caps AND (0x40 :: u8) \<noteq> 0 \<or> ucast caps AND (0x80 :: u8) \<noteq> 0"
  proof -
    have lit: "(0xC0 :: u16) = 2 ^ 6 OR 2 ^ 7" "(0x40 :: u8) = 2 ^ 6" "(0x80 :: u8) = 2 ^ 7" by simp_all
    have "bit caps 6 \<or> bit caps 7"
      using assms(6) unfolding lit(1) bit.conj_disj_distrib by (metis and_exp_eq_0_iff_not_bit or.left_neutral)
    then show ?thesis unfolding lit(2,3) and_exp_eq_0_iff_not_bit by (simp add: bit_ucast_iff)
  qed
  ultimately show ?thesis
    using assms(1,8) tlv off by (simp add: key_mgmt_mfp_def ie nth_opt_def split_def)
qed

section \<open>Witnesses\<close>

text \<open>A firmware that refuses everything but the supplicant.\<close>

definition deaf_fil :: "(brcmf_feat_id \<Rightarrow> bool) \<Rightarrow> unit fil" where
  "deaf_fil feats = \<lparr>fil_put = (\<lambda>ifp v data f. Some (if v = IOVAR ''sup_wpa'' then 0 else - 5, f)),
     fil_ask = (\<lambda>ifp v bs f. Some (- 5, bs, f)), feat_enabled = feats, quirk_enabled = (\<lambda>_. False)\<rparr>"

definition wit_params :: cfg80211_connect_params where
  "wit_params = \<lparr>cp_ssid = Some [65], cp_bssid = None, cp_bssid_hint = None, cp_channel = None, cp_channel_hint = None,
     cp_ie = [], wpa_versions = 2, n_akm_suites = 1, akm_suites = [WLAN_AKM_SUITE_SAE], n_ciphers_pairwise = 1,
     ciphers_pairwise = [WLAN_CIPHER_SUITE_CCMP], cipher_group = WLAN_CIPHER_SUITE_CCMP, cp_psk = None,
     sae_pwd = Some [112, 119], want_1x = False, auth_type = 4, privacy = True, cp_key = [], key_len = 0, key_idx = 0,
     bss_behaviour = 1, bss_band = NL80211_BAND_2GHZ, bss_delta = 0\<rparr>"

definition wit_cenv :: "unit cfg_env" where
  "wit_cenv = \<lparr>ce_alloc = (\<lambda>_. True), ce_chan = wit_env, ce_btc = wit_btc,
     ce_join = \<lparr>jh_version = 0, get_struct_for_ibss = brcmf_get_struct_for_ibss_v0,
       get_struct_for_connect = brcmf_get_struct_for_connect_v0, get_join_from_ext_join = brcmf_get_join_from_ext_join_v0\<rparr>,
     ce_sae = (\<lambda>ifp p f. Some (0, f)), ce_primary = False, ce_stack = replicate 164 0\<rparr>"

definition wit_info :: brcmf_cfg80211_info where
  "wit_info = \<lparr>cfg_channel = 0, ibss_starter = False, scan_suppress = False, cfg_btcoex = wit_bt, up_calls = []\<rparr>"

definition wit_ready :: brcmf_cfg80211_vif where
  "wit_ready = wit_vif\<lparr>sme_state := {VIF_READY}\<rparr>"

theorem connect_state_witness:
  "\<exists>vif'. brcmf_cfg80211_connect (deaf_fil (\<lambda>_. False)) wit_cenv wit_info wit_ready wit_params 0 0 () = Some (- 5, wit_info, vif', ()) \<and>
    sme_state vif' = {VIF_READY}"
proof -
  obtain vif' where r: "brcmf_cfg80211_connect (deaf_fil (\<lambda>_. False)) wit_cenv wit_info wit_ready wit_params 0 0 ()
      = Some (- 5, wit_info, vif', ())"
    by (simp add: brcmf_cfg80211_connect_def wit_params_def wit_cenv_def wit_ready_def wit_vif_def wit_info_def check_vif_up_def
        brcmf_vif_set_mgmt_ie_def saved_ie_def save_ie_def connect_steps_def brcmf_set_wpa_version_def wpa_version_auth_def
        deaf_fil_def put_int_def nth_opt_def Let_def)
  have "brcmf_join_param_setup_for_version 0 (ce_join wit_cenv) = (0, ce_join wit_cenv)"
    by (simp add: brcmf_join_param_setup_for_version_def wit_cenv_def)
  from connect_state [OF r this] r show ?thesis
    by (simp add: wit_ready_def check_vif_up_def wit_params_def)
qed

theorem sae_cleanup_success_witness:
  "connect_supplicant (deaf_fil (\<lambda>i. i = FEAT_FWSUP)) wit_cenv (set_profile (\<lambda>p. p\<lparr>use_fwsup := FWSUP_SAE\<rparr>) wit_ready) wit_params ()
    = Some (0, True, set_profile (\<lambda>p. p\<lparr>use_fwsup := FWSUP_SAE\<rparr>) wit_ready, ())"
  by (rule sae_cleanup_success [where err = "- 5"]) (simp_all add: deaf_fil_def set_profile_def put_int_def)

theorem key_mgmt_overread_witness:
  "key_mgmt_mfp (deaf_fil (\<lambda>i. i = FEAT_MFP)) wit_ready (wit_params\<lparr>cp_ie := short_rsn [0, 15, 172, 4] [0, 15, 172, 4] [0, 15, 172, 8] 0xC0 1\<rparr>)
    WPA3_AUTH_SAE_PSK () = None"
  by (rule key_mgmt_overread [where grp = "[0, 15, 172, 4]" and pws = "[0, 15, 172, 4]" and akms = "[0, 15, 172, 8]" and caps = "0xC0" and pmkids = 1])
    (simp_all add: deaf_fil_def)

end
