(* ===== verification/Pno.thy ===== *)
theory Pno
  imports CfgIe Params
begin

text \<open>
  Scheduled scans (\<open>pno.c\<close>): the table of requests, the configuration the firmware is given for them, and
  the networks it reports. The two versions of the interface are two values of the record of handlers.
\<close>

abbreviation E_NOENT :: int where "E_NOENT \<equiv> - 2"
abbreviation E_NOSPC :: int where "E_NOSPC \<equiv> - 28"
abbreviation E_NODATA :: int where "E_NODATA \<equiv> - 61"

abbreviation BRCMF_PNO_MAX_BUCKETS :: nat where "BRCMF_PNO_MAX_BUCKETS \<equiv> 16"
abbreviation BRCMF_NUMCHANNELS :: nat where "BRCMF_NUMCHANNELS \<equiv> 64"
abbreviation BRCMF_PNO_SCHED_SCAN_MIN_PERIOD :: u32 where "BRCMF_PNO_SCHED_SCAN_MIN_PERIOD \<equiv> 10"
abbreviation NL80211_SCAN_FLAG_RANDOM_ADDR :: u32 where "NL80211_SCAN_FLAG_RANDOM_ADDR \<equiv> 8"

section \<open>Requests\<close>

text \<open>A request of the kernel, as far as the driver reads it: an SSID is the list of its bytes (at most 32), a
  channel is its number, a plan its interval.\<close>

record cfg80211_match_set =
  ms_ssid :: "u8 list"
  ms_bssid :: "u8 list"

record cfg80211_sched_scan_request =
  reqid :: u64
  sr_ssids :: "u8 list list"
  sr_flags :: u32
  match_sets :: "cfg80211_match_set list"
  sr_channels :: "u16 list"
  sr_mac_addr :: "u8 list"
  sr_mac_addr_mask :: "u8 list"
  scan_plans :: "u32 list"

text \<open>The array has sixteen pointers; those behind the count may be stale.\<close>

record brcmf_pno_info =
  n_reqs :: nat
  pno_reqs :: "cfg80211_sched_scan_request option list"

definition req_at :: "brcmf_pno_info \<Rightarrow> nat \<Rightarrow> cfg80211_sched_scan_request option" where
  "req_at pi i = Option.bind (nth_opt (pno_reqs pi) i) (\<lambda>r. r)"

text \<open>The requests a loop over the table visits.\<close>

definition reqs_upto :: "brcmf_pno_info \<Rightarrow> cfg80211_sched_scan_request list option" where
  "reqs_upto pi = those (map (req_at pi) [0..<n_reqs pi])"

definition brcmf_pno_store_request ::
  "brcmf_pno_info \<Rightarrow> cfg80211_sched_scan_request \<Rightarrow> (int \<times> brcmf_pno_info) option" where
  "brcmf_pno_store_request pi req = (
     if n_reqs pi = BRCMF_PNO_MAX_BUCKETS then Some (E_NOSPC, pi)
     else do {
       rs \<leftarrow> upd_opt (pno_reqs pi) (n_reqs pi) (Some req);
       Some (0, pi\<lparr>n_reqs := n_reqs pi + 1, pno_reqs := rs\<rparr>) })"

text \<open>The index of the request, or the count; then moving what is behind it, both over the number that is left.\<close>

fun find_request :: "brcmf_pno_info \<Rightarrow> u64 \<Rightarrow> nat \<Rightarrow> nat \<Rightarrow> nat option" where
  "find_request pi rid 0 i = Some i"
| "find_request pi rid (Suc k) i = do {
     r \<leftarrow> req_at pi i;
     if reqid r = rid then Some i else find_request pi rid k (i + 1) }"

fun close_gap :: "nat \<Rightarrow> nat \<Rightarrow> 'a list \<Rightarrow> 'a list option" where
  "close_gap 0 i rs = Some rs"
| "close_gap (Suc k) i rs = do {
     r \<leftarrow> nth_opt rs (i + 1);
     rs \<leftarrow> upd_opt rs i r;
     close_gap k (i + 1) rs }"

definition brcmf_pno_remove_request :: "brcmf_pno_info \<Rightarrow> u64 \<Rightarrow> (int \<times> brcmf_pno_info) option" where
  "brcmf_pno_remove_request pi rid = (
     if n_reqs pi = 0 then Some (0, pi)
     else do {
       i \<leftarrow> find_request pi rid (n_reqs pi) 0;
       if i = n_reqs pi then Some (E_NOENT, pi)
       else do {
         let n = n_reqs pi - 1;
         let pi = pi\<lparr>n_reqs := n\<rparr>;
         if n = 0 \<or> i = n then Some (0, pi)
         else do {
           rs \<leftarrow> close_gap (n - i) i (pno_reqs pi);
           Some (0, pi\<lparr>pno_reqs := rs\<rparr>) } } })"

definition brcmf_pno_find_reqid_by_bucket :: "brcmf_pno_info \<Rightarrow> u32 \<Rightarrow> u64 option" where
  "brcmf_pno_find_reqid_by_bucket pi bucket = (
     if unat bucket < n_reqs pi then map_option reqid (req_at pi (unat bucket)) else Some 0)"

section \<open>Structures for the firmware\<close>

text \<open>\<open>struct brcmf_pno_config_le\<close>: the report type and the flags are zero when it is sent.\<close>

record brcmf_pno_config =
  pc_channel_num :: u32
  pc_channel_list :: "u16 list"

definition brcmf_pno_channel_config :: "'f fil \<Rightarrow> fil_if \<Rightarrow> brcmf_pno_config \<Rightarrow> 'f \<Rightarrow> (int \<times> 'f) option" where
  "brcmf_pno_channel_config w ifp cfg f = fil_put w ifp (IOVAR ''pfn_cfg'')
     (Some (le32 0 @ le32 (pc_channel_num cfg) @ concat (map le16 (pc_channel_list cfg)) @ le32 0)) f"

text \<open>The immediate and the adaptive scan bit are 3 and 6, the best-network bit 5. Counts are cut to a byte.\<close>

definition pno_flags :: "bool \<Rightarrow> u16" where
  "pno_flags bestn = 0x48 OR (if bestn then 0x20 else 0)"

text \<open>The common part of both configurations: the answer to the limits, or an error that ends the function.\<close>

definition pno_mscan :: "'f fil \<Rightarrow> fil_if \<Rightarrow> u32 \<Rightarrow> u32 \<Rightarrow> 'f \<Rightarrow> (int \<times> u32 \<times> 'f) option" where
  "pno_mscan w ifp mscan bestn f = (if mscan = 0 then Some (0, 0, f) else do {
     (err, f) \<leftarrow> put_int w ifp (IOVAR ''pfnmem'') bestn f;
     if err < 0 then Some (err, 0, f) else do {
       (err, pfnmem, f) \<leftarrow> ask_int w ifp (IOVAR ''pfnmem'') bestn f;
       Some (if err < 0 then err else 0, min mscan pfnmem, f) } })"

definition pno_counts :: "u32 \<Rightarrow> u32 \<Rightarrow> u32 \<Rightarrow> u8 list" where
  "pno_counts mscan0 mscan bestn = (if mscan0 = 0 then [0, 0] else [ucast bestn, ucast mscan])"

definition brcmf_pno_config_v3 :: "'f fil \<Rightarrow> fil_if \<Rightarrow> u32 \<Rightarrow> u32 \<Rightarrow> u32 \<Rightarrow> 'f \<Rightarrow> (int \<times> 'f) option" where
  "brcmf_pno_config_v3 w ifp scan_freq mscan bestn f = do {
     (err, ms, f) \<leftarrow> pno_mscan w ifp mscan bestn f;
     if err < 0 then Some (err, f)
     else fil_put w ifp (IOVAR ''pfn_set'') (Some (le16 3 @ le16 28 @ le32 scan_freq @ le32 0 @
       le16 (pno_flags (mscan \<noteq> 0)) @ le16 0 @ pno_counts mscan ms bestn @ [4, 3] @ le32 0 @ [0, 0, 0, 0])) f }"

definition brcmf_pno_config_v2 :: "'f fil \<Rightarrow> fil_if \<Rightarrow> u32 \<Rightarrow> u32 \<Rightarrow> u32 \<Rightarrow> 'f \<Rightarrow> (int \<times> 'f) option" where
  "brcmf_pno_config_v2 w ifp scan_freq mscan bestn f = do {
     (err, ms, f) \<leftarrow> pno_mscan w ifp mscan bestn f;
     if err < 0 then Some (err, f)
     else fil_put w ifp (IOVAR ''pfn_set'') (Some (le32 2 @ le32 scan_freq @ le32 0 @
       le16 (pno_flags (mscan \<noteq> 0)) @ le16 0 @ pno_counts mscan ms bestn @ [4, 3] @ le32 0)) f }"

section \<open>Reported networks\<close>

text \<open>The event's data are bytes; a result is a number of bytes behind the header. A version that is not known
  is read like the first one. Arrays of entries are their offset.\<close>

definition brcmf_get_netinfo_array :: "u8 list \<Rightarrow> nat option option" where
  "brcmf_get_netinfo_array data = do {
     v \<leftarrow> read_le32 data 0;
     Some (if v = 2 then Some 16 else if v = 3 then None else Some 12) }"

definition brcmf_get_netinfo_v3_array :: nat where
  "brcmf_get_netinfo_v3_array = 16"

definition brcmf_pno_min_data_len :: u32 where
  "brcmf_pno_min_data_len = 12 + 44"

definition brcmf_pno_min_data_len_v3 :: u32 where
  "brcmf_pno_min_data_len_v3 = 16 + 48"

definition is_valid_ether_addr :: "u8 list \<Rightarrow> bool option" where
  "is_valid_ether_addr a = do {
     b \<leftarrow> read_bytes a 0 6;
     Some (b ! 0 AND 1 = 0 \<and> b \<noteq> replicate 6 0) }"

text \<open>Whether a match set names the network whose SSID length, SSID and BSSID are read at the offsets given.\<close>

definition match_net :: "u8 list \<Rightarrow> nat \<Rightarrow> nat \<Rightarrow> nat \<Rightarrow> cfg80211_match_set \<Rightarrow> bool option" where
  "match_net data len_at ssid_at bssid_at ms = do {
     l \<leftarrow> nth_opt data len_at;
     same \<leftarrow> (if length (ms_ssid ms) = unat l then do { s \<leftarrow> read_bytes data ssid_at (unat l); Some (s = ms_ssid ms) }
       else Some False);
     if same then Some True else do {
       v \<leftarrow> is_valid_ether_addr (ms_bssid ms);
       if v then do { b \<leftarrow> read_bytes data bssid_at 6; Some (b = take 6 (ms_bssid ms)) } else Some False } }"

fun any_match :: "('a \<Rightarrow> bool option) \<Rightarrow> 'a list \<Rightarrow> bool option" where
  "any_match p [] = Some False"
| "any_match p (x # xs) = do { b \<leftarrow> p x; if b then Some True else any_match p xs }"

fun bucket_bits :: "(cfg80211_match_set \<Rightarrow> bool option) \<Rightarrow> nat \<Rightarrow> cfg80211_sched_scan_request list \<Rightarrow> u32 option" where
  "bucket_bits p i [] = Some 0"
| "bucket_bits p i (r # rs) = do {
     b \<leftarrow> any_match p (match_sets r);
     m \<leftarrow> bucket_bits p (i + 1) rs;
     Some ((if b then push_bit i 1 else 0) OR m) }"

definition brcmf_pno_get_bucket_map :: "u8 list \<Rightarrow> nat \<Rightarrow> brcmf_pno_info \<Rightarrow> u32 option" where
  "brcmf_pno_get_bucket_map data idx pi = do {
     start \<leftarrow> brcmf_get_netinfo_array data;
     st \<leftarrow> start;
     let ni = st + 44 * idx;
     rs \<leftarrow> reqs_upto pi;
     bucket_bits (match_net data (ni + 7) (ni + 8) ni) 0 rs }"

definition brcmf_pno_get_bucket_map_v3 :: "u8 list \<Rightarrow> nat \<Rightarrow> brcmf_pno_info \<Rightarrow> u32 option" where
  "brcmf_pno_get_bucket_map_v3 data idx pi = do {
     let ni = brcmf_get_netinfo_v3_array + 48 * idx;
     rs \<leftarrow> reqs_upto pi;
     bucket_bits (match_net data (ni + 8) (ni + 12) ni) 0 rs }"

definition brcmf_pno_validate_pfn_results_v3 :: "u8 list \<Rightarrow> u32 \<Rightarrow> int option" where
  "brcmf_pno_validate_pfn_results_v3 data eventlen = do {
     let datalen = eventlen - of_nat brcmf_get_netinfo_v3_array;
     count \<leftarrow> read_le32 data 8;
     Some (if unat datalen < unat count * 48 then E_INVAL else 0) }"

definition brcmf_pno_validate_pfn_results :: "u8 list \<Rightarrow> u32 \<Rightarrow> int option" where
  "brcmf_pno_validate_pfn_results data eventlen = do {
     start \<leftarrow> brcmf_get_netinfo_array data;
     case start of None \<Rightarrow> Some E_INVAL
     | Some st \<Rightarrow> do {
         let datalen = eventlen - of_nat st;
         count \<leftarrow> read_le32 data 8;
         Some (if unat datalen < unat count * 44 then E_INVAL else 0) } }"

text \<open>A result: the SSID, cut to 32 bytes, the channel and the band.\<close>

record pno_result =
  res_ssid :: "u8 list"
  res_channel :: u8
  res_band :: nl80211_band

definition brcmf_pno_get_result_info :: "u8 list \<Rightarrow> nat \<Rightarrow> pno_result option" where
  "brcmf_pno_get_result_info data idx = do {
     start \<leftarrow> brcmf_get_netinfo_array data;
     st \<leftarrow> start;
     let ni = st + 44 * idx;
     ch \<leftarrow> nth_opt data (ni + 6);
     l \<leftarrow> nth_opt data (ni + 7);
     s \<leftarrow> read_bytes data (ni + 8) (min (unat l) 32);
     Some \<lparr>res_ssid = s, res_channel = ch,
       res_band = (if ch \<le> 14 then NL80211_BAND_2GHZ else NL80211_BAND_5GHZ)\<rparr> }"

text \<open>The numbers of the bands are 2, 1 and 4; anything else is the first band.\<close>

definition fwil_band_to_nl80211 :: "u16 \<Rightarrow> nl80211_band" where
  "fwil_band_to_nl80211 band = (if band = 2 then NL80211_BAND_2GHZ else if band = 1 then NL80211_BAND_5GHZ
     else if band = 4 then NL80211_BAND_6GHZ else NL80211_BAND_2GHZ)"

definition brcmf_pno_get_result_info_v3 :: "u8 list \<Rightarrow> nat \<Rightarrow> pno_result option" where
  "brcmf_pno_get_result_info_v3 data idx = do {
     let ni = brcmf_get_netinfo_v3_array + 48 * idx;
     lo \<leftarrow> nth_opt data (ni + 6);
     hi \<leftarrow> nth_opt data (ni + 7);
     let chanspec = of_le16 lo hi;
     l \<leftarrow> nth_opt data (ni + 8);
     s \<leftarrow> read_bytes data (ni + 12) (min (unat l) 32);
     Some \<lparr>res_ssid = s, res_channel = ucast (chanspec AND 0xff),
       res_band = fwil_band_to_nl80211 (chanspec AND 0xc000)\<rparr> }"

definition brcmf_pno_get_result_count_v123 :: "u8 list \<Rightarrow> u32 option" where
  "brcmf_pno_get_result_count_v123 data = read_le32 data 8"

definition brcmf_pno_get_result_status_v123 :: "u8 list \<Rightarrow> u32 option" where
  "brcmf_pno_get_result_status_v123 data = read_le32 data 4"

section \<open>The handlers of a version\<close>

record 'f pno_handler =
  ph_version :: u8
  ph_config :: "'f fil \<Rightarrow> fil_if \<Rightarrow> u32 \<Rightarrow> u32 \<Rightarrow> u32 \<Rightarrow> 'f \<Rightarrow> (int \<times> 'f) option"
  get_result_count :: "u8 list \<Rightarrow> u32 option"
  get_result_status :: "u8 list \<Rightarrow> u32 option"
  get_bucket_map :: "u8 list \<Rightarrow> nat \<Rightarrow> brcmf_pno_info \<Rightarrow> u32 option"
  get_min_data_len :: u32
  get_result_info :: "u8 list \<Rightarrow> nat \<Rightarrow> pno_result option"
  validate_pfn_results :: "u8 list \<Rightarrow> u32 \<Rightarrow> int option"

definition brcmf_pno_setup_for_version :: "u8 \<Rightarrow> 'f pno_handler option \<Rightarrow> int \<times> 'f pno_handler option" where
  "brcmf_pno_setup_for_version vers h = (
     if vers = 2 then (0, Some \<lparr>ph_version = 2, ph_config = brcmf_pno_config_v2,
       get_result_count = brcmf_pno_get_result_count_v123, get_result_status = brcmf_pno_get_result_status_v123,
       get_bucket_map = brcmf_pno_get_bucket_map, get_min_data_len = brcmf_pno_min_data_len,
       get_result_info = brcmf_pno_get_result_info, validate_pfn_results = brcmf_pno_validate_pfn_results\<rparr>)
     else if vers = 3 then (0, Some \<lparr>ph_version = 3, ph_config = brcmf_pno_config_v3,
       get_result_count = brcmf_pno_get_result_count_v123, get_result_status = brcmf_pno_get_result_status_v123,
       get_bucket_map = brcmf_pno_get_bucket_map_v3, get_min_data_len = brcmf_pno_min_data_len_v3,
       get_result_info = brcmf_pno_get_result_info_v3, validate_pfn_results = brcmf_pno_validate_pfn_results_v3\<rparr>)
     else (E_INVAL, h))"

section \<open>Networks\<close>

text \<open>The environment: allocations, random bytes, what the stack holds, and the handlers.\<close>

datatype pno_alloc = ALLOC_BUCKETS | ALLOC_GSCAN

record 'f pno_env =
  pe_alloc :: "pno_alloc \<Rightarrow> bool"
  pe_random :: "nat \<Rightarrow> u8"
  pe_stack :: "u8 list"
  pe_handler :: "'f pno_handler"

text \<open>The address of the first request that wants a random one: kept where the mask is set.\<close>

fun randomised :: "cfg80211_sched_scan_request list \<Rightarrow> cfg80211_sched_scan_request option" where
  "randomised [] = None"
| "randomised (r # rs) = (if sr_flags r AND NL80211_SCAN_FLAG_RANDOM_ADDR \<noteq> 0 then Some r else randomised rs)"

definition random_mac :: "(nat \<Rightarrow> u8) \<Rightarrow> u8 list \<Rightarrow> u8 list \<Rightarrow> u8 list" where
  "random_mac rnd addr msk = (
     let m = map (\<lambda>i. (addr ! i AND msk ! i) OR (rnd i AND NOT (msk ! i))) [0..<6] in m[0 := (m ! 0 AND 0xFE) OR 2])"

definition brcmf_pno_set_random :: "'f fil \<Rightarrow> 'f pno_env \<Rightarrow> fil_if \<Rightarrow> brcmf_pno_info \<Rightarrow> 'f \<Rightarrow> (int \<times> 'f) option" where
  "brcmf_pno_set_random w e ifp pi f = do {
     rs \<leftarrow> reqs_upto pi;
     case randomised rs of None \<Rightarrow> Some (0, f)
     | Some r \<Rightarrow> do {
         addr \<leftarrow> read_bytes (sr_mac_addr r) 0 6;
         msk \<leftarrow> read_bytes (sr_mac_addr_mask r) 0 6;
         fil_put w ifp (IOVAR ''pfn_macaddr'') (Some ([1, 3] @ random_mac (pe_random e) addr msk)) f } }"

text \<open>The structure of a network has 56 bytes on the stack; behind a short SSID they stay as they were.\<close>

definition brcmf_pno_add_ssid :: "'f fil \<Rightarrow> 'f pno_env \<Rightarrow> fil_if \<Rightarrow> u8 list \<Rightarrow> bool \<Rightarrow> 'f \<Rightarrow> (int \<times> 'f) option" where
  "brcmf_pno_add_ssid w e ifp ssid active f = do {
     pfn \<leftarrow> (if length ssid \<le> 32 then Some (pe_stack e) else None);
     pfn \<leftarrow> write_bytes pfn 36 (le32 (if active then 4 else 0) @ le32 1 @ le32 0 @ le32 0xFFFFFFFF @ le32 0);
     pfn \<leftarrow> write_bytes pfn 0 (le32 (of_nat (length ssid)) @ ssid);
     fil_put w ifp (IOVAR ''pfn_add'') (Some pfn) f }"

definition brcmf_pno_add_bssid :: "'f fil \<Rightarrow> fil_if \<Rightarrow> u8 list \<Rightarrow> 'f \<Rightarrow> (int \<times> 'f) option" where
  "brcmf_pno_add_bssid w ifp bssid f = do {
     b \<leftarrow> read_bytes bssid 0 6;
     fil_put w ifp (IOVAR ''pfn_add_bssid'') (Some (b @ le16 0)) f }"

text \<open>\<open>strncmp\<close> of two SSIDs of the same length: it stops at a NUL.\<close>

fun strncmp_same :: "u8 list \<Rightarrow> u8 list \<Rightarrow> bool" where
  "strncmp_same (a # as) (b # bs) = (a = b \<and> (a = 0 \<or> strncmp_same as bs))"
| "strncmp_same _ _ = True"

definition brcmf_is_ssid_active :: "u8 list \<Rightarrow> cfg80211_sched_scan_request \<Rightarrow> bool" where
  "brcmf_is_ssid_active ssid req = list_ex (\<lambda>s. length ssid = length s \<and> strncmp_same ssid s) (sr_ssids req)"

definition brcmf_pno_clean :: "'f fil \<Rightarrow> fil_if \<Rightarrow> 'f \<Rightarrow> (int \<times> 'f) option" where
  "brcmf_pno_clean w ifp f = do {
     (ret, f) \<leftarrow> put_int w ifp (IOVAR ''pfn'') 0 f;
     if ret = 0 then fil_put w ifp (IOVAR ''pfnclear'') None f else Some (ret, f) }"

section \<open>Configuration\<close>

text \<open>The channels of a request behind those already there: the number of channels, or an error, and the list.\<close>

fun bucket_channels :: "u16 list \<Rightarrow> u32 \<Rightarrow> u16 list \<Rightarrow> (int \<times> u32 \<times> u16 list) option" where
  "bucket_channels [] n l = Some (sint n, n, l)"
| "bucket_channels (c # cs) n l = (
     if BRCMF_NUMCHANNELS \<le> unat n then Some (E_NOSPC, n, l)
     else do { l \<leftarrow> upd_opt l (unat n) c; bucket_channels cs (n + 1) l })"

definition brcmf_pno_get_bucket_channels ::
  "cfg80211_sched_scan_request \<Rightarrow> brcmf_pno_config \<Rightarrow> (int \<times> brcmf_pno_config) option" where
  "brcmf_pno_get_bucket_channels r cfg = do {
     (err, n, l) \<leftarrow> bucket_channels (sr_channels r) (pc_channel_num cfg) (pc_channel_list cfg);
     Some (err, cfg\<lparr>pc_channel_num := n, pc_channel_list := l\<rparr>) }"

record brcmf_gscan_bucket_config =
  bucket_end_index :: u8
  bucket_freq_multiple :: u8

definition bucket_bytes :: "brcmf_gscan_bucket_config \<Rightarrow> u8 list" where
  "bucket_bytes b = [bucket_end_index b, bucket_freq_multiple b, 4, 0] @ le16 0 @ le16 0"

definition gcd_u32 :: "u32 \<Rightarrow> u32 \<Rightarrow> u32" where
  "gcd_u32 a b = of_nat (gcd (unat a) (unat b))"

fun scan_period :: "u32 \<Rightarrow> cfg80211_sched_scan_request list \<Rightarrow> u32 option" where
  "scan_period freq [] = Some freq"
| "scan_period freq (r # rs) = do {
     i \<leftarrow> nth_opt (scan_plans r) 0;
     scan_period (gcd_u32 i freq) rs }"

fun fill_buckets :: "u32 \<Rightarrow> cfg80211_sched_scan_request list \<Rightarrow> brcmf_pno_config \<Rightarrow> brcmf_gscan_bucket_config list \<Rightarrow>
    (int \<times> brcmf_pno_config \<times> brcmf_gscan_bucket_config list) option" where
  "fill_buckets freq [] cfg bs = Some (0, cfg, bs)"
| "fill_buckets freq (r # rs) cfg bs = do {
     (chidx, cfg) \<leftarrow> brcmf_pno_get_bucket_channels r cfg;
     if chidx < 0 then Some (chidx, cfg, bs)
     else do {
       i \<leftarrow> nth_opt (scan_plans r) 0;
       let mult = ucast (i div freq);
       fill_buckets freq rs cfg (bs @ [\<lparr>bucket_end_index = of_int (chidx - 1),
         bucket_freq_multiple = (if mult = 0 then 1 else mult)\<rparr>]) } }"

text \<open>An error, or the number of buckets with the channels, the buckets and the period.\<close>

definition brcmf_pno_prep_fwconfig :: "'f pno_env \<Rightarrow> brcmf_pno_info \<Rightarrow>
    (int \<times> brcmf_pno_config \<times> brcmf_gscan_bucket_config list \<times> u32) option" where
  "brcmf_pno_prep_fwconfig e pi = (
     let zero = \<lparr>pc_channel_num = 0, pc_channel_list = replicate BRCMF_NUMCHANNELS 0\<rparr> in
     if n_reqs pi = 0 then Some (E_NODATA, zero, [], 0)
     else do {
       rs \<leftarrow> reqs_upto pi;
       r0 \<leftarrow> nth_opt rs 0;
       i0 \<leftarrow> nth_opt (scan_plans r0) 0;
       freq \<leftarrow> scan_period i0 (tl rs);
       let freq = (if freq < BRCMF_PNO_SCHED_SCAN_MIN_PERIOD then BRCMF_PNO_SCHED_SCAN_MIN_PERIOD else freq);
       if \<not> pe_alloc e ALLOC_BUCKETS then Some (E_NOMEM, zero, [], freq)
       else do {
         (err, cfg, bs) \<leftarrow> fill_buckets freq rs zero [];
         if err < 0 then Some (err, cfg, [], freq)
         else Some (int (n_reqs pi), cfg, bs, freq) } })"

text \<open>The match sets of a request and those of all; an error of a positive number does not end the loops.\<close>

fun add_match_sets :: "'f fil \<Rightarrow> 'f pno_env \<Rightarrow> fil_if \<Rightarrow> cfg80211_sched_scan_request \<Rightarrow> cfg80211_match_set list \<Rightarrow> int \<Rightarrow> 'f \<Rightarrow> (int \<times> 'f) option" where
  "add_match_sets w e ifp r [] err f = Some (err, f)"
| "add_match_sets w e ifp r (ms # mss) err f = do {
     (err, f) \<leftarrow> (if ms_ssid ms \<noteq> [] then brcmf_pno_add_ssid w e ifp (ms_ssid ms) (brcmf_is_ssid_active (ms_ssid ms) r) f
       else Some (err, f));
     v \<leftarrow> (if err = 0 then is_valid_ether_addr (ms_bssid ms) else Some False);
     (err, f) \<leftarrow> (if v then brcmf_pno_add_bssid w ifp (ms_bssid ms) f else Some (err, f));
     if err < 0 then Some (err, f) else add_match_sets w e ifp r mss err f }"

fun add_networks :: "'f fil \<Rightarrow> 'f pno_env \<Rightarrow> fil_if \<Rightarrow> cfg80211_sched_scan_request list \<Rightarrow> int \<Rightarrow> 'f \<Rightarrow> (int \<times> 'f) option" where
  "add_networks w e ifp [] err f = Some (0, f)"
| "add_networks w e ifp (r # rs) err f = do {
     (err, f) \<leftarrow> add_match_sets w e ifp r (match_sets r) err f;
     if err < 0 then Some (err, f) else add_networks w e ifp rs err f }"

definition brcmf_pno_config_networks :: "'f fil \<Rightarrow> 'f pno_env \<Rightarrow> fil_if \<Rightarrow> brcmf_pno_info \<Rightarrow> 'f \<Rightarrow> (int \<times> 'f) option" where
  "brcmf_pno_config_networks w e ifp pi f = do {
     rs \<leftarrow> reqs_upto pi;
     add_networks w e ifp rs 0 f }"

definition gscan_bytes :: "int \<Rightarrow> brcmf_gscan_bucket_config list \<Rightarrow> u8 list" where
  "gscan_bytes n bs = le16 2 @ [8, 101, 0, 0, of_int n, 3] @ le16 0 @ concat (map bucket_bytes bs)"

text \<open>The steps whose errors make the caller clean up again.\<close>

definition sched_scan_steps :: "'f fil \<Rightarrow> 'f pno_env \<Rightarrow> fil_if \<Rightarrow> brcmf_pno_info \<Rightarrow> int \<Rightarrow> brcmf_pno_config \<Rightarrow>
    brcmf_gscan_bucket_config list \<Rightarrow> 'f \<Rightarrow> (int \<times> 'f) option" where
  "sched_scan_steps w e ifp pi n cfg bs f = do {
     (err, f) \<leftarrow> brcmf_pno_channel_config w ifp cfg f;
     if err < 0 then Some (err, f) else do {
       (err, f) \<leftarrow> fil_put w ifp (IOVAR ''pfn_gscan_cfg'') (Some (gscan_bytes n bs)) f;
       if err < 0 then Some (err, f) else do {
         (err, f) \<leftarrow> brcmf_pno_set_random w e ifp pi f;
         if err < 0 then Some (err, f) else do {
           (err, f) \<leftarrow> brcmf_pno_config_networks w e ifp pi f;
           if err < 0 then Some (err, f) else put_int w ifp (IOVAR ''pfn'') 1 f } } } }"

definition brcmf_pno_config_sched_scans :: "'f fil \<Rightarrow> 'f pno_env \<Rightarrow> fil_if \<Rightarrow> brcmf_pno_info \<Rightarrow> 'f \<Rightarrow> (int \<times> 'f) option" where
  "brcmf_pno_config_sched_scans w e ifp pi f = do {
     (n, cfg, bs, freq) \<leftarrow> brcmf_pno_prep_fwconfig e pi;
     if n < 0 then Some (n, f)
     else if \<not> pe_alloc e ALLOC_GSCAN then Some (E_NOMEM, f)
     else do {
       (err, f) \<leftarrow> brcmf_pno_clean w ifp f;
       if err < 0 then Some (err, f) else do {
         (err, f) \<leftarrow> ph_config (pe_handler e) w ifp freq 0 0 f;
         if err < 0 then Some (err, f) else do {
           (err, f) \<leftarrow> sched_scan_steps w e ifp pi n cfg bs f;
           if err < 0 then do { (_, f) \<leftarrow> brcmf_pno_clean w ifp f; Some (err, f) } else Some (err, f) } } } }"

section \<open>Starting and stopping\<close>

definition brcmf_pno_start_sched_scan :: "'f fil \<Rightarrow> 'f pno_env \<Rightarrow> fil_if \<Rightarrow> cfg80211_sched_scan_request \<Rightarrow>
    brcmf_pno_info \<Rightarrow> 'f \<Rightarrow> (int \<times> brcmf_pno_info \<times> 'f) option" where
  "brcmf_pno_start_sched_scan w e ifp req pi f = do {
     (ret, pi) \<leftarrow> brcmf_pno_store_request pi req;
     if ret < 0 then Some (ret, pi, f) else do {
       (ret, f) \<leftarrow> brcmf_pno_config_sched_scans w e ifp pi f;
       if ret < 0 then do {
         (_, pi) \<leftarrow> brcmf_pno_remove_request pi (reqid req);
         (_, f) \<leftarrow> (if n_reqs pi \<noteq> 0 then brcmf_pno_config_sched_scans w e ifp pi f else Some (0, f));
         Some (ret, pi, f) }
       else Some (0, pi, f) } }"

definition brcmf_pno_stop_sched_scan :: "'f fil \<Rightarrow> 'f pno_env \<Rightarrow> fil_if \<Rightarrow> u64 \<Rightarrow>
    brcmf_pno_info \<Rightarrow> 'f \<Rightarrow> (int \<times> brcmf_pno_info \<times> 'f) option" where
  "brcmf_pno_stop_sched_scan w e ifp rid pi f = (
     if n_reqs pi = 0 then Some (0, pi, f) else do {
       (err, pi) \<leftarrow> brcmf_pno_remove_request pi rid;
       if err \<noteq> 0 then Some (err, pi, f) else do {
         (_, f) \<leftarrow> brcmf_pno_clean w ifp f;
         (_, f) \<leftarrow> (if n_reqs pi \<noteq> 0 then brcmf_pno_config_sched_scans w e ifp pi f else Some (0, f));
         Some (0, pi, f) } })"

text \<open>Attaching gives an empty table, or an error without memory; detaching forgets it.\<close>

definition brcmf_pno_attach :: "bool \<Rightarrow> brcmf_pno_info option \<Rightarrow> int \<times> brcmf_pno_info option" where
  "brcmf_pno_attach mem cfg_pno = (
     if mem then (0, Some \<lparr>n_reqs = 0, pno_reqs = replicate BRCMF_PNO_MAX_BUCKETS None\<rparr>) else (E_NOMEM, cfg_pno))"

definition brcmf_pno_detach :: "brcmf_pno_info option \<Rightarrow> brcmf_pno_info option option" where
  "brcmf_pno_detach cfg_pno = do { pi \<leftarrow> cfg_pno; Some None }"

text \<open>The limits announced: requests, SSIDs, match sets, length of elements, interval.\<close>

definition brcmf_pno_wiphy_params :: "bool \<Rightarrow> nat \<times> nat \<times> nat \<times> nat \<times> nat" where
  "brcmf_pno_wiphy_params gscan = (if gscan then BRCMF_PNO_MAX_BUCKETS else 1, 16, 16, 2048, 508)"


section \<open>The table of requests\<close>

definition pno_inv :: "brcmf_pno_info \<Rightarrow> bool" where
  "pno_inv pi \<longleftrightarrow> length (pno_reqs pi) = BRCMF_PNO_MAX_BUCKETS \<and> n_reqs pi \<le> BRCMF_PNO_MAX_BUCKETS
     \<and> None \<notin> set (take (n_reqs pi) (pno_reqs pi))"

definition pno_list :: "brcmf_pno_info \<Rightarrow> cfg80211_sched_scan_request list" where
  "pno_list pi = map the (take (n_reqs pi) (pno_reqs pi))"

lemma pno_list_length [simp]: "pno_inv pi \<Longrightarrow> length (pno_list pi) = n_reqs pi"
  by (simp add: pno_inv_def pno_list_def)

lemma req_at_list:
  assumes "pno_inv pi" and "i < n_reqs pi"
  shows "req_at pi i = Some (pno_list pi ! i)"
proof -
  have "pno_reqs pi ! i \<in> set (take (n_reqs pi) (pno_reqs pi))"
    using assms nth_mem [of i "take (n_reqs pi) (pno_reqs pi)"] by (simp add: pno_inv_def)
  then have "pno_reqs pi ! i \<noteq> None" using assms(1) by (metis pno_inv_def)
  then show ?thesis using assms by (auto simp: req_at_def pno_list_def pno_inv_def nth_opt_in)
qed

lemma those_map_Some: "(\<And>x. x \<in> set xs \<Longrightarrow> f x = Some (g x)) \<Longrightarrow> those (map f xs) = Some (map g xs)"
  by (induction xs) auto

lemma reqs_upto_list: assumes "pno_inv pi" shows "reqs_upto pi = Some (pno_list pi)"
proof -
  have "those (map (req_at pi) [0..<n_reqs pi]) = Some (map ((!) (pno_list pi)) [0..<n_reqs pi])"
    by (rule those_map_Some) (simp add: req_at_list [OF assms])
  also have "map ((!) (pno_list pi)) [0..<n_reqs pi] = pno_list pi"
    using map_nth [of "pno_list pi"] assms by simp
  finally show ?thesis by (simp add: reqs_upto_def)
qed

lemma store_request_full: "n_reqs pi = 16 \<Longrightarrow> brcmf_pno_store_request pi req = Some (E_NOSPC, pi)"
  by (simp add: brcmf_pno_store_request_def)

lemma store_request_run:
  assumes "pno_inv pi" and "n_reqs pi \<noteq> 16"
  obtains pi' where "brcmf_pno_store_request pi req = Some (0, pi')" "pno_inv pi'" "pno_list pi' = pno_list pi @ [req]"
proof
  show "brcmf_pno_store_request pi req
      = Some (0, pi\<lparr>n_reqs := n_reqs pi + 1, pno_reqs := (pno_reqs pi)[n_reqs pi := Some req]\<rparr>)"
    using assms by (simp add: brcmf_pno_store_request_def pno_inv_def upd_opt_in)
qed (use assms in \<open>auto simp: pno_inv_def pno_list_def take_Suc_conv_app_nth\<close>)

fun drop_request :: "u64 \<Rightarrow> cfg80211_sched_scan_request list \<Rightarrow> cfg80211_sched_scan_request list" where
  "drop_request rid [] = []"
| "drop_request rid (r # rs) = (if reqid r = rid then rs else r # drop_request rid rs)"

fun first_id :: "u64 \<Rightarrow> cfg80211_sched_scan_request list \<Rightarrow> nat" where
  "first_id rid [] = 0"
| "first_id rid (r # rs) = (if reqid r = rid then 0 else Suc (first_id rid rs))"

lemma first_id_le: "first_id rid rs \<le> length rs"
  by (induction rs) auto

lemma first_id_none: "first_id rid rs = length rs \<longleftrightarrow> rid \<notin> reqid ` set rs"
  by (induction rs) auto

lemma drop_request_split: "first_id rid rs < length rs \<Longrightarrow>
    drop_request rid rs = take (first_id rid rs) rs @ drop (Suc (first_id rid rs)) rs"
  by (induction rs) auto

lemma drop_request_filter: "distinct (map reqid rs) \<Longrightarrow> drop_request rid rs = filter (\<lambda>r. reqid r \<noteq> rid) rs"
  by (induction rs) (auto intro!: filter_True [symmetric] simp: image_iff)

lemma drop_request_none: "rid \<notin> reqid ` set rs \<Longrightarrow> drop_request rid rs = rs"
  by (induction rs) auto

lemma find_request_run: "pno_inv pi \<Longrightarrow> i \<le> n_reqs pi \<Longrightarrow>
    find_request pi rid (n_reqs pi - i) i = Some (i + first_id rid (drop i (pno_list pi)))"
proof (induction "n_reqs pi - i" arbitrary: i)
  case 0
  then show ?case by simp
next
  case (Suc k)
  then have "i < n_reqs pi" by simp
  then have k: "n_reqs pi - i = Suc (n_reqs pi - Suc i)" and d: "drop i (pno_list pi) = pno_list pi ! i # drop (Suc i) (pno_list pi)"
    using Suc.prems by (simp_all add: Cons_nth_drop_Suc)
  show ?case
    using Suc.hyps Suc.prems \<open>i < n_reqs pi\<close> by (auto simp: k d req_at_list)
qed

lemma close_gap_run: "i + k < length rs \<Longrightarrow>
    close_gap k i rs = Some (take i rs @ take k (drop (Suc i) rs) @ drop (i + k) rs)"
proof (induction k arbitrary: i rs)
  case 0
  then show ?case by simp
next
  case (Suc k)
  then have "close_gap (Suc k) i rs = close_gap k (i + 1) (rs[i := rs ! (i + 1)])"
    by (simp add: nth_opt_in upd_opt_in)
  also have "\<dots> = Some (take (i + 1) (rs[i := rs ! (i + 1)]) @ take k (drop (Suc (i + 1)) rs) @ drop (i + 1 + k) rs)"
    using Suc.prems by (subst Suc.IH) auto
  also have "take (i + 1) (rs[i := rs ! (i + 1)]) = take i rs @ [rs ! (i + 1)]"
    using Suc.prems by (simp add: take_Suc_conv_app_nth)
  finally show ?case
    using Suc.prems Cons_nth_drop_Suc [of "Suc i" rs] by (metis (no_types, lifting) Suc_eq_plus1 Suc_lessD
        add_Suc_right add_Suc append.assoc append_Cons append_Nil less_add_Suc1 order_le_less_trans take_Suc_Cons
        le_add1 not_less_eq_eq)
qed

lemma close_gap_drop:
  assumes "n < length rs" and "i < n"
  shows "\<exists>rs'. close_gap (n - i) i rs = Some rs' \<and> length rs' = length rs
    \<and> take n rs' = take i rs @ drop (Suc i) (take (Suc n) rs)"
proof -
  have r: "close_gap (n - i) i rs = Some (take i rs @ take (n - i) (drop (Suc i) rs) @ drop (i + (n - i)) rs)"
    by (rule close_gap_run) (use assms in simp)
  have "drop (Suc i) (take (Suc n) rs) = take (n - i) (drop (Suc i) rs)"
    using assms by (simp add: drop_take)
  then show ?thesis using assms r by (auto simp: min_def)
qed

lemma remove_request_run:
  assumes inv: "pno_inv pi"
  obtains err pi' where "brcmf_pno_remove_request pi rid = Some (err, pi')" "pno_inv pi'"
    "pno_list pi' = drop_request rid (pno_list pi)"
    "err = (if pno_list pi = [] \<or> rid \<in> reqid ` set (pno_list pi) then 0 else E_NOENT)"
proof -
  let ?rs = "pno_reqs pi" and ?n = "n_reqs pi" and ?l = "pno_list pi"
  let ?i = "first_id rid ?l"
  have len: "length ?rs = 16" "?n \<le> 16" "length ?l = ?n" using inv by (simp_all add: pno_inv_def)
  have find: "find_request pi rid ?n 0 = Some ?i"
    using find_request_run [OF inv, of 0 rid] by simp
  have le: "?i \<le> ?n" using first_id_le [of rid ?l] len by simp
  consider (empty) "?n = 0" | (none) "?n \<noteq> 0" "?i = ?n" | (last1) "?n \<noteq> 0" "?i < ?n" "?i = ?n - 1"
    | (inner) "?n \<noteq> 0" "?i < ?n - 1"
    using le by linarith
  then show ?thesis
  proof cases
    case empty
    then have "?l = []" using len by simp
    then show ?thesis using that [of 0 pi] inv empty by (simp add: brcmf_pno_remove_request_def)
  next
    case none
    then have "rid \<notin> reqid ` set ?l" using first_id_none [of rid ?l] len by simp
    moreover from this have "drop_request rid ?l = ?l" by (rule drop_request_none)
    moreover have "?l \<noteq> []" using none len by auto
    ultimately show ?thesis
      using that [of E_NOENT pi] none inv find by (simp add: brcmf_pno_remove_request_def)
  next
    case last1
    let ?pi = "pi\<lparr>n_reqs := ?n - 1\<rparr>"
    have d: "drop_request rid ?l = take ?i ?l"
      using drop_request_split [of rid ?l] last1 len by simp
    have id: "rid \<in> reqid ` set ?l" using first_id_none [of rid ?l] last1 len by auto
    have "pno_inv ?pi" using inv last1 by (auto simp: pno_inv_def dest: in_set_takeD [of _ "?n - 1" "take ?n ?rs", simplified])
    moreover have "pno_list ?pi = drop_request rid ?l"
      using d last1 by (simp add: pno_list_def take_map min_def)
    moreover have "brcmf_pno_remove_request pi rid = Some (0, ?pi)"
      using last1 find by (simp add: brcmf_pno_remove_request_def Let_def)
    ultimately show ?thesis using that [of 0 ?pi] id by simp
  next
    case inner
    obtain rs' where rs': "close_gap (?n - 1 - ?i) ?i ?rs = Some rs'" "length rs' = length ?rs"
      and t: "take (?n - 1) rs' = take ?i ?rs @ drop (Suc ?i) (take (Suc (?n - 1)) ?rs)"
    proof -
      have "?n - 1 < length ?rs" using inner len by linarith
      then show ?thesis using that close_gap_drop [of "?n - 1" ?rs ?i] inner(2) by blast
    qed
    let ?pi = "pi\<lparr>n_reqs := ?n - 1, pno_reqs := rs'\<rparr>"
    have t': "take (?n - 1) rs' = take ?i (take ?n ?rs) @ drop (Suc ?i) (take ?n ?rs)"
      using t inner by (simp add: min_def)
    have id: "rid \<in> reqid ` set ?l" using first_id_none [of rid ?l] inner len by auto
    have "set (take (?n - 1) rs') \<subseteq> set (take ?n ?rs)"
      unfolding t' by (auto dest: in_set_takeD in_set_dropD simp del: take_take drop_take)
    then have "pno_inv ?pi" using inv rs'(2) unfolding pno_inv_def by auto
    moreover have "pno_list ?pi = drop_request rid ?l"
      using drop_request_split [of rid ?l] inner len t' unfolding pno_list_def
      by (simp add: take_map drop_map del: take_take drop_take)
    moreover have "brcmf_pno_remove_request pi rid = Some (0, ?pi)"
      using inner find rs' by (simp add: brcmf_pno_remove_request_def Let_def)
    ultimately show ?thesis using that [of 0 ?pi] id by simp
  qed
qed

section \<open>Configuration is defined\<close>

definition match_ok :: "cfg80211_match_set \<Rightarrow> bool" where
  "match_ok ms \<longleftrightarrow> length (ms_ssid ms) \<le> 32 \<and> length (ms_bssid ms) = 6"

text \<open>What the kernel guarantees of a request: SSIDs and addresses of their sizes, a channel, a plan with a
  positive interval no longer than announced.\<close>

definition req_ok :: "cfg80211_sched_scan_request \<Rightarrow> bool" where
  "req_ok r \<longleftrightarrow> list_all match_ok (match_sets r) \<and> length (sr_mac_addr r) = 6 \<and> length (sr_mac_addr_mask r) = 6
     \<and> sr_channels r \<noteq> [] \<and> scan_plans r \<noteq> [] \<and> 0 < unat (scan_plans r ! 0) \<and> unat (scan_plans r ! 0) \<le> 508"

definition fw_accepts :: "'f fil \<Rightarrow> bool" where
  "fw_accepts w \<longleftrightarrow> (\<forall>ifp v d f. fil_put w ifp v d f \<noteq> None)"

definition pno_env_ok :: "'f pno_env \<Rightarrow> bool" where
  "pno_env_ok e \<longleftrightarrow> length (pe_stack e) = 56
     \<and> (\<exists>v h. brcmf_pno_setup_for_version v h = (0, Some (pe_handler e)))"

lemma bind_defined: "Option.bind x f \<noteq> None \<longleftrightarrow> (\<exists>a. x = Some a \<and> f a \<noteq> None)"
  by (cases x) auto

lemma fw_accepts_put: "fw_accepts w \<Longrightarrow> \<exists>err f'. fil_put w ifp v d f = Some (err, f')"
  by (metis fw_accepts_def not_None_eq surj_pair)

lemma fw_accepts_int: "fw_accepts w \<Longrightarrow> \<exists>err f'. put_int w ifp v n f = Some (err, f')"
  by (simp add: put_int_def fw_accepts_put)

lemma valid_addr_defined: "length b = 6 \<Longrightarrow> \<exists>v. is_valid_ether_addr b = Some v"
  by (simp add: is_valid_ether_addr_def read_bytes_def)

lemma pno_clean_defined: "fw_accepts w \<Longrightarrow> \<exists>err f'. brcmf_pno_clean w ifp f = Some (err, f')"
  using fw_accepts_int [of w ifp "IOVAR ''pfn''" 0 f] fw_accepts_put [of w ifp "IOVAR ''pfnclear''" None]
  by (auto simp: brcmf_pno_clean_def)

lemma add_ssid_defined:
  assumes "fw_accepts w" and "pno_env_ok e" and "length s \<le> 32"
  shows "\<exists>err f'. brcmf_pno_add_ssid w e ifp s active f = Some (err, f')"
  using assms fw_accepts_put [of w ifp "IOVAR ''pfn_add''"]
  by (simp add: brcmf_pno_add_ssid_def pno_env_ok_def write_bytes_in)

lemma add_bssid_defined:
  assumes "fw_accepts w" and "length b = 6"
  shows "\<exists>err f'. brcmf_pno_add_bssid w ifp b f = Some (err, f')"
  using assms fw_accepts_put [of w ifp "IOVAR ''pfn_add_bssid''"] by (simp add: brcmf_pno_add_bssid_def read_bytes_def)

lemma add_match_sets_defined:
  assumes "fw_accepts w" and "pno_env_ok e"
  shows "list_all match_ok mss \<Longrightarrow> \<exists>err' f'. add_match_sets w e ifp r mss err f = Some (err', f')"
proof (induction mss arbitrary: err f)
  case Nil
  then show ?case by simp
next
  case (Cons ms mss)
  have ok: "length (ms_ssid ms) \<le> 32" "length (ms_bssid ms) = 6" using Cons.prems by (simp_all add: match_ok_def)
  obtain err1 f1 where 1: "(if ms_ssid ms \<noteq> [] then brcmf_pno_add_ssid w e ifp (ms_ssid ms) (brcmf_is_ssid_active (ms_ssid ms) r) f
      else Some (err, f)) = Some (err1, f1)"
    using add_ssid_defined [OF assms ok(1), of ifp "brcmf_is_ssid_active (ms_ssid ms) r" f] by (cases "ms_ssid ms \<noteq> []") auto
  obtain v where 2: "(if err1 = 0 then is_valid_ether_addr (ms_bssid ms) else Some False) = Some v"
    using valid_addr_defined [OF ok(2)] by (cases "err1 = 0") auto
  obtain err2 f2 where 3: "(if v then brcmf_pno_add_bssid w ifp (ms_bssid ms) f1 else Some (err1, f1)) = Some (err2, f2)"
    using add_bssid_defined [OF assms(1) ok(2), of ifp f1] by (cases v) auto
  show ?case using Cons by (simp add: 1 2 3)
qed

lemma add_networks_defined:
  assumes "fw_accepts w" and "pno_env_ok e"
  shows "list_all req_ok rs \<Longrightarrow> \<exists>err' f'. add_networks w e ifp rs err f = Some (err', f')"
proof (induction rs arbitrary: err f)
  case Nil
  then show ?case by simp
next
  case (Cons r rs)
  then obtain err1 f1 where "add_match_sets w e ifp r (match_sets r) err f = Some (err1, f1)"
    using add_match_sets_defined [OF assms, of "match_sets r"] by (force simp: req_ok_def)
  then show ?case using Cons by simp
qed

lemma randomised_in: "randomised rs = Some r \<Longrightarrow> r \<in> set rs"
  by (induction rs) (auto split: if_splits)

lemma set_random_defined:
  assumes "fw_accepts w" and "pno_inv pi" and "list_all req_ok (pno_list pi)"
  shows "\<exists>err f'. brcmf_pno_set_random w e ifp pi f = Some (err, f')"
proof (cases "randomised (pno_list pi)")
  case None
  then show ?thesis using assms by (simp add: brcmf_pno_set_random_def reqs_upto_list)
next
  case (Some r)
  then have "req_ok r" using randomised_in assms(3) by (auto simp: list_all_iff)
  then show ?thesis
    using Some assms fw_accepts_put [of w ifp "IOVAR ''pfn_macaddr''"]
    by (simp add: brcmf_pno_set_random_def reqs_upto_list read_bytes_def req_ok_def)
qed

section \<open>The buckets\<close>

text \<open>What the description of the structure says: a bucket ends at its index, and the next one starts behind it.\<close>

fun bucket_slices :: "nat \<Rightarrow> brcmf_gscan_bucket_config list \<Rightarrow> u16 list \<Rightarrow> u16 list list" where
  "bucket_slices from [] chans = []"
| "bucket_slices from (b # bs) chans = (let upto = unat (bucket_end_index b) + 1 in
     take (upto - from) (drop from chans) # bucket_slices upto bs chans)"

definition interval_of :: "cfg80211_sched_scan_request \<Rightarrow> u32" where
  "interval_of r = scan_plans r ! 0"

definition chan_count :: "cfg80211_sched_scan_request list \<Rightarrow> nat" where
  "chan_count rs = (\<Sum>r\<leftarrow>rs. length (sr_channels r))"

definition base_period :: "cfg80211_sched_scan_request list \<Rightarrow> nat" where
  "base_period rs = fold (\<lambda>r g. gcd (unat (interval_of r)) g) (tl rs) (unat (interval_of (hd rs)))"

lemma upd_behind: "length pre < length (pre @ x # xs)" "(pre @ x # xs)[length pre := c] = (pre @ [c]) @ xs"
  by simp_all

lemma unat_num_suc: "n < 64 \<Longrightarrow> (of_nat n :: u32) + 1 = of_nat (Suc n)"
  by simp

lemma bucket_channels_run:
  "length pre + length cs \<le> 64 \<Longrightarrow> length rest = 64 - length pre \<Longrightarrow>
    bucket_channels cs (of_nat (length pre)) (pre @ rest)
      = Some (int (length pre + length cs), of_nat (length pre + length cs), pre @ cs @ drop (length cs) rest)"
proof (induction cs arbitrary: pre rest)
  case Nil
  then show ?case by (simp add: sint_of_nat_small)
next
  case (Cons c cs)
  then obtain x rest' where rest: "rest = x # rest'" by (cases rest) auto
  have n: "unat (of_nat (length pre) :: u32) = length pre" using Cons.prems by (simp add: unat_of_nat_small)
  have "bucket_channels (c # cs) (of_nat (length pre)) (pre @ rest)
      = bucket_channels cs (of_nat (length (pre @ [c]))) ((pre @ [c]) @ rest')"
    using Cons.prems by (simp add: n rest upd_opt_def algebra_simps)
  also have "\<dots> = Some (int (length (pre @ [c]) + length cs), of_nat (length (pre @ [c]) + length cs),
      (pre @ [c]) @ cs @ drop (length cs) rest')"
    by (rule Cons.IH) (use Cons.prems rest in auto)
  finally show ?case by (simp add: rest algebra_simps)
qed

definition end_index :: "nat \<Rightarrow> u8" where
  "end_index m = of_nat (m - 1)"

lemma unat_end_index: "0 < m \<Longrightarrow> m \<le> 64 \<Longrightarrow> unat (end_index m) + 1 = m"
  by (simp add: end_index_def unsigned_of_nat take_bit_nat_eq_self del: of_nat_diff)

lemma end_index_int: "0 < m \<Longrightarrow> (of_int (int m - 1) :: u8) = end_index m"
  unfolding end_index_def by (metis Suc_leI int_ops(2) of_int_of_nat_eq of_nat_diff One_nat_def)

text \<open>The buckets for requests behind \<open>n\<close> channels.\<close>

fun buckets_for :: "u32 \<Rightarrow> nat \<Rightarrow> cfg80211_sched_scan_request list \<Rightarrow> brcmf_gscan_bucket_config list" where
  "buckets_for freq n [] = []"
| "buckets_for freq n (r # rs) = (let m = n + length (sr_channels r); mult = ucast (interval_of r div freq) in
     \<lparr>bucket_end_index = end_index m, bucket_freq_multiple = (if mult = 0 then 1 else mult)\<rparr> # buckets_for freq m rs)"

definition all_channels :: "cfg80211_sched_scan_request list \<Rightarrow> u16 list" where
  "all_channels rs = concat (map sr_channels rs)"

lemma length_all_channels [simp]: "length (all_channels rs) = chan_count rs"
  by (simp add: all_channels_def chan_count_def length_concat o_def)

lemma all_channels_simps [simp]: "all_channels [] = []" "all_channels (r # rs) = sr_channels r @ all_channels rs"
  by (simp_all add: all_channels_def)

lemma chan_count_simps [simp]: "chan_count [] = 0" "chan_count (r # rs) = length (sr_channels r) + chan_count rs"
  by (simp_all add: chan_count_def)

lemma fill_buckets_run:
  "list_all req_ok rs \<Longrightarrow> length pre + chan_count rs \<le> 64 \<Longrightarrow> length rest = 64 - length pre \<Longrightarrow>
    fill_buckets freq rs \<lparr>pc_channel_num = of_nat (length pre), pc_channel_list = pre @ rest\<rparr> bs
      = Some (0, \<lparr>pc_channel_num = of_nat (length pre + chan_count rs),
          pc_channel_list = pre @ all_channels rs @ drop (chan_count rs) rest\<rparr>,
          bs @ buckets_for freq (length pre) rs)"
proof (induction rs arbitrary: pre rest bs)
  case Nil
  then show ?case by simp
next
  case (Cons r rs)
  let ?m = "length (pre @ sr_channels r)"
  have ch: "bucket_channels (sr_channels r) (of_nat (length pre)) (pre @ rest)
      = Some (int ?m, of_nat ?m, (pre @ sr_channels r) @ drop (length (sr_channels r)) rest)"
    using bucket_channels_run [of pre "sr_channels r" rest] Cons.prems by simp
  have pl: "scan_plans r \<noteq> []" "0 < ?m" using Cons.prems by (auto simp: req_ok_def)
  have "fill_buckets freq (r # rs) \<lparr>pc_channel_num = of_nat (length pre), pc_channel_list = pre @ rest\<rparr> bs
      = fill_buckets freq rs \<lparr>pc_channel_num = of_nat ?m,
          pc_channel_list = (pre @ sr_channels r) @ drop (length (sr_channels r)) rest\<rparr>
          (bs @ [\<lparr>bucket_end_index = end_index ?m, bucket_freq_multiple =
            (if (ucast (interval_of r div freq) :: u8) = 0 then 1 else ucast (interval_of r div freq))\<rparr>])"
    using pl by (simp add: brcmf_pno_get_bucket_channels_def ch interval_of_def nth_opt_in Let_def end_index_int [OF pl(2)]
        del: length_append of_nat_add of_int_diff)
  also have "\<dots> = Some (0, \<lparr>pc_channel_num = of_nat (?m + chan_count rs),
          pc_channel_list = (pre @ sr_channels r) @ all_channels rs @ drop (chan_count rs) (drop (length (sr_channels r)) rest)\<rparr>,
          (bs @ [\<lparr>bucket_end_index = end_index ?m, bucket_freq_multiple =
            (if (ucast (interval_of r div freq) :: u8) = 0 then 1 else ucast (interval_of r div freq))\<rparr>])
          @ buckets_for freq ?m rs)"
    by (rule Cons.IH) (use Cons.prems in auto)
  finally show ?case by (simp add: Let_def add.commute add.left_commute add.assoc)
qed

lemma scan_period_run:
  "list_all req_ok rs \<Longrightarrow> scan_period (of_nat g) rs = Some (of_nat (fold (\<lambda>r g. gcd (unat (interval_of r)) g) rs g))"
  if "g < 2 ^ 32" for g
  using that
proof (induction rs arbitrary: g)
  case Nil
  then show ?case by simp
next
  case (Cons r rs)
  let ?h = "gcd (unat (interval_of r)) g"
  have "?h \<le> unat (interval_of r) \<or> ?h = g" by (cases "unat (interval_of r) = 0") (auto intro: gcd_le1_nat)
  then have "?h < 2 ^ 32" using Cons.prems unat_widths_less(3) [of "interval_of r"] by auto
  moreover have "gcd_u32 (interval_of r) (of_nat g) = of_nat ?h"
    using Cons.prems by (simp add: gcd_u32_def unat_of_nat_small)
  moreover have "scan_plans r \<noteq> []" using Cons.prems by (simp add: req_ok_def)
  ultimately show ?case using Cons by (simp add: nth_opt_in interval_of_def)
qed

lemma fold_gcd_dvd:
  fixes g :: nat
  shows "fold (\<lambda>r g. gcd (f r) g) rs g dvd g \<and> (\<forall>r\<in>set rs. fold (\<lambda>r g. gcd (f r) g) rs g dvd f r)"
proof (induction rs arbitrary: g)
  case Nil
  then show ?case by simp
next
  case (Cons r rs)
  then show ?case by (auto intro: dvd_trans [OF conjunct1 [OF Cons.IH [of "gcd (f r) g"]]])
qed

lemma base_period_dvd: "r \<in> set rs \<Longrightarrow> base_period rs dvd unat (interval_of r)"
  using fold_gcd_dvd [of "\<lambda>r. unat (interval_of r)" "tl rs" "unat (interval_of (hd rs))"]
  by (cases rs) (auto simp: base_period_def)

lemma base_period_le:
  assumes "rs \<noteq> []" and "list_all req_ok rs"
  shows "base_period rs \<le> 508"
proof -
  have i: "\<And>r. r \<in> set rs \<Longrightarrow> unat (interval_of r) \<le> 508" using assms(2) by (simp add: list_all_iff req_ok_def interval_of_def)
  have "fold (\<lambda>r g. gcd (unat (interval_of r)) g) xs g \<le> 508" if "g \<le> 508" "set xs \<subseteq> set rs" for xs g
    using that
  proof (induction xs arbitrary: g)
    case Nil
    then show ?case by simp
  next
    case (Cons x xs)
    have "gcd (unat (interval_of x)) g \<le> 508"
      using Cons.prems i [of x] gcd_le1_nat [of "unat (interval_of x)" g]
      by (cases "unat (interval_of x) = 0") (simp_all del: gcd_le1_nat)
    then show ?case using Cons by simp
  qed
  then show ?thesis using assms(1) i [of "hd rs"] by (cases rs) (auto simp: base_period_def)
qed

definition scan_base :: "cfg80211_sched_scan_request list \<Rightarrow> u32" where
  "scan_base rs = of_nat (max 10 (base_period rs))"

lemma prep_fwconfig_run:
  assumes inv: "pno_inv pi" and ok: "list_all req_ok (pno_list pi)" and ne: "pno_list pi \<noteq> []"
    and chans: "chan_count (pno_list pi) \<le> 64" and mem: "pe_alloc e ALLOC_BUCKETS"
  shows "brcmf_pno_prep_fwconfig e pi = Some (int (n_reqs pi),
    \<lparr>pc_channel_num = of_nat (chan_count (pno_list pi)),
      pc_channel_list = all_channels (pno_list pi) @ replicate (64 - chan_count (pno_list pi)) 0\<rparr>,
    buckets_for (scan_base (pno_list pi)) 0 (pno_list pi), scan_base (pno_list pi))"
proof -
  let ?l = "pno_list pi"
  obtain r0 rs where l: "?l = r0 # rs" using ne by (cases ?l) auto
  have n: "n_reqs pi \<noteq> 0" using pno_list_length [OF inv] ne by (metis length_0_conv)
  have r0: "scan_plans r0 \<noteq> []" using ok l by (simp add: req_ok_def)
  have per: "scan_period (scan_plans r0 ! 0) rs = Some (of_nat (base_period ?l))"
    using scan_period_run [of "unat (interval_of r0)" rs] unat_widths_less(3) [of "interval_of r0"] ok l
    by (simp add: base_period_def interval_of_def)
  have b: "unat (of_nat (base_period ?l) :: u32) = base_period ?l"
    using base_period_le [OF ne ok] by (intro unat_of_nat_small) simp
  have freq: "(if (of_nat (base_period ?l) :: u32) < 10 then 10 else of_nat (base_period ?l)) = scan_base ?l"
    using b by (auto simp: scan_base_def word_less_nat_alt max_def)
  have fill: "fill_buckets (scan_base ?l) ?l \<lparr>pc_channel_num = 0, pc_channel_list = replicate 64 0\<rparr> []
      = Some (0, \<lparr>pc_channel_num = of_nat (chan_count ?l), pc_channel_list = all_channels ?l @ replicate (64 - chan_count ?l) 0\<rparr>,
          buckets_for (scan_base ?l) 0 ?l)"
    using fill_buckets_run [OF ok, of "[]" "replicate 64 0" "scan_base ?l" "[]"] chans by simp
  have nth: "nth_opt ?l 0 = Some r0" "nth_opt (scan_plans r0) 0 = Some (scan_plans r0 ! 0)" "tl ?l = rs"
    using l r0 by (simp_all add: nth_opt_in)
  show ?thesis
    unfolding brcmf_pno_prep_fwconfig_def reqs_upto_list [OF inv] bind.simps Let_def
    by (simp add: n nth per mem freq fill del: fill_buckets.simps buckets_for.simps nth_opt_Some)
qed

lemma slices_for:
  "n + chan_count rs \<le> 64 \<Longrightarrow> list_all (\<lambda>r. sr_channels r \<noteq> []) rs \<Longrightarrow> length pre = n \<Longrightarrow>
    bucket_slices n (buckets_for freq n rs) (pre @ all_channels rs @ rest) = map sr_channels rs"
proof (induction rs arbitrary: n pre)
  case Nil
  then show ?case by simp
next
  case (Cons r rs)
  let ?m = "n + length (sr_channels r)"
  have "0 < length (sr_channels r)" using Cons.prems by simp
  then have "unat (end_index ?m) + 1 = ?m"
    using Cons.prems by (intro unat_end_index) auto
  then show ?case
    using Cons.IH [of ?m "pre @ sr_channels r"] Cons.prems by (simp add: Let_def)
qed

lemma freq_multiple:
  assumes "r \<in> set rs" and "list_all req_ok rs" and "10 \<le> base_period rs"
  shows "unat (let mult = ucast (interval_of r div scan_base rs) in if mult = 0 then 1 else mult :: u8) * base_period rs
    = unat (interval_of r)"
proof -
  let ?i = "unat (interval_of r)" and ?b = "base_period rs"
  have dv: "?b dvd ?i" by (rule base_period_dvd [OF assms(1)])
  have i: "?i \<le> 508" using assms by (auto simp: list_all_iff req_ok_def interval_of_def)
  have "rs \<noteq> []" using assms(1) by auto
  then have b: "?b \<le> 508" by (rule base_period_le [OF _ assms(2)])
  have "unat (scan_base rs) = ?b" using assms(3) b by (simp add: scan_base_def max_def unat_of_nat_small)
  then have d: "unat (interval_of r div scan_base rs) = ?i div ?b" by (simp add: unat_div)
  have le: "?i div ?b \<le> 508 div 10" using i assms(3) by (meson div_le_mono div_le_mono2 order_trans zero_less_numeral)
  then have u: "unat (ucast (interval_of r div scan_base rs) :: u8) = ?i div ?b"
    by (simp add: unsigned_ucast_eq d take_bit_nat_eq_self)
  have "0 < ?i" using assms(1,2) by (auto simp: list_all_iff req_ok_def interval_of_def)
  then have "?i div ?b \<noteq> 0" using dv by (metis dvd_div_eq_0_iff less_numeral_extra(3))
  then have "(ucast (interval_of r div scan_base rs) :: u8) \<noteq> 0" using u by (metis unat_0)
  then show ?thesis using u dv by simp
qed

section \<open>Every configuration has a result\<close>

lemma bucket_channels_defined:
  "length l = 64 \<Longrightarrow> \<exists>err n' l'. bucket_channels cs n l = Some (err, n', l') \<and> length l' = 64"
  by (induction cs n l rule: bucket_channels.induct) (auto simp: upd_opt_def)

lemma get_bucket_channels_defined: "length (pc_channel_list cfg) = 64 \<Longrightarrow>
    \<exists>err cfg'. brcmf_pno_get_bucket_channels r cfg = Some (err, cfg') \<and> length (pc_channel_list cfg') = 64"
  using bucket_channels_defined [of "pc_channel_list cfg" "sr_channels r" "pc_channel_num cfg"]
  by (auto simp: brcmf_pno_get_bucket_channels_def)

lemma fill_buckets_defined:
  "list_all req_ok rs \<Longrightarrow> length (pc_channel_list cfg) = 64 \<Longrightarrow> \<exists>err cfg' bs'. fill_buckets freq rs cfg bs = Some (err, cfg', bs')"
proof (induction rs arbitrary: cfg bs)
  case Nil
  then show ?case by simp
next
  case (Cons r rs)
  obtain err cfg' where "brcmf_pno_get_bucket_channels r cfg = Some (err, cfg')" "length (pc_channel_list cfg') = 64"
    using get_bucket_channels_defined [OF Cons.prems(2)] by blast
  then show ?case using Cons by (simp add: req_ok_def nth_opt_in Let_def)
qed

lemma prep_fwconfig_defined:
  assumes "pno_inv pi" and "list_all req_ok (pno_list pi)"
  shows "\<exists>n cfg bs freq. brcmf_pno_prep_fwconfig e pi = Some (n, cfg, bs, freq)"
proof (cases "pno_list pi")
  case Nil
  then have "n_reqs pi = 0" using pno_list_length [OF assms(1)] by simp
  then show ?thesis by (simp add: brcmf_pno_prep_fwconfig_def Let_def)
next
  case (Cons r0 rs)
  have per: "\<exists>freq. scan_period (scan_plans r0 ! 0) rs = Some freq"
    using scan_period_run [of "unat (scan_plans r0 ! 0)" rs] unat_widths_less(3) [of "scan_plans r0 ! 0"] assms(2) Cons by simp
  have fill: "\<exists>err cfg bs. fill_buckets freq (pno_list pi) \<lparr>pc_channel_num = 0, pc_channel_list = replicate 64 0\<rparr> []
      = Some (err, cfg, bs)" for freq
    by (rule fill_buckets_defined [OF assms(2)]) simp
  have nth: "nth_opt (pno_list pi) 0 = Some r0" "nth_opt (scan_plans r0) 0 = Some (scan_plans r0 ! 0)" "tl (pno_list pi) = rs"
    using Cons assms(2) by (simp_all add: nth_opt_in req_ok_def)
  obtain freq where f: "scan_period (scan_plans r0 ! 0) rs = Some freq" using per by blast
  let ?freq = "if freq < 10 then 10 else freq"
  obtain err cfg bs where fb: "fill_buckets ?freq (pno_list pi) \<lparr>pc_channel_num = 0, pc_channel_list = replicate 64 0\<rparr> []
      = Some (err, cfg, bs)" using fill [of ?freq] by blast
  show ?thesis
    unfolding brcmf_pno_prep_fwconfig_def reqs_upto_list [OF assms(1)] bind.simps Let_def
    by (simp add: nth f fb del: fill_buckets.simps nth_opt_Some)
qed

lemma handler_config_defined:
  assumes "fw_accepts w" and "pno_env_ok e"
  shows "\<exists>err f'. ph_config (pe_handler e) w ifp freq 0 0 f = Some (err, f')"
proof -
  obtain v h where eq: "brcmf_pno_setup_for_version v h = (0, Some (pe_handler e))" using assms(2) by (auto simp: pno_env_ok_def)
  have "fst (brcmf_pno_setup_for_version v h) = 0 \<Longrightarrow> ph_config (the (snd (brcmf_pno_setup_for_version v h)))
      \<in> {brcmf_pno_config_v2, brcmf_pno_config_v3}"
    by (cases "v = 2"; cases "v = 3") (simp_all add: brcmf_pno_setup_for_version_def)
  then consider "ph_config (pe_handler e) = brcmf_pno_config_v2" | "ph_config (pe_handler e) = brcmf_pno_config_v3"
    by (auto simp: eq)
  then show ?thesis
    using fw_accepts_put [OF assms(1), of ifp "IOVAR ''pfn_set''"]
    by cases (simp_all add: brcmf_pno_config_v2_def brcmf_pno_config_v3_def pno_mscan_def)
qed

lemma sched_scan_steps_defined:
  assumes w: "fw_accepts w" and e: "pno_env_ok e" and inv: "pno_inv pi" and ok: "list_all req_ok (pno_list pi)"
  shows "\<exists>err f'. sched_scan_steps w e ifp pi n cfg bs f = Some (err, f')"
proof -
  obtain err1 f1 where 1: "brcmf_pno_channel_config w ifp cfg f = Some (err1, f1)"
    using fw_accepts_put [OF w] unfolding brcmf_pno_channel_config_def by blast
  obtain err2 f2 where 2: "fil_put w ifp (IOVAR ''pfn_gscan_cfg'') (Some (gscan_bytes n bs)) f1 = Some (err2, f2)"
    using fw_accepts_put [OF w] by blast
  obtain err3 f3 where 3: "brcmf_pno_set_random w e ifp pi f2 = Some (err3, f3)"
    using set_random_defined [OF w inv ok] by blast
  obtain err4 f4 where 4: "brcmf_pno_config_networks w e ifp pi f3 = Some (err4, f4)"
    using add_networks_defined [OF w e ok] by (fastforce simp: brcmf_pno_config_networks_def reqs_upto_list [OF inv])
  show ?thesis
    using fw_accepts_int [OF w, of ifp "IOVAR ''pfn''" 1 f4] by (auto simp: sched_scan_steps_def 1 2 3 4)
qed

lemma config_sched_scans_defined:
  assumes w: "fw_accepts w" and e: "pno_env_ok e" and inv: "pno_inv pi" and ok: "list_all req_ok (pno_list pi)"
  shows "\<exists>err f'. brcmf_pno_config_sched_scans w e ifp pi f = Some (err, f')"
proof -
  obtain n cfg bs freq where 1: "brcmf_pno_prep_fwconfig e pi = Some (n, cfg, bs, freq)"
    using prep_fwconfig_defined [OF inv ok] by blast
  obtain err2 f2 where 2: "brcmf_pno_clean w ifp f = Some (err2, f2)" using pno_clean_defined [OF w] by blast
  obtain err3 f3 where 3: "ph_config (pe_handler e) w ifp freq 0 0 f2 = Some (err3, f3)"
    using handler_config_defined [OF w e] by blast
  obtain err4 f4 where 4: "sched_scan_steps w e ifp pi n cfg bs f3 = Some (err4, f4)"
    using sched_scan_steps_defined [OF assms] by blast
  obtain err5 f5 where 5: "brcmf_pno_clean w ifp f4 = Some (err5, f5)" using pno_clean_defined [OF w] by blast
  show ?thesis by (simp add: brcmf_pno_config_sched_scans_def 1 2 3 4 5)
qed

section \<open>Starting and stopping, over any sequence\<close>

datatype pno_op = PnoStart cfg80211_sched_scan_request | PnoStop u64

fun pno_step :: "'f fil \<Rightarrow> 'f pno_env \<Rightarrow> fil_if \<Rightarrow> pno_op \<Rightarrow> brcmf_pno_info \<Rightarrow> 'f \<Rightarrow> (int \<times> brcmf_pno_info \<times> 'f) option" where
  "pno_step w e ifp (PnoStart r) pi f = brcmf_pno_start_sched_scan w e ifp r pi f"
| "pno_step w e ifp (PnoStop rid) pi f = brcmf_pno_stop_sched_scan w e ifp rid pi f"

fun pno_run :: "'f fil \<Rightarrow> 'f pno_env \<Rightarrow> fil_if \<Rightarrow> pno_op list \<Rightarrow> brcmf_pno_info \<Rightarrow> 'f \<Rightarrow> (int list \<times> brcmf_pno_info \<times> 'f) option" where
  "pno_run w e ifp [] pi f = Some ([], pi, f)"
| "pno_run w e ifp (op # ops) pi f = do {
     (err, pi, f) \<leftarrow> pno_step w e ifp op pi f;
     (errs, pi, f) \<leftarrow> pno_run w e ifp ops pi f;
     Some (err # errs, pi, f) }"

text \<open>The contract: the list of requests that are running, given the answers.\<close>

fun running :: "pno_op list \<Rightarrow> int list \<Rightarrow> cfg80211_sched_scan_request list \<Rightarrow> cfg80211_sched_scan_request list" where
  "running (PnoStart r # ops) (err # errs) l = running ops errs (if err = 0 then l @ [r] else l)"
| "running (PnoStop rid # ops) (err # errs) l = running ops errs (filter (\<lambda>r. reqid r \<noteq> rid) l)"
| "running _ _ l = l"

fun starts :: "pno_op list \<Rightarrow> cfg80211_sched_scan_request list" where
  "starts [] = []"
| "starts (PnoStart r # ops) = r # starts ops"
| "starts (PnoStop rid # ops) = starts ops"

lemma start_run:
  assumes w: "fw_accepts w" and e: "pno_env_ok e" and inv: "pno_inv pi" and ok: "list_all req_ok (pno_list pi @ [r])"
    and new: "distinct (map reqid (pno_list pi @ [r]))"
  shows "\<exists>err pi' f'. brcmf_pno_start_sched_scan w e ifp r pi f = Some (err, pi', f') \<and> pno_inv pi'
    \<and> pno_list pi' = (if err = 0 then pno_list pi @ [r] else pno_list pi)"
proof (cases "n_reqs pi = 16")
  case True
  then show ?thesis using inv by (simp add: brcmf_pno_start_sched_scan_def store_request_full)
next
  case False
  obtain pi1 where st: "brcmf_pno_store_request pi r = Some (0, pi1)" "pno_inv pi1" "pno_list pi1 = pno_list pi @ [r]"
    using store_request_run [OF inv False] by blast
  obtain ret f1 where cf: "brcmf_pno_config_sched_scans w e ifp pi1 f = Some (ret, f1)"
    using config_sched_scans_defined [OF w e st(2)] ok st(3) by metis
  show ?thesis
  proof (cases "ret < 0")
    case False
    then show ?thesis using st cf by (simp add: brcmf_pno_start_sched_scan_def)
  next
    case True
    obtain err2 pi2 where rm: "brcmf_pno_remove_request pi1 (reqid r) = Some (err2, pi2)" "pno_inv pi2"
      and l2: "pno_list pi2 = drop_request (reqid r) (pno_list pi1)"
      using remove_request_run [OF st(2), of "reqid r"] by blast
    have "filter (\<lambda>x. reqid x \<noteq> reqid r) (pno_list pi) = pno_list pi"
      using new by (auto intro!: filter_True simp: image_iff)
    then have l: "pno_list pi2 = pno_list pi"
      using drop_request_filter [OF new, of "reqid r"] by (simp add: l2 st(3))
    obtain err3 f3 where c2: "brcmf_pno_config_sched_scans w e ifp pi2 f1 = Some (err3, f3)"
      using config_sched_scans_defined [OF w e rm(2)] ok l by fastforce
    show ?thesis
      using True st cf rm(1,2) c2 l by (simp add: brcmf_pno_start_sched_scan_def)
  qed
qed

lemma stop_run:
  assumes w: "fw_accepts w" and e: "pno_env_ok e" and inv: "pno_inv pi" and ok: "list_all req_ok (pno_list pi)"
    and new: "distinct (map reqid (pno_list pi))"
  shows "\<exists>err pi' f'. brcmf_pno_stop_sched_scan w e ifp rid pi f = Some (err, pi', f') \<and> pno_inv pi'
    \<and> pno_list pi' = filter (\<lambda>r. reqid r \<noteq> rid) (pno_list pi)"
proof (cases "n_reqs pi = 0")
  case True
  then have "pno_list pi = []" using pno_list_length [OF inv] by simp
  then show ?thesis using True inv by (simp add: brcmf_pno_stop_sched_scan_def)
next
  case False
  obtain err pi1 where rm: "brcmf_pno_remove_request pi rid = Some (err, pi1)" "pno_inv pi1"
    and l: "pno_list pi1 = filter (\<lambda>r. reqid r \<noteq> rid) (pno_list pi)"
    using remove_request_run [OF inv, of rid] drop_request_filter [OF new, of rid] by metis
  obtain err2 f2 where cl: "brcmf_pno_clean w ifp f = Some (err2, f2)" using pno_clean_defined [OF w] by blast
  have "list_all req_ok (pno_list pi1)" using ok l by (auto simp: list_all_iff)
  then obtain err3 f3 where cf: "brcmf_pno_config_sched_scans w e ifp pi1 f2 = Some (err3, f3)"
    using config_sched_scans_defined [OF w e rm(2)] by blast
  show ?thesis using False rm cl cf l by (auto simp: brcmf_pno_stop_sched_scan_def)
qed

lemma run_running:
  assumes w: "fw_accepts w" and e: "pno_env_ok e"
  shows "pno_inv pi \<Longrightarrow> list_all req_ok (pno_list pi @ starts ops) \<Longrightarrow> distinct (map reqid (pno_list pi @ starts ops)) \<Longrightarrow>
    \<exists>errs pi' f'. pno_run w e ifp ops pi f = Some (errs, pi', f') \<and> pno_inv pi' \<and> pno_list pi' = running ops errs (pno_list pi)"
proof (induction ops arbitrary: pi f)
  case Nil
  then show ?case by simp
next
  case (Cons op ops)
  show ?case
  proof (cases op)
    case (PnoStart r)
    obtain err pi1 f1 where s: "brcmf_pno_start_sched_scan w e ifp r pi f = Some (err, pi1, f1)" "pno_inv pi1"
      "pno_list pi1 = (if err = 0 then pno_list pi @ [r] else pno_list pi)"
    proof -
      have "list_all req_ok (pno_list pi @ [r])" "distinct (map reqid (pno_list pi @ [r]))" using Cons.prems PnoStart by auto
      then show ?thesis using that start_run [OF w e Cons.prems(1), of r ifp f] by blast
    qed
    have "list_all req_ok (pno_list pi1 @ starts ops)" "distinct (map reqid (pno_list pi1 @ starts ops))"
      using Cons.prems s(3) PnoStart by (auto split: if_splits)
    then obtain errs pi' f' where "pno_run w e ifp ops pi1 f1 = Some (errs, pi', f')" "pno_inv pi'"
      "pno_list pi' = running ops errs (pno_list pi1)" using Cons.IH [OF s(2), of f1] by blast
    then show ?thesis using s PnoStart by auto
  next
    case (PnoStop rid)
    obtain err pi1 f1 where s: "brcmf_pno_stop_sched_scan w e ifp rid pi f = Some (err, pi1, f1)" "pno_inv pi1"
      "pno_list pi1 = filter (\<lambda>r. reqid r \<noteq> rid) (pno_list pi)"
    proof -
      have "list_all req_ok (pno_list pi)" "distinct (map reqid (pno_list pi))" using Cons.prems by auto
      then show ?thesis using that stop_run [OF w e Cons.prems(1), of ifp rid f] by blast
    qed
    have "list_all req_ok (pno_list pi1 @ starts ops)" "distinct (map reqid (pno_list pi1 @ starts ops))"
      using Cons.prems s(3) PnoStop by (auto simp: list_all_iff distinct_map_filter)
    then obtain errs pi' f' where "pno_run w e ifp ops pi1 f1 = Some (errs, pi', f')" "pno_inv pi'"
      "pno_list pi' = running ops errs (pno_list pi1)" using Cons.IH [OF s(2), of f1] by blast
    then show ?thesis using s PnoStop by auto
  qed
qed

section \<open>Reading results\<close>

text \<open>An event as it is received: its length is that of its data, and it has the smallest size of its version.\<close>

definition pno_event_ok :: "u32 \<Rightarrow> u8 list \<Rightarrow> u32 \<Rightarrow> bool" where
  "pno_event_ok least data eventlen \<longleftrightarrow> length data = unat eventlen \<and> least \<le> eventlen"

definition pno_table_ok :: "brcmf_pno_info \<Rightarrow> bool" where
  "pno_table_ok pi \<longleftrightarrow> pno_inv pi \<and> list_all req_ok (pno_list pi)"

text \<open>What the results of a version promise their reader.\<close>

locale pno_results =
  fixes h :: "'f pno_handler"
  assumes header: "pno_event_ok (get_min_data_len h) data el \<Longrightarrow>
      \<exists>c s v. get_result_count h data = Some c \<and> get_result_status h data = Some s \<and> validate_pfn_results h data el = Some v"
    and info: "pno_event_ok (get_min_data_len h) data el \<Longrightarrow> validate_pfn_results h data el = Some 0 \<Longrightarrow>
      get_result_count h data = Some c \<Longrightarrow> idx < unat c \<Longrightarrow>
      \<exists>r. get_result_info h data idx = Some r \<and> length (res_ssid r) \<le> 32"
    and buckets: "pno_event_ok (get_min_data_len h) data el \<Longrightarrow> validate_pfn_results h data el = Some 0 \<Longrightarrow>
      get_result_count h data = Some c \<Longrightarrow> idx < unat c \<Longrightarrow> pno_table_ok pi \<Longrightarrow>
      \<exists>m. get_bucket_map h data idx pi = Some m"

lemma read_le32_defined: "off + 4 \<le> length data \<Longrightarrow> \<exists>v. read_le32 data off = Some v"
  by (simp add: read_le32_def read_bytes_def)

lemma any_match_defined: "(\<And>x. x \<in> set xs \<Longrightarrow> \<exists>b. p x = Some b) \<Longrightarrow> \<exists>b. any_match p xs = Some b"
proof (induction xs)
  case Nil
  then show ?case by auto
next
  case (Cons x xs)
  obtain b where "p x = Some b" using Cons.prems [of x] by auto
  moreover obtain b' where "any_match p xs = Some b'" using Cons by auto
  ultimately show ?case by (intro exI [of _ "b \<or> b'"]) simp
qed

lemma bucket_bits_defined: "(\<And>r ms. r \<in> set rs \<Longrightarrow> ms \<in> set (match_sets r) \<Longrightarrow> \<exists>b. p ms = Some b) \<Longrightarrow>
    \<exists>m. bucket_bits p i rs = Some m"
proof (induction rs arbitrary: i)
  case Nil
  then show ?case by simp
next
  case (Cons r rs)
  obtain b where "any_match p (match_sets r) = Some b" using any_match_defined [of "match_sets r" p] Cons.prems by auto
  moreover obtain m where "bucket_bits p (i + 1) rs = Some m" using Cons by fastforce
  ultimately show ?case by simp
qed

lemma match_net_defined:
  assumes "match_ok ms" and "len_at < length data" and "ssid_at + 32 \<le> length data" and "bssid_at + 6 \<le> length data"
  shows "\<exists>b. match_net data len_at ssid_at bssid_at ms = Some b"
proof -
  obtain v where "is_valid_ether_addr (ms_bssid ms) = Some v" using valid_addr_defined assms(1) match_ok_def by blast
  then show ?thesis using assms by (auto simp: match_net_def match_ok_def nth_opt_in read_bytes_def)
qed

lemma table_buckets_defined:
  assumes "pno_table_ok pi" and "len_at < length data" and "ssid_at + 32 \<le> length data" and "bssid_at + 6 \<le> length data"
  shows "\<exists>m. bucket_bits (match_net data len_at ssid_at bssid_at) 0 (pno_list pi) = Some m"
  by (rule bucket_bits_defined, rule match_net_defined)
    (use assms in \<open>auto simp: pno_table_ok_def list_all_iff req_ok_def\<close>)

lemma unat_minus_small: "n \<le> unat el \<Longrightarrow> unat ((el :: u32) - of_nat n) = unat el - n"
proof -
  assume n: "n \<le> unat el"
  then have "unat (of_nat n :: u32) = n"
    using unat_widths_less(3) [of el] by (intro unat_of_nat_small) simp
  then show ?thesis using n by (simp add: unat_sub word_le_nat_alt)
qed

lemma validated_v3:
  assumes "pno_event_ok brcmf_pno_min_data_len_v3 data el" and "brcmf_pno_validate_pfn_results_v3 data el = Some 0"
    and "read_le32 data 8 = Some c" and "idx < unat c"
  shows "16 + 48 * idx + 48 \<le> length data"
proof -
  have el: "length data = unat el" "64 \<le> unat el"
    using assms(1) by (simp_all add: pno_event_ok_def brcmf_pno_min_data_len_v3_def word_le_nat_alt)
  then have "unat c * 48 \<le> unat el - 16"
    using assms(2,3) unat_minus_small [of 16 el]
    by (simp add: brcmf_pno_validate_pfn_results_v3_def brcmf_get_netinfo_v3_array_def Let_def split: if_splits)
  then show ?thesis using assms(4) el by linarith
qed

lemma validated_v2:
  assumes "pno_event_ok brcmf_pno_min_data_len data el" and "brcmf_pno_validate_pfn_results data el = Some 0"
    and "read_le32 data 8 = Some c" and "idx < unat c"
  shows "\<exists>st. brcmf_get_netinfo_array data = Some (Some st) \<and> st + 44 * idx + 44 \<le> length data"
proof -
  have el: "length data = unat el" "56 \<le> unat el"
    using assms(1) by (simp_all add: pno_event_ok_def brcmf_pno_min_data_len_def word_le_nat_alt)
  obtain st where st: "brcmf_get_netinfo_array data = Some (Some st)"
    using assms(2) by (auto simp: brcmf_pno_validate_pfn_results_def bind_eq_Some_conv split: option.splits)
  then have "st = 12 \<or> st = 16" by (auto simp: brcmf_get_netinfo_array_def bind_eq_Some_conv split: if_splits)
  then have "st \<le> unat el" using el by auto
  then have "unat c * 44 \<le> unat el - st"
    using assms(2,3) unat_minus_small [of st el]
    by (simp add: brcmf_pno_validate_pfn_results_def st Let_def split: if_splits)
  then show ?thesis using assms(4) el st \<open>st \<le> unat el\<close> by (intro exI [of _ st]) simp
qed

definition pno_handler_of :: "u8 \<Rightarrow> 'f pno_handler" where
  "pno_handler_of v = the (snd (brcmf_pno_setup_for_version v None))"

lemma pno_handler_v3: "get_min_data_len (pno_handler_of 3) = brcmf_pno_min_data_len_v3"
  "get_result_count (pno_handler_of 3) data = read_le32 data 8" "get_result_status (pno_handler_of 3) data = read_le32 data 4"
  "get_result_info (pno_handler_of 3) = brcmf_pno_get_result_info_v3" "get_bucket_map (pno_handler_of 3) = brcmf_pno_get_bucket_map_v3"
  "validate_pfn_results (pno_handler_of 3) = brcmf_pno_validate_pfn_results_v3"
  by (simp_all add: pno_handler_of_def brcmf_pno_setup_for_version_def brcmf_pno_get_result_count_v123_def
      brcmf_pno_get_result_status_v123_def)

lemma pno_handler_v2: "get_min_data_len (pno_handler_of 2) = brcmf_pno_min_data_len"
  "get_result_count (pno_handler_of 2) data = read_le32 data 8" "get_result_status (pno_handler_of 2) data = read_le32 data 4"
  "get_result_info (pno_handler_of 2) = brcmf_pno_get_result_info" "get_bucket_map (pno_handler_of 2) = brcmf_pno_get_bucket_map"
  "validate_pfn_results (pno_handler_of 2) = brcmf_pno_validate_pfn_results"
  by (simp_all add: pno_handler_of_def brcmf_pno_setup_for_version_def brcmf_pno_get_result_count_v123_def
      brcmf_pno_get_result_status_v123_def)

interpretation res_v3: pno_results "pno_handler_of 3"
proof
  fix data el assume "pno_event_ok (get_min_data_len (pno_handler_of 3)) data el"
  then have "64 \<le> length data" by (simp add: pno_event_ok_def pno_handler_v3 brcmf_pno_min_data_len_v3_def word_le_nat_alt)
  then obtain c s where "read_le32 data 8 = Some c" "read_le32 data 4 = Some s"
    using read_le32_defined [of 8 data] read_le32_defined [of 4 data] by auto
  then show "\<exists>c s v. get_result_count (pno_handler_of 3) data = Some c \<and> get_result_status (pno_handler_of 3) data = Some s
      \<and> validate_pfn_results (pno_handler_of 3) data el = Some v"
    by (simp add: pno_handler_v3 brcmf_pno_validate_pfn_results_v3_def Let_def)
next
  fix data el c idx
  assume a: "pno_event_ok (get_min_data_len (pno_handler_of 3)) data el" "validate_pfn_results (pno_handler_of 3) data el = Some 0"
    "get_result_count (pno_handler_of 3) data = Some c" "idx < unat c"
  then have l: "16 + 48 * idx + 48 \<le> length data" unfolding pno_handler_v3 by (rule validated_v3)
  then show "\<exists>r. get_result_info (pno_handler_of 3) data idx = Some r \<and> length (res_ssid r) \<le> 32"
    by (simp add: pno_handler_v3 brcmf_pno_get_result_info_v3_def brcmf_get_netinfo_v3_array_def nth_opt_in read_bytes_def Let_def)
  fix pi assume "pno_table_ok pi"
  then show "\<exists>m. get_bucket_map (pno_handler_of 3) data idx pi = Some m"
    using table_buckets_defined [of pi "16 + 48 * idx + 8" data "16 + 48 * idx + 12" "16 + 48 * idx"] l
    by (simp add: pno_handler_v3 brcmf_pno_get_bucket_map_v3_def brcmf_get_netinfo_v3_array_def pno_table_ok_def
        reqs_upto_list Let_def add.assoc)
qed

interpretation res_v2: pno_results "pno_handler_of 2"
proof
  fix data el assume "pno_event_ok (get_min_data_len (pno_handler_of 2)) data el"
  then have "56 \<le> length data" by (simp add: pno_event_ok_def pno_handler_v2 brcmf_pno_min_data_len_def word_le_nat_alt)
  then obtain c s v where "read_le32 data 8 = Some c" "read_le32 data 4 = Some s" "read_le32 data 0 = Some v"
    using read_le32_defined [of 8 data] read_le32_defined [of 4 data] read_le32_defined [of 0 data] by auto
  then show "\<exists>c s v. get_result_count (pno_handler_of 2) data = Some c \<and> get_result_status (pno_handler_of 2) data = Some s
      \<and> validate_pfn_results (pno_handler_of 2) data el = Some v"
    by (simp add: pno_handler_v2 brcmf_pno_validate_pfn_results_def brcmf_get_netinfo_array_def Let_def)
next
  fix data el c idx
  assume a: "pno_event_ok (get_min_data_len (pno_handler_of 2)) data el" "validate_pfn_results (pno_handler_of 2) data el = Some 0"
    "get_result_count (pno_handler_of 2) data = Some c" "idx < unat c"
  then obtain st where st: "brcmf_get_netinfo_array data = Some (Some st)" and l: "st + 44 * idx + 44 \<le> length data"
    unfolding pno_handler_v2 using validated_v2 by blast
  from l show "\<exists>r. get_result_info (pno_handler_of 2) data idx = Some r \<and> length (res_ssid r) \<le> 32"
    by (simp add: pno_handler_v2 brcmf_pno_get_result_info_def st nth_opt_in read_bytes_def Let_def)
  fix pi assume "pno_table_ok pi"
  then show "\<exists>m. get_bucket_map (pno_handler_of 2) data idx pi = Some m"
    using table_buckets_defined [of pi "st + 44 * idx + 7" data "st + 44 * idx + 8" "st + 44 * idx"] l
    by (simp add: pno_handler_v2 brcmf_pno_get_bucket_map_def st pno_table_ok_def reqs_upto_list Let_def add.assoc)
qed

section \<open>Properties\<close>

lemma attach_empty: "brcmf_pno_attach True x = (0, Some pi) \<Longrightarrow> pno_inv pi \<and> pno_list pi = []"
  by (auto simp: brcmf_pno_attach_def pno_inv_def pno_list_def)

text \<open>C36: From attaching on, whatever requests are started and stopped and whatever the firmware answers, every
  operation has a result, and the table holds the requests that are running, in the order they were started:
  a start that reports success adds its request, one that fails leaves the others as they were, a stop removes
  its request.\<close>

theorem sched_scan_requests:
  assumes "fw_accepts w" and "pno_env_ok e" and "brcmf_pno_attach True x = (0, Some pi)"
    and "list_all req_ok (starts ops)" and "distinct (map reqid (starts ops))"
  shows "\<exists>errs pi' f'. pno_run w e ifp ops pi f = Some (errs, pi', f') \<and> pno_inv pi' \<and> pno_list pi' = running ops errs []"
  using run_running [OF assms(1,2), of pi ops ifp f] attach_empty [OF assms(3)] assms(4,5) by simp


text \<open>The third version of the interface reports every network on the 2.4 GHz band: the band bits of the channel
  specification are compared with the numbers of another enumeration.\<close>

theorem pno_v3_band:
  assumes "brcmf_pno_get_result_info_v3 data idx = Some r"
  shows "res_band r = NL80211_BAND_2GHZ"
proof -
  have b: "\<not> bit (c AND 0xc000) n" if "n < 3" for c :: u16 and n
    using that by (cases n rule: nat.exhaust) (auto simp: bit_simps less_Suc_eq numeral_eq_Suc)
  have "c AND 0xc000 \<noteq> 2" "c AND 0xc000 \<noteq> 1" "c AND 0xc000 \<noteq> 4" for c :: u16
    using b [of 1 c] b [of 0 c] b [of 2 c] by (force simp: bit_simps)+
  then show ?thesis
    using assms by (auto simp: brcmf_pno_get_result_info_v3_def fwil_band_to_nl80211_def Let_def bind_eq_Some_conv)
qed

section \<open>Witnesses\<close>

definition wit_req :: "u64 \<Rightarrow> u16 list \<Rightarrow> u32 \<Rightarrow> cfg80211_sched_scan_request" where
  "wit_req rid chans interval = \<lparr>reqid = rid, sr_ssids = [], sr_flags = 0, match_sets = [\<lparr>ms_ssid = [65], ms_bssid = replicate 6 0\<rparr>],
     sr_channels = chans, sr_mac_addr = replicate 6 0, sr_mac_addr_mask = replicate 6 0, scan_plans = [interval]\<rparr>"

definition wit_pno_env :: "fw_log pno_env" where
  "wit_pno_env = \<lparr>pe_alloc = (\<lambda>_. True), pe_random = (\<lambda>_. 0), pe_stack = replicate 56 0, pe_handler = pno_handler_of 2\<rparr>"

lemma wit_env_ok: "pno_env_ok wit_pno_env"
  unfolding pno_env_ok_def wit_pno_env_def pno_handler_of_def
  by (auto simp: brcmf_pno_setup_for_version_def intro!: exI [of _ "2 :: u8"])

definition wit_table :: brcmf_pno_info where
  "wit_table = \<lparr>n_reqs = 2, pno_reqs = [Some (wit_req 7 [1, 6] 20), Some (wit_req 8 [11, 36, 40] 30)] @ replicate 14 None\<rparr>"

theorem sched_scan_requests_witness:
  "\<exists>errs pi' f'. pno_run (rec_fil (\<lambda>_ b. b) (\<lambda>_. True)) wit_pno_env wit_if
      [PnoStart (wit_req 7 [1, 6] 20), PnoStart (wit_req 8 [11] 30), PnoStop 7]
      \<lparr>n_reqs = 0, pno_reqs = replicate 16 None\<rparr> [] = Some (errs, pi', f') \<and> pno_inv pi'
    \<and> pno_list pi' = running [PnoStart (wit_req 7 [1, 6] 20), PnoStart (wit_req 8 [11] 30), PnoStop 7] errs []"
  by (rule sched_scan_requests [where x = None])
    (simp_all add: fw_accepts_def wit_env_ok brcmf_pno_attach_def req_ok_def match_ok_def wit_req_def)


theorem pno_v3_band_witness:
  "\<exists>r. brcmf_pno_get_result_info_v3 (replicate 22 0 @ le16 0xd024 @ replicate 40 0) 0 = Some r \<and> res_channel r = 36
    \<and> res_band r = NL80211_BAND_2GHZ"
proof -
  obtain r where r: "brcmf_pno_get_result_info_v3 (replicate 22 0 @ le16 0xd024 @ replicate 40 0) 0 = Some r" "res_channel r = 36"
    by (simp add: brcmf_pno_get_result_info_v3_def brcmf_get_netinfo_v3_array_def nth_opt_in read_bytes_def le16_def of_le16_def
        nth_append Let_def)
  then show ?thesis using pno_v3_band by blast
qed

end
