(* ===== verification/CfgScan.thy ===== *)
theory CfgScan
  imports CfgSec Pno
begin

text \<open>
  Scanning in \<open>cfg80211.c\<close>: requests, the buffer the results are collected in, the ways a scan ends, and the scans
  the driver starts itself when a scheduled scan reports networks. The listed results are bytes of the buffer; what
  the kernel is told is recorded. The peer-to-peer hooks and the kernel's tables of channels are parameters.
\<close>

abbreviation BRCMF_ESCAN_BUF_SIZE :: nat where "BRCMF_ESCAN_BUF_SIZE \<equiv> 65000"
abbreviation WL_ESCAN_RESULTS_FIXED_SIZE :: nat where "WL_ESCAN_RESULTS_FIXED_SIZE \<equiv> 12"
abbreviation WL_BSS_INFO_MAX :: nat where "WL_BSS_INFO_MAX \<equiv> 2048"
abbreviation BSS_INFO_SIZE :: nat where "BSS_INFO_SIZE \<equiv> 172"
abbreviation BRCMF_BSS_RSSI_ON_CHANNEL :: u8 where "BRCMF_BSS_RSSI_ON_CHANNEL \<equiv> 4"
abbreviation BRCMF_E_STATUS_SUCCESS :: u32 where "BRCMF_E_STATUS_SUCCESS \<equiv> 0"
abbreviation BRCMF_E_STATUS_ABORT :: u32 where "BRCMF_E_STATUS_ABORT \<equiv> 4"
abbreviation BRCMF_E_STATUS_PARTIAL :: u32 where "BRCMF_E_STATUS_PARTIAL \<equiv> 8"
abbreviation BRCMF_C_SCAN :: u32 where "BRCMF_C_SCAN \<equiv> 50"

section \<open>State\<close>

text \<open>What the kernel is told of a network, and of scans.\<close>

record cfg80211_inform =
  in_chan :: ieee80211_channel
  in_signal :: int
  in_bssid :: "u8 list"
  in_capability :: u16
  in_interval :: u16
  in_ie :: "u8 list"

datatype scan_call = ScanDone cfg80211_scan_request bool | SchedResults u64 | SchedStopped u64 | InformBss cfg80211_inform

text \<open>The fields of \<open>struct brcmf_cfg80211_info\<close> that scanning uses. The buffer begins with the header
  \<open>struct brcmf_scan_results\<close>, whose three words are fields here.\<close>

record scan_info =
  sc_request :: "cfg80211_scan_request option"
  sc_busy :: bool
  sc_abort :: bool
  sc_suppress :: bool
  int_escan_map :: u32
  escan_ifp :: "fil_if option"
  escan_scanning :: bool
  list_version :: u32
  list_count :: u32
  list_buflen :: u32
  escan_buf :: "u8 list"
  escan_timer :: bool
  escan_work :: bool
  sc_calls :: "scan_call list"

datatype scan_alloc = ALLOC_SCAN_ABORT | ALLOC_SCAN_STRUCT | ALLOC_ESCAN | ALLOC_SCAN_IE | ALLOC_INTERNAL | ALLOC_INFORM

type_synonym 'f escan_run = "fil_if \<Rightarrow> cfg80211_scan_request \<Rightarrow> 'f \<Rightarrow> (int \<times> 'f) option"

text \<open>The environment: the builder of scan structures with its version, the channel tables of the kernel
  (\<open>ieee80211_channel_to_frequency\<close>, \<open>ieee80211_get_channel\<close>), the codec with what two uninitialised locals hold,
  whether an interface's virtual interface is ready, the interface a scan is sent over, the peer-to-peer hooks,
  and whether ad hoc networks are supported.\<close>

record 'f scan_env =
  se_alloc :: "scan_alloc \<Rightarrow> bool"
  se_builder :: scan_builder
  se_version :: u8
  se_chan :: chan_env
  se_freq :: "u8 \<Rightarrow> nl80211_band \<Rightarrow> u32"
  se_channel :: "u32 \<Rightarrow> ieee80211_channel option"
  se_d11inf :: brcmu_d11inf
  se_junk :: "brcmu_chan \<times> brcmu_chan"
  se_vif_up :: "fil_if \<Rightarrow> bool"
  se_via :: "fil_if \<Rightarrow> fil_if"
  se_p2p_prep :: "cfg80211_scan_request \<Rightarrow> brcmf_cfg80211_vif \<Rightarrow> 'f \<Rightarrow> (int \<times> 'f escan_run option \<times> 'f) option"
  se_common_channel :: "u8 list option \<Rightarrow> bool"
  se_adhoc :: bool

definition tell :: "scan_call \<Rightarrow> scan_info \<Rightarrow> scan_info" where
  "tell x c = c\<lparr>sc_calls := sc_calls c @ [x]\<rparr>"

section \<open>Starting a scan\<close>

definition brcmf_set_mpc :: "'f fil \<Rightarrow> 'f scan_env \<Rightarrow> fil_if \<Rightarrow> u32 \<Rightarrow> 'f \<Rightarrow> 'f option" where
  "brcmf_set_mpc w e ifp mpc f = (
     if se_vif_up e ifp then do { (_, f) \<leftarrow> put_int w ifp (IOVAR ''mpc'') mpc f; Some f } else Some f)"

definition brcmf_scan_config_mpc :: "'f fil \<Rightarrow> 'f scan_env \<Rightarrow> fil_if \<Rightarrow> u32 \<Rightarrow> 'f \<Rightarrow> 'f option" where
  "brcmf_scan_config_mpc w e ifp mpc f = (
     if quirk_enabled w QUIRK_NEED_MPC then brcmf_set_mpc w e ifp mpc f else Some f)"

definition brcmf_run_escan :: "'f fil \<Rightarrow> 'f scan_env \<Rightarrow> 'f escan_run" where
  "brcmf_run_escan w e ifp request f = do {
     p \<leftarrow> se_builder e (se_chan e) (se_alloc e ALLOC_SCAN_STRUCT) (Some request);
     case p of None \<Rightarrow> Some (E_INVAL, f)
     | Some prepped \<Rightarrow>
         if \<not> se_alloc e ALLOC_ESCAN then Some (E_NOMEM, f)
         else fil_put w ifp (IOVAR ''escan'') (Some (le32 (ucast (se_version e)) @ le16 1 @ le16 0x1234 @ prepped)) f }"

definition brcmf_do_escan :: "'f fil \<Rightarrow> 'f scan_env \<Rightarrow> 'f escan_run \<Rightarrow> fil_if \<Rightarrow> cfg80211_scan_request \<Rightarrow>
    scan_info \<Rightarrow> 'f \<Rightarrow> (int \<times> scan_info \<times> 'f) option" where
  "brcmf_do_escan w e run ifp request c f = do {
     let c = c\<lparr>escan_ifp := Some ifp, escan_scanning := True\<rparr>;
     f \<leftarrow> brcmf_scan_config_mpc w e ifp 0 f;
     let c = c\<lparr>list_version := 0, list_count := 0, list_buflen := of_nat WL_ESCAN_RESULTS_FIXED_SIZE\<rparr>;
     (err, f) \<leftarrow> run ifp request f;
     f \<leftarrow> (if err \<noteq> 0 then brcmf_scan_config_mpc w e ifp 1 f else Some f);
     Some (err, c, f) }"

text \<open>The vendor elements of probe requests have the flag 0x10.\<close>

definition scan_steps :: "'f fil \<Rightarrow> 'f scan_env \<Rightarrow> brcmf_cfg80211_vif \<Rightarrow> cfg80211_scan_request \<Rightarrow> u8 list \<Rightarrow>
    scan_info \<Rightarrow> 'f \<Rightarrow> (int \<times> brcmf_cfg80211_vif \<times> scan_info \<times> 'f) option" where
  "scan_steps w e vif request ie c f = do {
     (err, run, f) \<leftarrow> se_p2p_prep e request vif f;
     if err \<noteq> 0 then Some (err, vif, c, f)
     else do {
       let run = (case run of None \<Rightarrow> brcmf_run_escan w e | Some r \<Rightarrow> r);
       (err, v, f) \<leftarrow> brcmf_vif_set_mgmt_ie w (se_alloc e ALLOC_SCAN_IE) (Some vif) 0x10 (Some ie) (of_nat (length ie)) f;
       vif \<leftarrow> v;
       if err \<noteq> 0 then Some (err, vif, c, f)
       else do {
         (err, c, f) \<leftarrow> brcmf_do_escan w e run (se_via e (vif_ifp vif)) request c f;
         Some (err, vif, c, f) } } }"

definition brcmf_cfg80211_scan :: "'f fil \<Rightarrow> 'f scan_env \<Rightarrow> brcmf_cfg80211_vif \<Rightarrow> cfg80211_scan_request \<Rightarrow> u8 list \<Rightarrow>
    scan_info \<Rightarrow> 'f \<Rightarrow> (int \<times> brcmf_cfg80211_vif \<times> scan_info \<times> 'f) option" where
  "brcmf_cfg80211_scan w e vif request ie c f = (
     if \<not> check_vif_up vif then Some (E_IO, vif, c, f)
     else if sc_busy c \<or> sc_abort c \<or> sc_suppress c \<or> VIF_CONNECTING \<in> sme_state vif then Some (E_AGAIN, vif, c, f)
     else do {
       (err, vif, c, f) \<leftarrow> scan_steps w e vif request ie (c\<lparr>sc_request := Some request, sc_busy := True\<rparr>) f;
       Some (err, vif, if err \<noteq> 0 then c\<lparr>sc_busy := False, sc_request := None\<rparr> else c\<lparr>escan_timer := True\<rparr>, f) })"

section \<open>Ending a scan\<close>

text \<open>The scheduled scans of a map of buckets, from the lowest bit on; nothing is reported when the scan was aborted.\<close>

fun report_buckets :: "brcmf_pno_info \<Rightarrow> bool \<Rightarrow> nat list \<Rightarrow> scan_info \<Rightarrow> scan_info option" where
  "report_buckets pi aborted [] c = Some c"
| "report_buckets pi aborted (b # bs) c = do {
     rid \<leftarrow> brcmf_pno_find_reqid_by_bucket pi (of_nat b);
     report_buckets pi aborted bs (if aborted then c else tell (SchedResults rid) c) }"

definition set_bits_of :: "u32 \<Rightarrow> nat list" where
  "set_bits_of m = filter (\<lambda>n. bit m n) [0..<32]"

definition scan_result :: "brcmf_pno_info \<Rightarrow> cfg80211_scan_request option \<Rightarrow> bool \<Rightarrow> scan_info \<Rightarrow> scan_info option" where
  "scan_result pi request aborted c = (
     if int_escan_map c \<noteq> 0 then report_buckets pi aborted (set_bits_of (int_escan_map c)) (c\<lparr>int_escan_map := 0\<rparr>)
     else case request of None \<Rightarrow> Some c | Some r \<Rightarrow> Some (tell (ScanDone r aborted) c))"

definition brcmf_notify_escan_complete :: "'f fil \<Rightarrow> 'f scan_env \<Rightarrow> brcmf_pno_info \<Rightarrow> fil_if option \<Rightarrow> bool \<Rightarrow> bool \<Rightarrow>
    scan_info \<Rightarrow> 'f \<Rightarrow> (int \<times> scan_info \<times> 'f) option" where
  "brcmf_notify_escan_complete w e pi ifp aborted fw_abort c f = do {
     let request = sc_request c;
     let c = c\<lparr>sc_request := None, escan_timer := False\<rparr>;
     (go, err, f) \<leftarrow> (if \<not> fw_abort then Some (True, 0, f) else do {
         data \<leftarrow> se_builder e (se_chan e) (se_alloc e ALLOC_SCAN_ABORT) None;
         case data of None \<Rightarrow> Some (False, 0, f)
         | Some d \<Rightarrow> do {
             i \<leftarrow> ifp;
             (err, f) \<leftarrow> fil_put w i (CMD BRCMF_C_SCAN) (Some d) f;
             Some (True, err, f) } });
     if \<not> go then Some (0, c, f)
     else do {
       i \<leftarrow> ifp;
       f \<leftarrow> brcmf_scan_config_mpc w e i 1 f;
       c \<leftarrow> scan_result pi request aborted c;
       Some (err, c\<lparr>sc_busy := False\<rparr>, f) } }"

definition brcmf_abort_scanning :: "'f fil \<Rightarrow> 'f scan_env \<Rightarrow> brcmf_pno_info \<Rightarrow> scan_info \<Rightarrow> 'f \<Rightarrow> (scan_info \<times> 'f) option" where
  "brcmf_abort_scanning w e pi c f = do {
     let c = c\<lparr>sc_abort := True\<rparr>;
     (_, c, f) \<leftarrow> (if int_escan_map c \<noteq> 0 \<or> sc_request c \<noteq> None
       then brcmf_notify_escan_complete w e pi (escan_ifp c) True True (c\<lparr>escan_scanning := False\<rparr>) f
       else Some (0, c, f));
     Some (c\<lparr>sc_busy := False, sc_abort := False\<rparr>, f) }"

section \<open>Results\<close>

definition rd16 :: "u8 list \<Rightarrow> nat \<Rightarrow> u16 option" where
  "rd16 b off = do { lo \<leftarrow> nth_opt b off; hi \<leftarrow> nth_opt b (off + 1); Some (of_le16 lo hi) }"

text \<open>A network found, at an offset of a buffer. The control channel is filled in when the firmware left it out.
  A frequency or a channel the kernel does not know is skipped.\<close>

definition brcmf_inform_single_bss :: "'f scan_env \<Rightarrow> u8 list \<Rightarrow> nat \<Rightarrow> (int \<times> u8 list \<times> cfg80211_inform option) option" where
  "brcmf_inform_single_bss e buf off = do {
     len \<leftarrow> read_le32 buf (off + 4);
     if WL_BSS_INFO_MAX < unat len then Some (E_INVAL, buf, None)
     else do {
       cs \<leftarrow> rd16 buf (off + 72);
       ctl \<leftarrow> nth_opt buf (off + 88);
       let ctl = (if ctl = 0 then control_ch_num (decchspec (se_d11inf e) ((fst (se_junk e))\<lparr>chspec := cs\<rparr>)) else ctl);
       buf \<leftarrow> upd_opt buf (off + 88) ctl;
       let band = (if cs AND 0xc000 = 0x4000 then NL80211_BAND_6GHZ
         else if cs AND 0xc000 = 0xc000 then NL80211_BAND_5GHZ else NL80211_BAND_2GHZ);
       let freq = se_freq e ctl band;
       if freq = 0 then Some (0, buf, None)
       else case se_channel e freq of None \<Rightarrow> Some (0, buf, None)
       | Some ch \<Rightarrow> do {
           cap \<leftarrow> rd16 buf (off + 16);
           period \<leftarrow> rd16 buf (off + 14);
           ie_off \<leftarrow> rd16 buf (off + 116);
           ie_len \<leftarrow> read_le32 buf (off + 120);
           rssi \<leftarrow> rd16 buf (off + 78);
           bssid \<leftarrow> read_bytes buf (off + 8) 6;
           ie \<leftarrow> read_bytes buf (off + unat ie_off) (unat ie_len);
           if \<not> se_alloc e ALLOC_INFORM then Some (E_NOMEM, buf, None)
           else Some (0, buf, Some \<lparr>in_chan = ch, in_signal = sint rssi * 100, in_bssid = bssid, in_capability = cap,
             in_interval = period, in_ie = ie\<rparr>) } } }"

text \<open>The networks of the list, over the number that is left; the next one is behind the length of this one.\<close>

fun inform_loop :: "'f scan_env \<Rightarrow> nat \<Rightarrow> nat \<Rightarrow> scan_info \<Rightarrow> (int \<times> scan_info) option" where
  "inform_loop e 0 off c = Some (0, c)"
| "inform_loop e (Suc k) off c = do {
     (err, buf, call) \<leftarrow> brcmf_inform_single_bss e (escan_buf c) off;
     let c = (case call of None \<Rightarrow> c | Some i \<Rightarrow> tell (InformBss i) c)\<lparr>escan_buf := buf\<rparr>;
     if err \<noteq> 0 then Some (err, c)
     else if k = 0 then Some (0, c)
     else do {
       len \<leftarrow> read_le32 (escan_buf c) (off + 4);
       inform_loop e k (off + unat len) c } }"

definition brcmf_inform_bss :: "'f scan_env \<Rightarrow> scan_info \<Rightarrow> (int \<times> scan_info) option" where
  "brcmf_inform_bss e c = (
     if list_count c \<noteq> 0 \<and> (list_version c < 109 \<or> 112 < list_version c) then Some (E_OPNOTSUPP, c)
     else inform_loop e (unat (list_count c)) WL_ESCAN_RESULTS_FIXED_SIZE c)"

text \<open>Comparing a listed network with a new one: whether they are the same, with the listed one's signal updated.\<close>

definition same_bss_update :: "u8 list \<Rightarrow> nat \<Rightarrow> u8 list \<Rightarrow> nat \<Rightarrow> u8 list option" where
  "same_bss_update buf off ev eo = do {
     f1 \<leftarrow> nth_opt buf (off + 96);
     f2 \<leftarrow> nth_opt ev (eo + 96);
     r1 \<leftarrow> rd16 buf (off + 78);
     r2 \<leftarrow> rd16 ev (eo + 78);
     let on1 = f1 AND BRCMF_BSS_RSSI_ON_CHANNEL;
     let on2 = f2 AND BRCMF_BSS_RSSI_ON_CHANNEL;
     if on1 = on2 then (if sint r1 < sint r2 then write_bytes buf (off + 78) (le16 r2) else Some buf)
     else if on1 \<noteq> 0 \<and> on2 = 0 then do {
       buf \<leftarrow> write_bytes buf (off + 78) (le16 r2);
       upd_opt buf (off + 96) (f1 OR BRCMF_BSS_RSSI_ON_CHANNEL) }
     else Some buf }"

definition brcmf_compare_update_same_bss :: "'f scan_env \<Rightarrow> u8 list \<Rightarrow> nat \<Rightarrow> u8 list \<Rightarrow> nat \<Rightarrow> (bool \<times> u8 list) option" where
  "brcmf_compare_update_same_bss e buf off ev eo = do {
     c1 \<leftarrow> rd16 buf (off + 72);
     c2 \<leftarrow> rd16 ev (eo + 72);
     let b1 = chan_band (decchspec (se_d11inf e) ((fst (se_junk e))\<lparr>chspec := c1\<rparr>));
     let b2 = chan_band (decchspec (se_d11inf e) ((snd (se_junk e))\<lparr>chspec := c2\<rparr>));
     a1 \<leftarrow> read_bytes buf (off + 8) 6;
     a2 \<leftarrow> read_bytes ev (eo + 8) 6;
     l1 \<leftarrow> nth_opt buf (off + 18);
     l2 \<leftarrow> nth_opt ev (eo + 18);
     if a1 \<noteq> a2 \<or> b1 \<noteq> b2 \<or> l1 \<noteq> l2 then Some (False, buf)
     else do {
       s1 \<leftarrow> read_bytes buf (off + 19) (unat l2);
       s2 \<leftarrow> read_bytes ev (eo + 19) (unat l2);
       if s1 \<noteq> s2 then Some (False, buf)
       else do { buf \<leftarrow> same_bss_update buf off ev eo; Some (True, buf) } } }"

fun search_bss :: "'f scan_env \<Rightarrow> u8 list \<Rightarrow> nat \<Rightarrow> nat \<Rightarrow> u8 list \<Rightarrow> (bool \<times> u8 list) option" where
  "search_bss e ev 0 off buf = Some (False, buf)"
| "search_bss e ev (Suc k) off buf = do {
     (same, buf) \<leftarrow> brcmf_compare_update_same_bss e buf off ev 12;
     if same then Some (True, buf)
     else if k = 0 then Some (False, buf)
     else do {
       len \<leftarrow> read_le32 buf (off + 4);
       search_bss e ev k (off + unat len) buf } }"

text \<open>Putting a result that passed the checks into the list, unless it does not fit or is already there.\<close>

definition escan_accept :: "'f scan_env \<Rightarrow> u8 list \<Rightarrow> u32 \<Rightarrow> scan_info \<Rightarrow> scan_info option" where
  "escan_accept e data bi_length c = (
     if of_nat BRCMF_ESCAN_BUF_SIZE - list_buflen c < bi_length then Some c
     else do {
       (same, buf) \<leftarrow> search_bss e data (unat (list_count c)) WL_ESCAN_RESULTS_FIXED_SIZE (escan_buf c);
       let c = c\<lparr>escan_buf := buf\<rparr>;
       if same then Some c
       else do {
         bi \<leftarrow> read_bytes data 12 (unat bi_length);
         buf \<leftarrow> write_bytes buf (unat (list_buflen c)) bi;
         version \<leftarrow> read_le32 data 12;
         Some (c\<lparr>escan_buf := buf, list_version := version, list_buflen := list_buflen c + bi_length,
           list_count := list_count c + 1\<rparr>) } })"

text \<open>One result; a result that is not accepted leaves the list as it is.\<close>

definition escan_partial :: "'f scan_env \<Rightarrow> u32 \<Rightarrow> u8 list \<Rightarrow> scan_info \<Rightarrow> scan_info option" where
  "escan_partial e datalen data c = (
     if unat datalen < 12 + BSS_INFO_SIZE then Some c
     else do {
       buflen \<leftarrow> read_le32 data 0;
       if BRCMF_ESCAN_BUF_SIZE < unat buflen \<or> datalen < buflen \<or> unat buflen < 12 + BSS_INFO_SIZE then Some c
       else do {
         bss_count \<leftarrow> rd16 data 10;
         if bss_count \<noteq> 1 then Some c
         else if se_common_channel e (Some (drop 12 data)) then Some c
         else if int_escan_map c = 0 \<and> sc_request c = None then Some c
         else do {
           bi_length \<leftarrow> read_le32 data 16;
           if bi_length \<noteq> buflen - of_nat WL_ESCAN_RESULTS_FIXED_SIZE then Some c
           else do {
             cap \<leftarrow> rd16 data 28;
             if \<not> se_adhoc e \<and> cap AND 2 \<noteq> 0 then Some c
             else escan_accept e data bi_length c } } } })"

definition brcmf_cfg80211_escan_handler :: "'f fil \<Rightarrow> 'f scan_env \<Rightarrow> brcmf_pno_info \<Rightarrow> fil_if \<Rightarrow> u32 \<Rightarrow> u32 \<Rightarrow> u8 list \<Rightarrow>
    scan_info \<Rightarrow> 'f \<Rightarrow> (int \<times> scan_info \<times> 'f) option" where
  "brcmf_cfg80211_escan_handler w e pi ifp status datalen data c f = (
     if status = BRCMF_E_STATUS_ABORT then Some (0, c, f)
     else if \<not> sc_busy c then Some (E_PERM, c, f)
     else if status = BRCMF_E_STATUS_PARTIAL then do { c \<leftarrow> escan_partial e datalen data c; Some (0, c, f) }
     else do {
       let c = c\<lparr>escan_scanning := False\<rparr>;
       if se_common_channel e None then Some (0, c, f)
       else if int_escan_map c \<noteq> 0 \<or> sc_request c \<noteq> None then do {
         (_, c) \<leftarrow> brcmf_inform_bss e c;
         (_, c, f) \<leftarrow> brcmf_notify_escan_complete w e pi (Some ifp) (status \<noteq> BRCMF_E_STATUS_SUCCESS) False c f;
         Some (0, c, f) }
       else Some (0, c, f) })"

section \<open>The timer\<close>

definition brcmf_escan_timeout :: "scan_info \<Rightarrow> scan_info" where
  "brcmf_escan_timeout c = (let c = c\<lparr>escan_timer := False\<rparr> in
     if int_escan_map c \<noteq> 0 \<or> sc_request c \<noteq> None then c\<lparr>escan_work := True\<rparr> else c)"

definition brcmf_cfg80211_escan_timeout_worker :: "'f fil \<Rightarrow> 'f scan_env \<Rightarrow> brcmf_pno_info \<Rightarrow> scan_info \<Rightarrow> 'f \<Rightarrow>
    (scan_info \<times> 'f) option" where
  "brcmf_cfg80211_escan_timeout_worker w e pi c f = do {
     let c = c\<lparr>escan_work := False\<rparr>;
     (_, c) \<leftarrow> brcmf_inform_bss e c;
     (_, c, f) \<leftarrow> brcmf_notify_escan_complete w e pi (escan_ifp c) True True c f;
     Some (c, f) }"

section \<open>Scans for the networks of a scheduled scan\<close>

text \<open>The request is built in one allocation for \<open>n_netinfo\<close> channels and as many SSIDs.\<close>

fun add_new :: "nat \<Rightarrow> 'a \<Rightarrow> 'a list \<Rightarrow> 'a list option" where
  "add_new room x xs = (if x \<in> set xs then Some xs else if length xs < room then Some (xs @ [x]) else None)"

definition brcmf_internal_escan_add_info :: "'f scan_env \<Rightarrow> nat \<Rightarrow> pno_result \<Rightarrow> cfg80211_scan_request \<Rightarrow>
    (int \<times> cfg80211_scan_request) option" where
  "brcmf_internal_escan_add_info e room r req = (let freq = se_freq e (res_channel r) (res_band r) in
     if freq = 0 then Some (E_INVAL, req)
     else case se_channel e freq of None \<Rightarrow> Some (E_INVAL, req)
     | Some ch \<Rightarrow> do {
         chans \<leftarrow> add_new room ch (rq_channels req);
         ssids \<leftarrow> add_new room (res_ssid r) (rq_ssids req);
         Some (0, req\<lparr>rq_channels := chans, rq_ssids := ssids\<rparr>) })"

definition brcmf_start_internal_escan :: "'f fil \<Rightarrow> 'f scan_env \<Rightarrow> brcmf_pno_info \<Rightarrow> fil_if \<Rightarrow> u32 \<Rightarrow> cfg80211_scan_request \<Rightarrow>
    scan_info \<Rightarrow> 'f \<Rightarrow> (int \<times> scan_info \<times> 'f) option" where
  "brcmf_start_internal_escan w e pi ifp fwmap request c f = do {
     (c, f) \<leftarrow> (if sc_busy c then brcmf_abort_scanning w e pi c f else Some (c, f));
     (err, c, f) \<leftarrow> brcmf_do_escan w e (brcmf_run_escan w e) ifp request (c\<lparr>sc_busy := True\<rparr>) f;
     Some (err, if err \<noteq> 0 then c\<lparr>sc_busy := False\<rparr> else c\<lparr>int_escan_map := fwmap\<rparr>, f) }"

text \<open>Reading the results from index \<open>i\<close> on: an error, or the buckets and the request.\<close>

fun collect_results :: "'f scan_env \<Rightarrow> 'f pno_handler \<Rightarrow> brcmf_pno_info \<Rightarrow> u8 list \<Rightarrow> nat \<Rightarrow> nat \<Rightarrow> nat \<Rightarrow> u32 \<Rightarrow>
    cfg80211_scan_request \<Rightarrow> (int \<times> u32 \<times> cfg80211_scan_request) option" where
  "collect_results e h pi data room 0 i bmap req = Some (0, bmap, req)"
| "collect_results e h pi data room (Suc k) i bmap req = do {
     r \<leftarrow> get_result_info h data i;
     m \<leftarrow> get_bucket_map h data i pi;
     (err, req) \<leftarrow> brcmf_internal_escan_add_info e room r req;
     if err \<noteq> 0 then Some (err, bmap OR m, req)
     else collect_results e h pi data room k (i + 1) (bmap OR m) req }"

definition brcmf_notify_sched_scan_results :: "'f fil \<Rightarrow> 'f scan_env \<Rightarrow> 'f pno_handler \<Rightarrow> brcmf_pno_info \<Rightarrow> fil_if \<Rightarrow>
    u32 \<Rightarrow> u32 \<Rightarrow> u8 list \<Rightarrow> scan_info \<Rightarrow> 'f \<Rightarrow> (int \<times> scan_info \<times> 'f) option" where
  "brcmf_notify_sched_scan_results w e h pi ifp event_code datalen data c f = (
     if datalen < get_min_data_len h then Some (0, c, f)
     else if event_code = 34 then Some (0, c, f)
     else do {
       count \<leftarrow> get_result_count h data;
       _ \<leftarrow> get_result_status h data;
       let stopped = tell (SchedStopped 0);
       if count = 0 then Some (0, stopped c, f)
       else do {
         err \<leftarrow> validate_pfn_results h data datalen;
         if err \<noteq> 0 then Some (err, stopped c, f)
         else if \<not> se_alloc e ALLOC_INTERNAL then Some (E_NOMEM, stopped c, f)
         else do {
           (err, bmap, req) \<leftarrow> collect_results e h pi data (unat count) (unat count) 0 0
             \<lparr>rq_channels = [], rq_ssids = [], rq_flags = 0\<rparr>;
           if err \<noteq> 0 then Some (err, stopped c, f)
           else if bmap = 0 then Some (0, c, f)
           else do {
             (err, c, f) \<leftarrow> brcmf_start_internal_escan w e pi ifp bmap req c f;
             Some (err, if err \<noteq> 0 then stopped c else c, f) } } } })"

definition brcmf_cfg80211_sched_scan_start :: "'f fil \<Rightarrow> 'f pno_env \<Rightarrow> fil_if \<Rightarrow> cfg80211_sched_scan_request \<Rightarrow> scan_info \<Rightarrow>
    brcmf_pno_info \<Rightarrow> 'f \<Rightarrow> (int \<times> brcmf_pno_info \<times> 'f) option" where
  "brcmf_cfg80211_sched_scan_start w pe ifp req c pi f = (
     if sc_suppress c then Some (E_AGAIN, pi, f)
     else if match_sets req = [] then Some (E_INVAL, pi, f)
     else brcmf_pno_start_sched_scan w pe ifp req pi f)"

definition brcmf_cfg80211_sched_scan_stop :: "'f fil \<Rightarrow> 'f scan_env \<Rightarrow> 'f pno_env \<Rightarrow> fil_if \<Rightarrow> u64 \<Rightarrow> scan_info \<Rightarrow>
    brcmf_pno_info \<Rightarrow> 'f \<Rightarrow> (int \<times> scan_info \<times> brcmf_pno_info \<times> 'f) option" where
  "brcmf_cfg80211_sched_scan_stop w e pe ifp rid c pi f = do {
     (_, pi, f) \<leftarrow> brcmf_pno_stop_sched_scan w pe ifp rid pi f;
     (_, c, f) \<leftarrow> (if int_escan_map c \<noteq> 0 then brcmf_notify_escan_complete w e pi (Some ifp) True True c f
       else Some (0, c, f));
     Some (0, c, pi, f) }"

text \<open>The network that woke the host: its SSID and the frequency of its channel.\<close>

definition brcmf_wowl_nd_results :: "'f scan_env \<Rightarrow> 'f pno_handler \<Rightarrow> u32 \<Rightarrow> u32 \<Rightarrow> u8 list \<Rightarrow>
    (u8 list \<times> u32) option \<Rightarrow> (int \<times> (u8 list \<times> u32) option) option" where
  "brcmf_wowl_nd_results e h event_code datalen data nd = (
     if datalen < get_min_data_len h then Some (0, nd)
     else if event_code = 34 then Some (0, nd)
     else do {
       count \<leftarrow> get_result_count h data;
       if count < 1 then Some (E_INVAL, nd)
       else do {
         r \<leftarrow> get_result_info h data 0;
         Some (0, Some (res_ssid r, se_freq e (res_channel r) (res_band r))) } })"


section \<open>Fields inside a larger buffer\<close>

lemma nth_opt_inner: "k < length x \<Longrightarrow> nth_opt (pre @ x @ post) (length pre + k) = nth_opt x k"
  by (simp add: nth_opt_def nth_append)

lemma read_bytes_inner: "k + n \<le> length x \<Longrightarrow> read_bytes (pre @ x @ post) (length pre + k) n = read_bytes x k n"
  by (simp add: read_bytes_def)

lemma rd16_inner: "k + 2 \<le> length x \<Longrightarrow> rd16 (pre @ x @ post) (length pre + k) = rd16 x k"
  using nth_opt_inner [of "k + 1" x pre post] by (simp add: rd16_def nth_opt_inner add.assoc)

lemma read_le32_inner: "k + 4 \<le> length x \<Longrightarrow> read_le32 (pre @ x @ post) (length pre + k) = read_le32 x k"
  by (simp add: read_le32_def read_bytes_inner)

lemma write_bytes_inner: "k + length bs \<le> length x \<Longrightarrow>
    write_bytes (pre @ x @ post) (length pre + k) bs = map_option (\<lambda>x. pre @ x @ post) (write_bytes x k bs)"
  by (simp add: write_bytes_def)

lemma upd_opt_inner: "k < length x \<Longrightarrow>
    upd_opt (pre @ x @ post) (length pre + k) v = map_option (\<lambda>x. pre @ x @ post) (upd_opt x k v)"
  by (simp add: upd_opt_def list_update_append)

lemmas inner = nth_opt_inner read_bytes_inner rd16_inner read_le32_inner write_bytes_inner upd_opt_inner

section \<open>A listed network\<close>

text \<open>An entry as the firmware sends it: its length is its own, it has all fixed fields, its SSID has at most 32
  bytes and its elements are inside.\<close>

definition bss_ok :: "u8 list \<Rightarrow> bool" where
  "bss_ok b \<longleftrightarrow> BSS_INFO_SIZE \<le> length b \<and> length b < BRCMF_ESCAN_BUF_SIZE \<and> read_le32 b 4 = Some (of_nat (length b))
     \<and> unat (b ! 18) \<le> 32 \<and> (\<exists>at l. rd16 b 116 = Some at \<and> read_le32 b 120 = Some l \<and> unat at + unat l \<le> length b)"

lemma rd16_in: "k + 2 \<le> length b \<Longrightarrow> rd16 b k = Some (of_le16 (b ! k) (b ! (k + 1)))"
  by (simp add: rd16_def nth_opt_in)

definition bss_band :: "'f scan_env \<Rightarrow> brcmu_chan \<Rightarrow> u8 list \<Rightarrow> u8" where
  "bss_band e junk b = chan_band (decchspec (se_d11inf e) (junk\<lparr>chspec := of_le16 (b ! 72) (b ! 73)\<rparr>))"

text \<open>Whether a new network \<open>b\<close> is the listed one \<open>x\<close>.\<close>

definition same_network :: "'f scan_env \<Rightarrow> u8 list \<Rightarrow> u8 list \<Rightarrow> bool" where
  "same_network e x b \<longleftrightarrow> take 6 (drop 8 x) = take 6 (drop 8 b) \<and> bss_band e (fst (se_junk e)) x = bss_band e (snd (se_junk e)) b
     \<and> x ! 18 = b ! 18 \<and> take (unat (b ! 18)) (drop 19 x) = take (unat (b ! 18)) (drop 19 b)"

definition bss_rssi :: "u8 list \<Rightarrow> int" where
  "bss_rssi b = sint (of_le16 (b ! 78) (b ! 79))"

definition on_channel :: "u8 list \<Rightarrow> bool" where
  "on_channel b \<longleftrightarrow> b ! 96 AND BRCMF_BSS_RSSI_ON_CHANNEL \<noteq> 0"

text \<open>The signal of the new one is taken over when it is stronger, both being measured on or both off channel, and
  when only the listed one was measured on channel.\<close>

definition merge_bss :: "u8 list \<Rightarrow> u8 list \<Rightarrow> u8 list" where
  "merge_bss x b = (if (on_channel x = on_channel b \<and> bss_rssi x < bss_rssi b) \<or> (on_channel x \<and> \<not> on_channel b)
     then x[78 := b ! 78, 79 := b ! 79] else x)"

lemma le16_bytes: "le16 (of_le16 a b) = [a, b]"
  unfolding le16_def of_le16_def by (auto intro!: bit_word_eqI simp: bit_simps) (drule bit_imp_le_length, simp)

lemma write_two:
  assumes "k + 2 \<le> length x"
  shows "write_bytes x k [a, b] = Some (x[k := a, k + 1 := b])"
proof -
  have "take k x @ [a, b] @ drop (k + 2) x = x[k := a, k + 1 := b]"
  proof (rule nth_equalityI)
    show "(take k x @ [a, b] @ drop (k + 2) x) ! i = x[k := a, k + 1 := b] ! i" if "i < length (take k x @ [a, b] @ drop (k + 2) x)" for i
    proof -
      consider "i < k" | "i = k" | "i = k + 1" | "k + 2 \<le> i" by linarith
      then show ?thesis
      proof cases
        case 4
        then have "Suc (Suc (i - 2)) = i" by linarith
        then show ?thesis using 4 that assms by (simp add: nth_append nth_Cons')
      qed (use that assms in \<open>simp_all add: nth_append\<close>)
    qed
  qed (use assms in simp)
  then show ?thesis using assms by (simp add: write_bytes_def)
qed

lemma on_flag: "f AND 4 = (if bit f 2 then 4 else 0)" for f :: u8
  using and_pow_eq [of f 2] by simp

lemma or_flag: "bit f 2 \<Longrightarrow> f OR 4 = f" for f :: u8
proof -
  assume "bit f 2"
  then have h: "f AND 4 = 4" by (simp add: on_flag)
  show ?thesis
    by (rule bit_word_eqI) (use h in \<open>metis bit_and_iff bit_or_iff\<close>)
qed

lemma nth_opt_at: "k < length x \<Longrightarrow> nth_opt (pre @ x @ post) (length pre + k) = Some (x ! k)"
  by (simp only: nth_opt_inner nth_opt_in)

lemma rd16_at: "k + 2 \<le> length x \<Longrightarrow> rd16 (pre @ x @ post) (length pre + k) = Some (of_le16 (x ! k) (x ! (k + 1)))"
  by (simp only: rd16_inner rd16_in)

lemma write_two_at: "k + 2 \<le> length x \<Longrightarrow>
    write_bytes (pre @ x @ post) (length pre + k) [a, b] = Some (pre @ x[k := a, k + 1 := b] @ post)"
  using write_bytes_inner [of k "[a, b]" x pre post] write_two [of k x a b] by simp

lemma read_bytes_within: "k + n \<le> length x \<Longrightarrow> read_bytes (pre @ x @ post) (length pre + k) n = Some (take n (drop k x))"
  by (simp add: read_bytes_def)

lemma same_bss_update_inner:
  assumes x: "bss_ok x" and b: "bss_ok b"
  shows "same_bss_update (pre @ x @ post) (length pre) (pre' @ b @ post') (length pre') = Some (pre @ merge_bss x b @ post)"
proof -
  have l: "172 \<le> length x" "172 \<le> length b" using assms by (simp_all add: bss_ok_def)
  have upd: "x[78 := a, 79 := c, 96 := x ! 96] = x[78 := a, 79 := c]" for a c
  proof -
    have "x[78 := a, 79 := c] ! 96 = x ! 96" by simp
    then show ?thesis by (metis list_update_id)
  qed
  have w: "upd_opt (pre @ x[78 := a, 79 := c] @ post) (length pre + 96) v = Some (pre @ x[78 := a, 79 := c, 96 := v] @ post)" for a c v
    using l upd_opt_inner [of 96 "x[78 := a, 79 := c]" pre post v] by (simp add: upd_opt_def)
  show ?thesis
    using l by (simp add: same_bss_update_def merge_bss_def nth_opt_at rd16_at le16_bytes write_two_at on_flag on_channel_def
        bss_rssi_def Let_def or_flag upd w)
qed

lemma compare_update_inner:
  assumes x: "bss_ok x" and b: "bss_ok b"
  shows "brcmf_compare_update_same_bss e (pre @ x @ post) (length pre) (pre' @ b @ post') (length pre')
    = Some (same_network e x b, if same_network e x b then pre @ merge_bss x b @ post else pre @ x @ post)"
proof -
  have l: "172 \<le> length x" "172 \<le> length b" "unat (b ! 18) \<le> 32" using assms by (simp_all add: bss_ok_def)
  show ?thesis
    using l unfolding brcmf_compare_update_same_bss_def same_network_def bss_band_def
    by (auto simp: nth_opt_at rd16_at read_bytes_within same_bss_update_inner [OF assms] Let_def)
qed

lemma nth_merge: "n \<noteq> 78 \<Longrightarrow> n \<noteq> 79 \<Longrightarrow> merge_bss x b ! n = x ! n"
  by (simp add: merge_bss_def)

lemma length_merge [simp]: "length (merge_bss x b) = length x"
  by (simp add: merge_bss_def)

lemma read_bytes_merge: "k + n \<le> 78 \<or> 80 \<le> k \<Longrightarrow> read_bytes (merge_bss x b) k n = read_bytes x k n"
  by (auto simp: read_bytes_def list_eq_iff_nth_eq nth_merge)

lemma merge_ok: assumes "bss_ok x" shows "bss_ok (merge_bss x b)"
proof -
  have l: "172 \<le> length x" using assms by (simp add: bss_ok_def)
  have "read_le32 (merge_bss x b) k = read_le32 x k" if "k + 4 \<le> 78 \<or> 80 \<le> k" for k
    using that by (simp add: read_le32_def read_bytes_merge)
  moreover have "rd16 (merge_bss x b) 116 = rd16 x 116" using l by (simp add: rd16_in nth_merge)
  ultimately show ?thesis using assms by (simp add: bss_ok_def nth_merge)
qed

section \<open>The list\<close>

text \<open>A new network among those listed: the first one that is the same is updated, otherwise it is not found.\<close>

fun merge_into :: "'f scan_env \<Rightarrow> u8 list \<Rightarrow> u8 list list \<Rightarrow> bool \<times> u8 list list" where
  "merge_into e b [] = (False, [])"
| "merge_into e b (x # xs) = (if same_network e x b then (True, merge_bss x b # xs)
     else (let (found, ys) = merge_into e b xs in (found, x # ys)))"

lemma read_length: "bss_ok x \<Longrightarrow> read_le32 (pre @ x @ post) (length pre + 4) = Some (of_nat (length x)) \<and>
    unat (of_nat (length x) :: u32) = length x"
  by (auto simp: bss_ok_def read_le32_inner intro!: unat_of_nat_small)

lemma search_bss_run:
  assumes b: "bss_ok b" and h: "length pre' = 12"
  shows "list_all bss_ok es \<Longrightarrow> search_bss e (pre' @ b @ post') (length es) (length pre) (pre @ concat es @ post)
    = Some (fst (merge_into e b es), pre @ concat (snd (merge_into e b es)) @ post)"
proof (induction es arbitrary: pre)
  case Nil
  then show ?case by simp
next
  case (Cons x xs)
  have x: "bss_ok x" using Cons.prems by simp
  have cmp: "brcmf_compare_update_same_bss e (pre @ concat (x # xs) @ post) (length pre) (pre' @ b @ post') 12
      = Some (same_network e x b, if same_network e x b then pre @ merge_bss x b @ concat xs @ post else pre @ concat (x # xs) @ post)"
    using compare_update_inner [OF x b, of e pre "concat xs @ post" pre' post'] h by simp
  have IH: "search_bss e (pre' @ b @ post') (length xs) (length pre + length x) (pre @ concat (x # xs) @ post)
      = Some (fst (merge_into e b xs), pre @ x @ concat (snd (merge_into e b xs)) @ post)"
    using Cons.IH [of "pre @ x"] Cons.prems by simp
  show ?case
  proof (cases "same_network e x b")
    case True
    then show ?thesis using cmp by simp
  next
    case False
    have r: "read_le32 (pre @ x @ concat xs @ post) (length pre + 4) = Some (of_nat (length x))"
      "unat (of_nat (length x) :: u32) = length x" using read_length [OF x] by auto
    show ?thesis using False cmp IH by (cases "length xs") (simp_all add: split_def Let_def r cong: if_cong)
  qed
qed

lemma merge_into_keeps: "list_all bss_ok es \<Longrightarrow> list_all bss_ok (snd (merge_into e b es))
    \<and> length (snd (merge_into e b es)) = length es \<and> length (concat (snd (merge_into e b es))) = length (concat es)
    \<and> (\<not> fst (merge_into e b es) \<longrightarrow> snd (merge_into e b es) = es)"
  by (induction es) (auto simp: split_def Let_def merge_ok)

lemma merge_into_found: "fst (merge_into e b es) \<longleftrightarrow> (\<exists>x\<in>set es. same_network e x b)"
  by (induction es) (auto simp: split_def Let_def)

section \<open>The list of results\<close>

text \<open>The buffer holds the entries back to back behind its header, and the count counts them; while a scan is busy
  the header also knows where they end.\<close>

definition list_inv :: "scan_info \<Rightarrow> u8 list list \<Rightarrow> bool" where
  "list_inv c es \<longleftrightarrow> length (escan_buf c) = BRCMF_ESCAN_BUF_SIZE \<and> list_all bss_ok es \<and> unat (list_count c) = length es
     \<and> 12 + length (concat es) \<le> BRCMF_ESCAN_BUF_SIZE \<and> take (length (concat es)) (drop 12 (escan_buf c)) = concat es"

definition room_inv :: "scan_info \<Rightarrow> u8 list list \<Rightarrow> bool" where
  "room_inv c es \<longleftrightarrow> unat (list_buflen c) = 12 + length (concat es)"

lemma list_inv_split:
  assumes "list_inv c es"
  obtains front rest where "escan_buf c = front @ concat es @ rest" "length front = 12"
    "length rest = BRCMF_ESCAN_BUF_SIZE - 12 - length (concat es)"
proof
  show "escan_buf c = take 12 (escan_buf c) @ concat es @ drop (12 + length (concat es)) (escan_buf c)"
    using assms unfolding list_inv_def by (metis append_take_drop_id drop_drop add.commute)
qed (use assms in \<open>auto simp: list_inv_def\<close>)

lemma list_invI:
  assumes "escan_buf c = front @ concat es @ rest" "length front = 12" "length (escan_buf c) = BRCMF_ESCAN_BUF_SIZE"
    and "list_all bss_ok es" "unat (list_count c) = length es"
  shows "list_inv c es"
  using assms by (auto simp: list_inv_def)

text \<open>What a result does to the list.\<close>

definition listed :: "'f scan_env \<Rightarrow> u8 list \<Rightarrow> u8 list list \<Rightarrow> u8 list list" where
  "listed e b es = (if BRCMF_ESCAN_BUF_SIZE < 12 + length (concat es) + length b then es
     else if \<exists>x\<in>set es. same_network e x b then snd (merge_into e b es) else es @ [b])"

lemma listed_ok: "list_all bss_ok es \<Longrightarrow> bss_ok b \<Longrightarrow> list_all bss_ok (listed e b es)"
  using merge_into_keeps [of es e b] by (simp add: listed_def)

text \<open>What an update of a listed network may change: the two bytes of the signal, which becomes the stronger one when both
  were measured on their channel or both off it, and is otherwise one of the two.\<close>

definition bss_updated :: "u8 list \<Rightarrow> u8 list \<Rightarrow> u8 list \<Rightarrow> bool" where
  "bss_updated y b z \<longleftrightarrow> length z = length y \<and> (\<forall>i<length y. i \<noteq> 78 \<and> i \<noteq> 79 \<longrightarrow> z ! i = y ! i)
     \<and> bss_rssi z \<in> {bss_rssi y, bss_rssi b} \<and> (on_channel y = on_channel b \<longrightarrow> bss_rssi z = max (bss_rssi y) (bss_rssi b))"

lemma merge_updated: "bss_ok y \<Longrightarrow> bss_updated y b (merge_bss y b)"
proof -
  assume "bss_ok y"
  then have "79 < length y" by (simp add: bss_ok_def)
  then have "bss_rssi (y[78 := b ! 78, 79 := b ! 79]) = bss_rssi b" by (simp add: bss_rssi_def)
  then show ?thesis by (auto simp: bss_updated_def merge_bss_def)
qed

lemma merge_into_first:
  "\<exists>y\<in>set es. same_network e y b \<Longrightarrow> \<exists>ys y zs. es = ys @ y # zs \<and> (\<forall>u\<in>set ys. \<not> same_network e u b) \<and> same_network e y b
    \<and> snd (merge_into e b es) = ys @ merge_bss y b # zs"
proof (induction es)
  case (Cons x es)
  show ?case
  proof (cases "same_network e x b")
    case True
    then show ?thesis by (intro exI [of _ "[]"] exI [of _ x] exI [of _ es]) simp
  next
    case False
    then obtain ys y zs where "es = ys @ y # zs" "\<forall>u\<in>set ys. \<not> same_network e u b" "same_network e y b"
      "snd (merge_into e b es) = ys @ merge_bss y b # zs" using Cons by auto
    then show ?thesis using False
      by (intro exI [of _ "x # ys"] exI [of _ y] exI [of _ zs]) (simp add: split_def Let_def)
  qed
qed simp

lemma listed_cases:
  assumes "list_all bss_ok es"
  shows "if BRCMF_ESCAN_BUF_SIZE < 12 + length (concat es) + length b then listed e b es = es
    else if \<exists>y\<in>set es. same_network e y b then \<exists>ys y zs z. es = ys @ y # zs \<and> (\<forall>u\<in>set ys. \<not> same_network e u b)
      \<and> same_network e y b \<and> listed e b es = ys @ z # zs \<and> bss_updated y b z
    else listed e b es = es @ [b]"
proof (cases "\<not> BRCMF_ESCAN_BUF_SIZE < 12 + length (concat es) + length b \<and> (\<exists>y\<in>set es. same_network e y b)")
  case True
  then obtain ys y zs where m: "es = ys @ y # zs" "\<forall>u\<in>set ys. \<not> same_network e u b" "same_network e y b"
    "snd (merge_into e b es) = ys @ merge_bss y b # zs" using merge_into_first by blast
  have "bss_updated y b (merge_bss y b)" using assms m(1) merge_updated by simp
  moreover have "listed e b es = ys @ merge_bss y b # zs" using True m(4) by (simp add: listed_def)
  ultimately show ?thesis using True m(1-3) by (simp only: if_True if_False not_False_eq_True) blast
qed (auto simp: listed_def)

text \<open>The fields a result leaves alone.\<close>

definition scan_core :: "scan_info \<Rightarrow> cfg80211_scan_request option \<times> bool \<times> bool \<times> bool \<times> u32 \<times> fil_if option \<times> bool \<times> bool \<times> bool \<times> scan_call list" where
  "scan_core c = (sc_request c, sc_busy c, sc_abort c, sc_suppress c, int_escan_map c, escan_ifp c, escan_scanning c,
     escan_timer c, escan_work c, sc_calls c)"

lemma entries_bound: "list_all bss_ok es \<Longrightarrow> length es \<le> length (concat es)"
  by (induction es) (auto simp: bss_ok_def)

lemma accept_run:
  assumes inv: "list_inv c es" "room_inv c es" and b: "bss_ok b" and h: "length h = 12"
  shows "\<exists>c'. escan_accept e (h @ b @ extra) (of_nat (length b)) c = Some c'
    \<and> list_inv c' (listed e b es) \<and> room_inv c' (listed e b es) \<and> scan_core c' = scan_core c"
proof -
  let ?n = "length (concat es)"
  obtain front rest where buf: "escan_buf c = front @ concat es @ rest" "length front = 12"
    and rest: "length rest = BRCMF_ESCAN_BUF_SIZE - 12 - ?n" by (rule list_inv_split [OF inv(1)])
  have es: "list_all bss_ok es" "unat (list_count c) = length es" and n: "12 + ?n \<le> 65000"
    using inv(1) by (simp_all add: list_inv_def)
  have lb: "172 \<le> length b" "length b < 65000" using b by (simp_all add: bss_ok_def)
  have ub: "unat (of_nat (length b) :: u32) = length b" using lb by (simp add: unat_of_nat_small)
  have bl: "unat (list_buflen c) = 12 + ?n" using inv(2) by (simp add: room_inv_def)
  have "unat (of_nat BRCMF_ESCAN_BUF_SIZE - list_buflen c) = 65000 - (12 + ?n)"
    using bl n by (simp add: unat_sub word_le_nat_alt)
  then have lim: "of_nat BRCMF_ESCAN_BUF_SIZE - list_buflen c < of_nat (length b) \<longleftrightarrow> 65000 < 12 + ?n + length b"
    using ub n by (auto simp: word_less_nat_alt)
  have search: "search_bss e (h @ b @ extra) (length es) 12 (escan_buf c)
      = Some (fst (merge_into e b es), front @ concat (snd (merge_into e b es)) @ rest)"
    using search_bss_run [OF b h es(1), of e extra front rest] buf by simp
  have k: "list_all bss_ok (snd (merge_into e b es))" "length (snd (merge_into e b es)) = length es"
    "length (concat (snd (merge_into e b es))) = ?n" using merge_into_keeps [OF es(1), of e b] by auto
  consider (full) "65000 < 12 + ?n + length b" | (found) "\<not> 65000 < 12 + ?n + length b" "fst (merge_into e b es)"
    | (new) "\<not> 65000 < 12 + ?n + length b" "\<not> fst (merge_into e b es)" by blast
  then show ?thesis
  proof cases
    case full
    then show ?thesis using inv lim by (simp add: listed_def escan_accept_def)
  next
    case found
    let ?c = "c\<lparr>escan_buf := front @ concat (snd (merge_into e b es)) @ rest\<rparr>"
    have "listed e b es = snd (merge_into e b es)" using found merge_into_found [of e b es] by (simp add: listed_def)
    moreover have "list_inv ?c (snd (merge_into e b es))"
      by (rule list_invI [of _ front _ rest]) (use k buf rest n es in auto)
    ultimately show ?thesis
      using found(2) es(2) search k bl lim found(1) by (auto simp: room_inv_def scan_core_def escan_accept_def)
  next
    case new
    have m: "snd (merge_into e b es) = es" using new merge_into_keeps [OF es(1), of e b] by simp
    have l: "listed e b es = es @ [b]" using new merge_into_found [of e b es] by (auto simp: listed_def)
    have rd: "read_bytes (h @ b @ extra) 12 (length b) = Some b" using h by (simp add: read_bytes_def)
    obtain v where v: "read_le32 (h @ b @ extra) 12 = Some v" using h lb by (auto simp: read_le32_def read_bytes_def)
    have wr: "write_bytes (escan_buf c) (12 + ?n) b = Some (front @ concat (es @ [b]) @ drop (length b) rest)"
      using buf rest new(1) n by (simp add: write_bytes_def)
    let ?c = "c\<lparr>escan_buf := front @ concat (es @ [b]) @ drop (length b) rest, list_version := v,
      list_buflen := list_buflen c + of_nat (length b), list_count := list_count c + 1\<rparr>"
    have cnt: "unat (list_count c + 1) = length es + 1"
      using unat_inc_less [of "list_count c" 65000] es entries_bound [OF es(1)] n new(1) lb by simp
    have "unat (list_buflen c + of_nat (length b)) = 12 + ?n + length b"
      using bl ub new(1) by (subst unat_add_small) auto
    then have "list_inv ?c (es @ [b])" "room_inv ?c (es @ [b])"
      using buf rest new(1) es b cnt by (auto intro!: list_invI [of _ front _ "drop (length b) rest"] simp: room_inv_def)
    then show ?thesis
      using new m l search es(2) rd v wr ub bl lim buf by (simp add: scan_core_def escan_accept_def)
  qed
qed

text \<open>Event data as received. Where its length fields fit, the entry has a sound SSID length and its elements
  inside; everything else may be arbitrary.\<close>

definition entry_len :: "u8 list \<Rightarrow> nat" where
  "entry_len data = unat (le32_word (take 4 (drop 16 data)))"

definition bss_event_ok :: "u32 \<Rightarrow> u8 list \<Rightarrow> bool" where
  "bss_event_ok datalen data \<longleftrightarrow> length data = unat datalen \<and>
     (let b = take (entry_len data) (drop 12 data) in
      BSS_INFO_SIZE \<le> length b \<and> length b < BRCMF_ESCAN_BUF_SIZE \<and> length b = entry_len data \<longrightarrow> bss_ok b)"

lemma read_le32_at: "off + 4 \<le> length b \<Longrightarrow> read_le32 b off = Some (le32_word (take 4 (drop off b)))"
  by (simp add: read_le32_def read_bytes_def)

lemma escan_partial_run:
  assumes inv: "list_inv c es" "room_inv c es" and ev: "bss_event_ok datalen data"
  shows "\<exists>c' es'. escan_partial e datalen data c = Some c' \<and> list_inv c' es' \<and> room_inv c' es' \<and> scan_core c' = scan_core c"
proof (cases "unat datalen < 184")
  case True
  then show ?thesis using inv by (auto simp: escan_partial_def)
next
  case False
  have len: "length data = unat datalen" using ev by (simp add: bss_event_ok_def Let_def)
  let ?bl = "le32_word (take 4 data)" and ?bi = "le32_word (take 4 (drop 16 data))"
  have rd: "read_le32 data 0 = Some ?bl" "read_le32 data 16 = Some ?bi"
    "rd16 data 10 = Some (of_le16 (data ! 10) (data ! 11))" "rd16 data 28 = Some (of_le16 (data ! 28) (data ! 29))"
    using False len by (simp_all add: read_le32_at rd16_in)
  show ?thesis
  proof (cases "65000 < unat ?bl \<or> datalen < ?bl \<or> unat ?bl < 184 \<or> ?bi \<noteq> ?bl - of_nat 12")
    case True
    then have "escan_partial e datalen data c = Some c"
      using False by (cases "65000 < unat ?bl \<or> datalen < ?bl \<or> unat ?bl < 184") (simp_all add: escan_partial_def rd)
    then show ?thesis using inv by blast
  next
    case False
    then have bl: "unat ?bl \<le> 65000" "unat ?bl \<le> unat datalen" "184 \<le> unat ?bl" "?bi = ?bl - of_nat 12"
      by (auto simp: word_less_nat_alt)
    have bi: "unat ?bi = unat ?bl - 12" unfolding bl(4) by (rule unat_minus_small) (use bl in simp)
    let ?b = "take (entry_len data) (drop 12 data)"
    have n: "entry_len data = unat ?bi" by (simp add: entry_len_def)
    have lb: "length ?b = unat ?bi" using bl bi len n by simp
    have "172 \<le> length ?b" "length ?b < 65000" "length ?b = entry_len data" using lb bl(1,3) bi n by linarith+
    then have b: "bss_ok ?b" using ev unfolding bss_event_ok_def Let_def by blast
    have d: "data = take 12 data @ ?b @ drop (12 + entry_len data) data"
      by (metis append_take_drop_id drop_drop add.commute)
    have "?bi = of_nat (length ?b)" using lb by simp
    then obtain c' es' where acc: "escan_accept e data ?bi c = Some c'"
      "list_inv c' es'" "room_inv c' es'" "scan_core c' = scan_core c"
      using accept_run [OF inv b, of "take 12 data" e "drop (12 + entry_len data) data"] len bl
      unfolding d [symmetric] by auto
    have "escan_partial e datalen data c \<in> {Some c, Some c'}"
      using \<open>\<not> unat datalen < 184\<close> False acc(1) by (simp add: escan_partial_def rd)
    then show ?thesis using inv acc by blast
  qed
qed

lemma scan_core_simps:
  "scan_core c' = scan_core c \<longleftrightarrow> sc_request c' = sc_request c \<and> sc_busy c' = sc_busy c \<and> sc_abort c' = sc_abort c
    \<and> sc_suppress c' = sc_suppress c \<and> int_escan_map c' = int_escan_map c \<and> escan_ifp c' = escan_ifp c
    \<and> escan_scanning c' = escan_scanning c \<and> escan_timer c' = escan_timer c \<and> escan_work c' = escan_work c
    \<and> sc_calls c' = sc_calls c"
  by (auto simp: scan_core_def)

section \<open>Informing the kernel\<close>

text \<open>The requests that are answered, and the one that is waiting.\<close>

fun done_requests :: "scan_call list \<Rightarrow> cfg80211_scan_request list" where
  "done_requests [] = []"
| "done_requests (ScanDone r ab # xs) = r # done_requests xs"
| "done_requests (_ # xs) = done_requests xs"

definition scan_outcome :: "scan_info \<Rightarrow> cfg80211_scan_request list" where
  "scan_outcome c = done_requests (sc_calls c) @ (case sc_request c of None \<Rightarrow> [] | Some r \<Rightarrow> [r])"

lemma done_append [simp]: "done_requests (xs @ ys) = done_requests xs @ done_requests ys"
  by (induction xs rule: done_requests.induct) auto

lemma bss_ctl_ok: assumes "bss_ok x" shows "bss_ok (x[88 := v])"
proof -
  have l: "172 \<le> length x" using assms by (simp add: bss_ok_def)
  have "read_bytes (x[88 := v]) k n = read_bytes x k n" if "k + n \<le> 88 \<or> 89 \<le> k" for k n
    using that by (auto simp: read_bytes_def list_eq_iff_nth_eq)
  then have "read_le32 (x[88 := v]) k = read_le32 x k" if "k + 4 \<le> 88 \<or> 89 \<le> k" for k
    using that by (simp add: read_le32_def)
  moreover have "rd16 (x[88 := v]) 116 = rd16 x 116" using l by (simp add: rd16_in)
  ultimately show ?thesis using assms by (simp add: bss_ok_def)
qed

lemma inform_single_inner:
  assumes "bss_ok x"
  shows "\<exists>err v call. brcmf_inform_single_bss e (pre @ x @ post) (length pre) = Some (err, pre @ x[88 := v] @ post, call)"
proof -
  have l: "172 \<le> length x" using assms by (simp add: bss_ok_def)
  obtain i n where ie: "rd16 x 116 = Some i" "read_le32 x 120 = Some n" "unat i + unat n \<le> length x"
    using assms by (auto simp: bss_ok_def)
  have len: "read_le32 (pre @ x @ post) (length pre + 4) = Some (of_nat (length x))"
    using assms by (simp add: bss_ok_def read_le32_inner)
  show ?thesis
  proof (cases "2048 < unat (of_nat (length x) :: u32)")
    case True
    then show ?thesis using len by (intro exI [of _ E_INVAL] exI [of _ "x ! 88"] exI [of _ None])
        (simp add: brcmf_inform_single_bss_def)
  next
    case False
    let ?cs = "of_le16 (x ! 72) (x ! 73)"
    let ?v = "if x ! 88 = 0 then control_ch_num (decchspec (se_d11inf e) ((fst (se_junk e))\<lparr>chspec := ?cs\<rparr>)) else x ! 88"
    let ?y = "x[88 := ?v]"
    have up: "upd_opt (pre @ x @ post) (length pre + 88) v = Some (pre @ x[88 := v] @ post)" for v
      using upd_opt_inner [of 88 x pre post v] l by (simp add: upd_opt_def)
    have y: "bss_ok ?y" by (rule bss_ctl_ok [OF assms])
    have ly: "172 \<le> length ?y" using l by simp
    obtain i' n' where ie': "rd16 ?y 116 = Some i'" "read_le32 ?y 120 = Some n'" "unat i' + unat n' \<le> length ?y"
      using y by (auto simp: bss_ok_def)
    have rds: "rd16 (pre @ ?y @ post) (length pre + 16) = Some (of_le16 (?y ! 16) (?y ! 17))"
      "rd16 (pre @ ?y @ post) (length pre + 14) = Some (of_le16 (?y ! 14) (?y ! 15))"
      "rd16 (pre @ ?y @ post) (length pre + 78) = Some (of_le16 (?y ! 78) (?y ! 79))"
      "rd16 (pre @ ?y @ post) (length pre + 116) = Some i'"
      "read_le32 (pre @ ?y @ post) (length pre + 120) = Some n'"
      "read_bytes (pre @ ?y @ post) (length pre + 8) 6 = Some (take 6 (drop 8 ?y))"
      "read_bytes (pre @ ?y @ post) (length pre + unat i') (unat n') = Some (take (unat n') (drop (unat i') ?y))"
      using ly ie' rd16_at [of 16 ?y] rd16_at [of 14 ?y] rd16_at [of 78 ?y]
      by (simp_all only: rd16_inner read_le32_inner read_bytes_within) simp_all
    have cs: "rd16 (pre @ x @ post) (length pre + 72) = Some ?cs" "nth_opt (pre @ x @ post) (length pre + 88) = Some (x ! 88)"
      using l by (simp_all add: rd16_at nth_opt_at)
    have ex: "\<exists>v. x = x[88 := v]" by (metis list_update_id)
    show ?thesis
      unfolding brcmf_inform_single_bss_def len bind.simps(2) Let_def cs up rds
      using False by (cases "se_channel e (se_freq e ?v (if ?cs AND 0xc000 = 0x4000 then NL80211_BAND_6GHZ
            else if ?cs AND 0xc000 = 0xc000 then NL80211_BAND_5GHZ else NL80211_BAND_2GHZ))") (auto simp: rds ex)
  qed
qed

text \<open>Informing changes the buffer and what the kernel was told, and answers no request.\<close>

definition same_list :: "scan_info \<Rightarrow> scan_info \<Rightarrow> bool" where
  "same_list c c' \<longleftrightarrow> scan_core (c'\<lparr>sc_calls := []\<rparr>) = scan_core (c\<lparr>sc_calls := []\<rparr>) \<and> list_count c' = list_count c
     \<and> list_buflen c' = list_buflen c \<and> done_requests (sc_calls c') = done_requests (sc_calls c)"

lemma same_list_refl: "same_list c c"
  by (simp add: same_list_def)

lemma same_list_trans: "same_list a b \<Longrightarrow> same_list b c \<Longrightarrow> same_list a c"
  by (simp add: same_list_def)

lemma inform_loop_run:
  "list_all bss_ok es \<Longrightarrow> escan_buf c = pre @ concat es @ post \<Longrightarrow>
    \<exists>err c' es'. inform_loop e (length es) (length pre) c = Some (err, c') \<and> escan_buf c' = pre @ concat es' @ post
      \<and> list_all bss_ok es' \<and> length es' = length es \<and> length (concat es') = length (concat es) \<and> same_list c c'"
proof (induction es arbitrary: pre c)
  case Nil
  then show ?case by (intro exI [of _ 0] exI [of _ c] exI [of _ "[]"]) (simp add: same_list_refl)
next
  case (Cons x xs)
  have x: "bss_ok x" using Cons.prems(1) by simp
  obtain err v call where s: "brcmf_inform_single_bss e (escan_buf c) (length pre) = Some (err, pre @ x[88 := v] @ concat xs @ post, call)"
    using inform_single_inner [OF x, of e pre "concat xs @ post"] Cons.prems(2) by auto
  let ?c = "(case call of None \<Rightarrow> c | Some i \<Rightarrow> tell (InformBss i) c)\<lparr>escan_buf := pre @ x[88 := v] @ concat xs @ post\<rparr>"
  have y: "bss_ok (x[88 := v])" by (rule bss_ctl_ok [OF x])
  have sl: "same_list c ?c"
    by (cases call) (auto simp: same_list_def tell_def scan_core_def)
  show ?case
  proof (cases "err \<noteq> 0 \<or> xs = []")
    case True
    then show ?thesis using s sl y Cons.prems(1)
      by (intro exI [of _ err] exI [of _ ?c] exI [of _ "x[88 := v] # xs"]) (auto simp: Let_def)
  next
    case False
    obtain err' c' es' where IH: "inform_loop e (length xs) (length (pre @ x[88 := v])) ?c = Some (err', c')"
      "escan_buf c' = (pre @ x[88 := v]) @ concat es' @ post" "list_all bss_ok es'" "length es' = length xs"
      "length (concat es') = length (concat xs)" "same_list ?c c'"
      using Cons.IH [of ?c "pre @ x[88 := v]"] Cons.prems(1) by auto
    have len: "read_le32 (pre @ x[88 := v] @ concat xs @ post) (length pre + 4) = Some (of_nat (length x))"
      "unat (of_nat (length x) :: u32) = length x"
      using read_length [OF y, of pre "concat xs @ post"] by auto
    have "inform_loop e (length (x # xs)) (length pre) c = Some (err', c')"
      using False s len IH(1) by (simp add: Let_def)
    moreover have "same_list c c'" by (rule same_list_trans [OF sl IH(6)])
    ultimately show ?thesis using IH y by (intro exI [of _ err'] exI [of _ c'] exI [of _ "x[88 := v] # es'"]) auto
  qed
qed

lemma inform_bss_run:
  assumes "list_inv c es"
  shows "\<exists>err c' es'. brcmf_inform_bss e c = Some (err, c') \<and> list_inv c' es' \<and> length (concat es') = length (concat es) \<and> same_list c c'"
proof (cases "list_count c \<noteq> 0 \<and> (list_version c < 109 \<or> 112 < list_version c)")
  case True
  then show ?thesis using assms by (intro exI [of _ E_OPNOTSUPP] exI [of _ c] exI [of _ es]) (simp add: brcmf_inform_bss_def same_list_refl)
next
  case False
  obtain front rest where buf: "escan_buf c = front @ concat es @ rest" "length front = 12"
    using list_inv_split [OF assms] by metis
  have es: "list_all bss_ok es" "unat (list_count c) = length es" using assms by (simp_all add: list_inv_def)
  obtain err c' es' where r: "inform_loop e (length es) (length front) c = Some (err, c')" "escan_buf c' = front @ concat es' @ rest"
    "list_all bss_ok es'" "length es' = length es" "length (concat es') = length (concat es)" "same_list c c'"
    using inform_loop_run [OF es(1) buf(1)] by blast
  have "list_inv c' es'"
  proof (rule list_invI [OF r(2) buf(2) _ r(3)])
    show "length (escan_buf c') = 65000" using r(2,5) buf assms by (simp add: list_inv_def)
    show "unat (list_count c') = length es'" using es r(4,6) by (simp add: same_list_def)
  qed
  then show ?thesis using False r es buf by (auto simp: brcmf_inform_bss_def)
qed

section \<open>Starting and ending\<close>

definition request_ok :: "cfg80211_scan_request \<Rightarrow> bool" where
  "request_ok r \<longleftrightarrow> (\<forall>s\<in>set (rq_ssids r). length s \<le> 32)"

text \<open>A builder of one of the versions, memory for the structure that aborts a scan, and peer-to-peer hooks that return.\<close>

definition scan_env_ok :: "'f scan_env \<Rightarrow> bool" where
  "scan_env_ok e \<longleftrightarrow> (\<exists>v h. brcmf_scan_param_setup_for_version v h = (0, se_version e, Some (se_builder e)))
     \<and> se_alloc e ALLOC_SCAN_ABORT
     \<and> (\<forall>rq vif f. \<exists>err run f'. se_p2p_prep e rq vif f = Some (err, run, f')
          \<and> (\<forall>r ifp f. run = Some r \<longrightarrow> (\<exists>err f'. r ifp rq f = Some (err, f'))))"

lemma builder_cases: "brcmf_scan_param_setup_for_version v h = (0, v', Some b) \<Longrightarrow>
    b = brcmf_scan_param_get_prepped_struct_v1 \<or> b = brcmf_scan_param_get_prepped_struct_v2
    \<or> b = brcmf_scan_param_get_prepped_struct_v3 \<or> b = brcmf_scan_param_get_prepped_struct_v4"
  by (auto simp: brcmf_scan_param_setup_for_version_def split: if_splits)

lemmas builder_defs = brcmf_scan_param_get_prepped_struct_v1_def brcmf_scan_param_get_prepped_struct_v2_def
  brcmf_scan_param_get_prepped_struct_v3_def brcmf_scan_param_get_prepped_struct_v4_def

lemma builder_request:
  assumes "scan_env_ok e" and "request_ok r"
  shows "\<exists>p. se_builder e c mem (Some r) = Some p"
proof -
  obtain v h where b: "brcmf_scan_param_setup_for_version v h = (0, se_version e, Some (se_builder e))"
    using assms(1) by (auto simp: scan_env_ok_def)
  show ?thesis
  proof (cases mem)
    case True
    then show ?thesis using scan_structs [OF _ b, of r c] assms(2) by (auto simp: request_ok_def)
  next
    case False
    then show ?thesis using builder_cases [OF b] by (auto simp: builder_defs)
  qed
qed

lemma builder_abort: "scan_env_ok e \<Longrightarrow> \<exists>d. se_builder e c (se_alloc e ALLOC_SCAN_ABORT) None = Some (Some d)"
  unfolding scan_env_ok_def
  by (auto dest!: builder_cases simp: builder_defs brcmf_scan_param_tail_size_def write_bytes_def length_scan_parts Let_def)

lemma mpc_defined: "fw_accepts w \<Longrightarrow> \<exists>f'. brcmf_scan_config_mpc w e ifp n f = Some f'"
  using fw_accepts_int [of w ifp "IOVAR ''mpc''" n f] by (auto simp: brcmf_scan_config_mpc_def brcmf_set_mpc_def)

lemma run_escan_defined:
  assumes "fw_accepts w" and "scan_env_ok e" and "request_ok r"
  shows "\<exists>err f'. brcmf_run_escan w e ifp r f = Some (err, f')"
proof -
  obtain p where "se_builder e (se_chan e) (se_alloc e ALLOC_SCAN_STRUCT) (Some r) = Some p"
    using builder_request [OF assms(2,3)] by blast
  then show ?thesis
    using fw_accepts_put [OF assms(1), of ifp "IOVAR ''escan''"] by (cases p) (auto simp: brcmf_run_escan_def)
qed

text \<open>Beginning a scan empties the list.\<close>

definition begun :: "fil_if \<Rightarrow> scan_info \<Rightarrow> scan_info" where
  "begun ifp c = c\<lparr>escan_ifp := Some ifp, escan_scanning := True, list_version := 0, list_count := 0, list_buflen := 12\<rparr>"

lemma do_escan_run:
  assumes "fw_accepts w" and "\<And>f. \<exists>err f'. run ifp r f = Some (err, f')"
  shows "\<exists>err f'. brcmf_do_escan w e run ifp r c f = Some (err, begun ifp c, f')"
proof -
  obtain f1 where 1: "brcmf_scan_config_mpc w e ifp 0 f = Some f1" using mpc_defined [OF assms(1)] by blast
  obtain err f2 where 2: "run ifp r f1 = Some (err, f2)" using assms(2) by blast
  obtain f3 where 3: "brcmf_scan_config_mpc w e ifp 1 f2 = Some f3" using mpc_defined [OF assms(1)] by blast
  show ?thesis by (simp add: brcmf_do_escan_def 1 2 3 begun_def)
qed

lemma begun_list: "length (escan_buf c) = BRCMF_ESCAN_BUF_SIZE \<Longrightarrow> list_inv (begun ifp c) [] \<and> room_inv (begun ifp c) []"
  by (simp add: list_inv_def room_inv_def begun_def)

text \<open>The invariant of scanning.\<close>

definition scan_inv :: "scan_info \<Rightarrow> u8 list list \<Rightarrow> bool" where
  "scan_inv c es \<longleftrightarrow> list_inv c es \<and> (sc_busy c \<longrightarrow> room_inv c es) \<and> (int_escan_map c \<noteq> 0 \<longrightarrow> sc_request c = None)
     \<and> (sc_request c \<noteq> None \<or> int_escan_map c \<noteq> 0 \<longrightarrow> sc_busy c \<and> escan_ifp c \<noteq> None)
     \<and> (escan_work c \<longrightarrow> escan_ifp c \<noteq> None)"

lemma report_buckets_run:
  assumes "pno_table_ok pi"
  shows "\<exists>calls. report_buckets pi aborted bs c = Some (c\<lparr>sc_calls := sc_calls c @ calls\<rparr>) \<and> done_requests calls = []"
proof (induction bs arbitrary: c)
  case Nil
  show ?case by (intro exI [of _ "[]"]) simp
next
  case (Cons b bs)
  obtain rid where rid: "brcmf_pno_find_reqid_by_bucket pi (of_nat b) = Some rid"
    using assms req_at_list [of pi "unat (of_nat b :: u32)"]
    by (cases "unat (of_nat b :: u32) < n_reqs pi") (auto simp: brcmf_pno_find_reqid_by_bucket_def pno_table_ok_def)
  let ?c = "if aborted then c else tell (SchedResults rid) c"
  obtain calls where "report_buckets pi aborted bs ?c = Some (?c\<lparr>sc_calls := sc_calls ?c @ calls\<rparr>)" "done_requests calls = []"
    using Cons.IH by blast
  then show ?case
    using rid by (intro exI [of _ "(if aborted then [] else [SchedResults rid]) @ calls"]) (simp add: tell_def)
qed

lemma scan_result_run:
  assumes "pno_table_ok pi" and "int_escan_map c \<noteq> 0 \<longrightarrow> rq = None" and "sc_request c = None"
  shows "\<exists>calls. scan_result pi rq aborted c = Some (c\<lparr>int_escan_map := 0, sc_calls := sc_calls c @ calls\<rparr>)
    \<and> done_requests calls = (case rq of None \<Rightarrow> [] | Some r \<Rightarrow> [r])"
proof (cases "int_escan_map c = 0")
  case True
  have same: "c\<lparr>int_escan_map := 0, sc_calls := x\<rparr> = c\<lparr>sc_calls := x\<rparr>" for x
    by (cases c) (use True in simp)
  have "scan_result pi rq aborted c = Some (c\<lparr>sc_calls := sc_calls c @ (case rq of None \<Rightarrow> [] | Some r \<Rightarrow> [ScanDone r aborted])\<rparr>)"
    using True by (cases rq) (simp_all add: scan_result_def tell_def)
  moreover have "done_requests (case rq of None \<Rightarrow> [] | Some r \<Rightarrow> [ScanDone r aborted]) = (case rq of None \<Rightarrow> [] | Some r \<Rightarrow> [r])"
    by (cases rq) simp_all
  ultimately show ?thesis unfolding same by blast
next
  case False
  obtain calls where "report_buckets pi aborted (set_bits_of (int_escan_map c)) (c\<lparr>int_escan_map := 0\<rparr>)
      = Some (c\<lparr>int_escan_map := 0, sc_calls := sc_calls c @ calls\<rparr>)" "done_requests calls = []"
    using report_buckets_run [OF assms(1), of aborted "set_bits_of (int_escan_map c)" "c\<lparr>int_escan_map := 0\<rparr>"] by auto
  then show ?thesis using False assms(2) by (auto simp: scan_result_def)
qed

text \<open>A scan that has ended: the request is answered, nothing is busy.\<close>

definition ended :: "scan_info \<Rightarrow> scan_info \<Rightarrow> bool" where
  "ended c c' \<longleftrightarrow> (\<exists>calls. c' = c\<lparr>sc_request := None, escan_timer := False, int_escan_map := 0,
      sc_calls := sc_calls c @ calls, sc_busy := False\<rparr> \<and> done_requests calls = (case sc_request c of None \<Rightarrow> [] | Some r \<Rightarrow> [r]))"

lemma notify_complete_run:
  assumes w: "fw_accepts w" and e: "scan_env_ok e" and pi: "pno_table_ok pi" and m: "int_escan_map c \<noteq> 0 \<longrightarrow> sc_request c = None"
  shows "\<exists>err c' f'. brcmf_notify_escan_complete w e pi (Some ifp) aborted fw_abort c f = Some (err, c', f') \<and> ended c c'"
proof -
  obtain d where d: "se_builder e (se_chan e) (se_alloc e ALLOC_SCAN_ABORT) None = Some (Some d)" using builder_abort [OF e] by blast
  obtain err1 f1 where f1: "fil_put w ifp (CMD BRCMF_C_SCAN) (Some d) f = Some (err1, f1)" using fw_accepts_put [OF w] by blast
  obtain err f2 where 2: "(if \<not> fw_abort then Some (True, 0, f) else do {
         data \<leftarrow> se_builder e (se_chan e) (se_alloc e ALLOC_SCAN_ABORT) None;
         case data of None \<Rightarrow> Some (False, 0, f)
         | Some d \<Rightarrow> do {
             i \<leftarrow> Some ifp;
             (err, f) \<leftarrow> fil_put w i (CMD BRCMF_C_SCAN) (Some d) f;
             Some (True, err, f) } }) = Some (True, err, f2)"
    using d f1 by (cases fw_abort) auto
  obtain f3 where 3: "brcmf_scan_config_mpc w e ifp 1 f2 = Some f3" using mpc_defined [OF w] by blast
  let ?c = "c\<lparr>sc_request := None, escan_timer := False\<rparr>"
  obtain calls where 4: "scan_result pi (sc_request c) aborted ?c = Some (?c\<lparr>int_escan_map := 0, sc_calls := sc_calls ?c @ calls\<rparr>)"
    "done_requests calls = (case sc_request c of None \<Rightarrow> [] | Some r \<Rightarrow> [r])"
    using scan_result_run [OF pi, of ?c "sc_request c" aborted] m by auto
  show ?thesis
    unfolding brcmf_notify_escan_complete_def Let_def 2 using 3 4 by (auto simp: ended_def)
qed

lemma ended_inv:
  assumes "scan_inv c es" and "ended c c'"
  shows "scan_inv c' es \<and> scan_outcome c' = scan_outcome c \<and> \<not> sc_busy c' \<and> sc_request c' = None \<and> int_escan_map c' = 0"
proof -
  obtain calls where c': "c' = c\<lparr>sc_request := None, escan_timer := False, int_escan_map := 0,
      sc_calls := sc_calls c @ calls, sc_busy := False\<rparr>"
    and calls: "done_requests calls = (case sc_request c of None \<Rightarrow> [] | Some r \<Rightarrow> [r])"
    using assms(2) by (auto simp: ended_def)
  have "scan_inv c' es" using assms(1) unfolding c' scan_inv_def list_inv_def by simp
  moreover have "scan_outcome c' = scan_outcome c" unfolding c' by (simp add: scan_outcome_def calls)
  ultimately show ?thesis by (simp add: c')
qed

lemma abort_run:
  assumes w: "fw_accepts w" and e: "scan_env_ok e" and pi: "pno_table_ok pi" and inv: "scan_inv c es"
  shows "\<exists>c' f'. brcmf_abort_scanning w e pi c f = Some (c', f') \<and> scan_inv c' es \<and> scan_outcome c' = scan_outcome c
    \<and> sc_request c' = None \<and> int_escan_map c' = 0"
proof (cases "int_escan_map c \<noteq> 0 \<or> sc_request c \<noteq> None")
  case True
  then obtain ifp where ifp: "escan_ifp c = Some ifp" using inv by (auto simp: scan_inv_def)
  let ?c = "c\<lparr>sc_abort := True, escan_scanning := False\<rparr>"
  have i: "scan_inv ?c es" using inv by (simp add: scan_inv_def list_inv_def room_inv_def)
  have m: "int_escan_map ?c \<noteq> 0 \<longrightarrow> sc_request ?c = None" using i by (simp add: scan_inv_def)
  obtain err c' f' where n: "brcmf_notify_escan_complete w e pi (Some ifp) True True ?c f = Some (err, c', f')" "ended ?c c'"
    using notify_complete_run [OF w e pi m] by blast
  have x: "scan_inv c' es" "scan_outcome c' = scan_outcome c" "sc_request c' = None" "int_escan_map c' = 0"
    using ended_inv [OF i n(2)] by (auto simp: scan_outcome_def)
  have "scan_inv (c'\<lparr>sc_busy := False, sc_abort := False\<rparr>) es" using x by (simp add: scan_inv_def list_inv_def)
  then show ?thesis using True n(1) x ifp by (simp add: brcmf_abort_scanning_def scan_outcome_def Let_def)
next
  case False
  then show ?thesis using inv
    by (auto simp: brcmf_abort_scanning_def scan_inv_def list_inv_def scan_outcome_def)
qed

text \<open>The elements of a request: well-formed, over a list of saved ones, and short enough for the request buffer.\<close>

definition scan_ie_ok :: "brcmf_cfg80211_vif \<Rightarrow> tlv list \<Rightarrow> bool" where
  "scan_ie_ok vif ts \<longleftrightarrow> (\<exists>s olds. saved_ie 0x10 vif = Some s \<and> saved_ok s olds) \<and> (\<forall>e\<in>set ts. tlv_ok e)
     \<and> length (tlvs_bytes ts) \<le> 512 \<and> length (vndr_cmds 0x10 ''add'' (take 5 (filter vndr_ok ts))) \<le> 512"

lemma set_mgmt_ie_defined:
  assumes w: "fw_accepts w" and ie: "scan_ie_ok vif ts"
  shows "\<exists>err v f'. brcmf_vif_set_mgmt_ie w mem (Some vif) 0x10 (Some (tlvs_bytes ts)) (of_nat (length (tlvs_bytes ts))) f
    = Some (err, Some v, f')"
proof (cases mem)
  case False
  then show ?thesis by (simp add: brcmf_vif_set_mgmt_ie_def)
next
  case True
  obtain s olds where s: "saved_ie 0x10 vif = Some s" "saved_ok s olds" using ie by (auto simp: scan_ie_ok_def)
  let ?want = "take 5 (filter vndr_ok ts)"
  obtain err f1 where p: "fil_put w (vif_ifp vif) (BSSCFG ''vndr_ie'') (Some (vndr_cmds 0x10 ''del'' olds @ vndr_cmds 0x10 ''add'' ?want)) f
      = Some (err, f1)" using fw_accepts_put [OF w] by blast
  have ts: "\<forall>e\<in>set ts. tlv_ok e" "length (tlvs_bytes ts) \<le> 512" "length (vndr_cmds 0x10 ''add'' ?want) \<le> 512"
    using ie by (simp_all add: scan_ie_ok_def)
  show ?thesis
    using set_mgmt_ie_run [OF s ts(1,2) refl ts(3), of w f] True p by (auto split: if_splits)
qed

lemma scan_run:
  assumes w: "fw_accepts w" and e: "scan_env_ok e" and inv: "scan_inv c es" and r: "request_ok r" and ie: "scan_ie_ok vif ts"
  shows "\<exists>err vif' c' f' es'. brcmf_cfg80211_scan w e vif r (tlvs_bytes ts) c f = Some (err, vif', c', f') \<and> scan_inv c' es'
    \<and> scan_outcome c' = scan_outcome c @ (if err = 0 then [r] else [])"
proof (cases "check_vif_up vif \<and> \<not> (sc_busy c \<or> sc_abort c \<or> sc_suppress c \<or> VIF_CONNECTING \<in> sme_state vif)")
  case False
  then show ?thesis using inv by (auto simp: brcmf_cfg80211_scan_def)
next
  case True
  let ?c = "c\<lparr>sc_request := Some r, sc_busy := True\<rparr>"
  have idle: "sc_request c = None" "int_escan_map c = 0" using True inv by (auto simp: scan_inv_def)
  have lb: "length (escan_buf c) = 65000" "list_inv c es" using inv by (simp_all add: scan_inv_def list_inv_def)
  have fail: "scan_inv (d\<lparr>sc_busy := False, sc_request := None\<rparr>) es" "scan_outcome (d\<lparr>sc_busy := False, sc_request := None\<rparr>) = scan_outcome c"
    if "d = ?c" for d
    using that idle inv by (simp_all add: scan_inv_def list_inv_def scan_outcome_def)
  have fail2: "scan_inv ((begun i ?c)\<lparr>sc_busy := False, sc_request := None\<rparr>) []"
    "scan_outcome ((begun i ?c)\<lparr>sc_busy := False, sc_request := None\<rparr>) = scan_outcome c" for i
    using idle lb by (simp_all add: scan_inv_def list_inv_def scan_outcome_def begun_def)
  have good: "scan_inv ((begun i ?c)\<lparr>escan_timer := True\<rparr>) []" "scan_outcome ((begun i ?c)\<lparr>escan_timer := True\<rparr>) = scan_outcome c @ [r]" for i
    using idle lb by (simp_all add: scan_inv_def list_inv_def room_inv_def scan_outcome_def begun_def)
  obtain err1 run f1 where 1: "se_p2p_prep e r vif f = Some (err1, run, f1)"
    and run: "\<And>q ifp f. run = Some q \<Longrightarrow> \<exists>err f'. q ifp r f = Some (err, f')"
    using e unfolding scan_env_ok_def by blast
  have steps: "brcmf_cfg80211_scan w e vif r (tlvs_bytes ts) c f = do {
      (err, vif, c, f) \<leftarrow> scan_steps w e vif r (tlvs_bytes ts) ?c f;
      Some (err, vif, if err \<noteq> 0 then c\<lparr>sc_busy := False, sc_request := None\<rparr> else c\<lparr>escan_timer := True\<rparr>, f) }"
    using True by (simp add: brcmf_cfg80211_scan_def)
  show ?thesis
  proof (cases "err1 = 0")
    case False
    then show ?thesis using 1 fail [OF refl] unfolding steps by (auto simp: scan_steps_def)
  next
    case True
    obtain err2 v f2 where 2: "brcmf_vif_set_mgmt_ie w (se_alloc e ALLOC_SCAN_IE) (Some vif) 0x10 (Some (tlvs_bytes ts))
        (of_nat (length (tlvs_bytes ts))) f1 = Some (err2, Some v, f2)"
      using set_mgmt_ie_defined [OF w ie] by blast
    show ?thesis
    proof (cases "err2 = 0")
      case False
      then show ?thesis using True 1 2 fail [OF refl] unfolding steps by (auto simp: scan_steps_def Let_def)
    next
      case err2: True
      let ?run = "case run of None \<Rightarrow> brcmf_run_escan w e | Some q \<Rightarrow> q"
      have "\<exists>err f'. ?run ifp r f = Some (err, f')" for ifp f
        using run run_escan_defined [OF w e r] by (cases run) auto
      then obtain err3 f3 where 3: "brcmf_do_escan w e ?run (se_via e (vif_ifp v)) r ?c f2 = Some (err3, begun (se_via e (vif_ifp v)) ?c, f3)"
        using do_escan_run [OF w] by blast
      show ?thesis
        using True err2 1 2 3 fail2 good unfolding steps by (cases "err3 = 0") (auto simp: scan_steps_def Let_def)
    qed
  qed
qed

lemma scan_inv_core:
  assumes "scan_inv c es" and "list_inv c' es'" and "sc_busy c' \<longrightarrow> room_inv c' es'" and "scan_core c' = scan_core c"
  shows "scan_inv c' es' \<and> scan_outcome c' = scan_outcome c"
  using assms by (simp add: scan_inv_def scan_core_simps scan_outcome_def)

lemma inform_inv:
  assumes inv: "scan_inv c es"
  shows "\<exists>err c' es'. brcmf_inform_bss e c = Some (err, c') \<and> scan_inv c' es' \<and> scan_outcome c' = scan_outcome c
    \<and> escan_ifp c' = escan_ifp c"
proof -
  have "list_inv c es" using inv by (simp add: scan_inv_def)
  then obtain err c' es' where i: "brcmf_inform_bss e c = Some (err, c')" "list_inv c' es'"
    "length (concat es') = length (concat es)" "same_list c c'"
    using inform_bss_run by blast
  have "scan_inv c' es'" "scan_outcome c' = scan_outcome c" "escan_ifp c' = escan_ifp c"
    using inv i(2-4) by (simp_all add: scan_inv_def same_list_def scan_core_simps room_inv_def scan_outcome_def)
  then show ?thesis using i(1) by blast
qed

lemma notify_inv:
  assumes w: "fw_accepts w" and e: "scan_env_ok e" and pi: "pno_table_ok pi" and inv: "scan_inv c es"
  shows "\<exists>err c' f'. brcmf_notify_escan_complete w e pi (Some ifp) aborted fw_abort c f = Some (err, c', f')
    \<and> scan_inv c' es \<and> scan_outcome c' = scan_outcome c"
proof -
  have m: "int_escan_map c \<noteq> 0 \<longrightarrow> sc_request c = None" using inv by (simp add: scan_inv_def)
  show ?thesis using notify_complete_run [OF w e pi m, of ifp aborted fw_abort f] ended_inv [OF inv] by blast
qed

lemma handler_run:
  assumes w: "fw_accepts w" and e: "scan_env_ok e" and pi: "pno_table_ok pi" and inv: "scan_inv c es"
    and ev: "bss_event_ok datalen data"
  shows "\<exists>err c' f' es'. brcmf_cfg80211_escan_handler w e pi ifp status datalen data c f = Some (err, c', f')
    \<and> scan_inv c' es' \<and> scan_outcome c' = scan_outcome c"
proof (cases "status = BRCMF_E_STATUS_ABORT \<or> \<not> sc_busy c")
  case True
  then show ?thesis using inv by (auto simp: brcmf_cfg80211_escan_handler_def)
next
  case False
  show ?thesis
  proof (cases "status = BRCMF_E_STATUS_PARTIAL")
    case True
    have l: "list_inv c es" "room_inv c es" using inv False by (simp_all add: scan_inv_def)
    obtain c' es' where "escan_partial e datalen data c = Some c'" "list_inv c' es'" "room_inv c' es'" "scan_core c' = scan_core c"
      using escan_partial_run [OF l ev] by blast
    then show ?thesis using scan_inv_core [OF inv] False True by (auto simp: brcmf_cfg80211_escan_handler_def)
  next
    case part: False
    let ?c = "c\<lparr>escan_scanning := False\<rparr>"
    have inv': "scan_inv ?c es" "scan_outcome ?c = scan_outcome c"
      using inv by (simp_all add: scan_inv_def list_inv_def room_inv_def scan_outcome_def)
    obtain err1 c1 es1 where 1: "brcmf_inform_bss e ?c = Some (err1, c1)" "scan_inv c1 es1" "scan_outcome c1 = scan_outcome ?c"
      using inform_inv [OF inv'(1)] by blast
    obtain err2 c2 f2 where 2: "brcmf_notify_escan_complete w e pi (Some ifp) (status \<noteq> BRCMF_E_STATUS_SUCCESS) False c1 f = Some (err2, c2, f2)"
      "scan_inv c2 es1" "scan_outcome c2 = scan_outcome c1"
      using notify_inv [OF w e pi 1(2)] by blast
    have "brcmf_cfg80211_escan_handler w e pi ifp status datalen data c f \<in> {Some (0, ?c, f), Some (0, c2, f2)}"
      using False part 1(1) 2(1) by (auto simp: brcmf_cfg80211_escan_handler_def Let_def)
    then show ?thesis using inv' 1(3) 2(2,3) by auto
  qed
qed

lemma timeout_inv: "scan_inv c es \<Longrightarrow> scan_inv (brcmf_escan_timeout c) es \<and> scan_outcome (brcmf_escan_timeout c) = scan_outcome c"
  by (auto simp: brcmf_escan_timeout_def scan_inv_def list_inv_def room_inv_def scan_outcome_def Let_def)

lemma worker_run:
  assumes w: "fw_accepts w" and e: "scan_env_ok e" and pi: "pno_table_ok pi" and inv: "scan_inv c es" and "escan_work c"
  shows "\<exists>c' f' es'. brcmf_cfg80211_escan_timeout_worker w e pi c f = Some (c', f') \<and> scan_inv c' es' \<and> scan_outcome c' = scan_outcome c"
proof -
  let ?c = "c\<lparr>escan_work := False\<rparr>"
  obtain ifp where ifp: "escan_ifp c = Some ifp" using inv assms(5) by (auto simp: scan_inv_def)
  have inv': "scan_inv ?c es" "scan_outcome ?c = scan_outcome c"
    using inv by (simp_all add: scan_inv_def list_inv_def room_inv_def scan_outcome_def)
  obtain err1 c1 es1 where 1: "brcmf_inform_bss e ?c = Some (err1, c1)" "scan_inv c1 es1" "scan_outcome c1 = scan_outcome ?c"
    "escan_ifp c1 = escan_ifp ?c" using inform_inv [OF inv'(1)] by blast
  obtain err2 c2 f2 where 2: "brcmf_notify_escan_complete w e pi (Some ifp) True True c1 f = Some (err2, c2, f2)"
    "scan_inv c2 es1" "scan_outcome c2 = scan_outcome c1" using notify_inv [OF w e pi 1(2)] by blast
  have "brcmf_cfg80211_escan_timeout_worker w e pi c f = Some (c2, f2)"
    using 1(1,4) 2(1) ifp by (simp add: brcmf_cfg80211_escan_timeout_worker_def Let_def)
  then show ?thesis using 1(3) 2(2,3) inv'(2) by auto
qed

lemma internal_escan_run:
  assumes w: "fw_accepts w" and e: "scan_env_ok e" and pi: "pno_table_ok pi" and inv: "scan_inv c es" and r: "request_ok r"
  shows "\<exists>err c' f' es'. brcmf_start_internal_escan w e pi ifp fwmap r c f = Some (err, c', f') \<and> scan_inv c' es'
    \<and> scan_outcome c' = scan_outcome c"
proof -
  obtain c1 f1 where 1: "(if sc_busy c then brcmf_abort_scanning w e pi c f else Some (c, f)) = Some (c1, f1)" "scan_inv c1 es"
    "scan_outcome c1 = scan_outcome c" "sc_request c1 = None" "int_escan_map c1 = 0"
  proof (cases "sc_busy c")
    case True
    then show ?thesis using that abort_run [OF w e pi inv, of f] by auto
  next
    case False
    then show ?thesis using that [of c f] inv by (auto simp: scan_inv_def)
  qed
  let ?c = "c1\<lparr>sc_busy := True\<rparr>"
  obtain err f2 where 2: "brcmf_do_escan w e (brcmf_run_escan w e) ifp r ?c f1 = Some (err, begun ifp ?c, f2)"
    using do_escan_run [where run = "brcmf_run_escan w e" and r = r and w = w] w run_escan_defined [OF w e r] by blast
  have lb: "length (escan_buf c1) = 65000" using 1(2) by (simp add: scan_inv_def list_inv_def)
  have "scan_inv ((begun ifp ?c)\<lparr>sc_busy := False\<rparr>) []" "scan_outcome ((begun ifp ?c)\<lparr>sc_busy := False\<rparr>) = scan_outcome c1"
    "scan_inv ((begun ifp ?c)\<lparr>int_escan_map := fwmap\<rparr>) []" "scan_outcome ((begun ifp ?c)\<lparr>int_escan_map := fwmap\<rparr>) = scan_outcome c1"
    using 1 lb by (simp_all add: scan_inv_def list_inv_def room_inv_def scan_outcome_def begun_def)
  then show ?thesis
    unfolding brcmf_start_internal_escan_def using 1(1,3) 2 by (cases "err = 0") auto
qed

lemma add_new_run: "length xs < room \<Longrightarrow> \<exists>ys. add_new room x xs = Some ys \<and> length ys \<le> length xs + 1 \<and> set ys \<subseteq> insert x (set xs)"
  by auto

context pno_results
begin

lemma collect_run:
  assumes ev: "pno_event_ok (get_min_data_len h) data el" and v: "validate_pfn_results h data el = Some 0"
    and c: "get_result_count h data = Some n" and pi: "pno_table_ok pi"
  shows "i + k = unat n \<Longrightarrow> length (rq_channels req) \<le> i \<Longrightarrow> length (rq_ssids req) \<le> i \<Longrightarrow> request_ok req \<Longrightarrow>
    \<exists>err m req'. collect_results e h pi data (unat n) k i bm req = Some (err, m, req') \<and> request_ok req'"
proof (induction k arbitrary: i bm req)
  case 0
  then show ?case by simp
next
  case (Suc k)
  have i: "i < unat n" using Suc.prems by simp
  obtain r where r: "get_result_info h data i = Some r" "length (res_ssid r) \<le> 32" using info [OF ev v c i] by blast
  obtain m where m: "get_bucket_map h data i pi = Some m" using buckets [OF ev v c i pi] by blast
  have sp: "length (rq_channels req) < unat n" "length (rq_ssids req) < unat n" using Suc.prems i by auto
  obtain err req1 where a: "brcmf_internal_escan_add_info e (unat n) r req = Some (err, req1)"
    "length (rq_channels req1) \<le> i + 1" "length (rq_ssids req1) \<le> i + 1" "request_ok req1"
  proof (cases "se_freq e (res_channel r) (res_band r) = 0 \<or> se_channel e (se_freq e (res_channel r) (res_band r)) = None")
    case True
    then show ?thesis using that [of E_INVAL req] Suc.prems by (auto simp: brcmf_internal_escan_add_info_def Let_def)
  next
    case False
    then obtain ch where ch: "se_channel e (se_freq e (res_channel r) (res_band r)) = Some ch" by auto
    obtain cs where cs: "add_new (unat n) ch (rq_channels req) = Some cs" "length cs \<le> length (rq_channels req) + 1"
      using add_new_run [OF sp(1)] by blast
    obtain ss where ss: "add_new (unat n) (res_ssid r) (rq_ssids req) = Some ss" "length ss \<le> length (rq_ssids req) + 1"
      "set ss \<subseteq> insert (res_ssid r) (set (rq_ssids req))" using add_new_run [OF sp(2)] by blast
    show ?thesis
      using that [of 0 "req\<lparr>rq_channels := cs, rq_ssids := ss\<rparr>"] False ch cs ss r(2) Suc.prems
      by (auto simp: brcmf_internal_escan_add_info_def Let_def request_ok_def simp del: add_new.simps)
  qed
  show ?case
    using Suc.IH [of "i + 1" req1 "bm OR m"] Suc.prems a by (auto simp: r m)
qed

lemma sched_results_run:
  assumes w: "fw_accepts w" and e: "scan_env_ok e" and pi: "pno_table_ok pi" and inv: "scan_inv c es"
    and len: "length data = unat datalen"
  shows "\<exists>err c' f' es'. brcmf_notify_sched_scan_results w e h pi ifp code datalen data c f = Some (err, c', f')
    \<and> scan_inv c' es' \<and> scan_outcome c' = scan_outcome c"
proof -
  have st: "scan_inv (tell (SchedStopped 0) d) es' \<and> scan_outcome (tell (SchedStopped 0) d) = scan_outcome d" if "scan_inv d es'" for d es'
    using that by (simp add: tell_def scan_inv_def list_inv_def room_inv_def scan_outcome_def)
  show ?thesis
  proof (cases "datalen < get_min_data_len h \<or> code = 34")
    case True
    then show ?thesis using inv by (auto simp: brcmf_notify_sched_scan_results_def)
  next
    case False
    then have ev: "pno_event_ok (get_min_data_len h) data datalen" using len by (auto simp: pno_event_ok_def)
    obtain n s v where n: "get_result_count h data = Some n" "get_result_status h data = Some s" "validate_pfn_results h data datalen = Some v"
      using header [OF ev] by blast
    show ?thesis
    proof (cases "n = 0 \<or> v \<noteq> 0 \<or> \<not> se_alloc e ALLOC_INTERNAL")
      case True
      then show ?thesis using False n st [OF inv] by (auto simp: brcmf_notify_sched_scan_results_def Let_def)
    next
      case go: False
      let ?req = "\<lparr>rq_channels = [], rq_ssids = [], rq_flags = 0\<rparr>"
      obtain err m req where col: "collect_results e h pi data (unat n) (unat n) 0 0 ?req = Some (err, m, req)" "request_ok req"
        using collect_run [OF ev _ n(1) pi, of 0 "unat n" ?req e 0] go n(3) by (auto simp: request_ok_def)
      obtain err2 c2 f2 es2 where 2: "brcmf_start_internal_escan w e pi ifp m req c f = Some (err2, c2, f2)" "scan_inv c2 es2"
        "scan_outcome c2 = scan_outcome c" using internal_escan_run [OF w e pi inv col(2)] by blast
      have "brcmf_notify_sched_scan_results w e h pi ifp code datalen data c f
          \<in> {Some (err, tell (SchedStopped 0) c, f), Some (0, c, f), Some (err2, tell (SchedStopped 0) c2, f2), Some (err2, c2, f2)}"
        using False n go col(1) 2(1) by (auto simp: brcmf_notify_sched_scan_results_def Let_def)
      then show ?thesis using inv st [OF inv] st [OF 2(2)] 2(2,3) by auto
    qed
  qed
qed

end

lemma pno_handler_version:
  assumes "pno_env_ok pe"
  shows "pe_handler pe = pno_handler_of 2 \<or> pe_handler pe = pno_handler_of 3"
proof -
  obtain v h where "brcmf_pno_setup_for_version v h = (0, Some (pe_handler pe))" using assms by (auto simp: pno_env_ok_def)
  then show ?thesis
    by (cases "v = 2"; cases "v = 3") (auto simp: brcmf_pno_setup_for_version_def pno_handler_of_def)
qed

lemma sched_event_run:
  assumes "fw_accepts w" and "scan_env_ok e" and pe: "pno_env_ok pe" and "pno_table_ok pi" and "scan_inv c es"
    and "length data = unat datalen"
  shows "\<exists>err c' f' es'. brcmf_notify_sched_scan_results w e (pe_handler pe) pi ifp code datalen data c f = Some (err, c', f')
    \<and> scan_inv c' es' \<and> scan_outcome c' = scan_outcome c"
  using pno_handler_version [OF pe] res_v2.sched_results_run [OF assms(1,2,4,5,6)] res_v3.sched_results_run [OF assms(1,2,4,5,6)]
  by auto

section \<open>Any sequence of events\<close>

text \<open>What can happen: a request with the vendor elements it brings, an event of the firmware, the timer, its work
  item, an abort, a report of a scheduled scan, and starting and stopping those.\<close>

datatype scan_op = ScanStart brcmf_cfg80211_vif cfg80211_scan_request "tlv list" | ScanEvent fil_if u32 u32 "u8 list"
  | ScanTimer | ScanWork | ScanAbort | SchedEvent fil_if u32 u32 "u8 list" | SchedStart cfg80211_sched_scan_request | SchedStop u64

fun scan_step :: "'f fil \<Rightarrow> 'f scan_env \<Rightarrow> 'f pno_env \<Rightarrow> fil_if \<Rightarrow> scan_op \<Rightarrow> scan_info \<Rightarrow> brcmf_pno_info \<Rightarrow> 'f \<Rightarrow>
    (int \<times> scan_info \<times> brcmf_pno_info \<times> 'f) option" where
  "scan_step w e pe ifp (ScanStart vif r ts) c pi f = do {
     (err, _, c, f) \<leftarrow> brcmf_cfg80211_scan w e vif r (tlvs_bytes ts) c f;
     Some (err, c, pi, f) }"
| "scan_step w e pe ifp (ScanEvent i status datalen data) c pi f = do {
     (err, c, f) \<leftarrow> brcmf_cfg80211_escan_handler w e pi i status datalen data c f;
     Some (err, c, pi, f) }"
| "scan_step w e pe ifp ScanTimer c pi f = Some (0, if escan_timer c then brcmf_escan_timeout c else c, pi, f)"
| "scan_step w e pe ifp ScanWork c pi f = (if escan_work c then do {
     (c, f) \<leftarrow> brcmf_cfg80211_escan_timeout_worker w e pi c f;
     Some (0, c, pi, f) } else Some (0, c, pi, f))"
| "scan_step w e pe ifp ScanAbort c pi f = do {
     (c, f) \<leftarrow> brcmf_abort_scanning w e pi c f;
     Some (0, c, pi, f) }"
| "scan_step w e pe ifp (SchedEvent i code datalen data) c pi f = do {
     (err, c, f) \<leftarrow> brcmf_notify_sched_scan_results w e (pe_handler pe) pi i code datalen data c f;
     Some (err, c, pi, f) }"
| "scan_step w e pe ifp (SchedStart r) c pi f = do {
     (err, pi, f) \<leftarrow> brcmf_cfg80211_sched_scan_start w pe ifp r c pi f;
     Some (err, c, pi, f) }"
| "scan_step w e pe ifp (SchedStop rid) c pi f = brcmf_cfg80211_sched_scan_stop w e pe ifp rid c pi f"

fun scan_ops :: "'f fil \<Rightarrow> 'f scan_env \<Rightarrow> 'f pno_env \<Rightarrow> fil_if \<Rightarrow> scan_op list \<Rightarrow> scan_info \<Rightarrow> brcmf_pno_info \<Rightarrow> 'f \<Rightarrow>
    (int list \<times> scan_info \<times> brcmf_pno_info \<times> 'f) option" where
  "scan_ops w e pe ifp [] c pi f = Some ([], c, pi, f)"
| "scan_ops w e pe ifp (x # xs) c pi f = do {
     (err, c, pi, f) \<leftarrow> scan_step w e pe ifp x c pi f;
     (errs, c, pi, f) \<leftarrow> scan_ops w e pe ifp xs c pi f;
     Some (err # errs, c, pi, f) }"

text \<open>The requests that were accepted, and what is asked of the events.\<close>

fun scans_accepted :: "scan_op list \<Rightarrow> int list \<Rightarrow> cfg80211_scan_request list" where
  "scans_accepted (ScanStart vif r ts # xs) (err # errs) = (if err = 0 then r # scans_accepted xs errs else scans_accepted xs errs)"
| "scans_accepted (_ # xs) (err # errs) = scans_accepted xs errs"
| "scans_accepted _ _ = []"

fun scan_op_ok :: "scan_op \<Rightarrow> bool" where
  "scan_op_ok (ScanStart vif r ts) = (request_ok r \<and> scan_ie_ok vif ts)"
| "scan_op_ok (ScanEvent i status datalen data) = bss_event_ok datalen data"
| "scan_op_ok (SchedEvent i code datalen data) = (length data = unat datalen)"
| "scan_op_ok (SchedStart r) = req_ok r"
| "scan_op_ok _ = True"

fun sched_starts :: "scan_op list \<Rightarrow> u64 list" where
  "sched_starts [] = []"
| "sched_starts (SchedStart r # xs) = reqid r # sched_starts xs"
| "sched_starts (_ # xs) = sched_starts xs"

definition table_ids :: "brcmf_pno_info \<Rightarrow> u64 list" where
  "table_ids pi = map reqid (pno_list pi)"

lemma step_run:
  assumes w: "fw_accepts w" and e: "scan_env_ok e" and pe: "pno_env_ok pe"
    and inv: "scan_inv c es" "pno_table_ok pi" "distinct (table_ids pi @ sched_starts (x # xs))" and ok: "scan_op_ok x"
  shows "\<exists>err c' pi' f' es'. scan_step w e pe ifp x c pi f = Some (err, c', pi', f') \<and> scan_inv c' es' \<and> pno_table_ok pi'
    \<and> distinct (table_ids pi' @ sched_starts xs) \<and> scan_outcome c' = scan_outcome c @ scans_accepted [x] [err]"
proof (cases x)
  case (ScanStart vif r ts)
  then show ?thesis using scan_run [OF w e inv(1), of r vif ts f] ok inv by fastforce
next
  case (ScanEvent i status datalen data)
  then show ?thesis using handler_run [OF w e inv(2,1), of datalen data i status f] ok inv by fastforce
next
  case ScanTimer
  then show ?thesis using timeout_inv [OF inv(1)] inv by auto
next
  case ScanWork
  then show ?thesis using worker_run [OF w e inv(2,1), of f] inv by (cases "escan_work c") fastforce+
next
  case ScanAbort
  then show ?thesis using abort_run [OF w e inv(2,1), of f] inv by fastforce
next
  case (SchedEvent i code datalen data)
  then show ?thesis using sched_event_run [OF w e pe inv(2,1), of data datalen i code f] ok inv by fastforce
next
  case (SchedStart r)
  show ?thesis
  proof (cases "sc_suppress c \<or> match_sets r = []")
    case True
    then show ?thesis using SchedStart inv by (auto simp: brcmf_cfg80211_sched_scan_start_def)
  next
    case False
    have t: "pno_inv pi" "list_all req_ok (pno_list pi @ [r])" "distinct (map reqid (pno_list pi @ [r]))"
      using inv ok SchedStart by (auto simp: pno_table_ok_def table_ids_def)
    obtain err pi' f' where s: "brcmf_pno_start_sched_scan w pe ifp r pi f = Some (err, pi', f')" "pno_inv pi'"
      "pno_list pi' = (if err = 0 then pno_list pi @ [r] else pno_list pi)"
      using start_run [OF w pe t, of ifp f] by blast
    have "pno_table_ok pi'" "distinct (table_ids pi' @ sched_starts xs)"
      using s(2,3) t(2) inv(3) SchedStart by (auto simp: pno_table_ok_def table_ids_def)
    then show ?thesis using SchedStart False s(1) inv(1) by (auto simp: brcmf_cfg80211_sched_scan_start_def)
  qed
next
  case (SchedStop rid)
  have t: "pno_inv pi" "list_all req_ok (pno_list pi)" "distinct (map reqid (pno_list pi))"
    using inv by (auto simp: pno_table_ok_def table_ids_def)
  obtain err pi' f1 where s: "brcmf_pno_stop_sched_scan w pe ifp rid pi f = Some (err, pi', f1)" "pno_inv pi'"
    "pno_list pi' = filter (\<lambda>r. reqid r \<noteq> rid) (pno_list pi)"
    using stop_run [OF w pe t, of ifp rid f] by blast
  have pi': "pno_table_ok pi'" "distinct (table_ids pi' @ sched_starts xs)"
    using s(2,3) t(2) inv(3) SchedStop by (auto simp: pno_table_ok_def table_ids_def list_all_iff distinct_map_filter)
  obtain err2 c2 f2 where n: "brcmf_notify_escan_complete w e pi' (Some ifp) True True c f1 = Some (err2, c2, f2)" "scan_inv c2 es"
    "scan_outcome c2 = scan_outcome c" using notify_inv [OF w e pi'(1) inv(1)] by blast
  show ?thesis using SchedStop s(1) n pi' inv(1) by (auto simp: brcmf_cfg80211_sched_scan_stop_def)
qed

lemma scans_accepted_Cons: "scans_accepted (x # xs) (err # errs) = scans_accepted [x] [err] @ scans_accepted xs errs"
  by (cases x) auto

lemma scan_ops_run:
  assumes w: "fw_accepts w" and e: "scan_env_ok e" and pe: "pno_env_ok pe"
  shows "scan_inv c es \<Longrightarrow> pno_table_ok pi \<Longrightarrow> distinct (table_ids pi @ sched_starts xs) \<Longrightarrow> list_all scan_op_ok xs \<Longrightarrow>
    \<exists>errs c' pi' f' es'. scan_ops w e pe ifp xs c pi f = Some (errs, c', pi', f') \<and> scan_inv c' es'
      \<and> scan_outcome c' = scan_outcome c @ scans_accepted xs errs"
proof (induction xs arbitrary: c es pi f)
  case Nil
  then show ?case by auto
next
  case (Cons x xs)
  obtain err c1 pi1 f1 es1 where 1: "scan_step w e pe ifp x c pi f = Some (err, c1, pi1, f1)" "scan_inv c1 es1" "pno_table_ok pi1"
    "distinct (table_ids pi1 @ sched_starts xs)" "scan_outcome c1 = scan_outcome c @ scans_accepted [x] [err]"
    using step_run [OF w e pe Cons.prems(1-3), of ifp f] Cons.prems(4) by auto
  obtain errs c' pi' f' es' where 2: "scan_ops w e pe ifp xs c1 pi1 f1 = Some (errs, c', pi', f')" "scan_inv c' es'"
    "scan_outcome c' = scan_outcome c1 @ scans_accepted xs errs"
  proof -
    have "list_all scan_op_ok xs" using Cons.prems(4) by simp
    then show ?thesis using that Cons.IH [OF 1(2-4), of f1] by blast
  qed
  have "scan_ops w e pe ifp (x # xs) c pi f = Some (err # errs, c', pi', f')" using 1(1) 2(1) by simp
  moreover have "scan_outcome c' = scan_outcome c @ scans_accepted (x # xs) (err # errs)"
    using 1(5) 2(3) scans_accepted_Cons [of x xs err errs] by simp
  ultimately show ?case using 2(2) by blast
qed

section \<open>Properties\<close>

definition scan_init :: "bool \<Rightarrow> scan_info" where
  "scan_init suppress = \<lparr>sc_request = None, sc_busy = False, sc_abort = False, sc_suppress = suppress, int_escan_map = 0,
     escan_ifp = None, escan_scanning = False, list_version = 0, list_count = 0, list_buflen = 0,
     escan_buf = replicate BRCMF_ESCAN_BUF_SIZE 0, escan_timer = False, escan_work = False, sc_calls = []\<rparr>"

lemma scan_init_inv: "scan_inv (scan_init s) []" "scan_outcome (scan_init s) = []"
  by (simp_all add: scan_init_def scan_inv_def list_inv_def scan_outcome_def)

text \<open>C38: Every scan request that was accepted is answered exactly once, in order, or is the one that is waiting: over any
  sequence of requests, firmware events, timer expiries, aborts and reports of scheduled scans, whatever the
  firmware answers. No step reads or writes outside the result buffer or an event, and none uses a missing
  interface.\<close>

theorem scan_requests_answered:
  assumes "fw_accepts w" and "scan_env_ok e" and "pno_env_ok pe" and "brcmf_pno_attach True x = (0, Some pi)"
    and "list_all scan_op_ok xs" and "distinct (sched_starts xs)"
  shows "\<exists>errs c' pi' f'. scan_ops w e pe ifp xs (scan_init s) pi f = Some (errs, c', pi', f')
    \<and> done_requests (sc_calls c') @ (case sc_request c' of None \<Rightarrow> [] | Some r \<Rightarrow> [r]) = scans_accepted xs errs"
proof -
  have "pno_table_ok pi" "distinct (table_ids pi @ sched_starts xs)"
    using attach_empty [OF assms(4)] assms(6) by (simp_all add: pno_table_ok_def table_ids_def)
  then obtain errs c' pi' f' where "scan_ops w e pe ifp xs (scan_init s) pi f = Some (errs, c', pi', f')"
    "scan_outcome c' = scan_outcome (scan_init s) @ scans_accepted xs errs"
    using scan_ops_run [OF assms(1-3) scan_init_inv(1) _ _ assms(5)] by blast
  moreover from this have "scan_outcome c' = scans_accepted xs errs" by (simp only: scan_init_inv(2) append_Nil)
  ultimately show ?thesis by (auto simp: scan_outcome_def [of c'])
qed

text \<open>A result event.\<close>

definition escan_event :: "u32 \<Rightarrow> u16 \<Rightarrow> u8 list \<Rightarrow> u8 list \<Rightarrow> u8 list" where
  "escan_event version sync b extra = (le32 (of_nat (12 + length b)) @ le32 version @ le16 sync @ le16 1) @ b @ extra"

lemma event_fields:
  assumes "bss_ok b"
  shows "read_le32 (escan_event v s b x) 0 = Some (of_nat (12 + length b))" "rd16 (escan_event v s b x) 10 = Some 1"
    "read_le32 (escan_event v s b x) 16 = Some (of_nat (length b))" "drop 12 (escan_event v s b x) = b @ x"
    "rd16 (escan_event v s b x) 28 = Some (of_le16 (b ! 16) (b ! 17))" "length (escan_event v s b x) = 12 + length b + length x"
proof -
  let ?h = "le32 (of_nat (12 + length b)) @ le32 v @ le16 s @ le16 1"
  have h: "length ?h = 12" by simp
  have l: "172 \<le> length b" "read_le32 b 4 = Some (of_nat (length b))" using assms by (simp_all add: bss_ok_def)
  show "read_le32 (escan_event v s b x) 0 = Some (of_nat (12 + length b))"
    using read_count [of "[]" 0] unfolding escan_event_def by (metis append_Nil append_assoc list.size(3))
  show "rd16 (escan_event v s b x) 10 = Some 1"
    by (simp add: escan_event_def rd16_def nth_opt_def nth_append le16_def of_le16_def le32_def)
  show "read_le32 (escan_event v s b x) 16 = Some (of_nat (length b))"
    using read_le32_inner [of 4 b ?h x] h l by (simp add: escan_event_def)
  show "rd16 (escan_event v s b x) 28 = Some (of_le16 (b ! 16) (b ! 17))"
    using rd16_at [of 16 b ?h x] h l by (simp add: escan_event_def)
qed (simp_all add: escan_event_def)

text \<open>C39: A result of a scan that does not fit into the rest of the buffer is dropped, even when its network is listed:
  nothing changes. Otherwise, if a listed network has the same address, band and name, the first such entry is updated
  in place and nothing is added: only the two bytes of its signal can change, and when both measurements were made on
  the channel, or both off it, the stronger signal is kept. If none has, the result is added at the end, once. The list
  stays well-formed, and the rest of the state does not change.\<close>

theorem escan_result_listed:
  assumes "list_inv c es" and "room_inv c es" and "bss_ok b" and "12 + length b + length x < 2 ^ 32"
    and "sc_busy c" and "sc_request c \<noteq> None \<or> int_escan_map c \<noteq> 0" and "\<not> se_common_channel e (Some (b @ x))"
    and "se_adhoc e \<or> of_le16 (b ! 16) (b ! 17) AND 2 = 0" and "12 + length b \<le> BRCMF_ESCAN_BUF_SIZE"
  shows "\<exists>c' es'. brcmf_cfg80211_escan_handler w e pi ifp BRCMF_E_STATUS_PARTIAL (of_nat (12 + length b + length x))
      (escan_event v s b x) c f = Some (0, c', f)
    \<and> list_inv c' es' \<and> room_inv c' es' \<and> scan_core c' = scan_core c
    \<and> (if BRCMF_ESCAN_BUF_SIZE < 12 + length (concat es) + length b then es' = es
       else if \<exists>y\<in>set es. same_network e y b then \<exists>ys y zs z. es = ys @ y # zs \<and> (\<forall>u\<in>set ys. \<not> same_network e u b)
         \<and> same_network e y b \<and> es' = ys @ z # zs \<and> bss_updated y b z
       else es' = es @ [b])"
proof -
  let ?h = "le32 (of_nat (12 + length b)) @ le32 v @ le16 s @ le16 1" and ?d = "escan_event v s b x"
  obtain c' where acc: "escan_accept e ?d (of_nat (length b)) c = Some c'" "list_inv c' (listed e b es)"
    "room_inv c' (listed e b es)" "scan_core c' = scan_core c"
    using accept_run [OF assms(1,2,3), of ?h e x] by (auto simp: escan_event_def)
  have l: "172 \<le> length b" using assms(3) by (simp add: bss_ok_def)
  have u: "unat (of_nat (12 + length b + length x) :: u32) = 12 + length b + length x"
    "unat (of_nat (12 + length b) :: u32) = 12 + length b"
    using assms(4) by (auto intro!: unat_of_nat_small simp del: of_nat_add)
  have m: "(of_nat (12 + length b) :: u32) - of_nat 12 = of_nat (length b)" by simp
  have nle: "\<not> (of_nat (12 + length b + length x) :: u32) < of_nat (12 + length b)"
    unfolding word_less_nat_alt u by simp
  note fields = event_fields [OF assms(3), of v s x]
  have "escan_partial e (of_nat (12 + length b + length x)) ?d c = Some c'"
    unfolding escan_partial_def u fields bind.simps(2)
    using l assms(6-9) nle acc(1) m by (simp add: u(2) fields del: of_nat_add of_nat_numeral) auto
  then have "brcmf_cfg80211_escan_handler w e pi ifp BRCMF_E_STATUS_PARTIAL (of_nat (12 + length b + length x)) ?d c f = Some (0, c', f)"
    using assms(5) by (simp add: brcmf_cfg80211_escan_handler_def)
  moreover have "list_all bss_ok es" using assms(1) by (simp add: list_inv_def)
  ultimately show ?thesis using acc(2-4) listed_cases by blast
qed

text \<open>A listed network that was measured on its channel gets the signal of a later measurement off the channel,
  which the comment in the code says it avoids, and is still marked as measured on its channel.\<close>

theorem escan_on_channel_lost:
  assumes "bss_ok y" and "bss_ok b" and "same_network e y b" and "on_channel y" and "\<not> on_channel b"
  shows "\<exists>z. brcmf_compare_update_same_bss e y 0 b 0 = Some (True, z) \<and> bss_rssi z = bss_rssi b \<and> on_channel z"
proof -
  have "172 \<le> length y" using assms(1) by (simp add: bss_ok_def)
  then have "bss_rssi (merge_bss y b) = bss_rssi b" "on_channel (merge_bss y b)"
    using assms(4,5) by (simp_all add: merge_bss_def bss_rssi_def on_channel_def)
  then show ?thesis
    using compare_update_inner [OF assms(1,2), of e "[]" "[]" "[]" "[]"] assms(3) by simp
qed

text \<open>C40: When there is no memory for the structure that aborts a scan, the request is forgotten without an answer, and
  the driver stays busy, so that no later scan is accepted. (One caller, \<open>brcmf_abort_scanning\<close>, clears the busy bit itself
  afterwards; the others do not.)\<close>

theorem scan_abort_forgotten:
  assumes "se_builder e (se_chan e) (se_alloc e ALLOC_SCAN_ABORT) None = Some None" and "sc_request c = Some r" and "sc_busy c"
    and "check_vif_up vif"
  shows "\<exists>c'. brcmf_notify_escan_complete w e pi ifp aborted True c f = Some (0, c', f) \<and> sc_request c' = None
    \<and> sc_calls c' = sc_calls c \<and> brcmf_cfg80211_scan w e vif r2 ie c' f2 = Some (E_AGAIN, vif, c', f2)"
  using assms by (simp add: brcmf_notify_escan_complete_def brcmf_cfg80211_scan_def Let_def)

section \<open>Witnesses\<close>

definition wit_senv :: "fw_log scan_env" where
  "wit_senv = \<lparr>se_alloc = (\<lambda>_. True), se_builder = brcmf_scan_param_get_prepped_struct_v2, se_version = 2, se_chan = wit_env,
     se_freq = (\<lambda>ch band. 2437), se_channel = (\<lambda>f. Some \<lparr>ic_band = NL80211_BAND_2GHZ, center_freq = f\<rparr>),
     se_d11inf = \<lparr>io_type = 2, encchspec = brcmu_d11ac_encchspec, decchspec = brcmu_d11ac_decchspec\<rparr>,
     se_junk = (ce_junk wit_env, ce_junk wit_env), se_vif_up = (\<lambda>_. True), se_via = (\<lambda>i. i),
     se_p2p_prep = (\<lambda>_ _ f. Some (0, None, f)), se_common_channel = (\<lambda>_. False), se_adhoc = True\<rparr>"

lemma wit_senv_ok: "scan_env_ok wit_senv"
  unfolding scan_env_ok_def wit_senv_def
  by (auto simp: brcmf_scan_param_setup_for_version_def intro!: exI [of _ "2 :: u8"])

text \<open>A network on channel 6 whose elements are empty.\<close>

definition wit_bss :: "u8 \<Rightarrow> u8 \<Rightarrow> u8 list" where
  "wit_bss rssi flags = le32 109 @ le32 172 @ [2, 0, 0, 0, 0, 1] @ le16 100 @ le16 1 @ [2, 65, 66] @ replicate 51 0 @ le16 0x1006 @
     replicate 4 0 @ [rssi, 255] @ replicate 16 0 @ [flags] @ replicate 19 0 @ le16 172 @ [0, 0] @ le32 0 @ replicate 48 0"

lemma wit_bss_ok: "bss_ok (wit_bss rssi flags)"
proof -
  have l: "length (wit_bss rssi flags) = 172" by (simp add: wit_bss_def)
  have "read_le32 (wit_bss rssi flags) 4 = Some 172"
    by (simp add: wit_bss_def read_le32_def read_bytes_def le32_word_def le32_def of_le32_def)
  moreover have "wit_bss rssi flags ! 18 = 2" by (simp add: wit_bss_def nth_append le32_def le16_def)
  moreover have "rd16 (wit_bss rssi flags) 116 = Some 172" "read_le32 (wit_bss rssi flags) 120 = Some 0"
    by (simp_all add: wit_bss_def read_le32_def read_bytes_def le32_word_def le32_def of_le32_def le16_def rd16_def nth_opt_def
        nth_append of_le16_def)
  ultimately show ?thesis by (simp add: bss_ok_def l)
qed

lemma wit_bss_nth: "wit_bss r fl ! 16 = 1" "wit_bss r fl ! 17 = 0" "wit_bss r fl ! 18 = 2" "wit_bss r fl ! 72 = 6" "wit_bss r fl ! 73 = 16"
  "wit_bss r fl ! 78 = r" "wit_bss r fl ! 79 = 255" "wit_bss r fl ! 96 = fl"
  by (simp_all add: wit_bss_def nth_append le32_def le16_def)

lemma wit_bss_same: "same_network wit_senv (wit_bss r fl) (wit_bss r' fl')"
  by (simp add: same_network_def bss_band_def wit_bss_nth wit_senv_def) (simp add: wit_bss_def le32_def le16_def)

theorem scan_requests_answered_witness:
  "\<exists>errs c' pi' f'. scan_ops (rec_fil (\<lambda>_ b. b) (\<lambda>_. True)) wit_senv wit_pno_env wit_if
      [ScanStart wit_ready wit_scan [], ScanEvent wit_if 0 0 [], ScanTimer, ScanWork, ScanAbort]
      (scan_init False) \<lparr>n_reqs = 0, pno_reqs = replicate 16 None\<rparr> [] = Some (errs, c', pi', f')
    \<and> done_requests (sc_calls c') @ (case sc_request c' of None \<Rightarrow> [] | Some r \<Rightarrow> [r])
      = scans_accepted [ScanStart wit_ready wit_scan [], ScanEvent wit_if 0 0 [], ScanTimer, ScanWork, ScanAbort] errs"
proof (rule scan_requests_answered [where x = None])
  have "saved_ie 0x10 wit_ready = Some (replicate 512 0, 0)" by (simp add: saved_ie_def wit_ready_def wit_vif_def)
  moreover have "saved_ok (replicate 512 0, 0) []" by (simp add: saved_ok_def)
  ultimately have "scan_ie_ok wit_ready []" unfolding scan_ie_ok_def by auto
  then show "list_all scan_op_ok [ScanStart wit_ready wit_scan [], ScanEvent wit_if 0 0 [], ScanTimer, ScanWork, ScanAbort]"
    by (simp add: request_ok_def wit_scan_def bss_event_ok_def)
qed (simp_all add: fw_accepts_def wit_senv_ok wit_env_ok brcmf_pno_attach_def)

theorem escan_result_listed_witness:
  "\<exists>c1 c2 z. brcmf_cfg80211_escan_handler (rec_fil (\<lambda>_ b. b) (\<lambda>_. True)) wit_senv wit_table wit_if BRCMF_E_STATUS_PARTIAL 184
      (escan_event 1 0x1234 (wit_bss 200 4) []) ((begun wit_if (scan_init False))\<lparr>sc_busy := True, sc_request := Some wit_scan\<rparr>) []
      = Some (0, c1, []) \<and> list_inv c1 [wit_bss 200 4]
    \<and> brcmf_cfg80211_escan_handler (rec_fil (\<lambda>_ b. b) (\<lambda>_. True)) wit_senv wit_table wit_if BRCMF_E_STATUS_PARTIAL 184
      (escan_event 1 0x1234 (wit_bss 210 4) []) c1 [] = Some (0, c2, []) \<and> list_inv c2 [z] \<and> bss_rssi z = - 46"
proof -
  let ?c = "(begun wit_if (scan_init False))\<lparr>sc_busy := True, sc_request := Some wit_scan\<rparr>"
  have i: "list_inv ?c []" "room_inv ?c []"
    using begun_list [of "scan_init False" wit_if] by (simp_all add: scan_init_def list_inv_def room_inv_def)
  have l: "length (wit_bss r 4) = 172" for r by (simp add: wit_bss_def)
  note step = escan_result_listed [where x = "[]" and e = wit_senv and w = "rec_fil (\<lambda>_ b. b) (\<lambda>_. True)" and pi = wit_table
      and ifp = wit_if and v = 1 and s = "0x1234" and f = "[]"]
  obtain c1 where 1: "brcmf_cfg80211_escan_handler (rec_fil (\<lambda>_ b. b) (\<lambda>_. True)) wit_senv wit_table wit_if BRCMF_E_STATUS_PARTIAL 184
      (escan_event 1 0x1234 (wit_bss 200 4) []) ?c [] = Some (0, c1, [])"
    "list_inv c1 [wit_bss 200 4]" "room_inv c1 [wit_bss 200 4]" "scan_core c1 = scan_core ?c"
    using step [OF i wit_bss_ok [of 200 4]] by (simp add: l wit_senv_def) auto
  have core: "sc_busy c1" "sc_request c1 \<noteq> None" using 1(4) by (simp_all add: scan_core_def)
  have r: "bss_rssi (wit_bss 200 4) = - 56" "bss_rssi (wit_bss 210 4) = - 46" "on_channel (wit_bss 200 4) = on_channel (wit_bss 210 4)"
    by (simp_all add: on_channel_def bss_rssi_def wit_bss_nth of_le16_def)
  obtain c2 z where "brcmf_cfg80211_escan_handler (rec_fil (\<lambda>_ b. b) (\<lambda>_. True)) wit_senv wit_table wit_if BRCMF_E_STATUS_PARTIAL 184
      (escan_event 1 0x1234 (wit_bss 210 4) []) c1 [] = Some (0, c2, [])" "list_inv c2 [z]" "bss_updated (wit_bss 200 4) (wit_bss 210 4) z"
    using step [OF 1(2,3) wit_bss_ok [of 210 4]] core wit_bss_same [of 200 4 210 4]
    by (simp add: l wit_senv_def Cons_eq_append_conv) auto
  then show ?thesis using 1(1,2) r by (auto simp: bss_updated_def)
qed

theorem escan_on_channel_lost_witness:
  "\<exists>z. brcmf_compare_update_same_bss wit_senv (wit_bss 200 4) 0 (wit_bss 160 0) 0 = Some (True, z) \<and> bss_rssi z = - 96 \<and> on_channel z"
proof -
  have "on_channel (wit_bss 200 4)" "\<not> on_channel (wit_bss 160 0)" "bss_rssi (wit_bss 160 0) = - 96"
    by (simp_all add: on_channel_def bss_rssi_def wit_bss_nth of_le16_def)
  then show ?thesis using escan_on_channel_lost [OF wit_bss_ok [of 200 4] wit_bss_ok [of 160 0] wit_bss_same] by simp
qed

theorem scan_abort_forgotten_witness:
  "\<exists>c'. brcmf_notify_escan_complete (rec_fil (\<lambda>_ b. b) (\<lambda>_. True)) (wit_senv\<lparr>se_alloc := (\<lambda>_. False)\<rparr>) wit_table (Some wit_if) True True
      ((begun wit_if (scan_init False))\<lparr>sc_busy := True, sc_request := Some wit_scan\<rparr>) [] = Some (0, c', []) \<and> sc_request c' = None
    \<and> sc_calls c' = [] \<and> brcmf_cfg80211_scan (rec_fil (\<lambda>_ b. b) (\<lambda>_. True)) (wit_senv\<lparr>se_alloc := (\<lambda>_. False)\<rparr>) wit_ready wit_scan [] c' [] = Some (E_AGAIN, wit_ready, c', [])"
proof -
  have "\<exists>c'. brcmf_notify_escan_complete (rec_fil (\<lambda>_ b. b) (\<lambda>_. True)) (wit_senv\<lparr>se_alloc := (\<lambda>_. False)\<rparr>) wit_table (Some wit_if) True True
      ((begun wit_if (scan_init False))\<lparr>sc_busy := True, sc_request := Some wit_scan\<rparr>) [] = Some (0, c', []) \<and> sc_request c' = None
    \<and> sc_calls c' = sc_calls ((begun wit_if (scan_init False))\<lparr>sc_busy := True, sc_request := Some wit_scan\<rparr>)
    \<and> brcmf_cfg80211_scan (rec_fil (\<lambda>_ b. b) (\<lambda>_. True)) (wit_senv\<lparr>se_alloc := (\<lambda>_. False)\<rparr>) wit_ready wit_scan [] c' [] = Some (E_AGAIN, wit_ready, c', [])"
    by (rule scan_abort_forgotten)
      (simp_all add: wit_senv_def brcmf_scan_param_get_prepped_struct_v2_def begun_def check_vif_up_def wit_ready_def)
  then show ?thesis by (simp add: begun_def scan_init_def)
qed

end
